(* ===== verification/Rtai_Prelude.thy ===== *)
theory Rtai_Prelude
  imports Main "HOL-Library.Word" "HOL-Library.Monad_Syntax"
begin

text \<open>
  Shared material of the development.  The RTAI sources keep every queue of the kernel (ready
  tasks, timed tasks, tasks blocked on a semaphore, a message queue or a bit mask, timers,
  processes blocked on a fifo) as a circular doubly linked list threaded through the queued
  objects, with a sentinel object as the head.  This theory models such lists with their link
  fields as functions from nodes to nodes, as the code manipulates them, relates them to HOL
  lists (\<open>ring\<close>), and states once what the two link manipulations of the sources do: the
  chained assignment that links a node in front of another one and the pair of assignments
  that takes a node out.  The ordered insertion walks of the sources are the interface
  \<open>ordered_walk\<close>.
\<close>

unbundle bit_operations_syntax

named_theorems ring_simps \<open>rewriting of the link fields of circular lists\<close>

named_theorems flag_simps \<open>computation with the bits of a task state\<close>

section \<open>Circular doubly linked lists\<close>

text \<open>
  \<open>links nx pv a xs b\<close>: following \<open>nx\<close> from \<open>a\<close> visits the nodes of \<open>xs\<close> and arrives at
  \<open>b\<close>, and \<open>pv\<close> leads all the way back.  A ring with head \<open>h\<close> is such a path from \<open>h\<close> to
  itself that visits every node once.
\<close>

primrec links :: "('a \<Rightarrow> 'a) \<Rightarrow> ('a \<Rightarrow> 'a) \<Rightarrow> 'a \<Rightarrow> 'a list \<Rightarrow> 'a \<Rightarrow> bool" where
  "links nx pv a [] b \<longleftrightarrow> nx a = b \<and> pv b = a"
| "links nx pv a (x # xs) b \<longleftrightarrow> nx a = x \<and> pv x = a \<and> links nx pv x xs b"

definition ring :: "('a \<Rightarrow> 'a) \<Rightarrow> ('a \<Rightarrow> 'a) \<Rightarrow> 'a \<Rightarrow> 'a list \<Rightarrow> bool" where
  "ring nx pv h xs \<longleftrightarrow> distinct (h # xs) \<and> links nx pv h xs h"

text \<open>
  The link code of the sources, field by field.  Linking \<open>y\<close> in front of \<open>pos\<close> is
  \<^verbatim>\<open>pos->prev = (y->prev = pos->prev)->next = y; y->next = pos;\<close> and taking \<open>x\<close> out is
  \<^verbatim>\<open>(x->prev)->next = x->next; (x->next)->prev = x->prev;\<close>
\<close>

definition link_nx :: "('a \<Rightarrow> 'a) \<Rightarrow> ('a \<Rightarrow> 'a) \<Rightarrow> 'a \<Rightarrow> 'a \<Rightarrow> 'a \<Rightarrow> 'a" where
  "link_nx nx pv y pos = (nx(pv pos := y))(y := pos)"

definition link_pv :: "('a \<Rightarrow> 'a) \<Rightarrow> 'a \<Rightarrow> 'a \<Rightarrow> 'a \<Rightarrow> 'a" where
  "link_pv pv y pos = (pv(y := pv pos))(pos := y)"

definition unlink_nx :: "('a \<Rightarrow> 'a) \<Rightarrow> ('a \<Rightarrow> 'a) \<Rightarrow> 'a \<Rightarrow> 'a \<Rightarrow> 'a" where
  "unlink_nx nx pv x = nx(pv x := nx x)"

definition unlink_pv :: "('a \<Rightarrow> 'a) \<Rightarrow> ('a \<Rightarrow> 'a) \<Rightarrow> 'a \<Rightarrow> 'a \<Rightarrow> 'a" where
  "unlink_pv nx pv x = pv(nx x := pv x)"

lemma links_append:
  "links nx pv a (xs @ y # ys) b \<longleftrightarrow> links nx pv a xs y \<and> links nx pv y ys b"
  by (induction xs arbitrary: a) auto

lemma links_upd_nx [simp]:
  "u \<notin> set (a # xs) \<Longrightarrow> links (nx(u := v)) pv a xs b = links nx pv a xs b"
  by (induction xs arbitrary: a) auto

lemma links_upd_pv [simp]:
  "u \<notin> set (xs @ [b]) \<Longrightarrow> links nx (pv(u := v)) a xs b = links nx pv a xs b"
  by (induction xs arbitrary: a) auto

lemma links_first: "links nx pv a xs b \<Longrightarrow> nx a = hd (xs @ [b])"
  by (cases xs) auto

lemma links_last: "links nx pv a xs b \<Longrightarrow> pv b = last (a # xs)"
  by (induction xs arbitrary: a) auto

lemma links_unique:
  "links nx pv a xs b \<Longrightarrow> links nx pv a ys b \<Longrightarrow> b \<notin> set xs \<Longrightarrow> b \<notin> set ys \<Longrightarrow> xs = ys"
proof (induction xs arbitrary: a ys)
  case Nil
  then show ?case by (cases ys) auto
next
  case (Cons x xs)
  then show ?case by (cases ys) auto
qed

lemma links_redirect:
  "links nx pv a xs b \<Longrightarrow> distinct (a # xs) \<Longrightarrow> c \<notin> set xs \<Longrightarrow>
     links (nx(last (a # xs) := c)) (pv(c := last (a # xs))) a xs c"
  by (induction xs arbitrary: a) auto

lemma ring_unique: "ring nx pv h xs \<Longrightarrow> ring nx pv h ys \<Longrightarrow> xs = ys"
  by (auto simp: ring_def intro: links_unique)

lemma ring_first: "ring nx pv h xs \<Longrightarrow> nx h = hd (xs @ [h])"
  by (auto simp: ring_def intro: links_first)

lemma ring_last: "ring nx pv h xs \<Longrightarrow> pv h = last (h # xs)"
  by (auto simp: ring_def dest: links_last)

lemma ring_distinct: "ring nx pv h xs \<Longrightarrow> distinct xs \<and> h \<notin> set xs"
  by (simp add: ring_def)

lemma ring_empty: "ring nx pv h [] \<longleftrightarrow> nx h = h \<and> pv h = h"
  by (simp add: ring_def)

text \<open>The two link manipulations, on rings.\<close>

lemma ring_link:
  assumes r: "ring nx pv h (as @ bs)" and y: "y \<notin> set (h # as @ bs)" and pos: "pos = hd (bs @ [h])"
  shows "ring (link_nx nx pv y pos) (link_pv pv y pos) h (as @ y # bs)"
proof -
  have d: "distinct (h # as @ bs)" and l: "links nx pv h (as @ bs) h"
    using r by (auto simp: ring_def)
  obtain q where ab: "links nx pv h as q" "q = pos" "pv pos = last (h # as)"
    using l pos by (cases bs) (auto simp: links_append dest: links_last)
  have "links (nx(pv pos := y)) (pv(y := pv pos)) h as y"
    using links_redirect [OF ab(1), of y] d y ab(3) by simp
  then have 1: "links (link_nx nx pv y pos) (link_pv pv y pos) h as y"
    using d y pos by (cases bs) (auto simp: link_nx_def link_pv_def)
  have "last (h # as) \<in> set (h # as)" by (rule last_in_set) simp
  then have "pv pos \<notin> set bs" and "pv pos \<noteq> y"
    using d y ab(3) by auto
  then have 2: "links (link_nx nx pv y pos) (link_pv pv y pos) y bs h"
    using d y pos l by (cases bs) (auto simp: link_nx_def link_pv_def links_append)
  show ?thesis
    using 1 2 d y by (auto simp: ring_def links_append)
qed

lemma ring_unlink:
  assumes r: "ring nx pv h (as @ y # bs)"
  shows "ring (unlink_nx nx pv y) (unlink_pv nx pv y) h (as @ bs)"
proof -
  have d: "distinct (h # as @ y # bs)" and l: "links nx pv h as y" "links nx pv y bs h"
    using r by (auto simp: ring_def links_append)
  have n: "nx y = hd (bs @ [h])" and p: "pv y = last (h # as)"
    using l by (auto dest: links_first links_last)
  have "nx y \<notin> set as" using d n by (cases bs) auto
  then have 1: "links (unlink_nx nx pv y) (unlink_pv nx pv y) h as (nx y)"
    using links_redirect [OF l(1), of "nx y"] d p by (simp add: unlink_nx_def unlink_pv_def)
  have "last (h # as) \<in> set (h # as)" by (rule last_in_set) simp
  then have "pv y \<notin> set bs" using d p by auto
  then have 2: "bs = b # bs' \<Longrightarrow> links (unlink_nx nx pv y) (unlink_pv nx pv y) b bs' h" for b bs'
    using d l(2) n by (auto simp: unlink_nx_def unlink_pv_def)
  show ?thesis
    using 1 2 d n by (cases bs) (auto simp: ring_def links_append)
qed

text \<open>Taking out one of the queued nodes, and the fields that are not links of the ring.\<close>

lemma ring_unlink_remove1:
  assumes "ring nx pv h xs" and "y \<in> set xs"
  shows "ring (unlink_nx nx pv y) (unlink_pv nx pv y) h (remove1 y xs)"
proof -
  obtain as bs where xs: "xs = as @ y # bs" "y \<notin> set as"
    using assms(2) by (metis split_list_first)
  then show ?thesis
    using ring_unlink [of nx pv h as y bs] assms(1) by (simp add: remove1_append)
qed

text \<open>Cutting off the first nodes: \<^verbatim>\<open>h->next = b; b->prev = h;\<close>\<close>

lemma ring_drop_prefix:
  assumes "ring nx pv h (as @ bs)" and "b = hd (bs @ [h])"
  shows "ring (nx(h := b)) (pv(b := h)) h bs"
  using assms by (cases bs) (auto simp: ring_def links_append)

lemma ring_prefix:
  "ring nx pv h (as @ bs) \<Longrightarrow> distinct (h # as @ bs) \<and> links nx pv h as (hd (bs @ [h]))"
  by (cases bs) (auto simp: ring_def links_append)

section \<open>Walks along a queue\<close>

text \<open>
  \<^verbatim>\<open>while (p(task)) task = task->next;\<close>: the walk is a partial function, \<open>None\<close> when it never
  stops.  On a ring whose head stops the walk it returns the first node that does not satisfy
  \<open>p\<close>, the head when every queued node does.
\<close>

partial_function (option) seek :: "('a \<Rightarrow> bool) \<Rightarrow> ('a \<Rightarrow> 'a) \<Rightarrow> 'a \<Rightarrow> 'a option" where
  "seek p nx a = (if p a then seek p nx (nx a) else Some a)"

declare seek.simps [code]

lemma seek_stop: "\<not> p a \<Longrightarrow> seek p nx a = Some a"
  by (subst seek.simps) simp

lemma seek_links:
  "links nx pv a xs b \<Longrightarrow> \<not> p b \<Longrightarrow> seek p nx (nx a) = Some (hd (dropWhile p xs @ [b]))"
proof (induction xs arbitrary: a)
  case Nil
  then show ?case by (simp add: seek_stop)
next
  case (Cons x xs)
  then show ?case by (subst seek.simps) auto
qed

lemma hd_dropWhile_sentinel: "\<not> p h \<Longrightarrow> \<not> p (hd (dropWhile p xs @ [h]))"
  by (induction xs) auto

lemma seek_ring:
  "ring nx pv h xs \<Longrightarrow> \<not> p h \<Longrightarrow> seek p nx (nx h) = Some (hd (dropWhile p xs @ [h]))"
  by (auto simp: ring_def intro: seek_links)

text \<open>Every insertion of the sources: walk past the nodes that satisfy \<open>p\<close>, link in front of the
  node where the walk stops.\<close>

definition insert_after_while :: "('a \<Rightarrow> bool) \<Rightarrow> 'a \<Rightarrow> 'a list \<Rightarrow> 'a list" where
  "insert_after_while p y xs = takeWhile p xs @ y # dropWhile p xs"

lemma set_walk: "set (takeWhile p xs) \<union> set (dropWhile p xs) = set xs"
  by (simp only: set_append [symmetric] takeWhile_dropWhile_id)

lemma set_insert_after_while [simp]: "set (insert_after_while p y xs) = insert y (set xs)"
  using set_walk [of p xs] by (simp add: insert_after_while_def)

lemma map_insert_after_while:
  "map f (insert_after_while (\<lambda>x. P (f x)) y xs) = insert_after_while P (f y) (map f xs)"
  by (simp add: insert_after_while_def takeWhile_map dropWhile_map comp_def)

lemma insert_after_while_cong:
  assumes "\<And>x. x \<in> set xs \<Longrightarrow> P x \<longleftrightarrow> Q x"
  shows "insert_after_while P y xs = insert_after_while Q y xs"
  using assms by (simp add: insert_after_while_def cong: takeWhile_cong dropWhile_cong)

lemma length_insert_after_while: "length (insert_after_while P y xs) = Suc (length xs)"
  by (simp add: insert_after_while_def) (simp flip: length_append)

lemma distinct_insert_after_while: "distinct xs \<Longrightarrow> m \<notin> set xs \<Longrightarrow> distinct (insert_after_while P m xs)"
proof (induction xs)
  case (Cons x xs)
  have "set (insert_after_while P m xs) = insert m (set xs)" by simp
  then show ?case using Cons by (auto simp: insert_after_while_def)
qed (simp add: insert_after_while_def)

lemma ring_insert_after_while:
  assumes "ring nx pv h xs" and "y \<notin> set (h # xs)" and "pos = hd (dropWhile p xs @ [h])"
  shows "ring (link_nx nx pv y pos) (link_pv pv y pos) h (insert_after_while p y xs)"
  using assms ring_link [of nx pv h "takeWhile p xs" "dropWhile p xs" y pos]
  by (simp add: insert_after_while_def)

text \<open>
  The interface of the ordered queues: \<open>passes new old\<close> decides whether the walk of a new key
  goes past an old one, and \<open>before\<close> is the order it maintains.
\<close>

locale ordered_walk =
  fixes passes :: "'k \<Rightarrow> 'k \<Rightarrow> bool" and before :: "'k \<Rightarrow> 'k \<Rightarrow> bool"
  assumes before_trans: "before a b \<Longrightarrow> before b c \<Longrightarrow> before a c"
    and passes_before: "passes new old \<Longrightarrow> before old new"
    and stops_before: "\<not> passes new old \<Longrightarrow> before new old"
begin

lemma insert_keeps_order:
  assumes "sorted_wrt (\<lambda>x y. before (key x) (key y)) xs"
  shows "sorted_wrt (\<lambda>x y. before (key x) (key y))
           (insert_after_while (\<lambda>x. passes (key y) (key x)) y xs)"
  using assms
proof (induction xs)
  case Nil
  then show ?case by (simp add: insert_after_while_def)
next
  case (Cons x xs)
  show ?case
  proof (cases "passes (key y) (key x)")
    case True
    then show ?thesis
      using Cons by (auto simp: insert_after_while_def passes_before
        dest: set_takeWhileD set_dropWhileD)
  next
    case False
    then show ?thesis
      using Cons.prems by (auto simp: insert_after_while_def intro: stops_before before_trans)
  qed
qed

end

text \<open>The two walks the sources use: past equal keys (ready tasks, blocked tasks, timers) and in
  front of equal keys (timed tasks).\<close>

interpretation past_equal: ordered_walk "\<lambda>new old. old \<le> (new :: int)" "\<lambda>a b. a \<le> b"
  by unfold_locales auto

interpretation before_equal: ordered_walk "\<lambda>new old. old < (new :: int)" "\<lambda>a b. a \<le> b"
  by unfold_locales auto

end
