(* ===== verification/Ring_Buffer.thy ===== *)
theory Ring_Buffer
  imports Main "HOL-Library.Monad_Syntax"
begin

text \<open>
  The circular byte buffer of the mailboxes (\<^verbatim>\<open>newlxrt/scheduler/rtai_sched.c\<close>) and of the fifos
  (\<^verbatim>\<open>fifos/rtai_fifos.c\<close>): \<^verbatim>\<open>size\<close> bytes at \<^verbatim>\<open>bufadr\<close>, of which \<^verbatim>\<open>avbs\<close> from index \<^verbatim>\<open>fbyte\<close> on are
  filled and \<^verbatim>\<open>frbs\<close> from \<^verbatim>\<open>lbyte\<close> on are free.  The loops copy in chunks that do not wrap; that
  they end is proved from the consistency of the five fields, not assumed.  The interface
  \<open>byte_queue\<close> states what their clients rely on: bytes leave in the order in which they were
  accepted, and none is lost.
\<close>

section \<open>The buffer and its loops\<close>

record 'b ring_buf =
  bufadr :: "'b list"
  rb_size :: nat
  fbyte :: nat
  lbyte :: nat
  avbs :: nat
  frbs :: nat

definition MOD_SIZE :: "'b ring_buf \<Rightarrow> nat \<Rightarrow> nat" where
  "MOD_SIZE m i = (if i < rb_size m then i else i - rb_size m)"

text \<open>\<^verbatim>\<open>tocpy\<close>, the size of the next chunk: at most \<open>n\<close> bytes, not beyond the end of the buffer and not
  more than there are.\<close>

definition chunk :: "nat \<Rightarrow> nat \<Rightarrow> nat \<Rightarrow> nat" where
  "chunk room n there = (let tocpy = room in
     let tocpy = (if tocpy > n then n else tocpy) in
     if tocpy > there then there else tocpy)"

lemma chunk_bounds:
  "chunk room n there \<le> room" "chunk room n there \<le> n" "chunk room n there \<le> there"
  "0 < room \<Longrightarrow> 0 < n \<Longrightarrow> 0 < there \<Longrightarrow> 0 < chunk room n there"
  by (auto simp: chunk_def)

text \<open>\<^verbatim>\<open>memcpy\<close> into and out of the buffer.\<close>

definition write_at :: "nat \<Rightarrow> 'b list \<Rightarrow> 'b list \<Rightarrow> 'b list" where
  "write_at i xs buf = take i buf @ xs @ drop (i + length xs) buf"

definition read_at :: "nat \<Rightarrow> nat \<Rightarrow> 'b list \<Rightarrow> 'b list" where
  "read_at i n buf = take n (drop i buf)"

text \<open>The body of the copying loops: \<open>xs\<close> is copied in at \<^verbatim>\<open>lbyte\<close>, \<open>n\<close> bytes are dropped at \<^verbatim>\<open>fbyte\<close>.\<close>

definition put_chunk :: "'b list \<Rightarrow> 'b ring_buf \<Rightarrow> 'b ring_buf" where
  "put_chunk xs m = m\<lparr>bufadr := write_at (lbyte m) xs (bufadr m), frbs := frbs m - length xs,
                      avbs := avbs m + length xs, lbyte := MOD_SIZE m (lbyte m + length xs)\<rparr>"

definition drop_chunk :: "nat \<Rightarrow> 'b ring_buf \<Rightarrow> 'b ring_buf" where
  "drop_chunk n m = m\<lparr>frbs := frbs m + n, avbs := avbs m - n, fbyte := MOD_SIZE m (fbyte m + n)\<rparr>"

text \<open>The result of a put is what is left of the message, that of a get the bytes copied out.\<close>

partial_function (option) mbxput :: "'b ring_buf \<Rightarrow> 'b list \<Rightarrow> ('b list \<times> 'b ring_buf) option" where
  "mbxput m msg =
     (if length msg > 0 \<and> frbs m \<noteq> 0 then
        let tocpy = chunk (rb_size m - lbyte m) (length msg) (frbs m) in
        mbxput (put_chunk (take tocpy msg) m) (drop tocpy msg)
      else Some (msg, m))"

declare mbxput.simps [code]

partial_function (option) mbxget :: "'b ring_buf \<Rightarrow> nat \<Rightarrow> ('b list \<times> nat \<times> 'b ring_buf) option" where
  "mbxget m n =
     (if n > 0 \<and> avbs m \<noteq> 0 then
        let tocpy = chunk (rb_size m - fbyte m) n (avbs m) in do {
          (got, left, m') \<leftarrow> mbxget (drop_chunk tocpy m) (n - tocpy);
          Some (read_at (fbyte m) tocpy (bufadr m) @ got, left, m')
        }
      else Some ([], n, m))"

declare mbxget.simps [code]

text \<open>Reading without taking out: \<open>f\<close> and \<open>a\<close> are the local copies of \<^verbatim>\<open>fbyte\<close> and \<^verbatim>\<open>avbs\<close>.\<close>

partial_function (option) evdrp_loop :: "'b ring_buf \<Rightarrow> nat \<Rightarrow> nat \<Rightarrow> nat \<Rightarrow> ('b list \<times> nat) option" where
  "evdrp_loop m f a n =
     (if n > 0 \<and> a \<noteq> 0 then
        let tocpy = chunk (rb_size m - f) n a in do {
          (got, left) \<leftarrow> evdrp_loop m (MOD_SIZE m (f + tocpy)) (a - tocpy) (n - tocpy);
          Some (read_at f tocpy (bufadr m) @ got, left)
        }
      else Some ([], n))"

declare evdrp_loop.simps [code]

definition mbxevdrp :: "'b ring_buf \<Rightarrow> nat \<Rightarrow> ('b list \<times> nat) option" where
  "mbxevdrp m n = evdrp_loop m (fbyte m) (avbs m) n"

text \<open>The overwriting put: the oldest bytes make room for the rest of the message.\<close>

partial_function (option) make_room :: "nat \<Rightarrow> 'b ring_buf \<Rightarrow> 'b ring_buf option" where
  "make_room msg_size m =
     (let n = int msg_size - int (frbs m) in
      if n > 0 then
        let tocpy = chunk (rb_size m - fbyte m) (nat n) (avbs m) in
        make_room msg_size (drop_chunk tocpy m)
      else Some m)"

declare make_room.simps [code]

partial_function (option) ovrwr_loop :: "'b ring_buf \<Rightarrow> 'b list \<Rightarrow> 'b ring_buf option" where
  "ovrwr_loop m msg =
     (if length msg > 0 then
        let tocpy = (if frbs m = 0 then 0 else chunk (rb_size m - lbyte m) (length msg) (frbs m));
            m1 = (if frbs m = 0 then m else put_chunk (take tocpy msg) m);
            msg1 = drop tocpy msg in do {
          m2 \<leftarrow> (if length msg1 \<noteq> 0 then make_room (length msg1) m1 else Some m1);
          ovrwr_loop m2 msg1
        }
      else Some m)"

declare ovrwr_loop.simps [code]

definition mbxovrwrput :: "'b ring_buf \<Rightarrow> 'b list \<Rightarrow> 'b ring_buf option" where
  "mbxovrwrput m msg = ovrwr_loop m (drop (length msg - rb_size m) msg)"

definition rb_init :: "nat \<Rightarrow> 'b list \<Rightarrow> 'b ring_buf" where
  "rb_init n buf = \<lparr>bufadr = buf, rb_size = n, fbyte = 0, lbyte = 0, avbs = 0, frbs = n\<rparr>"

section \<open>Consistency and contents\<close>

definition rb_ok :: "'b ring_buf \<Rightarrow> bool" where
  "rb_ok m \<longleftrightarrow> length (bufadr m) = rb_size m \<and> fbyte m < rb_size m \<and> avbs m + frbs m = rb_size m
     \<and> lbyte m = (fbyte m + avbs m) mod rb_size m"

definition contents :: "'b ring_buf \<Rightarrow> 'b list" where
  "contents m = map (\<lambda>i. bufadr m ! ((fbyte m + i) mod rb_size m)) [0..<avbs m]"

lemma length_contents [simp]: "length (contents m) = avbs m"
  by (simp add: contents_def)

lemma nth_contents: "i < avbs m \<Longrightarrow> contents m ! i = bufadr m ! ((fbyte m + i) mod rb_size m)"
  by (simp add: contents_def)

lemma mod_wrap: "(f :: nat) < s \<Longrightarrow> i \<le> s \<Longrightarrow> (f + i) mod s = (if f + i < s then f + i else f + i - s)"
  by (simp add: mod_if)

lemma rb_ok_lbyte: "rb_ok m \<Longrightarrow> lbyte m < rb_size m"
  by (simp add: rb_ok_def)

lemma rb_init_ok: "0 < n \<Longrightarrow> length buf = n \<Longrightarrow> rb_ok (rb_init n buf) \<and> contents (rb_init n buf) = []"
  by (simp add: rb_init_def rb_ok_def contents_def)

lemma length_write_at [simp]: "i + length xs \<le> length buf \<Longrightarrow> length (write_at i xs buf) = length buf"
  by (simp add: write_at_def)

lemma nth_write_at:
  "i + length xs \<le> length buf \<Longrightarrow> j < length buf \<Longrightarrow>
     write_at i xs buf ! j = (if i \<le> j \<and> j < i + length xs then xs ! (j - i) else buf ! j)"
  by (auto simp: write_at_def nth_append)

lemma put_chunk_ok:
  assumes ok: "rb_ok m" and n: "length xs \<le> rb_size m - lbyte m" "length xs \<le> frbs m"
  shows "rb_ok (put_chunk xs m) \<and> contents (put_chunk xs m) = contents m @ xs
    \<and> frbs (put_chunk xs m) = frbs m - length xs \<and> rb_size (put_chunk xs m) = rb_size m"
proof -
  let ?s = "rb_size m" and ?f = "fbyte m" and ?l = "lbyte m" and ?a = "avbs m" and ?k = "length xs"
  have f: "length (bufadr m) = ?s" "?f < ?s" "?a + frbs m = ?s" and l: "?l = (?f + ?a) mod ?s" "?l < ?s"
    using ok by (auto simp: rb_ok_def)
  have lw: "?l = (if ?f + ?a < ?s then ?f + ?a else ?f + ?a - ?s)"
    using l(1) f mod_wrap [of ?f ?s ?a] by simp
  have b: "?l + ?k \<le> length (bufadr m)" using n l(2) f(1) by linarith
  have nl: "MOD_SIZE m (?l + ?k) = (?f + (?a + ?k)) mod ?s"
    using mod_wrap [of ?f ?s "?a + ?k"] f n lw by (auto simp: MOD_SIZE_def split: if_splits)
  have 1: "rb_ok (put_chunk xs m)"
    using f n b nl by (simp add: rb_ok_def put_chunk_def)
  have "contents (put_chunk xs m) = contents m @ xs"
  proof (rule nth_equalityI)
    show "length (contents (put_chunk xs m)) = length (contents m @ xs)" by (simp add: put_chunk_def)
  next
    fix i assume "i < length (contents (put_chunk xs m))"
    then have i: "i < ?a + ?k" by (simp add: put_chunk_def)
    let ?j = "(?f + i) mod ?s"
    have jw: "?j = (if ?f + i < ?s then ?f + i else ?f + i - ?s)"
      using i f n by (intro mod_wrap) auto
    have j: "?j < ?s" using f(2) by simp
    have c: "contents (put_chunk xs m) ! i = write_at ?l xs (bufadr m) ! ?j"
      using i by (simp add: contents_def put_chunk_def)
    show "contents (put_chunk xs m) ! i = (contents m @ xs) ! i"
    proof (cases "i < ?a")
      case True
      have nj: "\<not> (?l \<le> ?j \<and> ?j < ?l + ?k)"
        using True jw lw f n by (auto split: if_splits)
      have "write_at ?l xs (bufadr m) ! ?j = bufadr m ! ?j"
        using nth_write_at [OF b, of ?j] j f(1) unfolding if_not_P [OF nj] by simp
      then show ?thesis using True c nth_contents [OF True] by (simp only: nth_append length_contents if_True)
    next
      case False
      then have je: "?j - ?l = i - ?a" and jr: "?l \<le> ?j \<and> ?j < ?l + ?k"
        using jw lw f n i l(2) by (auto split: if_splits)
      have "write_at ?l xs (bufadr m) ! ?j = xs ! (i - ?a)"
        using nth_write_at [OF b, of ?j] j f(1) unfolding if_P [OF jr] je by simp
      then show ?thesis using False c by (simp only: nth_append length_contents if_False)
    qed
  qed
  then show ?thesis using 1 by (simp add: put_chunk_def)
qed

lemma contents_take:
  assumes ok: "rb_ok m" and n: "n \<le> rb_size m - fbyte m" "n \<le> avbs m"
  shows "read_at (fbyte m) n (bufadr m) = take n (contents m)"
proof (rule nth_equalityI)
  have f: "length (bufadr m) = rb_size m" "fbyte m < rb_size m" using ok by (auto simp: rb_ok_def)
  show "length (read_at (fbyte m) n (bufadr m)) = length (take n (contents m))"
    using n f by (simp add: read_at_def)
  fix i assume "i < length (read_at (fbyte m) n (bufadr m))"
  then have i: "i < n" by (simp add: read_at_def)
  then have "(fbyte m + i) mod rb_size m = fbyte m + i" using n f by simp
  then show "read_at (fbyte m) n (bufadr m) ! i = take n (contents m) ! i"
    using i n f by (simp add: read_at_def contents_def)
qed

lemma drop_chunk_ok:
  assumes ok: "rb_ok m" and n: "n \<le> rb_size m - fbyte m" "n \<le> avbs m"
  shows "rb_ok (drop_chunk n m) \<and> contents (drop_chunk n m) = drop n (contents m)
    \<and> avbs (drop_chunk n m) = avbs m - n \<and> frbs (drop_chunk n m) = frbs m + n
    \<and> rb_size (drop_chunk n m) = rb_size m"
proof -
  let ?s = "rb_size m" and ?f = "fbyte m" and ?a = "avbs m"
  have f: "length (bufadr m) = ?s" "?f < ?s" "?a + frbs m = ?s" and l: "lbyte m = (?f + ?a) mod ?s"
    using ok by (auto simp: rb_ok_def)
  let ?f' = "MOD_SIZE m (?f + n)"
  have f': "?f' = (?f + n) mod ?s" "?f' < ?s"
    using mod_wrap [of ?f ?s n] f n by (auto simp: MOD_SIZE_def)
  have e: "(?f' + i) mod ?s = (?f + (n + i)) mod ?s" for i
    unfolding f'(1) by (simp add: mod_add_left_eq add.assoc)
  have "rb_ok (drop_chunk n m)"
    using f f'(2) n l e [of "?a - n"] by (simp add: rb_ok_def drop_chunk_def)
  moreover have "contents (drop_chunk n m) = drop n (contents m)"
  proof (rule nth_equalityI)
    show "length (contents (drop_chunk n m)) = length (drop n (contents m))" by (simp add: drop_chunk_def)
    fix i assume "i < length (contents (drop_chunk n m))"
    then have i: "i < ?a - n" by (simp add: drop_chunk_def)
    then have "contents (drop_chunk n m) ! i = bufadr m ! ((?f' + i) mod ?s)"
      by (subst nth_contents) (simp_all add: drop_chunk_def)
    also have "\<dots> = contents m ! (n + i)"
      using e [of i] i n by (subst nth_contents) simp_all
    also have "\<dots> = drop n (contents m) ! i"
      using i n by (subst nth_drop) simp_all
    finally show "contents (drop_chunk n m) ! i = drop n (contents m) ! i" .
  qed
  ultimately show ?thesis by (simp add: drop_chunk_def)
qed

section \<open>The loops end and do what they are for\<close>

text \<open>A chunk that is not empty: neither the wrap-around nor the fill level stops the loop early.\<close>

theorem mbxput_ok:
  assumes "rb_ok m"
  shows "\<exists>m'. mbxput m msg = Some (drop (frbs m) msg, m') \<and> rb_ok m' \<and> rb_size m' = rb_size m
    \<and> contents m' = contents m @ take (frbs m) msg"
  using assms
proof (induction "length msg" arbitrary: m msg rule: less_induct)
  case less
  show ?case
  proof (cases "length msg > 0 \<and> frbs m \<noteq> 0")
    case False
    then show ?thesis using less.prems by (subst mbxput.simps) auto
  next
    case True
    obtain k where k_def: "k = chunk (rb_size m - lbyte m) (length msg) (frbs m)" by simp
    have k: "0 < k" "k \<le> length msg" "k \<le> rb_size m - lbyte m" "k \<le> frbs m"
      using True rb_ok_lbyte [OF less.prems] unfolding k_def by (simp_all add: chunk_bounds)
    let ?m = "put_chunk (take k msg) m"
    have c: "rb_ok ?m" "contents ?m = contents m @ take k msg" "frbs ?m = frbs m - k" "rb_size ?m = rb_size m"
      using put_chunk_ok [OF less.prems, of "take k msg"] k by auto
    have eq: "mbxput m msg = mbxput ?m (drop k msg)"
      using True by (subst mbxput.simps) (simp add: Let_def k_def)
    have "length (drop k msg) < length msg" using k by simp
    then obtain m' where m': "mbxput ?m (drop k msg) = Some (drop (frbs ?m) (drop k msg), m')"
      "rb_ok m'" "rb_size m' = rb_size ?m" "contents m' = contents ?m @ take (frbs ?m) (drop k msg)"
      using less.hyps c(1) by blast
    have "contents m' = contents m @ take (frbs m) msg"
      using m'(4) c k take_add [of k "frbs m - k" msg] by simp
    then show ?thesis using eq m' c k by auto
  qed
qed

text \<open>Getting: the bytes come out in order, as many as there are and were asked for.\<close>

theorem mbxget_ok:
  assumes "rb_ok m"
  shows "\<exists>m'. mbxget m n = Some (take n (contents m), n - avbs m, m') \<and> rb_ok m'
    \<and> rb_size m' = rb_size m \<and> contents m' = drop n (contents m)"
  using assms
proof (induction n arbitrary: m rule: less_induct)
  case (less n)
  show ?case
  proof (cases "n > 0 \<and> avbs m \<noteq> 0")
    case False
    then show ?thesis using less.prems by (subst mbxget.simps) (auto simp: contents_def)
  next
    case True
    obtain k where k_def: "k = chunk (rb_size m - fbyte m) n (avbs m)" by simp
    have k: "0 < k" "k \<le> n" "k \<le> rb_size m - fbyte m" "k \<le> avbs m"
      using True less.prems unfolding k_def by (simp_all add: chunk_bounds rb_ok_def)
    let ?m = "drop_chunk k m"
    have c: "rb_ok ?m" "contents ?m = drop k (contents m)" "avbs ?m = avbs m - k" "rb_size ?m = rb_size m"
      using drop_chunk_ok [OF less.prems k(3,4)] by auto
    have "n - k < n" using k by simp
    then obtain m' where m': "mbxget ?m (n - k) = Some (take (n - k) (contents ?m), n - k - avbs ?m, m')"
      "rb_ok m'" "rb_size m' = rb_size ?m" "contents m' = drop (n - k) (contents ?m)"
      using less.IH c(1) by blast
    have "mbxget m n = Some (read_at (fbyte m) k (bufadr m) @ take (n - k) (contents ?m), n - k - avbs ?m, m')"
      using True m'(1) by (subst mbxget.simps) (simp add: Let_def k_def)
    moreover have "read_at (fbyte m) k (bufadr m) @ take (n - k) (contents ?m) = take n (contents m)"
      using contents_take [OF less.prems k(3,4)] c(2) k take_add [of k "n - k" "contents m"] by simp
    ultimately show ?thesis using m' c k by (auto simp: drop_drop)
  qed
qed

theorem mbxevdrp_ok:
  assumes "rb_ok m"
  shows "mbxevdrp m n = Some (take n (contents m), n - avbs m)"
proof -
  have "evdrp_loop m (fbyte d) (avbs d) n = Some (take n (contents d), n - avbs d)"
    if "rb_ok d" "bufadr d = bufadr m" "rb_size d = rb_size m" for d
    using that
  proof (induction n arbitrary: d rule: less_induct)
    case (less n)
    show ?case
    proof (cases "n > 0 \<and> avbs d \<noteq> 0")
      case False
      then show ?thesis by (subst evdrp_loop.simps) (auto simp: contents_def)
    next
      case True
      obtain k where k_def: "k = chunk (rb_size d - fbyte d) n (avbs d)" by simp
      have k: "0 < k" "k \<le> n" "k \<le> rb_size d - fbyte d" "k \<le> avbs d"
        using True less.prems unfolding k_def by (simp_all add: chunk_bounds rb_ok_def)
      let ?d = "drop_chunk k d"
      have c: "rb_ok ?d" "contents ?d = drop k (contents d)" "avbs ?d = avbs d - k"
        using drop_chunk_ok [OF less.prems(1) k(3,4)] by auto
      have g: "bufadr ?d = bufadr m" "rb_size ?d = rb_size m" "fbyte ?d = MOD_SIZE m (fbyte d + k)"
        using less.prems by (simp_all add: drop_chunk_def MOD_SIZE_def)
      have "n - k < n" using k by simp
      from less.IH [OF this c(1) g(1,2)]
      have r: "evdrp_loop m (MOD_SIZE m (fbyte d + k)) (avbs d - k) (n - k)
        = Some (take (n - k) (contents ?d), n - k - (avbs d - k))" by (simp add: g(3) c(3))
      have "evdrp_loop m (fbyte d) (avbs d) n
        = Some (read_at (fbyte d) k (bufadr m) @ take (n - k) (contents ?d), n - k - (avbs d - k))"
        using True r less.prems(3) by (subst evdrp_loop.simps) (simp add: Let_def k_def)
      moreover have "read_at (fbyte d) k (bufadr m) @ take (n - k) (contents ?d) = take n (contents d)"
        using contents_take [OF less.prems(1) k(3,4)] less.prems(2) c(2) k
          take_add [of k "n - k" "contents d"] by simp
      ultimately show ?thesis using k by simp
    qed
  qed
  then show ?thesis using assms by (simp add: mbxevdrp_def)
qed

text \<open>Overwriting: room is made at the old end, then everything goes in.\<close>

lemma make_room_ok:
  assumes "rb_ok m" "n \<le> rb_size m"
  shows "\<exists>m'. make_room n m = Some m' \<and> rb_ok m' \<and> rb_size m' = rb_size m \<and> n \<le> frbs m'
    \<and> contents m' = drop (n - frbs m) (contents m)"
  using assms
proof (induction "n - frbs m" arbitrary: m rule: less_induct)
  case less
  show ?case
  proof (cases "int n - int (frbs m) > 0")
    case False
    then show ?thesis using less.prems by (subst make_room.simps) auto
  next
    case True
    obtain k where k_def: "k = chunk (rb_size m - fbyte m) (n - frbs m) (avbs m)" by simp
    have k: "0 < k" "k \<le> n - frbs m" "k \<le> rb_size m - fbyte m" "k \<le> avbs m"
      using True less.prems unfolding k_def by (simp_all add: chunk_bounds rb_ok_def)
    let ?m = "drop_chunk k m"
    have c: "rb_ok ?m" "contents ?m = drop k (contents m)" "frbs ?m = frbs m + k" "rb_size ?m = rb_size m"
      using drop_chunk_ok [OF less.prems(1) k(3,4)] by auto
    have eq: "make_room n m = make_room n ?m"
      using True by (subst make_room.simps) (simp add: Let_def k_def nat_diff_distrib')
    have "n - frbs ?m < n - frbs m" using k c(3) True by linarith
    moreover have "n \<le> rb_size ?m" using less.prems(2) c(4) by simp
    ultimately obtain m' where m': "make_room n ?m = Some m'" "rb_ok m'" "rb_size m' = rb_size ?m"
      "n \<le> frbs m'" "contents m' = drop (n - frbs ?m) (contents ?m)"
      using less.hyps c(1) by blast
    have "contents m' = drop (n - frbs m) (contents m)"
      using m'(5) c(2,3) k by (simp add: drop_drop)
    then show ?thesis using eq m' c by auto
  qed
qed

lemma make_room_enough: "n \<le> frbs m \<Longrightarrow> make_room n m = Some m"
  by (subst make_room.simps) simp

lemma ovrwr_loop_fits:
  assumes "rb_ok m" "length msg \<le> frbs m"
  shows "\<exists>m'. ovrwr_loop m msg = Some m' \<and> rb_ok m' \<and> rb_size m' = rb_size m \<and> contents m' = contents m @ msg"
  using assms
proof (induction "length msg" arbitrary: m msg rule: less_induct)
  case less
  show ?case
  proof (cases "msg = []")
    case True
    then show ?thesis using less.prems by (subst ovrwr_loop.simps) simp
  next
    case False
    then have fr: "frbs m \<noteq> 0" using less.prems(2) by (cases msg) auto
    obtain k where k_def: "k = chunk (rb_size m - lbyte m) (length msg) (frbs m)" by simp
    have k: "k \<le> length msg" "k \<le> rb_size m - lbyte m" "k \<le> frbs m" "0 < k"
      using False fr rb_ok_lbyte [OF less.prems(1)] unfolding k_def by (simp_all add: chunk_bounds)
    let ?m = "put_chunk (take k msg) m"
    have c: "rb_ok ?m" "contents ?m = contents m @ take k msg" "frbs ?m = frbs m - k" "rb_size ?m = rb_size m"
      using put_chunk_ok [OF less.prems(1), of "take k msg"] k by auto
    have fit: "length (drop k msg) \<le> frbs ?m" using less.prems(2) c(3) by simp
    have "ovrwr_loop m msg = ovrwr_loop ?m (drop k msg)"
      using False fr make_room_enough [OF fit] by (subst ovrwr_loop.simps) (simp add: Let_def k_def)
    moreover have "length (drop k msg) < length msg" using k False by simp
    then obtain m' where "ovrwr_loop ?m (drop k msg) = Some m'" "rb_ok m'" "rb_size m' = rb_size ?m"
      "contents m' = contents ?m @ drop k msg"
      using less.hyps c(1) fit by blast
    ultimately show ?thesis using c by auto
  qed
qed

lemma ovrwr_loop_ok:
  assumes ok: "rb_ok m" and n: "length msg \<le> rb_size m"
  shows "\<exists>m'. ovrwr_loop m msg = Some m' \<and> rb_ok m' \<and> rb_size m' = rb_size m
    \<and> contents m' = drop (length msg - frbs m) (contents m) @ msg"
proof (cases "length msg \<le> frbs m")
  case True
  then show ?thesis using ovrwr_loop_fits [OF ok True] by simp
next
  case False
  obtain k where k_def: "k = (if frbs m = 0 then 0 else chunk (rb_size m - lbyte m) (length msg) (frbs m))"
    by simp
  have k: "k \<le> length msg" "k \<le> rb_size m - lbyte m" "k \<le> frbs m"
    using rb_ok_lbyte [OF ok] chunk_bounds(3) [of "rb_size m - lbyte m" "length msg" "frbs m"]
    unfolding k_def by (simp_all add: chunk_bounds)
  have k4: "k < length msg" using k(3) False by simp
  let ?m1 = "if frbs m = 0 then m else put_chunk (take k msg) m"
  have c: "rb_ok ?m1" "contents ?m1 = contents m @ take k msg" "frbs ?m1 = frbs m - k" "rb_size ?m1 = rb_size m"
    using put_chunk_ok [OF ok, of "take k msg"] k ok by auto
  have "length msg - k \<le> rb_size ?m1" using n c(4) by simp
  from make_room_ok [OF c(1) this] obtain m2 where m2: "make_room (length msg - k) ?m1 = Some m2"
    "rb_ok m2" "rb_size m2 = rb_size m" "length msg - k \<le> frbs m2"
    "contents m2 = drop (length msg - k - (frbs m - k)) (contents m @ take k msg)"
    unfolding c(2-4) by auto
  have "avbs m + frbs m = rb_size m" using ok by (simp add: rb_ok_def)
  then have c2: "contents m2 = drop (length msg - frbs m) (contents m) @ take k msg"
    using m2(5) k(3) n by simp
  have fit: "length (drop k msg) \<le> frbs m2" using m2(4) by simp
  have "ovrwr_loop m msg = ovrwr_loop m2 (drop k msg)"
    using k4 m2(1) by (subst ovrwr_loop.simps) (auto simp: Let_def k_def [symmetric] simp del: split_paired_Ex)
  with ovrwr_loop_fits [OF m2(2) fit] c2 m2(3) show ?thesis by auto
qed

text \<open>After an overwriting put the buffer holds the last \<^verbatim>\<open>size\<close> bytes of everything sent.\<close>

theorem mbxovrwrput_ok:
  assumes ok: "rb_ok m"
  shows "\<exists>m'. mbxovrwrput m msg = Some m' \<and> rb_ok m' \<and> rb_size m' = rb_size m
    \<and> contents m' = drop (length (contents m @ msg) - rb_size m) (contents m @ msg)"
proof -
  let ?msg = "drop (length msg - rb_size m) msg"
  have s: "avbs m + frbs m = rb_size m" using ok by (simp add: rb_ok_def)
  have l: "length ?msg \<le> rb_size m" by simp
  obtain m' where m': "ovrwr_loop m ?msg = Some m'" "rb_ok m'" "rb_size m' = rb_size m"
    "contents m' = drop (length ?msg - frbs m) (contents m) @ ?msg"
    using ovrwr_loop_ok [OF ok l] by auto
  have "drop (length ?msg - frbs m) (contents m) @ ?msg
    = drop (length (contents m @ msg) - rb_size m) (contents m @ msg)"
  proof (cases "length msg \<le> rb_size m")
    case True
    have "length msg - frbs m = avbs m + length msg - rb_size m" using s True by linarith
    then show ?thesis using True by simp
  next
    case False
    then show ?thesis using s by simp
  qed
  then show ?thesis using m' by (simp add: mbxovrwrput_def)
qed

section \<open>The interface: a bounded queue of bytes\<close>

text \<open>What the mailbox and fifo code relies on.  \<open>put\<close> returns what it could not accept, \<open>get\<close> what it
  delivered.\<close>

locale byte_queue =
  fixes ok :: "'q \<Rightarrow> bool" and cont :: "'q \<Rightarrow> 'b list" and cap :: "'q \<Rightarrow> nat"
    and put :: "'q \<Rightarrow> 'b list \<Rightarrow> ('b list \<times> 'q) option"
    and get :: "'q \<Rightarrow> nat \<Rightarrow> ('b list \<times> nat \<times> 'q) option"
  assumes bounded: "ok q \<Longrightarrow> length (cont q) \<le> cap q"
    and put_law: "ok q \<Longrightarrow> \<exists>q'. put q xs = Some (drop (cap q - length (cont q)) xs, q') \<and> ok q'
      \<and> cap q' = cap q \<and> cont q' = cont q @ take (cap q - length (cont q)) xs"
    and get_law: "ok q \<Longrightarrow> \<exists>q'. get q n = Some (take n (cont q), n - length (cont q), q') \<and> ok q'
      \<and> cap q' = cap q \<and> cont q' = drop n (cont q)"
begin

text \<open>A run of puts and gets: what went in, what came out, and the queue it ends with.\<close>

primrec run :: "('b list + nat) list \<Rightarrow> 'q \<Rightarrow> ('b list \<times> 'b list \<times> 'q) option" where
  "run [] q = Some ([], [], q)"
| "run (e # es) q = (case e of
     Inl xs \<Rightarrow> do { (left, q1) \<leftarrow> put q xs; (ins, outs, q2) \<leftarrow> run es q1;
                   Some (take (length xs - length left) xs @ ins, outs, q2) }
   | Inr n \<Rightarrow> do { (got, left, q1) \<leftarrow> get q n; (ins, outs, q2) \<leftarrow> run es q1; Some (ins, got @ outs, q2) })"

theorem fifo:
  assumes "ok q"
  shows "\<exists>ins outs q'. run es q = Some (ins, outs, q') \<and> ok q' \<and> cap q' = cap q
    \<and> cont q @ ins = outs @ cont q'"
  using assms
proof (induction es arbitrary: q)
  case Nil
  then show ?case by simp
next
  case (Cons e es)
  show ?case
  proof (cases e)
    case (Inl xs)
    let ?r = "cap q - length (cont q)"
    obtain q1 where q1: "put q xs = Some (drop ?r xs, q1)" "ok q1" "cap q1 = cap q"
      "cont q1 = cont q @ take ?r xs"
      using put_law [OF Cons.prems, of xs] by blast
    obtain ins outs q2 where r: "run es q1 = Some (ins, outs, q2)" "ok q2" "cap q2 = cap q1"
      "cont q1 @ ins = outs @ cont q2"
      using Cons.IH [OF q1(2)] by blast
    have "take (length xs - length (drop ?r xs)) xs = take ?r xs" by (cases "?r \<le> length xs") simp_all
    then show ?thesis using Inl q1 r by simp
  next
    case (Inr n)
    obtain q1 where q1: "get q n = Some (take n (cont q), n - length (cont q), q1)" "ok q1" "cap q1 = cap q"
      "cont q1 = drop n (cont q)"
      using get_law [OF Cons.prems, of n] by blast
    obtain ins outs q2 where r: "run es q1 = Some (ins, outs, q2)" "ok q2" "cap q2 = cap q1"
      "cont q1 @ ins = outs @ cont q2"
      using Cons.IH [OF q1(2)] by blast
    have "cont q @ ins = take n (cont q) @ (cont q1 @ ins)" unfolding q1(4) by simp
    also have "\<dots> = take n (cont q) @ outs @ cont q2" unfolding r(4) ..
    finally show ?thesis using Inr q1 r by simp
  qed
qed

end

lemma frbs_cap: "rb_ok m \<Longrightarrow> rb_size m - length (contents m) = frbs m"
  by (auto simp: rb_ok_def)

interpretation rb: byte_queue rb_ok contents rb_size mbxput mbxget
proof unfold_locales
  show "length (contents m) \<le> rb_size m" if "rb_ok m" for m :: "'a ring_buf"
    using that by (simp add: rb_ok_def)
  show "\<exists>m'. mbxput m xs = Some (drop (rb_size m - length (contents m)) xs, m') \<and> rb_ok m'
      \<and> rb_size m' = rb_size m \<and> contents m' = contents m @ take (rb_size m - length (contents m)) xs"
    if "rb_ok m" for m :: "'a ring_buf" and xs
    using mbxput_ok [OF that] unfolding frbs_cap [OF that] by blast
  show "\<exists>m'. mbxget m n = Some (take n (contents m), n - length (contents m), m') \<and> rb_ok m'
      \<and> rb_size m' = rb_size m \<and> contents m' = drop n (contents m)" if "rb_ok m" for m :: "'a ring_buf" and n
    using mbxget_ok [OF that] by simp
qed

end
