(* ===== verification/Rtai_Kernel.thy ===== *)
theory Rtai_Kernel
  imports Rtai_Prelude Ring_Buffer "HOL-Library.Word"
begin

text \<open>
  The data of the scheduler \<^verbatim>\<open>newlxrt/scheduler/rtai_sched.c\<close> and of \<^verbatim>\<open>include/rtai_sched.h\<close>, in
  the uniprocessor configuration (\<^verbatim>\<open>CONFIG_SMP\<close> undefined: one CPU, number 0, and
  \<^verbatim>\<open>RT_SCHEDULE\<close>, \<^verbatim>\<open>RT_SCHEDULE_MAP\<close>, \<^verbatim>\<open>RT_SCHEDULE_BOTH\<close> and \<^verbatim>\<open>RT_SCHEDULE_MAP_BOTH\<close> all
  \<^verbatim>\<open>rt_schedule()\<close>).

  The fields of \<^verbatim>\<open>struct rt_task_struct\<close> are functions from task addresses to values, one
  function per field, so that pointers to tasks may alias as they do in C.  The kernel task
  of CPU 0, \<^verbatim>\<open>rt_smp_linux_task[0]\<close>, is the address \<open>LINUX\<close>; it is the sentinel of the ready
  and of the timed list.  A pointer that may be NULL is an option.  The embedded \<^verbatim>\<open>QUEUE\<close>
  structures of tasks and semaphores are the addresses \<open>qnode\<close>.  Signed C integers and
  \<^verbatim>\<open>RTIME\<close> values are \<open>int\<close> (their overflow is undefined in C); the words whose bits the code
  tests, \<^verbatim>\<open>state\<close> and \<^verbatim>\<open>owndres\<close>, are 32-bit words.

  A function of the scheduler that cannot block is a function \<open>kst \<Rightarrow> kst option\<close>, with
  \<open>None\<close> for a NULL dereference or an endless walk along a queue.  A function that may call
  \<^verbatim>\<open>rt_schedule\<close> has a result of type \<open>res\<close>: it has returned, or the CPU has been given to
  another task and the rest of the call runs from the state in which the caller is next
  switched in.
\<close>

section \<open>Constants\<close>

type_synonym tid = nat
type_synonym ltid = nat
type_synonym semid = nat
type_synonym mbxid = nat
type_synonym rtime = int

abbreviation LINUX :: tid where "LINUX \<equiv> 0"

abbreviation READY :: "32 word" where "READY \<equiv> 1"
abbreviation SUSPENDED :: "32 word" where "SUSPENDED \<equiv> 2"
abbreviation DELAYED :: "32 word" where "DELAYED \<equiv> 4"
abbreviation SEMAPHORE :: "32 word" where "SEMAPHORE \<equiv> 8"
abbreviation SEND :: "32 word" where "SEND \<equiv> 16"
abbreviation RECEIVE :: "32 word" where "RECEIVE \<equiv> 32"
abbreviation RPC :: "32 word" where "RPC \<equiv> 64"
abbreviation RETURN :: "32 word" where "RETURN \<equiv> 128"
abbreviation RUNNING :: "32 word" where "RUNNING \<equiv> 256"
abbreviation MBXSUSP :: "32 word" where "MBXSUSP \<equiv> 512"

abbreviation SEMHLF :: "32 word" where "SEMHLF \<equiv> 0x0000FFFF"
abbreviation RPCHLF :: "32 word" where "RPCHLF \<equiv> 0xFFFF0000"
abbreviation RPCINC :: "32 word" where "RPCINC \<equiv> 0x00010000"

abbreviation RT_LINUX_PRIORITY :: int where "RT_LINUX_PRIORITY \<equiv> 0x7fffffff"
abbreviation BASE_SOFT_PRIORITY :: int where "BASE_SOFT_PRIORITY \<equiv> 1000000000"
abbreviation RT_TIME_END :: int where "RT_TIME_END \<equiv> 0x7fffffffffffffff"
abbreviation RT_TASK_MAGIC :: int where "RT_TASK_MAGIC \<equiv> 0x754d2774"
abbreviation RT_SEM_MAGIC :: int where "RT_SEM_MAGIC \<equiv> 0xaabcdeff"
abbreviation SEM_ERR :: int where "SEM_ERR \<equiv> 0xffff"
abbreviation SEM_TIMOUT :: int where "SEM_TIMOUT \<equiv> 0xfffe"
abbreviation TASK_HARDREALTIME :: int where "TASK_HARDREALTIME \<equiv> 2"
abbreviation EINVAL :: int where "EINVAL \<equiv> 22"
abbreviation ENOMEM :: int where "ENOMEM \<equiv> 12"
abbreviation EBUSY :: int where "EBUSY \<equiv> 16"
abbreviation ETIME :: int where "ETIME \<equiv> 62"
abbreviation EFAULT :: int where "EFAULT \<equiv> 14"
abbreviation EMSGSIZE :: int where "EMSGSIZE \<equiv> 90"

abbreviation BIN_SEM :: int where "BIN_SEM \<equiv> 1"
abbreviation CNT_SEM :: int where "CNT_SEM \<equiv> 2"
abbreviation RES_SEM :: int where "RES_SEM \<equiv> 3"
abbreviation FIFO_Q :: int where "FIFO_Q \<equiv> 4"

abbreviation MAX_SRQ :: nat where "MAX_SRQ \<equiv> 128"

section \<open>State\<close>

text \<open>
  The addresses of \<^verbatim>\<open>struct rt_queue\<close> objects: \<^verbatim>\<open>task->queue\<close>, \<^verbatim>\<open>task->msg_queue\<close>,
  \<^verbatim>\<open>task->ret_queue\<close>, \<^verbatim>\<open>sem->queue\<close>, \<^verbatim>\<open>bits->queue\<close>, and \<^verbatim>\<open>SOMETHING\<close>, the address 1 of none.
\<close>

datatype qnode = TaskQ tid | MsgQ tid | RetQ tid | SemQ semid | BitsQ nat | SomethingQ

text \<open>
  The values of pointer fields that the code also uses for integers: a task, NULL, or the
  integer \<open>n\<close> cast to a pointer (\<^verbatim>\<open>SOMETHING\<close> is 1).
\<close>

datatype ptr = NULL | Task tid | Num int

definition int_ptr :: "int \<Rightarrow> ptr" where
  "int_ptr n = (if n = 0 then NULL else Num n)"

fun ptr_int :: "ptr \<Rightarrow> int" where
  "ptr_int NULL = 0"
| "ptr_int (Num n) = n"
| "ptr_int (Task t) = 0"

abbreviation NOTHING :: ptr where "NOTHING \<equiv> NULL"
abbreviation SOMETHING :: ptr where "SOMETHING \<equiv> Num 1"

record sem =
  sem_magic :: int
  sem_type :: int
  sem_count :: int
  owndby :: ptr
  qtype :: int

type_synonym byte = "8 word"

record mbx =
  mbx_magic :: int
  sndsem :: semid
  rcvsem :: semid
  waiting_task :: "tid option"
  mbx_owndby :: "tid option"
  mbx_buf :: "byte ring_buf"

record mcb =
  sbuf :: nat
  sbytes :: int
  rbuf :: nat
  rbytes :: int

text \<open>\<^verbatim>\<open>struct klist_t\<close>: a ring of requests to Linux.\<close>

record klist =
  k_in :: nat
  k_out :: nat
  k_task :: "nat \<Rightarrow> ltid"

text \<open>What the scheduler asks of the interrupt layer.\<close>

datatype pend = PendWakeUpSrq | PendFrstkSrq | PendTimerIrq | SwitchToRealTime | SwitchToLinux

record rt_times =
  linux_tick :: int
  tick_time :: rtime
  intr_time :: rtime
  linux_time :: rtime
  periodic_tick :: int

record tuned_t =
  latency :: int
  setup_time_TIMER_CPUNIT :: int
  setup_time_TIMER_UNIT :: int
  cpu_freq :: int

record kst =
  magic :: "tid \<Rightarrow> int"
  uses_fpu :: "tid \<Rightarrow> bool"
  state :: "tid \<Rightarrow> 32 word"
  priority :: "tid \<Rightarrow> int"
  base_priority :: "tid \<Rightarrow> int"
  policy :: "tid \<Rightarrow> int"
  sched_lock_priority :: "tid \<Rightarrow> int"
  prio_passed_to :: "tid \<Rightarrow> tid option"
  period :: "tid \<Rightarrow> rtime"
  resume_time :: "tid \<Rightarrow> rtime"
  yield_time :: "tid \<Rightarrow> rtime"
  rr_quantum :: "tid \<Rightarrow> int"
  rr_remaining :: "tid \<Rightarrow> int"
  suspdepth :: "tid \<Rightarrow> int"
  owndres :: "tid \<Rightarrow> 32 word"
  blocked_on :: "tid \<Rightarrow> qnode option"
  msg :: "tid \<Rightarrow> 32 word"
  signal :: "tid \<Rightarrow> nat option"
  tsk_next :: "tid \<Rightarrow> tid option"
  tsk_prev :: "tid \<Rightarrow> tid"
  tprev :: "tid \<Rightarrow> tid"
  tnext :: "tid \<Rightarrow> tid"
  rprev :: "tid \<Rightarrow> tid"
  rnext :: "tid \<Rightarrow> tid"
  lnxtsk :: "tid \<Rightarrow> ltid option"
  is_hard :: "tid \<Rightarrow> int"
  force_soft :: "tid \<Rightarrow> bool"
  resync_frame :: "tid \<Rightarrow> bool"
  stack_bottom :: "tid \<Rightarrow> nat"
  stack_word :: "nat \<Rightarrow> tid option"
  bits_test :: "tid \<Rightarrow> nat \<times> 32 word"
  qnext :: "qnode \<Rightarrow> qnode"
  qprev :: "qnode \<Rightarrow> qnode"
  qtask :: "qnode \<Rightarrow> ptr"
  sems :: "semid \<Rightarrow> sem"
  mbxs :: "mbxid \<Rightarrow> mbx"
  mcbs :: "32 word \<Rightarrow> mcb"
  mem :: "nat \<Rightarrow> byte"
  lstate :: "ltid \<Rightarrow> int"
  lrt_priority :: "ltid \<Rightarrow> int"
  rt_current :: tid
  fpu_task :: tid
  sched_rqsted :: int
  rt_time_h :: rtime
  rt_half_tick :: int
  oneshot_timer :: bool
  oneshot_running :: bool
  shot_fired :: bool
  preempt_always :: bool
  times :: rt_times
  tuned :: tuned_t
  wdog_task :: "tid option"
  tasks_per_cpu :: int
  wake_up_srq :: klist
  frstk_srq :: klist
  pends :: "pend list"
  linux_nextp :: "tid option"
  linux_prevp :: "tid option"
  lnx_current :: ltid
  to_linux_depth :: int
  hrt_flag :: bool
  switch_time :: rtime
  exectime :: "tid \<Rightarrow> rtime"
  timer_chip :: "int list"
  tsc :: "nat \<Rightarrow> rtime"
  tsc_reads :: nat

text \<open>
  \<open>tsc n\<close> is what the \<open>n\<close>-th \<^verbatim>\<open>rdtsc()\<close> returns: the time stamp counter is hardware, so the
  sequence of its readings is part of the initial state and is never written.
\<close>

definition rdtsc :: "kst \<Rightarrow> rtime \<times> kst" where
  "rdtsc s = (tsc s (tsc_reads s), s\<lparr>tsc_reads := Suc (tsc_reads s)\<rparr>)"

text \<open>The value of a 32-bit register read as a signed C integer.\<close>

definition to_int32 :: "int \<Rightarrow> int" where
  "to_int32 n = signed_take_bit 31 n"

lemma to_int32_id [simp]: "- (2 ^ 31) \<le> n \<Longrightarrow> n < 2 ^ 31 \<Longrightarrow> to_int32 n = n"
  by (simp add: to_int32_def signed_take_bit_int_eq_self)

section \<open>Calls that may switch the CPU to another task\<close>

datatype ('s, 'a) sres =
    Ret 'a 's
  | Switch 's "'s \<Rightarrow> ('s, 'a) sres"
  | Stuck

type_synonym 'a res = "(kst, 'a) sres"

primrec res_bind :: "('s, 'a) sres \<Rightarrow> ('a \<Rightarrow> 's \<Rightarrow> ('s, 'b) sres) \<Rightarrow> ('s, 'b) sres" where
  "res_bind (Ret a s) f = f a s"
| "res_bind (Switch s k) f = Switch s (\<lambda>t. res_bind (k t) f)"
| "res_bind Stuck f = Stuck"

definition lift_opt :: "'x option \<Rightarrow> ('x \<Rightarrow> ('s, 'a) sres) \<Rightarrow> ('s, 'a) sres" where
  "lift_opt x f = (case x of None \<Rightarrow> Stuck | Some y \<Rightarrow> f y)"

lemma lift_opt_simps [simp]: "lift_opt (Some y) f = f y" "lift_opt None f = Stuck"
  by (simp_all add: lift_opt_def)

lemma res_bind_assoc: "res_bind (res_bind r f) g = res_bind r (\<lambda>a s. res_bind (f a s) g)"
  by (induction r) simp_all

lemma res_bind_Ret: "res_bind r Ret = r"
  by (induction r) simp_all

text \<open>A call of the scheduler from a module whose state contains that of the scheduler.\<close>

primrec lift_res :: "('t \<Rightarrow> 's) \<Rightarrow> ('s \<Rightarrow> 't \<Rightarrow> 't) \<Rightarrow> ('s, 'a) sres \<Rightarrow> 't \<Rightarrow> ('t, 'a) sres" where
  "lift_res get put (Ret a k) s = Ret a (put k s)"
| "lift_res get put (Switch k f) s = Switch (put k s) (\<lambda>t. lift_res get put (f (get t)) t)"
| "lift_res get put Stuck s = Stuck"

text \<open>The state in which a call leaves the CPU: on return, or at its first switch.\<close>

fun left_in :: "('s, 'a) sres \<Rightarrow> 's option" where
  "left_in (Ret a s) = Some s"
| "left_in (Switch s k) = Some s"
| "left_in Stuck = None"

lemma left_in_bind_Switch [simp]: "left_in (res_bind (Switch s k) f) = Some s"
  by simp

text \<open>What a call may return, whatever the other tasks do while it is switched out.\<close>

inductive may_return :: "('s, 'a) sres \<Rightarrow> 'a \<Rightarrow> 's \<Rightarrow> bool" where
  "may_return (Ret a s) a s"
| "may_return (k t) a s' \<Longrightarrow> may_return (Switch s k) a s'"

inductive_simps may_return_simps [simp]:
  "may_return (Ret b s) a s'" "may_return (Switch s k) a s'" "may_return Stuck a s'"

lemma may_return_bind:
  "may_return (res_bind r f) b s' \<longleftrightarrow> (\<exists>a t. may_return r a t \<and> may_return (f a t) b s')"
  by (induction r) auto

lemma may_return_lift: "may_return (lift_opt x f) a s \<longleftrightarrow> (\<exists>y. x = Some y \<and> may_return (f y) a s)"
  by (cases x) auto

end
