(* ===== verification/Sched_Queues.thy ===== *)
theory Sched_Queues
  imports Rtai_Kernel
begin

text \<open>
  The queue primitives of the scheduler: the ready list (ordered by priority, first come first
  served among equals), its earliest-deadline variant, the timed list (ordered by resume
  time), the queues of blocked tasks, and the propagation of an inherited priority along
  \<^verbatim>\<open>prio_passed_to\<close>.  The definitions are the code's pointer manipulations; the lemmas show
  what they do to the lists the links represent.
\<close>

section \<open>The ready list\<close>

definition link_ready :: "tid \<Rightarrow> tid \<Rightarrow> kst \<Rightarrow> kst" where
  "link_ready t pos s =
     s\<lparr>rnext := link_nx (rnext s) (rprev s) t pos, rprev := link_pv (rprev s) t pos\<rparr>"

definition unlink_ready :: "tid \<Rightarrow> kst \<Rightarrow> kst" where
  "unlink_ready t s =
     s\<lparr>rnext := unlink_nx (rnext s) (rprev s) t, rprev := unlink_pv (rnext s) (rprev s) t\<rparr>"

definition enq_ready_edf_task :: "tid \<Rightarrow> kst \<Rightarrow> kst option" where
  "enq_ready_edf_task ready_task s = do {
     task \<leftarrow> seek (\<lambda>task. policy s task < 0 \<and> period s ready_task \<ge> period s task)
                  (rnext s) (rnext s LINUX);
     Some (link_ready ready_task task s)
   }"

text \<open>\<^verbatim>\<open>while (prio >= task->priority) { if ((task = task->rnext)->priority < 0) break; }\<close>\<close>

partial_function (option) ready_pos :: "kst \<Rightarrow> int \<Rightarrow> tid \<Rightarrow> tid option" where
  "ready_pos s prio task =
     (if prio \<ge> priority s task then
        (if priority s (rnext s task) < 0 then Some (rnext s task)
         else ready_pos s prio (rnext s task))
      else Some task)"

declare ready_pos.simps [code]

text \<open>A Linux process is put on the ring of processes to wake up and the Linux service request
  that wakes them is pended.\<close>

definition pend_wake_up :: "ltid \<Rightarrow> kst \<Rightarrow> kst" where
  "pend_wake_up l s =
     s\<lparr>wake_up_srq := (wake_up_srq s)\<lparr>k_task := (k_task (wake_up_srq s))(k_in (wake_up_srq s) := l),
                                     k_in := (k_in (wake_up_srq s) + 1) mod MAX_SRQ\<rparr>,
       pends := pends s @ [PendWakeUpSrq]\<rparr>"

definition enq_ready_task :: "tid \<Rightarrow> kst \<Rightarrow> kst option" where
  "enq_ready_task ready_task s =
     (if is_hard s ready_task \<noteq> 0 then do {
        task \<leftarrow> ready_pos s (priority s ready_task) (rnext s LINUX);
        Some (link_ready ready_task task s)
      }
      else do {
        l \<leftarrow> lnxtsk s ready_task;
        if lstate s l \<noteq> TASK_HARDREALTIME then do {
          task \<leftarrow> ready_pos s (priority s ready_task) (rnext s LINUX);
          Some (link_ready ready_task task s)
        }
        else Some (pend_wake_up l s)
      })"

definition renq_ready_task :: "tid \<Rightarrow> int \<Rightarrow> kst \<Rightarrow> (bool \<times> kst) option" where
  "renq_ready_task ready_task prio s =
     (if priority s ready_task \<noteq> prio then
        let s1 = s\<lparr>priority := (priority s)(ready_task := prio)\<rparr> in
        if state s ready_task = READY then do {
          s2 \<leftarrow> enq_ready_task ready_task (unlink_ready ready_task s1);
          Some (True, s2)
        }
        else Some (True, s1)
      else Some (False, s))"

definition renq_current :: "tid \<Rightarrow> int \<Rightarrow> kst \<Rightarrow> (bool \<times> kst) option" where
  "renq_current cur prio s =
     (if priority s cur \<noteq> prio then do {
        s2 \<leftarrow> enq_ready_task cur (unlink_ready cur (s\<lparr>priority := (priority s)(cur := prio)\<rparr>));
        Some (True, s2)
      }
      else Some (False, s))"

text \<open>A soft task that leaves the ready list is put to sleep in Linux.\<close>

definition lnx_sleep :: "tid \<Rightarrow> kst \<Rightarrow> kst option" where
  "lnx_sleep task s =
     (if is_hard s task = 0 then do {
        proc \<leftarrow> lnxtsk s task;
        Some (s\<lparr>lstate := (lstate s)(proc := TASK_HARDREALTIME),
               lrt_priority := (lrt_priority s)(proc := (2 * BASE_SOFT_PRIORITY - 1) - priority s task)\<rparr>)
      }
      else Some s)"

definition rem_ready_task :: "tid \<Rightarrow> kst \<Rightarrow> kst option" where
  "rem_ready_task task s =
     (if state s task = READY then do { s1 \<leftarrow> lnx_sleep task s; Some (unlink_ready task s1) }
      else Some s)"

definition rem_ready_current :: "tid \<Rightarrow> kst \<Rightarrow> kst option" where
  "rem_ready_current cur s = do { s1 \<leftarrow> lnx_sleep cur s; Some (unlink_ready cur s1) }"

section \<open>The timed list\<close>

definition link_timed :: "tid \<Rightarrow> tid \<Rightarrow> kst \<Rightarrow> kst" where
  "link_timed t pos s =
     s\<lparr>tnext := link_nx (tnext s) (tprev s) t pos, tprev := link_pv (tprev s) t pos\<rparr>"

definition unlink_timed :: "tid \<Rightarrow> kst \<Rightarrow> kst" where
  "unlink_timed t s =
     s\<lparr>tnext := unlink_nx (tnext s) (tprev s) t, tprev := unlink_pv (tnext s) (tprev s) t\<rparr>"

definition enq_timed_task :: "tid \<Rightarrow> kst \<Rightarrow> kst option" where
  "enq_timed_task timed_task s = do {
     s1 \<leftarrow> (if is_hard s timed_task = 0 then do {
              l \<leftarrow> lnxtsk s timed_task;
              Some (s\<lparr>lstate := (lstate s)(l := TASK_HARDREALTIME)\<rparr>)
            } else Some s);
     task \<leftarrow> seek (\<lambda>task. resume_time s1 timed_task > resume_time s1 task) (tnext s1) (tnext s1 LINUX);
     Some (link_timed timed_task task s1)
   }"

abbreviation wake_mask :: "32 word" where
  "wake_mask \<equiv> NOT (DELAYED OR SEMAPHORE OR RECEIVE OR SEND OR RPC OR RETURN OR MBXSUSP)"

text \<open>The body of the loop of \<^verbatim>\<open>wake_up_timed_tasks\<close> for one expired task, and the loop.\<close>

definition wake_timed_task :: "tid \<Rightarrow> kst \<Rightarrow> kst option" where
  "wake_timed_task task s =
     (let s1 = s\<lparr>state := (state s)(task := state s task AND wake_mask)\<rparr> in
      if state s1 task = READY then
        (if policy s1 task < 0 then enq_ready_edf_task task s1 else enq_ready_task task s1)
      else Some s1)"

partial_function (option) wake_loop :: "tid \<Rightarrow> kst \<Rightarrow> (tid \<times> kst) option" where
  "wake_loop task s =
     (if resume_time s task \<le> rt_time_h s then do {
        s1 \<leftarrow> wake_timed_task task s;
        wake_loop (tnext s1 task) s1
      }
      else Some (task, s))"

declare wake_loop.simps [code]

definition wake_up_timed_tasks :: "kst \<Rightarrow> kst option" where
  "wake_up_timed_tasks s = do {
     (task, s1) \<leftarrow> wake_loop (tnext s LINUX) s;
     Some (s1\<lparr>tnext := (tnext s1)(LINUX := task), tprev := (tprev s1)(task := LINUX)\<rparr>)
   }"

definition rem_timed_task :: "tid \<Rightarrow> kst \<Rightarrow> kst" where
  "rem_timed_task task s = (if state s task AND DELAYED \<noteq> 0 then unlink_timed task s else s)"

section \<open>Queues of blocked tasks\<close>

definition link_queue :: "qnode \<Rightarrow> qnode \<Rightarrow> kst \<Rightarrow> kst" where
  "link_queue n pos s =
     s\<lparr>qnext := link_nx (qnext s) (qprev s) n pos, qprev := link_pv (qprev s) n pos\<rparr>"

definition unlink_queue :: "qnode \<Rightarrow> kst \<Rightarrow> kst" where
  "unlink_queue n s =
     s\<lparr>qnext := unlink_nx (qnext s) (qprev s) n, qprev := unlink_pv (qnext s) (qprev s) n\<rparr>"

text \<open>\<^verbatim>\<open>while (q != queue && (q->task)->priority <= prio) q = q->next;\<close>\<close>

partial_function (option) blocked_pos :: "kst \<Rightarrow> qnode \<Rightarrow> int \<Rightarrow> qnode \<Rightarrow> qnode option" where
  "blocked_pos s queue prio q =
     (if q = queue then Some q
      else (case qtask s q of
              Task t \<Rightarrow> if priority s t \<le> prio then blocked_pos s queue prio (qnext s q) else Some q
            | NULL \<Rightarrow> None
            | Num n \<Rightarrow> None))"

declare blocked_pos.simps [code]

definition enqueue_blocked :: "tid \<Rightarrow> qnode \<Rightarrow> int \<Rightarrow> kst \<Rightarrow> kst option" where
  "enqueue_blocked task queue qtyp s =
     (let s1 = s\<lparr>blocked_on := (blocked_on s)(task := Some queue)\<rparr> in
      if qtyp = 0 then do {
        q \<leftarrow> blocked_pos s1 queue (priority s1 task) (qnext s1 queue);
        Some (link_queue (TaskQ task) q s1)
      }
      else Some (link_queue (TaskQ task) queue s1))"

definition dequeue_blocked :: "tid \<Rightarrow> kst \<Rightarrow> kst" where
  "dequeue_blocked task s =
     (let s1 = unlink_queue (TaskQ task) (s\<lparr>prio_passed_to := (prio_passed_to s)(task := None)\<rparr>) in
      s1\<lparr>blocked_on := (blocked_on s1)(task := None)\<rparr>)"

section \<open>Priority inheritance\<close>

text \<open>
  \<^verbatim>\<open>!((to->state & SEMAPHORE) && ((SEM *)q)->qtype)\<close>: a queue that is not kept in priority
  order is left alone.  The cast is meaningful on the queue of a semaphore only.
\<close>

definition prio_ordered :: "kst \<Rightarrow> tid \<Rightarrow> qnode \<Rightarrow> bool option" where
  "prio_ordered s t q =
     (if state s t AND SEMAPHORE \<noteq> 0 then
        (case q of SemQ sem \<Rightarrow> Some (qtype (sems s sem) = 0) | _ \<Rightarrow> None)
      else Some True)"

text \<open>Moving a blocked task to the place of its new priority in the queue it is blocked on.\<close>

definition requeue_blocked :: "tid \<Rightarrow> qnode \<Rightarrow> kst \<Rightarrow> kst option" where
  "requeue_blocked t queue s =
     (let s1 = unlink_queue (TaskQ t) s in do {
        q \<leftarrow> blocked_pos s1 queue (priority s1 t) (qnext s1 queue);
        Some (link_queue (TaskQ t) q s1)
      })"

text \<open>The body of the loop of \<^verbatim>\<open>pass_prio\<close>; the flag is the bit of CPU 0 in \<^verbatim>\<open>schedmap\<close>.\<close>

definition inherit_prio :: "tid \<Rightarrow> int \<Rightarrow> kst \<Rightarrow> (bool \<times> kst) option" where
  "inherit_prio to prio s =
     (let s1 = s\<lparr>priority := (priority s)(to := prio)\<rparr> in
      if state s1 to = READY then do {
        s2 \<leftarrow> enq_ready_task to (unlink_ready to s1);
        Some (True, s2)
      }
      else (case blocked_on s1 to of
              None \<Rightarrow> Some (False, s1)
            | Some q \<Rightarrow> do {
                ord \<leftarrow> prio_ordered s1 to q;
                if ord then do { s2 \<leftarrow> requeue_blocked to q s1; Some (False, s2) }
                else Some (False, s1)
              }))"

partial_function (option) pass_loop :: "tid option \<Rightarrow> tid \<Rightarrow> bool \<Rightarrow> kst \<Rightarrow> (bool \<times> kst) option" where
  "pass_loop to from schedmap s =
     (case to of
        None \<Rightarrow> Some (schedmap, s)
      | Some t \<Rightarrow>
          (if priority s t > priority s from then do {
             (b, s1) \<leftarrow> inherit_prio t (priority s from) s;
             pass_loop (prio_passed_to s1 t) from (schedmap \<or> b) s1
           }
           else Some (schedmap, s)))"

declare pass_loop.simps [code]

definition pass_prio :: "tid option \<Rightarrow> tid \<Rightarrow> kst \<Rightarrow> (bool \<times> kst) option" where
  "pass_prio to from s = pass_loop to from False (s\<lparr>prio_passed_to := (prio_passed_to s)(from := to)\<rparr>)"

section \<open>What the ready list operations do\<close>

text \<open>
  \<open>ready_list s rq\<close>: the links hold the list \<open>rq\<close>, no task behind the first one has a negative
  priority (a task that locks the scheduler runs, at the head, at a negative one), and the
  walk of an insertion is stopped by the kernel task, whose priority is the lowest of all or,
  when it has locked the scheduler itself, negative.
\<close>

definition ready_list :: "kst \<Rightarrow> tid list \<Rightarrow> bool" where
  "ready_list s rq \<longleftrightarrow> ring (rnext s) (rprev s) LINUX rq
     \<and> (\<forall>x \<in> set (tl rq). 0 \<le> priority s x)
     \<and> (priority s LINUX = RT_LINUX_PRIORITY \<or> priority s LINUX < 0)"

definition in_prio_order :: "kst \<Rightarrow> tid list \<Rightarrow> bool" where
  "in_prio_order s = sorted_wrt (\<lambda>x y. priority s x \<le> priority s y)"

text \<open>A hard real-time task with a priority the interface accepts.\<close>

definition hard_task :: "kst \<Rightarrow> tid \<Rightarrow> bool" where
  "hard_task s t \<longleftrightarrow> is_hard s t \<noteq> 0 \<and> 0 \<le> priority s t \<and> priority s t < RT_LINUX_PRIORITY"

abbreviation ready_insert :: "kst \<Rightarrow> tid \<Rightarrow> tid list \<Rightarrow> tid list" where
  "ready_insert s t \<equiv> insert_after_while (\<lambda>x. priority s x \<le> priority s t) t"

lemma link_ready_simps [simp]:
  "rnext (link_ready t pos s) = link_nx (rnext s) (rprev s) t pos"
  "rprev (link_ready t pos s) = link_pv (rprev s) t pos"
  "priority (link_ready t pos s) = priority s" "state (link_ready t pos s) = state s"
  "is_hard (link_ready t pos s) = is_hard s" "policy (link_ready t pos s) = policy s"
  "tnext (link_ready t pos s) = tnext s" "tprev (link_ready t pos s) = tprev s"
  "resume_time (link_ready t pos s) = resume_time s" "rt_time_h (link_ready t pos s) = rt_time_h s"
  "qnext (link_ready t pos s) = qnext s" "qprev (link_ready t pos s) = qprev s"
  "qtask (link_ready t pos s) = qtask s" "blocked_on (link_ready t pos s) = blocked_on s"
  "prio_passed_to (link_ready t pos s) = prio_passed_to s" "sems (link_ready t pos s) = sems s"
  "rt_current (link_ready t pos s) = rt_current s"
  by (simp_all add: link_ready_def)

lemma unlink_ready_simps [simp]:
  "rnext (unlink_ready t s) = unlink_nx (rnext s) (rprev s) t"
  "rprev (unlink_ready t s) = unlink_pv (rnext s) (rprev s) t"
  "priority (unlink_ready t s) = priority s" "state (unlink_ready t s) = state s"
  "is_hard (unlink_ready t s) = is_hard s" "policy (unlink_ready t s) = policy s"
  "tnext (unlink_ready t s) = tnext s" "tprev (unlink_ready t s) = tprev s"
  "resume_time (unlink_ready t s) = resume_time s" "rt_time_h (unlink_ready t s) = rt_time_h s"
  "qnext (unlink_ready t s) = qnext s" "qprev (unlink_ready t s) = qprev s"
  "qtask (unlink_ready t s) = qtask s" "blocked_on (unlink_ready t s) = blocked_on s"
  "prio_passed_to (unlink_ready t s) = prio_passed_to s" "sems (unlink_ready t s) = sems s"
  "rt_current (unlink_ready t s) = rt_current s"
  by (simp_all add: unlink_ready_def)

lemma ready_pos_links:
  "links (rnext s) pv a xs b \<Longrightarrow> priority s a \<le> p \<Longrightarrow> \<forall>x \<in> set xs. 0 \<le> priority s x \<Longrightarrow>
     p < priority s b \<or> priority s b < 0 \<Longrightarrow>
     ready_pos s p a = Some (hd (dropWhile (\<lambda>x. priority s x \<le> p) xs @ [b]))"
proof (induction xs arbitrary: a)
  case Nil
  then show ?case by (subst ready_pos.simps, subst ready_pos.simps) auto
next
  case (Cons x xs)
  have "ready_pos s p a = ready_pos s p x"
    using Cons.prems by (simp add: ready_pos.simps [of s p a])
  moreover have "ready_pos s p x = Some x" if "\<not> priority s x \<le> p"
    using that by (simp add: ready_pos.simps [of s p x])
  ultimately show ?case
    using Cons.IH [of x] Cons.prems by (cases "priority s x \<le> p") auto
qed

lemma ready_pos_ring:
  assumes r: "ready_list s rq" and p: "p < RT_LINUX_PRIORITY"
  shows "ready_pos s p (rnext s LINUX) = Some (hd (dropWhile (\<lambda>x. priority s x \<le> p) rq @ [LINUX]))"
proof (cases rq)
  case Nil
  then show ?thesis
    using r p by (subst ready_pos.simps) (auto simp: ready_list_def ring_empty)
next
  case (Cons x xs)
  have l: "links (rnext s) (rprev s) x xs LINUX" and n: "rnext s LINUX = x"
    using r Cons by (auto simp: ready_list_def ring_def)
  show ?thesis
  proof (cases "priority s x \<le> p")
    case True
    then show ?thesis
      using ready_pos_links [OF l True] r p Cons n by (auto simp: ready_list_def)
  next
    case False
    then show ?thesis by (subst ready_pos.simps) (auto simp: n Cons)
  qed
qed

lemma enq_ready_task_eq:
  assumes "ready_list s rq" and "hard_task s t"
  shows "enq_ready_task t s =
     Some (link_ready t (hd (dropWhile (\<lambda>x. priority s x \<le> priority s t) rq @ [LINUX])) s)"
  using assms by (simp add: enq_ready_task_def hard_task_def ready_pos_ring)

lemma ready_insert_tail:
  assumes "\<forall>x \<in> set (tl rq). 0 \<le> priority s x" and "0 \<le> priority s t"
  shows "\<forall>x \<in> set (tl (ready_insert s t rq)). 0 \<le> priority s x"
proof (cases "rq = [] \<or> priority s (hd rq) \<le> priority s t")
  case True
  then have "set (tl (ready_insert s t rq)) \<subseteq> insert t (set (tl rq))"
    by (cases rq) (auto simp: insert_after_while_def dest: set_takeWhileD set_dropWhileD)
  then show ?thesis using assms by auto
next
  case False
  then show ?thesis using assms by (cases rq) (auto simp: insert_after_while_def)
qed

lemma ready_list_link:
  assumes "ready_list s rq" and "hard_task s t" and "t \<notin> set (LINUX # rq)"
  shows "ready_list (link_ready t (hd (dropWhile (\<lambda>x. priority s x \<le> priority s t) rq @ [LINUX])) s)
           (ready_insert s t rq)"
proof -
  have "ring (rnext s) (rprev s) LINUX rq" and "\<forall>x \<in> set (tl rq). 0 \<le> priority s x"
    and "0 \<le> priority s t"
    using assms by (simp_all add: ready_list_def hard_task_def)
  note f = ring_insert_after_while [OF this(1) assms(3) refl] ready_insert_tail [OF this(2,3)]
  show ?thesis
    unfolding ready_list_def link_ready_simps
    using f assms(1) by (auto simp only: ready_list_def)
qed

lemma in_prio_order_insert:
  "in_prio_order s rq \<Longrightarrow> in_prio_order s (ready_insert s t rq)"
  using past_equal.insert_keeps_order [of "priority s" rq t] by (simp add: in_prio_order_def)

lemma tl_remove1_subset: "set (tl (remove1 y xs)) \<subseteq> set (tl xs)"
proof (cases xs)
  case (Cons x xs')
  then show ?thesis
    using set_remove1_subset [of y xs'] by (cases xs') auto
qed simp

lemma ready_list_unlink:
  assumes "ready_list s rq" and "t \<in> set rq"
  shows "ready_list (unlink_ready t s) (remove1 t rq)"
  using assms ring_unlink_remove1 tl_remove1_subset [of t rq] by (auto simp: ready_list_def)

lemma enq_ready_edf_task_eq:
  assumes "ring (rnext s) (rprev s) LINUX rq" and "0 \<le> policy s LINUX"
  shows "enq_ready_edf_task t s = Some (link_ready t
     (hd (dropWhile (\<lambda>x. policy s x < 0 \<and> period s x \<le> period s t) rq @ [LINUX])) s)"
  using seek_ring [OF assms(1), of "\<lambda>x. policy s x < 0 \<and> period s x \<le> period s t"] assms(2)
  by (simp add: enq_ready_edf_task_def)

section \<open>What the timed list operations do\<close>

definition timed_list :: "kst \<Rightarrow> tid list \<Rightarrow> bool" where
  "timed_list s tq \<longleftrightarrow> ring (tnext s) (tprev s) LINUX tq
     \<and> sorted_wrt (\<lambda>x y. resume_time s x \<le> resume_time s y) tq
     \<and> resume_time s LINUX = RT_TIME_END"

abbreviation timed_insert :: "kst \<Rightarrow> tid \<Rightarrow> tid list \<Rightarrow> tid list" where
  "timed_insert s t \<equiv> insert_after_while (\<lambda>x. resume_time s x < resume_time s t) t"

lemma link_timed_simps [simp]:
  "tnext (link_timed t pos s) = link_nx (tnext s) (tprev s) t pos"
  "tprev (link_timed t pos s) = link_pv (tprev s) t pos"
  "resume_time (link_timed t pos s) = resume_time s" "state (link_timed t pos s) = state s"
  "rnext (link_timed t pos s) = rnext s" "rprev (link_timed t pos s) = rprev s"
  "priority (link_timed t pos s) = priority s" "rt_time_h (link_timed t pos s) = rt_time_h s"
  "is_hard (link_timed t pos s) = is_hard s" "rt_current (link_timed t pos s) = rt_current s"
  by (simp_all add: link_timed_def)

lemma unlink_timed_simps [simp]:
  "tnext (unlink_timed t s) = unlink_nx (tnext s) (tprev s) t"
  "tprev (unlink_timed t s) = unlink_pv (tnext s) (tprev s) t"
  "resume_time (unlink_timed t s) = resume_time s" "state (unlink_timed t s) = state s"
  "rnext (unlink_timed t s) = rnext s" "rprev (unlink_timed t s) = rprev s"
  "priority (unlink_timed t s) = priority s" "rt_time_h (unlink_timed t s) = rt_time_h s"
  "is_hard (unlink_timed t s) = is_hard s" "rt_current (unlink_timed t s) = rt_current s"
  by (simp_all add: unlink_timed_def)

lemma sorted_wrt_remove1: "sorted_wrt P xs \<Longrightarrow> sorted_wrt P (remove1 y xs)"
  by (induction xs) (auto dest: notin_set_remove1 set_mp [OF set_remove1_subset])

lemma enq_timed_task_eq:
  assumes "timed_list s tq" and "is_hard s t \<noteq> 0" and "resume_time s t \<le> RT_TIME_END"
  shows "enq_timed_task t s =
     Some (link_timed t (hd (dropWhile (\<lambda>x. resume_time s x < resume_time s t) tq @ [LINUX])) s)"
  using assms seek_ring [of "tnext s" "tprev s" LINUX tq "\<lambda>x. resume_time s x < resume_time s t"]
  by (simp add: enq_timed_task_def timed_list_def)

lemma timed_list_link:
  assumes "timed_list s tq" and "t \<notin> set (LINUX # tq)"
  shows "timed_list (link_timed t (hd (dropWhile (\<lambda>x. resume_time s x < resume_time s t) tq @ [LINUX])) s)
           (timed_insert s t tq)"
  using ring_insert_after_while [OF _ assms(2) refl] assms(1)
    before_equal.insert_keeps_order [of "resume_time s" tq t]
  unfolding timed_list_def link_timed_simps by metis

lemma timed_list_unlink:
  assumes "timed_list s tq" and "t \<in> set tq"
  shows "timed_list (unlink_timed t s) (remove1 t tq)"
  using assms ring_unlink_remove1 [OF _ assms(2)] sorted_wrt_remove1
  unfolding timed_list_def unlink_timed_simps by metis

lemma rem_timed_task_eq:
  "state s t AND DELAYED \<noteq> 0 \<Longrightarrow> rem_timed_task t s = unlink_timed t s"
  "state s t AND DELAYED = 0 \<Longrightarrow> rem_timed_task t s = s"
  by (simp_all add: rem_timed_task_def)

subsection \<open>Waking the tasks whose time has come\<close>

text \<open>Everything but the ready links and the task states is left alone.\<close>

definition ready_frame :: "kst \<Rightarrow> kst \<Rightarrow> bool" where
  "ready_frame s s' \<longleftrightarrow> (\<exists>st nx pv. s' = s\<lparr>state := st, rnext := nx, rprev := pv\<rparr>)"

lemma ready_frameI: "ready_frame s (s\<lparr>state := st, rnext := nx, rprev := pv\<rparr>)"
  unfolding ready_frame_def by blast

lemma ready_frame_refl: "ready_frame s s"
  using ready_frameI [where s = s and st = "state s" and nx = "rnext s" and pv = "rprev s"] by simp

lemma ready_frame_trans: "ready_frame s t \<Longrightarrow> ready_frame t u \<Longrightarrow> ready_frame s u"
proof -
  assume "ready_frame s t" "ready_frame t u"
  then obtain a b c d e f where "t = s\<lparr>state := a, rnext := b, rprev := c\<rparr>"
    and "u = t\<lparr>state := d, rnext := e, rprev := f\<rparr>"
    unfolding ready_frame_def by blast
  then show ?thesis using ready_frameI [where st = d and nx = e and pv = f] by simp
qed

lemma ready_frame_fields:
  assumes "ready_frame s s'"
  shows "tnext s' = tnext s" "tprev s' = tprev s" "resume_time s' = resume_time s"
    "rt_time_h s' = rt_time_h s" "priority s' = priority s" "is_hard s' = is_hard s"
    "policy s' = policy s" "hard_task s' t = hard_task s t"
    "in_prio_order s' = in_prio_order s"
proof -
  obtain a b c where "s' = s\<lparr>state := a, rnext := b, rprev := c\<rparr>"
    using assms unfolding ready_frame_def by blast
  then show "tnext s' = tnext s" "tprev s' = tprev s" "resume_time s' = resume_time s"
    "rt_time_h s' = rt_time_h s" "priority s' = priority s" "is_hard s' = is_hard s"
    "policy s' = policy s" "hard_task s' t = hard_task s t"
    "in_prio_order s' = in_prio_order s"
    by (simp_all add: hard_task_def in_prio_order_def fun_eq_iff)
qed

lemma wake_timed_task_eq:
  assumes r: "ready_list s rq" and t: "hard_task s t" "t \<notin> set (LINUX # rq)" "0 \<le> policy s t"
  shows "\<exists>s' rq'. wake_timed_task t s = Some s' \<and> ready_list s' rq' \<and> ready_frame s s'
     \<and> state s' = (state s)(t := state s t AND wake_mask)
     \<and> rq' = (if state s t AND wake_mask = READY then ready_insert s t rq else rq)"
proof -
  let ?s = "s\<lparr>state := (state s)(t := state s t AND wake_mask)\<rparr>"
  have r': "ready_list ?s rq" and t': "hard_task ?s t"
    using r t by (simp_all add: ready_list_def hard_task_def)
  have f: "ready_frame s ?s" and f': "ready_frame s (link_ready t p ?s)" for p
    using ready_frameI [of s "rprev s" "rnext s"] ready_frameI [of s] by (simp_all add: link_ready_def)
  show ?thesis
  proof (cases "state s t AND wake_mask = READY")
    case True
    then have "wake_timed_task t s =
        Some (link_ready t (hd (dropWhile (\<lambda>x. priority s x \<le> priority s t) rq @ [LINUX])) ?s)"
      using t(3) enq_ready_task_eq [OF r' t'] by (simp add: wake_timed_task_def)
    then show ?thesis
      using True ready_list_link [OF r' t' t(2)] f' by auto
  next
    case False
    then show ?thesis using r' f by (auto simp: wake_timed_task_def)
  qed
qed

text \<open>The loop, from a node \<open>a\<close> in front of the expired tasks \<open>xs\<close>.\<close>

lemma wake_loop_eq:
  assumes "links (tnext s) (tprev s) a xs b" and "\<forall>x \<in> set xs. resume_time s x \<le> rt_time_h s"
    and "rt_time_h s < resume_time s b" and "distinct xs" and "set xs \<inter> set (LINUX # rq) = {}"
    and "ready_list s rq" and "\<forall>x \<in> set xs. hard_task s x \<and> 0 \<le> policy s x"
  shows "\<exists>s' rq'. wake_loop (tnext s a) s = Some (b, s') \<and> ready_list s' rq' \<and> ready_frame s s'
     \<and> state s' = (\<lambda>x. if x \<in> set xs then state s x AND wake_mask else state s x)
     \<and> set rq' = set rq \<union> {x \<in> set xs. state s x AND wake_mask = READY}
     \<and> (in_prio_order s rq \<longrightarrow> in_prio_order s rq')"
  using assms
proof (induction xs arbitrary: a s rq)
  case Nil
  then show ?case
    by (subst wake_loop.simps) (auto intro: ready_frame_refl)
next
  case (Cons x xs)
  obtain s1 rq1 where s1: "wake_timed_task x s = Some s1" "ready_list s1 rq1" "ready_frame s s1"
    "state s1 = (state s)(x := state s x AND wake_mask)"
    "rq1 = (if state s x AND wake_mask = READY then ready_insert s x rq else rq)"
    using wake_timed_task_eq [of s rq x] Cons.prems(5,6,7) by auto
  note f1 = ready_frame_fields [OF s1(3)]
  have rq1: "set rq1 = set rq \<union> (if state s x AND wake_mask = READY then {x} else {})"
    "in_prio_order s rq \<Longrightarrow> in_prio_order s rq1"
    using s1(5) in_prio_order_insert by auto
  have x: "wake_loop (tnext s a) s = wake_loop (tnext s1 x) s1"
    using Cons.prems(1,2) s1(1) by (subst wake_loop.simps) simp
  obtain s' rq' where s': "wake_loop (tnext s1 x) s1 = Some (b, s')" "ready_list s' rq'"
    "ready_frame s1 s'" "state s' = (\<lambda>x. if x \<in> set xs then state s1 x AND wake_mask else state s1 x)"
    "set rq' = set rq1 \<union> {x \<in> set xs. state s1 x AND wake_mask = READY}"
    "in_prio_order s1 rq1 \<longrightarrow> in_prio_order s1 rq'"
    using Cons.IH [of s1 x rq1] Cons.prems s1(2) rq1(1) f1 by (auto split: if_splits)
  have "state s' = (\<lambda>y. if y \<in> set (x # xs) then state s y AND wake_mask else state s y)"
    using s'(4) s1(4) Cons.prems(4) by auto
  moreover have "set rq' = set rq \<union> {y \<in> set (x # xs). state s y AND wake_mask = READY}"
    using s'(5) s1(4) rq1(1) Cons.prems(4) by auto
  ultimately show ?case
    using x s'(1,2,6) ready_frame_trans [OF s1(3) s'(3)] rq1(2) f1(9) by auto
qed

lemma wake_up_timed_tasks_eq:
  assumes "timed_list s tq" and "ready_list s rq" and "set tq \<inter> set rq = {}"
    and "rt_time_h s < RT_TIME_END"
    and "\<forall>x \<in> set (takeWhile (\<lambda>x. resume_time s x \<le> rt_time_h s) tq). hard_task s x \<and> 0 \<le> policy s x"
  defines "ex \<equiv> takeWhile (\<lambda>x. resume_time s x \<le> rt_time_h s) tq"
  shows "\<exists>s' rq'. wake_up_timed_tasks s = Some s'
     \<and> timed_list s' (dropWhile (\<lambda>x. resume_time s x \<le> rt_time_h s) tq) \<and> ready_list s' rq'
     \<and> state s' = (\<lambda>x. if x \<in> set ex then state s x AND wake_mask else state s x)
     \<and> set rq' = set rq \<union> {x \<in> set ex. state s x AND wake_mask = READY}
     \<and> (in_prio_order s rq \<longrightarrow> in_prio_order s' rq')
     \<and> (\<exists>st a b c d. s' = s\<lparr>state := st, rnext := a, rprev := b, tnext := c, tprev := d\<rparr>)"
proof -
  let ?rest = "dropWhile (\<lambda>x. resume_time s x \<le> rt_time_h s) tq"
  let ?b = "hd (?rest @ [LINUX])"
  have tq: "tq = ex @ ?rest" and r: "ring (tnext s) (tprev s) LINUX (ex @ ?rest)"
    using assms(1) by (simp_all add: ex_def timed_list_def)
  have "sorted_wrt (\<lambda>x y. resume_time s x \<le> resume_time s y) (ex @ ?rest)"
    using assms(1) unfolding timed_list_def ex_def by (simp only: takeWhile_dropWhile_id)
  then have so: "sorted_wrt (\<lambda>x y. resume_time s x \<le> resume_time s y) ?rest"
    by (simp only: sorted_wrt_append)
  have d: "distinct (LINUX # ex @ ?rest)" and l: "links (tnext s) (tprev s) LINUX ex ?b"
    using ring_prefix [OF r] by blast+
  have "rt_time_h s < resume_time s ?b"
    using hd_dropWhile_sentinel [of "\<lambda>x. resume_time s x \<le> rt_time_h s" LINUX tq] assms(1,4)
    by (simp add: timed_list_def)
  note b = this
  have e: "\<forall>x \<in> set ex. resume_time s x \<le> rt_time_h s"
    by (auto simp: ex_def dest: set_takeWhileD)
  have "set ex \<subseteq> set tq" by (auto simp: ex_def dest: set_takeWhileD)
  then have dj: "set ex \<inter> set (LINUX # rq) = {}" and de: "distinct ex"
    using assms(3) d by auto
  have "\<forall>x \<in> set ex. hard_task s x \<and> 0 \<le> policy s x"
    using assms(5) by (simp only: ex_def)
  from wake_loop_eq [OF l e b de dj assms(2) this] obtain s' rq' where s': "wake_loop (tnext s LINUX) s = Some (?b, s')" "ready_list s' rq'"
    "ready_frame s s'" "state s' = (\<lambda>x. if x \<in> set ex then state s x AND wake_mask else state s x)"
    "set rq' = set rq \<union> {x \<in> set ex. state s x AND wake_mask = READY}"
    "in_prio_order s rq \<longrightarrow> in_prio_order s rq'"
    by blast
  note f = ready_frame_fields [OF s'(3)]
  let ?s = "s'\<lparr>tnext := (tnext s')(LINUX := ?b), tprev := (tprev s')(?b := LINUX)\<rparr>"
  have 1: "timed_list ?s ?rest"
    using ring_drop_prefix [OF r refl] so assms(1) by (simp add: timed_list_def f)
  have 2: "ready_list ?s rq'" and 3: "in_prio_order ?s = in_prio_order s"
    using s'(2) f by (simp_all add: ready_list_def in_prio_order_def fun_eq_iff)
  have 4: "wake_up_timed_tasks s = Some ?s"
    using s'(1) by (simp add: wake_up_timed_tasks_def)
  have 5: "state ?s = (\<lambda>x. if x \<in> set ex then state s x AND wake_mask else state s x)"
    using s'(4) by simp
  have 6: "in_prio_order s rq \<longrightarrow> in_prio_order ?s rq'"
    unfolding 3 by (rule s'(6))
  obtain st a b where "s' = s\<lparr>state := st, rnext := a, rprev := b\<rparr>"
    using s'(3) unfolding ready_frame_def by blast
  then have "?s = s\<lparr>state := st, rnext := a, rprev := b, tnext := (tnext s')(LINUX := ?b),
      tprev := (tprev s')(?b := LINUX)\<rparr>"
    by simp
  then have 7: "\<exists>st a b c d. ?s = s\<lparr>state := st, rnext := a, rprev := b, tnext := c, tprev := d\<rparr>"
    by blast
  show ?thesis
    by (intro exI [where x = ?s] exI [where x = rq'] conjI 1 2 4 5 6 7 s'(5))
qed

end
