(* ===== verification/Sched_Core.thy ===== *)
theory Sched_Core
  imports Sched_Queues
begin

text \<open>
  The scheduler proper: the choice of the task to run and the programming of the one shot
  timer in \<^verbatim>\<open>rt_schedule\<close> and \<^verbatim>\<open>rt_timer_handler\<close>, the round robin code, and the switch of
  the CPU among kernel tasks, hard real-time processes and Linux.  The macros
  \<^verbatim>\<open>ANTICIPATE\<close>, \<^verbatim>\<open>EXECTIME\<close> and \<^verbatim>\<open>ALLOW_RR\<close> are defined, as in the sources.

  The code after a context switch runs when the caller is switched in again; a call of
  \<^verbatim>\<open>rt_schedule\<close> can in turn reschedule at that point, without a bound, so the definitions
  take the number of such rounds as fuel.  What the scheduler decides, and the state in which
  it leaves the CPU, does not depend on it.
\<close>

section \<open>Arithmetic of the time base\<close>

abbreviation TIMER_FREQ :: int where "TIMER_FREQ \<equiv> 1193180"

text \<open>\<^verbatim>\<open>mull\<close> and \<^verbatim>\<open>div\<close> on 32-bit registers; the quotient must fit, as the processor requires.\<close>

definition imuldiv :: "int \<Rightarrow> int \<Rightarrow> int \<Rightarrow> int" where
  "imuldiv i mult dv = to_int32 (((i mod 2 ^ 32) * (mult mod 2 ^ 32)) div (dv mod 2 ^ 32))"

definition llimd :: "int \<Rightarrow> int \<Rightarrow> int \<Rightarrow> int" where
  "llimd ll mult dv =
     (let d = dv mod 2 ^ 32; p = (ll mod 2 ^ 64) * (mult mod 2 ^ 32); q = p div d; r = p mod d in
      signed_take_bit 63 (if to_int32 d \<ge> to_int32 (2 * r) then q else q + 1))"

definition ONESHOT_SPAN :: "kst \<Rightarrow> rtime" where
  "ONESHOT_SPAN s = 0x7FFF * (cpu_freq (tuned s) div TIMER_FREQ)"

section \<open>Round robin\<close>

definition RR_YIELD :: "tid \<Rightarrow> kst \<Rightarrow> kst option" where
  "RR_YIELD cur s =
     (if policy s cur > 0 then
        let s1 = s\<lparr>rr_remaining := (rr_remaining s)(cur := yield_time s cur - tick_time (times s))\<rparr> in
        if rr_remaining s1 cur \<le> 0 then
          let s2 = s1\<lparr>rr_remaining := (rr_remaining s1)(cur := rr_quantum s1 cur)\<rparr> in
          if state s2 cur = READY then do {
            task \<leftarrow> seek (\<lambda>task. priority s2 cur = priority s2 task) (rnext s2) (rnext s2 cur);
            Some (if task \<noteq> rnext s2 cur then link_ready cur task (unlink_ready cur s2) else s2)
          }
          else Some s2
        else Some s1
      else Some s)"

definition RR_SETYT :: "tid \<Rightarrow> kst \<Rightarrow> kst" where
  "RR_SETYT new_task s =
     (if policy s new_task > 0
      then s\<lparr>yield_time := (yield_time s)(new_task := rt_time_h s + rr_remaining s new_task)\<rparr>
      else s)"

text \<open>\<^verbatim>\<open>RR_SPREMP\<close> yields \<^verbatim>\<open>preempt\<close> and the local \<^verbatim>\<open>intr_time\<close>.\<close>

definition RR_SPREMP :: "tid \<Rightarrow> rtime \<Rightarrow> kst \<Rightarrow> bool \<times> rtime" where
  "RR_SPREMP new_task intr s =
     (if policy s new_task > 0 then (True, min (yield_time s new_task) intr) else (False, intr))"

definition RR_TPREMP :: "tid \<Rightarrow> int \<Rightarrow> kst \<Rightarrow> bool \<times> kst" where
  "RR_TPREMP new_task prio s =
     (if policy s new_task > 0 then
        (True, if yield_time s new_task < intr_time (times s)
               then s\<lparr>times := (times s)\<lparr>intr_time := yield_time s new_task\<rparr>\<rparr> else s)
      else (preempt_always s \<or> prio = RT_LINUX_PRIORITY, s))"

section \<open>The choice of the task to run and the next timer shot\<close>

definition TASK_TO_SCHEDULE :: "kst \<Rightarrow> tid \<times> int" where
  "TASK_TO_SCHEDULE s = (rnext s LINUX, priority s (rnext s LINUX))"

text \<open>The walk along the timed tasks for one that must preempt the chosen task.\<close>

definition shot_task :: "int \<Rightarrow> rtime \<Rightarrow> kst \<Rightarrow> tid option" where
  "shot_task prio intr s =
     seek (\<lambda>task. task \<noteq> LINUX \<and> \<not> (priority s task \<le> prio \<and> resume_time s task < intr))
          (tnext s) (tnext s LINUX)"

text \<open>The code at the label \<^verbatim>\<open>fire\<close>.\<close>

definition fire_shot :: "kst \<Rightarrow> kst" where
  "fire_shot s =
     (let (now, s1) = rdtsc s;
          delay = to_int32 (intr_time (times s1) - now) - latency (tuned s1) in
      if delay \<ge> setup_time_TIMER_CPUNIT (tuned s1) then
        s1\<lparr>timer_chip := timer_chip s1 @ [imuldiv delay TIMER_FREQ (cpu_freq (tuned s1))]\<rparr>
      else
        s1\<lparr>times := (times s1)\<lparr>intr_time := now + setup_time_TIMER_CPUNIT (tuned s1)\<rparr>,
           timer_chip := timer_chip s1 @ [setup_time_TIMER_UNIT (tuned s1)]\<rparr>)"

definition set_intr_time :: "rtime \<Rightarrow> kst \<Rightarrow> kst" where
  "set_intr_time v s = s\<lparr>times := (times s)\<lparr>intr_time := v\<rparr>\<rparr>"

definition schedule_shot :: "tid \<Rightarrow> int \<Rightarrow> kst \<Rightarrow> kst option" where
  "schedule_shot new_task prio s =
     (let (preempt, intr) = RR_SPREMP new_task
            (if shot_fired s then intr_time (times s) else intr_time (times s) + ONESHOT_SPAN s) s in do {
        task \<leftarrow> shot_task prio intr s;
        Some (if task \<noteq> LINUX then
                fire_shot (set_intr_time (resume_time s task) s\<lparr>shot_fired := True\<rparr>)
              else if preempt \<or> (\<not> shot_fired s \<and> prio = RT_LINUX_PRIORITY) then
                fire_shot ((if preempt then set_intr_time intr s else s)\<lparr>shot_fired := True\<rparr>)
              else s)
      })"

text \<open>\<^verbatim>\<open>rt_schedule\<close> up to the release of the global lock: the task to switch to.\<close>

definition schedule_select :: "tid \<Rightarrow> kst \<Rightarrow> (tid \<times> kst) option" where
  "schedule_select cur s = do {
     s1 \<leftarrow> RR_YIELD cur s;
     if oneshot_running s1 then do {
       s2 \<leftarrow> (let (now, s2) = rdtsc s1 in wake_up_timed_tasks (s2\<lparr>rt_time_h := now + rt_half_tick s2\<rparr>));
       (let (new_task, prio) = TASK_TO_SCHEDULE s2 in do {
          s3 \<leftarrow> schedule_shot new_task prio (RR_SETYT new_task s2);
          Some (new_task, s3)
        })
     }
     else (let (new_task, prio) = TASK_TO_SCHEDULE s1 in Some (new_task, RR_SETYT new_task s1))
   }"

text \<open>\<^verbatim>\<open>rt_timer_handler\<close> up to the release of the global lock.\<close>

definition timer_tick :: "kst \<Rightarrow> kst" where
  "timer_tick s =
     (let s1 = s\<lparr>times := (times s)\<lparr>tick_time := intr_time (times s)\<rparr>\<rparr>;
          s2 = s1\<lparr>rt_time_h := tick_time (times s1) + rt_half_tick s1\<rparr> in
      if tick_time (times s2) \<ge> linux_time (times s2) then
        s2\<lparr>times := (times s2)\<lparr>linux_time := linux_time (times s2) + linux_tick (times s2)\<rparr>,
           pends := pends s2 @ [PendTimerIrq]\<rparr>
      else s2)"

definition timer_shot :: "tid \<Rightarrow> int \<Rightarrow> kst \<Rightarrow> kst option" where
  "timer_shot new_task prio s =
     (let (preempt, s1) = RR_TPREMP new_task prio
            (set_intr_time (tick_time (times s) + ONESHOT_SPAN s) s) in do {
        task \<leftarrow> shot_task prio (intr_time (times s1)) s1;
        Some (if task \<noteq> LINUX then
                fire_shot (set_intr_time (resume_time s1 task) s1\<lparr>shot_fired := True\<rparr>)
              else let s2 = s1\<lparr>shot_fired := preempt\<rparr> in
                if preempt then
                  fire_shot (set_intr_time (if linux_time (times s2) > tick_time (times s2)
                                            then linux_time (times s2)
                                            else tick_time (times s2) + drop_bit 1 (linux_tick (times s2))) s2)
                else s2)
      })"

definition timer_select :: "tid \<Rightarrow> kst \<Rightarrow> (tid \<times> kst) option" where
  "timer_select cur s = do {
     s1 \<leftarrow> wake_up_timed_tasks (timer_tick s);
     s2 \<leftarrow> RR_YIELD cur s1;
     (let (new_task, prio) = TASK_TO_SCHEDULE s2; s3 = RR_SETYT new_task s2 in
      if oneshot_timer s3 then do {
        s4 \<leftarrow> timer_shot new_task prio s3;
        Some (new_task, s4)
      }
      else Some (new_task, (set_intr_time (intr_time (times s3) + periodic_tick (times s3)) s3)
                             \<lparr>timer_chip := timer_chip s3 @ [0]\<rparr>))
   }"

section \<open>Switching\<close>

definition LOCK_LINUX :: "kst \<Rightarrow> kst" where
  "LOCK_LINUX s =
     (let s1 = (if to_linux_depth s = 0
                then s\<lparr>hrt_flag := True, pends := pends s @ [SwitchToRealTime]\<rparr> else s) in
      s1\<lparr>to_linux_depth := to_linux_depth s1 + 1\<rparr>)"

definition UNLOCK_LINUX :: "kst \<Rightarrow> kst" where
  "UNLOCK_LINUX s =
     (if to_linux_depth s \<noteq> 0 then
        let s1 = s\<lparr>to_linux_depth := to_linux_depth s - 1\<rparr> in
        if to_linux_depth s1 = 0
        then s1\<lparr>pends := pends s1 @ [SwitchToLinux], hrt_flag := False\<rparr> else s1
      else s)"

definition KEXECTIME :: "tid \<Rightarrow> kst \<Rightarrow> kst" where
  "KEXECTIME cur s =
     (let (now, s1) = rdtsc s;
          s2 = (if lnxtsk s1 cur = None
                then s1\<lparr>exectime := (exectime s1)(cur := exectime s1 cur + (now - switch_time s1))\<rparr>
                else s1) in
      s2\<lparr>switch_time := now\<rparr>)"

definition UEXECTIME :: "tid \<Rightarrow> kst \<Rightarrow> kst" where
  "UEXECTIME cur s =
     (let (now, s1) = rdtsc s;
          s2 = (if is_hard s1 cur \<noteq> 0
                then s1\<lparr>exectime := (exectime s1)(cur := exectime s1 cur + (now - switch_time s1))\<rparr>
                else s1) in
      s2\<lparr>switch_time := now\<rparr>)"

text \<open>
  The part of the exchange of two kernel tasks, or of a kernel task and Linux, that runs
  before the processor's registers are exchanged; \<^verbatim>\<open>rt_exchange_tasks\<close> then stores the new
  task in \<^verbatim>\<open>rt_smp_current\<close>.
\<close>

definition exchange_out :: "tid \<Rightarrow> tid \<Rightarrow> kst \<Rightarrow> kst option" where
  "exchange_out cur new_task s = do {
     (to, s1) \<leftarrow> (if lnxtsk s cur \<noteq> None then Some (new_task, (LOCK_LINUX s)\<lparr>linux_nextp := Some cur\<rparr>)
                  else if lnxtsk s new_task \<noteq> None then do {
                    n \<leftarrow> linux_nextp s;
                    Some (n, s\<lparr>linux_prevp := Some new_task\<rparr>)
                  }
                  else Some (new_task, s));
     Some ((KEXECTIME cur s1)\<lparr>rt_current := to\<rparr>)
   }"

definition switch_fpu :: "tid \<Rightarrow> kst \<Rightarrow> kst" where
  "switch_fpu cur s =
     (if uses_fpu s cur \<and> cur \<noteq> fpu_task s then s\<lparr>fpu_task := cur\<rparr> else s)"

text \<open>A signal function of a task is code of its own: the call ends in some later state.\<close>

definition run_signal :: "tid \<Rightarrow> kst \<Rightarrow> unit res" where
  "run_signal cur s = (case signal s cur of None \<Rightarrow> Ret () s | Some f \<Rightarrow> Switch s (Ret ()))"

definition soft_state :: "tid \<Rightarrow> kst \<Rightarrow> kst" where
  "soft_state cur s = s\<lparr>state := (state s)(cur := state s cur OR READY)\<rparr>"

definition sleep_current :: "kst \<Rightarrow> kst" where
  "sleep_current s = s\<lparr>lstate := (lstate s)(lnx_current s := TASK_HARDREALTIME)\<rparr>"

text \<open>\<^verbatim>\<open>make_current_soft\<close> up to its first \<^verbatim>\<open>rt_schedule\<close>, the \<^verbatim>\<open>READY\<close> bit cleared.\<close>

definition soften :: "tid \<Rightarrow> kst \<Rightarrow> kst option" where
  "soften cur s = do {
     l \<leftarrow> lnxtsk s cur;
     Some (unlink_ready cur (pend_wake_up l (s\<lparr>state := (state s)(cur := state s cur AND NOT READY),
                                              force_soft := (force_soft s)(cur := False)\<rparr>)))
   }"

text \<open>The loop of a soft task that Linux resumes while it is not ready.\<close>

primrec soft_wait :: "nat \<Rightarrow> tid \<Rightarrow> kst \<Rightarrow> unit res" where
  "soft_wait 0 cur s = Stuck"
| "soft_wait (Suc n) cur s =
     (let s1 = soft_state cur s in
      if state s1 cur \<noteq> READY then Switch (sleep_current s1) (soft_wait n cur)
      else let s2 = LOCK_LINUX s1 in
        lift_opt (do {
          l \<leftarrow> lnxtsk s2 cur;
          s3 \<leftarrow> enq_ready_task cur (s2\<lparr>lrt_priority := (lrt_priority s2)(l := BASE_SOFT_PRIORITY)\<rparr>);
          Some (s3\<lparr>rt_current := cur\<rparr>)
        }) (Ret ()))"

text \<open>
  The code below calls \<^verbatim>\<open>rt_schedule\<close> again, or jumps back to its label \<^verbatim>\<open>repeat\<close>: \<open>resched cur\<close>
  is \<^verbatim>\<open>rt_schedule\<close> from that label, with \<open>cur\<close> its local \<^verbatim>\<open>rt_current\<close>.  The flag \<open>tm\<close> is set in
  the timer handler, which only prints a message where \<^verbatim>\<open>rt_schedule\<close> repeats its choice or
  calls Linux's \<^verbatim>\<open>schedule\<close>.
\<close>

definition make_current_soft :: "(tid \<Rightarrow> kst \<Rightarrow> unit res) \<Rightarrow> tid \<Rightarrow> kst \<Rightarrow> unit res" where
  "make_current_soft resched cur s =
     lift_opt (soften cur s) (\<lambda>s1.
       res_bind (resched (rt_current s1) (s1\<lparr>sched_rqsted := 1\<rparr>)) (\<lambda>_ t.
         let t1 = soft_state cur (t\<lparr>is_hard := (is_hard t)(cur := 0)\<rparr>) in
         if state t1 cur \<noteq> READY
         then resched (rt_current t1) ((sleep_current t1)\<lparr>sched_rqsted := 1\<rparr>)
         else Ret () t1))"

definition schedlnxtsk ::
  "(tid \<Rightarrow> kst \<Rightarrow> unit res) \<Rightarrow> nat \<Rightarrow> bool \<Rightarrow> tid \<Rightarrow> tid \<Rightarrow> kst \<Rightarrow> unit res" where
  "schedlnxtsk resched n tm cur new_task s =
     (if is_hard s new_task \<noteq> 0 \<or> is_hard s cur \<noteq> 0 then
        let s1 = (if is_hard s cur = 0
                  then (LOCK_LINUX s)\<lparr>lnxtsk := (lnxtsk s)(LINUX := Some (lnx_current s))\<rparr> else s) in
        Switch (UEXECTIME cur (s1\<lparr>rt_current := new_task\<rparr>)) (\<lambda>t.
          res_bind (run_signal cur t) (\<lambda>_ t1.
            if is_hard t1 cur = 0 then
              let t2 = UNLOCK_LINUX t1 in
              if state t2 cur \<noteq> READY \<and> \<not> tm then resched cur t2 else Ret () t2
            else if force_soft t1 cur then make_current_soft resched cur t1
            else Ret () t1))
      else if tm then Ret () s
      else
        lift_opt (if new_task \<noteq> LINUX
                  then map_option (\<lambda>l. s\<lparr>lrt_priority := (lrt_priority s)(l := BASE_SOFT_PRIORITY)\<rparr>)
                                  (lnxtsk s new_task)
                  else Some s) (\<lambda>s1.
          Switch (UNLOCK_LINUX (s1\<lparr>rt_current := new_task\<rparr>)) (\<lambda>t.
            if cur \<noteq> LINUX then soft_wait n cur t else Ret () t)))"

definition exchange ::
  "(tid \<Rightarrow> kst \<Rightarrow> unit res) \<Rightarrow> nat \<Rightarrow> bool \<Rightarrow> tid \<Rightarrow> tid \<Rightarrow> kst \<Rightarrow> unit res" where
  "exchange resched n tm cur new_task s =
     lift_opt (exchange_out cur new_task s) (\<lambda>s1. Switch s1 (\<lambda>t.
       if lnxtsk t cur \<noteq> None then
         let t1 = UNLOCK_LINUX t in
         if linux_prevp t1 \<noteq> Some cur
         then lift_opt (linux_prevp t1) (\<lambda>new_task. schedlnxtsk resched n tm cur new_task t1)
         else run_signal cur t1
       else run_signal cur (switch_fpu cur t)))"

definition switch_to ::
  "(tid \<Rightarrow> kst \<Rightarrow> unit res) \<Rightarrow> nat \<Rightarrow> bool \<Rightarrow> tid \<Rightarrow> tid \<Rightarrow> kst \<Rightarrow> unit res" where
  "switch_to resched n tm cur new_task s =
     (if new_task = cur then Ret () s
      else if lnxtsk s new_task = None \<or> lnxtsk s cur = None then exchange resched n tm cur new_task s
      else schedlnxtsk resched n tm cur new_task s)"

primrec reschedule :: "nat \<Rightarrow> tid \<Rightarrow> kst \<Rightarrow> unit res" where
  "reschedule 0 cur s = Stuck"
| "reschedule (Suc n) cur s =
     lift_opt (schedule_select cur s) (\<lambda>(new_task, s1). switch_to (reschedule n) n False cur new_task s1)"

definition rt_schedule :: "nat \<Rightarrow> kst \<Rightarrow> unit res" where
  "rt_schedule n s = reschedule n (rt_current s) (s\<lparr>sched_rqsted := 1\<rparr>)"

definition rt_timer_handler :: "nat \<Rightarrow> kst \<Rightarrow> unit res" where
  "rt_timer_handler n s =
     lift_opt (timer_select (rt_current s) (s\<lparr>sched_rqsted := 1\<rparr>))
       (\<lambda>(new_task, s1). switch_to (reschedule n) n True (rt_current s) new_task s1)"

end
