(* ===== verification/Sched_Invariant.thy ===== *)
theory Sched_Invariant
  imports Sched_Core
begin

text \<open>
  The invariant that ties the scheduler's lists to the states of the tasks, and the proof that
  the scheduling functions keep it and choose the right task: the first of the ready tasks of
  the highest priority.
\<close>

section \<open>The invariant\<close>

definition live :: "kst \<Rightarrow> tid \<Rightarrow> bool" where
  "live s t \<longleftrightarrow> t \<noteq> LINUX \<and> magic s t = RT_TASK_MAGIC"

text \<open>
  \<open>task_wf\<close>: the kernel task has the lowest priority and is not scheduled in round robin; every
  real-time task is hard, above Linux and not an earliest-deadline one; a negative priority (a
  locked scheduler) belongs to a ready task.
\<close>

definition task_wf :: "kst \<Rightarrow> bool" where
  "task_wf s \<longleftrightarrow> priority s LINUX = RT_LINUX_PRIORITY \<and> policy s LINUX = 0
     \<and> (\<forall>t. live s t \<longrightarrow> is_hard s t \<noteq> 0 \<and> priority s t < RT_LINUX_PRIORITY \<and> 0 \<le> policy s t)
     \<and> (\<forall>t. live s t \<and> state s t \<noteq> READY \<longrightarrow> 0 \<le> priority s t)"

definition sched_inv :: "kst \<Rightarrow> tid list \<Rightarrow> tid list \<Rightarrow> bool" where
  "sched_inv s rq tq \<longleftrightarrow> task_wf s \<and> ready_list s rq \<and> in_prio_order s rq \<and> timed_list s tq
     \<and> (\<forall>t. t \<in> set rq \<longleftrightarrow> live s t \<and> state s t = READY)
     \<and> (\<forall>t. t \<in> set tq \<longleftrightarrow> live s t \<and> state s t AND DELAYED \<noteq> 0)"

lemma sched_invD:
  assumes "sched_inv s rq tq"
  shows "task_wf s" "ready_list s rq" "in_prio_order s rq" "timed_list s tq"
    "\<And>t. t \<in> set rq \<longleftrightarrow> live s t \<and> state s t = READY"
    "\<And>t. t \<in> set tq \<longleftrightarrow> live s t \<and> state s t AND DELAYED \<noteq> 0"
  using assms by (simp_all add: sched_inv_def)

lemma sched_invI:
  assumes "task_wf s" "ready_list s rq" "in_prio_order s rq" "timed_list s tq"
    "\<And>t. t \<in> set rq \<longleftrightarrow> live s t \<and> state s t = READY"
    "\<And>t. t \<in> set tq \<longleftrightarrow> live s t \<and> state s t AND DELAYED \<noteq> 0"
  shows "sched_inv s rq tq"
  using assms by (simp add: sched_inv_def)

lemma sched_inv_disjoint: "sched_inv s rq tq \<Longrightarrow> set tq \<inter> set rq = {}"
  by (auto simp: sched_inv_def)

lemma sched_inv_LINUX: "sched_inv s rq tq \<Longrightarrow> LINUX \<notin> set rq \<and> LINUX \<notin> set tq"
  by (auto simp: sched_inv_def live_def)

text \<open>The fields the invariant reads.\<close>

definition same_sched :: "kst \<Rightarrow> kst \<Rightarrow> bool" where
  "same_sched s s' \<longleftrightarrow> magic s' = magic s \<and> priority s' = priority s \<and> policy s' = policy s
     \<and> is_hard s' = is_hard s \<and> state s' = state s \<and> rnext s' = rnext s \<and> rprev s' = rprev s
     \<and> tnext s' = tnext s \<and> tprev s' = tprev s \<and> resume_time s' = resume_time s"

lemma same_sched_inv: "same_sched s s' \<Longrightarrow> sched_inv s rq tq \<Longrightarrow> sched_inv s' rq tq"
  by (simp add: same_sched_def sched_inv_def task_wf_def ready_list_def in_prio_order_def
      timed_list_def live_def)

lemma same_sched_refl: "same_sched s s"
  by (simp add: same_sched_def)

lemma same_sched_trans: "same_sched s t \<Longrightarrow> same_sched t u \<Longrightarrow> same_sched s u"
  by (simp add: same_sched_def)

text \<open>What the invariant says of the head of the ready list.\<close>

lemma ready_head_least:
  assumes "sched_inv s rq tq" and "live s t" and "state s t = READY"
  shows "live s (rnext s LINUX) \<and> priority s (rnext s LINUX) \<le> priority s t"
proof -
  have t: "t \<in> set rq" using sched_invD(5) [OF assms(1)] assms(2,3) by simp
  then obtain x xs where rq: "rq = x # xs" by (cases rq) auto
  have "rnext s LINUX = x"
    using sched_invD(2) [OF assms(1)] rq by (auto simp: ready_list_def dest: ring_first)
  moreover have "priority s x \<le> priority s t"
    using sched_invD(3) [OF assms(1)] t rq by (auto simp: in_prio_order_def)
  moreover have "live s x"
    using sched_invD(5) [OF assms(1), of x] rq by simp
  ultimately show ?thesis by simp
qed

lemma ready_head:
  assumes "sched_inv s rq tq"
  shows "rnext s LINUX = hd (rq @ [LINUX])"
  using sched_invD(2) [OF assms] by (auto simp: ready_list_def dest: ring_first)

section \<open>Round robin\<close>

text \<open>The position of a task that gives way to its peers: behind those of its priority.\<close>

definition rr_rotate :: "kst \<Rightarrow> tid \<Rightarrow> tid list \<Rightarrow> tid list" where
  "rr_rotate s t rq =
     (let bs = tl (dropWhile (\<lambda>x. x \<noteq> t) rq) in
      takeWhile (\<lambda>x. x \<noteq> t) rq @ takeWhile (\<lambda>x. priority s x = priority s t) bs
        @ t # dropWhile (\<lambda>x. priority s x = priority s t) bs)"

lemma rr_rotate_split:
  "t \<notin> set as \<Longrightarrow> rr_rotate s t (as @ t # bs) =
     as @ takeWhile (\<lambda>x. priority s x = priority s t) bs
       @ t # dropWhile (\<lambda>x. priority s x = priority s t) bs"
  by (simp add: rr_rotate_def Let_def takeWhile_append2 dropWhile_append2 takeWhile_append)

lemma rr_move_ring:
  assumes r: "ring nx pv h (as @ t # bs)" and "p = hd (dropWhile q bs @ [h])"
  shows "ring (link_nx (unlink_nx nx pv t) (unlink_pv nx pv t) t p)
              (link_pv (unlink_pv nx pv t) t p) h (as @ takeWhile q bs @ t # dropWhile q bs)"
proof -
  have 1: "ring (unlink_nx nx pv t) (unlink_pv nx pv t) h ((as @ takeWhile q bs) @ dropWhile q bs)"
    using ring_unlink [OF r] by simp
  have 2: "t \<notin> set (h # (as @ takeWhile q bs) @ dropWhile q bs)"
    using r by (auto simp: ring_def)
  show ?thesis
    using ring_link [OF 1 2 assms(2)] by simp
qed

lemma ring_next_of:
  "ring nx pv h (as @ t # bs) \<Longrightarrow> links nx pv t bs h \<and> nx t = hd (bs @ [h]) \<and> t \<notin> set as \<and> t \<noteq> h"
  by (auto simp: ring_def links_append dest: links_first)

lemma sorted_wrt_past_equal:
  fixes key :: "'a \<Rightarrow> int"
  assumes "sorted_wrt (\<lambda>x y. key x \<le> key y) (as @ t # es @ ds)" and "\<forall>x \<in> set es. key x = key t"
  shows "sorted_wrt (\<lambda>x y. key x \<le> key y) (as @ es @ t # ds)"
  using assms by (auto simp: sorted_wrt_append)

lemma sorted_wrt_move:
  fixes key :: "'a \<Rightarrow> int"
  assumes "sorted_wrt (\<lambda>x y. key x \<le> key y) (as @ t # bs)"
  shows "sorted_wrt (\<lambda>x y. key x \<le> key y)
           (as @ takeWhile (\<lambda>x. key x = key t) bs @ t # dropWhile (\<lambda>x. key x = key t) bs)"
proof (rule sorted_wrt_past_equal)
  show "sorted_wrt (\<lambda>x y. key x \<le> key y)
      (as @ t # takeWhile (\<lambda>x. key x = key t) bs @ dropWhile (\<lambda>x. key x = key t) bs)"
    using assms by (simp only: takeWhile_dropWhile_id)
qed (blast dest: set_takeWhileD)

lemma tl_move_nonneg:
  fixes k :: "'a \<Rightarrow> int"
  assumes "\<forall>x \<in> set (tl (as @ t # es @ ds)). 0 \<le> k x" and "\<forall>x \<in> set es. k x = k t"
  shows "\<forall>x \<in> set (tl (as @ es @ t # ds)). 0 \<le> k x"
proof (cases as)
  case Nil
  then show ?thesis using assms by (cases es) auto
next
  case (Cons a as')
  then show ?thesis using assms by auto
qed

text \<open>When the quantum is used up the task is moved, and nothing else of the lists changes.\<close>

definition quantum_over :: "kst \<Rightarrow> tid \<Rightarrow> bool" where
  "quantum_over s t \<longleftrightarrow>
     policy s t > 0 \<and> yield_time s t \<le> tick_time (times s) \<and> state s t = READY"

lemma RR_YIELD_skip:
  assumes "\<not> quantum_over s cur"
  shows "\<exists>rr. RR_YIELD cur s = Some (s\<lparr>rr_remaining := rr\<rparr>)"
proof (cases "policy s cur > 0")
  case True
  then show ?thesis
    using assms by (auto simp: RR_YIELD_def Let_def quantum_over_def)
next
  case False
  then have "RR_YIELD cur s = Some (s\<lparr>rr_remaining := rr_remaining s\<rparr>)"
    by (simp add: RR_YIELD_def)
  then show ?thesis by blast
qed

lemma RR_YIELD_move:
  assumes r: "ring (rnext s) (rprev s) LINUX (as @ cur # bs)" and q: "quantum_over s cur"
    and pl: "priority s LINUX \<noteq> priority s cur"
  defines "rq' \<equiv> as @ takeWhile (\<lambda>x. priority s x = priority s cur) bs
                   @ cur # dropWhile (\<lambda>x. priority s x = priority s cur) bs"
  shows "\<exists>rr nx pv. RR_YIELD cur s = Some (s\<lparr>rr_remaining := rr, rnext := nx, rprev := pv\<rparr>)
     \<and> ring nx pv LINUX rq'"
proof -
  let ?p = "hd (dropWhile (\<lambda>x. priority s x = priority s cur) bs @ [LINUX])"
  let ?rr = "(rr_remaining s)(cur := rr_quantum s cur)"
  have b: "links (rnext s) (rprev s) cur bs LINUX" "rnext s cur = hd (bs @ [LINUX])"
    using ring_next_of [OF r] by auto
  have "seek (\<lambda>task. priority s cur = priority s task) (rnext s) (rnext s cur) = Some ?p"
    using seek_links [OF b(1), of "\<lambda>x. priority s cur = priority s x"] pl
    by (simp add: eq_commute [of "priority s cur"])
  then have 1: "RR_YIELD cur s = Some (if ?p \<noteq> rnext s cur
      then link_ready cur ?p (unlink_ready cur (s\<lparr>rr_remaining := ?rr\<rparr>))
      else s\<lparr>rr_remaining := ?rr\<rparr>)"
    using q by (simp add: RR_YIELD_def Let_def quantum_over_def)
  show ?thesis
  proof (cases "?p = rnext s cur")
    case False
    then have "RR_YIELD cur s = Some (s\<lparr>rr_remaining := ?rr,
        rnext := link_nx (unlink_nx (rnext s) (rprev s) cur) (unlink_pv (rnext s) (rprev s) cur) cur ?p,
        rprev := link_pv (unlink_pv (rnext s) (rprev s) cur) cur ?p\<rparr>)"
      using 1 by (simp add: link_ready_def unlink_ready_def)
    then show ?thesis
      using rr_move_ring [OF r refl] unfolding rq'_def by blast
  next
    case True
    have "takeWhile (\<lambda>x. priority s x = priority s cur) bs = []
        \<and> dropWhile (\<lambda>x. priority s x = priority s cur) bs = bs"
    proof (cases bs)
      case (Cons b bs')
      have "priority s b \<noteq> priority s cur"
      proof
        assume e: "priority s b = priority s cur"
        then have "?p = hd (dropWhile (\<lambda>x. priority s x = priority s cur) bs' @ [LINUX])"
          using Cons by simp
        moreover have "hd (dropWhile (\<lambda>x. priority s x = priority s cur) bs' @ [LINUX]) \<noteq> b"
          using e pl hd_dropWhile_sentinel [of "\<lambda>x. priority s x = priority s cur" LINUX bs'] by metis
        ultimately show False using True b(2) Cons by simp
      qed
      then show ?thesis using Cons by simp
    qed simp
    then have "rq' = as @ cur # bs" by (simp add: rq'_def)
    moreover have "RR_YIELD cur s = Some (s\<lparr>rr_remaining := ?rr, rnext := rnext s, rprev := rprev s\<rparr>)"
      using 1 True by simp
    ultimately show ?thesis using r by blast
  qed
qed

text \<open>A change of the ready links only.\<close>

lemma sched_inv_relink:
  assumes i: "sched_inv s rq tq" and s': "s' = s\<lparr>rr_remaining := rr, rnext := nx, rprev := pv\<rparr>"
    and r: "ring nx pv LINUX rq'" and set: "set rq' = set rq"
    and so: "sorted_wrt (\<lambda>x y. priority s x \<le> priority s y) rq'"
    and t: "\<forall>x \<in> set (tl rq'). 0 \<le> priority s x"
  shows "sched_inv s' rq' tq"
proof -
  note d = sched_invD [OF i]
  show ?thesis
  proof (rule sched_invI)
    show "task_wf s'" using d(1) by (simp add: s' task_wf_def live_def)
    show "ready_list s' rq'" using d(2) r t by (simp add: s' ready_list_def)
    show "in_prio_order s' rq'" using so by (simp add: s' in_prio_order_def)
    show "timed_list s' tq" using d(4) by (simp add: s' timed_list_def)
  next
    fix t show "t \<in> set rq' \<longleftrightarrow> live s' t \<and> state s' t = READY"
      using d(5) [of t] by (simp add: s' set live_def)
  next
    fix t show "t \<in> set tq \<longleftrightarrow> live s' t \<and> state s' t AND DELAYED \<noteq> 0"
      using d(6) [of t] by (simp add: s' live_def)
  qed
qed

definition rr_result :: "kst \<Rightarrow> tid \<Rightarrow> tid list \<Rightarrow> tid list" where
  "rr_result s cur rq = (if quantum_over s cur then rr_rotate s cur rq else rq)"

lemma RR_YIELD_inv:
  assumes i: "sched_inv s rq tq" and cur: "cur = LINUX \<or> live s cur"
  shows "\<exists>s' rr nx pv. RR_YIELD cur s = Some s' \<and> sched_inv s' (rr_result s cur rq) tq
     \<and> s' = s\<lparr>rr_remaining := rr, rnext := nx, rprev := pv\<rparr>"
proof (cases "quantum_over s cur")
  case False
  then obtain rr where y: "RR_YIELD cur s = Some (s\<lparr>rr_remaining := rr\<rparr>)"
    using RR_YIELD_skip by blast
  let ?s = "s\<lparr>rr_remaining := rr, rnext := rnext s, rprev := rprev s\<rparr>"
  have "sched_inv ?s rq tq"
    using same_sched_inv [of s ?s rq tq] i by (simp add: same_sched_def)
  moreover have "RR_YIELD cur s = Some ?s" using y by simp
  ultimately show ?thesis
    using False
    by (intro exI [where x = ?s] exI [where x = rr] exI [where x = "rnext s"] exI [where x = "rprev s"])
      (simp add: rr_result_def)
next
  case q: True
  note d = sched_invD [OF i]
  have l: "live s cur"
    using cur q d(1) by (auto simp: quantum_over_def task_wf_def)
  then have "cur \<in> set rq" using d(5) [of cur] q by (simp add: quantum_over_def)
  from split_list_first [OF this] obtain as bs where rq: "rq = as @ cur # bs" "cur \<notin> set as"
    by blast
  have r: "ring (rnext s) (rprev s) LINUX (as @ cur # bs)" and n: "\<forall>x \<in> set (tl (as @ cur # bs)). 0 \<le> priority s x"
    using d(2) by (simp_all add: rq ready_list_def)
  have pl: "priority s LINUX \<noteq> priority s cur"
    using d(1) l by (auto simp: task_wf_def)
  let ?r = "as @ takeWhile (\<lambda>x. priority s x = priority s cur) bs
               @ cur # dropWhile (\<lambda>x. priority s x = priority s cur) bs"
  obtain rr nx pv where y: "RR_YIELD cur s = Some (s\<lparr>rr_remaining := rr, rnext := nx, rprev := pv\<rparr>)"
    and rg: "ring nx pv LINUX ?r"
    using RR_YIELD_move [OF r q pl] by blast
  have so: "sorted_wrt (\<lambda>x y. priority s x \<le> priority s y) ?r"
    using d(3) unfolding in_prio_order_def rq by (rule sorted_wrt_move)
  have "\<forall>x \<in> set (takeWhile (\<lambda>x. priority s x = priority s cur) bs). priority s x = priority s cur"
    by (blast dest: set_takeWhileD)
  note e = this
  have "\<forall>x \<in> set (tl (as @ cur # takeWhile (\<lambda>x. priority s x = priority s cur) bs
      @ dropWhile (\<lambda>x. priority s x = priority s cur) bs)). 0 \<le> priority s x"
    using n by (simp only: takeWhile_dropWhile_id)
  note t = tl_move_nonneg [OF this e]
  have set: "set ?r = set rq"
    using set_walk [of "\<lambda>x. priority s x = priority s cur" bs]
    unfolding rq(1) set_append list.set by blast
  have "rr_result s cur rq = ?r"
    using q rr_rotate_split [OF rq(2), of s bs] by (simp add: rr_result_def rq(1))
  then have "sched_inv (s\<lparr>rr_remaining := rr, rnext := nx, rprev := pv\<rparr>) (rr_result s cur rq) tq"
    using sched_inv_relink [OF i refl rg set so t] by (simp only:)
  with y show ?thesis by (intro exI conjI) (assumption, assumption, rule refl)
qed

section \<open>Waking up\<close>

lemma wake_mask_DELAYED: "(w AND wake_mask) AND DELAYED = 0"
  by (simp add: and.assoc)

lemmas wake_mask_simps = wake_mask_DELAYED wake_mask_DELAYED [simplified]

lemma delayed_not_ready: "w AND DELAYED \<noteq> 0 \<Longrightarrow> w \<noteq> READY"
  by auto

lemma sorted_takeWhile:
  assumes "sorted_wrt (\<lambda>x y. k x \<le> (k y :: int)) xs"
  shows "takeWhile (\<lambda>x. k x \<le> b) xs = filter (\<lambda>x. k x \<le> b) xs"
    and "dropWhile (\<lambda>x. k x \<le> b) xs = filter (\<lambda>x. b < k x) xs"
proof -
  have "takeWhile (\<lambda>x. k x \<le> b) xs = filter (\<lambda>x. k x \<le> b) xs
      \<and> dropWhile (\<lambda>x. k x \<le> b) xs = filter (\<lambda>x. b < k x) xs"
    using assms
  proof (induction xs)
    case (Cons a xs)
    show ?case
    proof (cases "k a \<le> b")
      case False
      then have "\<forall>x \<in> set xs. b < k x" using Cons.prems by fastforce
      then show ?thesis
        using False by (simp add: filter_empty_conv not_le filter_True)
    qed (use Cons in simp)
  qed simp
  then show "takeWhile (\<lambda>x. k x \<le> b) xs = filter (\<lambda>x. k x \<le> b) xs"
    and "dropWhile (\<lambda>x. k x \<le> b) xs = filter (\<lambda>x. b < k x) xs" by blast+
qed

lemma wake_up_inv:
  assumes i: "sched_inv s rq tq" and e: "rt_time_h s < RT_TIME_END"
  shows "\<exists>s' rq' st a b c d. wake_up_timed_tasks s = Some s'
     \<and> sched_inv s' rq' (filter (\<lambda>x. rt_time_h s < resume_time s x) tq)
     \<and> s' = s\<lparr>state := st, rnext := a, rprev := b, tnext := c, tprev := d\<rparr>
     \<and> st = (\<lambda>x. if x \<in> set tq \<and> resume_time s x \<le> rt_time_h s then state s x AND wake_mask else state s x)"
proof -
  note d = sched_invD [OF i]
  have "sorted_wrt (\<lambda>x y. resume_time s x \<le> resume_time s y) tq"
    using d(4) by (simp add: timed_list_def)
  note tw = sorted_takeWhile [OF this, of "rt_time_h s"]
  let ?ex = "filter (\<lambda>x. resume_time s x \<le> rt_time_h s) tq"
  let ?tq = "filter (\<lambda>x. rt_time_h s < resume_time s x) tq"
  have ht: "\<forall>x \<in> set ?ex. hard_task s x \<and> 0 \<le> policy s x"
    using d(1,6) delayed_not_ready by (simp add: task_wf_def hard_task_def)
  from wake_up_timed_tasks_eq [OF d(4) d(2) sched_inv_disjoint [OF i] e, unfolded tw, OF ht]
  obtain s' rq' st a b c dd where w: "wake_up_timed_tasks s = Some s'" "timed_list s' ?tq" "ready_list s' rq'"
    "state s' = (\<lambda>x. if x \<in> set ?ex then state s x AND wake_mask else state s x)"
    "set rq' = set rq \<union> {x \<in> set ?ex. state s x AND wake_mask = READY}"
    "in_prio_order s rq \<longrightarrow> in_prio_order s' rq'"
    "s' = s\<lparr>state := st, rnext := a, rprev := b, tnext := c, tprev := dd\<rparr>"
    by blast
  have lv: "live s' t = live s t" for t by (simp add: w(7) live_def)
  have st: "st = (\<lambda>x. if x \<in> set tq \<and> resume_time s x \<le> rt_time_h s then state s x AND wake_mask else state s x)"
    using w(4) by (simp add: w(7))
  have "sched_inv s' rq' ?tq"
  proof (rule sched_invI)
    show "ready_list s' rq'" "in_prio_order s' rq'" "timed_list s' ?tq"
      using w d(3) by simp_all
    show "t \<in> set rq' \<longleftrightarrow> live s' t \<and> state s' t = READY" for t
      using d(5,6) [of t] delayed_not_ready [of "state s t"] by (auto simp: lv w(4,5))
    show "t \<in> set ?tq \<longleftrightarrow> live s' t \<and> state s' t AND DELAYED \<noteq> 0" for t
      using d(6) [of t] by (simp add: lv w(4) not_le [symmetric] wake_mask_simps) blast
    have "0 \<le> priority s t" if "live s t" "state s t AND wake_mask \<noteq> READY" "t \<in> set tq" for t
      using that d(1) d(6) [of t] delayed_not_ready by (auto simp: task_wf_def)
    then show "task_wf s'"
      using d(1) by (simp add: task_wf_def lv w(4)) (simp add: w(7))
  qed
  with w(1,7) st show ?thesis by blast
qed

section \<open>The next shot of the timer\<close>

lemma fire_shot_eq:
  "\<exists>i c n. fire_shot s = s\<lparr>times := (times s)\<lparr>intr_time := i\<rparr>, timer_chip := c, tsc_reads := n\<rparr>
     \<and> (i = intr_time (times s) \<or> i = tsc s (tsc_reads s) + setup_time_TIMER_CPUNIT (tuned s))"
proof (cases "to_int32 (intr_time (times s) - tsc s (tsc_reads s)) - latency (tuned s)
    \<ge> setup_time_TIMER_CPUNIT (tuned s)")
  case True
  then show ?thesis
    by (intro exI [where x = "intr_time (times s)"] exI [where x = "timer_chip (fire_shot s)"]
        exI [where x = "Suc (tsc_reads s)"]) (simp add: fire_shot_def rdtsc_def Let_def)
next
  case False
  then show ?thesis
    by (intro exI [where x = "tsc s (tsc_reads s) + setup_time_TIMER_CPUNIT (tuned s)"]
        exI [where x = "timer_chip (fire_shot s)"] exI [where x = "Suc (tsc_reads s)"])
      (simp add: fire_shot_def rdtsc_def Let_def)
qed

definition timer_frame :: "kst \<Rightarrow> kst \<Rightarrow> bool" where
  "timer_frame s s' \<longleftrightarrow> (\<exists>i f c n y. s' = s\<lparr>times := (times s)\<lparr>intr_time := i\<rparr>, shot_fired := f,
     timer_chip := c, tsc_reads := n, yield_time := y\<rparr>)"

lemma timer_frameI: "timer_frame s (s\<lparr>times := (times s)\<lparr>intr_time := i\<rparr>, shot_fired := f,
     timer_chip := c, tsc_reads := n, yield_time := y\<rparr>)"
  unfolding timer_frame_def by blast

lemma timer_frame_same: "timer_frame s s' \<Longrightarrow> same_sched s s' \<and> rt_current s' = rt_current s
    \<and> lnxtsk s' = lnxtsk s \<and> rt_time_h s' = rt_time_h s"
  by (auto simp: timer_frame_def same_sched_def)

text \<open>The shot that \<^verbatim>\<open>fire\<close> programs for the time \<open>v\<close>, as \<^verbatim>\<open>rt_schedule\<close> and the handler do it.\<close>

lemma fire_at:
  "timer_frame s (fire_shot (set_intr_time v (s\<lparr>shot_fired := True\<rparr>)))
   \<and> shot_fired (fire_shot (set_intr_time v (s\<lparr>shot_fired := True\<rparr>)))
   \<and> (intr_time (times (fire_shot (set_intr_time v (s\<lparr>shot_fired := True\<rparr>)))) = v
      \<or> intr_time (times (fire_shot (set_intr_time v (s\<lparr>shot_fired := True\<rparr>)))) =
          tsc s (tsc_reads s) + setup_time_TIMER_CPUNIT (tuned s))"
proof -
  let ?a = "set_intr_time v (s\<lparr>shot_fired := True\<rparr>)"
  obtain i c n where f: "fire_shot ?a = ?a\<lparr>times := (times ?a)\<lparr>intr_time := i\<rparr>, timer_chip := c, tsc_reads := n\<rparr>"
    "i = intr_time (times ?a) \<or> i = tsc ?a (tsc_reads ?a) + setup_time_TIMER_CPUNIT (tuned ?a)"
    using fire_shot_eq [of ?a] by (elim exE conjE)
  have "fire_shot ?a = s\<lparr>times := (times s)\<lparr>intr_time := i\<rparr>, shot_fired := True, timer_chip := c,
      tsc_reads := n, yield_time := yield_time s\<rparr>"
    using f(1) by (simp add: set_intr_time_def)
  note e = this
  have "timer_frame s (fire_shot ?a)" unfolding e by (rule timer_frameI)
  moreover have "shot_fired (fire_shot ?a)" "intr_time (times (fire_shot ?a)) = i"
    unfolding e by simp_all
  ultimately show ?thesis
    using f(2) by (simp add: set_intr_time_def)
qed

lemma shot_task_eq:
  assumes "timed_list s tq"
  shows "shot_task prio intr s =
     Some (hd (dropWhile (\<lambda>x. x \<noteq> LINUX \<and> \<not> (priority s x \<le> prio \<and> resume_time s x < intr)) tq @ [LINUX]))"
  unfolding shot_task_def
  by (rule seek_ring [of _ "tprev s"]) (use assms in \<open>simp_all add: timed_list_def\<close>)

text \<open>The task found is the first, in time, of those that must preempt.\<close>

lemma first_hit:
  fixes k :: "'a \<Rightarrow> int"
  assumes "sorted_wrt (\<lambda>x y. k x \<le> k y) xs" and "dropWhile q xs = y # ys"
  shows "\<not> q y \<and> y \<in> set xs \<and> (\<forall>x \<in> set xs. q x \<or> k y \<le> k x)"
  using assms by (induction xs) (auto split: if_splits)

lemma shot_task_first:
  assumes t: "timed_list s tq" and L: "LINUX \<notin> set tq"
  shows "\<exists>task. shot_task prio intr s = Some task
     \<and> (task = LINUX \<longrightarrow> (\<forall>x \<in> set tq. priority s x \<le> prio \<longrightarrow> intr \<le> resume_time s x))
     \<and> (task \<noteq> LINUX \<longrightarrow> task \<in> set tq \<and> resume_time s task < intr
       \<and> (\<forall>x \<in> set tq. priority s x \<le> prio \<longrightarrow> resume_time s task \<le> resume_time s x))"
proof -
  obtain q where q: "q = (\<lambda>x. x \<noteq> LINUX \<and> \<not> (priority s x \<le> prio \<and> resume_time s x < intr))"
    by simp
  have so: "sorted_wrt (\<lambda>x y. resume_time s x \<le> resume_time s y) tq"
    using t by (simp add: timed_list_def)
  have sh: "shot_task prio intr s = Some (hd (dropWhile q tq @ [LINUX]))"
    unfolding q by (rule shot_task_eq [OF t])
  show ?thesis
  proof (cases "dropWhile q tq")
    case Nil
    then have "\<forall>x \<in> set tq. q x" by (simp add: dropWhile_eq_Nil_conv)
    then have "\<forall>x \<in> set tq. priority s x \<le> prio \<longrightarrow> intr \<le> resume_time s x"
      unfolding q by auto
    then show ?thesis using sh Nil by simp
  next
    case (Cons y ys)
    note f = first_hit [OF so this]
    have yn: "y \<noteq> LINUX" using f L by metis
    have y: "priority s y \<le> prio \<and> resume_time s y < intr" using f yn unfolding q by blast
    have "\<forall>x \<in> set tq. priority s x \<le> prio \<longrightarrow> resume_time s y \<le> resume_time s x"
    proof (intro ballI impI)
      fix x assume x: "x \<in> set tq" "priority s x \<le> prio"
      show "resume_time s y \<le> resume_time s x"
      proof (cases "q x")
        case True
        then show ?thesis using x y unfolding q by linarith
      qed (use f x in blast)
    qed
    then show ?thesis using sh Cons f y yn by simp
  qed
qed

text \<open>
  After a scheduling decision no timed task of at least the priority of the chosen one is woken
  late: a shot is fired no later than its time, or as soon as the hardware allows; without a
  shot it is further away than the timer reaches.
\<close>

definition shot_covers :: "kst \<Rightarrow> rtime \<Rightarrow> int \<Rightarrow> tid list \<Rightarrow> kst \<Rightarrow> bool" where
  "shot_covers s horizon prio tq s' \<longleftrightarrow>
     (\<forall>x \<in> set tq. priority s x \<le> prio \<longrightarrow>
        (if shot_fired s' then intr_time (times s') \<le> resume_time s x
            \<or> intr_time (times s') = tsc s (tsc_reads s) + setup_time_TIMER_CPUNIT (tuned s)
         else horizon \<le> resume_time s x))"

lemma shot_coversI:
  assumes "\<And>x. x \<in> set tq \<Longrightarrow> priority s x \<le> prio \<Longrightarrow> v \<le> resume_time s x"
    and "shot_fired s'" and "intr_time (times s') = v
      \<or> intr_time (times s') = tsc s (tsc_reads s) + setup_time_TIMER_CPUNIT (tuned s)"
  shows "shot_covers s h prio tq s'"
  using assms by (auto simp: shot_covers_def)

lemma ONESHOT_SPAN_nonneg: "0 \<le> cpu_freq (tuned s) \<Longrightarrow> 0 \<le> ONESHOT_SPAN s"
  by (simp add: ONESHOT_SPAN_def pos_imp_zdiv_nonneg_iff)

lemma set_intr_time_fired:
  "(set_intr_time v s)\<lparr>shot_fired := b\<rparr> = set_intr_time v (s\<lparr>shot_fired := b\<rparr>)"
  by (simp add: set_intr_time_def)

lemma schedule_shot_eq:
  assumes t: "timed_list s tq" and L: "LINUX \<notin> set tq" and f: "0 \<le> cpu_freq (tuned s)"
  shows "\<exists>s'. schedule_shot new_task prio s = Some s' \<and> timer_frame s s'
     \<and> shot_covers s (intr_time (times s) + ONESHOT_SPAN s) prio tq s'"
proof -
  let ?base = "if shot_fired s then intr_time (times s) else intr_time (times s) + ONESHOT_SPAN s"
  obtain pre intr where pi: "RR_SPREMP new_task ?base s = (pre, intr)" by (cases "RR_SPREMP new_task ?base s")
  obtain task where sh: "shot_task prio intr s = Some task"
    and none: "task = LINUX \<longrightarrow> (\<forall>x \<in> set tq. priority s x \<le> prio \<longrightarrow> intr \<le> resume_time s x)"
    and hit: "task \<noteq> LINUX \<longrightarrow> task \<in> set tq \<and> resume_time s task < intr
       \<and> (\<forall>x \<in> set tq. priority s x \<le> prio \<longrightarrow> resume_time s task \<le> resume_time s x)"
    using shot_task_first [OF t L] by blast
  have np: "intr = ?base" if "\<not> pre" using pi that by (auto simp: RR_SPREMP_def split: if_splits)
  show ?thesis
  proof (cases "task = LINUX")
    case False
    let ?s = "fire_shot (set_intr_time (resume_time s task) (s\<lparr>shot_fired := True\<rparr>))"
    have e: "schedule_shot new_task prio s = Some ?s"
      using False sh pi by (simp add: schedule_shot_def set_intr_time_fired)
    have "shot_covers s (intr_time (times s) + ONESHOT_SPAN s) prio tq ?s"
      by (rule shot_coversI) (use hit False fire_at [of s "resume_time s task"] in blast)+
    then show ?thesis using e fire_at by blast
  next
    case L: True
    show ?thesis
    proof (cases "pre \<or> \<not> shot_fired s \<and> prio = RT_LINUX_PRIORITY")
      case True
      let ?v = "if pre then intr else intr_time (times s)"
      let ?s = "fire_shot (set_intr_time ?v (s\<lparr>shot_fired := True\<rparr>))"
      have "set_intr_time (intr_time (times s)) (s\<lparr>shot_fired := True\<rparr>) = s\<lparr>shot_fired := True\<rparr>"
        by (simp add: set_intr_time_def)
      then have e: "schedule_shot new_task prio s = Some ?s"
        using True L sh pi by (auto simp: schedule_shot_def set_intr_time_fired)
      have "?v \<le> intr" using np ONESHOT_SPAN_nonneg [OF f] by auto
      then have "shot_covers s (intr_time (times s) + ONESHOT_SPAN s) prio tq ?s"
        using none L fire_at [of s ?v] by (intro shot_coversI [where v = ?v]) force+
      then show ?thesis using e fire_at by blast
    next
      case False
      then have e: "schedule_shot new_task prio s = Some s"
        using L sh pi by (auto simp: schedule_shot_def)
      have "shot_covers s (intr_time (times s) + ONESHOT_SPAN s) prio tq s"
        using none L np False by (auto simp: shot_covers_def)
      moreover have "timer_frame s s"
        using timer_frameI [where s = s and i = "intr_time (times s)" and f = "shot_fired s"
            and c = "timer_chip s" and n = "tsc_reads s" and y = "yield_time s"]
        by simp
      ultimately show ?thesis using e by blast
    qed
  qed
qed

section \<open>The scheduling decision\<close>

text \<open>What a scheduling decision leaves alone.\<close>

definition select_frame :: "kst \<Rightarrow> kst \<Rightarrow> bool" where
  "select_frame s s' \<longleftrightarrow> magic s' = magic s \<and> priority s' = priority s \<and> is_hard s' = is_hard s
     \<and> policy s' = policy s \<and> lnxtsk s' = lnxtsk s \<and> rt_current s' = rt_current s
     \<and> resume_time s' = resume_time s \<and> linux_nextp s' = linux_nextp s \<and> sems s' = sems s
     \<and> lnx_current s' = lnx_current s \<and> tuned s' = tuned s \<and> blocked_on s' = blocked_on s
     \<and> qnext s' = qnext s \<and> qprev s' = qprev s \<and> qtask s' = qtask s"

lemma select_frame_refl: "select_frame s s" by (simp add: select_frame_def)

lemma select_frame_trans: "select_frame s t \<Longrightarrow> select_frame t u \<Longrightarrow> select_frame s u"
  by (simp add: select_frame_def)

lemma select_frame_live: "select_frame s s' \<Longrightarrow> live s' t = live s t"
  by (simp add: select_frame_def live_def)

lemma timer_frame_select: "timer_frame s s' \<Longrightarrow> select_frame s s'"
  by (auto simp: timer_frame_def select_frame_def)

lemma RR_SETYT_same: "same_sched s (RR_SETYT n s) \<and> select_frame s (RR_SETYT n s)
    \<and> times (RR_SETYT n s) = times s \<and> tsc (RR_SETYT n s) = tsc s \<and> tsc_reads (RR_SETYT n s) = tsc_reads s
    \<and> tuned (RR_SETYT n s) = tuned s \<and> rt_time_h (RR_SETYT n s) = rt_time_h s"
  by (simp add: RR_SETYT_def same_sched_def select_frame_def)

lemma schedule_select_inv:
  assumes i: "sched_inv s rq tq" and cur: "cur = LINUX \<or> live s cur"
    and f: "0 \<le> cpu_freq (tuned s)"
    and e: "tsc s (tsc_reads s) + rt_half_tick s < RT_TIME_END"
  shows "\<exists>s' rq' tq'. schedule_select cur s = Some (hd (rq' @ [LINUX]), s') \<and> sched_inv s' rq' tq'
     \<and> select_frame s s'
     \<and> (oneshot_running s \<longrightarrow>
          rt_time_h s' = tsc s (tsc_reads s) + rt_half_tick s
          \<and> tq' = filter (\<lambda>x. rt_time_h s' < resume_time s x) tq
          \<and> (\<forall>x \<in> set tq'. priority s x \<le> priority s (hd (rq' @ [LINUX])) \<longrightarrow>
              (if shot_fired s' then intr_time (times s') \<le> resume_time s x
                  \<or> intr_time (times s') = tsc s (Suc (tsc_reads s)) + setup_time_TIMER_CPUNIT (tuned s)
               else intr_time (times s) + ONESHOT_SPAN s \<le> resume_time s x)))
     \<and> (\<not> oneshot_running s \<longrightarrow> rq' = rr_result s cur rq \<and> tq' = tq)"
proof -
  obtain s1 rr nx pv where y: "RR_YIELD cur s = Some s1" "sched_inv s1 (rr_result s cur rq) tq"
    "s1 = s\<lparr>rr_remaining := rr, rnext := nx, rprev := pv\<rparr>"
    using RR_YIELD_inv [OF i cur] by (elim exE conjE)
  have f1: "select_frame s s1" by (simp add: y(3) select_frame_def)
  show ?thesis
  proof (cases "oneshot_running s")
    case False
    let ?n = "rnext s1 LINUX"
    have e: "schedule_select cur s = Some (?n, RR_SETYT ?n s1)"
      using False y by (simp add: schedule_select_def TASK_TO_SCHEDULE_def)
    have "sched_inv (RR_SETYT ?n s1) (rr_result s cur rq) tq"
      using same_sched_inv RR_SETYT_same y(2) by blast
    moreover have "select_frame s (RR_SETYT ?n s1)"
      using f1 RR_SETYT_same select_frame_trans by blast
    ultimately show ?thesis
      using e False ready_head [OF y(2)] by auto
  next
    case True
    let ?s = "s1\<lparr>tsc_reads := Suc (tsc_reads s1), rt_time_h := tsc s (tsc_reads s) + rt_half_tick s\<rparr>"
    have i': "sched_inv ?s (rr_result s cur rq) tq"
      using same_sched_inv [of s1 ?s] y(2) by (simp add: same_sched_def)
    have e': "rt_time_h ?s < RT_TIME_END" using e by simp
    let ?tq = "filter (\<lambda>x. rt_time_h ?s < resume_time ?s x) tq"
    obtain s2 rq2 st a b c d where w: "wake_up_timed_tasks ?s = Some s2" "sched_inv s2 rq2 ?tq"
      "s2 = ?s\<lparr>state := st, rnext := a, rprev := b, tnext := c, tprev := d\<rparr>"
      using wake_up_inv [OF i' e'] by (elim exE conjE)
    let ?n = "rnext s2 LINUX"
    let ?s3 = "RR_SETYT ?n s2"
    have i3: "sched_inv ?s3 rq2 ?tq" using same_sched_inv RR_SETYT_same w(2) by blast
    have t3: "tuned ?s3 = tuned s" "times ?s3 = times s" "tsc ?s3 = tsc s"
      "tsc_reads ?s3 = Suc (tsc_reads s)" "rt_time_h ?s3 = tsc s (tsc_reads s) + rt_half_tick s"
      "priority ?s3 = priority s" "resume_time ?s3 = resume_time s"
      using RR_SETYT_same [where n = ?n and s = s2] by (simp_all add: w(3) y(3) select_frame_def)
    have f3: "0 \<le> cpu_freq (tuned ?s3)" using f t3 by simp
    obtain s' where s': "schedule_shot ?n (priority s2 ?n) ?s3 = Some s'" "timer_frame ?s3 s'"
      "shot_covers ?s3 (intr_time (times ?s3) + ONESHOT_SPAN ?s3) (priority s2 ?n) ?tq s'"
      using schedule_shot_eq [OF sched_invD(4) [OF i3] _ f3] sched_inv_LINUX [OF i3] by blast
    have hd: "?n = hd (rq2 @ [LINUX])" using ready_head [OF w(2)] .
    have 1: "schedule_select cur s = Some (hd (rq2 @ [LINUX]), s')"
      unfolding hd [symmetric] using True y w(1) s'(1)
      by (simp add: schedule_select_def TASK_TO_SCHEDULE_def rdtsc_def)
    have 2: "sched_inv s' rq2 ?tq"
      using same_sched_inv i3 timer_frame_same [OF s'(2)] by blast
    have "select_frame s ?s3"
      using f1 RR_SETYT_same [where n = ?n and s = s2] by (simp add: w(3) y(3) select_frame_def)
    then have 3: "select_frame s s'"
      using timer_frame_select [OF s'(2)] select_frame_trans by blast
    have 4: "rt_time_h s' = tsc s (tsc_reads s) + rt_half_tick s"
      using timer_frame_same [OF s'(2)] t3(5) by simp
    have sp: "ONESHOT_SPAN ?s3 = ONESHOT_SPAN s" using t3 by (simp add: ONESHOT_SPAN_def)
    have 5: "\<forall>x \<in> set ?tq. priority s x \<le> priority s (hd (rq2 @ [LINUX])) \<longrightarrow>
              (if shot_fired s' then intr_time (times s') \<le> resume_time s x
                  \<or> intr_time (times s') = tsc s (Suc (tsc_reads s)) + setup_time_TIMER_CPUNIT (tuned s)
               else intr_time (times s) + ONESHOT_SPAN s \<le> resume_time s x)"
      using s'(3) unfolding shot_covers_def sp t3 hd [symmetric] by (simp add: w(3) y(3))
    have 6: "?tq = filter (\<lambda>x. rt_time_h s' < resume_time s x) tq" by (simp add: 4 y(3))
    show ?thesis
      by (intro exI [where x = s'] exI [where x = rq2] exI [where x = ?tq] conjI impI 1 2 3 4 5 6)
        (use True in simp_all)
  qed
qed

subsection \<open>The timer handler\<close>

lemma timer_tick_same: "same_sched s (timer_tick s) \<and> select_frame s (timer_tick s)
    \<and> rt_time_h (timer_tick s) = intr_time (times s) + rt_half_tick s
    \<and> tick_time (times (timer_tick s)) = intr_time (times s)
    \<and> linux_tick (times (timer_tick s)) = linux_tick (times s)
    \<and> linux_time (times (timer_tick s)) =
        (if linux_time (times s) \<le> intr_time (times s) then linux_time (times s) + linux_tick (times s)
         else linux_time (times s))
    \<and> tsc (timer_tick s) = tsc s \<and> tsc_reads (timer_tick s) = tsc_reads s
    \<and> oneshot_timer (timer_tick s) = oneshot_timer s"
  by (simp add: timer_tick_def Let_def same_sched_def select_frame_def)

definition next_linux_shot :: "rt_times \<Rightarrow> rtime" where
  "next_linux_shot tm = (if linux_time tm > tick_time tm then linux_time tm
                         else tick_time tm + drop_bit 1 (linux_tick tm))"

lemma timer_shot_eq:
  assumes t: "timed_list s tq" and L: "LINUX \<notin> set tq"
    and p: "policy s new_task \<le> 0" and h: "next_linux_shot (times s) \<le> tick_time (times s) + ONESHOT_SPAN s"
  shows "\<exists>s'. timer_shot new_task prio s = Some s' \<and> timer_frame s s'
     \<and> shot_covers s (tick_time (times s) + ONESHOT_SPAN s) prio tq s'"
proof -
  let ?h = "tick_time (times s) + ONESHOT_SPAN s"
  let ?s1 = "set_intr_time ?h s"
  let ?pre = "preempt_always s \<or> prio = RT_LINUX_PRIORITY"
  have pr: "RR_TPREMP new_task prio ?s1 = (?pre, ?s1)"
    using p by (simp add: RR_TPREMP_def set_intr_time_def)
  have t1: "timed_list ?s1 tq" using t by (simp add: timed_list_def set_intr_time_def)
  have i1: "intr_time (times ?s1) = ?h" "priority ?s1 = priority s" "resume_time ?s1 = resume_time s"
    by (simp_all add: set_intr_time_def)
  obtain task where sh: "shot_task prio ?h ?s1 = Some task"
    and none: "task = LINUX \<longrightarrow> (\<forall>x \<in> set tq. priority s x \<le> prio \<longrightarrow> ?h \<le> resume_time s x)"
    and hit: "task \<noteq> LINUX \<longrightarrow> task \<in> set tq \<and> resume_time s task < ?h
       \<and> (\<forall>x \<in> set tq. priority s x \<le> prio \<longrightarrow> resume_time s task \<le> resume_time s x)"
    using shot_task_first [OF t1 L, of prio ?h] unfolding i1 by blast
  have swap: "set_intr_time v (set_intr_time w s\<lparr>shot_fired := b\<rparr>) = set_intr_time v (s\<lparr>shot_fired := b\<rparr>)" for v w b
    by (simp add: set_intr_time_def)
  show ?thesis
  proof (cases "task = LINUX")
    case False
    let ?s = "fire_shot (set_intr_time (resume_time s task) (s\<lparr>shot_fired := True\<rparr>))"
    have e: "timer_shot new_task prio s = Some ?s"
      using False sh pr i1 swap by (simp add: timer_shot_def set_intr_time_fired)
    have "shot_covers s ?h prio tq ?s"
      by (rule shot_coversI) (use hit False fire_at [of s "resume_time s task"] in blast)+
    then show ?thesis using e fire_at by blast
  next
    case L: True
    show ?thesis
    proof (cases ?pre)
      case True
      let ?v = "next_linux_shot (times s)"
      let ?s = "fire_shot (set_intr_time ?v (s\<lparr>shot_fired := True\<rparr>))"
      have "set_intr_time ?v (?s1\<lparr>shot_fired := True\<rparr>) = set_intr_time ?v (s\<lparr>shot_fired := True\<rparr>)"
        by (simp add: set_intr_time_def)
      then have e: "timer_shot new_task prio s = Some ?s"
        using L sh pr i1 True by (simp add: timer_shot_def Let_def next_linux_shot_def)
          (simp add: set_intr_time_def)
      have "shot_covers s ?h prio tq ?s"
        using none L h fire_at [of s ?v] by (intro shot_coversI [where v = ?v]) force+
      then show ?thesis using e fire_at by blast
    next
      case False
      let ?s = "s\<lparr>times := (times s)\<lparr>intr_time := ?h\<rparr>, shot_fired := False,
          timer_chip := timer_chip s, tsc_reads := tsc_reads s, yield_time := yield_time s\<rparr>"
      have e: "timer_shot new_task prio s = Some ?s"
        using L sh pr i1 False by (simp add: timer_shot_def Let_def) (simp add: set_intr_time_def)
      have "shot_covers s ?h prio tq ?s" using none L by (simp add: shot_covers_def)
      then show ?thesis using e timer_frameI by blast
    qed
  qed
qed

text \<open>The first half of the timer handler: the timed tasks are woken, the quantum is looked at, the task is known.\<close>

lemma timer_select_task:
  assumes i: "sched_inv s rq tq" and cur: "cur = LINUX \<or> live s cur"
    and e: "intr_time (times s) + rt_half_tick s < RT_TIME_END"
  shows "\<exists>s1 s2 s3 rq'. wake_up_timed_tasks (timer_tick s) = Some s1 \<and> RR_YIELD cur s1 = Some s2
     \<and> s3 = RR_SETYT (rnext s2 LINUX) s2 \<and> rnext s2 LINUX = hd (rq' @ [LINUX])
     \<and> sched_inv s3 rq' (filter (\<lambda>x. intr_time (times s) + rt_half_tick s < resume_time s x) tq) \<and> select_frame s s3
     \<and> times s3 = times (timer_tick s) \<and> tsc s3 = tsc s \<and> tsc_reads s3 = tsc_reads s \<and> tuned s3 = tuned s
     \<and> oneshot_timer s3 = oneshot_timer s \<and> priority s2 = priority s \<and> priority s3 = priority s
     \<and> resume_time s3 = resume_time s \<and> policy s3 = policy s"
proof -
  let ?t = "timer_tick s"
  note tt = timer_tick_same [of s]
  have i0: "sched_inv ?t rq tq" using same_sched_inv tt i by blast
  have e0: "rt_time_h ?t < RT_TIME_END" using e tt by simp
  obtain s1 rq1 st a b c d where w: "wake_up_timed_tasks ?t = Some s1"
    "sched_inv s1 rq1 (filter (\<lambda>x. rt_time_h ?t < resume_time ?t x) tq)"
    "s1 = ?t\<lparr>state := st, rnext := a, rprev := b, tnext := c, tprev := d\<rparr>"
    using wake_up_inv [OF i0 e0] by (elim exE conjE)
  have f1: "select_frame ?t s1" by (simp add: w(3) select_frame_def)
  have cur1: "cur = LINUX \<or> live s1 cur"
    using cur select_frame_live [OF f1] select_frame_live tt by metis
  let ?tq = "filter (\<lambda>x. intr_time (times s) + rt_half_tick s < resume_time s x) tq"
  have tqe: "filter (\<lambda>x. rt_time_h ?t < resume_time ?t x) tq = ?tq"
    using tt by (simp add: select_frame_def)
  obtain s2 rr nx pv where y: "RR_YIELD cur s1 = Some s2" "sched_inv s2 (rr_result s1 cur rq1) ?tq"
    "s2 = s1\<lparr>rr_remaining := rr, rnext := nx, rprev := pv\<rparr>"
    using RR_YIELD_inv [OF w(2) cur1, unfolded tqe] by (elim exE conjE)
  let ?s3 = "RR_SETYT (rnext s2 LINUX) s2"
  have f2: "select_frame s s2" using f1 tt select_frame_trans by (simp add: y(3) select_frame_def)
  have f3: "select_frame s ?s3" using select_frame_trans f2 RR_SETYT_same by blast
  have i3: "sched_inv ?s3 (rr_result s1 cur rq1) ?tq" using same_sched_inv RR_SETYT_same y(2) by blast
  have g: "times ?s3 = times ?t" "tsc ?s3 = tsc s" "tsc_reads ?s3 = tsc_reads s" "tuned ?s3 = tuned s"
    "oneshot_timer ?s3 = oneshot_timer s"
    using tt by (simp_all add: RR_SETYT_def y(3) w(3) select_frame_def)
  have pr: "priority s2 = priority s" "priority ?s3 = priority s" "resume_time ?s3 = resume_time s" "policy ?s3 = policy s"
    using f2 f3 by (simp_all add: select_frame_def)
  show ?thesis by (intro exI conjI, rule w(1), rule y(1), rule refl, rule ready_head [OF y(2)], rule i3, rule f3, (rule g)+, (rule pr)+)
qed


section \<open>What the scheduler runs\<close>

text \<open>
  A kernel task returns to Linux by exchanging itself with the Linux context that was left; in
  a system without processes in the way that is the kernel task of Linux itself.
\<close>

definition linux_left :: "kst \<Rightarrow> bool" where
  "linux_left s \<longleftrightarrow> (\<forall>t. lnxtsk s t \<noteq> None \<and> lnxtsk s (rt_current s) = None \<longrightarrow> linux_nextp s = Some t)"

lemma LOCK_LINUX_same: "same_sched s (LOCK_LINUX s) \<and> select_frame s (LOCK_LINUX s)"
  by (simp add: LOCK_LINUX_def Let_def same_sched_def select_frame_def)

lemma UNLOCK_LINUX_same: "same_sched s (UNLOCK_LINUX s) \<and> select_frame s (UNLOCK_LINUX s)"
  by (simp add: UNLOCK_LINUX_def Let_def same_sched_def select_frame_def)

lemma KEXECTIME_same: "same_sched s (KEXECTIME cur s) \<and> select_frame s (KEXECTIME cur s)"
  by (simp add: KEXECTIME_def Let_def rdtsc_def same_sched_def select_frame_def)

lemma UEXECTIME_same: "same_sched s (UEXECTIME cur s) \<and> select_frame s (UEXECTIME cur s)"
  by (simp add: UEXECTIME_def Let_def rdtsc_def same_sched_def select_frame_def)

lemma switch_to_runs:
  assumes l: "linux_left s" and c: "cur = rt_current s"
    and h: "new \<noteq> cur \<longrightarrow> is_hard s new \<noteq> 0 \<or> is_hard s cur \<noteq> 0"
  shows "\<exists>s'. left_in (switch_to r n tm cur new s) = Some s' \<and> same_sched s s' \<and> rt_current s' = new"
proof (cases "new = cur")
  case True
  then show ?thesis using c by (simp add: switch_to_def same_sched_refl)
next
  case new: False
  show ?thesis
  proof (cases "lnxtsk s new = None \<or> lnxtsk s cur = None")
    case True
    have "\<exists>s1. exchange_out cur new s = Some s1 \<and> same_sched s s1 \<and> rt_current s1 = new"
    proof (cases "lnxtsk s cur = None")
      case cn: True
      then have "lnxtsk s new \<noteq> None \<Longrightarrow> linux_nextp s = Some new"
        using l c unfolding linux_left_def by blast
      then show ?thesis
        using cn by (cases "lnxtsk s new")
          (auto simp: exchange_out_def KEXECTIME_def Let_def rdtsc_def same_sched_def)
    next
      case False
      then show ?thesis
        by (auto simp: exchange_out_def LOCK_LINUX_def KEXECTIME_def Let_def rdtsc_def same_sched_def)
    qed
    then show ?thesis
      using new True by (auto simp: switch_to_def exchange_def)
  next
    case False
    let ?s1 = "if is_hard s cur = 0
               then (LOCK_LINUX s)\<lparr>lnxtsk := (lnxtsk s)(LINUX := Some (lnx_current s))\<rparr> else s"
    let ?s2 = "UEXECTIME cur (?s1\<lparr>rt_current := new\<rparr>)"
    have "left_in (switch_to r n tm cur new s) = Some ?s2"
      using new False h by (auto simp: switch_to_def schedlnxtsk_def)
    moreover have "same_sched s ?s2 \<and> rt_current ?s2 = new"
      by (simp add: UEXECTIME_def LOCK_LINUX_def Let_def rdtsc_def same_sched_def)
    ultimately show ?thesis by blast
  qed
qed

text \<open>\<open>runs_highest s\<close>: no ready task has a higher priority than the one that has the CPU.\<close>

definition runs_highest :: "kst \<Rightarrow> bool" where
  "runs_highest s \<longleftrightarrow> (rt_current s = LINUX \<or> live s (rt_current s) \<and> state s (rt_current s) = READY)
     \<and> (\<forall>t. live s t \<and> state s t = READY \<longrightarrow> priority s (rt_current s) \<le> priority s t)"

lemma runs_highestI:
  assumes i: "sched_inv s rq tq" and c: "rt_current s = hd (rq @ [LINUX])"
  shows "runs_highest s"
proof (cases rq)
  case Nil
  then have "\<not> (live s t \<and> state s t = READY)" for t using sched_invD(5) [OF i, of t] by simp
  then show ?thesis using c Nil by (auto simp: runs_highest_def)
next
  case (Cons x xs)
  then have "live s x \<and> state s x = READY" using sched_invD(5) [OF i, of x] by simp
  moreover have "rnext s LINUX = x" using ready_head [OF i] Cons by simp
  ultimately show ?thesis
    using ready_head_least [OF i] c Cons by (simp add: runs_highest_def)
qed

lemma rt_schedule_runs:
  assumes i: "sched_inv s rq tq" and cur: "rt_current s = LINUX \<or> live s (rt_current s)"
    and f: "0 \<le> cpu_freq (tuned s)" and e: "tsc s (tsc_reads s) + rt_half_tick s < RT_TIME_END"
    and l: "linux_left s"
  shows "\<exists>s' rq' tq'. left_in (rt_schedule (Suc n) s) = Some s' \<and> sched_inv s' rq' tq'
     \<and> rt_current s' = hd (rq' @ [LINUX]) \<and> magic s' = magic s \<and> priority s' = priority s
     \<and> (oneshot_running s \<longrightarrow> tq' = filter (\<lambda>x. tsc s (tsc_reads s) + rt_half_tick s < resume_time s x) tq)
     \<and> (\<not> oneshot_running s \<longrightarrow> rq' = rr_result s (rt_current s) rq \<and> tq' = tq)"
proof -
  let ?s = "s\<lparr>sched_rqsted := 1\<rparr>"
  let ?c = "rt_current s"
  have i0: "sched_inv ?s rq tq" using same_sched_inv [of s ?s] i by (simp add: same_sched_def)
  have "?c = LINUX \<or> live ?s ?c" and "0 \<le> cpu_freq (tuned ?s)"
    and "tsc ?s (tsc_reads ?s) + rt_half_tick ?s < RT_TIME_END"
    using cur f e by (simp_all add: live_def)
  from schedule_select_inv [OF i0 this] have "\<exists>s1 rq' tq'. schedule_select ?c ?s = Some (hd (rq' @ [LINUX]), s1) \<and> sched_inv s1 rq' tq'
      \<and> select_frame ?s s1
      \<and> (oneshot_running s \<longrightarrow> tq' = filter (\<lambda>x. tsc s (tsc_reads s) + rt_half_tick s < resume_time s x) tq)
      \<and> (\<not> oneshot_running s \<longrightarrow> rq' = rr_result ?s ?c rq \<and> tq' = tq)"
    by (elim exE conjE) (intro exI conjI, assumption+, simp_all)
  then obtain s1 rq' tq' where
    s1: "schedule_select ?c ?s = Some (hd (rq' @ [LINUX]), s1)" "sched_inv s1 rq' tq'" "select_frame ?s s1"
    "oneshot_running s \<longrightarrow> tq' = filter (\<lambda>x. tsc s (tsc_reads s) + rt_half_tick s < resume_time s x) tq"
    "\<not> oneshot_running s \<longrightarrow> rq' = rr_result ?s ?c rq \<and> tq' = tq"
    by blast
  have rr: "rr_result ?s ?c rq = rr_result s ?c rq"
    by (simp add: rr_result_def quantum_over_def rr_rotate_def)
  let ?n = "hd (rq' @ [LINUX])"
  have l1: "linux_left s1" and c1: "?c = rt_current s1"
    using l s1(3) by (simp_all add: linux_left_def select_frame_def)
  have cl: "?c = LINUX \<or> live s1 ?c"
    using cur select_frame_live [OF s1(3), of ?c] by (simp add: live_def)
  have nl: "?n = LINUX \<or> live s1 ?n"
    using sched_invD(5) [OF s1(2)] by (cases rq') auto
  have "?n \<noteq> ?c \<longrightarrow> is_hard s1 ?n \<noteq> 0 \<or> is_hard s1 ?c \<noteq> 0"
    using cl nl sched_invD(1) [OF s1(2)] unfolding task_wf_def by metis
  from switch_to_runs [OF l1 c1 this] obtain s' where
    s': "left_in (switch_to (reschedule n) n False ?c ?n s1) = Some s'" "same_sched s1 s'" "rt_current s' = ?n"
    by blast
  have 1: "left_in (rt_schedule (Suc n) s) = Some s'"
    using s1(1) s'(1) by (simp add: rt_schedule_def)
  have 2: "sched_inv s' rq' tq'" using same_sched_inv s'(2) s1(2) by blast
  have 3: "magic s' = magic s" "priority s' = priority s"
    using s1(3) s'(2) by (simp_all add: same_sched_def select_frame_def)
  show ?thesis
    using 1 2 s'(3) 3 s1(4,5) unfolding rr by blast
qed

section \<open>How the operations change the lists\<close>

abbreviation set_state :: "tid \<Rightarrow> 32 word \<Rightarrow> kst \<Rightarrow> kst" where
  "set_state t w s \<equiv> s\<lparr>state := (state s)(t := w)\<rparr>"

lemma live_simps [simp]:
  "live (s\<lparr>state := st\<rparr>) t = live s t" "live (link_ready x p s) t = live s t"
  "live (unlink_ready x s) t = live s t" "live (link_timed x p s) t = live s t"
  "live (unlink_timed x s) t = live s t" "live (s\<lparr>resume_time := r\<rparr>) t = live s t"
  by (simp_all add: live_def link_ready_def unlink_ready_def link_timed_def unlink_timed_def)

lemma live_cong: "magic s' = magic s \<Longrightarrow> live s' t = live s t"
  by (simp add: live_def)

lemma task_wf_set_state:
  "task_wf s \<Longrightarrow> w = READY \<or> 0 \<le> priority s t \<Longrightarrow> task_wf (set_state t w s)"
  by (auto simp: task_wf_def)

lemma inv_hard:
  assumes "sched_inv s rq tq" and "live s t"
  shows "is_hard s t \<noteq> 0" and "priority s t < RT_LINUX_PRIORITY" and "t \<noteq> LINUX"
    and "state s t \<noteq> READY \<Longrightarrow> hard_task s t"
  using assms by (auto simp: sched_inv_def task_wf_def hard_task_def live_def)

text \<open>A change of the state of a task that moves it in or out of no list.\<close>

lemma inv_set_state:
  assumes i: "sched_inv s rq tq" and "state s t = READY \<longleftrightarrow> w = READY"
    and "state s t AND DELAYED \<noteq> 0 \<longleftrightarrow> w AND DELAYED \<noteq> 0" and "live s t"
  shows "sched_inv (set_state t w s) rq tq"
proof -
  note d = sched_invD [OF i]
  have "w = READY \<or> 0 \<le> priority s t"
    using d(1) assms(2,4) by (auto simp: task_wf_def)
  then show ?thesis
  proof (intro sched_invI)
    show "task_wf (set_state t w s)" if "w = READY \<or> 0 \<le> priority s t"
      using task_wf_set_state d(1) that by blast
    show "ready_list (set_state t w s) rq" "in_prio_order (set_state t w s) rq"
      "timed_list (set_state t w s) tq"
      using d by (simp_all add: ready_list_def in_prio_order_def timed_list_def)
    show "x \<in> set rq \<longleftrightarrow> live (set_state t w s) x \<and> state (set_state t w s) x = READY" for x
      using d(5) [of x] assms(2) by (simp add: live_def)
    show "x \<in> set tq \<longleftrightarrow> live (set_state t w s) x \<and> state (set_state t w s) x AND DELAYED \<noteq> 0" for x
      using d(6) [of x] assms(3) by (simp add: live_def)
  qed
qed

text \<open>A task leaves the timed list.\<close>

lemma inv_rem_timed:
  assumes i: "sched_inv s rq tq" and l: "live s t" and n: "state s t \<noteq> READY" "w \<noteq> READY"
    and w: "w AND DELAYED = 0"
  shows "sched_inv (set_state t w (rem_timed_task t s)) rq (remove1 t tq)"
proof (cases "state s t AND DELAYED = 0")
  case True
  then have "t \<notin> set tq" using sched_invD(6) [OF i, of t] by simp
  then show ?thesis
    using inv_set_state [OF i _ _ l, of w] n w True by (simp add: rem_timed_task_eq remove1_idem)
next
  case False
  note d = sched_invD [OF i]
  let ?s = "set_state t w (unlink_timed t s)"
  have t: "t \<in> set tq" using d(6) [of t] l False by simp
  have dt: "distinct tq" using d(4) by (auto simp: timed_list_def ring_def)
  have "sched_inv ?s rq (remove1 t tq)"
  proof (rule sched_invI)
    show "task_wf ?s"
      using d(1) l n by (auto simp: task_wf_def live_def unlink_timed_def)
    show "ready_list ?s rq" "in_prio_order ?s rq"
      using d by (simp_all add: ready_list_def in_prio_order_def)
    show "timed_list ?s (remove1 t tq)"
      using timed_list_unlink [OF d(4) t] by (simp add: timed_list_def)
    show "x \<in> set rq \<longleftrightarrow> live ?s x \<and> state ?s x = READY" for x
      using d(5) [of x] n by simp
    show "x \<in> set (remove1 t tq) \<longleftrightarrow> live ?s x \<and> state ?s x AND DELAYED \<noteq> 0" for x
      using d(6) [of x] dt w by (simp)
  qed
  then show ?thesis using False by (simp add: rem_timed_task_eq)
qed

text \<open>A task becomes ready.\<close>

lemma inv_enq_ready:
  assumes i: "sched_inv s rq tq" and l: "live s t" and n: "state s t \<noteq> READY"
    and w: "state s t AND DELAYED = 0"
  shows "\<exists>s' nx pv. enq_ready_task t (set_state t READY s) = Some s'
     \<and> sched_inv s' (ready_insert s t rq) tq
     \<and> s' = s\<lparr>state := (state s)(t := READY), rnext := nx, rprev := pv\<rparr>"
proof -
  note d = sched_invD [OF i]
  let ?s = "set_state t READY s"
  let ?p = "hd (dropWhile (\<lambda>x. priority s x \<le> priority s t) rq @ [LINUX])"
  let ?l = "link_ready t ?p ?s"
  have h: "hard_task ?s t" using inv_hard(4) [OF i l n] by (simp add: hard_task_def)
  have r: "ready_list ?s rq" using d(2) by (simp add: ready_list_def)
  have t: "t \<notin> set (LINUX # rq)" using d(5) [of t] n l by (simp add: live_def)
  have e: "enq_ready_task t ?s = Some ?l"
    using enq_ready_task_eq [OF r h] by simp
  have "sched_inv ?l (ready_insert s t rq) tq"
  proof (rule sched_invI)
    show "task_wf ?l" using d(1) by (simp add: task_wf_def live_def link_ready_def)
    show "ready_list ?l (ready_insert s t rq)" using ready_list_link [OF r h t] by simp
    show "in_prio_order ?l (ready_insert s t rq)"
      using in_prio_order_insert [OF d(3), of t] by (simp add: in_prio_order_def)
    show "timed_list ?l tq" using d(4) by (simp add: timed_list_def)
    show "x \<in> set (ready_insert s t rq) \<longleftrightarrow> live ?l x \<and> state ?l x = READY" for x
      using d(5) [of x] l by auto
    show "x \<in> set tq \<longleftrightarrow> live ?l x \<and> state ?l x AND DELAYED \<noteq> 0" for x
      using d(6) [of x] w by simp
  qed
  moreover have "?l = s\<lparr>state := (state s)(t := READY), rnext := rnext ?l, rprev := rprev ?l\<rparr>"
    by (simp add: link_ready_def)
  ultimately show ?thesis using e by (intro exI conjI)
qed

text \<open>A ready task leaves the ready list.\<close>

lemma inv_unready:
  assumes i: "sched_inv s rq tq" and l: "live s t" and r: "state s t = READY"
    and w: "w \<noteq> READY" "w AND DELAYED = 0" and p: "0 \<le> priority s t"
  shows "sched_inv (set_state t w (unlink_ready t s)) (remove1 t rq) tq"
proof (rule sched_invI)
  let ?s = "set_state t w (unlink_ready t s)"
  note d = sched_invD [OF i]
  have t: "t \<in> set rq" using d(5) [of t] l r by simp
  have dr: "distinct rq" using d(2) by (auto simp: ready_list_def ring_def)
  show "task_wf ?s" using d(1) p by (auto simp: task_wf_def live_def unlink_ready_def)
  show "ready_list ?s (remove1 t rq)"
    using ready_list_unlink [OF d(2) t] by (simp add: ready_list_def)
  show "in_prio_order ?s (remove1 t rq)"
    using sorted_wrt_remove1 d(3) by (simp add: in_prio_order_def)
  show "timed_list ?s tq" using d(4) by (simp add: timed_list_def)
  show "x \<in> set (remove1 t rq) \<longleftrightarrow> live ?s x \<and> state ?s x = READY" for x
    using d(5) [of x] dr w by (simp)
  show "x \<in> set tq \<longleftrightarrow> live ?s x \<and> state ?s x AND DELAYED \<noteq> 0" for x
    using d(6) [of x] r w by simp
qed

text \<open>A task that is not delayed enters the timed list.\<close>

lemma inv_enq_timed:
  assumes i: "sched_inv s rq tq" and l: "live s t" and n: "state s t \<noteq> READY"
    and w: "state s t AND DELAYED = 0" "w AND DELAYED \<noteq> 0" and e: "resume_time s t \<le> RT_TIME_END"
  shows "\<exists>s' nx pv. enq_timed_task t (set_state t w s) = Some s' \<and> sched_inv s' rq (timed_insert s t tq)
     \<and> s' = s\<lparr>state := (state s)(t := w), tnext := nx, tprev := pv\<rparr>"
proof -
  note d = sched_invD [OF i]
  let ?s = "set_state t w s"
  let ?p = "hd (dropWhile (\<lambda>x. resume_time s x < resume_time s t) tq @ [LINUX])"
  let ?l = "link_timed t ?p ?s"
  have h: "is_hard ?s t \<noteq> 0" "resume_time ?s t \<le> RT_TIME_END" using inv_hard(1) [OF i l] e by simp_all
  have tl: "timed_list ?s tq" using d(4) by (simp add: timed_list_def)
  have t: "t \<notin> set (LINUX # tq)" using d(6) [of t] w l by (simp add: live_def)
  have en: "enq_timed_task t ?s = Some ?l" using enq_timed_task_eq [OF tl h] by simp
  have wn: "w \<noteq> READY" using delayed_not_ready w(2) .
  have "sched_inv ?l rq (timed_insert s t tq)"
  proof (rule sched_invI)
    show "task_wf ?l"
      using d(1) l n by (auto simp: task_wf_def live_def link_timed_def)
    show "ready_list ?l rq" "in_prio_order ?l rq"
      using d by (simp_all add: ready_list_def in_prio_order_def)
    show "timed_list ?l (timed_insert s t tq)" using timed_list_link [OF tl t] by simp
    show "x \<in> set rq \<longleftrightarrow> live ?l x \<and> state ?l x = READY" for x
      using d(5) [of x] n wn by simp
    show "x \<in> set (timed_insert s t tq) \<longleftrightarrow> live ?l x \<and> state ?l x AND DELAYED \<noteq> 0" for x
      using d(6) [of x] w l by simp
  qed
  moreover have "?l = s\<lparr>state := (state s)(t := w), tnext := tnext ?l, tprev := tprev ?l\<rparr>"
    by (simp add: link_timed_def)
  ultimately show ?thesis using en by (intro exI conjI)
qed

text \<open>A new resume time for a task that is not in the timed list.\<close>

lemma inv_resume_time:
  assumes i: "sched_inv s rq tq" and t: "t \<notin> set tq" "t \<noteq> LINUX"
  shows "sched_inv (s\<lparr>resume_time := (resume_time s)(t := v)\<rparr>) rq tq"
proof -
  note d = sched_invD [OF i]
  have e: "x \<in> set tq \<Longrightarrow> ((resume_time s)(t := v)) x = resume_time s x" for x using t by auto
  have "sorted_wrt (\<lambda>x y. resume_time s x \<le> resume_time s y) tq"
    using d(4) by (simp add: timed_list_def)
  then have so: "sorted_wrt (\<lambda>x y. ((resume_time s)(t := v)) x \<le> ((resume_time s)(t := v)) y) tq"
    by (rule sorted_wrt_mono_rel [rotated]) (simp only: e)
  show ?thesis
  proof (rule sched_invI)
    let ?s = "s\<lparr>resume_time := (resume_time s)(t := v)\<rparr>"
    show "task_wf ?s" using d(1) by (simp add: task_wf_def)
    show "ready_list ?s rq" "in_prio_order ?s rq"
      using d by (simp_all add: ready_list_def in_prio_order_def)
    have L: "resume_time ?s LINUX = RT_TIME_END" using d(4) t(2) by (simp add: timed_list_def)
    show "timed_list ?s tq"
      using d(4) so unfolding timed_list_def L by simp
    show "x \<in> set rq \<longleftrightarrow> live ?s x \<and> state ?s x = READY"
      "x \<in> set tq \<longleftrightarrow> live ?s x \<and> state ?s x AND DELAYED \<noteq> 0" for x
      using d(5,6) [of x] by simp_all
  qed
qed

end
