(* ===== verification/Sched_Blocked.thy ===== *)
theory Sched_Blocked
  imports Sched_Queues
begin

text \<open>
  What enqueueing, dequeueing and re-queueing do to the queues of blocked tasks, taken together:
  several queues share the link fields of \<^verbatim>\<open>task->queue\<close>, so each operation is shown to change
  the one queue it is about and to leave every other one alone.  The last part proves that the
  propagation of an inherited priority always ends and brings every task on the chain to the
  priority of the task that blocks.
\<close>

section \<open>The queues of blocked tasks\<close>

definition queue_list :: "kst \<Rightarrow> qnode \<Rightarrow> tid list \<Rightarrow> bool" where
  "queue_list s h ts \<longleftrightarrow> ring (qnext s) (qprev s) h (map TaskQ ts)
     \<and> (\<forall>t \<in> set ts. qtask s (TaskQ t) = Task t)"

text \<open>\<open>blocked_queues s H qs\<close>: the queues with heads in \<open>H\<close> hold the lists \<open>qs\<close>, and no task is in
  two of them.\<close>

definition blocked_queues :: "kst \<Rightarrow> qnode set \<Rightarrow> (qnode \<Rightarrow> tid list) \<Rightarrow> bool" where
  "blocked_queues s H qs \<longleftrightarrow> H \<inter> range TaskQ = {} \<and> (\<forall>h \<in> H. queue_list s h (qs h))
     \<and> (\<forall>h \<in> H. \<forall>h' \<in> H. h \<noteq> h' \<longrightarrow> set (qs h) \<inter> set (qs h') = {})"

abbreviation queue_insert :: "kst \<Rightarrow> int \<Rightarrow> tid \<Rightarrow> tid list \<Rightarrow> tid list" where
  "queue_insert s p \<equiv> insert_after_while (\<lambda>x. priority s x \<le> p)"

lemma link_queue_simps [simp]:
  "qnext (link_queue n pos s) = link_nx (qnext s) (qprev s) n pos"
  "qprev (link_queue n pos s) = link_pv (qprev s) n pos"
  "qtask (link_queue n pos s) = qtask s" "priority (link_queue n pos s) = priority s"
  "state (link_queue n pos s) = state s" "blocked_on (link_queue n pos s) = blocked_on s"
  "prio_passed_to (link_queue n pos s) = prio_passed_to s" "sems (link_queue n pos s) = sems s"
  "rnext (link_queue n pos s) = rnext s" "rprev (link_queue n pos s) = rprev s"
  "is_hard (link_queue n pos s) = is_hard s" "rt_current (link_queue n pos s) = rt_current s"
  by (simp_all add: link_queue_def)

lemma unlink_queue_simps [simp]:
  "qnext (unlink_queue n s) = unlink_nx (qnext s) (qprev s) n"
  "qprev (unlink_queue n s) = unlink_pv (qnext s) (qprev s) n"
  "qtask (unlink_queue n s) = qtask s" "priority (unlink_queue n s) = priority s"
  "state (unlink_queue n s) = state s" "blocked_on (unlink_queue n s) = blocked_on s"
  "prio_passed_to (unlink_queue n s) = prio_passed_to s" "sems (unlink_queue n s) = sems s"
  "rnext (unlink_queue n s) = rnext s" "rprev (unlink_queue n s) = rprev s"
  "is_hard (unlink_queue n s) = is_hard s" "rt_current (unlink_queue n s) = rt_current s"
  by (simp_all add: unlink_queue_def)

lemma insert_after_while_map:
  "insert_after_while p (f y) (map f xs) = map f (insert_after_while (\<lambda>x. p (f x)) y xs)"
  by (simp add: insert_after_while_def takeWhile_map dropWhile_map comp_def)

lemma queue_list_heads: "queue_list s h ts \<Longrightarrow> h \<notin> TaskQ ` set ts \<and> distinct ts"
  by (auto simp: queue_list_def ring_def distinct_map)

subsection \<open>Other rings of the same link fields\<close>

lemma ring_link_other:
  assumes "ring nx pv h xs" and "y \<notin> set (h # xs)" and "pos \<notin> set (h # xs)"
    and "pv pos \<notin> set (h # xs)"
  shows "ring (link_nx nx pv y pos) (link_pv pv y pos) h xs"
  using assms by (auto simp: ring_def link_nx_def link_pv_def)

lemma ring_unlink_other:
  assumes "ring nx pv h xs" and "nx y \<notin> set (h # xs)" and "pv y \<notin> set (h # xs)"
  shows "ring (unlink_nx nx pv y) (unlink_pv nx pv y) h xs"
  using assms by (auto simp: ring_def unlink_nx_def unlink_pv_def)

lemma ring_neighbours:
  assumes "ring nx pv h xs" and "y \<in> set (h # xs)"
  shows "nx y \<in> set (h # xs)" and "pv y \<in> set (h # xs)"
proof -
  have "\<forall>a. links nx pv a ys b \<longrightarrow> (\<forall>y \<in> set (a # ys). nx y \<in> set (ys @ [b]))" for ys b
    by (induction ys) auto
  then show "nx y \<in> set (h # xs)"
    using assms by (fastforce simp: ring_def)
  have "\<forall>a. links nx pv a ys b \<longrightarrow> (\<forall>y \<in> set (ys @ [b]). pv y \<in> set (a # ys))" for ys b
    by (induction ys) auto
  then show "pv y \<in> set (h # xs)"
    using assms by (fastforce simp: ring_def)
qed

lemma blocked_queues_disjoint:
  "blocked_queues s H qs \<Longrightarrow> h \<in> H \<Longrightarrow> h' \<in> H \<Longrightarrow> h \<noteq> h' \<Longrightarrow> x \<in> set (qs h) \<Longrightarrow> x \<notin> set (qs h')"
  unfolding blocked_queues_def by blast

lemma queues_disjoint_nodes:
  assumes "blocked_queues s H qs" and "h \<in> H" and "h' \<in> H" and "h \<noteq> h'"
  shows "set (h # map TaskQ (qs h)) \<inter> set (h' # map TaskQ (qs h')) = {}"
proof -
  have "H \<inter> range TaskQ = {}" using assms(1) by (simp add: blocked_queues_def)
  then show ?thesis
    using assms blocked_queues_disjoint [OF assms] by auto
qed

section \<open>Queueing and dequeueing\<close>

lemma blocked_pos_links:
  "links (qnext s) pv a (map TaskQ ts) h \<Longrightarrow> \<forall>t \<in> set ts. qtask s (TaskQ t) = Task t \<Longrightarrow>
     h \<notin> TaskQ ` set ts \<Longrightarrow>
     blocked_pos s h p (qnext s a) = Some (hd (map TaskQ (dropWhile (\<lambda>t. priority s t \<le> p) ts) @ [h]))"
proof (induction ts arbitrary: a)
  case Nil
  then show ?case by (subst blocked_pos.simps) simp
next
  case (Cons t ts)
  have "blocked_pos s h p (qnext s a) =
      (if priority s t \<le> p then blocked_pos s h p (qnext s (TaskQ t)) else Some (TaskQ t))"
    using Cons.prems by (subst blocked_pos.simps) auto
  then show ?case using Cons.IH [of "TaskQ t"] Cons.prems by auto
qed

lemma blocked_pos_eq:
  "queue_list s h ts \<Longrightarrow>
     blocked_pos s h p (qnext s h) = Some (hd (map TaskQ (dropWhile (\<lambda>t. priority s t \<le> p) ts) @ [h]))"
  using blocked_pos_links [of s "qprev s" h ts h p] queue_list_heads [of s h ts]
  by (auto simp: queue_list_def ring_def)

lemma queue_list_link:
  assumes q: "queue_list s h ts" and t: "t \<notin> set ts" "TaskQ t \<noteq> h" "qtask s (TaskQ t) = Task t"
  shows "queue_list (link_queue (TaskQ t) (hd (map TaskQ (dropWhile (\<lambda>x. priority s x \<le> p) ts) @ [h])) s)
           h (queue_insert s p t ts)"
    and "queue_list (link_queue (TaskQ t) h s) h (ts @ [t])"
proof -
  have r: "ring (qnext s) (qprev s) h (map TaskQ ts)" and n: "TaskQ t \<notin> set (h # map TaskQ ts)"
    using q t by (auto simp: queue_list_def)
  let ?P = "\<lambda>n. case n of TaskQ x \<Rightarrow> priority s x \<le> p | _ \<Rightarrow> False"
  have m: "insert_after_while ?P (TaskQ t) (map TaskQ ts) = map TaskQ (queue_insert s p t ts)"
    by (simp add: insert_after_while_map)
  have d: "dropWhile ?P (map TaskQ ts) = map TaskQ (dropWhile (\<lambda>x. priority s x \<le> p) ts)"
    by (simp add: dropWhile_map comp_def)
  show "queue_list (link_queue (TaskQ t) (hd (map TaskQ (dropWhile (\<lambda>x. priority s x \<le> p) ts) @ [h])) s)
           h (queue_insert s p t ts)"
    using ring_insert_after_while [OF r n refl, of ?P] q t(3) unfolding m d
    by (auto simp: queue_list_def)
  show "queue_list (link_queue (TaskQ t) h s) h (ts @ [t])"
    using ring_link [of "qnext s" "qprev s" h "map TaskQ ts" "[]" "TaskQ t" h] r n q t(3)
    by (auto simp: queue_list_def)
qed

lemma queue_list_unlink:
  assumes q: "queue_list s h ts" and t: "t \<in> set ts"
  shows "queue_list (unlink_queue (TaskQ t) s) h (remove1 t ts)"
proof -
  have "remove1 (TaskQ t) (map TaskQ ts) = map TaskQ (remove1 t ts)"
    by (induction ts) auto
  then show ?thesis
    using ring_unlink_remove1 [of "qnext s" "qprev s" h "map TaskQ ts" "TaskQ t"] q t
      set_remove1_subset [of t ts] by (auto simp: queue_list_def)
qed

lemma blocked_queues_updI:
  assumes b: "blocked_queues s H qs" and "queue_list s' h ts"
    and "\<And>h'. h' \<in> H \<Longrightarrow> h' \<noteq> h \<Longrightarrow> queue_list s' h' (qs h')"
    and d: "\<And>h'. h' \<in> H \<Longrightarrow> h' \<noteq> h \<Longrightarrow> set ts \<inter> set (qs h') = {}"
  shows "blocked_queues s' H (qs(h := ts))"
  unfolding blocked_queues_def
proof (intro conjI ballI impI)
  show "H \<inter> range TaskQ = {}" using b by (simp add: blocked_queues_def)
  show "queue_list s' h' ((qs(h := ts)) h')" if "h' \<in> H" for h'
    using assms(2,3) that by simp
  show "set ((qs(h := ts)) h1) \<inter> set ((qs(h := ts)) h2) = {}"
    if "h1 \<in> H" "h2 \<in> H" "h1 \<noteq> h2" for h1 h2
    using b d [of h1] d [of h2] that by (auto simp: blocked_queues_def Int_commute)
qed

text \<open>Queueing a task that is in no queue, and taking one out, with all the queues.\<close>

lemma blocked_queues_link:
  assumes b: "blocked_queues s H qs" and h: "h \<in> H" and t: "\<forall>h' \<in> H. t \<notin> set (qs h')"
    and pos: "pos \<in> set (h # map TaskQ (qs h))"
    and q: "queue_list (link_queue (TaskQ t) pos s) h ts" "set ts = insert t (set (qs h))"
  shows "blocked_queues (link_queue (TaskQ t) pos s) H (qs(h := ts))"
proof -
  have r: "ring (qnext s) (qprev s) h (map TaskQ (qs h))" and ht: "H \<inter> range TaskQ = {}"
    using b h by (auto simp: blocked_queues_def queue_list_def)
  have "queue_list (link_queue (TaskQ t) pos s) h' (qs h')" if "h' \<in> H" "h' \<noteq> h" for h'
  proof -
    have "set (h # map TaskQ (qs h)) \<inter> set (h' # map TaskQ (qs h')) = {}"
      using queues_disjoint_nodes [OF b h that(1)] that(2) by simp
    moreover have "qprev s pos \<in> set (h # map TaskQ (qs h))"
      by (rule ring_neighbours(2) [OF r pos])
    moreover have "ring (qnext s) (qprev s) h' (map TaskQ (qs h'))"
      and "TaskQ t \<notin> set (h' # map TaskQ (qs h'))"
      using b that ht t by (auto simp: blocked_queues_def queue_list_def)
    ultimately have "ring (link_nx (qnext s) (qprev s) (TaskQ t) pos)
        (link_pv (qprev s) (TaskQ t) pos) h' (map TaskQ (qs h'))"
      using pos by (blast intro: ring_link_other)
    then show ?thesis
      using b that by (simp add: queue_list_def blocked_queues_def)
  qed
  moreover have "set ts \<inter> set (qs h') = {}" if "h' \<in> H" "h' \<noteq> h" for h'
    using q(2) t blocked_queues_disjoint [OF b h that(1)] that by auto
  ultimately show ?thesis
    using q(1) by (blast intro: blocked_queues_updI [OF b])
qed

lemma blocked_queues_unlink:
  assumes b: "blocked_queues s H qs" and h: "h \<in> H" and t: "t \<in> set (qs h)"
  shows "blocked_queues (unlink_queue (TaskQ t) s) H (qs(h := remove1 t (qs h)))"
proof -
  have q: "queue_list s h (qs h)" and r: "ring (qnext s) (qprev s) h (map TaskQ (qs h))"
    using b h by (auto simp: blocked_queues_def queue_list_def)
  have "queue_list (unlink_queue (TaskQ t) s) h' (qs h')" if "h' \<in> H" "h' \<noteq> h" for h'
  proof -
    have "set (h # map TaskQ (qs h)) \<inter> set (h' # map TaskQ (qs h')) = {}"
      using queues_disjoint_nodes [OF b h that(1)] that(2) by simp
    moreover have "qprev s (TaskQ t) \<in> set (h # map TaskQ (qs h))"
      and "qnext s (TaskQ t) \<in> set (h # map TaskQ (qs h))"
      using ring_neighbours [OF r, of "TaskQ t"] t by simp_all
    moreover have "ring (qnext s) (qprev s) h' (map TaskQ (qs h'))"
      using b that by (auto simp: blocked_queues_def queue_list_def)
    ultimately have "ring (unlink_nx (qnext s) (qprev s) (TaskQ t))
        (unlink_pv (qnext s) (qprev s) (TaskQ t)) h' (map TaskQ (qs h'))"
      by (blast intro: ring_unlink_other)
    then show ?thesis
      using b that by (simp add: queue_list_def blocked_queues_def)
  qed
  moreover have "set (remove1 t (qs h)) \<inter> set (qs h') = {}" if "h' \<in> H" "h' \<noteq> h" for h'
    using set_remove1_subset [of t "qs h"] blocked_queues_disjoint [OF b h that(1)] that(2) by blast
  ultimately show ?thesis
    using queue_list_unlink [OF q t] by (blast intro: blocked_queues_updI [OF b])
qed

lemma hd_map_dropWhile_in: "hd (map f (dropWhile p xs) @ [h]) \<in> set (h # map f xs)"
  by (induction xs) auto

lemma enqueue_blocked_eq:
  assumes b: "blocked_queues s H qs" and h: "h \<in> H" and t: "\<forall>h' \<in> H. t \<notin> set (qs h')"
    and tq: "qtask s (TaskQ t) = Task t"
  shows "\<exists>pos. enqueue_blocked t h qt s =
        Some (link_queue (TaskQ t) pos (s\<lparr>blocked_on := (blocked_on s)(t := Some h)\<rparr>))
     \<and> blocked_queues (link_queue (TaskQ t) pos (s\<lparr>blocked_on := (blocked_on s)(t := Some h)\<rparr>)) H
         (qs(h := if qt = 0 then queue_insert s (priority s t) t (qs h) else qs h @ [t]))"
proof -
  let ?s = "s\<lparr>blocked_on := (blocked_on s)(t := Some h)\<rparr>"
  have b': "blocked_queues ?s H qs"
    using b by (simp add: blocked_queues_def queue_list_def)
  have q: "queue_list ?s h (qs h)" and th: "TaskQ t \<noteq> h"
    using b' h by (auto simp: blocked_queues_def)
  have tn: "t \<notin> set (qs h)" and tq': "qtask ?s (TaskQ t) = Task t" using h t tq by auto
  note l = queue_list_link(1) [OF q tn th tq', of "priority s t"] queue_list_link(2) [OF q tn th tq']
  note i = hd_map_dropWhile_in [of TaskQ "\<lambda>x. priority s x \<le> priority s t" "qs h" h]
  show ?thesis
  proof (cases "qt = 0")
    case True
    then show ?thesis
      using blocked_pos_eq [OF q, of "priority s t"] blocked_queues_link [OF b' h t i] l(1) h t tq
      by (intro exI [of _ "hd (map TaskQ (dropWhile (\<lambda>x. priority s x \<le> priority s t) (qs h)) @ [h])"])
        (simp add: enqueue_blocked_def Let_def)
  next
    case False
    then show ?thesis
      using blocked_queues_link [OF b' h t, of h "qs h @ [t]"] l(2) h t tq
      by (intro exI [of _ h]) (simp add: enqueue_blocked_def Let_def)
  qed
qed

lemma dequeue_blocked_queues:
  assumes "blocked_queues s H qs" and "h \<in> H" and "t \<in> set (qs h)"
  shows "blocked_queues (dequeue_blocked t s) H (qs(h := remove1 t (qs h)))"
proof -
  have "blocked_queues (s\<lparr>prio_passed_to := (prio_passed_to s)(t := None)\<rparr>) H qs"
    using assms(1) by (simp add: blocked_queues_def queue_list_def)
  from blocked_queues_unlink [OF this assms(2,3)] show ?thesis
    by (simp add: dequeue_blocked_def Let_def blocked_queues_def queue_list_def)
qed

lemma dequeue_blocked_simps [simp]:
  "blocked_on (dequeue_blocked t s) = (blocked_on s)(t := None)"
  "prio_passed_to (dequeue_blocked t s) = (prio_passed_to s)(t := None)"
  "state (dequeue_blocked t s) = state s" "priority (dequeue_blocked t s) = priority s"
  "rnext (dequeue_blocked t s) = rnext s" "rprev (dequeue_blocked t s) = rprev s"
  "tnext (dequeue_blocked t s) = tnext s" "tprev (dequeue_blocked t s) = tprev s"
  "is_hard (dequeue_blocked t s) = is_hard s" "sems (dequeue_blocked t s) = sems s"
  "rt_current (dequeue_blocked t s) = rt_current s" "qtask (dequeue_blocked t s) = qtask s"
  "resume_time (dequeue_blocked t s) = resume_time s" "policy (dequeue_blocked t s) = policy s"
  "owndres (dequeue_blocked t s) = owndres s" "base_priority (dequeue_blocked t s) = base_priority s"
  "suspdepth (dequeue_blocked t s) = suspdepth s" "magic (dequeue_blocked t s) = magic s"
  "lnxtsk (dequeue_blocked t s) = lnxtsk s"
  by (simp_all add: dequeue_blocked_def Let_def unlink_queue_def)

lemma requeue_blocked_eq:
  assumes b: "blocked_queues s H qs" and h: "h \<in> H" and t: "t \<in> set (qs h)"
  shows "\<exists>pos. requeue_blocked t h s = Some (link_queue (TaskQ t) pos (unlink_queue (TaskQ t) s))
     \<and> blocked_queues (link_queue (TaskQ t) pos (unlink_queue (TaskQ t) s)) H
         (qs(h := queue_insert s (priority s t) t (remove1 t (qs h))))"
proof -
  let ?s = "unlink_queue (TaskQ t) s" and ?qs = "qs(h := remove1 t (qs h))"
  let ?pos = "hd (map TaskQ (dropWhile (\<lambda>x. priority s x \<le> priority s t) (?qs h)) @ [h])"
  have b': "blocked_queues ?s H ?qs"
    by (rule blocked_queues_unlink [OF b h t])
  have q: "queue_list ?s h (?qs h)" and th: "TaskQ t \<noteq> h" and d: "distinct (qs h)"
    and tq: "qtask ?s (TaskQ t) = Task t"
    using b' b h t queue_list_heads [of s h "qs h"] by (auto simp: blocked_queues_def queue_list_def)
  have n: "\<forall>h' \<in> H. t \<notin> set (?qs h')"
    using d t blocked_queues_disjoint [OF b h] by auto
  have tn: "t \<notin> set (?qs h)" using n h by blast
  have i: "?pos \<in> set (h # map TaskQ (?qs h))"
    by (rule hd_map_dropWhile_in)
  have "queue_list (link_queue (TaskQ t) ?pos ?s) h (queue_insert s (priority s t) t (?qs h))"
    using queue_list_link(1) [OF q tn th tq, of "priority s t"] by simp
  from blocked_queues_link [OF b' h n i this] have
    "blocked_queues (link_queue (TaskQ t) ?pos ?s) H (qs(h := queue_insert s (priority s t) t (remove1 t (qs h))))"
    by (simp only: fun_upd_upd fun_upd_same set_insert_after_while)
  moreover have "requeue_blocked t h s = Some (link_queue (TaskQ t) ?pos ?s)"
    using blocked_pos_eq [OF q, of "priority s t"] by (simp add: requeue_blocked_def Let_def)
  ultimately show ?thesis by auto
qed

section \<open>Priority inheritance\<close>

text \<open>
  \<open>prio_wf s rq H qs T\<close>: the tasks of the finite set \<open>T\<close> are where their state says they are, in
  the ready list when they are ready and otherwise in the queue they are blocked on, and the
  chains of \<^verbatim>\<open>prio_passed_to\<close> stay inside \<open>T\<close>.
\<close>

definition prio_wf :: "kst \<Rightarrow> tid list \<Rightarrow> qnode set \<Rightarrow> (qnode \<Rightarrow> tid list) \<Rightarrow> tid set \<Rightarrow> bool" where
  "prio_wf s rq H qs T \<longleftrightarrow> ready_list s rq \<and> in_prio_order s rq \<and> blocked_queues s H qs
     \<and> finite T \<and> LINUX \<notin> T
     \<and> (\<forall>t \<in> T. (t \<in> set rq \<longleftrightarrow> state s t = READY) \<and> is_hard s t \<noteq> 0
          \<and> (\<forall>u. prio_passed_to s t = Some u \<longrightarrow> u \<in> T)
          \<and> (\<forall>q. state s t \<noteq> READY \<longrightarrow> blocked_on s t = Some q \<longrightarrow> q \<in> H \<and> t \<in> set (qs q)
               \<and> (state s t AND SEMAPHORE \<noteq> 0 \<longrightarrow> (\<exists>sem. q = SemQ sem))))"

text \<open>Every task that another one waits for is at least as urgent as the task that waits.\<close>

definition inherited :: "kst \<Rightarrow> tid set \<Rightarrow> bool" where
  "inherited s T \<longleftrightarrow> (\<forall>t \<in> T. \<forall>u. prio_passed_to s t = Some u \<longrightarrow> priority s u \<le> priority s t)"

lemma ready_list_set_prio:
  assumes "ready_list s rq" and "t \<noteq> LINUX" and "0 \<le> p"
  shows "ready_list (s\<lparr>priority := (priority s)(t := p)\<rparr>) rq"
  using assms by (auto simp: ready_list_def)

lemma in_prio_order_set_prio:
  assumes "in_prio_order s rq" and "t \<notin> set rq"
  shows "in_prio_order (s\<lparr>priority := (priority s)(t := p)\<rparr>) rq"
  using assms(1) unfolding in_prio_order_def
  by (rule sorted_wrt_mono_rel [rotated]) (use assms(2) in auto)

lemma in_prio_order_cong: "priority s' = priority s \<Longrightarrow> in_prio_order s' = in_prio_order s"
  by (simp add: in_prio_order_def)

lemma hard_task_cong:
  "priority s' = priority s \<Longrightarrow> is_hard s' = is_hard s \<Longrightarrow> hard_task s' = hard_task s"
  by (simp add: hard_task_def fun_eq_iff)

text \<open>Moving a ready task to the place of a new priority.\<close>

lemma requeue_ready_eq:
  assumes r: "ready_list s rq" and o: "in_prio_order s rq" and t: "t \<in> set rq" "is_hard s t \<noteq> 0"
    and p: "0 \<le> p" "p < RT_LINUX_PRIORITY"
  shows "\<exists>pos rq'. enq_ready_task t (unlink_ready t (s\<lparr>priority := (priority s)(t := p)\<rparr>)) =
        Some (link_ready t pos (unlink_ready t (s\<lparr>priority := (priority s)(t := p)\<rparr>)))
     \<and> ready_list (link_ready t pos (unlink_ready t (s\<lparr>priority := (priority s)(t := p)\<rparr>))) rq'
     \<and> in_prio_order (s\<lparr>priority := (priority s)(t := p)\<rparr>) rq' \<and> set rq' = set rq"
proof -
  let ?s1 = "s\<lparr>priority := (priority s)(t := p)\<rparr>"
  let ?s2 = "unlink_ready t ?s1" and ?r2 = "remove1 t rq"
  have d: "distinct rq" "LINUX \<notin> set rq"
    using ring_distinct [of "rnext s" "rprev s" LINUX rq] r by (simp_all add: ready_list_def)
  have nl: "t \<noteq> LINUX" using t(1) d(2) by metis
  then have "ready_list ?s1 rq"
    by (rule ready_list_set_prio [OF r _ p(1)])
  then have r2: "ready_list ?s2 ?r2"
    by (rule ready_list_unlink [OF _ t(1)])
  have h2: "hard_task ?s2 t" and n2: "t \<notin> set (LINUX # ?r2)"
    using t p d nl by (auto simp: hard_task_def)
  have "in_prio_order s ?r2"
    using o sorted_wrt_remove1 by (auto simp: in_prio_order_def)
  then have "in_prio_order ?s1 ?r2"
    using in_prio_order_set_prio d(1) by auto
  then have "in_prio_order ?s1 (ready_insert ?s2 t ?r2)"
    using in_prio_order_insert [of ?s1 ?r2 t] by simp
  moreover have "set (ready_insert ?s2 t ?r2) = set rq"
    using t(1) d(1) by auto
  ultimately show ?thesis
    using enq_ready_task_eq [OF r2 h2] ready_list_link [OF r2 h2 n2] by blast
qed

lemma inherit_prio_ok:
  assumes wf: "prio_wf s rq H qs T" and t: "t \<in> T" and p: "0 \<le> p" "p < RT_LINUX_PRIORITY"
  shows "\<exists>b s' rq' qs'. inherit_prio t p s = Some (b, s') \<and> prio_wf s' rq' H qs' T
     \<and> priority s' = (priority s)(t := p) \<and> prio_passed_to s' = prio_passed_to s
     \<and> state s' = state s \<and> set rq' = set rq \<and> (\<forall>h. set (qs' h) = set (qs h))"
proof -
  let ?s = "s\<lparr>priority := (priority s)(t := p)\<rparr>"
  have r: "ready_list s rq" "in_prio_order s rq" and b: "blocked_queues s H qs"
    and hard: "is_hard s t \<noteq> 0" and "LINUX \<notin> T"
    using wf t by (simp_all add: prio_wf_def)
  then have nl: "t \<noteq> LINUX" using t by metis
  have b': "blocked_queues ?s H qs"
    using b by (simp add: blocked_queues_def queue_list_def)
  show ?thesis
  proof (cases "state s t = READY")
    case True
    then have tr: "t \<in> set rq" using wf t by (auto simp: prio_wf_def)
    obtain pos rq' where e: "enq_ready_task t (unlink_ready t ?s) = Some (link_ready t pos (unlink_ready t ?s))"
      "ready_list (link_ready t pos (unlink_ready t ?s)) rq'" "in_prio_order ?s rq'" "set rq' = set rq"
      using requeue_ready_eq [OF r tr hard p] by blast
    have "prio_wf (link_ready t pos (unlink_ready t ?s)) rq' H qs T"
      using wf e(2,3,4) b' unfolding prio_wf_def
      by (simp add: in_prio_order_def blocked_queues_def queue_list_def)
    then show ?thesis
      using True e by (intro exI [of _ True] exI [of _ "link_ready t pos (unlink_ready t ?s)"]
        exI [of _ rq'] exI [of _ qs]) (simp add: inherit_prio_def Let_def)
  next
    case False
    then have o: "in_prio_order ?s rq" and r': "ready_list ?s rq"
      using in_prio_order_set_prio [OF r(2)] ready_list_set_prio [OF r(1) nl p(1)] wf t
      by (auto simp: prio_wf_def)
    have wf': "prio_wf ?s rq H qs T"
      using wf o r' b' unfolding prio_wf_def by simp
    show ?thesis
    proof (cases "blocked_on s t")
      case None
      then show ?thesis
        using False wf' by (intro exI [of _ False] exI [of _ ?s] exI [of _ rq] exI [of _ qs])
          (simp add: inherit_prio_def Let_def)
    next
      case (Some q)
      have q: "q \<in> H" "t \<in> set (qs q)" and sq: "state s t AND SEMAPHORE \<noteq> 0 \<Longrightarrow> \<exists>sem. q = SemQ sem"
        using wf t False Some by (auto simp: prio_wf_def)
      obtain ord where ord: "prio_ordered ?s t q = Some ord"
        using sq by (cases "state s t AND SEMAPHORE = 0") (fastforce simp: prio_ordered_def)+
      obtain pos where e: "requeue_blocked t q ?s = Some (link_queue (TaskQ t) pos (unlink_queue (TaskQ t) ?s))"
        "blocked_queues (link_queue (TaskQ t) pos (unlink_queue (TaskQ t) ?s)) H
           (qs(q := queue_insert ?s (priority ?s t) t (remove1 t (qs q))))"
        using requeue_blocked_eq [OF b' q] by blast
      have sets: "\<forall>h. set ((qs(q := queue_insert ?s (priority ?s t) t (remove1 t (qs q)))) h) = set (qs h)"
        using q b queue_list_heads [of s q "qs q"] by (auto simp: blocked_queues_def)
      let ?s' = "link_queue (TaskQ t) pos (unlink_queue (TaskQ t) ?s)"
      let ?qs = "qs(q := queue_insert ?s (priority ?s t) t (remove1 t (qs q)))"
      have wf'': "prio_wf ?s' rq H ?qs T"
        using wf' e(2) sets unfolding prio_wf_def
        by (simp add: in_prio_order_def ready_list_def del: fun_upd_apply)
      show ?thesis
      proof (cases ord)
        case True
        have "inherit_prio t p s = Some (False, ?s')"
          using False Some ord e(1) True by (simp add: inherit_prio_def Let_def)
        then show ?thesis using wf'' sets
          by (intro exI [of _ False] exI [of _ ?s'] exI [of _ rq] exI [of _ ?qs] conjI) simp_all
      next
        case False': False
        have "inherit_prio t p s = Some (False, ?s)"
          using False Some ord False' by (simp add: inherit_prio_def Let_def)
        then show ?thesis using wf'
          by (intro exI [of _ False] exI [of _ ?s] exI [of _ rq] exI [of _ qs] conjI) simp_all
      qed
    qed
  qed
qed

text \<open>What the propagation leaves as it was: states, chains and the members of every queue.\<close>

definition inherit_post where
  "inherit_post s rq qs s' rq' qs' \<longleftrightarrow> state s' = state s \<and> prio_passed_to s' = prio_passed_to s
     \<and> set rq' = set rq \<and> (\<forall>h. set (qs' h) = set (qs h)) \<and> (\<forall>t. priority s' t \<le> priority s t)"

lemma inherit_post_refl: "inherit_post s rq qs s rq qs"
  by (simp add: inherit_post_def)

lemma inherit_post_trans:
  "inherit_post s rq qs s1 rq1 qs1 \<Longrightarrow> inherit_post s1 rq1 qs1 s2 rq2 qs2 \<Longrightarrow> inherit_post s rq qs s2 rq2 qs2"
  unfolding inherit_post_def by (blast intro: order_trans trans)

text \<open>The loop of \<^verbatim>\<open>pass_prio\<close> lowers the priority number of one more task in every round, so it ends,
  and the only link that may break the inheritance order on the way is the one it follows.\<close>

definition inherited_but :: "tid option \<Rightarrow> int \<Rightarrow> kst \<Rightarrow> tid set \<Rightarrow> bool" where
  "inherited_but to p s T \<longleftrightarrow> (\<forall>x \<in> T. \<forall>y. prio_passed_to s x = Some y \<longrightarrow>
     priority s y \<le> priority s x \<or> (to = Some y \<and> p \<le> priority s x))"

lemma inherited_but_step:
  assumes i: "inherited_but (Some t) p s T" and t: "p < priority s t"
    and pr: "priority s1 = (priority s)(t := p)" and pp: "prio_passed_to s1 = prio_passed_to s"
  shows "inherited_but (prio_passed_to s1 t) p s1 T"
  unfolding inherited_but_def
proof (intro ballI allI impI)
  fix x y assume x: "x \<in> T" "prio_passed_to s1 x = Some y"
  then have "priority s y \<le> priority s x \<or> (t = y \<and> p \<le> priority s x)"
    using i pp unfolding inherited_but_def by auto
  then show "priority s1 y \<le> priority s1 x \<or> (prio_passed_to s1 t = Some y \<and> p \<le> priority s1 x)"
    using x(2) t pr by (cases "x = t"; cases "y = t") auto
qed

lemma inherited_but_stop:
  assumes "inherited_but to p s T" and "\<nexists>t. to = Some t \<and> p < priority s t"
  shows "inherited s T"
  using assms unfolding inherited_but_def inherited_def by fastforce

lemma pass_loop_ok:
  assumes "prio_wf s rq H qs T" and "from \<in> T" and "0 \<le> priority s from"
    and "priority s from < RT_LINUX_PRIORITY" and "\<forall>t. to = Some t \<longrightarrow> t \<in> T"
    and "inherited_but to (priority s from) s T"
  shows "\<exists>b s' rq' qs'. pass_loop to from b0 s = Some (b, s') \<and> prio_wf s' rq' H qs' T
     \<and> inherited s' T \<and> priority s' from = priority s from \<and> inherit_post s rq qs s' rq' qs'"
  using assms
proof (induction "card {t \<in> T. priority s from < priority s t}" arbitrary: s to rq qs b0
    rule: less_induct)
  case less
  let ?p = "priority s from"
  show ?case
  proof (cases "\<exists>t. to = Some t \<and> ?p < priority s t")
    case False
    then have "pass_loop to from b0 s = Some (b0, s)"
      by (subst pass_loop.simps) (auto split: option.split)
    then show ?thesis
      using less.prems(1) inherited_but_stop [OF less.prems(6) False] inherit_post_refl by blast
  next
    case True
    then obtain t where t: "to = Some t" "?p < priority s t" by blast
    have tT: "t \<in> T" and ft: "from \<noteq> t" using less.prems(5) t by auto
    obtain b s1 rq1 qs1 where s1: "inherit_prio t ?p s = Some (b, s1)" "prio_wf s1 rq1 H qs1 T"
      "priority s1 = (priority s)(t := ?p)" "prio_passed_to s1 = prio_passed_to s"
      "state s1 = state s" "set rq1 = set rq" "\<forall>h. set (qs1 h) = set (qs h)"
      using inherit_prio_ok [OF less.prems(1) tT less.prems(3,4)] by blast
    have post: "inherit_post s rq qs s1 rq1 qs1"
      using s1(3-7) t(2) by (simp add: inherit_post_def)
    have pf: "priority s1 from = ?p" using s1(3) ft by simp
    have "finite T" using less.prems(1) by (simp add: prio_wf_def)
    then have c: "card {x \<in> T. priority s1 from < priority s1 x} < card {x \<in> T. ?p < priority s x}"
      using t(2) tT pf s1(3) by (intro psubset_card_mono) auto
    have n: "\<forall>u. prio_passed_to s1 t = Some u \<longrightarrow> u \<in> T"
      using s1(2) tT by (simp add: prio_wf_def)
    have i: "inherited_but (prio_passed_to s1 t) (priority s1 from) s1 T"
      using inherited_but_step [OF _ t(2) s1(3,4)] less.prems(6) t(1) pf by simp
    have pf': "0 \<le> priority s1 from" "priority s1 from < RT_LINUX_PRIORITY"
      using less.prems(3,4) pf by simp_all
    obtain b' s' rq' qs' where
      s': "pass_loop (prio_passed_to s1 t) from (b0 \<or> b) s1 = Some (b', s')" "prio_wf s' rq' H qs' T"
      "inherited s' T" "priority s' from = priority s1 from" "inherit_post s1 rq1 qs1 s' rq' qs'"
      using less.hyps [OF c s1(2) less.prems(2) pf' n i] by blast
    have "pass_loop to from b0 s = Some (b', s')"
      using t s1(1) s'(1) by (subst pass_loop.simps) simp
    then show ?thesis
      using s'(2,3,4) pf inherit_post_trans [OF post s'(5)] by metis
  qed
qed

theorem pass_prio_ok:
  assumes "prio_wf s rq H qs T" and "inherited s T" and "from \<in> T" and "to \<in> T"
    and "0 \<le> priority s from" and "priority s from < RT_LINUX_PRIORITY"
  shows "\<exists>b s' rq' qs'. pass_prio (Some to) from s = Some (b, s') \<and> prio_wf s' rq' H qs' T
     \<and> inherited s' T \<and> priority s' to \<le> priority s from \<and> priority s' from = priority s from
     \<and> set rq' = set rq \<and> (\<forall>h. set (qs' h) = set (qs h))"
proof -
  let ?s = "s\<lparr>prio_passed_to := (prio_passed_to s)(from := Some to)\<rparr>"
  have wf: "prio_wf ?s rq H qs T"
    using assms(1,4) unfolding prio_wf_def
    by (simp add: in_prio_order_def ready_list_def blocked_queues_def queue_list_def)
  have "inherited_but (Some to) (priority ?s from) ?s T"
    using assms(2) unfolding inherited_but_def inherited_def by simp
  from pass_loop_ok [OF wf assms(3) _ _ _ this, of False] assms(4,5,6)
  obtain b s' rq' qs' where s': "pass_loop (Some to) from False ?s = Some (b, s')"
    "prio_wf s' rq' H qs' T" "inherited s' T" "priority s' from = priority s from"
    "inherit_post ?s rq qs s' rq' qs'"
    by auto
  have "prio_passed_to s' from = Some to"
    using s'(5) by (simp add: inherit_post_def)
  then have "priority s' to \<le> priority s from"
    using s'(3,4) assms(3) unfolding inherited_def by fastforce
  then show ?thesis
    using s' unfolding pass_prio_def inherit_post_def by blast
qed

end
