(* ===== verification/Sched_Tasks.thy ===== *)
theory Sched_Tasks
  imports Sched_Invariant Sched_Blocked
begin

text \<open>
  The task services of the scheduler: creation and deletion, suspension and resumption,
  periodic and sleeping tasks, yielding, priorities, policies, the scheduler lock, rate
  monotonic priorities and the conversions between counts and nanoseconds.

  Of \<^verbatim>\<open>struct rt_task_struct\<close> the fields that only other modules read (trap handlers, message
  buffers, exit hooks, user space flags) are left out.
\<close>

section \<open>Module initialisation\<close>

text \<open>The state of the scheduler's data when \<^verbatim>\<open>init_module\<close> has set up the task of Linux.\<close>

definition init_linux_task :: "ltid \<Rightarrow> bool \<Rightarrow> bool \<Rightarrow> kst \<Rightarrow> kst" where
  "init_linux_task cur one_shot always s =
     s\<lparr>uses_fpu := (uses_fpu s)(LINUX := True), magic := (magic s)(LINUX := 0),
       policy := (policy s)(LINUX := 0), is_hard := (is_hard s)(LINUX := 0),
       state := (state s)(LINUX := READY),
       qprev := (qprev s)(MsgQ LINUX := MsgQ LINUX, RetQ LINUX := RetQ LINUX),
       qnext := (qnext s)(MsgQ LINUX := MsgQ LINUX, RetQ LINUX := RetQ LINUX),
       qtask := (qtask s)(MsgQ LINUX := Task LINUX, RetQ LINUX := NOTHING),
       msg := (msg s)(LINUX := 0),
       priority := (priority s)(LINUX := RT_LINUX_PRIORITY),
       base_priority := (base_priority s)(LINUX := RT_LINUX_PRIORITY),
       signal := (signal s)(LINUX := None), tsk_prev := (tsk_prev s)(LINUX := LINUX),
       resume_time := (resume_time s)(LINUX := RT_TIME_END),
       tprev := (tprev s)(LINUX := LINUX), tnext := (tnext s)(LINUX := LINUX),
       rprev := (rprev s)(LINUX := LINUX), rnext := (rnext s)(LINUX := LINUX),
       tsk_next := (tsk_next s)(LINUX := None), lnxtsk := (lnxtsk s)(LINUX := Some cur),
       rt_current := LINUX, fpu_task := LINUX,
       oneshot_timer := one_shot, oneshot_running := False, preempt_always := always\<rparr>"

definition init_tuned :: "int \<Rightarrow> int \<Rightarrow> kst \<Rightarrow> kst" where
  "init_tuned Latency SetupTimeTIMER s =
     (let f = cpu_freq (tuned s) in
      s\<lparr>tuned := (tuned s)\<lparr>latency := imuldiv Latency f 1000000000,
                          setup_time_TIMER_CPUNIT := imuldiv SetupTimeTIMER f 1000000000,
                          setup_time_TIMER_UNIT := imuldiv SetupTimeTIMER TIMER_FREQ 1000000000\<rparr>,
        frstk_srq := (frstk_srq s)\<lparr>k_in := 0, k_out := 0\<rparr>\<rparr>)"

section \<open>Creating tasks\<close>

text \<open>What \<^verbatim>\<open>set_rtext\<close> and \<^verbatim>\<open>rt_task_init_cpuid\<close> write alike.\<close>

definition init_task_fields :: "tid \<Rightarrow> int \<Rightarrow> bool \<Rightarrow> nat option \<Rightarrow> kst \<Rightarrow> kst" where
  "init_task_fields t prio fpu sig s =
     s\<lparr>uses_fpu := (uses_fpu s)(t := fpu), magic := (magic s)(t := RT_TASK_MAGIC),
       policy := (policy s)(t := 0), owndres := (owndres s)(t := 0),
       priority := (priority s)(t := prio), base_priority := (base_priority s)(t := prio),
       prio_passed_to := (prio_passed_to s)(t := None), period := (period s)(t := 0),
       resume_time := (resume_time s)(t := RT_TIME_END),
       qprev := (qprev s)(TaskQ t := TaskQ t, MsgQ t := MsgQ t, RetQ t := RetQ t),
       qnext := (qnext s)(TaskQ t := TaskQ t, MsgQ t := MsgQ t, RetQ t := RetQ t),
       qtask := (qtask s)(TaskQ t := Task t, MsgQ t := Task t, RetQ t := NOTHING),
       msg := (msg s)(t := 0),
       tprev := (tprev s)(t := t), tnext := (tnext s)(t := t),
       rprev := (rprev s)(t := t), rnext := (rnext s)(t := t),
       blocked_on := (blocked_on s)(t := None), signal := (signal s)(t := sig),
       resync_frame := (resync_frame s)(t := False), exectime := (exectime s)(t := 0),
       tasks_per_cpu := tasks_per_cpu s + 1\<rparr>"

text \<open>Appending a task to the list of all tasks, which starts at the task of Linux.\<close>

definition append_task :: "tid \<Rightarrow> kst \<Rightarrow> kst" where
  "append_task t s =
     (let s1 = s\<lparr>tsk_next := (tsk_next s)(t := None)\<rparr>;
          s2 = s1\<lparr>tsk_next := (tsk_next s1)(tsk_prev s1 LINUX := Some t)\<rparr>;
          s3 = s2\<lparr>tsk_prev := (tsk_prev s2)(t := tsk_prev s2 LINUX)\<rparr> in
      s3\<lparr>tsk_prev := (tsk_prev s3)(LINUX := t)\<rparr>)"

definition set_rtext ::
  "tid \<Rightarrow> int \<Rightarrow> bool \<Rightarrow> nat option \<Rightarrow> nat \<Rightarrow> nat \<Rightarrow> ltid option \<Rightarrow> kst \<Rightarrow> int \<times> kst" where
  "set_rtext t prio fpu sig cpuid bottom relink s =
     (if magic s t = RT_TASK_MAGIC \<or> cpuid \<ge> 1 \<or> prio < 0 then (- EINVAL, s)
      else if wdog_task s \<noteq> None \<and> wdog_task s \<noteq> Some t \<and> prio = 0 then (- EBUSY, s)
      else
        let s1 = (init_task_fields t prio fpu sig s)
                   \<lparr>force_soft := (force_soft s)(t := False), stack_bottom := (stack_bottom s)(t := bottom),
                    stack_word := (stack_word s)(bottom := None)\<rparr>;
            s2 = (case relink of
                    Some l \<Rightarrow> s1\<lparr>suspdepth := (suspdepth s1)(t := 1), is_hard := (is_hard s1)(t := 1),
                                state := (state s1)(t := READY OR SUSPENDED),
                                lnxtsk := (lnxtsk s1)(t := Some l)\<rparr>
                  | None \<Rightarrow> s1\<lparr>suspdepth := (suspdepth s1)(t := 0), is_hard := (is_hard s1)(t := 0),
                             state := (state s1)(t := READY),
                             lnxtsk := (lnxtsk s1)(t := Some (lnx_current s1))\<rparr>) in
        (0, append_task t s2))"

text \<open>\<open>st\<close> is what \<^verbatim>\<open>sched_malloc(stack_size)\<close> returns.\<close>

definition rt_task_init_cpuid ::
  "tid \<Rightarrow> nat option \<Rightarrow> int \<Rightarrow> bool \<Rightarrow> nat option \<Rightarrow> nat \<Rightarrow> kst \<Rightarrow> int \<times> kst" where
  "rt_task_init_cpuid t st prio fpu sig cpuid s =
     (if magic s t = RT_TASK_MAGIC \<or> cpuid \<ge> 1 \<or> prio < 0 then (- EINVAL, s)
      else (case st of
              None \<Rightarrow> (- ENOMEM, s)
            | Some stack \<Rightarrow>
                if wdog_task s \<noteq> None \<and> wdog_task s \<noteq> Some t \<and> prio = 0 then (- EBUSY, s)
                else
                  let s1 = init_task_fields t prio fpu sig s;
                      s2 = s1\<lparr>stack_bottom := (stack_bottom s1)(t := stack), stack_word := (stack_word s1)(stack := None),
                             suspdepth := (suspdepth s1)(t := 1),
                             state := (state s1)(t := SUSPENDED OR READY),
                             is_hard := (is_hard s1)(t := 1), lnxtsk := (lnxtsk s1)(t := None)\<rparr> in
                  (0, append_task t s2)))"

section \<open>Time\<close>

definition count2nano :: "kst \<Rightarrow> rtime \<Rightarrow> rtime" where
  "count2nano s counts =
     (let sign = counts > 0; c = (if sign then counts else - counts);
          v = (if oneshot_timer s then llimd c 1000000000 (cpu_freq (tuned s))
               else llimd c 1000000000 TIMER_FREQ) in
      if sign then v else - v)"

definition nano2count :: "kst \<Rightarrow> rtime \<Rightarrow> rtime" where
  "nano2count s ns =
     (let sign = ns > 0; n = (if sign then ns else - ns);
          v = (if oneshot_timer s then llimd n (cpu_freq (tuned s)) 1000000000
               else llimd n TIMER_FREQ 1000000000) in
      if sign then v else - v)"

definition rt_get_time :: "kst \<Rightarrow> rtime \<times> kst" where
  "rt_get_time s = (if oneshot_timer s then rdtsc s else (tick_time (times s), s))"

definition rt_get_time_ns :: "kst \<Rightarrow> rtime \<times> kst" where
  "rt_get_time_ns s =
     (if oneshot_timer s then let (t, s1) = rdtsc s in (llimd t 1000000000 (cpu_freq (tuned s)), s1)
      else (llimd (tick_time (times s)) 1000000000 TIMER_FREQ, s))"

definition rt_get_cpu_time_ns :: "kst \<Rightarrow> rtime \<times> kst" where
  "rt_get_cpu_time_ns s = (let (t, s1) = rdtsc s in (llimd t 1000000000 (cpu_freq (tuned s)), s1))"

partial_function (option) busy_wait :: "rtime \<Rightarrow> kst \<Rightarrow> kst option" where
  "busy_wait end_time s =
     (let (t, s1) = rdtsc s in if t < end_time then busy_wait end_time s1 else Some s1)"

declare busy_wait.simps [code]

definition rt_busy_sleep :: "int \<Rightarrow> kst \<Rightarrow> kst option" where
  "rt_busy_sleep ns s =
     (let (t, s1) = rdtsc s in busy_wait (t + llimd ns (cpu_freq (tuned s)) 1000000000) s1)"

section \<open>Policies, modes and flags\<close>

definition rt_set_sched_policy :: "tid \<Rightarrow> int \<Rightarrow> int \<Rightarrow> kst \<Rightarrow> kst" where
  "rt_set_sched_policy t pol rr_quantum_ns s =
     (let s1 = s\<lparr>policy := (policy s)(t := if pol \<noteq> 0 then 1 else 0)\<rparr> in
      if pol \<noteq> 0 then
        let q = to_int32 (nano2count s1 rr_quantum_ns);
            q' = (if (word_of_int q :: 32 word) AND 0xF0000000 \<noteq> 0 \<or> q = 0
                  then linux_tick (times s1) else q) in
        s1\<lparr>rr_quantum := (rr_quantum s1)(t := q'), rr_remaining := (rr_remaining s1)(t := q'),
           yield_time := (yield_time s1)(t := 0)\<rparr>
      else s1)"

definition rt_task_signal_handler :: "tid \<Rightarrow> nat option \<Rightarrow> kst \<Rightarrow> int \<times> kst" where
  "rt_task_signal_handler t handler s =
     (if magic s t \<noteq> RT_TASK_MAGIC then (- EINVAL, s)
      else (0, s\<lparr>signal := (signal s)(t := handler)\<rparr>))"

definition rt_task_use_fpu :: "tid \<Rightarrow> int \<Rightarrow> kst \<Rightarrow> int \<times> kst" where
  "rt_task_use_fpu t flag s =
     (if magic s t \<noteq> RT_TASK_MAGIC then (- EINVAL, s)
      else (0, s\<lparr>uses_fpu := (uses_fpu s)(t := flag \<noteq> 0)\<rparr>))"

definition rt_get_prio :: "tid \<Rightarrow> kst \<Rightarrow> int" where
  "rt_get_prio t s = (if magic s t \<noteq> RT_TASK_MAGIC then - EINVAL else base_priority s t)"

definition rt_get_inher_prio :: "tid \<Rightarrow> kst \<Rightarrow> int" where
  "rt_get_inher_prio t s = (if magic s t \<noteq> RT_TASK_MAGIC then - EINVAL else base_priority s t)"

section \<open>Yielding, suspending, resuming\<close>

text \<open>\<^verbatim>\<open>rt_schedule(); ... return v;\<close>\<close>

definition schedule_ret :: "nat \<Rightarrow> 'a \<Rightarrow> kst \<Rightarrow> 'a res" where
  "schedule_ret n v s = res_bind (rt_schedule n s) (\<lambda>_. Ret v)"

definition rt_task_yield :: "nat \<Rightarrow> kst \<Rightarrow> unit res" where
  "rt_task_yield n s =
     (let cur = rt_current s in
      lift_opt (seek (\<lambda>task. priority s cur = priority s task) (rnext s) (rnext s cur)) (\<lambda>task.
        if task \<noteq> rnext s cur
        then schedule_ret n () (link_ready cur task (unlink_ready cur s))
        else Ret () s))"

definition or_state :: "tid \<Rightarrow> 32 word \<Rightarrow> kst \<Rightarrow> kst" where
  "or_state t w s = s\<lparr>state := (state s)(t := state s t OR w)\<rparr>"

definition and_not_state :: "tid \<Rightarrow> 32 word \<Rightarrow> kst \<Rightarrow> kst" where
  "and_not_state t w s = s\<lparr>state := (state s)(t := state s t AND NOT w)\<rparr>"

definition rt_task_suspend :: "nat \<Rightarrow> tid option \<Rightarrow> kst \<Rightarrow> int res" where
  "rt_task_suspend n task s =
     (if task \<noteq> None \<and> magic s (the task) \<noteq> RT_TASK_MAGIC then Ret (- EINVAL) s
      else
        let t = (case task of None \<Rightarrow> rt_current s | Some t \<Rightarrow> t);
            s1 = s\<lparr>suspdepth := (suspdepth s)(t := suspdepth s t + 1)\<rparr> in
        if suspdepth s t = 0 \<and> owndres s t = 0 then
          lift_opt (rem_ready_task t s1) (\<lambda>s2.
            let s3 = or_state t SUSPENDED s2 in
            if t = rt_current s3 then schedule_ret n 0 s3 else Ret 0 s3)
        else Ret 0 s1)"

definition rt_task_resume :: "nat \<Rightarrow> tid \<Rightarrow> kst \<Rightarrow> int res" where
  "rt_task_resume n t s =
     (if magic s t \<noteq> RT_TASK_MAGIC then Ret (- EINVAL) s
      else
        let s1 = s\<lparr>suspdepth := (suspdepth s)(t := suspdepth s t - 1)\<rparr> in
        if suspdepth s1 t = 0 then
          let s2 = and_not_state t SUSPENDED (rem_timed_task t s1) in
          if state s2 t AND NOT DELAYED = READY
          then lift_opt (enq_ready_task t s2) (schedule_ret n 0)
          else Ret 0 s2
        else Ret 0 s1)"

section \<open>Timed tasks\<close>

text \<open>\<^verbatim>\<open>rt_task_make_periodic\<close> and its relative variant, from the assignment of the times on.\<close>

definition start_periodic :: "nat \<Rightarrow> tid \<Rightarrow> rtime \<Rightarrow> rtime \<Rightarrow> kst \<Rightarrow> int res" where
  "start_periodic n t start_time per s =
     (let s1 = s\<lparr>resume_time := (resume_time s)(t := start_time), period := (period s)(t := per),
                suspdepth := (suspdepth s)(t := 0)\<rparr> in
      lift_opt (if state s1 t AND DELAYED = 0 then do {
                  s2 \<leftarrow> rem_ready_task t s1;
                  enq_timed_task t (s2\<lparr>state := (state s2)(t := (state s2 t AND NOT SUSPENDED) OR DELAYED)\<rparr>)
                }
                else Some s1) (schedule_ret n 0))"

definition rt_task_make_periodic :: "nat \<Rightarrow> tid \<Rightarrow> rtime \<Rightarrow> rtime \<Rightarrow> kst \<Rightarrow> int res" where
  "rt_task_make_periodic n t start_time per s =
     (if magic s t \<noteq> RT_TASK_MAGIC then Ret (- EINVAL) s else start_periodic n t start_time per s)"

definition rt_task_make_periodic_relative_ns :: "nat \<Rightarrow> tid \<Rightarrow> rtime \<Rightarrow> rtime \<Rightarrow> kst \<Rightarrow> int res" where
  "rt_task_make_periodic_relative_ns n t start_delay per s =
     (if magic s t \<noteq> RT_TASK_MAGIC then Ret (- EINVAL) s
      else let (now, s1) = rt_get_time s in
        start_periodic n t (now + nano2count s start_delay) (nano2count s per) s1)"

text \<open>The current task waits for its \<^verbatim>\<open>resume_time\<close>.\<close>

definition delay_current :: "nat \<Rightarrow> kst \<Rightarrow> unit res" where
  "delay_current n s =
     (let cur = rt_current s in
      lift_opt (do {
        s1 \<leftarrow> rem_ready_current cur (or_state cur DELAYED s);
        enq_timed_task cur s1
      }) (schedule_ret n ()))"

definition rt_task_wait_period :: "nat \<Rightarrow> kst \<Rightarrow> unit res" where
  "rt_task_wait_period n s =
     (let cur = rt_current s in
      if resync_frame s cur then
        let (now, s1) = rt_get_time (s\<lparr>resync_frame := (resync_frame s)(cur := False)\<rparr>) in
        Ret () (s1\<lparr>resume_time := (resume_time s1)(cur := now)\<rparr>)
      else
        let s1 = s\<lparr>resume_time := (resume_time s)(cur := resume_time s cur + period s cur)\<rparr> in
        if resume_time s1 cur > rt_time_h s1 then delay_current n s1 else Ret () s1)"

definition rt_task_set_resume_end_times :: "nat \<Rightarrow> rtime \<Rightarrow> rtime \<Rightarrow> kst \<Rightarrow> unit res" where
  "rt_task_set_resume_end_times n resume end_time s =
     (let cur = rt_current s;
          r = (if resume > 0 then resume else resume_time s cur - resume);
          p = (if end_time > 0 then end_time else r - end_time) in
      delay_current n (s\<lparr>policy := (policy s)(cur := - 1), priority := (priority s)(cur := 0),
                        resume_time := (resume_time s)(cur := r), period := (period s)(cur := p)\<rparr>))"

definition rt_set_resume_time :: "nat \<Rightarrow> tid \<Rightarrow> rtime \<Rightarrow> kst \<Rightarrow> int res" where
  "rt_set_resume_time n t new_time s =
     (if magic s t \<noteq> RT_TASK_MAGIC then Ret (- EINVAL) s
      else if state s t AND DELAYED \<noteq> 0 then
        let s1 = s\<lparr>resume_time := (resume_time s)(t := new_time)\<rparr> in
        if tnext s1 t \<noteq> LINUX \<and> new_time - resume_time s1 (tnext s1 t) > 0
            \<or> new_time - resume_time s1 (tprev s1 t) < 0
        then lift_opt (enq_timed_task t (rem_timed_task t s1)) (schedule_ret n 0)
        else Ret (- ETIME) s1
      else Ret (- ETIME) s)"

definition rt_set_period :: "tid \<Rightarrow> rtime \<Rightarrow> kst \<Rightarrow> int \<times> kst" where
  "rt_set_period t new_period s =
     (if magic s t \<noteq> RT_TASK_MAGIC then (- EINVAL, s)
      else (0, s\<lparr>period := (period s)(t := new_period)\<rparr>))"

definition next_period :: "kst \<Rightarrow> rtime" where
  "next_period s = resume_time s (rt_current s) + period s (rt_current s)"

definition rt_sleep :: "nat \<Rightarrow> rtime \<Rightarrow> kst \<Rightarrow> unit res" where
  "rt_sleep n delay s =
     (let cur = rt_current s; (now, s1) = rt_get_time s;
          s2 = s1\<lparr>resume_time := (resume_time s1)(cur := now + delay)\<rparr> in
      if resume_time s2 cur > rt_time_h s2 then delay_current n s2 else Ret () s2)"

definition rt_sleep_until :: "nat \<Rightarrow> rtime \<Rightarrow> kst \<Rightarrow> unit res" where
  "rt_sleep_until n time s =
     (let cur = rt_current s; s1 = s\<lparr>resume_time := (resume_time s)(cur := time)\<rparr> in
      if resume_time s1 cur > rt_time_h s1 then delay_current n s1 else Ret () s1)"

definition rt_task_wakeup_sleeping :: "nat \<Rightarrow> tid \<Rightarrow> kst \<Rightarrow> int res" where
  "rt_task_wakeup_sleeping n t s =
     (if magic s t \<noteq> RT_TASK_MAGIC then Ret (- EINVAL) s
      else
        let s1 = rem_timed_task t s in
        if state s1 t \<noteq> READY then
          let s2 = and_not_state t DELAYED s1 in
          if state s2 t = READY then lift_opt (enq_ready_task t s2) (schedule_ret n 0) else Ret 0 s2
        else Ret 0 s1)"

section \<open>Priorities\<close>

text \<open>
  \<^verbatim>\<open>rt_spv_RMS\<close>: the inner loop looks for the not yet ordered periodic task of the shortest
  period, the outer one gives it the next priority, marking it with the priority \<open>-1\<close>; the last
  loop copies the new priorities.
\<close>

partial_function (option) rms_find :: "kst \<Rightarrow> tid \<Rightarrow> rtime \<Rightarrow> tid option \<Rightarrow> tid option option" where
  "rms_find s task per htask =
     (case tsk_next s task of
        None \<Rightarrow> Some htask
      | Some t \<Rightarrow>
          if priority s t \<ge> 0 \<and> policy s t \<ge> 0 \<and> period s t \<noteq> 0 \<and> period s t < per
          then rms_find s t (period s t) (Some t)
          else rms_find s t per htask)"

declare rms_find.simps [code]

partial_function (option) rms_assign :: "tid \<Rightarrow> int \<Rightarrow> kst \<Rightarrow> kst option" where
  "rms_assign task prio s =
     (case tsk_next s task of
        None \<Rightarrow> Some s
      | Some t \<Rightarrow> do {
          htask \<leftarrow> rms_find s LINUX RT_TIME_END None;
          (case htask of
             None \<Rightarrow> Some s
           | Some h \<Rightarrow> rms_assign t (prio + 1)
               (s\<lparr>priority := (priority s)(h := - 1), base_priority := (base_priority s)(h := prio)\<rparr>))
        })"

declare rms_assign.simps [code]

partial_function (option) rms_restore :: "tid \<Rightarrow> kst \<Rightarrow> kst option" where
  "rms_restore task s =
     (case tsk_next s task of
        None \<Rightarrow> Some s
      | Some t \<Rightarrow> rms_restore t
          (if priority s t < 0 then s\<lparr>priority := (priority s)(t := base_priority s t)\<rparr> else s))"

declare rms_restore.simps [code]

definition rt_spv_RMS :: "kst \<Rightarrow> kst option" where
  "rt_spv_RMS s = do { s1 \<leftarrow> rms_assign LINUX 0 s; rms_restore LINUX s1 }"

text \<open>
  The loop of \<^verbatim>\<open>rt_change_prio\<close>: it differs from the one of \<^verbatim>\<open>pass_prio\<close> in that it treats the
  first task in any case and asks for a reschedule also when it has moved a blocked task.
\<close>

definition moves_blocked :: "tid \<Rightarrow> kst \<Rightarrow> bool" where
  "moves_blocked t s \<longleftrightarrow> state s t \<noteq> READY
     \<and> (case blocked_on s t of None \<Rightarrow> False | Some q \<Rightarrow> prio_ordered s t q = Some True)"

partial_function (option) change_loop :: "tid \<Rightarrow> int \<Rightarrow> bool \<Rightarrow> kst \<Rightarrow> (bool \<times> kst) option" where
  "change_loop task prio schedmap s = do {
     (b, s1) \<leftarrow> inherit_prio task prio s;
     (let m = schedmap \<or> b \<or> moves_blocked task s in
      case prio_passed_to s1 task of
        None \<Rightarrow> Some (m, s1)
      | Some t \<Rightarrow> if priority s1 t > prio then change_loop t prio m s1 else Some (m, s1))
   }"

declare change_loop.simps [code]

text \<open>\<open>junk\<close> is the value of the local \<^verbatim>\<open>schedmap\<close>, which the function does not initialise.\<close>

definition rt_change_prio :: "nat \<Rightarrow> bool \<Rightarrow> tid \<Rightarrow> int \<Rightarrow> kst \<Rightarrow> int res" where
  "rt_change_prio n junk t prio s =
     (if magic s t \<noteq> RT_TASK_MAGIC \<or> prio < 0 then Ret (- EINVAL) s
      else
        let old = base_priority s t in
        if old = prio then Ret old s
        else
          let s1 = s\<lparr>base_priority := (base_priority s)(t := prio)\<rparr> in
          if prio < priority s1 t \<or> old = priority s1 t then
            lift_opt (change_loop t prio junk s1) (\<lambda>(schedmap, s2).
              if schedmap then schedule_ret n old s2 else Ret old s2)
          else Ret old s1)"

section \<open>Locking the scheduler\<close>

definition rt_sched_lock :: "kst \<Rightarrow> kst" where
  "rt_sched_lock s =
     (let cur = rt_current s in
      if priority s cur \<ge> 0 then
        s\<lparr>sched_lock_priority := (sched_lock_priority s)(cur := priority s cur),
          priority := (priority s)(cur := - 1), sched_rqsted := - 1\<rparr>
      else s\<lparr>priority := (priority s)(cur := priority s cur - 1)\<rparr>)"

definition rt_sched_unlock :: "nat \<Rightarrow> kst \<Rightarrow> unit res" where
  "rt_sched_unlock n s =
     (let cur = rt_current s in
      if priority s cur < 0 then
        let s1 = s\<lparr>priority := (priority s)(cur := priority s cur + 1)\<rparr> in
        if priority s1 cur = 0 then
          let s2 = s1\<lparr>priority := (priority s1)(cur := sched_lock_priority s1 cur)\<rparr> in
          lift_opt (if priority s2 cur \<noteq> RT_LINUX_PRIORITY
                    then enq_ready_task cur (unlink_ready cur s2) else Some s2) (\<lambda>s3.
            if sched_rqsted s3 > 0 then rt_schedule n s3 else Ret () s3)
        else Ret () s1
      else Ret () s)"

section \<open>Deleting tasks\<close>

text \<open>
  The loops of \<^verbatim>\<open>clr_rtext\<close> over the tasks that wait to send to the deleted task, and over
  those that wait for its return; \<open>w\<close> holds the state bits of that wait.
\<close>

partial_function (option) release_waiters :: "32 word \<Rightarrow> qnode \<Rightarrow> qnode \<Rightarrow> kst \<Rightarrow> kst option" where
  "release_waiters w head q s =
     (if q = head then Some s
      else (case qtask s q of
              Task t \<Rightarrow> do {
                s2 \<leftarrow> (let s1 = rem_timed_task t s in
                      if state s1 t \<noteq> READY then
                        let s2 = and_not_state t (w OR DELAYED) s1 in
                        if state s2 t = READY then enq_ready_task t s2 else Some s2
                      else Some s1);
                release_waiters w head (qnext s2 q) (s2\<lparr>blocked_on := (blocked_on s2)(t := None)\<rparr>)
              }
            | NULL \<Rightarrow> None
            | Num k \<Rightarrow> None))"

declare release_waiters.simps [code]

text \<open>A deleted task that is blocked on a semaphore gives back the count it had taken.\<close>

definition sem_uncount :: "semid \<Rightarrow> kst \<Rightarrow> kst" where
  "sem_uncount x s =
     (let c = sem_count (sems s x) + 1 in
      s\<lparr>sems := (sems s)(x := (sems s x)\<lparr>sem_count := if sem_type (sems s x) \<noteq> 0 \<and> c > 1 then 1 else c\<rparr>)\<rparr>)"

definition leave_queue :: "tid \<Rightarrow> kst \<Rightarrow> kst option" where
  "leave_queue t s =
     (case blocked_on s t of
        None \<Rightarrow> Some s
      | Some q \<Rightarrow>
          let s1 = unlink_queue (TaskQ t) s in
          if state s1 t AND SEMAPHORE \<noteq> 0 then
            (case q of SemQ x \<Rightarrow> Some (sem_uncount x s1) | _ \<Rightarrow> None)
          else Some s1)"

definition unlink_task :: "tid \<Rightarrow> kst \<Rightarrow> kst" where
  "unlink_task t s =
     (let s1 = s\<lparr>tsk_next := (tsk_next s)(tsk_prev s t := tsk_next s t)\<rparr> in
      case tsk_next s1 t of
        None \<Rightarrow> s1\<lparr>tsk_prev := (tsk_prev s1)(LINUX := tsk_prev s1 t)\<rparr>
      | Some m \<Rightarrow> s1\<lparr>tsk_prev := (tsk_prev s1)(m := tsk_prev s1 t)\<rparr>)"

definition free_stack :: "tid \<Rightarrow> kst \<Rightarrow> kst" where
  "free_stack t s =
     (if lnxtsk s t = None then
        s\<lparr>frstk_srq := (frstk_srq s)\<lparr>k_task := (k_task (frstk_srq s))(k_in (frstk_srq s) := stack_bottom s t),
                                    k_in := (k_in (frstk_srq s) + 1) mod MAX_SRQ\<rparr>,
          pends := pends s @ [PendFrstkSrq]\<rparr>
      else s)"

definition clr_rtext :: "nat \<Rightarrow> tid \<Rightarrow> kst \<Rightarrow> int res" where
  "clr_rtext n t s =
     (if magic s t \<noteq> RT_TASK_MAGIC \<or> priority s t = RT_LINUX_PRIORITY then Ret (- EINVAL) s
      else
        let cur = rt_current s in
        if owndres s t AND SEMHLF = 0 \<or> t = cur \<or> priority s cur = RT_LINUX_PRIORITY then
          lift_opt (do {
            s1 \<leftarrow> leave_queue t (rem_timed_task t s);
            s2 \<leftarrow> release_waiters (SEND OR RPC) (MsgQ t) (qnext s1 (MsgQ t)) s1;
            s3 \<leftarrow> release_waiters RETURN (RetQ t) (qnext s2 (RetQ t)) s2;
            (let s4 = unlink_task t s3;
                 s5 = (if fpu_task s4 = t then s4\<lparr>fpu_task := LINUX\<rparr> else s4);
                 s6 = free_stack t s5;
                 s7 = s6\<lparr>magic := (magic s6)(t := 0)\<rparr> in do {
               s8 \<leftarrow> rem_ready_task t s7;
               Some (s8\<lparr>state := (state s8)(t := 0), tasks_per_cpu := tasks_per_cpu s8 - 1\<rparr>)
             })
          }) (\<lambda>s9. if t = cur then schedule_ret n 0 s9 else Ret 0 s9)
        else Ret 0 (s\<lparr>suspdepth := (suspdepth s)(t := - 0x7FFFFFFF)\<rparr>))"

text \<open>The Linux side of the release of stacks: the addresses it gives to \<^verbatim>\<open>sched_free\<close>.\<close>

partial_function (option) frstk_srq_handler :: "kst \<Rightarrow> (nat list \<times> kst) option" where
  "frstk_srq_handler s =
     (let r = frstk_srq s in
      if k_out r \<noteq> k_in r then do {
        (freed, s1) \<leftarrow> frstk_srq_handler (s\<lparr>frstk_srq := r\<lparr>k_out := (k_out r + 1) mod MAX_SRQ\<rparr>\<rparr>);
        Some (k_task r (k_out r) # freed, s1)
      }
      else Some ([], s))"

declare frstk_srq_handler.simps [code]

section \<open>What the task services do to the lists\<close>

lemma rem_ready_task_eq:
  "is_hard s t \<noteq> 0 \<Longrightarrow> rem_ready_task t s = Some (if state s t = READY then unlink_ready t s else s)"
  by (simp add: rem_ready_task_def lnx_sleep_def)

lemma rem_ready_current_eq: "is_hard s t \<noteq> 0 \<Longrightarrow> rem_ready_current t s = Some (unlink_ready t s)"
  by (simp add: rem_ready_current_def lnx_sleep_def)

lemma ready_or_suspended: "READY OR SUSPENDED \<noteq> READY" "(READY OR SUSPENDED) AND DELAYED = 0"
  by simp_all

lemma or_suspended_bits: "w \<noteq> READY \<Longrightarrow> w OR SUSPENDED \<noteq> READY"
  "(w OR SUSPENDED) AND DELAYED = w AND DELAYED"
proof -
  have a: "(w OR SUSPENDED) AND SUSPENDED = SUSPENDED" by (simp add: bit.conj_disj_distrib2)
  show "w OR SUSPENDED \<noteq> READY"
  proof
    assume "w OR SUSPENDED = READY"
    then have "READY AND SUSPENDED = SUSPENDED" using a by (simp only:)
    then show False by simp
  qed
  show "(w OR SUSPENDED) AND DELAYED = w AND DELAYED" by (simp add: bit.conj_disj_distrib2)
qed

text \<open>Suspending: the task leaves the ready list if it is in it, and no list otherwise.\<close>

lemma suspend_inv:
  assumes i: "sched_inv s rq tq" and l: "live s t" and p: "0 \<le> priority s t"
  defines "s1 \<equiv> s\<lparr>suspdepth := (suspdepth s)(t := 1)\<rparr>"
  shows "sched_inv (set_state t (state s t OR SUSPENDED) (if state s t = READY then unlink_ready t s1 else s1)) (remove1 t rq) tq"
proof -
  have i1: "sched_inv s1 rq tq" using same_sched_inv [of s s1] i by (simp add: same_sched_def s1_def)
  have l1: "live s1 t" using l by (simp add: live_def s1_def)
  show ?thesis
  proof (cases "state s t = READY")
    case True
    then show ?thesis
      using inv_unready [OF i1 l1, of "READY OR SUSPENDED"] ready_or_suspended p by (simp add: s1_def)
  next
    case False
    then have "remove1 t rq = rq" using sched_invD(5) [OF i, of t] by (simp add: remove1_idem)
    then show ?thesis
      using False inv_set_state [OF i1 _ _ l1, of "state s t OR SUSPENDED"] or_suspended_bits by (simp add: s1_def)
  qed
qed

text \<open>What a suspension does to the state, in full, when it takes effect at once.\<close>

lemma suspend_eq:
  assumes i: "sched_inv s rq tq" and l: "live s t" and d: "suspdepth s t = 0" "owndres s t = 0"
  defines "s1 \<equiv> s\<lparr>suspdepth := (suspdepth s)(t := 1)\<rparr>"
  defines "s' \<equiv> set_state t (state s t OR SUSPENDED) (if state s t = READY then unlink_ready t s1 else s1)"
  shows "rt_task_suspend n (Some t) s = (if t = rt_current s then schedule_ret n 0 s' else Ret 0 s')"
proof -
  have h: "is_hard s1 t \<noteq> 0" using inv_hard(1) [OF i l] by (simp add: s1_def)
  have m: "magic s t = RT_TASK_MAGIC" using l by (simp add: live_def)
  show ?thesis using rem_ready_task_eq [OF h] d m by (simp add: rt_task_suspend_def or_state_def s'_def s1_def Let_def)
qed


text \<open>A new priority for a task that is not in the ready list.\<close>

lemma inv_set_prio:
  assumes i: "sched_inv s rq tq" and t: "t \<notin> set rq" "t \<noteq> LINUX" and p: "0 \<le> p" "live s t \<Longrightarrow> p < RT_LINUX_PRIORITY"
  shows "sched_inv (s\<lparr>priority := (priority s)(t := p)\<rparr>) rq tq"
proof -
  let ?s = "s\<lparr>priority := (priority s)(t := p)\<rparr>"
  have "ready_list ?s rq" using ready_list_set_prio [OF sched_invD(2) [OF i] t(2) p(1)] .
  moreover have "in_prio_order ?s rq" using in_prio_order_set_prio [OF sched_invD(3) [OF i] t(1)] .
  moreover have "task_wf ?s" using sched_invD(1) [OF i] t(2) p by (auto simp: task_wf_def live_def)
  moreover have "timed_list ?s tq" using sched_invD(4) [OF i] by (simp add: timed_list_def)
  ultimately show ?thesis using i by (simp add: sched_inv_def live_def)
qed

text \<open>Resuming a task that is suspended and waits for nothing else.\<close>

lemma resume_lists:
  assumes i: "sched_inv s rq tq" and l: "live s t" and st: "state s t = READY OR SUSPENDED"
    and d: "suspdepth s t = 1"
  shows "\<exists>s'. rt_task_resume n t s = schedule_ret n 0 s' \<and> sched_inv s' (ready_insert s t rq) tq
     \<and> state s' = (state s)(t := READY) \<and> suspdepth s' = (suspdepth s)(t := 0)"
proof -
  let ?s1 = "s\<lparr>suspdepth := (suspdepth s)(t := 0)\<rparr>"
  have i1: "sched_inv ?s1 rq tq" using same_sched_inv [of s ?s1] i by (simp add: same_sched_def)
  have l1: "live ?s1 t" using l by (simp add: live_def)
  have m: "magic s t = RT_TASK_MAGIC" using l by (simp add: live_def)
  obtain s' nx pv where e: "enq_ready_task t (set_state t READY ?s1) = Some s'"
    "sched_inv s' (ready_insert ?s1 t rq) tq"
    "s' = ?s1\<lparr>state := (state ?s1)(t := READY), rnext := nx, rprev := pv\<rparr>"
    using inv_enq_ready [OF i1 l1] st by auto
  have "rem_timed_task t ?s1 = ?s1" using st by (simp add: rem_timed_task_def)
  then have "rt_task_resume n t s = schedule_ret n 0 s'"
    using e(1) d m st by (simp add: rt_task_resume_def and_not_state_def Let_def)
  moreover have "sched_inv s' (ready_insert s t rq) tq" using e(2) by simp
  moreover have "state s' = (state s)(t := READY)" "suspdepth s' = (suspdepth s)(t := 0)"
    by (simp_all add: e(3))
  ultimately show ?thesis by blast
qed

text \<open>
  Resuming a task that was suspended while it slept: it is put on the ready list with its
  \<^verbatim>\<open>DELAYED\<close> bit still set, although it has left the timed list.
\<close>

lemma resume_delayed:
  assumes i: "sched_inv s rq tq" and l: "live s t" and st: "state s t = (READY OR SUSPENDED) OR DELAYED"
    and d: "suspdepth s t = 1"
  shows "\<exists>s'. rt_task_resume n t s = schedule_ret n 0 s' \<and> state s' t = READY OR DELAYED
     \<and> ready_list s' (ready_insert s t rq) \<and> timed_list s' (remove1 t tq)"
proof -
  let ?s1 = "s\<lparr>suspdepth := (suspdepth s)(t := 0)\<rparr>"
  have i1: "sched_inv ?s1 rq tq" using same_sched_inv [of s ?s1] i by (simp add: same_sched_def)
  have l1: "live ?s1 t" using l by (simp add: live_def)
  have m: "magic s t = RT_TASK_MAGIC" using l by (simp add: live_def)
  note dd = sched_invD [OF i1]
  let ?u = "unlink_timed t ?s1"
  let ?s2 = "set_state t (READY OR DELAYED) ?u"
  have tt: "t \<in> set tq" using dd(6) [of t] l1 st by simp
  have tr: "t \<notin> set (LINUX # rq)" using dd(5) [of t] l1 st by (simp add: live_def)
  have r: "ready_list ?s2 rq" using dd(2) by (simp add: ready_list_def)
  have h: "hard_task ?s2 t"
    using inv_hard(4) [OF i l] st by (simp add: hard_task_def unlink_timed_def)
  let ?s3 = "link_ready t (hd (dropWhile (\<lambda>x. priority ?s2 x \<le> priority ?s2 t) rq @ [LINUX])) ?s2"
  have e: "enq_ready_task t ?s2 = Some ?s3" by (rule enq_ready_task_eq [OF r h])
  have u: "rem_timed_task t ?s1 = ?u" using st by (simp add: rem_timed_task_def)
  have 1: "rt_task_resume n t s = schedule_ret n 0 ?s3"
    using e d m st u by (simp add: rt_task_resume_def and_not_state_def Let_def)
  have pe: "priority ?s2 = priority s" by (simp add: unlink_timed_def)
  have 2: "ready_list ?s3 (ready_insert s t rq)"
    using ready_list_link [OF r h tr] unfolding pe .
  have 3: "timed_list ?s3 (remove1 t tq)"
    using timed_list_unlink [OF dd(4) tt] by (simp add: timed_list_def)
  have 4: "state ?s3 t = READY OR DELAYED" by simp
  show ?thesis by (intro exI [where x = ?s3] conjI 1 2 3 4)
qed

text \<open>The current task waits: it moves from the ready list to its place in the timed list.\<close>

lemma delay_lists:
  assumes i: "sched_inv s rq tq" and l: "live s (rt_current s)" and r: "state s (rt_current s) = READY"
    and p: "0 \<le> priority s (rt_current s)" and e: "resume_time s (rt_current s) \<le> RT_TIME_END"
  shows "\<exists>s'. delay_current n s = schedule_ret n () s'
     \<and> sched_inv s' (remove1 (rt_current s) rq) (timed_insert s (rt_current s) tq)
     \<and> state s' = (state s)(rt_current s := READY OR DELAYED) \<and> resume_time s' = resume_time s"
proof -
  let ?t = "rt_current s"
  let ?u = "set_state ?t 0 (unlink_ready ?t s)"
  have i1: "sched_inv ?u (remove1 ?t rq) tq"
    using inv_unready [OF i l r, of 0] p by simp
  have l1: "live ?u ?t" using l by simp
  obtain s' nx pv where en: "enq_timed_task ?t (set_state ?t (READY OR DELAYED) ?u) = Some s'"
    "sched_inv s' (remove1 ?t rq) (timed_insert ?u ?t tq)"
    "s' = ?u\<lparr>state := (state ?u)(?t := READY OR DELAYED), tnext := nx, tprev := pv\<rparr>"
    using inv_enq_timed [OF i1 l1, of "READY OR DELAYED"] e by (auto simp: unlink_ready_def)
  have h: "is_hard (or_state ?t DELAYED s) ?t \<noteq> 0"
    using inv_hard(1) [OF i l] by (simp add: or_state_def)
  have "unlink_ready ?t (or_state ?t DELAYED s) = set_state ?t (READY OR DELAYED) ?u"
    using r by (simp add: or_state_def unlink_ready_def)
  then have 1: "delay_current n s = schedule_ret n () s'"
    using rem_ready_current_eq [OF h] en(1) by (simp add: delay_current_def)
  have "resume_time ?u = resume_time s" by (simp add: unlink_ready_def)
  then show ?thesis
    using 1 en(2,3) by (intro exI [where x = s']) (simp add: unlink_ready_def)
qed

end
