(* ===== verification/Sched_Priorities.thy ===== *)
theory Sched_Priorities
  imports Sched_Tasks
begin

text \<open>
  The list of all tasks, its changes when tasks are created and deleted, the rate monotonic
  priorities that \<^verbatim>\<open>rt_spv_RMS\<close> assigns along it, and the nesting of the scheduler lock.
\<close>

section \<open>The list of all tasks\<close>

primrec chain :: "(tid \<Rightarrow> tid option) \<Rightarrow> tid \<Rightarrow> tid list \<Rightarrow> bool" where
  "chain nx a [] \<longleftrightarrow> nx a = None"
| "chain nx a (x # xs) \<longleftrightarrow> nx a = Some x \<and> chain nx x xs"

primrec back_chain :: "(tid \<Rightarrow> tid) \<Rightarrow> tid \<Rightarrow> tid list \<Rightarrow> bool" where
  "back_chain pv a [] \<longleftrightarrow> True"
| "back_chain pv a (x # xs) \<longleftrightarrow> pv x = a \<and> back_chain pv x xs"

definition task_list :: "kst \<Rightarrow> tid list \<Rightarrow> bool" where
  "task_list s ts \<longleftrightarrow> distinct (LINUX # ts) \<and> chain (tsk_next s) LINUX ts
     \<and> back_chain (tsk_prev s) LINUX ts \<and> tsk_prev s LINUX = last (LINUX # ts)"

lemma chain_upd [simp]: "u \<notin> set (a # xs) \<Longrightarrow> chain (nx(u := v)) a xs = chain nx a xs"
  by (induction xs arbitrary: a) auto

lemma back_chain_upd [simp]: "u \<notin> set xs \<Longrightarrow> back_chain (pv(u := v)) a xs = back_chain pv a xs"
  by (induction xs arbitrary: a) auto

lemma chain_snoc:
  "chain nx a xs \<Longrightarrow> distinct (a # xs) \<Longrightarrow> t \<notin> set (a # xs) \<Longrightarrow>
     chain (nx(t := None, last (a # xs) := Some t)) a (xs @ [t])"
  by (induction xs arbitrary: a) (auto simp: fun_upd_twist)

lemma back_chain_snoc:
  "back_chain pv a (xs @ [t]) \<longleftrightarrow> back_chain pv a xs \<and> pv t = last (a # xs)"
  by (induction xs arbitrary: a) auto

lemma append_task_list:
  assumes l: "task_list s ts" and t: "t \<notin> set (LINUX # ts)"
  shows "task_list (append_task t s) (ts @ [t])"
proof -
  have e: "tsk_next (append_task t s) = (tsk_next s)(t := None, last (LINUX # ts) := Some t)"
    "tsk_prev (append_task t s) = (tsk_prev s)(t := last (LINUX # ts), LINUX := t)"
    using l by (simp_all add: append_task_def task_list_def)
  show ?thesis
    unfolding task_list_def e
    using l t chain_snoc [of "tsk_next s" LINUX ts t] by (simp add: task_list_def back_chain_snoc)
qed

lemma chain_split:
  "chain nx a (xs @ y # ys) \<Longrightarrow> nx (last (a # xs)) = Some y \<and> chain nx y ys"
  by (induction xs arbitrary: a) auto

lemma chain_bypass:
  "chain nx a (xs @ y # ys) \<Longrightarrow> distinct (a # xs @ y # ys) \<Longrightarrow>
     chain (nx(last (a # xs) := nx y)) a (xs @ ys)"
proof (induction xs arbitrary: a)
  case Nil
  show ?case
  proof (cases ys)
    case (Cons z zs)
    have "chain (nx(a := nx y)) z zs = chain nx z zs"
      by (rule chain_upd) (use Nil Cons in auto)
    then have "chain (nx(a := nx y)) a (z # zs)" using Nil(1) Cons by (simp add: fun_upd_same)
    then show ?thesis by (simp only: Cons append_Nil last.simps if_True refl)
  qed (use Nil in simp)
next
  case (Cons x xs)
  then show ?case by auto
qed

lemma back_chain_bypass:
  "back_chain pv a (xs @ y # z # ys) \<Longrightarrow> distinct (a # xs @ y # z # ys) \<Longrightarrow>
     back_chain (pv(z := pv y)) a (xs @ z # ys)"
  by (induction xs arbitrary: a) auto

lemma back_chain_prefix: "back_chain pv a (xs @ ys) \<Longrightarrow> back_chain pv a xs"
  by (induction xs arbitrary: a) auto

lemma back_chain_at: "back_chain pv a (xs @ y # ys) \<Longrightarrow> pv y = last (a # xs)"
  by (induction xs arbitrary: a) auto

lemma unlink_task_list:
  assumes l: "task_list s ts" and t: "t \<in> set ts"
  shows "task_list (unlink_task t s) (remove1 t ts)"
proof -
  from split_list_first [OF t] obtain xs ys where ts: "ts = xs @ t # ys" and x: "t \<notin> set xs"
    by blast
  have d: "distinct (LINUX # xs @ t # ys)" and c: "chain (tsk_next s) LINUX (xs @ t # ys)"
    and b: "back_chain (tsk_prev s) LINUX (xs @ t # ys)"
    and pl: "tsk_prev s LINUX = last (LINUX # xs @ t # ys)"
    using l by (simp_all add: task_list_def ts)
  have p: "tsk_prev s t = last (LINUX # xs)" by (rule back_chain_at [OF b])
  have "last (LINUX # xs) \<in> set (LINUX # xs)" by (rule last_in_set) simp
  then have tn: "last (LINUX # xs) \<noteq> t" using d by auto
  let ?nx = "(tsk_next s)(last (LINUX # xs) := tsk_next s t)"
  have nx: "tsk_next (unlink_task t s) = ?nx"
    by (simp add: unlink_task_def p Let_def split: option.split)
  have ch: "chain ?nx LINUX (xs @ ys)" by (rule chain_bypass [OF c d])
  have nt: "tsk_next s t = (case ys of [] \<Rightarrow> None | z # zs \<Rightarrow> Some z)"
    using chain_split [OF c] by (cases ys) auto
  have r: "remove1 t ts = xs @ ys" using x by (simp add: ts remove1_append)
  show ?thesis
  proof (cases ys)
    case Nil
    then have pv: "tsk_prev (unlink_task t s) = (tsk_prev s)(LINUX := last (LINUX # xs))"
      using nt tn p by (simp add: unlink_task_def Let_def)
    have "back_chain (tsk_prev s) LINUX xs" using back_chain_prefix [OF b] .
    then show ?thesis
      unfolding task_list_def r nx pv using d ch Nil by simp
  next
    case (Cons z zs)
    then have pv: "tsk_prev (unlink_task t s) = (tsk_prev s)(z := tsk_prev s t)"
      using nt tn by (simp add: unlink_task_def Let_def)
    have "back_chain ((tsk_prev s)(z := tsk_prev s t)) LINUX (xs @ z # zs)"
      using back_chain_bypass b d by (simp add: Cons)
    moreover have "z \<noteq> LINUX" using d Cons by auto
    ultimately show ?thesis
      unfolding task_list_def r nx pv using d ch pl Cons by auto
  qed
qed

section \<open>Rate monotonic priorities\<close>

definition rms_open :: "kst \<Rightarrow> tid \<Rightarrow> bool" where
  "rms_open s t \<longleftrightarrow> 0 \<le> priority s t \<and> 0 \<le> policy s t \<and> period s t \<noteq> 0"

lemma rms_find_eq:
  assumes "chain (tsk_next s) a xs"
  shows "\<exists>r. rms_find s a per h = Some r \<and>
     (r = h \<and> (\<forall>x \<in> set xs. rms_open s x \<longrightarrow> per \<le> period s x)
      \<or> (\<exists>t \<in> set xs. r = Some t \<and> rms_open s t \<and> period s t < per
           \<and> (\<forall>x \<in> set xs. rms_open s x \<longrightarrow> period s t \<le> period s x)))"
  using assms
proof (induction xs arbitrary: a per h)
  case Nil
  then show ?case by (subst rms_find.simps) simp
next
  case (Cons x xs)
  have c: "chain (tsk_next s) x xs" and n: "tsk_next s a = Some x" using Cons.prems by auto
  show ?case
  proof (cases "rms_open s x \<and> period s x < per")
    case True
    then have e: "rms_find s a per h = rms_find s x (period s x) (Some x)"
      using n by (subst rms_find.simps) (simp add: rms_open_def)
    show ?thesis
      using Cons.IH [OF c, of "period s x" "Some x"] True unfolding e by force
  next
    case False
    then have e: "rms_find s a per h = rms_find s x per h"
      using n by (subst rms_find.simps) (auto simp: rms_open_def)
    show ?thesis
      using Cons.IH [OF c, of per h] False unfolding e by force
  qed
qed

text \<open>
  The state of the outer loop: the tasks of \<open>A\<close> have got the priorities below \<open>k\<close>, in the order
  of their periods, and no other candidate has a shorter period than one of them.
\<close>

definition rms_inv :: "kst \<Rightarrow> tid set \<Rightarrow> tid set \<Rightarrow> int \<Rightarrow> kst \<Rightarrow> bool" where
  "rms_inv s0 P A k s \<longleftrightarrow> (\<exists>pr bp. s = s0\<lparr>priority := pr, base_priority := bp\<rparr>
     \<and> A \<subseteq> P \<and> 0 \<le> k
     \<and> (\<forall>a. pr a = (if a \<in> A then - 1 else priority s0 a))
     \<and> (\<forall>a. a \<notin> A \<longrightarrow> bp a = base_priority s0 a)
     \<and> (\<forall>a \<in> A. 0 \<le> bp a \<and> bp a < k)
     \<and> (\<forall>a \<in> A. \<forall>b \<in> A. period s0 a < period s0 b \<longrightarrow> bp a < bp b)
     \<and> (\<forall>a \<in> A. \<forall>b \<in> P - A. period s0 a \<le> period s0 b))"

lemma rms_inv_step:
  assumes i: "rms_inv s0 P A k s" and h: "h \<in> P - A" and m: "\<forall>b \<in> P - A. period s0 h \<le> period s0 b"
  shows "rms_inv s0 P (insert h A) (k + 1)
           (s\<lparr>priority := (priority s)(h := - 1), base_priority := (base_priority s)(h := k)\<rparr>)"
proof -
  obtain pr bp where s: "s = s0\<lparr>priority := pr, base_priority := bp\<rparr>" and A: "A \<subseteq> P" "0 \<le> k"
    and pr: "\<forall>a. pr a = (if a \<in> A then - 1 else priority s0 a)"
    and nb: "\<forall>a. a \<notin> A \<longrightarrow> bp a = base_priority s0 a"
    and bp: "\<forall>a \<in> A. 0 \<le> bp a \<and> bp a < k"
    and o: "\<forall>a \<in> A. \<forall>b \<in> A. period s0 a < period s0 b \<longrightarrow> bp a < bp b"
    and ob: "\<forall>a \<in> A. \<forall>b \<in> P - A. period s0 a \<le> period s0 b"
    using i unfolding rms_inv_def by blast
  have hh: "\<forall>a \<in> A. period s0 a \<le> period s0 h" using ob h by blast
  show ?thesis
    unfolding rms_inv_def
  proof (intro exI conjI)
    show "s\<lparr>priority := (priority s)(h := - 1), base_priority := (base_priority s)(h := k)\<rparr>
        = s0\<lparr>priority := pr(h := - 1), base_priority := bp(h := k)\<rparr>"
      by (simp add: s)
    show "insert h A \<subseteq> P" "0 \<le> k + 1" using A h by auto
    show "\<forall>a. (pr(h := - 1)) a = (if a \<in> insert h A then - 1 else priority s0 a)"
      using pr by simp
    show "\<forall>a. a \<notin> insert h A \<longrightarrow> (bp(h := k)) a = base_priority s0 a" using nb by simp
    show "\<forall>a \<in> insert h A. 0 \<le> (bp(h := k)) a \<and> (bp(h := k)) a < k + 1"
      using bp A(2) h by (auto dest!: bspec)
    show "\<forall>a \<in> insert h A. \<forall>b \<in> insert h A. period s0 a < period s0 b \<longrightarrow> (bp(h := k)) a < (bp(h := k)) b"
      using bp o hh h by (auto dest!: bspec)
    show "\<forall>a \<in> insert h A. \<forall>b \<in> P - insert h A. period s0 a \<le> period s0 b"
      using ob m by blast
  qed
qed

lemma rms_assign_eq:
  assumes ts: "chain (tsk_next s0) LINUX ts"
    and P: "P = {t \<in> set ts. rms_open s0 t \<and> period s0 t < RT_TIME_END}"
    and c: "chain (tsk_next s0) a xs" and i: "rms_inv s0 P A k s" and n: "card (P - A) \<le> length xs"
  shows "\<exists>s' k'. rms_assign a k s = Some s' \<and> rms_inv s0 P P k' s'"
  using c i n
proof (induction xs arbitrary: a A k s)
  case Nil
  then have "P - A = {}" using P by simp
  moreover have "A \<subseteq> P" using Nil.prems(2) by (auto simp: rms_inv_def)
  ultimately have "A = P" by blast
  moreover have "tsk_next s a = None" using Nil.prems(1,2) by (auto simp: rms_inv_def)
  ultimately show ?case using Nil.prems(2) by (subst rms_assign.simps) auto
next
  case (Cons x xs)
  obtain pr bp where s: "s = s0\<lparr>priority := pr, base_priority := bp\<rparr>" and AP: "A \<subseteq> P"
    and pr: "\<forall>a. pr a = (if a \<in> A then - 1 else priority s0 a)"
    using Cons.prems(2) unfolding rms_inv_def by blast
  have op: "rms_open s t \<longleftrightarrow> t \<notin> A \<and> rms_open s0 t" for t
    using pr by (simp add: s rms_open_def)
  have ps: "period s = period s0" and nx: "tsk_next s = tsk_next s0" by (simp_all add: s)
  have fP: "finite P" by (simp add: P)
  obtain r where r: "rms_find s LINUX RT_TIME_END None = Some r" and
    rr: "r = None \<and> (\<forall>x \<in> set ts. rms_open s x \<longrightarrow> RT_TIME_END \<le> period s x)
      \<or> (\<exists>t \<in> set ts. r = Some t \<and> rms_open s t \<and> period s t < RT_TIME_END
           \<and> (\<forall>x \<in> set ts. rms_open s x \<longrightarrow> period s t \<le> period s x))"
    using rms_find_eq [of s LINUX ts RT_TIME_END None] ts nx by metis
  have x: "tsk_next s a = Some x" and cx: "chain (tsk_next s0) x xs" using Cons.prems(1) nx by auto
  show ?case
  proof (cases r)
    case None
    then have no: "\<forall>x \<in> set ts. x \<notin> A \<longrightarrow> rms_open s0 x \<longrightarrow> RT_TIME_END \<le> period s0 x"
      using rr op ps by auto
    have "P \<subseteq> A"
    proof
      fix t assume "t \<in> P"
      then have "t \<in> set ts" "rms_open s0 t" "\<not> RT_TIME_END \<le> period s0 t" by (auto simp: P)
      then show "t \<in> A" using no by blast
    qed
    then have "A = P" using AP by blast
    moreover have "rms_assign a k s = Some s" using x r None by (subst rms_assign.simps) simp
    ultimately show ?thesis using Cons.prems(2) by blast
  next
    case (Some h)
    then have h: "h \<in> set ts" "rms_open s h" "period s0 h < RT_TIME_END"
      and mn: "\<forall>x \<in> set ts. rms_open s x \<longrightarrow> period s0 h \<le> period s0 x" using rr ps by auto
    have hP: "h \<in> P - A" using h op by (auto simp: P)
    have "\<forall>b \<in> P - A. period s0 h \<le> period s0 b"
      using mn op unfolding P by blast
    note st = rms_inv_step [OF Cons.prems(2) hP this]
    have "card (P - insert h A) < card (P - A)"
      using hP fP by (intro psubset_card_mono) auto
    then have "card (P - insert h A) \<le> length xs" using Cons.prems(3) by simp
    from Cons.IH [OF cx st this] show ?thesis
      using x r Some by (subst rms_assign.simps) simp
  qed
qed

lemma rms_restore_eq:
  assumes "chain (tsk_next s) a xs" and "distinct xs"
  shows "rms_restore a s = Some (s\<lparr>priority := (\<lambda>t. if t \<in> set xs \<and> priority s t < 0
           then base_priority s t else priority s t)\<rparr>)"
  using assms
proof (induction xs arbitrary: a s)
  case Nil
  then show ?case by (subst rms_restore.simps) simp
next
  case (Cons x xs)
  let ?s = "if priority s x < 0 then s\<lparr>priority := (priority s)(x := base_priority s x)\<rparr> else s"
  have c: "chain (tsk_next ?s) x xs" "distinct xs" using Cons.prems by auto
  have e: "rms_restore a s = rms_restore x ?s"
    using Cons.prems by (subst rms_restore.simps) simp
  have f: "(\<lambda>t. if t \<in> set xs \<and> priority ?s t < 0 then base_priority ?s t else priority ?s t)
      = (\<lambda>t. if t \<in> set (x # xs) \<and> priority s t < 0 then base_priority s t else priority s t)"
    using Cons.prems(2) by auto
  have g: "?s\<lparr>priority := p\<rparr> = s\<lparr>priority := p\<rparr>" for p by simp
  show ?case
    unfolding e Cons.IH [OF c] f g by (rule refl)
qed

text \<open>After \<^verbatim>\<open>rt_spv_RMS\<close> the shorter period has the higher priority.\<close>

text \<open>C6: \<^verbatim>\<open>rt_spv_RMS\<close> terminates, gives the periodic tasks
  priorities in the order of their periods, and leaves every other priority as it was.\<close>

lemma rt_spv_RMS_ok:
  assumes l: "task_list s ts" and p: "\<forall>t \<in> set ts. 0 \<le> priority s t"
  defines "P \<equiv> {t \<in> set ts. rms_open s t \<and> period s t < RT_TIME_END}"
  shows "\<exists>s'. rt_spv_RMS s = Some s'
     \<and> (\<forall>t \<in> P. priority s' t = base_priority s' t \<and> 0 \<le> base_priority s' t)
     \<and> (\<forall>a \<in> P. \<forall>b \<in> P. period s a < period s b \<longrightarrow> priority s' a < priority s' b)
     \<and> (\<forall>t. t \<notin> P \<longrightarrow> priority s' t = priority s t \<and> base_priority s' t = base_priority s t)"
proof -
  have c: "chain (tsk_next s) LINUX ts" and d: "distinct ts" using l by (auto simp: task_list_def)
  have i: "rms_inv s P {} 0 s"
    unfolding rms_inv_def
    by (intro exI [where x = "priority s"] exI [where x = "base_priority s"]) simp
  have "P \<subseteq> set ts" by (auto simp: P_def)
  then have "card (P - {}) \<le> length ts"
    using card_mono [of "set ts" P] card_length [of ts] by simp
  from rms_assign_eq [OF c P_def [THEN meta_eq_to_obj_eq] c i this] obtain s1 k where
    s1: "rms_assign LINUX 0 s = Some s1" and i1: "rms_inv s P P k s1" by blast
  obtain pr bp where e: "s1 = s\<lparr>priority := pr, base_priority := bp\<rparr>"
    and pr: "\<forall>a. pr a = (if a \<in> P then - 1 else priority s a)"
    and nb: "\<forall>a. a \<notin> P \<longrightarrow> bp a = base_priority s a" and bp: "\<forall>a \<in> P. 0 \<le> bp a \<and> bp a < k"
    and o: "\<forall>a \<in> P. \<forall>b \<in> P. period s a < period s b \<longrightarrow> bp a < bp b"
    using i1 unfolding rms_inv_def by blast
  let ?s = "s1\<lparr>priority := (\<lambda>t. if t \<in> set ts \<and> priority s1 t < 0 then base_priority s1 t else priority s1 t)\<rparr>"
  have c1: "chain (tsk_next s1) LINUX ts" using c by (simp add: e)
  have 1: "rt_spv_RMS s = Some ?s"
    using s1 rms_restore_eq [OF c1 d] by (simp add: rt_spv_RMS_def)
  have PT: "t \<in> P \<Longrightarrow> t \<in> set ts" for t by (simp add: P_def)
  have prio: "priority ?s t = (if t \<in> P then bp t else priority s t)" for t
    using pr p PT by (auto simp: e)
  have base: "base_priority ?s = bp" by (simp add: e)
  show ?thesis
    using prio base bp o nb by (intro exI [where x = ?s] conjI 1) simp_all
qed

section \<open>The scheduler lock\<close>

text \<open>Locking \<open>k\<close> times, and the unlocks that undo all but the last.\<close>

lemma sched_lock_iter:
  assumes "0 \<le> priority s (rt_current s)"
  shows "\<exists>r. (rt_sched_lock ^^ Suc k) s = s\<lparr>
      sched_lock_priority := (sched_lock_priority s)(rt_current s := priority s (rt_current s)),
      priority := (priority s)(rt_current s := - int (Suc k)), sched_rqsted := r\<rparr>"
proof (induction k)
  case 0
  then show ?case using assms by (intro exI [where x = "- 1"]) (simp add: rt_sched_lock_def Let_def fun_upd_def)
next
  case (Suc k)
  then obtain r where r: "(rt_sched_lock ^^ Suc k) s = s\<lparr>
      sched_lock_priority := (sched_lock_priority s)(rt_current s := priority s (rt_current s)),
      priority := (priority s)(rt_current s := - int (Suc k)), sched_rqsted := r\<rparr>" by blast
  have "(rt_sched_lock ^^ Suc (Suc k)) s = rt_sched_lock ((rt_sched_lock ^^ Suc k) s)" by simp
  also have "\<dots> = s\<lparr>
      sched_lock_priority := (sched_lock_priority s)(rt_current s := priority s (rt_current s)),
      priority := (priority s)(rt_current s := - int (Suc (Suc k))), sched_rqsted := r\<rparr>"
    unfolding r by (simp add: rt_sched_lock_def Let_def)
  finally show ?case by blast
qed

lemma sched_unlock_inner:
  "priority s (rt_current s) < - 1 \<Longrightarrow> rt_sched_unlock n s =
     Ret () (s\<lparr>priority := (priority s)(rt_current s := priority s (rt_current s) + 1)\<rparr>)"
  by (simp add: rt_sched_unlock_def Let_def)

lemma sched_unlock_unlocked: "0 \<le> priority s (rt_current s) \<Longrightarrow> rt_sched_unlock n s = Ret () s"
  by (simp add: rt_sched_unlock_def)

end
