(* ===== verification/Sched_Lifecycle.thy ===== *)
theory Sched_Lifecycle
  imports Sched_Priorities
begin

text \<open>
  The life of a task: \<^verbatim>\<open>init_module\<close> establishes the scheduler's invariant, creating a task keeps
  it and makes the task live and suspended, deleting one releases the tasks that wait for it and
  takes it out of every list.
\<close>

section \<open>The start\<close>

lemma init_linux_task_inv:
  assumes "\<And>t. \<not> live s t"
  shows "sched_inv (init_linux_task cur one_shot always s) [] []
     \<and> task_list (init_linux_task cur one_shot always s) []
     \<and> rt_current (init_linux_task cur one_shot always s) = LINUX"
proof -
  have "t \<noteq> LINUX \<Longrightarrow> magic s t \<noteq> RT_TASK_MAGIC" for t using assms [of t] by (simp add: live_def)
  then show ?thesis
    by (simp add: init_linux_task_def sched_inv_def task_wf_def ready_list_def ring_def
        in_prio_order_def timed_list_def live_def task_list_def)
qed

section \<open>Creating a task\<close>

lemma links_self:
  assumes "ring nx pv h xs" and "t \<notin> set (h # xs)"
  shows "ring (nx(t := t)) (pv(t := t)) h xs"
  using assms by (simp add: ring_def)

text \<open>The effect of both ways to create a task on what the invariant reads.\<close>

definition new_task_state :: "tid \<Rightarrow> int \<Rightarrow> kst \<Rightarrow> kst \<Rightarrow> bool" where
  "new_task_state t prio s s' \<longleftrightarrow> magic s' = (magic s)(t := RT_TASK_MAGIC) \<and> policy s' = (policy s)(t := 0)
     \<and> is_hard s' t \<noteq> 0 \<and> (\<forall>x. x \<noteq> t \<longrightarrow> is_hard s' x = is_hard s x)
     \<and> priority s' = (priority s)(t := prio) \<and> state s' = (state s)(t := READY OR SUSPENDED)
     \<and> resume_time s' = (resume_time s)(t := RT_TIME_END)
     \<and> tnext s' = (tnext s)(t := t) \<and> tprev s' = (tprev s)(t := t)
     \<and> rnext s' = (rnext s)(t := t) \<and> rprev s' = (rprev s)(t := t)"

lemma new_task_inv:
  assumes i: "sched_inv s rq tq" and n: "\<not> live s t" "t \<noteq> LINUX"
    and p: "0 \<le> prio" "prio < RT_LINUX_PRIORITY" and s': "new_task_state t prio s s'"
  shows "sched_inv s' rq tq \<and> live s' t"
proof -
  note d = sched_invD [OF i]
  have t: "t \<notin> set (LINUX # rq)" "t \<notin> set (LINUX # tq)" using d(5,6) [of t] n by auto
  have lv: "live s' x \<longleftrightarrow> x = t \<or> live s x" for x using s' n by (auto simp: live_def new_task_state_def)
  have eq: "x \<noteq> t \<Longrightarrow> priority s' x = priority s x \<and> state s' x = state s x \<and> policy s' x = policy s x
      \<and> is_hard s' x = is_hard s x \<and> resume_time s' x = resume_time s x" for x
    using s' by (simp add: new_task_state_def)
  have at: "priority s' t = prio" "state s' t = READY OR SUSPENDED" "policy s' t = 0" "is_hard s' t \<noteq> 0"
    using s' by (simp_all add: new_task_state_def)
  have rx: "x \<in> set rq \<Longrightarrow> x \<noteq> t" and tx: "x \<in> set tq \<Longrightarrow> x \<noteq> t" for x using t by auto
  have "sched_inv s' rq tq"
  proof (rule sched_invI)
    show "task_wf s'"
      unfolding task_wf_def
    proof (intro conjI allI impI)
      show "priority s' LINUX = RT_LINUX_PRIORITY" "policy s' LINUX = 0"
        using d(1) eq [of LINUX] n(2) by (simp_all add: task_wf_def)
    next
      fix x assume "live s' x"
      then show "is_hard s' x \<noteq> 0" "priority s' x < RT_LINUX_PRIORITY" "0 \<le> policy s' x"
        using d(1) eq [of x] at p by (cases "x = t"; simp add: lv task_wf_def)+
    next
      fix x assume "live s' x \<and> state s' x \<noteq> READY"
      then show "0 \<le> priority s' x"
        using d(1) eq [of x] at p by (cases "x = t") (simp_all add: lv task_wf_def)
    qed
    have tl: "x \<in> set (tl rq) \<Longrightarrow> x \<noteq> t" for x using rx by (cases rq) auto
    show "ready_list s' rq"
      using d(2) links_self [OF _ t(1)] s' eq tl n(2)
      unfolding ready_list_def new_task_state_def by auto
    have "sorted_wrt (\<lambda>x y. priority s' x \<le> priority s' y) rq"
      using d(3) unfolding in_prio_order_def by (rule sorted_wrt_mono_rel [rotated]) (use eq rx in simp)
    then show "in_prio_order s' rq" by (simp add: in_prio_order_def)
    have "sorted_wrt (\<lambda>x y. resume_time s x \<le> resume_time s y) tq"
      using d(4) by (simp add: timed_list_def)
    then have "sorted_wrt (\<lambda>x y. resume_time s' x \<le> resume_time s' y) tq"
      by (rule sorted_wrt_mono_rel [rotated]) (use eq tx in simp)
    then show "timed_list s' tq"
      using d(4) links_self [OF _ t(2)] s' eq [of LINUX] n(2)
      unfolding timed_list_def new_task_state_def by auto
    show "x \<in> set rq \<longleftrightarrow> live s' x \<and> state s' x = READY" for x
      using d(5) [of x] eq [of x] at(2) t by (cases "x = t") (simp_all add: lv)
    show "x \<in> set tq \<longleftrightarrow> live s' x \<and> state s' x AND DELAYED \<noteq> 0" for x
      using d(6) [of x] eq [of x] at(2) t by (cases "x = t") (simp_all add: lv)
  qed
  then show ?thesis using lv by simp
qed

lemma rt_task_init_lists:
  assumes i: "sched_inv s rq tq" and tl: "task_list s ts" and lv: "\<And>x. live s x \<Longrightarrow> x \<in> set ts"
    and ts: "t \<notin> set (LINUX # ts)" and n: "magic s t \<noteq> RT_TASK_MAGIC"
    and p: "0 \<le> prio" "prio < RT_LINUX_PRIORITY" and w: "wdog_task s = None \<or> prio \<noteq> 0"
  shows "\<exists>s'. rt_task_init_cpuid t (Some st) prio fpu sig 0 s = (0, s') \<and> sched_inv s' rq tq
     \<and> task_list s' (ts @ [t]) \<and> live s' t \<and> state s' t = READY OR SUSPENDED \<and> suspdepth s' t = 1
     \<and> priority s' t = prio"
proof -
  let ?s1 = "init_task_fields t prio fpu sig s"
  let ?s2 = "?s1\<lparr>stack_bottom := (stack_bottom ?s1)(t := st), stack_word := (stack_word ?s1)(st := None), suspdepth := (suspdepth ?s1)(t := 1),
      state := (state ?s1)(t := SUSPENDED OR READY),
      is_hard := (is_hard ?s1)(t := 1), lnxtsk := (lnxtsk ?s1)(t := None)\<rparr>"
  let ?s = "append_task t ?s2"
  have e: "rt_task_init_cpuid t (Some st) prio fpu sig 0 s = (0, ?s)"
    using n p w by (auto simp: rt_task_init_cpuid_def Let_def)
  have ns: "new_task_state t prio s ?s"
    by (simp add: new_task_state_def append_task_def init_task_fields_def Let_def or.commute)
  have nl: "\<not> live s t" "t \<noteq> LINUX" using n ts by (auto simp: live_def)
  have 1: "sched_inv ?s rq tq \<and> live ?s t" by (rule new_task_inv [OF i nl p ns])
  have "task_list ?s2 ts" using tl by (simp add: task_list_def init_task_fields_def)
  then have 2: "task_list ?s (ts @ [t])" using append_task_list ts by blast
  have 3: "state ?s t = READY OR SUSPENDED" "suspdepth ?s t = 1" "priority ?s t = prio"
    using ns by (simp_all add: new_task_state_def append_task_def Let_def)
  show ?thesis using e 1 2 3 by blast
qed

section \<open>Deleting a task\<close>

text \<open>The tasks that wait for the deleted one are released; \<open>qnext\<close> and the task list stay.\<close>

definition release_frame :: "kst \<Rightarrow> kst \<Rightarrow> bool" where
  "release_frame s s' \<longleftrightarrow> magic s' = magic s \<and> priority s' = priority s \<and> is_hard s' = is_hard s
     \<and> qnext s' = qnext s \<and> qprev s' = qprev s \<and> qtask s' = qtask s \<and> rt_current s' = rt_current s
     \<and> tsk_next s' = tsk_next s \<and> tsk_prev s' = tsk_prev s \<and> lnxtsk s' = lnxtsk s \<and> sems s' = sems s
     \<and> base_priority s' = base_priority s \<and> owndres s' = owndres s \<and> suspdepth s' = suspdepth s
     \<and> mbxs s' = mbxs s \<and> msg s' = msg s"

lemma release_frame_trans: "release_frame s t \<Longrightarrow> release_frame t u \<Longrightarrow> release_frame s u"
  by (simp add: release_frame_def)

lemma release_one:
  assumes i: "sched_inv s rq tq" and l: "live s t"
  shows "\<exists>s' rq'. (let s1 = rem_timed_task t s in
                   if state s1 t \<noteq> READY then
                     let s2 = and_not_state t (w OR DELAYED) s1 in
                     if state s2 t = READY then enq_ready_task t s2 else Some s2
                   else Some s1) = Some s'
     \<and> sched_inv s' rq' (remove1 t tq) \<and> release_frame s s'
     \<and> state s' = (if state s t = READY then state s else (state s)(t := state s t AND NOT (w OR DELAYED)))
     \<and> blocked_on s' = blocked_on s"
proof (cases "state s t = READY")
  case True
  then have "t \<notin> set tq" using sched_invD(6) [OF i, of t] by simp
  moreover have "rem_timed_task t s = s" using True by (simp add: rem_timed_task_def)
  ultimately show ?thesis
    using True i by (intro exI [where x = s] exI [where x = rq]) (simp add: remove1_idem release_frame_def)
next
  case n: False
  let ?w = "state s t AND NOT (w OR DELAYED)"
  let ?u = "rem_timed_task t s"
  have st: "state ?u = state s" by (simp add: rem_timed_task_def)
  have fr: "release_frame s (set_state t v ?u) \<and> blocked_on (set_state t v ?u) = blocked_on s" for v
    by (simp add: release_frame_def rem_timed_task_def unlink_timed_def)
  have wd: "?w AND DELAYED = 0" by (simp add: bit.de_Morgan_disj and.assoc)
  show ?thesis
  proof (cases "?w = READY")
    case False
    have "sched_inv (set_state t ?w ?u) rq (remove1 t tq)"
      by (rule inv_rem_timed [OF i l n False wd])
    then show ?thesis
      using n False st fr by (intro exI [where x = "set_state t ?w ?u"] exI [where x = rq])
        (simp add: and_not_state_def Let_def)
  next
    case True
    have i0: "sched_inv (set_state t 0 ?u) rq (remove1 t tq)"
      by (rule inv_rem_timed [OF i l n]) simp_all
    have l0: "live (set_state t 0 ?u) t" using l by (simp add: live_def rem_timed_task_def unlink_timed_def)
    have z: "state (set_state t 0 ?u) t \<noteq> READY" "state (set_state t 0 ?u) t AND DELAYED = 0" by simp_all
    obtain s' nx pv where e: "enq_ready_task t (set_state t READY (set_state t 0 ?u)) = Some s'"
      "sched_inv s' (ready_insert (set_state t 0 ?u) t rq) (remove1 t tq)"
      "s' = set_state t 0 ?u\<lparr>state := (state (set_state t 0 ?u))(t := READY), rnext := nx, rprev := pv\<rparr>"
      using inv_enq_ready [OF i0 l0 z] by (elim exE conjE)
    have f: "release_frame s s'" "state s' = (state s)(t := READY)" "blocked_on s' = blocked_on s"
      using fr [of READY] by (simp_all add: e(3) release_frame_def st)
    have a: "and_not_state t (w OR DELAYED) ?u = set_state t READY (set_state t 0 ?u)"
      unfolding and_not_state_def st True by simp
    have u1: "state ?u t \<noteq> READY" using n st by simp
    have u2: "state (and_not_state t (w OR DELAYED) ?u) t = READY" unfolding a by simp
    have 1: "(let s1 = rem_timed_task t s in
                   if state s1 t \<noteq> READY then
                     let s2 = and_not_state t (w OR DELAYED) s1 in
                     if state s2 t = READY then enq_ready_task t s2 else Some s2
                   else Some s1) = Some s'"
      unfolding Let_def if_P [OF u1] if_P [OF u2] unfolding a by (rule e(1))
    have 2: "state s' = (if state s t = READY then state s else (state s)(t := ?w))"
      unfolding True f(2) using n by simp
    show ?thesis
      by (intro exI conjI, rule 1, rule e(2), rule f(1), rule 2, rule f(3))
  qed
qed

lemma release_waiters_ok:
  assumes "links (qnext s) (qprev s) a (map TaskQ ws) head" and "head \<notin> TaskQ ` set ws"
    and "\<forall>t \<in> set ws. qtask s (TaskQ t) = Task t \<and> live s t" and "sched_inv s rq tq" and "distinct ws"
  shows "\<exists>s' rq'. release_waiters w head (qnext s a) s = Some s'
     \<and> sched_inv s' rq' (filter (\<lambda>x. x \<notin> set ws) tq) \<and> release_frame s s'
     \<and> state s' = (\<lambda>x. if x \<in> set ws \<and> state s x \<noteq> READY then state s x AND NOT (w OR DELAYED) else state s x)
     \<and> blocked_on s' = (\<lambda>x. if x \<in> set ws then None else blocked_on s x)"
  using assms
proof (induction ws arbitrary: a s rq tq)
  case Nil
  then show ?case
    by (subst release_waiters.simps) (auto simp: release_frame_def)
next
  case (Cons t ws)
  have a: "qnext s a = TaskQ t" "TaskQ t \<noteq> head" and ln: "links (qnext s) (qprev s) (TaskQ t) (map TaskQ ws) head"
    and l: "live s t" "qtask s (TaskQ t) = Task t"
    using Cons.prems by auto
  obtain s1 rq1 where s1: "(let s1 = rem_timed_task t s in
                   if state s1 t \<noteq> READY then
                     let s2 = and_not_state t (w OR DELAYED) s1 in
                     if state s2 t = READY then enq_ready_task t s2 else Some s2
                   else Some s1) = Some s1"
    "sched_inv s1 rq1 (remove1 t tq)" "release_frame s s1"
    "state s1 = (if state s t = READY then state s else (state s)(t := state s t AND NOT (w OR DELAYED)))"
    and blk: "blocked_on s1 = blocked_on s"
    using release_one [OF Cons.prems(4) l(1), of w] by (elim exE conjE)
  let ?s2 = "s1\<lparr>blocked_on := (blocked_on s1)(t := None)\<rparr>"
  have i2: "sched_inv ?s2 rq1 (remove1 t tq)"
    using same_sched_inv [of s1 ?s2] s1(2) by (simp add: same_sched_def)
  have f2: "release_frame s ?s2" using s1(3) by (simp add: release_frame_def)
  have dq: "distinct tq" using sched_invD(4) [OF Cons.prems(4)] by (auto simp: timed_list_def ring_def)
  have "links (qnext ?s2) (qprev ?s2) (TaskQ t) (map TaskQ ws) head" "head \<notin> TaskQ ` set ws"
    "\<forall>x \<in> set ws. qtask ?s2 (TaskQ x) = Task x \<and> live ?s2 x" "distinct ws"
    using ln Cons.prems s1(3) by (auto simp: release_frame_def live_def)
  from Cons.IH [OF this(1,2,3) i2 this(4)] obtain s' rq' where
    s': "release_waiters w head (qnext ?s2 (TaskQ t)) ?s2 = Some s'"
    "sched_inv s' rq' (filter (\<lambda>x. x \<notin> set ws) (remove1 t tq))" "release_frame ?s2 s'"
    "state s' = (\<lambda>x. if x \<in> set ws \<and> state ?s2 x \<noteq> READY then state ?s2 x AND NOT (w OR DELAYED) else state ?s2 x)"
    "blocked_on s' = (\<lambda>x. if x \<in> set ws then None else blocked_on ?s2 x)"
    by (elim exE conjE)
  have 1: "release_waiters w head (qnext s a) s = Some s'"
    using a l(2) s1(1) s'(1) by (subst release_waiters.simps) (simp add: Let_def)
  have 2: "filter (\<lambda>x. x \<notin> set ws) (remove1 t tq) = filter (\<lambda>x. x \<notin> set (t # ws)) tq"
    using dq by (simp add: distinct_remove1_removeAll removeAll_filter_not_eq filter_filter) (metis)
  have 3: "release_frame s s'" using release_frame_trans f2 s'(3) by blast
  have tw: "t \<notin> set ws" using Cons.prems(5) by simp
  have 4: "state s' = (\<lambda>x. if x \<in> set (t # ws) \<and> state s x \<noteq> READY then state s x AND NOT (w OR DELAYED) else state s x)"
    unfolding s'(4) using s1(4) tw by auto
  have 5: "blocked_on s' = (\<lambda>x. if x \<in> set (t # ws) then None else blocked_on s x)"
    unfolding s'(5) using blk by auto
  note r = s'(2) [unfolded 2]
  show ?case by (intro exI conjI, rule 1, rule r, rule 3, rule 4, rule 5)
qed

text \<open>The last steps of a deletion, once no list of waiters is left.\<close>

definition bury :: "tid \<Rightarrow> kst \<Rightarrow> kst" where
  "bury t s = (let s4 = unlink_task t s; s5 = (if fpu_task s4 = t then s4\<lparr>fpu_task := LINUX\<rparr> else s4);
                   s6 = free_stack t s5 in s6\<lparr>magic := (magic s6)(t := 0)\<rparr>)"

lemma bury_fields:
  "magic (bury t s) = (magic s)(t := 0)" "priority (bury t s) = priority s" "policy (bury t s) = policy s"
  "is_hard (bury t s) = is_hard s" "state (bury t s) = state s" "rnext (bury t s) = rnext s"
  "rprev (bury t s) = rprev s" "tnext (bury t s) = tnext s" "tprev (bury t s) = tprev s"
  "resume_time (bury t s) = resume_time s" "tsk_next (bury t s) = tsk_next (unlink_task t s)"
  "tsk_prev (bury t s) = tsk_prev (unlink_task t s)" "rt_current (bury t s) = rt_current s"
  "blocked_on (bury t s) = blocked_on s"
  by (simp_all add: bury_def Let_def unlink_task_def free_stack_def split: option.split)

lemma die_inv:
  assumes i: "sched_inv s rq tq" and l: "live s t" and p: "0 \<le> priority s t"
    and dl: "state s t AND DELAYED = 0"
  defines "s7 \<equiv> bury t s"
  shows "\<exists>s'. (do { s8 \<leftarrow> rem_ready_task t s7;
                   Some (s8\<lparr>state := (state s8)(t := 0), tasks_per_cpu := tasks_per_cpu s8 - 1\<rparr>) }) = Some s'
     \<and> sched_inv s' (remove1 t rq) tq \<and> magic s' = (magic s)(t := 0) \<and> state s' = (state s)(t := 0)
     \<and> tsk_next s' = tsk_next (unlink_task t s) \<and> tsk_prev s' = tsk_prev (unlink_task t s)
     \<and> rt_current s' = rt_current s \<and> blocked_on s' = blocked_on s"
proof -
  note d = sched_invD [OF i]
  have h: "is_hard s7 t \<noteq> 0" using inv_hard(1) [OF i l] by (simp add: s7_def bury_fields)
  let ?u = "if state s t = READY then unlink_ready t s7 else s7"
  let ?s = "?u\<lparr>state := (state ?u)(t := 0), tasks_per_cpu := tasks_per_cpu ?u - 1\<rparr>"
  have e: "rem_ready_task t s7 = Some ?u" using rem_ready_task_eq [OF h] by (simp add: s7_def bury_fields)
  have mg: "magic ?s = (magic s)(t := 0)" by (simp add: s7_def bury_fields unlink_ready_def)
  have st: "state ?s = (state s)(t := 0)" by (simp add: s7_def bury_fields unlink_ready_def)
  have lv: "live ?s x \<longleftrightarrow> x \<noteq> t \<and> live s x" for x unfolding live_def mg by simp
  let ?v = "set_state t 0 (if state s t = READY then unlink_ready t s else s)"
  have iv: "sched_inv ?v (remove1 t rq) tq"
  proof (cases "state s t = READY")
    case True
    then show ?thesis using inv_unready [OF i l True, of 0] p by simp
  next
    case False
    then have "t \<notin> set rq" using d(5) [of t] by simp
    then show ?thesis
      using False inv_set_state [OF i _ _ l, of 0] dl by (simp add: remove1_idem)
  qed
  have same: "priority ?s = priority ?v" "policy ?s = policy ?v" "is_hard ?s = is_hard ?v" "state ?s = state ?v"
    "rnext ?s = rnext ?v" "rprev ?s = rprev ?v" "tnext ?s = tnext ?v" "tprev ?s = tprev ?v"
    "resume_time ?s = resume_time ?v"
    by (simp_all add: s7_def bury_fields unlink_ready_def)
  have lvv: "live ?v x = live s x" for x by (simp add: live_def unlink_ready_def)
  have v0: "state ?v t = 0" by simp
  note dv = sched_invD [OF iv]
  have "sched_inv ?s (remove1 t rq) tq"
  proof (rule sched_invI)
    show "task_wf ?s" using dv(1) unfolding task_wf_def same lv lvv by blast
    show "ready_list ?s (remove1 t rq)" using dv(2) unfolding ready_list_def same .
    show "in_prio_order ?s (remove1 t rq)" using dv(3) unfolding in_prio_order_def same .
    show "timed_list ?s tq" using dv(4) unfolding timed_list_def same .
    show "x \<in> set (remove1 t rq) \<longleftrightarrow> live ?s x \<and> state ?s x = READY" for x
      using dv(5) [of x] v0 unfolding same lv lvv by (cases "x = t") auto
    show "x \<in> set tq \<longleftrightarrow> live ?s x \<and> state ?s x AND DELAYED \<noteq> 0" for x
      using dv(6) [of x] v0 unfolding same lv lvv by (cases "x = t") auto
  qed
  then show ?thesis
    using e mg st by (intro exI [where x = ?s]) (simp add: s7_def bury_fields unlink_ready_def)
qed

text \<open>What the first step, leaving the queue the task is blocked on, keeps.\<close>

definition may_leave :: "kst \<Rightarrow> tid \<Rightarrow> qnode set \<Rightarrow> (qnode \<Rightarrow> tid list) \<Rightarrow> bool" where
  "may_leave s t H qs \<longleftrightarrow> (\<forall>q. blocked_on s t = Some q \<longrightarrow> q \<in> H \<and> t \<in> set (qs q)
     \<and> q \<noteq> MsgQ t \<and> q \<noteq> RetQ t \<and> (state s t AND SEMAPHORE \<noteq> 0 \<longrightarrow> (\<exists>x. q = SemQ x)))"

lemma leave_queue_ok:
  assumes b: "blocked_queues s H qs" and m: "may_leave s t H qs"
  shows "\<exists>s' qs'. leave_queue t s = Some s' \<and> same_sched s s' \<and> blocked_queues s' H qs'
     \<and> qs' (MsgQ t) = qs (MsgQ t) \<and> qs' (RetQ t) = qs (RetQ t) \<and> blocked_on s' = blocked_on s
     \<and> tsk_next s' = tsk_next s \<and> tsk_prev s' = tsk_prev s \<and> rt_current s' = rt_current s"
proof (cases "blocked_on s t")
  case None
  then show ?thesis using b by (auto simp: leave_queue_def same_sched_refl)
next
  case (Some q)
  then have q: "q \<in> H" "t \<in> set (qs q)" "q \<noteq> MsgQ t" "q \<noteq> RetQ t"
    "state s t AND SEMAPHORE \<noteq> 0 \<longrightarrow> (\<exists>x. q = SemQ x)" using m by (auto simp: may_leave_def)
  let ?u = "unlink_queue (TaskQ t) s" and ?qs = "qs(q := remove1 t (qs q))"
  have bu: "blocked_queues ?u H ?qs" by (rule blocked_queues_unlink [OF b q(1,2)])
  have su: "same_sched s ?u" by (simp add: same_sched_def unlink_queue_def)
  have bs: "blocked_queues (sem_uncount x ?u) H ?qs" for x
    using bu by (simp add: blocked_queues_def queue_list_def sem_uncount_def Let_def)
  have ss: "same_sched s (sem_uncount x ?u)" for x
    by (simp add: same_sched_def unlink_queue_def sem_uncount_def Let_def)
  show ?thesis
  proof (cases "state s t AND SEMAPHORE \<noteq> 0")
    case True
    then obtain x where "q = SemQ x" using q(5) by blast
    then have "leave_queue t s = Some (sem_uncount x ?u)"
      using Some True by (simp add: leave_queue_def)
    then show ?thesis
      using bs [of x] ss [of x] q by (intro exI [where x = "sem_uncount x ?u"] exI [where x = ?qs])
        (simp add: sem_uncount_def Let_def unlink_queue_def)
  next
    case False
    then have "leave_queue t s = Some ?u" using Some by (simp add: leave_queue_def)
    then show ?thesis
      using bu su q by (intro exI [where x = ?u] exI [where x = ?qs]) (simp add: unlink_queue_def)
  qed
qed

lemma blocked_queues_ring:
  assumes "blocked_queues s H qs" and "h \<in> H"
  shows "links (qnext s) (qprev s) h (map TaskQ (qs h)) h" "h \<notin> TaskQ ` set (qs h)" "distinct (qs h)"
    "\<forall>t \<in> set (qs h). qtask s (TaskQ t) = Task t"
  using assms queue_list_heads [of s h "qs h"]
  by (auto simp: blocked_queues_def queue_list_def ring_def)

text \<open>Deleting a task that does not sleep: it leaves every list and its waiters are released.\<close>

text \<open>The senders and callers of a task, and those that wait for its answer, are let go.\<close>

lemma release_both_queues:
  assumes i: "sched_inv s rq tq" and b: "blocked_queues s H qs" and HH: "MsgQ t \<in> H" "RetQ t \<in> H"
    and wl: "\<forall>x \<in> set (qs (MsgQ t)) \<union> set (qs (RetQ t)). live s x"
  defines "W \<equiv> set (qs (MsgQ t)) \<union> set (qs (RetQ t))"
  shows "\<exists>s2 s3 rq3. release_waiters (SEND OR RPC) (MsgQ t) (qnext s (MsgQ t)) s = Some s2
     \<and> release_waiters RETURN (RetQ t) (qnext s2 (RetQ t)) s2 = Some s3 \<and> sched_inv s3 rq3 (filter (\<lambda>x. x \<notin> W) tq)
     \<and> release_frame s s3 \<and> (\<forall>x. x \<notin> W \<longrightarrow> state s3 x = state s x) \<and> (\<forall>x \<in> W. blocked_on s3 x = None)"
proof -
  note q1 = blocked_queues_ring [OF b HH(1)] and q2 = blocked_queues_ring [OF b HH(2)]
  have w1: "\<forall>x \<in> set (qs (MsgQ t)). qtask s (TaskQ x) = Task x \<and> live s x" using q1(4) wl by simp
  obtain s2 rq2 where s2: "release_waiters (SEND OR RPC) (MsgQ t) (qnext s (MsgQ t)) s = Some s2"
    "sched_inv s2 rq2 (filter (\<lambda>x. x \<notin> set (qs (MsgQ t))) tq)" "release_frame s s2"
    "state s2 = (\<lambda>x. if x \<in> set (qs (MsgQ t)) \<and> state s x \<noteq> READY
                     then state s x AND NOT ((SEND OR RPC) OR DELAYED) else state s x)"
    "blocked_on s2 = (\<lambda>x. if x \<in> set (qs (MsgQ t)) then None else blocked_on s x)"
    using release_waiters_ok [OF q1(1,2) w1 i q1(3), of "SEND OR RPC"] by (elim exE conjE)
  have f2: "qnext s2 = qnext s" "qprev s2 = qprev s" "qtask s2 = qtask s" "magic s2 = magic s"
    using s2(3) by (simp_all add: release_frame_def)
  have w2: "\<forall>x \<in> set (qs (RetQ t)). qtask s2 (TaskQ x) = Task x \<and> live s2 x"
    using q2(4) wl by (simp add: live_cong [OF f2(4)] f2)
  have ln2: "links (qnext s2) (qprev s2) (RetQ t) (map TaskQ (qs (RetQ t))) (RetQ t)" using q2(1) by (simp add: f2)
  obtain s3 rq3 where s3: "release_waiters RETURN (RetQ t) (qnext s2 (RetQ t)) s2 = Some s3"
    "sched_inv s3 rq3 (filter (\<lambda>x. x \<notin> set (qs (RetQ t))) (filter (\<lambda>x. x \<notin> set (qs (MsgQ t))) tq))"
    "release_frame s2 s3"
    "state s3 = (\<lambda>x. if x \<in> set (qs (RetQ t)) \<and> state s2 x \<noteq> READY
                     then state s2 x AND NOT (RETURN OR DELAYED) else state s2 x)"
    "blocked_on s3 = (\<lambda>x. if x \<in> set (qs (RetQ t)) then None else blocked_on s2 x)"
    using release_waiters_ok [OF ln2 q2(2) w2 s2(2) q2(3), of RETURN] by (elim exE conjE)
  have "filter (\<lambda>x. x \<notin> set (qs (RetQ t))) (filter (\<lambda>x. x \<notin> set (qs (MsgQ t))) tq) = filter (\<lambda>x. x \<notin> W) tq"
    by (simp add: filter_filter W_def conj_commute)
  note i3 = s3(2) [unfolded this]
  have fr: "release_frame s s3" using release_frame_trans s2(3) s3(3) by blast
  have st: "\<forall>x. x \<notin> W \<longrightarrow> state s3 x = state s x" unfolding s3(4) s2(4) W_def by simp
  have bo: "\<forall>x \<in> W. blocked_on s3 x = None" unfolding s3(5) s2(5) W_def by auto
  show ?thesis by (intro exI conjI, rule s2(1), rule s3(1), rule i3, rule fr, rule st, rule bo)
qed


end
