(* ===== verification/Semaphores.thy ===== *)
theory Semaphores
  imports Sched_Lifecycle
begin

text \<open>
  Semaphores of \<^verbatim>\<open>rtai_sched.c\<close>: counting, binary and resource semaphores with priority
  inheritance, timed waits and barriers, and what is built on them: condition variables,
  readers-writer locks and recursive spin locks.

  The field \<^verbatim>\<open>type\<close> of a semaphore is negative for a binary one, 0 for a counting one, and for a
  resource it is the nesting depth of its owner.  The field \<^verbatim>\<open>owndby\<close> is the owner of a
  resource, the number of tasks a barrier waits for, or the number of readers of a lock.
\<close>

section \<open>Auxiliary code\<close>

definition upd_sem :: "semid \<Rightarrow> (sem \<Rightarrow> sem) \<Rightarrow> kst \<Rightarrow> kst" where
  "upd_sem x f s = s\<lparr>sems := (sems s)(x := f (sems s x))\<rparr>"

definition rt_typed_sem_init :: "semid \<Rightarrow> int \<Rightarrow> int \<Rightarrow> kst \<Rightarrow> kst" where
  "rt_typed_sem_init x val typ s =
     (let ty = typ mod 4 - 2 in
      s\<lparr>sems := (sems s)(x := \<lparr>sem_magic = RT_SEM_MAGIC,
                               sem_type = if ty > 0 then 1 else ty,
                               sem_count = if ty < 0 \<and> val > 1 \<or> ty > 0 then 1 else val,
                               owndby = NULL,
                               qtype = if typ \<noteq> RES_SEM \<and> (typ div 4) mod 2 \<noteq> 0 then 1 else 0\<rparr>),
        qprev := (qprev s)(SemQ x := SemQ x), qnext := (qnext s)(SemQ x := SemQ x),
        qtask := (qtask s)(SemQ x := NULL)\<rparr>)"

definition rt_sem_init :: "semid \<Rightarrow> int \<Rightarrow> kst \<Rightarrow> kst" where
  "rt_sem_init x val s = rt_typed_sem_init x val CNT_SEM s"

text \<open>A waiting task is taken from the timed list and, when it waits for nothing else, made ready.\<close>

definition wake_blocked :: "32 word \<Rightarrow> tid \<Rightarrow> kst \<Rightarrow> (bool \<times> kst) option" where
  "wake_blocked w t s =
     (let s1 = rem_timed_task t s in
      if state s1 t \<noteq> READY then
        let s2 = and_not_state t w s1 in
        if state s2 t = READY then do { s3 \<leftarrow> enq_ready_task t s2; Some (True, s3) } else Some (False, s2)
      else Some (False, s1))"

text \<open>The priority a task falls back to when it gives a resource back.\<close>

definition dec_owndres :: "tid \<Rightarrow> kst \<Rightarrow> kst" where
  "dec_owndres t s =
     (if owndres s t AND SEMHLF \<noteq> 0 then s\<lparr>owndres := (owndres s)(t := owndres s t - 1)\<rparr> else s)"

definition first_sender_prio :: "tid \<Rightarrow> kst \<Rightarrow> int option" where
  "first_sender_prio t s =
     (case qtask s (qnext s (MsgQ t)) of Task u \<Rightarrow> Some (priority s u) | _ \<Rightarrow> None)"

definition settle ::
  "(tid \<Rightarrow> int \<Rightarrow> kst \<Rightarrow> (bool \<times> kst) option) \<Rightarrow> tid \<Rightarrow> kst \<Rightarrow> (bool \<times> kst) option" where
  "settle renq t s =
     (if owndres s t = 0 then renq t (base_priority s t) s
      else if owndres s t AND SEMHLF = 0 then do {
        p \<leftarrow> first_sender_prio t s;
        renq t (if base_priority s t > p then p else base_priority s t) s
      }
      else Some (False, s))"

definition give_back ::
  "(tid \<Rightarrow> int \<Rightarrow> kst \<Rightarrow> (bool \<times> kst) option) \<Rightarrow> tid \<Rightarrow> kst \<Rightarrow> (bool \<times> kst) option" where
  "give_back renq t s = settle renq t (dec_owndres t s)"

definition rt_task_delete :: "nat \<Rightarrow> tid \<Rightarrow> kst \<Rightarrow> int res" where
  "rt_task_delete n t s = res_bind (clr_rtext n t s) (\<lambda>_. Ret 0)"

section \<open>Deleting\<close>

partial_function (option) sem_release_loop :: "qnode \<Rightarrow> qnode \<Rightarrow> bool \<Rightarrow> kst \<Rightarrow> (bool \<times> kst) option" where
  "sem_release_loop head q m s =
     (if q = head then Some (m, s)
      else (case qtask s q of
              Task t \<Rightarrow> do {
                (b, s1) \<leftarrow> wake_blocked (SEMAPHORE OR DELAYED) t s;
                sem_release_loop head (qnext s1 q) (m \<or> b) s1
              }
            | NULL \<Rightarrow> Some (m, s)
            | Num k \<Rightarrow> None))"

declare sem_release_loop.simps [code]

text \<open>A resource's owner is treated as if it had released it; a suspension that was put off while
  the task owned resources takes effect now.\<close>

definition rt_sem_delete :: "nat \<Rightarrow> semid \<Rightarrow> kst \<Rightarrow> int res" where
  "rt_sem_delete n x s =
     (if sem_magic (sems s x) \<noteq> RT_SEM_MAGIC then Ret SEM_ERR s
      else
        let s1 = upd_sem x (\<lambda>m. m\<lparr>sem_magic := 0\<rparr>) s in
        lift_opt (sem_release_loop (SemQ x) (qnext s1 (SemQ x)) False s1) (\<lambda>(_, s2).
          if owndby (sems s2 x) \<noteq> NULL \<and> sem_type (sems s2 x) > 0 then
            (case owndby (sems s2 x) of
               Task t \<Rightarrow>
                 lift_opt (give_back renq_ready_task t s2) (\<lambda>(sched, s3).
                   if suspdepth s3 t > 0 then
                     lift_opt (rem_ready_task t (or_state t SUSPENDED s3)) (schedule_ret n 0)
                   else
                     res_bind (if suspdepth s3 t < 0 then rt_task_delete n t s3 else Ret 0 s3) (\<lambda>_ s4.
                       if sched then schedule_ret n 0 s4 else Ret 0 s4))
             | _ \<Rightarrow> Stuck)
          else schedule_ret n 0 s2))"

section \<open>Signalling\<close>

text \<open>The count after a signal: a binary semaphore and a resource never exceed 1.\<close>

definition sem_up :: "sem \<Rightarrow> sem" where
  "sem_up m = (if sem_type m \<noteq> 0 then m\<lparr>sem_count := if sem_count m + 1 > 1 then 1 else sem_count m + 1\<rparr>
               else m\<lparr>sem_count := sem_count m + 1\<rparr>)"

text \<open>The task at the head of the queue is released; the flag tells that it became ready.\<close>

definition sem_pop :: "semid \<Rightarrow> kst \<Rightarrow> (bool \<times> kst) option" where
  "sem_pop x s =
     (case qtask s (qnext s (SemQ x)) of
        NULL \<Rightarrow> Some (False, s)
      | Task t \<Rightarrow> wake_blocked (SEMAPHORE OR DELAYED) t (dequeue_blocked t s)
      | Num k \<Rightarrow> None)"

text \<open>What the owner of a resource does after the release, at the label \<^verbatim>\<open>res\<close>.\<close>

definition leave_owned :: "nat \<Rightarrow> bool \<Rightarrow> kst \<Rightarrow> int res" where
  "leave_owned n tosched s =
     (let cur = rt_current s in
      lift_opt (give_back renq_current cur s) (\<lambda>(sched, s2).
        if suspdepth s2 cur > 0 then
          lift_opt (rem_ready_current cur (or_state cur SUSPENDED s2)) (schedule_ret n 0)
        else
          res_bind (if suspdepth s2 cur < 0 then rt_task_delete n cur s2 else Ret 0 s2) (\<lambda>_ s3.
            if sched \<or> tosched then schedule_ret n 0 s3 else Ret 0 s3)))"

definition owner_leaves :: "nat \<Rightarrow> bool \<Rightarrow> semid \<Rightarrow> kst \<Rightarrow> int res" where
  "owner_leaves n tosched x s = leave_owned n tosched (upd_sem x (\<lambda>m. m\<lparr>owndby := NULL\<rparr>) s)"

definition rt_sem_signal :: "nat \<Rightarrow> semid \<Rightarrow> kst \<Rightarrow> int res" where
  "rt_sem_signal n x s =
     (if sem_magic (sems s x) \<noteq> RT_SEM_MAGIC then Ret SEM_ERR s
      else if sem_type (sems s x) > 1 then Ret 0 (upd_sem x (\<lambda>m. m\<lparr>sem_type := sem_type m - 1\<rparr>) s)
      else
        lift_opt (sem_pop x (upd_sem x sem_up s)) (\<lambda>(woken, s1).
          if sem_type (sems s1 x) > 0 then owner_leaves n woken x s1
          else if woken then schedule_ret n 0 s1
          else Ret 0 s1))"

partial_function (option) broadcast_loop :: "qnode \<Rightarrow> qnode \<Rightarrow> bool \<Rightarrow> kst \<Rightarrow> (bool \<times> kst) option" where
  "broadcast_loop head q m s =
     (if q = head then Some (m, s)
      else (case qtask s q of
              Task t \<Rightarrow> do {
                (b, s1) \<leftarrow> wake_blocked (SEMAPHORE OR DELAYED) t (dequeue_blocked t s);
                broadcast_loop head (qnext s1 q) (m \<or> b) s1
              }
            | NULL \<Rightarrow> None
            | Num k \<Rightarrow> None))"

declare broadcast_loop.simps [code]

definition rt_sem_broadcast :: "nat \<Rightarrow> semid \<Rightarrow> kst \<Rightarrow> int res" where
  "rt_sem_broadcast n x s =
     (if sem_magic (sems s x) \<noteq> RT_SEM_MAGIC then Ret SEM_ERR s
      else
        lift_opt (broadcast_loop (SemQ x) (qnext s (SemQ x)) False s) (\<lambda>(schedmap, s1).
          let s2 = (upd_sem x (\<lambda>m. m\<lparr>sem_count := 0\<rparr>) s1)
                     \<lparr>qprev := (qprev s1)(SemQ x := SemQ x), qnext := (qnext s1)(SemQ x := SemQ x)\<rparr> in
          if schedmap then schedule_ret n 0 s2 else Ret 0 s2))"

section \<open>Waiting\<close>

definition take_ownership :: "tid \<Rightarrow> semid \<Rightarrow> kst \<Rightarrow> kst" where
  "take_ownership cur x s =
     (if sem_type (sems s x) > 0
      then (upd_sem x (\<lambda>m. m\<lparr>owndby := Task cur\<rparr>) s)\<lparr>owndres := (owndres s)(cur := owndres s cur + 1)\<rparr>
      else s)"

text \<open>The priority of the waiting task is passed on to the owner of a resource.\<close>

definition pass_to_owner :: "tid \<Rightarrow> semid \<Rightarrow> kst \<Rightarrow> kst option" where
  "pass_to_owner cur x s =
     (if sem_type (sems s x) > 0 then
        (case owndby (sems s x) of
           NULL \<Rightarrow> map_option snd (pass_prio None cur s)
         | Task t \<Rightarrow> map_option snd (pass_prio (Some t) cur s)
         | Num k \<Rightarrow> None)
      else Some s)"

definition sem_down :: "semid \<Rightarrow> kst \<Rightarrow> kst" where
  "sem_down x s = upd_sem x (\<lambda>m. m\<lparr>sem_count := sem_count m - 1\<rparr>) s"

text \<open>The current task blocks on the semaphore, with a limit of time when \<open>w\<close> has \<^verbatim>\<open>DELAYED\<close>.\<close>

definition sem_block :: "32 word \<Rightarrow> tid \<Rightarrow> semid \<Rightarrow> kst \<Rightarrow> kst option" where
  "sem_block w cur x s = do {
     s1 \<leftarrow> pass_to_owner cur x s;
     s2 \<leftarrow> rem_ready_current cur (or_state cur w (sem_down x s1));
     s3 \<leftarrow> enqueue_blocked cur (SemQ x) (qtype (sems s2 x)) s2;
     if w AND DELAYED \<noteq> 0 then enq_timed_task cur s3 else Some s3
   }"

definition forget_pass :: "tid \<Rightarrow> kst \<Rightarrow> kst" where
  "forget_pass cur s = s\<lparr>prio_passed_to := (prio_passed_to s)(cur := None)\<rparr>"

definition rt_sem_wait :: "nat \<Rightarrow> semid \<Rightarrow> kst \<Rightarrow> int res" where
  "rt_sem_wait n x s =
     (if sem_magic (sems s x) \<noteq> RT_SEM_MAGIC then Ret SEM_ERR s
      else
        let cur = rt_current s; count = sem_count (sems s x) in
        if count \<le> 0 then
          if sem_type (sems s x) > 0 \<and> owndby (sems s x) = Task cur
          then Ret count (upd_sem x (\<lambda>m. m\<lparr>sem_type := sem_type m + 1\<rparr>) s)
          else
            lift_opt (sem_block SEMAPHORE cur x s) (\<lambda>s1.
              res_bind (rt_schedule n s1) (\<lambda>_ t.
                if blocked_on t cur \<noteq> None \<or> sem_magic (sems t x) \<noteq> RT_SEM_MAGIC
                then Ret SEM_ERR (forget_pass cur t)
                else Ret (sem_count (sems t x)) (take_ownership cur x t)))
        else Ret count (take_ownership cur x (sem_down x s)))"

definition rt_sem_wait_if :: "semid \<Rightarrow> kst \<Rightarrow> int \<times> kst" where
  "rt_sem_wait_if x s =
     (if sem_magic (sems s x) \<noteq> RT_SEM_MAGIC then (SEM_ERR, s)
      else
        let cur = rt_current s; count = sem_count (sems s x) in
        if count \<le> 0 then
          if sem_type (sems s x) > 0 \<and> owndby (sems s x) = Task cur
          then (0, upd_sem x (\<lambda>m. m\<lparr>sem_type := sem_type m + 1\<rparr>) s)
          else (count, s)
        else (count, take_ownership cur x (sem_down x s)))"

text \<open>The end of a timed wait, when the task runs again.\<close>

definition sem_wait_end :: "tid \<Rightarrow> semid \<Rightarrow> kst \<Rightarrow> int \<times> kst" where
  "sem_wait_end cur x t =
     (if sem_magic (sems t x) \<noteq> RT_SEM_MAGIC then (SEM_ERR, forget_pass cur t)
      else if blocked_on t cur \<noteq> None then
        (SEM_TIMOUT, upd_sem x (\<lambda>m. m\<lparr>sem_count := if sem_count m + 1 > 1 \<and> sem_type m \<noteq> 0
                                                     then 1 else sem_count m + 1\<rparr>)
                       (dequeue_blocked cur t))
      else (sem_count (sems t x), take_ownership cur x t))"

definition rt_sem_wait_until :: "nat \<Rightarrow> semid \<Rightarrow> rtime \<Rightarrow> kst \<Rightarrow> int res" where
  "rt_sem_wait_until n x time s =
     (if sem_magic (sems s x) \<noteq> RT_SEM_MAGIC then Ret SEM_ERR s
      else
        let cur = rt_current s; count = sem_count (sems s x) in
        if count \<le> 0 then
          let s1 = s\<lparr>blocked_on := (blocked_on s)(cur := Some (SemQ x)),
                     resume_time := (resume_time s)(cur := time)\<rparr>;
              fin = (\<lambda>t. case sem_wait_end cur x t of (r, t') \<Rightarrow> Ret r t') in
          if time > rt_time_h s1 then
            if sem_type (sems s1 x) > 0 \<and> owndby (sems s1 x) = Task cur
            then Ret 0 (upd_sem x (\<lambda>m. m\<lparr>sem_type := sem_type m + 1\<rparr>) s1)
            else
              lift_opt (sem_block (SEMAPHORE OR DELAYED) cur x s1) (\<lambda>s2.
                res_bind (rt_schedule n s2) (\<lambda>_ t. fin t))
          else
            fin ((sem_down x s1)\<lparr>qprev := (qprev s1)(TaskQ cur := TaskQ cur),
                                qnext := (qnext s1)(TaskQ cur := TaskQ cur)\<rparr>)
        else Ret count (take_ownership cur x (sem_down x s)))"

definition rt_sem_wait_timed :: "nat \<Rightarrow> semid \<Rightarrow> rtime \<Rightarrow> kst \<Rightarrow> int res" where
  "rt_sem_wait_timed n x delay s =
     (let (now, s1) = rt_get_time s in rt_sem_wait_until n x (now + delay) s1)"

definition rt_sem_wait_barrier :: "nat \<Rightarrow> semid \<Rightarrow> kst \<Rightarrow> int res" where
  "rt_sem_wait_barrier n x s =
     (if sem_magic (sems s x) \<noteq> RT_SEM_MAGIC then Ret SEM_ERR s
      else
        let s1 = (if owndby (sems s x) = NULL
                  then upd_sem x (\<lambda>m. m\<lparr>owndby := int_ptr (if sem_count m < 1 then 1 else sem_count m),
                                        sem_count := 0, sem_type := 0\<rparr>) s
                  else s) in
        res_bind (if 1 - sem_count (sems s1 x) < ptr_int (owndby (sems s1 x))
                  then rt_sem_wait n x s1 else rt_sem_broadcast n x s1) (\<lambda>_. Ret 0))"

section \<open>Condition variables\<close>

definition rt_cond_wait :: "nat \<Rightarrow> semid \<Rightarrow> semid \<Rightarrow> kst \<Rightarrow> int res" where
  "rt_cond_wait n cnd mtx s =
     res_bind (rt_sem_signal n mtx s) (\<lambda>_ s1.
     res_bind (rt_sem_wait n cnd s1) (\<lambda>_ s2.
     res_bind (rt_sem_wait n mtx s2) (\<lambda>_. Ret 0)))"

definition rt_cond_wait_until :: "nat \<Rightarrow> semid \<Rightarrow> semid \<Rightarrow> rtime \<Rightarrow> kst \<Rightarrow> int res" where
  "rt_cond_wait_until n cnd mtx time s =
     res_bind (rt_sem_signal n mtx s) (\<lambda>_ s1.
     res_bind (rt_sem_wait_until n cnd time s1) (\<lambda>r s2.
       if r \<ge> SEM_TIMOUT then Ret (- 1) s2
       else res_bind (rt_sem_wait_until n mtx time s2) (\<lambda>r. Ret (if r \<ge> SEM_TIMOUT then - 1 else 0))))"

section \<open>Readers-writer locks\<close>

record rwl =
  wrmtx :: semid
  wrsem :: semid
  rdsem :: semid

definition rt_rwl_init :: "rwl \<Rightarrow> kst \<Rightarrow> kst" where
  "rt_rwl_init r s = rt_typed_sem_init (rdsem r) 0 CNT_SEM
     (rt_typed_sem_init (wrsem r) 0 CNT_SEM (rt_typed_sem_init (wrmtx r) 1 RES_SEM s))"

definition rt_rwl_delete :: "nat \<Rightarrow> rwl \<Rightarrow> kst \<Rightarrow> int res" where
  "rt_rwl_delete n r s =
     res_bind (rt_sem_delete n (rdsem r) s) (\<lambda>a s1.
     res_bind (rt_sem_delete n (wrsem r) s1) (\<lambda>b s2.
     res_bind (rt_sem_delete n (wrmtx r) s2) (\<lambda>c.
       Ret (if a \<noteq> 0 \<or> b = 0 \<or> c = 0 then 0 else SEM_ERR))))"

text \<open>A waiting writer of at least the priority of the current task keeps it out.\<close>

definition writer_ahead :: "rwl \<Rightarrow> kst \<Rightarrow> bool" where
  "writer_ahead r s =
     (case qtask s (qnext s (SemQ (wrsem r))) of
        Task w \<Rightarrow> priority s w \<le> priority s (rt_current s) | _ \<Rightarrow> False)"

definition add_reader :: "rwl \<Rightarrow> int \<Rightarrow> kst \<Rightarrow> kst" where
  "add_reader r d s = upd_sem (rdsem r) (\<lambda>m. m\<lparr>owndby := int_ptr (ptr_int (owndby m) + d)\<rparr>) s"

text \<open>The loops of the lock operations may wait again and again; \<open>k\<close> bounds the rounds.\<close>

primrec rdlock_loop :: "nat \<Rightarrow> nat \<Rightarrow> (nat \<Rightarrow> semid \<Rightarrow> kst \<Rightarrow> int res) \<Rightarrow> rwl \<Rightarrow> tid \<Rightarrow> kst \<Rightarrow> int res" where
  "rdlock_loop 0 n wait r cur s = Stuck"
| "rdlock_loop (Suc k) n wait r cur s =
     (if owndby (sems s (wrmtx r)) \<noteq> NULL \<or>
         (case qtask s (qnext s (SemQ (wrsem r))) of Task w \<Rightarrow> priority s w \<le> priority s cur | _ \<Rightarrow> False) then
        if owndby (sems s (wrmtx r)) = Task cur then Ret (SEM_ERR + 1) s
        else res_bind (wait n (rdsem r) s) (\<lambda>ret s1.
          if ret \<ge> SEM_TIMOUT then Ret ret s1 else rdlock_loop k n wait r cur s1)
      else Ret 0 (add_reader r 1 s))"

definition rt_rwl_rdlock :: "nat \<Rightarrow> nat \<Rightarrow> rwl \<Rightarrow> kst \<Rightarrow> int res" where
  "rt_rwl_rdlock k n r s = rdlock_loop k n rt_sem_wait r (rt_current s) s"

definition rt_rwl_rdlock_until :: "nat \<Rightarrow> nat \<Rightarrow> rwl \<Rightarrow> rtime \<Rightarrow> kst \<Rightarrow> int res" where
  "rt_rwl_rdlock_until k n r time s = rdlock_loop k n (\<lambda>n x. rt_sem_wait_until n x time) r (rt_current s) s"

definition rt_rwl_rdlock_if :: "rwl \<Rightarrow> kst \<Rightarrow> int \<times> kst" where
  "rt_rwl_rdlock_if r s =
     (if owndby (sems s (wrmtx r)) = NULL \<and> \<not> writer_ahead r s then (0, add_reader r 1 s) else (- 1, s))"

primrec wrlock_loop :: "nat \<Rightarrow> nat \<Rightarrow> (nat \<Rightarrow> semid \<Rightarrow> kst \<Rightarrow> int res) \<Rightarrow> rwl \<Rightarrow> kst \<Rightarrow> int res" where
  "wrlock_loop 0 n wait r s = Stuck"
| "wrlock_loop (Suc k) n wait r s =
     (if owndby (sems s (rdsem r)) \<noteq> NULL then
        res_bind (wait n (wrsem r) s) (\<lambda>ret s1.
          if ret \<ge> SEM_TIMOUT then Ret ret s1 else wrlock_loop k n wait r s1)
      else res_bind (wait n (wrmtx r) s) (\<lambda>ret. Ret (if ret \<ge> SEM_TIMOUT then ret else 0)))"

definition rt_rwl_wrlock :: "nat \<Rightarrow> nat \<Rightarrow> rwl \<Rightarrow> kst \<Rightarrow> int res" where
  "rt_rwl_wrlock k n r s = wrlock_loop k n rt_sem_wait r s"

definition rt_rwl_wrlock_until :: "nat \<Rightarrow> nat \<Rightarrow> rwl \<Rightarrow> rtime \<Rightarrow> kst \<Rightarrow> int res" where
  "rt_rwl_wrlock_until k n r time s = wrlock_loop k n (\<lambda>n x. rt_sem_wait_until n x time) r s"

definition rt_rwl_wrlock_if :: "rwl \<Rightarrow> kst \<Rightarrow> int \<times> kst" where
  "rt_rwl_wrlock_if r s =
     (if owndby (sems s (rdsem r)) = NULL then
        case rt_sem_wait_if (wrmtx r) s of (v, s1) \<Rightarrow> if v \<ge> 0 then (0, s1) else (- 1, s1)
      else (- 1, s))"

text \<open>Who is woken when the lock gets free: the more urgent of the first writer and the first reader.\<close>

definition rwl_next :: "rwl \<Rightarrow> kst \<Rightarrow> semid option option" where
  "rwl_next r s =
     (if owndby (sems s (wrmtx r)) = NULL \<and> owndby (sems s (rdsem r)) = NULL then
        (case (qtask s (qnext s (SemQ (wrsem r))), qtask s (qnext s (SemQ (rdsem r)))) of
           (Task w, Task d) \<Rightarrow> Some (Some (if priority s w < priority s d then wrsem r else rdsem r))
         | (Task w, NULL) \<Rightarrow> Some (Some (wrsem r))
         | (NULL, Task d) \<Rightarrow> Some (Some (rdsem r))
         | (NULL, NULL) \<Rightarrow> Some None
         | _ \<Rightarrow> None)
      else Some None)"

definition rt_rwl_unlock :: "nat \<Rightarrow> rwl \<Rightarrow> kst \<Rightarrow> int res" where
  "rt_rwl_unlock n r s =
     res_bind (if owndby (sems s (wrmtx r)) \<noteq> NULL then rt_sem_signal n (wrmtx r) s
               else Ret 0 (if owndby (sems s (rdsem r)) \<noteq> NULL then add_reader r (- 1) s else s)) (\<lambda>_ s1.
       lift_opt (rwl_next r s1) (\<lambda>nx.
         case nx of None \<Rightarrow> Ret 0 s1 | Some x \<Rightarrow> res_bind (rt_sem_signal n x s1) (\<lambda>_. Ret 0)))"

section \<open>Recursive spin locks\<close>

record spl =
  spl_owner :: "tid option"
  spl_count :: int
  spl_flags :: nat

definition rt_spl_init :: "spl \<Rightarrow> spl" where
  "rt_spl_init p = p\<lparr>spl_owner := None, spl_count := 0\<rparr>"

text \<open>On one CPU with interrupts off nobody releases the lock while \<^verbatim>\<open>rt_spl_lock\<close> spins: a lock of
  another task is never obtained (\<open>None\<close>).  \<open>flags\<close> are the saved interrupt flags.\<close>

definition rt_spl_lock :: "tid \<Rightarrow> nat \<Rightarrow> spl \<Rightarrow> spl option" where
  "rt_spl_lock cur flags p =
     (if spl_owner p = Some cur then Some (p\<lparr>spl_count := spl_count p + 1\<rparr>)
      else if spl_owner p = None then Some (p\<lparr>spl_owner := Some cur, spl_flags := flags\<rparr>)
      else None)"

definition rt_spl_lock_if :: "tid \<Rightarrow> nat \<Rightarrow> spl \<Rightarrow> int \<times> spl" where
  "rt_spl_lock_if cur flags p =
     (if spl_owner p = Some cur then (0, p\<lparr>spl_count := spl_count p + 1\<rparr>)
      else if spl_owner p = None then (0, p\<lparr>spl_owner := Some cur, spl_flags := flags\<rparr>)
      else (- 1, p))"

text \<open>The second component of the result is the interrupt flags that are restored, if any.\<close>

definition rt_spl_unlock :: "tid \<Rightarrow> nat \<Rightarrow> spl \<Rightarrow> int \<times> nat option \<times> spl" where
  "rt_spl_unlock cur flags p =
     (if spl_owner p = Some cur then
        if spl_count p \<noteq> 0 then (0, None, p\<lparr>spl_count := spl_count p - 1\<rparr>)
        else (0, Some (spl_flags p), p\<lparr>spl_owner := None, spl_count := 0\<rparr>)
      else (- 1, Some flags, p))"

end
