(* ===== verification/Semaphore_Props.thy ===== *)
theory Semaphore_Props
  imports Semaphores
begin

text \<open>
  What the semaphore operations guarantee: the count of a semaphore and the length of its queue
  go together, a signal releases the first task of the queue and makes it ready, a wait puts the
  caller in its place in the queue and passes its priority on to the owner of a resource, a
  broadcast releases every waiting task.
\<close>

section \<open>Count and queue\<close>

text \<open>A semaphore with tasks in its queue has a count that is minus their number.\<close>

definition sem_ok :: "kst \<Rightarrow> semid \<Rightarrow> tid list \<Rightarrow> bool" where
  "sem_ok s x ts \<longleftrightarrow> (if sem_count (sems s x) < 0 then sem_count (sems s x) = - int (length ts) else ts = [])"

lemma sem_ok_queue: "sem_ok s x ts \<Longrightarrow> ts \<noteq> [] \<longleftrightarrow> sem_count (sems s x) < 0"
  by (cases ts) (auto simp: sem_ok_def split: if_splits)

lemma blocked_queues_same:
  "qnext s' = qnext s \<Longrightarrow> qprev s' = qprev s \<Longrightarrow> qtask s' = qtask s \<Longrightarrow>
     blocked_queues s' H qs = blocked_queues s H qs"
  by (simp add: blocked_queues_def queue_list_def)

lemma upd_sem_simps [simp]:
  "sems (upd_sem x f s) = (sems s)(x := f (sems s x))" "qnext (upd_sem x f s) = qnext s"
  "qprev (upd_sem x f s) = qprev s" "qtask (upd_sem x f s) = qtask s" "state (upd_sem x f s) = state s"
  "priority (upd_sem x f s) = priority s" "rt_current (upd_sem x f s) = rt_current s"
  "blocked_on (upd_sem x f s) = blocked_on s" "is_hard (upd_sem x f s) = is_hard s"
  "magic (upd_sem x f s) = magic s" "owndres (upd_sem x f s) = owndres s"
  "resume_time (upd_sem x f s) = resume_time s" "rt_time_h (upd_sem x f s) = rt_time_h s"
  "suspdepth (upd_sem x f s) = suspdepth s" "prio_passed_to (upd_sem x f s) = prio_passed_to s"
  by (simp_all add: upd_sem_def)

lemma same_sched_upd_sem: "same_sched s (upd_sem x f s)"
  by (simp add: same_sched_def upd_sem_def)

lemma queue_head:
  assumes "blocked_queues s H qs" and "h \<in> H"
  shows "qnext s h = (case qs h of [] \<Rightarrow> h | t # ts \<Rightarrow> TaskQ t)"
    and "qs h = t # ts \<Longrightarrow> qtask s (TaskQ t) = Task t"
  using blocked_queues_ring [OF assms] by (auto dest: links_first split: list.split)

section \<open>Waking one task\<close>

lemma wake_blocked_ok:
  assumes i: "sched_inv s rq tq" and l: "live s t"
  shows "\<exists>s' rq'. wake_blocked (w OR DELAYED) t s =
       Some (state s t \<noteq> READY \<and> state s t AND NOT (w OR DELAYED) = READY, s')
     \<and> sched_inv s' rq' (remove1 t tq) \<and> release_frame s s'
     \<and> state s' = (if state s t = READY then state s else (state s)(t := state s t AND NOT (w OR DELAYED)))
     \<and> blocked_on s' = blocked_on s"
proof -
  obtain s' rq' where r: "(let s1 = rem_timed_task t s in
                   if state s1 t \<noteq> READY then
                     let s2 = and_not_state t (w OR DELAYED) s1 in
                     if state s2 t = READY then enq_ready_task t s2 else Some s2
                   else Some s1) = Some s'"
    "sched_inv s' rq' (remove1 t tq)" "release_frame s s'"
    "state s' = (if state s t = READY then state s else (state s)(t := state s t AND NOT (w OR DELAYED)))"
    "blocked_on s' = blocked_on s"
    using release_one [OF i l, of w] by (elim exE conjE)
  have e: "state (rem_timed_task t s) = state s" by (simp add: rem_timed_task_def)
  have a: "state (and_not_state t (w OR DELAYED) (rem_timed_task t s)) t = state s t AND NOT (w OR DELAYED)"
    by (simp add: and_not_state_def e)
  have "wake_blocked (w OR DELAYED) t s =
       Some (state s t \<noteq> READY \<and> state s t AND NOT (w OR DELAYED) = READY, s')"
  proof (cases "state s t \<noteq> READY")
    case True
    show ?thesis
    proof (cases "state s t AND NOT (w OR DELAYED) = READY")
      case r1: True
      then show ?thesis
        using r(1) True unfolding wake_blocked_def Let_def e a by (simp only: if_True not_False_eq_True simp_thms bind.bind_lunit)
    next
      case False
      then show ?thesis
        using r(1) True unfolding wake_blocked_def Let_def e a by (simp only: if_True if_False simp_thms) simp
    qed
  next
    case False
    then show ?thesis
      using r(1) unfolding wake_blocked_def Let_def e by simp
  qed
  then show ?thesis using r by (intro exI conjI)
qed

section \<open>Signal\<close>

text \<open>The first task of the queue leaves it.\<close>

lemma dequeue_first:
  assumes b: "blocked_queues s H qs" and h: "h \<in> H" and q: "qs h = t # ts"
  shows "blocked_queues (dequeue_blocked t s) H (qs(h := ts))"
  using dequeue_blocked_queues [OF b h, of t] q by simp

lemma same_sched_dequeue: "same_sched s (dequeue_blocked t s)"
  by (simp add: same_sched_def dequeue_blocked_def Let_def unlink_queue_def)

lemma sem_pop_empty:
  assumes "blocked_queues s H qs" and "SemQ x \<in> H" and "qs (SemQ x) = []" and "qtask s (SemQ x) = NULL"
  shows "sem_pop x s = Some (False, s)"
  using queue_head(1) [OF assms(1,2)] assms(3,4) by (simp add: sem_pop_def)

lemma sem_pop_first:
  assumes i: "sched_inv s rq tq" and b: "blocked_queues s H qs" and h: "SemQ x \<in> H"
    and q: "qs (SemQ x) = t # ts" and l: "live s t"
  shows "\<exists>s' rq'. sem_pop x s =
       Some (state s t \<noteq> READY \<and> state s t AND NOT (SEMAPHORE OR DELAYED) = READY, s')
     \<and> sched_inv s' rq' (remove1 t tq) \<and> blocked_queues s' H (qs(SemQ x := ts))
     \<and> state s' = (if state s t = READY then state s
                   else (state s)(t := state s t AND NOT (SEMAPHORE OR DELAYED)))
     \<and> blocked_on s' = (blocked_on s)(t := None) \<and> sems s' = sems s \<and> rt_current s' = rt_current s
     \<and> priority s' = priority s \<and> qtask s' = qtask s \<and> magic s' = magic s
     \<and> base_priority s' = base_priority s \<and> owndres s' = owndres s \<and> suspdepth s' = suspdepth s"
proof -
  let ?d = "dequeue_blocked t s"
  have id: "sched_inv ?d rq tq" by (rule same_sched_inv [OF same_sched_dequeue i])
  have ld: "live ?d t" using l by (simp add: live_def)
  obtain s' rq' where w: "wake_blocked (SEMAPHORE OR DELAYED) t ?d =
       Some (state ?d t \<noteq> READY \<and> state ?d t AND NOT (SEMAPHORE OR DELAYED) = READY, s')"
    "sched_inv s' rq' (remove1 t tq)" "release_frame ?d s'"
    "state s' = (if state ?d t = READY then state ?d else (state ?d)(t := state ?d t AND NOT (SEMAPHORE OR DELAYED)))"
    "blocked_on s' = blocked_on ?d"
    using wake_blocked_ok [OF id ld, of SEMAPHORE] by (elim exE conjE)
  have "qtask s (qnext s (SemQ x)) = Task t"
    using queue_head [OF b h] q by simp
  then have 1: "sem_pop x s = wake_blocked (SEMAPHORE OR DELAYED) t ?d" by (simp add: sem_pop_def)
  have 2: "blocked_queues s' H (qs(SemQ x := ts))"
    using dequeue_first [OF b h q] w(3) by (simp add: release_frame_def blocked_queues_def queue_list_def)
  have 3: "sems s' = sems s" "rt_current s' = rt_current s" "priority s' = priority s" "qtask s' = qtask s"
    "magic s' = magic s" "base_priority s' = base_priority s" "owndres s' = owndres s"
    "suspdepth s' = suspdepth s" using w(3) by (simp_all add: release_frame_def)
  have 4: "blocked_on s' = (blocked_on s)(t := None)" using w(5) by simp
  note a = w(1) [unfolded dequeue_blocked_simps] w(4) [unfolded dequeue_blocked_simps]
  show ?thesis
    unfolding 1 by (intro exI conjI, rule a(1), rule w(2), rule 2, rule a(2), rule 4, (rule 3)+)
qed

lemma sem_up_count:
  "sem_count (sem_up m) = (if sem_type m \<noteq> 0 \<and> sem_count m \<ge> 1 then 1 else sem_count m + 1)"
  "sem_type (sem_up m) = sem_type m" "sem_magic (sem_up m) = sem_magic m" "owndby (sem_up m) = owndby m"
  by (simp_all add: sem_up_def)

text \<open>A signal of a counting or binary semaphore.\<close>

lemma rt_sem_signal_free:
  assumes b: "blocked_queues s H qs" and h: "SemQ x \<in> H" and q: "qs (SemQ x) = []"
    and n: "qtask s (SemQ x) = NULL" and m: "sem_magic (sems s x) = RT_SEM_MAGIC" and ty: "sem_type (sems s x) \<le> 0"
  shows "rt_sem_signal n x s = Ret 0 (upd_sem x sem_up s)"
proof -
  let ?u = "upd_sem x sem_up s"
  have bu: "blocked_queues ?u H qs" using b by (simp add: blocked_queues_def queue_list_def)
  have p: "sem_pop x ?u = Some (False, ?u)" by (rule sem_pop_empty [OF bu h q]) (simp add: n)
  have "\<not> 1 < sem_type (sems s x)" "\<not> 0 < sem_type (sems s x)" using ty by auto
  then show ?thesis
    using p m by (simp add: rt_sem_signal_def sem_up_count)
qed

text \<open>C9: signalling a semaphore on which tasks wait makes the first of them, and only it,
  ready, and keeps count and queue in step.\<close>

lemma rt_sem_signal_wakes:
  assumes i: "sched_inv s rq tq" and b: "blocked_queues s H qs" and h: "SemQ x \<in> H"
    and q: "qs (SemQ x) = t # ts" and l: "live s t" and m: "sem_magic (sems s x) = RT_SEM_MAGIC"
    and ty: "sem_type (sems s x) \<le> 0" and ok: "sem_ok s x (t # ts)"
    and st: "state s t AND NOT (SEMAPHORE OR DELAYED) = READY" "state s t \<noteq> READY"
  shows "\<exists>s' rq'. rt_sem_signal n x s = schedule_ret n 0 s' \<and> sched_inv s' rq' (remove1 t tq)
     \<and> blocked_queues s' H (qs(SemQ x := ts)) \<and> sem_ok s' x ts
     \<and> state s' = (state s)(t := READY) \<and> blocked_on s' t = None"
proof -
  let ?u = "upd_sem x sem_up s"
  have bu: "blocked_queues ?u H qs" using b by (simp add: blocked_queues_def queue_list_def)
  have iu: "sched_inv ?u rq tq" by (rule same_sched_inv [OF same_sched_upd_sem i])
  have lu: "live ?u t" using l by (simp add: live_def)
  obtain s' rq' where p: "sem_pop x ?u =
       Some (state ?u t \<noteq> READY \<and> state ?u t AND NOT (SEMAPHORE OR DELAYED) = READY, s')"
    "sched_inv s' rq' (remove1 t tq)" "blocked_queues s' H (qs(SemQ x := ts))"
    "state s' = (if state ?u t = READY then state ?u
                   else (state ?u)(t := state ?u t AND NOT (SEMAPHORE OR DELAYED)))"
    "blocked_on s' = (blocked_on ?u)(t := None)" "sems s' = sems ?u"
    using sem_pop_first [OF iu bu h q lu] by (elim exE conjE)
  have st': "state s' = (state s)(t := READY)" using p(4) st unfolding upd_sem_simps by (simp only: if_False)
  have tr: "(state ?u t \<noteq> READY \<and> state ?u t AND NOT (SEMAPHORE OR DELAYED) = READY) = True"
    using st unfolding upd_sem_simps by blast
  have "\<not> 1 < sem_type (sems s x)" "\<not> 0 < sem_type (sems s' x)" using ty p(6) by (simp_all add: sem_up_count)
  then have 1: "rt_sem_signal n x s = schedule_ret n 0 s'"
    using p(1) m unfolding tr by (simp add: rt_sem_signal_def)
  have "sem_ok s' x ts"
    using ok p(6) by (auto simp: sem_ok_def sem_up_count split: if_splits)
  note ok' = this
  have bo: "blocked_on s' t = None" using p(5) by simp
  show ?thesis by (intro exI conjI, rule 1, rule p(2), rule p(3), rule ok', rule st', rule bo)
qed

section \<open>Wait\<close>

text \<open>The caller is put in its place in the queue: behind the tasks of at least its priority, or at
  the end of a first come first served queue.\<close>

definition queue_place :: "kst \<Rightarrow> int \<Rightarrow> tid \<Rightarrow> tid list \<Rightarrow> tid list" where
  "queue_place s qt t ts = (if qt = 0 then queue_insert s (priority s t) t ts else ts @ [t])"

lemma length_queue_place [simp]: "length (queue_place s qt t ts) = Suc (length ts)"
proof -
  have "length (takeWhile P ts) + length (dropWhile P ts) = length ts" for P
    by (metis length_append takeWhile_dropWhile_id)
  then show ?thesis by (simp add: queue_place_def insert_after_while_def)
qed

lemma same_sched_link_queue: "same_sched s (link_queue n p (s\<lparr>blocked_on := b\<rparr>))"
  by (simp add: same_sched_def link_queue_def)

text \<open>Blocking without a limit of time, once the priority has been passed on.\<close>

lemma block_current:
  assumes h: "is_hard s cur \<noteq> 0" and b: "blocked_queues s H qs" and x: "SemQ x \<in> H"
    and nq: "\<forall>h \<in> H. cur \<notin> set (qs h)" and tq: "qtask s (TaskQ cur) = Task cur"
  shows "\<exists>s' pos. do { s2 \<leftarrow> rem_ready_current cur (or_state cur w (sem_down x s));
                      enqueue_blocked cur (SemQ x) (qtype (sems s2 x)) s2 } = Some s'
     \<and> s' = link_queue (TaskQ cur) pos
              ((set_state cur (state s cur OR w) (unlink_ready cur (sem_down x s)))
                 \<lparr>blocked_on := (blocked_on s)(cur := Some (SemQ x))\<rparr>)
     \<and> blocked_queues s' H (qs(SemQ x := queue_place s (qtype (sems s x)) cur (qs (SemQ x))))"
proof -
  let ?o = "or_state cur w (sem_down x s)"
  let ?u = "unlink_ready cur ?o"
  have ho: "is_hard ?o cur \<noteq> 0" using h by (simp add: or_state_def sem_down_def)
  have bu: "blocked_queues ?u H qs" and tu: "qtask ?u (TaskQ cur) = Task cur"
    using b tq by (simp_all add: blocked_queues_def queue_list_def or_state_def sem_down_def)
  have q: "qtype (sems ?u x) = qtype (sems s x)" "priority ?u = priority s"
    by (simp_all add: or_state_def sem_down_def)
  obtain pos where e: "enqueue_blocked cur (SemQ x) (qtype (sems ?u x)) ?u =
        Some (link_queue (TaskQ cur) pos (?u\<lparr>blocked_on := (blocked_on ?u)(cur := Some (SemQ x))\<rparr>))"
    "blocked_queues (link_queue (TaskQ cur) pos (?u\<lparr>blocked_on := (blocked_on ?u)(cur := Some (SemQ x))\<rparr>)) H
         (qs(SemQ x := if qtype (sems ?u x) = 0 then queue_insert ?u (priority ?u cur) cur (qs (SemQ x))
                       else qs (SemQ x) @ [cur]))"
    using enqueue_blocked_eq [OF bu x nq tu] by blast
  have v: "?u\<lparr>blocked_on := (blocked_on ?u)(cur := Some (SemQ x))\<rparr> =
      (set_state cur (state s cur OR w) (unlink_ready cur (sem_down x s)))
                 \<lparr>blocked_on := (blocked_on s)(cur := Some (SemQ x))\<rparr>"
    by (simp add: or_state_def sem_down_def upd_sem_def unlink_ready_def)
  have r: "rem_ready_current cur ?o = Some ?u" by (rule rem_ready_current_eq [OF ho])
  note e2 = e(2) [unfolded v q, folded queue_place_def]
  show ?thesis
    by (intro exI conjI, unfold r bind.bind_lunit e(1) v, rule refl, rule refl, rule e2)
qed

lemma rt_sem_wait_takes:
  assumes "sem_magic (sems s x) = RT_SEM_MAGIC" and "0 < sem_count (sems s x)"
  shows "rt_sem_wait n x s = Ret (sem_count (sems s x)) (take_ownership (rt_current s) x (sem_down x s))"
  using assms by (simp add: rt_sem_wait_def Let_def)

text \<open>Waiting on a counting or binary semaphore that is not free.\<close>

text \<open>C7: waiting on a semaphore that is not free queues the running task in its place, takes
  it out of the ready list and reschedules; what it returns is decided by what happened to the task
  meanwhile.\<close>

lemma rt_sem_wait_blocks:
  assumes i: "sched_inv s rq tq" and b: "blocked_queues s H qs" and x: "SemQ x \<in> H"
    and l: "live s (rt_current s)" and st: "state s (rt_current s) = READY" and p: "0 \<le> priority s (rt_current s)"
    and nq: "\<forall>h \<in> H. rt_current s \<notin> set (qs h)" and tq: "qtask s (TaskQ (rt_current s)) = Task (rt_current s)"
    and m: "sem_magic (sems s x) = RT_SEM_MAGIC" and ty: "sem_type (sems s x) \<le> 0"
    and c: "sem_count (sems s x) \<le> 0" and ok: "sem_ok s x (qs (SemQ x))"
  shows "\<exists>s'. rt_sem_wait n x s = res_bind (rt_schedule n s') (\<lambda>_ t.
            if blocked_on t (rt_current s) \<noteq> None \<or> sem_magic (sems t x) \<noteq> RT_SEM_MAGIC
            then Ret SEM_ERR (forget_pass (rt_current s) t)
            else Ret (sem_count (sems t x)) (take_ownership (rt_current s) x t))
     \<and> sched_inv s' (remove1 (rt_current s) rq) tq
     \<and> blocked_queues s' H (qs(SemQ x := queue_place s (qtype (sems s x)) (rt_current s) (qs (SemQ x))))
     \<and> sem_ok s' x (queue_place s (qtype (sems s x)) (rt_current s) (qs (SemQ x)))
     \<and> state s' = (state s)(rt_current s := READY OR SEMAPHORE)
     \<and> blocked_on s' (rt_current s) = Some (SemQ x)"
proof -
  let ?c = "rt_current s"
  have h: "is_hard s ?c \<noteq> 0" using inv_hard(1) [OF i l] .
  obtain s' pos where e: "do { s2 \<leftarrow> rem_ready_current ?c (or_state ?c SEMAPHORE (sem_down x s));
                      enqueue_blocked ?c (SemQ x) (qtype (sems s2 x)) s2 } = Some s'"
    "s' = link_queue (TaskQ ?c) pos
              ((set_state ?c (state s ?c OR SEMAPHORE) (unlink_ready ?c (sem_down x s)))
                 \<lparr>blocked_on := (blocked_on s)(?c := Some (SemQ x))\<rparr>)"
    "blocked_queues s' H (qs(SemQ x := queue_place s (qtype (sems s x)) ?c (qs (SemQ x))))"
    using block_current [OF h b x nq tq, of SEMAPHORE] by (elim exE conjE)
  have id: "sched_inv (sem_down x s) rq tq"
    unfolding sem_down_def by (rule same_sched_inv [OF same_sched_upd_sem i])
  have "sched_inv (set_state ?c (READY OR SEMAPHORE) (unlink_ready ?c (sem_down x s))) (remove1 ?c rq) tq"
    by (rule inv_unready [OF id]) (use l st p in \<open>simp_all add: sem_down_def live_def\<close>)
  then have 1: "sched_inv s' (remove1 ?c rq) tq"
    unfolding e(2) st by (rule same_sched_inv [OF same_sched_link_queue])
  have bt: "\<not> 0 < sem_type (sems s x)" using ty by simp
  have "sem_block SEMAPHORE ?c x s = Some s'"
    using e(1) bt by (auto simp: sem_block_def pass_to_owner_def bind_eq_Some_conv)
  then have 2: "rt_sem_wait n x s = res_bind (rt_schedule n s') (\<lambda>_ t.
            if blocked_on t ?c \<noteq> None \<or> sem_magic (sems t x) \<noteq> RT_SEM_MAGIC
            then Ret SEM_ERR (forget_pass ?c t)
            else Ret (sem_count (sems t x)) (take_ownership ?c x t))"
    using m c bt by (simp add: rt_sem_wait_def Let_def)
  have cnt: "sem_count (sems s' x) = sem_count (sems s x) - 1" by (simp add: e(2) sem_down_def)
  have 3: "sem_ok s' x (queue_place s (qtype (sems s x)) ?c (qs (SemQ x)))"
    using ok c by (auto simp: sem_ok_def cnt split: if_splits)
  have 4: "state s' = (state s)(?c := READY OR SEMAPHORE)" "blocked_on s' ?c = Some (SemQ x)"
    by (simp_all add: e(2) st sem_down_def)
  show ?thesis by (intro exI conjI, rule 2, rule 1, rule e(3), rule 3, rule 4(1), rule 4(2))
qed

section \<open>Waiting on a resource\<close>

text \<open>What passing a priority on leaves alone.\<close>

definition pass_frame :: "kst \<Rightarrow> kst \<Rightarrow> bool" where
  "pass_frame s s' \<longleftrightarrow> sems s' = sems s \<and> qtask s' = qtask s \<and> state s' = state s \<and> is_hard s' = is_hard s
     \<and> magic s' = magic s \<and> rt_current s' = rt_current s \<and> blocked_on s' = blocked_on s
     \<and> prio_passed_to s' = prio_passed_to s \<and> tnext s' = tnext s \<and> tprev s' = tprev s
     \<and> resume_time s' = resume_time s \<and> policy s' = policy s \<and> owndres s' = owndres s"

lemma pass_frame_refl: "pass_frame s s" by (simp add: pass_frame_def)

lemma pass_frame_trans: "pass_frame s t \<Longrightarrow> pass_frame t u \<Longrightarrow> pass_frame s u"
  by (simp add: pass_frame_def)

lemma enq_ready_cases:
  assumes "enq_ready_task t s = Some s'"
  shows "(\<exists>pos. s' = link_ready t pos s) \<or> (\<exists>l. s' = pend_wake_up l s)"
  using assms by (cases "lnxtsk s t"; cases "ready_pos s (priority s t) (rnext s LINUX)")
    (auto simp: enq_ready_task_def split: if_splits)

lemma enq_ready_frame:
  assumes "enq_ready_task t s = Some s'"
  shows "pass_frame s s'"
proof -
  note enq_ready_cases [OF assms]
  moreover have "pass_frame s (link_ready t pos s)" for pos
    by (simp add: pass_frame_def link_ready_def)
  moreover have "pass_frame s (pend_wake_up l s)" for l
    by (simp add: pass_frame_def pend_wake_up_def)
  ultimately show ?thesis by blast
qed

lemma requeue_frame:
  assumes "requeue_blocked t q s = Some s'"
  shows "pass_frame s s'"
proof -
  obtain p where "s' = link_queue (TaskQ t) p (unlink_queue (TaskQ t) s)"
    using assms unfolding requeue_blocked_def Let_def bind_eq_Some_conv by blast
  then show ?thesis by (simp add: pass_frame_def link_queue_def unlink_queue_def)
qed

lemma inherit_prio_frame:
  assumes a: "inherit_prio t p s = Some (b, s')"
  shows "pass_frame s s'"
proof -
  let ?s = "s\<lparr>priority := (priority s)(t := p)\<rparr>"
  have f: "pass_frame s ?s" "pass_frame s (unlink_ready t ?s)"
    by (simp_all add: pass_frame_def unlink_ready_def)
  show ?thesis
  proof (cases "state s t = READY")
    case True
    then have "enq_ready_task t (unlink_ready t ?s) = Some s'"
      using a by (simp add: inherit_prio_def bind_eq_Some_conv)
    then show ?thesis using enq_ready_frame f(2) pass_frame_trans by blast
  next
    case False
    show ?thesis
    proof (cases "blocked_on s t")
      case None
      then have "s' = ?s" using a False by (simp add: inherit_prio_def)
      then show ?thesis using f by simp
    next
      case (Some q)
      have "s' = ?s \<or> requeue_blocked t q ?s = Some s'"
        using a False Some by (cases "prio_ordered ?s t q")
          (auto simp: inherit_prio_def Let_def bind_eq_Some_conv split: if_splits)
      then show ?thesis using f(1) requeue_frame pass_frame_trans by blast
    qed
  qed
qed

lemma pass_loop_frame:
  assumes "pass_loop to0 fr0 m0 s0 = Some r0"
  shows "pass_frame s0 (snd r0)"
proof (rule pass_loop.raw_induct [where P = "\<lambda>to fr m s r. pass_frame s (snd r)", OF _ assms])
  fix rec to fr m s r
  assume ih: "\<And>to fr m s r. rec to fr m s = Some r \<Longrightarrow> pass_frame s (snd r)"
    and eq: "(case to of None \<Rightarrow> Some (m, s)
       | Some t \<Rightarrow> if priority s fr < priority s t
           then inherit_prio t (priority s fr) s \<bind> (\<lambda>(b, s1). rec (prio_passed_to s1 t) fr (m \<or> b) s1)
           else Some (m, s)) = Some r"
  show "pass_frame s (snd r)"
  proof (cases to)
    case None
    then have "r = (m, s)" using eq by simp
    then show ?thesis by (simp add: pass_frame_refl)
  next
    case (Some t)
    show ?thesis
    proof (cases "priority s fr < priority s t")
      case False
      then have "r = (m, s)" using eq Some by simp
      then show ?thesis by (simp add: pass_frame_refl)
    next
      case True
      then obtain b s1 where "inherit_prio t (priority s fr) s = Some (b, s1)"
        "rec (prio_passed_to s1 t) fr (m \<or> b) s1 = Some r"
        using eq Some by (auto simp: bind_eq_Some_conv)
      then show ?thesis using ih inherit_prio_frame pass_frame_trans by blast
    qed
  qed
qed

lemma pass_prio_frame:
  "pass_prio to from s = Some (b, s') \<Longrightarrow>
     pass_frame (s\<lparr>prio_passed_to := (prio_passed_to s)(from := to)\<rparr>) s'"
  using pass_loop_frame by (fastforce simp: pass_prio_def)

text \<open>
  The caller blocks on a resource owned by another task: the owner, and every task the owner
  waits for in turn, runs at least at the caller's priority from then on.
\<close>

text \<open>The current task leaves the ready list for the queue of a semaphore.\<close>

lemma block_current_ready:
  assumes h: "is_hard s c \<noteq> 0" and b: "blocked_queues s H qs" and x: "SemQ x \<in> H" and nq: "\<forall>k \<in> H. c \<notin> set (qs k)"
    and tq: "qtask s (TaskQ c) = Task c" and r: "ready_list s rq" "in_prio_order s rq" "c \<in> set rq"
  shows "\<exists>s'. do { s2 \<leftarrow> rem_ready_current c (or_state c SEMAPHORE (sem_down x s));
                   enqueue_blocked c (SemQ x) (qtype (sems s2 x)) s2 } = Some s'
     \<and> priority s' = priority s \<and> prio_passed_to s' = prio_passed_to s \<and> sem_count (sems s' x) = sem_count (sems s x) - 1
     \<and> (\<exists>rq'. ready_list s' rq' \<and> set rq' = set rq - {c} \<and> in_prio_order s' rq')
     \<and> (\<exists>qs'. blocked_queues s' H qs' \<and> set (qs' (SemQ x)) = insert c (set (qs (SemQ x))))"
proof -
  obtain s' pos where e: "do { s2 \<leftarrow> rem_ready_current c (or_state c SEMAPHORE (sem_down x s));
                      enqueue_blocked c (SemQ x) (qtype (sems s2 x)) s2 } = Some s'"
    "s' = link_queue (TaskQ c) pos
              ((set_state c (state s c OR SEMAPHORE) (unlink_ready c (sem_down x s)))
                 \<lparr>blocked_on := (blocked_on s)(c := Some (SemQ x))\<rparr>)"
    "blocked_queues s' H (qs(SemQ x := queue_place s (qtype (sems s x)) c (qs (SemQ x))))"
    using block_current [OF h b x nq tq, of SEMAPHORE] by (elim exE conjE)
  have f: "priority s' = priority s" "prio_passed_to s' = prio_passed_to s" "sem_count (sems s' x) = sem_count (sems s x) - 1"
    by (simp_all add: e(2) sem_down_def)
  have "ready_list (unlink_ready c s) (remove1 c rq)" by (rule ready_list_unlink [OF r(1,3)])
  then have "ready_list s' (remove1 c rq)" by (simp add: e(2) ready_list_def sem_down_def upd_sem_def)
  moreover have "set (remove1 c rq) = set rq - {c}" using r(1) by (auto simp: ready_list_def ring_def)
  moreover have "in_prio_order s' (remove1 c rq)" using r(2) sorted_wrt_remove1 by (simp add: in_prio_order_def f)
  ultimately have 1: "\<exists>rq'. ready_list s' rq' \<and> set rq' = set rq - {c} \<and> in_prio_order s' rq'" by blast
  have "set (queue_place s (qtype (sems s x)) c (qs (SemQ x))) = insert c (set (qs (SemQ x)))" by (simp add: queue_place_def)
  then have 2: "\<exists>qs'. blocked_queues s' H qs' \<and> set (qs' (SemQ x)) = insert c (set (qs (SemQ x)))"
    using e(3) by (metis fun_upd_same)
  show ?thesis by (rule exI [where x = s'], intro conjI, rule e(1), (rule f)+, rule 1, rule 2)
qed

text \<open>C8: waiting on a resource that another task owns passes the waiting task's priority on,
  so that the owner and every owner further on are at least as urgent as the waiting task.\<close>

lemma rt_sem_wait_inherits:
  assumes wf: "prio_wf s rq H qs T" and inh: "inherited s T" and c: "rt_current s \<in> T" and o: "own \<in> T"
    and p: "0 \<le> priority s (rt_current s)" "priority s (rt_current s) < RT_LINUX_PRIORITY"
    and x: "SemQ x \<in> H" and nq: "\<forall>h \<in> H. rt_current s \<notin> set (qs h)"
    and st: "state s (rt_current s) = READY" and tq: "qtask s (TaskQ (rt_current s)) = Task (rt_current s)"
    and m: "sem_magic (sems s x) = RT_SEM_MAGIC" and ty: "0 < sem_type (sems s x)"
    and cnt: "sem_count (sems s x) \<le> 0" and own: "owndby (sems s x) = Task own" "own \<noteq> rt_current s"
  shows "\<exists>s'. rt_sem_wait n x s = res_bind (rt_schedule n s') (\<lambda>_ t.
            if blocked_on t (rt_current s) \<noteq> None \<or> sem_magic (sems t x) \<noteq> RT_SEM_MAGIC
            then Ret SEM_ERR (forget_pass (rt_current s) t)
            else Ret (sem_count (sems t x)) (take_ownership (rt_current s) x t))
     \<and> inherited s' T \<and> priority s' own \<le> priority s (rt_current s)
     \<and> prio_passed_to s' (rt_current s) = Some own
     \<and> (\<exists>rq'. ready_list s' rq' \<and> set rq' = set rq - {rt_current s} \<and> in_prio_order s' rq')
     \<and> (\<exists>qs'. blocked_queues s' H qs' \<and> set (qs' (SemQ x)) = insert (rt_current s) (set (qs (SemQ x))))
     \<and> sem_count (sems s' x) = sem_count (sems s x) - 1"
proof -
  let ?c = "rt_current s"
  obtain b s1 rq1 qs1 where s1: "pass_prio (Some own) ?c s = Some (b, s1)" "prio_wf s1 rq1 H qs1 T"
    "inherited s1 T" "priority s1 own \<le> priority s ?c" "priority s1 ?c = priority s ?c"
    "set rq1 = set rq" "\<forall>h. set (qs1 h) = set (qs h)"
    using pass_prio_ok [OF wf inh c o p] by (elim exE conjE)
  note f = pass_prio_frame [OF s1(1), unfolded pass_frame_def]
  have r1: "ready_list s1 rq1" "in_prio_order s1 rq1" and b1: "blocked_queues s1 H qs1"
    and h1: "is_hard s1 ?c \<noteq> 0" using s1(2) c by (simp_all add: prio_wf_def)
  have nq1: "\<forall>h \<in> H. ?c \<notin> set (qs1 h)" and tq1: "qtask s1 (TaskQ ?c) = Task ?c"
    using nq s1(7) tq f by auto
  have se: "sems s1 = sems s" and st1: "state s1 = state s" using f by auto
  have cr: "?c \<in> set rq1" using s1(2) c st st1 by (auto simp: prio_wf_def)
  obtain s' where e: "do { s2 \<leftarrow> rem_ready_current ?c (or_state ?c SEMAPHORE (sem_down x s1));
                      enqueue_blocked ?c (SemQ x) (qtype (sems s2 x)) s2 } = Some s'"
    and pr: "priority s' = priority s1" "prio_passed_to s' = prio_passed_to s1"
    and 6: "sem_count (sems s' x) = sem_count (sems s x) - 1"
    and 4: "\<exists>rq'. ready_list s' rq' \<and> set rq' = set rq - {?c} \<and> in_prio_order s' rq'"
    and 5: "\<exists>qs'. blocked_queues s' H qs' \<and> set (qs' (SemQ x)) = insert ?c (set (qs (SemQ x)))"
    using block_current_ready [OF h1 b1 x nq1 tq1 r1 cr, unfolded se s1(6) s1(7) [rule_format]] by (rule exE) (elim conjE, rule that)
  have "sem_block SEMAPHORE ?c x s = Some s'"
    using e s1(1) ty own by (auto simp: sem_block_def pass_to_owner_def bind_eq_Some_conv)
  then have 1: "rt_sem_wait n x s = res_bind (rt_schedule n s') (\<lambda>_ t.
            if blocked_on t ?c \<noteq> None \<or> sem_magic (sems t x) \<noteq> RT_SEM_MAGIC
            then Ret SEM_ERR (forget_pass ?c t)
            else Ret (sem_count (sems t x)) (take_ownership ?c x t))"
    using m cnt own by (simp add: rt_sem_wait_def Let_def)
  have 2: "inherited s' T" using s1(3) by (simp add: inherited_def pr)
  have 3: "priority s' own \<le> priority s ?c" "prio_passed_to s' ?c = Some own" using s1(4) f by (simp_all add: pr)
  show ?thesis by (rule exI [where x = s'], intro conjI, rule 1, rule 2, rule 3(1), rule 3(2), rule 4, rule 5, rule 6)
qed

text \<open>A resource taken again by its owner.\<close>

lemma rt_sem_wait_nested:
  assumes "sem_magic (sems s x) = RT_SEM_MAGIC" and "sem_count (sems s x) \<le> 0"
    and "0 < sem_type (sems s x)" and "owndby (sems s x) = Task (rt_current s)"
  shows "rt_sem_wait n x s = Ret (sem_count (sems s x)) (upd_sem x (\<lambda>m. m\<lparr>sem_type := sem_type m + 1\<rparr>) s)"
  using assms by (simp add: rt_sem_wait_def Let_def)

lemma rt_sem_signal_nested:
  assumes "sem_magic (sems s x) = RT_SEM_MAGIC" and "1 < sem_type (sems s x)"
  shows "rt_sem_signal n x s = Ret 0 (upd_sem x (\<lambda>m. m\<lparr>sem_type := sem_type m - 1\<rparr>) s)"
  using assms by (simp add: rt_sem_signal_def)

section \<open>Broadcast and barrier\<close>

abbreviation released :: "32 word \<Rightarrow> 32 word" where
  "released w \<equiv> (if w = READY then w else w AND NOT (SEMAPHORE OR DELAYED))"

abbreviation gets_ready :: "kst \<Rightarrow> tid \<Rightarrow> bool" where
  "gets_ready s t \<equiv> state s t \<noteq> READY \<and> state s t AND NOT (SEMAPHORE OR DELAYED) = READY"

lemma qnext_after_dequeue:
  assumes b: "blocked_queues s H qs" and h: "h \<in> H" and q: "qs h = t # ts"
  shows "qnext (dequeue_blocked t s) (TaskQ t) = qnext (dequeue_blocked t s) h"
proof -
  have r: "links (qnext s) (qprev s) h (map TaskQ (t # ts)) h" and d: "distinct (t # ts)"
    and n: "h \<notin> TaskQ ` set (t # ts)"
    using blocked_queues_ring [OF b h] unfolding q by blast+
  have p: "qprev s (TaskQ t) = h" and nx: "qnext s (TaskQ t) = (case ts of [] \<Rightarrow> h | u # us \<Rightarrow> TaskQ u)"
    using r by (auto dest: links_first split: list.split)
  have "qnext (dequeue_blocked t s) = unlink_nx (qnext s) (qprev s) (TaskQ t)"
    by (simp add: dequeue_blocked_def Let_def unlink_queue_def)
  moreover have "TaskQ t \<noteq> h" using n by auto
  ultimately show ?thesis using p by (simp add: unlink_nx_def)
qed

lemma broadcast_loop_ok:
  assumes "blocked_queues s H qs" and "h \<in> H" and "qs h = ws" and "sched_inv s rq tq"
    and "\<forall>t \<in> set ws. live s t" and "distinct ws"
  shows "\<exists>s' rq'. broadcast_loop h (qnext s h) m s = Some (m \<or> (\<exists>t \<in> set ws. gets_ready s t), s')
     \<and> sched_inv s' rq' (filter (\<lambda>x. x \<notin> set ws) tq) \<and> blocked_queues s' H (qs(h := []))
     \<and> state s' = (\<lambda>x. if x \<in> set ws then released (state s x) else state s x)
     \<and> blocked_on s' = (\<lambda>x. if x \<in> set ws then None else blocked_on s x)
     \<and> sems s' = sems s \<and> rt_current s' = rt_current s"
  using assms
proof (induction ws arbitrary: s rq tq qs m)
  case Nil
  have "qnext s h = h" using queue_head(1) [OF Nil(1,2)] Nil(3) by simp
  then have e: "broadcast_loop h (qnext s h) m s = Some (m, s)" by (subst broadcast_loop.simps) simp
  have "blocked_queues s H (qs(h := []))" using Nil(1,3) by (metis fun_upd_triv)
  then show ?case
    by (intro exI [where x = s] exI [where x = rq] conjI) (simp_all add: e Nil(4) del: fun_upd_apply)
next
  case (Cons t ws)
  let ?d = "dequeue_blocked t s"
  have h: "qnext s h = TaskQ t" "qtask s (TaskQ t) = Task t"
    using queue_head [OF Cons.prems(1,2)] Cons.prems(3) by simp_all
  have hn: "TaskQ t \<noteq> h" using Cons.prems(1,2) by (auto simp: blocked_queues_def)
  have id: "sched_inv ?d rq tq" by (rule same_sched_inv [OF same_sched_dequeue Cons.prems(4)])
  have ld: "live ?d t" using Cons.prems(5) by (simp add: live_def)
  obtain s1 rq1 where w: "wake_blocked (SEMAPHORE OR DELAYED) t ?d =
       Some (state ?d t \<noteq> READY \<and> state ?d t AND NOT (SEMAPHORE OR DELAYED) = READY, s1)"
    "sched_inv s1 rq1 (remove1 t tq)" "release_frame ?d s1"
    "state s1 = (if state ?d t = READY then state ?d else (state ?d)(t := state ?d t AND NOT (SEMAPHORE OR DELAYED)))"
    "blocked_on s1 = blocked_on ?d"
    using wake_blocked_ok [OF id ld, of SEMAPHORE] by (elim exE conjE)
  note w1 = w(1) [unfolded dequeue_blocked_simps] and w4 = w(4) [unfolded dequeue_blocked_simps]
  have f: "qnext s1 = qnext ?d" "qprev s1 = qprev ?d" "qtask s1 = qtask ?d" "sems s1 = sems s"
    "rt_current s1 = rt_current s" "magic s1 = magic s" using w(3) by (simp_all add: release_frame_def)
  have b1: "blocked_queues s1 H (qs(h := ws))"
    using dequeue_first [OF Cons.prems(1-3)] blocked_queues_same [OF f(1-3)] by simp
  have q1: "(qs(h := ws)) h = ws" by simp
  have l1: "\<forall>x \<in> set ws. live s1 x" using Cons.prems(5) by (simp add: live_def f(6))
  have dw: "distinct ws" and tw: "t \<notin> set ws" using Cons.prems(6) by auto
  obtain s' rq' where s': "broadcast_loop h (qnext s1 h) (m \<or> gets_ready s t) s1 =
        Some ((m \<or> gets_ready s t) \<or> (\<exists>x \<in> set ws. gets_ready s1 x), s')"
    "sched_inv s' rq' (filter (\<lambda>x. x \<notin> set ws) (remove1 t tq))" "blocked_queues s' H ((qs(h := ws))(h := []))"
    "state s' = (\<lambda>x. if x \<in> set ws then released (state s1 x) else state s1 x)"
    "blocked_on s' = (\<lambda>x. if x \<in> set ws then None else blocked_on s1 x)" "sems s' = sems s1"
    "rt_current s' = rt_current s1"
    using Cons.IH [OF b1 Cons.prems(2) q1 w(2) l1 dw, of "m \<or> gets_ready s t"] by (elim exE conjE)
  have st1: "x \<noteq> t \<Longrightarrow> state s1 x = state s x" for x unfolding w4 by simp
  have "(\<exists>x \<in> set ws. gets_ready s1 x) = (\<exists>x \<in> set ws. gets_ready s x)"
    using st1 tw by (metis)
  then have mm: "((m \<or> gets_ready s t) \<or> (\<exists>x \<in> set ws. gets_ready s1 x)) = (m \<or> (\<exists>x \<in> set (t # ws). gets_ready s x))"
    by auto
  have "qnext s1 (TaskQ t) = qnext s1 h" using qnext_after_dequeue [OF Cons.prems(1-3)] f by simp
  then have 1: "broadcast_loop h (qnext s h) m s = Some (m \<or> (\<exists>x \<in> set (t # ws). gets_ready s x), s')"
    using h hn w1 s'(1) unfolding mm by (subst broadcast_loop.simps) simp
  have dq: "distinct tq" using sched_invD(4) [OF Cons.prems(4)] by (auto simp: timed_list_def ring_def)
  have 2: "filter (\<lambda>x. x \<notin> set ws) (remove1 t tq) = filter (\<lambda>x. x \<notin> set (t # ws)) tq"
    using dq by (simp add: distinct_remove1_removeAll removeAll_filter_not_eq filter_filter) metis
  note s2 = s'(2) [unfolded 2]
  have 3: "blocked_queues s' H (qs(h := []))" using s'(3) by simp
  have 4: "state s' = (\<lambda>x. if x \<in> set (t # ws) then released (state s x) else state s x)"
  proof
    fix x
    show "state s' x = (if x \<in> set (t # ws) then released (state s x) else state s x)"
      unfolding s'(4) w4 using tw by (cases "x = t") auto
  qed
  have 5: "blocked_on s' = (\<lambda>x. if x \<in> set (t # ws) then None else blocked_on s x)"
    unfolding s'(5) w(5) by auto
  have 6: "sems s' = sems s" "rt_current s' = rt_current s" using s'(6,7) f by simp_all
  show ?case
    by (rule exI [where x = s'], rule exI [where x = rq'], intro conjI, rule 1, rule s2, rule 3, rule 4, rule 5, (rule 6)+)
qed

lemma rt_sem_broadcast_ok:
  assumes b: "blocked_queues s H qs" and h: "SemQ x \<in> H" and i: "sched_inv s rq tq"
    and l: "\<forall>t \<in> set (qs (SemQ x)). live s t" and m: "sem_magic (sems s x) = RT_SEM_MAGIC"
  shows "\<exists>s' rq'. rt_sem_broadcast n x s =
         (if \<exists>t \<in> set (qs (SemQ x)). gets_ready s t then schedule_ret n 0 s' else Ret 0 s')
     \<and> sched_inv s' rq' (filter (\<lambda>t. t \<notin> set (qs (SemQ x))) tq) \<and> blocked_queues s' H (qs(SemQ x := []))
     \<and> sem_count (sems s' x) = 0
     \<and> state s' = (\<lambda>t. if t \<in> set (qs (SemQ x)) then released (state s t) else state s t)
     \<and> blocked_on s' = (\<lambda>t. if t \<in> set (qs (SemQ x)) then None else blocked_on s t)"
proof -
  have d: "distinct (qs (SemQ x))" using blocked_queues_ring(3) [OF b h] .
  obtain s1 rq' where s1: "broadcast_loop (SemQ x) (qnext s (SemQ x)) False s =
        Some (False \<or> (\<exists>t \<in> set (qs (SemQ x)). gets_ready s t), s1)"
    "sched_inv s1 rq' (filter (\<lambda>t. t \<notin> set (qs (SemQ x))) tq)" "blocked_queues s1 H (qs(SemQ x := []))"
    "state s1 = (\<lambda>t. if t \<in> set (qs (SemQ x)) then released (state s t) else state s t)"
    "blocked_on s1 = (\<lambda>t. if t \<in> set (qs (SemQ x)) then None else blocked_on s t)"
    using broadcast_loop_ok [OF b h refl i l d, of False] by (elim exE conjE)
  have e: "qnext s1 (SemQ x) = SemQ x" "qprev s1 (SemQ x) = SemQ x"
    using blocked_queues_ring(1) [OF s1(3) h] by simp_all
  let ?s = "(upd_sem x (\<lambda>m. m\<lparr>sem_count := 0\<rparr>) s1)
                     \<lparr>qprev := (qprev s1)(SemQ x := SemQ x), qnext := (qnext s1)(SemQ x := SemQ x)\<rparr>"
  have nx: "qnext ?s = qnext s1" "qprev ?s = qprev s1" "qtask ?s = qtask s1" using e by auto
  have "same_sched s1 ?s" by (simp add: same_sched_def upd_sem_def)
  then have 2: "sched_inv ?s rq' (filter (\<lambda>t. t \<notin> set (qs (SemQ x))) tq)" using same_sched_inv s1(2) by blast
  have 3: "blocked_queues ?s H (qs(SemQ x := []))" using s1(3) blocked_queues_same [OF nx] by simp
  have 1: "rt_sem_broadcast n x s =
         (if \<exists>t \<in> set (qs (SemQ x)). gets_ready s t then schedule_ret n 0 ?s else Ret 0 ?s)"
    using s1(1) m by (simp only: rt_sem_broadcast_def Let_def lift_opt_simps prod.case simp_thms if_False)
  have 4: "sem_count (sems ?s x) = 0" "state ?s = state s1" "blocked_on ?s = blocked_on s1" by simp_all
  show ?thesis
    by (rule exI [where x = ?s], rule exI [where x = rq'], intro conjI, rule 1, rule 2, rule 3, rule 4(1))
      (simp_all only: 4 s1)
qed

text \<open>A barrier for \<open>k\<close> tasks: the first \<open>k - 1\<close> of them wait, the last one releases them all.\<close>

lemma rt_sem_wait_barrier_first:
  assumes "sem_magic (sems s x) = RT_SEM_MAGIC" and "owndby (sems s x) = NULL" and "1 < sem_count (sems s x)"
  shows "rt_sem_wait_barrier n x s = res_bind (rt_sem_wait n x
     (upd_sem x (\<lambda>m. m\<lparr>owndby := Num (sem_count m), sem_count := 0, sem_type := 0\<rparr>) s)) (\<lambda>_. Ret 0)"
  using assms by (simp add: rt_sem_wait_barrier_def int_ptr_def Let_def upd_sem_def)

lemma rt_sem_wait_barrier_next:
  assumes "sem_magic (sems s x) = RT_SEM_MAGIC" and "owndby (sems s x) = Num k" and "k \<noteq> 0"
  shows "rt_sem_wait_barrier n x s =
     res_bind (if - sem_count (sems s x) < k - 1 then rt_sem_wait n x s else rt_sem_broadcast n x s) (\<lambda>_. Ret 0)"
proof -
  have "1 - sem_count (sems s x) < k \<longleftrightarrow> - sem_count (sems s x) < k - 1" by linarith
  then show ?thesis using assms by (simp add: rt_sem_wait_barrier_def)
qed

section \<open>Readers-writer locks\<close>

text \<open>The conditional write lock on a lock whose mutex another task owns, nobody waiting for it.\<close>

lemma rt_rwl_wrlock_if_owned:
  assumes "owndby (sems s (rdsem r)) = NULL" and "sem_magic (sems s (wrmtx r)) = RT_SEM_MAGIC"
    and "owndby (sems s (wrmtx r)) = Task own" and "own \<noteq> rt_current s" and "sem_count (sems s (wrmtx r)) = 0"
  shows "rt_rwl_wrlock_if r s = (0, s)"
  using assms by (simp add: rt_rwl_wrlock_if_def rt_sem_wait_if_def)

section \<open>Giving up an inherited priority\<close>

lemma same_prio: "priority s t = p \<Longrightarrow>
    s\<lparr>priority := (priority s)(t := p), rnext := rnext s, rprev := rprev s\<rparr> = s"
  using fun_upd_triv [of "priority s" t] by (simp add: fun_upd_idem)

lemma renq_current_ok:
  assumes i: "sched_inv s rq tq" and l: "live s cur" and st: "state s cur = READY"
    and p: "0 \<le> p" "p < RT_LINUX_PRIORITY"
  shows "\<exists>s' rq' nx pv. renq_current cur p s = Some (priority s cur \<noteq> p, s') \<and> sched_inv s' rq' tq
     \<and> s' = s\<lparr>priority := (priority s)(cur := p), rnext := nx, rprev := pv\<rparr>"
proof (cases "priority s cur = p")
  case True
  note same_prio [OF True, symmetric]
  moreover have "renq_current cur p s = Some (priority s cur \<noteq> p, s)"
    using True by (simp add: renq_current_def)
  ultimately show ?thesis using i by (intro exI conjI)
next
  case False
  note d = sched_invD [OF i]
  have h: "is_hard s cur \<noteq> 0" using inv_hard(1) [OF i l] .
  have cr: "cur \<in> set rq" using d(5) [of cur] l st by simp
  let ?s1 = "s\<lparr>priority := (priority s)(cur := p)\<rparr>"
  obtain pos rq' where r: "enq_ready_task cur (unlink_ready cur ?s1) = Some (link_ready cur pos (unlink_ready cur ?s1))"
    "ready_list (link_ready cur pos (unlink_ready cur ?s1)) rq'" "in_prio_order ?s1 rq'" "set rq' = set rq"
    using requeue_ready_eq [OF d(2,3) cr h p] by blast
  let ?s' = "link_ready cur pos (unlink_ready cur ?s1)"
  have e: "?s' = s\<lparr>priority := (priority s)(cur := p), rnext := rnext ?s', rprev := rprev ?s'\<rparr>"
    by (simp add: link_ready_def unlink_ready_def)
  have lv: "live ?s' x = live s x" for x by (simp add: live_def link_ready_def unlink_ready_def)
  have "sched_inv ?s' rq' tq"
  proof (rule sched_invI)
    show "task_wf ?s'"
      using d(1) l p unfolding task_wf_def lv by (auto simp: live_def)
    show "ready_list ?s' rq'" by (rule r(2))
    show "in_prio_order ?s' rq'" using r(3) by (simp add: in_prio_order_def)
    show "timed_list ?s' tq" using d(4) by (simp add: timed_list_def)
    show "t \<in> set rq' \<longleftrightarrow> live ?s' t \<and> state ?s' t = READY" for t
      using d(5) [of t] unfolding lv r(4) by simp
    show "t \<in> set tq \<longleftrightarrow> live ?s' t \<and> state ?s' t AND DELAYED \<noteq> 0" for t
      using d(6) [of t] unfolding lv by simp
  qed
  moreover have "renq_current cur p s = Some (priority s cur \<noteq> p, ?s')"
    using False r(1) by (simp add: renq_current_def)
  ultimately show ?thesis using e by (intro exI conjI)
qed

text \<open>What remains owned decides on the priority.\<close>

definition settled_prio :: "kst \<Rightarrow> tid \<Rightarrow> int \<Rightarrow> int" where
  "settled_prio s t first =
     (if owndres s t = 0 then base_priority s t
      else if owndres s t AND SEMHLF = 0 then min (base_priority s t) first
      else priority s t)"

lemma settle_ok:
  assumes i: "sched_inv s rq tq" and l: "live s cur" and st: "state s cur = READY"
    and p: "0 \<le> priority s cur" "0 \<le> base_priority s cur" "base_priority s cur < RT_LINUX_PRIORITY"
    and f: "first_sender_prio cur s = Some first" "0 \<le> first"
  shows "\<exists>s' rq' nx pv. settle renq_current cur s = Some (priority s cur \<noteq> settled_prio s cur first, s')
     \<and> sched_inv s' rq' tq
     \<and> s' = s\<lparr>priority := (priority s)(cur := settled_prio s cur first), rnext := nx, rprev := pv\<rparr>"
proof -
  consider (all) "owndres s cur = 0" | (rpc) "owndres s cur \<noteq> 0" "owndres s cur AND SEMHLF = 0"
    | (none) "owndres s cur \<noteq> 0" "owndres s cur AND SEMHLF \<noteq> 0" by blast
  then show ?thesis
  proof cases
    case all
    then show ?thesis
      using renq_current_ok [OF i l st p(2,3)] by (simp add: settle_def settled_prio_def)
  next
    case rpc
    have m: "(if base_priority s cur > first then first else base_priority s cur) = min (base_priority s cur) first"
      by (simp add: min_def)
    have b: "0 \<le> min (base_priority s cur) first" "min (base_priority s cur) first < RT_LINUX_PRIORITY"
      using p f(2) by simp_all
    show ?thesis
      using rpc renq_current_ok [OF i l st b] by (simp add: settle_def settled_prio_def f(1) m)
  next
    case none
    then have "settled_prio s cur first = priority s cur" by (simp add: settled_prio_def)
    then have 1: "settle renq_current cur s = Some (priority s cur \<noteq> settled_prio s cur first, s)"
      using none by (simp add: settle_def)
    have 2: "s = s\<lparr>priority := (priority s)(cur := settled_prio s cur first), rnext := rnext s, rprev := rprev s\<rparr>"
      using same_prio [OF \<open>settled_prio s cur first = priority s cur\<close> [symmetric]] by (rule sym)
    show ?thesis by (intro exI conjI, rule 1, rule i, rule 2)
  qed
qed

lemma dec_owndres_same: "same_sched s (dec_owndres t s) \<and> base_priority (dec_owndres t s) = base_priority s
    \<and> suspdepth (dec_owndres t s) = suspdepth s \<and> qnext (dec_owndres t s) = qnext s
    \<and> qprev (dec_owndres t s) = qprev s \<and> qtask (dec_owndres t s) = qtask s \<and> sems (dec_owndres t s) = sems s
    \<and> blocked_on (dec_owndres t s) = blocked_on s"
  by (simp add: same_sched_def dec_owndres_def)

lemma leave_owned_ok:
  assumes i: "sched_inv s rq tq" and l: "live s (rt_current s)" and st: "state s (rt_current s) = READY"
    and p: "0 \<le> priority s (rt_current s)" "0 \<le> base_priority s (rt_current s)"
      "base_priority s (rt_current s) < RT_LINUX_PRIORITY"
    and f: "first_sender_prio (rt_current s) s = Some first" "0 \<le> first"
    and sd: "suspdepth s (rt_current s) = 0"
  defines "p' \<equiv> settled_prio (dec_owndres (rt_current s) s) (rt_current s) first"
  shows "\<exists>s' rq'. leave_owned n w s =
         (if priority s (rt_current s) \<noteq> p' \<or> w then schedule_ret n 0 s' else Ret 0 s')
     \<and> sched_inv s' rq' tq \<and> priority s' = (priority s)(rt_current s := p')
     \<and> sems s' = sems s \<and> state s' = state s \<and> blocked_on s' = blocked_on s
     \<and> qnext s' = qnext s \<and> qprev s' = qprev s \<and> qtask s' = qtask s"
proof -
  let ?c = "rt_current s"
  let ?d = "dec_owndres ?c s"
  note d = dec_owndres_same [of s ?c]
  have d1: "same_sched s ?d" and d2: "base_priority ?d = base_priority s" "suspdepth ?d = suspdepth s"
    "qnext ?d = qnext s" "qprev ?d = qprev s" "qtask ?d = qtask s" "sems ?d = sems s" "blocked_on ?d = blocked_on s"
    using d by simp_all
  have i1: "sched_inv ?d rq tq" by (rule same_sched_inv [OF d1 i])
  have s1: "priority ?d = priority s" "state ?d = state s" "magic ?d = magic s"
    using d1 by (simp_all add: same_sched_def)
  have f1: "first_sender_prio ?c ?d = Some first" using f(1) unfolding first_sender_prio_def d2 s1 .
  have l1: "live ?d ?c" using l by (simp add: live_def s1)
  obtain s' rq' nx pv where r: "settle renq_current ?c ?d = Some (priority ?d ?c \<noteq> p', s')" "sched_inv s' rq' tq"
    "s' = ?d\<lparr>priority := (priority ?d)(?c := p'), rnext := nx, rprev := pv\<rparr>"
    using settle_ok [OF i1 l1 _ _ _ _ f1 f(2)] st p unfolding p'_def s1 d2 by blast
  have sd': "suspdepth s' ?c = 0" using sd r(3) by (simp add: d2)
  have 1: "leave_owned n w s = (if priority s ?c \<noteq> p' \<or> w then schedule_ret n 0 s' else Ret 0 s')"
    using r(1) sd' by (simp add: leave_owned_def Let_def give_back_def s1)
  show ?thesis
    by (intro exI conjI, rule 1, rule r(2)) (simp_all add: r(3) d2 s1)
qed

text \<open>The owner releases a resource another task waits for: the first waiter becomes ready and the
  owner falls back to the priority that what it still owns gives it.\<close>

lemma settled_prio_cong:
  "owndres s' = owndres s \<Longrightarrow> base_priority s' = base_priority s \<Longrightarrow> priority s' = priority s \<Longrightarrow>
     settled_prio (dec_owndres c s') c z = settled_prio (dec_owndres c s) c z"
  by (simp add: settled_prio_def dec_owndres_def)

lemma first_sender_prio_eq:
  assumes "blocked_queues s H qs" and "MsgQ c \<in> H" and "qtask s (MsgQ c) = Task c"
  shows "first_sender_prio c s = Some (priority s (hd (qs (MsgQ c) @ [c])))"
  using queue_head [OF assms(1,2)] assms(3) by (cases "qs (MsgQ c)") (simp_all add: first_sender_prio_def)

text \<open>A resource is given up to the first task that waits: what is left is the owner's priority.\<close>

lemma signal_owner_pops:
  assumes i: "sched_inv s rq tq" and b: "blocked_queues s H qs" and h: "SemQ x \<in> H"
    and q: "qs (SemQ x) = t # ts" and l: "live s t"
    and m: "sem_magic (sems s x) = RT_SEM_MAGIC" and ty: "sem_type (sems s x) = 1" and ok: "sem_ok s x (t # ts)"
    and st: "state s t AND NOT (SEMAPHORE OR DELAYED) = READY" "state s t \<noteq> READY"
  shows "\<exists>k rq1. rt_sem_signal n x s = leave_owned n True k \<and> sched_inv k rq1 (remove1 t tq)
     \<and> blocked_queues k H (qs(SemQ x := ts)) \<and> sem_ok k x ts \<and> owndby (sems k x) = NULL
     \<and> state k = (state s)(t := READY) \<and> blocked_on k = (blocked_on s)(t := None) \<and> rt_current k = rt_current s
     \<and> priority k = priority s \<and> base_priority k = base_priority s \<and> qtask k = qtask s \<and> owndres k = owndres s
     \<and> suspdepth k = suspdepth s \<and> magic k = magic s"
proof -
  let ?u = "upd_sem x sem_up s"
  have bu: "blocked_queues ?u H qs" using b by (simp add: blocked_queues_def queue_list_def)
  have iu: "sched_inv ?u rq tq" by (rule same_sched_inv [OF same_sched_upd_sem i])
  have lu: "live ?u t" using l by (simp add: live_def)
  obtain s1 rq1 where p: "sem_pop x ?u =
       Some (state ?u t \<noteq> READY \<and> state ?u t AND NOT (SEMAPHORE OR DELAYED) = READY, s1)"
    "sched_inv s1 rq1 (remove1 t tq)" "blocked_queues s1 H (qs(SemQ x := ts))"
    "state s1 = (if state ?u t = READY then state ?u
                   else (state ?u)(t := state ?u t AND NOT (SEMAPHORE OR DELAYED)))"
    "blocked_on s1 = (blocked_on ?u)(t := None)" "sems s1 = sems ?u" "rt_current s1 = rt_current ?u"
    "priority s1 = priority ?u" "qtask s1 = qtask ?u" "magic s1 = magic ?u"
    "base_priority s1 = base_priority ?u" "owndres s1 = owndres ?u" "suspdepth s1 = suspdepth ?u"
    using sem_pop_first [OF iu bu h q lu] by (elim exE conjE)
  have st1: "state s1 = (state s)(t := READY)" using p(4) st unfolding upd_sem_simps by (simp only: if_False)
  have tr: "(state ?u t \<noteq> READY \<and> state ?u t AND NOT (SEMAPHORE OR DELAYED) = READY) = True"
    using st unfolding upd_sem_simps by blast
  let ?o = "upd_sem x (\<lambda>m. m\<lparr>owndby := NULL\<rparr>) s1"
  have sig: "rt_sem_signal n x s = leave_owned n True ?o"
    using p(1,6) m ty unfolding tr by (simp add: rt_sem_signal_def owner_leaves_def sem_up_count)
  have io: "sched_inv ?o rq1 (remove1 t tq)" by (rule same_sched_inv [OF same_sched_upd_sem p(2)])
  have bo: "blocked_queues ?o H (qs(SemQ x := ts))" using p(3) by (simp add: blocked_queues_def queue_list_def)
  have so: "sem_ok ?o x ts" "owndby (sems ?o x) = NULL"
    using ok p(6) by (auto simp: sem_ok_def sem_up_count split: if_splits)
  have f: "state ?o = (state s)(t := READY)" "blocked_on ?o = (blocked_on s)(t := None)" "rt_current ?o = rt_current s"
    "priority ?o = priority s" "base_priority ?o = base_priority s" "qtask ?o = qtask s" "owndres ?o = owndres s"
    "suspdepth ?o = suspdepth s" "magic ?o = magic s"
    using p(5,7-13) st1 by (simp_all add: upd_sem_def)
  show ?thesis by (intro exI conjI, rule sig, rule io, rule bo, (rule so)+, (rule f)+)
qed


end
