(* ===== verification/Example_State.thy ===== *)
theory Example_State
  imports Semaphore_Props
begin

text \<open>
  A concrete state of the scheduler with five tasks.  Task 1 runs, task 2 is ready and owns the
  resource 1, task 3 sleeps until time 1500, task 4 is blocked on the counting semaphore 0, task
  5 is suspended, and semaphore 2 is free with count 1.  The properties are exercised on it.
\<close>

definition no_sem :: sem where
  "no_sem = \<lparr>sem_magic = RT_SEM_MAGIC, sem_type = 0, sem_count = 1, owndby = NULL, qtype = 0\<rparr>"

definition no_mbx :: mbx where
  "no_mbx = \<lparr>mbx_magic = 0x3ad46e9b, sndsem = 2, rcvsem = 3, waiting_task = None, mbx_owndby = None,
     mbx_buf = rb_init 4 [0, 0, 0, 0]\<rparr>"

definition kern :: kst where
  "kern = \<lparr>magic = (\<lambda>t. if t \<in> {1, 2, 3, 4, 5} then RT_TASK_MAGIC else 0), uses_fpu = (\<lambda>_. False),
     state = (\<lambda>_. READY)(3 := READY OR DELAYED, 4 := READY OR SEMAPHORE, 5 := READY OR SUSPENDED),
     priority = (\<lambda>_. 10)(0 := RT_LINUX_PRIORITY, 1 := 5, 2 := 7, 3 := 3, 4 := 6, 5 := 9),
     base_priority = (\<lambda>_. 10)(0 := RT_LINUX_PRIORITY, 1 := 5, 2 := 7, 3 := 3, 4 := 6, 5 := 9),
     policy = (\<lambda>_. 0), sched_lock_priority = (\<lambda>_. 0), prio_passed_to = (\<lambda>_. None),
     period = (\<lambda>_. 0)(1 := 400, 2 := 300), resume_time = (\<lambda>_. 0)(0 := RT_TIME_END, 3 := 1500),
     yield_time = (\<lambda>_. 0), rr_quantum = (\<lambda>_. 0), rr_remaining = (\<lambda>_. 0),
     suspdepth = (\<lambda>_. 0)(5 := 1), owndres = (\<lambda>_. 0)(2 := 1),
     blocked_on = (\<lambda>_. None)(4 := Some (SemQ 0)), msg = (\<lambda>_. 0), signal = (\<lambda>_. None),
     tsk_next = (\<lambda>_. None)(0 := Some 1, 1 := Some 2, 2 := Some 3, 3 := Some 4, 4 := Some 5),
     tsk_prev = (\<lambda>_. 0)(0 := 5, 1 := 0, 2 := 1, 3 := 2, 4 := 3, 5 := 4),
     tprev = (\<lambda>_. 0)(0 := 3, 3 := 0), tnext = (\<lambda>_. 0)(0 := 3, 3 := 0),
     rprev = (\<lambda>_. 0)(0 := 2, 2 := 1, 1 := 0), rnext = (\<lambda>_. 0)(0 := 1, 1 := 2, 2 := 0),
     lnxtsk = (\<lambda>_. None)(0 := Some 0), is_hard = (\<lambda>_. 1)(0 := 0), force_soft = (\<lambda>_. False),
     resync_frame = (\<lambda>_. False), stack_bottom = (\<lambda>_. 0), stack_word = (\<lambda>_. None), bits_test = (\<lambda>_. (0, 0)),
     qnext = id(SemQ 0 := TaskQ 4, TaskQ 4 := SemQ 0),
     qprev = id(SemQ 0 := TaskQ 4, TaskQ 4 := SemQ 0),
     qtask = case_qnode Task Task (\<lambda>_. NULL) (\<lambda>_. NULL) (\<lambda>_. NULL) NULL,
     sems = (\<lambda>_. no_sem)(0 := no_sem\<lparr>sem_count := - 1\<rparr>,
                           1 := no_sem\<lparr>sem_type := 1, sem_count := 0, owndby := Task 2\<rparr>),
     mbxs = (\<lambda>_. no_mbx), mcbs = (\<lambda>_. \<lparr>sbuf = 0, sbytes = 0, rbuf = 0, rbytes = 0\<rparr>), mem = (\<lambda>_. 0),
     lstate = (\<lambda>_. 0), lrt_priority = (\<lambda>_. 0), rt_current = 1, fpu_task = 0, sched_rqsted = 0,
     rt_time_h = 1000, rt_half_tick = 5, oneshot_timer = True, oneshot_running = True,
     shot_fired = True, preempt_always = False,
     times = \<lparr>linux_tick = 10000, tick_time = 900, intr_time = 1500, linux_time = 10000, periodic_tick = 0\<rparr>,
     tuned = \<lparr>latency = 0, setup_time_TIMER_CPUNIT = 0, setup_time_TIMER_UNIT = 0, cpu_freq = 1000000000\<rparr>,
     wdog_task = None, tasks_per_cpu = 5, wake_up_srq = \<lparr>k_in = 0, k_out = 0, k_task = (\<lambda>_. 0)\<rparr>,
     frstk_srq = \<lparr>k_in = 0, k_out = 0, k_task = (\<lambda>_. 0)\<rparr>, pends = [],
     linux_nextp = Some 0, linux_prevp = None, lnx_current = 0, to_linux_depth = 1, hrt_flag = True,
     switch_time = 0, exectime = (\<lambda>_. 0), timer_chip = [], tsc = (\<lambda>n. 2000 + 10 * int n), tsc_reads = 0\<rparr>"

text \<open>Its fields, one by one.\<close>

lemma kern_fields [simp]:
  "magic kern = (\<lambda>t. if t \<in> {1, 2, 3, 4, 5} then RT_TASK_MAGIC else 0)"
  "uses_fpu kern = (\<lambda>_. False)"
  "state kern = (\<lambda>_. READY)(3 := READY OR DELAYED, 4 := READY OR SEMAPHORE, 5 := READY OR SUSPENDED)"
  "priority kern = (\<lambda>_. 10)(0 := RT_LINUX_PRIORITY, 1 := 5, 2 := 7, 3 := 3, 4 := 6, 5 := 9)"
  "base_priority kern = (\<lambda>_. 10)(0 := RT_LINUX_PRIORITY, 1 := 5, 2 := 7, 3 := 3, 4 := 6, 5 := 9)"
  "policy kern = (\<lambda>_. 0)"
  "sched_lock_priority kern = (\<lambda>_. 0)"
  "prio_passed_to kern = (\<lambda>_. None)"
  "period kern = (\<lambda>_. 0)(1 := 400, 2 := 300)"
  "resume_time kern = (\<lambda>_. 0)(0 := RT_TIME_END, 3 := 1500)"
  "yield_time kern = (\<lambda>_. 0)"
  "rr_quantum kern = (\<lambda>_. 0)"
  "rr_remaining kern = (\<lambda>_. 0)"
  "suspdepth kern = (\<lambda>_. 0)(5 := 1)"
  "owndres kern = (\<lambda>_. 0)(2 := 1)"
  "blocked_on kern = (\<lambda>_. None)(4 := Some (SemQ 0))"
  "msg kern = (\<lambda>_. 0)"
  "signal kern = (\<lambda>_. None)"
  "tsk_next kern = (\<lambda>_. None)(0 := Some 1, 1 := Some 2, 2 := Some 3, 3 := Some 4, 4 := Some 5)"
  "tsk_prev kern = (\<lambda>_. 0)(0 := 5, 1 := 0, 2 := 1, 3 := 2, 4 := 3, 5 := 4)"
  "tprev kern = (\<lambda>_. 0)(0 := 3, 3 := 0)"
  "tnext kern = (\<lambda>_. 0)(0 := 3, 3 := 0)"
  "rprev kern = (\<lambda>_. 0)(0 := 2, 2 := 1, 1 := 0)"
  "rnext kern = (\<lambda>_. 0)(0 := 1, 1 := 2, 2 := 0)"
  "lnxtsk kern = (\<lambda>_. None)(0 := Some 0)"
  "is_hard kern = (\<lambda>_. 1)(0 := 0)"
  "force_soft kern = (\<lambda>_. False)"
  "resync_frame kern = (\<lambda>_. False)"
  "stack_bottom kern = (\<lambda>_. 0)"
  "stack_word kern = (\<lambda>_. None)"
  "bits_test kern = (\<lambda>_. (0, 0))"
  "qnext kern = id(SemQ 0 := TaskQ 4, TaskQ 4 := SemQ 0)"
  "qprev kern = id(SemQ 0 := TaskQ 4, TaskQ 4 := SemQ 0)"
  "qtask kern = case_qnode Task Task (\<lambda>_. NULL) (\<lambda>_. NULL) (\<lambda>_. NULL) NULL"
  "sems kern = (\<lambda>_. no_sem)(0 := no_sem\<lparr>sem_count := - 1\<rparr>, 1 := no_sem\<lparr>sem_type := 1, sem_count := 0, owndby := Task 2\<rparr>)"
  "mbxs kern = (\<lambda>_. no_mbx)"
  "mcbs kern = (\<lambda>_. \<lparr>sbuf = 0, sbytes = 0, rbuf = 0, rbytes = 0\<rparr>)"
  "mem kern = (\<lambda>_. 0)"
  "lstate kern = (\<lambda>_. 0)"
  "lrt_priority kern = (\<lambda>_. 0)"
  "rt_current kern = 1"
  "fpu_task kern = 0"
  "sched_rqsted kern = 0"
  "rt_time_h kern = 1000"
  "rt_half_tick kern = 5"
  "oneshot_timer kern = True"
  "oneshot_running kern = True"
  "shot_fired kern = True"
  "preempt_always kern = False"
  "times kern = \<lparr>linux_tick = 10000, tick_time = 900, intr_time = 1500, linux_time = 10000, periodic_tick = 0\<rparr>"
  "tuned kern = \<lparr>latency = 0, setup_time_TIMER_CPUNIT = 0, setup_time_TIMER_UNIT = 0, cpu_freq = 1000000000\<rparr>"
  "wdog_task kern = None"
  "tasks_per_cpu kern = 5"
  "wake_up_srq kern = \<lparr>k_in = 0, k_out = 0, k_task = (\<lambda>_. 0)\<rparr>"
  "frstk_srq kern = \<lparr>k_in = 0, k_out = 0, k_task = (\<lambda>_. 0)\<rparr>"
  "pends kern = []"
  "linux_nextp kern = Some 0"
  "linux_prevp kern = None"
  "lnx_current kern = 0"
  "to_linux_depth kern = 1"
  "hrt_flag kern = True"
  "switch_time kern = 0"
  "exectime kern = (\<lambda>_. 0)"
  "timer_chip kern = []"
  "tsc kern = (\<lambda>n. 2000 + 10 * int n)"
  "tsc_reads kern = 0"
  by (simp_all add: kern_def)

definition heads :: "qnode set" where
  "heads = {SemQ 0, SemQ 1, SemQ 2, MsgQ 1, MsgQ 2, MsgQ 3, MsgQ 4, MsgQ 5, RetQ 1, RetQ 2, RetQ 3, RetQ 4, RetQ 5}"

definition waiters :: "qnode \<Rightarrow> tid list" where
  "waiters = (\<lambda>_. [])(SemQ 0 := [4])"

lemma kern_live [simp]: "live kern t \<longleftrightarrow> t \<in> {1, 2, 3, 4, 5}"
  by (auto simp: live_def)

lemma kern_task_wf: "task_wf kern"
  unfolding task_wf_def kern_live by simp

lemma kern_ready: "ready_list kern [1, 2]" "in_prio_order kern [1, 2]"
  by (simp_all add: ready_list_def in_prio_order_def ring_def)

lemma kern_timed: "timed_list kern [3]"
  by (simp add: timed_list_def ring_def)

lemma kern_inv: "sched_inv kern [1, 2] [3]"
proof (rule sched_invI)
  show "task_wf kern" by (rule kern_task_wf)
  show "ready_list kern [1, 2]" "in_prio_order kern [1, 2]" by (rule kern_ready)+
  show "timed_list kern [3]" by (rule kern_timed)
  show "t \<in> set [1, 2] \<longleftrightarrow> live kern t \<and> state kern t = READY" for t
    unfolding kern_live by auto
  show "t \<in> set [3] \<longleftrightarrow> live kern t \<and> state kern t AND DELAYED \<noteq> 0" for t
    unfolding kern_live by auto
qed

lemma kern_queues: "blocked_queues kern heads waiters"
  unfolding blocked_queues_def
proof (intro conjI ballI impI)
  show "heads \<inter> range TaskQ = {}" by (auto simp: heads_def)
  show "queue_list kern h (waiters h)" if "h \<in> heads" for h
    using that unfolding heads_def by (elim insertE emptyE)
      (simp_all add: queue_list_def ring_def waiters_def)
  show "set (waiters h) \<inter> set (waiters h') = {}" if "h \<noteq> h'" for h h'
    using that by (auto simp: waiters_def)
qed

lemma kern_tasks: "task_list kern [1, 2, 3, 4, 5]"
  by (simp add: task_list_def)

end
