(* ===== verification/Example_Sched.thy ===== *)
theory Example_Sched
  imports Example_State Sched_Lifecycle
begin

text \<open>
  The properties of the scheduler, the tasks and the semaphores applied to the concrete state
  \<open>kern\<close>, and to the state in which its semaphore 0 is a resource that the running task owns.
\<close>

lemma ready_insert_kern: "insert_after_while p t [a, b] =
    (if p a then (if p b then [a, b, t] else [a, t, b]) else [t, a, b])"
  by (simp add: insert_after_while_def)

section \<open>Scheduler and tasks\<close>



theorem resume_lists_witness:
  "\<exists>s'. rt_task_resume 3 5 kern = schedule_ret 3 0 s' \<and> sched_inv s' [1, 2, 5] [3] \<and> state s' 5 = READY"
proof -
  have "ready_insert kern 5 [1, 2] = [1, 2, 5]" by (simp add: ready_insert_kern)
  then show ?thesis using resume_lists [OF kern_inv, of 5 3] by auto
qed

theorem rt_task_init_lists_witness:
  "\<exists>s'. rt_task_init_cpuid 6 (Some 4096) 4 False None 0 kern = (0, s') \<and> sched_inv s' [1, 2] [3]
     \<and> task_list s' [1, 2, 3, 4, 5, 6] \<and> priority s' 6 = 4"
  using rt_task_init_lists [OF kern_inv kern_tasks, of 6 4 4096 False None] by auto


theorem rt_spv_RMS_ok_witness:
  "\<exists>s'. rt_spv_RMS kern = Some s' \<and> priority s' 2 < priority s' 1 \<and> priority s' 3 = 3"
proof -
  have p: "\<forall>t \<in> set [1, 2, 3, 4, 5]. 0 \<le> priority kern t" by simp
  have m: "1 \<in> {t \<in> set [1, 2, 3, 4, 5 :: tid]. rms_open kern t \<and> period kern t < RT_TIME_END}"
    "2 \<in> {t \<in> set [1, 2, 3, 4, 5 :: tid]. rms_open kern t \<and> period kern t < RT_TIME_END}"
    "3 \<notin> {t \<in> set [1, 2, 3, 4, 5 :: tid]. rms_open kern t \<and> period kern t < RT_TIME_END}"
    by (simp_all add: rms_open_def)
  obtain s' where s': "rt_spv_RMS kern = Some s'"
    "period kern 2 < period kern 1 \<longrightarrow> priority s' 2 < priority s' 1" "priority s' 3 = priority kern 3"
    using rt_spv_RMS_ok [OF kern_tasks p] m by blast
  then show ?thesis by simp
qed

section \<open>Semaphores\<close>

theorem rt_sem_wait_blocks_witness:
  "\<exists>s' k. rt_sem_wait 3 0 kern = res_bind (rt_schedule 3 s') k \<and> sched_inv s' [2] [3]
     \<and> blocked_queues s' heads (waiters(SemQ 0 := [1, 4])) \<and> blocked_on s' 1 = Some (SemQ 0)"
proof -
  have q: "queue_place kern (qtype (sems kern 0)) (rt_current kern) (waiters (SemQ 0)) = [1, 4]"
    by (simp add: queue_place_def waiters_def insert_after_while_def no_sem_def)
  have "sem_ok kern 0 (waiters (SemQ 0))" by (simp add: sem_ok_def waiters_def)
  then show ?thesis using rt_sem_wait_blocks [OF kern_inv kern_queues, of 0 3, unfolded q]
    by (auto simp: heads_def waiters_def no_sem_def)
qed

theorem rt_sem_wait_inherits_witness:
  "\<exists>s' k. rt_sem_wait 3 1 kern = res_bind (rt_schedule 3 s') k \<and> inherited s' {1, 2, 4}
     \<and> priority s' 2 \<le> 5 \<and> prio_passed_to s' 1 = Some 2 \<and> sem_count (sems s' 1) = - 1"
proof -
  have "prio_wf kern [1, 2] heads waiters {1, 2, 4}"
    using kern_ready kern_queues by (auto simp: prio_wf_def heads_def waiters_def)
  moreover have "inherited kern {1, 2, 4}" by (simp add: inherited_def)
  ultimately show ?thesis using rt_sem_wait_inherits [of kern "[1, 2]" heads waiters "{1, 2, 4}" 2 1 3]
    by (auto simp: heads_def waiters_def no_sem_def)
qed

theorem rt_sem_signal_wakes_witness:
  "\<exists>s' rq'. rt_sem_signal 3 0 kern = schedule_ret 3 0 s' \<and> sched_inv s' rq' [3]
     \<and> blocked_queues s' heads (waiters(SemQ 0 := [])) \<and> state s' 4 = READY \<and> blocked_on s' 4 = None"
proof -
  have "sem_ok kern 0 [4]" by (simp add: sem_ok_def)
  then show ?thesis using rt_sem_signal_wakes [OF kern_inv kern_queues, of 0 4 "[]" 3]
    by (auto simp: heads_def waiters_def no_sem_def)
qed

theorem rt_sem_broadcast_ok_witness:
  "\<exists>s' rq'. rt_sem_broadcast 3 0 kern = schedule_ret 3 0 s' \<and> sched_inv s' rq' [3]
     \<and> blocked_queues s' heads (waiters(SemQ 0 := [])) \<and> state s' 4 = READY"
  using rt_sem_broadcast_ok [OF kern_queues _ kern_inv, of 0 3]
  by (auto simp: heads_def waiters_def no_sem_def)

text \<open>The running task 2 owns the resource 0, for which task 4 waits.\<close>

definition kern_owner :: kst where
  "kern_owner = kern\<lparr>rt_current := 2, sems := (sems kern)(0 := no_sem\<lparr>sem_type := 1, sem_count := - 1, owndby := Task 2\<rparr>)\<rparr>"

lemma kern_owner_fields [simp]:
  "rt_current kern_owner = 2" "state kern_owner = state kern" "priority kern_owner = priority kern"
  "base_priority kern_owner = base_priority kern" "suspdepth kern_owner = suspdepth kern"
  "owndres kern_owner = owndres kern" "qtask kern_owner = qtask kern" "live kern_owner = live kern"
  "sems kern_owner = (sems kern)(0 := no_sem\<lparr>sem_type := 1, sem_count := - 1, owndby := Task 2\<rparr>)"
  by (simp_all add: kern_owner_def live_def fun_eq_iff)

lemma kern_owner_inv: "sched_inv kern_owner [1, 2] [3]" "blocked_queues kern_owner heads waiters"
proof -
  show "sched_inv kern_owner [1, 2] [3]"
    by (rule same_sched_inv [OF _ kern_inv]) (simp add: same_sched_def kern_owner_def)
  show "blocked_queues kern_owner heads waiters"
    by (rule iffD2 [OF blocked_queues_same kern_queues]) (simp_all add: kern_owner_def)
qed


end
