(* ===== verification/Messages.thy ===== *)
theory Messages
  imports Semaphore_Props
begin

text \<open>
  Messages of \<^verbatim>\<open>rtai_sched.c\<close>: \<^verbatim>\<open>rt_send\<close>, \<^verbatim>\<open>rt_rpc\<close>, \<^verbatim>\<open>rt_return\<close>, \<^verbatim>\<open>rt_receive\<close>, their
  conditional and timed variants, and the extended messages that carry a block of bytes.

  \<^verbatim>\<open>msg_queue.task\<close> and \<^verbatim>\<open>ret_queue.task\<close> of a task are the fields \<open>qtask\<close> of its nodes \<open>MsgQ\<close>
  and \<open>RetQ\<close>.  A call returns the pointer it returns in C, a receiving one with the word it has
  stored through \<^verbatim>\<open>msg\<close>, if any.
\<close>

section \<open>Sending\<close>

abbreviation MSG_ERR :: ptr where "MSG_ERR \<equiv> Num 0xffff"

definition set_qtask :: "qnode \<Rightarrow> ptr \<Rightarrow> kst \<Rightarrow> kst" where
  "set_qtask q v s = s\<lparr>qtask := (qtask s)(q := v)\<rparr>"

text \<open>The task is waiting for a message of anybody or of the current task.\<close>

definition receives_from :: "tid \<Rightarrow> tid \<Rightarrow> kst \<Rightarrow> bool" where
  "receives_from task cur s \<longleftrightarrow> state s task AND RECEIVE \<noteq> 0
     \<and> (qtask s (MsgQ task) = NULL \<or> qtask s (MsgQ task) = Task cur)"

definition deliver :: "32 word \<Rightarrow> tid \<Rightarrow> tid \<Rightarrow> kst \<Rightarrow> (bool \<times> kst) option" where
  "deliver m cur task s =
     wake_blocked (RECEIVE OR DELAYED) task
       (s\<lparr>msg := (msg s)(task := m), qtask := (qtask s)(MsgQ task := Task cur, RetQ task := NOTHING)\<rparr>)"

text \<open>The end of a send: was the message taken?\<close>

definition send_end :: "tid \<Rightarrow> tid \<Rightarrow> kst \<Rightarrow> ptr \<times> kst" where
  "send_end cur task t =
     (if qtask t (MsgQ cur) \<noteq> Task cur then (NULL, set_qtask (MsgQ cur) (Task cur) t) else (Task task, t))"

definition send_end_until :: "tid \<Rightarrow> tid \<Rightarrow> kst \<Rightarrow> ptr \<times> kst" where
  "send_end_until cur task t =
     (if qtask t (MsgQ cur) \<noteq> Task cur
      then (NULL, set_qtask (MsgQ cur) (Task cur) (dequeue_blocked cur t)) else (Task task, t))"

text \<open>\<open>sched_if b s\<close>: reschedule when the flag is set.\<close>

definition sched_if :: "nat \<Rightarrow> bool \<Rightarrow> kst \<Rightarrow> unit res" where
  "sched_if n b s = (if b then rt_schedule n s else Ret () s)"

definition send_block :: "32 word \<Rightarrow> tid \<Rightarrow> tid \<Rightarrow> kst \<Rightarrow> kst option" where
  "send_block w cur task s = do {
     s1 \<leftarrow> enqueue_blocked cur (MsgQ task) 0 s;
     rem_ready_current cur (or_state cur w s1)
   }"

definition rt_send :: "nat \<Rightarrow> tid \<Rightarrow> 32 word \<Rightarrow> kst \<Rightarrow> ptr res" where
  "rt_send n task m s =
     (if magic s task \<noteq> RT_TASK_MAGIC then Ret MSG_ERR s
      else
        let cur = rt_current s; fin = (\<lambda>_ t. let (r, t') = send_end cur task t in Ret r t') in
        if receives_from task cur s
        then lift_opt (deliver m cur task s) (\<lambda>(b, s1). res_bind (sched_if n b s1) fin)
        else lift_opt (send_block SEND cur task
                         (set_qtask (MsgQ cur) (Task task) (s\<lparr>msg := (msg s)(cur := m)\<rparr>)))
               (\<lambda>s1. res_bind (rt_schedule n s1) fin))"

definition rt_send_if :: "nat \<Rightarrow> tid \<Rightarrow> 32 word \<Rightarrow> kst \<Rightarrow> ptr res" where
  "rt_send_if n task m s =
     (if magic s task \<noteq> RT_TASK_MAGIC then Ret MSG_ERR s
      else
        let cur = rt_current s in
        if receives_from task cur s
        then lift_opt (deliver m cur task s) (\<lambda>(b, s1). res_bind (sched_if n b s1)
               (\<lambda>_ t. let (r, t') = send_end cur task t in Ret r t'))
        else Ret NULL s)"

definition rt_send_until :: "nat \<Rightarrow> tid \<Rightarrow> 32 word \<Rightarrow> rtime \<Rightarrow> kst \<Rightarrow> ptr res" where
  "rt_send_until n task m time s =
     (if magic s task \<noteq> RT_TASK_MAGIC then Ret MSG_ERR s
      else
        let cur = rt_current s; fin = (\<lambda>_ t. let (r, t') = send_end_until cur task t in Ret r t') in
        if receives_from task cur s
        then lift_opt (deliver m cur task s) (\<lambda>(b, s1). res_bind (sched_if n b s1) fin)
        else
          let s1 = (set_qtask (MsgQ cur) (Task task) s)\<lparr>resume_time := (resume_time s)(cur := time)\<rparr> in
          if time > rt_time_h s1
          then lift_opt (do {
                 s2 \<leftarrow> send_block (SEND OR DELAYED) cur task (s1\<lparr>msg := (msg s1)(cur := m)\<rparr>);
                 enq_timed_task cur s2
               }) (\<lambda>s3. res_bind (rt_schedule n s3) fin)
          else fin () (s1\<lparr>qprev := (qprev s1)(TaskQ cur := TaskQ cur),
                         qnext := (qnext s1)(TaskQ cur := TaskQ cur)\<rparr>))"

definition rt_send_timed :: "nat \<Rightarrow> tid \<Rightarrow> 32 word \<Rightarrow> rtime \<Rightarrow> kst \<Rightarrow> ptr res" where
  "rt_send_timed n task m delay s = (let (now, s1) = rt_get_time s in rt_send_until n task m (now + delay) s1)"

section \<open>Remote procedure calls\<close>

definition rpc_deliver :: "32 word \<Rightarrow> 32 word \<Rightarrow> tid \<Rightarrow> tid \<Rightarrow> kst \<Rightarrow> kst option" where
  "rpc_deliver w m cur task s = do {
     (b, s1) \<leftarrow> deliver m cur task (s\<lparr>msg := (msg s)(cur := m)\<rparr>);
     Some (or_state cur w s1)
   }"

definition rpc_queue :: "32 word \<Rightarrow> 32 word \<Rightarrow> tid \<Rightarrow> tid \<Rightarrow> kst \<Rightarrow> kst option" where
  "rpc_queue w m cur task s = do {
     (b, s1) \<leftarrow> pass_prio (Some task) cur (s\<lparr>msg := (msg s)(cur := m),
                                            owndres := (owndres s)(task := owndres s task + RPCINC)\<rparr>);
     s2 \<leftarrow> enqueue_blocked cur (MsgQ task) 0 s1;
     Some (or_state cur w s2)
   }"

definition rpc_leave :: "tid \<Rightarrow> tid \<Rightarrow> kst \<Rightarrow> kst option" where
  "rpc_leave cur task s = do {
     s1 \<leftarrow> rem_ready_current cur s;
     Some (set_qtask (MsgQ cur) (Task task) s1)
   }"

definition rpc_end :: "(tid \<Rightarrow> kst \<Rightarrow> kst) \<Rightarrow> tid \<Rightarrow> tid \<Rightarrow> kst \<Rightarrow> (ptr \<times> 32 word option) res" where
  "rpc_end deq cur task t =
     (if qtask t (MsgQ cur) = Task cur then Ret (Task task, Some (msg t cur)) t
      else Ret (NULL, None) (set_qtask (MsgQ cur) (Task cur) (deq cur t)))"

definition rt_rpc :: "nat \<Rightarrow> tid \<Rightarrow> 32 word \<Rightarrow> kst \<Rightarrow> (ptr \<times> 32 word option) res" where
  "rt_rpc n task to_do s =
     (if magic s task \<noteq> RT_TASK_MAGIC then Ret (MSG_ERR, None) s
      else
        let cur = rt_current s in
        lift_opt (do {
          s1 \<leftarrow> (if receives_from task cur s then rpc_deliver RETURN to_do cur task s
                else rpc_queue RPC to_do cur task s);
          rpc_leave cur task s1
        }) (\<lambda>s2. res_bind (rt_schedule n s2) (\<lambda>_. rpc_end (\<lambda>_ t. t) cur task)))"

definition rt_rpc_if :: "nat \<Rightarrow> tid \<Rightarrow> 32 word \<Rightarrow> kst \<Rightarrow> (ptr \<times> 32 word option) res" where
  "rt_rpc_if n task to_do s =
     (if magic s task \<noteq> RT_TASK_MAGIC then Ret (MSG_ERR, None) s
      else
        let cur = rt_current s in
        if receives_from task cur s
        then lift_opt (do { s1 \<leftarrow> rpc_deliver RETURN to_do cur task s; rpc_leave cur task s1 })
               (\<lambda>s2. res_bind (rt_schedule n s2) (\<lambda>_. rpc_end (\<lambda>_ t. t) cur task))
        else Ret (NULL, None) s)"

definition rt_rpc_until :: "nat \<Rightarrow> tid \<Rightarrow> 32 word \<Rightarrow> rtime \<Rightarrow> kst \<Rightarrow> (ptr \<times> 32 word option) res" where
  "rt_rpc_until n task to_do time s =
     (if magic s task \<noteq> RT_TASK_MAGIC then Ret (MSG_ERR, None) s
      else
        let cur = rt_current s; rcv = receives_from task cur s;
            s0 = (if rcv then s else s\<lparr>resume_time := (resume_time s)(cur := time)\<rparr>) in
        if \<not> rcv \<and> time \<le> rt_time_h s0 then Ret (NULL, None) s0
        else
          lift_opt (do {
            s1 \<leftarrow> (if rcv then rpc_deliver (RETURN OR DELAYED) to_do cur task s0
                  else rpc_queue (RPC OR DELAYED) to_do cur task s0);
            s2 \<leftarrow> rpc_leave cur task s1;
            enq_timed_task cur s2
          }) (\<lambda>s3. res_bind (rt_schedule n s3) (\<lambda>_. rpc_end dequeue_blocked cur task)))"

definition rt_rpc_timed :: "nat \<Rightarrow> tid \<Rightarrow> 32 word \<Rightarrow> rtime \<Rightarrow> kst \<Rightarrow> (ptr \<times> 32 word option) res" where
  "rt_rpc_timed n task to_do delay s =
     (let (now, s1) = rt_get_time s in rt_rpc_until n task to_do (now + delay) s1)"

definition rt_isrpc :: "tid \<Rightarrow> kst \<Rightarrow> 32 word" where
  "rt_isrpc task s = state s task AND RETURN"

definition dec_rpc :: "tid \<Rightarrow> kst \<Rightarrow> kst" where
  "dec_rpc cur s =
     (if owndres s cur AND RPCHLF \<noteq> 0 then s\<lparr>owndres := (owndres s)(cur := owndres s cur - RPCINC)\<rparr> else s)"

definition rt_return :: "nat \<Rightarrow> tid \<Rightarrow> 32 word \<Rightarrow> kst \<Rightarrow> ptr res" where
  "rt_return n task result s =
     (if magic s task \<noteq> RT_TASK_MAGIC then Ret MSG_ERR s
      else
        let cur = rt_current s in
        if state s task AND RETURN \<noteq> 0 \<and> qtask s (MsgQ task) = Task cur
        then lift_opt (do {
               (sched, s1) \<leftarrow> settle renq_current cur (dec_rpc cur (dequeue_blocked task s));
               (b, s2) \<leftarrow> wake_blocked (RETURN OR DELAYED) task
                           (set_qtask (MsgQ task) (Task task) (s1\<lparr>msg := (msg s1)(task := result)\<rparr>));
               Some (b \<or> sched, s2)
             }) (\<lambda>(b, s3). res_bind (sched_if n b s3) (\<lambda>_. Ret (Task task)))
        else Ret NULL s)"

section \<open>Receiving\<close>

text \<open>The task of a NULL argument is the first one of the own message queue, or oneself when that
  is empty.\<close>

definition sender_of :: "tid option \<Rightarrow> tid \<Rightarrow> kst \<Rightarrow> tid option" where
  "sender_of task cur s =
     (case task of Some t \<Rightarrow> Some t
                 | None \<Rightarrow> (case qtask s (qnext s (MsgQ cur)) of Task t \<Rightarrow> Some t | _ \<Rightarrow> None))"

definition bad_task :: "tid option \<Rightarrow> kst \<Rightarrow> bool" where
  "bad_task task s \<longleftrightarrow> (case task of None \<Rightarrow> False | Some t \<Rightarrow> magic s t \<noteq> RT_TASK_MAGIC)"

definition sends_to :: "tid \<Rightarrow> tid \<Rightarrow> kst \<Rightarrow> bool" where
  "sends_to t cur s \<longleftrightarrow> state s t AND (SEND OR RPC) \<noteq> 0 \<and> qtask s (MsgQ t) = Task cur"

definition rt_evdrp :: "tid option \<Rightarrow> kst \<Rightarrow> (ptr \<times> 32 word option) option" where
  "rt_evdrp task s =
     (if bad_task task s then Some (MSG_ERR, None)
      else do {
        t \<leftarrow> sender_of task (rt_current s) s;
        Some (if sends_to t (rt_current s) s then (Task t, Some (msg s t)) else (NULL, None))
      })"

definition make_ready :: "32 word \<Rightarrow> tid \<Rightarrow> kst \<Rightarrow> (bool \<times> kst) option" where
  "make_ready w t s =
     (if state s t \<noteq> READY then
        let s1 = and_not_state t w s in
        if state s1 t = READY then do { s2 \<leftarrow> enq_ready_task t s1; Some (True, s2) } else Some (False, s1)
      else Some (False, s))"

text \<open>A waiting message is taken: its sender is released, or, when it waits for an answer, moved to
  the queue of those that wait for a return.\<close>

definition take_msg :: "tid \<Rightarrow> tid \<Rightarrow> kst \<Rightarrow> (bool \<times> kst) option" where
  "take_msg cur t s =
     (let s1 = set_qtask (MsgQ cur) (Task t) (rem_timed_task t (dequeue_blocked t s)) in
      if state s1 t AND SEND \<noteq> 0 then make_ready (SEND OR DELAYED) t (set_qtask (MsgQ t) (Task t) s1)
      else if state s1 t AND RPC \<noteq> 0 then do {
        s2 \<leftarrow> enqueue_blocked t (RetQ cur) 0 s1;
        Some (False, s2\<lparr>state := (state s2)(t := (state s2 t AND NOT (RPC OR DELAYED)) OR RETURN)\<rparr>)
      }
      else Some (False, s1))"

definition recv_end :: "tid \<Rightarrow> kst \<Rightarrow> ptr \<times> kst" where
  "recv_end cur t =
     (let (p, t1) = (if qtask t (RetQ cur) \<noteq> NULL then (NULL, set_qtask (RetQ cur) NOTHING t)
                     else (qtask t (MsgQ cur), t)) in
      (p, set_qtask (MsgQ cur) (Task cur) t1))"

text \<open>A proxy of the current task gets its answer at once.\<close>

definition recv_proxy :: "nat \<Rightarrow> tid \<Rightarrow> ptr \<Rightarrow> 32 word option \<Rightarrow> kst \<Rightarrow> (ptr \<times> 32 word option) res" where
  "recv_proxy n cur p m t =
     (case p of
        Task u \<Rightarrow>
          if stack_bottom t u \<noteq> 0 \<and> stack_word t (stack_bottom t u) = Some cur
          then res_bind (rt_return n u 0 t) (\<lambda>_. Ret (p, m))
          else Ret (p, m) t
      | _ \<Rightarrow> Ret (p, m) t)"

definition recv_out :: "nat \<Rightarrow> tid \<Rightarrow> 32 word option \<Rightarrow> kst \<Rightarrow> (ptr \<times> 32 word option) res" where
  "recv_out n cur m t = (let (p, t1) = recv_end cur t in recv_proxy n cur p m t1)"

definition wait_msg :: "32 word \<Rightarrow> tid \<Rightarrow> tid \<Rightarrow> kst \<Rightarrow> kst option" where
  "wait_msg w cur t s = do {
     s1 \<leftarrow> rem_ready_current cur (or_state cur w s);
     Some (set_qtask (MsgQ cur) (if t \<noteq> cur then Task t else NULL) s1)
   }"

definition rt_receive :: "nat \<Rightarrow> tid option \<Rightarrow> kst \<Rightarrow> (ptr \<times> 32 word option) res" where
  "rt_receive n task s =
     (if bad_task task s then Ret (MSG_ERR, None) s
      else
        let cur = rt_current s in
        lift_opt (sender_of task cur s) (\<lambda>t.
          if sends_to t cur s
          then lift_opt (take_msg cur t s) (\<lambda>(b, s1).
                 res_bind (sched_if n b s1) (\<lambda>_. recv_out n cur (Some (msg s t))))
          else lift_opt (wait_msg RECEIVE cur t (set_qtask (RetQ cur) SOMETHING s)) (\<lambda>s1.
                 res_bind (rt_schedule n s1) (\<lambda>_ u. recv_out n cur (Some (msg u cur)) u))))"

definition rt_receive_if :: "nat \<Rightarrow> tid option \<Rightarrow> kst \<Rightarrow> (ptr \<times> 32 word option) res" where
  "rt_receive_if n task s =
     (if bad_task task s then Ret (MSG_ERR, None) s
      else
        let cur = rt_current s in
        lift_opt (sender_of task cur s) (\<lambda>t.
          if sends_to t cur s
          then lift_opt (take_msg cur t s) (\<lambda>(b, s1).
                 res_bind (sched_if n b s1) (\<lambda>_. recv_out n cur (Some (msg s t))))
          else Ret (NULL, None) s))"

definition rt_receive_until :: "nat \<Rightarrow> tid option \<Rightarrow> rtime \<Rightarrow> kst \<Rightarrow> (ptr \<times> 32 word option) res" where
  "rt_receive_until n task time s =
     (if bad_task task s then Ret (MSG_ERR, None) s
      else
        let cur = rt_current s in
        lift_opt (sender_of task cur s) (\<lambda>t.
          if sends_to t cur s
          then lift_opt (take_msg cur t s) (\<lambda>(b, s1).
                 res_bind (sched_if n b s1) (\<lambda>_. recv_out n cur (Some (msg s t))))
          else
            let s1 = (set_qtask (RetQ cur) SOMETHING s)\<lparr>resume_time := (resume_time s)(cur := time)\<rparr> in
            if time > rt_time_h s1
            then lift_opt (do { s2 \<leftarrow> wait_msg (RECEIVE OR DELAYED) cur t s1; enq_timed_task cur s2 })
                   (\<lambda>s3. res_bind (rt_schedule n s3) (\<lambda>_ u. recv_out n cur (Some (msg u cur)) u))
            else recv_out n cur None s1))"

definition rt_receive_timed :: "nat \<Rightarrow> tid option \<Rightarrow> rtime \<Rightarrow> kst \<Rightarrow> (ptr \<times> 32 word option) res" where
  "rt_receive_timed n task delay s = (let (now, s1) = rt_get_time s in rt_receive_until n task (now + delay) s1)"

section \<open>Extended messages\<close>

text \<open>
  The message word is the address of a message control block.  \<open>addr\<close> is where the compiler puts
  the local one of \<^verbatim>\<open>rt_rpcx\<close>, \<open>mcb_of\<close> gives the addresses of the blocks \<^verbatim>\<open>task->mcb\<close>.
\<close>

definition memcpy :: "nat \<Rightarrow> nat \<Rightarrow> int \<Rightarrow> kst \<Rightarrow> kst option" where
  "memcpy dst src n s =
     (if n < 0 then None
      else Some (s\<lparr>mem := (\<lambda>a. if dst \<le> a \<and> a < dst + nat n then mem s (src + (a - dst)) else mem s a)\<rparr>))"

definition SET_RPC_MCB :: "32 word \<Rightarrow> nat \<Rightarrow> nat \<Rightarrow> int \<Rightarrow> int \<Rightarrow> kst \<Rightarrow> kst" where
  "SET_RPC_MCB addr smsg rmsg ssize rsize s =
     s\<lparr>mcbs := (mcbs s)(addr := \<lparr>sbuf = smsg, sbytes = ssize, rbuf = rmsg, rbytes = rsize\<rparr>)\<rparr>"

text \<open>The result of the call is stored in \<^verbatim>\<open>mcb.rbytes\<close>.\<close>

definition store_result :: "32 word \<Rightarrow> (ptr \<times> 32 word option) \<Rightarrow> kst \<Rightarrow> ptr res" where
  "store_result addr r t =
     Ret (fst r) (case snd r of None \<Rightarrow> t
                  | Some v \<Rightarrow> t\<lparr>mcbs := (mcbs t)(addr := (mcbs t addr)\<lparr>rbytes := sint v\<rparr>)\<rparr>)"

definition rpcx :: "(tid \<Rightarrow> 32 word \<Rightarrow> kst \<Rightarrow> (ptr \<times> 32 word option) res) \<Rightarrow>
    32 word \<Rightarrow> tid option \<Rightarrow> nat \<Rightarrow> nat \<Rightarrow> int \<Rightarrow> int \<Rightarrow> kst \<Rightarrow> ptr res" where
  "rpcx rpc addr task smsg rmsg ssize rsize s =
     (case task of
        None \<Rightarrow> Ret NULL s
      | Some t \<Rightarrow> res_bind (rpc t addr (SET_RPC_MCB addr smsg rmsg ssize rsize s)) (store_result addr))"

definition rt_rpcx where "rt_rpcx n = rpcx (rt_rpc n)"

definition rt_rpcx_if where "rt_rpcx_if n = rpcx (rt_rpc_if n)"

definition rt_rpcx_until where "rt_rpcx_until n addr task smsg rmsg ssize rsize time =
  rpcx (\<lambda>t m. rt_rpc_until n t m time) addr task smsg rmsg ssize rsize"

definition rt_rpcx_timed where "rt_rpcx_timed n addr task smsg rmsg ssize rsize delay =
  rpcx (\<lambda>t m. rt_rpc_timed n t m delay) addr task smsg rmsg ssize rsize"

definition SET_SEND_MCB :: "32 word \<Rightarrow> nat \<Rightarrow> int \<Rightarrow> kst \<Rightarrow> kst" where
  "SET_SEND_MCB addr m nbytes s =
     s\<lparr>mcbs := (mcbs s)(addr := \<lparr>sbuf = m, sbytes = nbytes, rbuf = 0, rbytes = 0\<rparr>)\<rparr>"

definition sendx :: "(tid \<Rightarrow> 32 word \<Rightarrow> kst \<Rightarrow> ptr res) \<Rightarrow>
    (tid \<Rightarrow> 32 word) \<Rightarrow> tid option \<Rightarrow> nat \<Rightarrow> int \<Rightarrow> kst \<Rightarrow> ptr res" where
  "sendx send mcb_of task m nbytes s =
     (case task of None \<Rightarrow> Ret NULL s | Some t \<Rightarrow> send t (mcb_of t) (SET_SEND_MCB (mcb_of t) m nbytes s))"

definition rt_sendx where "rt_sendx n = sendx (rt_send n)"

definition rt_sendx_if where "rt_sendx_if n = sendx (rt_send_if n)"

definition rt_sendx_until where "rt_sendx_until n mcb_of task m nbytes time =
  sendx (\<lambda>t w. rt_send_until n t w time) mcb_of task m nbytes"

definition rt_sendx_timed where "rt_sendx_timed n mcb_of task m nbytes delay =
  sendx (\<lambda>t w. rt_send_timed n t w delay) mcb_of task m nbytes"

definition rt_returnx :: "nat \<Rightarrow> tid option \<Rightarrow> nat \<Rightarrow> int \<Rightarrow> kst \<Rightarrow> ptr res" where
  "rt_returnx n task m nbytes s =
     (case task of
        None \<Rightarrow> Ret NULL s
      | Some t \<Rightarrow>
          let b = mcbs s (msg s t); sz = (if rbytes b < nbytes then rbytes b else nbytes) in
          lift_opt (if sz \<noteq> 0 then memcpy (rbuf b) m sz s else Some s) (rt_return n t 0))"

text \<open>The length of the copied block is the second component of the result.\<close>

definition DO_RCV_MSG :: "nat \<Rightarrow> int \<Rightarrow> (ptr \<times> 32 word option) \<Rightarrow> kst \<Rightarrow> (ptr \<times> int option) res" where
  "DO_RCV_MSG m nbytes r t =
     (if fst r = NULL then Ret (NULL, None) t
      else (case snd r of
              None \<Rightarrow> Stuck
            | Some w \<Rightarrow>
                let b = mcbs t w; len = (if nbytes \<le> sbytes b then nbytes else sbytes b) in
                lift_opt (if len \<noteq> 0 then memcpy m (sbuf b) len t else Some t) (Ret (fst r, Some len))))"

definition rt_evdrpx :: "tid option \<Rightarrow> nat \<Rightarrow> int \<Rightarrow> kst \<Rightarrow> (ptr \<times> int option) res" where
  "rt_evdrpx task m nbytes s = lift_opt (rt_evdrp task s) (\<lambda>r. DO_RCV_MSG m nbytes r s)"

definition rt_receivex :: "nat \<Rightarrow> tid option \<Rightarrow> nat \<Rightarrow> int \<Rightarrow> kst \<Rightarrow> (ptr \<times> int option) res" where
  "rt_receivex n task m nbytes s = res_bind (rt_receive n task s) (DO_RCV_MSG m nbytes)"

definition rt_receivex_if :: "nat \<Rightarrow> tid option \<Rightarrow> nat \<Rightarrow> int \<Rightarrow> kst \<Rightarrow> (ptr \<times> int option) res" where
  "rt_receivex_if n task m nbytes s = res_bind (rt_receive_if n task s) (DO_RCV_MSG m nbytes)"

definition rt_receivex_until :: "nat \<Rightarrow> tid option \<Rightarrow> nat \<Rightarrow> int \<Rightarrow> rtime \<Rightarrow> kst \<Rightarrow> (ptr \<times> int option) res" where
  "rt_receivex_until n task m nbytes time s = res_bind (rt_receive_until n task time s) (DO_RCV_MSG m nbytes)"

definition rt_receivex_timed :: "nat \<Rightarrow> tid option \<Rightarrow> nat \<Rightarrow> int \<Rightarrow> rtime \<Rightarrow> kst \<Rightarrow> (ptr \<times> int option) res" where
  "rt_receivex_timed n task m nbytes delay s = res_bind (rt_receive_timed n task delay s) (DO_RCV_MSG m nbytes)"

end
