(* ===== verification/Mailboxes.thy ===== *)
theory Mailboxes
  imports Messages
begin

text \<open>
  Mailboxes of \<^verbatim>\<open>rtai_sched.c\<close>: a ring buffer of bytes, a semaphore for the senders, one for the
  receivers, and one task at most that waits for room or for bytes.  A message is the list of
  its bytes; a receiving call returns the bytes it has copied out before the number it did not
  get.  The rounds of the loops of the blocking calls are bounded by \<open>k\<close>.
\<close>

abbreviation RT_MBX_MAGIC :: int where "RT_MBX_MAGIC \<equiv> 0x3ad46e9b"

definition upd_mbx :: "mbxid \<Rightarrow> (mbx \<Rightarrow> mbx) \<Rightarrow> kst \<Rightarrow> kst" where
  "upd_mbx b f s = s\<lparr>mbxs := (mbxs s)(b := f (mbxs s b))\<rparr>"

definition set_buf :: "mbxid \<Rightarrow> byte ring_buf \<Rightarrow> kst \<Rightarrow> kst" where
  "set_buf b r = upd_mbx b (\<lambda>m. m\<lparr>mbx_buf := r\<rparr>)"

text \<open>Does the mailbox have an owner, that is, are its semaphores resources?\<close>

definition mbx_owned :: "mbxid \<Rightarrow> kst \<Rightarrow> bool" where
  "mbx_owned b s \<longleftrightarrow> sem_type (sems s (sndsem (mbxs s b))) > 0"

section \<open>Waiting for a mailbox, and waking its waiter\<close>

definition mbx_wake :: "mbxid \<Rightarrow> kst \<Rightarrow> (bool \<times> kst) option" where
  "mbx_wake b s =
     (case waiting_task (mbxs s b) of
        None \<Rightarrow> Some (False, s)
      | Some t \<Rightarrow> wake_blocked (MBXSUSP OR DELAYED) t
                    (forget_pass t (upd_mbx b (\<lambda>m. m\<lparr>waiting_task := None\<rparr>) s)))"

definition mbx_signal :: "nat \<Rightarrow> mbxid \<Rightarrow> kst \<Rightarrow> int res" where
  "mbx_signal n b s =
     lift_opt (mbx_wake b s) (\<lambda>(woken, s1).
       if mbx_owned b s1 then leave_owned n woken (upd_mbx b (\<lambda>m. m\<lparr>mbx_owndby := None\<rparr>) s1)
       else if woken then schedule_ret n 0 s1
       else Ret 0 s1)"

definition mbx_take :: "tid \<Rightarrow> mbxid \<Rightarrow> kst \<Rightarrow> kst" where
  "mbx_take cur b s =
     (if mbx_owned b s
      then (upd_mbx b (\<lambda>m. m\<lparr>mbx_owndby := Some cur\<rparr>) s)\<lparr>owndres := (owndres s)(cur := owndres s cur + 1)\<rparr>
      else s)"

definition pass_to_mbx_owner :: "tid \<Rightarrow> mbxid \<Rightarrow> kst \<Rightarrow> kst option" where
  "pass_to_mbx_owner cur b s =
     (if mbx_owned b s then map_option snd (pass_prio (mbx_owndby (mbxs s b)) cur s) else Some s)"

text \<open>\<open>fravbs\<close> selects the field \<^verbatim>\<open>frbs\<close> or \<^verbatim>\<open>avbs\<close> the caller waits for.\<close>

definition mbx_wait :: "nat \<Rightarrow> mbxid \<Rightarrow> (byte ring_buf \<Rightarrow> nat) \<Rightarrow> tid \<Rightarrow> kst \<Rightarrow> int res" where
  "mbx_wait n b fravbs cur s =
     (if fravbs (mbx_buf (mbxs s b)) = 0 then
        lift_opt (do {
          s1 \<leftarrow> pass_to_mbx_owner cur b s;
          s2 \<leftarrow> rem_ready_current cur (or_state cur MBXSUSP s1);
          Some (upd_mbx b (\<lambda>m. m\<lparr>waiting_task := Some cur\<rparr>) s2)
        }) (\<lambda>s3. res_bind (rt_schedule n s3) (\<lambda>_ t.
          if waiting_task (mbxs t b) = Some cur \<or> mbx_magic (mbxs t b) \<noteq> RT_MBX_MAGIC
          then Ret (- 1) (forget_pass cur t)
          else Ret 0 (mbx_take cur b t)))
      else Ret 0 (mbx_take cur b s))"

definition mbx_wait_until :: "nat \<Rightarrow> rtime \<Rightarrow> mbxid \<Rightarrow> (byte ring_buf \<Rightarrow> nat) \<Rightarrow> tid \<Rightarrow> kst \<Rightarrow> int res" where
  "mbx_wait_until n time b fravbs cur s =
     (if fravbs (mbx_buf (mbxs s b)) = 0 then
        let s0 = (upd_mbx b (\<lambda>m. m\<lparr>waiting_task := Some cur\<rparr>) s)
                   \<lparr>resume_time := (resume_time s)(cur := time)\<rparr> in
        res_bind (if time > rt_time_h s0
                  then lift_opt (do {
                         s1 \<leftarrow> pass_to_mbx_owner cur b s0;
                         s2 \<leftarrow> rem_ready_current cur (or_state cur (MBXSUSP OR DELAYED) s1);
                         enq_timed_task cur s2
                       }) (rt_schedule n)
                  else Ret () s0) (\<lambda>_ t.
          if mbx_magic (mbxs t b) \<noteq> RT_MBX_MAGIC then Ret (- 1) (forget_pass cur t)
          else if waiting_task (mbxs t b) = Some cur
          then Ret (- 1) (forget_pass cur (upd_mbx b (\<lambda>m. m\<lparr>waiting_task := None\<rparr>) t))
          else Ret 0 (mbx_take cur b t))
      else Ret 0 (mbx_take cur b s))"

section \<open>Creating and deleting\<close>

text \<open>\<open>buf\<close> is what \<^verbatim>\<open>sched_malloc(size)\<close> returns, with the bytes found there.\<close>

definition rt_typed_mbx_init :: "mbxid \<Rightarrow> byte list option \<Rightarrow> nat \<Rightarrow> int \<Rightarrow> kst \<Rightarrow> int \<times> kst" where
  "rt_typed_mbx_init b buf nbytes typ s =
     (case buf of
        None \<Rightarrow> (- ENOMEM, s)
      | Some bytes \<Rightarrow>
          let ty = (if typ mod 4 \<noteq> 0 then typ else BIN_SEM OR typ);
              s1 = rt_typed_sem_init (rcvsem (mbxs s b)) 1 ty (rt_typed_sem_init (sndsem (mbxs s b)) 1 ty s) in
          (0, upd_mbx b (\<lambda>m. m\<lparr>mbx_magic := RT_MBX_MAGIC, waiting_task := None, mbx_owndby := None,
                              mbx_buf := rb_init nbytes bytes\<rparr>) s1))"

definition rt_mbx_init :: "mbxid \<Rightarrow> byte list option \<Rightarrow> nat \<Rightarrow> kst \<Rightarrow> int \<times> kst" where
  "rt_mbx_init b buf nbytes s = rt_typed_mbx_init b buf nbytes 0 s"

primrec mbx_drain :: "nat \<Rightarrow> nat \<Rightarrow> mbxid \<Rightarrow> kst \<Rightarrow> int res" where
  "mbx_drain 0 n b s = Stuck"
| "mbx_drain (Suc k) n b s =
     (if waiting_task (mbxs s b) \<noteq> None
      then res_bind (mbx_signal n b s) (\<lambda>_. mbx_drain k n b)
      else Ret 0 s)"

definition rt_mbx_delete :: "nat \<Rightarrow> nat \<Rightarrow> mbxid \<Rightarrow> kst \<Rightarrow> int res" where
  "rt_mbx_delete k n b s =
     (if mbx_magic (mbxs s b) \<noteq> RT_MBX_MAGIC then Ret (- EINVAL) s
      else
        res_bind (rt_sem_delete n (sndsem (mbxs s b)) (upd_mbx b (\<lambda>m. m\<lparr>mbx_magic := 0\<rparr>) s)) (\<lambda>e s1.
          if e \<noteq> 0 then Ret (- EFAULT) s1
          else res_bind (rt_sem_delete n (rcvsem (mbxs s1 b)) s1) (\<lambda>e s2.
            if e \<noteq> 0 then Ret (- EFAULT) s2 else mbx_drain k n b s2)))"

section \<open>Sending\<close>

definition put_mbx :: "mbxid \<Rightarrow> byte list \<Rightarrow> kst \<Rightarrow> (byte list \<times> kst) option" where
  "put_mbx b xs s = do { (left, r) \<leftarrow> mbxput (mbx_buf (mbxs s b)) xs; Some (left, set_buf b r s) }"

text \<open>\<^verbatim>\<open>rt_sem_signal(sem); return r;\<close>\<close>

definition signal_ret :: "nat \<Rightarrow> semid \<Rightarrow> 'a \<Rightarrow> kst \<Rightarrow> 'a res" where
  "signal_ret n x r s = res_bind (rt_sem_signal n x s) (\<lambda>_. Ret r)"

primrec send_loop ::
  "nat \<Rightarrow> nat \<Rightarrow> (mbxid \<Rightarrow> (byte ring_buf \<Rightarrow> nat) \<Rightarrow> tid \<Rightarrow> kst \<Rightarrow> int res) \<Rightarrow> mbxid \<Rightarrow> tid \<Rightarrow> byte list \<Rightarrow> kst \<Rightarrow> int res"
where
  "send_loop 0 n wait b cur xs s = Stuck"
| "send_loop (Suc k) n wait b cur xs s =
     (if xs \<noteq> [] then
        res_bind (wait b frbs cur s) (\<lambda>e s1.
          if e \<noteq> 0 then signal_ret n (sndsem (mbxs s1 b)) (int (length xs)) s1
          else lift_opt (put_mbx b xs s1) (\<lambda>(left, s2).
                 res_bind (mbx_signal n b s2) (\<lambda>_. send_loop k n wait b cur left)))
      else signal_ret n (sndsem (mbxs s b)) 0 s)"

definition rt_mbx_send :: "nat \<Rightarrow> nat \<Rightarrow> mbxid \<Rightarrow> byte list \<Rightarrow> kst \<Rightarrow> int res" where
  "rt_mbx_send k n b xs s =
     (if mbx_magic (mbxs s b) \<noteq> RT_MBX_MAGIC then Ret (- EINVAL) s
      else res_bind (rt_sem_wait n (sndsem (mbxs s b)) s) (\<lambda>r s1.
        if r > 1 then Ret (int (length xs)) s1
        else send_loop k n (mbx_wait n) b (rt_current s1) xs s1))"

definition rt_mbx_send_until :: "nat \<Rightarrow> nat \<Rightarrow> mbxid \<Rightarrow> byte list \<Rightarrow> rtime \<Rightarrow> kst \<Rightarrow> int res" where
  "rt_mbx_send_until k n b xs time s =
     (if mbx_magic (mbxs s b) \<noteq> RT_MBX_MAGIC then Ret (- EINVAL) s
      else res_bind (rt_sem_wait_until n (sndsem (mbxs s b)) time s) (\<lambda>r s1.
        if r > 1 then Ret (int (length xs)) s1
        else send_loop k n (mbx_wait_until n time) b (rt_current s1) xs s1))"

definition rt_mbx_send_timed :: "nat \<Rightarrow> nat \<Rightarrow> mbxid \<Rightarrow> byte list \<Rightarrow> rtime \<Rightarrow> kst \<Rightarrow> int res" where
  "rt_mbx_send_timed k n b xs delay s =
     (let (now, s1) = rt_get_time s in rt_mbx_send_until k n b xs (now + delay) s1)"

text \<open>The conditional calls enter the mailbox without waiting: they take its semaphore \<open>x\<close>.\<close>

definition mbx_enter :: "mbxid \<Rightarrow> semid \<Rightarrow> kst \<Rightarrow> kst" where
  "mbx_enter b x s =
     (let s1 = upd_sem x (\<lambda>m. m\<lparr>sem_count := 0\<rparr>) s; cur = rt_current s in
      if sem_type (sems s1 x) > 0
      then (upd_mbx b (\<lambda>m. m\<lparr>mbx_owndby := Some cur\<rparr>) (upd_sem x (\<lambda>m. m\<lparr>owndby := Task cur\<rparr>) s1))
             \<lparr>owndres := (owndres s1)(cur := owndres s1 cur + 2)\<rparr>
      else s1)"

definition rt_mbx_send_wp :: "nat \<Rightarrow> mbxid \<Rightarrow> byte list \<Rightarrow> kst \<Rightarrow> int res" where
  "rt_mbx_send_wp n b xs s =
     (let x = sndsem (mbxs s b) in
      if mbx_magic (mbxs s b) \<noteq> RT_MBX_MAGIC then Ret (- EINVAL) s
      else if sem_count (sems s x) \<noteq> 0 \<and> frbs (mbx_buf (mbxs s b)) \<noteq> 0
      then lift_opt (put_mbx b xs (mbx_enter b x s)) (\<lambda>(left, s1).
             res_bind (mbx_signal n b s1) (\<lambda>_. signal_ret n x (int (length left))))
      else Ret (int (length xs)) s)"

definition rt_mbx_send_if :: "nat \<Rightarrow> mbxid \<Rightarrow> byte list \<Rightarrow> kst \<Rightarrow> int res" where
  "rt_mbx_send_if n b xs s =
     (let x = sndsem (mbxs s b) in
      if mbx_magic (mbxs s b) \<noteq> RT_MBX_MAGIC then Ret (- EINVAL) s
      else if sem_count (sems s x) \<noteq> 0 \<and> length xs \<le> frbs (mbx_buf (mbxs s b))
      then lift_opt (put_mbx b xs (mbx_enter b x s)) (\<lambda>(left, s1).
             res_bind (mbx_signal n b s1) (\<lambda>_. signal_ret n x 0))
      else Ret (int (length xs)) s)"

text \<open>The overwriting send; \<^verbatim>\<open>mbxovrwrput\<close> returns 0.\<close>

definition rt_mbx_ovrwr_send :: "nat \<Rightarrow> mbxid \<Rightarrow> byte list \<Rightarrow> kst \<Rightarrow> int res" where
  "rt_mbx_ovrwr_send n b xs s =
     (let x = sndsem (mbxs s b) in
      if mbx_magic (mbxs s b) \<noteq> RT_MBX_MAGIC then Ret (- EINVAL) s
      else if sem_count (sems s x) \<noteq> 0
      then let s1 = mbx_enter b x s in
           lift_opt (mbxovrwrput (mbx_buf (mbxs s1 b)) xs) (\<lambda>r.
             res_bind (mbx_signal n b (set_buf b r s1)) (\<lambda>_. signal_ret n x 0))
      else Ret (int (length xs)) s)"

section \<open>Receiving\<close>

definition get_mbx :: "mbxid \<Rightarrow> nat \<Rightarrow> kst \<Rightarrow> (byte list \<times> nat \<times> kst) option" where
  "get_mbx b k s = do { (got, left, r) \<leftarrow> mbxget (mbx_buf (mbxs s b)) k; Some (got, left, set_buf b r s) }"

definition rt_mbx_evdrp :: "mbxid \<Rightarrow> nat \<Rightarrow> kst \<Rightarrow> (byte list \<times> nat) option" where
  "rt_mbx_evdrp b k s = mbxevdrp (mbx_buf (mbxs s b)) k"

primrec receive_loop ::
  "nat \<Rightarrow> nat \<Rightarrow> (mbxid \<Rightarrow> (byte ring_buf \<Rightarrow> nat) \<Rightarrow> tid \<Rightarrow> kst \<Rightarrow> int res) \<Rightarrow> mbxid \<Rightarrow> tid \<Rightarrow>
    byte list \<Rightarrow> nat \<Rightarrow> kst \<Rightarrow> (byte list \<times> int) res"
where
  "receive_loop 0 n wait b cur acc m s = Stuck"
| "receive_loop (Suc k) n wait b cur acc m s =
     (if m \<noteq> 0 then
        res_bind (wait b avbs cur s) (\<lambda>e s1.
          if e \<noteq> 0 then signal_ret n (rcvsem (mbxs s1 b)) (acc, int m) s1
          else lift_opt (get_mbx b m s1) (\<lambda>(got, left, s2).
                 res_bind (mbx_signal n b s2) (\<lambda>_. receive_loop k n wait b cur (acc @ got) left)))
      else signal_ret n (rcvsem (mbxs s b)) (acc, 0) s)"

definition rt_mbx_receive :: "nat \<Rightarrow> nat \<Rightarrow> mbxid \<Rightarrow> nat \<Rightarrow> kst \<Rightarrow> (byte list \<times> int) res" where
  "rt_mbx_receive k n b m s =
     (if mbx_magic (mbxs s b) \<noteq> RT_MBX_MAGIC then Ret ([], - EINVAL) s
      else res_bind (rt_sem_wait n (rcvsem (mbxs s b)) s) (\<lambda>r s1.
        if r > 1 then Ret ([], int m) s1
        else receive_loop k n (mbx_wait n) b (rt_current s1) [] m s1))"

definition rt_mbx_receive_until :: "nat \<Rightarrow> nat \<Rightarrow> mbxid \<Rightarrow> nat \<Rightarrow> rtime \<Rightarrow> kst \<Rightarrow> (byte list \<times> int) res" where
  "rt_mbx_receive_until k n b m time s =
     (if mbx_magic (mbxs s b) \<noteq> RT_MBX_MAGIC then Ret ([], - EINVAL) s
      else res_bind (rt_sem_wait_until n (rcvsem (mbxs s b)) time s) (\<lambda>r s1.
        if r > 1 then Ret ([], int m) s1
        else receive_loop k n (mbx_wait_until n time) b (rt_current s1) [] m s1))"

definition rt_mbx_receive_timed :: "nat \<Rightarrow> nat \<Rightarrow> mbxid \<Rightarrow> nat \<Rightarrow> rtime \<Rightarrow> kst \<Rightarrow> (byte list \<times> int) res" where
  "rt_mbx_receive_timed k n b m delay s =
     (let (now, s1) = rt_get_time s in rt_mbx_receive_until k n b m (now + delay) s1)"

definition rt_mbx_receive_wp :: "nat \<Rightarrow> mbxid \<Rightarrow> nat \<Rightarrow> kst \<Rightarrow> (byte list \<times> int) res" where
  "rt_mbx_receive_wp n b m s =
     (let x = rcvsem (mbxs s b) in
      if mbx_magic (mbxs s b) \<noteq> RT_MBX_MAGIC then Ret ([], - EINVAL) s
      else if sem_count (sems s x) \<noteq> 0 \<and> avbs (mbx_buf (mbxs s b)) \<noteq> 0
      then lift_opt (get_mbx b m (mbx_enter b x s)) (\<lambda>(got, left, s1).
             res_bind (mbx_signal n b s1) (\<lambda>_. signal_ret n x (got, int left)))
      else Ret ([], int m) s)"

definition rt_mbx_receive_if :: "nat \<Rightarrow> mbxid \<Rightarrow> nat \<Rightarrow> kst \<Rightarrow> (byte list \<times> int) res" where
  "rt_mbx_receive_if n b m s =
     (let x = rcvsem (mbxs s b) in
      if mbx_magic (mbxs s b) \<noteq> RT_MBX_MAGIC then Ret ([], - EINVAL) s
      else if sem_count (sems s x) \<noteq> 0 \<and> m \<le> avbs (mbx_buf (mbxs s b))
      then lift_opt (get_mbx b m (mbx_enter b x s)) (\<lambda>(got, left, s1).
             res_bind (mbx_signal n b s1) (\<lambda>_. signal_ret n x (got, 0)))
      else Ret ([], int m) s)"

end
