(* ===== verification/Message_Props.thy ===== *)
theory Message_Props
  imports Messages
begin

text \<open>
  What the message operations do to the lists and queues: a message reaches a waiting receiver
  at once, a sender waits in the receiver's queue in the order of priority, the most urgent
  waiting sender is received first, and an answer releases the caller.
\<close>

section \<open>What the primitives leave alone\<close>

lemma enq_ready_task_msg:
  assumes "enq_ready_task t s = Some s'"
  shows "msg s' = msg s \<and> mem s' = mem s \<and> mcbs s' = mcbs s"
  using enq_ready_cases [OF assms] by (elim disjE exE) (simp_all add: link_ready_def pend_wake_up_def)

lemma wake_blocked_msg:
  assumes "wake_blocked w t s = Some (b, s')"
  shows "msg s' = msg s \<and> mem s' = mem s \<and> mcbs s' = mcbs s"
proof -
  let ?r = "rem_timed_task t s" and ?a = "and_not_state t w (rem_timed_task t s)"
  have a: "msg ?r = msg s \<and> mem ?r = mem s \<and> mcbs ?r = mcbs s"
    "msg ?a = msg s \<and> mem ?a = mem s \<and> mcbs ?a = mcbs s"
    by (simp_all add: rem_timed_task_def unlink_timed_def and_not_state_def)
  have "s' = ?r \<or> s' = ?a \<or> enq_ready_task t ?a = Some s'"
    using assms unfolding wake_blocked_def Let_def by (simp add: bind_eq_Some_conv split: if_splits)
  then show ?thesis using a enq_ready_task_msg by metis
qed

lemma wake_blocked_frame:
  assumes "wake_blocked w t s = Some (b, s')"
  shows "owndres s' = owndres s \<and> base_priority s' = base_priority s \<and> suspdepth s' = suspdepth s"
proof -
  let ?r = "rem_timed_task t s" and ?a = "and_not_state t w (rem_timed_task t s)"
  have e: "owndres s2 = owndres s1 \<and> base_priority s2 = base_priority s1 \<and> suspdepth s2 = suspdepth s1"
    if "enq_ready_task t s1 = Some s2" for s1 s2
    using enq_ready_cases [OF that] by (elim disjE exE) (simp_all add: link_ready_def pend_wake_up_def)
  have a: "owndres ?r = owndres s \<and> base_priority ?r = base_priority s \<and> suspdepth ?r = suspdepth s"
    "owndres ?a = owndres s \<and> base_priority ?a = base_priority s \<and> suspdepth ?a = suspdepth s"
    by (simp_all add: rem_timed_task_def unlink_timed_def and_not_state_def)
  have "s' = ?r \<or> s' = ?a \<or> enq_ready_task t ?a = Some s'"
    using assms unfolding wake_blocked_def Let_def by (simp add: bind_eq_Some_conv split: if_splits)
  then show ?thesis using a e by metis
qed

lemma blocked_queues_set_qtask [simp]:
  "blocked_queues (set_qtask (MsgQ t) v s) H qs = blocked_queues s H qs"
  "blocked_queues (set_qtask (RetQ t) v s) H qs = blocked_queues s H qs"
  by (simp_all add: blocked_queues_def queue_list_def set_qtask_def)

lemma same_sched_set_qtask: "same_sched s (set_qtask q v s)"
  by (simp add: same_sched_def set_qtask_def)

lemma set_qtask_simps [simp]:
  "state (set_qtask q v s) = state s" "qtask (set_qtask q v s) = (qtask s)(q := v)"
  "rt_current (set_qtask q v s) = rt_current s" "priority (set_qtask q v s) = priority s"
  "is_hard (set_qtask q v s) = is_hard s" "magic (set_qtask q v s) = magic s" "msg (set_qtask q v s) = msg s"
  "blocked_on (set_qtask q v s) = blocked_on s" "qnext (set_qtask q v s) = qnext s"
  "qprev (set_qtask q v s) = qprev s"
  "owndres (set_qtask q v s) = owndres s" "base_priority (set_qtask q v s) = base_priority s"
  by (simp_all add: set_qtask_def)

lemma receive_not_ready: "w AND RECEIVE \<noteq> 0 \<Longrightarrow> w \<noteq> READY"
  by (rule notI) simp

section \<open>Delivery to a waiting receiver\<close>

lemma deliver_ok:
  assumes i: "sched_inv s rq tq" and l: "live s t" and r: "state s t AND RECEIVE \<noteq> 0"
    and st: "state s t AND NOT (RECEIVE OR DELAYED) = READY" and b: "blocked_queues s H qs"
  shows "\<exists>s' rq'. deliver m cur t s = Some (True, s') \<and> sched_inv s' rq' (remove1 t tq)
     \<and> blocked_queues s' H qs \<and> state s' = (state s)(t := READY) \<and> msg s' = (msg s)(t := m)
     \<and> qtask s' = (qtask s)(MsgQ t := Task cur, RetQ t := NOTHING) \<and> blocked_on s' = blocked_on s
     \<and> rt_current s' = rt_current s \<and> magic s' = magic s \<and> priority s' = priority s"
proof -
  let ?s = "s\<lparr>msg := (msg s)(t := m), qtask := (qtask s)(MsgQ t := Task cur, RetQ t := NOTHING)\<rparr>"
  have i0: "sched_inv ?s rq tq" by (rule same_sched_inv [OF _ i]) (simp add: same_sched_def)
  have l0: "live ?s t" using l by (simp add: live_def)
  have nr: "state s t \<noteq> READY" using r by (rule receive_not_ready)
  obtain s' rq' where w: "wake_blocked (RECEIVE OR DELAYED) t ?s =
       Some (state ?s t \<noteq> READY \<and> state ?s t AND NOT (RECEIVE OR DELAYED) = READY, s')"
    "sched_inv s' rq' (remove1 t tq)" "release_frame ?s s'"
    "state s' = (if state ?s t = READY then state ?s else (state ?s)(t := state ?s t AND NOT (RECEIVE OR DELAYED)))"
    "blocked_on s' = blocked_on ?s"
    using wake_blocked_ok [OF i0 l0, of RECEIVE] by (elim exE conjE)
  have b0: "blocked_queues ?s H qs" using b by (simp add: blocked_queues_def queue_list_def)
  have f: "qnext s' = qnext s" "qprev s' = qprev s" "qtask s' = (qtask s)(MsgQ t := Task cur, RetQ t := NOTHING)"
    "rt_current s' = rt_current s" "magic s' = magic s" "priority s' = priority s"
    using w(3) by (simp_all add: release_frame_def)
  have b1: "blocked_queues s' H qs"
    using b0 f(1-3) blocked_queues_same [of s' ?s H qs] by simp
  have e: "state ?s t = state s t" by simp
  have w1: "deliver m cur t s = Some (True, s')"
    using w(1) nr unfolding deliver_def e st by simp
  have s1: "state s' = (state s)(t := READY)"
    using w(4) nr unfolding e st by simp
  have m1: "msg s' = (msg s)(t := m)" using wake_blocked_msg [OF w(1)] by simp
  show ?thesis
    by (intro exI conjI, rule w1, rule w(2), rule b1, rule s1, rule m1, rule f(3))
      (use w(5) f in simp_all)
qed

text \<open>C12: sending to a task that waits to receive delivers the message, makes the receiver
  ready and does not touch any queue of blocked tasks.\<close>

lemma rt_send_delivers:
  assumes i: "sched_inv s rq tq" and l: "live s t" and rc: "receives_from t (rt_current s) s"
    and st: "state s t AND NOT (RECEIVE OR DELAYED) = READY" and b: "blocked_queues s H qs"
  shows "\<exists>s' rq'. rt_send n t m s = res_bind (rt_schedule n s')
         (\<lambda>_ u. let (r, u') = send_end (rt_current s) t u in Ret r u')
     \<and> sched_inv s' rq' (remove1 t tq) \<and> blocked_queues s' H qs
     \<and> state s' = (state s)(t := READY) \<and> msg s' t = m \<and> qtask s' (MsgQ t) = Task (rt_current s)
     \<and> qtask s' (RetQ t) = NOTHING"
proof -
  obtain s' rq' where d: "deliver m (rt_current s) t s = Some (True, s')" "sched_inv s' rq' (remove1 t tq)"
    "blocked_queues s' H qs" "state s' = (state s)(t := READY)" "msg s' = (msg s)(t := m)"
    "qtask s' = (qtask s)(MsgQ t := Task (rt_current s), RetQ t := NOTHING)"
    using deliver_ok [OF i l _ st b] rc unfolding receives_from_def by blast
  have "magic s t = RT_TASK_MAGIC" using l by (simp add: live_def)
  then have 1: "rt_send n t m s = res_bind (rt_schedule n s')
         (\<lambda>_ u. let (r, u') = send_end (rt_current s) t u in Ret r u')"
    using rc d(1) by (simp add: rt_send_def Let_def sched_if_def)
  show ?thesis by (intro exI conjI, rule 1, rule d(2), rule d(3), rule d(4)) (use d(5,6) in simp_all)
qed

section \<open>A sender that has to wait\<close>

lemma send_block_ok:
  assumes i: "sched_inv s rq tq" and l: "live s cur" and st: "state s cur = READY" and p: "0 \<le> priority s cur"
    and w: "READY OR w \<noteq> READY" "(READY OR w) AND DELAYED = 0" and b: "blocked_queues s H qs" and h: "MsgQ t \<in> H"
    and nq: "\<forall>h \<in> H. cur \<notin> set (qs h)" and tq: "qtask s (TaskQ cur) = Task cur"
  shows "\<exists>s'. send_block w cur t s = Some s' \<and> sched_inv s' (remove1 cur rq) tq
     \<and> blocked_queues s' H (qs(MsgQ t := queue_insert s (priority s cur) cur (qs (MsgQ t))))
     \<and> state s' = (state s)(cur := READY OR w) \<and> blocked_on s' = (blocked_on s)(cur := Some (MsgQ t))
     \<and> qtask s' = qtask s \<and> msg s' = msg s \<and> rt_current s' = rt_current s"
proof -
  obtain pos where e: "enqueue_blocked cur (MsgQ t) 0 s =
      Some (link_queue (TaskQ cur) pos (s\<lparr>blocked_on := (blocked_on s)(cur := Some (MsgQ t))\<rparr>))"
    "blocked_queues (link_queue (TaskQ cur) pos (s\<lparr>blocked_on := (blocked_on s)(cur := Some (MsgQ t))\<rparr>)) H
        (qs(MsgQ t := queue_insert s (priority s cur) cur (qs (MsgQ t))))"
    using enqueue_blocked_eq [OF b h nq tq, of 0] by auto
  let ?q = "link_queue (TaskQ cur) pos (s\<lparr>blocked_on := (blocked_on s)(cur := Some (MsgQ t))\<rparr>)"
  let ?s = "unlink_ready cur (or_state cur w ?q)"
  have iq: "sched_inv ?q rq tq" by (rule same_sched_inv [OF same_sched_link_queue i])
  have "is_hard ?q cur \<noteq> 0" using inv_hard(1) [OF i l] by simp
  then have 1: "send_block w cur t s = Some ?s"
    using e(1) by (simp add: send_block_def rem_ready_current_eq or_state_def)
  have v: "?s = set_state cur (READY OR w) (unlink_ready cur ?q)"
    using st by (simp add: or_state_def unlink_ready_def)
  have "sched_inv (set_state cur (READY OR w) (unlink_ready cur ?q)) (remove1 cur rq) tq"
    by (rule inv_unready [OF iq]) (use l st p w in \<open>simp_all add: live_def link_queue_def\<close>)
  then have 2: "sched_inv ?s (remove1 cur rq) tq" unfolding v .
  have 3: "blocked_queues ?s H (qs(MsgQ t := queue_insert s (priority s cur) cur (qs (MsgQ t))))"
    unfolding v by (rule iffD2 [OF blocked_queues_same e(2)]) simp_all
  show ?thesis
    by (intro exI conjI, rule 1, rule 2, rule 3)
      (simp_all add: st or_state_def unlink_ready_def link_queue_def)
qed

lemma rt_send_blocks:
  assumes i: "sched_inv s rq tq" and l: "live s (rt_current s)" "live s t" and st: "state s (rt_current s) = READY"
    and p: "0 \<le> priority s (rt_current s)" and nr: "\<not> receives_from t (rt_current s) s"
    and b: "blocked_queues s H qs" and h: "MsgQ t \<in> H"
    and nq: "\<forall>h \<in> H. rt_current s \<notin> set (qs h)" and tq: "qtask s (TaskQ (rt_current s)) = Task (rt_current s)"
  shows "\<exists>s'. rt_send n t m s = res_bind (rt_schedule n s')
         (\<lambda>_ u. let (r, u') = send_end (rt_current s) t u in Ret r u')
     \<and> sched_inv s' (remove1 (rt_current s) rq) tq
     \<and> blocked_queues s' H (qs(MsgQ t := queue_insert s (priority s (rt_current s)) (rt_current s) (qs (MsgQ t))))
     \<and> state s' (rt_current s) = READY OR SEND \<and> sends_to (rt_current s) t s' \<and> msg s' (rt_current s) = m"
proof -
  let ?c = "rt_current s"
  let ?s = "set_qtask (MsgQ ?c) (Task t) (s\<lparr>msg := (msg s)(?c := m)\<rparr>)"
  have i0: "sched_inv ?s rq tq" by (rule same_sched_inv [OF _ i]) (simp add: same_sched_def set_qtask_def)
  have b0: "blocked_queues ?s H qs" using b by (simp add: blocked_queues_def queue_list_def set_qtask_def)
  obtain s' where d: "send_block SEND ?c t ?s = Some s'" "sched_inv s' (remove1 ?c rq) tq"
    "blocked_queues s' H (qs(MsgQ t := queue_insert ?s (priority ?s ?c) ?c (qs (MsgQ t))))"
    "state s' = (state ?s)(?c := READY OR SEND)" "qtask s' = qtask ?s" "msg s' = msg ?s"
    using send_block_ok [OF i0 _ _ _ _ _ b0 h nq, of SEND] l(1) st p tq by (auto simp: live_def)
  have "magic s t = RT_TASK_MAGIC" using l by (simp add: live_def)
  then have 1: "rt_send n t m s = res_bind (rt_schedule n s')
         (\<lambda>_ u. let (r, u') = send_end ?c t u in Ret r u')"
    using nr d(1) by (simp add: rt_send_def Let_def)
  have pe: "priority ?s = priority s" by simp
  show ?thesis
    by (intro exI conjI, rule 1, rule d(2), rule d(3) [unfolded pe])
      (use d(4,5,6) in \<open>simp_all add: sends_to_def\<close>)
qed

section \<open>Receiving a message that waits\<close>

lemma wake_blocked_make_ready: "wake_blocked w t s = make_ready w t (rem_timed_task t s)"
  by (simp add: wake_blocked_def make_ready_def Let_def)

lemma rem_timed_set_qtask: "rem_timed_task t (set_qtask q v s) = set_qtask q v (rem_timed_task t s)"
  by (simp add: rem_timed_task_def set_qtask_def unlink_timed_def)

lemma take_msg_send:
  assumes "state s t AND SEND \<noteq> 0"
  shows "take_msg cur t s = wake_blocked (SEND OR DELAYED) t
     (set_qtask (MsgQ t) (Task t) (set_qtask (MsgQ cur) (Task t) (dequeue_blocked t s)))"
proof -
  have "state (rem_timed_task t (dequeue_blocked t s)) t = state s t"
    by (simp add: rem_timed_task_def)
  then show ?thesis
    using assms unfolding take_msg_def Let_def wake_blocked_make_ready rem_timed_set_qtask set_qtask_simps
    by simp
qed

text \<open>The first waiting sender, which is the most urgent one, is received and becomes ready.\<close>

lemma rt_receive_takes:
  assumes i: "sched_inv s rq tq" and b: "blocked_queues s H qs" and h: "MsgQ (rt_current s) \<in> H"
    and q: "qs (MsgQ (rt_current s)) = t # ts" and l: "live s t"
    and st: "state s t = READY OR SEND" and to: "qtask s (MsgQ t) = Task (rt_current s)"
  shows "\<exists>s' rq'. rt_receive n None s = res_bind (rt_schedule n s') (\<lambda>_. recv_out n (rt_current s) (Some (msg s t)))
     \<and> sched_inv s' rq' (remove1 t tq) \<and> blocked_queues s' H (qs(MsgQ (rt_current s) := ts))
     \<and> state s' = (state s)(t := READY) \<and> blocked_on s' t = None
     \<and> qtask s' = (qtask s)(MsgQ (rt_current s) := Task t, MsgQ t := Task t) \<and> msg s' = msg s"
proof -
  let ?c = "rt_current s"
  let ?d = "dequeue_blocked t s"
  let ?e = "set_qtask (MsgQ t) (Task t) (set_qtask (MsgQ ?c) (Task t) ?d)"
  have ie: "sched_inv ?e rq tq"
    by (intro same_sched_inv [OF same_sched_set_qtask] same_sched_inv [OF same_sched_dequeue] i)
  have le: "live ?e t" using l by (simp add: live_def)
  have be: "blocked_queues ?e H (qs(MsgQ ?c := ts))"
    using dequeue_first [OF b h q] by simp
  obtain s' rq' where w: "wake_blocked (SEND OR DELAYED) t ?e =
       Some (state ?e t \<noteq> READY \<and> state ?e t AND NOT (SEND OR DELAYED) = READY, s')"
    "sched_inv s' rq' (remove1 t tq)" "release_frame ?e s'"
    "state s' = (if state ?e t = READY then state ?e else (state ?e)(t := state ?e t AND NOT (SEND OR DELAYED)))"
    "blocked_on s' = blocked_on ?e"
    using wake_blocked_ok [OF ie le, of SEND] by (elim exE conjE)
  have se: "state ?e = state s" by simp
  have t1: "state s t \<noteq> READY" "state s t AND NOT (SEND OR DELAYED) = READY" "state s t AND SEND \<noteq> 0"
    "state s t AND (SEND OR RPC) \<noteq> 0" by (simp_all add: st)
  have "take_msg ?c t s = Some (True, s')"
    unfolding take_msg_send [OF t1(3)] using w(1) t1(1,2) unfolding se by (simp only: simp_thms not_False_eq_True)
  moreover have "qtask s (qnext s (MsgQ ?c)) = Task t"
    using queue_head [OF b h] q by simp
  ultimately have 1: "rt_receive n None s = res_bind (rt_schedule n s') (\<lambda>_. recv_out n ?c (Some (msg s t)))"
    using t1(4) to by (simp add: rt_receive_def bad_task_def sender_of_def sends_to_def Let_def sched_if_def)
  have 2: "blocked_queues s' H (qs(MsgQ ?c := ts))"
    by (rule iffD2 [OF blocked_queues_same be]) (use w(3) in \<open>simp_all add: release_frame_def\<close>)
  have 3: "state s' = (state s)(t := READY)"
    using w(4) t1(1) unfolding se t1(2) by (simp only: if_False)
  have 4: "blocked_on s' t = None" using w(5) by simp
  have 5: "qtask s' = (qtask s)(MsgQ ?c := Task t, MsgQ t := Task t)"
    using w(3) by (simp add: release_frame_def)
  have 6: "msg s' = msg s" using w(3) by (simp add: release_frame_def dequeue_blocked_def Let_def unlink_queue_def)
  show ?thesis by (intro exI conjI, rule 1, rule w(2), rule 2, rule 3, rule 4, rule 5, rule 6)
qed

text \<open>A caller of \<^verbatim>\<open>rt_rpc\<close> is moved from the message queue to the queue of those that wait for a
  return, and stays off the ready list.\<close>

lemma rt_receive_takes_rpc:
  assumes i: "sched_inv s rq tq" and b: "blocked_queues s H qs"
    and h: "MsgQ (rt_current s) \<in> H" "RetQ (rt_current s) \<in> H"
    and q: "qs (MsgQ (rt_current s)) = t # ts" and nr: "t \<notin> set (qs (RetQ (rt_current s)))" and l: "live s t"
    and st: "state s t = READY OR RPC" and to: "qtask s (MsgQ t) = Task (rt_current s)"
    and tq: "qtask s (TaskQ t) = Task t" and nt: "t \<noteq> rt_current s"
  defines "R \<equiv> queue_insert s (priority s t) t (qs (RetQ (rt_current s)))"
  shows "\<exists>s'. rt_receive n None s = recv_out n (rt_current s) (Some (msg s t)) s'
     \<and> sched_inv s' rq tq
     \<and> blocked_queues s' H (qs(MsgQ (rt_current s) := ts, RetQ (rt_current s) := R))
     \<and> state s' = (state s)(t := READY OR RETURN) \<and> blocked_on s' t = Some (RetQ (rt_current s))
     \<and> qtask s' = (qtask s)(MsgQ (rt_current s) := Task t)"
proof -
  let ?c = "rt_current s"
  let ?d = "dequeue_blocked t s"
  let ?e = "set_qtask (MsgQ ?c) (Task t) ?d"
  let ?qs = "qs(MsgQ ?c := ts)"
  have rem: "rem_timed_task t ?d = ?d" using st by (simp add: rem_timed_task_def)
  have ie: "sched_inv ?e rq tq"
    by (intro same_sched_inv [OF same_sched_set_qtask] same_sched_inv [OF same_sched_dequeue] i)
  have be: "blocked_queues ?e H ?qs" using dequeue_first [OF b h(1) q] by simp
  have dq: "distinct (t # ts)" using blocked_queues_ring(3) [OF b h(1)] q by simp
  have no: "\<forall>h' \<in> H. t \<notin> set (?qs h')"
  proof
    fix h' assume h': "h' \<in> H"
    show "t \<notin> set (?qs h')"
      using dq q blocked_queues_disjoint [OF b h(1) h'] by (cases "h' = MsgQ ?c") auto
  qed
  have te: "qtask ?e (TaskQ t) = Task t" using tq by simp
  obtain pos where e: "enqueue_blocked t (RetQ ?c) 0 ?e =
        Some (link_queue (TaskQ t) pos (?e\<lparr>blocked_on := (blocked_on ?e)(t := Some (RetQ ?c))\<rparr>))"
    "blocked_queues (link_queue (TaskQ t) pos (?e\<lparr>blocked_on := (blocked_on ?e)(t := Some (RetQ ?c))\<rparr>)) H
         (?qs(RetQ ?c := queue_insert ?e (priority ?e t) t (?qs (RetQ ?c))))"
    using enqueue_blocked_eq [OF be h(2) no te, of 0, unfolded simp_thms if_True] by blast
  let ?l = "link_queue (TaskQ t) pos (?e\<lparr>blocked_on := (blocked_on ?e)(t := Some (RetQ ?c))\<rparr>)"
  let ?s = "set_state t (READY OR RETURN) ?l"
  have se: "state ?l t = READY OR RPC" using st by simp
  have "take_msg ?c t s = Some (False, ?s)"
    using e(1) st unfolding take_msg_def Let_def rem by simp
  moreover have "qtask s (qnext s (MsgQ ?c)) = Task t"
    using queue_head [OF b h(1)] q by simp
  ultimately have 1: "rt_receive n None s = recv_out n ?c (Some (msg s t)) ?s"
    using st to by (simp add: rt_receive_def bad_task_def sender_of_def sends_to_def Let_def sched_if_def)
  have il: "sched_inv ?l rq tq" by (rule same_sched_inv [OF same_sched_link_queue ie])
  have 2: "sched_inv ?s rq tq"
    by (rule inv_set_state [OF il]) (use l in \<open>simp_all only: se, simp_all add: live_def link_queue_def\<close>)
  have pe: "priority ?e = priority s" "?qs (RetQ ?c) = qs (RetQ ?c)" by simp_all
  have 3: "blocked_queues ?s H (qs(MsgQ ?c := ts, RetQ ?c := R))"
    unfolding R_def
    by (rule iffD2 [OF blocked_queues_same e(2) [unfolded pe]]) simp_all
  show ?thesis
    by (intro exI conjI, rule 1, rule 2, rule 3) simp_all
qed

section \<open>Calls and returns\<close>

lemma leave_ready:
  assumes i: "sched_inv s rq tq" and l: "live s cur" and st: "state s cur = READY" and p: "0 \<le> priority s cur"
    and w: "READY OR w \<noteq> READY" "(READY OR w) AND DELAYED = 0"
  shows "rem_ready_current cur (or_state cur w s) = Some (set_state cur (READY OR w) (unlink_ready cur s))
     \<and> sched_inv (set_state cur (READY OR w) (unlink_ready cur s)) (remove1 cur rq) tq"
proof
  have h: "is_hard (or_state cur w s) cur \<noteq> 0" using inv_hard(1) [OF i l] by (simp add: or_state_def)
  have v: "unlink_ready cur (or_state cur w s) = set_state cur (READY OR w) (unlink_ready cur s)"
    using st by (simp add: or_state_def unlink_ready_def)
  show "rem_ready_current cur (or_state cur w s) = Some (set_state cur (READY OR w) (unlink_ready cur s))"
    using rem_ready_current_eq [OF h] unfolding v .
  show "sched_inv (set_state cur (READY OR w) (unlink_ready cur s)) (remove1 cur rq) tq"
    by (rule inv_unready [OF i l st w p])
qed

text \<open>A call to a task that waits for a message: it gets the message at once, and the caller waits for
  the return, in no queue.\<close>

lemma rt_rpc_direct:
  assumes i: "sched_inv s rq tq" and l: "live s t" "live s (rt_current s)" and rc: "receives_from t (rt_current s) s"
    and st: "state s t AND NOT (RECEIVE OR DELAYED) = READY" and b: "blocked_queues s H qs"
    and c: "state s (rt_current s) = READY" "0 \<le> priority s (rt_current s)" and nt: "t \<noteq> rt_current s"
  shows "\<exists>s' rq'. rt_rpc n t m s = res_bind (rt_schedule n s') (\<lambda>_. rpc_end (\<lambda>_ t. t) (rt_current s) t)
     \<and> sched_inv s' rq' (remove1 t tq) \<and> blocked_queues s' H qs
     \<and> state s' = (state s)(t := READY, rt_current s := READY OR RETURN)
     \<and> msg s' t = m \<and> qtask s' (MsgQ t) = Task (rt_current s) \<and> qtask s' (MsgQ (rt_current s)) = Task t
     \<and> blocked_on s' = blocked_on s \<and> owndres s' = owndres s"
proof -
  let ?c = "rt_current s"
  let ?s = "s\<lparr>msg := (msg s)(?c := m)\<rparr>"
  have i0: "sched_inv ?s rq tq" by (rule same_sched_inv [OF _ i]) (simp add: same_sched_def)
  have b0: "blocked_queues ?s H qs" using b by (simp add: blocked_queues_def queue_list_def)
  have l0: "live ?s t" "live ?s ?c" using l by (simp_all add: live_def)
  have r: "state ?s t AND RECEIVE \<noteq> 0" "state ?s t AND NOT (RECEIVE OR DELAYED) = READY"
    using rc st by (simp_all add: receives_from_def)
  obtain s1 rq1 where d: "deliver m ?c t ?s = Some (True, s1)" "sched_inv s1 rq1 (remove1 t tq)"
    "blocked_queues s1 H qs" "state s1 = (state ?s)(t := READY)" "msg s1 = (msg ?s)(t := m)"
    "qtask s1 = (qtask ?s)(MsgQ t := Task ?c, RetQ t := NOTHING)" "blocked_on s1 = blocked_on ?s"
    "magic s1 = magic ?s" "priority s1 = priority ?s"
    using deliver_ok [OF i0 l0(1) r b0] by blast
  have od: "owndres s1 = owndres s"
  proof -
    have "wake_blocked (RECEIVE OR DELAYED) t
       (?s\<lparr>msg := (msg ?s)(t := m), qtask := (qtask ?s)(MsgQ t := Task ?c, RetQ t := NOTHING)\<rparr>) = Some (True, s1)"
      using d(1) by (simp add: deliver_def)
    from wake_blocked_frame [OF this] show ?thesis by simp
  qed
  have l1: "live s1 ?c" and c1: "state s1 ?c = READY" "0 \<le> priority s1 ?c"
    using l(2) d(4,8,9) c nt by (simp_all add: live_def)
  let ?u = "set_state ?c (READY OR RETURN) (unlink_ready ?c s1)"
  have u: "rem_ready_current ?c (or_state ?c RETURN s1) = Some ?u" "sched_inv ?u (remove1 ?c rq1) (remove1 t tq)"
    using leave_ready [OF d(2) l1 c1, of RETURN] by simp_all
  let ?v = "set_qtask (MsgQ ?c) (Task t) ?u"
  have "magic s t = RT_TASK_MAGIC" using l by (simp add: live_def)
  then have 1: "rt_rpc n t m s = res_bind (rt_schedule n ?v) (\<lambda>_. rpc_end (\<lambda>_ t. t) ?c t)"
    using rc d(1) u(1) by (simp add: rt_rpc_def Let_def rpc_deliver_def rpc_leave_def)
  have 2: "sched_inv ?v (remove1 ?c rq1) (remove1 t tq)"
    by (rule same_sched_inv [OF same_sched_set_qtask u(2)])
  have 3: "blocked_queues ?v H qs"
    unfolding blocked_queues_set_qtask by (rule iffD2 [OF blocked_queues_same d(3)]) simp_all
  have 4: "state ?v = (state s)(t := READY, ?c := READY OR RETURN)" using d(4) by simp
  have 5: "msg ?v t = m" using d(5) by (simp add: unlink_ready_def)
  have 6: "qtask ?v (MsgQ t) = Task ?c" "qtask ?v (MsgQ ?c) = Task t" using d(6) nt by simp_all
  have 7: "blocked_on ?v = blocked_on s" using d(7) by simp
  have 8: "owndres ?v = owndres s" using od by (simp add: unlink_ready_def)
  show ?thesis
    by (intro exI conjI, rule 1, rule 2, rule 3, rule 4, rule 5, rule 6(1), rule 6(2), rule 7, rule 8)
qed

text \<open>An answer releases the caller, and the server falls back to the priority that the calls it has
  not yet answered give it.\<close>

lemma dec_rpc_same: "same_sched s (dec_rpc c s) \<and> base_priority (dec_rpc c s) = base_priority s
    \<and> qnext (dec_rpc c s) = qnext s \<and> qprev (dec_rpc c s) = qprev s \<and> qtask (dec_rpc c s) = qtask s
    \<and> blocked_on (dec_rpc c s) = blocked_on s \<and> msg (dec_rpc c s) = msg s"
  by (simp add: same_sched_def dec_rpc_def)


text \<open>A caller that was served directly is in no queue, but \<^verbatim>\<open>rt_return\<close> takes it out of one: its node
  still holds the neighbours of the last queue it was in.\<close>

lemma dequeue_stale:
  assumes "qprev s (TaskQ t) = h" and "qnext s (TaskQ t) = h"
  shows "qnext (dequeue_blocked t s) h = h \<and> qprev (dequeue_blocked t s) h = h"
  using assms by (simp add: dequeue_blocked_def Let_def unlink_queue_def unlink_nx_def unlink_pv_def)

text \<open>A timed call that is served directly never looks at its time limit.\<close>

lemma rt_rpc_until_no_limit:
  assumes "receives_from t (rt_current s) s"
  shows "rt_rpc_until n t m time s = rt_rpc_until n t m time' s"
  using assms by (simp add: rt_rpc_until_def Let_def)

section \<open>Extended messages\<close>

lemma memcpy_nth:
  assumes "0 \<le> k"
  shows "\<exists>s'. memcpy dst src k s = Some s' \<and> s' = s\<lparr>mem := mem s'\<rparr>
     \<and> (\<forall>j < nat k. mem s' (dst + j) = mem s (src + j))
     \<and> (\<forall>a. a < dst \<or> dst + nat k \<le> a \<longrightarrow> mem s' a = mem s a)"
  using assms by (auto simp: memcpy_def)

text \<open>C14: an extended message is copied byte by byte and never beyond the smaller of the two
  buffers.\<close>

lemma DO_RCV_MSG_ok:
  assumes "0 \<le> nbytes" and "0 \<le> sbytes (mcbs s w)" and "p \<noteq> NULL"
  defines "len \<equiv> min nbytes (sbytes (mcbs s w))"
  shows "\<exists>s'. DO_RCV_MSG dst nbytes (p, Some w) s = Ret (p, Some len) s' \<and> s' = s\<lparr>mem := mem s'\<rparr>
     \<and> (\<forall>j < nat len. mem s' (dst + j) = mem s (sbuf (mcbs s w) + j))
     \<and> (\<forall>a. a < dst \<or> dst + nat len \<le> a \<longrightarrow> mem s' a = mem s a)"
proof -
  have le: "0 \<le> len" using assms by simp
  have e: "(if nbytes \<le> sbytes (mcbs s w) then nbytes else sbytes (mcbs s w)) = len"
    by (simp add: len_def min_def)
  show ?thesis
  proof (cases "len = 0")
    case True
    then show ?thesis using assms(3) e by (intro exI [where x = s]) (simp add: DO_RCV_MSG_def Let_def)
  next
    case False
    then show ?thesis
      using memcpy_nth [OF le, of dst "sbuf (mcbs s w)" s] assms(3) e by (auto simp: DO_RCV_MSG_def Let_def)
  qed
qed

end
