(* ===== verification/Mailbox_Props.thy ===== *)
theory Mailbox_Props
  imports Mailboxes Message_Props
begin

text \<open>
  What the mailbox operations do: conditional sends and receives are all or nothing, or take
  as much as fits; the waiting task is woken; a call that may block returns a count within the
  bounds of its message, whatever other tasks do in between.
\<close>

section \<open>Frames\<close>

lemma upd_mbx_simps [simp]:
  "mbxs (upd_mbx b f s) = (mbxs s)(b := f (mbxs s b))" "sems (upd_mbx b f s) = sems s"
  "state (upd_mbx b f s) = state s" "qnext (upd_mbx b f s) = qnext s" "qprev (upd_mbx b f s) = qprev s"
  "qtask (upd_mbx b f s) = qtask s" "rt_current (upd_mbx b f s) = rt_current s"
  "priority (upd_mbx b f s) = priority s" "magic (upd_mbx b f s) = magic s"
  "blocked_on (upd_mbx b f s) = blocked_on s" "is_hard (upd_mbx b f s) = is_hard s"
  "resume_time (upd_mbx b f s) = resume_time s" "rt_time_h (upd_mbx b f s) = rt_time_h s"
  by (simp_all add: upd_mbx_def)

lemma mbxs_simps [simp]: "mbxs (upd_sem x g s) = mbxs s" "mbxs (unlink_ready t s) = mbxs s"
  by (simp_all add: upd_sem_def unlink_ready_def)

lemma same_sched_upd_mbx: "same_sched s (upd_mbx b f s)"
  by (simp add: same_sched_def upd_mbx_def)

lemma same_sched_forget: "same_sched s (forget_pass t s)"
  by (simp add: same_sched_def forget_pass_def)

lemma forget_pass_simps [simp]:
  "mbxs (forget_pass t s) = mbxs s" "sems (forget_pass t s) = sems s" "state (forget_pass t s) = state s"
  "qnext (forget_pass t s) = qnext s" "qprev (forget_pass t s) = qprev s" "qtask (forget_pass t s) = qtask s"
  "magic (forget_pass t s) = magic s" "rt_current (forget_pass t s) = rt_current s"
  "blocked_on (forget_pass t s) = blocked_on s" "priority (forget_pass t s) = priority s"
  by (simp_all add: forget_pass_def)

section \<open>The waiting task\<close>

lemma mbx_wake_ok:
  assumes i: "sched_inv s rq tq" and w: "waiting_task (mbxs s b) = Some t" and l: "live s t"
    and st: "state s t AND NOT (MBXSUSP OR DELAYED) = READY" "state s t \<noteq> READY"
  shows "\<exists>s' rq'. mbx_wake b s = Some (True, s') \<and> sched_inv s' rq' (remove1 t tq)
     \<and> state s' = (state s)(t := READY) \<and> mbxs s' = (mbxs s)(b := (mbxs s b)\<lparr>waiting_task := None\<rparr>)
     \<and> sems s' = sems s \<and> qnext s' = qnext s \<and> qprev s' = qprev s \<and> qtask s' = qtask s"
proof -
  let ?f = "forget_pass t (upd_mbx b (\<lambda>m. m\<lparr>waiting_task := None\<rparr>) s)"
  have fi: "sched_inv ?f rq tq"
    by (intro same_sched_inv [OF same_sched_forget] same_sched_inv [OF same_sched_upd_mbx] i)
  have lf: "live ?f t" using l by (simp add: live_def)
  obtain s' rq' where r: "wake_blocked (MBXSUSP OR DELAYED) t ?f =
       Some (state ?f t \<noteq> READY \<and> state ?f t AND NOT (MBXSUSP OR DELAYED) = READY, s')"
    "sched_inv s' rq' (remove1 t tq)" "release_frame ?f s'"
    "state s' = (if state ?f t = READY then state ?f else (state ?f)(t := state ?f t AND NOT (MBXSUSP OR DELAYED)))"
    using wake_blocked_ok [OF fi lf, of MBXSUSP] by (elim exE conjE)
  have sf: "state ?f = state s" by simp
  have 1: "mbx_wake b s = Some (True, s')"
    using r(1) st w unfolding sf by (simp add: mbx_wake_def)
  have 2: "state s' = (state s)(t := READY)" using r(4) st(2) unfolding sf st(1) by (simp only: if_False)
  have 3: "mbxs s' = (mbxs s)(b := (mbxs s b)\<lparr>waiting_task := None\<rparr>)" "sems s' = sems s" "qnext s' = qnext s"
    "qprev s' = qprev s" "qtask s' = qtask s"
    using r(3) by (simp_all add: release_frame_def)
  show ?thesis by (intro exI conjI, rule 1, rule r(2), rule 2, (rule 3)+)
qed

lemma mbx_wake_none: "waiting_task (mbxs s b) = None \<Longrightarrow> mbx_wake b s = Some (False, s)"
  by (simp add: mbx_wake_def)

lemma mbx_signal_none:
  "waiting_task (mbxs s b) = None \<Longrightarrow> sem_type (sems s (sndsem (mbxs s b))) \<le> 0 \<Longrightarrow> mbx_signal n b s = Ret 0 s"
  by (simp add: mbx_signal_def mbx_wake_none mbx_owned_def)

text \<open>An empty (or full) mailbox takes the caller off the ready list.\<close>

lemma mbx_wait_blocks:
  assumes i: "sched_inv s rq tq" and l: "live s cur" and st: "state s cur = READY" and p: "0 \<le> priority s cur"
    and e: "fravbs (mbx_buf (mbxs s b)) = 0" and ty: "sem_type (sems s (sndsem (mbxs s b))) \<le> 0"
  shows "\<exists>s'. mbx_wait n b fravbs cur s = res_bind (rt_schedule n s') (\<lambda>_ t.
          if waiting_task (mbxs t b) = Some cur \<or> mbx_magic (mbxs t b) \<noteq> RT_MBX_MAGIC
          then Ret (- 1) (forget_pass cur t) else Ret 0 (mbx_take cur b t))
     \<and> sched_inv s' (remove1 cur rq) tq \<and> state s' = (state s)(cur := READY OR MBXSUSP)
     \<and> waiting_task (mbxs s' b) = Some cur \<and> mbx_buf (mbxs s' b) = mbx_buf (mbxs s b)"
proof -
  let ?u = "set_state cur (READY OR MBXSUSP) (unlink_ready cur s)"
  have u: "rem_ready_current cur (or_state cur MBXSUSP s) = Some ?u" "sched_inv ?u (remove1 cur rq) tq"
    using leave_ready [OF i l st p, of MBXSUSP] by simp_all
  have mu: "mbxs ?u = mbxs s" by (simp add: unlink_ready_def)
  have o: "pass_to_mbx_owner cur b s = Some s"
    using ty by (simp add: pass_to_mbx_owner_def mbx_owned_def)
  have 1: "mbx_wait n b fravbs cur s = res_bind (rt_schedule n (upd_mbx b (\<lambda>m. m\<lparr>waiting_task := Some cur\<rparr>) ?u))
       (\<lambda>_ t. if waiting_task (mbxs t b) = Some cur \<or> mbx_magic (mbxs t b) \<noteq> RT_MBX_MAGIC
          then Ret (- 1) (forget_pass cur t) else Ret 0 (mbx_take cur b t))"
    using e o u(1) by (simp add: mbx_wait_def)
  show ?thesis
    by (intro exI conjI, rule 1, rule same_sched_inv [OF same_sched_upd_mbx u(2)]) (simp_all add: mu)
qed

section \<open>Conditional sends and receives\<close>

lemma put_mbx_ok:
  assumes "rb_ok (mbx_buf (mbxs s b))"
  shows "\<exists>r. put_mbx b xs s = Some (drop (frbs (mbx_buf (mbxs s b))) xs, set_buf b r s) \<and> rb_ok r
     \<and> rb_size r = rb_size (mbx_buf (mbxs s b))
     \<and> contents r = contents (mbx_buf (mbxs s b)) @ take (frbs (mbx_buf (mbxs s b))) xs"
  using mbxput_ok [OF assms, of xs] by (auto simp: put_mbx_def)

lemma get_mbx_ok:
  assumes "rb_ok (mbx_buf (mbxs s b))"
  shows "\<exists>r. get_mbx b m s = Some (take m (contents (mbx_buf (mbxs s b))), m - avbs (mbx_buf (mbxs s b)), set_buf b r s)
     \<and> rb_ok r \<and> rb_size r = rb_size (mbx_buf (mbxs s b)) \<and> contents r = drop m (contents (mbx_buf (mbxs s b)))"
  using mbxget_ok [OF assms, of m] by (auto simp: get_mbx_def)

text \<open>A mailbox whose semaphores are binary, of which \<open>x\<close> is free, and on which nobody waits.\<close>

definition mbx_free :: "kst \<Rightarrow> mbxid \<Rightarrow> semid \<Rightarrow> qnode set \<Rightarrow> (qnode \<Rightarrow> tid list) \<Rightarrow> bool" where
  "mbx_free s b x H qs \<longleftrightarrow> mbx_magic (mbxs s b) = RT_MBX_MAGIC \<and> rb_ok (mbx_buf (mbxs s b))
     \<and> waiting_task (mbxs s b) = None \<and> sem_magic (sems s x) = RT_SEM_MAGIC \<and> sem_type (sems s x) < 0
     \<and> sem_type (sems s (sndsem (mbxs s b))) < 0 \<and> sem_count (sems s x) = 1
     \<and> blocked_queues s H qs \<and> SemQ x \<in> H \<and> qs (SemQ x) = [] \<and> qtask s (SemQ x) = NULL"

lemma enter_free:
  assumes "sem_type (sems s x) \<le> 0"
  shows "mbx_enter b x s = upd_sem x (\<lambda>m. m\<lparr>sem_count := 0\<rparr>) s"
  using assms by (simp add: mbx_enter_def Let_def)

text \<open>Leaving: the waiter is signalled, the semaphore is given back.\<close>

lemma leave_free:
  assumes f: "mbx_free s b x H qs"
  shows "res_bind (mbx_signal n b (set_buf b r (upd_sem x (\<lambda>m. m\<lparr>sem_count := 0\<rparr>) s))) (\<lambda>_. signal_ret n x v)
     = Ret v (set_buf b r s)"
proof -
  let ?s = "set_buf b r (upd_sem x (\<lambda>m. m\<lparr>sem_count := 0\<rparr>) s)"
  note d = f [unfolded mbx_free_def]
  have t: "sem_type (sems ?s y) = sem_type (sems s y)" for y by (simp add: set_buf_def)
  have "mbx_signal n b ?s = Ret 0 ?s"
    by (rule mbx_signal_none) (use d in \<open>simp_all add: set_buf_def\<close>)
  moreover have "rt_sem_signal n x ?s = Ret 0 (upd_sem x sem_up ?s)"
  proof (rule rt_sem_signal_free)
    show "blocked_queues ?s H qs"
      using d by (auto intro: iffD2 [OF blocked_queues_same] simp: set_buf_def)
  qed (use d in \<open>simp_all add: set_buf_def\<close>)
  moreover have "(sems s)(x := (sems s x)\<lparr>sem_count := 1\<rparr>) = sems s"
    using d by (intro fun_upd_idem) simp
  then have "upd_sem x sem_up ?s = set_buf b r s"
    using d by (simp add: upd_sem_def set_buf_def upd_mbx_def sem_up_def)
  ultimately show ?thesis by (simp add: signal_ret_def)
qed

text \<open>C18: a conditional send to a free mailbox is all or nothing: it either appends the whole
  message and returns 0, or changes nothing and returns the number of bytes not sent.\<close>

theorem rt_mbx_send_if_ok:
  assumes f: "mbx_free s b (sndsem (mbxs s b)) H qs"
  shows "if length xs \<le> frbs (mbx_buf (mbxs s b))
    then \<exists>r. rt_mbx_send_if n b xs s = Ret 0 (set_buf b r s) \<and> rb_ok r \<and> contents r = contents (mbx_buf (mbxs s b)) @ xs
    else rt_mbx_send_if n b xs s = Ret (int (length xs)) s"
proof -
  let ?x = "sndsem (mbxs s b)"
  let ?e = "upd_sem ?x (\<lambda>m. m\<lparr>sem_count := 0\<rparr>) s"
  note d = f [unfolded mbx_free_def]
  have e: "mbx_enter b ?x s = ?e" by (rule enter_free) (use d in simp)
  have ok: "rb_ok (mbx_buf (mbxs ?e b))" using d by simp
  obtain r where r: "put_mbx b xs ?e = Some (drop (frbs (mbx_buf (mbxs s b))) xs, set_buf b r ?e)" "rb_ok r"
    "contents r = contents (mbx_buf (mbxs s b)) @ take (frbs (mbx_buf (mbxs s b))) xs"
    using put_mbx_ok [OF ok, of xs] by auto
  show ?thesis
  proof (cases "length xs \<le> frbs (mbx_buf (mbxs s b))")
    case True
    then have "rt_mbx_send_if n b xs s = Ret 0 (set_buf b r s)"
      using d e r(1) leave_free [OF f, of n r 0] by (simp add: rt_mbx_send_if_def Let_def)
    then show ?thesis using True r(2,3) by auto
  next
    case False
    then show ?thesis using d by (simp add: rt_mbx_send_if_def Let_def)
  qed
qed

theorem rt_mbx_receive_wp_ok:
  assumes f: "mbx_free s b (rcvsem (mbxs s b)) H qs"
  shows "\<exists>r. rt_mbx_receive_wp n b m s = Ret (take m (contents (mbx_buf (mbxs s b))), int (m - avbs (mbx_buf (mbxs s b)))) (set_buf b r s)
     \<and> rb_ok r \<and> contents r = drop m (contents (mbx_buf (mbxs s b)))"
proof -
  let ?x = "rcvsem (mbxs s b)"
  let ?e = "upd_sem ?x (\<lambda>m. m\<lparr>sem_count := 0\<rparr>) s"
  note d = f [unfolded mbx_free_def]
  have e: "mbx_enter b ?x s = ?e" by (rule enter_free) (use d in simp)
  have ok: "rb_ok (mbx_buf (mbxs ?e b))" using d by simp
  obtain r where r: "get_mbx b m ?e = Some (take m (contents (mbx_buf (mbxs s b))), m - avbs (mbx_buf (mbxs s b)), set_buf b r ?e)"
    "rb_ok r" "contents r = drop m (contents (mbx_buf (mbxs s b)))"
    using get_mbx_ok [OF ok, of m] by auto
  show ?thesis
  proof (cases "avbs (mbx_buf (mbxs s b)) = 0")
    case True
    then have c: "contents (mbx_buf (mbxs s b)) = []" by (simp add: contents_def)
    have "set_buf b (mbx_buf (mbxs s b)) s = s" by (simp add: set_buf_def upd_mbx_def)
    then show ?thesis using d True c by (intro exI [where x = "mbx_buf (mbxs s b)"]) (simp add: rt_mbx_receive_wp_def Let_def)
  next
    case False
    then show ?thesis
      using d e r leave_free [OF f, of n r] by (intro exI [where x = r]) (simp add: rt_mbx_receive_wp_def Let_def)
  qed
qed

text \<open>A send to a mailbox on which a receiver waits wakes it when the bytes are there.\<close>

lemma sched_inv_enter_put:
  assumes "sched_inv s rq tq"
  shows "sched_inv (set_buf b r (upd_sem x g s)) rq tq"
  unfolding set_buf_def by (intro same_sched_inv [OF same_sched_upd_mbx] same_sched_inv [OF same_sched_upd_sem] assms)

theorem rt_mbx_send_if_wakes:
  assumes i: "sched_inv s rq tq" and m: "mbx_magic (mbxs s b) = RT_MBX_MAGIC" "rb_ok (mbx_buf (mbxs s b))"
    and w: "waiting_task (mbxs s b) = Some t" and l: "live s t"
    and st: "state s t AND NOT (MBXSUSP OR DELAYED) = READY" "state s t \<noteq> READY"
    and x: "sem_count (sems s (sndsem (mbxs s b))) = 1" "sem_type (sems s (sndsem (mbxs s b))) \<le> 0"
    and n: "length xs \<le> frbs (mbx_buf (mbxs s b))"
  shows "\<exists>s' rq'. rt_mbx_send_if n b xs s = res_bind (schedule_ret n (0 :: int) s') (\<lambda>_. signal_ret n (sndsem (mbxs s b)) 0)
     \<and> sched_inv s' rq' (remove1 t tq) \<and> state s' = (state s)(t := READY) \<and> waiting_task (mbxs s' b) = None
     \<and> contents (mbx_buf (mbxs s' b)) = contents (mbx_buf (mbxs s b)) @ xs"
proof -
  let ?x = "sndsem (mbxs s b)"
  let ?e = "upd_sem ?x (\<lambda>m. m\<lparr>sem_count := 0\<rparr>) s"
  have e: "mbx_enter b ?x s = ?e" by (rule enter_free) (use x in simp)
  have ok: "rb_ok (mbx_buf (mbxs ?e b))" using m by simp
  obtain r where r: "put_mbx b xs ?e = Some (drop (frbs (mbx_buf (mbxs s b))) xs, set_buf b r ?e)" "rb_ok r"
    "contents r = contents (mbx_buf (mbxs s b)) @ take (frbs (mbx_buf (mbxs s b))) xs"
    using put_mbx_ok [OF ok, of xs] by auto
  let ?p = "set_buf b r ?e"
  have ip: "sched_inv ?p rq tq" by (rule sched_inv_enter_put [OF i])
  have wp: "waiting_task (mbxs ?p b) = Some t" "live ?p t" "state ?p = state s"
    using w l by (simp_all add: set_buf_def live_def)
  obtain s' rq' where k: "mbx_wake b ?p = Some (True, s')" "sched_inv s' rq' (remove1 t tq)"
    "state s' = (state ?p)(t := READY)" "mbxs s' = (mbxs ?p)(b := (mbxs ?p b)\<lparr>waiting_task := None\<rparr>)"
    "sems s' = sems ?p"
    using mbx_wake_ok [OF ip wp(1,2)] st unfolding wp(3) by blast
  have no: "\<not> mbx_owned b s'"
    using k(4,5) x(2) by (simp add: mbx_owned_def set_buf_def)
  have "mbx_signal n b ?p = schedule_ret n 0 s'"
    using k(1) no by (simp add: mbx_signal_def)
  then have 1: "rt_mbx_send_if n b xs s = res_bind (schedule_ret n (0 :: int) s') (\<lambda>_. signal_ret n ?x 0)"
    using m(1) x(1) n e r(1) by (simp add: rt_mbx_send_if_def Let_def)
  have 2: "state s' = (state s)(t := READY)" "waiting_task (mbxs s' b) = None"
    "contents (mbx_buf (mbxs s' b)) = contents (mbx_buf (mbxs s b)) @ xs"
    using k(3,4) wp(3) r(3) n by (simp_all add: set_buf_def)
  show ?thesis by (intro exI conjI, rule 1, rule k(2), rule 2(1), rule 2(2), rule 2(3))
qed

text \<open>The guard of the conditional calls is \<^verbatim>\<open>sndsem.count != 0\<close>: while senders wait for the semaphore its
  count is negative, so the call goes ahead, sets the count to 0, and its signal leaves the
  semaphore free although it has just been given to the first waiting sender.\<close>

lemma rt_mbx_send_if_barges:
  assumes i: "sched_inv s rq tq" and m: "mbx_magic (mbxs s b) = RT_MBX_MAGIC" "rb_ok (mbx_buf (mbxs s b))"
    and w: "waiting_task (mbxs s b) = None" and l: "live s t"
    and b: "blocked_queues s H qs" "SemQ (sndsem (mbxs s b)) \<in> H" "qs (SemQ (sndsem (mbxs s b))) = t # ts"
    and st: "state s t = READY OR SEMAPHORE"
    and x: "sem_magic (sems s (sndsem (mbxs s b))) = RT_SEM_MAGIC" "sem_count (sems s (sndsem (mbxs s b))) < 0"
      "sem_type (sems s (sndsem (mbxs s b))) < 0"
    and n: "length xs \<le> frbs (mbx_buf (mbxs s b))"
  shows "\<exists>s'. rt_mbx_send_if n b xs s = res_bind (schedule_ret n (0 :: int) s') (\<lambda>_. Ret 0)
     \<and> state s' t = READY \<and> blocked_on s' t = None \<and> sem_count (sems s' (sndsem (mbxs s b))) = 1"
proof -
  let ?x = "sndsem (mbxs s b)"
  let ?e = "upd_sem ?x (\<lambda>m. m\<lparr>sem_count := 0\<rparr>) s"
  have e: "mbx_enter b ?x s = ?e" by (rule enter_free) (use x in simp)
  have ok: "rb_ok (mbx_buf (mbxs ?e b))" using m by simp
  obtain r where r: "put_mbx b xs ?e = Some (drop (frbs (mbx_buf (mbxs s b))) xs, set_buf b r ?e)"
    using put_mbx_ok [OF ok, of xs] by auto
  let ?p = "set_buf b r ?e"
  let ?u = "upd_sem ?x sem_up ?p"
  have sg: "mbx_signal n b ?p = Ret 0 ?p"
    by (rule mbx_signal_none) (use w x in \<open>simp_all add: set_buf_def\<close>)
  have iu: "sched_inv ?u rq tq"
    by (rule same_sched_inv [OF same_sched_upd_sem sched_inv_enter_put [OF i]])
  have bu: "blocked_queues ?u H qs"
    by (rule iffD2 [OF blocked_queues_same b(1)]) (simp_all add: set_buf_def)
  have lu: "live ?u t" and su: "state ?u = state s" using l by (simp_all add: live_def set_buf_def)
  obtain s' where p: "sem_pop ?x ?u = Some (state ?u t \<noteq> READY \<and> state ?u t AND NOT (SEMAPHORE OR DELAYED) = READY, s')"
    "state s' = (if state ?u t = READY then state ?u
                   else (state ?u)(t := state ?u t AND NOT (SEMAPHORE OR DELAYED)))"
    "blocked_on s' = (blocked_on ?u)(t := None)" "sems s' = sems ?u"
    using sem_pop_first [OF iu bu b(2,3) lu] by (elim exE conjE)
  have t1: "state s t \<noteq> READY" "state s t AND NOT (SEMAPHORE OR DELAYED) = READY" by (simp_all add: st)
  have p1: "sem_pop ?x ?u = Some (True, s')"
    using p(1) t1 unfolding su by (simp only: simp_thms not_False_eq_True)
  have "rt_sem_signal n ?x ?p = schedule_ret n 0 s'"
    using p1 p(4) x by (simp add: rt_sem_signal_def set_buf_def sem_up_count)
  then have 1: "rt_mbx_send_if n b xs s = res_bind (schedule_ret n (0 :: int) s') (\<lambda>_. Ret 0)"
    using m(1) x(2) n e r sg by (simp add: rt_mbx_send_if_def Let_def signal_ret_def)
  have 2: "state s' t = READY" "blocked_on s' t = None" "sem_count (sems s' ?x) = 1"
    using p(2,3,4) t1(1) unfolding su t1(2) by (simp_all add: set_buf_def sem_up_count)
  show ?thesis by (intro exI conjI, rule 1, (rule 2)+)
qed

section \<open>Bounds of the results\<close>

lemma mbxput_left:
  assumes a: "mbxput m0 xs0 = Some r0"
  shows "length (fst r0) \<le> length xs0"
proof (rule mbxput.raw_induct [where P = "\<lambda>m xs r. length (fst r) \<le> length xs", OF _ a])
  fix f and m :: "'a ring_buf" and xs r
  assume IH: "\<And>m xs r. f m xs = Some r \<Longrightarrow> length (fst r) \<le> length xs"
    and e: "(if 0 < length xs \<and> frbs m \<noteq> 0
       then let tocpy = chunk (rb_size m - lbyte m) (length xs) (frbs m)
            in f (put_chunk (take tocpy xs) m) (drop tocpy xs)
       else Some (xs, m)) = Some r"
  show "length (fst r) \<le> length xs"
  proof (cases "0 < length xs \<and> frbs m \<noteq> 0")
    case True
    then have "f (put_chunk (take (chunk (rb_size m - lbyte m) (length xs) (frbs m)) xs) m)
        (drop (chunk (rb_size m - lbyte m) (length xs) (frbs m)) xs) = Some r"
      using e by (simp add: Let_def)
    from IH [OF this] show ?thesis by simp
  next
    case False
    then have "r = (xs, m)" using e by (auto split: if_splits)
    then show ?thesis by simp
  qed
qed

text \<open>Whatever happens while a blocking send is switched out: it returns the number of bytes it has not
  sent.\<close>

lemma send_loop_bounds:
  "may_return (send_loop k n wait b cur xs s) r t \<Longrightarrow> 0 \<le> r \<and> r \<le> int (length xs)"
proof (induction k arbitrary: xs s)
  case 0
  then show ?case by simp
next
  case (Suc k)
  show ?case
  proof (cases "xs = []")
    case True
    then show ?thesis using Suc.prems by (auto simp: signal_ret_def may_return_bind)
  next
    case False
    then obtain e s1 where e: "may_return (wait b frbs cur s) e s1"
      "may_return (if e \<noteq> 0 then signal_ret n (sndsem (mbxs s1 b)) (int (length xs)) s1
          else lift_opt (put_mbx b xs s1) (\<lambda>(left, s2).
                 res_bind (mbx_signal n b s2) (\<lambda>_. send_loop k n wait b cur left))) r t"
      using Suc.prems by (auto simp: may_return_bind)
    show ?thesis
    proof (cases "e = 0")
      case True
      then obtain left s2 a s3 where p: "put_mbx b xs s1 = Some (left, s2)" "may_return (send_loop k n wait b cur left s3) r t"
        using e(2) by (auto simp: may_return_bind may_return_lift)
      then obtain r' where "mbxput (mbx_buf (mbxs s1 b)) xs = Some (left, r')"
        by (auto simp: put_mbx_def bind_eq_Some_conv)
      from mbxput_left [OF this] have "length left \<le> length xs" by simp
      then show ?thesis using Suc.IH [OF p(2)] by linarith
    next
      case False
      then show ?thesis using e(2) by (auto simp: signal_ret_def may_return_bind)
    qed
  qed
qed

theorem rt_mbx_send_bounds:
  assumes "may_return (rt_mbx_send k n b xs s) r t"
  shows "r = - EINVAL \<or> 0 \<le> r \<and> r \<le> int (length xs)"
  using assms by (auto simp: rt_mbx_send_def may_return_bind dest: send_loop_bounds split: if_splits)

end
