(* ===== verification/Example_Ipc.thy ===== *)
theory Example_Ipc
  imports Example_State Mailbox_Props
begin

text \<open>
  The properties of messages and mailboxes applied to variants of \<open>kern\<close>: task 5 waits to
  receive, or task 4 waits in another queue with a message for the running task 1.
\<close>

section \<open>Variants of the state\<close>

definition kern_receiving :: kst where
  "kern_receiving = set_state 5 (READY OR RECEIVE) (set_qtask (MsgQ 5) NULL kern)"

lemma kern_receiving_fields [simp]:
  "rt_current kern_receiving = 1" "priority kern_receiving = priority kern" "live kern_receiving = live kern"
  "state kern_receiving = (state kern)(5 := READY OR RECEIVE)"
  "qtask kern_receiving = (qtask kern)(MsgQ 5 := NULL)"
  by (simp_all add: kern_receiving_def live_def fun_eq_iff)

lemma kern_receiving_ok: "sched_inv kern_receiving [1, 2] [3]" "blocked_queues kern_receiving heads waiters"
proof -
  have q: "blocked_queues (set_qtask (MsgQ 5) NULL kern) heads waiters"
    using kern_queues blocked_queues_set_qtask by simp
  have i: "sched_inv (set_qtask (MsgQ 5) NULL kern) [1, 2] [3]"
    by (rule same_sched_inv [OF same_sched_set_qtask kern_inv])
  show "sched_inv kern_receiving [1, 2] [3]" unfolding kern_receiving_def
    by (rule inv_set_state [OF i]) (simp_all add: live_def)
  show "blocked_queues kern_receiving heads waiters"
    by (rule iffD2 [OF blocked_queues_same q]) (simp_all add: kern_receiving_def)
qed

text \<open>Task 4 waits in the queue \<open>h\<close> with the state \<open>w\<close> and a message for the running task 1.\<close>

definition kern_waiting :: "qnode \<Rightarrow> 32 word \<Rightarrow> kst" where
  "kern_waiting h w = set_state 4 w (kern\<lparr>
     qnext := id(h := TaskQ 4, TaskQ 4 := h), qprev := id(h := TaskQ 4, TaskQ 4 := h),
     blocked_on := (blocked_on kern)(4 := Some h), qtask := (qtask kern)(MsgQ 4 := Task 1)\<rparr>)"

lemma kern_waiting_fields [simp]:
  "rt_current (kern_waiting h w) = 1" "priority (kern_waiting h w) = priority kern"
  "base_priority (kern_waiting h w) = base_priority kern" "live (kern_waiting h w) = live kern"
  "owndres (kern_waiting h w) = owndres kern" "msg (kern_waiting h w) = msg kern"
  "state (kern_waiting h w) = (state kern)(4 := w)" "qtask (kern_waiting h w) = (qtask kern)(MsgQ 4 := Task 1)"
  by (simp_all add: kern_waiting_def live_def fun_eq_iff)

lemma kern_waiting_inv:
  assumes "w \<noteq> READY" and "w AND DELAYED = 0"
  shows "sched_inv (kern_waiting h w) [1, 2] [3]"
proof -
  let ?s = "kern\<lparr>qnext := id(h := TaskQ 4, TaskQ 4 := h), qprev := id(h := TaskQ 4, TaskQ 4 := h),
     blocked_on := (blocked_on kern)(4 := Some h), qtask := (qtask kern)(MsgQ 4 := Task 1)\<rparr>"
  have i: "sched_inv ?s [1, 2] [3]" by (rule same_sched_inv [OF _ kern_inv]) (simp add: same_sched_def)
  show ?thesis unfolding kern_waiting_def by (rule inv_set_state [OF i]) (simp_all add: assms live_def)
qed

lemma kern_waiting_queues:
  assumes h: "h \<in> heads"
  shows "blocked_queues (kern_waiting h w) heads ((\<lambda>_. [])(h := [4]))"
  unfolding blocked_queues_def
proof (intro conjI ballI impI)
  have nt: "h \<noteq> TaskQ 4" using h by (auto simp: heads_def)
  show "heads \<inter> range TaskQ = {}" by (auto simp: heads_def)
  show "queue_list (kern_waiting h w) k (((\<lambda>_. [])(h := [4])) k)" if "k \<in> heads" for k
  proof (cases "k = h")
    case True
    then show ?thesis using nt by (simp add: queue_list_def ring_def kern_waiting_def)
  next
    case False
    moreover have "k \<noteq> TaskQ 4" using that by (auto simp: heads_def)
    ultimately show ?thesis by (simp add: queue_list_def ring_def kern_waiting_def)
  qed
  show "set (((\<lambda>_. [])(h := [4])) k) \<inter> set (((\<lambda>_. [])(h := [4])) k') = {}" if "k \<noteq> k'" for k k'
    using that by auto
qed

section \<open>Messages\<close>

theorem rt_send_delivers_witness:
  "\<exists>s' rq' k. rt_send 3 5 42 kern_receiving = res_bind (rt_schedule 3 s') k
     \<and> sched_inv s' rq' [3] \<and> state s' 5 = READY \<and> msg s' 5 = 42 \<and> qtask s' (MsgQ 5) = Task 1"
  using rt_send_delivers [OF kern_receiving_ok(1) _ _ _ kern_receiving_ok(2), of 5 3 42]
  by (auto simp: receives_from_def)

theorem rt_send_blocks_witness:
  "\<exists>s' k. rt_send 3 5 42 kern = res_bind (rt_schedule 3 s') k
     \<and> sched_inv s' [2] [3] \<and> blocked_queues s' heads (waiters(MsgQ 5 := [1])) \<and> msg s' 1 = 42"
  using rt_send_blocks [OF kern_inv, of 5 heads waiters 3 42] kern_queues
  by (auto simp: receives_from_def heads_def waiters_def insert_after_while_def)

theorem rt_receive_takes_witness:
  "\<exists>s' rq' k. rt_receive 3 None (kern_waiting (MsgQ 1) (READY OR SEND)) = res_bind (rt_schedule 3 s') k
     \<and> sched_inv s' rq' [3] \<and> state s' 4 = READY \<and> blocked_on s' 4 = None"
proof -
  let ?s = "kern_waiting (MsgQ 1) (READY OR SEND)"
  have i: "sched_inv ?s [1, 2] [3]" by (rule kern_waiting_inv) simp_all
  have q: "blocked_queues ?s heads ((\<lambda>_. [])(MsgQ 1 := [4]))" by (rule kern_waiting_queues) (simp add: heads_def)
  show ?thesis using rt_receive_takes [OF i q, of 4 "[]" 3] by (auto simp: heads_def)
qed

theorem rt_receive_takes_rpc_witness:
  "\<exists>s'. rt_receive 3 None (kern_waiting (MsgQ 1) (READY OR RPC)) = recv_out 3 1 (Some 0) s'
     \<and> sched_inv s' [1, 2] [3] \<and> state s' 4 = READY OR RETURN \<and> blocked_on s' 4 = Some (RetQ 1)"
proof -
  let ?s = "kern_waiting (MsgQ 1) (READY OR RPC)"
  have i: "sched_inv ?s [1, 2] [3]" by (rule kern_waiting_inv) simp_all
  have q: "blocked_queues ?s heads ((\<lambda>_. [])(MsgQ 1 := [4]))" by (rule kern_waiting_queues) (simp add: heads_def)
  show ?thesis using rt_receive_takes_rpc [OF i q, of 4 "[]" 3] by (auto simp: heads_def)
qed

theorem rt_rpc_direct_witness:
  "\<exists>s' rq' k. rt_rpc 3 5 42 kern_receiving = res_bind (rt_schedule 3 s') k
     \<and> sched_inv s' rq' [3] \<and> blocked_queues s' heads waiters \<and> state s' 1 = READY OR RETURN \<and> msg s' 5 = 42"
  using rt_rpc_direct [OF kern_receiving_ok(1) _ _ _ _ kern_receiving_ok(2), of 5 3 42]
  by (auto simp: receives_from_def)


theorem DO_RCV_MSG_ok_witness:
  "\<exists>s'. DO_RCV_MSG 100 3 (Task 2, Some 7) (kern\<lparr>mcbs := (mcbs kern)(7 := \<lparr>sbuf = 20, sbytes = 5, rbuf = 0, rbytes = 0\<rparr>)\<rparr>)
     = Ret (Task 2, Some 3) s' \<and> (\<forall>a. a < 100 \<or> 103 \<le> a \<longrightarrow> mem s' a = 0)"
  using DO_RCV_MSG_ok [of 3 "kern\<lparr>mcbs := (mcbs kern)(7 := \<lparr>sbuf = 20, sbytes = 5, rbuf = 0, rbytes = 0\<rparr>)\<rparr>" 7 "Task 2" 100]
  by auto

section \<open>Mailboxes\<close>

text \<open>All the mailboxes hold the bytes 7 and 8 of 4, and nobody uses them.\<close>

definition kern_mbx :: kst where
  "kern_mbx = kern\<lparr>sems := (\<lambda>_. no_sem\<lparr>sem_type := - 1\<rparr>),
     mbxs := (\<lambda>_. no_mbx\<lparr>mbx_buf := \<lparr>bufadr = [7, 8, 0, 0], rb_size = 4, fbyte = 0, lbyte = 2, avbs = 2, frbs = 2\<rparr>\<rparr>)\<rparr>"

lemma kern_mbx_free:
  "mbx_free kern_mbx 0 2 heads waiters" "mbx_free kern_mbx 0 (sndsem (mbxs kern_mbx 0)) heads waiters"
proof -
  have q: "blocked_queues kern_mbx heads waiters"
    by (rule iffD2 [OF blocked_queues_same kern_queues]) (simp_all add: kern_mbx_def)
  then show "mbx_free kern_mbx 0 2 heads waiters"
    by (simp add: mbx_free_def kern_mbx_def no_mbx_def no_sem_def rb_ok_def heads_def waiters_def)
  then show "mbx_free kern_mbx 0 (sndsem (mbxs kern_mbx 0)) heads waiters"
    by (simp add: kern_mbx_def no_mbx_def)
qed

theorem rt_mbx_send_if_ok_witness:
  "\<exists>r. rt_mbx_send_if 3 0 [1, 2] kern_mbx = Ret 0 (set_buf 0 r kern_mbx) \<and> contents r = [7, 8, 1, 2]"
proof -
  have "contents (mbx_buf (mbxs kern_mbx 0)) = [7, 8]" "frbs (mbx_buf (mbxs kern_mbx 0)) = 2"
    by (simp_all add: kern_mbx_def contents_def upt_rec)
  then show ?thesis using rt_mbx_send_if_ok [OF kern_mbx_free(2), of "[1, 2]" 3] by auto
qed

theorem rt_mbx_receive_wp_ok_witness:
  "\<exists>r. rt_mbx_receive_wp 3 0 5 (kern_mbx\<lparr>mbxs := (\<lambda>b. (mbxs kern_mbx b)\<lparr>rcvsem := 2\<rparr>)\<rparr>)
     = Ret ([7, 8], 3) (set_buf 0 r (kern_mbx\<lparr>mbxs := (\<lambda>b. (mbxs kern_mbx b)\<lparr>rcvsem := 2\<rparr>)\<rparr>)) \<and> contents r = []"
proof -
  let ?s = "kern_mbx\<lparr>mbxs := (\<lambda>b. (mbxs kern_mbx b)\<lparr>rcvsem := 2\<rparr>)\<rparr>"
  have "blocked_queues ?s heads waiters"
    by (rule iffD2 [OF blocked_queues_same kern_queues]) (simp_all add: kern_mbx_def)
  then have f: "mbx_free ?s 0 (rcvsem (mbxs ?s 0)) heads waiters"
    by (simp add: mbx_free_def kern_mbx_def no_mbx_def no_sem_def rb_ok_def heads_def waiters_def)
  have "contents (mbx_buf (mbxs ?s 0)) = [7, 8]" "avbs (mbx_buf (mbxs ?s 0)) = 2"
    by (simp_all add: kern_mbx_def contents_def upt_rec)
  then show ?thesis using rt_mbx_receive_wp_ok [OF f, of 3 5] by auto
qed

end
