(* ===== verification/Fifos.thy ===== *)
theory Fifos
  imports Rtai_Kernel "HOL-Library.Signed_Division"
begin

text \<open>
  The real time fifos of \<^verbatim>\<open>fifos/rtai_fifos.c\<close>: a table of mailboxes between real time tasks, which
  never wait, and Linux processes, which read, write and wait through the file operations of a
  character device.

  The table \<^verbatim>\<open>fifo\<close> is a function from minor numbers.  A semaphore \<^verbatim>\<open>F_SEM\<close> is named by the field
  that holds it.  The \<^verbatim>\<open>LX_TASK\<close> a process puts on its stack while it waits for a semaphore is
  named by the process, which can wait in one call at a time.  The queues are rings of
  \<^verbatim>\<open>F_QUEUE\<close> nodes, as in the code.  The Linux scheduler is outside the model: a process that calls
  \<^verbatim>\<open>schedule()\<close> leaves the CPU (\<open>Switch\<close>) and goes on in any later state.  Transfers from and to
  user space are taken to succeed; the code does not look at what they return.
\<close>

section \<open>Data\<close>

abbreviation MAX_FIFOS :: nat where "MAX_FIFOS \<equiv> 64"
abbreviation MAXREQS :: nat where "MAXREQS \<equiv> 64"
abbreviation RTF_NAMELEN :: nat where "RTF_NAMELEN \<equiv> 15"
abbreviation DEFAULT_SIZE :: nat where "DEFAULT_SIZE \<equiv> 1000"
abbreviation PAGE_SIZE :: nat where "PAGE_SIZE \<equiv> 4096"
abbreviation TASK_RUNNING :: int where "TASK_RUNNING \<equiv> 0"
abbreviation TASK_INTERRUPTIBLE :: int where "TASK_INTERRUPTIBLE \<equiv> 1"
abbreviation ENODEV :: int where "ENODEV \<equiv> 19"
abbreviation EAGAIN :: int where "EAGAIN \<equiv> 11"
abbreviation ENOTTY :: int where "ENOTTY \<equiv> 25"
abbreviation ERESTARTSYS :: int where "ERESTARTSYS \<equiv> 512"
abbreviation HZ :: int where "HZ \<equiv> 100"
abbreviation SIGIO :: int where "SIGIO \<equiv> 29"

datatype fsemid = SndSem nat | RcvSem nat | UsrSem nat

datatype fnode = LxQ ltid | FSemQ fsemid

text \<open>\<^verbatim>\<open>queue.task\<close>: the process' own \<^verbatim>\<open>LX_TASK\<close>, or NULL in the head of a semaphore.\<close>

fun fq_task :: "fnode \<Rightarrow> ltid option" where
  "fq_task (LxQ t) = Some t"
| "fq_task (FSemQ x) = None"

record f_sem =
  free :: int
  fqtype :: int

record fifo_t =
  f_buf :: "byte ring_buf"
  f_waiting :: "ltid option"
  opncnt :: int
  malloc_type :: char
  pol_asyn_pended :: bool
  pollq :: "ltid list"
  asynq :: bool
  handler :: "nat option"
  fname :: string

text \<open>\<open>current\<close> is the Linux process that runs, \<open>pending\<close> tells which processes have a signal that is not
  blocked (\<^verbatim>\<open>check_current_blocked\<close>), \<open>fasyncs\<close> collects the calls of \<^verbatim>\<open>kill_fasync\<close> and \<open>freed\<close> the
  allocators to which buffers have been given back.\<close>

record fifos =
  fifo :: "nat \<Rightarrow> fifo_t"
  f_sems :: "fsemid \<Rightarrow> f_sem"
  fq_next :: "fnode \<Rightarrow> fnode"
  fq_prev :: "fnode \<Rightarrow> fnode"
  lx_blocked :: "ltid \<Rightarrow> bool"
  lx_priority :: "ltid \<Rightarrow> int"
  tq_in :: nat
  tq_out :: nat
  tq_task :: "nat \<Rightarrow> ltid"
  pa_in :: nat
  pa_out :: nat
  pa_fifo :: "nat \<Rightarrow> nat"
  current :: ltid
  pstate :: "ltid \<Rightarrow> int"
  rt_priority :: "ltid \<Rightarrow> int"
  pending :: "ltid \<Rightarrow> bool"
  async_sig :: int
  srq_pended :: bool
  need_resched :: bool
  fasyncs :: "(nat \<times> int) list"
  freed :: "char list"
  use_count :: int

type_synonym 'a fres = "(fifos, 'a) sres"

definition upd_fifo :: "nat \<Rightarrow> (fifo_t \<Rightarrow> fifo_t) \<Rightarrow> fifos \<Rightarrow> fifos" where
  "upd_fifo i f s = s\<lparr>fifo := (fifo s)(i := f (fifo s i))\<rparr>"

definition set_fbuf :: "nat \<Rightarrow> byte ring_buf \<Rightarrow> fifos \<Rightarrow> fifos" where
  "set_fbuf i r = upd_fifo i (\<lambda>f. f\<lparr>f_buf := r\<rparr>)"

definition set_free :: "fsemid \<Rightarrow> int \<Rightarrow> fifos \<Rightarrow> fifos" where
  "set_free x v s = s\<lparr>f_sems := (f_sems s)(x := (f_sems s x)\<lparr>free := v\<rparr>)\<rparr>"

section \<open>Semaphores and waiting\<close>

text \<open>A request to Linux: wake a process, notify the poll and fasync clients of a fifo.\<close>

definition push_task :: "ltid \<Rightarrow> fifos \<Rightarrow> fifos" where
  "push_task t s = s\<lparr>tq_task := (tq_task s)(tq_in s := t), tq_in := (tq_in s + 1) mod MAXREQS,
                     srq_pended := True\<rparr>"

definition push_poll :: "nat \<Rightarrow> fifos \<Rightarrow> fifos" where
  "push_poll i s = (upd_fifo i (\<lambda>f. f\<lparr>pol_asyn_pended := True\<rparr>) s)
     \<lparr>pa_fifo := (pa_fifo s)(pa_in s := i), pa_in := (pa_in s + 1) mod MAXREQS, srq_pended := True\<rparr>"

text \<open>\<^verbatim>\<open>while ((q = q->next) != queue && q->task->priority >= priority);\<close>\<close>

definition f_blocked_pos :: "fsemid \<Rightarrow> int \<Rightarrow> fifos \<Rightarrow> fnode option" where
  "f_blocked_pos x prio s =
     seek (\<lambda>q. q \<noteq> FSemQ x \<and> (case fq_task q of Some t \<Rightarrow> prio \<le> lx_priority s t | None \<Rightarrow> True))
       (fq_next s) (fq_next s (FSemQ x))"

definition f_enqueue_blocked :: "ltid \<Rightarrow> fsemid \<Rightarrow> int \<Rightarrow> int \<Rightarrow> fifos \<Rightarrow> fifos option" where
  "f_enqueue_blocked t x qt prio s = do {
     q \<leftarrow> (if qt = 0 then f_blocked_pos x prio s else Some (FSemQ x));
     Some (s\<lparr>lx_blocked := (lx_blocked s)(t := True),
             fq_next := link_nx (fq_next s) (fq_prev s) (LxQ t) q,
             fq_prev := link_pv (fq_prev s) (LxQ t) q\<rparr>)
   }"

definition f_dequeue_blocked :: "ltid \<Rightarrow> fifos \<Rightarrow> fifos" where
  "f_dequeue_blocked t s = s\<lparr>lx_blocked := (lx_blocked s)(t := False),
     fq_next := unlink_nx (fq_next s) (fq_prev s) (LxQ t),
     fq_prev := unlink_pv (fq_next s) (fq_prev s) (LxQ t)\<rparr>"

definition first_waiter :: "fsemid \<Rightarrow> fifos \<Rightarrow> ltid option" where
  "first_waiter x s = fq_task (fq_next s (FSemQ x))"

text \<open>\<open>fifop\<close> is the fifo whose clients are told when the semaphore gets free.\<close>

definition f_sem_signal :: "fsemid \<Rightarrow> nat option \<Rightarrow> fifos \<Rightarrow> fifos" where
  "f_sem_signal x fifop s =
     (case first_waiter x s of
        Some t \<Rightarrow> push_task t (f_dequeue_blocked t s)
      | None \<Rightarrow>
          let s1 = set_free x 1 s in
          (case fifop of
             None \<Rightarrow> s1
           | Some i \<Rightarrow>
               let f = fifo s1 i in
               if \<not> pol_asyn_pended f \<and> (avbs (f_buf f) \<noteq> 0 \<or> frbs (f_buf f) \<noteq> 0)
                  \<and> (pollq f \<noteq> [] \<or> asynq f)
               then push_poll i s1 else s1))"

definition f_mbx_signal :: "nat \<Rightarrow> fifos \<Rightarrow> fifos" where
  "f_mbx_signal i s =
     (case f_waiting (fifo s i) of
        Some t \<Rightarrow> push_task t (upd_fifo i (\<lambda>f. f\<lparr>f_waiting := None\<rparr>) s)
      | None \<Rightarrow> s)"

definition f_sem_wait_if :: "fsemid \<Rightarrow> fifos \<Rightarrow> int \<times> fifos" where
  "f_sem_wait_if x s = (if free (f_sems s x) \<noteq> 0 then (1, set_free x 0 s) else (0, s))"

definition schedule_out :: "ltid \<Rightarrow> fifos \<Rightarrow> (fifos \<Rightarrow> 'a fres) \<Rightarrow> 'a fres" where
  "schedule_out t s k = Switch (s\<lparr>pstate := (pstate s)(t := TASK_INTERRUPTIBLE)\<rparr>) k"

text \<open>The process puts itself on the queue of the semaphore.\<close>

definition f_sem_block :: "ltid \<Rightarrow> fsemid \<Rightarrow> fifos \<Rightarrow> fifos option" where
  "f_sem_block t x s =
     f_enqueue_blocked t x (fqtype (f_sems s x)) (rt_priority s t)
       (s\<lparr>lx_priority := (lx_priority s)(t := rt_priority s t)\<rparr>)"

text \<open>It was not signalled: it takes itself off the queue again.\<close>

definition f_sem_give_up :: "ltid \<Rightarrow> fsemid \<Rightarrow> fifos \<Rightarrow> fifos" where
  "f_sem_give_up t x s =
     (let s1 = f_dequeue_blocked t s in if first_waiter x s1 = None then set_free x 1 s1 else s1)"

definition f_sem_wait :: "fsemid \<Rightarrow> fifos \<Rightarrow> int fres" where
  "f_sem_wait x s =
     (if free (f_sems s x) = 0 then
        let cur = current s in
        lift_opt (f_sem_block cur x s) (\<lambda>s1. schedule_out cur s1 (\<lambda>t.
          let ret = (if pending t cur then - ERESTARTSYS else 0) in
          if lx_blocked t cur then Ret (if ret = 0 then - 1 else ret) (f_sem_give_up cur x t)
          else Ret ret t))
      else Ret 0 (set_free x 0 s))"

text \<open>\<open>fravbs\<close> selects the field \<^verbatim>\<open>frbs\<close> or \<^verbatim>\<open>avbs\<close> the caller waits for.\<close>

definition f_mbx_wait :: "nat \<Rightarrow> (byte ring_buf \<Rightarrow> nat) \<Rightarrow> fifos \<Rightarrow> int fres" where
  "f_mbx_wait i fravbs s =
     (if fravbs (f_buf (fifo s i)) = 0 then
        let cur = current s in
        schedule_out cur (upd_fifo i (\<lambda>f. f\<lparr>f_waiting := Some cur\<rparr>) s) (\<lambda>t.
          if pending t cur then Ret (- ERESTARTSYS) t
          else if f_waiting (fifo t i) = Some cur
          then Ret (- 1) (upd_fifo i (\<lambda>f. f\<lparr>f_waiting := None\<rparr>) t)
          else Ret 0 t)
      else Ret 0 s)"

text \<open>\<^verbatim>\<open>schedule_timeout(delay)\<close> differs from \<^verbatim>\<open>schedule()\<close> only in when the process comes back.\<close>

definition f_sem_wait_timed :: "fsemid \<Rightarrow> int \<Rightarrow> fifos \<Rightarrow> int fres" where
  "f_sem_wait_timed x delay s =
     (if free (f_sems s x) = 0 then
        let cur = current s in
        lift_opt (f_sem_block cur x s) (\<lambda>s1. schedule_out cur s1 (\<lambda>t.
          if pending t cur then Ret (- ERESTARTSYS) t
          else if lx_blocked t cur then Ret (- 1) (f_sem_give_up cur x t)
          else Ret 0 t))
      else Ret 0 (set_free x 0 s))"

definition f_mbx_wait_timed :: "int \<Rightarrow> nat \<Rightarrow> (byte ring_buf \<Rightarrow> nat) \<Rightarrow> fifos \<Rightarrow> int fres" where
  "f_mbx_wait_timed delay i fravbs s = f_mbx_wait i fravbs s"

section \<open>Mailboxes\<close>

definition f_sem_init :: "fsemid \<Rightarrow> int \<Rightarrow> fifos \<Rightarrow> fifos" where
  "f_sem_init x v s = s\<lparr>f_sems := (f_sems s)(x := \<lparr>free = v, fqtype = 0\<rparr>),
     fq_prev := (fq_prev s)(FSemQ x := FSemQ x), fq_next := (fq_next s)(FSemQ x := FSemQ x)\<rparr>"

partial_function (option) f_sem_delete :: "fsemid \<Rightarrow> fifos \<Rightarrow> fifos option" where
  "f_sem_delete x s =
     (case first_waiter x s of
        None \<Rightarrow> Some s
      | Some t \<Rightarrow> f_sem_delete x (push_task t
          (s\<lparr>fq_next := (fq_next s)(FSemQ x := fq_next s (LxQ t)),
             fq_prev := (fq_prev s)(fq_next s (LxQ t) := FSemQ x)\<rparr>)))"

declare f_sem_delete.simps [code]

definition f_mbx_init :: "nat \<Rightarrow> nat \<Rightarrow> byte list \<Rightarrow> fifos \<Rightarrow> fifos" where
  "f_mbx_init i n buf s =
     upd_fifo i (\<lambda>f. f\<lparr>f_waiting := None, f_buf := rb_init n buf\<rparr>)
       (f_sem_init (RcvSem i) 1 (f_sem_init (SndSem i) 1 s))"

definition f_mbx_delete :: "nat \<Rightarrow> fifos \<Rightarrow> fifos option" where
  "f_mbx_delete i s = do { s1 \<leftarrow> f_sem_delete (SndSem i) (f_mbx_signal i s); f_sem_delete (RcvSem i) s1 }"

text \<open>The copying loops are those of the mailboxes of the scheduler, on the same five fields.\<close>

definition mbx_put :: "byte ring_buf \<Rightarrow> byte list \<Rightarrow> (byte list \<times> byte ring_buf) option" where
  "mbx_put m xs = mbxput m xs"

definition mbx_ovrwr_put :: "byte ring_buf \<Rightarrow> byte list \<Rightarrow> byte ring_buf option" where
  "mbx_ovrwr_put m xs = mbxovrwrput m xs"

definition mbx_get :: "byte ring_buf \<Rightarrow> nat \<Rightarrow> (byte list \<times> nat \<times> byte ring_buf) option" where
  "mbx_get m n = mbxget m n"

definition mbx_evdrp :: "byte ring_buf \<Rightarrow> nat \<Rightarrow> (byte list \<times> nat) option" where
  "mbx_evdrp m n = mbxevdrp m n"

text \<open>Put and get on a fifo, followed by \<^verbatim>\<open>mbx_signal\<close>.\<close>

definition fput :: "nat \<Rightarrow> byte list \<Rightarrow> fifos \<Rightarrow> (byte list \<times> fifos) option" where
  "fput i xs s = do {
     (left, r) \<leftarrow> mbx_put (f_buf (fifo s i)) xs;
     Some (left, f_mbx_signal i (set_fbuf i r s))
   }"

definition fget :: "nat \<Rightarrow> nat \<Rightarrow> fifos \<Rightarrow> (byte list \<times> nat \<times> fifos) option" where
  "fget i n s = do {
     (got, left, r) \<leftarrow> mbx_get (f_buf (fifo s i)) n;
     Some (got, left, f_mbx_signal i (set_fbuf i r s))
   }"

primrec f_send_loop ::
  "nat \<Rightarrow> (nat \<Rightarrow> (byte ring_buf \<Rightarrow> nat) \<Rightarrow> fifos \<Rightarrow> int fres) \<Rightarrow> nat \<Rightarrow> byte list \<Rightarrow> fifos \<Rightarrow> byte list fres"
where
  "f_send_loop 0 wait i xs s = Stuck"
| "f_send_loop (Suc k) wait i xs s =
     (if xs \<noteq> [] then
        res_bind (wait i frbs s) (\<lambda>e s1.
          if e \<noteq> 0 then Ret xs (f_sem_signal (SndSem i) (Some i) s1)
          else lift_opt (fput i xs s1) (\<lambda>(left, s2). f_send_loop k wait i left s2))
      else Ret [] (f_sem_signal (SndSem i) (Some i) s))"

definition f_mbx_send :: "nat \<Rightarrow> nat \<Rightarrow> byte list \<Rightarrow> fifos \<Rightarrow> byte list fres" where
  "f_mbx_send k i xs s = res_bind (f_sem_wait (SndSem i) s) (\<lambda>e s1.
     if e \<noteq> 0 then Ret xs s1 else f_send_loop k f_mbx_wait i xs s1)"

definition f_mbx_send_timed :: "nat \<Rightarrow> nat \<Rightarrow> byte list \<Rightarrow> int \<Rightarrow> fifos \<Rightarrow> byte list fres" where
  "f_mbx_send_timed k i xs delay s = res_bind (f_sem_wait_timed (SndSem i) delay s) (\<lambda>e s1.
     if e \<noteq> 0 then Ret xs s1 else f_send_loop k (f_mbx_wait_timed delay) i xs s1)"

text \<open>The calls that never wait return what was not sent.\<close>

definition f_mbx_send_wp :: "nat \<Rightarrow> byte list \<Rightarrow> fifos \<Rightarrow> (byte list \<times> fifos) option" where
  "f_mbx_send_wp i xs s =
     (if free (f_sems s (SndSem i)) \<noteq> 0 \<and> frbs (f_buf (fifo s i)) \<noteq> 0 then do {
        (left, s1) \<leftarrow> fput i xs (set_free (SndSem i) 0 s);
        Some (left, f_sem_signal (SndSem i) (Some i) s1)
      } else Some (xs, s))"

definition f_mbx_send_if :: "nat \<Rightarrow> byte list \<Rightarrow> fifos \<Rightarrow> (byte list \<times> fifos) option" where
  "f_mbx_send_if i xs s =
     (if free (f_sems s (SndSem i)) \<noteq> 0 \<and> frbs (f_buf (fifo s i)) \<ge> length xs then do {
        (left, s1) \<leftarrow> fput i xs (set_free (SndSem i) 0 s);
        Some (left, f_sem_signal (SndSem i) (Some i) s1)
      } else Some (xs, s))"

definition f_mbx_ovrwr_send :: "nat \<Rightarrow> byte list \<Rightarrow> fifos \<Rightarrow> (int \<times> fifos) option" where
  "f_mbx_ovrwr_send i xs s =
     (if free (f_sems s (SndSem i)) \<noteq> 0 then do {
        let s1 = set_free (SndSem i) 0 s;
        r \<leftarrow> mbx_ovrwr_put (f_buf (fifo s1 i)) xs;
        Some (0, f_sem_signal (SndSem i) (Some i) (f_mbx_signal i (set_fbuf i r s1)))
      } else Some (int (length xs), s))"

primrec f_receive_loop ::
  "nat \<Rightarrow> (nat \<Rightarrow> (byte ring_buf \<Rightarrow> nat) \<Rightarrow> fifos \<Rightarrow> int fres) \<Rightarrow> nat \<Rightarrow> byte list \<Rightarrow> nat \<Rightarrow> fifos \<Rightarrow>
    (byte list \<times> nat) fres"
where
  "f_receive_loop 0 wait i acc m s = Stuck"
| "f_receive_loop (Suc k) wait i acc m s =
     (if m \<noteq> 0 then
        res_bind (wait i avbs s) (\<lambda>e s1.
          if e \<noteq> 0 then Ret (acc, m) (f_sem_signal (RcvSem i) (Some i) s1)
          else lift_opt (fget i m s1) (\<lambda>(got, left, s2). f_receive_loop k wait i (acc @ got) left s2))
      else Ret (acc, 0) (f_sem_signal (RcvSem i) (Some i) s))"

definition f_mbx_receive :: "nat \<Rightarrow> nat \<Rightarrow> nat \<Rightarrow> fifos \<Rightarrow> (byte list \<times> nat) fres" where
  "f_mbx_receive k i m s = res_bind (f_sem_wait (RcvSem i) s) (\<lambda>e s1.
     if e \<noteq> 0 then Ret ([], m) s1 else f_receive_loop k f_mbx_wait i [] m s1)"

definition f_mbx_receive_timed :: "nat \<Rightarrow> nat \<Rightarrow> nat \<Rightarrow> int \<Rightarrow> fifos \<Rightarrow> (byte list \<times> nat) fres" where
  "f_mbx_receive_timed k i m delay s = res_bind (f_sem_wait_timed (RcvSem i) delay s) (\<lambda>e s1.
     if e \<noteq> 0 then Ret ([], m) s1 else f_receive_loop k (f_mbx_wait_timed delay) i [] m s1)"

text \<open>Wait for the first bytes only.\<close>

definition f_mbx_receive_wjo :: "nat \<Rightarrow> nat \<Rightarrow> fifos \<Rightarrow> (byte list \<times> nat) fres" where
  "f_mbx_receive_wjo i m s = res_bind (f_sem_wait (RcvSem i) s) (\<lambda>e s1.
     if e \<noteq> 0 then Ret ([], m) s1
     else if m \<noteq> 0 then
       res_bind (f_mbx_wait i avbs s1) (\<lambda>e s2.
         if e \<noteq> 0 then Ret ([], m) (f_sem_signal (RcvSem i) (Some i) s2)
         else lift_opt (fget i m s2) (\<lambda>(got, left, s3).
                Ret (got, left) (f_sem_signal (RcvSem i) (Some i) s3)))
     else Ret ([], 0) (f_sem_signal (RcvSem i) (Some i) s1))"

definition f_mbx_receive_wp :: "nat \<Rightarrow> nat \<Rightarrow> fifos \<Rightarrow> (byte list \<times> nat \<times> fifos) option" where
  "f_mbx_receive_wp i m s =
     (if free (f_sems s (RcvSem i)) \<noteq> 0 \<and> avbs (f_buf (fifo s i)) \<noteq> 0 then do {
        (got, left, s1) \<leftarrow> fget i m (set_free (RcvSem i) 0 s);
        Some (got, left, f_sem_signal (RcvSem i) (Some i) s1)
      } else Some ([], m, s))"

text \<open>The test is on \<^verbatim>\<open>frbs\<close>, as in the source.\<close>

definition f_mbx_receive_if :: "nat \<Rightarrow> nat \<Rightarrow> fifos \<Rightarrow> (byte list \<times> nat \<times> fifos) option" where
  "f_mbx_receive_if i m s =
     (if free (f_sems s (RcvSem i)) \<noteq> 0 \<and> frbs (f_buf (fifo s i)) \<ge> m then do {
        (got, left, s1) \<leftarrow> fget i m (set_free (RcvSem i) 0 s);
        Some (got, left, f_sem_signal (RcvSem i) (Some i) s1)
      } else Some ([], m, s))"

section \<open>The handler of the requests to Linux\<close>

definition wake_up_process :: "ltid \<Rightarrow> fifos \<Rightarrow> fifos" where
  "wake_up_process t s = s\<lparr>pstate := (pstate s)(t := TASK_RUNNING)\<rparr>"

definition wake_if_interruptible :: "ltid \<Rightarrow> fifos \<Rightarrow> fifos" where
  "wake_if_interruptible t s = (if pstate s t = TASK_INTERRUPTIBLE then wake_up_process t s else s)"

definition wake_up_interruptible :: "nat \<Rightarrow> fifos \<Rightarrow> fifos" where
  "wake_up_interruptible i s = fold wake_if_interruptible (pollq (fifo s i)) s"

definition kill_fasync :: "nat \<Rightarrow> fifos \<Rightarrow> fifos" where
  "kill_fasync i s = s\<lparr>fasyncs := fasyncs s @ [(i, async_sig s)]\<rparr>"

partial_function (option) taskq_loop :: "fifos \<Rightarrow> fifos option" where
  "taskq_loop s =
     (if tq_out s \<noteq> tq_in s then
        taskq_loop ((wake_if_interruptible (tq_task s (tq_out s)) s)\<lparr>tq_out := (tq_out s + 1) mod MAXREQS\<rparr>)
      else Some s)"

declare taskq_loop.simps [code]

definition notify_fifo :: "nat \<Rightarrow> fifos \<Rightarrow> fifos" where
  "notify_fifo i s =
     (let s1 = upd_fifo i (\<lambda>f. f\<lparr>pol_asyn_pended := False\<rparr>) s;
          s2 = (if pollq (fifo s1 i) \<noteq> [] then wake_up_interruptible i s1 else s1) in
      if asynq (fifo s2 i) then kill_fasync i s2 else s2)"

partial_function (option) pol_asyn_loop :: "fifos \<Rightarrow> fifos option" where
  "pol_asyn_loop s =
     (if pa_out s \<noteq> pa_in s then
        pol_asyn_loop ((notify_fifo (pa_fifo s (pa_out s)) s)\<lparr>pa_out := (pa_out s + 1) mod MAXREQS\<rparr>)
      else Some s)"

declare pol_asyn_loop.simps [code]

definition rtf_sysrq_handler :: "fifos \<Rightarrow> fifos option" where
  "rtf_sysrq_handler s = do {
     s1 \<leftarrow> taskq_loop s;
     s2 \<leftarrow> pol_asyn_loop s1;
     Some (s2\<lparr>need_resched := True\<rparr>)
   }"

section \<open>Creating, resizing and destroying\<close>

text \<open>The error of \<^verbatim>\<open>VALID_FIFO\<close>, 0 for a fifo in use.\<close>

definition VALID_FIFO :: "nat \<Rightarrow> fifos \<Rightarrow> int" where
  "VALID_FIFO i s = (if i \<ge> MAX_FIFOS then - ENODEV else if opncnt (fifo s i) = 0 then - EINVAL else 0)"

definition rtf_reset :: "nat \<Rightarrow> fifos \<Rightarrow> (int \<times> fifos) option" where
  "rtf_reset i s =
     (if VALID_FIFO i s \<noteq> 0 then Some (VALID_FIFO i s, s)
      else do {
        s1 \<leftarrow> f_mbx_delete i s;
        Some (0, f_mbx_init i (rb_size (f_buf (fifo s1 i))) (bufadr (f_buf (fifo s1 i))) s1)
      })"

text \<open>Which allocator serves a request, and what it returns: \<open>buf\<close>, \<open>None\<close> for NULL.\<close>

definition allocator :: "nat \<Rightarrow> char" where
  "allocator n = (if n \<le> PAGE_SIZE * 32 then CHR ''k'' else CHR ''v'')"

definition free_buf :: "char \<Rightarrow> fifos \<Rightarrow> fifos" where
  "free_buf c s = s\<lparr>freed := freed s @ [if c = CHR ''k'' then CHR ''k'' else CHR ''v'']\<rparr>"

text \<open>The bytes waiting in the fifo are drained into the new buffer; \<open>None\<close> when they do not fit.\<close>

definition rtf_resize :: "nat \<Rightarrow> nat \<Rightarrow> byte list option \<Rightarrow> fifos \<Rightarrow> (int \<times> fifos) option" where
  "rtf_resize i n buf s =
     (if VALID_FIFO i s \<noteq> 0 then Some (VALID_FIFO i s, s)
      else case buf of
        None \<Rightarrow> Some (- ENOMEM, s)
      | Some new \<Rightarrow> do {
          let old_type = malloc_type (fifo s i);
          let s1 = upd_fifo i (\<lambda>f. f\<lparr>malloc_type := allocator n\<rparr>) s;
          (got, left, r) \<leftarrow> mbx_get (f_buf (fifo s1 i)) 1000000000;
          if length got > n then None
          else
            let sz = (if n > rb_size r then n else rb_size r); av = 1000000000 - left;
                r' = r\<lparr>bufadr := got @ drop (length got) new, avbs := av, rb_size := sz, fbyte := 0,
                       frbs := sz - av\<rparr> in
            Some (int n, free_buf old_type (set_fbuf i r' s1))
        })"

definition new_fifo :: "nat \<Rightarrow> nat \<Rightarrow> byte list \<Rightarrow> fifos \<Rightarrow> fifos" where
  "new_fifo i n buf s =
     upd_fifo i (\<lambda>f. f\<lparr>pol_asyn_pended := False, asynq := False, fname := []\<rparr>)
       (f_sem_init (UsrSem i) 0 (f_mbx_init i n buf
         (upd_fifo i (\<lambda>f. f\<lparr>malloc_type := allocator n, handler := None\<rparr>) s)))"

definition rtf_create :: "nat \<Rightarrow> nat \<Rightarrow> byte list option \<Rightarrow> fifos \<Rightarrow> (int \<times> fifos) option" where
  "rtf_create i n buf s =
     (if i \<ge> MAX_FIFOS then Some (- ENODEV, s)
      else
        let opened = (\<lambda>t. (upd_fifo i (\<lambda>f. f\<lparr>opncnt := opncnt f + 1\<rparr>) t)\<lparr>use_count := use_count t + 1\<rparr>) in
        if opncnt (fifo s i) = 0 then
          (case buf of
             None \<Rightarrow> Some (- ENOMEM, s)
           | Some new \<Rightarrow> Some (0, opened (new_fifo i n new s)))
        else if n > rb_size (f_buf (fifo s i)) then do {
          (r, s1) \<leftarrow> rtf_resize i n buf s;
          Some (0, opened s1)
        }
        else Some (0, opened s))"

definition rtf_destroy :: "nat \<Rightarrow> fifos \<Rightarrow> (int \<times> fifos) option" where
  "rtf_destroy i s =
     (if VALID_FIFO i s \<noteq> 0 then Some (VALID_FIFO i s, s)
      else do {
        let s1 = (upd_fifo i (\<lambda>f. f\<lparr>opncnt := opncnt f - 1\<rparr>) s)\<lparr>use_count := use_count s - 1\<rparr>;
        s2 \<leftarrow> (if opncnt (fifo s1 i) = 0 then do {
                 t \<leftarrow> f_mbx_delete i (upd_fifo i (\<lambda>f. f\<lparr>handler := None\<rparr>)
                        (free_buf (malloc_type (fifo s1 i)) s1));
                 Some (upd_fifo i (\<lambda>f. f\<lparr>pol_asyn_pended := False, asynq := False, fname := []\<rparr>) t)
               } else Some s1);
        Some (opncnt (fifo s2 i), s2)
      })"

definition rtf_create_handler :: "nat \<Rightarrow> nat option \<Rightarrow> fifos \<Rightarrow> int \<times> fifos" where
  "rtf_create_handler i h s =
     (if i \<ge> MAX_FIFOS \<or> h = None then (- EINVAL, s)
      else (0, upd_fifo i (\<lambda>f. f\<lparr>handler := h\<rparr>) s))"

section \<open>The calls of real time tasks\<close>

definition rtf_put :: "nat \<Rightarrow> byte list \<Rightarrow> fifos \<Rightarrow> (int \<times> fifos) option" where
  "rtf_put i xs s =
     (if VALID_FIFO i s \<noteq> 0 then Some (VALID_FIFO i s, s)
      else do { (left, s1) \<leftarrow> f_mbx_send_wp i xs s; Some (int (length xs) - int (length left), s1) })"

definition rtf_ovrwr_put :: "nat \<Rightarrow> byte list \<Rightarrow> fifos \<Rightarrow> (int \<times> fifos) option" where
  "rtf_ovrwr_put i xs s =
     (if VALID_FIFO i s \<noteq> 0 then Some (VALID_FIFO i s, s) else f_mbx_ovrwr_send i xs s)"

definition rtf_put_if :: "nat \<Rightarrow> byte list \<Rightarrow> fifos \<Rightarrow> (int \<times> fifos) option" where
  "rtf_put_if i xs s =
     (if VALID_FIFO i s \<noteq> 0 then Some (VALID_FIFO i s, s)
      else do { (left, s1) \<leftarrow> f_mbx_send_if i xs s; Some (int (length xs) - int (length left), s1) })"

text \<open>A get returns the bytes copied out, the value of the call and the new state.\<close>

definition rtf_get :: "nat \<Rightarrow> nat \<Rightarrow> fifos \<Rightarrow> (byte list \<times> int \<times> fifos) option" where
  "rtf_get i n s =
     (if VALID_FIFO i s \<noteq> 0 then Some ([], VALID_FIFO i s, s)
      else do { (got, left, s1) \<leftarrow> f_mbx_receive_wp i n s; Some (got, int n - int left, s1) })"

definition rtf_evdrp :: "nat \<Rightarrow> nat \<Rightarrow> fifos \<Rightarrow> (byte list \<times> int) option" where
  "rtf_evdrp i n s =
     (if VALID_FIFO i s \<noteq> 0 then Some ([], VALID_FIFO i s)
      else do { (got, left) \<leftarrow> mbx_evdrp (f_buf (fifo s i)) n; Some (got, int n - int left) })"

text \<open>\<^verbatim>\<open>rtf_get_if\<close> calls \<^verbatim>\<open>mbx_send_if\<close> on the buffer of the caller, whose bytes are \<open>buf\<close>.\<close>

definition rtf_get_if :: "nat \<Rightarrow> byte list \<Rightarrow> fifos \<Rightarrow> (int \<times> fifos) option" where
  "rtf_get_if i buf s =
     (if VALID_FIFO i s \<noteq> 0 then Some (VALID_FIFO i s, s)
      else do { (left, s1) \<leftarrow> f_mbx_send_if i buf s; Some (int (length buf) - int (length left), s1) })"

definition rtf_sem_init :: "nat \<Rightarrow> int \<Rightarrow> fifos \<Rightarrow> int \<times> fifos" where
  "rtf_sem_init i v s =
     (if VALID_FIFO i s \<noteq> 0 then (VALID_FIFO i s, s) else (0, f_sem_init (UsrSem i) v s))"

definition rtf_sem_post :: "nat \<Rightarrow> fifos \<Rightarrow> int \<times> fifos" where
  "rtf_sem_post i s =
     (if VALID_FIFO i s \<noteq> 0 then (VALID_FIFO i s, s) else (0, f_sem_signal (UsrSem i) None s))"

definition rtf_sem_trywait :: "nat \<Rightarrow> fifos \<Rightarrow> int \<times> fifos" where
  "rtf_sem_trywait i s =
     (if VALID_FIFO i s \<noteq> 0 then (VALID_FIFO i s, s) else f_sem_wait_if (UsrSem i) s)"

definition rtf_sem_delete :: "nat \<Rightarrow> fifos \<Rightarrow> (int \<times> fifos) option" where
  "rtf_sem_delete i s =
     (if VALID_FIFO i s \<noteq> 0 then Some (VALID_FIFO i s, s)
      else do { s1 \<leftarrow> f_sem_delete (UsrSem i) s; Some (0, s1) })"

section \<open>Named fifos\<close>

text \<open>\<^verbatim>\<open>!strncmp(name, fifo[i].name, RTF_NAMELEN)\<close>\<close>

definition same_name :: "string \<Rightarrow> string \<Rightarrow> bool" where
  "same_name a b \<longleftrightarrow> take RTF_NAMELEN a = take RTF_NAMELEN b"

text \<open>\<open>n\<close> table entries are still to be looked at.\<close>

primrec create_named_loop :: "nat \<Rightarrow> string \<Rightarrow> byte list option \<Rightarrow> fifos \<Rightarrow> (int \<times> fifos) option" where
  "create_named_loop 0 name buf s = Some (- EBUSY, s)"
| "create_named_loop (Suc n) name buf s =
     (let i = MAX_FIFOS - Suc n in
      if same_name name (fname (fifo s i)) then Some (- EBUSY, s)
      else if opncnt (fifo s i) = 0 \<and> fname (fifo s i) = [] then do {
        (err, s1) \<leftarrow> rtf_create i DEFAULT_SIZE buf s;
        Some (if err < 0 then (err, s1)
              else (int i, upd_fifo i (\<lambda>f. f\<lparr>fname := take (RTF_NAMELEN + 1) name\<rparr>) s1))
      }
      else create_named_loop n name buf s)"

definition rtf_create_named :: "string \<Rightarrow> byte list option \<Rightarrow> fifos \<Rightarrow> (int \<times> fifos) option" where
  "rtf_create_named name buf s =
     (if length name > RTF_NAMELEN then Some (- EINVAL, s) else create_named_loop MAX_FIFOS name buf s)"

primrec getbyname_loop :: "nat \<Rightarrow> string \<Rightarrow> fifos \<Rightarrow> int" where
  "getbyname_loop 0 name s = - ENODEV"
| "getbyname_loop (Suc n) name s =
     (let i = MAX_FIFOS - Suc n in
      if opncnt (fifo s i) \<noteq> 0 \<and> same_name name (fname (fifo s i)) then int i
      else getbyname_loop n name s)"

definition rtf_getfifobyname :: "string \<Rightarrow> fifos \<Rightarrow> int" where
  "rtf_getfifobyname name s =
     (if length name > RTF_NAMELEN then - EINVAL else getbyname_loop MAX_FIFOS name s)"

section \<open>The file operations of Linux processes\<close>

text \<open>
  \<open>hc\<close> stands for the handlers users have installed, code outside the sources: \<open>hc h i c\<close> is the
  effect of handler \<open>h\<close> called with the minor number \<open>i\<close> and \<^verbatim>\<open>'r'\<close> or \<^verbatim>\<open>'w'\<close>.
\<close>

type_synonym handlers = "nat \<Rightarrow> nat \<Rightarrow> char \<Rightarrow> fifos \<Rightarrow> int \<times> fifos"

definition call_handler :: "handlers \<Rightarrow> nat \<Rightarrow> char \<Rightarrow> fifos \<Rightarrow> int \<times> fifos" where
  "call_handler hc i c s = (case handler (fifo s i) of None \<Rightarrow> (0, s) | Some h \<Rightarrow> hc h i c s)"

text \<open>\<^verbatim>\<open>if ((handler_ret = handler(minor, c)) < 0) return handler_ret; return r;\<close>\<close>

definition handled :: "handlers \<Rightarrow> nat \<Rightarrow> char \<Rightarrow> int \<Rightarrow> fifos \<Rightarrow> int \<times> fifos" where
  "handled hc i c r s = (let (e, s1) = call_handler hc i c s in (if e < 0 then e else r, s1))"

definition read_end :: "handlers \<Rightarrow> nat \<Rightarrow> nat \<Rightarrow> byte list \<times> nat \<Rightarrow> fifos \<Rightarrow> (byte list \<times> int) fres" where
  "read_end hc i count r s =
     (let (got, left) = r; n = int count - int left in
      if n \<noteq> 0 then (let (e, s1) = handled hc i CHR ''r'' n s in Ret (got, e) s1) else Ret (got, 0) s)"

definition write_end :: "handlers \<Rightarrow> nat \<Rightarrow> byte list \<Rightarrow> byte list \<Rightarrow> fifos \<Rightarrow> int fres" where
  "write_end hc i xs left s =
     (let (e, s1) = handled hc i CHR ''w'' (int (length xs) - int (length left)) s in Ret e s1)"

definition read_now :: "handlers \<Rightarrow> nat \<Rightarrow> nat \<Rightarrow> fifos \<Rightarrow> (byte list \<times> int) fres" where
  "read_now hc i count s =
     lift_opt (f_mbx_receive_wp i count s) (\<lambda>(got, left, s1).
       if left = count then Ret (got, - EAGAIN) s1 else read_end hc i count (got, left) s1)"

definition write_now :: "handlers \<Rightarrow> nat \<Rightarrow> byte list \<Rightarrow> fifos \<Rightarrow> int fres" where
  "write_now hc i xs s =
     lift_opt (f_mbx_send_wp i xs s) (\<lambda>(left, s1).
       if length left = length xs then Ret (- EAGAIN) s1 else write_end hc i xs left s1)"

definition rtf_read :: "handlers \<Rightarrow> bool \<Rightarrow> nat \<Rightarrow> nat \<Rightarrow> fifos \<Rightarrow> (byte list \<times> int) fres" where
  "rtf_read hc nonblock i count s =
     (if nonblock then read_now hc i count s
      else res_bind (f_mbx_receive_wjo i count s) (read_end hc i count))"

definition rtf_write :: "handlers \<Rightarrow> nat \<Rightarrow> bool \<Rightarrow> nat \<Rightarrow> byte list \<Rightarrow> fifos \<Rightarrow> int fres" where
  "rtf_write hc k nonblock i xs s =
     (if nonblock then write_now hc i xs s else res_bind (f_mbx_send k i xs s) (write_end hc i xs))"

definition rtf_open :: "nat \<Rightarrow> byte list option \<Rightarrow> fifos \<Rightarrow> (int \<times> fifos) option" where
  "rtf_open i buf s = rtf_create i DEFAULT_SIZE buf s"

text \<open>\<open>res\<close> is what \<^verbatim>\<open>fasync_helper\<close> of Linux returns and whether it leaves the list not empty.\<close>

definition rtf_fasync :: "int \<times> bool \<Rightarrow> nat \<Rightarrow> fifos \<Rightarrow> int \<times> fifos" where
  "rtf_fasync res i s = (fst res, upd_fifo i (\<lambda>f. f\<lparr>asynq := snd res\<rparr>) s)"

definition rtf_release :: "int \<times> bool \<Rightarrow> nat \<Rightarrow> fifos \<Rightarrow> (int \<times> fifos) option" where
  "rtf_release res i s =
     (let s1 = (if pollq (fifo s i) \<noteq> [] then wake_up_interruptible i s else s);
          s2 = snd (rtf_fasync res i s1) in
      rtf_destroy i (s2\<lparr>need_resched := True\<rparr>))"

definition rtf_poll :: "nat \<Rightarrow> fifos \<Rightarrow> 32 word \<times> fifos" where
  "rtf_poll i s =
     (let s1 = upd_fifo i (\<lambda>f. f\<lparr>pollq := current s # pollq f\<rparr>) s; b = f_buf (fifo s1 i) in
      ((if avbs b \<noteq> 0 then 0x0041 else 0) OR (if frbs b \<noteq> 0 then 0x0104 else 0), s1))"

text \<open>The commands of \<^verbatim>\<open>rtf_ioctl\<close> with what they find in user space: the bytes of a buffer to write,
  the number of bytes to read, delays in milliseconds, and the result of the allocation of those
  that allocate.  \<^verbatim>\<open>OVRWRITE\<close> passes the address of its argument block instead of the buffer: \<open>stack\<close>
  is what it finds there.\<close>

datatype rtf_cmd =
    RESET | RESIZE nat "byte list option" | SUSPEND_TIMED int | OPEN_SIZED nat "byte list option"
  | READ_ALL_AT_ONCE nat | EAVESDROP nat | READ_TIMED nat int | READ_IF nat
  | WRITE_TIMED "byte list" int | WRITE_IF "byte list" | OVRWRITE "byte list" (stack: "byte list")
  | RTF_SEM_INIT int | RTF_SEM_WAIT | RTF_SEM_TRYWAIT | RTF_SEM_TIMED_WAIT int | RTF_SEM_POST
  | RTF_SEM_DESTROY | SET_ASYNC_SIG int | FIONREAD | RTF_GET_N_FIFOS | RTF_GET_FIFO_INFO nat nat
  | RTF_CREATE_NAMED string "byte list option" | RTF_NAME_LOOKUP string | TCGETS | OTHER_CMD

datatype rtf_out = NoOut | Bytes "byte list" | Avbs nat | Infos "(nat \<times> nat \<times> int \<times> string) list"

definition DELAY :: "int \<Rightarrow> int" where
  "DELAY x = (x * HZ + 500) sdiv 1000"

definition no_out :: "(int \<times> fifos) option \<Rightarrow> (int \<times> rtf_out) fres" where
  "no_out r = lift_opt r (\<lambda>(e, s). Ret (e, NoOut) s)"

definition ret_out :: "int fres \<Rightarrow> (int \<times> rtf_out) fres" where
  "ret_out r = res_bind r (\<lambda>e. Ret (e, NoOut))"

definition bytes_out :: "(byte list \<times> int) fres \<Rightarrow> (int \<times> rtf_out) fres" where
  "bytes_out r = res_bind r (\<lambda>(got, e). Ret (e, Bytes got))"

definition suspend_timed :: "fifos \<Rightarrow> int fres" where
  "suspend_timed s =
     schedule_out (current s) s (\<lambda>t. Ret (if pending t (current s) then - ERESTARTSYS else 0) t)"

definition fifo_info :: "fifos \<Rightarrow> nat \<Rightarrow> nat \<times> nat \<times> int \<times> string" where
  "fifo_info s i = (i, rb_size (f_buf (fifo s i)), opncnt (fifo s i), take (RTF_NAMELEN + 1) (fname (fifo s i)))"

fun rtf_ioctl :: "handlers \<Rightarrow> nat \<Rightarrow> nat \<Rightarrow> rtf_cmd \<Rightarrow> fifos \<Rightarrow> (int \<times> rtf_out) fres" where
  "rtf_ioctl hc k i RESET s = no_out (rtf_reset i s)"
| "rtf_ioctl hc k i (RESIZE n buf) s = no_out (rtf_resize i n buf s)"
| "rtf_ioctl hc k i (SUSPEND_TIMED d) s = ret_out (suspend_timed s)"
| "rtf_ioctl hc k i (OPEN_SIZED n buf) s = no_out (rtf_create i n buf s)"
| "rtf_ioctl hc k i (READ_ALL_AT_ONCE n) s =
     bytes_out (res_bind (f_mbx_receive k i n s) (read_end hc i n))"
| "rtf_ioctl hc k i (EAVESDROP n) s =
     lift_opt (mbx_evdrp (f_buf (fifo s i)) n) (\<lambda>(got, left). Ret (int n - int left, Bytes got) s)"
| "rtf_ioctl hc k i (READ_TIMED n d) s =
     bytes_out (if d = 0 then read_now hc i n s
                else res_bind (f_mbx_receive_timed k i n (DELAY d) s) (read_end hc i n))"
| "rtf_ioctl hc k i (READ_IF n) s =
     bytes_out (lift_opt (f_mbx_receive_if i n s) (\<lambda>(got, left, s1). read_end hc i n (got, left) s1))"
| "rtf_ioctl hc k i (WRITE_TIMED xs d) s =
     ret_out (if d = 0 then write_now hc i xs s
              else res_bind (f_mbx_send_timed k i xs (DELAY d) s) (write_end hc i xs))"
| "rtf_ioctl hc k i (WRITE_IF xs) s =
     ret_out (if xs \<noteq> [] then write_now hc i xs s else write_end hc i [] [] s)"
| "rtf_ioctl hc k i (OVRWRITE xs stk) s = no_out (f_mbx_ovrwr_send i stk s)"
| "rtf_ioctl hc k i (RTF_SEM_INIT v) s = Ret (0, NoOut) (f_sem_init (UsrSem i) v s)"
| "rtf_ioctl hc k i RTF_SEM_WAIT s = ret_out (f_sem_wait (UsrSem i) s)"
| "rtf_ioctl hc k i RTF_SEM_TRYWAIT s = no_out (Some (f_sem_wait_if (UsrSem i) s))"
| "rtf_ioctl hc k i (RTF_SEM_TIMED_WAIT d) s = ret_out (f_sem_wait_timed (UsrSem i) (DELAY d) s)"
| "rtf_ioctl hc k i RTF_SEM_POST s = Ret (0, NoOut) (f_sem_signal (UsrSem i) None s)"
| "rtf_ioctl hc k i RTF_SEM_DESTROY s = lift_opt (f_sem_delete (UsrSem i) s) (Ret (0, NoOut))"
| "rtf_ioctl hc k i (SET_ASYNC_SIG v) s = Ret (0, NoOut) (s\<lparr>async_sig := v\<rparr>)"
| "rtf_ioctl hc k i FIONREAD s = Ret (0, Avbs (avbs (f_buf (fifo s i)))) s"
| "rtf_ioctl hc k i RTF_GET_N_FIFOS s = Ret (int MAX_FIFOS, NoOut) s"
| "rtf_ioctl hc k i (RTF_GET_FIFO_INFO first n) s =
     (let is = take n [first..<MAX_FIFOS] in Ret (int (length is), Infos (map (fifo_info s) is)) s)"
| "rtf_ioctl hc k i (RTF_CREATE_NAMED name buf) s = no_out (rtf_create_named name buf s)"
| "rtf_ioctl hc k i (RTF_NAME_LOOKUP name) s = Ret (rtf_getfifobyname name s, NoOut) s"
| "rtf_ioctl hc k i TCGETS s = Ret (- ENOTTY, NoOut) s"
| "rtf_ioctl hc k i OTHER_CMD s = Ret (- EINVAL, NoOut) s"

text \<open>\<open>chr_err\<close> is set when the device cannot be registered, \<open>srq\<close> is the number of the service request
  obtained (negative for none), \<open>got_mem\<close> tells whether the table could be allocated.\<close>

definition no_fifo :: fifo_t where
  "no_fifo = \<lparr>f_buf = \<lparr>bufadr = [], rb_size = 0, fbyte = 0, lbyte = 0, avbs = 0, frbs = 0\<rparr>,
     f_waiting = None, opncnt = 0, malloc_type = CHR 0x00, pol_asyn_pended = False, pollq = [],
     asynq = False, handler = None, fname = []\<rparr>"

definition rtf_init_module :: "bool \<Rightarrow> int \<Rightarrow> bool \<Rightarrow> fifos \<Rightarrow> int \<times> fifos" where
  "rtf_init_module chr_err srq got_mem s =
     (if chr_err then (- 5, s)
      else if srq < 0 then (srq, s)
      else
        let s1 = s\<lparr>tq_in := 0, tq_out := 0, pa_in := 0, pa_out := 0, async_sig := SIGIO\<rparr> in
        if \<not> got_mem then (- 28, s1)
        else (0, fold (\<lambda>i. f_sem_init (UsrSem i) 0) [0..<MAX_FIFOS] (s1\<lparr>fifo := (\<lambda>_. no_fifo)\<rparr>)))"

end
