(* ===== verification/Fifo_Props.thy ===== *)
theory Fifo_Props
  imports Fifos
begin

text \<open>
  What the fifos guarantee: the queues of their semaphores stay rings in priority order and a free
  semaphore has no waiter; puts and gets move bytes in order; the handler of the requests to Linux
  ends and wakes exactly the processes queued; a named fifo is found again by its name.
\<close>

section \<open>Field access\<close>

lemma upd_fifo_simps [simp]:
  "fifo (upd_fifo i f s) = (fifo s)(i := f (fifo s i))" "f_sems (upd_fifo i f s) = f_sems s"
  "fq_next (upd_fifo i f s) = fq_next s" "fq_prev (upd_fifo i f s) = fq_prev s"
  "lx_blocked (upd_fifo i f s) = lx_blocked s" "lx_priority (upd_fifo i f s) = lx_priority s"
  "tq_in (upd_fifo i f s) = tq_in s" "tq_out (upd_fifo i f s) = tq_out s"
  "tq_task (upd_fifo i f s) = tq_task s" "pstate (upd_fifo i f s) = pstate s"
  "pending (upd_fifo i f s) = pending s" "current (upd_fifo i f s) = current s"
  "pa_in (upd_fifo i f s) = pa_in s" "pa_out (upd_fifo i f s) = pa_out s"
  "pa_fifo (upd_fifo i f s) = pa_fifo s"
  by (simp_all add: upd_fifo_def)

lemma set_free_simps [simp]:
  "f_sems (set_free x v s) = (f_sems s)(x := (f_sems s x)\<lparr>free := v\<rparr>)" "fifo (set_free x v s) = fifo s"
  "fq_next (set_free x v s) = fq_next s" "fq_prev (set_free x v s) = fq_prev s"
  "lx_blocked (set_free x v s) = lx_blocked s" "lx_priority (set_free x v s) = lx_priority s"
  "tq_in (set_free x v s) = tq_in s" "tq_out (set_free x v s) = tq_out s"
  "pending (set_free x v s) = pending s"
  by (simp_all add: set_free_def)

lemma push_task_simps [simp]:
  "fifo (push_task t s) = fifo s" "f_sems (push_task t s) = f_sems s"
  "fq_next (push_task t s) = fq_next s" "fq_prev (push_task t s) = fq_prev s"
  "lx_blocked (push_task t s) = lx_blocked s" "lx_priority (push_task t s) = lx_priority s"
  "tq_in (push_task t s) = (tq_in s + 1) mod MAXREQS" "tq_task (push_task t s) = (tq_task s)(tq_in s := t)"
  "srq_pended (push_task t s)"
  by (simp_all add: push_task_def)

lemma push_poll_simps [simp]:
  "f_sems (push_poll i s) = f_sems s" "fq_next (push_poll i s) = fq_next s"
  "fq_prev (push_poll i s) = fq_prev s" "lx_blocked (push_poll i s) = lx_blocked s"
  "lx_priority (push_poll i s) = lx_priority s" "f_buf (fifo (push_poll i s) j) = f_buf (fifo s j)"
  "opncnt (fifo (push_poll i s) j) = opncnt (fifo s j)"
  by (simp_all add: push_poll_def)

lemma f_dequeue_blocked_simps [simp]:
  "fifo (f_dequeue_blocked t s) = fifo s" "f_sems (f_dequeue_blocked t s) = f_sems s"
  "tq_in (f_dequeue_blocked t s) = tq_in s" "tq_task (f_dequeue_blocked t s) = tq_task s"
  "lx_priority (f_dequeue_blocked t s) = lx_priority s"
  "lx_blocked (f_dequeue_blocked t s) = (lx_blocked s)(t := False)"
  by (simp_all add: f_dequeue_blocked_def)

section \<open>The queues of the semaphores\<close>

definition fqueue :: "fifos \<Rightarrow> fsemid \<Rightarrow> ltid list \<Rightarrow> bool" where
  "fqueue s x ts \<longleftrightarrow> ring (fq_next s) (fq_prev s) (FSemQ x) (map LxQ ts)"

text \<open>The invariant of a semaphore: its queue holds the blocked processes in order of priority, and it is
  free only when nobody waits.\<close>

definition fsem_ok :: "fifos \<Rightarrow> fsemid \<Rightarrow> ltid list \<Rightarrow> bool" where
  "fsem_ok s x ts \<longleftrightarrow> fqueue s x ts \<and> (\<forall>t \<in> set ts. lx_blocked s t)
     \<and> sorted_wrt (\<lambda>a b. - lx_priority s a \<le> - lx_priority s b) ts
     \<and> (free (f_sems s x) \<noteq> 0 \<longrightarrow> ts = []) \<and> fqtype (f_sems s x) = 0"

lemma fsem_ok_cong:
  "f_sems s' = f_sems s \<Longrightarrow> fq_next s' = fq_next s \<Longrightarrow> fq_prev s' = fq_prev s \<Longrightarrow> lx_blocked s' = lx_blocked s \<Longrightarrow>
   lx_priority s' = lx_priority s \<Longrightarrow> fsem_ok s' x ts = fsem_ok s x ts"
  by (simp add: fsem_ok_def fqueue_def)

lemma fsem_ok_upd_fifo [simp]: "fsem_ok (upd_fifo i f s) x ts = fsem_ok s x ts"
  by (rule fsem_ok_cong) simp_all

lemma fsem_ok_push [simp]: "fsem_ok (push_task t s) x ts = fsem_ok s x ts" "fsem_ok (push_poll i s) x ts = fsem_ok s x ts"
  by (rule fsem_ok_cong; simp)+

lemma fqueue_first: "fqueue s x ts \<Longrightarrow> first_waiter x s = (case ts of [] \<Rightarrow> None | t # _ \<Rightarrow> Some t)"
  by (cases ts) (simp_all add: fqueue_def first_waiter_def ring_first)

lemma fqueue_distinct: "fqueue s x ts \<Longrightarrow> distinct ts"
  by (auto simp: fqueue_def ring_def distinct_map)

lemma fqueue_dequeue:
  assumes "fqueue s x ts" "t \<in> set ts"
  shows "fqueue (f_dequeue_blocked t s) x (remove1 t ts)"
proof -
  have "inj LxQ" by (simp add: inj_on_def)
  then have "map LxQ (remove1 t ts) = remove1 (LxQ t) (map LxQ ts)"
    by (induction ts) (auto simp: inj_eq)
  then show ?thesis
    using ring_unlink_remove1 [of "fq_next s" "fq_prev s" "FSemQ x" "map LxQ ts" "LxQ t"] assms
    by (simp add: fqueue_def f_dequeue_blocked_def)
qed

lemma fsem_ok_dequeue:
  assumes "fsem_ok s x ts" "t \<in> set ts"
  shows "fsem_ok (f_dequeue_blocked t s) x (remove1 t ts)"
proof -
  have d: "distinct ts" using assms(1) fqueue_distinct by (auto simp: fsem_ok_def)
  have "sorted_wrt P (remove1 t ts)" if "sorted_wrt P ts" for P
    using that by (induction ts) (auto dest: set_remove1_subset [THEN subsetD])
  then show ?thesis
    using assms d fqueue_dequeue [of s x ts t] by (auto simp: fsem_ok_def)
qed

text \<open>Blocking: behind the waiters of the same or a higher priority.\<close>

definition behind :: "fifos \<Rightarrow> ltid \<Rightarrow> ltid list \<Rightarrow> ltid list" where
  "behind s t = insert_after_while (\<lambda>u. rt_priority s t \<le> lx_priority s u) t"

lemma f_sem_block_ok:
  assumes ok: "fsem_ok s x ts" and t: "t \<notin> set ts" and taken: "free (f_sems s x) = 0"
  shows "\<exists>s'. f_sem_block t x s = Some s' \<and> fsem_ok s' x (behind s t ts) \<and> f_sems s' = f_sems s \<and> fifo s' = fifo s"
proof -
  let ?s = "s\<lparr>lx_priority := (lx_priority s)(t := rt_priority s t)\<rparr>"
  let ?p = "\<lambda>u. rt_priority s t \<le> lx_priority s u"
  let ?q = "\<lambda>q. q \<noteq> FSemQ x \<and> (case fq_task q of Some u \<Rightarrow> rt_priority s t \<le> lx_priority ?s u | None \<Rightarrow> True)"
  have r: "ring (fq_next s) (fq_prev s) (FSemQ x) (map LxQ ts)" and qt: "fqtype (f_sems s x) = 0"
    using ok by (simp_all add: fsem_ok_def fqueue_def)
  have dw: "dropWhile ?q (map LxQ ts) = map LxQ (dropWhile ?p ts)"
    and tw: "takeWhile ?q (map LxQ ts) = map LxQ (takeWhile ?p ts)"
    using t by (induction ts) auto
  have pos: "f_blocked_pos x (rt_priority s t) ?s = Some (hd (dropWhile ?q (map LxQ ts) @ [FSemQ x]))"
    unfolding f_blocked_pos_def using seek_ring [OF r, of ?q] by simp
  let ?s' = "?s\<lparr>lx_blocked := (lx_blocked ?s)(t := True),
     fq_next := link_nx (fq_next ?s) (fq_prev ?s) (LxQ t) (hd (dropWhile ?q (map LxQ ts) @ [FSemQ x])),
     fq_prev := link_pv (fq_prev ?s) (LxQ t) (hd (dropWhile ?q (map LxQ ts) @ [FSemQ x]))\<rparr>"
  have e: "f_sem_block t x s = Some ?s'"
    using pos qt by (simp add: f_sem_block_def f_enqueue_blocked_def)
  have "LxQ t \<notin> set (FSemQ x # map LxQ ts)" using t by auto
  from ring_insert_after_while [OF r this refl, of ?q]
  have q: "fqueue ?s' x (behind s t ts)"
    by (simp add: fqueue_def behind_def insert_after_while_def dw tw)
  let ?key = "\<lambda>u. - lx_priority ?s u"
  have "insert_after_while (\<lambda>u. ?key u \<le> ?key t) t ts = behind s t ts"
  proof -
    have "u \<in> set ts \<Longrightarrow> (?key u \<le> ?key t) = ?p u" for u using t by auto
    then show ?thesis
      unfolding behind_def insert_after_while_def by (simp cong: takeWhile_cong dropWhile_cong)
  qed
  moreover have "sorted_wrt (\<lambda>a b. ?key a \<le> ?key b) ts"
    using ok t unfolding fsem_ok_def by (auto elim!: sorted_wrt_mono_rel [rotated])
  ultimately have srt: "sorted_wrt (\<lambda>a b. ?key a \<le> ?key b) (behind s t ts)"
    using past_equal.insert_keeps_order [of ?key ts t] by simp
  have "set (behind s t ts) = insert t (set ts)" by (simp add: behind_def)
  then have "fsem_ok ?s' x (behind s t ts)"
    using ok q srt taken by (auto simp: fsem_ok_def)
  then show ?thesis using e by auto
qed

text \<open>Giving up: off the queue, and the semaphore is free when nobody else waits.\<close>

lemma f_sem_give_up_ok:
  assumes ok: "fsem_ok s x ts" and t: "t \<in> set ts"
  shows "fsem_ok (f_sem_give_up t x s) x (remove1 t ts)
    \<and> (free (f_sems (f_sem_give_up t x s) x) \<noteq> 0 \<longleftrightarrow> remove1 t ts = [])"
proof -
  let ?s = "f_dequeue_blocked t s" and ?ts = "remove1 t ts"
  have 1: "fsem_ok ?s x ?ts" using fsem_ok_dequeue [OF ok t] .
  have 0: "free (f_sems s x) = 0" using ok t by (auto simp: fsem_ok_def)
  have w: "first_waiter x ?s = (case ?ts of [] \<Rightarrow> None | t # _ \<Rightarrow> Some t)"
    using 1 by (auto simp: fsem_ok_def intro: fqueue_first)
  show ?thesis
  proof (cases ?ts)
    case Nil
    then show ?thesis using 1 w by (simp add: f_sem_give_up_def fsem_ok_def fqueue_def)
  next
    case (Cons a l)
    then show ?thesis using 1 w 0 by (simp add: f_sem_give_up_def)
  qed
qed

text \<open>Signalling: the first waiter gets the semaphore, which stays taken; without waiters it gets free.\<close>

lemma f_sem_signal_first:
  assumes ok: "fsem_ok s x (t # ts)"
  shows "fsem_ok (f_sem_signal x p s) x ts \<and> \<not> lx_blocked (f_sem_signal x p s) t
    \<and> free (f_sems (f_sem_signal x p s) x) = 0 \<and> tq_task (f_sem_signal x p s) (tq_in s) = t
    \<and> tq_in (f_sem_signal x p s) = (tq_in s + 1) mod MAXREQS \<and> srq_pended (f_sem_signal x p s)"
proof -
  have "first_waiter x s = Some t" using ok fqueue_first by (force simp: fsem_ok_def)
  moreover have "free (f_sems s x) = 0" using ok by (auto simp: fsem_ok_def)
  ultimately show ?thesis
    using fsem_ok_dequeue [OF ok, of t] by (simp add: f_sem_signal_def)
qed

lemma f_sem_signal_frees:
  assumes ok: "fsem_ok s x []"
  shows "fsem_ok (f_sem_signal x p s) x [] \<and> free (f_sems (f_sem_signal x p s) x) = 1
    \<and> (\<forall>j. f_buf (fifo (f_sem_signal x p s) j) = f_buf (fifo s j))
    \<and> (\<forall>j. opncnt (fifo (f_sem_signal x p s) j) = opncnt (fifo s j))"
proof -
  have n: "first_waiter x s = None" using ok fqueue_first by (force simp: fsem_ok_def)
  have "fsem_ok (set_free x 1 s) x []" using ok by (simp add: fsem_ok_def fqueue_def)
  then show ?thesis using n by (simp add: f_sem_signal_def Let_def split: option.split)
qed

text \<open>A call for a semaphore that is taken: the caller joins the queue, and on its return it has the
  semaphore or has left the queue.\<close>

lemma f_sem_wait_blocks:
  assumes ok: "fsem_ok s x ts" and taken: "free (f_sems s x) = 0" and c: "current s \<notin> set ts"
  shows "\<exists>s' k. f_sem_wait x s = Switch s' k \<and> fsem_ok s' x (behind s (current s) ts)
    \<and> pstate s' (current s) = TASK_INTERRUPTIBLE
    \<and> (\<forall>t us. fsem_ok t x us \<longrightarrow> lx_blocked t (current s) \<longrightarrow> current s \<in> set us \<longrightarrow>
         (\<exists>e t'. k t = Ret e t' \<and> e < 0 \<and> fsem_ok t' x (remove1 (current s) us)))
    \<and> (\<forall>t. \<not> lx_blocked t (current s) \<longrightarrow> \<not> pending t (current s) \<longrightarrow> k t = Ret 0 t)"
proof -
  obtain s1 where s1: "f_sem_block (current s) x s = Some s1" "fsem_ok s1 x (behind s (current s) ts)"
    using f_sem_block_ok [OF ok c taken] by auto
  let ?k = "\<lambda>t. let ret = (if pending t (current s) then - ERESTARTSYS else 0) in
    if lx_blocked t (current s) then Ret (if ret = 0 then - 1 else ret) (f_sem_give_up (current s) x t)
    else Ret ret t"
  have e: "f_sem_wait x s = Switch (s1\<lparr>pstate := (pstate s1)(current s := TASK_INTERRUPTIBLE)\<rparr>) ?k"
    using s1(1) taken by (simp add: f_sem_wait_def schedule_out_def Let_def)
  have A: "fsem_ok (s1\<lparr>pstate := (pstate s1)(current s := TASK_INTERRUPTIBLE)\<rparr>) x (behind s (current s) ts)"
    using s1(2) by (simp add: fsem_ok_def fqueue_def)
  have B: "\<forall>t us. fsem_ok t x us \<longrightarrow> lx_blocked t (current s) \<longrightarrow> current s \<in> set us \<longrightarrow>
    (\<exists>e t'. ?k t = Ret e t' \<and> e < 0 \<and> fsem_ok t' x (remove1 (current s) us))"
    using f_sem_give_up_ok by (auto simp: Let_def)
  have C: "\<forall>t. \<not> lx_blocked t (current s) \<longrightarrow> \<not> pending t (current s) \<longrightarrow> ?k t = Ret 0 t" by simp
  show ?thesis
    by (intro exI conjI, rule e, rule A, simp, rule B, rule C)
qed

text \<open>A process that has been handed the semaphore while a signal was pending does not send, and does
  not give the semaphore back.\<close>

lemma f_mbx_send_loses:
  assumes ok: "fsem_ok s (SndSem i) ts" and taken: "free (f_sems s (SndSem i)) = 0"
    and c: "current s \<notin> set ts"
  shows "\<exists>s' k. f_mbx_send n i xs s = Switch s' k
    \<and> (\<forall>t. pending t (current s) \<longrightarrow> \<not> lx_blocked t (current s) \<longrightarrow> k t = Ret xs t)"
proof -
  obtain s1 where s1: "f_sem_block (current s) (SndSem i) s = Some s1"
    using f_sem_block_ok [OF ok c taken] by auto
  show ?thesis
    using s1 taken by (auto simp: f_mbx_send_def f_sem_wait_def schedule_out_def Let_def)
qed

section \<open>Puts and gets of real time tasks\<close>

text \<open>A fifo in use, with a consistent buffer and free semaphores.\<close>

definition fifo_ok :: "fifos \<Rightarrow> nat \<Rightarrow> bool" where
  "fifo_ok s i \<longleftrightarrow> VALID_FIFO i s = 0 \<and> rb_ok (f_buf (fifo s i)) \<and> fsem_ok s (SndSem i) [] \<and> fsem_ok s (RcvSem i) []
     \<and> free (f_sems s (SndSem i)) \<noteq> 0 \<and> free (f_sems s (RcvSem i)) \<noteq> 0"

definition fcontents :: "fifos \<Rightarrow> nat \<Rightarrow> byte list" where
  "fcontents s i = contents (f_buf (fifo s i))"

lemma VALID_FIFO_upd:
  "opncnt (fifo s' i) = opncnt (fifo s i) \<Longrightarrow> VALID_FIFO i s' = VALID_FIFO i s"
  by (simp add: VALID_FIFO_def)

lemma f_mbx_signal_simps [simp]:
  "f_buf (fifo (f_mbx_signal i s) j) = f_buf (fifo s j)" "f_sems (f_mbx_signal i s) = f_sems s"
  "opncnt (fifo (f_mbx_signal i s) j) = opncnt (fifo s j)" "fsem_ok (f_mbx_signal i s) x ts = fsem_ok s x ts"
  by (simp_all add: f_mbx_signal_def split: option.split)

lemma set_fbuf_simps [simp]:
  "f_buf (fifo (set_fbuf i r s) j) = (if j = i then r else f_buf (fifo s j))" "f_sems (set_fbuf i r s) = f_sems s"
  "opncnt (fifo (set_fbuf i r s) j) = opncnt (fifo s j)" "fsem_ok (set_fbuf i r s) x ts = fsem_ok s x ts"
  by (simp_all add: set_fbuf_def)

lemma fsem_ok_take [simp]: "fsem_ok s y [] \<Longrightarrow> fsem_ok (set_free x 0 s) y []"
  by (auto simp: fsem_ok_def fqueue_def)

text \<open>Leaving the mailbox: the semaphore that was taken is free again, everything else is kept.\<close>

lemma leave_fifo:
  assumes ok: "fifo_ok s i" and x: "x = SndSem i \<or> x = RcvSem i"
    and t: "f_sems t = (f_sems s)(x := (f_sems s x)\<lparr>free := 0\<rparr>)" "\<And>y. fsem_ok t y [] = fsem_ok (set_free x 0 s) y []"
      "opncnt (fifo t i) = opncnt (fifo s i)" "rb_ok (f_buf (fifo t i))"
  shows "fifo_ok (f_sem_signal x p t) i \<and> fcontents (f_sem_signal x p t) i = fcontents t i"
proof -
  have k: "fsem_ok s (SndSem i) []" "fsem_ok s (RcvSem i) []" "rb_ok (f_buf (fifo s i))" "VALID_FIFO i s = 0"
      "free (f_sems s (SndSem i)) \<noteq> 0" "free (f_sems s (RcvSem i)) \<noteq> 0"
    using ok unfolding fifo_ok_def by simp_all
  have o: "fsem_ok t (SndSem i) []" "fsem_ok t (RcvSem i) []"
    using t(2) k(1,2) by simp_all
  then have ox: "fsem_ok t x []" using x by (elim disjE) simp_all
  have n: "first_waiter x t = None" using ox fqueue_first by (force simp: fsem_ok_def)
  have g: "fsem_ok (f_sem_signal x p t) y []" if "fsem_ok t y []" for y
  proof -
    have "fsem_ok (set_free x 1 t) y []" using that by (auto simp: fsem_ok_def fqueue_def)
    then show ?thesis using n by (simp add: f_sem_signal_def Let_def split: option.split)
  qed
  have sems: "f_sems (f_sem_signal x p t) = (f_sems t)(x := (f_sems t x)\<lparr>free := 1\<rparr>)"
    using n by (simp add: f_sem_signal_def Let_def split: option.split)
  have b: "f_buf (fifo (f_sem_signal x p t) i) = f_buf (fifo t i)" "opncnt (fifo (f_sem_signal x p t) i) = opncnt (fifo t i)"
    using f_sem_signal_frees [OF ox, of p] by simp_all
  have v: "VALID_FIFO i (f_sem_signal x p t) = 0"
    using VALID_FIFO_upd [of "f_sem_signal x p t" i s] b(2) t(3) k(4) by simp
  have f: "free (f_sems (f_sem_signal x p t) y) \<noteq> 0" if "free (f_sems s y) \<noteq> 0" for y
    using that unfolding sems t(1) by simp
  show ?thesis
    unfolding fifo_ok_def fcontents_def b(1) using v t(4) g [OF o(1)] g [OF o(2)] f [OF k(5)] f [OF k(6)] by simp
qed

lemma send_now_ok:
  assumes ok: "fifo_ok s i"
  shows "\<exists>t. fput i xs (set_free (SndSem i) 0 s) = Some (drop (frbs (f_buf (fifo s i))) xs, t)
    \<and> fifo_ok (f_sem_signal (SndSem i) (Some i) t) i
    \<and> rb_size (f_buf (fifo (f_sem_signal (SndSem i) (Some i) t) i)) = rb_size (f_buf (fifo s i))
    \<and> fcontents (f_sem_signal (SndSem i) (Some i) t) i = fcontents s i @ take (frbs (f_buf (fifo s i))) xs"
proof -
  let ?m = "f_buf (fifo s i)"
  have m: "rb_ok ?m" using ok by (simp add: fifo_ok_def)
  obtain r where r: "mbxput ?m xs = Some (drop (frbs ?m) xs, r)" "rb_ok r" "rb_size r = rb_size ?m"
    "contents r = contents ?m @ take (frbs ?m) xs"
    using mbxput_ok [OF m] by blast
  let ?t = "f_mbx_signal i (set_fbuf i r (set_free (SndSem i) 0 s))"
  let ?s' = "f_sem_signal (SndSem i) (Some i) ?t"
  have l: "fifo_ok ?s' i \<and> fcontents ?s' i = fcontents ?t i"
    by (rule leave_fifo [OF ok]) (simp_all add: r(2))
  have "fsem_ok ?t (SndSem i) []" using ok by (simp add: fifo_ok_def)
  then have "f_buf (fifo ?s' i) = r" using f_sem_signal_frees by simp
  then show ?thesis using l r by (simp add: fput_def mbx_put_def fcontents_def)
qed

lemma room_of: "fifo_ok s i \<Longrightarrow> frbs (f_buf (fifo s i)) = rb_size (f_buf (fifo s i)) - length (fcontents s i)"
  using frbs_cap [of "f_buf (fifo s i)"] by (simp add: fifo_ok_def fcontents_def)

lemma rtf_put_ok:
  assumes ok: "fifo_ok s i"
  shows "\<exists>s'. rtf_put i xs s = Some (int (min (length xs) (rb_size (f_buf (fifo s i)) - length (fcontents s i))), s')
    \<and> fifo_ok s' i \<and> rb_size (f_buf (fifo s' i)) = rb_size (f_buf (fifo s i))
    \<and> fcontents s' i = fcontents s i @ take (rb_size (f_buf (fifo s i)) - length (fcontents s i)) xs"
proof -
  have v: "VALID_FIFO i s = 0" "free (f_sems s (SndSem i)) \<noteq> 0" using ok by (auto simp: fifo_ok_def)
  show ?thesis
  proof (cases "frbs (f_buf (fifo s i)) = 0")
    case True
    then show ?thesis using ok v by (simp add: rtf_put_def f_mbx_send_wp_def room_of [symmetric])
  next
    case False
    then show ?thesis
      using send_now_ok [OF ok, of xs] v
      by (auto simp: rtf_put_def f_mbx_send_wp_def room_of [OF ok, symmetric] of_nat_diff min_def)
  qed
qed

text \<open>All or nothing.\<close>

lemma rtf_put_if_ok:
  assumes ok: "fifo_ok s i"
  shows "\<exists>s'. rtf_put_if i xs s
      = Some (if length (fcontents s i) + length xs \<le> rb_size (f_buf (fifo s i)) then int (length xs) else 0, s')
    \<and> fifo_ok s' i \<and> rb_size (f_buf (fifo s' i)) = rb_size (f_buf (fifo s i))
    \<and> fcontents s' i = fcontents s i
        @ (if length (fcontents s i) + length xs \<le> rb_size (f_buf (fifo s i)) then xs else [])"
proof -
  have v: "VALID_FIFO i s = 0" "free (f_sems s (SndSem i)) \<noteq> 0" "rb_ok (f_buf (fifo s i))"
    using ok by (auto simp: fifo_ok_def)
  then have "length (fcontents s i) \<le> rb_size (f_buf (fifo s i))" by (simp add: fcontents_def rb_ok_def)
  then have r: "length (fcontents s i) + length xs \<le> rb_size (f_buf (fifo s i)) \<longleftrightarrow> length xs \<le> frbs (f_buf (fifo s i))"
    using room_of [OF ok] by linarith
  show ?thesis
  proof (cases "length xs \<le> frbs (f_buf (fifo s i))")
    case True
    then show ?thesis using send_now_ok [OF ok, of xs] v unfolding r by (auto simp: rtf_put_if_def f_mbx_send_if_def)
  next
    case False
    then show ?thesis using ok v unfolding r by (simp add: rtf_put_if_def f_mbx_send_if_def)
  qed
qed

lemma rtf_get_ok:
  assumes ok: "fifo_ok s i"
  shows "\<exists>s'. rtf_get i n s = Some (take n (fcontents s i), int (min n (length (fcontents s i))), s')
    \<and> fifo_ok s' i \<and> rb_size (f_buf (fifo s' i)) = rb_size (f_buf (fifo s i))
    \<and> fcontents s' i = drop n (fcontents s i)"
proof -
  let ?m = "f_buf (fifo s i)"
  have v: "VALID_FIFO i s = 0" "free (f_sems s (RcvSem i)) \<noteq> 0" and m: "rb_ok ?m" using ok by (auto simp: fifo_ok_def)
  obtain r where r: "mbxget ?m n = Some (take n (contents ?m), n - avbs ?m, r)" "rb_ok r" "rb_size r = rb_size ?m"
    "contents r = drop n (contents ?m)"
    using mbxget_ok [OF m] by blast
  show ?thesis
  proof (cases "avbs ?m = 0")
    case True
    then have "contents ?m = []" by (simp add: contents_def)
    then show ?thesis using ok v True by (simp add: rtf_get_def f_mbx_receive_wp_def fcontents_def)
  next
    case False
    let ?t = "f_mbx_signal i (set_fbuf i r (set_free (RcvSem i) 0 s))"
    let ?s' = "f_sem_signal (RcvSem i) (Some i) ?t"
    have e: "rtf_get i n s = Some (take n (contents ?m), int n - int (n - avbs ?m), ?s')"
      using v False r(1) by (simp add: rtf_get_def f_mbx_receive_wp_def fget_def mbx_get_def)
    have l: "fifo_ok ?s' i \<and> fcontents ?s' i = fcontents ?t i"
      by (rule leave_fifo [OF ok]) (simp_all add: r(2))
    have "fsem_ok ?t (RcvSem i) []" using ok by (simp add: fifo_ok_def)
    then have "f_buf (fifo ?s' i) = r" using f_sem_signal_frees by simp
    then show ?thesis using e l r by (simp add: fcontents_def of_nat_diff min_def)
  qed
qed

text \<open>What a task puts into a fifo that has the room, another one gets.\<close>

text \<open>C20: what \<^verbatim>\<open>rtf_put\<close> stores in a fifo with enough room
  \<^verbatim>\<open>rtf_get\<close> returns, after what the fifo held before.\<close>

lemma rtf_put_get:
  assumes ok: "fifo_ok s i" and room: "length (fcontents s i) + length xs \<le> rb_size (f_buf (fifo s i))"
  shows "\<exists>s1 s2. rtf_put i xs s = Some (int (length xs), s1)
    \<and> rtf_get i (length (fcontents s i) + length xs) s1
        = Some (fcontents s i @ xs, int (length (fcontents s i) + length xs), s2)
    \<and> fcontents s2 i = []"
proof -
  obtain s1 where s1: "rtf_put i xs s = Some (int (length xs), s1)" "fifo_ok s1 i"
    "fcontents s1 i = fcontents s i @ xs"
    using rtf_put_ok [OF ok, of xs] room by (auto simp: min_absorb1)
  then show ?thesis using rtf_get_ok [OF s1(2), of "length (fcontents s i) + length xs"] by auto
qed

text \<open>A semaphore that nobody holds and that is not free closes the fifo to real time tasks.\<close>

lemma rtf_put_closed:
  "VALID_FIFO i s = 0 \<Longrightarrow> free (f_sems s (SndSem i)) = 0 \<Longrightarrow> rtf_put i xs s = Some (0, s)"
  by (simp add: rtf_put_def f_mbx_send_wp_def)

section \<open>Resizing\<close>

lemma mbxget_lbyte: "mbxget m n = Some (got, left, r) \<Longrightarrow> lbyte r = lbyte m"
proof -
  assume a: "mbxget m n = Some (got, left, r)"
  have "case y of (g, l, r) \<Rightarrow> lbyte r = lbyte m" if "mbxget m n = Some y" for y
  proof (rule mbxget.raw_induct [where P = "\<lambda>m n y. case y of (g, l, r) \<Rightarrow> lbyte r = lbyte m", OF _ that])
    fix f m n and y :: "'a list \<times> nat \<times> 'a ring_buf"
    assume IH: "\<And>m n y. f m n = Some y \<Longrightarrow> case y of (g, l, r) \<Rightarrow> lbyte r = lbyte m"
      and e: "(if 0 < n \<and> avbs m \<noteq> 0 then
          let tocpy = chunk (rb_size m - fbyte m) n (avbs m) in do {
            (got, left, m') \<leftarrow> f (drop_chunk tocpy m) (n - tocpy);
            Some (read_at (fbyte m) tocpy (bufadr m) @ got, left, m')
          } else Some ([], n, m)) = Some y"
    show "case y of (g, l, r) \<Rightarrow> lbyte r = lbyte m"
      using e IH by (force simp: drop_chunk_def Let_def split: if_splits prod.splits Option.bind_splits)
  qed
  from this [OF a] show ?thesis by simp
qed

text \<open>The bytes waiting survive, but the tail index of the old buffer does too: the fifo is consistent
  afterwards only when that index happens to be their number.\<close>

lemma rtf_resize_ok:
  assumes v: "VALID_FIFO i s = 0" and ok: "rb_ok (f_buf (fifo s i))"
    and n: "rb_size (f_buf (fifo s i)) \<le> n" "n < 1000000000" "length new = n"
  shows "\<exists>s'. rtf_resize i n (Some new) s = Some (int n, s') \<and> fcontents s' i = fcontents s i
    \<and> rb_size (f_buf (fifo s' i)) = n \<and> freed s' = freed s @ [if malloc_type (fifo s i) = CHR ''k'' then CHR ''k'' else CHR ''v'']
    \<and> malloc_type (fifo s' i) = allocator n
    \<and> (rb_ok (f_buf (fifo s' i)) \<longleftrightarrow> lbyte (f_buf (fifo s i)) = length (fcontents s i) mod n)"
proof -
  let ?m = "f_buf (fifo s i)"
  have m: "fbyte ?m < rb_size ?m" "avbs ?m \<le> rb_size ?m" using ok by (auto simp: rb_ok_def)
  then have n0: "0 < n" and av: "avbs ?m \<le> n" using n by linarith+
  obtain r where r: "mbxget ?m 1000000000 = Some (take 1000000000 (contents ?m), 1000000000 - avbs ?m, r)"
    "rb_size r = rb_size ?m" using mbxget_ok [OF ok] by blast
  have full: "take 1000000000 (contents ?m) = contents ?m" using av n(2) by simp
  have lb: "lbyte r = lbyte ?m" using mbxget_lbyte [OF r(1)] .
  let ?r = "r\<lparr>bufadr := contents ?m @ drop (avbs ?m) new, avbs := avbs ?m, rb_size := n, fbyte := 0,
                       frbs := n - avbs ?m\<rparr>"
  have c: "contents ?r = contents ?m"
    by (rule nth_equalityI) (use av n in \<open>simp_all add: nth_contents nth_append\<close>)
  have e: "\<exists>s'. rtf_resize i n (Some new) s = Some (int n, s') \<and> f_buf (fifo s' i) = ?r
    \<and> freed s' = freed s @ [if malloc_type (fifo s i) = CHR ''k'' then CHR ''k'' else CHR ''v'']
    \<and> malloc_type (fifo s' i) = allocator n"
    using v r full av n by (simp add: rtf_resize_def mbx_get_def Let_def free_buf_def set_fbuf_def upd_fifo_def)
  have "rb_ok ?r \<longleftrightarrow> lbyte ?m = avbs ?m mod n"
    using n0 av n lb by (simp add: rb_ok_def)
  then show ?thesis using e c by (auto simp: fcontents_def)
qed

text \<open>Shrinking keeps the old size with the smaller buffer: the fifo is never consistent afterwards.\<close>

lemma rtf_resize_shrink:
  assumes v: "VALID_FIFO i s = 0" and ok: "rb_ok (f_buf (fifo s i))"
    and n: "n < rb_size (f_buf (fifo s i))" "avbs (f_buf (fifo s i)) \<le> n" "n < 1000000000" "length new = n"
  shows "\<exists>s'. rtf_resize i n (Some new) s = Some (int n, s')
    \<and> rb_size (f_buf (fifo s' i)) = rb_size (f_buf (fifo s i)) \<and> length (bufadr (f_buf (fifo s' i))) = n
    \<and> \<not> rb_ok (f_buf (fifo s' i))"
proof -
  let ?m = "f_buf (fifo s i)"
  obtain r where r: "mbxget ?m 1000000000 = Some (take 1000000000 (contents ?m), 1000000000 - avbs ?m, r)"
    "rb_size r = rb_size ?m" using mbxget_ok [OF ok] by blast
  have full: "take 1000000000 (contents ?m) = contents ?m" using n by simp
  show ?thesis
    using v r full n by (simp add: rtf_resize_def mbx_get_def Let_def free_buf_def set_fbuf_def upd_fifo_def rb_ok_def)
qed

section \<open>The handler of the requests\<close>

text \<open>The processes queued in the ring of requests.\<close>

definition queued :: "fifos \<Rightarrow> ltid set" where
  "queued s = (\<lambda>k. tq_task s ((tq_out s + k) mod MAXREQS)) ` {k. k < (tq_in s + MAXREQS - tq_out s) mod MAXREQS}"

lemma ring_distance_step:
  fixes i out :: nat
  assumes "i < MAXREQS" "out < MAXREQS" "i \<noteq> out"
  shows "(i + MAXREQS - out) mod MAXREQS = Suc ((i + MAXREQS - (out + 1) mod MAXREQS) mod MAXREQS)"
proof (cases "out = MAXREQS - 1")
  case True
  then show ?thesis using assms by simp
next
  case False
  then have o: "(out + 1) mod MAXREQS = out + 1" using assms(2) by simp
  show ?thesis
  proof (cases "out < i")
    case True
    then obtain d where d: "i = Suc (out + d)" using less_imp_Suc_add by blast
    then have "i + MAXREQS - out = Suc d + MAXREQS" "i + MAXREQS - (out + 1) = d + MAXREQS" by simp_all
    then show ?thesis unfolding o using d assms by (simp only: mod_add_self2) simp
  next
    case False
    then show ?thesis unfolding o using assms by simp
  qed
qed

lemma taskq_loop_ok:
  assumes "tq_in s < MAXREQS" "tq_out s < MAXREQS"
  shows "\<exists>s'. taskq_loop s = Some s' \<and> tq_out s' = tq_in s \<and> tq_in s' = tq_in s \<and> fifo s' = fifo s
    \<and> pa_in s' = pa_in s \<and> pa_out s' = pa_out s \<and> pa_fifo s' = pa_fifo s
    \<and> pstate s' = (\<lambda>t. if t \<in> queued s \<and> pstate s t = TASK_INTERRUPTIBLE then TASK_RUNNING else pstate s t)"
  using assms
proof (induction "(tq_in s + MAXREQS - tq_out s) mod MAXREQS" arbitrary: s)
  case 0
  then have "tq_in s = tq_out s" using ring_distance_step [of "tq_in s" "tq_out s"] by fastforce
  then show ?case using 0 by (subst taskq_loop.simps) (simp add: queued_def)
next
  case (Suc n)
  then have ne: "tq_out s \<noteq> tq_in s" by (intro notI) simp
  let ?w = "wake_if_interruptible (tq_task s (tq_out s)) s"
  let ?s = "?w\<lparr>tq_out := (tq_out s + 1) mod MAXREQS\<rparr>"
  have w: "tq_in ?w = tq_in s" "tq_task ?w = tq_task s" "fifo ?w = fifo s" "pa_in ?w = pa_in s"
    "pa_out ?w = pa_out s" "pa_fifo ?w = pa_fifo s"
    "pstate ?w = (\<lambda>t. if t = tq_task s (tq_out s) \<and> pstate s t = TASK_INTERRUPTIBLE then TASK_RUNNING else pstate s t)"
    by (auto simp: wake_if_interruptible_def wake_up_process_def)
  have n: "n = (tq_in ?s + MAXREQS - tq_out ?s) mod MAXREQS"
    using Suc.hyps(2) ring_distance_step [OF Suc.prems ne [symmetric]] w(1) by simp
  obtain s' where s': "taskq_loop ?s = Some s'" "tq_out s' = tq_in ?s" "tq_in s' = tq_in ?s" "fifo s' = fifo ?s"
    "pa_in s' = pa_in ?s" "pa_out s' = pa_out ?s" "pa_fifo s' = pa_fifo ?s"
    "pstate s' = (\<lambda>t. if t \<in> queued ?s \<and> pstate ?s t = TASK_INTERRUPTIBLE then TASK_RUNNING else pstate ?s t)"
    using Suc.hyps(1) [OF n] Suc.prems w(1) by auto
  have q: "queued s = insert (tq_task s (tq_out s)) (queued ?s)"
  proof -
    have "{k. k < Suc n} = insert 0 (Suc ` {k. k < n})" using less_Suc_eq_0_disj by auto
    moreover have "(tq_out ?s + k) mod MAXREQS = (tq_out s + Suc k) mod MAXREQS" for k
      by (simp add: mod_simps)
    ultimately show ?thesis
      unfolding queued_def using n Suc.hyps(2) Suc.prems(2) w(2) by (simp add: image_image)
  qed
  have "taskq_loop s = taskq_loop ?s" using ne by (subst taskq_loop.simps) simp
  moreover have "pstate s' = (\<lambda>t. if t \<in> queued s \<and> pstate s t = TASK_INTERRUPTIBLE then TASK_RUNNING else pstate s t)"
    unfolding s'(8) q by (rule ext) (simp add: w(7))
  ultimately show ?case using s'(1-7) w(1-6) by simp
qed

lemma wake_if_simps [simp]:
  "tq_in (wake_if_interruptible t s) = tq_in s" "tq_out (wake_if_interruptible t s) = tq_out s"
  "fifo (wake_if_interruptible t s) = fifo s" "pa_in (wake_if_interruptible t s) = pa_in s"
  "pa_out (wake_if_interruptible t s) = pa_out s" "pa_fifo (wake_if_interruptible t s) = pa_fifo s"
  by (simp_all add: wake_if_interruptible_def wake_up_process_def)

lemma wake_up_interruptible_ok:
  "tq_in (wake_up_interruptible i s) = tq_in s \<and> tq_out (wake_up_interruptible i s) = tq_out s
   \<and> fifo (wake_up_interruptible i s) = fifo s \<and> pa_in (wake_up_interruptible i s) = pa_in s
   \<and> pa_out (wake_up_interruptible i s) = pa_out s \<and> pa_fifo (wake_up_interruptible i s) = pa_fifo s
   \<and> pstate (wake_up_interruptible i s)
     = (\<lambda>t. if t \<in> set (pollq (fifo s i)) \<and> pstate s t = TASK_INTERRUPTIBLE then TASK_RUNNING else pstate s t)"
proof -
  have "tq_in (fold wake_if_interruptible ps s) = tq_in s \<and> tq_out (fold wake_if_interruptible ps s) = tq_out s
   \<and> fifo (fold wake_if_interruptible ps s) = fifo s \<and> pa_in (fold wake_if_interruptible ps s) = pa_in s
   \<and> pa_out (fold wake_if_interruptible ps s) = pa_out s \<and> pa_fifo (fold wake_if_interruptible ps s) = pa_fifo s
   \<and> pstate (fold wake_if_interruptible ps s)
     = (\<lambda>t. if t \<in> set ps \<and> pstate s t = TASK_INTERRUPTIBLE then TASK_RUNNING else pstate s t)" for ps
    by (induction ps arbitrary: s) (auto simp: wake_if_interruptible_def wake_up_process_def)
  then show ?thesis unfolding wake_up_interruptible_def by blast
qed

lemma notify_fifo_ok:
  "tq_in (notify_fifo i s) = tq_in s" "tq_out (notify_fifo i s) = tq_out s"
  "fifo (notify_fifo i s) = (fifo s)(i := (fifo s i)\<lparr>pol_asyn_pended := False\<rparr>)"
  "pa_in (notify_fifo i s) = pa_in s" "pa_out (notify_fifo i s) = pa_out s" "pa_fifo (notify_fifo i s) = pa_fifo s"
  "pstate (notify_fifo i s)
     = (\<lambda>t. if t \<in> set (pollq (fifo s i)) \<and> pstate s t = TASK_INTERRUPTIBLE then TASK_RUNNING else pstate s t)"
  using wake_up_interruptible_ok [of i "upd_fifo i (\<lambda>f. f\<lparr>pol_asyn_pended := False\<rparr>) s"]
  unfolding upd_fifo_simps by (simp_all add: notify_fifo_def kill_fasync_def Let_def)

definition notified :: "fifos \<Rightarrow> nat set" where
  "notified s = (\<lambda>k. pa_fifo s ((pa_out s + k) mod MAXREQS)) ` {k. k < (pa_in s + MAXREQS - pa_out s) mod MAXREQS}"

definition polling :: "fifos \<Rightarrow> ltid set" where
  "polling s = (\<Union>i \<in> notified s. set (pollq (fifo s i)))"

lemma pol_asyn_loop_ok:
  assumes "pa_in s < MAXREQS" "pa_out s < MAXREQS"
  shows "\<exists>s'. pol_asyn_loop s = Some s' \<and> pa_out s' = pa_in s \<and> tq_in s' = tq_in s \<and> tq_out s' = tq_out s
    \<and> (\<forall>i \<in> notified s. \<not> pol_asyn_pended (fifo s' i)) \<and> (\<forall>i. pollq (fifo s' i) = pollq (fifo s i))
    \<and> (\<forall>i. \<not> pol_asyn_pended (fifo s i) \<longrightarrow> \<not> pol_asyn_pended (fifo s' i))
    \<and> pstate s' = (\<lambda>t. if t \<in> polling s \<and> pstate s t = TASK_INTERRUPTIBLE then TASK_RUNNING else pstate s t)"
  using assms
proof (induction "(pa_in s + MAXREQS - pa_out s) mod MAXREQS" arbitrary: s)
  case 0
  then have "pa_in s = pa_out s" using ring_distance_step [of "pa_in s" "pa_out s"] by fastforce
  then show ?case using 0 by (subst pol_asyn_loop.simps) (simp add: notified_def polling_def)
next
  case (Suc n)
  then have ne: "pa_out s \<noteq> pa_in s" by (intro notI) simp
  let ?i = "pa_fifo s (pa_out s)"
  let ?w = "notify_fifo ?i s"
  let ?s = "?w\<lparr>pa_out := (pa_out s + 1) mod MAXREQS\<rparr>"
  have n: "n = (pa_in ?s + MAXREQS - pa_out ?s) mod MAXREQS"
    using Suc.hyps(2) ring_distance_step [OF Suc.prems ne [symmetric]] notify_fifo_ok(4) [of ?i s] by simp
  have p: "pa_in ?s < MAXREQS" "pa_out ?s < MAXREQS" using Suc.prems notify_fifo_ok(4) [of ?i s] by simp_all
  have pq: "pollq (fifo ?s i) = pollq (fifo s i)" for i by (simp add: notify_fifo_ok)
  obtain s' where s': "pol_asyn_loop ?s = Some s'" "pa_out s' = pa_in ?s" "tq_in s' = tq_in ?s" "tq_out s' = tq_out ?s"
    "\<forall>i \<in> notified ?s. \<not> pol_asyn_pended (fifo s' i)" "\<forall>i. pollq (fifo s' i) = pollq (fifo ?s i)"
    "\<forall>i. \<not> pol_asyn_pended (fifo ?s i) \<longrightarrow> \<not> pol_asyn_pended (fifo s' i)"
    "pstate s' = (\<lambda>t. if t \<in> polling ?s \<and> pstate ?s t = TASK_INTERRUPTIBLE then TASK_RUNNING else pstate ?s t)"
    using Suc.hyps(1) [OF n p] by (elim exE conjE)
  have q: "notified s = insert ?i (notified ?s)"
  proof -
    have "{k. k < Suc n} = insert 0 (Suc ` {k. k < n})" using less_Suc_eq_0_disj by auto
    moreover have "(pa_out ?s + k) mod MAXREQS = (pa_out s + Suc k) mod MAXREQS" for k
      by (simp add: mod_simps)
    ultimately show ?thesis
      unfolding notified_def using n Suc.hyps(2) Suc.prems(2) notify_fifo_ok(6) [of ?i s] by (simp add: image_image)
  qed
  have pl: "polling s = set (pollq (fifo s ?i)) \<union> polling ?s" unfolding polling_def q pq by simp
  have 1: "pol_asyn_loop s = Some s'" using ne s'(1) by (subst pol_asyn_loop.simps) simp
  have 2: "pstate s' = (\<lambda>t. if t \<in> polling s \<and> pstate s t = TASK_INTERRUPTIBLE then TASK_RUNNING else pstate s t)"
    unfolding s'(8) pl by (rule ext) (simp add: notify_fifo_ok)
  have "\<not> pol_asyn_pended (fifo ?s ?i)" by (simp add: notify_fifo_ok)
  then have 3: "\<forall>i \<in> notified s. \<not> pol_asyn_pended (fifo s' i)" using s'(5,7) q by simp
  have 4: "\<forall>i. \<not> pol_asyn_pended (fifo s i) \<longrightarrow> \<not> pol_asyn_pended (fifo s' i)"
    using s'(7) by (simp add: notify_fifo_ok)
  show ?case
    using 1 2 3 4 s'(2-4,6) pq by (intro exI [of _ s']) (simp add: notify_fifo_ok)
qed

text \<open>The handler always ends, with both rings empty, after waking exactly the processes queued and those
  that poll a fifo queued, as far as they sleep.\<close>

lemma rtf_sysrq_handler_eq:
  assumes "tq_in s < MAXREQS" "tq_out s < MAXREQS" "pa_in s < MAXREQS" "pa_out s < MAXREQS"
  shows "\<exists>s'. rtf_sysrq_handler s = Some s' \<and> tq_out s' = tq_in s' \<and> pa_out s' = pa_in s
    \<and> (\<forall>i \<in> notified s. \<not> pol_asyn_pended (fifo s' i)) \<and> need_resched s'
    \<and> pstate s' = (\<lambda>t. if t \<in> queued s \<union> polling s \<and> pstate s t = TASK_INTERRUPTIBLE then TASK_RUNNING
                        else pstate s t)"
proof -
  obtain s1 where s1: "taskq_loop s = Some s1" "tq_out s1 = tq_in s" "tq_in s1 = tq_in s" "fifo s1 = fifo s"
    "pa_in s1 = pa_in s" "pa_out s1 = pa_out s" "pa_fifo s1 = pa_fifo s"
    "pstate s1 = (\<lambda>t. if t \<in> queued s \<and> pstate s t = TASK_INTERRUPTIBLE then TASK_RUNNING else pstate s t)"
    using taskq_loop_ok [OF assms(1,2)] by (elim exE conjE)
  have n: "notified s1 = notified s" "polling s1 = polling s"
    unfolding polling_def notified_def s1(4-7) by simp_all
  have "pa_in s1 < MAXREQS" "pa_out s1 < MAXREQS" using assms(3,4) s1 by simp_all
  from pol_asyn_loop_ok [OF this] obtain s2 where s2: "pol_asyn_loop s1 = Some s2" "pa_out s2 = pa_in s1"
    "tq_in s2 = tq_in s1" "tq_out s2 = tq_out s1" "\<forall>i \<in> notified s1. \<not> pol_asyn_pended (fifo s2 i)"
    "pstate s2 = (\<lambda>t. if t \<in> polling s1 \<and> pstate s1 t = TASK_INTERRUPTIBLE then TASK_RUNNING else pstate s1 t)"
    by (elim exE conjE)
  have "pstate s2 = (\<lambda>t. if t \<in> queued s \<union> polling s \<and> pstate s t = TASK_INTERRUPTIBLE then TASK_RUNNING
      else pstate s t)"
    unfolding s2(6) s1(8) n by (rule ext) simp
  then show ?thesis using s1 s2 n by (simp add: rtf_sysrq_handler_def)
qed

section \<open>Named fifos\<close>

lemma new_fifo_other: "j \<noteq> i \<Longrightarrow> fifo (new_fifo i n new s) j = fifo s j"
  "opncnt (fifo (new_fifo i n new s) j) = opncnt (fifo s j)"
  by (simp_all add: new_fifo_def f_mbx_init_def f_sem_init_def)

lemma create_named_loop_frame:
  "create_named_loop n name buf s = Some (r, s') \<Longrightarrow> n \<le> MAX_FIFOS \<Longrightarrow> j < MAX_FIFOS - n \<Longrightarrow> fifo s' j = fifo s j"
proof (induction n)
  case 0
  then show ?case by simp
next
  case (Suc n)
  then have j: "j \<noteq> MAX_FIFOS - Suc n" "j < MAX_FIFOS - n" "n \<le> MAX_FIFOS" by simp_all
  show ?case
  proof (cases "same_name name (fname (fifo s (MAX_FIFOS - Suc n)))
      \<or> \<not> (opncnt (fifo s (MAX_FIFOS - Suc n)) = 0 \<and> fname (fifo s (MAX_FIFOS - Suc n)) = [])")
    case True
    then show ?thesis using Suc j by (auto simp: Let_def split: if_splits)
  next
    case False
    then show ?thesis
      using Suc.prems j(1) new_fifo_other(1) [OF j(1)]
      by (cases buf) (auto simp: Let_def rtf_create_def split: if_splits)
  qed
qed

lemma create_named_loop_ok:
  assumes "create_named_loop n name buf s = Some (r, s')" "0 \<le> r" "n \<le> MAX_FIFOS" "length name \<le> RTF_NAMELEN"
  shows "getbyname_loop n name s' = r"
  using assms
proof (induction n)
  case 0
  then show ?case by simp
next
  case (Suc n)
  let ?i = "MAX_FIFOS - Suc n"
  have i: "?i < MAX_FIFOS" using Suc.prems(3) by simp
  show ?case
  proof (cases "same_name name (fname (fifo s ?i))")
    case True
    then show ?thesis using Suc.prems by simp
  next
    case differ: False
    show ?thesis
    proof (cases "opncnt (fifo s ?i) = 0 \<and> fname (fifo s ?i) = []")
      case True
      then obtain new where s': "r = int ?i"
        "s' = upd_fifo ?i (\<lambda>f. f\<lparr>fname := take (RTF_NAMELEN + 1) name\<rparr>)
          ((upd_fifo ?i (\<lambda>f. f\<lparr>opncnt := opncnt f + 1\<rparr>) (new_fifo ?i DEFAULT_SIZE new s))
             \<lparr>use_count := use_count (new_fifo ?i DEFAULT_SIZE new s) + 1\<rparr>)"
        using Suc.prems differ i by (cases buf) (auto simp: rtf_create_def Let_def)
      have "opncnt (fifo (new_fifo ?i DEFAULT_SIZE new s) ?i) = 0"
        using True by (simp add: new_fifo_def f_mbx_init_def f_sem_init_def)
      then show ?thesis using s' Suc.prems(4) by (simp add: same_name_def)
    next
      case False
      then have rec: "create_named_loop n name buf s = Some (r, s')" using Suc.prems(1) differ by (auto simp: Let_def)
      then have "getbyname_loop n name s' = r" using Suc.IH Suc.prems(2-4) by simp
      moreover have "fifo s' ?i = fifo s ?i"
        using create_named_loop_frame [OF rec] Suc.prems(3) by simp
      ultimately show ?thesis using differ by (simp add: Let_def)
    qed
  qed
qed

text \<open>A fifo created by name is the one the name is looked up to.\<close>

lemma rtf_create_named_lookup:
  "rtf_create_named name buf s = Some (r, s') \<Longrightarrow> 0 \<le> r \<Longrightarrow> rtf_getfifobyname name s' = r"
  using create_named_loop_ok [of MAX_FIFOS name buf s r s']
  by (auto simp: rtf_create_named_def rtf_getfifobyname_def split: if_splits)

text \<open>The search for a free entry stops before it has seen all names, so that a second fifo of the same
  name may be created in front of the first one.\<close>

lemma rtf_create_named_twice:
  assumes "length name \<le> RTF_NAMELEN" "name \<noteq> []" and "opncnt (fifo s 0) = 0" "fname (fifo s 0) = []"
  shows "\<exists>s'. rtf_create_named name (Some new) s = Some (0, s') \<and> fname (fifo s' 0) = name
    \<and> (\<forall>j. 0 < j \<longrightarrow> fifo s' j = fifo s j)"
proof -
  have "\<not> same_name name []" using assms(2) by (simp add: same_name_def)
  moreover have e: "(64 :: nat) = Suc 63" by simp
  ultimately show ?thesis
    using assms new_fifo_other(1) [of _ 0 DEFAULT_SIZE new s]
    unfolding rtf_create_named_def e create_named_loop.simps by (simp add: rtf_create_def Let_def)
qed

section \<open>Opening and closing\<close>

text \<open>Opening a fifo that is not in use makes an empty one; closing it for the last time gives its buffer
  back to the allocator it came from.\<close>

lemma rtf_create_ok:
  assumes "i < MAX_FIFOS" "opncnt (fifo s i) = 0" "0 < n" "length new = n"
  shows "\<exists>s'. rtf_create i n (Some new) s = Some (0, s') \<and> fifo_ok s' i \<and> fcontents s' i = []
    \<and> rb_size (f_buf (fifo s' i)) = n \<and> opncnt (fifo s' i) = 1 \<and> malloc_type (fifo s' i) = allocator n
    \<and> freed s' = freed s"
  using assms rb_init_ok [of n new]
  by (simp add: rtf_create_def new_fifo_def f_mbx_init_def f_sem_init_def fifo_ok_def VALID_FIFO_def
      fsem_ok_def fqueue_def ring_empty fcontents_def upd_fifo_def rb_init_def)

lemma rtf_create_handler_ok:
  "i < MAX_FIFOS \<Longrightarrow> snd (rtf_create_handler i (Some h) s) = upd_fifo i (\<lambda>f. f\<lparr>handler := Some h\<rparr>) s"
  by (simp add: rtf_create_handler_def)

section \<open>Deleting a semaphore\<close>

text \<open>All the waiters go to the ring of requests, in order, and the queue is empty.\<close>

lemma f_sem_delete_ok:
  assumes "fqueue s x ts" "tq_in s < MAXREQS"
  shows "\<exists>s'. f_sem_delete x s = Some s' \<and> fqueue s' x [] \<and> tq_in s' = (tq_in s + length ts) mod MAXREQS
    \<and> (length ts < MAXREQS \<longrightarrow> (\<forall>k < length ts. tq_task s' ((tq_in s + k) mod MAXREQS) = ts ! k))
    \<and> (\<forall>j. (\<forall>k < length ts. j \<noteq> (tq_in s + k) mod MAXREQS) \<longrightarrow> tq_task s' j = tq_task s j)
    \<and> lx_blocked s' = lx_blocked s \<and> f_sems s' = f_sems s \<and> fifo s' = fifo s"
  using assms
proof (induction ts arbitrary: s)
  case Nil
  have "first_waiter x s = None" using fqueue_first [OF Nil(1)] by simp
  then show ?case using Nil by (subst f_sem_delete.simps) simp
next
  case (Cons t ts)
  let ?u = "s\<lparr>fq_next := (fq_next s)(FSemQ x := fq_next s (LxQ t)),
             fq_prev := (fq_prev s)(fq_next s (LxQ t) := FSemQ x)\<rparr>"
  let ?s = "push_task t ?u"
  have w: "first_waiter x s = Some t" using fqueue_first [OF Cons.prems(1)] by simp
  have r: "ring (fq_next s) (fq_prev s) (FSemQ x) ([LxQ t] @ map LxQ ts)" using Cons.prems(1) by (simp add: fqueue_def)
  have "fq_next s (LxQ t) = hd (map LxQ ts @ [FSemQ x])"
    using r by (cases ts) (simp_all add: ring_def)
  from ring_drop_prefix [OF r this] have q: "fqueue ?s x ts" by (simp add: fqueue_def)
  obtain s' where s': "f_sem_delete x ?s = Some s'" "fqueue s' x []"
    "tq_in s' = (tq_in ?s + length ts) mod MAXREQS"
    "length ts < MAXREQS \<longrightarrow> (\<forall>k < length ts. tq_task s' ((tq_in ?s + k) mod MAXREQS) = ts ! k)"
    "\<forall>j. (\<forall>k < length ts. j \<noteq> (tq_in ?s + k) mod MAXREQS) \<longrightarrow> tq_task s' j = tq_task ?s j"
    "lx_blocked s' = lx_blocked ?s" "f_sems s' = f_sems ?s" "fifo s' = fifo ?s"
    using Cons.IH [OF q] by auto
  have m: "(tq_in ?s + k) mod MAXREQS = (tq_in s + Suc k) mod MAXREQS" for k
    by (simp add: mod_simps)
  have 1: "f_sem_delete x s = Some s'" using w s'(1) by (subst f_sem_delete.simps) simp
  have 2: "tq_task s' ((tq_in s + k) mod MAXREQS) = (t # ts) ! k"
    if l: "length (t # ts) < MAXREQS" and k: "k < length (t # ts)" for k
  proof (cases k)
    case 0
    have "tq_in s \<noteq> (tq_in ?s + i) mod MAXREQS" if "i < length ts" for i
    proof -
      have "Suc i < MAXREQS" using that l by simp
      then show ?thesis unfolding m using Cons.prems(2) by (auto simp: mod_if split: if_splits)
    qed
    then show ?thesis using 0 s'(5) Cons.prems(2) by simp
  next
    case (Suc i)
    have "tq_task s' ((tq_in ?s + i) mod MAXREQS) = ts ! i" using s'(4) l k Suc by simp
    then show ?thesis unfolding m Suc by simp
  qed
  have 3: "tq_task s' j = tq_task s j" if "\<forall>k < length (t # ts). j \<noteq> (tq_in s + k) mod MAXREQS" for j
  proof -
    have "j \<noteq> tq_in s" using that [rule_format, of 0] Cons.prems(2) by simp
    moreover have "\<forall>k < length ts. j \<noteq> (tq_in ?s + k) mod MAXREQS"
      using that unfolding m by auto
    ultimately show ?thesis using s'(5) by simp
  qed
  have 4: "tq_in s' = (tq_in s + length (t # ts)) mod MAXREQS" using s'(3) m [of "length ts"] by simp
  show ?case
  proof (intro exI conjI, rule 1, rule s'(2), rule 4)
    show "length (t # ts) < MAXREQS \<longrightarrow>
      (\<forall>k < length (t # ts). tq_task s' ((tq_in s + k) mod MAXREQS) = (t # ts) ! k)" using 2 by blast
    show "\<forall>j. (\<forall>k < length (t # ts). j \<noteq> (tq_in s + k) mod MAXREQS) \<longrightarrow> tq_task s' j = tq_task s j"
      using 3 by blast
  qed (simp_all add: s'(6-8))
qed

text \<open>\<^verbatim>\<open>rtf_get_if\<close> writes: the bytes of the caller's buffer go into the fifo.\<close>

lemma rtf_get_if_writes:
  assumes ok: "fifo_ok s i" and room: "length (fcontents s i) + length xs \<le> rb_size (f_buf (fifo s i))"
  shows "\<exists>s'. rtf_get_if i xs s = Some (int (length xs), s') \<and> fifo_ok s' i \<and> fcontents s' i = fcontents s i @ xs"
  using rtf_put_if_ok [OF ok, of xs] room by (auto simp: rtf_get_if_def rtf_put_if_def)

end
