(* ===== verification/Fifo_Wakeups.thy ===== *)
theory Fifo_Wakeups
  imports Fifo_Props
begin

text \<open>
  How a process that waits for a fifo gets to run again: the real time side signals the semaphore,
  which hands it over and queues the process, and the service request handler, run by Linux,
  wakes what has been queued.
\<close>

text \<open>What one signal with a waiting process changes.\<close>

lemma f_sem_signal_queues:
  fixes p :: "nat option"
  assumes ok: "fsem_ok s x (t # ts)"
  defines "s' \<equiv> f_sem_signal x p s"
  shows "fsem_ok s' x ts" "lx_blocked s' = (lx_blocked s)(t := False)" "tq_task s' = (tq_task s)(tq_in s := t)"
    "tq_in s' = (tq_in s + 1) mod MAXREQS" "tq_out s' = tq_out s" "pa_in s' = pa_in s" "pa_out s' = pa_out s"
    "pstate s' = pstate s" "fifo s' = fifo s" "pa_fifo s' = pa_fifo s"
proof -
  have "first_waiter x s = Some t" using ok fqueue_first by (force simp: fsem_ok_def)
  then have e: "s' = push_task t (f_dequeue_blocked t s)" unfolding s'_def by (simp add: f_sem_signal_def)
  show "fsem_ok s' x ts" using f_sem_signal_first [OF ok] unfolding s'_def by blast
  show "lx_blocked s' = (lx_blocked s)(t := False)" "tq_task s' = (tq_task s)(tq_in s := t)"
    "tq_in s' = (tq_in s + 1) mod MAXREQS" "tq_out s' = tq_out s" "pa_in s' = pa_in s" "pa_out s' = pa_out s"
    "pstate s' = pstate s" "fifo s' = fifo s" "pa_fifo s' = pa_fifo s"
    unfolding e by (simp_all add: push_task_def f_dequeue_blocked_def)
qed

lemma slots_distinct:
  assumes "j < k" "k < MAXREQS"
  shows "(i + j) mod MAXREQS \<noteq> (i + k) mod MAXREQS"
proof
  assume "(i + j) mod MAXREQS = (i + k) mod MAXREQS"
  then have "(i + k) mod MAXREQS = (i + j) mod MAXREQS" by simp
  then have "MAXREQS dvd k - j" using mod_eq_dvd_iff_nat [of "i + j" "i + k" MAXREQS] assms by simp
  moreover have "0 < k - j" "k - j < MAXREQS" using assms by linarith+
  ultimately show False by (auto dest: dvd_imp_le)
qed

definition after_signals :: "fifos \<Rightarrow> fsemid \<Rightarrow> ltid list \<Rightarrow> nat \<Rightarrow> fifos \<Rightarrow> bool" where
  "after_signals s x ts n s' \<longleftrightarrow> fsem_ok s' x (drop n ts) \<and> (\<forall>t \<in> set (take n ts). \<not> lx_blocked s' t)
     \<and> (\<forall>k < n. tq_task s' ((tq_in s + k) mod MAXREQS) = ts ! k) \<and> tq_in s' = (tq_in s + n) mod MAXREQS
     \<and> tq_out s' = tq_out s \<and> pa_in s' = pa_in s \<and> pa_out s' = pa_out s \<and> pstate s' = pstate s"

lemma f_sem_signals_queue:
  assumes ok: "fsem_ok s x ts" and i: "tq_in s < MAXREQS" and d: "distinct ts"
  shows "n \<le> length ts \<Longrightarrow> n < MAXREQS \<Longrightarrow> after_signals s x ts n ((f_sem_signal x p ^^ n) s)"
proof (induction n)
  case 0
  then show ?case using ok i by (simp add: after_signals_def)
next
  case (Suc n)
  let ?s = "(f_sem_signal x p ^^ n) s" and ?t = "ts ! n"
  have n: "n < length ts" "n < MAXREQS" using Suc.prems by simp_all
  have a: "fsem_ok ?s x (drop n ts)" "\<forall>t \<in> set (take n ts). \<not> lx_blocked ?s t"
    "\<forall>k < n. tq_task ?s ((tq_in s + k) mod MAXREQS) = ts ! k" "tq_in ?s = (tq_in s + n) mod MAXREQS"
    "tq_out ?s = tq_out s" "pa_in ?s = pa_in s" "pa_out ?s = pa_out s" "pstate ?s = pstate s"
    using Suc.IH n unfolding after_signals_def by simp_all
  have dr: "drop n ts = ?t # drop (Suc n) ts" using n(1) by (rule Cons_nth_drop_Suc [symmetric])
  note q = f_sem_signal_queues [of ?s x ?t "drop (Suc n) ts" p, folded dr, OF a(1)]
  have "tq_task (f_sem_signal x p ?s) ((tq_in s + k) mod MAXREQS) = ts ! k" if k: "k < Suc n" for k
  proof (cases "k = n")
    case True
    then show ?thesis unfolding q(3) a(4) by simp
  next
    case False
    then have "k < n" using k by simp
    then show ?thesis using slots_distinct [of k n "tq_in s"] n(2) a(3) unfolding q(3) a(4) by simp
  qed
  then show ?case
    unfolding after_signals_def funpow.simps o_apply q(5-8) a(5-8)
    using q(1,2,4) a(2,4) n(1) by (auto simp: take_Suc_conv_app_nth mod_simps)
qed

text \<open>Signals are not lost: after \<open>n\<close> of them, fewer than the ring of requests holds, and one run of the
  handler, the first \<open>n\<close> processes that waited own the semaphore in turn and are runnable.\<close>


theorem rtf_sysrq_handler_ok:
  assumes "tq_in s < MAXREQS" "tq_out s < MAXREQS" "pa_in s < MAXREQS" "pa_out s < MAXREQS"
  shows "\<exists>s'. rtf_sysrq_handler s = Some s' \<and> tq_out s' = tq_in s' \<and> pa_out s' = pa_in s \<and> need_resched s'
    \<and> pstate s' = (\<lambda>t. if t \<in> queued s \<union> polling s \<and> pstate s t = TASK_INTERRUPTIBLE then TASK_RUNNING
                        else pstate s t)"
  using rtf_sysrq_handler_eq [OF assms] by (elim exE conjE) blast

text \<open>The ring has no guard: when \<open>MAXREQS\<close> processes are queued before Linux runs the handler, it looks empty.\<close>

lemma push_task_overflow:
  assumes "tq_in s = tq_out s" "tq_in s < MAXREQS" "length ts = MAXREQS"
  shows "tq_in (fold push_task ts s) = tq_out (fold push_task ts s)"
proof -
  have "tq_out (fold push_task us s) = tq_out s \<and> tq_in (fold push_task us s) = (tq_in s + length us) mod MAXREQS"
    if "tq_in s < MAXREQS" for us s
    using that by (induction us arbitrary: s) (auto simp: push_task_def mod_simps)
  then show ?thesis using assms by simp
qed

end
