(* ===== verification/Example_Fifos.thy ===== *)
theory Example_Fifos
  imports Fifo_Wakeups
begin

text \<open>
  The properties of the fifos applied to a concrete state.  Fifo 0 is open and holds the byte 7 in
  a buffer of 4.  The send semaphore of fifo 1 is taken and process 3 waits for it.  Process 2
  runs.  One poll request of fifo 0 is queued for the service request handler.
\<close>

definition some_fifo :: fifo_t where
  "some_fifo = \<lparr>f_buf = \<lparr>bufadr = [7, 0, 0, 0], rb_size = 4, fbyte = 0, lbyte = 1, avbs = 1, frbs = 3\<rparr>, f_waiting = None,
     opncnt = 1, malloc_type = CHR ''k'', pol_asyn_pended = True, pollq = [4], asynq = False, handler = None,
     fname = []\<rparr>"

definition demo :: fifos where
  "demo = \<lparr>fifo = (\<lambda>i. if i < 2 then some_fifo else some_fifo\<lparr>opncnt := 0\<rparr>),
     f_sems = (\<lambda>_. \<lparr>free = 1, fqtype = 0\<rparr>)(SndSem 1 := \<lparr>free = 0, fqtype = 0\<rparr>),
     fq_next = id(FSemQ (SndSem 1) := LxQ 3, LxQ 3 := FSemQ (SndSem 1)),
     fq_prev = id(FSemQ (SndSem 1) := LxQ 3, LxQ 3 := FSemQ (SndSem 1)),
     lx_blocked = (\<lambda>t. t = 3), lx_priority = (\<lambda>_. 0), tq_in = 0, tq_out = 0, tq_task = (\<lambda>_. 0),
     pa_in = 1, pa_out = 0, pa_fifo = (\<lambda>_. 0), current = 2, pstate = (\<lambda>_. TASK_INTERRUPTIBLE),
     rt_priority = (\<lambda>_. 0), pending = (\<lambda>_. False), async_sig = SIGIO, srq_pended = True,
     need_resched = False, fasyncs = [], freed = [], use_count = 2\<rparr>"

lemma demo_fields [simp]:
  "fifo demo = (\<lambda>i. if i < 2 then some_fifo else some_fifo\<lparr>opncnt := 0\<rparr>)" "tq_in demo = 0" "tq_out demo = 0"
  "pa_in demo = 1" "pa_out demo = 0" "pa_fifo demo = (\<lambda>_. 0)" "current demo = 2" "freed demo = []"
  "pstate demo = (\<lambda>_. TASK_INTERRUPTIBLE)" "lx_priority demo = (\<lambda>_. 0)" "rt_priority demo = (\<lambda>_. 0)"
  "f_sems demo = (\<lambda>_. \<lparr>free = 1, fqtype = 0\<rparr>)(SndSem 1 := \<lparr>free = 0, fqtype = 0\<rparr>)"
  by (simp_all add: demo_def)

lemma demo_valid: "VALID_FIFO 0 demo = 0" "VALID_FIFO 1 demo = 0"
  by (simp_all add: VALID_FIFO_def some_fifo_def)

lemma demo_buffer: "rb_ok (f_buf some_fifo)" "contents (f_buf some_fifo) = [7]" "rb_size (f_buf some_fifo) = 4"
  "lbyte (f_buf some_fifo) = 1" "malloc_type some_fifo = CHR ''k''" "pollq some_fifo = [4]"
  by (simp_all add: some_fifo_def rb_ok_def contents_def)

lemma demo_free: "x \<noteq> SndSem 1 \<Longrightarrow> fsem_ok demo x []"
  by (simp add: fsem_ok_def fqueue_def ring_def) (simp add: demo_def)

lemma demo_taken: "fsem_ok demo (SndSem 1) [3]"
  by (simp add: fsem_ok_def fqueue_def ring_def) (simp add: demo_def)

lemma demo_ok: "fifo_ok demo 0"
  by (simp add: fifo_ok_def demo_valid demo_buffer demo_free)

lemma demo_contents: "fcontents demo 0 = [7]"
  by (simp add: fcontents_def demo_buffer)

theorem rtf_put_get_witness:
  "\<exists>s1 s2. rtf_put 0 [1, 2] demo = Some (2, s1) \<and> rtf_get 0 3 s1 = Some ([7, 1, 2], 3, s2) \<and> fcontents s2 0 = []"
  using rtf_put_get [OF demo_ok, of "[1, 2]"] by (simp add: demo_contents demo_buffer numeral_eq_Suc)


theorem f_sem_wait_blocks_witness:
  "\<exists>s' k. f_sem_wait (SndSem 1) demo = Switch s' k \<and> fsem_ok s' (SndSem 1) [3, 2]"
proof -
  have "behind demo (current demo) [3] = [3, 2]" by (simp add: behind_def insert_after_while_def)
  then show ?thesis using f_sem_wait_blocks [OF demo_taken] by auto
qed

theorem f_mbx_send_loses_witness:
  "\<exists>s' k. f_mbx_send 3 1 [1, 2] demo = Switch s' k
    \<and> (\<forall>t. pending t 2 \<longrightarrow> \<not> lx_blocked t 2 \<longrightarrow> k t = Ret [1, 2] t)"
  using f_mbx_send_loses [OF demo_taken, of 3 "[1, 2]"] by simp

theorem rtf_resize_ok_witness:
  "\<exists>s'. rtf_resize 0 6 (Some [0, 0, 0, 0, 0, 0]) demo = Some (6, s') \<and> fcontents s' 0 = [7]
    \<and> rb_size (f_buf (fifo s' 0)) = 6 \<and> freed s' = ''k'' \<and> rb_ok (f_buf (fifo s' 0))"
  using rtf_resize_ok [OF demo_valid(1), of 6 "[0, 0, 0, 0, 0, 0]"] by (auto simp: demo_buffer demo_contents)

theorem rtf_sysrq_handler_ok_witness:
  "\<exists>s'. rtf_sysrq_handler demo = Some s' \<and> pa_out s' = 1 \<and> need_resched s'
    \<and> pstate s' = (\<lambda>t. if t = 4 then TASK_RUNNING else TASK_INTERRUPTIBLE)"
proof -
  have n: "notified demo = {0}" by (auto simp: notified_def)
  have "queued demo \<union> polling demo = {4}" by (simp add: polling_def n demo_buffer) (simp add: queued_def)
  then show ?thesis using rtf_sysrq_handler_ok [of demo] by (auto simp: fun_eq_iff)
qed

theorem rtf_create_named_lookup_witness:
  "\<exists>s'. rtf_create_named ''LOG'' (Some (replicate 1000 0)) (demo\<lparr>fifo := (\<lambda>_. some_fifo\<lparr>opncnt := 0, fname := []\<rparr>)\<rparr>) = Some (0, s')
    \<and> rtf_getfifobyname ''LOG'' s' = 0"
proof -
  let ?s = "demo\<lparr>fifo := (\<lambda>_. some_fifo\<lparr>opncnt := 0, fname := []\<rparr>)\<rparr>"
  obtain s' where "rtf_create_named ''LOG'' (Some (replicate 1000 0)) ?s = Some (0, s')"
    by (simp add: rtf_create_named_def rtf_create_def same_name_def numeral_eq_Suc)
  then show ?thesis using rtf_create_named_lookup [of "''LOG''" "Some (replicate 1000 0)" ?s 0 s'] by blast
qed

end
