(* ===== verification/Mem_Mgr.thy ===== *)
theory Mem_Mgr
  imports Rtai_Prelude
begin

text \<open>
  The real time memory manager \<^verbatim>\<open>rt_mem_mgr/rt_mem_mgr.c\<close>: chunks of \<^verbatim>\<open>granularity\<close> bytes obtained
  from Linux, each with a list of free blocks in the order of their addresses, first fit
  allocation, and coalescing of adjacent free blocks.

  The headers \<^verbatim>\<open>struct chkhdr\<close> and \<^verbatim>\<open>struct blkhdr\<close> live in memory: their fields are functions from
  addresses, so that headers may overlap as they may in C.  NULL is the address 0.  Both headers
  have 16 bytes on the 32-bit target.  Sizes are natural numbers; the rounding of a request is
  done modulo \<^verbatim>\<open>2^32\<close>, as on \<^verbatim>\<open>unsigned int\<close>, and the counters of the module are 32-bit words.
\<close>

type_synonym addr = nat

abbreviation HDR :: nat where "HDR \<equiv> 16"
abbreviation OVERHEAD :: nat where "OVERHEAD \<equiv> 32"
abbreviation MINSIZE :: nat where "MINSIZE \<equiv> 16"

record heap =
  chk_addr :: "addr \<Rightarrow> addr"
  next_chk :: "addr \<Rightarrow> addr"
  chk_limit :: "addr \<Rightarrow> nat"
  free_list :: "addr \<Rightarrow> addr"
  blk_chk :: "addr \<Rightarrow> addr"
  next_free :: "addr \<Rightarrow> addr"
  free_size :: "addr \<Rightarrow> nat"
  chk_list :: addr
  granularity :: nat
  low_chk_ref :: nat
  low_data_mark :: "32 word"
  extra_chks :: int
  max_allocated :: "32 word"
  total_available :: "32 word"
  sys_malloc_calls :: "32 word"
  sys_free_calls :: "32 word"
  memory_leak :: "32 word"
  memory_overhead :: "32 word"
  rt_mem_mgr_init :: bool
  alloc_no_chk :: int
  free_no_chk :: int
  mm_pends :: "bool list"
  released :: "addr list"

text \<open>\<open>mm_pends\<close> lists the service requests made of Linux, \<open>True\<close> for a chunk more and \<open>False\<close> for a
  chunk less; \<open>released\<close> the chunks given back with \<^verbatim>\<open>free_chunk\<close>.\<close>

section \<open>Allocation\<close>

text \<open>\<^verbatim>\<open>(size + (MINSIZE - 1)) & ~(MINSIZE - 1)\<close> on 32 bits\<close>

definition round_size :: "nat \<Rightarrow> nat" where
  "round_size n = ((n + (MINSIZE - 1)) mod 2 ^ 32) div MINSIZE * MINSIZE"

text \<open>The block \<open>cur\<close> is large enough: what is left of it becomes a free block if there is room for one.\<close>

definition take_block :: "nat \<Rightarrow> addr \<Rightarrow> addr \<Rightarrow> addr \<Rightarrow> heap \<Rightarrow> heap" where
  "take_block n chk prev cur h =
     (let (next, h1) =
        (if free_size h cur - n \<ge> HDR + MINSIZE then
           let nb = cur + HDR + n in
           (nb, h\<lparr>blk_chk := (blk_chk h)(nb := chk_addr h chk),
                  next_free := (next_free h)(nb := next_free h cur),
                  free_size := (free_size h)(nb := free_size h cur - (n + HDR)),
                  memory_overhead := memory_overhead h + of_nat HDR\<rparr>)
         else (next_free h cur, h));
        h2 = (if prev = 0 then h1\<lparr>free_list := (free_list h1)(chk := next)\<rparr>
              else h1\<lparr>next_free := (next_free h1)(prev := next)\<rparr>) in
      h2\<lparr>next_free := (next_free h2)(cur := cur), free_size := (free_size h2)(cur := n)\<rparr>)"

definition count_block :: "nat \<Rightarrow> heap \<Rightarrow> heap" where
  "count_block n h =
     (let leak = memory_leak h + of_nat n in
      h\<lparr>memory_leak := leak, max_allocated := (if leak > max_allocated h then leak else max_allocated h)\<rparr>)"

partial_function (option) alloc_walk :: "nat \<Rightarrow> addr \<Rightarrow> addr \<Rightarrow> addr \<Rightarrow> heap \<Rightarrow> (addr \<times> heap) option" where
  "alloc_walk n chk prev cur h =
     (if cur = 0 then Some (0, h)
      else if free_size h cur \<ge> n then Some (cur + HDR, count_block n (take_block n chk prev cur h))
      else alloc_walk n chk cur (next_free h cur) h)"

declare alloc_walk.simps [code]

definition alloc_in_chk :: "nat \<Rightarrow> addr \<Rightarrow> heap \<Rightarrow> (addr \<times> heap) option" where
  "alloc_in_chk n chk h = alloc_walk n chk 0 (free_list h chk) h"

text \<open>The search of all chunks.\<close>

partial_function (option) malloc_walk :: "nat \<Rightarrow> addr \<Rightarrow> heap \<Rightarrow> (addr \<times> heap) option" where
  "malloc_walk n chk h =
     (if chk = 0 then Some (0, h)
      else if free_list h chk \<noteq> 0 then do {
        (p, h1) \<leftarrow> alloc_in_chk n chk h;
        if p \<noteq> 0 then Some (p, h1) else malloc_walk n (next_chk h1 chk) h1
      }
      else malloc_walk n (next_chk h chk) h)"

declare malloc_walk.simps [code]

definition request_chunk :: "heap \<Rightarrow> heap" where
  "request_chunk h =
     (if total_available h - (memory_leak h + memory_overhead h) \<le> low_data_mark h \<and> alloc_no_chk h = 0
      then h\<lparr>alloc_no_chk := alloc_no_chk h + 1, mm_pends := mm_pends h @ [True]\<rparr> else h)"

definition rt_malloc :: "nat \<Rightarrow> heap \<Rightarrow> (addr \<times> heap) option" where
  "rt_malloc request h =
     (let n = round_size request in
      if n > granularity h - OVERHEAD then Some (0, h)
      else do { (p, h1) \<leftarrow> malloc_walk n (chk_list h) h; Some (p, request_chunk h1) })"

section \<open>Release\<close>

definition valid_block :: "addr \<Rightarrow> heap \<Rightarrow> bool" where
  "valid_block b h \<longleftrightarrow> blk_chk h b = chk_addr h (blk_chk h b) \<and> next_free h b = b \<and> free_size h b \<noteq> 0
     \<and> free_size h b \<le> granularity h - OVERHEAD \<and> free_size h b mod MINSIZE = 0"

partial_function (option) find_prev :: "addr \<Rightarrow> addr \<Rightarrow> addr \<Rightarrow> heap \<Rightarrow> addr option" where
  "find_prev adr prev cur h =
     (if cur \<noteq> 0 \<and> cur + HDR < adr then find_prev adr cur (next_free h cur) h else Some prev)"

declare find_prev.simps [code]

text \<open>The block is merged with the free block in front of it, or linked behind it, or made the first
  one; the result is the free block it is now part of.\<close>

definition link_free :: "addr \<Rightarrow> addr \<Rightarrow> addr \<Rightarrow> heap \<Rightarrow> addr \<times> heap" where
  "link_free chk prev b h =
     (if prev \<noteq> 0 \<and> prev + HDR + free_size h prev = b then
        (prev, h\<lparr>free_size := (free_size h)(prev := free_size h prev + (free_size h b + HDR)),
                 memory_overhead := memory_overhead h - of_nat HDR\<rparr>)
      else if prev \<noteq> 0 then
        let nf = (next_free h)(b := next_free h prev) in (b, h\<lparr>next_free := nf(prev := b)\<rparr>)
      else (b, h\<lparr>next_free := (next_free h)(b := free_list h chk), free_list := (free_list h)(chk := b)\<rparr>))"

definition merge_next :: "addr \<Rightarrow> heap \<Rightarrow> heap" where
  "merge_next b h =
     (if b + HDR + free_size h b = next_free h b then
        h\<lparr>memory_overhead := memory_overhead h - of_nat HDR,
          free_size := (free_size h)(b := free_size h b + (free_size h (next_free h b) + HDR)),
          next_free := (next_free h)(b := next_free h (next_free h b))\<rparr>
      else h)"

definition offer_chunk :: "heap \<Rightarrow> heap" where
  "offer_chunk h =
     (if total_available h - (of_nat (granularity h) + memory_leak h + memory_overhead h) \<ge> low_data_mark h
         \<and> free_no_chk h = 0
      then h\<lparr>free_no_chk := 1, mm_pends := mm_pends h @ [False]\<rparr> else h)"

definition rt_free :: "addr \<Rightarrow> heap \<Rightarrow> heap option" where
  "rt_free adr h =
     (let b = adr - HDR; chk = blk_chk h b in
      if \<not> valid_block b h then Some h
      else do {
        prev \<leftarrow> find_prev adr 0 (free_list h chk) h;
        let (f, h1) = link_free chk prev b (h\<lparr>memory_leak := memory_leak h - of_nat (free_size h b)\<rparr>);
        Some (offer_chunk (merge_next f h1))
      })"

section \<open>Chunks more and less\<close>

text \<open>A chunk just obtained from Linux: one free block.\<close>

definition init_chunk :: "addr \<Rightarrow> heap \<Rightarrow> heap" where
  "init_chunk c h =
     h\<lparr>chk_addr := (chk_addr h)(c := c), chk_limit := (chk_limit h)(c := granularity h),
       next_chk := (next_chk h)(c := 0), free_list := (free_list h)(c := c + HDR),
       next_free := (next_free h)(c + HDR := 0), blk_chk := (blk_chk h)(c + HDR := c),
       free_size := (free_size h)(c + HDR := granularity h - OVERHEAD)\<rparr>"

partial_function (option) last_chunk :: "addr \<Rightarrow> heap \<Rightarrow> addr option" where
  "last_chunk c h = (if next_chk h c \<noteq> 0 then last_chunk (next_chk h c) h else Some c)"

declare last_chunk.simps [code]

definition append_chunk :: "addr \<Rightarrow> heap \<Rightarrow> heap option" where
  "append_chunk c h =
     (if chk_list h = 0 then Some (h\<lparr>chk_list := c\<rparr>)
      else do { l \<leftarrow> last_chunk (chk_list h) h; Some (h\<lparr>next_chk := (next_chk h)(l := c)\<rparr>) })"

definition count_chunk :: "heap \<Rightarrow> heap" where
  "count_chunk h = h\<lparr>sys_malloc_calls := sys_malloc_calls h + 1,
     total_available := total_available h + of_nat (granularity h),
     memory_overhead := memory_overhead h + of_nat OVERHEAD\<rparr>"

text \<open>\<open>c\<close> is what \<^verbatim>\<open>alloc_chunk(granularity)\<close> returns.\<close>

definition rt_alloc_sysrq_handler :: "addr \<Rightarrow> heap \<Rightarrow> heap option" where
  "rt_alloc_sysrq_handler c h =
     (if c = 0 then Some h
      else do {
        h1 \<leftarrow> append_chunk c (count_chunk (init_chunk c h));
        Some (h1\<lparr>alloc_no_chk := 0, extra_chks := extra_chks h1 + 1\<rparr>)
      })"

text \<open>The first chunk that is one free block, with the chunk in front of it.\<close>

partial_function (option) find_free_chunk :: "addr \<Rightarrow> addr \<Rightarrow> heap \<Rightarrow> (addr \<times> addr) option" where
  "find_free_chunk prev c h =
     (if c = 0 then Some (prev, 0)
      else if free_list h c \<noteq> 0 \<and> free_size h (free_list h c) = chk_limit h c - OVERHEAD then Some (prev, c)
      else find_free_chunk c (next_chk h c) h)"

declare find_free_chunk.simps [code]

definition discount_chunk :: "addr \<Rightarrow> heap \<Rightarrow> heap" where
  "discount_chunk c h = h\<lparr>sys_free_calls := sys_free_calls h + 1,
     total_available := total_available h - of_nat (granularity h),
     memory_overhead := memory_overhead h - of_nat OVERHEAD, released := released h @ [c]\<rparr>"

definition rt_free_sysrq_handler :: "heap \<Rightarrow> heap option" where
  "rt_free_sysrq_handler h =
     (if extra_chks h > 0 then do {
        (prev, c) \<leftarrow> find_free_chunk 0 (chk_list h) h;
        Some (if c = 0 then h\<lparr>free_no_chk := 0\<rparr>
              else
                let h1 = (if prev = 0 then h\<lparr>chk_list := next_chk h c\<rparr>
                          else h\<lparr>next_chk := (next_chk h)(prev := next_chk h c)\<rparr>) in
                discount_chunk c (h1\<lparr>extra_chks := extra_chks h1 - 1, free_no_chk := 0\<rparr>))
      }
      else Some (h\<lparr>free_no_chk := 0\<rparr>))"

section \<open>Loading and unloading\<close>

text \<open>\<open>cs\<close> is what the calls of \<^verbatim>\<open>alloc_chunk\<close> return, \<open>asrq\<close> and \<open>fsrq\<close> the service requests obtained.\<close>

primrec init_loop :: "addr list \<Rightarrow> heap \<Rightarrow> (int \<times> heap) option" where
  "init_loop [] h = Some (0, h)"
| "init_loop (c # cs) h =
     (if c = 0 then Some (- 12, h)
      else do { h1 \<leftarrow> append_chunk c (init_chunk c (count_chunk h)); init_loop cs h1 })"

definition rt_mem_init :: "int \<Rightarrow> int \<Rightarrow> (nat \<Rightarrow> addr) \<Rightarrow> heap \<Rightarrow> (int \<times> heap) option" where
  "rt_mem_init asrq fsrq chunk_at h =
     (if rt_mem_mgr_init h then Some (0, h)
      else if asrq < 0 then Some (asrq, h)
      else
        let h1 = h\<lparr>alloc_no_chk := 0, free_no_chk := 0, extra_chks := 0\<rparr> in
        if fsrq < 0 then Some (fsrq, h1)
        else do {
          (r, h2) \<leftarrow> init_loop (map chunk_at [0..<low_chk_ref h1]) h1;
          Some (if r \<noteq> 0 then (r, h2) else (0, h2\<lparr>rt_mem_mgr_init := True\<rparr>))
        })"

partial_function (option) end_loop :: "addr \<Rightarrow> heap \<Rightarrow> heap option" where
  "end_loop c h =
     (if c = 0 then Some h else end_loop (next_chk h c) (discount_chunk (chk_addr h c) h))"

declare end_loop.simps [code]

definition rt_mem_end :: "heap \<Rightarrow> heap option" where
  "rt_mem_end h = end_loop (chk_list h) h"

end
