(* ===== verification/Mem_Props.thy ===== *)
theory Mem_Props
  imports Mem_Mgr
begin

text \<open>
  What the memory manager guarantees: the blocks of a chunk, free and allocated, never overlap; the
  free list holds the free blocks in the order of their addresses; an allocated block is as large as
  asked for, and releasing it gives its bytes back; a chunk returned to Linux holds no allocated
  block.
\<close>

section \<open>Lists that end with a NULL pointer\<close>

primrec path :: "(addr \<Rightarrow> addr) \<Rightarrow> addr \<Rightarrow> addr list \<Rightarrow> addr \<Rightarrow> bool" where
  "path nx p [] q \<longleftrightarrow> p = q"
| "path nx p (a # as) q \<longleftrightarrow> p = a \<and> a \<noteq> 0 \<and> path nx (nx a) as q"

lemma path_append: "path nx p (as @ bs) q \<longleftrightarrow> (\<exists>r. path nx p as r \<and> path nx r bs q)"
  by (induction as arbitrary: p) auto

lemma path_upd [simp]: "u \<notin> set as \<Longrightarrow> path (nx(u := v)) p as q = path nx p as q"
  by (induction as arbitrary: p) auto

lemma path_redirect:
  "path nx p as q \<Longrightarrow> distinct as \<Longrightarrow> as \<noteq> [] \<Longrightarrow> path (nx(last as := r)) p as r"
  by (induction as arbitrary: p) auto

lemma path_head: "path nx p as 0 \<Longrightarrow> p = hd (as @ [0])"
  by (cases as) auto

lemma path_cong: "(\<And>a. a \<in> set as \<Longrightarrow> nx' a = nx a) \<Longrightarrow> path nx' p as q = path nx p as q"
  by (induction as arbitrary: p) auto

lemma path_nonzero: "path nx p as q \<Longrightarrow> a \<in> set as \<Longrightarrow> a \<noteq> 0"
  by (induction as arbitrary: p) auto

section \<open>The layout of a chunk\<close>

text \<open>Blocks with their headers lie between \<open>lo\<close> and \<open>hi\<close>, aligned, one behind the other.\<close>

definition layout :: "(addr \<Rightarrow> nat) \<Rightarrow> addr \<Rightarrow> addr \<Rightarrow> addr set \<Rightarrow> bool" where
  "layout sz lo hi B \<longleftrightarrow>
     (\<forall>b \<in> B. lo \<le> b \<and> b + HDR + sz b \<le> hi \<and> MINSIZE dvd sz b)
     \<and> (\<forall>a \<in> B. \<forall>b \<in> B. a < b \<longrightarrow> a + HDR + sz a \<le> b)"

lemma layout_apart: "layout sz lo hi B \<Longrightarrow> a \<in> B \<Longrightarrow> b \<in> B \<Longrightarrow> a < b \<Longrightarrow> a + HDR + sz a \<le> b"
  by (simp add: layout_def)

lemma layout_subset: "layout sz lo hi B \<Longrightarrow> A \<subseteq> B \<Longrightarrow> layout sz lo hi A"
  unfolding layout_def by blast

lemma layout_cong: "(\<And>b. b \<in> B \<Longrightarrow> sz' b = sz b) \<Longrightarrow> layout sz' lo hi B = layout sz lo hi B"
  by (simp add: layout_def)

lemma layout_shrink:
  assumes l: "layout sz lo hi B" and n: "n \<le> sz b" "MINSIZE dvd n"
  shows "layout (sz(b := n)) lo hi B"
proof -
  have "x + HDR + (sz(b := n)) x \<le> x + HDR + sz x" for x using n(1) by simp
  then have "x + HDR + (sz(b := n)) x \<le> y" if "x + HDR + sz x \<le> y" for x y
    using that order_trans by blast
  then show ?thesis using l n unfolding layout_def by simp
qed

lemma layout_split:
  assumes l: "layout sz lo hi B" and b: "b \<in> B" and n: "n + HDR \<le> sz b" "MINSIZE dvd n"
  shows "layout (sz(b + HDR + n := sz b - (n + HDR), b := n)) lo hi (insert (b + HDR + n) B)"
    and "b + HDR + n \<notin> B"
proof -
  let ?nb = "b + HDR + n" and ?sz = "sz(b + HDR + n := sz b - (n + HDR), b := n)"
  have o: "x < b \<Longrightarrow> x + HDR + sz x \<le> b" "b < x \<Longrightarrow> b + HDR + sz b \<le> x" if "x \<in> B" for x
    using layout_apart [OF l] b that by auto
  have p: "lo \<le> x" "x + HDR + sz x \<le> hi" "MINSIZE dvd sz x" if "x \<in> B" for x
    using l that by (simp_all add: layout_def)
  show nb: "?nb \<notin> B" using o(2) [of ?nb] n(1) by auto
  have s: "?sz ?nb = sz b - (n + HDR)" "?sz b = n" "\<And>x. x \<in> B \<Longrightarrow> x \<noteq> b \<Longrightarrow> ?sz x = sz x"
    using nb by auto
  have e: "?nb + HDR + (sz b - (n + HDR)) = b + HDR + sz b" using n(1) by simp
  have 1: "lo \<le> x \<and> x + HDR + ?sz x \<le> hi \<and> MINSIZE dvd ?sz x" if "x \<in> insert ?nb B" for x
  proof (cases "x = ?nb")
    case True
    have "MINSIZE dvd sz b - (n + HDR)" using p(3) [OF b] n(2) by (intro dvd_diff_nat dvd_add) simp_all
    then show ?thesis unfolding True s(1) e using p [OF b] by simp
  next
    case False
    then have x: "x \<in> B" using that by simp
    show ?thesis
    proof (cases "x = b")
      case True
      then show ?thesis using s(2) p(1) [OF b] p(2) [OF b] n by simp
    next
      case False
      then show ?thesis using s(3) [OF x] p [OF x] by simp
    qed
  qed
  have 2: "x + HDR + ?sz x \<le> y" if "x \<in> insert ?nb B" "y \<in> insert ?nb B" "x < y" for x y
  proof (cases "x = ?nb")
    case True
    then have y: "y \<in> B" "b < y" using that by auto
    show ?thesis unfolding True s(1) e using o(2) [OF y] .
  next
    case x: False
    then have xB: "x \<in> B" using that by simp
    show ?thesis
    proof (cases "y = ?nb")
      case True
      show ?thesis
      proof (cases "x = b")
        case True
        then show ?thesis using \<open>y = ?nb\<close> s(2) by simp
      next
        case False
        then have "x < b" using o(2) [OF xB] that(3) True n(1) by (cases "b < x") auto
        then show ?thesis using o(1) [OF xB] s(3) [OF xB False] True by simp
      qed
    next
      case False
      then have yB: "y \<in> B" using that by simp
      have "x + HDR + sz x \<le> y" using layout_apart [OF l xB yB that(3)] .
      then show ?thesis using s(2) s(3) [OF xB] n(1) by (cases "x = b") auto
    qed
  qed
  show "layout ?sz lo hi (insert ?nb B)" using 1 2 unfolding layout_def by blast
qed

lemma layout_merge:
  assumes l: "layout sz lo hi B" and a: "a \<in> B" "b \<in> B" and ab: "a + HDR + sz a = b"
  shows "layout (sz(a := sz a + (sz b + HDR))) lo hi (B - {b})"
proof -
  let ?sz = "sz(a := sz a + (sz b + HDR))"
  have p: "lo \<le> x" "x + HDR + sz x \<le> hi" "MINSIZE dvd sz x" if "x \<in> B" for x
    using l that by (simp_all add: layout_def)
  have e: "a + HDR + (sz a + (sz b + HDR)) = b + HDR + sz b" using ab by simp
  have 1: "lo \<le> x \<and> x + HDR + ?sz x \<le> hi \<and> MINSIZE dvd ?sz x" if "x \<in> B - {b}" for x
  proof (cases "x = a")
    case True
    have "MINSIZE dvd sz a + (sz b + HDR)" using p(3) [OF a(1)] p(3) [OF a(2)] by (intro dvd_add) simp_all
    then show ?thesis using True p(1) [OF a(1)] p(2) [OF a(2)] e by simp
  next
    case False
    then show ?thesis using that p [of x] by simp
  qed
  have 2: "x + HDR + ?sz x \<le> y" if "x \<in> B - {b}" "y \<in> B - {b}" "x < y" for x y
  proof (cases "x = a")
    case True
    have "b < y" using layout_apart [OF l a(1), of y] that True ab by (cases "y = b") auto
    then have "b + HDR + sz b \<le> y" using layout_apart [OF l a(2)] that by simp
    then show ?thesis using True e by simp
  next
    case False
    then show ?thesis using layout_apart [OF l, of x y] that by simp
  qed
  show ?thesis using 1 2 unfolding layout_def by blast
qed

section \<open>The invariant of a chunk\<close>

definition chunk_ok :: "heap \<Rightarrow> addr \<Rightarrow> addr list \<Rightarrow> addr set \<Rightarrow> bool" where
  "chunk_ok h c fl us \<longleftrightarrow> c \<noteq> 0 \<and> chk_addr h c = c \<and> path (next_free h) (free_list h c) fl 0
     \<and> sorted_wrt (<) fl \<and> (\<forall>u \<in> us. next_free h u = u) \<and> set fl \<inter> us = {}
     \<and> layout (free_size h) (c + HDR) (c + chk_limit h c) (set fl \<union> us)
     \<and> (\<forall>b \<in> set fl \<union> us. blk_chk h b = c)"

lemma chunk_okI:
  "c \<noteq> 0 \<Longrightarrow> chk_addr h c = c \<Longrightarrow> path (next_free h) (free_list h c) fl 0 \<Longrightarrow> sorted_wrt (<) fl \<Longrightarrow>
   (\<And>u. u \<in> us \<Longrightarrow> next_free h u = u) \<Longrightarrow> set fl \<inter> us = {} \<Longrightarrow>
   layout (free_size h) (c + HDR) (c + chk_limit h c) (set fl \<union> us) \<Longrightarrow>
   (\<And>b. b \<in> set fl \<union> us \<Longrightarrow> blk_chk h b = c) \<Longrightarrow> chunk_ok h c fl us"
  by (simp add: chunk_ok_def)

text \<open>What an operation on chunk \<open>c\<close> leaves alone.\<close>

definition only_chunk :: "addr \<Rightarrow> heap \<Rightarrow> heap \<Rightarrow> bool" where
  "only_chunk c h h' \<longleftrightarrow> chk_addr h' = chk_addr h \<and> next_chk h' = next_chk h \<and> chk_limit h' = chk_limit h
     \<and> chk_list h' = chk_list h \<and> granularity h' = granularity h \<and> (\<forall>d. d \<noteq> c \<longrightarrow> free_list h' d = free_list h d)
     \<and> (\<forall>x. \<not> (c \<le> x \<and> x < c + chk_limit h c) \<longrightarrow>
          next_free h' x = next_free h x \<and> free_size h' x = free_size h x \<and> blk_chk h' x = blk_chk h x)"

lemma only_chunk_refl: "only_chunk c h h"
  by (simp add: only_chunk_def)

lemma only_chunk_trans: "only_chunk c h h1 \<Longrightarrow> only_chunk c h1 h2 \<Longrightarrow> only_chunk c h h2"
  by (simp add: only_chunk_def)

lemma chunk_ok_range:
  "chunk_ok h c fl us \<Longrightarrow> b \<in> set fl \<union> us \<Longrightarrow> c + HDR \<le> b \<and> b + HDR + free_size h b \<le> c + chk_limit h c"
  by (simp add: chunk_ok_def layout_def)

lemma chunk_ok_other:
  assumes o: "only_chunk c h h'" and ok: "chunk_ok h d fl us"
    and apart: "c + chk_limit h c \<le> d \<or> d + chk_limit h d \<le> c" "0 < chk_limit h d" "0 < chk_limit h c"
  shows "chunk_ok h' d fl us"
proof -
  have dc: "d \<noteq> c" using apart by auto
  have "\<not> (c \<le> x \<and> x < c + chk_limit h c)" if "x \<in> set fl \<union> us" for x
    using chunk_ok_range [OF ok that] apart by auto
  then have f: "next_free h' x = next_free h x" "free_size h' x = free_size h x" "blk_chk h' x = blk_chk h x"
    if "x \<in> set fl \<union> us" for x using o that by (simp_all add: only_chunk_def)
  have s: "chk_addr h' = chk_addr h" "chk_limit h' = chk_limit h" "free_list h' d = free_list h d"
    using o dc by (simp_all add: only_chunk_def)
  have "path (next_free h') p fl 0 = path (next_free h) p fl 0" for p by (rule path_cong) (simp add: f)
  moreover have "layout (free_size h') lo hi (set fl \<union> us) = layout (free_size h) lo hi (set fl \<union> us)" for lo hi
    by (rule layout_cong) (simp add: f)
  ultimately show ?thesis using ok f s unfolding chunk_ok_def by auto
qed

section \<open>Allocating in a chunk\<close>

lemma path_relink:
  assumes "path nx p as q" "distinct as" "path nx r rest 0" "set rest \<inter> set as = {}"
  shows "path (if last (0 # as) = 0 then nx else nx(last (0 # as) := r))
           (if last (0 # as) = 0 then r else p) (as @ rest) 0"
proof (cases "as = []")
  case True
  then show ?thesis using assms(3) by simp
next
  case False
  then have l: "last (0 # as) = last as" "last as \<in> set as" by simp_all
  then have "last as \<noteq> 0" using path_nonzero [OF assms(1)] by blast
  moreover have "path (nx(last as := r)) p as r" using path_redirect [OF assms(1,2) False] .
  moreover have "last as \<notin> set rest" using l(2) assms(4) by blast
  ultimately show ?thesis unfolding l(1) using assms(3) by (auto simp: path_append)
qed

lemma alloc_walk_eq:
  "path (next_free h) cur bs 0 \<Longrightarrow> alloc_walk n chk prev cur h =
     (case dropWhile (\<lambda>b. free_size h b < n) bs of
        [] \<Rightarrow> Some (0, h)
      | b # _ \<Rightarrow> Some (b + HDR, count_block n
          (take_block n chk (last (prev # takeWhile (\<lambda>b. free_size h b < n) bs)) b h)))"
proof (induction bs arbitrary: prev cur)
  case Nil
  then show ?case by (subst alloc_walk.simps) simp
next
  case (Cons b bs)
  then have b: "cur = b" "b \<noteq> 0" "path (next_free h) (next_free h b) bs 0" by simp_all
  show ?case
  proof (cases "free_size h b < n")
    case True
    then have e: "dropWhile (\<lambda>b. free_size h b < n) (b # bs) = dropWhile (\<lambda>b. free_size h b < n) bs"
      "last (prev # takeWhile (\<lambda>b. free_size h b < n) (b # bs)) = last (b # takeWhile (\<lambda>b. free_size h b < n) bs)"
      by simp_all
    have "alloc_walk n chk prev cur h = alloc_walk n chk b (next_free h b) h"
      using True b by (subst alloc_walk.simps) simp
    then show ?thesis unfolding e using Cons.IH [OF b(3), of b] by (rule trans)
  next
    case False
    then show ?thesis using b by (subst alloc_walk.simps) simp
  qed
qed

lemma count_block_simps [simp]:
  "next_free (count_block n h) = next_free h" "free_size (count_block n h) = free_size h"
  "blk_chk (count_block n h) = blk_chk h" "free_list (count_block n h) = free_list h"
  "chunk_ok (count_block n h) c fl us = chunk_ok h c fl us"
  "only_chunk c h (count_block n h') = only_chunk c h h'"
  "memory_leak (count_block n h) = memory_leak h + of_nat n"
  by (simp_all add: count_block_def Let_def chunk_ok_def only_chunk_def)

text \<open>The free list after a block has been taken from between \<open>as\<close> and \<open>bs\<close>.\<close>

definition rest_of :: "nat \<Rightarrow> addr \<Rightarrow> heap \<Rightarrow> addr list" where
  "rest_of n b h = (if free_size h b - n \<ge> HDR + MINSIZE then [b + HDR + n] else [])"

text \<open>A chunk with the free block \<open>b\<close>, and the free block in front of it.\<close>

lemma chunk_atD:
  assumes ok: "chunk_ok h c (as @ b # bs) us"
  shows "c \<noteq> 0" "chk_addr h c = c" "path (next_free h) (free_list h c) (as @ b # bs) 0"
    "sorted_wrt (<) (as @ b # bs)" "\<forall>u \<in> us. next_free h u = u" "set (as @ b # bs) \<inter> us = {}"
    "layout (free_size h) (c + HDR) (c + chk_limit h c) (set (as @ b # bs) \<union> us)" "\<forall>x \<in> set (as @ b # bs) \<union> us. blk_chk h x = c"
    "distinct (as @ b # bs)" "path (next_free h) (free_list h c) as b" "path (next_free h) (next_free h b) bs 0"
    "last (0 # as) = 0 \<longleftrightarrow> as = []" "c + HDR \<le> b" "b + HDR + free_size h b \<le> c + chk_limit h c" "b \<noteq> last (0 # as)"
    "as \<noteq> [] \<Longrightarrow> c + HDR \<le> last (0 # as) \<and> last (0 # as) + HDR \<le> c + chk_limit h c" "b \<notin> set as" "b \<notin> set bs" "b \<notin> us"
    "as \<noteq> [] \<Longrightarrow> last (0 # as) \<notin> us" "as \<noteq> [] \<Longrightarrow> last (0 # as) \<in> set as"
proof -
  show k: "c \<noteq> 0" "chk_addr h c = c" "path (next_free h) (free_list h c) (as @ b # bs) 0"
    "sorted_wrt (<) (as @ b # bs)" "\<forall>u \<in> us. next_free h u = u" "set (as @ b # bs) \<inter> us = {}"
    "layout (free_size h) (c + HDR) (c + chk_limit h c) (set (as @ b # bs) \<union> us)" "\<forall>x \<in> set (as @ b # bs) \<union> us. blk_chk h x = c"
    using ok by (simp_all add: chunk_ok_def)
  show d: "distinct (as @ b # bs)" using k(4) by (auto simp: strict_sorted_iff)
  show p: "path (next_free h) (free_list h c) as b" "path (next_free h) (next_free h b) bs 0"
    using k(3) by (auto simp: path_append)
  show pv: "as \<noteq> [] \<Longrightarrow> last (0 # as) \<in> set as" by simp
  show "last (0 # as) = 0 \<longleftrightarrow> as = []" using path_nonzero [OF p(1)] pv by (cases "as = []") auto
  have in_range: "x \<in> set (as @ b # bs) \<union> us \<Longrightarrow> c + HDR \<le> x \<and> x + HDR + free_size h x \<le> c + chk_limit h c" for x
    using k(7) unfolding layout_def by blast
  show "c + HDR \<le> b" "b + HDR + free_size h b \<le> c + chk_limit h c" using in_range [of b] by simp_all
  show "b \<noteq> last (0 # as)" using d pv path_nonzero [OF k(3), of b] by (cases "as = []") auto
  show "c + HDR \<le> last (0 # as) \<and> last (0 # as) + HDR \<le> c + chk_limit h c" if "as \<noteq> []"
    using in_range [of "last (0 # as)"] pv [OF that] by simp
  show "b \<notin> set as" "b \<notin> set bs" "b \<notin> us" using d k(6) by auto
  show "last (0 # as) \<notin> us" if "as \<noteq> []" using pv [OF that] k(6) by auto
qed

text \<open>The block is split, and its rest takes its place in the list.\<close>

lemma take_block_splits:
  assumes ok: "chunk_ok h c (as @ b # bs) us" and n: "n \<le> free_size h b" "MINSIZE dvd n"
    and True: "free_size h b - n \<ge> HDR + MINSIZE"
  shows "chunk_ok (take_block n c (last (0 # as)) b h) c (as @ rest_of n b h @ bs) (insert b us)
     \<and> free_size (take_block n c (last (0 # as)) b h) b = n \<and> only_chunk c h (take_block n c (last (0 # as)) b h)
     \<and> (\<forall>x \<in> set as \<union> set bs \<union> us. free_size (take_block n c (last (0 # as)) b h) x = free_size h x)"
proof -
  let ?B = "set (as @ b # bs) \<union> us" and ?lo = "c + HDR" and ?hi = "c + chk_limit h c"
  let ?pv = "last (0 # as)" and ?nb = "b + HDR + n"
  note k = chunk_atD(1-8) [OF ok] and d = chunk_atD(9) [OF ok] and p = chunk_atD(10,11) [OF ok] and pv0 = chunk_atD(12) [OF ok]
    and b = chunk_atD(13,14) [OF ok] and bpv = chunk_atD(15) [OF ok] and pvr = chunk_atD(16) [OF ok]
    and bas = chunk_atD(17-19) [OF ok] and pvu = chunk_atD(20) [OF ok] and pv = chunk_atD(21) [OF ok]
  have bB: "b \<in> ?B" by simp
  let ?sz = "(free_size h)(?nb := free_size h b - (n + HDR), b := n)"
  let ?nx = "(next_free h)(?nb := next_free h b, b := b)"
  let ?h = "take_block n c ?pv b h"
  have s: "layout ?sz ?lo ?hi (insert ?nb ?B)" "?nb \<notin> ?B"
    using layout_split [OF k(7) bB, of n] True n by simp_all
  have np: "?nb \<noteq> ?pv" using pv s(2) by (cases "as = []") auto
  have f: "free_size ?h = ?sz" "blk_chk ?h = (blk_chk h)(?nb := c)"
    "next_free ?h = (if ?pv = 0 then ?nx else ?nx(?pv := ?nb))"
    "free_list ?h = (if ?pv = 0 then (free_list h)(c := ?nb) else free_list h)"
    "chk_addr ?h = chk_addr h" "next_chk ?h = next_chk h" "chk_limit ?h = chk_limit h"
    "chk_list ?h = chk_list h" "granularity ?h = granularity h"
    using True k(2) bpv by (auto simp: take_block_def Let_def fun_upd_twist)
  have "path ?nx (free_list h c) as b" using p(1) bas s(2) by simp
  moreover have "path ?nx ?nb (?nb # bs) 0" using p(2) bas s(2) by simp
  moreover have "set (?nb # bs) \<inter> set as = {}" "distinct as" using d s(2) by auto
  ultimately have R: "path (if ?pv = 0 then ?nx else ?nx(?pv := ?nb)) (if ?pv = 0 then ?nb else free_list h c) (as @ ?nb # bs) 0"
    by (intro path_relink)
  have "free_list ?h c = (if ?pv = 0 then ?nb else free_list h c)" by (simp add: f del: last.simps)
  then have pa: "path (next_free ?h) (free_list ?h c) (as @ ?nb # bs) 0"
    using R unfolding f(3) by (simp only:)
  have "b < ?nb" by simp
  moreover have "x \<in> set as \<Longrightarrow> x < b" "x \<in> set bs \<Longrightarrow> ?nb < x" for x
  proof -
    show "x \<in> set as \<Longrightarrow> x < b" using k(4) by (auto simp: sorted_wrt_append)
    assume x: "x \<in> set bs"
    then have "b < x" "x \<in> ?B" using k(4) by (auto simp: sorted_wrt_append)
    then have "b + HDR + free_size h b \<le> x" using layout_apart [OF k(7) bB] by blast
    then show "?nb < x" using True by simp
  qed
  ultimately have st: "sorted_wrt (<) (as @ ?nb # bs)" using k(4) by (fastforce simp: sorted_wrt_append)
  have B: "set (as @ ?nb # bs) \<union> insert b us = insert ?nb ?B" by auto
  have us: "next_free ?h u = u" if "u \<in> insert b us" for u
    using that k(5) pvu s(2) bpv np unfolding f by (cases "as = []") auto
  have dj: "set (as @ ?nb # bs) \<inter> insert b us = {}" using k(6) bas s(2) by auto
  have ck: "chunk_ok ?h c (as @ rest_of n b h @ bs) (insert b us)"
    unfolding rest_of_def if_P [OF True] append.simps
  proof (rule chunk_okI [OF k(1) _ pa st us dj])
    show "chk_addr ?h c = c" unfolding f(5) by (rule k(2))
    show "layout (free_size ?h) ?lo (c + chk_limit ?h c) (set (as @ ?nb # bs) \<union> insert b us)"
      unfolding f(1,7) B by (rule s(1))
    show "blk_chk ?h x = c" if "x \<in> set (as @ ?nb # bs) \<union> insert b us" for x
      using that k(8) unfolding f(2) B by auto
  qed
  have "only_chunk c h ?h"
    unfolding only_chunk_def using f b True pvr pv0 n(1) by auto
  moreover have "free_size ?h b = n" "\<forall>x \<in> set as \<union> set bs \<union> us. free_size ?h x = free_size h x"
    unfolding f(1) using s(2) bas by auto
  ultimately show ?thesis using ck by blast
qed

text \<open>The whole block is taken.\<close>

lemma take_block_whole:
  assumes ok: "chunk_ok h c (as @ b # bs) us" and n: "n \<le> free_size h b" "MINSIZE dvd n"
    and False: "\<not> free_size h b - n \<ge> HDR + MINSIZE"
  shows "chunk_ok (take_block n c (last (0 # as)) b h) c (as @ rest_of n b h @ bs) (insert b us)
     \<and> free_size (take_block n c (last (0 # as)) b h) b = n \<and> only_chunk c h (take_block n c (last (0 # as)) b h)
     \<and> (\<forall>x \<in> set as \<union> set bs \<union> us. free_size (take_block n c (last (0 # as)) b h) x = free_size h x)"
proof -
  let ?B = "set (as @ b # bs) \<union> us" and ?lo = "c + HDR" and ?hi = "c + chk_limit h c"
  let ?pv = "last (0 # as)"
  note k = chunk_atD(1-8) [OF ok] and d = chunk_atD(9) [OF ok] and p = chunk_atD(10,11) [OF ok] and pv0 = chunk_atD(12) [OF ok]
    and b = chunk_atD(13,14) [OF ok] and bpv = chunk_atD(15) [OF ok] and pvr = chunk_atD(16) [OF ok]
    and bas = chunk_atD(17-19) [OF ok] and pvu = chunk_atD(20) [OF ok] and pv = chunk_atD(21) [OF ok]
  let ?sz = "(free_size h)(b := n)" and ?nx = "(next_free h)(b := b)"
  let ?h = "take_block n c ?pv b h"
  have s: "layout ?sz ?lo ?hi ?B" using layout_shrink [OF k(7) n] .
  have f: "free_size ?h = ?sz" "blk_chk ?h = blk_chk h"
    "next_free ?h = (if ?pv = 0 then ?nx else ?nx(?pv := next_free h b))"
    "free_list ?h = (if ?pv = 0 then (free_list h)(c := next_free h b) else free_list h)"
    "chk_addr ?h = chk_addr h" "next_chk ?h = next_chk h" "chk_limit ?h = chk_limit h"
    "chk_list ?h = chk_list h" "granularity ?h = granularity h"
    using False bpv by (auto simp: take_block_def Let_def fun_upd_twist)
  have "path ?nx (free_list h c) as b" "path ?nx (next_free h b) bs 0" using p bas by simp_all
  moreover have "set bs \<inter> set as = {}" "distinct as" using d by auto
  ultimately have R: "path (if ?pv = 0 then ?nx else ?nx(?pv := next_free h b)) (if ?pv = 0 then next_free h b else free_list h c) (as @ bs) 0"
    by (intro path_relink)
  have "free_list ?h c = (if ?pv = 0 then next_free h b else free_list h c)" by (simp add: f del: last.simps)
  then have pa: "path (next_free ?h) (free_list ?h c) (as @ bs) 0"
    using R unfolding f(3) by (simp only:)
  have st: "sorted_wrt (<) (as @ bs)" using k(4) by (auto simp: sorted_wrt_append)
  have B: "set (as @ bs) \<union> insert b us = ?B" by auto
  have us: "next_free ?h u = u" if "u \<in> insert b us" for u
    using that k(5) pvu bpv unfolding f by (cases "as = []") auto
  have dj: "set (as @ bs) \<inter> insert b us = {}" using k(6) bas by auto
  have ck: "chunk_ok ?h c (as @ rest_of n b h @ bs) (insert b us)"
    unfolding rest_of_def if_not_P [OF False] append.simps
  proof (rule chunk_okI [OF k(1) _ pa st us dj])
    show "chk_addr ?h c = c" unfolding f(5) by (rule k(2))
    show "layout (free_size ?h) ?lo (c + chk_limit ?h c) (set (as @ bs) \<union> insert b us)"
      unfolding f(1,7) B by (rule s(1))
    show "blk_chk ?h x = c" if "x \<in> set (as @ bs) \<union> insert b us" for x
      using that k(8) unfolding f(2) B by blast
  qed
  have "only_chunk c h ?h"
    unfolding only_chunk_def using f b pvr pv0 by auto
  moreover have "free_size ?h b = n" "\<forall>x \<in> set as \<union> set bs \<union> us. free_size ?h x = free_size h x"
    unfolding f(1) using bas by auto
  ultimately show ?thesis using ck by blast
qed

lemma take_block_ok:
  assumes ok: "chunk_ok h c (as @ b # bs) us" and n: "n \<le> free_size h b" "MINSIZE dvd n"
  shows "chunk_ok (take_block n c (last (0 # as)) b h) c (as @ rest_of n b h @ bs) (insert b us)"
    and "free_size (take_block n c (last (0 # as)) b h) b = n"
    and "only_chunk c h (take_block n c (last (0 # as)) b h)"
    and "x \<in> set as \<union> set bs \<union> us \<Longrightarrow> free_size (take_block n c (last (0 # as)) b h) x = free_size h x"
    and "memory_leak (take_block n c (last (0 # as)) b h) = memory_leak h"
proof -
  have "chunk_ok (take_block n c (last (0 # as)) b h) c (as @ rest_of n b h @ bs) (insert b us)
     \<and> free_size (take_block n c (last (0 # as)) b h) b = n \<and> only_chunk c h (take_block n c (last (0 # as)) b h)
     \<and> (\<forall>x \<in> set as \<union> set bs \<union> us. free_size (take_block n c (last (0 # as)) b h) x = free_size h x)"
    using take_block_splits [OF ok n] take_block_whole [OF ok n] by (cases "free_size h b - n \<ge> HDR + MINSIZE") simp_all
  then show "chunk_ok (take_block n c (last (0 # as)) b h) c (as @ rest_of n b h @ bs) (insert b us)"
    and "free_size (take_block n c (last (0 # as)) b h) b = n"
    and "only_chunk c h (take_block n c (last (0 # as)) b h)"
    and "x \<in> set as \<union> set bs \<union> us \<Longrightarrow> free_size (take_block n c (last (0 # as)) b h) x = free_size h x"
    by blast+
  show "memory_leak (take_block n c (last (0 # as)) b h) = memory_leak h" by (simp add: take_block_def Let_def)
qed

lemma alloc_in_chk_ok:
  assumes ok: "chunk_ok h c fl us" and n: "MINSIZE dvd n"
  shows "(\<forall>b \<in> set fl. free_size h b < n) \<Longrightarrow> alloc_in_chk n c h = Some (0, h)"
    and "\<exists>b \<in> set fl. n \<le> free_size h b \<Longrightarrow> \<exists>b fl' h'. b \<in> set fl \<and> n \<le> free_size h b
      \<and> alloc_in_chk n c h = Some (b + HDR, h') \<and> chunk_ok h' c fl' (insert b us) \<and> only_chunk c h h'
      \<and> free_size h' b = n \<and> (\<forall>u \<in> us. free_size h' u = free_size h u)
      \<and> memory_leak h' = memory_leak h + of_nat n"
proof -
  have p: "path (next_free h) (free_list h c) fl 0" using ok by (simp add: chunk_ok_def)
  note eq = alloc_walk_eq [OF p, of n c 0]
  show "alloc_in_chk n c h = Some (0, h)" if "\<forall>b \<in> set fl. free_size h b < n"
  proof -
    have "dropWhile (\<lambda>b. free_size h b < n) fl = []" using that by simp
    then show ?thesis using eq unfolding alloc_in_chk_def by (simp only: list.case)
  qed
  assume "\<exists>b \<in> set fl. n \<le> free_size h b"
  then have "dropWhile (\<lambda>b. free_size h b < n) fl \<noteq> []" by (auto simp: not_less)
  then obtain b bs where db: "dropWhile (\<lambda>b. free_size h b < n) fl = b # bs" by (cases "dropWhile (\<lambda>b. free_size h b < n) fl") auto
  let ?as = "takeWhile (\<lambda>b. free_size h b < n) fl"
  have fl: "fl = ?as @ b # bs" using takeWhile_dropWhile_id [of "\<lambda>b. free_size h b < n" fl] db by simp
  have nb: "n \<le> free_size h b" using hd_dropWhile [of "\<lambda>b. free_size h b < n" fl] db by simp
  let ?h = "take_block n c (last (0 # ?as)) b h"
  have ok': "chunk_ok h c (?as @ b # bs) us" using ok fl by simp
  note t = take_block_ok [OF ok' nb n]
  have e: "alloc_in_chk n c h = Some (b + HDR, count_block n ?h)"
    using eq unfolding alloc_in_chk_def db by (simp only: list.case)
  have bfl: "b \<in> set fl" by (subst fl) simp
  show "\<exists>b fl' h'. b \<in> set fl \<and> n \<le> free_size h b \<and> alloc_in_chk n c h = Some (b + HDR, h')
      \<and> chunk_ok h' c fl' (insert b us) \<and> only_chunk c h h' \<and> free_size h' b = n
      \<and> (\<forall>u \<in> us. free_size h' u = free_size h u) \<and> memory_leak h' = memory_leak h + of_nat n"
    by (intro exI conjI, rule bfl, rule nb, rule e) (use t in simp_all)
qed

section \<open>The invariant of the manager\<close>

definition mm_ok :: "heap \<Rightarrow> addr list \<Rightarrow> (addr \<Rightarrow> addr list) \<Rightarrow> (addr \<Rightarrow> addr set) \<Rightarrow> bool" where
  "mm_ok h cs fls uss \<longleftrightarrow> path (next_chk h) (chk_list h) cs 0 \<and> distinct cs \<and> OVERHEAD < granularity h
     \<and> (\<forall>c \<in> set cs. chunk_ok h c (fls c) (uss c) \<and> chk_limit h c = granularity h)
     \<and> (\<forall>c \<in> set cs. \<forall>d \<in> set cs. c < d \<longrightarrow> c + granularity h \<le> d)"

text \<open>Two allocated blocks never share a byte, headers included, whatever their chunks.\<close>

lemma mm_ok_disjoint:
  assumes ok: "mm_ok h cs fls uss" and u: "c \<in> set cs" "u \<in> uss c" and v: "d \<in> set cs" "v \<in> uss d" and ne: "u \<noteq> v"
  shows "u + HDR + free_size h u \<le> v \<or> v + HDR + free_size h v \<le> u"
proof -
  have k: "chunk_ok h c (fls c) (uss c)" "chunk_ok h d (fls d) (uss d)" "chk_limit h c = granularity h"
    "chk_limit h d = granularity h" using ok u v by (simp_all add: mm_ok_def)
  show ?thesis
  proof (cases "c = d")
    case True
    have l: "layout (free_size h) (c + HDR) (c + chk_limit h c) (set (fls c) \<union> uss c)"
      using k(1) by (simp add: chunk_ok_def)
    have "u \<in> set (fls c) \<union> uss c" "v \<in> set (fls c) \<union> uss c" using u v True by simp_all
    then show ?thesis using layout_apart [OF l] ne by (metis nat_neq_iff)
  next
    case False
    have r: "c + HDR \<le> u \<and> u + HDR + free_size h u \<le> c + granularity h"
      "d + HDR \<le> v \<and> v + HDR + free_size h v \<le> d + granularity h"
      using chunk_ok_range [OF k(1), of u] chunk_ok_range [OF k(2), of v] u v k(3,4) by simp_all
    have "c + granularity h \<le> d \<or> d + granularity h \<le> c"
      using ok u(1) v(1) False unfolding mm_ok_def by (metis nat_neq_iff)
    then show ?thesis using r by linarith
  qed
qed

lemma mm_ok_chunk:
  assumes ok: "mm_ok h cs fls uss" and c: "c \<in> set cs" and o: "only_chunk c h h'" and ok': "chunk_ok h' c fl us"
  shows "mm_ok h' cs (fls(c := fl)) (uss(c := us))"
proof -
  have s: "next_chk h' = next_chk h" "chk_list h' = chk_list h" "granularity h' = granularity h" "chk_limit h' = chk_limit h"
    using o by (simp_all add: only_chunk_def)
  have g: "0 < granularity h" "chk_limit h c = granularity h" using ok c by (auto simp: mm_ok_def)
  have "chunk_ok h' d (fls d) (uss d)" if d: "d \<in> set cs" "d \<noteq> c" for d
  proof (rule chunk_ok_other [OF o])
    show "chunk_ok h d (fls d) (uss d)" using ok d by (simp add: mm_ok_def)
    have dl: "chk_limit h d = granularity h" using ok d by (simp add: mm_ok_def)
    have "c < d \<or> d < c" using d(2) by auto
    then show "c + chk_limit h c \<le> d \<or> d + chk_limit h d \<le> c"
      using ok c d(1) unfolding g(2) dl mm_ok_def by blast
    show "0 < chk_limit h d" "0 < chk_limit h c" using g dl by simp_all
  qed
  then show ?thesis using ok ok' unfolding mm_ok_def s by simp
qed

lemma only_chunk_others:
  assumes ok: "mm_ok h cs fls uss" and c: "c \<in> set cs" and o: "only_chunk c h h'"
    and d: "d \<in> set cs" "d \<noteq> c" and u: "u \<in> uss d"
  shows "free_size h' u = free_size h u"
proof -
  have "chunk_ok h d (fls d) (uss d)" "chk_limit h d = granularity h" "chk_limit h c = granularity h"
    using ok c d by (simp_all add: mm_ok_def)
  moreover have "c + granularity h \<le> d \<or> d + granularity h \<le> c"
    using ok c d unfolding mm_ok_def by (metis nat_neq_iff)
  ultimately have "\<not> (c \<le> u \<and> u < c + chk_limit h c)" using chunk_ok_range [of h d "fls d" "uss d" u] u by auto
  then show ?thesis using o by (simp add: only_chunk_def)
qed

lemma mm_ok_cong:
  "next_chk h' = next_chk h \<Longrightarrow> chk_list h' = chk_list h \<Longrightarrow> granularity h' = granularity h \<Longrightarrow> chk_limit h' = chk_limit h \<Longrightarrow>
   chk_addr h' = chk_addr h \<Longrightarrow> free_list h' = free_list h \<Longrightarrow> next_free h' = next_free h \<Longrightarrow> free_size h' = free_size h \<Longrightarrow>
   blk_chk h' = blk_chk h \<Longrightarrow> mm_ok h' cs fls uss = mm_ok h cs fls uss"
  by (simp add: mm_ok_def chunk_ok_def)

lemma request_chunk_simps [simp]:
  "mm_ok (request_chunk h) cs fls uss = mm_ok h cs fls uss" "free_size (request_chunk h) = free_size h"
  "memory_leak (request_chunk h) = memory_leak h"
proof -
  show "mm_ok (request_chunk h) cs fls uss = mm_ok h cs fls uss"
    by (rule mm_ok_cong) (simp_all add: request_chunk_def)
qed (simp_all add: request_chunk_def)

lemma malloc_walk_eq:
  assumes "path (next_chk h) chk ds 0" "\<forall>c \<in> set ds. chunk_ok h c (fls c) (uss c)" "MINSIZE dvd n"
  shows "malloc_walk n chk h = (case dropWhile (\<lambda>c. \<forall>b \<in> set (fls c). free_size h b < n) ds of
      [] \<Rightarrow> Some (0, h) | c # _ \<Rightarrow> alloc_in_chk n c h)"
  using assms(1,2)
proof (induction ds arbitrary: chk)
  case Nil
  then show ?case by (subst malloc_walk.simps) simp
next
  case (Cons c ds)
  then have c: "chk = c" "c \<noteq> 0" "path (next_chk h) (next_chk h c) ds 0" "chunk_ok h c (fls c) (uss c)"
    "\<forall>c \<in> set ds. chunk_ok h c (fls c) (uss c)" by simp_all
  have fl: "free_list h c = hd (fls c @ [0])" using c(4) path_head by (force simp: chunk_ok_def)
  show ?case
  proof (cases "\<forall>b \<in> set (fls c). free_size h b < n")
    case True
    have "malloc_walk n c h = malloc_walk n (next_chk h c) h"
      using c(2) alloc_in_chk_ok(1) [OF c(4) assms(3) True] by (subst malloc_walk.simps) simp
    moreover have "dropWhile (\<lambda>c. \<forall>b \<in> set (fls c). free_size h b < n) (c # ds)
      = dropWhile (\<lambda>c. \<forall>b \<in> set (fls c). free_size h b < n) ds" using True by simp
    ultimately show ?thesis unfolding c(1) using Cons.IH [OF c(3,5)] by (simp only:)
  next
    case False
    then obtain b h' where b: "alloc_in_chk n c h = Some (b + HDR, h')"
      using alloc_in_chk_ok(2) [OF c(4) assms(3)] by (auto simp: not_less)
    have "fls c \<noteq> []" using False by auto
    then have "free_list h c \<noteq> 0"
      using fl path_nonzero [of "next_free h" "free_list h c" "fls c" 0] c(4) by (cases "fls c") (auto simp: chunk_ok_def)
    then have "malloc_walk n c h = alloc_in_chk n c h" using c(2) b by (subst malloc_walk.simps) simp
    moreover have "dropWhile (\<lambda>c. \<forall>b \<in> set (fls c). free_size h b < n) (c # ds) = c # ds" using False by auto
    ultimately show ?thesis unfolding c(1) by simp
  qed
qed

lemma round_size_dvd: "MINSIZE dvd round_size n"
  by (simp add: round_size_def)

text \<open>Allocation: a new block of the rounded size, or NULL when no free block is large enough.\<close>

lemma rt_malloc_step:
  assumes ok: "mm_ok h cs fls uss" and fits: "round_size n \<le> granularity h - OVERHEAD"
    and some: "\<exists>c \<in> set cs. \<exists>b \<in> set (fls c). round_size n \<le> free_size h b"
  shows "\<exists>c b fl' h'. rt_malloc n h = Some (b + HDR, h') \<and> c \<in> set cs \<and> b \<in> set (fls c)
    \<and> mm_ok h' cs (fls(c := fl')) (uss(c := insert b (uss c))) \<and> free_size h' b = round_size n
    \<and> (\<forall>d \<in> set cs. \<forall>u \<in> uss d. free_size h' u = free_size h u)
    \<and> granularity h' = granularity h \<and> memory_leak h' = memory_leak h + of_nat (round_size n)"
proof -
  let ?n = "round_size n" and ?P = "\<lambda>c. \<forall>b \<in> set (fls c). free_size h b < round_size n"
  have k: "path (next_chk h) (chk_list h) cs 0" "\<forall>c \<in> set cs. chunk_ok h c (fls c) (uss c)"
    using ok by (simp_all add: mm_ok_def)
  have "dropWhile ?P cs \<noteq> []" using some by (force simp: not_less)
  then obtain c ds where ds: "dropWhile ?P cs = c # ds" by (cases "dropWhile ?P cs") auto
  then have c: "c \<in> set cs" "\<not> ?P c" using set_dropWhileD [of c ?P cs] hd_dropWhile [of ?P cs] by auto
  then have cok: "chunk_ok h c (fls c) (uss c)" using k(2) by blast
  have "\<exists>b \<in> set (fls c). ?n \<le> free_size h b" using c(2) by (auto simp: not_less)
  from alloc_in_chk_ok(2) [OF cok round_size_dvd this] obtain b fl' h' where b: "b \<in> set (fls c)"
    "alloc_in_chk ?n c h = Some (b + HDR, h')" "chunk_ok h' c fl' (insert b (uss c))" "only_chunk c h h'"
    "free_size h' b = ?n" "\<forall>u \<in> uss c. free_size h' u = free_size h u"
    "memory_leak h' = memory_leak h + of_nat ?n" by blast
  have "malloc_walk ?n (chk_list h) h = Some (b + HDR, h')"
    using malloc_walk_eq [OF k round_size_dvd, of n] unfolding ds b(2) [symmetric] by (simp only: list.case)
  then have e: "rt_malloc n h = Some (b + HDR, request_chunk h')"
    using fits by (simp add: rt_malloc_def Let_def)
  have m: "mm_ok (request_chunk h') cs (fls(c := fl')) (uss(c := insert b (uss c)))"
    using mm_ok_chunk [OF ok c(1) b(4,3)] by simp
  have oth: "free_size h' u = free_size h u" if u: "d \<in> set cs" "u \<in> uss d" for d u
    using b(6) only_chunk_others [OF ok c(1) b(4) u(1) _ u(2)] u(2) by (cases "d = c") simp_all
  have g: "granularity (request_chunk h') = granularity h" using b(4) by (simp add: only_chunk_def request_chunk_def)
  show ?thesis
    by (intro exI conjI, rule e, rule c(1), rule b(1), rule m) (use b oth g in simp_all)
qed

lemma rt_malloc_none:
  assumes ok: "mm_ok h cs fls uss"
    and none: "\<forall>c \<in> set cs. \<forall>b \<in> set (fls c). free_size h b < round_size n"
  shows "\<exists>h'. rt_malloc n h = Some (0, h') \<and> mm_ok h' cs fls uss \<and> free_size h' = free_size h
    \<and> granularity h' = granularity h"
proof -
  have k: "path (next_chk h) (chk_list h) cs 0" "\<forall>c \<in> set cs. chunk_ok h c (fls c) (uss c)"
    using ok by (simp_all add: mm_ok_def)
  have "dropWhile (\<lambda>c. \<forall>b \<in> set (fls c). free_size h b < round_size n) cs = []" using none by simp
  then have "malloc_walk (round_size n) (chk_list h) h = Some (0, h)"
    using malloc_walk_eq [OF k round_size_dvd, of n] by (simp only: list.case)
  moreover have "granularity (request_chunk h) = granularity h" by (simp add: request_chunk_def)
  ultimately show ?thesis using ok by (simp add: rt_malloc_def Let_def)
qed

section \<open>Releasing a block\<close>

lemma find_prev_eq:
  "path (next_free h) cur bs 0 \<Longrightarrow> find_prev adr prev cur h = Some (last (prev # takeWhile (\<lambda>b. b + HDR < adr) bs))"
proof (induction bs arbitrary: prev cur)
  case Nil
  then show ?case by (subst find_prev.simps) simp
next
  case (Cons b bs)
  then have b: "cur = b" "b \<noteq> 0" "path (next_free h) (next_free h b) bs 0" by simp_all
  show ?case
  proof (cases "b + HDR < adr")
    case True
    then have "find_prev adr prev cur h = find_prev adr b (next_free h b) h"
      using b by (subst find_prev.simps) simp
    then show ?thesis using Cons.IH [OF b(3), of b] True by simp
  next
    case False
    then show ?thesis using b by (subst find_prev.simps) simp
  qed
qed

text \<open>A chunk with the block \<open>u\<close> in use between the free blocks \<open>as\<close> and \<open>bs\<close>.\<close>

lemma chunk_usedD:
  assumes ok: "chunk_ok h c (as @ bs) us" and u: "u \<in> us"
    and as: "\<forall>a \<in> set as. a < u" and bs: "\<forall>b \<in> set bs. u < b"
  shows "distinct (as @ bs)" "u \<notin> set as" "u \<notin> set bs" "as \<noteq> [] \<Longrightarrow> last (0 # as) \<in> set as" "last (0 # as) = 0 \<longleftrightarrow> as = []"
    "u \<in> set (as @ bs) \<union> us" "c + HDR \<le> u \<and> u + HDR + free_size h u \<le> c + chk_limit h c"
    "as \<noteq> [] \<Longrightarrow> c + HDR \<le> last (0 # as) \<and> last (0 # as) + HDR \<le> c + chk_limit h c"
proof -
  have k: "path (next_free h) (free_list h c) (as @ bs) 0" "sorted_wrt (<) (as @ bs)" using ok by (simp_all add: chunk_ok_def)
  show "distinct (as @ bs)" "u \<notin> set as" "u \<notin> set bs" using k(2) as bs by (auto simp: strict_sorted_iff)
  show pv: "as \<noteq> [] \<Longrightarrow> last (0 # as) \<in> set as" by simp
  have "0 \<notin> set as" using path_nonzero [OF k(1)] by auto
  then show "last (0 # as) = 0 \<longleftrightarrow> as = []" using pv by (cases "as = []") (metis last.simps, metis)
  show uB: "u \<in> set (as @ bs) \<union> us" using u by simp
  show "c + HDR \<le> u \<and> u + HDR + free_size h u \<le> c + chk_limit h c" using chunk_ok_range [OF ok uB] .
  show "c + HDR \<le> last (0 # as) \<and> last (0 # as) + HDR \<le> c + chk_limit h c" if "as \<noteq> []"
    using chunk_ok_range [OF ok, of "last (0 # as)"] pv [OF that] by simp
qed

text \<open>The block joins the free block that ends where it begins.\<close>

lemma link_free_joins:
  assumes ok: "chunk_ok h c (as @ bs) us" and u: "u \<in> us"
    and as: "\<forall>a \<in> set as. a < u" and bs: "\<forall>b \<in> set bs. u < b"
    and r: "link_free c (last (0 # as)) u h = (f, h')"
    and True: "last (0 # as) \<noteq> 0 \<and> last (0 # as) + HDR + free_size h (last (0 # as)) = u"
  shows "\<exists>fl. chunk_ok h' c fl (us - {u}) \<and> f \<in> set fl \<and> only_chunk c h h'
    \<and> (\<forall>x \<in> us - {u}. free_size h' x = free_size h x)
    \<and> (\<Sum>b \<leftarrow> fl. free_size h' b + HDR) = (\<Sum>b \<leftarrow> as @ bs. free_size h b + HDR) + (free_size h u + HDR)"
proof -
  let ?pv = "last (0 # as)" and ?B = "set (as @ bs) \<union> us"
  have k: "c \<noteq> 0" "chk_addr h c = c" "path (next_free h) (free_list h c) (as @ bs) 0"
    "sorted_wrt (<) (as @ bs)" "\<forall>u \<in> us. next_free h u = u" "set (as @ bs) \<inter> us = {}"
    "layout (free_size h) (c + HDR) (c + chk_limit h c) ?B" "\<forall>x \<in> ?B. blk_chk h x = c"
    using ok by (simp_all add: chunk_ok_def)
  note d = chunk_usedD(1-3) [OF ok u as bs] and pv = chunk_usedD(4) [OF ok u as bs] and pv0 = chunk_usedD(5) [OF ok u as bs]
    and uB = chunk_usedD(6) [OF ok u as bs] and ur = chunk_usedD(7) [OF ok u as bs] and pr = chunk_usedD(8) [OF ok u as bs]
  have as0: "as \<noteq> []" using pv0 True by simp
  let ?sz = "(free_size h)(?pv := free_size h ?pv + (free_size h u + HDR))"
  have m: "f = ?pv" "free_size h' = ?sz" "next_free h' = next_free h" "blk_chk h' = blk_chk h" "free_list h' = free_list h"
    "chk_addr h' = chk_addr h" "next_chk h' = next_chk h" "chk_limit h' = chk_limit h" "chk_list h' = chk_list h"
    "granularity h' = granularity h"
    using r True by (auto simp: link_free_def)
  have pus: "?pv \<notin> us" "?pv \<noteq> u" using pv [OF as0] k(6) d by auto
  have B: "set (as @ bs) \<union> (us - {u}) = ?B - {u}" using d by auto
  have pB: "?pv \<in> ?B" using pv [OF as0] by simp
  have ck: "chunk_ok h' c (as @ bs) (us - {u})"
  proof (rule chunk_okI [OF k(1)])
    show "layout (free_size h') (c + HDR) (c + chk_limit h' c) (set (as @ bs) \<union> (us - {u}))"
      unfolding B m using layout_merge [OF k(7) pB uB] True by blast
  qed (use k in \<open>auto simp: m\<close>)
  have "only_chunk c h h'" using pr [OF as0] unfolding only_chunk_def m by auto
  moreover have "(\<Sum>b \<leftarrow> as @ bs. ?sz b + HDR) = (\<Sum>b \<leftarrow> as @ bs. free_size h b + HDR) + (free_size h u + HDR)"
  proof -
    obtain as' where a': "as = as' @ [?pv]" using as0 by (metis append_butlast_last_id last_ConsR)
    then have "?pv \<notin> set as'" "?pv \<notin> set bs" using d(1) by (metis distinct_append not_distinct_conv_prefix)
      (metis a' d(1) disjoint_iff distinct_append in_set_conv_decomp)
    then have e: "map (\<lambda>b. ?sz b + HDR) as' = map (\<lambda>b. free_size h b + HDR) as'"
      "map (\<lambda>b. ?sz b + HDR) bs = map (\<lambda>b. free_size h b + HDR) bs"
      by (auto simp del: last.simps)
    have "(\<Sum>b \<leftarrow> (as' @ [?pv]) @ bs. ?sz b + HDR) = (\<Sum>b \<leftarrow> (as' @ [?pv]) @ bs. free_size h b + HDR) + (free_size h u + HDR)"
      unfolding map_append list.map e by simp
    then show ?thesis unfolding a' [symmetric] .
  qed
  moreover have "f \<in> set (as @ bs)" unfolding m using pv [OF as0] by simp
  moreover have "\<forall>x \<in> us - {u}. free_size h' x = free_size h x" unfolding m using pus by auto
  ultimately show ?thesis using ck unfolding m(2) by blast
qed

text \<open>The block becomes a free block of its own.\<close>

lemma link_free_links:
  assumes ok: "chunk_ok h c (as @ bs) us" and u: "u \<in> us"
    and as: "\<forall>a \<in> set as. a < u" and bs: "\<forall>b \<in> set bs. u < b"
    and r: "link_free c (last (0 # as)) u h = (f, h')"
    and False: "\<not> (last (0 # as) \<noteq> 0 \<and> last (0 # as) + HDR + free_size h (last (0 # as)) = u)"
  shows "\<exists>fl. chunk_ok h' c fl (us - {u}) \<and> f \<in> set fl \<and> only_chunk c h h'
    \<and> (\<forall>x \<in> us - {u}. free_size h' x = free_size h x)
    \<and> (\<Sum>b \<leftarrow> fl. free_size h' b + HDR) = (\<Sum>b \<leftarrow> as @ bs. free_size h b + HDR) + (free_size h u + HDR)"
proof -
  let ?pv = "last (0 # as)" and ?B = "set (as @ bs) \<union> us"
  have k: "c \<noteq> 0" "chk_addr h c = c" "path (next_free h) (free_list h c) (as @ bs) 0"
    "sorted_wrt (<) (as @ bs)" "\<forall>u \<in> us. next_free h u = u" "set (as @ bs) \<inter> us = {}"
    "layout (free_size h) (c + HDR) (c + chk_limit h c) ?B" "\<forall>x \<in> ?B. blk_chk h x = c"
    using ok by (simp_all add: chunk_ok_def)
  note d = chunk_usedD(1-3) [OF ok u as bs] and pv = chunk_usedD(4) [OF ok u as bs] and pv0 = chunk_usedD(5) [OF ok u as bs]
    and uB = chunk_usedD(6) [OF ok u as bs] and ur = chunk_usedD(7) [OF ok u as bs] and pr = chunk_usedD(8) [OF ok u as bs]
  obtain q where p: "path (next_free h) (free_list h c) as q" "path (next_free h) q bs 0"
    using k(3) by (auto simp: path_append)
  let ?nx = "(next_free h)(u := q)"
  have "next_free h ?pv = q" if "as \<noteq> []"
    using that p(1)
    by (cases as rule: rev_cases) (simp_all add: path_append)
  moreover have "free_list h c = q" if "as = []" using that p(1) by simp
  ultimately have m: "f = u" "free_size h' = free_size h" "next_free h' = (if ?pv = 0 then ?nx else ?nx(?pv := u))"
    "blk_chk h' = blk_chk h" "free_list h' = (if ?pv = 0 then (free_list h)(c := u) else free_list h)"
    "chk_addr h' = chk_addr h" "next_chk h' = next_chk h" "chk_limit h' = chk_limit h" "chk_list h' = chk_list h"
    "granularity h' = granularity h"
    using r False pv0 by (auto simp: link_free_def Let_def simp del: last.simps)
  have "u \<noteq> 0" using ur k(1) by linarith
  then have "path ?nx u (u # bs) 0" "path ?nx (free_list h c) as q" using p d by simp_all
  moreover have "set (u # bs) \<inter> set as = {}" "distinct as" using d by auto
  ultimately have R: "path (if ?pv = 0 then ?nx else ?nx(?pv := u)) (if ?pv = 0 then u else free_list h c) (as @ u # bs) 0"
    by (intro path_relink)
  have "free_list h' c = (if ?pv = 0 then u else free_list h c)" by (simp add: m(5) del: last.simps)
  then have pa: "path (next_free h') (free_list h' c) (as @ u # bs) 0"
    using R unfolding m(3) by (simp only:)
  have st: "sorted_wrt (<) (as @ u # bs)" using k(4) as bs by (fastforce simp: sorted_wrt_append)
  have B: "set (as @ u # bs) \<union> (us - {u}) = ?B" using u by auto
  have pvu: "?pv \<notin> us" if "as \<noteq> []" using pv [OF that] k(6) by auto
  have ck: "chunk_ok h' c (as @ u # bs) (us - {u})"
  proof (rule chunk_okI [OF k(1) _ pa st])
    show "chk_addr h' c = c" unfolding m by (rule k(2))
    show "next_free h' x = x" if "x \<in> us - {u}" for x
      using that k(5) pvu unfolding m by (cases "as = []") auto
    show "set (as @ u # bs) \<inter> (us - {u}) = {}" using k(6) by auto
    show "layout (free_size h') (c + HDR) (c + chk_limit h' c) (set (as @ u # bs) \<union> (us - {u}))"
      unfolding B m by (rule k(7))
    show "blk_chk h' x = c" if "x \<in> set (as @ u # bs) \<union> (us - {u})" for x using that k(8) unfolding B m by blast
  qed
  have "only_chunk c h h'" unfolding only_chunk_def using m ur pr pv0 by auto
  moreover have "(\<Sum>b \<leftarrow> as @ u # bs. free_size h' b + HDR)
    = (\<Sum>b \<leftarrow> as @ bs. free_size h b + HDR) + (free_size h u + HDR)" unfolding m by simp
  ultimately show ?thesis using ck unfolding m(1,2) by (intro exI [of _ "as @ u # bs"]) simp
qed

text \<open>Linking the block into the free list, merging it with the block in front of it.\<close>

lemma link_free_ok:
  assumes ok: "chunk_ok h c (as @ bs) us" and u: "u \<in> us"
    and as: "\<forall>a \<in> set as. a < u" and bs: "\<forall>b \<in> set bs. u < b"
    and r: "link_free c (last (0 # as)) u h = (f, h')"
  shows "\<exists>fl. chunk_ok h' c fl (us - {u}) \<and> f \<in> set fl \<and> only_chunk c h h'
    \<and> (\<forall>x \<in> us - {u}. free_size h' x = free_size h x)
    \<and> (\<Sum>b \<leftarrow> fl. free_size h' b + HDR) = (\<Sum>b \<leftarrow> as @ bs. free_size h b + HDR) + (free_size h u + HDR)"
  using link_free_joins [OF assms] link_free_links [OF assms] by (cases "last (0 # as) \<noteq> 0 \<and> last (0 # as) + HDR + free_size h (last (0 # as)) = u")

lemma merge_next_ok:
  assumes ok: "chunk_ok h c fl us" and f: "f \<in> set fl"
  shows "\<exists>fl'. chunk_ok (merge_next f h) c fl' us \<and> only_chunk c h (merge_next f h)
    \<and> (\<forall>x \<in> us. free_size (merge_next f h) x = free_size h x)
    \<and> (\<Sum>b \<leftarrow> fl'. free_size (merge_next f h) b + HDR) = (\<Sum>b \<leftarrow> fl. free_size h b + HDR)"
proof (cases "f + HDR + free_size h f = next_free h f")
  case False
  then show ?thesis using ok only_chunk_refl by (auto simp: merge_next_def)
next
  case True
  have k: "c \<noteq> 0" "chk_addr h c = c" "path (next_free h) (free_list h c) fl 0"
    "sorted_wrt (<) fl" "\<forall>u \<in> us. next_free h u = u" "set fl \<inter> us = {}"
    "layout (free_size h) (c + HDR) (c + chk_limit h c) (set fl \<union> us)" "\<forall>x \<in> set fl \<union> us. blk_chk h x = c"
    using ok by (simp_all add: chunk_ok_def)
  obtain as bs0 where fl0: "fl = as @ f # bs0" using split_list [OF f] by blast
  have "next_free h f \<noteq> 0" using True by simp
  then obtain g bs where fl: "fl = as @ f # g # bs" "next_free h f = g"
    using k(3) fl0 by (cases bs0) (auto simp: path_append)
  have d: "distinct fl" using k(4) by (auto simp: strict_sorted_iff)
  let ?h = "merge_next f h" and ?sz = "(free_size h)(f := free_size h f + (free_size h g + HDR))"
  have m: "free_size ?h = ?sz" "next_free ?h = (next_free h)(f := next_free h g)" "blk_chk ?h = blk_chk h"
    "free_list ?h = free_list h" "chk_addr ?h = chk_addr h" "next_chk ?h = next_chk h" "chk_limit ?h = chk_limit h"
    "chk_list ?h = chk_list h" "granularity ?h = granularity h"
    using True fl(2) by (simp_all add: merge_next_def)
  have fus: "f \<notin> us" "g \<notin> us" "f \<noteq> g" using k(6) fl(1) d by auto
  have B: "set (as @ f # bs) \<union> us = (set fl \<union> us) - {g}" using d fus fl(1) by auto
  have l: "layout ?sz (c + HDR) (c + chk_limit h c) (set (as @ f # bs) \<union> us)"
    unfolding B using layout_merge [OF k(7), of f g] fl True by simp
  have pa: "path (next_free ?h) (free_list ?h c) (as @ f # bs) 0"
    using k(3) d unfolding fl(1) m by (auto simp: path_append)
  have st: "sorted_wrt (<) (as @ f # bs)" using k(4) unfolding fl(1) by (auto simp: sorted_wrt_append)
  have "chunk_ok ?h c (as @ f # bs) us"
  proof (rule chunk_okI [OF k(1) _ pa st])
    show "chk_addr ?h c = c" unfolding m by (rule k(2))
    show "next_free ?h x = x" if "x \<in> us" for x using that k(5) fus(1) unfolding m by auto
    show "set (as @ f # bs) \<inter> us = {}" using k(6) fl(1) by auto
    show "layout (free_size ?h) (c + HDR) (c + chk_limit ?h c) (set (as @ f # bs) \<union> us)" unfolding m by (rule l)
    show "blk_chk ?h x = c" if "x \<in> set (as @ f # bs) \<union> us" for x using that k(8) unfolding m fl(1) by auto
  qed
  moreover have "c + HDR \<le> f \<and> f + HDR + free_size h f \<le> c + chk_limit h c"
    using chunk_ok_range [OF ok, of f] f by simp
  then have "only_chunk c h ?h" unfolding only_chunk_def m by auto
  moreover have "(\<Sum>b \<leftarrow> as @ f # bs. ?sz b + HDR) = (\<Sum>b \<leftarrow> fl. free_size h b + HDR)"
  proof -
    have e: "map (\<lambda>b. ?sz b + HDR) as = map (\<lambda>b. free_size h b + HDR) as"
      "map (\<lambda>b. ?sz b + HDR) bs = map (\<lambda>b. free_size h b + HDR) bs" using d fl(1) by auto
    show ?thesis unfolding fl(1) map_append list.map e by simp
  qed
  ultimately show ?thesis using fus(1) unfolding m by auto
qed

lemma offer_chunk_simps [simp]:
  "mm_ok (offer_chunk h) cs fls uss = mm_ok h cs fls uss" "free_size (offer_chunk h) = free_size h"
  "memory_leak (offer_chunk h) = memory_leak h" "next_free (offer_chunk h) = next_free h"
proof -
  show "mm_ok (offer_chunk h) cs fls uss = mm_ok h cs fls uss"
    by (rule mm_ok_cong) (simp_all add: offer_chunk_def)
qed (simp_all add: offer_chunk_def)

lemma link_merge_leak:
  "link_free c pv u h = (f, h') \<Longrightarrow> memory_leak h' = memory_leak h" "memory_leak (merge_next f h) = memory_leak h"
  by (auto simp: link_free_def merge_next_def Let_def split: if_splits)

text \<open>Releasing an allocated block: its bytes, with those of its header, are free again; the other
  allocated blocks stay as they are.\<close>

lemma rt_free_step:
  assumes ok: "mm_ok h cs fls uss" and c: "c \<in> set cs" and u: "u \<in> uss c" and sz: "free_size h u \<noteq> 0"
  shows "\<exists>fl h'. rt_free (u + HDR) h = Some h' \<and> mm_ok h' cs (fls(c := fl)) (uss(c := uss c - {u}))
    \<and> (\<forall>d \<in> set cs. \<forall>x \<in> uss d. (d = c \<longrightarrow> x \<noteq> u) \<longrightarrow> free_size h' x = free_size h x)
    \<and> (\<Sum>b \<leftarrow> fl. free_size h' b + HDR) = (\<Sum>b \<leftarrow> fls c. free_size h b + HDR) + (free_size h u + HDR)
    \<and> granularity h' = granularity h \<and> memory_leak h' = memory_leak h - of_nat (free_size h u)"
proof -
  have cok: "chunk_ok h c (fls c) (uss c)" and lim: "chk_limit h c = granularity h" and g: "OVERHEAD < granularity h"
    using ok c by (simp_all add: mm_ok_def)
  have k: "chk_addr h c = c" "path (next_free h) (free_list h c) (fls c) 0" "sorted_wrt (<) (fls c)"
    "next_free h u = u" "set (fls c) \<inter> uss c = {}" "blk_chk h u = c"
    "layout (free_size h) (c + HDR) (c + chk_limit h c) (set (fls c) \<union> uss c)"
    using cok u by (simp_all add: chunk_ok_def)
  have r: "c + HDR \<le> u" "u + HDR + free_size h u \<le> c + granularity h"
    using chunk_ok_range [OF cok, of u] u lim by simp_all
  have r3: "MINSIZE dvd free_size h u" using k(7) u by (simp add: layout_def)
  have r4: "free_size h u \<le> granularity h - OVERHEAD" using r by linarith
  have v: "valid_block u h"
    using k(1,4,6) sz r4 r3 unfolding valid_block_def by (metis dvd_imp_mod_0)
  let ?as = "takeWhile (\<lambda>b. b < u) (fls c)" and ?bs = "dropWhile (\<lambda>b. b < u) (fls c)"
  have ab: "fls c = ?as @ ?bs" by simp
  have as: "\<forall>a \<in> set ?as. a < u" by (auto dest: set_takeWhileD)
  have bs: "\<forall>b \<in> set ?bs. u < b"
  proof (cases "?bs")
    case Nil
    then show ?thesis unfolding Nil by simp
  next
    case (Cons x l)
    have "\<not> x < u" using Cons hd_dropWhile [of "\<lambda>b. b < u" "fls c"] by simp
    moreover have "x \<in> set (fls c)" using Cons set_dropWhileD [of x "\<lambda>b. b < u" "fls c"] by simp
    then have "x \<noteq> u" using k(5) u by auto
    moreover have "sorted_wrt (<) ?bs" using k(3) ab by (metis sorted_wrt_append)
    ultimately show ?thesis using Cons by auto
  qed
  let ?h = "h\<lparr>memory_leak := memory_leak h - of_nat (free_size h u)\<rparr>"
  have cok': "chunk_ok ?h c (?as @ ?bs) (uss c)" using cok by (simp add: chunk_ok_def)
  obtain f h1 where l: "link_free c (last (0 # ?as)) u ?h = (f, h1)" by fastforce
  from link_free_ok [OF cok' u as bs l] obtain fl1 where fl1: "chunk_ok h1 c fl1 (uss c - {u})" "f \<in> set fl1"
    "only_chunk c ?h h1" "\<forall>x \<in> uss c - {u}. free_size h1 x = free_size ?h x"
    "(\<Sum>b \<leftarrow> fl1. free_size h1 b + HDR) = (\<Sum>b \<leftarrow> ?as @ ?bs. free_size ?h b + HDR) + (free_size ?h u + HDR)"
    by (elim exE conjE)
  from merge_next_ok [OF fl1(1,2)] obtain fl where fl: "chunk_ok (merge_next f h1) c fl (uss c - {u})"
    "only_chunk c h1 (merge_next f h1)" "\<forall>x \<in> uss c - {u}. free_size (merge_next f h1) x = free_size h1 x"
    "(\<Sum>b \<leftarrow> fl. free_size (merge_next f h1) b + HDR) = (\<Sum>b \<leftarrow> fl1. free_size h1 b + HDR)"
    by (elim exE conjE)
  have o: "only_chunk c h (merge_next f h1)"
    using only_chunk_trans [OF fl1(3) fl(2)] by (simp add: only_chunk_def)
  have m: "mm_ok (merge_next f h1) cs (fls(c := fl)) (uss(c := uss c - {u}))"
    using mm_ok_chunk [OF ok c o fl(1)] .
  have e: "rt_free (u + HDR) h = Some (offer_chunk (merge_next f h1))"
    using v find_prev_eq [OF k(2), of "u + HDR" 0] l k(6) by (simp add: rt_free_def Let_def del: last.simps)
  have leak: "memory_leak (merge_next f h1) = memory_leak h - of_nat (free_size h u)"
    using link_merge_leak(1) [OF l] by (simp add: link_merge_leak(2))
  show ?thesis
  proof (intro exI conjI, rule e)
    show "mm_ok (offer_chunk (merge_next f h1)) cs (fls(c := fl)) (uss(c := uss c - {u}))" using m by simp
    show "\<forall>d \<in> set cs. \<forall>x \<in> uss d. (d = c \<longrightarrow> x \<noteq> u) \<longrightarrow>
        free_size (offer_chunk (merge_next f h1)) x = free_size h x"
      using only_chunk_others [OF ok c o] fl(3) fl1(4) by fastforce
    show "granularity (offer_chunk (merge_next f h1)) = granularity h"
      using o by (simp add: only_chunk_def offer_chunk_def)
    show "(\<Sum>b \<leftarrow> fl. free_size (offer_chunk (merge_next f h1)) b + HDR)
      = (\<Sum>b \<leftarrow> fls c. free_size h b + HDR) + (free_size h u + HDR)"
      using fl(4) fl1(5) unfolding ab [symmetric] by simp
    show "memory_leak (offer_chunk (merge_next f h1)) = memory_leak h - of_nat (free_size h u)"
      using leak by simp
  qed
qed

text \<open>An address that is not that of an allocated block is refused: releasing a free block again does
  nothing.\<close>

lemma rt_free_again:
  assumes ok: "mm_ok h cs fls uss" and c: "c \<in> set cs" and b: "b \<in> set (fls c)"
  shows "rt_free (b + HDR) h = Some h"
proof -
  have k: "path (next_free h) (free_list h c) (fls c) 0" "sorted_wrt (<) (fls c)"
    using ok c by (simp_all add: mm_ok_def chunk_ok_def)
  obtain as bs where fl: "fls c = as @ b # bs" using split_list [OF b] by blast
  have "next_free h b \<noteq> b"
    using k path_nonzero [OF k(1) b] unfolding fl by (cases bs) (auto simp: path_append sorted_wrt_append)
  then show ?thesis by (simp add: rt_free_def valid_block_def)
qed

section \<open>Chunks more and less\<close>

definition whole :: "heap \<Rightarrow> addr \<Rightarrow> bool" where
  "whole h c \<longleftrightarrow> free_list h c \<noteq> 0 \<and> free_size h (free_list h c) = chk_limit h c - OVERHEAD"

lemma find_free_chunk_eq:
  "path (next_chk h) cur ds 0 \<Longrightarrow> find_free_chunk prev cur h =
     Some (last (prev # takeWhile (\<lambda>c. \<not> whole h c) ds), hd (dropWhile (\<lambda>c. \<not> whole h c) ds @ [0]))"
proof (induction ds arbitrary: prev cur)
  case Nil
  then show ?case by (subst find_free_chunk.simps) simp
next
  case (Cons c ds)
  then have c: "cur = c" "c \<noteq> 0" "path (next_chk h) (next_chk h c) ds 0" by simp_all
  show ?case
  proof (cases "whole h c")
    case True
    then show ?thesis using c by (subst find_free_chunk.simps) (simp add: whole_def)
  next
    case False
    then have "find_free_chunk prev cur h = find_free_chunk c (next_chk h c) h"
      using c by (subst find_free_chunk.simps) (auto simp: whole_def)
    then show ?thesis using Cons.IH [OF c(3), of c] False by simp
  qed
qed

text \<open>A chunk with one free block of the full size holds nothing else.\<close>

lemma whole_unused:
  assumes ok: "chunk_ok h c fl us" and w: "whole h c" and lim: "OVERHEAD < chk_limit h c"
  shows "us = {}"
proof (rule ccontr)
  assume "us \<noteq> {}"
  then obtain u where u: "u \<in> us" by blast
  let ?f = "free_list h c"
  have p: "path (next_free h) ?f fl 0" "set fl \<inter> us = {}"
    and l: "layout (free_size h) (c + HDR) (c + chk_limit h c) (set fl \<union> us)"
    using ok by (simp_all add: chunk_ok_def)
  have f: "?f \<in> set fl" using p(1) w by (cases fl) (auto simp: whole_def)
  have ne: "u \<noteq> ?f" using f u p(2) by auto
  have fr: "c + HDR \<le> ?f" "?f + HDR + free_size h ?f \<le> c + chk_limit h c"
    using chunk_ok_range [OF ok, of ?f] f by simp_all
  have ur: "c + HDR \<le> u" "u + HDR + free_size h u \<le> c + chk_limit h c"
    using chunk_ok_range [OF ok, of u] u by simp_all
  have fe: "?f = c + HDR" using fr w lim by (simp add: whole_def)
  then have "?f < u" using ur(1) ne by linarith
  then have "?f + HDR + free_size h ?f \<le> u" using layout_apart [OF l] f u by blast
  then show False using fe ur w lim by (simp add: whole_def)
qed

text \<open>Only a chunk without allocated blocks goes back to Linux.\<close>

lemma rt_free_sysrq_handler_step:
  assumes ok: "mm_ok h cs fls uss"
  shows "\<exists>h'. rt_free_sysrq_handler h = Some h' \<and> free_no_chk h' = 0 \<and> free_size h' = free_size h
    \<and> granularity h' = granularity h
    \<and> (released h' = released h \<and> mm_ok h' cs fls uss
       \<or> (\<exists>c \<in> set cs. released h' = released h @ [c] \<and> uss c = {} \<and> mm_ok h' (remove1 c cs) fls uss))"
proof (cases "extra_chks h > 0")
  case False
  have "mm_ok (h\<lparr>free_no_chk := 0\<rparr>) cs fls uss = mm_ok h cs fls uss" by (rule mm_ok_cong) simp_all
  then show ?thesis using False ok by (simp add: rt_free_sysrq_handler_def)
next
  case extra: True
  let ?N = "\<lambda>c. \<not> whole h c"
  have p: "path (next_chk h) (chk_list h) cs 0" and d: "distinct cs" using ok by (simp_all add: mm_ok_def)
  note f = find_free_chunk_eq [OF p, of 0]
  show ?thesis
  proof (cases "dropWhile ?N cs")
    case Nil
    have e: "rt_free_sysrq_handler h = Some (h\<lparr>free_no_chk := 0\<rparr>)"
      using f extra unfolding Nil by (simp add: rt_free_sysrq_handler_def)
    have "mm_ok (h\<lparr>free_no_chk := 0\<rparr>) cs fls uss = mm_ok h cs fls uss" by (rule mm_ok_cong) simp_all
    then show ?thesis using e ok by simp
  next
    case (Cons c bs)
    let ?as = "takeWhile ?N cs" and ?pv = "last (0 # takeWhile ?N cs)"
    have cs: "cs = ?as @ c # bs" using takeWhile_dropWhile_id [of ?N cs] Cons by simp
    have w: "whole h c" using hd_dropWhile [of ?N cs] Cons by simp
    have c: "c \<in> set cs" by (subst cs) simp
    have cok: "chunk_ok h c (fls c) (uss c)" "chk_limit h c = granularity h" "OVERHEAD < granularity h"
      using ok c by (simp_all add: mm_ok_def)
    then have c0: "c \<noteq> 0" "uss c = {}" using whole_unused [OF cok(1) w] by (simp_all add: chunk_ok_def)
    let ?h1 = "if ?pv = 0 then h\<lparr>chk_list := next_chk h c\<rparr> else h\<lparr>next_chk := (next_chk h)(?pv := next_chk h c)\<rparr>"
    let ?h' = "discount_chunk c (?h1\<lparr>extra_chks := extra_chks ?h1 - 1, free_no_chk := 0\<rparr>)"
    have e: "rt_free_sysrq_handler h = Some ?h'"
      using f extra c0(1) unfolding Cons by (simp add: rt_free_sysrq_handler_def Let_def del: last.simps)
    have q: "path (next_chk h) (chk_list h) ?as c" "path (next_chk h) (next_chk h c) bs 0"
      using p by (subst (asm) cs, auto simp: path_append)+
    have "distinct (?as @ c # bs)" using d cs by simp
    then have dd: "distinct ?as" "set bs \<inter> set ?as = {}" by auto
    have R: "path (if ?pv = 0 then next_chk h else (next_chk h)(?pv := next_chk h c))
        (if ?pv = 0 then next_chk h c else chk_list h) (?as @ bs) 0"
      by (rule path_relink [OF q(1) dd(1) q(2) dd(2)])
    have n: "next_chk ?h' = (if ?pv = 0 then next_chk h else (next_chk h)(?pv := next_chk h c))"
      "chk_list ?h' = (if ?pv = 0 then next_chk h c else chk_list h)"
      "granularity ?h' = granularity h" "chk_limit ?h' = chk_limit h" "released ?h' = released h @ [c]"
      "free_no_chk ?h' = 0" "free_size ?h' = free_size h"
      by (simp_all add: discount_chunk_def del: last.simps)
    have ck: "chunk_ok ?h' x fl us = chunk_ok h x fl us" for x fl us
      by (simp add: discount_chunk_def chunk_ok_def del: last.simps)
    have r: "remove1 c cs = ?as @ bs"
      using \<open>distinct (?as @ c # bs)\<close> by (subst cs) (simp add: remove1_append)
    have sub: "set (remove1 c cs) \<subseteq> set cs" by (rule set_remove1_subset)
    have "mm_ok ?h' (remove1 c cs) fls uss"
      unfolding mm_ok_def n(3,4) ck
    proof (intro conjI)
      show "path (next_chk ?h') (chk_list ?h') (remove1 c cs) 0" unfolding n(1,2) r by (rule R)
      show "distinct (remove1 c cs)" using d by (rule distinct_remove1)
      show "\<forall>x \<in> set (remove1 c cs). chunk_ok h x (fls x) (uss x) \<and> chk_limit h x = granularity h"
        using ok sub unfolding mm_ok_def by blast
      show "\<forall>x \<in> set (remove1 c cs). \<forall>y \<in> set (remove1 c cs). x < y \<longrightarrow> x + granularity h \<le> y"
        using ok sub unfolding mm_ok_def by blast
    qed (rule cok(3))
    then show ?thesis using e n(3,5-7) c c0(2) by blast
  qed
qed

text \<open>A chunk more: \<open>c\<close> is a region of its own.\<close>

lemma last_chunk_eq: "path (next_chk h) cur ds 0 \<Longrightarrow> ds \<noteq> [] \<Longrightarrow> last_chunk cur h = Some (last ds)"
proof (induction ds arbitrary: cur)
  case Nil
  then show ?case by simp
next
  case (Cons c ds)
  then have c: "cur = c" "c \<noteq> 0" "path (next_chk h) (next_chk h c) ds 0" by simp_all
  show ?case
  proof (cases ds)
    case Nil
    then show ?thesis using c by (subst last_chunk.simps) simp
  next
    case (Cons a l)
    then have "next_chk h c \<noteq> 0" using c(3) by auto
    then show ?thesis using c Cons.IH [OF c(3)] Cons by (subst last_chunk.simps) simp
  qed
qed

lemma append_chunk_ok:
  assumes ok: "mm_ok h cs fls uss" and c0: "c \<noteq> 0" and g: "MINSIZE dvd granularity h"
    and apart: "\<forall>d \<in> set cs. c + granularity h \<le> d \<or> d + granularity h \<le> c"
  shows "\<exists>h'. append_chunk c (count_chunk (init_chunk c h)) = Some h'
    \<and> mm_ok h' (cs @ [c]) (fls(c := [c + HDR])) (uss(c := {})) \<and> granularity h' = granularity h
    \<and> extra_chks h' = extra_chks h \<and> released h' = released h"
proof -
  let ?h = "count_chunk (init_chunk c h)"
  have gr: "OVERHEAD < granularity h" and p: "path (next_chk h) (chk_list h) cs 0" and d: "distinct cs"
    using ok by (simp_all add: mm_ok_def)
  have ccs: "c \<notin> set cs" using apart gr by force
  have s: "next_chk ?h = (next_chk h)(c := 0)" "chk_list ?h = chk_list h" "granularity ?h = granularity h"
    by (simp_all add: count_chunk_def init_chunk_def)
  have p': "path (next_chk ?h) (chk_list ?h) cs 0" using p ccs unfolding s by simp
  let ?h' = "if cs = [] then ?h\<lparr>chk_list := c\<rparr> else ?h\<lparr>next_chk := (next_chk ?h)(last cs := c)\<rparr>"
  have cl: "chk_list h = 0 \<longleftrightarrow> cs = []" using p by (cases cs) auto
  have e: "append_chunk c ?h = Some ?h'"
    using last_chunk_eq [OF p'] cl s(2) by (auto simp: append_chunk_def)
  have "path (next_chk ?h') (chk_list ?h') (cs @ [c]) 0"
  proof (cases "cs = []")
    case True
    then show ?thesis using c0 by (simp add: s)
  next
    case False
    then have "last cs \<noteq> c" using ccs by auto
    moreover have "path ((next_chk ?h)(last cs := c)) (chk_list ?h) cs c" using path_redirect [OF p' d False] .
    ultimately show ?thesis using False c0 by (auto simp: path_append s)
  qed
  moreover have "chunk_ok ?h' x fl us = chunk_ok ?h x fl us" for x fl us by (simp add: chunk_ok_def)
  moreover have "chunk_ok ?h c [c + HDR] {}"
    using c0 gr g by (simp add: chunk_ok_def count_chunk_def init_chunk_def layout_def)
  moreover have "chunk_ok ?h x (fls x) (uss x)" if x: "x \<in> set cs" for x
  proof -
    have xc: "x \<noteq> c" and xok: "chunk_ok h x (fls x) (uss x)" "chk_limit h x = granularity h"
      using x ccs ok by (auto simp: mm_ok_def)
    have o: "b \<noteq> c + HDR" if "b \<in> set (fls x) \<union> uss x" for b
      using chunk_ok_range [OF xok(1) that] apart x xok(2) gr by fastforce
    have f: "next_free ?h b = next_free h b" "free_size ?h b = free_size h b" "blk_chk ?h b = blk_chk h b"
      if "b \<in> set (fls x) \<union> uss x" for b
      using o [OF that] by (simp_all add: count_chunk_def init_chunk_def)
    have "path (next_free ?h) q (fls x) 0 = path (next_free h) q (fls x) 0" for q by (rule path_cong) (simp add: f)
    moreover have "layout (free_size ?h) lo hi (set (fls x) \<union> uss x) = layout (free_size h) lo hi (set (fls x) \<union> uss x)" for lo hi
      by (rule layout_cong) (simp add: f)
    moreover have "free_list ?h x = free_list h x" "chk_addr ?h x = chk_addr h x" "chk_limit ?h x = chk_limit h x"
      using xc by (simp_all add: count_chunk_def init_chunk_def)
    ultimately show ?thesis using xok(1) f unfolding chunk_ok_def by auto
  qed
  moreover have "chk_limit ?h' = (chk_limit h)(c := granularity h)" "granularity ?h' = granularity h"
    "extra_chks ?h' = extra_chks h" "released ?h' = released h"
    by (simp_all add: count_chunk_def init_chunk_def)
  moreover have "\<forall>x \<in> set (cs @ [c]). \<forall>y \<in> set (cs @ [c]). x < y \<longrightarrow> x + granularity h \<le> y"
    using ok apart unfolding mm_ok_def by force
  ultimately show ?thesis using e ok ccs gr d unfolding mm_ok_def by (intro exI [of _ ?h']) auto
qed

lemma rt_alloc_sysrq_handler_step:
  assumes ok: "mm_ok h cs fls uss" and c0: "c \<noteq> 0" and g: "MINSIZE dvd granularity h"
    and apart: "\<forall>d \<in> set cs. c + granularity h \<le> d \<or> d + granularity h \<le> c"
  shows "\<exists>h'. rt_alloc_sysrq_handler c h = Some h' \<and> mm_ok h' (cs @ [c]) (fls(c := [c + HDR])) (uss(c := {}))
    \<and> extra_chks h' = extra_chks h + 1 \<and> alloc_no_chk h' = 0"
proof -
  obtain h' where h': "append_chunk c (count_chunk (init_chunk c h)) = Some h'"
    "mm_ok h' (cs @ [c]) (fls(c := [c + HDR])) (uss(c := {}))" "extra_chks h' = extra_chks h"
    using append_chunk_ok [OF assms] by blast
  have "mm_ok (h'\<lparr>alloc_no_chk := 0, extra_chks := extra_chks h' + 1\<rparr>) = mm_ok h'"
    by (intro ext mm_ok_cong) simp_all
  then show ?thesis using c0 h' by (simp add: rt_alloc_sysrq_handler_def)
qed

section \<open>Loading and unloading\<close>

lemma init_count_swap: "init_chunk c (count_chunk h) = count_chunk (init_chunk c h)"
  by (simp add: init_chunk_def count_chunk_def)

lemma init_loop_ok:
  assumes "mm_ok h cs fls uss" "MINSIZE dvd granularity h" "\<forall>c \<in> set ds. c \<noteq> 0"
    and "\<forall>c \<in> set ds. \<forall>d \<in> set cs. c + granularity h \<le> d \<or> d + granularity h \<le> c"
    and "sorted_wrt (\<lambda>c d. c + granularity h \<le> d \<or> d + granularity h \<le> c) ds"
  shows "\<exists>h' fls' uss'. init_loop ds h = Some (0, h') \<and> mm_ok h' (cs @ ds) fls' uss'
    \<and> (\<forall>c \<in> set ds. fls' c = [c + HDR] \<and> uss' c = {})
    \<and> (\<forall>c. c \<notin> set ds \<longrightarrow> fls' c = fls c \<and> uss' c = uss c)"
  using assms
proof (induction ds arbitrary: h cs fls uss)
  case Nil
  then show ?case by auto
next
  case (Cons c ds)
  have "OVERHEAD < granularity h" using Cons.prems(1) by (simp add: mm_ok_def)
  then have cds: "c \<notin> set ds" using Cons.prems(5) by auto
  have c0: "c \<noteq> 0" and ap: "\<forall>d \<in> set cs. c + granularity h \<le> d \<or> d + granularity h \<le> c"
    using Cons.prems(3,4) by simp_all
  obtain h1 where h1: "append_chunk c (count_chunk (init_chunk c h)) = Some h1"
    "mm_ok h1 (cs @ [c]) (fls(c := [c + HDR])) (uss(c := {}))" "granularity h1 = granularity h"
    using append_chunk_ok [OF Cons.prems(1) c0 Cons.prems(2) ap] by blast
  have "\<exists>h' fls' uss'. init_loop ds h1 = Some (0, h') \<and> mm_ok h' ((cs @ [c]) @ ds) fls' uss'
    \<and> (\<forall>x \<in> set ds. fls' x = [x + HDR] \<and> uss' x = {})
    \<and> (\<forall>x. x \<notin> set ds \<longrightarrow> fls' x = (fls(c := [c + HDR])) x \<and> uss' x = (uss(c := {})) x)"
  proof (rule Cons.IH [OF h1(2)])
    show "\<forall>x \<in> set ds. \<forall>d \<in> set (cs @ [c]). x + granularity h1 \<le> d \<or> d + granularity h1 \<le> x"
      using Cons.prems(4,5) unfolding h1(3) by auto
  qed (use Cons.prems h1(3) in simp_all)
  then obtain h' fls' uss' where h': "init_loop ds h1 = Some (0, h')" "mm_ok h' ((cs @ [c]) @ ds) fls' uss'"
    "\<forall>x \<in> set ds. fls' x = [x + HDR] \<and> uss' x = {}"
    "\<forall>x. x \<notin> set ds \<longrightarrow> fls' x = (fls(c := [c + HDR])) x \<and> uss' x = (uss(c := {})) x" by (elim exE conjE)
  have e: "init_loop (c # ds) h = Some (0, h')"
    using h1(1) h'(1) Cons.prems(3) by (simp add: init_count_swap)
  show ?case
  proof (intro exI conjI, rule e)
    show "mm_ok h' (cs @ c # ds) fls' uss'" using h'(2) by simp
    show "\<forall>x \<in> set (c # ds). fls' x = [x + HDR] \<and> uss' x = {}" using h'(3,4) cds by simp
    show "\<forall>x. x \<notin> set (c # ds) \<longrightarrow> fls' x = fls x \<and> uss' x = uss x" using h'(4) by simp
  qed
qed

text \<open>The manager starts with \<^verbatim>\<open>low_chk_ref\<close> empty chunks, when Linux has them.\<close>

lemma rt_mem_init_ok:
  assumes fresh: "\<not> rt_mem_mgr_init h" "chk_list h = 0" and srq: "0 \<le> asrq" "0 \<le> fsrq"
    and g: "OVERHEAD < granularity h" "MINSIZE dvd granularity h"
    and cs: "cs = map chunk_at [0..<low_chk_ref h]" "\<forall>c \<in> set cs. c \<noteq> 0"
      "sorted_wrt (\<lambda>c d. c + granularity h \<le> d \<or> d + granularity h \<le> c) cs"
  shows "\<exists>h' fls uss. rt_mem_init asrq fsrq chunk_at h = Some (0, h') \<and> mm_ok h' cs fls uss
    \<and> (\<forall>c \<in> set cs. fls c = [c + HDR] \<and> uss c = {}) \<and> rt_mem_mgr_init h'"
proof -
  let ?h = "h\<lparr>alloc_no_chk := 0, free_no_chk := 0, extra_chks := 0\<rparr>"
  have "mm_ok ?h [] (\<lambda>_. []) (\<lambda>_. {})" using fresh g by (simp add: mm_ok_def)
  from init_loop_ok [OF this, of cs] obtain h' fls uss where h': "init_loop cs ?h = Some (0, h')"
    "mm_ok h' cs fls uss" "\<forall>c \<in> set cs. fls c = [c + HDR] \<and> uss c = {}"
    using g cs(2,3) by auto
  have "mm_ok (h'\<lparr>rt_mem_mgr_init := True\<rparr>) cs fls uss" using h'(2) mm_ok_cong [of "h'\<lparr>rt_mem_mgr_init := True\<rparr>" h'] by simp
  then show ?thesis using fresh srq h'(1,3) cs(1) by (auto simp: rt_mem_init_def Let_def)
qed

text \<open>At the end every chunk goes back to Linux.\<close>

lemma rt_mem_end_ok:
  assumes ok: "mm_ok h cs fls uss"
  shows "\<exists>h'. rt_mem_end h = Some h' \<and> released h' = released h @ cs"
proof -
  have "\<exists>h'. end_loop p h = Some h' \<and> released h' = released h @ ds"
    if "path (next_chk h) p ds 0" "\<forall>c \<in> set ds. chk_addr h c = c" for p ds h
    using that
  proof (induction ds arbitrary: p h)
    case Nil
    then show ?case by (subst end_loop.simps) simp
  next
    case (Cons c ds)
    let ?h = "discount_chunk c h"
    have s: "next_chk ?h = next_chk h" "chk_addr ?h = chk_addr h" "released ?h = released h @ [c]"
      by (simp_all add: discount_chunk_def)
    obtain h' where "end_loop (next_chk h c) ?h = Some h'" "released h' = released ?h @ ds"
      using Cons.IH [of ?h "next_chk h c"] Cons.prems by (auto simp: s)
    then show ?case using Cons.prems s(3) by (subst end_loop.simps) simp
  qed
  then show ?thesis using ok by (simp add: rt_mem_end_def mm_ok_def chunk_ok_def)
qed

section \<open>Where the checks of the manager do not reach\<close>

text \<open>A request of more than \<^verbatim>\<open>2^32 - 16\<close> bytes is rounded to 0, and a block of 0 bytes is never taken
  back.\<close>

lemma round_size_wraps: "2 ^ 32 - 15 \<le> n \<Longrightarrow> n < 2 ^ 32 \<Longrightarrow> round_size n = 0"
proof -
  assume n: "2 ^ 32 - 15 \<le> n" "n < 2 ^ 32"
  then have "2 ^ 32 \<le> n + 15" by simp
  then obtain k where k: "n + 15 = 2 ^ 32 + k" using le_Suc_ex by blast
  then have "k < 15" using n(2) by linarith
  then show ?thesis by (simp add: round_size_def k)
qed

lemma round_size_ok:
  assumes "n + 15 < 2 ^ 32"
  shows "n \<le> round_size n \<and> round_size n < n + 16"
proof -
  have "round_size n = (n + 15) div 16 * 16" using assms by (simp add: round_size_def)
  moreover have "(n + 15) div 16 * 16 + (n + 15) mod 16 = n + 15" by (rule div_mult_mod_eq)
  moreover have "(n + 15) mod 16 < 16" by simp
  ultimately show ?thesis by linarith
qed

lemma rt_free_zero: "free_size h b = 0 \<Longrightarrow> rt_free (b + HDR) h = Some h"
  by (simp add: rt_free_def valid_block_def)

lemma below_takeWhile:
  "sorted_wrt (<) xs \<Longrightarrow> x \<in> set xs \<Longrightarrow> x < (u :: nat) \<Longrightarrow> x \<in> set (takeWhile (\<lambda>b. b < u) xs)"
  by (induction xs) auto

lemma sorted_last_max: "sorted_wrt (<) xs \<Longrightarrow> x \<in> set xs \<Longrightarrow> (x :: nat) \<le> last xs"
  by (induction xs) (auto simp: less_imp_le)

text \<open>A block that has been merged with the free block in front of it still looks allocated.\<close>

lemma rt_free_merged_valid:
  assumes ok: "mm_ok h cs fls uss" and c: "c \<in> set cs" and u: "u \<in> uss c" and sz: "free_size h u \<noteq> 0"
    and p: "p \<in> set (fls c)" "p + HDR + free_size h p = u"
  shows "\<exists>h'. rt_free (u + HDR) h = Some h' \<and> valid_block u h'"
proof -
  have cok: "chunk_ok h c (fls c) (uss c)" and lim: "chk_limit h c = granularity h"
    using ok c by (simp_all add: mm_ok_def)
  have k: "chk_addr h c = c" "path (next_free h) (free_list h c) (fls c) 0" "sorted_wrt (<) (fls c)"
    "next_free h u = u" "blk_chk h u = c"
    "layout (free_size h) (c + HDR) (c + chk_limit h c) (set (fls c) \<union> uss c)"
    using cok u by (simp_all add: chunk_ok_def)
  have r: "c + HDR \<le> u" "u + HDR + free_size h u \<le> c + granularity h"
    using chunk_ok_range [OF cok, of u] u lim by simp_all
  have r3: "MINSIZE dvd free_size h u" using k(6) u by (simp add: layout_def)
  have r4: "free_size h u \<le> granularity h - OVERHEAD" using r by linarith
  have v: "valid_block u h"
    using k(1,4,5) sz r4 r3 unfolding valid_block_def by (metis dvd_imp_mod_0)
  let ?as = "takeWhile (\<lambda>b. b < u) (fls c)"
  have pu: "p < u" "p \<noteq> 0" using p(2) path_nonzero [OF k(2) p(1)] by simp_all
  have "sorted_wrt (<) ?as" using k(3) by (metis sorted_wrt_append takeWhile_dropWhile_id)
  have pas: "p \<in> set ?as" using below_takeWhile [OF k(3) p(1) pu(1)] .
  have l: "last ?as \<in> set ?as" using pas by (cases "?as") auto
  then have lf: "last ?as \<in> set (fls c)" "last ?as < u" using set_takeWhileD by fast+
  have "p \<le> last ?as" using sorted_last_max [OF \<open>sorted_wrt (<) ?as\<close> pas] .
  moreover have "\<not> p < last ?as"
  proof
    assume "p < last ?as"
    then have "p + HDR + free_size h p \<le> last ?as" using layout_apart [OF k(6)] p(1) lf(1) by blast
    then show False using p(2) lf(2) by simp
  qed
  ultimately have last: "last (0 # ?as) = p" using pas by (cases "?as = []") auto
  let ?h1 = "h\<lparr>memory_leak := memory_leak h - of_nat (free_size h u),
     free_size := (free_size h)(p := free_size h p + (free_size h u + HDR)),
     memory_overhead := memory_overhead h - of_nat HDR\<rparr>"
  have "link_free c p u (h\<lparr>memory_leak := memory_leak h - of_nat (free_size h u)\<rparr>) = (p, ?h1)"
    using p(2) pu by (simp add: link_free_def)
  then have e: "rt_free (u + HDR) h = Some (offer_chunk (merge_next p ?h1))"
    using v find_prev_eq [OF k(2), of "u + HDR" 0] last k(5) by (simp add: rt_free_def Let_def del: last.simps)
  have "valid_block u (offer_chunk (merge_next p ?h1))"
    using v pu by (simp add: valid_block_def offer_chunk_def merge_next_def)
  then show ?thesis using e by blast
qed

end
