(* ===== verification/Mem_Alloc.thy ===== *)
theory Mem_Alloc
  imports Mem_Props
begin

text \<open>
  What the memory manager promises its clients, who see addresses and sizes only: an abstract
  state is a finite map from the addresses given out to their sizes.  The interface \<open>allocator\<close>
  states the laws of allocation and release on that map, its lemma covers every sequence of
  calls, and the interpretation discharges the laws for \<^verbatim>\<open>rt_malloc\<close>, \<^verbatim>\<open>rt_free\<close> and the service
  request handlers.
\<close>

section \<open>The interface\<close>

locale allocator =
  fixes ok :: "'h \<Rightarrow> (addr \<Rightarrow> nat option) \<Rightarrow> bool" and alloc :: "nat \<Rightarrow> 'h \<Rightarrow> (addr \<times> 'h) option"
    and release :: "addr \<Rightarrow> 'h \<Rightarrow> 'h option" and background :: "'h \<Rightarrow> 'h option" and size_for :: "nat \<Rightarrow> nat"
  assumes apart: "ok h A \<Longrightarrow> A p = Some n \<Longrightarrow> A q = Some m \<Longrightarrow> p \<noteq> q \<Longrightarrow> p + n \<le> q \<or> q + m \<le> p"
    and alloc_law: "ok h A \<Longrightarrow> \<exists>p h'. alloc n h = Some (p, h')
      \<and> (if p = 0 then ok h' A else A p = None \<and> ok h' (A(p \<mapsto> size_for n)))"
    and release_law: "ok h A \<Longrightarrow> A p = Some n \<Longrightarrow> n \<noteq> 0 \<Longrightarrow> \<exists>h'. release p h = Some h' \<and> ok h' (A(p := None))"
    and background_law: "ok h A \<Longrightarrow> \<exists>h'. background h = Some h' \<and> ok h' A"
begin

text \<open>A run of calls: \<open>Some (Inl n)\<close> allocates, \<open>Some (Inr p)\<close> releases \<open>p\<close> if the client holds it, \<open>None\<close> lets
  the manager work in the background.\<close>

primrec run :: "(nat + addr) option list \<Rightarrow> 'h \<Rightarrow> (addr \<Rightarrow> nat option) \<Rightarrow> ('h \<times> (addr \<Rightarrow> nat option)) option" where
  "run [] h A = Some (h, A)"
| "run (e # es) h A = (case e of
     None \<Rightarrow> do { h1 \<leftarrow> background h; run es h1 A }
   | Some (Inl n) \<Rightarrow> do { (p, h1) \<leftarrow> alloc n h; run es h1 (if p = 0 then A else A(p \<mapsto> size_for n)) }
   | Some (Inr p) \<Rightarrow>
       if A p = None \<or> A p = Some 0 then run es h A
       else do { h1 \<leftarrow> release p h; run es h1 (A(p := None)) })"

lemma run_ok: "ok h A \<Longrightarrow> \<exists>h' A'. run es h A = Some (h', A') \<and> ok h' A'"
proof (induction es arbitrary: h A)
  case Nil
  then show ?case by simp
next
  case (Cons e es)
  consider "e = None" | n where "e = Some (Inl n)" | p where "e = Some (Inr p)" by (metis not_Some_eq obj_sumE)
  then show ?case
  proof cases
    case 1
    obtain h1 where "background h = Some h1" "ok h1 A" using background_law [OF Cons.prems] by blast
    then show ?thesis using 1 Cons.IH by simp
  next
    case 2
    obtain p h1 where p: "alloc n h = Some (p, h1)"
      "if p = 0 then ok h1 A else A p = None \<and> ok h1 (A(p \<mapsto> size_for n))"
      using alloc_law [OF Cons.prems] by blast
    then have "ok h1 (if p = 0 then A else A(p \<mapsto> size_for n))" by (simp split: if_splits)
    then show ?thesis using Cons.IH p(1) 2 by simp
  next
    case 3
    show ?thesis
    proof (cases "A p = None \<or> A p = Some 0")
      case True
      then show ?thesis using Cons.IH [OF Cons.prems] 3 by simp
    next
      case False
      then obtain n where n: "A p = Some n" "n \<noteq> 0" by auto
      obtain h1 where "release p h = Some h1" "ok h1 (A(p := None))" using release_law [OF Cons.prems n] by blast
      then show ?thesis using Cons.IH n 3 by simp
    qed
  qed
qed

end

section \<open>The allocated blocks of a heap\<close>

definition allocs :: "heap \<Rightarrow> addr list \<Rightarrow> (addr \<Rightarrow> addr set) \<Rightarrow> addr \<Rightarrow> nat option" where
  "allocs h cs uss p = (if \<exists>c \<in> set cs. \<exists>u \<in> uss c. p = u + HDR then Some (free_size h (p - HDR)) else None)"

definition heap_ok :: "heap \<Rightarrow> (addr \<Rightarrow> nat option) \<Rightarrow> bool" where
  "heap_ok h A \<longleftrightarrow> (\<exists>cs fls uss. mm_ok h cs fls uss \<and> A = allocs h cs uss)"

lemma heap_okI: "mm_ok h cs fls uss \<Longrightarrow> A = allocs h cs uss \<Longrightarrow> heap_ok h A"
  unfolding heap_ok_def by blast

lemma allocs_Some:
  "allocs h cs uss p = Some n \<longleftrightarrow> (\<exists>c \<in> set cs. \<exists>u \<in> uss c. p = u + HDR \<and> n = free_size h u)"
  by (auto simp: allocs_def)

lemma allocs_eqI:
  "(\<And>p n. A p = Some n \<longleftrightarrow> (\<exists>c \<in> set cs. \<exists>u \<in> uss c. p = u + HDR \<and> n = free_size h u)) \<Longrightarrow> A = allocs h cs uss"
  using allocs_Some by (intro ext option.expand) (metis not_Some_eq option.sel)+

lemma allocs_apart:
  assumes "mm_ok h cs fls uss" "allocs h cs uss p = Some n" "allocs h cs uss q = Some m" "p \<noteq> q"
  shows "p + n + HDR \<le> q \<or> q + m + HDR \<le> p"
proof -
  obtain c u where u: "c \<in> set cs" "u \<in> uss c" "p = u + HDR" "n = free_size h u" using assms(2) by (auto simp: allocs_Some)
  obtain d v where v: "d \<in> set cs" "v \<in> uss d" "q = v + HDR" "m = free_size h v" using assms(3) by (auto simp: allocs_Some)
  have "u \<noteq> v" using assms(4) u(3) v(3) by simp
  then have "u + HDR + free_size h u \<le> v \<or> v + HDR + free_size h v \<le> u"
    using mm_ok_disjoint [OF assms(1) u(1,2) v(1,2)] by blast
  then show ?thesis using u v by linarith
qed

text \<open>A block belongs to one chunk.\<close>

lemma owner_unique:
  assumes "mm_ok h cs fls uss" "c \<in> set cs" "u \<in> set (fls c) \<union> uss c" "d \<in> set cs" "u \<in> set (fls d) \<union> uss d"
  shows "c = d"
proof -
  have "chunk_ok h c (fls c) (uss c)" "chunk_ok h d (fls d) (uss d)" using assms by (simp_all add: mm_ok_def)
  then show ?thesis using assms(3,5) unfolding chunk_ok_def by metis
qed

lemma rt_malloc_heap:
  assumes ok: "heap_ok h A"
  shows "\<exists>p h'. rt_malloc n h = Some (p, h')
    \<and> (if p = 0 then heap_ok h' A else A p = None \<and> heap_ok h' (A(p \<mapsto> round_size n)))"
proof -
  obtain cs fls uss where m: "mm_ok h cs fls uss" and A: "A = allocs h cs uss" using ok by (auto simp: heap_ok_def)
  have same: "heap_ok h' A" if "mm_ok h' cs fls uss" "free_size h' = free_size h" for h'
    using that A by (auto simp: heap_ok_def allocs_def fun_eq_iff intro!: exI)
  consider "granularity h - OVERHEAD < round_size n"
    | "\<forall>c \<in> set cs. \<forall>b \<in> set (fls c). free_size h b < round_size n"
    | "round_size n \<le> granularity h - OVERHEAD" "\<exists>c \<in> set cs. \<exists>b \<in> set (fls c). round_size n \<le> free_size h b"
    by (meson not_less)
  then show ?thesis
  proof cases
    case 1
    then show ?thesis using ok by (simp add: rt_malloc_def)
  next
    case 2
    then show ?thesis using rt_malloc_none [OF m 2] same by auto
  next
    case 3
    from rt_malloc_step [OF m 3] obtain c b fl' h' where b: "rt_malloc n h = Some (b + HDR, h')" "c \<in> set cs" "b \<in> set (fls c)"
      "mm_ok h' cs (fls(c := fl')) (uss(c := insert b (uss c)))" "free_size h' b = round_size n"
      "\<forall>d \<in> set cs. \<forall>u \<in> uss d. free_size h' u = free_size h u" by (elim exE conjE)
    have nb: "b \<notin> uss d" if "d \<in> set cs" for d
    proof
      assume bd: "b \<in> uss d"
      then have "c = d" using owner_unique [OF m b(2) _ that] b(3) by blast
      moreover have "chunk_ok h c (fls c) (uss c)" using m b(2) by (simp add: mm_ok_def)
      ultimately show False using bd b(3) by (auto simp: chunk_ok_def)
    qed
    have "A(b + HDR \<mapsto> round_size n) = allocs h' cs (uss(c := insert b (uss c)))"
    proof (rule allocs_eqI)
      fix p m
      have a: "A p = Some m \<longleftrightarrow> (\<exists>d \<in> set cs. \<exists>u \<in> uss d. p = u + HDR \<and> m = free_size h' u)"
        unfolding A allocs_Some using b(6) by (intro bex_cong refl) auto
      show "(A(b + HDR \<mapsto> round_size n)) p = Some m \<longleftrightarrow>
          (\<exists>d \<in> set cs. \<exists>u \<in> (uss(c := insert b (uss c))) d. p = u + HDR \<and> m = free_size h' u)"
      proof (cases "p = b + HDR")
        case True
        then show ?thesis using b(2,5) nb by auto
      next
        case False
        then have "(\<exists>d \<in> set cs. \<exists>u \<in> (uss(c := insert b (uss c))) d. p = u + HDR \<and> m = free_size h' u)
            \<longleftrightarrow> (\<exists>d \<in> set cs. \<exists>u \<in> uss d. p = u + HDR \<and> m = free_size h' u)"
          by - (rule bex_cong [OF refl], auto)
        then show ?thesis using a False by simp
      qed
    qed
    moreover have "A (b + HDR) = None" using nb unfolding A allocs_def by auto
    ultimately show ?thesis using heap_okI [OF b(4)] b(1) by auto
  qed
qed

lemma rt_free_heap:
  assumes ok: "heap_ok h A" and p: "A p = Some n" "n \<noteq> 0"
  shows "\<exists>h'. rt_free p h = Some h' \<and> heap_ok h' (A(p := None))"
proof -
  obtain cs fls uss where m: "mm_ok h cs fls uss" and A: "A = allocs h cs uss" using ok by (auto simp: heap_ok_def)
  obtain c u where u: "c \<in> set cs" "u \<in> uss c" "p = u + HDR" "n = free_size h u" using p(1) unfolding A allocs_Some by blast
  from rt_free_step [OF m u(1,2)] u(4) p(2) obtain fl h' where h': "rt_free p h = Some h'"
    "mm_ok h' cs (fls(c := fl)) (uss(c := uss c - {u}))"
    "\<forall>d \<in> set cs. \<forall>x \<in> uss d. (d = c \<longrightarrow> x \<noteq> u) \<longrightarrow> free_size h' x = free_size h x"
    unfolding u(3) by (auto)
  have nu: "u \<notin> uss d" if "d \<in> set cs" "d \<noteq> c" for d using owner_unique [OF m u(1) _ that(1)] u(2) that(2) by blast
  have "A(p := None) = allocs h' cs (uss(c := uss c - {u}))"
  proof (rule allocs_eqI)
    fix q m
    have "(\<exists>d \<in> set cs. \<exists>x \<in> (uss(c := uss c - {u})) d. q = x + HDR \<and> m = free_size h' x)
      \<longleftrightarrow> (\<exists>d \<in> set cs. \<exists>x \<in> uss d. x \<noteq> u \<and> q = x + HDR \<and> m = free_size h x)"
    proof -
      have "x \<in> (uss(c := uss c - {u})) d \<longleftrightarrow> x \<in> uss d \<and> x \<noteq> u" if "d \<in> set cs" for d x
        using nu [OF that] by (cases "d = c") auto
      then show ?thesis using h'(3) by (intro bex_cong refl iffI; elim bexE conjE; metis)
    qed
    then show "(A(p := None)) q = Some m \<longleftrightarrow>
        (\<exists>d \<in> set cs. \<exists>x \<in> (uss(c := uss c - {u})) d. q = x + HDR \<and> m = free_size h' x)"
      unfolding A u(3) by (auto simp: allocs_Some)
  qed
  then show ?thesis using h'(1) heap_okI [OF h'(2)] by blast
qed

lemma rt_free_sysrq_heap:
  assumes ok: "heap_ok h A"
  shows "\<exists>h'. rt_free_sysrq_handler h = Some h' \<and> heap_ok h' A"
proof -
  obtain cs fls uss where m: "mm_ok h cs fls uss" and A: "A = allocs h cs uss" using ok by (auto simp: heap_ok_def)
  obtain h' where h': "rt_free_sysrq_handler h = Some h'" "free_size h' = free_size h"
    "mm_ok h' cs fls uss \<or> (\<exists>c \<in> set cs. uss c = {} \<and> mm_ok h' (remove1 c cs) fls uss)"
    using rt_free_sysrq_handler_step [OF m] by blast
  have d: "distinct cs" using m by (simp add: mm_ok_def)
  have "heap_ok h' A" using h'(3)
  proof
    assume "\<exists>c \<in> set cs. uss c = {} \<and> mm_ok h' (remove1 c cs) fls uss"
    then obtain c where c: "uss c = {}" "mm_ok h' (remove1 c cs) fls uss" by blast
    have "A = allocs h' (remove1 c cs) uss"
      unfolding A using d c(1) h'(2) by (auto simp: allocs_def fun_eq_iff)
    then show ?thesis by (rule heap_okI [OF c(2)])
  qed (use A h'(2) in \<open>auto simp: heap_ok_def allocs_def fun_eq_iff intro!: exI\<close>)
  then show ?thesis using h'(1) by blast
qed

interpretation mm: allocator heap_ok rt_malloc rt_free rt_free_sysrq_handler round_size
proof unfold_locales
  show "p + n \<le> q \<or> q + m \<le> p" if ok: "heap_ok h A" and pq: "A p = Some n" "A q = Some m" "p \<noteq> q" for h A p q n m
  proof -
    obtain cs fls uss where m: "mm_ok h cs fls uss" and A: "A = allocs h cs uss" using ok by (auto simp: heap_ok_def)
    show ?thesis using allocs_apart [OF m] pq unfolding A by fastforce
  qed
qed (fact rt_malloc_heap rt_free_heap rt_free_sysrq_heap)+

section \<open>Properties\<close>

text \<open>Clients that allocate and release, and Linux that takes chunks back in between.\<close>

primrec mm_run :: "(nat + addr) option list \<Rightarrow> heap \<Rightarrow> (addr \<Rightarrow> nat option) \<Rightarrow> (heap \<times> (addr \<Rightarrow> nat option)) option" where
  "mm_run [] h A = Some (h, A)"
| "mm_run (e # es) h A = (case e of
     None \<Rightarrow> do { h1 \<leftarrow> rt_free_sysrq_handler h; mm_run es h1 A }
   | Some (Inl n) \<Rightarrow> do { (p, h1) \<leftarrow> rt_malloc n h; mm_run es h1 (if p = 0 then A else A(p \<mapsto> round_size n)) }
   | Some (Inr p) \<Rightarrow>
       if A p = None \<or> A p = Some 0 then mm_run es h A
       else do { h1 \<leftarrow> rt_free p h; mm_run es h1 (A(p := None)) })"

lemma mm_run_eq: "mm_run es = mm.run es"
proof (induction es)
  case (Cons e es)
  show ?case unfolding fun_eq_iff mm_run.simps mm.run.simps Cons by (intro allI refl)
qed (simp add: fun_eq_iff)

definition no_overlap :: "(addr \<Rightarrow> nat option) \<Rightarrow> bool" where
  "no_overlap A \<longleftrightarrow> (\<forall>p q n m. A p = Some n \<longrightarrow> A q = Some m \<longrightarrow> p \<noteq> q \<longrightarrow> p + n \<le> q \<or> q + m \<le> p)"

lemma heap_ok_no_overlap: "heap_ok h A \<Longrightarrow> no_overlap A"
  unfolding no_overlap_def using mm.apart by blast


text \<open>C36: when a free block is large enough \<^verbatim>\<open>rt_malloc\<close> returns an
  address not in use, of a block of the rounded size, and every other block in use stays as it
  is.\<close>

theorem rt_malloc_ok:
  assumes "mm_ok h cs fls uss" and "c \<in> set cs" and "b \<in> set (fls c)" and "round_size n \<le> free_size h b"
  shows "\<exists>p h'. rt_malloc n h = Some (p, h') \<and> p \<noteq> 0 \<and> allocs h cs uss p = None
    \<and> heap_ok h' ((allocs h cs uss)(p \<mapsto> round_size n))"
proof -
  have "chunk_ok h c (fls c) (uss c)" "chk_limit h c = granularity h" using assms by (simp_all add: mm_ok_def)
  then have "round_size n \<le> granularity h - OVERHEAD" using chunk_ok_range [of h c "fls c" "uss c" b] assms(3,4) by auto
  moreover have "\<exists>c \<in> set cs. \<exists>b \<in> set (fls c). round_size n \<le> free_size h b" using assms by blast
  ultimately obtain d h' where p: "rt_malloc n h = Some (d + HDR, h')" using rt_malloc_step [OF assms(1)] by blast
  have "heap_ok h (allocs h cs uss)" using assms(1) by (rule heap_okI) simp
  then show ?thesis using rt_malloc_heap [of h "allocs h cs uss" n] p by auto
qed



end
