(* ===== verification/Registry.thy ===== *)
theory Registry
  imports Rtai_Prelude
begin

text \<open>
  The registry of named objects \<^verbatim>\<open>newlxrt/registry.c\<close> and the coding of names as numbers
  \<^verbatim>\<open>include/rtai_nam2num.h\<close>.  Addresses and names are natural numbers, 0 for NULL and for no name;
  \<^verbatim>\<open>struct task_struct\<close> pointers are natural numbers too, and \<open>pid_of\<close> gives their \<^verbatim>\<open>pid\<close>.  The
  registry refines a finite map from names (interface \<open>name_map\<close>).
\<close>

section \<open>Names and numbers\<close>

text \<open>The codes of characters, as \<^verbatim>\<open>int c\<close>; a name is a string without NUL.\<close>

definition code_of :: "char \<Rightarrow> nat" where
  "code_of ch = (let c = of_char ch :: nat in
     if 97 \<le> c \<and> c \<le> 122 then c + 11 - 97
     else if 65 \<le> c \<and> c \<le> 90 then c + 11 - 65
     else if 48 \<le> c \<and> c \<le> 57 then c - 47
     else if c = 95 then 37 else 38)"

text \<open>\<^verbatim>\<open>retval = retval*39 + c\<close> on 32 bits, for the first six characters.\<close>

definition nam2num :: "string \<Rightarrow> nat" where
  "nam2num name =
     (if name = [] then 0xFFFFFFFF
      else foldl (\<lambda>r ch. (r * 39 + code_of ch) mod 2 ^ 32) 0 (take 6 name))"

definition char_of_code :: "nat \<Rightarrow> char" where
  "char_of_code c = (if c < 37 then (if c > 10 then char_of (c + 65 - 11) else char_of (c + 48 - 1))
     else if c = 37 then CHR ''_'' else CHR ''$'')"

text \<open>The buffer is filled from its end; \<open>n\<close> places are left, \<open>acc\<close> has been written.\<close>

primrec num2nam_loop :: "nat \<Rightarrow> nat \<Rightarrow> string \<Rightarrow> string" where
  "num2nam_loop 0 num acc = acc"
| "num2nam_loop (Suc n) num acc =
     (if num \<noteq> 0 then num2nam_loop n (num div 39) (char_of_code (num - num div 39 * 39) # acc) else acc)"

definition num2nam :: "nat \<Rightarrow> string" where
  "num2nam num = (if num = 0xFFFFFFFF then [] else num2nam_loop 6 num [])"

text \<open>The characters that survive: capitals, digits, underscore and dollar.\<close>

definition name_char :: "char \<Rightarrow> bool" where
  "name_char ch \<longleftrightarrow> (let c = of_char ch :: nat in
     65 \<le> c \<and> c \<le> 90 \<or> 48 \<le> c \<and> c \<le> 57 \<or> c = 95 \<or> c = 36)"

lemma code_of_range: "1 \<le> code_of ch \<and> code_of ch \<le> 38"
  by (auto simp: code_of_def Let_def)

lemma char_of_code_of: "name_char ch \<Longrightarrow> char_of_code (code_of ch) = ch"
proof -
  assume n: "name_char ch"
  let ?c = "of_char ch :: nat"
  have e: "char_of ?c = ch" by (rule char_of_char)
  consider "65 \<le> ?c" "?c \<le> 90" | "48 \<le> ?c" "?c \<le> 57" | "?c = 95" | "?c = 36"
    using n by (auto simp: name_char_def Let_def)
  then show ?thesis
  proof cases
    case 1
    then have "code_of ch = ?c + 11 - 65" by (simp add: code_of_def Let_def)
    moreover have "10 < ?c + 11 - 65" "?c + 11 - 65 < 37" "?c + 11 - 65 + 65 - 11 = ?c" using 1 by linarith+
    ultimately have "char_of_code (code_of ch) = char_of ?c" by (simp only: char_of_code_def if_True)
    then show ?thesis using e by simp
  next
    case 2
    then have "code_of ch = ?c - 47" by (simp add: code_of_def Let_def)
    moreover have "\<not> 10 < ?c - 47" "?c - 47 < 37" "?c - 47 + 48 - 1 = ?c" using 2 by linarith+
    ultimately have "char_of_code (code_of ch) = char_of ?c" by (simp only: char_of_code_def if_True if_False)
    then show ?thesis using e by simp
  next
    case 3
    then have "code_of ch = 37" by (simp add: code_of_def Let_def)
    moreover have "of_char ch = (of_char (CHR ''_'') :: nat)" using 3 by simp
    then have "ch = CHR ''_''" by (simp only: of_char_eq_iff)
    ultimately show ?thesis by (simp add: char_of_code_def)
  next
    case 4
    then have "code_of ch = 38" by (simp add: code_of_def Let_def)
    moreover have "of_char ch = (of_char (CHR ''$'') :: nat)" using 4 by simp
    then have "ch = CHR ''$''" by (simp only: of_char_eq_iff)
    ultimately show ?thesis by (simp add: char_of_code_def)
  qed
qed

text \<open>The number of a name, without the reduction modulo \<^verbatim>\<open>2^32\<close>, which six characters do not need.\<close>

definition number :: "string \<Rightarrow> nat" where
  "number cs = foldl (\<lambda>r ch. r * 39 + code_of ch) 0 cs"

lemma number_snoc: "number (cs @ [ch]) = number cs * 39 + code_of ch"
  by (simp add: number_def)

lemma number_less: "number cs < 39 ^ length cs"
proof (induction cs rule: rev_induct)
  case Nil
  then show ?case by (simp add: number_def)
next
  case (snoc ch cs)
  then have "number cs * 39 + code_of ch < 39 ^ length cs * 39" using code_of_range [of ch] by linarith
  then show ?case by (simp add: number_snoc mult.commute)
qed

lemma number_mod:
  "length cs \<le> 6 \<Longrightarrow> foldl (\<lambda>r ch. (r * 39 + code_of ch) mod 2 ^ 32) 0 cs = number cs"
proof (induction cs rule: rev_induct)
  case Nil
  then show ?case by (simp add: number_def)
next
  case (snoc ch cs)
  have "number (cs @ [ch]) < 39 ^ length (cs @ [ch])" by (rule number_less)
  also have "\<dots> \<le> 39 ^ 6" using snoc.prems by (intro power_increasing) simp_all
  also have "(39 ^ 6 :: nat) < 2 ^ 32" by simp
  finally have "number (cs @ [ch]) mod 2 ^ 32 = number (cs @ [ch])" by simp
  then show ?case using snoc by (simp add: number_snoc)
qed

lemma num2nam_loop_number:
  "length cs \<le> n \<Longrightarrow> \<forall>ch \<in> set cs. name_char ch \<Longrightarrow> num2nam_loop n (number cs) acc = cs @ acc"
proof (induction cs arbitrary: n acc rule: rev_induct)
  case Nil
  then show ?case by (cases n) (simp_all add: number_def)
next
  case (snoc ch cs)
  then obtain m where n: "n = Suc m" "length cs \<le> m" by (cases n) auto
  have c: "1 \<le> code_of ch" "code_of ch < 39" using code_of_range [of ch] by simp_all
  have d: "number (cs @ [ch]) div 39 = number cs" "number (cs @ [ch]) - number cs * 39 = code_of ch"
    "number (cs @ [ch]) \<noteq> 0"
    using c by (simp_all add: number_snoc)
  show ?case using d n snoc.IH [OF n(2)] snoc.prems(2) char_of_code_of by simp
qed

text \<open>C39: a name of at most six capitals, digits, underscores and dollars is read back from
  its number.\<close>

theorem num2nam_nam2num:
  assumes "name \<noteq> []" "length name \<le> 6" "\<forall>ch \<in> set name. name_char ch"
  shows "num2nam (nam2num name) = name"
proof -
  have e: "nam2num name = number name" using assms number_mod [of name] by (simp add: nam2num_def)
  have "number name < 39 ^ length name" by (rule number_less)
  also have "\<dots> \<le> 39 ^ 6" using assms(2) by (intro power_increasing) simp_all
  finally have "number name \<noteq> 0xFFFFFFFF" by simp
  then show ?thesis using num2nam_loop_number [of name 6 "[]"] assms e by (simp add: num2nam_def)
qed

section \<open>The table\<close>

abbreviation MAX_SLOTS :: nat where "MAX_SLOTS \<equiv> 100"

record rt_registry_entry =
  e_name :: nat
  e_adr :: nat
  e_tsk :: nat
  e_pid :: int
  e_type :: int

record registry =
  lxrt_list :: "nat \<Rightarrow> rt_registry_entry"
  nameseed :: nat

text \<open>The first slot, from 1, that satisfies \<open>p\<close>.\<close>

definition find_slot :: "(rt_registry_entry \<Rightarrow> bool) \<Rightarrow> registry \<Rightarrow> nat option" where
  "find_slot p r = List.find (\<lambda>i. p (lxrt_list r i)) [1..<MAX_SLOTS + 1]"

definition set_slot :: "nat \<Rightarrow> rt_registry_entry \<Rightarrow> registry \<Rightarrow> registry" where
  "set_slot i e r = r\<lparr>lxrt_list := (lxrt_list r)(i := e)\<rparr>"

definition registr :: "(nat \<Rightarrow> int) \<Rightarrow> nat \<Rightarrow> nat \<Rightarrow> int \<Rightarrow> nat \<Rightarrow> registry \<Rightarrow> nat \<times> registry" where
  "registr pid_of name adr typ tsk r =
     (case find_slot (\<lambda>e. e_name e = 0) r of
        None \<Rightarrow> (0, r)
      | Some i \<Rightarrow> (i, set_slot i \<lparr>e_name = name, e_adr = adr, e_tsk = tsk,
                     e_pid = (if tsk \<noteq> 0 then pid_of tsk else 0), e_type = typ\<rparr> r))"

definition drg_slot :: "(rt_registry_entry \<Rightarrow> bool) \<Rightarrow> registry \<Rightarrow> nat \<times> registry" where
  "drg_slot p r = (case find_slot p r of None \<Rightarrow> (0, r) | Some i \<Rightarrow> (i, set_slot i (lxrt_list r 0) r))"

definition rt_drg_on_name :: "nat \<Rightarrow> registry \<Rightarrow> nat \<times> registry" where
  "rt_drg_on_name name = drg_slot (\<lambda>e. e_name e = name)"

definition rt_drg_on_adr :: "nat \<Rightarrow> registry \<Rightarrow> nat \<times> registry" where
  "rt_drg_on_adr adr = drg_slot (\<lambda>e. e_adr e = adr)"

definition rt_get_name :: "nat \<Rightarrow> registry \<Rightarrow> nat \<times> registry" where
  "rt_get_name adr r =
     (if adr = 0 then (nameseed r, r\<lparr>nameseed := (nameseed r + 1) mod 2 ^ 32\<rparr>)
      else (case find_slot (\<lambda>e. e_adr e = adr) r of None \<Rightarrow> (0, r) | Some i \<Rightarrow> (e_name (lxrt_list r i), r)))"

definition rt_get_adr :: "nat \<Rightarrow> registry \<Rightarrow> nat" where
  "rt_get_adr name r =
     (case find_slot (\<lambda>e. e_name e = name) r of None \<Rightarrow> 0 | Some i \<Rightarrow> e_adr (lxrt_list r i))"

definition rt_get_type :: "nat \<Rightarrow> registry \<Rightarrow> int" where
  "rt_get_type name r =
     (case find_slot (\<lambda>e. e_name e = name) r of None \<Rightarrow> - 22 | Some i \<Rightarrow> e_type (lxrt_list r i))"

definition is_process_registered :: "(nat \<Rightarrow> int) \<Rightarrow> nat \<Rightarrow> registry \<Rightarrow> nat" where
  "is_process_registered pid_of tsk r =
     (case find_slot (\<lambda>e. e_tsk e = tsk \<and> e_pid e = (if tsk \<noteq> 0 then pid_of tsk else 0)) r of
        None \<Rightarrow> 0 | Some i \<Rightarrow> e_name (lxrt_list r i))"

definition rt_register :: "(nat \<Rightarrow> int) \<Rightarrow> nat \<Rightarrow> nat \<Rightarrow> int \<Rightarrow> nat \<Rightarrow> registry \<Rightarrow> nat \<times> registry" where
  "rt_register pid_of name adr typ tsk r =
     (if rt_get_adr name r \<noteq> 0 then (0, r) else registr pid_of name adr typ tsk r)"

definition rt_get_registry_slot :: "nat \<Rightarrow> registry \<Rightarrow> rt_registry_entry option" where
  "rt_get_registry_slot slot r =
     (if slot > 0 \<and> slot \<le> MAX_SLOTS \<and> e_name (lxrt_list r slot) \<noteq> 0 then Some (lxrt_list r slot) else None)"

section \<open>The registry is a map\<close>

lemma find_slot_Some:
  "find_slot p r = Some i \<Longrightarrow> 1 \<le> i \<and> i \<le> MAX_SLOTS \<and> p (lxrt_list r i)"
  by (auto simp: find_slot_def find_Some_iff)

lemma find_slot_None: "find_slot p r = None \<longleftrightarrow> (\<forall>i. 1 \<le> i \<and> i \<le> MAX_SLOTS \<longrightarrow> \<not> p (lxrt_list r i))"
  by (auto simp: find_slot_def find_None_iff)

lemma find_slot_unique:
  assumes "1 \<le> i" "i \<le> MAX_SLOTS" "p (lxrt_list r i)"
    and "\<And>j. 1 \<le> j \<Longrightarrow> j \<le> MAX_SLOTS \<Longrightarrow> p (lxrt_list r j) \<Longrightarrow> j = i"
  shows "find_slot p r = Some i"
proof (cases "find_slot p r")
  case None
  then show ?thesis using assms(1-3) find_slot_None by blast
next
  case (Some j)
  then show ?thesis using find_slot_Some [OF Some] assms(4) by auto
qed

definition null_entry :: rt_registry_entry where
  "null_entry = \<lparr>e_name = 0, e_adr = 0, e_tsk = 0, e_pid = 0, e_type = 0\<rparr>"

definition registry_ok :: "registry \<Rightarrow> bool" where
  "registry_ok r \<longleftrightarrow> lxrt_list r 0 = null_entry
     \<and> (\<forall>i. 1 \<le> i \<longrightarrow> i \<le> MAX_SLOTS \<longrightarrow> e_name (lxrt_list r i) \<noteq> 0 \<longrightarrow> e_adr (lxrt_list r i) \<noteq> 0)
     \<and> (\<forall>i j. 1 \<le> i \<longrightarrow> i \<le> MAX_SLOTS \<longrightarrow> 1 \<le> j \<longrightarrow> j \<le> MAX_SLOTS \<longrightarrow> e_name (lxrt_list r i) \<noteq> 0 \<longrightarrow>
          e_name (lxrt_list r i) = e_name (lxrt_list r j) \<longrightarrow> i = j)"

text \<open>The map the table stands for.\<close>

definition reg_map :: "registry \<Rightarrow> nat \<rightharpoonup> nat \<times> int" where
  "reg_map r name = (if name = 0 then None else
     map_option (\<lambda>i. (e_adr (lxrt_list r i), e_type (lxrt_list r i))) (find_slot (\<lambda>e. e_name e = name) r))"

definition room :: "registry \<Rightarrow> bool" where
  "room r \<longleftrightarrow> find_slot (\<lambda>e. e_name e = 0) r \<noteq> None"

lemma reg_mapI:
  assumes "registry_ok r" "1 \<le> i" "i \<le> MAX_SLOTS" "e_name (lxrt_list r i) \<noteq> 0"
  shows "reg_map r (e_name (lxrt_list r i)) = Some (e_adr (lxrt_list r i), e_type (lxrt_list r i))"
proof -
  have "find_slot (\<lambda>e. e_name e = e_name (lxrt_list r i)) r = Some i"
    by (rule find_slot_unique) (use assms in \<open>auto simp: registry_ok_def\<close>)
  then show ?thesis using assms(4) by (simp add: reg_map_def)
qed

lemma reg_map_None: "name \<noteq> 0 \<Longrightarrow> reg_map r name = None \<longleftrightarrow> (\<forall>i. 1 \<le> i \<and> i \<le> MAX_SLOTS \<longrightarrow> e_name (lxrt_list r i) \<noteq> name)"
  by (simp add: reg_map_def find_slot_None)

lemma reg_map_get:
  "registry_ok r \<Longrightarrow> name \<noteq> 0 \<Longrightarrow> rt_get_adr name r = (case reg_map r name of None \<Rightarrow> 0 | Some (a, t) \<Rightarrow> a)"
  "registry_ok r \<Longrightarrow> name \<noteq> 0 \<Longrightarrow> rt_get_type name r = (case reg_map r name of None \<Rightarrow> - 22 | Some (a, t) \<Rightarrow> t)"
  by (simp_all add: rt_get_adr_def rt_get_type_def reg_map_def split: option.split)

text \<open>Which table entries the map has.\<close>

lemma reg_map_iff:
  assumes "registry_ok r" "name \<noteq> 0"
  shows "reg_map r name = Some (a, t) \<longleftrightarrow>
    (\<exists>i. 1 \<le> i \<and> i \<le> MAX_SLOTS \<and> e_name (lxrt_list r i) = name \<and> e_adr (lxrt_list r i) = a \<and> e_type (lxrt_list r i) = t)"
proof
  assume "reg_map r name = Some (a, t)"
  then obtain i where i: "find_slot (\<lambda>e. e_name e = name) r = Some i"
    "(a, t) = (e_adr (lxrt_list r i), e_type (lxrt_list r i))" using assms(2) by (auto simp: reg_map_def)
  then show "\<exists>i. 1 \<le> i \<and> i \<le> MAX_SLOTS \<and> e_name (lxrt_list r i) = name \<and> e_adr (lxrt_list r i) = a \<and> e_type (lxrt_list r i) = t"
    using find_slot_Some [OF i(1)] by auto
next
  assume "\<exists>i. 1 \<le> i \<and> i \<le> MAX_SLOTS \<and> e_name (lxrt_list r i) = name \<and> e_adr (lxrt_list r i) = a \<and> e_type (lxrt_list r i) = t"
  then show "reg_map r name = Some (a, t)" using reg_mapI [OF assms(1)] assms(2) by auto
qed

lemma reg_map_upd:
  assumes "registry_ok (set_slot i e r)" "1 \<le> i" "i \<le> MAX_SLOTS" "n \<noteq> 0"
  shows "reg_map (set_slot i e r) n = Some (a, t) \<longleftrightarrow> e_name e = n \<and> e_adr e = a \<and> e_type e = t
    \<or> (\<exists>j. j \<noteq> i \<and> 1 \<le> j \<and> j \<le> MAX_SLOTS \<and> e_name (lxrt_list r j) = n \<and> e_adr (lxrt_list r j) = a \<and> e_type (lxrt_list r j) = t)"
proof -
  have l: "lxrt_list (set_slot i e r) j = (if j = i then e else lxrt_list r j)" for j by (simp add: set_slot_def)
  show ?thesis (is "_ \<longleftrightarrow> ?E \<or> (\<exists>j. ?Q j)")
  proof
    assume "reg_map (set_slot i e r) n = Some (a, t)"
    then obtain j where j: "1 \<le> j" "j \<le> MAX_SLOTS" "e_name (if j = i then e else lxrt_list r j) = n"
      "e_adr (if j = i then e else lxrt_list r j) = a" "e_type (if j = i then e else lxrt_list r j) = t"
      unfolding reg_map_iff [OF assms(1,4)] l by blast
    then show "?E \<or> (\<exists>j. ?Q j)" by (cases "j = i") auto
  next
    assume "?E \<or> (\<exists>j. ?Q j)"
    then obtain j where "1 \<le> j" "j \<le> MAX_SLOTS" "e_name (if j = i then e else lxrt_list r j) = n"
      "e_adr (if j = i then e else lxrt_list r j) = a" "e_type (if j = i then e else lxrt_list r j) = t"
      using assms(2,3) by (elim disjE exE conjE) (auto split: if_splits)
    then show "reg_map (set_slot i e r) n = Some (a, t)"
      unfolding reg_map_iff [OF assms(1,4)] l by blast
  qed
qed

lemma option_pair_eqI: "(\<And>a b. x = Some (a, b) \<longleftrightarrow> y = Some (a, b)) \<Longrightarrow> x = y"
  by (cases x; cases y) force+

lemma reg_map_0 [simp]: "reg_map r 0 = None"
  by (simp add: reg_map_def)

text \<open>Registering a new name adds it to the map.\<close>

lemma registr_ok:
  assumes ok: "registry_ok r" and name: "name \<noteq> 0" "reg_map r name = None" and adr: "adr \<noteq> 0" and room: "room r"
  shows "registry_ok (snd (registr pid_of name adr typ tsk r)) \<and> 0 < fst (registr pid_of name adr typ tsk r)
    \<and> reg_map (snd (registr pid_of name adr typ tsk r)) = (reg_map r)(name \<mapsto> (adr, typ))"
proof -
  obtain i where i: "find_slot (\<lambda>e. e_name e = 0) r = Some i" using room by (auto simp: room_def)
  note ii = find_slot_Some [OF i]
  let ?e = "\<lparr>e_name = name, e_adr = adr, e_tsk = tsk, e_pid = (if tsk \<noteq> 0 then pid_of tsk else 0), e_type = typ\<rparr>"
  let ?r = "set_slot i ?e r"
  have e: "registr pid_of name adr typ tsk r = (i, ?r)" using i by (simp add: registr_def)
  have l: "lxrt_list ?r = (lxrt_list r)(i := ?e)" by (simp add: set_slot_def)
  have new: "\<forall>j. 1 \<le> j \<and> j \<le> MAX_SLOTS \<longrightarrow> e_name (lxrt_list r j) \<noteq> name" using name reg_map_None by blast
  have ok': "registry_ok ?r" using ok ii new adr name(1) unfolding registry_ok_def l by auto
  have "reg_map ?r n = ((reg_map r)(name \<mapsto> (adr, typ))) n" for n
  proof (cases "n = 0")
    case True
    then show ?thesis using name(1) by simp
  next
    case False
    show ?thesis
    proof (rule option_pair_eqI)
      fix a b
      show "reg_map ?r n = Some (a, b) \<longleftrightarrow> ((reg_map r)(name \<mapsto> (adr, typ))) n = Some (a, b)"
      proof (cases "n = name")
        case True
        then show ?thesis using reg_map_upd [OF ok' _ _ False, of a b] ii new by auto
      next
        case ne: False
        have "(\<exists>j. j \<noteq> i \<and> 1 \<le> j \<and> j \<le> MAX_SLOTS \<and> e_name (lxrt_list r j) = n \<and> e_adr (lxrt_list r j) = a \<and> e_type (lxrt_list r j) = b)
          \<longleftrightarrow> reg_map r n = Some (a, b)"
          unfolding reg_map_iff [OF ok False] using ii False by metis
        then show ?thesis using reg_map_upd [OF ok' _ _ False, of a b] ii ne by simp
      qed
    qed
  qed
  then show ?thesis using e ok' ii by auto
qed

text \<open>Deregistering a name, or an address, takes it out of the map.\<close>

lemma drg_ok:
  assumes ok: "registry_ok r"
  shows "registry_ok (snd (drg_slot p r))"
  using ok by (auto simp: drg_slot_def set_slot_def registry_ok_def null_entry_def split: option.split)

lemma rt_drg_on_name_map:
  assumes ok: "registry_ok r" and name: "name \<noteq> 0"
  shows "reg_map (snd (rt_drg_on_name name r)) = (reg_map r)(name := None)
    \<and> (fst (rt_drg_on_name name r) \<noteq> 0 \<longleftrightarrow> reg_map r name \<noteq> None)"
proof (cases "find_slot (\<lambda>e. e_name e = name) r")
  case None
  then show ?thesis using name by (auto simp: rt_drg_on_name_def drg_slot_def reg_map_def)
next
  case (Some i)
  note ii = find_slot_Some [OF Some]
  let ?r = "set_slot i (lxrt_list r 0) r"
  have e: "rt_drg_on_name name r = (i, ?r)" using Some by (simp add: rt_drg_on_name_def drg_slot_def)
  have ok': "registry_ok ?r" using drg_ok [OF ok, of "\<lambda>e. e_name e = name"] e by (simp add: rt_drg_on_name_def)
  have n0: "e_name (lxrt_list r 0) = 0" using ok by (simp add: registry_ok_def null_entry_def)
  have u: "j = i" if "1 \<le> j" "j \<le> MAX_SLOTS" "e_name (lxrt_list r j) = name" for j
    using ok that ii name unfolding registry_ok_def by auto
  have "reg_map ?r n = ((reg_map r)(name := None)) n" for n
  proof (cases "n = 0")
    case True
    then show ?thesis by simp
  next
    case False
    show ?thesis
    proof (rule option_pair_eqI)
      fix a b
      show "reg_map ?r n = Some (a, b) \<longleftrightarrow> ((reg_map r)(name := None)) n = Some (a, b)"
      proof (cases "n = name")
        case True
        then show ?thesis using reg_map_upd [OF ok' _ _ False, of a b] ii u False n0 by auto
      next
        case ne: False
        have "(\<exists>j. j \<noteq> i \<and> 1 \<le> j \<and> j \<le> MAX_SLOTS \<and> e_name (lxrt_list r j) = n \<and> e_adr (lxrt_list r j) = a \<and> e_type (lxrt_list r j) = b)
          \<longleftrightarrow> reg_map r n = Some (a, b)"
          unfolding reg_map_iff [OF ok False] using ii ne by metis
        then show ?thesis using reg_map_upd [OF ok' _ _ False, of a b] ii ne False n0 by auto
      qed
    qed
  qed
  then show ?thesis using e ii Some name by (auto simp: reg_map_def)
qed

section \<open>The interface of a name service\<close>

locale name_map =
  fixes ok :: "'r \<Rightarrow> bool" and abs_map :: "'r \<Rightarrow> 'k \<Rightarrow> 'v option" and key :: "'k \<Rightarrow> bool" and val :: "'v \<Rightarrow> bool"
    and has_room :: "'r \<Rightarrow> bool" and put :: "'k \<Rightarrow> 'v \<Rightarrow> 'r \<Rightarrow> 'r" and del :: "'k \<Rightarrow> 'r \<Rightarrow> 'r"
  assumes put_ok: "ok r \<Longrightarrow> key k \<Longrightarrow> val v \<Longrightarrow> ok (put k v r)"
    and put_new: "ok r \<Longrightarrow> key k \<Longrightarrow> val v \<Longrightarrow> has_room r \<Longrightarrow> abs_map r k = None \<Longrightarrow> abs_map (put k v r) = (abs_map r)(k \<mapsto> v)"
    and put_old: "ok r \<Longrightarrow> key k \<Longrightarrow> val v \<Longrightarrow> \<not> has_room r \<or> abs_map r k \<noteq> None \<Longrightarrow> put k v r = r"
    and del_ok: "ok r \<Longrightarrow> ok (del k r)"
    and del_map: "ok r \<Longrightarrow> key k \<Longrightarrow> abs_map (del k r) = (abs_map r)(k := None)"
begin

text \<open>Any sequence of registrations and removals, on the table and on the map.\<close>

primrec run :: "('k \<times> 'v option) list \<Rightarrow> 'r \<Rightarrow> 'r" where
  "run [] r = r"
| "run (e # es) r = run es (case snd e of Some v \<Rightarrow> put (fst e) v r | None \<Rightarrow> del (fst e) r)"

lemma run_ok: "ok r \<Longrightarrow> \<forall>(k, v) \<in> set es. key k \<and> (\<forall>x. v = Some x \<longrightarrow> val x) \<Longrightarrow> ok (run es r)"
proof (induction es arbitrary: r)
  case Nil
  then show ?case by simp
next
  case (Cons e es)
  then show ?case using put_ok del_ok by (cases e; cases "snd e") auto
qed

text \<open>A registered value stays until its own name is removed.\<close>

lemma run_keeps:
  "ok r \<Longrightarrow> \<forall>(k, v) \<in> set es. key k \<and> (\<forall>x. v = Some x \<longrightarrow> val x) \<Longrightarrow> (k, None) \<notin> set es \<Longrightarrow>
     abs_map r k = Some v \<Longrightarrow> abs_map (run es r) k = Some v"
proof (induction es arbitrary: r)
  case Nil
  then show ?case by simp
next
  case (Cons e es)
  obtain k' w where e: "e = (k', w)" by (cases e)
  have k': "key k'" "\<And>x. w = Some x \<Longrightarrow> val x" using Cons.prems(2) e by auto
  show ?case
  proof (cases w)
    case None
    then have "k' \<noteq> k" using Cons.prems(3) e by auto
    then have "abs_map (del k' r) k = Some v" using del_map [OF Cons.prems(1) k'(1)] Cons.prems(4) by simp
    then show ?thesis using Cons.IH [OF del_ok [OF Cons.prems(1)]] Cons.prems(2,3) e None by auto
  next
    case (Some x)
    have "abs_map (put k' x r) k = Some v"
    proof (cases "has_room r \<and> abs_map r k' = None")
      case True
      then have "k' \<noteq> k" using Cons.prems(4) by auto
      then show ?thesis using put_new [OF Cons.prems(1) k'(1) k'(2) [OF Some]] True Cons.prems(4) by simp
    next
      case False
      then have "put k' x r = r" using put_old [OF Cons.prems(1) k'(1) k'(2) [OF Some]] by blast
      then show ?thesis using Cons.prems(4) by simp
    qed
    then show ?thesis
      using Cons.IH [OF put_ok [OF Cons.prems(1) k'(1) k'(2) [OF Some]]] Cons.prems(2,3) e Some by auto
  qed
qed

end

definition put_name :: "nat \<Rightarrow> nat \<times> int \<Rightarrow> registry \<Rightarrow> registry" where
  "put_name name v r = snd (rt_register (\<lambda>_. 0) name (fst v) (snd v) 0 r)"

definition del_name :: "nat \<Rightarrow> registry \<Rightarrow> registry" where
  "del_name name r = snd (rt_drg_on_name name r)"

lemma reg_map_adr: "registry_ok r \<Longrightarrow> reg_map r name = Some (a, t) \<Longrightarrow> a \<noteq> 0"
proof -
  assume ok: "registry_ok r" and s: "reg_map r name = Some (a, t)"
  then have n: "name \<noteq> 0" by (auto intro: ccontr)
  then show "a \<noteq> 0" using s ok reg_map_iff [OF ok n, of a t] unfolding registry_ok_def by auto
qed

lemma rt_register_ok:
  assumes ok: "registry_ok r" and name: "name \<noteq> 0" and adr: "adr \<noteq> 0"
  shows "room r \<Longrightarrow> reg_map r name = None \<Longrightarrow>
      registry_ok (snd (rt_register pid_of name adr typ tsk r)) \<and> 0 < fst (rt_register pid_of name adr typ tsk r)
      \<and> reg_map (snd (rt_register pid_of name adr typ tsk r)) = (reg_map r)(name \<mapsto> (adr, typ))"
    and "\<not> room r \<or> reg_map r name \<noteq> None \<Longrightarrow> rt_register pid_of name adr typ tsk r = (0, r)"
proof -
  have g: "rt_get_adr name r = (case reg_map r name of None \<Rightarrow> 0 | Some (a, t) \<Rightarrow> a)"
    using reg_map_get(1) [OF ok name] .
  show "registry_ok (snd (rt_register pid_of name adr typ tsk r)) \<and> 0 < fst (rt_register pid_of name adr typ tsk r)
      \<and> reg_map (snd (rt_register pid_of name adr typ tsk r)) = (reg_map r)(name \<mapsto> (adr, typ))"
    if "room r" "reg_map r name = None"
    using registr_ok [OF ok name that(2) adr that(1)] that g by (simp add: rt_register_def)
  show "rt_register pid_of name adr typ tsk r = (0, r)" if "\<not> room r \<or> reg_map r name \<noteq> None"
  proof (cases "reg_map r name")
    case None
    then show ?thesis using that g by (auto simp: rt_register_def registr_def room_def)
  next
    case (Some v)
    obtain a t where v: "v = (a, t)" by (cases v)
    then have "a \<noteq> 0" using reg_map_adr [OF ok, of name a t] Some by simp
    then show ?thesis using g Some v by (simp add: rt_register_def)
  qed
qed

interpretation reg: name_map registry_ok reg_map "\<lambda>n. n \<noteq> 0" "\<lambda>v. fst v \<noteq> 0" room put_name del_name
proof unfold_locales
  fix r and k :: nat and v :: "nat \<times> int"
  assume a: "registry_ok r" "k \<noteq> 0" "fst v \<noteq> 0"
  show "registry_ok (put_name k v r)"
    using rt_register_ok [OF a] a by (cases "room r \<and> reg_map r k = None") (auto simp: put_name_def)
  show "reg_map (put_name k v r) = (reg_map r)(k \<mapsto> v)" if "room r" "reg_map r k = None"
    using rt_register_ok(1) [OF a that] by (simp add: put_name_def)
  show "put_name k v r = r" if "\<not> room r \<or> reg_map r k \<noteq> None"
    using rt_register_ok(2) [OF a that] by (simp add: put_name_def)
next
  fix r and k :: nat
  assume a: "registry_ok r"
  show "registry_ok (del_name k r)" using drg_ok [OF a] by (simp add: del_name_def rt_drg_on_name_def)
  show "reg_map (del_name k r) = (reg_map r)(k := None)" if "k \<noteq> 0"
    using rt_drg_on_name_map [OF a that] by (simp add: del_name_def)
qed

text \<open>Removing the name 0 of no object reports a slot that is not in use.\<close>

lemma rt_drg_on_name_0:
  assumes ok: "registry_ok r" and "room r"
  shows "0 < fst (rt_drg_on_name 0 r) \<and> reg_map (snd (rt_drg_on_name 0 r)) = reg_map r"
proof -
  obtain i where i: "find_slot (\<lambda>e. e_name e = 0) r = Some i" using assms(2) by (auto simp: room_def)
  note ii = find_slot_Some [OF i]
  let ?r = "set_slot i (lxrt_list r 0) r"
  have e: "rt_drg_on_name 0 r = (i, ?r)" using i by (simp add: rt_drg_on_name_def drg_slot_def)
  have ok': "registry_ok ?r" using drg_ok [OF ok, of "\<lambda>e. e_name e = 0"] e by (simp add: rt_drg_on_name_def)
  have n0: "e_name (lxrt_list r 0) = 0" using ok by (simp add: registry_ok_def null_entry_def)
  have "reg_map ?r n = reg_map r n" for n
  proof (cases "n = 0")
    case False
    show ?thesis
    proof (rule option_pair_eqI)
      fix a b
      have "(\<exists>j. j \<noteq> i \<and> 1 \<le> j \<and> j \<le> MAX_SLOTS \<and> e_name (lxrt_list r j) = n \<and> e_adr (lxrt_list r j) = a \<and> e_type (lxrt_list r j) = b)
        \<longleftrightarrow> reg_map r n = Some (a, b)"
        unfolding reg_map_iff [OF ok False] using ii False by metis
      then show "reg_map ?r n = Some (a, b) \<longleftrightarrow> reg_map r n = Some (a, b)"
        using reg_map_upd [OF ok' _ _ False, of a b] ii n0 False by simp
    qed
  qed simp
  then show ?thesis using e ii by auto
qed

end
