(* ===== verification/Example_Mem.thy ===== *)
theory Example_Mem
  imports Mem_Alloc Registry
begin

text \<open>
  The properties of the memory manager applied to a heap of two chunks of 256 bytes: chunk 1024
  with a block of 32 bytes in use and the rest free, chunk 2048 all free.
\<close>

definition demo_heap :: heap where
  "demo_heap = \<lparr>chk_addr = id, next_chk = (\<lambda>_. 0)(1024 := 2048), chk_limit = (\<lambda>_. 256),
     free_list = (\<lambda>_. 0)(1024 := 1088, 2048 := 2064),
     blk_chk = (\<lambda>_. 0)(1040 := 1024, 1088 := 1024, 2064 := 2048),
     next_free = (\<lambda>_. 0)(1040 := 1040), free_size = (\<lambda>_. 0)(1040 := 32, 1088 := 176, 2064 := 224),
     chk_list = 1024, granularity = 256, low_chk_ref = 1, low_data_mark = 64, extra_chks = 1,
     max_allocated = 32, total_available = 512, sys_malloc_calls = 2, sys_free_calls = 0,
     memory_leak = 32, memory_overhead = 80, rt_mem_mgr_init = True, alloc_no_chk = 0, free_no_chk = 0,
     mm_pends = [], released = []\<rparr>"

definition demo_free :: "addr \<Rightarrow> addr list" where
  "demo_free = (\<lambda>_. [])(1024 := [1088], 2048 := [2064])"

definition demo_used :: "addr \<Rightarrow> addr set" where
  "demo_used = (\<lambda>_. {})(1024 := {1040})"

lemma demo_heap_fields [simp]:
  "granularity demo_heap = 256" "free_size demo_heap = (\<lambda>_. 0)(1040 := 32, 1088 := 176, 2064 := 224)"
  "memory_leak demo_heap = 32" "released demo_heap = []"
  by (simp_all add: demo_heap_def)

lemma demo_heap_ok: "mm_ok demo_heap [1024, 2048] demo_free demo_used"
  by (simp add: mm_ok_def chunk_ok_def layout_def demo_heap_def demo_free_def demo_used_def)

lemma demo_heap_allocs: "heap_ok demo_heap ((\<lambda>_. None)(1056 \<mapsto> 32))"
  by (rule heap_okI [OF demo_heap_ok]) (auto simp: allocs_def demo_used_def fun_eq_iff)

theorem rt_malloc_ok_witness:
  "\<exists>p h'. rt_malloc 40 demo_heap = Some (p, h') \<and> p \<noteq> 0
    \<and> heap_ok h' ((allocs demo_heap [1024, 2048] demo_used)(p \<mapsto> 48))"
proof -
  have "round_size 40 = 48" by (simp add: round_size_def)
  then show ?thesis using rt_malloc_ok [OF demo_heap_ok, of 1024 1088 40] by (auto simp: demo_free_def)
qed




theorem num2nam_nam2num_witness: "num2nam (nam2num ''SEM_01'') = ''SEM_01''"
  by (rule num2nam_nam2num) (simp_all add: name_char_def)

end
