(* ===== verification/Pqueues.thy ===== *)
theory Pqueues
  imports Rtai_Kernel Mem_Mgr
begin

text \<open>
  The POSIX message queues of \<^verbatim>\<open>posix/src/rtai_pqueue.c\<close>: a table of queues known by name, a table
  of the queues each task has opened, and for every queue a block of message slots obtained
  from the memory manager, linked in the order of the priorities.

  The headers and the bytes of the messages and the \<^verbatim>\<open>Z_APPS\<close> structures live in memory, at the
  addresses the memory manager gives out: they are functions of the address, one for each kind of
  object.  A NULL dereference is \<open>None\<close>, or \<open>Stuck\<close> in the calls that may block.  The mutexes make
  what lies between their locking and unlocking atomic; \<^verbatim>\<open>pthread_cond_wait\<close> releases the mutex of
  the queue and gives the processor away, the call goes on from whatever state it finds when it
  has the mutex again.  The calling task \<^verbatim>\<open>rt_whoami()\<close> is the argument \<open>me\<close>.
\<close>

section \<open>Data\<close>

abbreviation MQ_OPEN_MAX :: nat where "MQ_OPEN_MAX \<equiv> 8"
abbreviation MQ_PRIO_MAX :: nat where "MQ_PRIO_MAX \<equiv> 32"
abbreviation MQ_BLOCK :: int where "MQ_BLOCK \<equiv> 0"
abbreviation MQ_NONBLOCK :: int where "MQ_NONBLOCK \<equiv> 1"
abbreviation MQ_NAME_MAX :: nat where "MQ_NAME_MAX \<equiv> 80"
abbreviation MAX_PQUEUES :: nat where "MAX_PQUEUES \<equiv> 4"
abbreviation MAX_MSGSIZE :: int where "MAX_MSGSIZE \<equiv> 50"
abbreviation MAX_MSGS :: int where "MAX_MSGS \<equiv> 10"
abbreviation MAX_RT_TASKS :: nat where "MAX_RT_TASKS \<equiv> 128"
abbreviation MSG_HDR_SIZE :: nat where "MSG_HDR_SIZE \<equiv> 16"
abbreviation SIZEOF_Z_APPS :: nat where "SIZEOF_Z_APPS \<equiv> 16"

text \<open>The flags and error numbers of Linux.\<close>

abbreviation O_WRONLY :: "32 word" where "O_WRONLY \<equiv> 1"
abbreviation O_RDWR :: "32 word" where "O_RDWR \<equiv> 2"
abbreviation O_CREAT :: "32 word" where "O_CREAT \<equiv> 64"
abbreviation O_EXCL :: "32 word" where "O_EXCL \<equiv> 128"
abbreviation O_NONBLOCK :: "32 word" where "O_NONBLOCK \<equiv> 2048"
abbreviation S_IRUSR :: "32 word" where "S_IRUSR \<equiv> 256"
abbreviation S_IWUSR :: "32 word" where "S_IWUSR \<equiv> 128"
abbreviation S_IRGRP :: "32 word" where "S_IRGRP \<equiv> 32"
abbreviation S_IWGRP :: "32 word" where "S_IWGRP \<equiv> 16"
abbreviation ENOENT :: int where "ENOENT \<equiv> 2"
abbreviation EBADF :: int where "EBADF \<equiv> 9"
abbreviation EAGAIN :: int where "EAGAIN \<equiv> 11"
abbreviation EEXIST :: int where "EEXIST \<equiv> 17"
abbreviation EMFILE :: int where "EMFILE \<equiv> 24"
abbreviation ENAMETOOLONG :: int where "ENAMETOOLONG \<equiv> 36"
abbreviation ENOBUFS :: int where "ENOBUFS \<equiv> 105"
abbreviation PQ_ERROR :: int where "PQ_ERROR \<equiv> -1"

datatype queue_kind = POSIX | VxWORKS

datatype queueing_policy = FIFO_BASED | PRIORITY_BASED

datatype q_access_mode = FOR_READ | FOR_WRITE

record mq_attr =
  mq_maxmsg :: int
  mq_msgsize :: int
  mq_flags :: int
  mq_curmsgs :: int

record msg_hdr =
  in_use :: bool
  hdr_size :: nat
  hdr_prio :: nat
  hdr_next :: addr

record q_ctrl =
  q_base :: addr
  q_head :: addr
  q_tail :: addr
  q_attrs :: mq_attr

record msg_queue =
  q_owner :: "tid option"
  open_count :: int
  q_name :: string
  q_id :: nat
  marked_for_deletion :: bool
  q_data :: q_ctrl
  permissions :: "32 word"
  notify_task :: "tid option"
  notify_data :: nat

record q_acc =
  acc_id :: int
  acc_oflags :: "32 word"

record task_acc =
  this_task :: "tid option"
  n_open_pqueues :: int
  q_access :: "nat \<Rightarrow> q_acc"

record z_apps =
  in_use_count :: int
  z_pthreads :: addr
  z_pqueues :: "nat option"
  z_vxtasks :: addr

record pq =
  pqd :: "nat \<Rightarrow> msg_queue"
  tacc :: "nat \<Rightarrow> task_acc"
  system_data :: "tid \<Rightarrow> addr"
  zmem :: "addr \<Rightarrow> z_apps"
  hdrs :: "addr \<Rightarrow> msg_hdr"
  body :: "addr \<Rightarrow> byte"
  pq_heap :: heap
  num_pqueues :: nat
  task_queueing_policy :: queueing_policy
  queue_type :: queue_kind

definition upd_q :: "nat \<Rightarrow> (msg_queue \<Rightarrow> msg_queue) \<Rightarrow> pq \<Rightarrow> pq" where
  "upd_q i f s = s\<lparr>pqd := (pqd s)(i := f (pqd s i))\<rparr>"

definition upd_ctrl :: "nat \<Rightarrow> (q_ctrl \<Rightarrow> q_ctrl) \<Rightarrow> pq \<Rightarrow> pq" where
  "upd_ctrl i f = upd_q i (\<lambda>q. q\<lparr>q_data := f (q_data q)\<rparr>)"

definition upd_hdr :: "addr \<Rightarrow> (msg_hdr \<Rightarrow> msg_hdr) \<Rightarrow> pq \<Rightarrow> pq" where
  "upd_hdr p f s = s\<lparr>hdrs := (hdrs s)(p := f (hdrs s p))\<rparr>"

definition upd_acc :: "nat \<Rightarrow> (task_acc \<Rightarrow> task_acc) \<Rightarrow> pq \<Rightarrow> pq" where
  "upd_acc t f s = s\<lparr>tacc := (tacc s)(t := f (tacc s t))\<rparr>"

text \<open>\<^verbatim>\<open>int q_index = mq - 1\<close> for an unsigned \<open>mq\<close>, and the test of the range.\<close>

definition q_index :: "nat \<Rightarrow> int" where
  "q_index mq = to_int32 (int mq - 1)"

definition valid_index :: "int \<Rightarrow> bool" where
  "valid_index i \<longleftrightarrow> 0 \<le> i \<and> i < int MAX_PQUEUES"

section \<open>Local functions\<close>

text \<open>A search that stops at the first hit: the index, or \<open>None\<close> where the loop runs out.\<close>

definition name_to_id :: "string \<Rightarrow> pq \<Rightarrow> nat option" where
  "name_to_id name s = List.find (\<lambda>i. q_name (pqd s i) \<noteq> '''' \<and> q_name (pqd s i) = name) [0..<MAX_PQUEUES]"

definition is_empty :: "q_ctrl \<Rightarrow> bool" where
  "is_empty q \<longleftrightarrow> mq_curmsgs (q_attrs q) = 0"

definition is_full :: "q_ctrl \<Rightarrow> bool" where
  "is_full q \<longleftrightarrow> mq_curmsgs (q_attrs q) = mq_maxmsg (q_attrs q)"

text \<open>The size of a slot is computed in an \<^verbatim>\<open>unsigned char\<close> here and in a \<^verbatim>\<open>char\<close>, which is signed on
  the target, where the queue is created and initialised.\<close>

definition uchar_stride :: "int \<Rightarrow> nat" where
  "uchar_stride msgsize = nat ((msgsize + int MSG_HDR_SIZE) mod 256)"

definition char_stride :: "int \<Rightarrow> int" where
  "char_stride msgsize = signed_take_bit 7 (msgsize + int MSG_HDR_SIZE)"

definition u32 :: "int \<Rightarrow> nat" where
  "u32 n = nat (n mod 2 ^ 32)"

primrec find_slot_free :: "nat \<Rightarrow> addr \<Rightarrow> nat \<Rightarrow> (addr \<Rightarrow> msg_hdr) \<Rightarrow> addr option" where
  "find_slot_free 0 p d hs = None"
| "find_slot_free (Suc k) p d hs = (if \<not> in_use (hs p) then Some p else find_slot_free k (p + d) d hs)"

definition getnode :: "nat \<Rightarrow> pq \<Rightarrow> (addr \<times> pq) option" where
  "getnode i s =
     (let q = q_data (pqd s i) in
      case find_slot_free (u32 (mq_maxmsg (q_attrs q))) (q_base q) (uchar_stride (mq_msgsize (q_attrs q))) (hdrs s) of
        None \<Rightarrow> None
      | Some p \<Rightarrow> Some (p, upd_hdr p (\<lambda>h. h\<lparr>in_use := True\<rparr>) s))"

text \<open>The walk to the insertion point: \<open>prev\<close> and \<open>insertpt\<close>; \<open>None\<close> at NULL.\<close>

partial_function (option) insert_walk :: "nat \<Rightarrow> addr \<Rightarrow> addr \<Rightarrow> (addr \<Rightarrow> msg_hdr) \<Rightarrow> (addr \<times> addr) option" where
  "insert_walk prio prev pt hs =
     (if pt = 0 then None
      else if prio \<le> hdr_prio (hs pt) then insert_walk prio pt (hdr_next (hs pt)) hs
      else Some (prev, pt))"

declare insert_walk.simps [code]

definition insert_message :: "nat \<Rightarrow> addr \<Rightarrow> pq \<Rightarrow> pq option" where
  "insert_message i m s =
     (let q = q_data (pqd s i); prio = hdr_prio (hdrs s m) in
      if q_tail q = 0 then None
      else if prio \<le> hdr_prio (hdrs s (q_tail q)) then
        Some (upd_ctrl i (\<lambda>q. q\<lparr>q_tail := m\<rparr>) (upd_hdr (q_tail q) (\<lambda>h. h\<lparr>hdr_next := m\<rparr>) s))
      else do {
        (prev, pt) \<leftarrow> (if queue_type s = POSIX then insert_walk prio (q_head q) (q_head q) (hdrs s)
                       else Some (q_head q, q_head q));
        Some (if pt = q_head q
              then upd_ctrl i (\<lambda>q. q\<lparr>q_head := m\<rparr>) (upd_hdr m (\<lambda>h. h\<lparr>hdr_next := q_head q\<rparr>) s)
              else upd_hdr prev (\<lambda>h. h\<lparr>hdr_next := m\<rparr>)
                     (upd_hdr m (\<lambda>h. h\<lparr>hdr_next := hdr_next (hdrs s prev)\<rparr>) s))
      })"

text \<open>The entry of the calling task for a queue; \<open>None\<close> is a NULL dereference.\<close>

definition open_entry :: "nat \<Rightarrow> int \<Rightarrow> pq \<Rightarrow> nat option" where
  "open_entry t mqid s = List.find (\<lambda>k. acc_id (q_access (tacc s t) k) = mqid) [0..<MQ_OPEN_MAX]"

definition is_blocking :: "tid \<Rightarrow> nat \<Rightarrow> pq \<Rightarrow> bool option" where
  "is_blocking me i s =
     (if system_data s me = 0 then None
      else case z_pqueues (zmem s (system_data s me)) of
        None \<Rightarrow> None
      | Some t \<Rightarrow> (case open_entry t (int (q_id (pqd s i))) s of
            None \<Rightarrow> Some False
          | Some k \<Rightarrow> Some (acc_oflags (q_access (tacc s t) k) AND O_NONBLOCK = 0)))"

definition permitted :: "tid \<Rightarrow> nat \<Rightarrow> q_access_mode \<Rightarrow> pq \<Rightarrow> bool" where
  "permitted me i acc s =
     (let q = pqd s i in
      if q_owner q = Some me
      then acc = FOR_READ \<and> permissions q AND S_IRUSR \<noteq> 0 \<or> acc = FOR_WRITE \<and> permissions q AND S_IWUSR \<noteq> 0
      else acc = FOR_READ \<and> permissions q AND S_IRGRP \<noteq> 0 \<or> acc = FOR_WRITE \<and> permissions q AND S_IWGRP \<noteq> 0)"

definition can_access :: "tid \<Rightarrow> nat \<Rightarrow> q_access_mode \<Rightarrow> pq \<Rightarrow> bool option" where
  "can_access me i acc s =
     (if \<not> permitted me i acc s then Some False
      else if system_data s me = 0 then None
      else case z_pqueues (zmem s (system_data s me)) of
        None \<Rightarrow> Some False
      | Some t \<Rightarrow> (case open_entry t (int (q_id (pqd s i))) s of
            None \<Rightarrow> Some False
          | Some k \<Rightarrow>
              let fl = acc_oflags (q_access (tacc s t) k) in
              Some (acc = FOR_READ \<or> fl AND O_WRONLY \<noteq> 0 \<or> fl AND O_RDWR \<noteq> 0)))"

primrec clear_slots :: "nat \<Rightarrow> addr \<Rightarrow> int \<Rightarrow> (addr \<Rightarrow> msg_hdr) \<Rightarrow> addr \<Rightarrow> msg_hdr" where
  "clear_slots 0 p d hs = hs"
| "clear_slots (Suc k) p d hs =
     clear_slots k (nat (int p + d)) d (hs(p := \<lparr>in_use = False, hdr_size = 0, hdr_prio = 0, hdr_next = 0\<rparr>))"

definition initialise_queue :: "nat \<Rightarrow> pq \<Rightarrow> pq" where
  "initialise_queue i s =
     (let q = q_data (pqd s i) in
      if q_base q = 0 then s
      else s\<lparr>hdrs := clear_slots (u32 (mq_maxmsg (q_attrs q))) (q_base q) (char_stride (mq_msgsize (q_attrs q))) (hdrs s)\<rparr>)"

text \<open>The loop of \<^verbatim>\<open>delete_queue\<close> steps by a quarter of the size of a slot.\<close>

primrec release_slots :: "nat \<Rightarrow> addr \<Rightarrow> nat \<Rightarrow> (addr \<Rightarrow> msg_hdr) \<Rightarrow> addr \<Rightarrow> msg_hdr" where
  "release_slots 0 p d hs = hs"
| "release_slots (Suc k) p d hs = release_slots k (p + d) d (hs(p := (hs p)\<lparr>in_use := False\<rparr>))"

definition empty_attrs :: mq_attr where
  "empty_attrs = \<lparr>mq_maxmsg = 0, mq_msgsize = 0, mq_flags = 0, mq_curmsgs = 0\<rparr>"

definition delete_queue :: "nat \<Rightarrow> pq \<Rightarrow> pq option" where
  "delete_queue i s =
     (let q = q_data (pqd s i);
          hs = release_slots (nat (mq_maxmsg (q_attrs q))) (q_base q)
                 (u32 (mq_msgsize (q_attrs q) + int MSG_HDR_SIZE) div 4) (hdrs s) in do {
        h \<leftarrow> rt_free (q_base q) (pq_heap s);
        Some ((upd_q i (\<lambda>q. q\<lparr>q_owner := None, open_count := 0, q_name := '''', q_id := 0,
                 q_data := \<lparr>q_base = 0, q_head = 0, q_tail = 0, q_attrs = empty_attrs\<rparr>, permissions := 0\<rparr>)
               (s\<lparr>hdrs := hs, pq_heap := h\<rparr>))\<lparr>num_pqueues := num_pqueues s - 1\<rparr>)
      })"

section \<open>Opening\<close>

text \<open>\<^verbatim>\<open>init_z_apps\<close> of \<^verbatim>\<open>posix/src/rtai_utils.c\<close> writes to what \<^verbatim>\<open>rt_malloc\<close> returns, NULL as well.\<close>

definition init_z_apps :: "tid \<Rightarrow> pq \<Rightarrow> pq option" where
  "init_z_apps t s =
     (if system_data s t = 0 then do {
        (p, h) \<leftarrow> rt_malloc SIZEOF_Z_APPS (pq_heap s);
        if p = 0 then None
        else Some (s\<lparr>pq_heap := h, system_data := (system_data s)(t := p),
               zmem := (zmem s)(p := \<lparr>in_use_count = 0, z_pthreads = 0, z_pqueues = None, z_vxtasks = 0\<rparr>)\<rparr>)
      }
      else Some s)"

definition free_z_apps :: "tid \<Rightarrow> pq \<Rightarrow> pq option" where
  "free_z_apps t s =
     (if system_data s t \<noteq> 0 then do {
        h \<leftarrow> rt_free (system_data s t) (pq_heap s);
        Some (s\<lparr>pq_heap := h, system_data := (system_data s)(t := 0)\<rparr>)
      }
      else Some s)"

text \<open>The table of open queues of the calling task; \<open>None\<close> when all are taken.\<close>

definition access_slot :: "tid \<Rightarrow> pq \<Rightarrow> (nat \<times> pq) option" where
  "access_slot me s =
     (let z = system_data s me in
      case z_pqueues (zmem s z) of
        Some t \<Rightarrow> Some (t, s)
      | None \<Rightarrow> (case List.find (\<lambda>t. this_task (tacc s t) = None) [0..<MAX_RT_TASKS] of
            None \<Rightarrow> None
          | Some t \<Rightarrow> Some (t, (upd_acc t (\<lambda>a. a\<lparr>this_task := Some me\<rparr>) s)
                               \<lparr>zmem := (zmem s)(z := (zmem s z)\<lparr>z_pqueues := Some t\<rparr>)\<rparr>)))"

definition set_entry :: "nat \<Rightarrow> nat \<Rightarrow> int \<Rightarrow> 32 word \<Rightarrow> pq \<Rightarrow> pq" where
  "set_entry t k mqid flags = upd_acc t (\<lambda>a. a\<lparr>q_access := (q_access a)(k := \<lparr>acc_id = mqid, acc_oflags = flags\<rparr>)\<rparr>)"

definition count_open :: "nat \<Rightarrow> int \<Rightarrow> pq \<Rightarrow> pq" where
  "count_open t d = upd_acc t (\<lambda>a. a\<lparr>n_open_pqueues := n_open_pqueues a + d\<rparr>)"

definition opened :: "nat \<Rightarrow> pq \<Rightarrow> int \<times> pq" where
  "opened i s = (int (q_id (pqd s i)), upd_q i (\<lambda>q. q\<lparr>open_count := open_count q + 1\<rparr>) s)"

definition open_existing :: "nat \<Rightarrow> nat \<Rightarrow> 32 word \<Rightarrow> pq \<Rightarrow> int \<times> pq" where
  "open_existing t i flags s =
     (let mqid = int (q_id (pqd s i)) in
      case open_entry t mqid s of
        Some k \<Rightarrow> opened i (set_entry t k mqid flags s)
      | None \<Rightarrow> (case open_entry t 0 s of
            None \<Rightarrow> (- EINVAL, s)
          | Some k \<Rightarrow> opened i (set_entry t k mqid flags (count_open t 1 s))))"

definition default_attrs :: mq_attr where
  "default_attrs = \<lparr>mq_maxmsg = MAX_MSGS, mq_msgsize = MAX_MSGSIZE, mq_flags = MQ_NONBLOCK, mq_curmsgs = 0\<rparr>"

text \<open>The number of bytes asked for: \<^verbatim>\<open>msg_size * mq_maxmsg\<close>.\<close>

definition queue_size :: "mq_attr \<Rightarrow> nat" where
  "queue_size a = u32 (char_stride (mq_msgsize a) * mq_maxmsg a)"

definition new_queue :: "tid \<Rightarrow> nat \<Rightarrow> string \<Rightarrow> 32 word \<Rightarrow> mq_attr \<Rightarrow> addr \<Rightarrow> pq \<Rightarrow> pq" where
  "new_queue me i name perms attr p =
     upd_q i (\<lambda>q. q\<lparr>q_owner := Some me, open_count := 0, q_name := name, q_id := i + 1, marked_for_deletion := False,
       q_data := \<lparr>q_base = p, q_head = p, q_tail = p, q_attrs = attr\<lparr>mq_curmsgs := 0\<rparr>\<rparr>, permissions := perms\<rparr>)"

definition create_queue :: "tid \<Rightarrow> nat \<Rightarrow> string \<Rightarrow> 32 word \<Rightarrow> 32 word \<Rightarrow> mq_attr \<Rightarrow> pq \<Rightarrow> (int \<times> pq) option" where
  "create_queue me t name flags perms attr s =
     (case List.find (\<lambda>i. q_id (pqd s i) = 0) [0..<MAX_PQUEUES] of
        None \<Rightarrow> Some (- EMFILE, s)
      | Some i \<Rightarrow> do {
          (p, h) \<leftarrow> rt_malloc (queue_size attr) (pq_heap s);
          if p = 0 then Some (- ENOMEM, s\<lparr>pq_heap := h\<rparr>)
          else
            let s1 = initialise_queue i (new_queue me i name perms attr p (s\<lparr>pq_heap := h\<rparr>));
                s2 = set_entry t (nat (n_open_pqueues (tacc s1 t))) (int i + 1) flags s1 in
            Some (opened i ((count_open t 1 s2)\<lparr>num_pqueues := num_pqueues s + 1\<rparr>))
        })"

definition mq_open :: "tid \<Rightarrow> string \<Rightarrow> 32 word \<Rightarrow> 32 word \<Rightarrow> mq_attr option \<Rightarrow> pq \<Rightarrow> (int \<times> pq) option" where
  "mq_open me name flags perms attr s = do {
     s1 \<leftarrow> init_z_apps me s;
     case name_to_id name s1 of
       Some i \<Rightarrow>
         if flags AND O_CREAT \<noteq> 0 \<and> flags AND O_EXCL \<noteq> 0 then Some (- EEXIST, s1)
         else (case access_slot me s1 of
             None \<Rightarrow> Some (- ENOMEM, s1)
           | Some (t, s2) \<Rightarrow> Some (open_existing t i flags s2))
     | None \<Rightarrow>
         if flags AND O_CREAT = 0 then Some (- ENOENT, s1)
         else if num_pqueues s1 \<ge> MAX_PQUEUES then Some (- ENOMEM, s1)
         else if length name \<ge> MQ_NAME_MAX then Some (- ENAMETOOLONG, s1)
         else (case access_slot me s1 of
             None \<Rightarrow> Some (- ENOMEM, s1)
           | Some (t, s2) \<Rightarrow>
               if z_pqueues (zmem s1 (system_data s1 me)) \<noteq> None \<and> n_open_pqueues (tacc s1 t) \<ge> int MQ_OPEN_MAX
               then Some (- EINVAL, s1)
               else create_queue me t name flags perms (case attr of None \<Rightarrow> default_attrs | Some a \<Rightarrow> a) s2)
   }"

section \<open>Sending and receiving\<close>

text \<open>\<^verbatim>\<open>while (cond) if (is_blocking) pthread_cond_wait else return -EAGAIN\<close>: \<open>True\<close> when the condition
  no longer holds.  A call waits at most \<open>k\<close> times.\<close>

fun wait_while :: "nat \<Rightarrow> (q_ctrl \<Rightarrow> bool) \<Rightarrow> tid \<Rightarrow> nat \<Rightarrow> pq \<Rightarrow> (pq, bool) sres" where
  "wait_while k c me i s =
     (if c (q_data (pqd s i)) then
        (case is_blocking me i s of
           None \<Rightarrow> Stuck
         | Some True \<Rightarrow> (case k of 0 \<Rightarrow> Stuck | Suc k' \<Rightarrow> Switch s (wait_while k' c me i))
         | Some False \<Rightarrow> Ret False s)
      else Ret True s)"

definition copy_in :: "addr \<Rightarrow> byte list \<Rightarrow> pq \<Rightarrow> pq" where
  "copy_in p xs s = s\<lparr>body := (\<lambda>a. if p \<le> a \<and> a < p + length xs then xs ! (a - p) else body s a)\<rparr>"

definition copy_out :: "addr \<Rightarrow> nat \<Rightarrow> pq \<Rightarrow> byte list" where
  "copy_out p n s = map (\<lambda>k. body s (p + k)) [0..<n]"

definition count_msgs :: "nat \<Rightarrow> int \<Rightarrow> pq \<Rightarrow> pq" where
  "count_msgs i d = upd_ctrl i (\<lambda>q. q\<lparr>q_attrs := (q_attrs q)\<lparr>mq_curmsgs := mq_curmsgs (q_attrs q) + d\<rparr>\<rparr>)"

definition take_head :: "nat \<Rightarrow> nat \<Rightarrow> pq \<Rightarrow> ((int \<times> byte list \<times> nat option) \<times> pq) option" where
  "take_head i buflen s =
     (let q = q_data (pqd s i); m = q_head q in
      if m = 0 then None
      else
        let r = (if hdr_size (hdrs s m) \<le> buflen
                 then (int (hdr_size (hdrs s m)), copy_out (m + MSG_HDR_SIZE) (hdr_size (hdrs s m)) s, Some (hdr_prio (hdrs s m)))
                 else (PQ_ERROR, [], None));
            s1 = upd_ctrl i (\<lambda>q. if hdr_next (hdrs s m) = 0 then q\<lparr>q_head := q_base q, q_tail := q_base q\<rparr>
                                 else q\<lparr>q_head := hdr_next (hdrs s m)\<rparr>) s;
            s2 = upd_hdr m (\<lambda>h. h\<lparr>in_use := False, hdr_size := 0, hdr_next := 0\<rparr>) s1 in
        Some (r, count_msgs i (- 1) s2))"

definition mq_receive :: "nat \<Rightarrow> tid \<Rightarrow> nat \<Rightarrow> nat \<Rightarrow> pq \<Rightarrow> (pq, int \<times> byte list \<times> nat option) sres" where
  "mq_receive k me mq buflen s =
     (if valid_index (q_index mq) then
        let i = nat (q_index mq) in
        lift_opt (can_access me i FOR_READ s) (\<lambda>ok.
          if \<not> ok then Ret (- EINVAL, [], None) s
          else res_bind (wait_while k is_empty me i s) (\<lambda>go s1.
            if \<not> go then Ret (- EAGAIN, [], None) s1
            else if buflen < u32 (mq_msgsize (q_attrs (q_data (pqd s1 i)))) then Ret (- EMSGSIZE, [], None) s1
            else lift_opt (take_head i buflen s1) (\<lambda>(r, s2). Ret r s2)))
      else Ret (- EBADF, [], None) s)"

definition notify_arrival :: "nat \<Rightarrow> bool \<Rightarrow> pq \<Rightarrow> pq" where
  "notify_arrival i was_empty s =
     (if was_empty \<and> notify_task (pqd s i) \<noteq> None then upd_q i (\<lambda>q. q\<lparr>notify_task := None\<rparr>) s else s)"

definition put_message :: "nat \<Rightarrow> byte list \<Rightarrow> nat \<Rightarrow> pq \<Rightarrow> (int \<times> pq) option" where
  "put_message i xs prio s =
     (case getnode i s of
        None \<Rightarrow> Some (- ENOBUFS, s)
      | Some (m, s1) \<Rightarrow>
          let was_empty = is_empty (q_data (pqd s1 i)); s2 = count_msgs i 1 s1 in
          if length xs > u32 (mq_msgsize (q_attrs (q_data (pqd s2 i)))) then Some (- EMSGSIZE, s2)
          else do {
            s3 \<leftarrow> insert_message i m (copy_in (m + MSG_HDR_SIZE) xs
                    (upd_hdr m (\<lambda>h. h\<lparr>hdr_size := length xs, hdr_prio := prio\<rparr>) s2));
            Some (int (length xs), notify_arrival i was_empty s3)
          })"

definition mq_send :: "nat \<Rightarrow> tid \<Rightarrow> nat \<Rightarrow> byte list \<Rightarrow> nat \<Rightarrow> pq \<Rightarrow> (pq, int) sres" where
  "mq_send k me mq xs prio s =
     (if valid_index (q_index mq) then
        let i = nat (q_index mq) in
        lift_opt (can_access me i FOR_WRITE s) (\<lambda>ok.
          if \<not> ok then Ret (- EINVAL) s
          else if prio > MQ_PRIO_MAX then Ret (- EINVAL) s
          else res_bind (wait_while k is_full me i s) (\<lambda>go s1.
            if \<not> go then Ret (- EAGAIN) s1
            else lift_opt (put_message i xs prio s1) (\<lambda>(r, s2). Ret r s2)))
      else Ret (- EBADF) s)"

section \<open>Closing, attributes, notification, unlinking\<close>

text \<open>The last close of a queue that has been unlinked deletes it.\<close>

definition drop_open :: "nat \<Rightarrow> pq \<Rightarrow> pq option" where
  "drop_open i s =
     (let s1 = upd_q i (\<lambda>q. q\<lparr>open_count := open_count q - 1\<rparr>) s in
      if open_count (pqd s1 i) \<le> 0 \<and> marked_for_deletion (pqd s1 i) then delete_queue i s1 else Some s1)"

text \<open>The entry of the task is freed, and its request to be notified withdrawn.\<close>

definition close_entry :: "tid \<Rightarrow> nat \<Rightarrow> nat \<Rightarrow> nat \<Rightarrow> pq \<Rightarrow> pq" where
  "close_entry me t k i s =
     (let s1 = count_open t (- 1) (upd_acc t (\<lambda>a. a\<lparr>q_access := (q_access a)(k := (q_access a k)\<lparr>acc_id := 0\<rparr>)\<rparr>) s) in
      if notify_task (pqd s1 i) = Some me then upd_q i (\<lambda>q. q\<lparr>notify_task := None\<rparr>) s1 else s1)"

definition mq_close :: "tid \<Rightarrow> nat \<Rightarrow> pq \<Rightarrow> (int \<times> pq) option" where
  "mq_close me mq s =
     (if valid_index (q_index mq) then
        let i = nat (q_index mq) in
        if system_data s me = 0 then None
        else case z_pqueues (zmem s (system_data s me)) of
          None \<Rightarrow> Some (- EINVAL, s)
        | Some t \<Rightarrow> (case open_entry t (int mq) s of
              None \<Rightarrow> Some (- EINVAL, s)
            | Some k \<Rightarrow> do { s1 \<leftarrow> drop_open i (close_entry me t k i s); Some (0, s1) })
      else Some (- EINVAL, s))"

definition mq_getattr :: "nat \<Rightarrow> pq \<Rightarrow> int \<times> mq_attr option" where
  "mq_getattr mq s =
     (if valid_index (q_index mq) then (0, Some (q_attrs (q_data (pqd s (nat (q_index mq))))))
      else (- EBADF, None))"

text \<open>\<open>old\<close> asks for the old attributes; they are the second component of the result.\<close>

definition mq_setattr :: "tid \<Rightarrow> nat \<Rightarrow> mq_attr \<Rightarrow> bool \<Rightarrow> pq \<Rightarrow> ((int \<times> mq_attr option) \<times> pq) option" where
  "mq_setattr me mq new old s =
     (if valid_index (q_index mq) then
        let i = nat (q_index mq); o' = (if old then Some (q_attrs (q_data (pqd s i))) else None) in
        if system_data s me = 0 then None
        else case z_pqueues (zmem s (system_data s me)) of
          None \<Rightarrow> Some ((- EINVAL, o'), s)
        | Some t \<Rightarrow> (case open_entry t (int mq) s of
              None \<Rightarrow> Some ((- EINVAL, o'), s)
            | Some k \<Rightarrow>
                let fl = acc_oflags (q_access (tacc s t) k) in
                if mq_flags new = MQ_NONBLOCK \<or> mq_flags new = MQ_BLOCK then
                  Some ((0, o'),
                    upd_ctrl i (\<lambda>q. q\<lparr>q_attrs := (q_attrs q)\<lparr>mq_flags := mq_flags new\<rparr>\<rparr>)
                      (upd_acc t (\<lambda>a. a\<lparr>q_access := (q_access a)(k := (q_access a k)
                         \<lparr>acc_oflags := if mq_flags new = MQ_NONBLOCK then fl OR O_NONBLOCK
                                        else fl AND NOT O_NONBLOCK\<rparr>)\<rparr>) s))
                else Some ((- EINVAL, o'), s))
      else Some ((- EBADF, None), s))"

definition mq_notify :: "tid \<Rightarrow> nat \<Rightarrow> nat option \<Rightarrow> pq \<Rightarrow> int \<times> pq" where
  "mq_notify me mq notification s =
     (if valid_index (q_index mq) then
        let i = nat (q_index mq) in
        case notification of
          Some d \<Rightarrow>
            if notify_task (pqd s i) \<noteq> None
            then (0, upd_q i (\<lambda>q. q\<lparr>notify_task := Some me, notify_data := d\<rparr>) s)
            else (PQ_ERROR, s)
        | None \<Rightarrow>
            if notify_task (pqd s i) = Some me then (0, upd_q i (\<lambda>q. q\<lparr>notify_task := None\<rparr>) s)
            else (PQ_ERROR, s)
      else (- EBADF, s))"

definition mq_unlink :: "string \<Rightarrow> pq \<Rightarrow> (int \<times> pq) option" where
  "mq_unlink name s =
     (case name_to_id name s of
        None \<Rightarrow> Some (- ENOENT, s)
      | Some i \<Rightarrow>
          if open_count (pqd s i) > 0
          then Some (open_count (pqd s i), upd_q i (\<lambda>q. q\<lparr>q_name := '''', marked_for_deletion := True\<rparr>) s)
          else do { s1 \<leftarrow> delete_queue i s; Some (0, s1) })"

definition set_task_queueing_policy :: "queueing_policy \<Rightarrow> pq \<Rightarrow> queueing_policy \<times> pq" where
  "set_task_queueing_policy p s = (p, s\<lparr>task_queueing_policy := p\<rparr>)"

definition set_queue_type :: "queue_kind \<Rightarrow> pq \<Rightarrow> queue_kind \<times> pq" where
  "set_queue_type t s = (t, s\<lparr>queue_type := t\<rparr>)"

end
