(* ===== verification/Pqueue_Props.thy ===== *)
theory Pqueue_Props
  imports Pqueues Mem_Alloc
begin

text \<open>
  One message queue as a priority queue.  \<open>queue_ok i s ms\<close> describes the slots and the chain of
  messages of queue \<open>i\<close>: the messages are the slots in use, linked in the order of their
  priorities from the head to the tail.  The last one points to NULL, or, when it is the first
  slot and was put into an empty queue, to itself: \<^verbatim>\<open>insert_message\<close> then appends the slot to
  itself.
\<close>

section \<open>Chains\<close>

primrec chain :: "(addr \<Rightarrow> addr) \<Rightarrow> addr list \<Rightarrow> addr \<Rightarrow> bool" where
  "chain nx [] e \<longleftrightarrow> True"
| "chain nx (x # xs) e \<longleftrightarrow> nx x = hd (xs @ [e]) \<and> chain nx xs e"

lemma chain_append: "chain nx (xs @ ys) e \<longleftrightarrow> chain nx xs (hd (ys @ [e])) \<and> chain nx ys e"
proof (induction xs)
  case (Cons x xs)
  then show ?case by (cases xs) auto
qed simp

lemma link_chain_upd [simp]: "u \<notin> set xs \<Longrightarrow> chain (nx(u := v)) xs e \<longleftrightarrow> chain nx xs e"
  by (induction xs) auto

lemma chain_redirect: "chain nx xs e \<Longrightarrow> distinct xs \<Longrightarrow> xs \<noteq> [] \<Longrightarrow> chain (nx(last xs := v)) xs v"
proof (induction xs)
  case (Cons x xs)
  then show ?case by (cases xs) auto
qed simp

lemma chain_last: "chain nx xs e \<Longrightarrow> xs \<noteq> [] \<Longrightarrow> nx (last xs) = e"
proof (induction xs)
  case (Cons x xs)
  then show ?case by (cases xs) auto
qed simp

lemma insert_walk_chain:
  assumes "chain (hdr_next \<circ> hs) xs e" and "0 \<notin> set xs" and "dropWhile (\<lambda>p. prio \<le> hdr_prio (hs p)) xs \<noteq> []"
  shows "insert_walk prio prev (hd xs) hs =
    Some (last (prev # takeWhile (\<lambda>p. prio \<le> hdr_prio (hs p)) xs), hd (dropWhile (\<lambda>p. prio \<le> hdr_prio (hs p)) xs))"
  using assms
proof (induction xs arbitrary: prev)
  case (Cons x xs)
  show ?case
  proof (cases "prio \<le> hdr_prio (hs x)")
    case True
    then have "xs \<noteq> []" using Cons.prems by auto
    then have "hdr_next (hs x) = hd xs" using Cons.prems by simp
    then show ?thesis using Cons True by (subst insert_walk.simps) simp
  next
    case False
    then show ?thesis using Cons.prems by (subst insert_walk.simps) simp
  qed
qed simp

section \<open>Slots\<close>

definition stride :: "q_ctrl \<Rightarrow> nat" where
  "stride q = nat (mq_msgsize (q_attrs q)) + MSG_HDR_SIZE"

definition slots :: "q_ctrl \<Rightarrow> addr set" where
  "slots q = (\<lambda>k. q_base q + k * stride q) ` {..<nat (mq_maxmsg (q_attrs q))}"

text \<open>The attributes for which the two ways to compute the size of a slot agree.\<close>

definition attrs_ok :: "mq_attr \<Rightarrow> bool" where
  "attrs_ok a \<longleftrightarrow> 0 \<le> mq_msgsize a \<and> mq_msgsize a \<le> 111 \<and> 0 < mq_maxmsg a \<and> mq_maxmsg a < 2 ^ 31"

lemma attrs_ok_strides:
  assumes "attrs_ok a"
  shows "uchar_stride (mq_msgsize a) = nat (mq_msgsize a) + MSG_HDR_SIZE"
    and "char_stride (mq_msgsize a) = mq_msgsize a + int MSG_HDR_SIZE"
    and "u32 (mq_maxmsg a) = nat (mq_maxmsg a)" "u32 (mq_msgsize a) = nat (mq_msgsize a)"
  using assms by (simp_all add: attrs_ok_def uchar_stride_def char_stride_def u32_def
      signed_take_bit_int_eq_self nat_add_distrib)

lemma slots_same [simp]:
  "slots (q\<lparr>q_head := h\<rparr>) = slots q" "slots (q\<lparr>q_tail := t\<rparr>) = slots q"
  "slots (q\<lparr>q_attrs := a\<lparr>mq_curmsgs := n\<rparr>\<rparr>) = slots (q\<lparr>q_attrs := a\<rparr>)" "slots (q\<lparr>q_attrs := q_attrs q\<rparr>) = slots q"
  by (simp_all add: slots_def stride_def)

lemma slots_card: "card (slots q) = nat (mq_maxmsg (q_attrs q))"
proof -
  have "inj_on (\<lambda>k. q_base q + k * stride q) {..<nat (mq_maxmsg (q_attrs q))}"
    by (rule inj_onI) (simp add: stride_def)
  then show ?thesis by (simp add: slots_def card_image)
qed

lemma slots_finite [simp]: "finite (slots q)"
  by (simp add: slots_def)

lemma slot_in: "p \<in> slots q \<Longrightarrow> q_base q \<le> p \<and> p + stride q \<le> q_base q + nat (mq_maxmsg (q_attrs q)) * stride q"
proof -
  assume "p \<in> slots q"
  then obtain k where k: "k < nat (mq_maxmsg (q_attrs q))" "p = q_base q + k * stride q" by (auto simp: slots_def)
  have "Suc k * stride q \<le> nat (mq_maxmsg (q_attrs q)) * stride q" using k(1) by (intro mult_le_mono1) simp
  then show ?thesis using k(2) by simp
qed

lemma slots_apart: "p \<in> slots q \<Longrightarrow> p' \<in> slots q \<Longrightarrow> p \<noteq> p' \<Longrightarrow> p + stride q \<le> p' \<or> p' + stride q \<le> p"
proof -
  assume "p \<in> slots q" "p' \<in> slots q" "p \<noteq> p'"
  then obtain k k' where k: "p = q_base q + k * stride q" "p' = q_base q + k' * stride q" "k \<noteq> k'"
    by (auto simp: slots_def)
  have "Suc a * stride q \<le> b * stride q" if "a < b" for a b using that by (intro mult_le_mono1) simp
  from this [of k k'] this [of k' k] show ?thesis using k by (cases "k < k'") auto
qed

lemma find_slot_free_Some:
  "find_slot_free n p d hs = Some r \<Longrightarrow> \<exists>k < n. r = p + k * d \<and> \<not> in_use (hs r)"
proof (induction n arbitrary: p)
  case (Suc n)
  show ?case
  proof (cases "in_use (hs p)")
    case True
    then obtain k where "k < n" "r = p + d + k * d" "\<not> in_use (hs r)" using Suc by force
    then show ?thesis by (intro exI [of _ "Suc k"]) simp
  next
    case False
    then show ?thesis using Suc.prems by (intro exI [of _ 0]) simp
  qed
qed simp

lemma find_slot_free_exists:
  "k < n \<Longrightarrow> \<not> in_use (hs (p + k * d)) \<Longrightarrow> find_slot_free n p d hs \<noteq> None"
proof (induction n arbitrary: p k)
  case (Suc n)
  show ?case
  proof (cases k)
    case 0
    then show ?thesis using Suc.prems by simp
  next
    case (Suc j)
    have "j < n" "\<not> in_use (hs (p + d + j * d))" using Suc.prems Suc by (simp_all add: algebra_simps)
    then show ?thesis using Suc.IH by simp
  qed
qed simp

section \<open>The invariant of a queue\<close>

definition queue_ok :: "nat \<Rightarrow> pq \<Rightarrow> addr list \<Rightarrow> bool" where
  "queue_ok i s ms \<longleftrightarrow> (let q = q_data (pqd s i) in
     attrs_ok (q_attrs q) \<and> q_base q \<noteq> 0 \<and> distinct ms \<and> set ms = {p \<in> slots q. in_use (hdrs s p)}
     \<and> mq_curmsgs (q_attrs q) = int (length ms)
     \<and> q_head q = hd (ms @ [q_base q]) \<and> q_tail q = last (q_base q # ms)
     \<and> (\<exists>e. (e = 0 \<or> e = q_base q \<and> last ms = q_base q) \<and> chain (hdr_next \<circ> hdrs s) ms e)
     \<and> (\<forall>p \<in> slots q. \<not> in_use (hdrs s p) \<longrightarrow> hdr_next (hdrs s p) = 0)
     \<and> (\<forall>p \<in> set ms. hdr_size (hdrs s p) \<le> nat (mq_msgsize (q_attrs q)))
     \<and> sorted_wrt (\<lambda>p p'. hdr_prio (hdrs s p') \<le> hdr_prio (hdrs s p)) ms)"

text \<open>What a queue holds: the priorities and the bytes of its messages, in order.\<close>

definition message_at :: "pq \<Rightarrow> addr \<Rightarrow> nat \<times> byte list" where
  "message_at s p = (hdr_prio (hdrs s p), copy_out (p + MSG_HDR_SIZE) (hdr_size (hdrs s p)) s)"

definition messages :: "pq \<Rightarrow> addr list \<Rightarrow> (nat \<times> byte list) list" where
  "messages s ms = map (message_at s) ms"

text \<open>The abstract priority queue: behind the messages of the same or a higher priority.\<close>

definition pq_insert :: "nat \<Rightarrow> byte list \<Rightarrow> (nat \<times> byte list) list \<Rightarrow> (nat \<times> byte list) list" where
  "pq_insert prio xs = insert_after_while (\<lambda>m. prio \<le> fst m) (prio, xs)"

lemma queue_okD:
  assumes "queue_ok i s ms"
  shows "attrs_ok (q_attrs (q_data (pqd s i)))" "q_base (q_data (pqd s i)) \<noteq> 0" "distinct ms"
    "set ms = {p \<in> slots (q_data (pqd s i)). in_use (hdrs s p)}"
    "mq_curmsgs (q_attrs (q_data (pqd s i))) = int (length ms)"
    "q_head (q_data (pqd s i)) = hd (ms @ [q_base (q_data (pqd s i))])" "q_tail (q_data (pqd s i)) = last (q_base (q_data (pqd s i)) # ms)"
    "\<exists>e. (e = 0 \<or> e = q_base (q_data (pqd s i)) \<and> last ms = q_base (q_data (pqd s i))) \<and> chain (hdr_next \<circ> hdrs s) ms e"
    "\<forall>p \<in> slots (q_data (pqd s i)). \<not> in_use (hdrs s p) \<longrightarrow> hdr_next (hdrs s p) = 0"
    "\<forall>p \<in> set ms. hdr_size (hdrs s p) \<le> nat (mq_msgsize (q_attrs (q_data (pqd s i))))"
    "sorted_wrt (\<lambda>p p'. hdr_prio (hdrs s p') \<le> hdr_prio (hdrs s p)) ms"
  using assms unfolding queue_ok_def Let_def by - (elim conjE, assumption)+

lemma queue_okI:
  assumes "attrs_ok (q_attrs (q_data (pqd s i)))" "q_base (q_data (pqd s i)) \<noteq> 0" "distinct ms"
    "set ms = {p \<in> slots (q_data (pqd s i)). in_use (hdrs s p)}"
    "mq_curmsgs (q_attrs (q_data (pqd s i))) = int (length ms)"
    "q_head (q_data (pqd s i)) = hd (ms @ [q_base (q_data (pqd s i))])" "q_tail (q_data (pqd s i)) = last (q_base (q_data (pqd s i)) # ms)"
    "\<exists>e. (e = 0 \<or> e = q_base (q_data (pqd s i)) \<and> last ms = q_base (q_data (pqd s i))) \<and> chain (hdr_next \<circ> hdrs s) ms e"
    "\<And>p. p \<in> slots (q_data (pqd s i)) \<Longrightarrow> \<not> in_use (hdrs s p) \<Longrightarrow> hdr_next (hdrs s p) = 0"
    "\<And>p. p \<in> set ms \<Longrightarrow> hdr_size (hdrs s p) \<le> nat (mq_msgsize (q_attrs (q_data (pqd s i))))"
    "sorted_wrt (\<lambda>p p'. hdr_prio (hdrs s p') \<le> hdr_prio (hdrs s p)) ms"
  shows "queue_ok i s ms"
  unfolding queue_ok_def Let_def using assms by (intro conjI ballI impI)

lemma queue_ok_zero: "queue_ok i s ms \<Longrightarrow> 0 \<notin> slots (q_data (pqd s i))"
  using slot_in [of 0 "q_data (pqd s i)"] by (auto simp: queue_ok_def Let_def)

lemma copy_out_same:
  "(\<And>a. p \<le> a \<Longrightarrow> a < p + n \<Longrightarrow> body s' a = body s a) \<Longrightarrow> copy_out p n s' = copy_out p n s"
  by (simp add: copy_out_def)

lemma copy_out_in: "body s = body (copy_in p xs t) \<Longrightarrow> copy_out p (length xs) s = xs"
  by (auto simp: copy_out_def copy_in_def intro: nth_equalityI)

section \<open>Insertion\<close>

definition linked :: "nat \<Rightarrow> pq \<Rightarrow> addr list \<Rightarrow> bool" where
  "linked i s ms \<longleftrightarrow> (let q = q_data (pqd s i) in
     distinct ms \<and> q_head q = hd (ms @ [q_base q]) \<and> q_tail q = last (q_base q # ms)
     \<and> (\<exists>e. (e = 0 \<or> e = q_base q \<and> last ms = q_base q) \<and> chain (hdr_next \<circ> hdrs s) ms e)
     \<and> sorted_wrt (\<lambda>p p'. hdr_prio (hdrs s p') \<le> hdr_prio (hdrs s p)) ms)"

definition set_ends :: "nat \<Rightarrow> addr \<Rightarrow> addr \<Rightarrow> (addr \<Rightarrow> msg_hdr) \<Rightarrow> pq \<Rightarrow> pq" where
  "set_ends i h t hs s = upd_ctrl i (\<lambda>q. q\<lparr>q_head := h, q_tail := t\<rparr>) (s\<lparr>hdrs := hs\<rparr>)"

lemma set_ends_simps [simp]:
  "hdrs (set_ends i h t hs s) = hs" "body (set_ends i h t hs s) = body s"
  "q_data (pqd (set_ends i h t hs s) i) = (q_data (pqd s i))\<lparr>q_head := h, q_tail := t\<rparr>"
  "queue_type (set_ends i h t hs s) = queue_type s"
  "j \<noteq> i \<Longrightarrow> pqd (set_ends i h t hs s) j = pqd s j"
  by (simp_all add: set_ends_def upd_ctrl_def upd_q_def)

text \<open>An end that is not written keeps its value.\<close>

lemma set_ends_eqI:
  "q_head (q_data (pqd s i)) = h \<Longrightarrow> upd_ctrl i (\<lambda>q. q\<lparr>q_tail := t\<rparr>) (s\<lparr>hdrs := hs\<rparr>) = set_ends i h t hs s"
  "q_tail (q_data (pqd s i)) = t \<Longrightarrow> upd_ctrl i (\<lambda>q. q\<lparr>q_head := h\<rparr>) (s\<lparr>hdrs := hs\<rparr>) = set_ends i h t hs s"
  unfolding set_ends_def upd_ctrl_def upd_q_def
  by (auto intro!: pq.equality msg_queue.equality q_ctrl.equality simp: fun_eq_iff)

lemma set_ends_same: "s\<lparr>hdrs := hs\<rparr> = set_ends i (q_head (q_data (pqd s i))) (q_tail (q_data (pqd s i))) hs s"
  unfolding set_ends_def upd_ctrl_def upd_q_def
  by (auto intro!: pq.equality msg_queue.equality q_ctrl.equality simp: fun_eq_iff)

lemma sorted_insert:
  assumes "sorted_wrt (\<lambda>p p'. f p' \<le> f p) xs"
  shows "sorted_wrt (\<lambda>p p'. f p' \<le> (f p :: nat)) (insert_after_while (\<lambda>p. f m \<le> f p) m xs)"
  using assms
proof (induction xs)
  case Nil
  then show ?case by (simp add: insert_after_while_def)
next
  case (Cons x xs)
  show ?case
  proof (cases "f m \<le> f x")
    case True
    have "insert_after_while (\<lambda>p. f m \<le> f p) m (x # xs) = x # insert_after_while (\<lambda>p. f m \<le> f p) m xs"
      using True by (simp add: insert_after_while_def)
    then show ?thesis using Cons True by simp
  next
    case False
    then show ?thesis using Cons.prems by (auto simp: insert_after_while_def)
  qed
qed

lemma sorted_last: "sorted_wrt (\<lambda>p p'. f p' \<le> (f p :: nat)) xs \<Longrightarrow> x \<in> set xs \<Longrightarrow> f (last xs) \<le> f x"
  by (induction xs) (auto split: if_splits)

text \<open>Slot \<open>m\<close>, marked and filled, can be put into the queue; and the queue after that.\<close>

definition insertable :: "nat \<Rightarrow> addr \<Rightarrow> pq \<Rightarrow> addr list \<Rightarrow> bool" where
  "insertable i m s ms \<longleftrightarrow> linked i s ms \<and> q_tail (q_data (pqd s i)) \<noteq> 0 \<and> 0 \<notin> set ms
     \<and> m \<notin> set ms \<and> (ms = [] \<longrightarrow> m = q_base (q_data (pqd s i))) \<and> hdr_next (hdrs s m) = 0 \<and> queue_type s = POSIX"

definition place :: "addr \<Rightarrow> pq \<Rightarrow> addr list \<Rightarrow> addr list" where
  "place m s ms = insert_after_while (\<lambda>p. hdr_prio (hdrs s m) \<le> hdr_prio (hdrs s p)) m ms"

definition relinked :: "nat \<Rightarrow> addr \<Rightarrow> pq \<Rightarrow> addr list \<Rightarrow> pq option \<Rightarrow> bool" where
  "relinked i m s ms r \<longleftrightarrow> (\<exists>h t hs. r = Some (set_ends i h t hs s) \<and> linked i (set_ends i h t hs s) (place m s ms)
     \<and> (\<forall>p. in_use (hs p) = in_use (hdrs s p) \<and> hdr_size (hs p) = hdr_size (hdrs s p) \<and> hdr_prio (hs p) = hdr_prio (hdrs s p))
     \<and> (\<forall>p. p \<notin> set (m # ms) \<longrightarrow> hs p = hdrs s p))"

lemma place_order: "insertable i m s ms \<Longrightarrow> distinct (place m s ms)
    \<and> sorted_wrt (\<lambda>p p'. hdr_prio (hdrs s p') \<le> hdr_prio (hdrs s p)) (place m s ms)"
  unfolding insertable_def place_def linked_def Let_def
  by (intro conjI distinct_insert_after_while sorted_insert) simp_all

text \<open>Only the links of the message and of its predecessor are written.\<close>

lemma relinkedI:
  assumes "insertable i m s ms" and "r = Some (set_ends i h t hs s)"
    and "\<And>p. in_use (hs p) = in_use (hdrs s p) \<and> hdr_size (hs p) = hdr_size (hdrs s p) \<and> hdr_prio (hs p) = hdr_prio (hdrs s p)"
    and "\<And>p. p \<notin> set (m # ms) \<Longrightarrow> hs p = hdrs s p"
    and "h = hd (place m s ms)" and "t = last (place m s ms)" and "chain (hdr_next \<circ> hs) (place m s ms) e"
    and "e = 0 \<or> e = q_base (q_data (pqd s i)) \<and> last (place m s ms) = q_base (q_data (pqd s i))"
  shows "relinked i m s ms r"
proof -
  have "place m s ms \<noteq> []" by (simp add: place_def insert_after_while_def)
  then have "linked i (set_ends i h t hs s) (place m s ms)"
    unfolding linked_def Let_def using assms(5-8) place_order [OF assms(1)] assms(3)
    by (intro conjI exI [of _ e]) simp_all
  then show ?thesis using assms unfolding relinked_def by blast
qed

lemma insert_into_empty:
  assumes i: "insertable i m s []"
  shows "relinked i m s [] (insert_message i m s)"
proof (rule relinkedI [OF i])
  show "insert_message i m s = Some (set_ends i m m ((hdrs s)(m := (hdrs s m)\<lparr>hdr_next := m\<rparr>)) s)"
    using i by (simp add: insert_message_def insertable_def linked_def Let_def upd_hdr_def set_ends_eqI)
qed (use i in \<open>auto simp: place_def insert_after_while_def insertable_def\<close>)

lemma insert_at_back:
  assumes i: "insertable i m s ms" and ne: "ms \<noteq> []" and p: "hdr_prio (hdrs s m) \<le> hdr_prio (hdrs s (last ms))"
  shows "relinked i m s ms (insert_message i m s)"
proof (rule relinkedI [OF i])
  let ?hs = "(hdrs s)(last ms := (hdrs s (last ms))\<lparr>hdr_next := m\<rparr>)"
  have l: "distinct ms" "q_head (q_data (pqd s i)) = hd ms" "q_tail (q_data (pqd s i)) = last ms"
      "sorted_wrt (\<lambda>p p'. hdr_prio (hdrs s p') \<le> hdr_prio (hdrs s p)) ms"
    and m: "m \<notin> set ms" "hdr_next (hdrs s m) = 0" "q_tail (q_data (pqd s i)) \<noteq> 0"
    using i ne by (simp_all add: insertable_def linked_def Let_def)
  obtain e where e: "chain (hdr_next \<circ> hdrs s) ms e" using i by (auto simp: insertable_def linked_def Let_def)
  have "hdr_prio (hdrs s m) \<le> hdr_prio (hdrs s p)" if "p \<in> set ms" for p using sorted_last [OF l(4) that] p by linarith
  then have pl: "place m s ms = ms @ [m]"
    by (simp add: place_def insert_after_while_def takeWhile_eq_all_conv [THEN iffD2] dropWhile_eq_Nil_conv [THEN iffD2])
  show "insert_message i m s = Some (set_ends i (hd ms) m ?hs s)"
    using l m p by (simp add: insert_message_def Let_def upd_hdr_def set_ends_eqI)
  have "chain ((hdr_next \<circ> hdrs s)(last ms := m)) ms m" using chain_redirect [OF e l(1) ne] .
  moreover have "m \<noteq> last ms" using m(1) ne by auto
  ultimately show "chain (hdr_next \<circ> ?hs) (place m s ms) 0" using m(2) by (simp add: pl chain_append fun_upd_comp)
  show "p \<notin> set (m # ms) \<Longrightarrow> ?hs p = hdrs s p" for p using ne by auto
  show "hd ms = hd (place m s ms)" "m = last (place m s ms)" using ne by (simp_all add: pl)
qed auto

lemma walk_splits:
  assumes i: "insertable i m s ms" and ne: "ms \<noteq> []" and p: "\<not> hdr_prio (hdrs s m) \<le> hdr_prio (hdrs s (last ms))"
  obtains tw dw where "ms = tw @ dw" "dw \<noteq> []" "place m s ms = tw @ m # dw"
    "insert_walk (hdr_prio (hdrs s m)) (hd ms) (hd ms) (hdrs s) = Some (last (hd ms # tw), hd dw)"
proof -
  let ?P = "\<lambda>p. hdr_prio (hdrs s m) \<le> hdr_prio (hdrs s p)"
  obtain e where e: "chain (hdr_next \<circ> hdrs s) ms e" and z: "0 \<notin> set ms"
    using i by (auto simp: insertable_def linked_def Let_def)
  have dw: "dropWhile ?P ms \<noteq> []" using ne p last_in_set [of ms] by (metis dropWhile_eq_Nil_conv)
  show thesis
    by (rule that [of "takeWhile ?P ms" "dropWhile ?P ms"])
      (use dw insert_walk_chain [OF e z dw] in \<open>simp_all add: place_def insert_after_while_def\<close>)
qed

lemma insert_before_last:
  assumes i: "insertable i m s ms" and ne: "ms \<noteq> []" and p: "\<not> hdr_prio (hdrs s m) \<le> hdr_prio (hdrs s (last ms))"
  shows "relinked i m s ms (insert_message i m s)"
proof -
  obtain tw dw where w: "ms = tw @ dw" "dw \<noteq> []" "place m s ms = tw @ m # dw"
    "insert_walk (hdr_prio (hdrs s m)) (hd ms) (hd ms) (hdrs s) = Some (last (hd ms # tw), hd dw)"
    by (rule walk_splits [OF assms])
  have l: "distinct ms" "q_head (q_data (pqd s i)) = hd ms" "q_tail (q_data (pqd s i)) = last ms"
    and m': "m \<notin> set ms" and m: "q_tail (q_data (pqd s i)) \<noteq> 0" "queue_type s = POSIX"
    using i ne by (simp_all add: insertable_def linked_def Let_def)
  have mt: "m \<notin> set tw" "m \<notin> set dw" using m' w(1) by auto
  obtain e where e: "chain (hdr_next \<circ> hdrs s) ms e"
      "e = 0 \<or> e = q_base (q_data (pqd s i)) \<and> last ms = q_base (q_data (pqd s i))"
    using i by (auto simp: insertable_def linked_def Let_def)
  have ch: "chain (hdr_next \<circ> hdrs s) tw (hd dw)" "chain (hdr_next \<circ> hdrs s) dw e"
    using e(1) w(1,2) by (simp_all add: chain_append)
  have t: "last ms = last (place m s ms)" using w(1,2,3) by simp
  show ?thesis
  proof (cases "tw = []")
    case True
    let ?hs = "(hdrs s)(m := (hdrs s m)\<lparr>hdr_next := hd ms\<rparr>)"
    show ?thesis
    proof (rule relinkedI [OF i _ _ _ _ t])
      show "insert_message i m s = Some (set_ends i m (last ms) ?hs s)"
        using True w(1,4) m l p by (simp add: insert_message_def Let_def upd_hdr_def set_ends_eqI)
      show "chain (hdr_next \<circ> ?hs) (place m s ms) e" using True w(1-3) ch(2) mt by (simp add: fun_upd_comp)
      show "e = 0 \<or> e = q_base (q_data (pqd s i)) \<and> last (place m s ms) = q_base (q_data (pqd s i))"
        using e(2) t by simp
    qed (use True w(3) in auto)
  next
    case False
    let ?p = "last tw"
    let ?hs = "((hdrs s)(m := (hdrs s m)\<lparr>hdr_next := hdr_next (hdrs s ?p)\<rparr>))(?p := (hdrs s ?p)\<lparr>hdr_next := m\<rparr>)"
    have pm: "?p \<in> set tw" "?p \<noteq> m" "?p \<notin> set dw" using False mt(1) l(1) w(1) by (auto simp: disjoint_iff)
    have hd: "hd ms = hd tw" "hd dw \<noteq> hd tw" using False w(1,2) l(1) by (auto simp: disjoint_iff dest: hd_in_set)
    show ?thesis
    proof (rule relinkedI [OF i _ _ _ _ t])
      show "insert_message i m s = Some (set_ends i (hd ms) (last ms) ?hs s)"
        using False w(4) m l p hd pm(2) set_ends_same [of ?hs s i]
        by (simp add: insert_message_def Let_def upd_hdr_def)
      have np: "hdr_next (hdrs s ?p) = hd dw" using chain_last [OF ch(1) False] by simp
      have "chain ((hdr_next \<circ> hdrs s)(?p := m)) tw m" using chain_redirect [OF ch(1) _ False] l(1) w(1) by simp
      then have "chain (((hdr_next \<circ> hdrs s)(?p := m))(m := hd dw)) tw m" using mt by simp
      then have "chain (hdr_next \<circ> ?hs) tw m" using pm(2) np by (simp add: fun_upd_comp fun_upd_twist)
      moreover have "chain (hdr_next \<circ> ?hs) (m # dw) e" using ch(2) mt pm np w(2) by (simp add: fun_upd_comp)
      ultimately show "chain (hdr_next \<circ> ?hs) (place m s ms) e" by (simp add: w(3) chain_append)
      show "hd ms = hd (place m s ms)" using False hd(1) by (simp add: w(3))
      show "e = 0 \<or> e = q_base (q_data (pqd s i)) \<and> last (place m s ms) = q_base (q_data (pqd s i))"
        using e(2) t by simp
      show "q \<notin> set (m # ms) \<Longrightarrow> ?hs q = hdrs s q" for q using pm(1) w(1) by auto
    qed auto
  qed
qed

lemma insert_message_ok: "insertable i m s ms \<Longrightarrow> relinked i m s ms (insert_message i m s)"
  using insert_into_empty insert_at_back insert_before_last by metis

section \<open>Putting a message\<close>

text \<open>What an operation on the messages of a queue leaves alone.\<close>

definition local_change :: "nat \<Rightarrow> pq \<Rightarrow> pq \<Rightarrow> bool" where
  "local_change i s s' \<longleftrightarrow> (let q = q_data (pqd s i); q' = q_data (pqd s' i) in
     s' = s\<lparr>pqd := (pqd s)(i := pqd s' i), hdrs := hdrs s', body := body s'\<rparr>
     \<and> pqd s' i = (pqd s i)\<lparr>q_data := q', notify_task := notify_task (pqd s' i)\<rparr>
     \<and> q_base q' = q_base q \<and> q_attrs q' = (q_attrs q)\<lparr>mq_curmsgs := mq_curmsgs (q_attrs q')\<rparr>
     \<and> (\<forall>p. p \<notin> slots q \<longrightarrow> hdrs s' p = hdrs s p)
     \<and> (\<forall>a. a < q_base q \<or> q_base q + nat (mq_maxmsg (q_attrs q)) * stride q \<le> a \<longrightarrow> body s' a = body s a))"

lemma getnode_ok:
  assumes ok: "queue_ok i s ms" and room: "int (length ms) < mq_maxmsg (q_attrs (q_data (pqd s i)))"
  shows "\<exists>m. getnode i s = Some (m, upd_hdr m (\<lambda>h. h\<lparr>in_use := True\<rparr>) s) \<and> m \<in> slots (q_data (pqd s i))
    \<and> \<not> in_use (hdrs s m) \<and> (ms = [] \<longrightarrow> m = q_base (q_data (pqd s i)))"
proof -
  let ?q = "q_data (pqd s i)"
  let ?n = "nat (mq_maxmsg (q_attrs ?q))"
  have a: "attrs_ok (q_attrs ?q)" and d: "distinct ms" and used: "set ms = {p \<in> slots ?q. in_use (hdrs s p)}"
    using ok by (simp_all add: queue_ok_def Let_def)
  have st: "uchar_stride (mq_msgsize (q_attrs ?q)) = stride ?q" "u32 (mq_maxmsg (q_attrs ?q)) = ?n"
    using attrs_ok_strides [OF a] by (simp_all add: stride_def)
  have "card (set ms) < card (slots ?q)" using d room distinct_card by (fastforce simp: slots_card)
  then obtain p where p: "p \<in> slots ?q" "\<not> in_use (hdrs s p)"
    using used by (metis (no_types, lifting) card_mono finite_set linorder_not_le mem_Collect_eq subsetI)
  then obtain k where "k < ?n" "p = q_base ?q + k * stride ?q" by (auto simp: slots_def)
  then obtain m where m: "find_slot_free ?n (q_base ?q) (stride ?q) (hdrs s) = Some m"
    using find_slot_free_exists p(2) by blast
  then have "m \<in> slots ?q" "\<not> in_use (hdrs s m)" using find_slot_free_Some [OF m] by (auto simp: slots_def)
  moreover have "m = q_base ?q" if "ms = []"
  proof -
    obtain n where n: "?n = Suc n" using a by (cases ?n) (auto simp: attrs_ok_def)
    then have "q_base ?q \<in> slots ?q" by (auto simp: slots_def intro!: image_eqI [of _ _ 0])
    then have "\<not> in_use (hdrs s (q_base ?q))" using used that by auto
    then show ?thesis using m n by simp
  qed
  ultimately show ?thesis using m st by (simp add: getnode_def Let_def)
qed

lemma relinked_queue:
  fixes t
  assumes r: "relinked i m t ms r" and set: "set (m # ms) = {p \<in> slots (q_data (pqd t i)). in_use (hdrs t p)}"
    and a: "attrs_ok (q_attrs (q_data (pqd t i)))" "q_base (q_data (pqd t i)) \<noteq> 0"
    and n: "mq_curmsgs (q_attrs (q_data (pqd t i))) = int (length (m # ms))"
    and fr: "\<forall>p \<in> slots (q_data (pqd t i)). \<not> in_use (hdrs t p) \<longrightarrow> hdr_next (hdrs t p) = 0"
    and sz: "\<forall>p \<in> set (m # ms). hdr_size (hdrs t p) \<le> nat (mq_msgsize (q_attrs (q_data (pqd t i))))"
  shows "\<exists>h e hs. r = Some (set_ends i h e hs t) \<and> queue_ok i (set_ends i h e hs t) (place m t ms)
    \<and> messages (set_ends i h e hs t) (place m t ms) = map (message_at t) (place m t ms)
    \<and> (\<forall>p. p \<notin> slots (q_data (pqd t i)) \<longrightarrow> hs p = hdrs t p)"
proof -
  obtain h e hs where r': "r = Some (set_ends i h e hs t)" "linked i (set_ends i h e hs t) (place m t ms)"
    "\<forall>p. in_use (hs p) = in_use (hdrs t p) \<and> hdr_size (hs p) = hdr_size (hdrs t p) \<and> hdr_prio (hs p) = hdr_prio (hdrs t p)"
    "\<forall>p. p \<notin> set (m # ms) \<longrightarrow> hs p = hdrs t p"
    using r unfolding relinked_def by blast
  have len: "length (place m t ms) = Suc (length ms)"
    by (simp add: place_def length_insert_after_while)
  have sl: "slots (q_data (pqd (set_ends i h e hs t) i)) = slots (q_data (pqd t i))" by (simp add: slots_def stride_def)
  have "set (place m t ms) = set (m # ms)" by (simp add: place_def)
  then have "queue_ok i (set_ends i h e hs t) (place m t ms)"
    using r'(2) set a n fr sz r'(3,4) len unfolding queue_ok_def linked_def Let_def sl by (auto simp: set_eq_iff)
  moreover have "messages (set_ends i h e hs t) (place m t ms) = map (message_at t) (place m t ms)"
    using r'(3) by (simp add: messages_def message_at_def copy_out_def)
  moreover have "\<forall>p. p \<notin> slots (q_data (pqd t i)) \<longrightarrow> hs p = hdrs t p" using r'(4) set by blast
  ultimately show ?thesis using r'(1) by blast
qed

text \<open>The new message, filled but not yet linked.\<close>

definition filled :: "nat \<Rightarrow> addr \<Rightarrow> byte list \<Rightarrow> nat \<Rightarrow> pq \<Rightarrow> pq" where
  "filled i m xs prio s = copy_in (m + MSG_HDR_SIZE) xs
     (upd_hdr m (\<lambda>h. h\<lparr>hdr_size := length xs, hdr_prio := prio\<rparr>)
       (count_msgs i 1 (upd_hdr m (\<lambda>h. h\<lparr>in_use := True\<rparr>) s)))"

lemma filled_simps [simp]:
  "hdrs (filled i m xs prio s) = (hdrs s)(m := (hdrs s m)\<lparr>in_use := True, hdr_size := length xs, hdr_prio := prio\<rparr>)"
  "q_data (pqd (filled i m xs prio s) i) =
     (q_data (pqd s i))\<lparr>q_attrs := (q_attrs (q_data (pqd s i)))\<lparr>mq_curmsgs := mq_curmsgs (q_attrs (q_data (pqd s i))) + 1\<rparr>\<rparr>"
  "slots (q_data (pqd (filled i m xs prio s) i)) = slots (q_data (pqd s i))"
  "queue_type (filled i m xs prio s) = queue_type s"
  "body (filled i m xs prio s) = (\<lambda>a. if m + MSG_HDR_SIZE \<le> a \<and> a < m + MSG_HDR_SIZE + length xs
     then xs ! (a - (m + MSG_HDR_SIZE)) else body s a)"
  by (simp_all add: filled_def count_msgs_def upd_hdr_def upd_ctrl_def upd_q_def copy_in_def slots_def stride_def
      cong: if_cong)

lemma filled_insertable:
  assumes ok: "queue_ok i s ms" and m: "m \<in> slots (q_data (pqd s i))" "\<not> in_use (hdrs s m)" "ms = [] \<longrightarrow> m = q_base (q_data (pqd s i))"
    and ty: "queue_type s = POSIX"
  shows "insertable i m (filled i m xs prio s) ms"
proof -
  let ?q = "q_data (pqd s i)"
  have used: "set ms = {p \<in> slots ?q. in_use (hdrs s p)}" and base: "q_base ?q \<noteq> 0" and t: "q_tail ?q = last (q_base ?q # ms)"
    using ok by (simp_all add: queue_ok_def Let_def)
  have mn: "m \<notin> set ms" and z: "0 \<notin> set ms" using used m(2) queue_ok_zero [OF ok] by auto
  obtain e where e: "e = 0 \<or> e = q_base ?q \<and> last ms = q_base ?q" "chain (hdr_next \<circ> hdrs s) ms e"
    using ok by (auto simp: queue_ok_def Let_def)
  have "chain (hdr_next \<circ> hdrs (filled i m xs prio s)) ms e" using e(2) mn by (simp add: fun_upd_comp)
  moreover have "sorted_wrt (\<lambda>p p'. hdr_prio (hdrs (filled i m xs prio s) p') \<le> hdr_prio (hdrs (filled i m xs prio s) p)) ms"
  proof -
    have "sorted_wrt (\<lambda>p p'. hdr_prio (hdrs s p') \<le> hdr_prio (hdrs s p)) ms" using ok by (simp add: queue_ok_def Let_def)
    then show ?thesis by (rule sorted_wrt_mono_rel [rotated]) (use mn in auto)
  qed
  ultimately have "linked i (filled i m xs prio s) ms"
    using ok e(1) unfolding linked_def queue_ok_def Let_def by (intro conjI exI [of _ e]) simp_all
  moreover have "last (q_base ?q # ms) \<noteq> 0" using base z last_in_set [of ms] by (cases "ms = []") (simp, metis last.simps)
  moreover have "hdr_next (hdrs s m) = 0" using ok m by (simp add: queue_ok_def Let_def)
  ultimately show ?thesis using mn z m(3) t ty by (simp add: insertable_def)
qed

lemma filled_messages:
  assumes ok: "queue_ok i s ms" and m: "m \<in> slots (q_data (pqd s i))" "\<not> in_use (hdrs s m)"
    and len: "length xs \<le> nat (mq_msgsize (q_attrs (q_data (pqd s i))))"
  shows "map (message_at (filled i m xs prio s)) (place m (filled i m xs prio s) ms) = pq_insert prio xs (messages s ms)"
proof -
  let ?t = "filled i m xs prio s" and ?q = "q_data (pqd s i)"
  have used: "set ms = {p \<in> slots ?q. in_use (hdrs s p)}" and sz: "\<forall>p \<in> set ms. hdr_size (hdrs s p) \<le> nat (mq_msgsize (q_attrs ?q))"
    using ok by (simp_all add: queue_ok_def Let_def)
  have mn: "m \<notin> set ms" using used m(2) by auto
  have "message_at ?t p = message_at s p" if "p \<in> set ms" for p
  proof -
    have "p + stride ?q \<le> m \<or> m + stride ?q \<le> p" using slots_apart [of p ?q m] used m that mn by blast
    then have "copy_out (p + MSG_HDR_SIZE) (hdr_size (hdrs s p)) ?t = copy_out (p + MSG_HDR_SIZE) (hdr_size (hdrs s p)) s"
      using sz that len by (intro copy_out_same) (auto simp: stride_def)
    then show ?thesis using that mn by (auto simp: message_at_def)
  qed
  moreover have "message_at ?t m = (prio, xs)"
    using copy_out_in [of ?t "m + MSG_HDR_SIZE" xs "upd_hdr m (\<lambda>h. h\<lparr>hdr_size := length xs, hdr_prio := prio\<rparr>)
       (count_msgs i 1 (upd_hdr m (\<lambda>h. h\<lparr>in_use := True\<rparr>) s))"] by (simp add: message_at_def filled_def [symmetric])
  moreover have "place m ?t ms = insert_after_while (\<lambda>p. prio \<le> fst (message_at ?t p)) m ms"
    by (simp add: place_def message_at_def cong: if_cong)
  moreover have "map (message_at ?t) (insert_after_while (\<lambda>p. prio \<le> fst (message_at ?t p)) m ms)
      = insert_after_while (\<lambda>x. prio \<le> fst x) (message_at ?t m) (map (message_at ?t) ms)"
    by (rule map_insert_after_while)
  ultimately show ?thesis by (simp add: pq_insert_def messages_def cong: map_cong)
qed

lemma put_message_ok:
  assumes ok: "queue_ok i s ms" and room: "int (length ms) < mq_maxmsg (q_attrs (q_data (pqd s i)))"
    and len: "length xs \<le> nat (mq_msgsize (q_attrs (q_data (pqd s i))))" and ty: "queue_type s = POSIX"
  shows "\<exists>s' ms'. put_message i xs prio s = Some (int (length xs), s') \<and> queue_ok i s' ms'
    \<and> messages s' ms' = pq_insert prio xs (messages s ms) \<and> local_change i s s' \<and> length ms' = Suc (length ms)"
proof -
  let ?q = "q_data (pqd s i)"
  obtain m where m: "getnode i s = Some (m, upd_hdr m (\<lambda>h. h\<lparr>in_use := True\<rparr>) s)" "m \<in> slots ?q"
      "\<not> in_use (hdrs s m)" "ms = [] \<longrightarrow> m = q_base ?q"
    using getnode_ok [OF ok room] by blast
  let ?t = "filled i m xs prio s"
  have q: "attrs_ok (q_attrs ?q)" "q_base ?q \<noteq> 0" "mq_curmsgs (q_attrs ?q) = int (length ms)"
    "set ms = {p \<in> slots ?q. in_use (hdrs s p)}" "\<forall>p \<in> slots ?q. \<not> in_use (hdrs s p) \<longrightarrow> hdr_next (hdrs s p) = 0"
    "\<forall>p \<in> set ms. hdr_size (hdrs s p) \<le> nat (mq_msgsize (q_attrs ?q))"
    using ok by (simp_all add: queue_ok_def Let_def)
  have r: "relinked i m ?t ms (insert_message i m ?t)"
    by (rule insert_message_ok [OF filled_insertable [OF ok m(2-4) ty]])
  have "\<exists>h e hs. insert_message i m ?t = Some (set_ends i h e hs ?t) \<and> queue_ok i (set_ends i h e hs ?t) (place m ?t ms)
    \<and> messages (set_ends i h e hs ?t) (place m ?t ms) = map (message_at ?t) (place m ?t ms)
    \<and> (\<forall>p. p \<notin> slots (q_data (pqd ?t i)) \<longrightarrow> hs p = hdrs ?t p)"
    by (rule relinked_queue [OF r]) (use q m len in \<open>auto simp: attrs_ok_def\<close>)
  then obtain h e hs where s3: "insert_message i m ?t = Some (set_ends i h e hs ?t)"
    "queue_ok i (set_ends i h e hs ?t) (place m ?t ms)"
    "messages (set_ends i h e hs ?t) (place m ?t ms) = map (message_at ?t) (place m ?t ms)"
    "\<forall>p. p \<notin> slots ?q \<longrightarrow> hs p = hdrs ?t p" by auto
  let ?e = "is_empty (q_data (pqd (upd_hdr m (\<lambda>h. h\<lparr>in_use := True\<rparr>) s) i))"
  let ?s = "notify_arrival i ?e (set_ends i h e hs ?t)"
  have "\<not> length xs > u32 (mq_msgsize (q_attrs ?q))" using len attrs_ok_strides [OF q(1)] by simp
  then have "put_message i xs prio s = Some (int (length xs), ?s)"
    using m(1) s3(1) by (simp add: put_message_def Let_def filled_def count_msgs_def upd_ctrl_def upd_q_def upd_hdr_def)
  moreover have same: "q_data (pqd ?s i) = q_data (pqd (set_ends i h e hs ?t) i)" "hdrs ?s = hs" "body ?s = body ?t"
    by (simp_all add: notify_arrival_def upd_q_def)
  moreover have "queue_ok i ?s (place m ?t ms)" using s3(2) unfolding queue_ok_def same by (simp only: set_ends_simps)
  moreover have "message_at ?s = message_at (set_ends i h e hs ?t)"
    unfolding fun_eq_iff message_at_def copy_out_def same by simp
  then have "messages ?s (place m ?t ms) = pq_insert prio xs (messages s ms)"
    using s3(3) filled_messages [OF ok m(2,3) len, of prio] by (simp add: messages_def)
  moreover have "local_change i s ?s"
  proof -
    have "hs p = hdrs s p" if "p \<notin> slots ?q" for p using s3(4) that m(2) by auto
    moreover have "m + stride ?q \<le> q_base ?q + nat (mq_maxmsg (q_attrs ?q)) * stride ?q \<and> q_base ?q \<le> m"
      using slot_in [OF m(2)] by simp
    then have "m + MSG_HDR_SIZE + length xs \<le> q_base ?q + nat (mq_maxmsg (q_attrs ?q)) * stride ?q \<and> q_base ?q \<le> m"
      using len by (simp add: stride_def)
    ultimately show ?thesis unfolding local_change_def Let_def same
      by (auto simp: notify_arrival_def set_ends_def filled_def count_msgs_def upd_ctrl_def upd_q_def upd_hdr_def copy_in_def)
  qed
  ultimately show ?thesis by (intro exI conjI) (assumption | simp add: place_def length_insert_after_while)+
qed

end
