(* ===== verification/Pqueue_Calls.thy ===== *)
theory Pqueue_Calls
  imports Pqueue_Props
begin

text \<open>
  Taking a message from a queue, whole calls, and sequences of them.
\<close>

section \<open>Taking a message\<close>

lemma keep_tail: "q_tail q = t \<Longrightarrow> q\<lparr>q_head := h\<rparr> = q\<lparr>q_head := h, q_tail := t\<rparr>" for q :: q_ctrl
  by (cases q) simp

lemma upd_ctrl_cong: "f (q_data (pqd s i)) = g (q_data (pqd s i)) \<Longrightarrow> upd_ctrl i f s = upd_ctrl i g s"
  by (simp add: upd_ctrl_def upd_q_def)

lemma take_head_ok:
  assumes ok: "queue_ok i s (m # ms)" and buf: "nat (mq_msgsize (q_attrs (q_data (pqd s i)))) \<le> buflen"
  shows "\<exists>s'. take_head i buflen s = Some ((int (length (snd (message_at s m))), snd (message_at s m), Some (fst (message_at s m))), s')
    \<and> queue_ok i s' ms \<and> messages s' ms = messages s ms \<and> local_change i s s'"
proof -
  let ?q = "q_data (pqd s i)" and ?free = "(hdrs s)(m := (hdrs s m)\<lparr>in_use := False, hdr_size := 0, hdr_next := 0\<rparr>)"
  note q = queue_okD [OF ok]
  obtain e where e: "e = 0 \<or> e = q_base ?q \<and> last (m # ms) = q_base ?q" "chain (hdr_next \<circ> hdrs s) (m # ms) e"
    using q(8) by (elim exE conjE)
  have q6: "q_head ?q = m" "q_tail ?q = last (m # ms)" "m \<notin> set ms" using q(3,6,7) by simp_all
  have sub: "p \<in> slots ?q \<and> p \<noteq> 0" if "p \<in> set (m # ms)" for p
  proof -
    have "p \<in> slots ?q" using that unfolding q(4) by simp
    then show ?thesis using queue_ok_zero [OF ok] by metis
  qed
  then have ms: "m \<in> slots ?q" "m \<noteq> 0" by simp_all
  have nx: "hdr_next (hdrs s m) = hd (ms @ [e])" using e(2) by simp
  let ?h = "hd (ms @ [q_base ?q])" and ?t = "last (q_base ?q # ms)"
  have hdz: "ms \<noteq> [] \<Longrightarrow> hd ms \<noteq> 0" using sub by simp
  have ends: "(if hdr_next (hdrs s m) = 0 then ?q\<lparr>q_head := q_base ?q, q_tail := q_base ?q\<rparr>
      else ?q\<lparr>q_head := hdr_next (hdrs s m)\<rparr>) = ?q\<lparr>q_head := ?h, q_tail := ?t\<rparr>"
    using e(1)
  proof
    assume "e = 0"
    then show ?thesis using nx q6(2) keep_tail [of ?q ?t] hdz by (cases "ms = []") simp_all
  next
    assume "e = q_base ?q \<and> last (m # ms) = q_base ?q"
    then have "q_tail ?q = ?t" "hdr_next (hdrs s m) = ?h" "?h \<noteq> 0"
      using nx q6(2) q(2) hdz by (cases "ms = []"; simp)+
    then show ?thesis using keep_tail [of ?q ?t ?h] by simp
  qed
  let ?s = "count_msgs i (- 1) (set_ends i ?h ?t ?free s)"
  have take: "take_head i buflen s = Some ((int (length (snd (message_at s m))), snd (message_at s m), Some (fst (message_at s m))), ?s)"
  proof -
    have "upd_ctrl i (\<lambda>r. if hdr_next (hdrs s m) = 0 then r\<lparr>q_head := q_base r, q_tail := q_base r\<rparr>
        else r\<lparr>q_head := hdr_next (hdrs s m)\<rparr>) s = upd_ctrl i (\<lambda>q. q\<lparr>q_head := ?h, q_tail := ?t\<rparr>) s"
      using ends by (intro upd_ctrl_cong)
    then have "upd_hdr m (\<lambda>h. h\<lparr>in_use := False, hdr_size := 0, hdr_next := 0\<rparr>)
        (upd_ctrl i (\<lambda>r. if hdr_next (hdrs s m) = 0 then r\<lparr>q_head := q_base r, q_tail := q_base r\<rparr>
           else r\<lparr>q_head := hdr_next (hdrs s m)\<rparr>) s) = set_ends i ?h ?t ?free s"
      by (simp add: upd_hdr_def upd_ctrl_def upd_q_def set_ends_def)
    then show ?thesis using ms(2) q(10) buf unfolding take_head_def Let_def q6(1)
      by (simp add: message_at_def copy_out_def)
  qed
  have same: "hdrs ?s = ?free" "body ?s = body s"
    "q_data (pqd ?s i) = ?q\<lparr>q_head := ?h, q_tail := ?t, q_attrs := (q_attrs ?q)\<lparr>mq_curmsgs := mq_curmsgs (q_attrs ?q) - 1\<rparr>\<rparr>"
    by (simp_all add: count_msgs_def upd_ctrl_def upd_q_def set_ends_def)
  note mn = q6(3)
  have "chain (hdr_next \<circ> ?free) ms e" using e(2) mn by (simp add: fun_upd_comp)
  moreover have "e = 0 \<or> e = q_base ?q \<and> last ms = q_base ?q" if "ms \<noteq> []" using e(1) that by simp
  ultimately have ch: "\<exists>e. (e = 0 \<or> e = q_base ?q \<and> last ms = q_base ?q) \<and> chain (hdr_next \<circ> ?free) ms e"
    by (cases "ms = []") auto
  have so: "sorted_wrt (\<lambda>p p'. hdr_prio (?free p') \<le> hdr_prio (?free p)) ms"
  proof -
    have "sorted_wrt (\<lambda>p p'. hdr_prio (hdrs s p') \<le> hdr_prio (hdrs s p)) ms" using q(11) by simp
    then show ?thesis by (rule sorted_wrt_mono_rel [rotated]) (use mn in auto)
  qed
  have used: "set ms = {p \<in> slots ?q. in_use (?free p)}"
  proof -
    have "set ms = set (m # ms) - {m}" using mn by simp
    then show ?thesis unfolding q(4) by auto
  qed
  have sl: "slots (q_data (pqd ?s i)) = slots ?q" unfolding same by (simp add: slots_def stride_def)
  have at: "q_attrs (q_data (pqd ?s i)) = (q_attrs ?q)\<lparr>mq_curmsgs := mq_curmsgs (q_attrs ?q) - 1\<rparr>"
    "q_base (q_data (pqd ?s i)) = q_base ?q" "q_head (q_data (pqd ?s i)) = ?h" "q_tail (q_data (pqd ?s i)) = ?t"
    unfolding same by simp_all
  have "queue_ok i ?s ms"
  proof (rule queue_okI, unfold at sl same(1))
    show "attrs_ok ((q_attrs ?q)\<lparr>mq_curmsgs := mq_curmsgs (q_attrs ?q) - 1\<rparr>)" using q(1) by (simp add: attrs_ok_def)
    show "set ms = {p \<in> slots ?q. in_use (?free p)}" by (rule used)
    show "hdr_next (?free p) = 0" if "p \<in> slots ?q" "\<not> in_use (?free p)" for p using q(9) that by (cases "p = m") auto
    show "hdr_size (?free p) \<le> nat (mq_msgsize ((q_attrs ?q)\<lparr>mq_curmsgs := mq_curmsgs (q_attrs ?q) - 1\<rparr>))"
      if "p \<in> set ms" for p using q(10) that mn by auto
  qed (use q(2,3,5) ch so in simp_all)
  moreover have "messages ?s ms = messages s ms"
    unfolding messages_def message_at_def copy_out_def same by (rule map_cong [OF refl]) (use mn in auto)
  moreover have "local_change i s ?s" unfolding local_change_def Let_def same
    using ms(1) by (auto simp: set_ends_def count_msgs_def upd_ctrl_def upd_q_def)
  ultimately show ?thesis using take by blast
qed

section \<open>Whole calls\<close>

lemma local_change_access:
  assumes "local_change i s s'"
  shows "can_access me i acc s' = can_access me i acc s" "is_blocking me i s' = is_blocking me i s"
    "queue_type s' = queue_type s" "mq_maxmsg (q_attrs (q_data (pqd s' i))) = mq_maxmsg (q_attrs (q_data (pqd s i)))"
    "mq_msgsize (q_attrs (q_data (pqd s' i))) = mq_msgsize (q_attrs (q_data (pqd s i)))"
proof -
  have s': "s' = s\<lparr>pqd := (pqd s)(i := pqd s' i), hdrs := hdrs s', body := body s'\<rparr>"
    and i: "pqd s' i = (pqd s i)\<lparr>q_data := q_data (pqd s' i), notify_task := notify_task (pqd s' i)\<rparr>"
    and a: "q_attrs (q_data (pqd s' i)) = (q_attrs (q_data (pqd s i)))\<lparr>mq_curmsgs := mq_curmsgs (q_attrs (q_data (pqd s' i)))\<rparr>"
    using assms unfolding local_change_def Let_def by - (elim conjE, assumption)+
  have t: "tacc s' = tacc s" "system_data s' = system_data s" "zmem s' = zmem s" "queue_type s' = queue_type s"
    by (subst s', simp)+
  have q: "q_id (pqd s' i) = q_id (pqd s i)" "q_owner (pqd s' i) = q_owner (pqd s i)" "permissions (pqd s' i) = permissions (pqd s i)"
    by (subst i, simp)+
  show "can_access me i acc s' = can_access me i acc s" "is_blocking me i s' = is_blocking me i s" "queue_type s' = queue_type s"
    unfolding can_access_def is_blocking_def permitted_def open_entry_def Let_def t q by simp_all
  show "mq_maxmsg (q_attrs (q_data (pqd s' i))) = mq_maxmsg (q_attrs (q_data (pqd s i)))"
    "mq_msgsize (q_attrs (q_data (pqd s' i))) = mq_msgsize (q_attrs (q_data (pqd s i)))" by (subst a, simp)+
qed

lemma queue_ok_length: "queue_ok i s ms \<Longrightarrow> length ms \<le> nat (mq_maxmsg (q_attrs (q_data (pqd s i))))"
proof -
  assume ok: "queue_ok i s ms"
  then have "card (set ms) \<le> card (slots (q_data (pqd s i)))" by (intro card_mono) (simp_all add: queue_okD(4) subset_iff)
  then show ?thesis using queue_okD(3) [OF ok] by (simp add: distinct_card slots_card)
qed

text \<open>The promise of a queue that holds \<open>cap\<close> messages and is used without blocking.\<close>

definition spec_send :: "nat \<Rightarrow> nat \<Rightarrow> byte list \<Rightarrow> (nat \<times> byte list) list \<Rightarrow> int \<times> (nat \<times> byte list) list" where
  "spec_send cap prio xs ms = (if length ms = cap then (- EAGAIN, ms) else (int (length xs), pq_insert prio xs ms))"

fun spec_receive :: "(nat \<times> byte list) list \<Rightarrow> (int \<times> byte list \<times> nat option) \<times> (nat \<times> byte list) list" where
  "spec_receive [] = ((- EAGAIN, [], None), [])"
| "spec_receive ((prio, xs) # ms) = ((int (length xs), xs, Some prio), ms)"

text \<open>Sends (\<open>Some\<close> of priority and bytes) and receives (\<open>None\<close>) in any order, with what the calls return.\<close>

primrec spec_run :: "nat \<Rightarrow> (nat \<times> byte list) option list \<Rightarrow> (nat \<times> byte list) list
    \<Rightarrow> (int \<times> byte list \<times> nat option) list \<times> (nat \<times> byte list) list" where
  "spec_run cap [] ms = ([], ms)"
| "spec_run cap (e # es) ms = (case e of
     Some m \<Rightarrow> let (r, ms1) = spec_send cap (fst m) (snd m) ms; (rs, ms2) = spec_run cap es ms1 in ((r, [], None) # rs, ms2)
   | None \<Rightarrow> let (r, ms1) = spec_receive ms; (rs, ms2) = spec_run cap es ms1 in (r # rs, ms2))"

locale priority_queue =
  fixes rep :: "'s \<Rightarrow> (nat \<times> byte list) list \<Rightarrow> bool" and cap :: nat and width :: nat
    and send :: "nat \<Rightarrow> byte list \<Rightarrow> 's \<Rightarrow> (int \<times> 's) option"
    and receive :: "'s \<Rightarrow> ((int \<times> byte list \<times> nat option) \<times> 's) option"
  assumes send_law: "rep s ms \<Longrightarrow> length xs \<le> width \<Longrightarrow> prio \<le> MQ_PRIO_MAX \<Longrightarrow>
      \<exists>s'. send prio xs s = Some (fst (spec_send cap prio xs ms), s') \<and> rep s' (snd (spec_send cap prio xs ms))"
    and receive_law: "rep s ms \<Longrightarrow> \<exists>s'. receive s = Some (fst (spec_receive ms), s') \<and> rep s' (snd (spec_receive ms))"
begin

primrec run :: "(nat \<times> byte list) option list \<Rightarrow> 's \<Rightarrow> ((int \<times> byte list \<times> nat option) list \<times> 's) option" where
  "run [] s = Some ([], s)"
| "run (e # es) s = (case e of
     Some m \<Rightarrow> do { (r, s1) \<leftarrow> send (fst m) (snd m) s; (rs, s2) \<leftarrow> run es s1; Some ((r, [], None) # rs, s2) }
   | None \<Rightarrow> do { (r, s1) \<leftarrow> receive s; (rs, s2) \<leftarrow> run es s1; Some (r # rs, s2) })"

lemma run_spec:
  assumes "rep s ms" and "\<forall>m. Some m \<in> set es \<longrightarrow> fst m \<le> MQ_PRIO_MAX \<and> length (snd m) \<le> width"
  shows "\<exists>s'. run es s = Some (fst (spec_run cap es ms), s') \<and> rep s' (snd (spec_run cap es ms))"
  using assms
proof (induction es arbitrary: s ms)
  case Nil
  then show ?case by simp
next
  case (Cons e es)
  show ?case
  proof (cases e)
    case None
    obtain s1 where 1: "receive s = Some (fst (spec_receive ms), s1)" "rep s1 (snd (spec_receive ms))"
      using receive_law [OF Cons.prems(1)] by blast
    obtain s2 where "run es s1 = Some (fst (spec_run cap es (snd (spec_receive ms))), s2)"
      "rep s2 (snd (spec_run cap es (snd (spec_receive ms))))"
      using Cons.IH [OF 1(2)] Cons.prems(2) by auto
    then show ?thesis using 1(1) None by (simp add: case_prod_beta Let_def)
  next
    case (Some m)
    let ?r = "spec_send cap (fst m) (snd m) ms"
    have "length (snd m) \<le> width" "fst m \<le> MQ_PRIO_MAX" using Cons.prems(2) Some by (cases m; simp)+
    then obtain s1 where 1: "send (fst m) (snd m) s = Some (fst ?r, s1)" "rep s1 (snd ?r)"
      using send_law [OF Cons.prems(1)] by blast
    obtain s2 where "run es s1 = Some (fst (spec_run cap es (snd ?r)), s2)" "rep s2 (snd (spec_run cap es (snd ?r)))"
      using Cons.IH [OF 1(2)] Cons.prems(2) by auto
    then show ?thesis using 1(1) Some by (simp add: case_prod_beta Let_def)
  qed
qed

end

text \<open>A call that has returned.\<close>

definition returned :: "('s, 'a) sres \<Rightarrow> ('a \<times> 's) option" where
  "returned r = (case r of Ret a s \<Rightarrow> Some (a, s) | _ \<Rightarrow> None)"

lemma returned_simps [simp]: "returned (Ret a s) = Some (a, s)" "returned (Switch s k) = None" "returned Stuck = None"
  by (simp_all add: returned_def)

definition pq_send :: "tid \<Rightarrow> nat \<Rightarrow> nat \<Rightarrow> byte list \<Rightarrow> pq \<Rightarrow> (int \<times> pq) option" where
  "pq_send me mq prio xs s = returned (mq_send 0 me mq xs prio s)"

definition pq_receive :: "tid \<Rightarrow> nat \<Rightarrow> nat \<Rightarrow> pq \<Rightarrow> ((int \<times> byte list \<times> nat option) \<times> pq) option" where
  "pq_receive me mq width s = returned (mq_receive 0 me mq width s)"

text \<open>Queue \<open>mq\<close> holds the messages \<open>ms\<close>, and the task has opened it for both directions, without blocking.\<close>

definition pq_rep :: "tid \<Rightarrow> nat \<Rightarrow> nat \<Rightarrow> nat \<Rightarrow> pq \<Rightarrow> (nat \<times> byte list) list \<Rightarrow> bool" where
  "pq_rep me mq cap width s ms \<longleftrightarrow> 1 \<le> mq \<and> mq \<le> MAX_PQUEUES \<and> queue_type s = POSIX
     \<and> (\<exists>L. queue_ok (mq - 1) s L \<and> messages s L = ms)
     \<and> mq_maxmsg (q_attrs (q_data (pqd s (mq - 1)))) = int cap \<and> mq_msgsize (q_attrs (q_data (pqd s (mq - 1)))) = int width
     \<and> can_access me (mq - 1) FOR_READ s = Some True \<and> can_access me (mq - 1) FOR_WRITE s = Some True
     \<and> is_blocking me (mq - 1) s = Some False"

lemma q_index_valid: "1 \<le> mq \<Longrightarrow> mq \<le> MAX_PQUEUES \<Longrightarrow> q_index mq = int (mq - 1) \<and> valid_index (q_index mq)"
  by (simp add: q_index_def valid_index_def)

lemma pq_repD:
  assumes "pq_rep me mq cap width s ms"
  obtains i L where "i = mq - 1" "q_index mq = int i" "valid_index (int i)" "queue_ok i s L" "messages s L = ms" "queue_type s = POSIX"
    "mq_maxmsg (q_attrs (q_data (pqd s i))) = int cap" "mq_msgsize (q_attrs (q_data (pqd s i))) = int width"
    "can_access me i FOR_READ s = Some True" "can_access me i FOR_WRITE s = Some True" "is_blocking me i s = Some False"
    "length L \<le> cap" "length L = length ms"
proof -
  obtain L where L: "queue_ok (mq - 1) s L" "messages s L = ms" using assms by (auto simp: pq_rep_def)
  show thesis
    by (rule that [of "mq - 1" L])
      (use assms L q_index_valid [of mq] queue_ok_length [OF L(1)] in \<open>auto simp: pq_rep_def messages_def valid_index_def\<close>)
qed

lemma pq_rep_local:
  assumes "pq_rep me mq cap width s ms" and "local_change (mq - 1) s s'" and "queue_ok (mq - 1) s' L"
  shows "pq_rep me mq cap width s' (messages s' L)"
  using assms local_change_access [OF assms(2)] unfolding pq_rep_def by auto

lemma full_iff: "queue_ok i s L \<Longrightarrow> is_full (q_data (pqd s i)) \<longleftrightarrow> int (length L) = mq_maxmsg (q_attrs (q_data (pqd s i)))"
  and empty_iff: "queue_ok i s L \<Longrightarrow> is_empty (q_data (pqd s i)) \<longleftrightarrow> L = []"
  using queue_okD(5) by (simp_all add: is_full_def is_empty_def)

lemma pq_send_law:
  assumes r: "pq_rep me mq cap width s ms" and len: "length xs \<le> width" and p: "prio \<le> MQ_PRIO_MAX"
  shows "\<exists>s'. pq_send me mq prio xs s = Some (fst (spec_send cap prio xs ms), s') \<and> pq_rep me mq cap width s' (snd (spec_send cap prio xs ms))"
proof -
  obtain i L where i: "i = mq - 1" "q_index mq = int i" "valid_index (int i)" "queue_ok i s L" "messages s L = ms" "queue_type s = POSIX"
    "mq_maxmsg (q_attrs (q_data (pqd s i))) = int cap" "mq_msgsize (q_attrs (q_data (pqd s i))) = int width"
    "can_access me i FOR_READ s = Some True" "can_access me i FOR_WRITE s = Some True" "is_blocking me i s = Some False"
    "length L \<le> cap" "length L = length ms" by (rule pq_repD [OF r])
  show ?thesis
  proof (cases "length ms = cap")
    case True
    then show ?thesis using i p r full_iff [OF i(4)] by (simp add: pq_send_def mq_send_def spec_send_def)
  next
    case False
    then obtain s' L' where s': "put_message i xs prio s = Some (int (length xs), s')" "queue_ok i s' L'"
      "messages s' L' = pq_insert prio xs (messages s L)" "local_change i s s'"
      using put_message_ok [OF i(4), of xs prio] i len by auto
    have "pq_rep me mq cap width s' (messages s' L')" by (rule pq_rep_local [OF r]) (use s' i in simp_all)
    then show ?thesis using i p s' False full_iff [OF i(4)] by (simp add: pq_send_def mq_send_def spec_send_def)
  qed
qed

lemma pq_receive_law:
  assumes r: "pq_rep me mq cap width s ms"
  shows "\<exists>s'. pq_receive me mq width s = Some (fst (spec_receive ms), s') \<and> pq_rep me mq cap width s' (snd (spec_receive ms))"
proof -
  obtain i L where i: "i = mq - 1" "q_index mq = int i" "valid_index (int i)" "queue_ok i s L" "messages s L = ms" "queue_type s = POSIX"
    "mq_maxmsg (q_attrs (q_data (pqd s i))) = int cap" "mq_msgsize (q_attrs (q_data (pqd s i))) = int width"
    "can_access me i FOR_READ s = Some True" "can_access me i FOR_WRITE s = Some True" "is_blocking me i s = Some False"
    "length L \<le> cap" "length L = length ms" by (rule pq_repD [OF r])
  have w: "u32 (mq_msgsize (q_attrs (q_data (pqd s i)))) = width" using attrs_ok_strides(4) [OF queue_okD(1) [OF i(4)]] i by simp
  show ?thesis
  proof (cases L)
    case Nil
    then show ?thesis using i r empty_iff [OF i(4)] by (auto simp: pq_receive_def mq_receive_def messages_def)
  next
    case (Cons m L')
    obtain s' where s': "take_head i width s = Some ((int (length (snd (message_at s m))), snd (message_at s m), Some (fst (message_at s m))), s')"
      "queue_ok i s' L'" "messages s' L' = messages s L'" "local_change i s s'"
      using take_head_ok [of i s m L' width] i Cons by auto
    have "pq_rep me mq cap width s' (messages s' L')" by (rule pq_rep_local [OF r]) (use s' i in simp_all)
    moreover have "ms = message_at s m # messages s L'" using i(5) Cons by (simp add: messages_def)
    then have "spec_receive ms = ((int (length (snd (message_at s m))), snd (message_at s m), Some (fst (message_at s m))), messages s L')"
      by (cases "message_at s m") simp
    ultimately show ?thesis using i s' w Cons empty_iff [OF i(4)] by (simp add: pq_receive_def mq_receive_def)
  qed
qed

interpretation mqs: priority_queue "pq_rep me mq cap width" cap width "pq_send me mq" "pq_receive me mq width"
  for me mq cap width
  by unfold_locales (rule pq_send_law pq_receive_law, assumption+)+

primrec mq_run :: "tid \<Rightarrow> nat \<Rightarrow> nat \<Rightarrow> (nat \<times> byte list) option list \<Rightarrow> pq \<Rightarrow> ((int \<times> byte list \<times> nat option) list \<times> pq) option" where
  "mq_run me mq width [] s = Some ([], s)"
| "mq_run me mq width (e # es) s = (case e of
     Some m \<Rightarrow> do { (r, s1) \<leftarrow> pq_send me mq (fst m) (snd m) s; (rs, s2) \<leftarrow> mq_run me mq width es s1; Some ((r, [], None) # rs, s2) }
   | None \<Rightarrow> do { (r, s1) \<leftarrow> pq_receive me mq width s; (rs, s2) \<leftarrow> mq_run me mq width es s1; Some (r # rs, s2) })"

lemma mq_run_eq: "mq_run me mq width es = mqs.run me mq width es"
proof (induction es)
  case (Cons e es)
  show ?case unfolding fun_eq_iff mq_run.simps mqs.run.simps Cons by (intro allI refl)
qed (simp add: fun_eq_iff)


section \<open>Calls that block, and the boundaries\<close>

text \<open>Sending to a full queue gives the processor away, and puts the message when there is room again.\<close>

lemma mq_send_waits:
  assumes "1 \<le> mq" "mq \<le> MAX_PQUEUES" "can_access me (mq - 1) FOR_WRITE s = Some True" "prio \<le> MQ_PRIO_MAX"
    and "is_full (q_data (pqd s (mq - 1)))" "is_blocking me (mq - 1) s = Some True"
  shows "\<exists>k. mq_send (Suc n) me mq xs prio s = Switch s k
    \<and> (\<forall>t. \<not> is_full (q_data (pqd t (mq - 1))) \<longrightarrow> k t = lift_opt (put_message (mq - 1) xs prio t) (\<lambda>(r, t'). Ret r t'))"
proof -
  have "q_index mq = int (mq - 1)" "valid_index (int (mq - 1))" using q_index_valid [OF assms(1,2)] by metis+
  then show ?thesis using assms(3-6) unfolding mq_send_def by (auto simp: Let_def)
qed

text \<open>A message that is too long is refused after a slot has been taken for it and counted.\<close>

lemma put_message_too_long:
  assumes ok: "queue_ok i s ms" and room: "int (length ms) < mq_maxmsg (q_attrs (q_data (pqd s i)))"
    and len: "nat (mq_msgsize (q_attrs (q_data (pqd s i)))) < length xs"
  shows "\<exists>s' m. put_message i xs prio s = Some (- EMSGSIZE, s') \<and> \<not> in_use (hdrs s m) \<and> in_use (hdrs s' m)
    \<and> mq_curmsgs (q_attrs (q_data (pqd s' i))) = mq_curmsgs (q_attrs (q_data (pqd s i))) + 1
    \<and> q_head (q_data (pqd s' i)) = q_head (q_data (pqd s i))"
proof -
  obtain m where m: "getnode i s = Some (m, upd_hdr m (\<lambda>h. h\<lparr>in_use := True\<rparr>) s)" "\<not> in_use (hdrs s m)"
    using getnode_ok [OF ok room] by blast
  then show ?thesis using len attrs_ok_strides(4) [OF queue_okD(1) [OF ok]]
    by (intro exI [of _ "count_msgs i 1 (upd_hdr m (\<lambda>h. h\<lparr>in_use := True\<rparr>) s)"] exI [of _ m])
      (simp add: put_message_def count_msgs_def upd_ctrl_def upd_q_def upd_hdr_def)
qed

text \<open>No task can ask to be notified: a request is accepted only where there is one already.\<close>

lemma mq_notify_never: "notify_task (pqd s (nat (q_index mq))) = None \<Longrightarrow> snd (mq_notify me mq n s) = s \<and> fst (mq_notify me mq n s) \<noteq> 0"
  by (simp add: mq_notify_def Let_def split: option.split)

text \<open>A task that has never opened a queue, and uses one it has the permission for, makes the kernel dereference NULL.\<close>

lemma can_access_null: "system_data s me = 0 \<Longrightarrow> permitted me i acc s \<Longrightarrow> can_access me i acc s = None"
  by (simp add: can_access_def)

end
