(* ===== verification/Pqueue_Lifecycle.thy ===== *)
theory Pqueue_Lifecycle
  imports Pqueue_Calls
begin

text \<open>
  The table of queues and the memory manager together: every queue has a block of its own, large
  enough for its slots, and no operation on one queue touches another one.  Opening, closing
  and unlinking keep this, as do sending and receiving.
\<close>

section \<open>The invariant of the module\<close>

definition span :: "q_ctrl \<Rightarrow> nat" where
  "span q = nat (mq_maxmsg (q_attrs q)) * stride q"

definition live_queue :: "pq \<Rightarrow> nat \<Rightarrow> bool" where
  "live_queue s i \<longleftrightarrow> i < MAX_PQUEUES \<and> q_id (pqd s i) \<noteq> 0"

definition base_of :: "pq \<Rightarrow> nat \<Rightarrow> addr" where
  "base_of s i = q_base (q_data (pqd s i))"

definition pqs_ok :: "pq \<Rightarrow> (addr \<Rightarrow> nat option) \<Rightarrow> bool" where
  "pqs_ok s A \<longleftrightarrow> heap_ok (pq_heap s) A
     \<and> (\<forall>i. live_queue s i \<longrightarrow> q_id (pqd s i) = i + 1 \<and> (\<exists>L. queue_ok i s L)
          \<and> (\<exists>n. A (base_of s i) = Some n \<and> span (q_data (pqd s i)) \<le> n))
     \<and> (\<forall>i j. live_queue s i \<longrightarrow> live_queue s j \<longrightarrow> i \<noteq> j \<longrightarrow> base_of s i \<noteq> base_of s j)
     \<and> (\<forall>t. system_data s t \<noteq> 0 \<longrightarrow> A (system_data s t) = Some SIZEOF_Z_APPS
          \<and> (\<forall>i. live_queue s i \<longrightarrow> base_of s i \<noteq> system_data s t))
     \<and> num_pqueues s = card {i. live_queue s i}"

lemma pqs_okD:
  assumes "pqs_ok s A"
  shows "heap_ok (pq_heap s) A" "live_queue s i \<Longrightarrow> q_id (pqd s i) = i + 1" "live_queue s i \<Longrightarrow> \<exists>L. queue_ok i s L"
    "live_queue s i \<Longrightarrow> \<exists>n. A (base_of s i) = Some n \<and> span (q_data (pqd s i)) \<le> n"
    "live_queue s i \<Longrightarrow> live_queue s j \<Longrightarrow> i \<noteq> j \<Longrightarrow> base_of s i \<noteq> base_of s j"
    "system_data s t \<noteq> 0 \<Longrightarrow> A (system_data s t) = Some SIZEOF_Z_APPS"
    "system_data s t \<noteq> 0 \<Longrightarrow> live_queue s i \<Longrightarrow> base_of s i \<noteq> system_data s t"
    "num_pqueues s = card {i. live_queue s i}"
  using assms by (simp_all add: pqs_ok_def)

lemma pqs_okI:
  assumes "heap_ok (pq_heap s) A"
    and "\<And>i. live_queue s i \<Longrightarrow> q_id (pqd s i) = i + 1 \<and> (\<exists>L. queue_ok i s L)
      \<and> (\<exists>n. A (base_of s i) = Some n \<and> span (q_data (pqd s i)) \<le> n)"
    and "\<And>i j. live_queue s i \<Longrightarrow> live_queue s j \<Longrightarrow> i \<noteq> j \<Longrightarrow> base_of s i \<noteq> base_of s j"
    and "\<And>t. system_data s t \<noteq> 0 \<Longrightarrow> A (system_data s t) = Some SIZEOF_Z_APPS"
    and "\<And>t i. system_data s t \<noteq> 0 \<Longrightarrow> live_queue s i \<Longrightarrow> base_of s i \<noteq> system_data s t"
    and "num_pqueues s = card {i. live_queue s i}"
  shows "pqs_ok s A"
  using assms by (simp add: pqs_ok_def)

lemma finite_live [simp]: "finite {i. live_queue s i}"
  by (rule finite_subset [of _ "{..<MAX_PQUEUES}"]) (auto simp: live_queue_def)

lemma slot_in_span: "p \<in> slots q \<Longrightarrow> q_base q \<le> p \<and> p < q_base q + span q"
  using slot_in [of p q] by (simp add: span_def stride_def)

text \<open>The slots of two queues are apart, since their blocks are.\<close>

lemma spans_apart:
  assumes ok: "pqs_ok s A" and ij: "live_queue s i" "live_queue s j" "i \<noteq> j"
  shows "base_of s i + span (q_data (pqd s i)) \<le> base_of s j \<or> base_of s j + span (q_data (pqd s j)) \<le> base_of s i"
proof -
  obtain n m where n: "A (base_of s i) = Some n" "span (q_data (pqd s i)) \<le> n"
    and m: "A (base_of s j) = Some m" "span (q_data (pqd s j)) \<le> m"
    using pqs_okD(4) [OF ok] ij by metis
  have "base_of s i + n \<le> base_of s j \<or> base_of s j + m \<le> base_of s i"
    using mm.apart [OF pqs_okD(1) [OF ok] n(1) m(1)] pqs_okD(5) [OF ok ij] by blast
  then show ?thesis using n m by linarith
qed

text \<open>A queue depends on its descriptor and on the headers of its slots.\<close>

lemma queue_ok_frame:
  assumes "queue_ok i s L" and "q_data (pqd s' i) = q_data (pqd s i)" and "\<And>p. p \<in> slots (q_data (pqd s i)) \<Longrightarrow> hdrs s' p = hdrs s p"
  shows "queue_ok i s' L"
proof -
  note q = queue_okD [OF assms(1)]
  have same: "hdrs s' p = hdrs s p" if "p \<in> set L" for p using that assms(3) q(4) by simp
  have ch: "chain (hdr_next \<circ> hdrs s') xs e \<longleftrightarrow> chain (hdr_next \<circ> hdrs s) xs e" if "set xs \<subseteq> set L" for xs e
    using that by (induction xs) (auto simp: same)
  show ?thesis
  proof (rule queue_okI, unfold assms(2))
    show "\<exists>e. (e = 0 \<or> e = q_base (q_data (pqd s i)) \<and> last L = q_base (q_data (pqd s i))) \<and> chain (hdr_next \<circ> hdrs s') L e"
      using q(8) ch by simp
    show "set L = {p \<in> slots (q_data (pqd s i)). in_use (hdrs s' p)}" using q(4) assms(3) by auto
    show "sorted_wrt (\<lambda>p p'. hdr_prio (hdrs s' p') \<le> hdr_prio (hdrs s' p)) L"
      using q(11) by (rule sorted_wrt_mono_rel [rotated]) (simp add: same)
  qed (use q assms(3) same in simp_all)
qed

text \<open>A change within queue \<open>i\<close> that leaves it well formed.\<close>

lemma pqs_ok_local:
  assumes ok: "pqs_ok s A" and i: "live_queue s i" and c: "local_change i s s'" and q: "queue_ok i s' L"
  shows "pqs_ok s' A"
proof -
  have s': "s' = s\<lparr>pqd := (pqd s)(i := pqd s' i), hdrs := hdrs s', body := body s'\<rparr>"
    and d: "pqd s' i = (pqd s i)\<lparr>q_data := q_data (pqd s' i), notify_task := notify_task (pqd s' i)\<rparr>"
    and b: "q_base (q_data (pqd s' i)) = q_base (q_data (pqd s i))"
    and h: "\<forall>p. p \<notin> slots (q_data (pqd s i)) \<longrightarrow> hdrs s' p = hdrs s p"
    using c unfolding local_change_def Let_def by - (elim conjE, assumption)+
  have other: "pqd s' j = pqd s j" if "j \<noteq> i" for j by (subst s') (use that in simp)
  have same: "pq_heap s' = pq_heap s" "system_data s' = system_data s" "num_pqueues s' = num_pqueues s" by (subst s', simp)+
  have "q_id (pqd s' i) = q_id (pqd s i)" by (subst d) simp
  then have id: "q_id (pqd s' j) = q_id (pqd s j)" for j using other by (cases "j = i") simp_all
  have l: "live_queue s' = live_queue s" by (simp add: fun_eq_iff live_queue_def id)
  have ba: "base_of s' = base_of s"
  proof
    show "base_of s' j = base_of s j" for j using b other by (cases "j = i") (simp_all add: base_of_def)
  qed
  have sp: "span (q_data (pqd s' j)) = span (q_data (pqd s j))" for j
    using local_change_access(4,5) [OF c] other by (cases "j = i") (simp_all add: span_def stride_def)
  have "\<exists>L. queue_ok j s' L" if j: "live_queue s j" for j
  proof (cases "j = i")
    case False
    obtain Lj where "queue_ok j s Lj" using pqs_okD(3) [OF ok j] by blast
    moreover have "p \<notin> slots (q_data (pqd s i))" if "p \<in> slots (q_data (pqd s j))" for p
    proof
      assume "p \<in> slots (q_data (pqd s i))"
      then show False using slot_in_span [OF that] slot_in_span [of p "q_data (pqd s i)"] spans_apart [OF ok i j] False
        unfolding base_of_def by linarith
    qed
    ultimately show ?thesis using queue_ok_frame [of j s Lj s'] other False h by auto
  qed (use q in blast)
  then show ?thesis
    using pqs_okD(2,4) [OF ok] by (intro pqs_okI, unfold same l ba sp id) (simp_all add: pqs_okD [OF ok])
qed

text \<open>A change outside the slots of queue \<open>j\<close>.\<close>

lemma queue_ok_outside:
  assumes "queue_ok j s L" and "pqd s' j = pqd s j" and "\<And>p. p \<notin> {b ..< b + n} \<Longrightarrow> hdrs s' p = hdrs s p"
    and "b + n \<le> base_of s j \<or> base_of s j + span (q_data (pqd s j)) \<le> b"
  shows "queue_ok j s' L"
proof (rule queue_ok_frame [OF assms(1)])
  show "hdrs s' p = hdrs s p" if "p \<in> slots (q_data (pqd s j))" for p
    using slot_in_span [OF that] assms(4) by (intro assms(3)) (auto simp: base_of_def)
qed (simp add: assms(2))

section \<open>Deleting a queue\<close>

lemma release_slots_frame: "(\<And>k. k < n \<Longrightarrow> a \<noteq> p + k * d) \<Longrightarrow> release_slots n p d hs a = hs a"
proof (induction n arbitrary: p hs)
  case (Suc n)
  have "a \<noteq> p + d + k * d" if "k < n" for k using Suc.prems [of "Suc k"] that by simp
  moreover have "a \<noteq> p" using Suc.prems [of 0] by simp
  ultimately show ?case using Suc.IH by simp
qed simp

lemma pqs_ok_without:
  assumes ok: "pqs_ok s A" and i: "live_queue s i" and h: "heap_ok (pq_heap s') (A(base_of s i := None))"
    and l: "\<And>j. live_queue s' j \<longleftrightarrow> live_queue s j \<and> j \<noteq> i" and d: "\<And>j. j \<noteq> i \<Longrightarrow> pqd s' j = pqd s j"
    and out: "\<And>p. p \<notin> {base_of s i ..< base_of s i + span (q_data (pqd s i))} \<Longrightarrow> hdrs s' p = hdrs s p"
    and sd: "system_data s' = system_data s" and n: "num_pqueues s' = num_pqueues s - 1"
  shows "pqs_ok s' (A(base_of s i := None))"
proof (rule pqs_okI [OF h])
  have b: "base_of s' j = base_of s j" if "j \<noteq> i" for j using d [OF that] by (simp add: base_of_def)
  fix j assume "live_queue s' j"
  then have j: "live_queue s j" "j \<noteq> i" by (simp_all add: l)
  obtain Lj where "queue_ok j s Lj" using pqs_okD(3) [OF ok j(1)] by blast
  then have "queue_ok j s' Lj"
    by (rule queue_ok_outside [where b = "base_of s i" and n = "span (q_data (pqd s i))"])
      (use out d spans_apart [OF ok i j(1)] j(2) in auto)
  moreover have "base_of s j \<noteq> base_of s i" using pqs_okD(5) [OF ok j(1) i j(2)] .
  ultimately show "q_id (pqd s' j) = j + 1 \<and> (\<exists>L. queue_ok j s' L)
      \<and> (\<exists>n. (A(base_of s i := None)) (base_of s' j) = Some n \<and> span (q_data (pqd s' j)) \<le> n)"
    using pqs_okD(2,4) [OF ok j(1)] b [OF j(2)] d [OF j(2)] by auto
  show "base_of s' j \<noteq> base_of s' k" if "live_queue s' k" "j \<noteq> k" for k
    using that j b pqs_okD(5) [OF ok j(1)] by (simp add: l)
  show "base_of s' j \<noteq> system_data s' t" if "system_data s' t \<noteq> 0" for t
    using that b [OF j(2)] pqs_okD(7) [OF ok _ j(1)] by (simp add: sd)
next
  show "(A(base_of s i := None)) (system_data s' t) = Some SIZEOF_Z_APPS" if "system_data s' t \<noteq> 0" for t
    using that pqs_okD(6) [OF ok, of t] pqs_okD(7) [OF ok _ i, of t] by (auto simp: sd)
  have "{j. live_queue s' j} = {j. live_queue s j} - {i}" using l by auto
  then show "num_pqueues s' = card {j. live_queue s' j}" using i pqs_okD(8) [OF ok] n by simp
qed

lemma delete_queue_ok:
  assumes ok: "pqs_ok s A" and i: "live_queue s i"
  shows "\<exists>s'. delete_queue i s = Some s' \<and> pqs_ok s' (A(base_of s i := None)) \<and> \<not> live_queue s' i
    \<and> (\<forall>j. j \<noteq> i \<longrightarrow> pqd s' j = pqd s j) \<and> q_name (pqd s' i) = ''''
    \<and> tacc s' = tacc s \<and> system_data s' = system_data s \<and> zmem s' = zmem s \<and> queue_type s' = queue_type s"
proof -
  let ?q = "q_data (pqd s i)" and ?A = "A(base_of s i := None)"
  obtain L where L: "queue_ok i s L" using pqs_okD(3) [OF ok i] by blast
  note a = queue_okD(1) [OF L]
  obtain n where n: "A (base_of s i) = Some n" "span ?q \<le> n" using pqs_okD(4) [OF ok i] by blast
  have "0 < span ?q" using a by (simp add: span_def stride_def attrs_ok_def)
  then have "n \<noteq> 0" using n(2) by linarith
  then obtain h where h: "rt_free (q_base ?q) (pq_heap s) = Some h" "heap_ok h ?A"
    using mm.release_law [OF pqs_okD(1) [OF ok] n(1)] by (auto simp: base_of_def)
  let ?hs = "release_slots (nat (mq_maxmsg (q_attrs ?q))) (q_base ?q) (u32 (mq_msgsize (q_attrs ?q) + int MSG_HDR_SIZE) div 4) (hdrs s)"
  let ?e = "(pqd s i)\<lparr>q_owner := None, open_count := 0, q_name := '''', q_id := 0,
    q_data := \<lparr>q_base = 0, q_head = 0, q_tail = 0, q_attrs = empty_attrs\<rparr>, permissions := 0\<rparr>"
  let ?s = "s\<lparr>pqd := (pqd s)(i := ?e), hdrs := ?hs, pq_heap := h, num_pqueues := num_pqueues s - 1\<rparr>"
  have del: "delete_queue i s = Some ?s" using h(1) by (simp add: delete_queue_def Let_def upd_q_def)
  have st: "u32 (mq_msgsize (q_attrs ?q) + int MSG_HDR_SIZE) = stride ?q"
    using a by (simp add: u32_def stride_def attrs_ok_def nat_add_distrib)
  have out: "?hs p = hdrs s p" if "p \<notin> {base_of s i ..< base_of s i + span ?q}" for p
  proof (rule release_slots_frame)
    fix k assume k: "k < nat (mq_maxmsg (q_attrs ?q))"
    have "k * (stride ?q div 4) \<le> k * stride ?q" by simp
    also have "k * stride ?q < span ?q" using k by (simp add: span_def stride_def)
    finally show "p \<noteq> q_base ?q + k * (u32 (mq_msgsize (q_attrs ?q) + int MSG_HDR_SIZE) div 4)"
      using that unfolding st base_of_def by auto
  qed
  have "live_queue ?s j \<longleftrightarrow> live_queue s j \<and> j \<noteq> i" for j by (simp add: live_queue_def)
  moreover have "pqs_ok ?s ?A"
    by (rule pqs_ok_without [OF ok i]) (use h(2) out in \<open>auto simp: live_queue_def\<close>)
  ultimately show ?thesis using del by (intro exI [of _ ?s]) simp
qed

section \<open>Creating a queue\<close>

lemma clear_slots_at:
  "clear_slots n p (int d) hs a = (if \<exists>k < n. a = p + k * d then \<lparr>in_use = False, hdr_size = 0, hdr_prio = 0, hdr_next = 0\<rparr> else hs a)"
proof (induction n arbitrary: p hs)
  case (Suc n)
  have 1: "(\<exists>k < Suc n. a = p + k * d) \<longleftrightarrow> a = p \<or> (\<exists>k < n. a = p + d + k * d)"
  proof
    assume "\<exists>k < Suc n. a = p + k * d"
    then obtain k where "k < Suc n" "a = p + k * d" by blast
    then show "a = p \<or> (\<exists>k < n. a = p + d + k * d)" by (cases k) auto
  next
    assume "a = p \<or> (\<exists>k < n. a = p + d + k * d)"
    then consider "a = p + 0 * d" | k where "k < n" "a = p + Suc k * d" by auto
    then show "\<exists>k < Suc n. a = p + k * d" by cases (blast intro: Suc_mono)+
  qed
  have "nat (int p + int d) = p + d" by simp
  then show ?case unfolding clear_slots.simps by (subst Suc.IH) (use 1 in auto)
qed simp

text \<open>The attributes of a queue that \<^verbatim>\<open>rt_malloc\<close> is asked for in full.\<close>

definition creatable :: "mq_attr \<Rightarrow> bool" where
  "creatable a \<longleftrightarrow> attrs_ok a \<and> mq_maxmsg a * (mq_msgsize a + int MSG_HDR_SIZE) < 2 ^ 32 - 16"

lemma creatable_size:
  assumes c: "creatable a" and q: "q_attrs q = a\<lparr>mq_curmsgs := 0\<rparr>"
  shows "queue_size a = span q" "span q \<le> round_size (queue_size a)"
proof -
  have a: "attrs_ok a" using c by (simp add: creatable_def)
  have cs: "char_stride (mq_msgsize a) = int (stride q)" using attrs_ok_strides(2) [OF a] a q by (simp add: stride_def attrs_ok_def)
  have m: "mq_maxmsg a = int (nat (mq_maxmsg a))" using a by (simp add: attrs_ok_def)
  have p: "char_stride (mq_msgsize a) * mq_maxmsg a = int (span q)"
    unfolding cs span_def q by (subst m) (simp add: mult.commute)
  moreover have "int (span q) < 2 ^ 32 - 16"
    using c attrs_ok_strides(2) [OF a] p by (simp add: creatable_def mult.commute)
  ultimately show s: "queue_size a = span q" by (simp add: queue_size_def u32_def)
  have "(span q + 15) mod 2 ^ 32 = span q + 15" using \<open>int (span q) < 2 ^ 32 - 16\<close> by simp
  then show "span q \<le> round_size (queue_size a)" unfolding s round_size_def by simp
qed

lemma init_queue_ok:
  assumes "q_data (pqd s i) = \<lparr>q_base = p, q_head = p, q_tail = p, q_attrs = a\<lparr>mq_curmsgs := 0\<rparr>\<rparr>" and "p \<noteq> 0" and "attrs_ok a"
  shows "queue_ok i (initialise_queue i s) []"
    and "x \<notin> {p ..< p + span (q_data (pqd s i))} \<Longrightarrow> hdrs (initialise_queue i s) x = hdrs s x"
proof -
  let ?q = "q_data (pqd s i)"
  have ss: "char_stride (mq_msgsize a) = int (stride ?q)"
    using attrs_ok_strides(2) [OF assms(3)] assms by (simp add: stride_def attrs_ok_def)
  have h: "hdrs (initialise_queue i s) x = (if x \<in> slots ?q then \<lparr>in_use = False, hdr_size = 0, hdr_prio = 0, hdr_next = 0\<rparr> else hdrs s x)" for x
    using assms(1,2) attrs_ok_strides(3) [OF assms(3)] ss
    by (auto simp: initialise_queue_def clear_slots_at slots_def)
  have d: "pqd (initialise_queue i s) = pqd s" by (simp add: initialise_queue_def Let_def)
  show "queue_ok i (initialise_queue i s) []"
    by (rule queue_okI, unfold d h) (use assms in \<open>auto simp: attrs_ok_def\<close>)
  show "x \<notin> {p ..< p + span ?q} \<Longrightarrow> hdrs (initialise_queue i s) x = hdrs s x"
    using slot_in_span [of x ?q] assms(1) by (auto simp: h)
qed

text \<open>The invariant depends on these parts of the state.\<close>

lemma pqs_ok_cong:
  assumes "pqs_ok s A" and "\<And>i. q_id (pqd s' i) = q_id (pqd s i) \<and> q_data (pqd s' i) = q_data (pqd s i)"
    and "hdrs s' = hdrs s" and "pq_heap s' = pq_heap s" and "system_data s' = system_data s" and "num_pqueues s' = num_pqueues s"
  shows "pqs_ok s' A"
proof -
  have l: "live_queue s' = live_queue s" "base_of s' = base_of s" using assms(2) by (simp_all add: fun_eq_iff live_queue_def base_of_def)
  have "queue_ok i s' = queue_ok i s" for i by (rule ext) (simp add: queue_ok_def assms(2,3))
  then show ?thesis using assms unfolding pqs_ok_def l by simp
qed

text \<open>A new queue in a block of its own.\<close>

lemma new_block_apart:
  assumes ok: "pqs_ok s A" and A: "A b = None" and h: "heap_ok h (A(b \<mapsto> n))" and j: "live_queue s j" and m: "m \<le> n"
  shows "b + m \<le> base_of s j \<or> base_of s j + span (q_data (pqd s j)) \<le> b"
proof -
  obtain k where k: "A (base_of s j) = Some k" "span (q_data (pqd s j)) \<le> k" using pqs_okD(4) [OF ok j] by blast
  then have "base_of s j \<noteq> b" using A by auto
  then have "b + n \<le> base_of s j \<or> base_of s j + k \<le> b" using mm.apart [OF h, of b n "base_of s j" k] k(1) by auto
  then show ?thesis using k(2) m by linarith
qed

lemma pqs_ok_with:
  assumes ok: "pqs_ok s A" and i: "i < MAX_PQUEUES" "\<not> live_queue s i" and A: "A b = None" and h: "heap_ok (pq_heap s') (A(b \<mapsto> n))"
    and q: "queue_ok i s' L" "q_id (pqd s' i) = i + 1" "base_of s' i = b" "span (q_data (pqd s' i)) \<le> n"
    and d: "\<And>j. j \<noteq> i \<Longrightarrow> pqd s' j = pqd s j"
    and out: "\<And>p. p \<notin> {b ..< b + span (q_data (pqd s' i))} \<Longrightarrow> hdrs s' p = hdrs s p"
    and sd: "system_data s' = system_data s" and num: "num_pqueues s' = num_pqueues s + 1"
  shows "pqs_ok s' (A(b \<mapsto> n))"
proof (rule pqs_okI [OF h])
  have l: "live_queue s' j \<longleftrightarrow> live_queue s j \<or> j = i" for j using i(1) q(2) d by (cases "j = i") (auto simp: live_queue_def)
  have ba: "base_of s' j = base_of s j" if "j \<noteq> i" for j using d [OF that] by (simp add: base_of_def)
  have bn: "base_of s j \<noteq> b" if "live_queue s j" for j using pqs_okD(4) [OF ok that] A by auto
  show "q_id (pqd s' j) = j + 1 \<and> (\<exists>L. queue_ok j s' L) \<and> (\<exists>m. (A(b \<mapsto> n)) (base_of s' j) = Some m \<and> span (q_data (pqd s' j)) \<le> m)"
    if "live_queue s' j" for j
  proof (cases "j = i")
    case True
    then show ?thesis using q by auto
  next
    case False
    then have j: "live_queue s j" using that by (simp add: l)
    obtain Lj where Lj: "queue_ok j s Lj" using pqs_okD(3) [OF ok j] by blast
    have "queue_ok j s' Lj"
      by (rule queue_ok_outside [OF Lj _ _ new_block_apart [OF ok A h j q(4)]]) (use d [OF False] out in auto)
    then show ?thesis using pqs_okD(2,4) [OF ok j] d [OF False] ba [OF False] bn [OF j] by auto
  qed
  show "base_of s' j \<noteq> base_of s' k" if "live_queue s' j" "live_queue s' k" "j \<noteq> k" for j k
    using that l ba q(3) bn pqs_okD(5) [OF ok] by (metis (full_types))
  show "(A(b \<mapsto> n)) (system_data s' t) = Some SIZEOF_Z_APPS" if "system_data s' t \<noteq> 0" for t
    using that pqs_okD(6) [OF ok, of t] A by (auto simp: sd)
  show "base_of s' j \<noteq> system_data s' t" if "system_data s' t \<noteq> 0" "live_queue s' j" for t j
    using that l [of j] ba [of j] q(3) pqs_okD(6,7) [OF ok, of t] A by (cases "j = i") (auto simp: sd)
  have "{j. live_queue s' j} = insert i {j. live_queue s j}" using l by auto
  then show "num_pqueues s' = card {j. live_queue s' j}" using i(2) num pqs_okD(8) [OF ok] by simp
qed

lemma free_descriptor:
  assumes "pqs_ok s A" and "num_pqueues s < MAX_PQUEUES"
  obtains i where "List.find (\<lambda>i. q_id (pqd s i) = 0) [0..<MAX_PQUEUES] = Some i" "i < MAX_PQUEUES" "q_id (pqd s i) = 0"
proof -
  have "\<exists>i < MAX_PQUEUES. q_id (pqd s i) = 0"
  proof (rule ccontr)
    assume "\<not> ?thesis"
    then have "{i. live_queue s i} = {..<MAX_PQUEUES}" by (auto simp: live_queue_def)
    then show False using assms(2) pqs_okD(8) [OF assms(1)] by simp
  qed
  then have "List.find (\<lambda>i. q_id (pqd s i) = 0) [0..<MAX_PQUEUES] \<noteq> None" unfolding find_None_iff by auto
  then obtain i where f: "List.find (\<lambda>i. q_id (pqd s i) = 0) [0..<MAX_PQUEUES] = Some i" by blast
  then have "i < MAX_PQUEUES \<and> q_id (pqd s i) = 0" unfolding find_Some_iff by auto
  then show thesis using that [OF f] by blast
qed

lemma find_name:
  assumes "name_to_id name s = None" and "\<And>j. j \<noteq> i \<Longrightarrow> q_name (pqd s' j) = q_name (pqd s j)"
    and "i < MAX_PQUEUES" and "q_name (pqd s' i) = name" and "name \<noteq> ''''"
  shows "name_to_id name s' = Some i"
proof -
  have "q_name (pqd s j) \<noteq> name" if "j < MAX_PQUEUES" for j
    using assms(1,5) that unfolding name_to_id_def find_None_iff by auto
  then have "q_name (pqd s' j) \<noteq> name" if "j < i" for j using assms(2) [of j] assms(3) that by auto
  then show ?thesis unfolding name_to_id_def find_Some_iff using assms(3-5) by (intro exI [of _ i]) auto
qed

lemma create_queue_ok:
  assumes ok: "pqs_ok s A" and n: "num_pqueues s < MAX_PQUEUES" and a: "creatable attr"
  shows "(\<exists>h. create_queue me t name flags perms attr s = Some (- ENOMEM, s\<lparr>pq_heap := h\<rparr>)
       \<and> rt_malloc (queue_size attr) (pq_heap s) = Some (0, h) \<and> pqs_ok (s\<lparr>pq_heap := h\<rparr>) A)
    \<or> (\<exists>i s' A'. create_queue me t name flags perms attr s = Some (int i + 1, s') \<and> \<not> live_queue s i \<and> i < MAX_PQUEUES
       \<and> pqs_ok s' A' \<and> queue_ok i s' [] \<and> (\<forall>j. j \<noteq> i \<longrightarrow> pqd s' j = pqd s j)
       \<and> q_name (pqd s' i) = name \<and> open_count (pqd s' i) = 1 \<and> q_owner (pqd s' i) = Some me \<and> permissions (pqd s' i) = perms
       \<and> (\<forall>j L. live_queue s j \<longrightarrow> queue_ok j s L \<longrightarrow> queue_ok j s' L))"
proof -
  obtain i where i: "List.find (\<lambda>i. q_id (pqd s i) = 0) [0..<MAX_PQUEUES] = Some i" "i < MAX_PQUEUES" "q_id (pqd s i) = 0"
    by (rule free_descriptor [OF ok n])
  have nl: "\<not> live_queue s i" using i by (simp add: live_queue_def)
  obtain p h where p: "rt_malloc (queue_size attr) (pq_heap s) = Some (p, h)"
    "if p = 0 then heap_ok h A else A p = None \<and> heap_ok h (A(p \<mapsto> round_size (queue_size attr)))"
    using mm.alloc_law [OF pqs_okD(1) [OF ok]] by blast
  show ?thesis
  proof (cases "p = 0")
    case True
    then have "heap_ok h A" using p(2) by simp
    then have "pqs_ok (s\<lparr>pq_heap := h\<rparr>) A"
      using ok by (simp add: pqs_ok_def live_queue_def base_of_def queue_ok_def)
    then show ?thesis using True p(1) i(1) by (simp add: create_queue_def)
  next
    case False
    let ?new = "new_queue me i name perms attr p (s\<lparr>pq_heap := h\<rparr>)"
    let ?s1 = "initialise_queue i ?new"
    let ?s2 = "(count_open t 1 (set_entry t (nat (n_open_pqueues (tacc ?s1 t))) (int i + 1) flags ?s1))\<lparr>num_pqueues := num_pqueues s + 1\<rparr>"
    let ?s' = "upd_q i (\<lambda>q. q\<lparr>open_count := open_count q + 1\<rparr>) ?s2"
    let ?c = "\<lparr>q_base = p, q_head = p, q_tail = p, q_attrs = attr\<lparr>mq_curmsgs := 0\<rparr>\<rparr>"
    have new: "q_data (pqd ?new i) = ?c" by (simp add: new_queue_def upd_q_def)
    have d1: "pqd ?s1 = pqd ?new" "pq_heap ?s1 = h" "system_data ?s1 = system_data s"
      by (simp_all add: initialise_queue_def Let_def new_queue_def upd_q_def)
    have d2: "pqd ?s2 = pqd ?new" "hdrs ?s2 = hdrs ?s1" "pq_heap ?s2 = h" "system_data ?s2 = system_data s"
      using d1 by (simp_all add: count_open_def set_entry_def upd_acc_def)
    have d3: "pqd ?s' i = (pqd ?new i)\<lparr>open_count := open_count (pqd ?new i) + 1\<rparr>" "hdrs ?s' = hdrs ?s1" "pq_heap ?s' = h"
      "system_data ?s' = system_data s" "num_pqueues ?s' = num_pqueues s + 1" "j \<noteq> i \<Longrightarrow> pqd ?s' j = pqd s j" for j
      using d2 by (simp_all add: upd_q_def) (simp add: new_queue_def upd_q_def)
    have i': "q_data (pqd ?s' i) = ?c" "q_id (pqd ?s' i) = i + 1" "q_name (pqd ?s' i) = name" "open_count (pqd ?s' i) = 1"
      "q_owner (pqd ?s' i) = Some me" "permissions (pqd ?s' i) = perms"
      unfolding d3(1) by (simp_all add: new_queue_def upd_q_def)
    have ret: "create_queue me t name flags perms attr s = Some (int i + 1, ?s')"
      using i(1) p(1) False i'(2) by (simp add: create_queue_def Let_def opened_def upd_q_def)
    have at: "attrs_ok attr" using a by (simp add: creatable_def)
    have "queue_ok i ?s1 []" by (rule init_queue_ok(1) [OF new False at])
    then have q: "queue_ok i ?s' []" by (rule queue_ok_frame) (use d3(2) i'(1) new d1(1) in simp_all)
    have out: "hdrs ?s' x = hdrs s x" if "x \<notin> {p ..< p + span (q_data (pqd ?s' i))}" for x
      using init_queue_ok(2) [OF new False at, of x] that unfolding d3(2) i'(1) new by (simp add: new_queue_def upd_q_def)
    have h: "A p = None" "heap_ok h (A(p \<mapsto> round_size (queue_size attr)))" using p(2) False by simp_all
    have sp: "span (q_data (pqd ?s' i)) \<le> round_size (queue_size attr)" by (rule creatable_size(2) [OF a], unfold i'(1)) simp
    have ok': "pqs_ok ?s' (A(p \<mapsto> round_size (queue_size attr)))"
      by (rule pqs_ok_with [OF ok i(2) nl h(1) _ q i'(2)], unfold d3(3-5) base_of_def i'(1)) (use h(2) d3(6) out sp [unfolded i'(1)] i'(1) in simp_all)
    have "queue_ok j ?s' L" if j: "live_queue s j" "queue_ok j s L" for j L
    proof -
      have "j \<noteq> i" using nl j(1) by blast
      then show ?thesis
        by (intro queue_ok_outside [OF j(2) _ _ new_block_apart [OF ok h j(1) sp]]) (use out d3(6) in simp_all)
    qed
    then show ?thesis using ret nl i(2) ok' q d3(6) i'(3-6) by (intro disjI2 exI conjI allI impI)
  qed
qed

section \<open>Opening\<close>

lemma round_16: "round_size SIZEOF_Z_APPS = SIZEOF_Z_APPS"
  by (simp add: round_size_def)

lemma init_z_apps_ok:
  assumes ok: "pqs_ok s A"
  shows "init_z_apps t s = None \<and> system_data s t = 0 \<and> (\<exists>h. rt_malloc SIZEOF_Z_APPS (pq_heap s) = Some (0, h))
    \<or> (\<exists>s' A'. init_z_apps t s = Some s' \<and> pqs_ok s' A' \<and> system_data s' t \<noteq> 0 \<and> pqd s' = pqd s \<and> hdrs s' = hdrs s
         \<and> num_pqueues s' = num_pqueues s \<and> tacc s' = tacc s)"
proof (cases "system_data s t = 0")
  case True
  obtain p h where p: "rt_malloc SIZEOF_Z_APPS (pq_heap s) = Some (p, h)"
    "if p = 0 then heap_ok h A else A p = None \<and> heap_ok h (A(p \<mapsto> SIZEOF_Z_APPS))"
    using mm.alloc_law [OF pqs_okD(1) [OF ok], of SIZEOF_Z_APPS] unfolding round_16 by blast
  show ?thesis
  proof (cases "p = 0")
    case True
    then show ?thesis using \<open>system_data s t = 0\<close> p(1) by (simp add: init_z_apps_def)
  next
    case False
    let ?s = "s\<lparr>pq_heap := h, system_data := (system_data s)(t := p),
      zmem := (zmem s)(p := \<lparr>in_use_count = 0, z_pthreads = 0, z_pqueues = None, z_vxtasks = 0\<rparr>)\<rparr>"
    have l: "live_queue ?s = live_queue s" "base_of ?s = base_of s" "\<And>i. queue_ok i ?s = queue_ok i s"
      by (simp_all add: fun_eq_iff live_queue_def base_of_def queue_ok_def)
    have b: "base_of s i \<noteq> p" if "live_queue s i" for i using pqs_okD(4) [OF ok that] p(2) False by auto
    have "pqs_ok ?s (A(p \<mapsto> SIZEOF_Z_APPS))"
    proof (rule pqs_okI, unfold l)
      show "q_id (pqd ?s i) = i + 1 \<and> (\<exists>L. queue_ok i s L)
          \<and> (\<exists>n. (A(p \<mapsto> SIZEOF_Z_APPS)) (base_of s i) = Some n \<and> span (q_data (pqd ?s i)) \<le> n)" if "live_queue s i" for i
        using that pqs_okD(2-4) [OF ok that] b by auto
    qed (use p(2) False b pqs_okD(5-8) [OF ok] in \<open>auto split: if_splits\<close>)
    then show ?thesis using True False p(1) by (intro disjI2 exI [of _ ?s]) (auto simp: init_z_apps_def)
  qed
next
  case False
  then show ?thesis using ok by (intro disjI2 exI [of _ s]) (auto simp: init_z_apps_def)
qed

lemma access_slot_ok:
  assumes ok: "pqs_ok s A" and a: "access_slot me s = Some (t, s')"
  shows "pqs_ok s' A" "pqd s' = pqd s" "num_pqueues s' = num_pqueues s" "hdrs s' = hdrs s"
proof -
  have "pqd s' = pqd s \<and> hdrs s' = hdrs s \<and> pq_heap s' = pq_heap s \<and> system_data s' = system_data s \<and> num_pqueues s' = num_pqueues s"
    using a by (auto simp: access_slot_def Let_def upd_acc_def split: option.splits)
  then show "pqs_ok s' A" "pqd s' = pqd s" "num_pqueues s' = num_pqueues s" "hdrs s' = hdrs s"
    using pqs_ok_cong [OF ok, of s'] by simp_all
qed

lemma open_existing_ok: "pqs_ok s A \<Longrightarrow> pqs_ok (snd (open_existing t i flags s)) A"
  by (erule pqs_ok_cong)
    (auto simp: open_existing_def opened_def set_entry_def count_open_def upd_acc_def upd_q_def Let_def split: option.splits)

lemma mq_open_keeps:
  assumes ok: "pqs_ok s A" and a: "\<forall>a. attr = Some a \<longrightarrow> creatable a"
  shows "mq_open me name flags perms attr s = None \<and> system_data s me = 0 \<and> (\<exists>h. rt_malloc SIZEOF_Z_APPS (pq_heap s) = Some (0, h))
    \<or> (\<exists>r s' A'. mq_open me name flags perms attr s = Some (r, s') \<and> pqs_ok s' A')"
  using init_z_apps_ok [OF ok, of me]
proof (elim disjE exE conjE)
  fix s1 A1 assume z: "init_z_apps me s = Some s1" and ok1: "pqs_ok s1 A1"
  let ?a = "case attr of None \<Rightarrow> default_attrs | Some a \<Rightarrow> a"
  have ca: "creatable ?a" using a by (simp add: creatable_def attrs_ok_def default_attrs_def split: option.split)
  have create: "\<exists>r s' A'. create_queue me t name flags perms ?a s2 = Some (r, s') \<and> pqs_ok s' A'"
    if "access_slot me s1 = Some (t, s2)" "num_pqueues s1 < MAX_PQUEUES" for t s2
    using create_queue_ok [OF access_slot_ok(1) [OF ok1 that(1)] _ ca, of me t name flags perms] access_slot_ok(3) [OF ok1 that(1)] that(2) by auto
  have "\<exists>r s' A'. mq_open me name flags perms attr s = Some (r, s') \<and> pqs_ok s' A'"
  proof (cases "name_to_id name s1")
    case None
    consider "flags AND O_CREAT = 0 \<or> num_pqueues s1 \<ge> MAX_PQUEUES \<or> length name \<ge> MQ_NAME_MAX \<or> access_slot me s1 = None"
      | t s2 where "flags AND O_CREAT \<noteq> 0" "num_pqueues s1 < MAX_PQUEUES" "length name < MQ_NAME_MAX" "access_slot me s1 = Some (t, s2)"
      by (cases "access_slot me s1") force+
    then show ?thesis
    proof cases
      case 1
      then show ?thesis using z None ok1 by (auto simp: mq_open_def)
    next
      case 2
      obtain r s' A' where "create_queue me t name flags perms ?a s2 = Some (r, s')" "pqs_ok s' A'"
        using create 2(2,4) by blast
      then show ?thesis using z None ok1 2 by (auto simp: mq_open_def)
    qed
  next
    case (Some i)
    show ?thesis
    proof (cases "access_slot me s1")
      case None
      then show ?thesis using z Some ok1 by (auto simp: mq_open_def)
    next
      case (Some ts)
      then have "pqs_ok (snd (open_existing (fst ts) i flags (snd ts))) A1"
        using open_existing_ok access_slot_ok(1) [OF ok1, of me "fst ts" "snd ts"] by simp
      then show ?thesis using z \<open>name_to_id name s1 = Some i\<close> Some ok1
        by (cases ts, cases "open_existing (fst ts) i flags (snd ts)") (auto simp: mq_open_def)
    qed
  qed
  then show ?thesis by blast
qed (simp add: mq_open_def)

theorem mq_open_creates:
  assumes ok: "pqs_ok s A" and z: "system_data s me \<noteq> 0" "access_slot me s = Some (t, s2)"
      "z_pqueues (zmem s (system_data s me)) \<noteq> None \<longrightarrow> n_open_pqueues (tacc s t) < int MQ_OPEN_MAX"
    and new: "name_to_id name s = None" "flags AND O_CREAT \<noteq> 0" "name \<noteq> ''''" "length name < MQ_NAME_MAX"
    and n: "num_pqueues s < MAX_PQUEUES" and a: "creatable a"
  shows "(\<exists>s' h. mq_open me name flags perms (Some a) s = Some (- ENOMEM, s') \<and> rt_malloc (queue_size a) (pq_heap s) = Some (0, h))
    \<or> (\<exists>i s' A'. mq_open me name flags perms (Some a) s = Some (int i + 1, s') \<and> name_to_id name s' = Some i
         \<and> pqs_ok s' A' \<and> queue_ok i s' [] \<and> open_count (pqd s' i) = 1
         \<and> (\<forall>j L. live_queue s j \<longrightarrow> queue_ok j s L \<longrightarrow> j \<noteq> i \<and> queue_ok j s' L))"
proof -
  note s2 = access_slot_ok [OF ok z(2)]
  have h2: "pq_heap s2 = pq_heap s" using z(2) by (auto simp: access_slot_def Let_def upd_acc_def split: option.splits)
  have e: "mq_open me name flags perms (Some a) s = create_queue me t name flags perms a s2"
    using z new n by (auto simp: mq_open_def init_z_apps_def)
  have "num_pqueues s2 < MAX_PQUEUES" using n s2(3) by simp
  from create_queue_ok [OF s2(1) this a, of me t name flags perms] show ?thesis
  proof (elim disjE exE conjE)
    fix h assume "create_queue me t name flags perms a s2 = Some (- ENOMEM, s2\<lparr>pq_heap := h\<rparr>)"
      "rt_malloc (queue_size a) (pq_heap s2) = Some (0, h)"
    then show ?thesis using e h2 by simp
  next
    fix i s' A'
    assume c: "create_queue me t name flags perms a s2 = Some (int i + 1, s')" "\<not> live_queue s2 i" "i < MAX_PQUEUES"
      "pqs_ok s' A'" "queue_ok i s' []" "\<forall>j. j \<noteq> i \<longrightarrow> pqd s' j = pqd s2 j" "q_name (pqd s' i) = name" "open_count (pqd s' i) = 1"
      "\<forall>j L. live_queue s2 j \<longrightarrow> queue_ok j s2 L \<longrightarrow> queue_ok j s' L"
    have "live_queue s2 = live_queue s" "queue_ok j s2 = queue_ok j s" for j
      by (rule ext, simp add: s2(2) live_queue_def, rule ext, simp only: s2(2,4) queue_ok_def)
    then have "\<forall>j L. live_queue s j \<longrightarrow> queue_ok j s L \<longrightarrow> j \<noteq> i \<and> queue_ok j s' L" using c(2,9) by metis
    moreover have "name_to_id name s' = Some i"
      by (rule find_name [OF new(1)]) (use c(3,6,7) s2(2) new(3) in auto)
    ultimately show ?thesis using e c by (intro disjI2 exI conjI) simp_all
  qed
qed

section \<open>Who has a queue open\<close>

text \<open>The entries of all tasks for queue \<open>i\<close>.\<close>

definition entries :: "pq \<Rightarrow> nat \<Rightarrow> (nat \<times> nat) set" where
  "entries s i = {(t, k). t < MAX_RT_TASKS \<and> k < MQ_OPEN_MAX \<and> acc_id (q_access (tacc s t) k) = int i + 1}"

definition opens_ok :: "pq \<Rightarrow> bool" where
  "opens_ok s \<longleftrightarrow> (\<forall>i < MAX_PQUEUES. if live_queue s i then int (card (entries s i)) \<le> open_count (pqd s i)
       else entries s i = {} \<and> q_name (pqd s i) = '''')
     \<and> (\<forall>me t. system_data s me \<noteq> 0 \<longrightarrow> z_pqueues (zmem s (system_data s me)) = Some t \<longrightarrow> t < MAX_RT_TASKS)"

definition pq_inv :: "pq \<Rightarrow> bool" where
  "pq_inv s \<longleftrightarrow> (\<exists>A. pqs_ok s A) \<and> opens_ok s"

lemma entries_finite [simp]: "finite (entries s i)"
  by (rule finite_subset [of _ "{..<MAX_RT_TASKS} \<times> {..<MQ_OPEN_MAX}"]) (auto simp: entries_def)

lemma opens_okD:
  assumes "opens_ok s"
  shows "live_queue s i \<Longrightarrow> int (card (entries s i)) \<le> open_count (pqd s i)"
    "\<not> live_queue s i \<Longrightarrow> i < MAX_PQUEUES \<Longrightarrow> entries s i = {} \<and> q_name (pqd s i) = ''''"
    "system_data s me \<noteq> 0 \<Longrightarrow> z_pqueues (zmem s (system_data s me)) = Some t \<Longrightarrow> t < MAX_RT_TASKS"
  using assms by (auto simp: opens_ok_def live_queue_def)

lemma opens_okI:
  assumes "\<And>i. live_queue s i \<Longrightarrow> int (card (entries s i)) \<le> open_count (pqd s i)"
    and "\<And>i. \<not> live_queue s i \<Longrightarrow> i < MAX_PQUEUES \<Longrightarrow> entries s i = {} \<and> q_name (pqd s i) = ''''"
    and "\<And>me t. system_data s me \<noteq> 0 \<Longrightarrow> z_pqueues (zmem s (system_data s me)) = Some t \<Longrightarrow> t < MAX_RT_TASKS"
  shows "opens_ok s"
  using assms by (simp add: opens_ok_def)

lemma entries_set_entry:
  "entries (set_entry t k (int i + 1) fl s) i \<subseteq> insert (t, k) (entries s i)"
  "j \<noteq> i \<Longrightarrow> entries (set_entry t k (int i + 1) fl s) j \<subseteq> entries s j"
  by (auto simp: entries_def set_entry_def upd_acc_def split: if_splits)

lemma entries_cong: "(\<And>t. q_access (tacc s' t) = q_access (tacc s t)) \<Longrightarrow> entries s' i = entries s i"
  by (simp add: entries_def)

lemma entries_count_open [simp]: "entries (count_open t d s) i = entries s i"
  by (rule entries_cong) (simp add: count_open_def upd_acc_def)

lemma entries_more [simp]: "entries (s\<lparr>num_pqueues := n\<rparr>) i = entries s i" "entries (upd_q j f s) i = entries s i"
  by (simp_all add: entries_def upd_q_def)

lemma acc_simps:
  "pqd (set_entry t k m fl s) = pqd s" "system_data (set_entry t k m fl s) = system_data s" "zmem (set_entry t k m fl s) = zmem s"
  "pqd (count_open t d s) = pqd s" "system_data (count_open t d s) = system_data s" "zmem (count_open t d s) = zmem s"
  by (simp_all add: set_entry_def count_open_def upd_acc_def)

lemma named_live: "opens_ok s \<Longrightarrow> name_to_id name s = Some i \<Longrightarrow> live_queue s i"
  using opens_okD(2) [of s i] by (cases "live_queue s i") (auto simp: name_to_id_def find_Some_iff)

lemma open_entry_in: "open_entry t (int i + 1) s = Some k \<Longrightarrow> t < MAX_RT_TASKS \<Longrightarrow> (t, k) \<in> entries s i"
  by (auto simp: open_entry_def find_Some_iff entries_def)

lemma opens_ok_cong:
  assumes "opens_ok s" and "\<And>i. q_id (pqd s' i) = q_id (pqd s i) \<and> open_count (pqd s' i) = open_count (pqd s i) \<and> q_name (pqd s' i) = q_name (pqd s i)"
    and "\<And>i. entries s' i = entries s i" and "system_data s' = system_data s" and "zmem s' = zmem s"
  shows "opens_ok s'"
  using assms by (simp add: opens_ok_def live_queue_def)

text \<open>The preliminaries of \<^verbatim>\<open>mq_open\<close>: a new \<^verbatim>\<open>Z_APPS\<close> has no table, a new table is one of the 128.\<close>

lemma init_z_apps_opens:
  assumes ok: "pqs_ok s A" and o: "opens_ok s" and z: "init_z_apps me s = Some s'"
  shows "opens_ok s'"
proof (cases "system_data s me = 0")
  case True
  then obtain p h where p: "rt_malloc SIZEOF_Z_APPS (pq_heap s) = Some (p, h)" "p \<noteq> 0"
    "s' = s\<lparr>pq_heap := h, system_data := (system_data s)(me := p),
      zmem := (zmem s)(p := \<lparr>in_use_count = 0, z_pthreads = 0, z_pqueues = None, z_vxtasks = 0\<rparr>)\<rparr>"
    using z by (auto simp: init_z_apps_def split: if_splits Option.bind_splits)
  show ?thesis
    by (rule opens_okI) (use opens_okD [OF o] p in \<open>auto simp: live_queue_def entries_def split: if_splits\<close>)
qed (use z o in \<open>simp add: init_z_apps_def\<close>)

lemma access_slot_opens:
  assumes o: "opens_ok s" and z: "system_data s me \<noteq> 0" and a: "access_slot me s = Some (t, s')"
  shows "opens_ok s'" "t < MAX_RT_TASKS" "system_data s' = system_data s" "\<And>i. entries s' i = entries s i"
proof -
  have "opens_ok s' \<and> t < MAX_RT_TASKS \<and> system_data s' = system_data s \<and> (\<forall>i. entries s' i = entries s i)"
  proof (cases "z_pqueues (zmem s (system_data s me))")
    case None
    then obtain u where u: "List.find (\<lambda>t. this_task (tacc s t) = None) [0..<MAX_RT_TASKS] = Some u" "t = u"
      "s' = (upd_acc t (\<lambda>a. a\<lparr>this_task := Some me\<rparr>) s)
         \<lparr>zmem := (zmem s)(system_data s me := (zmem s (system_data s me))\<lparr>z_pqueues := Some t\<rparr>)\<rparr>"
      using a by (auto simp: access_slot_def Let_def split: option.splits)
    then have t: "t < MAX_RT_TASKS" by (auto simp: find_Some_iff)
    have e: "entries s' i = entries s i" for i unfolding u(3) by (rule entries_cong) (simp add: upd_acc_def)
    have "opens_ok s'"
      by (rule opens_okI) (use opens_okD [OF o] t e u(3) in \<open>auto simp: live_queue_def upd_acc_def split: if_splits\<close>)
    then show ?thesis using t e u(3) by (simp add: upd_acc_def)
  next
    case (Some u)
    then show ?thesis using a o opens_okD(3) [OF o z] by (auto simp: access_slot_def)
  qed
  then show "opens_ok s'" "t < MAX_RT_TASKS" "system_data s' = system_data s" "\<And>i. entries s' i = entries s i" by blast+
qed

text \<open>One more entry for queue \<open>i\<close>, and one more open.\<close>

lemma opened_opens:
  assumes o: "opens_ok s" and i: "live_queue s i" and id: "q_id (pqd s i) = i + 1"
    and e: "\<And>j. j \<noteq> i \<Longrightarrow> entries s' j \<subseteq> entries s j" "entries s' i \<subseteq> insert x (entries s i)"
    and d: "pqd s' = pqd s" "system_data s' = system_data s" "zmem s' = zmem s"
  shows "opens_ok (snd (opened i s'))"
proof (rule opens_okI)
  let ?s = "snd (opened i s')"
  have l: "live_queue ?s j \<longleftrightarrow> live_queue s j" for j by (simp add: live_queue_def opened_def upd_q_def d)
  have en: "entries ?s j = entries s' j" for j by (simp add: opened_def)
  show "int (card (entries ?s j)) \<le> open_count (pqd ?s j)" if "live_queue ?s j" for j
  proof (cases "j = i")
    case True
    have "card (entries s' i) \<le> card (insert x (entries s i))" by (rule card_mono [OF _ e(2)]) simp
    also have "\<dots> \<le> Suc (card (entries s i))" by (simp add: card_insert_if)
    finally show ?thesis using opens_okD(1) [OF o i] True en by (simp add: opened_def upd_q_def d)
  next
    case False
    have "card (entries s' j) \<le> card (entries s j)" by (rule card_mono [OF _ e(1) [OF False]]) simp
    then show ?thesis using opens_okD(1) [OF o, of j] that False en by (simp add: l) (simp add: opened_def upd_q_def d)
  qed
  show "entries ?s j = {} \<and> q_name (pqd ?s j) = ''''" if "\<not> live_queue ?s j" "j < MAX_PQUEUES" for j
  proof -
    have j: "j \<noteq> i" using that(1) i l by auto
    then have "entries s' j = {} \<and> q_name (pqd s j) = ''''" using opens_okD(2) [OF o, of j] that e(1) [OF j] l by simp
    then show ?thesis using j en by (simp add: opened_def upd_q_def d)
  qed
  show "t < MAX_RT_TASKS" if "system_data ?s me \<noteq> 0" "z_pqueues (zmem ?s (system_data ?s me)) = Some t" for me t
    using that opens_okD(3) [OF o] by (simp add: opened_def upd_q_def d)
qed

lemma open_existing_opens:
  assumes ok: "pqs_ok s A" and o: "opens_ok s" and i: "live_queue s i"
  shows "opens_ok (snd (open_existing t i flags s))"
proof -
  have id: "q_id (pqd s i) = i + 1" using pqs_okD(2) [OF ok i] .
  have s: "opens_ok (snd (opened i (set_entry t k (int i + 1) flags s)))"
    "opens_ok (snd (opened i (set_entry t k (int i + 1) flags (count_open t 1 s))))" for k
    by (rule opened_opens [OF o i id, where x = "(t, k)"];
        use entries_set_entry(1) [of t k i flags] entries_set_entry(2) [of _ i t k flags] in \<open>fastforce simp: acc_simps\<close>)+
  show ?thesis using s o by (simp add: open_existing_def Let_def id add.commute split: option.split)
qed

lemma create_queue_opens:
  assumes o: "opens_ok s" and c: "create_queue me t name flags perms a s = Some (r, s')"
  shows "opens_ok s'"
proof (cases "List.find (\<lambda>i. q_id (pqd s i) = 0) [0..<MAX_PQUEUES]")
  case None
  then show ?thesis using c o by (simp add: create_queue_def)
next
  case (Some i)
  then have i: "i < MAX_PQUEUES" "\<not> live_queue s i" by (auto simp: find_Some_iff live_queue_def)
  obtain p h where p: "rt_malloc (queue_size a) (pq_heap s) = Some (p, h)"
    using c Some by (auto simp: create_queue_def split: Option.bind_splits)
  show ?thesis
  proof (cases "p = 0")
    case True
    then show ?thesis using c Some p opens_ok_cong [OF o, of "s\<lparr>pq_heap := h\<rparr>"] by (auto simp: create_queue_def entries_def)
  next
    case False
    let ?s1 = "initialise_queue i (new_queue me i name perms a p (s\<lparr>pq_heap := h\<rparr>))"
    let ?k = "nat (n_open_pqueues (tacc ?s1 t))"
    let ?s2 = "set_entry t ?k (int i + 1) flags ?s1"
    have s': "s' = upd_q i (\<lambda>q. q\<lparr>open_count := open_count q + 1\<rparr>) ((count_open t 1 ?s2)\<lparr>num_pqueues := num_pqueues s + 1\<rparr>)"
      using c Some p False by (simp add: create_queue_def opened_def Let_def)
    have d1: "entries ?s1 j = entries s j" "system_data ?s1 = system_data s" "zmem ?s1 = zmem s"
      "pqd ?s1 = pqd (new_queue me i name perms a p s)" for j
      by (simp_all add: entries_def initialise_queue_def Let_def new_queue_def upd_q_def)
    have e: "entries s' j = entries ?s2 j" for j unfolding s' by simp
    have sd: "system_data s' = system_data s" "zmem s' = zmem s" unfolding s' by (simp_all add: upd_q_def acc_simps d1)
    have q0: "pqd s' = (pqd ?s1)(i := (pqd ?s1 i)\<lparr>open_count := open_count (pqd ?s1 i) + 1\<rparr>)"
      unfolding s' by (simp add: upd_q_def acc_simps)
    have q: "pqd s' i = (pqd ?s1 i)\<lparr>open_count := open_count (pqd ?s1 i) + 1\<rparr>" "j \<noteq> i \<Longrightarrow> pqd s' j = pqd s j" for j
      by (simp add: q0) (simp add: q0 d1(4), simp add: new_queue_def upd_q_def)
    have q1: "open_count (pqd s' i) = 1" unfolding q(1) d1 by (simp add: new_queue_def upd_q_def)
    have li: "live_queue s' i" using i(1) unfolding live_queue_def q(1) d1 by (simp add: new_queue_def upd_q_def)
    have l: "live_queue s' j \<longleftrightarrow> live_queue s j" if "j \<noteq> i" for j using q(2) [OF that] by (simp add: live_queue_def)
    have ei: "card (entries s' i) \<le> 1"
    proof -
      have "entries s' i \<subseteq> {(t, ?k)}" using entries_set_entry(1) [of t ?k i flags ?s1] opens_okD(2) [OF o i(2,1)] unfolding e d1 by simp
      then show ?thesis using card_mono [of "{(t, ?k)}"] by fastforce
    qed
    have ej: "entries s' j \<subseteq> entries s j" if "j \<noteq> i" for j
      using entries_set_entry(2) [OF that, of t ?k flags ?s1] unfolding e d1 .
    show ?thesis
    proof (rule opens_okI)
      show "int (card (entries s' j)) \<le> open_count (pqd s' j)" if "live_queue s' j" for j
      proof (cases "j = i")
        case False
        have "card (entries s' j) \<le> card (entries s j)" by (rule card_mono [OF _ ej [OF False]]) simp
        then show ?thesis using opens_okD(1) [OF o, of j] that l [OF False] q(2) [OF False] by simp
      qed (use ei q1 in simp)
      show "entries s' j = {} \<and> q_name (pqd s' j) = ''''" if "\<not> live_queue s' j" "j < MAX_PQUEUES" for j
      proof -
        have j: "j \<noteq> i" using that(1) li by auto
        then show ?thesis using opens_okD(2) [OF o, of j] that l [OF j] ej [OF j] q(2) [OF j] by auto
      qed
      show "u < MAX_RT_TASKS" if "system_data s' me' \<noteq> 0" "z_pqueues (zmem s' (system_data s' me')) = Some u" for me' u
        using opens_okD(3) [OF o] that unfolding sd by blast
    qed
  qed
qed

lemma mq_open_inv:
  assumes ok: "pqs_ok s A" and o: "opens_ok s" and r: "mq_open me name flags perms attr s = Some (r, s')"
  shows "opens_ok s'"
proof -
  obtain s1 where s1: "init_z_apps me s = Some s1" using r by (auto simp: mq_open_def split: Option.bind_splits)
  obtain A1 where ok1: "pqs_ok s1 A1" "system_data s1 me \<noteq> 0" using init_z_apps_ok [OF ok, of me] s1 by auto
  have o1: "opens_ok s1" by (rule init_z_apps_opens [OF ok o s1])
  show ?thesis
  proof (cases "name_to_id name s1")
    case None
    consider "s' = s1" | t s2 where "access_slot me s1 = Some (t, s2)"
        "create_queue me t name flags perms (case attr of None \<Rightarrow> default_attrs | Some a \<Rightarrow> a) s2 = Some (r, s')"
      using r s1 None by (auto simp: mq_open_def split: if_splits option.splits)
    then show ?thesis using o1 create_queue_opens access_slot_opens(1) [OF o1 ok1(2)] by cases auto
  next
    case (Some i)
    consider "s' = s1" | t s2 where "access_slot me s1 = Some (t, s2)" "s' = snd (open_existing t i flags s2)"
      using r s1 Some by (auto simp: mq_open_def split: if_splits option.splits)
    then show ?thesis
    proof cases
      case 2
      note a = access_slot_opens [OF o1 ok1(2) 2(1)] and ak = access_slot_ok [OF ok1(1) 2(1)]
      have "live_queue s2 i" using named_live [OF o1 Some] ak(2) by (simp add: live_queue_def)
      then show ?thesis using open_existing_opens [OF ak(1) a(1)] 2(2) by simp
    qed (use o1 in simp)
  qed
qed

section \<open>Closing and unlinking\<close>

lemma pq_invE:
  assumes "pq_inv s"
  obtains A where "pqs_ok s A" "opens_ok s"
  using assms by (auto simp: pq_inv_def)

lemma delete_queue_inv:
  assumes ok: "pqs_ok s A" and o: "opens_ok s" and i: "live_queue s i" and n: "open_count (pqd s i) \<le> 0"
  shows "\<exists>s'. delete_queue i s = Some s' \<and> pq_inv s' \<and> \<not> live_queue s' i \<and> queue_type s' = queue_type s"
proof -
  obtain s' where s': "delete_queue i s = Some s'" "pqs_ok s' (A(base_of s i := None))" "\<not> live_queue s' i"
    "\<forall>j. j \<noteq> i \<longrightarrow> pqd s' j = pqd s j" "q_name (pqd s' i) = ''''" "tacc s' = tacc s" "system_data s' = system_data s"
    "zmem s' = zmem s" "queue_type s' = queue_type s"
    using delete_queue_ok [OF ok i] by (elim exE conjE)
  have e: "entries s' j = entries s j" for j by (rule entries_cong) (simp add: s'(6))
  have "card (entries s i) = 0" using opens_okD(1) [OF o i] n by linarith
  then have ei: "entries s i = {}" by simp
  have l: "live_queue s' j \<longleftrightarrow> live_queue s j" if "j \<noteq> i" for j using s'(4) that by (simp add: live_queue_def)
  have "opens_ok s'"
  proof (rule opens_okI)
    show "int (card (entries s' j)) \<le> open_count (pqd s' j)" if "live_queue s' j" for j
      using that s'(3,4) opens_okD(1) [OF o, of j] l [of j] e by (cases "j = i") auto
    show "entries s' j = {} \<and> q_name (pqd s' j) = ''''" if "\<not> live_queue s' j" "j < MAX_PQUEUES" for j
      using that s'(4,5) opens_okD(2) [OF o, of j] l [of j] e ei by (cases "j = i") auto
  qed (use opens_okD(3) [OF o] s'(7,8) in auto)
  then show ?thesis using s'(1-3,9) by (auto simp: pq_inv_def)
qed

lemma mq_unlink_ok:
  assumes "pq_inv s"
  shows "\<exists>r s'. mq_unlink name s = Some (r, s') \<and> pq_inv s' \<and> (name_to_id name s = None \<longrightarrow> r = - ENOENT \<and> s' = s)
    \<and> (\<forall>i. name_to_id name s = Some i \<longrightarrow> (if open_count (pqd s i) > 0 then r = open_count (pqd s i) \<and> live_queue s' i
         \<and> marked_for_deletion (pqd s' i) else r = 0 \<and> \<not> live_queue s' i) \<and> q_name (pqd s' i) = '''')"
proof -
  obtain A where ok: "pqs_ok s A" and o: "opens_ok s" by (rule pq_invE [OF assms])
  show ?thesis
  proof (cases "name_to_id name s")
    case None
    then show ?thesis using assms by (simp add: mq_unlink_def)
  next
    case (Some i)
    have i: "live_queue s i" by (rule named_live [OF o Some])
    show ?thesis
    proof (cases "open_count (pqd s i) > 0")
      case True
      let ?s = "upd_q i (\<lambda>q. q\<lparr>q_name := '''', marked_for_deletion := True\<rparr>) s"
      have "pqs_ok ?s A" by (rule pqs_ok_cong [OF ok]) (simp_all add: upd_q_def)
      moreover have "opens_ok ?s"
        by (rule opens_okI) (use opens_okD [OF o] i in \<open>auto simp: upd_q_def live_queue_def entries_def split: if_splits\<close>)
      ultimately show ?thesis using True Some i
        by (auto simp: mq_unlink_def pq_inv_def) (simp_all add: upd_q_def live_queue_def)
    next
      case False
      obtain s' where "delete_queue i s = Some s'" "pq_inv s'" "\<not> live_queue s' i"
        using delete_queue_inv [OF ok o i] False by auto
      moreover have "q_name (pqd s' i) = ''''" using calculation i by (elim pq_invE) (metis live_queue_def opens_okD(2))
      ultimately show ?thesis using False Some by (auto simp: mq_unlink_def)
    qed
  qed
qed

lemma q_index_small: "mq < 2 ^ 32 \<Longrightarrow> q_index mq = (if mq \<le> 2 ^ 31 then int mq - 1 else int mq - 1 - 2 ^ 32)"
proof -
  assume mq: "mq < 2 ^ 32"
  have "(int mq - 1 + 2 ^ 31) mod 2 ^ 32 = (if mq \<le> 2 ^ 31 then int mq - 1 + 2 ^ 31 else int mq - 1 + 2 ^ 31 - 2 ^ 32)"
    using mq by (cases "mq \<le> 2 ^ 31") (simp_all add: mod_pos_geq)
  then show ?thesis by (simp add: q_index_def to_int32_def signed_take_bit_eq_take_bit_shift take_bit_eq_mod)
qed

lemma valid_index_iff: "mq < 2 ^ 32 \<Longrightarrow> valid_index (q_index mq) \<longleftrightarrow> 1 \<le> mq \<and> mq \<le> MAX_PQUEUES"
  by (auto simp: valid_index_def q_index_small split: if_splits)

lemma entries_drop:
  "entries (upd_acc t (\<lambda>a. a\<lparr>q_access := (q_access a)(k := (q_access a k)\<lparr>acc_id := 0\<rparr>)\<rparr>) s) j = entries s j - {(t, k)}"
  by (auto simp: entries_def upd_acc_def split: if_splits)

text \<open>The entry of the closing task is given up and the count follows.\<close>

lemma close_entry_ok:
  assumes ok: "pqs_ok s A" and o: "opens_ok s" and e: "(t, k) \<in> entries s i" and i: "i < MAX_PQUEUES"
    and s3: "s3 = upd_q i (\<lambda>q. q\<lparr>open_count := open_count q - 1\<rparr>) (close_entry me t k i s)"
  shows "pqs_ok s3 A" "opens_ok s3" "live_queue s3 i" "queue_type s3 = queue_type s"
proof -
  have f: "q_id (pqd s3 j) = q_id (pqd s j)" "q_data (pqd s3 j) = q_data (pqd s j)" "q_name (pqd s3 j) = q_name (pqd s j)"
    "open_count (pqd s3 j) = (if j = i then open_count (pqd s i) - 1 else open_count (pqd s j))"
    "hdrs s3 = hdrs s" "pq_heap s3 = pq_heap s" "system_data s3 = system_data s" "zmem s3 = zmem s" "num_pqueues s3 = num_pqueues s"
    "queue_type s3 = queue_type s" for j
    unfolding s3 close_entry_def Let_def by (simp_all add: upd_q_def count_open_def upd_acc_def)
  have li: "live_queue s i" using e opens_okD(2) [OF o _ i] by auto
  have l: "live_queue s3 j \<longleftrightarrow> live_queue s j" for j by (simp add: live_queue_def f)
  have en: "entries s3 j = entries s j - {(t, k)}" for j unfolding s3 close_entry_def Let_def by (simp add: entries_drop)
  show "pqs_ok s3 A" by (rule pqs_ok_cong [OF ok]) (simp_all add: f)
  show "live_queue s3 i" using li by (simp add: l)
  show "queue_type s3 = queue_type s" by (simp add: f)
  show "opens_ok s3"
  proof (rule opens_okI, unfold l f(7,8))
    show "int (card (entries s3 j)) \<le> open_count (pqd s3 j)" if "live_queue s j" for j
    proof (cases "j = i")
      case True
      have "0 < card (entries s i)" using e by (auto simp: card_gt_0_iff)
      then show ?thesis using opens_okD(1) [OF o li] e True by (simp add: en f card_Diff_singleton of_nat_diff)
    next
      case False
      have "card (entries s j - {(t, k)}) \<le> card (entries s j)" by (rule card_mono) auto
      then show ?thesis using opens_okD(1) [OF o that] False by (simp add: en f)
    qed
    show "entries s3 j = {} \<and> q_name (pqd s3 j) = ''''" if "\<not> live_queue s j" "j < MAX_PQUEUES" for j
      using opens_okD(2) [OF o that] by (simp add: en f)
  qed (use opens_okD(3) [OF o] in blast)
qed

lemma drop_open_inv:
  assumes ok: "pqs_ok s A" and o: "opens_ok s" and e: "(t, k) \<in> entries s i" and i: "i < MAX_PQUEUES"
  shows "\<exists>s'. drop_open i (close_entry me t k i s) = Some s' \<and> pq_inv s' \<and> queue_type s' = queue_type s
    \<and> (live_queue s' i \<longleftrightarrow> \<not> (open_count (pqd s i) \<le> 1 \<and> marked_for_deletion (pqd s i)))"
proof -
  obtain s3 where s3: "s3 = upd_q i (\<lambda>q. q\<lparr>open_count := open_count q - 1\<rparr>) (close_entry me t k i s)" by blast
  note c = close_entry_ok [OF ok o e i s3]
  have last: "open_count (pqd s3 i) \<le> 0 \<and> marked_for_deletion (pqd s3 i)
      \<longleftrightarrow> open_count (pqd s i) \<le> 1 \<and> marked_for_deletion (pqd s i)"
    unfolding s3 close_entry_def Let_def by (simp add: upd_q_def count_open_def upd_acc_def)
  have r: "drop_open i (close_entry me t k i s) =
      (if open_count (pqd s3 i) \<le> 0 \<and> marked_for_deletion (pqd s3 i) then delete_queue i s3 else Some s3)"
    unfolding drop_open_def Let_def s3 by (rule refl)
  show ?thesis
  proof (cases "open_count (pqd s3 i) \<le> 0 \<and> marked_for_deletion (pqd s3 i)")
    case True
    then obtain s' where "delete_queue i s3 = Some s'" "pq_inv s'" "\<not> live_queue s' i" "queue_type s' = queue_type s3"
      using delete_queue_inv [OF c(1-3)] by (elim conjE exE) blast
    then show ?thesis unfolding r c(4) using True last by simp
  next
    case False
    have "pq_inv s3" unfolding pq_inv_def using c(1,2) by blast
    then show ?thesis unfolding r if_not_P [OF False] using c(3,4) False last by blast
  qed
qed

lemma mq_close_found:
  assumes "valid_index (q_index mq)" "system_data s me \<noteq> 0" "z_pqueues (zmem s (system_data s me)) = Some t"
    "open_entry t (int mq) s = Some k"
  shows "mq_close me mq s = do { s' \<leftarrow> drop_open (nat (q_index mq)) (close_entry me t k (nat (q_index mq)) s); Some (0, s') }"
  unfolding mq_close_def Let_def if_P [OF assms(1)] if_not_P [OF assms(2)] assms(3,4) option.case by (rule refl)

lemma mq_close_refused:
  assumes "system_data s me \<noteq> 0"
    and "\<not> valid_index (q_index mq) \<or> (\<forall>t. z_pqueues (zmem s (system_data s me)) = Some t \<longrightarrow> open_entry t (int mq) s = None)"
  shows "mq_close me mq s = Some (- EINVAL, s)"
  unfolding mq_close_def Let_def if_not_P [OF assms(1)] using assms(2)
  by (simp split: option.split)

lemma mq_close_inv:
  assumes inv: "pq_inv s" and z: "system_data s me \<noteq> 0" and mq: "mq < 2 ^ 32"
  shows "\<exists>r s'. mq_close me mq s = Some (r, s') \<and> pq_inv s' \<and> queue_type s' = queue_type s"
proof (cases "valid_index (q_index mq) \<and> (\<exists>t k. z_pqueues (zmem s (system_data s me)) = Some t \<and> open_entry t (int mq) s = Some k)")
  case True
  then obtain t k where v: "valid_index (q_index mq)" and t: "z_pqueues (zmem s (system_data s me)) = Some t"
    and k: "open_entry t (int mq) s = Some k" by (elim conjE exE)
  obtain A where ok: "pqs_ok s A" and o: "opens_ok s" by (rule pq_invE [OF inv])
  have m1: "1 \<le> mq" "mq \<le> MAX_PQUEUES" using v valid_index_iff [OF mq] by simp_all
  then have m: "mq - 1 < MAX_PQUEUES" "int mq = int (mq - 1) + 1" by simp_all
  have m3: "nat (q_index mq) = mq - 1" using q_index_valid [OF m1] by (metis nat_int)
  have e: "(t, k) \<in> entries s (mq - 1)"
    by (rule open_entry_in [OF k [unfolded m(2)] opens_okD(3) [OF o z t]])
  show ?thesis
    using mq_close_found [OF v z t k] drop_open_inv [OF ok o e m(1), of me] unfolding m3
    by (elim exE conjE) simp
next
  case False
  then have "mq_close me mq s = Some (- EINVAL, s)"
    by (intro mq_close_refused [OF z]) (metis option.exhaust)
  then show ?thesis using inv by blast
qed

end
