(* ===== verification/Pqueue_Steps.thy ===== *)
theory Pqueue_Steps
  imports Pqueue_Lifecycle
begin

text \<open>
  The module of the message queues as a state machine: the calls of the tasks as steps, from the state
  the static initialisers set up.  Every reachable state is well formed, whatever the calls.
\<close>

section \<open>The initial state\<close>

text \<open>The tables are zero, no task has applications data.\<close>

definition boot_pq :: "heap \<Rightarrow> pq" where
  "boot_pq h = \<lparr>pqd = (\<lambda>_. \<lparr>q_owner = None, open_count = 0, q_name = '''', q_id = 0, marked_for_deletion = False,
       q_data = \<lparr>q_base = 0, q_head = 0, q_tail = 0, q_attrs = \<lparr>mq_maxmsg = 0, mq_msgsize = 0, mq_flags = 0, mq_curmsgs = 0\<rparr>\<rparr>,
       permissions = 0, notify_task = None, notify_data = 0\<rparr>),
     tacc = (\<lambda>_. \<lparr>this_task = None, n_open_pqueues = 0, q_access = (\<lambda>_. \<lparr>acc_id = 0, acc_oflags = 0\<rparr>)\<rparr>),
     system_data = (\<lambda>_. 0),
     zmem = (\<lambda>_. \<lparr>in_use_count = 0, z_pthreads = 0, z_pqueues = None, z_vxtasks = 0\<rparr>),
     hdrs = (\<lambda>_. \<lparr>in_use = False, hdr_size = 0, hdr_prio = 0, hdr_next = 0\<rparr>), body = (\<lambda>_. 0),
     pq_heap = h, num_pqueues = 0, task_queueing_policy = FIFO_BASED, queue_type = POSIX\<rparr>"

lemma boot_pq_inv:
  assumes "heap_ok h A"
  shows "pq_inv (boot_pq h)"
proof -
  have l: "\<not> live_queue (boot_pq h) i" for i by (simp add: live_queue_def boot_pq_def)
  have "pqs_ok (boot_pq h) A" using assms by (simp add: pqs_ok_def l) (simp add: boot_pq_def)
  moreover have "entries (boot_pq h) i = {}" for i by (simp add: entries_def boot_pq_def)
  then have "opens_ok (boot_pq h)" by (simp add: opens_ok_def l) (simp add: boot_pq_def)
  ultimately show ?thesis by (auto simp: pq_inv_def)
qed

section \<open>The steps\<close>

text \<open>
  A task opens a queue, with attributes that fit the slots; closes one, having opened one before;
  unlinks, changes the flags, asks for a notification; adds a message that fits a queue that is
  not full; takes the message at the head.  The waiting calls are the last two steps, once
  the condition they wait for holds.
\<close>

inductive pq_step :: "pq \<Rightarrow> pq \<Rightarrow> bool" where
  open_step: "\<lbrakk>mq_open me name flags perms attr s = Some (r, s'); \<forall>a. attr = Some a \<longrightarrow> creatable a\<rbrakk> \<Longrightarrow> pq_step s s'"
| close_step: "\<lbrakk>mq_close me mq s = Some (r, s'); mq < 2 ^ 32\<rbrakk> \<Longrightarrow> pq_step s s'"
| unlink_step: "mq_unlink name s = Some (r, s') \<Longrightarrow> pq_step s s'"
| setattr_step: "mq_setattr me mq new old s = Some (r, s') \<Longrightarrow> pq_step s s'"
| notify_step: "mq_notify me mq d s = (r, s') \<Longrightarrow> pq_step s s'"
| put_step: "\<lbrakk>put_message i xs prio s = Some (r, s'); live_queue s i; queue_type s = POSIX; \<not> is_full (q_data (pqd s i));
     length xs \<le> nat (mq_msgsize (q_attrs (q_data (pqd s i))))\<rbrakk> \<Longrightarrow> pq_step s s'"
| take_step: "\<lbrakk>take_head i n s = Some (r, s'); live_queue s i; \<not> is_empty (q_data (pqd s i));
     nat (mq_msgsize (q_attrs (q_data (pqd s i)))) \<le> n\<rbrakk> \<Longrightarrow> pq_step s s'"

lemma opens_local:
  assumes "opens_ok s" and "local_change i s s'"
  shows "opens_ok s'"
proof -
  have s': "s' = s\<lparr>pqd := (pqd s)(i := pqd s' i), hdrs := hdrs s', body := body s'\<rparr>"
    and d: "pqd s' i = (pqd s i)\<lparr>q_data := q_data (pqd s' i), notify_task := notify_task (pqd s' i)\<rparr>"
    using assms(2) unfolding local_change_def Let_def by - (elim conjE, assumption)+
  have other: "pqd s' j = pqd s j" if "j \<noteq> i" for j by (subst s') (use that in simp)
  have rest: "tacc s' = tacc s" "system_data s' = system_data s" "zmem s' = zmem s" by (subst s', simp)+
  have "q_id (pqd s' i) = q_id (pqd s i) \<and> open_count (pqd s' i) = open_count (pqd s i) \<and> q_name (pqd s' i) = q_name (pqd s i)"
    by (subst (1 2 3) d) simp
  then have same: "q_id (pqd s' j) = q_id (pqd s j) \<and> open_count (pqd s' j) = open_count (pqd s j) \<and> q_name (pqd s' j) = q_name (pqd s j)" for j
    using other by (cases "j = i") simp_all
  show ?thesis by (rule opens_ok_cong [OF assms(1) same]) (simp_all add: entries_def rest)
qed

lemma local_keeps:
  assumes inv: "pq_inv s" and i: "live_queue s i" and "local_change i s s'" "queue_ok i s' L"
  shows "pq_inv s'"
proof -
  obtain A where ok: "pqs_ok s A" and o: "opens_ok s" by (rule pq_invE [OF inv])
  show ?thesis unfolding pq_inv_def
    using pqs_ok_local [OF ok i assms(3,4)] opens_local [OF o assms(3)] by blast
qed

lemma live_queue_ok:
  assumes "pq_inv s" "live_queue s i"
  obtains L where "queue_ok i s L"
  using assms by (auto simp: pq_inv_def dest: pqs_okD(3))

lemma put_step_keeps:
  assumes inv: "pq_inv s" and i: "live_queue s i" and p: "put_message i xs prio s = Some (r, s')" and ty: "queue_type s = POSIX"
    and room: "\<not> is_full (q_data (pqd s i))" and len: "length xs \<le> nat (mq_msgsize (q_attrs (q_data (pqd s i))))"
  shows "pq_inv s'"
proof -
  obtain L where L: "queue_ok i s L" by (rule live_queue_ok [OF inv i])
  have "int (length L) \<le> mq_maxmsg (q_attrs (q_data (pqd s i)))"
    using queue_ok_length [OF L] queue_okD(1) [OF L] unfolding attrs_ok_def by linarith
  then have "int (length L) < mq_maxmsg (q_attrs (q_data (pqd s i)))"
    using room queue_okD(5) [OF L] by (simp add: is_full_def)
  from put_message_ok [OF L this len ty, of prio] p obtain ms' where "queue_ok i s' ms'" "local_change i s s'" by auto
  then show ?thesis by (intro local_keeps [OF inv i])
qed

lemma take_step_keeps:
  assumes inv: "pq_inv s" and i: "live_queue s i" and t: "take_head i n s = Some (r, s')" and ne: "\<not> is_empty (q_data (pqd s i))"
    and n: "nat (mq_msgsize (q_attrs (q_data (pqd s i)))) \<le> n"
  shows "pq_inv s'"
proof -
  obtain L where L: "queue_ok i s L" by (rule live_queue_ok [OF inv i])
  then obtain m ms where "L = m # ms" using ne queue_okD(5) [OF L] by (cases L) (simp_all add: is_empty_def)
  then obtain s1 where "take_head i n s = Some ((int (length (snd (message_at s m))), snd (message_at s m), Some (fst (message_at s m))), s1)"
    "queue_ok i s1 ms" "local_change i s s1" using take_head_ok [of i s m ms n] L n by blast
  then show ?thesis using t by (auto intro: local_keeps [OF inv i])
qed

text \<open>Neither the flags of a queue nor a request to be notified matter.\<close>

lemma flags_keep:
  assumes inv: "pq_inv s"
    and q: "\<And>j. q_id (pqd s' j) = q_id (pqd s j) \<and> open_count (pqd s' j) = open_count (pqd s j) \<and> q_name (pqd s' j) = q_name (pqd s j)"
    and c: "\<And>j. \<exists>fl. q_data (pqd s' j) = q_data (pqd s j)\<lparr>q_attrs := (q_attrs (q_data (pqd s j)))\<lparr>mq_flags := fl\<rparr>\<rparr>"
    and e: "\<And>j. entries s' j = entries s j"
    and r: "hdrs s' = hdrs s" "pq_heap s' = pq_heap s" "system_data s' = system_data s" "zmem s' = zmem s" "num_pqueues s' = num_pqueues s"
  shows "pq_inv s'"
proof -
  obtain A where ok: "pqs_ok s A" and o: "opens_ok s" by (rule pq_invE [OF inv])
  have at: "mq_msgsize (q_attrs (q_data (pqd s' j))) = mq_msgsize (q_attrs (q_data (pqd s j)))"
    "mq_maxmsg (q_attrs (q_data (pqd s' j))) = mq_maxmsg (q_attrs (q_data (pqd s j)))"
    "mq_curmsgs (q_attrs (q_data (pqd s' j))) = mq_curmsgs (q_attrs (q_data (pqd s j)))"
    "q_base (q_data (pqd s' j)) = q_base (q_data (pqd s j))" "q_head (q_data (pqd s' j)) = q_head (q_data (pqd s j))"
    "q_tail (q_data (pqd s' j)) = q_tail (q_data (pqd s j))" for j
    using c [of j] by auto
  have l: "live_queue s' = live_queue s" "base_of s' = base_of s" by (simp_all add: fun_eq_iff live_queue_def base_of_def q at)
  have st: "stride (q_data (pqd s' j)) = stride (q_data (pqd s j))" for j by (simp add: stride_def at)
  have "slots (q_data (pqd s' j)) = slots (q_data (pqd s j))" for j by (simp add: slots_def st at)
  then have "queue_ok j s' = queue_ok j s" for j by (simp add: fun_eq_iff queue_ok_def attrs_ok_def Let_def at r)
  moreover have "span (q_data (pqd s' j)) = span (q_data (pqd s j))" for j by (simp add: span_def st at)
  ultimately have "pqs_ok s' A" using ok unfolding pqs_ok_def l r by (simp add: q)
  then show ?thesis unfolding pq_inv_def using opens_ok_cong [OF o q e r(3,4)] by blast
qed

lemma mq_notify_keeps:
  assumes inv: "pq_inv s" and n: "mq_notify me mq d s = (r, s')"
  shows "pq_inv s'"
proof -
  obtain A where ok: "pqs_ok s A" and o: "opens_ok s" by (rule pq_invE [OF inv])
  have f: "q_id (pqd s' j) = q_id (pqd s j) \<and> open_count (pqd s' j) = open_count (pqd s j) \<and> q_name (pqd s' j) = q_name (pqd s j)"
    "q_id (pqd s' j) = q_id (pqd s j) \<and> q_data (pqd s' j) = q_data (pqd s j)"
    "hdrs s' = hdrs s" "pq_heap s' = pq_heap s" "system_data s' = system_data s" "num_pqueues s' = num_pqueues s" "zmem s' = zmem s"
    "tacc s' = tacc s" for j
    using n by (auto simp: mq_notify_def Let_def upd_q_def split: if_splits option.splits)
  have "entries s' j = entries s j" for j by (rule entries_cong) (simp add: f(8))
  from opens_ok_cong [OF o f(1) this f(5,7)] pqs_ok_cong [OF ok f(2-6)] show ?thesis unfolding pq_inv_def by blast
qed

lemma mq_setattr_cases:
  assumes "mq_setattr me mq new old s = Some (r, s')"
  obtains "s' = s" | t k i f g where
    "s' = upd_ctrl i (\<lambda>q. q\<lparr>q_attrs := (q_attrs q)\<lparr>mq_flags := f\<rparr>\<rparr>)
       (upd_acc t (\<lambda>a. a\<lparr>q_access := (q_access a)(k := (q_access a k)\<lparr>acc_oflags := g\<rparr>)\<rparr>) s)"
  using assms by (auto simp: mq_setattr_def Let_def split: if_splits option.splits)

lemma entries_flags:
  "entries (upd_acc t (\<lambda>a. a\<lparr>q_access := (q_access a)(k := (q_access a k)\<lparr>acc_oflags := g\<rparr>)\<rparr>) s) j = entries s j"
  by (auto simp: entries_def upd_acc_def split: if_splits)

lemma mq_setattr_keeps:
  assumes inv: "pq_inv s" and "mq_setattr me mq new old s = Some (r, s')"
  shows "pq_inv s'"
  using assms(2)
proof (cases rule: mq_setattr_cases)
  case (2 t k i f g)
  let ?s = "upd_acc t (\<lambda>a. a\<lparr>q_access := (q_access a)(k := (q_access a k)\<lparr>acc_oflags := g\<rparr>)\<rparr>) s"
  have same: "\<exists>fl. c = c\<lparr>q_attrs := (q_attrs c)\<lparr>mq_flags := fl\<rparr>\<rparr>" for c :: q_ctrl
    by (rule exI [of _ "mq_flags (q_attrs c)"]) simp
  have "entries s' j = entries s j" for j unfolding 2 upd_ctrl_def by (simp add: entries_flags)
  moreover have p: "pqd s' j = (if j = i then (pqd s i)\<lparr>q_data := q_data (pqd s i)\<lparr>q_attrs := (q_attrs (q_data (pqd s i)))\<lparr>mq_flags := f\<rparr>\<rparr>\<rparr>
      else pqd s j)" for j unfolding 2 by (simp add: upd_ctrl_def upd_q_def upd_acc_def)
  moreover have "\<exists>fl. q_data (pqd s' j) = q_data (pqd s j)\<lparr>q_attrs := (q_attrs (q_data (pqd s j)))\<lparr>mq_flags := fl\<rparr>\<rparr>" for j
  proof (cases "j = i")
    case True
    then show ?thesis unfolding p by (intro exI [of _ f]) simp
  next
    case False
    then show ?thesis unfolding p using same by simp
  qed
  ultimately show ?thesis
    by (intro flags_keep [OF inv]) (simp_all add: p, simp_all add: 2 upd_ctrl_def upd_q_def upd_acc_def)
qed (use inv in simp)


section \<open>Reachable states\<close>

lemma pq_step_inv: "pq_step s s' \<Longrightarrow> pq_inv s \<Longrightarrow> pq_inv s'"
proof (induction rule: pq_step.induct)
  case (open_step me name flags perms attr s r s')
  then obtain A where ok: "pqs_ok s A" and o: "opens_ok s" by (elim pq_invE)
  show ?case using mq_open_keeps [OF ok open_step.hyps(2), of me name flags perms] mq_open_inv [OF ok o open_step.hyps(1)]
      open_step.hyps(1) by (auto simp: pq_inv_def)
next
  case (close_step me mq s r s')
  then have "system_data s me \<noteq> 0 \<or> s' = s" by (auto simp: mq_close_def Let_def split: if_splits)
  then show ?case using mq_close_inv [OF close_step.prems _ close_step.hyps(2), of me] close_step by auto
next
  case (unlink_step name s r s')
  then show ?case using mq_unlink_ok [of s name] by auto
qed (blast intro: mq_setattr_keeps mq_notify_keeps put_step_keeps take_step_keeps)+



section \<open>Deferred deletion\<close>

text \<open>The last close after an unlink.\<close>


end
