(* ===== verification/Example_Pqueues.thy ===== *)
theory Example_Pqueues
  imports Pqueue_Steps Example_Mem
begin

text \<open>
  The properties of the message queues applied to a module in which task 1 has opened queue 1, of
  three messages of up to four bytes, for both directions and without blocking.
\<close>

definition pq_heap0 :: heap where
  "pq_heap0 = demo_heap\<lparr>free_list := (\<lambda>_. 0)(1024 := 1152, 2048 := 2064),
     blk_chk := (\<lambda>_. 0)(1040 := 1024, 1072 := 1024, 1152 := 1024, 2064 := 2048),
     next_free := (\<lambda>_. 0)(1040 := 1040, 1072 := 1072),
     free_size := (\<lambda>_. 0)(1040 := 16, 1072 := 64, 1152 := 112, 2064 := 224),
     memory_leak := 80, memory_overhead := 96\<rparr>"

lemma pq_heap0_ok: "mm_ok pq_heap0 [1024, 2048] ((\<lambda>_. [])(1024 := [1152], 2048 := [2064])) ((\<lambda>_. {})(1024 := {1040, 1072}))"
  by (simp add: mm_ok_def chunk_ok_def layout_def demo_heap_def pq_heap0_def)

lemma pq_heap0_allocs: "heap_ok pq_heap0 ((\<lambda>_. None)(1056 \<mapsto> 16, 1088 \<mapsto> 64))"
  by (rule heap_okI [OF pq_heap0_ok]) (auto simp: allocs_def fun_eq_iff pq_heap0_def)

definition demo_attr :: mq_attr where
  "demo_attr = \<lparr>mq_maxmsg = 3, mq_msgsize = 4, mq_flags = MQ_NONBLOCK, mq_curmsgs = 0\<rparr>"

definition demo_pq :: pq where
  "demo_pq = (boot_pq pq_heap0)\<lparr>
     pqd := (pqd (boot_pq pq_heap0))(0 := \<lparr>q_owner = Some 1, open_count = 1, q_name = ''q'', q_id = 1, marked_for_deletion = False,
       q_data = \<lparr>q_base = 1088, q_head = 1088, q_tail = 1088, q_attrs = demo_attr\<rparr>, permissions = S_IRUSR OR S_IWUSR,
       notify_task = None, notify_data = 0\<rparr>),
     tacc := (tacc (boot_pq pq_heap0))(0 := \<lparr>this_task = Some 1, n_open_pqueues = 1,
       q_access = (\<lambda>_. \<lparr>acc_id = 0, acc_oflags = 0\<rparr>)(0 := \<lparr>acc_id = 1, acc_oflags = O_RDWR OR O_NONBLOCK\<rparr>)\<rparr>),
     system_data := (\<lambda>_. 0)(1 := 1056),
     zmem := (zmem (boot_pq pq_heap0))(1056 := \<lparr>in_use_count = 0, z_pthreads = 0, z_pqueues = Some 0, z_vxtasks = 0\<rparr>),
     num_pqueues := 1\<rparr>"

lemma demo_pq_fields [simp]:
  "pqd demo_pq 0 = \<lparr>q_owner = Some 1, open_count = 1, q_name = ''q'', q_id = 1, marked_for_deletion = False,
     q_data = \<lparr>q_base = 1088, q_head = 1088, q_tail = 1088, q_attrs = demo_attr\<rparr>, permissions = S_IRUSR OR S_IWUSR,
     notify_task = None, notify_data = 0\<rparr>"
  "i \<noteq> 0 \<Longrightarrow> pqd demo_pq i = pqd (boot_pq pq_heap0) i"
  "hdrs demo_pq = (\<lambda>_. \<lparr>in_use = False, hdr_size = 0, hdr_prio = 0, hdr_next = 0\<rparr>)"
  "system_data demo_pq = (\<lambda>_. 0)(1 := 1056)" "queue_type demo_pq = POSIX" "num_pqueues demo_pq = 1"
  "pq_heap demo_pq = pq_heap0"
  "z_pqueues (zmem demo_pq 1056) = Some 0"
  "q_access (tacc demo_pq 0) = (\<lambda>_. \<lparr>acc_id = 0, acc_oflags = 0\<rparr>)(0 := \<lparr>acc_id = 1, acc_oflags = O_RDWR OR O_NONBLOCK\<rparr>)"
  "n_open_pqueues (tacc demo_pq 0) = 1"
  "t \<noteq> 0 \<Longrightarrow> q_access (tacc demo_pq t) k = \<lparr>acc_id = 0, acc_oflags = 0\<rparr>"
  by (simp_all add: demo_pq_def boot_pq_def)

lemma boot_pqd [simp]: "q_id (pqd (boot_pq h) i) = 0" "q_name (pqd (boot_pq h) i) = ''''"
  by (simp_all add: boot_pq_def)

lemma demo_live: "live_queue demo_pq i \<longleftrightarrow> i = 0"
  by (cases "i = 0") (simp_all add: live_queue_def)

lemma demo_queue: "queue_ok 0 demo_pq []"
  by (rule queue_okI) (auto simp: attrs_ok_def demo_attr_def)

lemma demo_pqs: "pqs_ok demo_pq ((\<lambda>_. None)(1056 \<mapsto> 16, 1088 \<mapsto> 64))"
proof (rule pqs_okI)
  show "heap_ok (pq_heap demo_pq) ((\<lambda>_. None)(1056 \<mapsto> 16, 1088 \<mapsto> 64))" using pq_heap0_allocs by simp
  show "q_id (pqd demo_pq i) = i + 1 \<and> (\<exists>L. queue_ok i demo_pq L)
      \<and> (\<exists>n. ((\<lambda>_. None)(1056 \<mapsto> 16, 1088 \<mapsto> 64)) (base_of demo_pq i) = Some n \<and> span (q_data (pqd demo_pq i)) \<le> n)"
    if "live_queue demo_pq i" for i
    using that demo_queue by (auto simp: demo_live base_of_def span_def stride_def demo_attr_def)
qed (auto simp: demo_live base_of_def split: if_splits)

lemma demo_acc: "acc_id (q_access (tacc demo_pq t) k) = (if t = 0 \<and> k = 0 then 1 else 0)"
  by (cases "t = 0") simp_all

lemma demo_entries: "entries demo_pq i = (if i = 0 then {(0, 0)} else {})"
  by (auto simp: entries_def demo_acc split: if_splits)

lemma demo_opens: "opens_ok demo_pq"
proof (rule opens_okI)
  show "int (card (entries demo_pq i)) \<le> open_count (pqd demo_pq i)" if "live_queue demo_pq i" for i
    using that by (simp add: demo_live demo_entries)
qed (simp_all add: demo_live demo_entries split: if_splits)

lemma demo_pq_inv: "pq_inv demo_pq"
  unfolding pq_inv_def using demo_pqs demo_opens by blast


lemma demo_spec:
  "spec_run 3 [Some (1, [7]), Some (2, [8, 9]), Some (1, []), Some (0, [1]), None, None, None, None] [] =
     ([(1, [], None), (2, [], None), (0, [], None), (- EAGAIN, [], None),
       (2, [8, 9], Some 2), (1, [7], Some 1), (0, [], Some 1), (- EAGAIN, [], None)], [])"
  by code_simp



text \<open>Task 1 opens a second queue.\<close>

theorem mq_open_creates_witness:
  "(\<exists>s' h. mq_open 1 ''r'' O_CREAT 384 (Some demo_attr) demo_pq = Some (- ENOMEM, s') \<and> rt_malloc (queue_size demo_attr) pq_heap0 = Some (0, h))
    \<or> (\<exists>i s' A'. mq_open 1 ''r'' O_CREAT 384 (Some demo_attr) demo_pq = Some (int i + 1, s') \<and> name_to_id ''r'' s' = Some i
         \<and> pqs_ok s' A' \<and> queue_ok i s' [] \<and> open_count (pqd s' i) = 1
         \<and> (\<forall>j L. live_queue demo_pq j \<longrightarrow> queue_ok j demo_pq L \<longrightarrow> j \<noteq> i \<and> queue_ok j s' L))"
  using mq_open_creates [OF demo_pqs, of 1 0 demo_pq "''r''" O_CREAT demo_attr 384]
  by (simp add: access_slot_def name_to_id_def upt_rec creatable_def attrs_ok_def demo_attr_def)

lemma boot_pqs: "pqs_ok (boot_pq pq_heap0) ((\<lambda>_. None)(1056 \<mapsto> 16, 1088 \<mapsto> 64))"
  using pq_heap0_allocs by (simp add: pqs_ok_def live_queue_def) (simp add: boot_pq_def)

lemma boot_malloc: "rt_malloc 16 pq_heap0 \<noteq> Some (0, h)"
proof -
  have w: "malloc_walk 16 1024 pq_heap0 = Some (p, h) \<Longrightarrow> p \<noteq> 0" for p h
    by (subst (asm) malloc_walk.simps)
      (auto simp: pq_heap0_def demo_heap_def alloc_in_chk_def alloc_walk.simps take_block_def Let_def split: if_splits)
  have "round_size 16 = 16" "chk_list pq_heap0 = 1024" "granularity pq_heap0 = 256"
    by (simp_all add: round_size_def pq_heap0_def demo_heap_def)
  then show ?thesis using w by (auto simp: rt_malloc_def split: Option.bind_splits)
qed

lemma boot_open:
  "\<exists>r s. mq_open 1 ''q'' O_CREAT 384 (Some demo_attr) (boot_pq pq_heap0) = Some (r, s)"
proof -
  have "pq_heap (boot_pq pq_heap0) = pq_heap0" by (simp add: boot_pq_def)
  then show ?thesis
    using mq_open_keeps [OF boot_pqs, of "Some demo_attr" 1 "''q''" O_CREAT 384] boot_malloc
    by (simp add: creatable_def attrs_ok_def demo_attr_def) blast
qed


end
