(* ===== verification/Tasklets.thy ===== *)
theory Tasklets
  imports Sched_Tasks
begin

text \<open>
  The tasklets and timers of \<^verbatim>\<open>tasklets/tasklets.c\<close>: two circular lists of one structure, the tasklets in the
  order in which they were inserted and the timers in the order of their firing times, and the
  task that sleeps until the first timer is due and fires the timers that are, in the order of their
  priorities.

  The structures are a function from addresses, the two list heads and the objects of the
  clients, to records; the scheduler's state is the component \<open>ker\<close>, on which its services are run by
  \<open>in_ker\<close>.  \<open>user\<close> are the copies that \<^verbatim>\<open>copy_to_user\<close> leaves in the memory of processes.  A handler is a
  client's function: \<open>H h d\<close> is what the function at address \<open>h\<close> does for the argument \<open>d\<close>.  \<open>None\<close> is a
  NULL dereference or an endless walk.
\<close>

section \<open>Data\<close>

abbreviation RT_LOWEST_PRIORITY :: int where "RT_LOWEST_PRIORITY \<equiv> 0x3fffffff"

text \<open>Pointers: the heads of the two lists, NULL, which is \<open>Obj 0\<close>, and the objects of the clients.\<close>

datatype tknode = TimersList | TaskletsList | Obj nat

abbreviation Null :: tknode where "Null \<equiv> Obj 0"

record tasklet =
  tk_next :: tknode
  tk_prev :: tknode
  tk_priority :: int
  tk_uses_fpu :: int
  tk_firing_time :: rtime
  tk_period :: rtime
  tk_handler :: "nat option"
  tk_data :: nat
  tk_id :: nat
  tk_thread :: int
  tk_task :: "tid option"
  tk_usp :: nat

record tls =
  tk :: "tknode \<Rightarrow> tasklet"
  user :: "nat \<Rightarrow> tasklet"
  manager :: tid
  timers_tol :: int
  ker :: kst

type_synonym 'a tres = "(tls, 'a) sres"

type_synonym handlers = "nat \<Rightarrow> nat \<Rightarrow> tls \<Rightarrow> unit tres"

definition upd_tk :: "tknode \<Rightarrow> (tasklet \<Rightarrow> tasklet) \<Rightarrow> tls \<Rightarrow> tls" where
  "upd_tk t f s = s\<lparr>tk := (tk s)(t := f (tk s t))\<rparr>"

text \<open>A service of the scheduler.\<close>

abbreviation in_ker :: "(kst, 'a) sres \<Rightarrow> tls \<Rightarrow> 'a tres" where
  "in_ker \<equiv> lift_res ker (\<lambda>k s. s\<lparr>ker := k\<rparr>)"

definition set_task_prio :: "tid \<Rightarrow> int \<Rightarrow> tls \<Rightarrow> tls" where
  "set_task_prio t p s = s\<lparr>ker := (ker s)\<lparr>priority := (priority (ker s))(t := p)\<rparr>\<rparr>"

definition copy_to_user :: "tknode \<Rightarrow> tls \<Rightarrow> tls" where
  "copy_to_user t s = s\<lparr>user := (user s)(tk_usp (tk s t) := tk s t)\<rparr>"

section \<open>The lists\<close>

definition link_tk :: "tknode \<Rightarrow> tknode \<Rightarrow> tls \<Rightarrow> tls" where
  "link_tk t pos s =
     (let s1 = upd_tk t (\<lambda>x. x\<lparr>tk_next := pos, tk_prev := tk_prev (tk s pos)\<rparr>) s;
          s2 = upd_tk (tk_prev (tk s1 pos)) (\<lambda>x. x\<lparr>tk_next := t\<rparr>) s1 in
      upd_tk pos (\<lambda>x. x\<lparr>tk_prev := t\<rparr>) s2)"

definition unlink_tk :: "tknode \<Rightarrow> tls \<Rightarrow> tls option" where
  "unlink_tk t s =
     (if tk_next (tk s t) = Null \<or> tk_prev (tk s t) = Null then None
      else
        let s1 = upd_tk (tk_next (tk s t)) (\<lambda>x. x\<lparr>tk_prev := tk_prev (tk s t)\<rparr>) s in
        Some (upd_tk (tk_prev (tk s1 t)) (\<lambda>x. x\<lparr>tk_next := tk_next (tk s1 t)\<rparr>) s1))"

definition detach :: "tknode \<Rightarrow> tls \<Rightarrow> tls option" where
  "detach t s = do { s1 \<leftarrow> unlink_tk t s; Some (upd_tk t (\<lambda>x. x\<lparr>tk_next := t, tk_prev := t\<rparr>) s1) }"

definition tk_linked :: "tknode \<Rightarrow> tls \<Rightarrow> bool" where
  "tk_linked t s \<longleftrightarrow> tk_next (tk s t) \<noteq> t \<and> tk_prev (tk s t) \<noteq> t"

text \<open>\<^verbatim>\<open>while (firing_time >= (tmr = tmr->next)->firing_time);\<close>\<close>

definition timer_pos :: "rtime \<Rightarrow> tls \<Rightarrow> tknode option" where
  "timer_pos time s = seek (\<lambda>x. time \<ge> tk_firing_time (tk s x)) (tk_next \<circ> tk s) (tk_next (tk s TimersList))"

text \<open>The task that executes a tasklet for a process takes the priority, and the process a copy.\<close>

definition announce :: "tknode \<Rightarrow> int \<Rightarrow> int \<Rightarrow> tls \<Rightarrow> tls option" where
  "announce t prio pid s =
     (if pid = 0 then Some (upd_tk t (\<lambda>x. x\<lparr>tk_task := None\<rparr>) s)
      else do { u \<leftarrow> tk_task (tk s t); Some (copy_to_user t (set_task_prio u prio s)) })"

section \<open>Tasklets\<close>

definition rt_insert_tasklet ::
    "tknode \<Rightarrow> int \<Rightarrow> nat option \<Rightarrow> nat \<Rightarrow> nat \<Rightarrow> int \<Rightarrow> tls \<Rightarrow> (int \<times> tls) option" where
  "rt_insert_tasklet t prio h data i pid s =
     (if h = None \<or> i = 0 then Some (- EINVAL, s)
      else do {
        s1 \<leftarrow> announce t prio pid
               (upd_tk t (\<lambda>x. x\<lparr>tk_uses_fpu := 0, tk_priority := prio, tk_handler := h, tk_data := data, tk_id := i\<rparr>) s);
        Some (0, link_tk t TaskletsList s1)
      })"

definition rt_remove_tasklet :: "tknode \<Rightarrow> tls \<Rightarrow> tls option" where
  "rt_remove_tasklet t s = (if tk_linked t s then detach t s else Some s)"

definition rt_find_tasklet_by_id :: "nat \<Rightarrow> tls \<Rightarrow> tknode option option" where
  "rt_find_tasklet_by_id i s = do {
     t \<leftarrow> seek (\<lambda>x. x \<noteq> TaskletsList \<and> i \<noteq> tk_id (tk s x)) (tk_next \<circ> tk s) (tk_next (tk s TaskletsList));
     Some (if t = TaskletsList then None else Some t)
   }"

definition call_tasklet :: "handlers \<Rightarrow> tknode \<Rightarrow> tls \<Rightarrow> unit tres" where
  "call_tasklet H t s = lift_opt (tk_handler (tk s t)) (\<lambda>h. H h (tk_data (tk s t)) s)"

text \<open>A tasklet of the kernel is a call of its handler, one of a process resumes the task.\<close>

definition run_tasklet :: "handlers \<Rightarrow> nat \<Rightarrow> tknode \<Rightarrow> tls \<Rightarrow> unit tres" where
  "run_tasklet H n t s =
     (case tk_task (tk s t) of
        None \<Rightarrow> call_tasklet H t s
      | Some u \<Rightarrow> res_bind (in_ker (rt_task_resume n u (ker s)) s) (\<lambda>_. Ret ()))"

definition rt_exec_tasklet :: "handlers \<Rightarrow> nat \<Rightarrow> tknode option \<Rightarrow> tls \<Rightarrow> int tres" where
  "rt_exec_tasklet H n t s =
     (case t of
        None \<Rightarrow> Ret (- EINVAL) s
      | Some t \<Rightarrow> if tk_linked t s then res_bind (run_tasklet H n t s) (\<lambda>_. Ret 0) else Ret (- EINVAL) s)"

definition rt_set_tasklet_priority :: "tknode \<Rightarrow> int \<Rightarrow> tls \<Rightarrow> tls" where
  "rt_set_tasklet_priority t prio s =
     (let s1 = upd_tk t (\<lambda>x. x\<lparr>tk_priority := prio\<rparr>) s in
      case tk_task (tk s1 t) of None \<Rightarrow> s1 | Some u \<Rightarrow> set_task_prio u prio s1)"

definition rt_set_tasklet_handler :: "tknode \<Rightarrow> nat option \<Rightarrow> tls \<Rightarrow> int \<times> tls" where
  "rt_set_tasklet_handler t h s =
     (if h = None then (- EINVAL, s)
      else
        let s1 = upd_tk t (\<lambda>x. x\<lparr>tk_handler := h\<rparr>) s in
        (0, if tk_task (tk s1 t) \<noteq> None then copy_to_user t s1 else s1))"

definition rt_set_tasklet_data :: "tknode \<Rightarrow> nat \<Rightarrow> tls \<Rightarrow> tls" where
  "rt_set_tasklet_data t d s =
     (let s1 = upd_tk t (\<lambda>x. x\<lparr>tk_data := d\<rparr>) s in
      if tk_task (tk s1 t) \<noteq> None then copy_to_user t s1 else s1)"

definition rt_tasklet_use_fpu :: "tknode \<Rightarrow> bool \<Rightarrow> tls \<Rightarrow> tid option \<times> tls" where
  "rt_tasklet_use_fpu t use s =
     (let s1 = upd_tk t (\<lambda>x. x\<lparr>tk_uses_fpu := (if use then 1 else 0)\<rparr>) s in (tk_task (tk s1 t), s1))"

section \<open>Timers\<close>

text \<open>The smallest priority of the timers, from the first one on.\<close>

partial_function (option) min_prio_loop :: "tls \<Rightarrow> tknode \<Rightarrow> int \<Rightarrow> int option" where
  "min_prio_loop s timer prio =
     (let t = tk_next (tk s timer) in
      if t = TimersList then Some prio
      else min_prio_loop s t (if tk_priority (tk s t) < prio then tk_priority (tk s t) else prio))"

declare min_prio_loop.simps [code]

definition asgn_min_prio :: "tls \<Rightarrow> tls option" where
  "asgn_min_prio s = (let first = tk_next (tk s TimersList); m = manager s in do {
     prio \<leftarrow> min_prio_loop s first (tk_priority (tk s first));
     if priority (ker s) m > prio then
       let s1 = set_task_prio m prio s in
       if state (ker s1) m = READY \<or> state (ker s1) m = READY OR RUNNING
       then do { k1 \<leftarrow> rem_ready_task m (ker s1); k2 \<leftarrow> enq_ready_task m k1; Some (s1\<lparr>ker := k2\<rparr>) }
       else Some s1
     else Some s
   })"

definition set_timer_firing_time :: "tknode \<Rightarrow> rtime \<Rightarrow> tls \<Rightarrow> tls option" where
  "set_timer_firing_time t time s =
     (if tk_linked t s then do {
        s1 \<leftarrow> unlink_tk t (upd_tk t (\<lambda>x. x\<lparr>tk_firing_time := time\<rparr>) s);
        pos \<leftarrow> timer_pos time s1;
        Some (link_tk t pos s1)
      }
      else Some s)"

text \<open>A timer that has become the first one brings the wake up of the manager forward.\<close>

definition wake_manager :: "nat \<Rightarrow> tknode \<Rightarrow> rtime \<Rightarrow> tls \<Rightarrow> unit tres" where
  "wake_manager n t time s =
     (let m = manager s; k = ker s in
      if tk_next (tk s TimersList) = t \<and> state k m AND DELAYED \<noteq> 0 \<and> time < resume_time k m
      then lift_opt (enq_timed_task m (rem_timed_task m (k\<lparr>resume_time := (resume_time k)(m := time)\<rparr>)))
             (\<lambda>k1. in_ker (rt_schedule n k1) s)
      else Ret () s)"

definition inherit_timer_prio :: "tknode \<Rightarrow> tls \<Rightarrow> tls" where
  "inherit_timer_prio t s =
     (if tk_priority (tk s t) < priority (ker s) (manager s)
      then set_task_prio (manager s) (tk_priority (tk s t)) s else s)"

definition rt_insert_timer ::
    "nat \<Rightarrow> tknode \<Rightarrow> int \<Rightarrow> rtime \<Rightarrow> rtime \<Rightarrow> nat option \<Rightarrow> nat \<Rightarrow> int \<Rightarrow> tls \<Rightarrow> int tres" where
  "rt_insert_timer n t prio time per h data pid s =
     (if h = None then Ret (- EINVAL) s
      else
        lift_opt (do {
          s1 \<leftarrow> announce t prio pid
                 (upd_tk t (\<lambda>x. x\<lparr>tk_uses_fpu := 0, tk_priority := prio, tk_firing_time := time, tk_period := per,
                    tk_handler := h, tk_data := data\<rparr>) s);
          pos \<leftarrow> timer_pos time s1;
          Some (inherit_timer_prio t (link_tk t pos s1))
        }) (\<lambda>s2. res_bind (wake_manager n t time s2) (\<lambda>_. Ret 0)))"

definition rt_remove_timer :: "tknode \<Rightarrow> tls \<Rightarrow> tls option" where
  "rt_remove_timer t s = (if tk_linked t s then do { s1 \<leftarrow> detach t s; asgn_min_prio s1 } else Some s)"

definition rt_set_timer_priority :: "tknode \<Rightarrow> int \<Rightarrow> tls \<Rightarrow> tls option" where
  "rt_set_timer_priority t prio s = asgn_min_prio (rt_set_tasklet_priority t prio s)"

definition rt_set_timer_firing_time :: "nat \<Rightarrow> tknode \<Rightarrow> rtime \<Rightarrow> tls \<Rightarrow> unit tres" where
  "rt_set_timer_firing_time n t time s = lift_opt (set_timer_firing_time t time s) (wake_manager n t time)"

definition rt_set_timer_period :: "tknode \<Rightarrow> rtime \<Rightarrow> tls \<Rightarrow> tls" where
  "rt_set_timer_period t per s = upd_tk t (\<lambda>x. x\<lparr>tk_period := per\<rparr>) s"

section \<open>The manager of the timers\<close>

text \<open>The due timer of the smallest priority, the first one of those; the head of the list when there is none.\<close>

partial_function (option) due_loop :: "tls \<Rightarrow> rtime \<Rightarrow> tknode \<Rightarrow> tknode \<Rightarrow> int \<Rightarrow> (tknode \<times> int) option" where
  "due_loop s now tmr timer prio =
     (let t = tk_next (tk s tmr) in
      if tk_firing_time (tk s t) \<le> now
      then (if tk_priority (tk s t) < prio then due_loop s now t t (tk_priority (tk s t))
            else due_loop s now t timer prio)
      else Some (timer, prio))"

declare due_loop.simps [code]

definition rearm :: "tknode \<Rightarrow> tls \<Rightarrow> tls option" where
  "rearm t s =
     (if tk_period (tk s t) = 0 then detach t s
      else set_timer_firing_time t (tk_firing_time (tk s t) + tk_period (tk s t)) s)"

text \<open>The inner loop: \<open>k\<close> is one more than the number of timers it can fire.\<close>

primrec fire_loop :: "nat \<Rightarrow> handlers \<Rightarrow> nat \<Rightarrow> rtime \<Rightarrow> tls \<Rightarrow> unit tres" where
  "fire_loop 0 H n now s = Stuck"
| "fire_loop (Suc k) H n now s =
     lift_opt (due_loop s now TimersList TimersList RT_LOWEST_PRIORITY) (\<lambda>(t, prio).
       let s1 = set_task_prio (manager s) prio s in
       if t = TimersList then Ret () s1
       else lift_opt (rearm t s1) (\<lambda>s2. res_bind (run_tasklet H n t s2) (\<lambda>_. fire_loop k H n now)))"

text \<open>One round of \<^verbatim>\<open>rt_timers_manager\<close>, which repeats for ever.\<close>

definition timers_round :: "nat \<Rightarrow> handlers \<Rightarrow> nat \<Rightarrow> tls \<Rightarrow> unit tres" where
  "timers_round k H n s =
     res_bind (in_ker (rt_sleep_until n (tk_firing_time (tk s (tk_next (tk s TimersList)))) (ker s)) s) (\<lambda>_ s1.
       res_bind (fire_loop k H n (resume_time (ker s1) (manager s1) + timers_tol s1) s1) (\<lambda>_ s2.
         lift_opt (asgn_min_prio s2) (Ret ())))"

primrec rt_timers_manager :: "nat \<Rightarrow> nat \<Rightarrow> handlers \<Rightarrow> nat \<Rightarrow> tls \<Rightarrow> unit tres" where
  "rt_timers_manager 0 k H n s = Ret () s"
| "rt_timers_manager (Suc r) k H n s = res_bind (timers_round k H n s) (\<lambda>_. rt_timers_manager r k H n)"

section \<open>Tasklets of processes\<close>

definition zero_tasklet :: tasklet where
  "zero_tasklet = \<lparr>tk_next = Null, tk_prev = Null, tk_priority = 0, tk_uses_fpu = 0, tk_firing_time = 0, tk_period = 0,
     tk_handler = None, tk_data = 0, tk_id = 0, tk_thread = 0, tk_task = None, tk_usp = 0\<rparr>"

text \<open>\<open>a\<close> is what \<^verbatim>\<open>sched_malloc\<close> returns; NULL, address 0, is cleared as well.\<close>

definition rt_init_tasklet :: "nat \<Rightarrow> tls \<Rightarrow> (tknode \<times> tls) option" where
  "rt_init_tasklet a s = (if a = 0 then None else Some (Obj a, upd_tk (Obj a) (\<lambda>_. zero_tasklet) s))"

definition rt_register_task :: "tknode \<Rightarrow> nat \<Rightarrow> tid \<Rightarrow> tls \<Rightarrow> tls" where
  "rt_register_task t usp u s = copy_to_user t (upd_tk t (\<lambda>x. x\<lparr>tk_task := Some u, tk_usp := usp\<rparr>) s)"

text \<open>A process that sleeps two ticks at a time until \<open>c\<close> no longer holds, at most \<open>k\<close> times.\<close>

primrec poll_while :: "nat \<Rightarrow> (tls \<Rightarrow> bool option) \<Rightarrow> tls \<Rightarrow> unit tres" where
  "poll_while 0 c s = Stuck"
| "poll_while (Suc k) c s = lift_opt (c s) (\<lambda>b. if b then Switch s (poll_while k c) else Ret () s)"

definition rt_wait_tasklet_is_hard :: "nat \<Rightarrow> tknode \<Rightarrow> int \<Rightarrow> tls \<Rightarrow> unit tres" where
  "rt_wait_tasklet_is_hard k t thread s =
     poll_while k (\<lambda>s. Some (case tk_task (tk s t) of None \<Rightarrow> True | Some u \<Rightarrow> state (ker s) u AND SUSPENDED = 0))
       (upd_tk t (\<lambda>x. x\<lparr>tk_thread := thread\<rparr>) s)"

text \<open>\<open>alive\<close> is \<^verbatim>\<open>find_task_by_pid\<close> of Linux and \<open>pid_of\<close> the field of its process structure.\<close>

definition rt_delete_tasklet ::
    "nat \<Rightarrow> nat \<Rightarrow> (ltid \<Rightarrow> nat) \<Rightarrow> (nat \<Rightarrow> tls \<Rightarrow> bool) \<Rightarrow> tknode \<Rightarrow> tls \<Rightarrow> int tres" where
  "rt_delete_tasklet k n pid_of alive t s =
     lift_opt (do {
        s1 \<leftarrow> rt_remove_tasklet t s;
        u \<leftarrow> tk_task (tk s1 t);
        l \<leftarrow> lnxtsk (ker s1) u;
        Some (u, pid_of l, copy_to_user t (upd_tk t (\<lambda>x. x\<lparr>tk_handler := None\<rparr>) s1))
      }) (\<lambda>(u, pid, s2).
        res_bind (in_ker (rt_task_resume n u (ker s2)) s2) (\<lambda>_ s3.
          res_bind (poll_while k (\<lambda>s. Some (alive pid s)) s3) (\<lambda>_ s4. Ret (tk_thread (tk s4 t)) s4)))"

text \<open>The heads as they are initialised.\<close>

definition timers_init :: "tknode \<Rightarrow> tasklet" where
  "timers_init h = zero_tasklet\<lparr>tk_next := h, tk_prev := h, tk_priority := (if h = TimersList then RT_LOWEST_PRIORITY else 0),
     tk_firing_time := (if h = TimersList then RT_TIME_END else 0)\<rparr>"

end
