(* ===== verification/Tasklet_Props.thy ===== *)
theory Tasklet_Props
  imports Tasklets Sched_Blocked
begin

text \<open>
  The list of the timers as a HOL list in the order of the firing times, and what the services do to it.
\<close>

section \<open>The list of the timers\<close>

abbreviation tnx :: "tls \<Rightarrow> tknode \<Rightarrow> tknode" where "tnx s \<equiv> tk_next \<circ> tk s"
abbreviation tpv :: "tls \<Rightarrow> tknode \<Rightarrow> tknode" where "tpv s \<equiv> tk_prev \<circ> tk s"
abbreviation firing :: "tls \<Rightarrow> tknode \<Rightarrow> rtime" where "firing s t \<equiv> tk_firing_time (tk s t)"

definition timers_ok :: "tls \<Rightarrow> tknode list \<Rightarrow> bool" where
  "timers_ok s xs \<longleftrightarrow> ring (tnx s) (tpv s) TimersList xs \<and> sorted_wrt (\<lambda>x y. firing s x \<le> firing s y) xs
     \<and> (\<forall>x \<in> set xs. firing s x < RT_TIME_END) \<and> firing s TimersList = RT_TIME_END \<and> Null \<notin> set xs"

lemma timers_okD:
  assumes "timers_ok s xs"
  shows "ring (tnx s) (tpv s) TimersList xs" "sorted_wrt (\<lambda>x y. firing s x \<le> firing s y) xs"
    "x \<in> set xs \<Longrightarrow> firing s x < RT_TIME_END" "firing s TimersList = RT_TIME_END" "Null \<notin> set xs"
    "distinct xs" "TimersList \<notin> set xs"
  using assms ring_distinct [of "tnx s" "tpv s" TimersList xs] by (auto simp: timers_ok_def)

text \<open>What a structure holds beside its links.\<close>

definition payload :: "tasklet \<Rightarrow> tasklet" where
  "payload x = x\<lparr>tk_next := Null, tk_prev := Null\<rparr>"

lemma payload_upd [simp]: "payload (x\<lparr>tk_next := a\<rparr>) = payload x" "payload (x\<lparr>tk_prev := a\<rparr>) = payload x"
  by (simp_all add: payload_def)

lemma payloadD:
  assumes "payload x = payload y"
  shows "tk_priority x = tk_priority y" "tk_firing_time x = tk_firing_time y" "tk_period x = tk_period y"
    "tk_handler x = tk_handler y" "tk_data x = tk_data y" "tk_task x = tk_task y" "tk_id x = tk_id y" "tk_uses_fpu x = tk_uses_fpu y"
    "tk_thread x = tk_thread y" "tk_usp x = tk_usp y"
  using assms by (cases x; cases y; simp add: payload_def)+

text \<open>Only structures have changed, and of them only the links.\<close>

definition links_only :: "tls \<Rightarrow> tls \<Rightarrow> bool" where
  "links_only s s' \<longleftrightarrow> s' = s\<lparr>tk := tk s'\<rparr> \<and> (\<forall>x. payload (tk s' x) = payload (tk s x))"

lemma links_onlyD:
  assumes "links_only s s'"
  shows "user s' = user s" "manager s' = manager s" "timers_tol s' = timers_tol s" "ker s' = ker s"
    "payload (tk s' x) = payload (tk s x)"
proof -
  have s': "s' = s\<lparr>tk := tk s'\<rparr>" using assms unfolding links_only_def by (rule conjunct1)
  show "user s' = user s" "manager s' = manager s" "timers_tol s' = timers_tol s" "ker s' = ker s" by (subst s', simp)+
  show "payload (tk s' x) = payload (tk s x)" using assms unfolding links_only_def by blast
qed

lemma links_only_refl [simp]: "links_only s s"
  by (simp add: links_only_def)

lemma links_only_trans: "links_only s s' \<Longrightarrow> links_only s' s'' \<Longrightarrow> links_only s s''"
  by (cases s; cases s'; cases s'') (simp add: links_only_def)

lemma links_only_upd: "(\<And>x. payload (f x) = payload x) \<Longrightarrow> links_only s (upd_tk t f s)"
  by (simp add: links_only_def upd_tk_def)

lemma link_tk_eq:
  assumes "t \<noteq> pos" and "tpv s pos \<noteq> t"
  shows "tnx (link_tk t pos s) = link_nx (tnx s) (tpv s) t pos" "tpv (link_tk t pos s) = link_pv (tpv s) t pos"
    "links_only s (link_tk t pos s)"
proof -
  show "tnx (link_tk t pos s) = link_nx (tnx s) (tpv s) t pos" "tpv (link_tk t pos s) = link_pv (tpv s) t pos"
    using assms by (auto simp: fun_eq_iff link_tk_def Let_def upd_tk_def link_nx_def link_pv_def)
  show "links_only s (link_tk t pos s)"
    unfolding link_tk_def Let_def by (intro links_only_trans [OF _ links_only_upd] links_only_upd) simp_all
qed

lemma unlink_tk_eq:
  assumes "tnx s t \<noteq> t" "tpv s t \<noteq> t" "tnx s t \<noteq> Null" "tpv s t \<noteq> Null"
  shows "\<exists>s'. unlink_tk t s = Some s' \<and> tnx s' = unlink_nx (tnx s) (tpv s) t \<and> tpv s' = unlink_pv (tnx s) (tpv s) t
    \<and> links_only s s'"
proof -
  let ?s1 = "upd_tk (tk_next (tk s t)) (\<lambda>x. x\<lparr>tk_prev := tk_prev (tk s t)\<rparr>) s"
  let ?s2 = "upd_tk (tk_prev (tk ?s1 t)) (\<lambda>x. x\<lparr>tk_next := tk_next (tk ?s1 t)\<rparr>) ?s1"
  have "unlink_tk t s = Some ?s2" using assms by (simp add: unlink_tk_def Let_def)
  moreover have "tnx ?s2 = unlink_nx (tnx s) (tpv s) t" "tpv ?s2 = unlink_pv (tnx s) (tpv s) t"
    using assms by (auto simp: fun_eq_iff upd_tk_def unlink_nx_def unlink_pv_def)
  moreover have "links_only s ?s2" by (intro links_only_trans [OF links_only_upd links_only_upd]) simp_all
  ultimately show ?thesis by blast
qed

text \<open>The order survives as long as the links are those of the ring and the firing times are the same.\<close>

lemma timers_okI:
  assumes "ring (tnx s) (tpv s) TimersList xs" "sorted_wrt (\<lambda>x y. firing s x \<le> firing s y) xs"
    "\<And>x. x \<in> set xs \<Longrightarrow> firing s x < RT_TIME_END" "firing s TimersList = RT_TIME_END" "Null \<notin> set xs"
  shows "timers_ok s xs"
  using assms by (simp add: timers_ok_def)

lemma timers_neighbours:
  assumes ok: "timers_ok s xs" and t: "t \<in> set xs"
  shows "tk_linked t s" "tnx s t \<noteq> Null" "tpv s t \<noteq> Null"
proof -
  note r = timers_okD(1) [OF ok]
  obtain as bs where xs: "xs = as @ t # bs" using t by (meson split_list)
  have l: "links (tnx s) (tpv s) TimersList as t" "links (tnx s) (tpv s) t bs TimersList" "distinct (TimersList # as @ t # bs)"
    using r by (auto simp: xs ring_def links_append)
  have n: "tnx s t = hd (bs @ [TimersList])" "tpv s t = last (TimersList # as)" using l links_first links_last by fast+
  then show "tk_linked t s" using l(3) by (cases bs; cases as rule: rev_cases) (auto simp: tk_linked_def)
  show "tnx s t \<noteq> Null" "tpv s t \<noteq> Null"
    using ring_neighbours [OF r, of t] t timers_okD(5) [OF ok] by auto
qed

lemma unlink_timer_ok:
  assumes ok: "timers_ok s xs" and t: "t \<in> set xs"
  shows "\<exists>s'. unlink_tk t s = Some s' \<and> timers_ok s' (remove1 t xs) \<and> links_only s s'"
proof -
  note nb = timers_neighbours [OF ok t]
  obtain s' where s': "unlink_tk t s = Some s'" "tnx s' = unlink_nx (tnx s) (tpv s) t" "tpv s' = unlink_pv (tnx s) (tpv s) t"
    "links_only s s'" using unlink_tk_eq [of s t] nb by (auto simp: tk_linked_def)
  have f: "firing s' x = firing s x" for x by (rule payloadD(2) [OF links_onlyD(5) [OF s'(4)]])
  have "timers_ok s' (remove1 t xs)"
  proof (rule timers_okI, unfold f)
    show "ring (tnx s') (tpv s') TimersList (remove1 t xs)"
      unfolding s'(2,3) by (rule ring_unlink_remove1 [OF timers_okD(1) [OF ok] t])
    show "sorted_wrt (\<lambda>x y. firing s x \<le> firing s y) (remove1 t xs)" by (rule sorted_wrt_remove1 [OF timers_okD(2) [OF ok]])
  qed (use timers_okD [OF ok] in \<open>auto dest: notin_set_remove1\<close>)
  then show ?thesis using s' by blast
qed


text \<open>The place of a firing time: past the timers that fire no later.\<close>

abbreviation timer_insert :: "tls \<Rightarrow> rtime \<Rightarrow> tknode \<Rightarrow> tknode list \<Rightarrow> tknode list" where
  "timer_insert s time t \<equiv> insert_after_while (\<lambda>x. firing s x \<le> time) t"

lemma timer_pos_eq:
  assumes ok: "timers_ok s xs" and e: "time < RT_TIME_END"
  shows "timer_pos time s = Some (hd (dropWhile (\<lambda>x. firing s x \<le> time) xs @ [TimersList]))"
  unfolding timer_pos_def using seek_ring [OF timers_okD(1) [OF ok], of "\<lambda>x. time \<ge> firing s x"] timers_okD(4) [OF ok] e
  by simp

text \<open>The walk does not end when no firing time on the list is later, the head included.\<close>

lemma seek_Some:
  assumes "seek p nx a = Some b"
  shows "\<not> p b \<and> (\<forall>S. a \<in> S \<longrightarrow> (\<forall>x \<in> S. nx x \<in> S) \<longrightarrow> b \<in> S)"
  by (rule seek.raw_induct [where P = "\<lambda>p nx a b. \<not> p b \<and> (\<forall>S. a \<in> S \<longrightarrow> (\<forall>x \<in> S. nx x \<in> S) \<longrightarrow> b \<in> S)", OF _ assms])
    (auto split: if_splits)

lemma timer_pos_endless:
  assumes ok: "timers_ok s xs" and e: "RT_TIME_END \<le> time"
  shows "timer_pos time s = None"
proof (rule ccontr)
  assume "timer_pos time s \<noteq> None"
  then obtain p where "seek (\<lambda>x. time \<ge> firing s x) (tnx s) (tnx s TimersList) = Some p" by (auto simp: timer_pos_def)
  from seek_Some [OF this] have "\<not> firing s p \<le> time"
    and c: "\<And>S. tnx s TimersList \<in> S \<Longrightarrow> \<forall>x \<in> S. tnx s x \<in> S \<Longrightarrow> p \<in> S" by blast+
  have "p \<in> set (TimersList # xs)" by (rule c) (use ring_neighbours(1) [OF timers_okD(1) [OF ok]] in auto)
  then show False using \<open>\<not> firing s p \<le> time\<close> timers_okD(3,4) [OF ok] e by force
qed

lemma sorted_timer_insert:
  assumes s: "sorted_wrt (\<lambda>x y. f x \<le> f y) xs" and same: "\<And>x. x \<in> set xs \<Longrightarrow> f' x = (f x :: int)"
  shows "sorted_wrt (\<lambda>x y. f' x \<le> f' y) (insert_after_while (\<lambda>x. f x \<le> f' t) t xs)"
proof -
  have "sorted_wrt (\<lambda>x y. f' x \<le> f' y) xs" using s by (rule sorted_wrt_mono_rel [rotated]) (simp add: same)
  from past_equal.insert_keeps_order [OF this, of t]
  have "sorted_wrt (\<lambda>x y. f' x \<le> f' y) (insert_after_while (\<lambda>x. f' x \<le> f' t) t xs)" .
  moreover have "insert_after_while (\<lambda>x. f' x \<le> f' t) t xs = insert_after_while (\<lambda>x. f x \<le> f' t) t xs"
    by (rule insert_after_while_cong) (simp add: same)
  ultimately show ?thesis by simp
qed

lemma link_timer_ok:
  assumes ok: "timers_ok s xs" and t: "t \<notin> set xs" "t \<noteq> TimersList" "t \<noteq> Null" and e: "firing s t < RT_TIME_END"
  shows "\<exists>pos s'. timer_pos (firing s t) s = Some pos \<and> s' = link_tk t pos s
    \<and> timers_ok s' (timer_insert s (firing s t) t xs) \<and> links_only s s'"
proof -
  let ?pos = "hd (dropWhile (\<lambda>x. firing s x \<le> firing s t) xs @ [TimersList])"
  have pos: "?pos \<in> set (TimersList # xs)"
    using hd_in_set [of "dropWhile (\<lambda>x. firing s x \<le> firing s t) xs @ [TimersList]"] set_dropWhileD by fastforce
  have "tpv s ?pos \<in> set (TimersList # xs)" using ring_neighbours(2) [OF timers_okD(1) [OF ok] pos] .
  then have "t \<noteq> ?pos" "tpv s ?pos \<noteq> t" using pos t by auto
  note l = link_tk_eq [OF this]
  have f: "firing (link_tk t ?pos s) x = firing s x" for x by (rule payloadD(2) [OF links_onlyD(5) [OF l(3)]])
  have "timers_ok (link_tk t ?pos s) (timer_insert s (firing s t) t xs)"
  proof (rule timers_okI, unfold f)
    show "ring (tnx (link_tk t ?pos s)) (tpv (link_tk t ?pos s)) TimersList (timer_insert s (firing s t) t xs)"
      unfolding l(1,2) by (rule ring_insert_after_while [OF timers_okD(1) [OF ok]]) (use t in auto)
    show "sorted_wrt (\<lambda>x y. firing s x \<le> firing s y) (timer_insert s (firing s t) t xs)"
      by (rule sorted_timer_insert [OF timers_okD(2) [OF ok] refl])
  qed (use timers_okD [OF ok] t e in auto)
  then show ?thesis using timer_pos_eq [OF ok e] l(3) by blast
qed

text \<open>A structure gets new contents.\<close>

lemma timers_ok_upd:
  assumes ok: "timers_ok s xs" and f: "\<And>x. tk_next (f x) = tk_next x \<and> tk_prev (f x) = tk_prev x"
    and t: "t \<notin> set xs" "t \<noteq> TimersList"
  shows "timers_ok (upd_tk t f s) xs"
proof -
  have "tnx (upd_tk t f s) = tnx s" "tpv (upd_tk t f s) = tpv s" using f by (simp_all add: fun_eq_iff upd_tk_def)
  moreover have "firing (upd_tk t f s) x = firing s x" if "x \<noteq> t" for x using that by (simp add: upd_tk_def)
  moreover have "sorted_wrt (\<lambda>x y. firing (upd_tk t f s) x \<le> firing (upd_tk t f s) y) xs"
    using timers_okD(2) [OF ok] by (rule sorted_wrt_mono_rel [rotated]) (use t in \<open>auto simp: upd_tk_def\<close>)
  ultimately show ?thesis using timers_okD [OF ok] t by (intro timers_okI) (auto simp: upd_tk_def)
qed

lemma set_timer_firing_time_ok:
  assumes ok: "timers_ok s xs" and t: "t \<in> set xs" and e: "time < RT_TIME_END"
  shows "\<exists>s'. set_timer_firing_time t time s = Some s' \<and> timers_ok s' (timer_insert s time t (remove1 t xs))
    \<and> links_only (upd_tk t (\<lambda>x. x\<lparr>tk_firing_time := time\<rparr>) s) s'"
proof -
  let ?s0 = "upd_tk t (\<lambda>x. x\<lparr>tk_firing_time := time\<rparr>) s"
  note nb = timers_neighbours [OF ok t]
  have l0: "tnx ?s0 = tnx s" "tpv ?s0 = tpv s" by (simp_all add: fun_eq_iff upd_tk_def)
  obtain s1 where s1: "unlink_tk t ?s0 = Some s1" "tnx s1 = unlink_nx (tnx s) (tpv s) t" "tpv s1 = unlink_pv (tnx s) (tpv s) t"
    "links_only ?s0 s1" using unlink_tk_eq [of ?s0 t] nb unfolding l0 by (auto simp: tk_linked_def)
  have f0: "firing s1 x = firing ?s0 x" for x by (rule payloadD(2) [OF links_onlyD(5) [OF s1(4)]])
  have f1: "firing s1 x = (if x = t then time else firing s x)" for x unfolding f0 by (simp add: upd_tk_def)
  have t1: "t \<notin> set (remove1 t xs)" using timers_okD(6) [OF ok] by simp
  have ok1: "timers_ok s1 (remove1 t xs)"
  proof (rule timers_okI)
    show "ring (tnx s1) (tpv s1) TimersList (remove1 t xs)"
      unfolding s1(2,3) by (rule ring_unlink_remove1 [OF timers_okD(1) [OF ok] t])
    show "sorted_wrt (\<lambda>x y. firing s1 x \<le> firing s1 y) (remove1 t xs)"
      by (rule sorted_wrt_mono_rel [rotated, OF sorted_wrt_remove1 [OF timers_okD(2) [OF ok]]]) (use t1 in \<open>auto simp: f1\<close>)
    show "firing s1 x < RT_TIME_END" if "x \<in> set (remove1 t xs)" for x
      using timers_okD(3) [OF ok, of x] set_remove1_subset [of t xs] that e unfolding f1 by auto
  qed (use timers_okD [OF ok] t in \<open>auto simp: f1 dest: notin_set_remove1\<close>)
  have "t \<noteq> TimersList" "t \<noteq> Null" "firing s1 t < RT_TIME_END" using t timers_okD(5,7) [OF ok] e by (auto simp: f1)
  from link_timer_ok [OF ok1 t1 this] obtain pos s' where s': "timer_pos time s1 = Some pos" "s' = link_tk t pos s1"
    "timers_ok s' (timer_insert s1 time t (remove1 t xs))" "links_only s1 s'" by (auto simp: f1)
  have "timer_insert s1 time t (remove1 t xs) = timer_insert s time t (remove1 t xs)"
    by (rule insert_after_while_cong) (use t1 in \<open>auto simp: f1\<close>)
  moreover have "set_timer_firing_time t time s = Some s'" using nb(1) s1(1) s'(1,2) by (simp add: set_timer_firing_time_def)
  ultimately show ?thesis using s'(3) links_only_trans [OF s1(4) s'(4)] by auto
qed

text \<open>Taking a timer out for good.\<close>

lemma detach_ok:
  assumes ok: "timers_ok s xs" and t: "t \<in> set xs"
  shows "\<exists>s'. detach t s = Some s' \<and> timers_ok s' (remove1 t xs) \<and> links_only s s' \<and> \<not> tk_linked t s'"
proof -
  obtain s1 where s1: "unlink_tk t s = Some s1" "timers_ok s1 (remove1 t xs)" "links_only s s1"
    using unlink_timer_ok [OF ok t] by blast
  let ?s2 = "upd_tk t (\<lambda>x. x\<lparr>tk_next := t, tk_prev := t\<rparr>) s1"
  have t1: "t \<notin> set (remove1 t xs)" "t \<noteq> TimersList" using timers_okD(6,7) [OF ok] t by auto
  have "ring (tnx ?s2) (tpv ?s2) TimersList (remove1 t xs)"
  proof -
    have "tnx ?s2 = (tnx s1)(t := t)" "tpv ?s2 = (tpv s1)(t := t)" by (simp_all add: fun_eq_iff upd_tk_def)
    moreover have "links (tnx s1) (tpv s1) TimersList (remove1 t xs) TimersList" "distinct (TimersList # remove1 t xs)"
      using timers_okD(1) [OF s1(2)] by (simp_all only: ring_def)
    ultimately show ?thesis using t1 by (simp add: ring_def)
  qed
  moreover have l: "links_only s ?s2"
    by (rule links_only_trans [OF s1(3) links_only_upd]) (simp add: payload_def)
  have f: "firing ?s2 x = firing s1 x" for x by (simp add: upd_tk_def)
  ultimately have "timers_ok ?s2 (remove1 t xs)"
    using timers_okD [OF s1(2)] by (intro timers_okI, unfold f) auto
  then show ?thesis using s1(1) l by (auto simp: detach_def tk_linked_def upd_tk_def)
qed

end
