(* ===== verification/Tasklet_Rounds.thy ===== *)
theory Tasklet_Rounds
  imports Tasklet_Props
begin

text \<open>
  A round of the manager of the timers against an abstract one, on the list of the timers and their
  firing times.
\<close>

section \<open>The abstract round\<close>

text \<open>Of the due timers the first of the smallest priority value below the lowest priority.\<close>

primrec best :: "('a \<Rightarrow> int) \<Rightarrow> 'a list \<Rightarrow> 'a \<times> int \<Rightarrow> 'a \<times> int" where
  "best pr [] b = b"
| "best pr (x # xs) b = best pr xs (if pr x < snd b then (x, pr x) else b)"

lemma best_cases:
  "best pr xs b = b \<and> (\<forall>x \<in> set xs. snd b \<le> pr x)
   \<or> (\<exists>as t bs. xs = as @ t # bs \<and> best pr xs b = (t, pr t) \<and> pr t < snd b
        \<and> (\<forall>x \<in> set as. pr t < pr x) \<and> (\<forall>x \<in> set bs. pr t \<le> pr x))"
proof (induction xs arbitrary: b)
  case (Cons y ys)
  show ?case
  proof (cases "pr y < snd b")
    case False
    show ?thesis using Cons.IH [of b]
    proof (elim disjE exE conjE)
      fix as t bs assume "ys = as @ t # bs" "best pr ys b = (t, pr t)" "pr t < snd b"
        "\<forall>x \<in> set as. pr t < pr x" "\<forall>x \<in> set bs. pr t \<le> pr x"
      then show ?thesis using False by (intro disjI2 exI [of _ "y # as"] exI [of _ t] exI [of _ bs]) auto
    qed (use False in auto)
  next
    case True
    show ?thesis using Cons.IH [of "(y, pr y)"]
    proof (elim disjE exE conjE)
      assume "best pr ys (y, pr y) = (y, pr y)" "\<forall>x \<in> set ys. snd (y, pr y) \<le> pr x"
      then show ?thesis using True by (intro disjI2 exI [of _ "[]"] exI [of _ y] exI [of _ ys]) auto
    next
      fix as t bs assume "ys = as @ t # bs" "best pr ys (y, pr y) = (t, pr t)" "pr t < snd (y, pr y)"
        "\<forall>x \<in> set as. pr t < pr x" "\<forall>x \<in> set bs. pr t \<le> pr x"
      then show ?thesis using True by (intro disjI2 exI [of _ "y # as"] exI [of _ t] exI [of _ bs]) auto
    qed
  qed
qed simp

text \<open>
  \<open>fires pr per now xs f ts xs' f'\<close>: with the timers \<open>xs\<close> and their firing times \<open>f\<close>, the round at the time
  \<open>now\<close> fires \<open>ts\<close> and leaves \<open>xs'\<close> and \<open>f'\<close>.  A timer without a period goes, one with a period is put back
  by one period, and fires again in the same round when it is still due.
\<close>

definition pick :: "('a \<Rightarrow> int) \<Rightarrow> rtime \<Rightarrow> 'a list \<Rightarrow> ('a \<Rightarrow> rtime) \<Rightarrow> 'a \<Rightarrow> bool" where
  "pick pr now xs f t \<longleftrightarrow> (\<exists>as bs. takeWhile (\<lambda>x. f x \<le> now) xs = as @ t # bs
     \<and> (\<forall>x \<in> set as. pr t < pr x) \<and> (\<forall>x \<in> set bs. pr t \<le> pr x))"

inductive fires :: "('a \<Rightarrow> int) \<Rightarrow> ('a \<Rightarrow> rtime) \<Rightarrow> rtime \<Rightarrow> 'a list \<Rightarrow> ('a \<Rightarrow> rtime)
    \<Rightarrow> 'a list \<Rightarrow> 'a list \<Rightarrow> ('a \<Rightarrow> rtime) \<Rightarrow> bool" for pr per now where
  none_due: "takeWhile (\<lambda>x. f x \<le> now) xs = [] \<Longrightarrow> fires pr per now xs f [] xs f"
| one_shot: "\<lbrakk>pick pr now xs f t; per t = 0; fires pr per now (remove1 t xs) f ts xs' f'\<rbrakk>
    \<Longrightarrow> fires pr per now xs f (t # ts) xs' f'"
| periodic: "\<lbrakk>pick pr now xs f t; per t \<noteq> 0;
     fires pr per now (insert_after_while (\<lambda>x. f x \<le> f t + per t) t (remove1 t xs)) (f(t := f t + per t)) ts xs' f'\<rbrakk>
    \<Longrightarrow> fires pr per now xs f (t # ts) xs' f'"

text \<open>How often a timer fires in a round.\<close>

definition shots :: "('a \<Rightarrow> rtime) \<Rightarrow> rtime \<Rightarrow> ('a \<Rightarrow> rtime) \<Rightarrow> 'a \<Rightarrow> nat" where
  "shots per now f x = (if now < f x then 0 else if per x = 0 then 1 else nat ((now - f x) div per x + 1))"

lemma shots_next:
  assumes "0 < per t" "f t \<le> now"
  shows "shots per now f t = Suc (shots per now (f(t := f t + per t)) t)"
proof (cases "f t + per t \<le> now")
  case True
  have "now - f t = (now - (f t + per t)) + per t" by simp
  then have "(now - f t) div per t = (now - (f t + per t)) div per t + 1"
    using assms(1) by (metis div_add_self2 less_irrefl)
  moreover have "0 \<le> (now - (f t + per t)) div per t" using True assms(1) by (simp add: pos_imp_zdiv_nonneg_iff)
  ultimately show ?thesis using True assms by (simp add: shots_def nat_add_distrib)
next
  case False
  then have "(now - f t) div per t = 0" using assms by (simp add: div_pos_pos_trivial)
  then show ?thesis using False assms by (simp add: shots_def)
qed

lemma pick_due:
  assumes "pick pr now xs f t" "sorted_wrt (\<lambda>x y. f x \<le> f y) xs"
  shows "t \<in> set xs" "f t \<le> now" "x \<in> set xs \<Longrightarrow> f x \<le> now \<Longrightarrow> pr t \<le> pr x"
proof -
  obtain as bs where p: "takeWhile (\<lambda>x. f x \<le> now) xs = as @ t # bs" "\<forall>x \<in> set as. pr t < pr x" "\<forall>x \<in> set bs. pr t \<le> pr x"
    using assms(1) by (auto simp: pick_def)
  have "t \<in> set (takeWhile (\<lambda>x. f x \<le> now) xs)" by (simp add: p(1))
  then show "t \<in> set xs" "f t \<le> now" by (auto dest: set_takeWhileD)
  assume x: "x \<in> set xs" "f x \<le> now"
  then have "x \<in> set (takeWhile (\<lambda>x. f x \<le> now) xs)"
    using assms(2) by (induction xs) (auto split: if_splits)
  then show "pr t \<le> pr x" unfolding p(1) using p(2,3) by auto
qed

lemma not_due:
  assumes "takeWhile (\<lambda>x. f x \<le> (now :: int)) xs = []" "sorted_wrt (\<lambda>x y. f x \<le> f y) xs" "x \<in> set xs"
  shows "now < f x"
  using assms by (cases xs) (auto split: if_splits)

text \<open>What a round does to a timer, and how often it fires it.\<close>

lemma fires_counts:
  assumes "fires pr per now xs f ts xs' f'" and "distinct xs" and "sorted_wrt (\<lambda>x y. f x \<le> f y) xs" and "\<forall>x \<in> set xs. 0 \<le> per x"
  shows "(\<forall>x \<in> set xs. count_list ts x = shots per now f x) \<and> set ts \<subseteq> set xs
    \<and> set xs' = {x \<in> set xs. now < f x \<or> per x \<noteq> 0} \<and> (\<forall>x. f' x = f x + per x * int (count_list ts x))
    \<and> (\<forall>x \<in> set xs'. now < f' x) \<and> distinct xs' \<and> sorted_wrt (\<lambda>x y. f' x \<le> f' y) xs'"
  using assms
proof (induction rule: fires.induct)
  case (none_due f xs)
  have "now < f x" if "x \<in> set xs" for x by (rule not_due [OF none_due.hyps none_due.prems(2) that])
  then show ?case using none_due by (auto simp: shots_def)
next
  case (one_shot xs f t ts xs' f')
  note t = pick_due [OF one_shot.hyps(1) one_shot.prems(2)]
  have ih: "(\<forall>x \<in> set (remove1 t xs). count_list ts x = shots per now f x) \<and> set ts \<subseteq> set (remove1 t xs)
    \<and> set xs' = {x \<in> set (remove1 t xs). now < f x \<or> per x \<noteq> 0} \<and> (\<forall>x. f' x = f x + per x * int (count_list ts x))
    \<and> (\<forall>x \<in> set xs'. now < f' x) \<and> distinct xs' \<and> sorted_wrt (\<lambda>x y. f' x \<le> f' y) xs'"
    by (rule one_shot.IH) (use one_shot.prems in \<open>auto simp: sorted_wrt_remove1\<close>)
  have s: "set (remove1 t xs) = set xs - {t}" using one_shot.prems(1) by (rule set_remove1_eq)
  then have "count_list ts t = 0" using ih by (auto simp: count_list_0_iff)
  moreover have "shots per now f t = 1" using t(2) one_shot.hyps(2) by (simp add: shots_def)
  ultimately show ?case using ih t one_shot.hyps(2) unfolding s by auto
next
  case (periodic xs f t ts xs' f')
  note t = pick_due [OF periodic.hyps(1) periodic.prems(2)]
  let ?xs = "insert_after_while (\<lambda>x. f x \<le> f t + per t) t (remove1 t xs)" and ?f = "f(t := f t + per t)"
  have p: "0 < per t" using periodic.prems(3) t(1) periodic.hyps(2) by force
  have d: "t \<notin> set (remove1 t xs)" using periodic.prems(1) by simp
  have s: "set ?xs = set xs" using t(1) periodic.prems(1) by (auto simp: set_remove1_eq)
  have "sorted_wrt (\<lambda>x y. ?f x \<le> ?f y) (insert_after_while (\<lambda>x. f x \<le> ?f t) t (remove1 t xs))"
    by (rule sorted_timer_insert [OF sorted_wrt_remove1 [OF periodic.prems(2)]]) (use d in auto)
  moreover have "distinct ?xs" using d periodic.prems(1) by (simp add: distinct_insert_after_while)
  ultimately have ih: "(\<forall>x \<in> set ?xs. count_list ts x = shots per now ?f x) \<and> set ts \<subseteq> set ?xs
    \<and> set xs' = {x \<in> set ?xs. now < ?f x \<or> per x \<noteq> 0} \<and> (\<forall>x. f' x = ?f x + per x * int (count_list ts x))
    \<and> (\<forall>x \<in> set xs'. now < f' x) \<and> distinct xs' \<and> sorted_wrt (\<lambda>x y. f' x \<le> f' y) xs'"
    by (intro periodic.IH) (use periodic.prems s in simp_all)
  have other: "shots per now ?f x = shots per now f x" if "x \<noteq> t" for x using that by (simp add: shots_def)
  show ?case
  proof (intro conjI)
    show "\<forall>x \<in> set xs. count_list (t # ts) x = shots per now f x"
      using ih shots_next [of per t f now, OF p t(2)] other unfolding s by auto
    show "\<forall>x. f' x = f x + per x * int (count_list (t # ts) x)" using ih by (auto simp: algebra_simps)
    show "set xs' = {x \<in> set xs. now < f x \<or> per x \<noteq> 0}" using ih p unfolding s by auto
    show "set (t # ts) \<subseteq> set xs" using ih t(1) unfolding s by auto
    show "\<forall>x \<in> set xs'. now < f' x" "distinct xs'" "sorted_wrt (\<lambda>x y. f' x \<le> f' y) xs'" using ih by blast+
  qed
qed


text \<open>A round without periodic timers fires in the order of the priorities.\<close>

lemma fires_in_order:
  assumes "fires pr per now xs f ts xs' f'" and "distinct xs" "sorted_wrt (\<lambda>x y. f x \<le> f y) xs" "\<forall>x \<in> set xs. per x = 0"
  shows "sorted_wrt (\<lambda>x y. pr x \<le> pr y) ts"
  using assms
proof (induction rule: fires.induct)
  case (one_shot xs f t ts xs' f')
  note t = pick_due [OF one_shot.hyps(1) one_shot.prems(2)]
  have p: "distinct (remove1 t xs)" "sorted_wrt (\<lambda>x y. f x \<le> f y) (remove1 t xs)" "\<forall>x \<in> set (remove1 t xs). per x = 0"
    using one_shot.prems by (auto simp: sorted_wrt_remove1)
  have "pr t \<le> pr x" if x: "x \<in> set ts" for x
  proof -
    have c: "(\<forall>x \<in> set (remove1 t xs). count_list ts x = shots per now f x) \<and> set ts \<subseteq> set (remove1 t xs)"
      using fires_counts [OF one_shot.hyps(3) p(1,2)] p(3) by auto
    then have "x \<in> set (remove1 t xs)" "count_list ts x = shots per now f x" using x by auto
    moreover have "count_list ts x \<noteq> 0" using x by (simp add: count_list_0_iff)
    ultimately have "x \<in> set xs" "f x \<le> now" using set_remove1_subset [of t xs] by (auto simp: shots_def split: if_splits)
    then show ?thesis by (rule t(3))
  qed
  then show ?case using one_shot.IH p by simp
next
  case (periodic xs f t ts xs' f')
  then show ?case using pick_due(1) [OF periodic.hyps(1) periodic.prems(2)] by simp
qed simp

section \<open>The code against it\<close>

text \<open>What the round reads of the structures beside links and firing times.\<close>

definition attrs :: "(tknode \<Rightarrow> int) \<Rightarrow> (tknode \<Rightarrow> rtime) \<Rightarrow> (tknode \<Rightarrow> nat option) \<Rightarrow> (tknode \<Rightarrow> nat) \<Rightarrow> (tknode \<Rightarrow> tid option) \<Rightarrow> tls \<Rightarrow> bool" where
  "attrs pr per hnd dat tsk s \<longleftrightarrow> (\<forall>x. tk_priority (tk s x) = pr x \<and> tk_period (tk s x) = per x \<and> tk_handler (tk s x) = hnd x
     \<and> tk_data (tk s x) = dat x \<and> tk_task (tk s x) = tsk x)"

lemma attrs_links:
  assumes "links_only s s'"
  shows "attrs pr per hnd dat tsk s' = attrs pr per hnd dat tsk s"
  unfolding attrs_def using payloadD [OF links_onlyD(5) [OF assms]] by simp

lemma attrs_upd:
  "attrs pr per hnd dat tsk (upd_tk t (\<lambda>x. x\<lparr>tk_firing_time := time\<rparr>) s) = attrs pr per hnd dat tsk s"
  "attrs pr per hnd dat tsk (set_task_prio u p s) = attrs pr per hnd dat tsk s" "attrs pr per hnd dat tsk (s\<lparr>ker := k\<rparr>) = attrs pr per hnd dat tsk s"
  by (auto simp: attrs_def upd_tk_def set_task_prio_def)

lemma timers_ok_ker [simp]: "timers_ok (set_task_prio u p s) xs = timers_ok s xs" "timers_ok (s\<lparr>ker := k\<rparr>) xs = timers_ok s xs"
  by (simp_all add: timers_ok_def set_task_prio_def comp_def)

lemma set_task_prio_simps [simp]:
  "tk (set_task_prio u p s) = tk s" "manager (set_task_prio u p s) = manager s" "user (set_task_prio u p s) = user s"
  "timers_tol (set_task_prio u p s) = timers_tol s" "ker (set_task_prio u p s) = (ker s)\<lparr>priority := (priority (ker s))(u := p)\<rparr>"
  by (simp_all add: set_task_prio_def)

lemma due_loop_links:
  assumes "links (tnx s) (tpv s) a xs TimersList" and "now < firing s TimersList"
  shows "due_loop s now a t p = Some (best (\<lambda>x. tk_priority (tk s x)) (takeWhile (\<lambda>x. firing s x \<le> now) xs) (t, p))"
  using assms(1)
proof (induction xs arbitrary: a t p)
  case Nil
  then show ?case using assms(2) by (subst due_loop.simps) (auto simp: Let_def)
next
  case (Cons x xs)
  then show ?case by (subst due_loop.simps) (auto simp: Let_def)
qed

lemma due_loop_pick:
  assumes ok: "timers_ok s xs" and now: "now < RT_TIME_END" and low: "\<forall>x \<in> set xs. tk_priority (tk s x) < RT_LOWEST_PRIORITY"
  shows "takeWhile (\<lambda>x. firing s x \<le> now) xs = [] \<and> due_loop s now TimersList TimersList RT_LOWEST_PRIORITY = Some (TimersList, RT_LOWEST_PRIORITY)
    \<or> (\<exists>t. pick (\<lambda>x. tk_priority (tk s x)) now xs (firing s) t
         \<and> due_loop s now TimersList TimersList RT_LOWEST_PRIORITY = Some (t, tk_priority (tk s t)))"
proof -
  let ?pr = "\<lambda>x. tk_priority (tk s x)" and ?ds = "takeWhile (\<lambda>x. firing s x \<le> now) xs" and ?b = "(TimersList, RT_LOWEST_PRIORITY)"
  have "links (tnx s) (tpv s) TimersList xs TimersList" using timers_okD(1) [OF ok] by (simp add: ring_def)
  then have d: "due_loop s now TimersList TimersList RT_LOWEST_PRIORITY = Some (best ?pr ?ds ?b)"
    by (rule due_loop_links) (use now timers_okD(4) [OF ok] in simp)
  from best_cases [of ?pr ?ds ?b] show ?thesis
  proof (elim disjE exE conjE)
    assume b: "best ?pr ?ds ?b = ?b" "\<forall>x \<in> set ?ds. snd ?b \<le> ?pr x"
    have "?ds = []"
    proof (rule ccontr)
      assume "?ds \<noteq> []"
      then have "hd ?ds \<in> set ?ds" by simp
      moreover from this have "hd ?ds \<in> set xs" by (auto dest: set_takeWhileD)
      ultimately show False using b(2) low by fastforce
    qed
    then show ?thesis using d b(1) by simp
  next
    fix as t bs assume "?ds = as @ t # bs" "best ?pr ?ds ?b = (t, ?pr t)" "\<forall>x \<in> set as. ?pr t < ?pr x" "\<forall>x \<in> set bs. ?pr t \<le> ?pr x"
    then show ?thesis using d by (intro disjI2 exI [of _ t]) (auto simp: pick_def)
  qed
qed

lemma rearm_ok:
  assumes ok: "timers_ok s xs" and t: "t \<in> set xs"
  shows "tk_period (tk s t) = 0 \<Longrightarrow> \<exists>s'. rearm t s = Some s' \<and> timers_ok s' (remove1 t xs) \<and> links_only s s'"
    "tk_period (tk s t) \<noteq> 0 \<Longrightarrow> firing s t + tk_period (tk s t) < RT_TIME_END \<Longrightarrow>
       \<exists>s'. rearm t s = Some s' \<and> timers_ok s' (timer_insert s (firing s t + tk_period (tk s t)) t (remove1 t xs))
         \<and> links_only (upd_tk t (\<lambda>x. x\<lparr>tk_firing_time := firing s t + tk_period (tk s t)\<rparr>) s) s'"
  using detach_ok [OF ok t] set_timer_firing_time_ok [OF ok t] by (auto simp: rearm_def)


lemma shots_sum_one:
  assumes "distinct xs" "t \<in> set xs" "f t \<le> now" "per t = 0"
  shows "(\<Sum>x \<in> set xs. shots per now f x) = Suc (\<Sum>x \<in> set (remove1 t xs). shots per now f x)"
proof -
  have "(\<Sum>x \<in> set xs. shots per now f x) = shots per now f t + (\<Sum>x \<in> set xs - {t}. shots per now f x)"
    using assms(2) by (simp add: sum.remove)
  then show ?thesis using assms by (simp add: set_remove1_eq shots_def)
qed

lemma shots_sum_per:
  assumes "distinct xs" "t \<in> set xs" "f t \<le> now" "0 < per t"
  shows "(\<Sum>x \<in> set xs. shots per now f x)
    = Suc (\<Sum>x \<in> set (insert_after_while p t (remove1 t xs)). shots per now (f(t := f t + per t)) x)"
proof -
  have s: "set (insert_after_while p t (remove1 t xs)) = insert t (set xs - {t})" using assms(1,2) by (auto simp: set_remove1_eq)
  have "(\<Sum>x \<in> set xs - {t}. shots per now (f(t := f t + per t)) x) = (\<Sum>x \<in> set xs - {t}. shots per now f x)"
    by (rule sum.cong) (auto simp: shots_def)
  moreover have "(\<Sum>x \<in> set xs. shots per now f x) = shots per now f t + (\<Sum>x \<in> set xs - {t}. shots per now f x)"
    using assms(2) by (simp add: sum.remove)
  moreover have "(\<Sum>x \<in> insert t (set xs - {t}). shots per now (f(t := f t + per t)) x)
      = shots per now (f(t := f t + per t)) t + (\<Sum>x \<in> set xs - {t}. shots per now (f(t := f t + per t)) x)"
    by (rule sum.insert) auto
  ultimately show ?thesis unfolding s using shots_next [of per t f now, OF assms(4,3)] by linarith
qed

text \<open>A handler of the kernel, run with the manager at the priority of the timer.\<close>

definition serve :: "tid \<Rightarrow> (tknode \<Rightarrow> int) \<Rightarrow> (tknode \<Rightarrow> nat option) \<Rightarrow> (tknode \<Rightarrow> nat) \<Rightarrow> (nat \<Rightarrow> nat \<Rightarrow> kst \<Rightarrow> kst) \<Rightarrow> tknode \<Rightarrow> kst \<Rightarrow> kst" where
  "serve m pr hnd dat g t k = g (the (hnd t)) (dat t) (k\<lparr>priority := (priority k)(m := pr t)\<rparr>)"

lemma fire_loop_ok:
  assumes H: "\<And>h d s. H h d s = Ret () (s\<lparr>ker := g h d (ker s)\<rparr>)"
    and ok: "timers_ok s xs" and a: "attrs pr per hnd dat tsk s" and now: "now < RT_TIME_END"
    and good: "\<forall>x \<in> set xs. pr x < RT_LOWEST_PRIORITY \<and> 0 \<le> per x \<and> now + per x < RT_TIME_END \<and> hnd x \<noteq> None \<and> tsk x = None"
    and k: "(\<Sum>x \<in> set xs. shots per now (firing s) x) < k"
  shows "\<exists>ts xs' s'. fire_loop k H n now s = Ret () s' \<and> fires pr per now xs (firing s) ts xs' (firing s') \<and> timers_ok s' xs'
    \<and> attrs pr per hnd dat tsk s' \<and> manager s' = manager s \<and> timers_tol s' = timers_tol s
    \<and> ker s' = (let k = fold (serve (manager s) pr hnd dat g) ts (ker s) in k\<lparr>priority := (priority k)(manager s := RT_LOWEST_PRIORITY)\<rparr>)"
  using ok a good k
proof (induction k arbitrary: s xs)
  case (Suc k)
  note ok = Suc.prems(1) and a = Suc.prems(2)
  have pr: "(\<lambda>x. tk_priority (tk s x)) = pr" and at: "tk_period (tk s x) = per x" "tk_handler (tk s x) = hnd x" "tk_data (tk s x) = dat x"
    "tk_task (tk s x) = tsk x" for x using a by (auto simp: attrs_def)
  have "tk_priority (tk s x) = pr x" for x using a by (simp add: attrs_def)
  then have "\<forall>x \<in> set xs. tk_priority (tk s x) < RT_LOWEST_PRIORITY" using Suc.prems(3) by simp
  from due_loop_pick [OF ok now this] show ?case unfolding pr
  proof (elim disjE exE conjE)
    assume "takeWhile (\<lambda>x. firing s x \<le> now) xs = []"
      "due_loop s now TimersList TimersList RT_LOWEST_PRIORITY = Some (TimersList, RT_LOWEST_PRIORITY)"
    then show ?thesis using ok a
      by - (rule exI [of _ "[]"], rule exI [of _ xs], rule exI [of _ "set_task_prio (manager s) RT_LOWEST_PRIORITY s"],
        simp add: Let_def attrs_upd fires.none_due del: fun_upd_apply)
  next
    fix t assume p: "pick pr now xs (firing s) t"
      and d: "due_loop s now TimersList TimersList RT_LOWEST_PRIORITY = Some (t, tk_priority (tk s t))"
    let ?m = "manager s" and ?s1 = "set_task_prio (manager s) (pr t) s"
    note t = pick_due [OF p timers_okD(2) [OF ok]]
    have tn: "t \<noteq> TimersList" using t(1) timers_okD(7) [OF ok] by auto
    have prt: "tk_priority (tk s t) = pr t" using pr by (simp add: fun_eq_iff)
    have ok1: "timers_ok ?s1 xs" using ok by simp
    have g: "0 \<le> per t" "now + per t < RT_TIME_END" "hnd t \<noteq> None" "tsk t = None" using Suc.prems(3) t(1) by blast+
    have step: "fire_loop (Suc k) H n now s = lift_opt (rearm t ?s1) (\<lambda>s2. res_bind (run_tasklet H n t s2) (\<lambda>_. fire_loop k H n now))"
      using d tn by (simp add: prt Let_def)
    have run: "run_tasklet H n t s2 = Ret () (s2\<lparr>ker := g (the (hnd t)) (dat t) (ker s2)\<rparr>)" if "attrs pr per hnd dat tsk s2" for s2
      using that g(3,4) by (auto simp: run_tasklet_def call_tasklet_def attrs_def H)
    have ih: ?thesis if s2: "rearm t ?s1 = Some s2" "timers_ok s2 ys" "attrs pr per hnd dat tsk s2" "ker s2 = ker ?s1" "manager s2 = ?m"
        "timers_tol s2 = timers_tol s" and ys: "set ys \<subseteq> set xs" "(\<Sum>x \<in> set xs. shots per now (firing s) x) = Suc (\<Sum>x \<in> set ys. shots per now (firing s2) x)"
      and f: "\<And>ts xs' f'. fires pr per now ys (firing s2) ts xs' f' \<Longrightarrow> fires pr per now xs (firing s) (t # ts) xs' f'" for s2 ys
    proof -
      let ?s3 = "s2\<lparr>ker := g (the (hnd t)) (dat t) (ker s2)\<rparr>"
      have ok3: "timers_ok ?s3 ys" using s2(2) by simp
      have a3: "attrs pr per hnd dat tsk ?s3" unfolding attrs_upd by (rule s2(3))
      have g3: "\<forall>x \<in> set ys. pr x < RT_LOWEST_PRIORITY \<and> 0 \<le> per x \<and> now + per x < RT_TIME_END \<and> hnd x \<noteq> None \<and> tsk x = None"
        using ys(1) Suc.prems(3) by blast
      have s3: "manager ?s3 = ?m" "timers_tol ?s3 = timers_tol s" using s2(5,6) by simp_all
      have "(\<Sum>x \<in> set ys. shots per now (firing ?s3) x) < k" using Suc.prems(4) ys(2) by simp
      then obtain ts xs' s' where r: "fire_loop k H n now ?s3 = Ret () s'" "fires pr per now ys (firing ?s3) ts xs' (firing s')" "timers_ok s' xs'"
        "attrs pr per hnd dat tsk s'" "manager s' = ?m" "timers_tol s' = timers_tol s"
        "ker s' = (let k = fold (serve ?m pr hnd dat g) ts (ker ?s3) in k\<lparr>priority := (priority k)(?m := RT_LOWEST_PRIORITY)\<rparr>)"
        using Suc.IH [OF ok3 a3 g3] by (simp only: s3) blast
      have "fires pr per now ys (firing s2) ts xs' (firing s')" using r(2) by simp
      moreover have "ker ?s3 = serve ?m pr hnd dat g t (ker s)" using s2(4) by (simp add: serve_def)
      ultimately show ?thesis using r step run [OF s2(3)] s2(1) f
        by - (rule exI [of _ "t # ts"], rule exI [of _ xs'], rule exI [of _ s'], simp del: fun_upd_apply)
    qed
    show ?thesis
    proof (cases "per t = 0")
      case True
      obtain s2 where s2: "rearm t ?s1 = Some s2" "timers_ok s2 (remove1 t xs)" "links_only ?s1 s2"
        using rearm_ok(1) [OF ok1 t(1)] True by (auto simp: at)
      have fi: "firing s2 x = firing s x" for x using payloadD(2) [OF links_onlyD(5) [OF s2(3)]] by simp
      show ?thesis
      proof (rule ih [OF s2(1,2)], unfold fi)
        show "(\<Sum>x \<in> set xs. shots per now (firing s) x) = Suc (\<Sum>x \<in> set (remove1 t xs). shots per now (firing s) x)"
          by (rule shots_sum_one) (use t timers_okD(6) [OF ok] True in auto)
        show "fires pr per now xs (firing s) (t # ts) xs' f'" if "fires pr per now (remove1 t xs) (firing s) ts xs' f'" for ts xs' f'
          by (rule fires.one_shot [OF p True that])
        show "attrs pr per hnd dat tsk s2" unfolding attrs_links [OF s2(3)] attrs_upd by (rule a)
        show "set (remove1 t xs) \<subseteq> set xs" by (rule set_remove1_subset)
      qed (use links_onlyD(2-4) [OF s2(3)] in simp_all)
    next
      case False
      let ?e = "firing s t + per t" and ?p = "\<lambda>x. firing s x \<le> firing s t + per t"
      obtain s2 where s2: "rearm t ?s1 = Some s2" "timers_ok s2 (insert_after_while ?p t (remove1 t xs))"
        "links_only (upd_tk t (\<lambda>x. x\<lparr>tk_firing_time := ?e\<rparr>) ?s1) s2"
        using rearm_ok(2) [OF ok1 t(1)] False g(2) t(2) by (auto simp: at)
      have fi: "firing s2 = (firing s)(t := ?e)"
        by (rule ext) (use payloadD(2) [OF links_onlyD(5) [OF s2(3)]] in \<open>simp add: upd_tk_def\<close>)
      show ?thesis
      proof (rule ih [OF s2(1,2)], unfold fi)
        show "(\<Sum>x \<in> set xs. shots per now (firing s) x)
            = Suc (\<Sum>x \<in> set (insert_after_while ?p t (remove1 t xs)). shots per now ((firing s)(t := ?e)) x)"
          by (rule shots_sum_per) (use t timers_okD(6) [OF ok] False g in auto)
        show "fires pr per now xs (firing s) (t # ts) xs' f'"
          if "fires pr per now (insert_after_while ?p t (remove1 t xs)) ((firing s)(t := ?e)) ts xs' f'" for ts xs' f'
          by (rule fires.periodic [OF p False that])
        show "attrs pr per hnd dat tsk s2" unfolding attrs_links [OF s2(3)] attrs_upd by (rule a)
        show "set (insert_after_while ?p t (remove1 t xs)) \<subseteq> set xs" using t(1) set_remove1_subset [of t xs] by simp
      qed (use links_onlyD(2-4) [OF s2(3)] in \<open>simp_all add: upd_tk_def\<close>)
    qed
  qed
qed simp


section \<open>A round fires what is due\<close>


text \<open>A timer of the lowest priority is never chosen: when only such timers are due the round fires none.\<close>

lemma due_loop_lowest:
  assumes ok: "timers_ok s xs" and now: "now < RT_TIME_END" and low: "\<forall>x \<in> set xs. tk_priority (tk s x) = RT_LOWEST_PRIORITY"
  shows "fire_loop (Suc k) H n now s = Ret () (set_task_prio (manager s) RT_LOWEST_PRIORITY s)"
proof -
  let ?pr = "\<lambda>x. tk_priority (tk s x)" and ?ds = "takeWhile (\<lambda>x. firing s x \<le> now) xs"
  have "links (tnx s) (tpv s) TimersList xs TimersList" using timers_okD(1) [OF ok] by (simp add: ring_def)
  then have d: "due_loop s now TimersList TimersList RT_LOWEST_PRIORITY = Some (best ?pr ?ds (TimersList, RT_LOWEST_PRIORITY))"
    by (rule due_loop_links) (use now timers_okD(4) [OF ok] in simp)
  have "best ?pr ys (TimersList, RT_LOWEST_PRIORITY) = (TimersList, RT_LOWEST_PRIORITY)" if "set ys \<subseteq> set xs" for ys
    using that low by (induction ys) auto
  moreover have "set ?ds \<subseteq> set xs" by (auto dest: set_takeWhileD)
  ultimately show ?thesis using d by simp
qed

text \<open>A tasklet that has been allocated and never inserted counts as inserted, and its links are NULL.\<close>

lemma remove_never_inserted:
  assumes "rt_init_tasklet a s = Some (t, s')"
  shows "tk_linked t s'" "rt_remove_tasklet t s' = None"
  using assms by (auto simp: rt_init_tasklet_def tk_linked_def rt_remove_tasklet_def detach_def unlink_tk_def
      upd_tk_def zero_tasklet_def split: if_splits)

end
