(* ===== verification/Tasklet_Calls.thy ===== *)
theory Tasklet_Calls
  imports Tasklet_Rounds Sched_Invariant
begin

text \<open>
  Inserting and removing timers with the scheduler: the manager's wake up and its priority.
\<close>

section \<open>The manager in the scheduler's lists\<close>

text \<open>A task that sleeps gets another wake up time.\<close>

lemma inv_move_timed:
  assumes i: "sched_inv s rq tq" and l: "live s m" and d: "state s m AND DELAYED \<noteq> 0" and e: "v \<le> RT_TIME_END"
  shows "\<exists>s' nx pv. enq_timed_task m (rem_timed_task m (s\<lparr>resume_time := (resume_time s)(m := v)\<rparr>)) = Some s'
    \<and> sched_inv s' rq (insert_after_while (\<lambda>x. resume_time s x < v) m (remove1 m tq))
    \<and> s' = s\<lparr>resume_time := (resume_time s)(m := v), tnext := nx, tprev := pv\<rparr>"
proof -
  note i' = sched_invD [OF i]
  let ?s1 = "s\<lparr>resume_time := (resume_time s)(m := v)\<rparr>"
  let ?s2 = "unlink_timed m ?s1" and ?tq = "remove1 m tq"
  have m: "m \<in> set tq" "m \<noteq> LINUX" using i'(6) l d by (auto simp: live_def)
  have dt: "distinct tq" "LINUX \<notin> set tq" using i'(4) by (auto simp: timed_list_def ring_def)
  have h: "is_hard s m \<noteq> 0" using i'(1) l by (auto simp: task_wf_def)
  have tl: "timed_list ?s2 ?tq"
  proof -
    have "sorted_wrt (\<lambda>x y. resume_time s x \<le> resume_time s y) ?tq" using i'(4) by (simp add: timed_list_def sorted_wrt_remove1)
    then have "sorted_wrt (\<lambda>x y. resume_time ?s2 x \<le> resume_time ?s2 y) ?tq"
      by (rule sorted_wrt_mono_rel [rotated]) (use dt in auto)
    then show ?thesis using ring_unlink_remove1 [of "tnext s" "tprev s" LINUX tq m] i'(4) m by (simp add: timed_list_def)
  qed
  have r: "rem_timed_task m ?s1 = ?s2" using d by (simp add: rem_timed_task_eq)
  let ?p = "hd (dropWhile (\<lambda>x. resume_time ?s2 x < resume_time ?s2 m) ?tq @ [LINUX])"
  have q: "enq_timed_task m ?s2 = Some (link_timed m ?p ?s2)" by (rule enq_timed_task_eq [OF tl]) (use h e in simp_all)
  have ml: "m \<notin> set (LINUX # ?tq)" using m(2) dt by simp
  have t': "timed_list (link_timed m ?p ?s2) (timed_insert ?s2 m ?tq)" by (rule timed_list_link [OF tl ml])
  have ins: "timed_insert ?s2 m ?tq = insert_after_while (\<lambda>x. resume_time s x < v) m ?tq"
    by (rule insert_after_while_cong) (use dt in auto)
  have "sched_inv (link_timed m ?p ?s2) rq (timed_insert ?s2 m ?tq)"
  proof (rule sched_invI)
    show "task_wf (link_timed m ?p ?s2)" using i'(1) by (simp add: task_wf_def live_def link_timed_def unlink_timed_def)
    show "ready_list (link_timed m ?p ?s2) rq" "in_prio_order (link_timed m ?p ?s2) rq"
      using i'(2,3) by (simp_all add: ready_list_def in_prio_order_def)
    show "x \<in> set rq \<longleftrightarrow> live (link_timed m ?p ?s2) x \<and> state (link_timed m ?p ?s2) x = READY" for x
      using i'(5) [of x] by (simp add: live_def link_timed_def unlink_timed_def)
    show "x \<in> set (timed_insert ?s2 m ?tq) \<longleftrightarrow> live (link_timed m ?p ?s2) x \<and> state (link_timed m ?p ?s2) x AND DELAYED \<noteq> 0" for x
      using i'(6) [of x] l d dt m by (auto simp: live_def link_timed_def unlink_timed_def)
  qed (rule t')
  then show ?thesis unfolding r q ins by (auto simp: link_timed_def unlink_timed_def)
qed

section \<open>Insertion\<close>

text \<open>The manager sleeps, and not past the first timer.\<close>

definition in_time :: "tls \<Rightarrow> tknode list \<Rightarrow> tid list \<Rightarrow> tid list \<Rightarrow> bool" where
  "in_time s xs rq tq \<longleftrightarrow> timers_ok s xs \<and> sched_inv (ker s) rq tq \<and> live (ker s) (manager s)
     \<and> state (ker s) (manager s) AND DELAYED \<noteq> 0 \<and> resume_time (ker s) (manager s) \<le> firing s (hd (xs @ [TimersList]))"

lemma in_timeD:
  assumes "in_time s xs rq tq"
  shows "timers_ok s xs" "sched_inv (ker s) rq tq" "live (ker s) (manager s)" "state (ker s) (manager s) AND DELAYED \<noteq> 0"
    "resume_time (ker s) (manager s) \<le> firing s (hd (xs @ [TimersList]))" "manager s \<notin> set rq" "manager s \<noteq> LINUX"
proof -
  show r: "timers_ok s xs" "sched_inv (ker s) rq tq" "live (ker s) (manager s)" "state (ker s) (manager s) AND DELAYED \<noteq> 0"
    "resume_time (ker s) (manager s) \<le> firing s (hd (xs @ [TimersList]))" using assms by (simp_all add: in_time_def)
  show "manager s \<notin> set rq" using sched_invD(5) [OF r(2)] r(4) by force
  show "manager s \<noteq> LINUX" using r(3) by (simp add: live_def)
qed

lemma timers_first: "timers_ok s xs \<Longrightarrow> tk_next (tk s TimersList) = hd (xs @ [TimersList])"
  using ring_first [OF timers_okD(1)] by fastforce

text \<open>Bringing the wake up forward, after a timer has been put into the list.\<close>

lemma wake_manager_ok:
  assumes ok: "timers_ok s xs" and i: "sched_inv (ker s) rq tq" and l: "live (ker s) (manager s)" "state (ker s) (manager s) AND DELAYED \<noteq> 0"
    and t: "t \<in> set xs" "resume_time (ker s) (manager s) \<le> firing s (hd (xs @ [TimersList])) \<or> hd xs = t"
  shows "\<exists>k tq'. wake_manager n t (firing s t) s
      = (if hd xs = t \<and> firing s t < resume_time (ker s) (manager s) then in_ker (rt_schedule n k) s else Ret () s)
    \<and> in_time (s\<lparr>ker := if hd xs = t \<and> firing s t < resume_time (ker s) (manager s) then k else ker s\<rparr>) xs rq tq'
    \<and> priority k = priority (ker s)"
proof -
  let ?m = "manager s" and ?w = "firing s t"
  have nx: "hd (xs @ [TimersList]) = hd xs" "tk_next (tk s TimersList) = hd xs"
    using timers_first [OF ok] t(1) by (cases xs; simp)+
  have "?w \<le> RT_TIME_END" using timers_okD(3) [OF ok t(1)] by simp
  then obtain k nx pv where k: "enq_timed_task ?m (rem_timed_task ?m ((ker s)\<lparr>resume_time := (resume_time (ker s))(?m := ?w)\<rparr>)) = Some k"
    "sched_inv k rq (insert_after_while (\<lambda>x. resume_time (ker s) x < ?w) ?m (remove1 ?m tq))"
    "k = (ker s)\<lparr>resume_time := (resume_time (ker s))(?m := ?w), tnext := nx, tprev := pv\<rparr>"
    using inv_move_timed [OF i l] by blast
  show ?thesis
  proof (cases "hd xs = t \<and> ?w < resume_time (ker s) ?m")
    case True
    have "in_time (s\<lparr>ker := k\<rparr>) xs rq (insert_after_while (\<lambda>x. resume_time (ker s) x < ?w) ?m (remove1 ?m tq))"
      using ok l k(2) nx True unfolding k(3) in_time_def by (simp add: live_def)
    moreover have "wake_manager n t ?w s = in_ker (rt_schedule n k) s"
      using True nx(2) l(2) k(1) by (simp add: wake_manager_def Let_def)
    moreover have "priority k = priority (ker s)" unfolding k(3) by simp
    ultimately show ?thesis using True by auto
  next
    case False
    have "in_time s xs rq tq" using ok i l t(2) False nx unfolding in_time_def by auto
    moreover have "wake_manager n t ?w s = Ret () s" using False nx(2) l(2) by (auto simp: wake_manager_def Let_def)
    ultimately show ?thesis using False by (intro exI [of _ "ker s"] exI [of _ tq]) auto
  qed
qed

lemma hd_insert: "hd (insert_after_while p t xs) = (if takeWhile p xs = [] then t else hd xs)"
  by (cases xs) (auto simp: insert_after_while_def)

text \<open>The first half of an insertion: the timer is filled in and linked, and the manager has its priority.\<close>

lemma insert_timer_links:
  assumes it: "in_time s xs rq tq" and t: "t \<notin> set xs" "t \<noteq> TimersList" "t \<noteq> Null" and e: "time < RT_TIME_END"
    and p: "0 \<le> prio" "prio < RT_LINUX_PRIORITY"
  shows "\<exists>s3. rt_insert_timer n t prio time per (Some h) d 0 s = res_bind (wake_manager n t time s3) (\<lambda>_. Ret 0)
     \<and> manager s3 = manager s \<and> state (ker s3) = state (ker s) \<and> resume_time (ker s3) = resume_time (ker s)
     \<and> magic (ker s3) = magic (ker s) \<and> priority (ker s3) (manager s) = min prio (priority (ker s) (manager s))
     \<and> timers_ok s3 (timer_insert s time t xs) \<and> sched_inv (ker s3) rq tq
     \<and> (\<forall>x. firing s3 x = (if x = t then time else firing s x))"
proof -
  note i = in_timeD [OF it]
  let ?m = "manager s"
  let ?s0 = "upd_tk t (\<lambda>x. x\<lparr>tk_uses_fpu := 0, tk_priority := prio, tk_firing_time := time, tk_period := per, tk_handler := Some h, tk_data := d\<rparr>) s"
  let ?s1 = "upd_tk t (\<lambda>x. x\<lparr>tk_task := None\<rparr>) ?s0"
  have a: "announce t prio 0 ?s0 = Some ?s1" by (simp add: announce_def)
  have ok1: "timers_ok ?s1 xs" by (intro timers_ok_upd i(1) t(1,2)) simp_all
  have f1: "firing ?s1 x = (if x = t then time else firing s x)" for x by (simp add: upd_tk_def)
  have k1: "ker ?s1 = ker s" "manager ?s1 = ?m" by (simp_all add: upd_tk_def)
  have "firing ?s1 t < RT_TIME_END" using e by (simp add: f1)
  from link_timer_ok [OF ok1 t this] obtain pos s2 where s2: "timer_pos time ?s1 = Some pos" "s2 = link_tk t pos ?s1"
    "timers_ok s2 (timer_insert ?s1 time t xs)" "links_only ?s1 s2" by (auto simp: f1)
  have ys: "timer_insert ?s1 time t xs = timer_insert s time t xs" by (rule insert_after_while_cong) (use t(1) in \<open>auto simp: f1\<close>)
  have f2: "firing s2 x = (if x = t then time else firing s x)" for x
    using payloadD(2) [OF links_onlyD(5) [OF s2(4)]] f1 by simp
  have k2: "ker s2 = ker s" "manager s2 = ?m" using links_onlyD(2,4) [OF s2(4)] k1 by simp_all
  have p2: "tk_priority (tk s2 t) = prio" using payloadD(1) [OF links_onlyD(5) [OF s2(4)], of t] by (simp add: upd_tk_def)
  let ?s3 = "inherit_timer_prio t s2"
  have ins: "rt_insert_timer n t prio time per (Some h) d 0 s = res_bind (wake_manager n t time ?s3) (\<lambda>_. Ret 0)"
    using a s2(1,2) by (simp add: rt_insert_timer_def)
  have s3: "manager ?s3 = ?m" "state (ker ?s3) = state (ker s)" "resume_time (ker ?s3) = resume_time (ker s)"
    "magic (ker ?s3) = magic (ker s)" "priority (ker ?s3) ?m = min prio (priority (ker s) ?m)" "timers_ok ?s3 (timer_insert s time t xs)"
    using s2(3) by (simp_all add: inherit_timer_prio_def k2 p2 ys)
  have i3: "sched_inv (ker ?s3) rq tq" using i(2) inv_set_prio [OF i(2,6,7) p] by (simp add: inherit_timer_prio_def k2 p2)
  have f3: "\<forall>x. firing ?s3 x = (if x = t then time else firing s x)" using f2 by (simp add: inherit_timer_prio_def)
  show ?thesis by (rule exI [of _ ?s3], intro conjI, rule ins, (rule s3)+, rule i3, rule f3)
qed

text \<open>C26: inserting a timer puts it behind the timers that fire no later, raises the
  manager's priority to the timer's, and reschedules exactly when the timer is the first one and
  fires before the manager's wake up, so that the sleeping manager is never late for the first
  timer.\<close>

theorem rt_insert_timer_ok:
  assumes it: "in_time s xs rq tq" and t: "t \<notin> set xs" "t \<noteq> TimersList" "t \<noteq> Null" and e: "time < RT_TIME_END"
    and p: "0 \<le> prio" "prio < RT_LINUX_PRIORITY"
  shows "\<exists>s1 tq1. rt_insert_timer n t prio time per (Some h) d 0 s
      = (if takeWhile (\<lambda>x. firing s x \<le> time) xs = [] \<and> time < resume_time (ker s) (manager s)
         then res_bind (in_ker (rt_schedule n (ker s1)) s1) (\<lambda>_. Ret 0) else Ret 0 s1)
    \<and> in_time s1 (timer_insert s time t xs) rq tq1
    \<and> priority (ker s1) (manager s1) = min prio (priority (ker s) (manager s))"
proof -
  note i = in_timeD [OF it]
  let ?m = "manager s" and ?ys = "timer_insert s time t xs"
  obtain s3 where ins: "rt_insert_timer n t prio time per (Some h) d 0 s = res_bind (wake_manager n t time s3) (\<lambda>_. Ret 0)"
    and s3: "manager s3 = ?m" "state (ker s3) = state (ker s)" "resume_time (ker s3) = resume_time (ker s)"
      "magic (ker s3) = magic (ker s)" "priority (ker s3) ?m = min prio (priority (ker s) ?m)" "timers_ok s3 ?ys"
    and i3: "sched_inv (ker s3) rq tq" and f3: "\<forall>x. firing s3 x = (if x = t then time else firing s x)"
    using insert_timer_links [OF it t e p, of n per h d] by (elim exE conjE) (rule that)
  have l3: "live (ker s3) (manager s3)" "state (ker s3) (manager s3) AND DELAYED \<noteq> 0"
    using i(3,4) by (simp_all add: s3 live_def)
  have hy: "hd ?ys = (if takeWhile (\<lambda>x. firing s x \<le> time) xs = [] then t else hd xs)" by (rule hd_insert)
  have ty: "t \<in> set ?ys" by simp
  have "resume_time (ker s3) (manager s3) \<le> firing s3 (hd (?ys @ [TimersList])) \<or> hd ?ys = t"
  proof (cases "takeWhile (\<lambda>x. firing s x \<le> time) xs = []")
    case False
    then have "xs \<noteq> []" by auto
    moreover from this have "hd xs \<noteq> t" using t(1) by (metis hd_in_set)
    moreover have "?ys \<noteq> []" using ty by force
    ultimately show ?thesis using i(5) False hy by (simp add: s3 f3)
  qed (simp add: hy)
  from wake_manager_ok [OF s3(6) i3 l3 ty this, of n] obtain k tq' where
    w: "wake_manager n t time s3 = (if hd ?ys = t \<and> time < resume_time (ker s) ?m then in_ker (rt_schedule n k) s3 else Ret () s3)"
    "in_time (s3\<lparr>ker := if hd ?ys = t \<and> time < resume_time (ker s) ?m then k else ker s3\<rparr>) ?ys rq tq'"
    "priority k = priority (ker s3)" by (auto simp: s3 f3)
  let ?c = "hd ?ys = t \<and> time < resume_time (ker s) ?m"
  have c: "?c \<longleftrightarrow> takeWhile (\<lambda>x. firing s x \<le> time) xs = [] \<and> time < resume_time (ker s) ?m"
    unfolding hy using t(1) by (cases xs) auto
  have sk: "in_ker r (s3\<lparr>ker := k\<rparr>) = in_ker r s3" for r :: "(kst, unit) sres" by (cases r) simp_all
  show ?thesis
    by (rule exI [of _ "s3\<lparr>ker := if ?c then k else ker s3\<rparr>"], rule exI [of _ tq'])
      (use w ins s3 in \<open>simp add: c [symmetric] sk\<close>)
qed

section \<open>Removal and change\<close>

lemma min_prio_loop_links:
  assumes "links (tnx s) (tpv s) a xs TimersList" and "TimersList \<notin> set xs"
  shows "min_prio_loop s a p = Some (fold (\<lambda>x p. min (tk_priority (tk s x)) p) xs p)"
  using assms
proof (induction xs arbitrary: a p)
  case Nil
  then show ?case by (subst min_prio_loop.simps) (simp add: Let_def)
next
  case (Cons x xs)
  have m: "(if f < p then f else p) = min f p" for f p :: int by simp
  show ?case by (subst min_prio_loop.simps) (use Cons in \<open>auto simp: Let_def m\<close>)
qed

text \<open>The smallest priority value of the timers, that of the head when there is none.\<close>

definition least_prio :: "tls \<Rightarrow> tknode list \<Rightarrow> int" where
  "least_prio s xs = (if xs = [] then tk_priority (tk s TimersList) else Min ((\<lambda>x. tk_priority (tk s x)) ` set xs))"

lemma fold_min: "fold (\<lambda>x p. min (f x) p) xs (p :: int) = Min (insert p (f ` set xs))"
proof (induction xs arbitrary: p)
  case (Cons x xs)
  have "fold (\<lambda>x p. min (f x) p) (x # xs) p = Min (insert (min (f x) p) (f ` set xs))" using Cons by simp
  also have "\<dots> = Min (insert p (insert (f x) (f ` set xs)))" by (cases "set xs = {}") (auto simp: min_def)
  finally show ?case by simp
qed simp

lemma asgn_min_prio_ok:
  assumes it: "in_time s xs rq tq" and p: "\<forall>x \<in> set xs. 0 \<le> tk_priority (tk s x)" "0 \<le> tk_priority (tk s TimersList)"
  shows "\<exists>s'. asgn_min_prio s = Some s' \<and> in_time s' xs rq tq \<and> tk s' = tk s \<and> manager s' = manager s
    \<and> priority (ker s') (manager s) = min (least_prio s xs) (priority (ker s) (manager s))"
proof -
  note i = in_timeD [OF it]
  have m: "min_prio_loop s (tk_next (tk s TimersList)) (tk_priority (tk s (tk_next (tk s TimersList)))) = Some (least_prio s xs)"
  proof (cases xs)
    case Nil
    have "links (tnx s) (tpv s) TimersList [] TimersList" using timers_okD(1) [OF i(1)] Nil by (simp add: ring_def)
    then show ?thesis using min_prio_loop_links [of s TimersList "[]"] by (simp add: least_prio_def Nil)
  next
    case (Cons x ys)
    then have "links (tnx s) (tpv s) x ys TimersList" "tk_next (tk s TimersList) = x" using timers_okD(1) [OF i(1)] by (auto simp: ring_def)
    then show ?thesis using min_prio_loop_links [of s x ys] timers_okD(7) [OF i(1)] by (simp add: least_prio_def Cons fold_min)
  qed
  have l: "0 \<le> least_prio s xs" using p by (simp add: least_prio_def)
  show ?thesis
  proof (cases "least_prio s xs < priority (ker s) (manager s)")
    case True
    let ?s = "set_task_prio (manager s) (least_prio s xs) s"
    have st: "state (ker s) (manager s) \<noteq> READY" "state (ker s) (manager s) \<noteq> READY OR RUNNING" using i(4) by auto
    have "priority (ker s) (manager s) < RT_LINUX_PRIORITY" using sched_invD(1) [OF i(2)] i(3) by (auto simp: task_wf_def)
    then have "sched_inv (ker ?s) rq tq" using inv_set_prio [OF i(2,6,7) l] True by simp
    then have "in_time ?s xs rq tq" using i by (simp add: in_time_def live_def)
    moreover have "asgn_min_prio s = Some ?s" using m True st by (simp add: asgn_min_prio_def Let_def)
    ultimately show ?thesis using True by auto
  next
    case False
    then show ?thesis using m it by (intro exI [of _ s]) (simp add: asgn_min_prio_def Let_def)
  qed
qed

lemma first_later:
  assumes "timers_ok s xs"
  shows "firing s (hd (xs @ [TimersList])) \<le> firing s (hd (remove1 t xs @ [TimersList]))"
proof (cases xs)
  case (Cons x ys)
  have "firing s x \<le> firing s y" if "y \<in> set ys" for y using timers_okD(2) [OF assms] that by (simp add: Cons)
  moreover have "firing s x \<le> firing s TimersList" using timers_okD(3,4) [OF assms] Cons by force
  ultimately show ?thesis by (cases ys) (auto simp: Cons)
qed simp

text \<open>C27: removing a timer takes it, and only it, out of the list, keeps the manager in time
  for the first timer, and gives the manager the priority of the most urgent timer that is left
  unless its own is higher.\<close>

theorem rt_remove_timer_ok:
  assumes it: "in_time s xs rq tq" and t: "t \<in> set xs" and p: "\<forall>x \<in> set xs. 0 \<le> tk_priority (tk s x)" "0 \<le> tk_priority (tk s TimersList)"
  shows "\<exists>s'. rt_remove_timer t s = Some s' \<and> in_time s' (remove1 t xs) rq tq \<and> \<not> tk_linked t s'
    \<and> priority (ker s') (manager s) = min (least_prio s (remove1 t xs)) (priority (ker s) (manager s))"
proof -
  note i = in_timeD [OF it]
  obtain s1 where s1: "detach t s = Some s1" "timers_ok s1 (remove1 t xs)" "links_only s s1" "\<not> tk_linked t s1"
    using detach_ok [OF i(1) t] by blast
  note l = links_onlyD [OF s1(3)] and d = payloadD [OF links_onlyD(5) [OF s1(3)]]
  have "in_time s1 (remove1 t xs) rq tq"
    using s1(2) i first_later [OF i(1), of t] unfolding in_time_def l d(2) by simp
  moreover have "\<forall>x \<in> set (remove1 t xs). 0 \<le> tk_priority (tk s1 x)" "0 \<le> tk_priority (tk s1 TimersList)"
    using p set_remove1_subset [of t xs] unfolding d(1) by blast+
  ultimately obtain s' where "asgn_min_prio s1 = Some s'" "in_time s' (remove1 t xs) rq tq" "tk s' = tk s1"
    "priority (ker s') (manager s1) = min (least_prio s1 (remove1 t xs)) (priority (ker s1) (manager s1))"
    using asgn_min_prio_ok by blast
  then show ?thesis using s1(1,4) timers_neighbours(1) [OF i(1) t]
    by (intro exI [of _ s']) (simp add: rt_remove_timer_def tk_linked_def least_prio_def l d)
qed

lemma rt_set_timer_firing_time_ok:
  assumes it: "in_time s xs rq tq" and t: "t \<in> set xs" and e: "time < RT_TIME_END"
  shows "\<exists>s1 k tq'. rt_set_timer_firing_time n t time s
      = (if hd (timer_insert s time t (remove1 t xs)) = t \<and> time < resume_time (ker s) (manager s) then in_ker (rt_schedule n k) s1 else Ret () s1)
    \<and> in_time (s1\<lparr>ker := if hd (timer_insert s time t (remove1 t xs)) = t \<and> time < resume_time (ker s) (manager s) then k else ker s1\<rparr>)
        (timer_insert s time t (remove1 t xs)) rq tq'"
proof -
  note i = in_timeD [OF it]
  let ?ys = "timer_insert s time t (remove1 t xs)"
  obtain s1 where s1: "set_timer_firing_time t time s = Some s1" "timers_ok s1 ?ys"
    "links_only (upd_tk t (\<lambda>x. x\<lparr>tk_firing_time := time\<rparr>) s) s1" using set_timer_firing_time_ok [OF i(1) t e] by blast
  note l = links_onlyD [OF s1(3)]
  have f: "firing s1 x = (if x = t then time else firing s x)" for x using payloadD(2) [OF l(5)] by (simp add: upd_tk_def)
  have k: "ker s1 = ker s" "manager s1 = manager s" using l by (simp_all add: upd_tk_def)
  have "resume_time (ker s1) (manager s1) \<le> firing s1 (hd (?ys @ [TimersList])) \<or> hd ?ys = t"
  proof (cases "takeWhile (\<lambda>x. firing s x \<le> time) (remove1 t xs) = []")
    case False
    then obtain y zs where y: "remove1 t xs = y # zs" "hd ?ys = y" by (cases "remove1 t xs") (auto simp: hd_insert)
    moreover have "?ys \<noteq> []" by (simp add: insert_after_while_def)
    ultimately show ?thesis using first_later [OF i(1), of t] i(5) by (auto simp: k f)
  qed (simp add: hd_insert)
  then obtain k tq' where w: "wake_manager n t (firing s1 t) s1
      = (if hd ?ys = t \<and> firing s1 t < resume_time (ker s1) (manager s1) then in_ker (rt_schedule n k) s1 else Ret () s1)"
    "in_time (s1\<lparr>ker := if hd ?ys = t \<and> firing s1 t < resume_time (ker s1) (manager s1) then k else ker s1\<rparr>) ?ys rq tq'"
    using wake_manager_ok [OF s1(2), of rq tq t n] i k by auto
  show ?thesis
    by (rule exI [of _ s1], rule exI [of _ k], rule exI [of _ tq']) (use w s1(1) in \<open>simp add: rt_set_timer_firing_time_def k f\<close>)
qed

end
