(* ===== verification/Example_Tasklets.thy ===== *)
theory Example_Tasklets
  imports Tasklet_Calls Example_State
begin

text \<open>
  The properties of the timers applied to two of them: \<open>Obj 1\<close> fires once at 1500 with priority 5, \<open>Obj 2\<close>
  every 200 from 1600 on with priority 2.  Task 3 of \<open>kern\<close>, which sleeps until 1500, is the manager.
\<close>

definition demo_timer :: "tknode \<Rightarrow> tknode \<Rightarrow> int \<Rightarrow> rtime \<Rightarrow> rtime \<Rightarrow> tasklet" where
  "demo_timer nx pv p f per = zero_tasklet\<lparr>tk_next := nx, tk_prev := pv, tk_priority := p, tk_firing_time := f,
     tk_period := per, tk_handler := Some 7\<rparr>"

definition demo_tls :: tls where
  "demo_tls = \<lparr>tk = (\<lambda>t. zero_tasklet)(TimersList := (timers_init TimersList)\<lparr>tk_next := Obj 1, tk_prev := Obj 2\<rparr>,
       TaskletsList := timers_init TaskletsList,
       Obj 1 := demo_timer (Obj 2) TimersList 5 1500 0, Obj 2 := demo_timer TimersList (Obj 1) 2 1600 200),
     user = (\<lambda>_. zero_tasklet), manager = 3, timers_tol = 5, ker = kern\<rparr>"

lemma demo_tls_fields [simp]:
  "tk demo_tls = (\<lambda>t. zero_tasklet)(TimersList := (timers_init TimersList)\<lparr>tk_next := Obj 1, tk_prev := Obj 2\<rparr>,
     TaskletsList := timers_init TaskletsList,
     Obj 1 := demo_timer (Obj 2) TimersList 5 1500 0, Obj 2 := demo_timer TimersList (Obj 1) 2 1600 200)"
  "manager demo_tls = 3" "timers_tol demo_tls = 5" "ker demo_tls = kern"
  by (simp_all add: demo_tls_def)

lemma demo_timer_fields [simp]:
  "tk_next (demo_timer nx pv p f per) = nx" "tk_prev (demo_timer nx pv p f per) = pv" "tk_priority (demo_timer nx pv p f per) = p"
  "tk_firing_time (demo_timer nx pv p f per) = f" "tk_period (demo_timer nx pv p f per) = per"
  "tk_handler (demo_timer nx pv p f per) = Some 7" "tk_data (demo_timer nx pv p f per) = 0" "tk_task (demo_timer nx pv p f per) = None"
  by (simp_all add: demo_timer_def zero_tasklet_def)

lemma demo_timers: "timers_ok demo_tls [Obj 1, Obj 2]"
  by (simp add: timers_ok_def ring_def timers_init_def)

lemma demo_in_time: "in_time demo_tls [Obj 1, Obj 2] [1, 2] [3]"
  unfolding in_time_def using demo_timers kern_inv by simp


theorem rt_insert_timer_ok_witness:
  "\<exists>s1 tq1. rt_insert_timer 3 (Obj 3) 1 1200 0 (Some 9) 0 0 demo_tls = res_bind (in_ker (rt_schedule 3 (ker s1)) s1) (\<lambda>_. Ret 0)
    \<and> in_time s1 [Obj 3, Obj 1, Obj 2] [1, 2] tq1 \<and> priority (ker s1) (manager s1) = 1"
  using rt_insert_timer_ok [OF demo_in_time, of "Obj 3" 1200 1 3 0 9 0] by (simp add: insert_after_while_def)

theorem rt_remove_timer_ok_witness:
  "\<exists>s'. rt_remove_timer (Obj 1) demo_tls = Some s' \<and> in_time s' [Obj 2] [1, 2] [3] \<and> \<not> tk_linked (Obj 1) s'
    \<and> priority (ker s') 3 = 2"
  using rt_remove_timer_ok [OF demo_in_time, of "Obj 1"] by (simp add: least_prio_def timers_init_def)

end
