(* ===== verification/Bits.thy ===== *)
theory Bits
  imports Semaphores
begin

text \<open>
  The bit synchronisation objects of \<^verbatim>\<open>bits/rtai_bits.c\<close>: a mask of 32 bits on which tasks wait until a test
  of some of its bits holds.  The objects are the component \<open>bits\<close>, the scheduler's state is \<open>bker\<close>; what a
  task waits for is its field \<open>bits_test\<close>, the two halves of \<^verbatim>\<open>retval\<close>.

  The combined tests and \<open>set_clr_bits\<close> take two masks from one argument of 32 bits: \<^verbatim>\<open>MASK1\<close> reads
  the word behind the argument, whatever the stack holds there.  That word is an argument of its own, \<open>u\<close>;
  for the tests of waiting tasks it is a function of the task.

  The module is built without \<^verbatim>\<open>CONFIG_SMP\<close>: \<^verbatim>\<open>rt_schedule_map\<close> is then \<open>nop_fun\<close>, and the services
  that release tasks do not reschedule.
\<close>

section \<open>Data\<close>

abbreviation RT_BITS_MAGIC :: int where "RT_BITS_MAGIC \<equiv> 0xaabcdeff"
abbreviation BITS_ERR :: int where "BITS_ERR \<equiv> 0xffff"
abbreviation BITS_TIMOUT :: int where "BITS_TIMOUT \<equiv> 0xfffe"

record bits_obj =
  bits_magic :: int
  bits_mask :: "32 word"

record bst =
  bits :: "nat \<Rightarrow> bits_obj"
  bker :: kst

type_synonym 'a bres = "(bst, 'a) sres"

abbreviation in_bker :: "(kst, 'a) sres \<Rightarrow> bst \<Rightarrow> 'a bres" where
  "in_bker \<equiv> lift_res bker (\<lambda>k s. s\<lparr>bker := k\<rparr>)"

abbreviation mask_of :: "nat \<Rightarrow> bst \<Rightarrow> 32 word" where "mask_of b s \<equiv> bits_mask (bits s b)"

definition set_mask :: "nat \<Rightarrow> 32 word \<Rightarrow> bst \<Rightarrow> bst" where
  "set_mask b m s = s\<lparr>bits := (bits s)(b := (bits s b)\<lparr>bits_mask := m\<rparr>)\<rparr>"

section \<open>Tests and changes of the mask\<close>

definition all_set :: "32 word \<Rightarrow> 32 word \<Rightarrow> bool" where "all_set x m \<longleftrightarrow> x AND m = m"
definition any_set :: "32 word \<Rightarrow> 32 word \<Rightarrow> bool" where "any_set x m \<longleftrightarrow> x AND m \<noteq> 0"
definition all_clr :: "32 word \<Rightarrow> 32 word \<Rightarrow> bool" where "all_clr x m \<longleftrightarrow> NOT x AND m = m"
definition any_clr :: "32 word \<Rightarrow> 32 word \<Rightarrow> bool" where "any_clr x m \<longleftrightarrow> NOT x AND m \<noteq> 0"

text \<open>The table: the mask of the object, the first and the second mask of the test.\<close>

definition test_fun :: "nat \<Rightarrow> (32 word \<Rightarrow> 32 word \<Rightarrow> 32 word \<Rightarrow> bool) option" where
  "test_fun f = (let t = [
      \<lambda>x m u. all_set x m,
      \<lambda>x m u. any_set x m,
      \<lambda>x m u. all_clr x m,
      \<lambda>x m u. any_clr x m,
      \<lambda>x m u. any_set x u \<and> all_set x m,
      \<lambda>x m u. all_set x m \<and> all_clr x u,
      \<lambda>x m u. all_set x m \<and> any_clr x u,
      \<lambda>x m u. any_set x m \<and> all_clr x u,
      \<lambda>x m u. any_set x m \<and> any_clr x u,
      \<lambda>x m u. any_clr x u \<and> all_clr x m,
      \<lambda>x m u. any_set x u \<or> all_set x m,
      \<lambda>x m u. all_set x m \<or> all_clr x u,
      \<lambda>x m u. all_set x m \<or> any_clr x u,
      \<lambda>x m u. any_set x m \<or> all_clr x u,
      \<lambda>x m u. any_set x m \<or> any_clr x u,
      \<lambda>x m u. any_clr x u \<or> all_clr x m] in
    if f < length t then Some (t ! f) else None)"

definition exec_fun :: "nat \<Rightarrow> (32 word \<Rightarrow> 32 word \<Rightarrow> 32 word \<Rightarrow> 32 word) option" where
  "exec_fun f = (let t = [
      \<lambda>x m u. x OR m,
      \<lambda>x m u. x AND NOT m,
      \<lambda>x m u. (x OR m) AND NOT u,
      \<lambda>x m u. x] in
    if f < length t then Some (t ! f) else None)"

section \<open>Life cycle\<close>

definition rt_bits_init :: "nat \<Rightarrow> 32 word \<Rightarrow> bst \<Rightarrow> bst" where
  "rt_bits_init b m s =
     (let k = bker s in
      s\<lparr>bits := (bits s)(b := \<lparr>bits_magic = RT_BITS_MAGIC, bits_mask = m\<rparr>),
        bker := k\<lparr>qprev := (qprev k)(BitsQ b := BitsQ b), qnext := (qnext k)(BitsQ b := BitsQ b),
                  qtask := (qtask k)(BitsQ b := NULL)\<rparr>\<rparr>)"

text \<open>The tail of the queue; \<^verbatim>\<open>enqueue_blocked\<close> of this module.\<close>

definition bits_enqueue :: "tid \<Rightarrow> qnode \<Rightarrow> kst \<Rightarrow> kst" where
  "bits_enqueue t q k = link_queue (TaskQ t) q (k\<lparr>blocked_on := (blocked_on k)(t := Some q)\<rparr>)"

definition bits_wake :: "tid \<Rightarrow> kst \<Rightarrow> kst option" where
  "bits_wake t k =
     (let k1 = rem_timed_task t k in
      if state k1 t AND NOT (READY OR RUNNING) \<noteq> 0 then
        let k2 = and_not_state t (SEMAPHORE OR DELAYED) k1 in
        if state k2 t = READY then enq_ready_task t k2 else Some k2
      else Some k1)"

text \<open>\<open>None\<close> where the walk does not end or a queued structure belongs to no task.\<close>

partial_function (option) delete_loop :: "qnode \<Rightarrow> qnode \<Rightarrow> kst \<Rightarrow> kst option" where
  "delete_loop head q k =
     (if qnext k q = head then Some k
      else (case qtask k (qnext k q) of
              Task t \<Rightarrow> do { k1 \<leftarrow> bits_wake t k; delete_loop head (qnext k q) k1 }
            | NULL \<Rightarrow> Some k
            | Num n \<Rightarrow> None))"

declare delete_loop.simps [code]

definition rt_bits_delete :: "nat \<Rightarrow> bst \<Rightarrow> (int \<times> bst) option" where
  "rt_bits_delete b s =
     (if bits_magic (bits s b) \<noteq> RT_BITS_MAGIC then Some (BITS_ERR, s)
      else do {
        k \<leftarrow> delete_loop (BitsQ b) (BitsQ b) (bker s);
        Some (0, s\<lparr>bits := (bits s)(b := (bits s b)\<lparr>bits_magic := 0\<rparr>), bker := k\<rparr>)
      })"

section \<open>Reset and signal\<close>

definition rt_get_bits :: "nat \<Rightarrow> bst \<Rightarrow> 32 word" where
  "rt_get_bits b s = bits_mask (bits s b)"

partial_function (option) reset_loop :: "qnode \<Rightarrow> qnode \<Rightarrow> kst \<Rightarrow> kst option" where
  "reset_loop head q k =
     (if q = head then Some k
      else (case qtask k q of
              Task t \<Rightarrow> do { k1 \<leftarrow> bits_wake t (dequeue_blocked t k); reset_loop head (qnext k1 q) k1 }
            | NULL \<Rightarrow> None
            | Num n \<Rightarrow> None))"

declare reset_loop.simps [code]

definition rt_bits_reset :: "nat \<Rightarrow> 32 word \<Rightarrow> bst \<Rightarrow> (int \<times> bst) option" where
  "rt_bits_reset b m s =
     (if bits_magic (bits s b) \<noteq> RT_BITS_MAGIC then Some (BITS_ERR, s)
      else do {
        k \<leftarrow> reset_loop (BitsQ b) (qnext (bker s) (BitsQ b)) (bker s);
        Some (sint (mask_of b s), (set_mask b m s)\<lparr>bker := k\<lparr>qprev := (qprev k)(BitsQ b := BitsQ b),
          qnext := (qnext k)(BitsQ b := BitsQ b)\<rparr>\<rparr>)
      })"

partial_function (option) signal_loop ::
    "(tid \<Rightarrow> 32 word) \<Rightarrow> 32 word \<Rightarrow> qnode \<Rightarrow> qnode \<Rightarrow> kst \<Rightarrow> kst option" where
  "signal_loop u x head q k =
     (if q = head then Some k
      else (case qtask k q of
              Task t \<Rightarrow> do {
                f \<leftarrow> test_fun (fst (bits_test k t));
                k1 \<leftarrow> (if f x (snd (bits_test k t)) (u t) then bits_wake t (dequeue_blocked t k) else Some k);
                signal_loop u x head (qnext k1 q) k1
              }
            | NULL \<Rightarrow> None
            | Num n \<Rightarrow> None))"

declare signal_loop.simps [code]

definition rt_bits_signal :: "(tid \<Rightarrow> 32 word) \<Rightarrow> 32 word \<Rightarrow> nat \<Rightarrow> nat \<Rightarrow> 32 word \<Rightarrow> bst \<Rightarrow> (32 word \<times> bst) option" where
  "rt_bits_signal u u0 b setfun masks s =
     (if bits_magic (bits s b) \<noteq> RT_BITS_MAGIC then Some (0xffff, s)
      else do {
        g \<leftarrow> exec_fun setfun;
        let x = g (mask_of b s) masks u0;
        k \<leftarrow> signal_loop u x (BitsQ b) (qnext (bker s) (BitsQ b)) (bker s);
        Some (x, (set_mask b x s)\<lparr>bker := k\<rparr>)
      })"

section \<open>Waiting\<close>

text \<open>The end of a wait: the change of the mask on leaving.\<close>

definition bits_exit :: "32 word \<Rightarrow> nat \<Rightarrow> nat \<Rightarrow> 32 word \<Rightarrow> int \<Rightarrow> bst \<Rightarrow> (int \<times> 32 word option) bres" where
  "bits_exit u b exitfun exitmasks r s =
     lift_opt (exec_fun exitfun) (\<lambda>g. Ret (r, Some (mask_of b s)) (set_mask b (g (mask_of b s) exitmasks u) s))"

text \<open>The results are the value returned and what is written to \<^verbatim>\<open>*resulting_mask\<close>.\<close>

definition rt_bits_wait ::
    "nat \<Rightarrow> 32 word \<Rightarrow> 32 word \<Rightarrow> nat \<Rightarrow> nat \<Rightarrow> 32 word \<Rightarrow> nat \<Rightarrow> 32 word \<Rightarrow> bst \<Rightarrow> (int \<times> 32 word option) bres" where
  "rt_bits_wait n u u' b testfun testmasks exitfun exitmasks s =
     (if bits_magic (bits s b) \<noteq> RT_BITS_MAGIC then Ret (BITS_ERR, None) s
      else lift_opt (test_fun testfun) (\<lambda>f.
        if \<not> f (mask_of b s) testmasks u then
          let k = bker s; cur = rt_current k;
              k1 = or_state cur SEMAPHORE (k\<lparr>bits_test := (bits_test k)(cur := (testfun, testmasks))\<rparr>) in
          lift_opt (rem_ready_current cur k1) (\<lambda>k2.
            res_bind (in_bker (rt_schedule n (bits_enqueue cur (BitsQ b) k2)) s) (\<lambda>_ s3.
              if blocked_on (bker s3) cur \<noteq> None \<or> bits_magic (bits s3 b) \<noteq> RT_BITS_MAGIC
              then Ret (BITS_ERR, Some (mask_of b s3))
                     (s3\<lparr>bker := (bker s3)\<lparr>prio_passed_to := (prio_passed_to (bker s3))(cur := None)\<rparr>\<rparr>)
              else bits_exit u' b exitfun exitmasks 0 s3))
        else bits_exit u' b exitfun exitmasks 0 s))"

definition rt_bits_wait_if ::
    "32 word \<Rightarrow> 32 word \<Rightarrow> nat \<Rightarrow> nat \<Rightarrow> 32 word \<Rightarrow> nat \<Rightarrow> 32 word \<Rightarrow> bst \<Rightarrow> (int \<times> 32 word option) bres" where
  "rt_bits_wait_if u u' b testfun testmasks exitfun exitmasks s =
     (if bits_magic (bits s b) \<noteq> RT_BITS_MAGIC then Ret (BITS_ERR, None) s
      else lift_opt (test_fun testfun) (\<lambda>f.
        if f (mask_of b s) testmasks u then bits_exit u' b exitfun exitmasks 1 s
        else Ret (0, Some (mask_of b s)) s))"

text \<open>The end of a wait with a time limit.\<close>

definition bits_wait_end :: "32 word \<Rightarrow> tid \<Rightarrow> nat \<Rightarrow> nat \<Rightarrow> 32 word \<Rightarrow> bst \<Rightarrow> (int \<times> 32 word option) bres" where
  "bits_wait_end u cur b exitfun exitmasks s =
     (if bits_magic (bits s b) \<noteq> RT_BITS_MAGIC
      then Ret (BITS_ERR, Some (mask_of b s))
             (s\<lparr>bker := (bker s)\<lparr>prio_passed_to := (prio_passed_to (bker s))(cur := None)\<rparr>\<rparr>)
      else if blocked_on (bker s) cur \<noteq> None
      then Ret (BITS_TIMOUT, Some (mask_of b s)) (s\<lparr>bker := dequeue_blocked cur (bker s)\<rparr>)
      else bits_exit u b exitfun exitmasks 0 s)"

definition rt_bits_wait_until ::
    "nat \<Rightarrow> 32 word \<Rightarrow> 32 word \<Rightarrow> nat \<Rightarrow> nat \<Rightarrow> 32 word \<Rightarrow> nat \<Rightarrow> 32 word \<Rightarrow> rtime \<Rightarrow> bst \<Rightarrow> (int \<times> 32 word option) bres" where
  "rt_bits_wait_until n u u' b testfun testmasks exitfun exitmasks time s =
     (if bits_magic (bits s b) \<noteq> RT_BITS_MAGIC then Ret (BITS_ERR, None) s
      else lift_opt (test_fun testfun) (\<lambda>f.
        if \<not> f (mask_of b s) testmasks u then
          let k = bker s; cur = rt_current k;
              (now, k1) = rt_get_time (k\<lparr>bits_test := (bits_test k)(cur := (testfun, testmasks)),
                 blocked_on := (blocked_on k)(cur := Some (BitsQ b)), resume_time := (resume_time k)(cur := time)\<rparr>) in
          if time > now then
            lift_opt (do {
              k2 \<leftarrow> rem_ready_current cur (or_state cur (SEMAPHORE OR DELAYED) k1);
              enq_timed_task cur (bits_enqueue cur (BitsQ b) k2)
            }) (\<lambda>k3. res_bind (in_bker (rt_schedule n k3) s) (\<lambda>_. bits_wait_end u' cur b exitfun exitmasks))
          else bits_wait_end u' cur b exitfun exitmasks
            (s\<lparr>bker := k1\<lparr>qprev := (qprev k1)(TaskQ cur := TaskQ cur), qnext := (qnext k1)(TaskQ cur := TaskQ cur)\<rparr>\<rparr>)
        else bits_exit u' b exitfun exitmasks 0 s))"

definition rt_bits_wait_timed ::
    "nat \<Rightarrow> 32 word \<Rightarrow> 32 word \<Rightarrow> nat \<Rightarrow> nat \<Rightarrow> 32 word \<Rightarrow> nat \<Rightarrow> 32 word \<Rightarrow> rtime \<Rightarrow> bst \<Rightarrow> (int \<times> 32 word option) bres" where
  "rt_bits_wait_timed n u u' b testfun testmasks exitfun exitmasks delay s =
     (let (now, k) = rt_get_time (bker s) in
      rt_bits_wait_until n u u' b testfun testmasks exitfun exitmasks (now + delay) (s\<lparr>bker := k\<rparr>))"

end
