(* ===== verification/Bits_Props.thy ===== *)
theory Bits_Props
  imports Bits Message_Props
begin

text \<open>
  What the services of the bit objects guarantee: a signal releases exactly the waiting tasks whose
  test the new mask satisfies, whatever their place in the queue, and leaves the others in their order;
  a reset releases them all; a wait whose test does not hold queues the caller at the end.
\<close>

section \<open>Waking a task that waits for bits\<close>

lemma waiting_state:
  fixes w :: "32 word"
  assumes "w AND SEMAPHORE \<noteq> 0"
  shows "w AND NOT (READY OR RUNNING) \<noteq> 0" and "w \<noteq> READY"
proof -
  have "w AND SEMAPHORE = (w AND NOT (READY OR RUNNING)) AND SEMAPHORE"
    by (simp add: and.assoc)
  then show "w AND NOT (READY OR RUNNING) \<noteq> 0" using assms by auto
  show "w \<noteq> READY" using assms by auto
qed

lemma bits_wake_eq:
  assumes "state s t AND SEMAPHORE \<noteq> 0"
  shows "bits_wake t s = map_option snd (wake_blocked (SEMAPHORE OR DELAYED) t s)"
proof -
  have e: "state (rem_timed_task t s) = state s" by (simp add: rem_timed_task_def)
  show ?thesis
    unfolding bits_wake_def wake_blocked_def Let_def e using waiting_state [OF assms]
    by (cases "enq_ready_task t (and_not_state t (SEMAPHORE OR DELAYED) (rem_timed_task t s))") simp_all
qed

lemma wake_blocked_bits_test:
  assumes "wake_blocked w t s = Some (b, s')"
  shows "bits_test s' = bits_test s"
proof -
  have e: "bits_test s2 = bits_test s1" if "enq_ready_task t s1 = Some s2" for s1 s2
    using enq_ready_cases [OF that] by (elim disjE exE) (simp_all add: link_ready_def pend_wake_up_def)
  let ?r = "rem_timed_task t s" and ?a = "and_not_state t w (rem_timed_task t s)"
  have a: "bits_test ?r = bits_test s" "bits_test ?a = bits_test s"
    by (simp_all add: rem_timed_task_def unlink_timed_def and_not_state_def)
  have "s' = ?r \<or> s' = ?a \<or> enq_ready_task t ?a = Some s'"
    using assms unfolding wake_blocked_def Let_def by (simp add: bind_eq_Some_conv split: if_splits)
  then show ?thesis using a e by metis
qed

abbreviation set_free :: "tid set \<Rightarrow> kst \<Rightarrow> kst \<Rightarrow> bool" where
  "set_free R s s' \<equiv> state s' = (\<lambda>y. if y \<in> R then state s y AND NOT (SEMAPHORE OR DELAYED) else state s y)
     \<and> blocked_on s' = (\<lambda>y. if y \<in> R then None else blocked_on s y)
     \<and> rt_current s' = rt_current s \<and> magic s' = magic s \<and> bits_test s' = bits_test s
     \<and> qtask s' = qtask s"

text \<open>One task leaves its queue, wherever it stands there, and becomes ready.\<close>

lemma bits_release:
  assumes b: "blocked_queues s H qs" and h: "h \<in> H" and t: "t \<in> set (qs h)" and i: "sched_inv s rq tq"
    and l: "live s t" and w: "state s t AND SEMAPHORE \<noteq> 0"
  shows "\<exists>s' rq'. bits_wake t (dequeue_blocked t s) = Some s' \<and> sched_inv s' rq' (remove1 t tq)
     \<and> blocked_queues s' H (qs(h := remove1 t (qs h))) \<and> set_free {t} s s'
     \<and> qnext s' (TaskQ t) = qnext s (TaskQ t)"
proof -
  let ?d = "dequeue_blocked t s"
  have id: "sched_inv ?d rq tq" by (rule same_sched_inv [OF same_sched_dequeue i])
  have ld: "live ?d t" using l by (simp add: live_def)
  obtain s' rq' where r: "wake_blocked (SEMAPHORE OR DELAYED) t ?d =
       Some (state ?d t \<noteq> READY \<and> state ?d t AND NOT (SEMAPHORE OR DELAYED) = READY, s')"
    "sched_inv s' rq' (remove1 t tq)" "release_frame ?d s'"
    "state s' = (if state ?d t = READY then state ?d else (state ?d)(t := state ?d t AND NOT (SEMAPHORE OR DELAYED)))"
    "blocked_on s' = blocked_on ?d"
    using wake_blocked_ok [OF id ld, of SEMAPHORE] by (elim exE conjE)
  have 1: "bits_wake t ?d = Some s'" using r(1) bits_wake_eq [of ?d t] w by simp
  have f: "qnext s' = qnext ?d" "qprev s' = qprev ?d" "qtask s' = qtask ?d"
    "rt_current s' = rt_current s" "magic s' = magic s" using r(3) by (simp_all add: release_frame_def)
  have 2: "blocked_queues s' H (qs(h := remove1 t (qs h)))"
    using dequeue_blocked_queues [OF b h t] blocked_queues_same [OF f(1-3)] by simp
  have "state s' = (state s)(t := state s t AND NOT (SEMAPHORE OR DELAYED))"
    using r(4) waiting_state(2) [OF w] by simp
  then have 3: "state s' = (\<lambda>y. if y \<in> {t} then state s y AND NOT (SEMAPHORE OR DELAYED) else state s y)"
    by (simp only: fun_eq_iff) simp
  have 4: "blocked_on s' = (\<lambda>y. if y \<in> {t} then None else blocked_on s y)" using r(5) by (simp only: fun_eq_iff) simp
  have 5: "bits_test s' = bits_test s"
    using wake_blocked_bits_test [OF r(1)] by (simp add: dequeue_blocked_def Let_def unlink_queue_def)
  have 6: "qtask s' = qtask s" using f(3) by simp
  obtain as bs where q: "qs h = as @ t # bs" using t by (meson split_list)
  have "links (qnext s) (qprev s) h (map TaskQ as) (TaskQ t)" "h \<noteq> TaskQ t" "t \<notin> set as"
    using blocked_queues_ring [OF b h] unfolding q by (auto simp: links_append)
  then have p: "qprev s (TaskQ t) \<noteq> TaskQ t" by (auto dest!: links_last simp: last_map split: if_splits)
  then have 7: "qnext s' (TaskQ t) = qnext s (TaskQ t)"
    using f(1) by (simp add: dequeue_blocked_def Let_def unlink_queue_def unlink_nx_def)
  show ?thesis by (intro exI conjI, rule 1, rule r(2), rule 2, rule 3, rule 4, rule f(4), rule f(5), rule 5, rule 6, rule 7)
qed


section \<open>Signal\<close>

text \<open>The test of a waiting task on the mask \<open>x\<close>; \<open>u\<close> is what lies behind the masks of the test.\<close>

definition bits_hold :: "(tid \<Rightarrow> 32 word) \<Rightarrow> 32 word \<Rightarrow> (tid \<Rightarrow> nat \<times> 32 word) \<Rightarrow> tid \<Rightarrow> bool" where
  "bits_hold u x bt t = the (test_fun (fst (bt t))) x (snd (bt t)) (u t)"

lemma test_fun_some: "f < 16 \<Longrightarrow> test_fun f = Some (the (test_fun f))"
  by (simp add: test_fun_def)

lemma filter_remove1_timed:
  assumes "distinct tq"
  shows "filter (\<lambda>y. y \<notin> R) (remove1 t tq) = filter (\<lambda>y. y \<notin> insert t R) tq"
  using assms by (simp add: distinct_remove1_removeAll removeAll_filter_not_eq filter_filter) metis

lemma remove1_middle: "distinct (ks @ t # ws) \<Longrightarrow> remove1 t (ks @ t # ws) = ks @ ws"
  by (simp add: remove1_append)

lemma set_free_step:
  assumes "set_free {t} s s1" and "set_free R s1 s'" and "t \<notin> R"
  shows "set_free (insert t R) s s'"
  using assms by (simp only: fun_eq_iff) auto

lemma queue_next_at:
  assumes b: "blocked_queues s H qs" and h: "h \<in> H" and q: "qs h = ks @ t # ws"
  shows "qnext s (TaskQ t) = hd (map TaskQ ws @ [h])" "TaskQ t \<noteq> h" "qtask s (TaskQ t) = Task t"
proof -
  have "links (qnext s) (qprev s) h (map TaskQ ks @ TaskQ t # map TaskQ ws) h"
    using blocked_queues_ring(1) [OF b h] q by simp
  then have "links (qnext s) (qprev s) (TaskQ t) (map TaskQ ws) h" by (simp add: links_append)
  then show "qnext s (TaskQ t) = hd (map TaskQ ws @ [h])" by (rule links_first)
  show "TaskQ t \<noteq> h" "qtask s (TaskQ t) = Task t"
    using blocked_queues_ring(2,4) [OF b h] q by auto
qed

lemma signal_loop_ok:
  assumes "blocked_queues s H qs" and "h \<in> H" and "qs h = ks @ ws" and "sched_inv s rq tq"
    and "\<forall>t \<in> set ws. live s t \<and> state s t AND SEMAPHORE \<noteq> 0 \<and> fst (bits_test s t) < 16"
    and "distinct (ks @ ws)"
  shows "\<exists>s' rq'. signal_loop u x h (hd (map TaskQ ws @ [h])) s = Some s'
     \<and> sched_inv s' rq' (filter (\<lambda>y. y \<notin> {t \<in> set ws. bits_hold u x (bits_test s) t}) tq)
     \<and> blocked_queues s' H (qs(h := ks @ filter (\<lambda>t. \<not> bits_hold u x (bits_test s) t) ws))
     \<and> set_free {t \<in> set ws. bits_hold u x (bits_test s) t} s s'"
  using assms
proof (induction ws arbitrary: s rq tq qs ks)
  case Nil
  have e: "signal_loop u x h h s = Some s" by (subst signal_loop.simps) simp
  have "qs(h := ks) = qs" using Nil(3) by (simp add: fun_upd_idem)
  then show ?case
    using e Nil(1,4) by (intro exI [where x = s] exI [where x = rq] conjI) (simp_all del: fun_upd_apply)
next
  case (Cons t ws)
  let ?T = "bits_hold u x (bits_test s)"
  note n = queue_next_at [OF Cons.prems(1-3)]
  have tp: "live s t" "state s t AND SEMAPHORE \<noteq> 0" "fst (bits_test s t) < 16" using Cons.prems(5) by auto
  have step: "signal_loop u x h (TaskQ t) s =
      (if ?T t then do { k \<leftarrow> bits_wake t (dequeue_blocked t s); signal_loop u x h (qnext k (TaskQ t)) k }
       else signal_loop u x h (hd (map TaskQ ws @ [h])) s)"
  proof -
    obtain f where f: "test_fun (fst (bits_test s t)) = Some f" using test_fun_some [OF tp(3)] by blast
    then show ?thesis using n by (subst signal_loop.simps) (simp add: bits_hold_def)
  qed
  have d: "distinct (ks @ ws)" "t \<notin> set ws" "distinct tq"
    using Cons.prems(6) sched_invD(4) [OF Cons.prems(4)] by (auto simp: timed_list_def ring_def)
  show ?case
  proof (cases "?T t")
    case False
    have q: "qs h = (ks @ [t]) @ ws" "distinct ((ks @ [t]) @ ws)" using Cons.prems(3,6) by simp_all
    have 1: "{y \<in> set (t # ws). ?T y} = {y \<in> set ws. ?T y}" "filter (\<lambda>y. \<not> ?T y) (t # ws) = t # filter (\<lambda>y. \<not> ?T y) ws"
      using False by auto
    have p: "\<forall>t \<in> set ws. live s t \<and> state s t AND SEMAPHORE \<noteq> 0 \<and> fst (bits_test s t) < 16"
      using Cons.prems(5) by simp
    show ?thesis
      using Cons.IH [OF Cons.prems(1,2) q(1) Cons.prems(4) p q(2)] False
      unfolding 1 by (simp add: step del: fun_upd_apply)
  next
    case True
    have tin: "t \<in> set (qs h)" using Cons.prems(3) by simp
    obtain s1 rq1 where s1: "bits_wake t (dequeue_blocked t s) = Some s1" "sched_inv s1 rq1 (remove1 t tq)"
      "blocked_queues s1 H (qs(h := remove1 t (qs h)))" "set_free {t} s s1" "qnext s1 (TaskQ t) = qnext s (TaskQ t)"
      using bits_release [OF Cons.prems(1,2) tin Cons.prems(4) tp(1,2)] by (elim exE conjE) blast
    have r: "(qs(h := remove1 t (qs h))) h = ks @ ws"
      using Cons.prems(3,6) remove1_middle by simp
    have bt: "bits_test s1 = bits_test s" using s1(4) by blast
    have "state s1 y = state s y \<and> live s1 y = live s y" if "y \<noteq> t" for y using s1(4) that by (simp add: live_def)
    then have p: "\<forall>y \<in> set ws. live s1 y \<and> state s1 y AND SEMAPHORE \<noteq> 0 \<and> fst (bits_test s1 y) < 16"
      using Cons.prems(5) d(2) bt by (metis list.set_intros(2))
    obtain s' rq' where s': "signal_loop u x h (hd (map TaskQ ws @ [h])) s1 = Some s'"
      "sched_inv s' rq' (filter (\<lambda>y. y \<notin> {t \<in> set ws. ?T t}) (remove1 t tq))"
      "blocked_queues s' H ((qs(h := remove1 t (qs h)))(h := ks @ filter (\<lambda>t. \<not> ?T t) ws))"
      "set_free {t \<in> set ws. ?T t} s1 s'"
      using Cons.IH [OF s1(3) Cons.prems(2) r s1(2) p d(1)] unfolding bt by (elim exE conjE) blast
    have 0: "{y \<in> set (t # ws). ?T y} = insert t {y \<in> set ws. ?T y}"
      "filter (\<lambda>y. \<not> ?T y) (t # ws) = filter (\<lambda>y. \<not> ?T y) ws" using True by auto
    have 1: "signal_loop u x h (hd (map TaskQ (t # ws) @ [h])) s = Some s'"
      using step True s1(1,5) s'(1) n(1) by simp
    have 2: "sched_inv s' rq' (filter (\<lambda>y. y \<notin> {y \<in> set (t # ws). ?T y}) tq)"
      using s'(2) unfolding filter_remove1_timed [OF d(3)] 0(1) [symmetric] .
    have 3: "blocked_queues s' H (qs(h := ks @ filter (\<lambda>t. \<not> ?T t) (t # ws)))"
      unfolding 0 using s'(3) by (simp only: fun_upd_upd)
    have 4: "set_free {y \<in> set (t # ws). ?T y} s s'"
      unfolding 0 by (rule set_free_step [OF s1(4) s'(4)]) (use d(2) in simp)
    show ?thesis by (rule exI [of _ s'], rule exI [of _ rq'], intro conjI, rule 1, rule 2, rule 3) (use 4 in blast)+
  qed
qed


text \<open>A signal changes the mask and releases exactly the waiting tasks whose test holds of it.\<close>

text \<open>C11: a signal of a bit object changes the mask, terminates, and releases exactly the
  waiting tasks whose test the new mask satisfies, wherever they stand in the queue, leaving the
  others waiting in their order; it does not reschedule.\<close>

lemma rt_bits_signal_ok:
  assumes b: "blocked_queues (bker s) H qs" and h: "BitsQ x \<in> H" and i: "sched_inv (bker s) rq tq"
    and m: "bits_magic (bits s x) = RT_BITS_MAGIC" and g: "exec_fun setfun = Some g"
    and w: "\<forall>t \<in> set (qs (BitsQ x)). live (bker s) t \<and> state (bker s) t AND SEMAPHORE \<noteq> 0
              \<and> fst (bits_test (bker s) t) < 16"
  shows "\<exists>s' rq'. rt_bits_signal u u0 x setfun masks s = Some (g (mask_of x s) masks u0, s')
     \<and> mask_of x s' = g (mask_of x s) masks u0
     \<and> (let goes = bits_hold u (g (mask_of x s) masks u0) (bits_test (bker s)); R = {t \<in> set (qs (BitsQ x)). goes t} in
          sched_inv (bker s') rq' (filter (\<lambda>t. t \<notin> R) tq)
        \<and> blocked_queues (bker s') H (qs(BitsQ x := filter (\<lambda>t. \<not> goes t) (qs (BitsQ x))))
        \<and> state (bker s') = (\<lambda>t. if t \<in> R then state (bker s) t AND NOT (SEMAPHORE OR DELAYED) else state (bker s) t)
        \<and> blocked_on (bker s') = (\<lambda>t. if t \<in> R then None else blocked_on (bker s) t)
        \<and> rt_current (bker s') = rt_current (bker s))"
proof -
  let ?x = "g (mask_of x s) masks u0" and ?q = "qs (BitsQ x)"
  have d: "distinct ([] @ ?q)" using blocked_queues_ring(3) [OF b h] by simp
  have n: "qnext (bker s) (BitsQ x) = hd (map TaskQ ?q @ [BitsQ x])"
    using blocked_queues_ring(1) [OF b h] by (rule links_first)
  have q: "?q = [] @ ?q" by simp
  obtain k rq' where k: "signal_loop u ?x (BitsQ x) (hd (map TaskQ ?q @ [BitsQ x])) (bker s) = Some k"
    "sched_inv k rq' (filter (\<lambda>y. y \<notin> {t \<in> set ?q. bits_hold u ?x (bits_test (bker s)) t}) tq)"
    "blocked_queues k H (qs(BitsQ x := [] @ filter (\<lambda>t. \<not> bits_hold u ?x (bits_test (bker s)) t) ?q))"
    "set_free {t \<in> set ?q. bits_hold u ?x (bits_test (bker s)) t} (bker s) k"
    using signal_loop_ok [OF b h q i w d, of u ?x] by (elim exE conjE) blast
  let ?s = "(set_mask x ?x s)\<lparr>bker := k\<rparr>"
  have 1: "rt_bits_signal u u0 x setfun masks s = Some (?x, ?s)"
    using m g k(1) n by (simp add: rt_bits_signal_def Let_def)
  have 2: "mask_of x ?s = ?x" "bker ?s = k" by (simp_all add: set_mask_def)
  have 3: "blocked_queues k H (qs(BitsQ x := filter (\<lambda>t. \<not> bits_hold u ?x (bits_test (bker s)) t) ?q))"
    using k(3) by (simp only: append_Nil)
  show ?thesis
    unfolding Let_def
    by (rule exI [of _ ?s], rule exI [of _ rq'], unfold 2(2), intro conjI, rule 1, rule 2(1), rule k(2), rule 3)
      (use k(4) in blast)+
qed

section \<open>Reset\<close>

lemma reset_loop_ok:
  assumes "blocked_queues s H qs" and "h \<in> H" and "qs h = ws" and "sched_inv s rq tq"
    and "\<forall>t \<in> set ws. live s t \<and> state s t AND SEMAPHORE \<noteq> 0"
  shows "\<exists>s' rq'. reset_loop h (hd (map TaskQ ws @ [h])) s = Some s'
     \<and> sched_inv s' rq' (filter (\<lambda>y. y \<notin> set ws) tq) \<and> blocked_queues s' H (qs(h := []))
     \<and> set_free (set ws) s s'"
  using assms
proof (induction ws arbitrary: s rq tq qs)
  case Nil
  have e: "reset_loop h h s = Some s" by (subst reset_loop.simps) simp
  have "qs(h := []) = qs" using Nil(3) by (simp add: fun_upd_idem)
  then show ?case
    using e Nil(1,4) by (intro exI [where x = s] exI [where x = rq] conjI) (simp_all del: fun_upd_apply)
next
  case (Cons t ws)
  have q: "qs h = [] @ t # ws" using Cons.prems(3) by simp
  note n = queue_next_at [OF Cons.prems(1,2) q]
  have tp: "live s t" "state s t AND SEMAPHORE \<noteq> 0" using Cons.prems(5) by auto
  have d: "distinct (t # ws)" "distinct tq"
    using blocked_queues_ring(3) [OF Cons.prems(1,2)] Cons.prems(3) sched_invD(4) [OF Cons.prems(4)]
    by (auto simp: timed_list_def ring_def)
  have tin: "t \<in> set (qs h)" using q by simp
  obtain s1 rq1 where s1: "bits_wake t (dequeue_blocked t s) = Some s1" "sched_inv s1 rq1 (remove1 t tq)"
    "blocked_queues s1 H (qs(h := remove1 t (qs h)))" "set_free {t} s s1" "qnext s1 (TaskQ t) = qnext s (TaskQ t)"
    using bits_release [OF Cons.prems(1,2) tin Cons.prems(4) tp] by (elim exE conjE) blast
  have r: "(qs(h := remove1 t (qs h))) h = ws" using q by simp
  have "state s1 y = state s y \<and> live s1 y = live s y" if "y \<noteq> t" for y using s1(4) that by (simp add: live_def)
  then have p: "\<forall>y \<in> set ws. live s1 y \<and> state s1 y AND SEMAPHORE \<noteq> 0"
    using Cons.prems(5) d(1) by (metis distinct.simps(2) list.set_intros(2))
  obtain s' rq' where s': "reset_loop h (hd (map TaskQ ws @ [h])) s1 = Some s'"
    "sched_inv s' rq' (filter (\<lambda>y. y \<notin> set ws) (remove1 t tq))"
    "blocked_queues s' H ((qs(h := remove1 t (qs h)))(h := []))" "set_free (set ws) s1 s'"
    using Cons.IH [OF s1(3) Cons.prems(2) r s1(2) p] by (elim exE conjE) blast
  have 1: "reset_loop h (hd (map TaskQ (t # ws) @ [h])) s = Some s'"
    using n s1(1,5) s'(1) by (subst reset_loop.simps) simp
  have 2: "sched_inv s' rq' (filter (\<lambda>y. y \<notin> set (t # ws)) tq)"
    using s'(2) unfolding list.set filter_remove1_timed [OF d(2)] .
  have 3: "blocked_queues s' H (qs(h := []))" using s'(3) by (simp only: fun_upd_upd)
  have 4: "set_free (insert t (set ws)) s s'" by (rule set_free_step [OF s1(4) s'(4)]) (use d(1) in simp)
  show ?case
    by (rule exI [of _ s'], rule exI [of _ rq'], intro conjI, rule 1, rule 2, rule 3) (use 4 in simp)+
qed

text \<open>A reset sets the mask, empties the queue and releases every waiting task; it answers with the mask
  before, read as a signed number.\<close>

lemma rt_bits_reset_ok:
  assumes b: "blocked_queues (bker s) H qs" and h: "BitsQ x \<in> H" and i: "sched_inv (bker s) rq tq"
    and m: "bits_magic (bits s x) = RT_BITS_MAGIC"
    and w: "\<forall>t \<in> set (qs (BitsQ x)). live (bker s) t \<and> state (bker s) t AND SEMAPHORE \<noteq> 0"
  shows "\<exists>s' rq'. rt_bits_reset x v s = Some (sint (mask_of x s), s') \<and> mask_of x s' = v
     \<and> sched_inv (bker s') rq' (filter (\<lambda>t. t \<notin> set (qs (BitsQ x))) tq)
     \<and> blocked_queues (bker s') H (qs(BitsQ x := []))
     \<and> state (bker s') = (\<lambda>t. if t \<in> set (qs (BitsQ x)) then state (bker s) t AND NOT (SEMAPHORE OR DELAYED)
                                else state (bker s) t)
     \<and> rt_current (bker s') = rt_current (bker s)"
proof -
  let ?q = "qs (BitsQ x)"
  have n: "qnext (bker s) (BitsQ x) = hd (map TaskQ ?q @ [BitsQ x])"
    using blocked_queues_ring(1) [OF b h] by (rule links_first)
  obtain k rq' where k: "reset_loop (BitsQ x) (hd (map TaskQ ?q @ [BitsQ x])) (bker s) = Some k"
    "sched_inv k rq' (filter (\<lambda>y. y \<notin> set ?q) tq)" "blocked_queues k H (qs(BitsQ x := []))"
    "set_free (set ?q) (bker s) k"
    using reset_loop_ok [OF b h refl i w] by (elim exE conjE) blast
  let ?k = "k\<lparr>qprev := (qprev k)(BitsQ x := BitsQ x), qnext := (qnext k)(BitsQ x := BitsQ x)\<rparr>"
  let ?s = "(set_mask x v s)\<lparr>bker := ?k\<rparr>"
  have e: "qnext k (BitsQ x) = BitsQ x" "qprev k (BitsQ x) = BitsQ x"
    using blocked_queues_ring(1) [OF k(3) h] by simp_all
  have nx: "qnext ?k = qnext k" "qprev ?k = qprev k" "qtask ?k = qtask k" using e by auto
  have 1: "rt_bits_reset x v s = Some (sint (mask_of x s), ?s)"
    using m k(1) n by (simp add: rt_bits_reset_def)
  have "same_sched k ?k" by (simp add: same_sched_def)
  then have 2: "sched_inv ?k rq' (filter (\<lambda>y. y \<notin> set ?q) tq)" using same_sched_inv k(2) by blast
  have 3: "blocked_queues ?k H (qs(BitsQ x := []))" using k(3) blocked_queues_same [OF nx] by simp
  have 4: "mask_of x ?s = v" "bker ?s = ?k" by (simp_all add: set_mask_def)
  show ?thesis
    by (rule exI [of _ ?s], rule exI [of _ rq'], unfold 4(2), intro conjI, rule 1, rule 4(1), rule 2, rule 3)
      (use k(4) in simp_all)
qed

section \<open>Wait\<close>

lemma rt_bits_wait_passes:
  assumes "bits_magic (bits s x) = RT_BITS_MAGIC" and "test_fun tf = Some f" and "f (mask_of x s) tm u"
    and "exec_fun ef = Some g"
  shows "rt_bits_wait n u u' x tf tm ef em s = Ret (0, Some (mask_of x s)) (set_mask x (g (mask_of x s) em u') s)"
  using assms by (simp add: rt_bits_wait_def bits_exit_def)

text \<open>A wait whose test does not hold puts the caller at the end of the queue, out of the ready list, with
  its test where a signal finds it.\<close>

lemma rt_bits_wait_blocks:
  assumes i: "sched_inv (bker s) rq tq" and b: "blocked_queues (bker s) H qs" and h: "BitsQ x \<in> H"
    and l: "live (bker s) c" and c: "rt_current (bker s) = c" and st: "state (bker s) c = READY"
    and p: "0 \<le> priority (bker s) c"
    and nq: "\<forall>h \<in> H. c \<notin> set (qs h)" and tq: "qtask (bker s) (TaskQ c) = Task c"
    and m: "bits_magic (bits s x) = RT_BITS_MAGIC" and f: "test_fun tf = Some f" "\<not> f (mask_of x s) tm u"
  shows "\<exists>k'. rt_bits_wait n u u' x tf tm ef em s = res_bind (in_bker (rt_schedule n k') s) (\<lambda>_ t.
            if blocked_on (bker t) c \<noteq> None \<or> bits_magic (bits t x) \<noteq> RT_BITS_MAGIC
            then Ret (BITS_ERR, Some (mask_of x t)) (t\<lparr>bker := (bker t)\<lparr>prio_passed_to := (prio_passed_to (bker t))(c := None)\<rparr>\<rparr>)
            else bits_exit u' x ef em 0 t)
     \<and> sched_inv k' (remove1 c rq) tq \<and> blocked_queues k' H (qs(BitsQ x := qs (BitsQ x) @ [c]))
     \<and> state k' = (state (bker s))(c := READY OR SEMAPHORE) \<and> blocked_on k' c = Some (BitsQ x)
     \<and> bits_test k' c = (tf, tm)"
proof -
  let ?t = "(bker s)\<lparr>bits_test := (bits_test (bker s))(c := (tf, tm))\<rparr>"
  have it: "sched_inv ?t rq tq" by (rule same_sched_inv [OF _ i]) (simp add: same_sched_def)
  have lt: "live ?t c" "state ?t c = READY" "0 \<le> priority ?t c" using l st p by (simp_all add: live_def)
  let ?u = "set_state c (READY OR SEMAPHORE) (unlink_ready c ?t)"
  have u: "rem_ready_current c (or_state c SEMAPHORE ?t) = Some ?u" "sched_inv ?u (remove1 c rq) tq"
    using leave_ready [OF it lt, of SEMAPHORE] by simp_all
  let ?b = "?u\<lparr>blocked_on := (blocked_on ?u)(c := Some (BitsQ x))\<rparr>"
  let ?k = "bits_enqueue c (BitsQ x) ?u"
  have bb: "blocked_queues ?b H qs" using b by (simp add: blocked_queues_def queue_list_def)
  have q: "queue_list ?b (BitsQ x) (qs (BitsQ x))" using bb h by (simp add: blocked_queues_def)
  have "blocked_queues (link_queue (TaskQ c) (BitsQ x) ?b) H (qs(BitsQ x := qs (BitsQ x) @ [c]))"
    by (rule blocked_queues_link [OF bb h nq]) (use queue_list_link(2) [OF q] nq h tq in simp_all)
  then have 3: "blocked_queues ?k H (qs(BitsQ x := qs (BitsQ x) @ [c]))" by (simp add: bits_enqueue_def)
  have 2: "sched_inv ?k (remove1 c rq) tq"
    unfolding bits_enqueue_def by (rule same_sched_inv [OF same_sched_link_queue u(2)])
  have 1: "rt_bits_wait n u u' x tf tm ef em s = res_bind (in_bker (rt_schedule n ?k) s) (\<lambda>_ t.
            if blocked_on (bker t) c \<noteq> None \<or> bits_magic (bits t x) \<noteq> RT_BITS_MAGIC
            then Ret (BITS_ERR, Some (mask_of x t)) (t\<lparr>bker := (bker t)\<lparr>prio_passed_to := (prio_passed_to (bker t))(c := None)\<rparr>\<rparr>)
            else bits_exit u' x ef em 0 t)"
    using m f u(1) unfolding rt_bits_wait_def Let_def c by simp
  have 4: "state ?k = (state (bker s))(c := READY OR SEMAPHORE)" "blocked_on ?k c = Some (BitsQ x)"
    "bits_test ?k c = (tf, tm)"
    by (simp_all add: bits_enqueue_def link_queue_def unlink_ready_def)
  show ?thesis by (intro exI conjI, rule 1, rule 2, rule 3, (rule 4)+)
qed

end
