(* ===== verification/Example_Bits.thy ===== *)
theory Example_Bits
  imports Example_Ipc Bits_Props
begin

text \<open>
  The properties of the bit objects applied to a variant of \<open>kern\<close>: the tasks 3 and 4 wait in the queue of
  the object 0, whose mask is \<open>0b0001\<close>; task 3 with a limit of time and for both of the bits 1 and 2, task 4 for any of
  the bits 1 and 3.
\<close>

definition bits_kern :: kst where
  "bits_kern = (kern\<lparr>
     qnext := id(BitsQ 0 := TaskQ 3, TaskQ 3 := TaskQ 4, TaskQ 4 := BitsQ 0),
     qprev := id(BitsQ 0 := TaskQ 4, TaskQ 3 := BitsQ 0, TaskQ 4 := TaskQ 3),
     blocked_on := (blocked_on kern)(3 := Some (BitsQ 0), 4 := Some (BitsQ 0)),
     bits_test := (\<lambda>_. (1, 0))(3 := (0, 6), 4 := (1, 10)),
     state := (state kern)(3 := READY OR SEMAPHORE OR DELAYED)\<rparr>)"

definition bits_state :: bst where
  "bits_state = \<lparr>bits = (\<lambda>_. \<lparr>bits_magic = RT_BITS_MAGIC, bits_mask = 1\<rparr>), bker = bits_kern\<rparr>"

definition bits_queues :: "qnode \<Rightarrow> tid list" where
  "bits_queues = (\<lambda>_. [])(BitsQ 0 := [3, 4])"

lemma bits_kern_fields [simp]:
  "rt_current bits_kern = 1" "priority bits_kern = priority kern" "live bits_kern = live kern"
  "state bits_kern = (state kern)(3 := READY OR SEMAPHORE OR DELAYED)" "qtask bits_kern = qtask kern"
  "bits_test bits_kern = (\<lambda>_. (1, 0))(3 := (0, 6), 4 := (1, 10))"
  "blocked_on bits_kern = (blocked_on kern)(3 := Some (BitsQ 0), 4 := Some (BitsQ 0))"
  by (simp_all add: bits_kern_def live_def fun_eq_iff)

lemma bits_state_fields [simp]:
  "bker bits_state = bits_kern" "bits_magic (bits bits_state x) = RT_BITS_MAGIC" "mask_of x bits_state = 1"
  by (simp_all add: bits_state_def)

lemma bits_kern_inv: "sched_inv bits_kern [1, 2] [3]"
proof -
  let ?s = "kern\<lparr>
     qnext := id(BitsQ 0 := TaskQ 3, TaskQ 3 := TaskQ 4, TaskQ 4 := BitsQ 0),
     qprev := id(BitsQ 0 := TaskQ 4, TaskQ 3 := BitsQ 0, TaskQ 4 := TaskQ 3),
     blocked_on := (blocked_on kern)(3 := Some (BitsQ 0), 4 := Some (BitsQ 0)),
     bits_test := (\<lambda>_. (1, 0))(3 := (0, 6), 4 := (1, 10))\<rparr>"
  have i: "sched_inv ?s [1, 2] [3]" by (rule same_sched_inv [OF _ kern_inv]) (simp add: same_sched_def)
  have e: "bits_kern = set_state 3 (READY OR SEMAPHORE OR DELAYED) ?s" by (simp add: bits_kern_def)
  show ?thesis unfolding e by (rule inv_set_state [OF i]) (simp_all add: live_def)
qed

lemma bits_kern_queues: "blocked_queues bits_kern {BitsQ 0} bits_queues"
  by (auto simp: blocked_queues_def queue_list_def ring_def bits_kern_def bits_queues_def)

text \<open>Setting bit 1 releases task 4 only; setting the bits 1 and 2 releases both.\<close>

theorem rt_bits_signal_ok_witness:
  "\<exists>s' rq'. rt_bits_signal (\<lambda>_. 0) 0 0 0 2 bits_state = Some (3, s') \<and> mask_of 0 s' = 3
     \<and> sched_inv (bker s') rq' [3] \<and> blocked_queues (bker s') {BitsQ 0} (bits_queues(BitsQ 0 := [3]))
     \<and> state (bker s') 4 = READY \<and> state (bker s') 3 = READY OR SEMAPHORE OR DELAYED"
proof -
  have g: "exec_fun 0 = Some (\<lambda>x m u. x OR m)" by (simp add: exec_fun_def)
  have h: "bits_hold (\<lambda>_. 0) 3 ((\<lambda>_. (Suc 0, 0))(3 := (0, 6), 4 := (Suc 0, 10))) = (\<lambda>t. t = 4)"
    by (simp add: bits_hold_def test_fun_def all_set_def any_set_def fun_eq_iff)
  have q: "bits_queues (BitsQ 0) = [3, 4]" by (simp add: bits_queues_def)
  have w: "\<forall>t \<in> set (bits_queues (BitsQ 0)). live (bker bits_state) t \<and> state (bker bits_state) t AND SEMAPHORE \<noteq> 0
              \<and> fst (bits_test (bker bits_state) t) < 16"
    unfolding q by simp
  show ?thesis
    using rt_bits_signal_ok [of bits_state "{BitsQ 0}" bits_queues 0 "[1, 2]" "[3]" 0 "\<lambda>x m u. x OR m" "\<lambda>_. 0" 0 2]
      bits_kern_queues bits_kern_inv g w
    by (simp add: q h Let_def) (elim exE conjE, rule exI, intro conjI, assumption, assumption, rule exI, assumption,
        assumption, simp_all)
qed

theorem rt_bits_reset_ok_witness:
  "\<exists>s' rq'. rt_bits_reset 0 8 bits_state = Some (1, s') \<and> mask_of 0 s' = 8
     \<and> sched_inv (bker s') rq' [] \<and> blocked_queues (bker s') {BitsQ 0} (bits_queues(BitsQ 0 := []))
     \<and> state (bker s') 3 = READY \<and> rt_current (bker s') = 1"
proof -
  have q: "bits_queues (BitsQ 0) = [3, 4]" by (simp add: bits_queues_def)
  have w: "\<forall>t \<in> set (bits_queues (BitsQ 0)). live (bker bits_state) t \<and> state (bker bits_state) t AND SEMAPHORE \<noteq> 0"
    unfolding q by simp
  show ?thesis
    using rt_bits_reset_ok [of bits_state "{BitsQ 0}" bits_queues 0 "[1, 2]" "[3]" 8] bits_kern_queues bits_kern_inv w
    by (simp add: q) (elim exE conjE, intro exI conjI; (assumption | simp))
qed

theorem rt_bits_wait_blocks_witness:
  "\<exists>k' f. rt_bits_wait 3 0 0 0 0 2 3 0 bits_state = res_bind (in_bker (rt_schedule 3 k') bits_state) f
     \<and> sched_inv k' [2] [3] \<and> blocked_queues k' {BitsQ 0} (bits_queues(BitsQ 0 := [3, 4, 1]))
     \<and> blocked_on k' 1 = Some (BitsQ 0) \<and> bits_test k' 1 = (0, 2)"
proof -
  have f: "test_fun 0 = Some (\<lambda>x m u. all_set x m)" by (simp add: test_fun_def)
  have q: "bits_queues (BitsQ 0) = [3, 4]" by (simp add: bits_queues_def)
  show ?thesis
    using rt_bits_wait_blocks [of bits_state "[1, 2]" "[3]" "{BitsQ 0}" bits_queues 0 1 0 "\<lambda>x m u. all_set x m" 2 0 3 0 3 0]
      bits_kern_queues bits_kern_inv f
    by (simp add: q all_set_def) (elim exE conjE, intro exI conjI; (assumption | simp))
qed

end
