(* ===== verification/Typed_Mailboxes.thy ===== *)
theory Typed_Mailboxes
  imports Semaphores
begin

text \<open>
  The typed mailboxes of \<^verbatim>\<open>tbx/tbx.c\<close>: messages of one type byte and their bytes in a circular buffer,
  normal ones put behind, urgent ones in front; a broadcast is kept in a second buffer until every waiting
  task has it.  The mailboxes are the component \<open>tbxs\<close>, the scheduler's state, with the memory of the
  buffers, is \<open>txker\<close>; \<open>tfree\<close> lists the blocks given to \<^verbatim>\<open>sched_free\<close>.

  A message is the list of its bytes, so its size is not negative; a receiving call gets the contents of the
  caller's buffer and returns what they are afterwards.
\<close>

section \<open>Data\<close>

abbreviation RT_TBX_MAGIC :: int where "RT_TBX_MAGIC \<equiv> 0x6e93ad4b"
abbreviation TYPE_NONE :: byte where "TYPE_NONE \<equiv> 0"
abbreviation TYPE_NORMAL :: byte where "TYPE_NORMAL \<equiv> 1"
abbreviation TYPE_BROADCAST :: byte where "TYPE_BROADCAST \<equiv> 2"
abbreviation TYPE_URGENT :: byte where "TYPE_URGENT \<equiv> 4"

record tbx =
  t_magic :: int
  t_waiting_nr :: int
  t_sndsmx :: semid
  t_rcvsmx :: semid
  t_bcbsmx :: semid
  t_waiting_task :: "tid option"
  t_bufadr :: nat
  t_bcbadr :: nat
  t_size :: int
  t_fbyte :: int
  t_avbs :: int
  t_frbs :: int

record txst =
  tbxs :: "nat \<Rightarrow> tbx"
  txker :: kst
  tfree :: "nat list"

type_synonym 'a txres = "(txst, 'a) sres"
type_synonym bytes = "nat \<Rightarrow> byte"

abbreviation in_txker :: "(kst, 'a) sres \<Rightarrow> txst \<Rightarrow> 'a txres" where
  "in_txker \<equiv> lift_res txker (\<lambda>k s. s\<lparr>txker := k\<rparr>)"

definition upd_tbx :: "nat \<Rightarrow> (tbx \<Rightarrow> tbx) \<Rightarrow> txst \<Rightarrow> txst" where
  "upd_tbx b f s = s\<lparr>tbxs := (tbxs s)(b := f (tbxs s b))\<rparr>"

definition wait_more :: "nat \<Rightarrow> int \<Rightarrow> txst \<Rightarrow> txst" where
  "wait_more b d = upd_tbx b (\<lambda>t. t\<lparr>t_waiting_nr := t_waiting_nr t + d\<rparr>)"

definition set_waiting :: "nat \<Rightarrow> tid option \<Rightarrow> txst \<Rightarrow> txst" where
  "set_waiting b w = upd_tbx b (\<lambda>t. t\<lparr>t_waiting_task := w\<rparr>)"

definition put_bytes :: "nat \<Rightarrow> byte list \<Rightarrow> bytes \<Rightarrow> bytes" where
  "put_bytes a xs m = (\<lambda>i. if a \<le> i \<and> i < a + length xs then xs ! (i - a) else m i)"

definition get_bytes :: "nat \<Rightarrow> nat \<Rightarrow> bytes \<Rightarrow> byte list" where
  "get_bytes a n m = map m [a..<a + n]"

section \<open>The circular buffer\<close>

definition TBX_MOD_SIZE :: "tbx \<Rightarrow> int \<Rightarrow> int" where
  "TBX_MOD_SIZE t i = (if i < t_size t then i else i - t_size t)"

definition TBX_REVERSE_MOD_SIZE :: "tbx \<Rightarrow> int \<Rightarrow> int" where
  "TBX_REVERSE_MOD_SIZE t i = (if i \<ge> 0 then i else t_size t + i)"

abbreviation buf_at :: "tbx \<Rightarrow> int \<Rightarrow> nat" where "buf_at t i \<equiv> nat (int (t_bufadr t) + i)"

definition fill_room :: "int \<Rightarrow> tbx \<Rightarrow> tbx" where
  "fill_room n t = t\<lparr>t_frbs := t_frbs t - n, t_avbs := t_avbs t + n\<rparr>"

definition leave_room :: "int \<Rightarrow> tbx \<Rightarrow> tbx" where
  "leave_room n t = t\<lparr>t_fbyte := TBX_MOD_SIZE t (t_fbyte t + n), t_frbs := t_frbs t + n, t_avbs := t_avbs t - n\<rparr>"

text \<open>What is left to copy: \<^verbatim>\<open>msgpacksize\<close>.  The result has it, the mailbox and the memory; a \<^verbatim>\<open>memcpy\<close> of a
  negative size is \<open>None\<close>, as is a loop that does not end.\<close>

definition packed :: "byte \<Rightarrow> byte list \<Rightarrow> int" where
  "packed type xs = int (length xs) + (if type \<noteq> TYPE_NONE then 1 else 0)"

partial_function (option) tbxput :: "byte \<Rightarrow> byte list \<Rightarrow> tbx \<Rightarrow> bytes \<Rightarrow> (int \<times> tbx \<times> bytes) option" where
  "tbxput type xs t m =
     (if t_frbs t \<noteq> 0 \<and> packed type xs > 0 then
        let last_byte = TBX_MOD_SIZE t (t_fbyte t + t_avbs t);
            room = t_size t - last_byte;
            tocpy = (if room > packed type xs then packed type xs else room) in
        if type \<noteq> TYPE_NONE then tbxput TYPE_NONE xs (fill_room 1 t) (put_bytes (buf_at t last_byte) [type] m)
        else if tocpy < 0 then None
        else tbxput TYPE_NONE (drop (nat tocpy) xs) (fill_room tocpy t)
               (put_bytes (buf_at t last_byte) (take (nat tocpy) xs) m)
      else Some (packed type xs, t, m))"

declare tbxput.simps [code]

partial_function (option) tbxget :: "int \<Rightarrow> tbx \<Rightarrow> bytes \<Rightarrow> (byte list \<times> int \<times> tbx) option" where
  "tbxget n t m =
     (if t_avbs t \<noteq> 0 \<and> n > 0 then
        let room = t_size t - t_fbyte t;
            most = (if room > n then n else room);
            tocpy = (if most > t_avbs t then t_avbs t else most) in
        if tocpy < 0 then None
        else do {
          (got, left, t') \<leftarrow> tbxget (n - tocpy) (leave_room tocpy t) m;
          Some (get_bytes (buf_at t (t_fbyte t)) (nat tocpy) m @ got, left, t')
        }
      else Some ([], n, t))"

declare tbxget.simps [code]

partial_function (option) backput_loop ::
    "byte \<Rightarrow> byte list \<Rightarrow> int \<Rightarrow> int \<Rightarrow> tbx \<Rightarrow> bytes \<Rightarrow> (int \<times> tbx \<times> bytes) option" where
  "backput_loop type xs first tocpy t m =
     (if t_frbs t \<noteq> 0 \<and> packed type xs > 0 then
        let t1 = (if first = - 1 then t\<lparr>t_fbyte := TBX_REVERSE_MOD_SIZE t (t_fbyte t - packed type xs)\<rparr> else t);
            first1 = (if first = - 1 then t_fbyte t1 else TBX_MOD_SIZE t (first + tocpy));
            room = t_size t - first1;
            tocpy1 = (if room > packed type xs then packed type xs else room) in
        if type \<noteq> TYPE_NONE
        then backput_loop TYPE_NONE xs first1 1 (fill_room 1 t1) (put_bytes (buf_at t first1) [type] m)
        else if tocpy1 < 0 then None
        else backput_loop TYPE_NONE (drop (nat tocpy1) xs) first1 tocpy1 (fill_room tocpy1 t1)
               (put_bytes (buf_at t first1) (take (nat tocpy1) xs) m)
      else Some (packed type xs, t, m))"

declare backput_loop.simps [code]

definition tbxbackput :: "byte \<Rightarrow> byte list \<Rightarrow> tbx \<Rightarrow> bytes \<Rightarrow> (int \<times> tbx \<times> bytes) option" where
  "tbxbackput type xs t m = backput_loop type xs (- 1) 0 t m"

text \<open>The same on the state.\<close>

definition set_buffer :: "nat \<Rightarrow> tbx \<Rightarrow> bytes \<Rightarrow> txst \<Rightarrow> txst" where
  "set_buffer b t m s = (upd_tbx b (\<lambda>_. t) s)\<lparr>txker := (txker s)\<lparr>mem := m\<rparr>\<rparr>"

definition put_tbx :: "nat \<Rightarrow> byte \<Rightarrow> byte list \<Rightarrow> txst \<Rightarrow> (int \<times> txst) option" where
  "put_tbx b type xs s = do {
     (left, t, m) \<leftarrow> tbxput type xs (tbxs s b) (mem (txker s));
     Some (left, set_buffer b t m s)
   }"

definition backput_tbx :: "nat \<Rightarrow> byte \<Rightarrow> byte list \<Rightarrow> txst \<Rightarrow> (int \<times> txst) option" where
  "backput_tbx b type xs s = do {
     (left, t, m) \<leftarrow> tbxbackput type xs (tbxs s b) (mem (txker s));
     Some (left, set_buffer b t m s)
   }"

text \<open>What is read overwrites the beginning of the caller's buffer.\<close>

definition get_tbx :: "nat \<Rightarrow> byte list \<Rightarrow> txst \<Rightarrow> (byte list \<times> int \<times> txst) option" where
  "get_tbx b ys s = do {
     (got, left, t) \<leftarrow> tbxget (int (length ys)) (tbxs s b) (mem (txker s));
     Some (got @ drop (length got) ys, left, upd_tbx b (\<lambda>_. t) s)
   }"


section \<open>The semaphores\<close>

text \<open>\<^verbatim>\<open>state &= ~w\<close>, then into the ready list; the task is not tested to be in it already.\<close>

definition tbx_wake :: "32 word \<Rightarrow> tid \<Rightarrow> kst \<Rightarrow> (bool \<times> kst) option" where
  "tbx_wake w t k =
     (let k1 = and_not_state t w k in
      if state k1 t = READY then do { k2 \<leftarrow> enq_ready_task t k1; Some (True, k2) } else Some (False, k1))"

definition tbx_resched :: "nat \<Rightarrow> (bool \<times> kst) option \<Rightarrow> txst \<Rightarrow> unit txres" where
  "tbx_resched n r s =
     lift_opt r (\<lambda>(woken, k). if woken then in_txker (rt_schedule n k) s else Ret () (s\<lparr>txker := k\<rparr>))"

definition tbx_smx_signal :: "nat \<Rightarrow> nat \<Rightarrow> semid \<Rightarrow> txst \<Rightarrow> unit txres" where
  "tbx_smx_signal n b x s =
     (let k = txker s in
      case qtask k (qnext k (SemQ x)) of
        Task t \<Rightarrow> tbx_resched n (tbx_wake (SEMAPHORE OR DELAYED) t (rem_timed_task t (dequeue_blocked t k))) (wait_more b (- 1) s)
      | NULL \<Rightarrow> Ret () (s\<lparr>txker := upd_sem x (\<lambda>m. m\<lparr>sem_count := 1\<rparr>) k\<rparr>)
      | Num i \<Rightarrow> Stuck)"

definition tbx_smx_wait :: "nat \<Rightarrow> nat \<Rightarrow> semid \<Rightarrow> tid \<Rightarrow> txst \<Rightarrow> bool txres" where
  "tbx_smx_wait n b x cur s =
     (let k = txker s in
      res_bind
        (if sem_count (sems k x) = 0 then
           lift_opt (do {
             k1 \<leftarrow> rem_ready_current cur (or_state cur SEMAPHORE k);
             enqueue_blocked cur (SemQ x) (qtype (sems k1 x)) k1
           }) (\<lambda>k2. in_txker (rt_schedule n k2) (wait_more b 1 s))
         else Ret () (s\<lparr>txker := upd_sem x (\<lambda>m. m\<lparr>sem_count := 0\<rparr>) k\<rparr>))
        (\<lambda>_ s1. Ret (blocked_on (txker s1) cur \<noteq> None) s1))"

definition tbx_smx_wait_until :: "rtime \<Rightarrow> nat \<Rightarrow> nat \<Rightarrow> semid \<Rightarrow> tid \<Rightarrow> txst \<Rightarrow> bool txres" where
  "tbx_smx_wait_until time n b x cur s =
     (let k = txker s in
      if sem_count (sems k x) = 0 then
        lift_opt (do {
          k1 \<leftarrow> rem_ready_current cur (or_state cur (SEMAPHORE OR DELAYED)
                  (k\<lparr>blocked_on := (blocked_on k)(cur := Some (SemQ x)), resume_time := (resume_time k)(cur := time)\<rparr>));
          k2 \<leftarrow> enqueue_blocked cur (SemQ x) (qtype (sems k1 x)) k1;
          enq_timed_task cur k2
        }) (\<lambda>k3. res_bind (in_txker (rt_schedule n k3) (wait_more b 1 s)) (\<lambda>_ s1.
          if blocked_on (txker s1) cur \<noteq> None
          then Ret True (wait_more b (- 1) (s1\<lparr>txker := dequeue_blocked cur (txker s1)\<rparr>))
          else Ret False s1))
      else Ret False (s\<lparr>txker := upd_sem x (\<lambda>m. m\<lparr>sem_count := 0\<rparr>) k\<rparr>))"

section \<open>Waiting for room and for messages\<close>

text \<open>The running task leaves the ready list, as the one task that waits for the buffer.\<close>

definition wait_something :: "nat \<Rightarrow> nat \<Rightarrow> tid \<Rightarrow> kst option \<Rightarrow> txst \<Rightarrow> unit txres" where
  "wait_something n b cur r s =
     lift_opt r (\<lambda>k. in_txker (rt_schedule n k) (set_waiting b (Some cur) (wait_more b 1 s)))"

definition tbx_wait_room :: "nat \<Rightarrow> nat \<Rightarrow> int \<Rightarrow> tid \<Rightarrow> txst \<Rightarrow> bool txres" where
  "tbx_wait_room n b msgsize cur s =
     (let k = txker s in
      res_bind
        (if t_frbs (tbxs s b) < msgsize then
           wait_something n b cur (do {
             k1 \<leftarrow> rem_ready_current cur (or_state cur SUSPENDED (k\<lparr>suspdepth := (suspdepth k)(cur := 1)\<rparr>));
             Some (k1\<lparr>blocked_on := (blocked_on k1)(cur := Some SomethingQ)\<rparr>)
           }) s
         else Ret () s)
        (\<lambda>_ s1. Ret (blocked_on (txker s1) cur \<noteq> None) s1))"

definition tbx_check_room :: "nat \<Rightarrow> int \<Rightarrow> txst \<Rightarrow> bool \<times> txst" where
  "tbx_check_room b msgsize s =
     (let x = t_sndsmx (tbxs s b) in
      if t_frbs (tbxs s b) < msgsize \<or> sem_count (sems (txker s) x) = 0 then (False, s)
      else (True, s\<lparr>txker := upd_sem x (\<lambda>m. m\<lparr>sem_count := 0\<rparr>) (txker s)\<rparr>))"

text \<open>The wait with a limit of time; the flag tells that the time has run out.\<close>

definition timed_something :: "nat \<Rightarrow> nat \<Rightarrow> rtime \<Rightarrow> tid \<Rightarrow> txst \<Rightarrow> bool txres" where
  "timed_something n b time cur s =
     (let k = txker s in
      res_bind
        (wait_something n b cur (do {
           k1 \<leftarrow> rem_ready_current cur (or_state cur DELAYED
                   (k\<lparr>blocked_on := (blocked_on k)(cur := Some SomethingQ), resume_time := (resume_time k)(cur := time)\<rparr>));
           enq_timed_task cur k1
         }) s)
        (\<lambda>_ s1. if blocked_on (txker s1) cur \<noteq> None
          then Ret True (set_waiting b None (wait_more b (- 1)
                 (s1\<lparr>txker := (txker s1)\<lparr>blocked_on := (blocked_on (txker s1))(cur := None)\<rparr>\<rparr>)))
          else Ret False s1))"

definition tbx_wait_room_until :: "rtime \<Rightarrow> nat \<Rightarrow> nat \<Rightarrow> int \<Rightarrow> tid \<Rightarrow> txst \<Rightarrow> bool txres" where
  "tbx_wait_room_until time n b msgsize cur s =
     (if t_frbs (tbxs s b) < msgsize then timed_something n b time cur s else Ret False s)"

text \<open>The type byte of the next message.\<close>

abbreviation type_byte :: "nat \<Rightarrow> txst \<Rightarrow> byte" where
  "type_byte b s \<equiv> mem (txker s) (buf_at (tbxs s b) (t_fbyte (tbxs s b)))"

abbreviation bcb_byte :: "nat \<Rightarrow> txst \<Rightarrow> byte" where
  "bcb_byte b s \<equiv> mem (txker s) (t_bcbadr (tbxs s b))"

definition take_type :: "nat \<Rightarrow> txst \<Rightarrow> txst" where
  "take_type b = upd_tbx b (leave_room 1)"

definition tbx_check_msg :: "nat \<Rightarrow> int \<Rightarrow> txst \<Rightarrow> byte \<times> txst" where
  "tbx_check_msg b msgsize s =
     (let x = t_rcvsmx (tbxs s b) in
      if sem_count (sems (txker s) x) = 0 \<or> t_avbs (tbxs s b) < msgsize then (0, s)
      else let s1 = s\<lparr>txker := upd_sem x (\<lambda>m. m\<lparr>sem_count := 0\<rparr>) (txker s)\<rparr> in
           if bcb_byte b s1 = TYPE_BROADCAST then (TYPE_BROADCAST, s1)
           else (type_byte b s1, take_type b s1))"

text \<open>The results are whether the wait has failed and the type.\<close>

definition tbx_wait_msg :: "nat \<Rightarrow> nat \<Rightarrow> int \<Rightarrow> tid \<Rightarrow> txst \<Rightarrow> (bool \<times> byte) txres" where
  "tbx_wait_msg n b msgsize cur s =
     (let k = txker s in
      if bcb_byte b s = TYPE_BROADCAST then Ret (blocked_on k cur \<noteq> None, TYPE_BROADCAST) s
      else res_bind
        (if t_avbs (tbxs s b) < msgsize then
           wait_something n b cur (do {
             k1 \<leftarrow> rem_ready_current cur (or_state cur SUSPENDED k);
             Some (k1\<lparr>blocked_on := (blocked_on k1)(cur := Some SomethingQ)\<rparr>)
           }) s
         else Ret () s)
        (\<lambda>_ s1. Ret (blocked_on (txker s1) cur \<noteq> None, type_byte b s1) (take_type b s1)))"

definition tbx_wait_msg_until :: "rtime \<Rightarrow> nat \<Rightarrow> nat \<Rightarrow> int \<Rightarrow> tid \<Rightarrow> txst \<Rightarrow> (bool \<times> byte) txres" where
  "tbx_wait_msg_until time n b msgsize cur s =
     (if bcb_byte b s = TYPE_BROADCAST then Ret (False, TYPE_BROADCAST) s
      else let type = type_byte b s in
        res_bind
          (if t_avbs (tbxs s b) < msgsize \<and> bcb_byte b s = TYPE_NONE then timed_something n b time cur s
           else Ret False s)
          (\<lambda>timed s1. if timed then Ret (True, TYPE_NONE) s1 else Ret (False, type) (take_type b s1)))"

definition tbx_signal :: "nat \<Rightarrow> nat \<Rightarrow> txst \<Rightarrow> unit txres" where
  "tbx_signal n b s =
     (case t_waiting_task (tbxs s b) of
        None \<Rightarrow> Ret () s
      | Some t \<Rightarrow>
          let k = rem_timed_task t (txker s) in
          tbx_resched n (tbx_wake (SUSPENDED OR DELAYED) t (k\<lparr>blocked_on := (blocked_on k)(t := None)\<rparr>))
            (set_waiting b None (wait_more b (- 1) s)))"


section \<open>Creating and deleting\<close>

text \<open>\<open>p\<close> and \<open>q\<close> are what the two calls of \<^verbatim>\<open>sched_malloc\<close> return.\<close>

definition free_block :: "nat \<Rightarrow> txst \<Rightarrow> txst" where
  "free_block a s = s\<lparr>tfree := tfree s @ [a]\<rparr>"

definition rt_tbx_init :: "nat \<Rightarrow> nat \<Rightarrow> nat \<Rightarrow> int \<Rightarrow> int \<Rightarrow> txst \<Rightarrow> int \<times> txst" where
  "rt_tbx_init p q b nbytes flags s =
     (let s1 = upd_tbx b (\<lambda>t. t\<lparr>t_bufadr := p\<rparr>) s in
      if p = 0 then (- ENOMEM, s1)
      else let s2 = upd_tbx b (\<lambda>t. t\<lparr>t_bcbadr := q\<rparr>) s1 in
      if q = 0 then (- ENOMEM, free_block p s2)
      else
        let k = txker s2;
            k1 = k\<lparr>mem := put_bytes q (replicate (nat nbytes) 0)
                   (put_bytes p (replicate (nat nbytes) 0) (put_bytes q [TYPE_NONE] (mem k)))\<rparr>;
            k2 = rt_typed_sem_init (t_bcbsmx (tbxs s2 b)) 1 (BIN_SEM OR flags)
                   (rt_typed_sem_init (t_rcvsmx (tbxs s2 b)) 1 (CNT_SEM OR flags)
                     (rt_typed_sem_init (t_sndsmx (tbxs s2 b)) 1 (CNT_SEM OR flags) k1)) in
        (0, upd_tbx b (\<lambda>t. t\<lparr>t_magic := RT_TBX_MAGIC, t_size := nbytes, t_frbs := nbytes, t_waiting_task := None,
               t_waiting_nr := 0, t_fbyte := 0, t_avbs := 0\<rparr>) (s2\<lparr>txker := k2\<rparr>)))"

primrec tbx_drain :: "nat \<Rightarrow> nat \<Rightarrow> nat \<Rightarrow> txst \<Rightarrow> unit txres" where
  "tbx_drain 0 n b s = Stuck"
| "tbx_drain (Suc i) n b s =
     (if t_waiting_task (tbxs s b) \<noteq> None then res_bind (tbx_signal n b s) (\<lambda>_. tbx_drain i n b) else Ret () s)"

definition rt_tbx_delete :: "nat \<Rightarrow> nat \<Rightarrow> nat \<Rightarrow> txst \<Rightarrow> int txres" where
  "rt_tbx_delete i n b s =
     (if t_magic (tbxs s b) \<noteq> RT_TBX_MAGIC then Ret (- EINVAL) s
      else
        let del = (\<lambda>x ok s. res_bind (in_txker (rt_sem_delete n x (txker s)) s) (\<lambda>e s1.
                     if e \<noteq> 0 then Ret (- EFAULT) s1 else ok s1)) in
        del (t_sndsmx (tbxs s b))
          (\<lambda>s1. del (t_rcvsmx (tbxs s1 b)) (\<lambda>s2. del (t_bcbsmx (tbxs s2 b)) (\<lambda>s3.
             res_bind (tbx_drain i n b s3) (\<lambda>_ s4.
               Ret 0 (free_block (t_bcbadr (tbxs s4 b)) (free_block (t_bufadr (tbxs s4 b)) s4)))) s2) s1)
          (upd_tbx b (\<lambda>t. t\<lparr>t_magic := 0\<rparr>) s))"

section \<open>Sending\<close>

text \<open>\<^verbatim>\<open>CHK_TBX_MAGIC\<close> and the test of the size of a message of \<open>n\<close> bytes.\<close>

definition tbx_guard :: "nat \<Rightarrow> nat \<Rightarrow> (int \<Rightarrow> 'a) \<Rightarrow> txst \<Rightarrow> 'a txres \<Rightarrow> 'a txres" where
  "tbx_guard b n err s r =
     (if t_magic (tbxs s b) \<noteq> RT_TBX_MAGIC then Ret (err (- EINVAL)) s
      else if int n + 1 > t_size (tbxs s b) then Ret (err (- EMSGSIZE)) s
      else r)"

text \<open>The copy and the two signals that follow it; \<open>ret\<close> gives the value returned from what is left.\<close>

definition tbx_deliver :: "nat \<Rightarrow> nat \<Rightarrow> (txst \<Rightarrow> (int \<times> txst) option) \<Rightarrow> (int \<Rightarrow> int) \<Rightarrow> txst \<Rightarrow> int txres" where
  "tbx_deliver n b put ret s =
     lift_opt (put s) (\<lambda>(left, s1).
       res_bind (tbx_signal n b s1) (\<lambda>_ s2.
         res_bind (tbx_smx_signal n b (t_sndsmx (tbxs s2 b)) s2) (\<lambda>_. Ret (ret left))))"

text \<open>The calls that wait: for the senders' semaphore with \<open>smx\<close>, then for room with \<open>room\<close>; \<open>fail\<close> is what they
  return otherwise.\<close>

definition tbx_send_with ::
    "(nat \<Rightarrow> nat \<Rightarrow> semid \<Rightarrow> tid \<Rightarrow> txst \<Rightarrow> bool txres) \<Rightarrow> (nat \<Rightarrow> nat \<Rightarrow> int \<Rightarrow> tid \<Rightarrow> txst \<Rightarrow> bool txres) \<Rightarrow>
      nat \<Rightarrow> nat \<Rightarrow> (txst \<Rightarrow> (int \<times> txst) option) \<Rightarrow> int \<Rightarrow> int \<Rightarrow> (int \<Rightarrow> int) \<Rightarrow> txst \<Rightarrow> int txres" where
  "tbx_send_with smx room n b put nbytes fail ret s =
     (let cur = rt_current (txker s) in
      res_bind (smx n b (t_sndsmx (tbxs s b)) cur s) (\<lambda>e s1.
        if e then Ret fail s1
        else res_bind (room n b nbytes cur s1) (\<lambda>e s2.
          if e then res_bind (tbx_smx_signal n b (t_sndsmx (tbxs s2 b)) s2) (\<lambda>_. Ret fail)
          else tbx_deliver n b put ret s2)))"

definition rt_tbx_send :: "nat \<Rightarrow> nat \<Rightarrow> byte list \<Rightarrow> txst \<Rightarrow> int txres" where
  "rt_tbx_send n b xs s = tbx_guard b (length xs) id s
     (tbx_send_with tbx_smx_wait tbx_wait_room n b (put_tbx b TYPE_NORMAL xs) (int (length xs) + 1) (int (length xs)) id s)"

definition rt_tbx_send_if :: "nat \<Rightarrow> nat \<Rightarrow> byte list \<Rightarrow> txst \<Rightarrow> int txres" where
  "rt_tbx_send_if n b xs s = tbx_guard b (length xs) id s
     (case tbx_check_room b (int (length xs) + 1) s of
        (True, s1) \<Rightarrow> tbx_deliver n b (put_tbx b TYPE_NORMAL xs) (\<lambda>_. 0) s1
      | (False, s1) \<Rightarrow> Ret (int (length xs)) s1)"

definition rt_tbx_send_until :: "nat \<Rightarrow> nat \<Rightarrow> byte list \<Rightarrow> rtime \<Rightarrow> txst \<Rightarrow> int txres" where
  "rt_tbx_send_until n b xs time s = tbx_guard b (length xs) id s
     (tbx_send_with (tbx_smx_wait_until time) (tbx_wait_room_until time) n b (put_tbx b TYPE_NORMAL xs)
        (int (length xs) + 1) (int (length xs)) id s)"

definition tbx_time :: "txst \<Rightarrow> rtime \<times> txst" where
  "tbx_time s = (let (now, k) = rt_get_time (txker s) in (now, s\<lparr>txker := k\<rparr>))"

definition rt_tbx_send_timed :: "nat \<Rightarrow> nat \<Rightarrow> byte list \<Rightarrow> rtime \<Rightarrow> txst \<Rightarrow> int txres" where
  "rt_tbx_send_timed n b xs delay s = (let (now, s1) = tbx_time s in rt_tbx_send_until n b xs (now + delay) s1)"

section \<open>Broadcasting\<close>

text \<open>A broadcast returns the number of waiting tasks, and does nothing when there is none.\<close>

definition rt_tbx_broadcast :: "nat \<Rightarrow> nat \<Rightarrow> byte list \<Rightarrow> txst \<Rightarrow> int txres" where
  "rt_tbx_broadcast n b xs s = tbx_guard b (length xs) id s
     (let wakedup = t_waiting_nr (tbxs s b) in
      if wakedup = 0 then Ret wakedup s
      else tbx_send_with tbx_smx_wait tbx_wait_room n b (put_tbx b TYPE_BROADCAST xs) (int (length xs) + 1) 0 (\<lambda>_. wakedup) s)"

definition rt_tbx_broadcast_if :: "nat \<Rightarrow> nat \<Rightarrow> byte list \<Rightarrow> txst \<Rightarrow> int txres" where
  "rt_tbx_broadcast_if n b xs s = tbx_guard b (length xs) id s
     (let wakedup = t_waiting_nr (tbxs s b) in
      if wakedup = 0 then Ret wakedup s
      else case tbx_check_room b (int (length xs) + 1) s of
        (True, s1) \<Rightarrow> tbx_deliver n b (put_tbx b TYPE_BROADCAST xs) (\<lambda>_. wakedup) s1
      | (False, s1) \<Rightarrow> Ret 0 s1)"

definition rt_tbx_broadcast_until :: "nat \<Rightarrow> nat \<Rightarrow> byte list \<Rightarrow> rtime \<Rightarrow> txst \<Rightarrow> int txres" where
  "rt_tbx_broadcast_until n b xs time s = tbx_guard b (length xs) id s
     (let wakedup = t_waiting_nr (tbxs s b) in
      if wakedup = 0 then Ret wakedup s
      else tbx_send_with (tbx_smx_wait_until time) (tbx_wait_room_until time) n b (put_tbx b TYPE_BROADCAST xs)
             (int (length xs) + 1) 0 (\<lambda>_. wakedup) s)"

definition rt_tbx_broadcast_timed :: "nat \<Rightarrow> nat \<Rightarrow> byte list \<Rightarrow> rtime \<Rightarrow> txst \<Rightarrow> int txres" where
  "rt_tbx_broadcast_timed n b xs delay s = (let (now, s1) = tbx_time s in rt_tbx_broadcast_until n b xs (now + delay) s1)"


section \<open>Urgent messages\<close>

definition rt_tbx_urgent :: "nat \<Rightarrow> nat \<Rightarrow> byte list \<Rightarrow> txst \<Rightarrow> int txres" where
  "rt_tbx_urgent n b xs s = tbx_guard b (length xs) id s
     (tbx_send_with tbx_smx_wait tbx_wait_room n b (backput_tbx b TYPE_URGENT xs) (int (length xs) + 1) (int (length xs)) id s)"

definition rt_tbx_urgent_if :: "nat \<Rightarrow> nat \<Rightarrow> byte list \<Rightarrow> txst \<Rightarrow> int txres" where
  "rt_tbx_urgent_if n b xs s = tbx_guard b (length xs) id s
     (case tbx_check_room b (int (length xs) + 1) s of
        (True, s1) \<Rightarrow> tbx_deliver n b (backput_tbx b TYPE_URGENT xs) (\<lambda>_. 0) s1
      | (False, s1) \<Rightarrow> Ret (int (length xs)) s1)"

definition rt_tbx_urgent_until :: "nat \<Rightarrow> nat \<Rightarrow> byte list \<Rightarrow> rtime \<Rightarrow> txst \<Rightarrow> int txres" where
  "rt_tbx_urgent_until n b xs time s = tbx_guard b (length xs) id s
     (tbx_send_with (tbx_smx_wait_until time) (tbx_wait_room_until time) n b (backput_tbx b TYPE_URGENT xs)
        (int (length xs) + 1) (int (length xs)) id s)"

definition rt_tbx_urgent_timed :: "nat \<Rightarrow> nat \<Rightarrow> byte list \<Rightarrow> rtime \<Rightarrow> txst \<Rightarrow> int txres" where
  "rt_tbx_urgent_timed n b xs delay s = (let (now, s1) = tbx_time s in rt_tbx_urgent_until n b xs (now + delay) s1)"

section \<open>Receiving\<close>

definition set_bcb :: "nat \<Rightarrow> byte \<Rightarrow> txst \<Rightarrow> txst" where
  "set_bcb b v s = s\<lparr>txker := (txker s)\<lparr>mem := put_bytes (t_bcbadr (tbxs s b)) [v] (mem (txker s))\<rparr>\<rparr>"

definition keep_broadcast :: "nat \<Rightarrow> byte list \<Rightarrow> txst \<Rightarrow> txst" where
  "keep_broadcast b ys s = set_bcb b TYPE_BROADCAST
     (s\<lparr>txker := (txker s)\<lparr>mem := put_bytes (t_bcbadr (tbxs s b) + 1) ys (mem (txker s))\<rparr>\<rparr>)"

text \<open>The results: the caller's buffer, \<^verbatim>\<open>*msg_size\<close> and \<^verbatim>\<open>*lock\<close>.\<close>

definition tbx_receive_core :: "nat \<Rightarrow> nat \<Rightarrow> byte list \<Rightarrow> byte \<Rightarrow> txst \<Rightarrow> (byte list \<times> int \<times> bool) txres" where
  "tbx_receive_core n b ys type s =
     (let all_have = (\<lambda>ys s. res_bind (in_txker (rt_sem_broadcast n (t_bcbsmx (tbxs s b)) (txker s)) s)
                                (\<lambda>_. Ret (ys, 0, False))) in
      if type = TYPE_BROADCAST then
        if bcb_byte b s = TYPE_NONE then
          lift_opt (get_tbx b ys s) (\<lambda>(ys1, left, s1).
            if t_waiting_nr (tbxs s1 b) > 0 then Ret (ys1, 0, True) (keep_broadcast b ys1 s1) else all_have ys1 s1)
        else
          let ys1 = get_bytes (t_bcbadr (tbxs s b) + 1) (length ys) (mem (txker s)) in
          if t_waiting_nr (tbxs s b) = 0 then all_have ys1 (set_bcb b TYPE_NONE s) else Ret (ys1, 0, True) s
      else lift_opt (get_tbx b ys s) (\<lambda>(ys1, left, s1). Ret (ys1, left, False) s1))"

text \<open>What follows in every receiving call: copy, signals, and the wait for the end of a broadcast.\<close>

definition tbx_collect :: "nat \<Rightarrow> nat \<Rightarrow> byte list \<Rightarrow> byte \<Rightarrow> txst \<Rightarrow> (byte list \<times> int) txres" where
  "tbx_collect n b ys type s =
     res_bind (tbx_receive_core n b ys type s) (\<lambda>(ys1, left, lock) s1.
       res_bind (tbx_signal n b s1) (\<lambda>_ s2.
         res_bind (tbx_smx_signal n b (t_rcvsmx (tbxs s2 b)) s2) (\<lambda>_ s3.
           if lock then res_bind (in_txker (rt_sem_wait n (t_bcbsmx (tbxs s3 b)) (txker s3)) s3) (\<lambda>_. Ret (ys1, left))
           else Ret (ys1, left) s3)))"

definition tbx_receive_with ::
    "(nat \<Rightarrow> nat \<Rightarrow> semid \<Rightarrow> tid \<Rightarrow> txst \<Rightarrow> bool txres) \<Rightarrow>
      (nat \<Rightarrow> nat \<Rightarrow> int \<Rightarrow> tid \<Rightarrow> txst \<Rightarrow> (bool \<times> byte) txres) \<Rightarrow> nat \<Rightarrow> nat \<Rightarrow> byte list \<Rightarrow> txst \<Rightarrow> (byte list \<times> int) txres" where
  "tbx_receive_with smx await n b ys s =
     (let cur = rt_current (txker s) in
      res_bind (smx n b (t_rcvsmx (tbxs s b)) cur s) (\<lambda>e s1.
        if e then Ret (ys, int (length ys)) s1
        else res_bind (await n b (int (length ys) + 1) cur s1) (\<lambda>(e, type) s2.
          if e then res_bind (tbx_smx_signal n b (t_rcvsmx (tbxs s2 b)) s2) (\<lambda>_. Ret (ys, int (length ys)))
          else tbx_collect n b ys type s2)))"

definition rt_tbx_receive :: "nat \<Rightarrow> nat \<Rightarrow> byte list \<Rightarrow> txst \<Rightarrow> (byte list \<times> int) txres" where
  "rt_tbx_receive n b ys s = tbx_guard b (length ys) (\<lambda>e. (ys, e)) s (tbx_receive_with tbx_smx_wait tbx_wait_msg n b ys s)"

definition rt_tbx_receive_if :: "nat \<Rightarrow> nat \<Rightarrow> byte list \<Rightarrow> txst \<Rightarrow> (byte list \<times> int) txres" where
  "rt_tbx_receive_if n b ys s = tbx_guard b (length ys) (\<lambda>e. (ys, e)) s
     (case tbx_check_msg b (int (length ys) + 1) s of
        (type, s1) \<Rightarrow> if type \<noteq> 0 then tbx_collect n b ys type s1 else Ret (ys, int (length ys)) s1)"

definition rt_tbx_receive_until :: "nat \<Rightarrow> nat \<Rightarrow> byte list \<Rightarrow> rtime \<Rightarrow> txst \<Rightarrow> (byte list \<times> int) txres" where
  "rt_tbx_receive_until n b ys time s = tbx_guard b (length ys) (\<lambda>e. (ys, e)) s
     (tbx_receive_with (tbx_smx_wait_until time) (tbx_wait_msg_until time) n b ys s)"

definition rt_tbx_receive_timed :: "nat \<Rightarrow> nat \<Rightarrow> byte list \<Rightarrow> rtime \<Rightarrow> txst \<Rightarrow> (byte list \<times> int) txres" where
  "rt_tbx_receive_timed n b ys delay s = (let (now, s1) = tbx_time s in rt_tbx_receive_until n b ys (now + delay) s1)"

end
