(* ===== verification/Tbx_Buffer.thy ===== *)
theory Tbx_Buffer
  imports Typed_Mailboxes
begin

text \<open>
  The circular buffer of a typed mailbox as a double ended queue of bytes: what the copying loops write and
  read, as positions modulo the size of the buffer, and the bytes a mailbox holds after each of them.
\<close>

section \<open>Bytes at positions modulo a size\<close>

primrec ring_put :: "nat \<Rightarrow> int \<Rightarrow> int \<Rightarrow> byte list \<Rightarrow> bytes \<Rightarrow> bytes" where
  "ring_put a n f [] m = m"
| "ring_put a n f (x # xs) m = ring_put a n (f + 1) xs (m(a + nat (f mod n) := x))"

definition ring_get :: "nat \<Rightarrow> int \<Rightarrow> int \<Rightarrow> nat \<Rightarrow> bytes \<Rightarrow> byte list" where
  "ring_get a n f k m = map (\<lambda>i. m (a + nat ((f + int i) mod n))) [0..<k]"

lemma ring_put_append: "ring_put a n f (xs @ ys) m = ring_put a n (f + int (length xs)) ys (ring_put a n f xs m)"
  by (induction xs arbitrary: f m) (simp_all add: ac_simps)

lemma ring_put_cong: "f mod n = g mod n \<Longrightarrow> ring_put a n f xs m = ring_put a n g xs m"
proof (induction xs arbitrary: f g m)
  case (Cons x xs)
  have "(f + 1) mod n = (g + 1) mod n" using mod_add_cong [OF Cons.prems refl] .
  then show ?case using Cons.IH [of "f + 1" "g + 1"] Cons.prems by simp
qed simp

lemma ring_get_cong:
  assumes "f mod n = g mod n"
  shows "ring_get a n f k m = ring_get a n g k m"
proof -
  have "(f + int i) mod n = (g + int i) mod n" for i using mod_add_cong [OF assms refl] .
  then show ?thesis by (simp add: ring_get_def)
qed

lemma ring_get_add: "ring_get a n f (i + k) m = ring_get a n f i m @ ring_get a n (f + int i) k m"
proof -
  have "[0..<i + k] = [0..<i] @ map (\<lambda>j. i + j) [0..<k]"
    by (simp add: map_add_upt upt_add_eq_append [of 0 i k] add.commute)
  then show ?thesis by (simp add: ring_get_def comp_def ac_simps)
qed

lemma length_ring_get [simp]: "length (ring_get a n f k m) = k"
  by (simp add: ring_get_def)

lemma put_bytes_Cons: "put_bytes a (x # xs) m = put_bytes (Suc a) xs (m(a := x))"
  by (auto simp: put_bytes_def fun_eq_iff nth_Cons' not_le)

lemma put_bytes_ring:
  "0 \<le> f \<Longrightarrow> f + int (length xs) \<le> n \<Longrightarrow> put_bytes (nat (int a + f)) xs m = ring_put a n f xs m"
proof (induction xs arbitrary: f m)
  case Nil
  then show ?case by (auto simp: put_bytes_def fun_eq_iff)
next
  case (Cons x xs)
  have e: "nat (int a + f) = a + nat (f mod n)" "Suc (nat (int a + f)) = nat (int a + (f + 1))"
    using Cons.prems by (simp_all add: nat_add_distrib)
  have "put_bytes (nat (int a + (f + 1))) xs (m(a + nat (f mod n) := x)) = ring_put a n (f + 1) xs (m(a + nat (f mod n) := x))"
    using Cons.prems by (intro Cons.IH) simp_all
  then show ?case unfolding put_bytes_Cons using e by simp
qed

lemma get_bytes_ring:
  assumes "0 \<le> f" and "f + int k \<le> n"
  shows "get_bytes (nat (int a + f)) k m = ring_get a n f k m"
proof (rule nth_equalityI)
  show "length (get_bytes (nat (int a + f)) k m) = length (ring_get a n f k m)" by (simp add: get_bytes_def)
  fix i assume "i < length (get_bytes (nat (int a + f)) k m)"
  then have i: "i < k" by (simp add: get_bytes_def)
  have "(f + int i) mod n = f + int i" using assms i by simp
  moreover have "nat (int a + f) + i = a + nat (f + int i)" using assms(1) by simp
  ultimately show "get_bytes (nat (int a + f)) k m ! i = ring_get a n f k m ! i"
    using i by (simp add: get_bytes_def ring_get_def)
qed

text \<open>Positions less than a turn apart are different.\<close>

lemma mod_neq:
  fixes f g n :: int
  assumes "f < g" and "g - f < n"
  shows "f mod n \<noteq> g mod n"
proof
  assume "f mod n = g mod n"
  then have "(g - f) mod n = 0" by (metis cancel_comm_monoid_add_class.diff_cancel mod_diff_eq mod_0)
  then show False using assms by simp
qed

lemma ring_put_other:
  assumes "0 < n" and "\<forall>j < length xs. (f + int j) mod n \<noteq> g mod n"
  shows "ring_put a n f xs m (a + nat (g mod n)) = m (a + nat (g mod n))"
  using assms(2)
proof (induction xs arbitrary: f m)
  case (Cons x xs)
  have "f mod n \<noteq> g mod n" using Cons.prems by (metis add.right_neutral int_ops(1) length_greater_0_conv list.discI)
  moreover have "\<forall>j < length xs. (f + 1 + int j) mod n \<noteq> g mod n"
  proof (intro allI impI)
    fix j assume "j < length xs"
    then show "(f + 1 + int j) mod n \<noteq> g mod n" using Cons.prems [rule_format, of "Suc j"] by (simp add: ac_simps)
  qed
  ultimately show ?case using Cons.IH assms(1) by (simp add: nat_eq_iff)
qed simp

lemma ring_get_other:
  assumes "0 < n" and "\<And>i j. i < k \<Longrightarrow> j < length xs \<Longrightarrow> (f + int j) mod n \<noteq> (g + int i) mod n"
  shows "ring_get a n g k (ring_put a n f xs m) = ring_get a n g k m"
proof -
  have "ring_put a n f xs m (a + nat ((g + int i) mod n)) = m (a + nat ((g + int i) mod n))" if "i < k" for i
    by (rule ring_put_other [OF assms(1)]) (use assms(2) that in blast)
  then show ?thesis by (simp add: ring_get_def)
qed

lemma ring_get_put: "0 < n \<Longrightarrow> int (length xs) \<le> n \<Longrightarrow> ring_get a n f (length xs) (ring_put a n f xs m) = xs"
proof (induction xs arbitrary: f m)
  case Nil
  then show ?case by (simp add: ring_get_def)
next
  case (Cons x xs)
  let ?m = "m(a + nat (f mod n) := x)"
  have "ring_put a n (f + 1) xs ?m (a + nat (f mod n)) = ?m (a + nat (f mod n))"
  proof (rule ring_put_other [OF Cons.prems(1)], intro allI impI)
    fix j assume "j < length xs"
    then show "(f + 1 + int j) mod n \<noteq> f mod n"
      using mod_neq [of f "f + 1 + int j" n] Cons.prems(2) by simp
  qed
  moreover have "ring_get a n (f + 1) (length xs) (ring_put a n (f + 1) xs ?m) = xs"
    using Cons by simp
  moreover have "ring_get a n f (Suc (length xs)) M = M (a + nat (f mod n)) # ring_get a n (f + 1) (length xs) M" for M
    using ring_get_add [of a n f 1 "length xs" M] by (simp add: ring_get_def)
  ultimately show ?case by simp
qed


section \<open>The bytes of a mailbox\<close>

definition tbx_ok :: "tbx \<Rightarrow> bool" where
  "tbx_ok t \<longleftrightarrow> 0 < t_size t \<and> 0 \<le> t_fbyte t \<and> t_fbyte t < t_size t \<and> 0 \<le> t_avbs t \<and> 0 \<le> t_frbs t
     \<and> t_avbs t + t_frbs t = t_size t"

definition held :: "tbx \<Rightarrow> bytes \<Rightarrow> byte list" where
  "held t m = ring_get (t_bufadr t) (t_size t) (t_fbyte t) (nat (t_avbs t)) m"

lemma fill_room_simps [simp]:
  "t_frbs (fill_room n t) = t_frbs t - n" "t_avbs (fill_room n t) = t_avbs t + n" "t_fbyte (fill_room n t) = t_fbyte t"
  "t_size (fill_room n t) = t_size t" "t_bufadr (fill_room n t) = t_bufadr t"
  "fill_room 0 t = t" "fill_room n (fill_room k t) = fill_room (k + n) t"
  by (simp_all add: fill_room_def)

lemma fill_room_ok: "tbx_ok t \<Longrightarrow> 0 \<le> n \<Longrightarrow> n \<le> t_frbs t \<Longrightarrow> tbx_ok (fill_room n t)"
  by (simp add: tbx_ok_def)

lemma leave_room_simps [simp]:
  "t_frbs (leave_room n t) = t_frbs t + n" "t_avbs (leave_room n t) = t_avbs t - n"
  "t_fbyte (leave_room n t) = TBX_MOD_SIZE t (t_fbyte t + n)"
  "t_size (leave_room n t) = t_size t" "t_bufadr (leave_room n t) = t_bufadr t"
  by (simp_all add: leave_room_def)

lemma TBX_MOD_SIZE_mod: "0 < t_size t \<Longrightarrow> 0 \<le> i \<Longrightarrow> i < 2 * t_size t \<Longrightarrow> TBX_MOD_SIZE t i = i mod t_size t"
proof (cases "i < t_size t")
  case False
  assume "0 < t_size t" "i < 2 * t_size t"
  then have "(i - t_size t) mod t_size t = i - t_size t" using False by (intro mod_pos_pos_trivial) simp_all
  then show ?thesis using False by (simp add: TBX_MOD_SIZE_def)
qed (simp add: TBX_MOD_SIZE_def)

lemma leave_room_ok:
  assumes "tbx_ok t" and "0 \<le> n" and "n \<le> t_avbs t"
  shows "tbx_ok (leave_room n t)" and "t_fbyte (leave_room n t) = (t_fbyte t + n) mod t_size t"
proof -
  show e: "t_fbyte (leave_room n t) = (t_fbyte t + n) mod t_size t"
    using assms TBX_MOD_SIZE_mod [of t "t_fbyte t + n"] by (simp add: tbx_ok_def)
  show "tbx_ok (leave_room n t)"
    using assms e by (simp add: tbx_ok_def)
qed

lemma packed_simps [simp]:
  "packed TYPE_NONE xs = int (length xs)" "y \<noteq> TYPE_NONE \<Longrightarrow> packed y xs = int (length xs) + 1"
  by (simp_all add: packed_def)

section \<open>Putting behind\<close>

text \<open>The loop once the type has been written: chunk by chunk it writes the message at the positions that follow.\<close>

lemma tbxput_rest:
  assumes "tbx_ok t" and "int (length xs) \<le> t_frbs t"
  shows "tbxput TYPE_NONE xs t m = Some (0, fill_room (int (length xs)) t,
           ring_put (t_bufadr t) (t_size t) (t_fbyte t + t_avbs t) xs m)"
  using assms
proof (induction xs arbitrary: t m rule: length_induct)
  case (1 xs)
  show ?case
  proof (cases "xs = []")
    case True
    then show ?thesis by (subst tbxput.simps) simp
  next
    case False
    let ?n = "t_size t" and ?last = "TBX_MOD_SIZE t (t_fbyte t + t_avbs t)"
    let ?k = "if ?n - ?last > int (length xs) then int (length xs) else ?n - ?last"
    let ?m = "put_bytes (buf_at t ?last) (take (nat ?k) xs) m"
    have len: "0 < int (length xs)" using False by simp
    then have fr: "t_frbs t \<noteq> 0" using 1(3) by linarith
    have last: "?last = (t_fbyte t + t_avbs t) mod ?n" and lb: "0 \<le> ?last" "?last < ?n"
      using 1(2,3) len TBX_MOD_SIZE_mod [of t "t_fbyte t + t_avbs t"] by (simp_all add: tbx_ok_def)
    have k: "0 < ?k" "?k \<le> int (length xs)" "?last + ?k \<le> ?n" using lb len by auto
    have dl: "length (drop (nat ?k) xs) < length xs" "int (length (drop (nat ?k) xs)) = int (length xs) - ?k"
      "int (length (take (nat ?k) xs)) = ?k"
      using k by (simp_all add: of_nat_diff)
    have "tbxput TYPE_NONE xs t m = tbxput TYPE_NONE (drop (nat ?k) xs) (fill_room ?k t) ?m"
      using fr len lb(2) by (subst tbxput.simps) (simp add: Let_def)
    also have "\<dots> = Some (0, fill_room (int (length (drop (nat ?k) xs))) (fill_room ?k t),
        ring_put (t_bufadr t) ?n (t_fbyte t + t_avbs t + ?k) (drop (nat ?k) xs) ?m)"
      using 1(1) [rule_format, OF dl(1) fill_room_ok, of t ?k ?m] 1(2,3) k dl(2) by (simp add: add.assoc)
    also have "?m = ring_put (t_bufadr t) ?n (t_fbyte t + t_avbs t) (take (nat ?k) xs) m"
      using put_bytes_ring [of ?last "take (nat ?k) xs" ?n "t_bufadr t" m] lb k(3) dl(3)
        ring_put_cong [of ?last ?n "t_fbyte t + t_avbs t"] last by simp
    also have "ring_put (t_bufadr t) ?n (t_fbyte t + t_avbs t + ?k) (drop (nat ?k) xs)
         (ring_put (t_bufadr t) ?n (t_fbyte t + t_avbs t) (take (nat ?k) xs) m)
       = ring_put (t_bufadr t) ?n (t_fbyte t + t_avbs t) xs m"
      using ring_put_append [of "t_bufadr t" ?n "t_fbyte t + t_avbs t" "take (nat ?k) xs" "drop (nat ?k) xs" m] dl(3)
      by (simp del: length_take)
    also have "fill_room (int (length (drop (nat ?k) xs))) (fill_room ?k t) = fill_room (int (length xs)) t"
      using dl(2) by (simp del: length_drop)
    finally show ?thesis .
  qed
qed


lemma tbxput_eq:
  assumes "tbx_ok t" and "int (length xs) + 1 \<le> t_frbs t" and "y \<noteq> TYPE_NONE"
  shows "tbxput y xs t m = Some (0, fill_room (int (length xs) + 1) t,
           ring_put (t_bufadr t) (t_size t) (t_fbyte t + t_avbs t) (y # xs) m)"
proof -
  let ?last = "TBX_MOD_SIZE t (t_fbyte t + t_avbs t)"
  have last: "?last = (t_fbyte t + t_avbs t) mod t_size t" and lb: "0 \<le> ?last"
    using assms TBX_MOD_SIZE_mod [of t "t_fbyte t + t_avbs t"] by (simp_all add: tbx_ok_def)
  have "tbxput y xs t m = tbxput TYPE_NONE xs (fill_room 1 t) (put_bytes (buf_at t ?last) [y] m)"
    using assms(2,3) by (subst tbxput.simps) (simp add: Let_def)
  also have "put_bytes (buf_at t ?last) [y] m = m(t_bufadr t + nat ((t_fbyte t + t_avbs t) mod t_size t) := y)"
    using lb by (auto simp: put_bytes_def fun_eq_iff last nat_add_distrib)
  also have "tbxput TYPE_NONE xs (fill_room 1 t) \<dots> = Some (0, fill_room (int (length xs) + 1) t,
      ring_put (t_bufadr t) (t_size t) (t_fbyte t + t_avbs t) (y # xs) m)"
    using tbxput_rest [OF fill_room_ok, of t 1 xs] assms by (simp add: ac_simps)
  finally show ?thesis .
qed

text \<open>What has been put is behind what the mailbox held.\<close>

lemma held_put:
  assumes ok: "tbx_ok t" and n: "int (length xs) \<le> t_frbs t"
  shows "held (fill_room (int (length xs)) t) (ring_put (t_bufadr t) (t_size t) (t_fbyte t + t_avbs t) xs m) = held t m @ xs"
proof -
  let ?m = "ring_put (t_bufadr t) (t_size t) (t_fbyte t + t_avbs t) xs m" and ?a = "nat (t_avbs t)"
  have pos: "0 < t_size t" "0 \<le> t_avbs t" "t_avbs t + int (length xs) \<le> t_size t" using ok n by (simp_all add: tbx_ok_def)
  have a: "nat (t_avbs t + int (length xs)) = ?a + length xs" "int ?a = t_avbs t" using pos by (simp_all add: nat_add_distrib)
  have "ring_get (t_bufadr t) (t_size t) (t_fbyte t) ?a ?m = held t m"
    unfolding held_def
  proof (rule ring_get_other [OF pos(1)])
    fix i j assume ij: "i < ?a" "j < length xs"
    have "int i < t_avbs t" "int j < int (length xs)" using ij by simp_all
    then have "(t_fbyte t + int i) mod t_size t \<noteq> (t_fbyte t + t_avbs t + int j) mod t_size t"
      by (intro mod_neq) (use pos(3) in linarith)+
    then show "(t_fbyte t + t_avbs t + int j) mod t_size t \<noteq> (t_fbyte t + int i) mod t_size t" by (rule not_sym)
  qed
  moreover have "ring_get (t_bufadr t) (t_size t) (t_fbyte t + t_avbs t) (length xs) ?m = xs"
    using pos by (intro ring_get_put) simp_all
  moreover have "held (fill_room (int (length xs)) t) ?m = ring_get (t_bufadr t) (t_size t) (t_fbyte t) ?a ?m
      @ ring_get (t_bufadr t) (t_size t) (t_fbyte t + t_avbs t) (length xs) ?m"
    unfolding held_def fill_room_simps a(1) ring_get_add a(2) ..
  ultimately show ?thesis by simp
qed

section \<open>Getting\<close>

lemma held_leave:
  assumes ok: "tbx_ok t" and n: "int n \<le> t_avbs t"
  shows "held (leave_room (int n) t) m = drop n (held t m)" and "ring_get (t_bufadr t) (t_size t) (t_fbyte t) n m = take n (held t m)"
proof -
  have a: "nat (t_avbs t) = n + nat (t_avbs t - int n)" using n by simp
  have h: "held t m = ring_get (t_bufadr t) (t_size t) (t_fbyte t) n m
      @ ring_get (t_bufadr t) (t_size t) (t_fbyte t + int n) (nat (t_avbs t - int n)) m"
    unfolding held_def by (subst a) (rule ring_get_add)
  then show "ring_get (t_bufadr t) (t_size t) (t_fbyte t) n m = take n (held t m)" by simp
  have "t_fbyte (leave_room (int n) t) = (t_fbyte t + int n) mod t_size t" using leave_room_ok(2) [OF ok] n by simp
  then show "held (leave_room (int n) t) m = drop n (held t m)"
    unfolding h using ring_get_cong [of "(t_fbyte t + int n) mod t_size t" "t_size t" "t_fbyte t + int n"]
    by (simp add: held_def)
qed

lemma leave_room_add:
  assumes "tbx_ok t" and "0 \<le> k" and "0 \<le> n" and "k + n \<le> t_avbs t"
  shows "leave_room n (leave_room k t) = leave_room (k + n) t"
proof -
  have ok: "tbx_ok (leave_room k t)" using leave_room_ok(1) [OF assms(1,2)] assms(3,4) by simp
  have "t_fbyte (leave_room n (leave_room k t)) = t_fbyte (leave_room (k + n) t)"
    using leave_room_ok(2) [OF ok, of n] leave_room_ok(2) [OF assms(1), of k] leave_room_ok(2) [OF assms(1), of "k + n"] assms
    by (simp add: mod_add_left_eq add.assoc)
  then show ?thesis by (simp add: leave_room_def)
qed

lemma tbxget_eq:
  assumes "tbx_ok t" and "int n \<le> t_avbs t"
  shows "tbxget (int n) t m = Some (take n (held t m), 0, leave_room (int n) t)"
  using assms
proof (induction n arbitrary: t rule: less_induct)
  case (less n)
  show ?case
  proof (cases "n = 0")
    case True
    then show ?thesis using less.prems by (subst tbxget.simps) (simp add: leave_room_def TBX_MOD_SIZE_def tbx_ok_def)
  next
    case False
    let ?room = "t_size t - t_fbyte t"
    let ?k = "if ?room > int n then n else nat ?room"
    have ok: "0 < ?room" "0 \<le> t_fbyte t" "0 < t_avbs t" using less.prems False by (simp_all add: tbx_ok_def)
    have k: "0 < ?k" "?k \<le> n" "t_fbyte t + int ?k \<le> t_size t" "int ?k \<le> t_avbs t" "int (n - ?k) = int n - int ?k"
      using ok False less.prems(2) by auto
    have tk: "(if (if ?room > int n then int n else ?room) > t_avbs t then t_avbs t
               else if ?room > int n then int n else ?room) = int ?k"
      using ok less.prems(2) by auto
    note l = leave_room_ok(1) [OF less.prems(1), of "int ?k"] held_leave [OF less.prems(1) k(4), of m]
    have ih: "tbxget (int (n - ?k)) (leave_room (int ?k) t) m
        = Some (take (n - ?k) (held (leave_room (int ?k) t) m), 0, leave_room (int (n - ?k)) (leave_room (int ?k) t))"
      by (rule less.IH) (use l(1) k less.prems(2) in simp_all)
    have r: "leave_room (int (n - ?k)) (leave_room (int ?k) t) = leave_room (int n) t"
      using leave_room_add [OF less.prems(1), of "int ?k" "int (n - ?k)"] k(5) less.prems(2) k(2) by simp
    have g: "get_bytes (buf_at t (t_fbyte t)) ?k m = take ?k (held t m)"
      using get_bytes_ring [OF ok(2) k(3), of "t_bufadr t" m] l(3) by simp
    have a: "take ?k (held t m) @ take (n - ?k) (drop ?k (held t m)) = take n (held t m)"
      using take_add [of ?k "n - ?k" "held t m"] k(2) by simp
    have c: "t_avbs t \<noteq> 0 \<and> int n > 0" "\<not> int ?k < 0" "nat (int ?k) = ?k" using ok False by simp_all
    show ?thesis
      unfolding tbxget.simps [of "int n" t m] Let_def tk if_P [OF c(1)] if_not_P [OF c(2)] c(3) k(5) [symmetric] ih l(2) g r
        bind.bind_lunit prod.case a by (rule refl)
  qed
qed


section \<open>Putting in front\<close>

lemma backput_rest:
  assumes "0 < t_size t" and "0 \<le> f" and "f < t_size t" and "0 \<le> j" and "j \<le> t_size t"
    and "int (length xs) \<le> t_frbs t"
  shows "backput_loop TYPE_NONE xs f j t m = Some (0, fill_room (int (length xs)) t,
           ring_put (t_bufadr t) (t_size t) (f + j) xs m)"
  using assms
proof (induction xs arbitrary: t m f j rule: length_induct)
  case (1 xs)
  show ?case
  proof (cases "xs = []")
    case True
    then show ?thesis by (subst backput_loop.simps) simp
  next
    case False
    let ?n = "t_size t" and ?f = "TBX_MOD_SIZE t (f + j)"
    let ?k = "if ?n - ?f > int (length xs) then int (length xs) else ?n - ?f"
    let ?m = "put_bytes (buf_at t ?f) (take (nat ?k) xs) m"
    have len: "0 < int (length xs)" using False by simp
    then have fr: "t_frbs t \<noteq> 0" using 1(7) by linarith
    have f: "?f = (f + j) mod ?n" and lb: "0 \<le> ?f" "?f < ?n"
      using 1(2-6) TBX_MOD_SIZE_mod [of t "f + j"] by simp_all
    have k: "0 < ?k" "?k \<le> int (length xs)" "?f + ?k \<le> ?n" "?k \<le> ?n" using lb len by auto
    have dl: "length (drop (nat ?k) xs) < length xs" "int (length (drop (nat ?k) xs)) = int (length xs) - ?k"
      "int (length (take (nat ?k) xs)) = ?k"
      using k by (simp_all add: of_nat_diff)
    have "backput_loop TYPE_NONE xs f j t m = backput_loop TYPE_NONE (drop (nat ?k) xs) ?f ?k (fill_room ?k t) ?m"
      using fr len lb(2) 1(3) by (subst backput_loop.simps) (simp add: Let_def)
    also have "\<dots> = Some (0, fill_room (int (length (drop (nat ?k) xs))) (fill_room ?k t),
        ring_put (t_bufadr t) ?n (?f + ?k) (drop (nat ?k) xs) ?m)"
      using 1(1) [rule_format, OF dl(1), of "fill_room ?k t" ?f ?k ?m] 1(2,7) lb k dl(2) by simp
    also have "?m = ring_put (t_bufadr t) ?n ?f (take (nat ?k) xs) m"
      using put_bytes_ring [of ?f "take (nat ?k) xs" ?n "t_bufadr t" m] lb k(3) dl(3) by simp
    also have "ring_put (t_bufadr t) ?n (?f + ?k) (drop (nat ?k) xs) (ring_put (t_bufadr t) ?n ?f (take (nat ?k) xs) m)
       = ring_put (t_bufadr t) ?n ?f xs m"
      using ring_put_append [of "t_bufadr t" ?n ?f "take (nat ?k) xs" "drop (nat ?k) xs" m] dl(3)
      by (simp del: length_take)
    also have "\<dots> = ring_put (t_bufadr t) ?n (f + j) xs m"
      by (rule ring_put_cong) (simp add: f)
    also have "fill_room (int (length (drop (nat ?k) xs))) (fill_room ?k t) = fill_room (int (length xs)) t"
      using dl(2) by (simp del: length_drop)
    finally show ?thesis .
  qed
qed

text \<open>The mailbox whose first byte is \<open>n\<close> positions in front of the present one.\<close>

definition step_back :: "int \<Rightarrow> tbx \<Rightarrow> tbx" where
  "step_back n t = fill_room n (t\<lparr>t_fbyte := (t_fbyte t - n) mod t_size t\<rparr>)"

lemma step_back_ok: "tbx_ok t \<Longrightarrow> 0 \<le> n \<Longrightarrow> n \<le> t_frbs t \<Longrightarrow> tbx_ok (step_back n t)"
  by (simp add: tbx_ok_def step_back_def)

lemma tbxbackput_eq:
  assumes ok: "tbx_ok t" and n: "int (length xs) + 1 \<le> t_frbs t" and y: "y \<noteq> TYPE_NONE"
  shows "tbxbackput y xs t m = Some (0, step_back (int (length xs) + 1) t,
           ring_put (t_bufadr t) (t_size t) (t_fbyte t - (int (length xs) + 1)) (y # xs) m)"
proof -
  let ?p = "int (length xs) + 1"
  let ?f = "TBX_REVERSE_MOD_SIZE t (t_fbyte t - ?p)" and ?g = "t_fbyte t - ?p"
  let ?t = "t\<lparr>t_fbyte := ?f\<rparr>"
  have sz: "0 < t_size t" "0 \<le> t_fbyte t" "t_fbyte t < t_size t" "?p \<le> t_size t" using ok n by (simp_all add: tbx_ok_def)
  have f: "?f = ?g mod t_size t"
  proof (cases "0 \<le> ?g")
    case False
    then have "(?g + t_size t) mod t_size t = ?g + t_size t" using sz by (intro mod_pos_pos_trivial) linarith+
    then show ?thesis using False by (simp add: TBX_REVERSE_MOD_SIZE_def add.commute)
  qed (use sz in \<open>simp add: TBX_REVERSE_MOD_SIZE_def\<close>)
  then have fb: "0 \<le> ?f" "?f < t_size t" using sz by simp_all
  have "tbxbackput y xs t m = backput_loop TYPE_NONE xs ?f 1 (fill_room 1 ?t) (put_bytes (buf_at t ?f) [y] m)"
    unfolding tbxbackput_def using n y by (subst backput_loop.simps) (simp add: Let_def)
  also have "put_bytes (buf_at t ?f) [y] m = m(t_bufadr t + nat (?g mod t_size t) := y)"
    using fb by (auto simp: put_bytes_def fun_eq_iff f nat_add_distrib)
  also have "backput_loop TYPE_NONE xs ?f 1 (fill_room 1 ?t) \<dots> = Some (0, fill_room (int (length xs)) (fill_room 1 ?t),
      ring_put (t_bufadr t) (t_size t) (?f + 1) xs (m(t_bufadr t + nat (?g mod t_size t) := y)))"
    using backput_rest [of "fill_room 1 ?t" ?f 1 xs] fb sz n by simp
  also have "ring_put (t_bufadr t) (t_size t) (?f + 1) xs (m(t_bufadr t + nat (?g mod t_size t) := y))
      = ring_put (t_bufadr t) (t_size t) ?g (y # xs) m"
    unfolding ring_put.simps by (rule ring_put_cong) (simp add: f mod_add_left_eq)
  also have "fill_room (int (length xs)) (fill_room 1 ?t) = step_back ?p t"
    unfolding step_back_def f [symmetric] by (simp add: add.commute)
  finally show ?thesis .
qed

lemma held_back:
  assumes ok: "tbx_ok t" and n: "int (length xs) \<le> t_frbs t"
  shows "held (step_back (int (length xs)) t) (ring_put (t_bufadr t) (t_size t) (t_fbyte t - int (length xs)) xs m) = xs @ held t m"
proof -
  let ?g = "t_fbyte t - int (length xs)"
  let ?m = "ring_put (t_bufadr t) (t_size t) ?g xs m" and ?a = "nat (t_avbs t)"
  have pos: "0 < t_size t" "0 \<le> t_avbs t" "t_avbs t + int (length xs) \<le> t_size t" using ok n by (simp_all add: tbx_ok_def)
  have a: "nat (t_avbs t + int (length xs)) = length xs + ?a" "?g + int (length xs) = t_fbyte t"
    using pos by (simp_all add: nat_add_distrib)
  have "ring_get (t_bufadr t) (t_size t) (t_fbyte t) ?a ?m = held t m"
    unfolding held_def
  proof (rule ring_get_other [OF pos(1)])
    fix i j assume ij: "i < ?a" "j < length xs"
    have "int i < t_avbs t" "int j < int (length xs)" using ij by simp_all
    then show "(?g + int j) mod t_size t \<noteq> (t_fbyte t + int i) mod t_size t"
      by (intro mod_neq) (use pos(3) in linarith)+
  qed
  moreover have "ring_get (t_bufadr t) (t_size t) ?g (length xs) ?m = xs"
    using pos by (intro ring_get_put) simp_all
  moreover have "held (step_back (int (length xs)) t) ?m = ring_get (t_bufadr t) (t_size t) ?g (length xs + ?a) ?m"
    using ring_get_cong [of "?g mod t_size t" "t_size t" ?g] a(1) by (simp add: held_def step_back_def)
  ultimately show ?thesis unfolding ring_get_add a(2) by simp
qed


lemma ring_put_outside:
  assumes "0 < n" and "d < a \<or> a + nat n \<le> d"
  shows "ring_put a n f xs m d = m d"
proof (induction xs arbitrary: f m)
  case (Cons x xs)
  have "nat (f mod n) < nat n" using assms(1) by simp
  then have "d \<noteq> a + nat (f mod n)" using assms(2) by linarith
  then show ?case using Cons by simp
qed simp

lemma next_byte:
  assumes "tbx_ok t" and "held t m = y # ys"
  shows "m (buf_at t (t_fbyte t)) = y" and "1 \<le> t_avbs t"
proof -
  have "length (held t m) = nat (t_avbs t)" by (simp add: held_def)
  then show a: "1 \<le> t_avbs t" using assms(2) by (cases "t_avbs t \<le> 0") auto
  have "ring_get (t_bufadr t) (t_size t) (t_fbyte t) 1 m = [y]"
    using held_leave(2) [OF assms(1), of 1 m] a assms(2) by simp
  moreover have "t_fbyte t mod t_size t = t_fbyte t" using assms(1) by (simp add: tbx_ok_def)
  ultimately show "m (buf_at t (t_fbyte t)) = y"
    using assms(1) by (simp add: ring_get_def nat_add_distrib tbx_ok_def)
qed

end
