(* ===== verification/Service_Calls.thy ===== *)
theory Service_Calls
  imports Rtai_Kernel
begin

text \<open>
  Sequences of calls of a service against an abstract specification of each call: the interface that the typed
  mailboxes and the mutexes of the POSIX threads implement when no task has to wait.
\<close>

section \<open>Sequences of calls against a specification\<close>

text \<open>A service whose calls return at once with the result and the effect of a specification does so in every sequence
  of calls.\<close>

primrec run_calls :: "('o \<Rightarrow> 's \<Rightarrow> ('s, 'r) sres) \<Rightarrow> 'o list \<Rightarrow> 's \<Rightarrow> ('s, 'r list) sres" where
  "run_calls exec [] s = Ret [] s"
| "run_calls exec (p # ps) s = res_bind (exec p s) (\<lambda>r s1. res_bind (run_calls exec ps s1) (\<lambda>rs. Ret (r # rs)))"

primrec run_spec :: "('o \<Rightarrow> 'a \<Rightarrow> ('r \<times> 'a) option) \<Rightarrow> 'o list \<Rightarrow> 'a \<Rightarrow> ('r list \<times> 'a) option" where
  "run_spec spec [] a = Some ([], a)"
| "run_spec spec (p # ps) a = do { (r, a1) \<leftarrow> spec p a; (rs, a2) \<leftarrow> run_spec spec ps a1; Some (r # rs, a2) }"

locale immediate_service =
  fixes exec :: "'o \<Rightarrow> 's \<Rightarrow> ('s, 'r) sres" and spec :: "'o \<Rightarrow> 'a \<Rightarrow> ('r \<times> 'a) option" and rel :: "'s \<Rightarrow> 'a \<Rightarrow> bool"
  assumes call: "rel s a \<Longrightarrow> spec p a = Some (r, a') \<Longrightarrow> \<exists>s'. exec p s = Ret r s' \<and> rel s' a'"
begin

lemma calls:
  assumes "rel s a" and "run_spec spec ps a = Some (rs, a')"
  shows "\<exists>s'. run_calls exec ps s = Ret rs s' \<and> rel s' a'"
  using assms
proof (induction ps arbitrary: s a rs)
  case (Cons p ps)
  obtain r a1 rs1 where 1: "spec p a = Some (r, a1)" "run_spec spec ps a1 = Some (rs1, a')" "rs = r # rs1"
    using Cons.prems(2) by (auto simp: bind_eq_Some_conv)
  obtain s1 where 2: "exec p s = Ret r s1" "rel s1 a1" using call [OF Cons.prems(1) 1(1)] by blast
  obtain s2 where "run_calls exec ps s1 = Ret rs1 s2" "rel s2 a'" using Cons.IH [OF 2(2) 1(2)] by blast
  then show ?case using 1(3) 2(1) by auto
qed simp

end

end
