(* ===== verification/Tbx_Props.thy ===== *)
theory Tbx_Props
  imports Tbx_Buffer Semaphore_Props Service_Calls
begin

text \<open>
  A typed mailbox on which no task waits, used with the conditional calls, behaves as a double ended queue of whole
  messages: normal ones leave in the order in which they have been sent, urgent ones before all that are there.  The
  waiting calls do the same where they need not wait.  The last part shows what goes wrong when a task has waited.
\<close>

section \<open>Messages in the buffer\<close>

type_synonym tbx_msg = "byte \<times> byte list"

definition frames :: "tbx_msg list \<Rightarrow> byte list" where
  "frames ms = concat (map (\<lambda>(y, xs). y # xs) ms)"

lemma frames_simps [simp]:
  "frames [] = []" "frames ((y, xs) # ms) = y # xs @ frames ms" "frames (ms @ ms') = frames ms @ frames ms'"
  by (simp_all add: frames_def)

definition sem_idle :: "kst \<Rightarrow> semid \<Rightarrow> bool" where
  "sem_idle k x \<longleftrightarrow> sem_count (sems k x) = 1 \<and> qnext k (SemQ x) = SemQ x \<and> qtask k (SemQ x) = NULL"

text \<open>No task waits, the running one included, no broadcast is under way, the buffer holds the messages \<open>ms\<close>, and the byte that marks a
  broadcast is not in it.\<close>

definition tbx_idle :: "nat \<Rightarrow> int \<Rightarrow> txst \<Rightarrow> tbx_msg list \<Rightarrow> bool" where
  "tbx_idle b n s ms \<longleftrightarrow> (let t = tbxs s b; k = txker s in
     t_magic t = RT_TBX_MAGIC \<and> t_size t = n \<and> t_waiting_nr t = 0 \<and> t_waiting_task t = None
     \<and> sem_idle k (t_sndsmx t) \<and> sem_idle k (t_rcvsmx t) \<and> tbx_ok t \<and> held t (mem k) = frames ms
     \<and> (\<forall>(y, xs) \<in> set ms. y \<noteq> TYPE_NONE \<and> y \<noteq> TYPE_BROADCAST) \<and> mem k (t_bcbadr t) = TYPE_NONE
     \<and> (t_bcbadr t < t_bufadr t \<or> t_bufadr t + nat n \<le> t_bcbadr t) \<and> blocked_on k (rt_current k) = None)"

lemma tbx_idleD:
  assumes "tbx_idle b n s ms"
  shows "t_magic (tbxs s b) = RT_TBX_MAGIC" "t_size (tbxs s b) = n" "t_waiting_nr (tbxs s b) = 0"
    "t_waiting_task (tbxs s b) = None" "sem_idle (txker s) (t_sndsmx (tbxs s b))" "sem_idle (txker s) (t_rcvsmx (tbxs s b))"
    "tbx_ok (tbxs s b)" "held (tbxs s b) (mem (txker s)) = frames ms"
    "\<forall>(y, xs) \<in> set ms. y \<noteq> TYPE_NONE \<and> y \<noteq> TYPE_BROADCAST" "bcb_byte b s = TYPE_NONE"
    "t_bcbadr (tbxs s b) < t_bufadr (tbxs s b) \<or> t_bufadr (tbxs s b) + nat n \<le> t_bcbadr (tbxs s b)"
    "blocked_on (txker s) (rt_current (txker s)) = None"
    "t_avbs (tbxs s b) = int (length (frames ms))" "t_frbs (tbxs s b) = n - int (length (frames ms))"
proof -
  note i = assms [unfolded tbx_idle_def Let_def]
  show "t_magic (tbxs s b) = RT_TBX_MAGIC" and sz: "t_size (tbxs s b) = n" and "t_waiting_nr (tbxs s b) = 0"
    and "t_waiting_task (tbxs s b) = None" and "sem_idle (txker s) (t_sndsmx (tbxs s b))"
    and "sem_idle (txker s) (t_rcvsmx (tbxs s b))" and ok: "tbx_ok (tbxs s b)"
    and h: "held (tbxs s b) (mem (txker s)) = frames ms"
    and "\<forall>(y, xs) \<in> set ms. y \<noteq> TYPE_NONE \<and> y \<noteq> TYPE_BROADCAST" and "bcb_byte b s = TYPE_NONE"
    and "t_bcbadr (tbxs s b) < t_bufadr (tbxs s b) \<or> t_bufadr (tbxs s b) + nat n \<le> t_bcbadr (tbxs s b)"
    and "blocked_on (txker s) (rt_current (txker s)) = None"
    using i by blast+
  have "length (held (tbxs s b) (mem (txker s))) = nat (t_avbs (tbxs s b))" by (simp add: held_def)
  then show a: "t_avbs (tbxs s b) = int (length (frames ms))" using h ok by (simp add: tbx_ok_def)
  show "t_frbs (tbxs s b) = n - int (length (frames ms))" using a sz ok by (simp add: tbx_ok_def)
qed


definition same_tbx :: "tbx \<Rightarrow> tbx \<Rightarrow> bool" where
  "same_tbx t t' \<longleftrightarrow> t_magic t' = t_magic t \<and> t_size t' = t_size t \<and> t_waiting_nr t' = t_waiting_nr t
     \<and> t_waiting_task t' = t_waiting_task t \<and> t_sndsmx t' = t_sndsmx t \<and> t_rcvsmx t' = t_rcvsmx t
     \<and> t_bcbsmx t' = t_bcbsmx t \<and> t_bufadr t' = t_bufadr t \<and> t_bcbadr t' = t_bcbadr t"

lemma same_tbx_moves: "same_tbx t (fill_room n t)" "same_tbx t (leave_room n t)" "same_tbx t (step_back n t)"
  by (simp_all add: same_tbx_def fill_room_def leave_room_def step_back_def)

lemma tbx_idle_change:
  assumes i: "tbx_idle b n s ms" and f: "same_tbx (tbxs s b) (tbxs s' b)" and ok: "tbx_ok (tbxs s' b)"
    and h: "held (tbxs s' b) (mem (txker s')) = frames ms'"
    and y: "\<forall>(y, xs) \<in> set ms'. y \<noteq> TYPE_NONE \<and> y \<noteq> TYPE_BROADCAST"
    and c: "mem (txker s') (t_bcbadr (tbxs s b)) = mem (txker s) (t_bcbadr (tbxs s b))"
    and q: "sem_idle (txker s') (t_sndsmx (tbxs s b))" "sem_idle (txker s') (t_rcvsmx (tbxs s b))"
    "blocked_on (txker s') (rt_current (txker s')) = None"
  shows "tbx_idle b n s' ms'"
proof -
  note d = tbx_idleD [OF i]
  have e: "t_magic (tbxs s' b) = RT_TBX_MAGIC" "t_size (tbxs s' b) = n" "t_waiting_nr (tbxs s' b) = 0"
    "t_waiting_task (tbxs s' b) = None" "t_sndsmx (tbxs s' b) = t_sndsmx (tbxs s b)"
    "t_rcvsmx (tbxs s' b) = t_rcvsmx (tbxs s b)" "t_bufadr (tbxs s' b) = t_bufadr (tbxs s b)"
    "t_bcbadr (tbxs s' b) = t_bcbadr (tbxs s b)"
    using f d(1-4) by (simp_all add: same_tbx_def)
  show ?thesis unfolding tbx_idle_def Let_def e using d(10,11) ok h y c q by simp
qed

lemma sem_idle_count:
  "sem_idle k x \<Longrightarrow> sem_idle (upd_sem x (\<lambda>m. m\<lparr>sem_count := 1\<rparr>) (upd_sem x (\<lambda>m. m\<lparr>sem_count := 0\<rparr>) k)) x"
  "sem_idle k z \<Longrightarrow> sem_idle (upd_sem x (\<lambda>m. m\<lparr>sem_count := 1\<rparr>) (upd_sem x (\<lambda>m. m\<lparr>sem_count := 0\<rparr>) k)) z"
  by (simp_all add: sem_idle_def)

lemma upd_sem_mem [simp]: "mem (upd_sem x f k) = mem k" "upd_sem x f (k\<lparr>mem := m\<rparr>) = (upd_sem x f k)\<lparr>mem := m\<rparr>"
  by (simp_all add: upd_sem_def)

lemma sem_idle_mem [simp]: "sem_idle (k\<lparr>mem := m\<rparr>) x = sem_idle k x"
  by (simp add: sem_idle_def)

lemma tbx_smx_signal_idle:
  "qnext (txker s) (SemQ x) = SemQ x \<Longrightarrow> qtask (txker s) (SemQ x) = NULL \<Longrightarrow>
     tbx_smx_signal n b x s = Ret () (s\<lparr>txker := upd_sem x (\<lambda>m. m\<lparr>sem_count := 1\<rparr>) (txker s)\<rparr>)"
  by (simp add: tbx_smx_signal_def Let_def)

lemma tbx_signal_idle: "t_waiting_task (tbxs s b) = None \<Longrightarrow> tbx_signal n b s = Ret () s"
  by (simp add: tbx_signal_def)

section \<open>The conditional calls\<close>

text \<open>The mailbox has been entered through the senders' semaphore; \<open>put\<close> makes of the messages \<open>ms\<close> the messages \<open>ms'\<close>.\<close>

lemma tbx_deliver_idle:
  assumes i: "tbx_idle b n s ms"
    and p: "put (s\<lparr>txker := upd_sem (t_sndsmx (tbxs s b)) (\<lambda>m. m\<lparr>sem_count := 0\<rparr>) (txker s)\<rparr>)
      = Some (left, set_buffer b t m (s\<lparr>txker := upd_sem (t_sndsmx (tbxs s b)) (\<lambda>m. m\<lparr>sem_count := 0\<rparr>) (txker s)\<rparr>))"
    and f: "same_tbx (tbxs s b) t" and ok: "tbx_ok t" and h: "held t m = frames ms'"
    and y: "\<forall>(y, xs) \<in> set ms'. y \<noteq> TYPE_NONE \<and> y \<noteq> TYPE_BROADCAST"
    and c: "m (t_bcbadr (tbxs s b)) = mem (txker s) (t_bcbadr (tbxs s b))"
  shows "\<exists>s'. tbx_deliver k b put ret (s\<lparr>txker := upd_sem (t_sndsmx (tbxs s b)) (\<lambda>m. m\<lparr>sem_count := 0\<rparr>) (txker s)\<rparr>)
      = Ret (ret left) s' \<and> tbx_idle b n s' ms'"
proof -
  note d = tbx_idleD [OF i]
  let ?x = "t_sndsmx (tbxs s b)"
  let ?s1 = "s\<lparr>txker := upd_sem ?x (\<lambda>m. m\<lparr>sem_count := 0\<rparr>) (txker s)\<rparr>"
  let ?s2 = "set_buffer b t m ?s1"
  let ?s3 = "?s2\<lparr>txker := upd_sem ?x (\<lambda>m. m\<lparr>sem_count := 1\<rparr>) (txker ?s2)\<rparr>"
  have t: "tbxs ?s2 b = t" "t_sndsmx t = ?x" "t_waiting_task t = None"
    using f d(4) by (simp_all add: set_buffer_def upd_tbx_def same_tbx_def)
  have q: "qnext (txker ?s2) (SemQ ?x) = SemQ ?x" "qtask (txker ?s2) (SemQ ?x) = NULL"
    using d(5) by (simp_all add: set_buffer_def sem_idle_def)
  have 1: "tbx_deliver k b put ret ?s1 = Ret (ret left) ?s3"
    unfolding tbx_deliver_def p using t tbx_signal_idle [of ?s2 b k] tbx_smx_signal_idle [OF q] by simp
  have ker: "txker ?s3 = (upd_sem ?x (\<lambda>m. m\<lparr>sem_count := 1\<rparr>) (upd_sem ?x (\<lambda>m. m\<lparr>sem_count := 0\<rparr>) (txker s)))\<lparr>mem := m\<rparr>"
    by (simp add: set_buffer_def)
  have tb: "tbxs ?s3 b = t" using t by simp
  have 2: "tbx_idle b n ?s3 ms'"
    by (rule tbx_idle_change [OF i], unfold ker tb) (use f ok h y c sem_idle_count d(5,6,12) in simp_all)
  show ?thesis using 1 2 by blast
qed

lemma tbx_guard_idle:
  assumes "tbx_idle b n s ms"
  shows "tbx_guard b k err s r = (if int k + 1 > n then Ret (err (- EMSGSIZE)) s else r)"
  using tbx_idleD(1,2) [OF assms] by (simp add: tbx_guard_def)

lemma tbx_check_room_idle:
  assumes "tbx_idle b n s ms"
  shows "tbx_check_room b k s = (if n - int (length (frames ms)) < k then (False, s)
     else (True, s\<lparr>txker := upd_sem (t_sndsmx (tbxs s b)) (\<lambda>m. m\<lparr>sem_count := 0\<rparr>) (txker s)\<rparr>))"
  using tbx_idleD(5,14) [OF assms] by (simp add: tbx_check_room_def Let_def sem_idle_def)

text \<open>The new contents after a put behind and a put in front.\<close>

lemma put_tbx_idle:
  assumes i: "tbx_idle b n s ms" and r: "int (length (frames ms)) + int (length xs) + 1 \<le> n"
    and y: "y \<noteq> TYPE_NONE" "y \<noteq> TYPE_BROADCAST" and s1: "tbxs s1 b = tbxs s b" "mem (txker s1) = mem (txker s)"
  shows "\<exists>t m. put_tbx b y xs s1 = Some (0, set_buffer b t m s1) \<and> same_tbx (tbxs s b) t \<and> tbx_ok t
     \<and> held t m = frames (ms @ [(y, xs)]) \<and> m (t_bcbadr (tbxs s b)) = mem (txker s) (t_bcbadr (tbxs s b))"
    and "\<exists>t m. backput_tbx b y xs s1 = Some (0, set_buffer b t m s1) \<and> same_tbx (tbxs s b) t \<and> tbx_ok t
     \<and> held t m = frames ((y, xs) # ms) \<and> m (t_bcbadr (tbxs s b)) = mem (txker s) (t_bcbadr (tbxs s b))"
proof -
  note d = tbx_idleD [OF i]
  let ?t = "tbxs s b" and ?m = "mem (txker s)"
  have n: "0 < n" "int (length xs) + 1 \<le> t_frbs ?t" "int (length (y # xs)) \<le> t_frbs ?t" using d(7,14) r d(2) by (simp_all add: tbx_ok_def)
  have o: "ring_put (t_bufadr ?t) (t_size ?t) f (y # xs) ?m (t_bcbadr ?t) = ?m (t_bcbadr ?t)" for f
    by (rule ring_put_outside) (use n(1) d(2,11) in simp_all)
  have a: "put_tbx b y xs s1 = Some (0, set_buffer b (fill_room (int (length xs) + 1) ?t)
      (ring_put (t_bufadr ?t) (t_size ?t) (t_fbyte ?t + t_avbs ?t) (y # xs) ?m) s1)"
    using tbxput_eq [OF d(7) n(2) y(1)] by (simp add: put_tbx_def s1)
  have h: "held (fill_room (int (length xs) + 1) ?t) (ring_put (t_bufadr ?t) (t_size ?t) (t_fbyte ?t + t_avbs ?t) (y # xs) ?m)
      = frames (ms @ [(y, xs)])"
    using held_put [OF d(7) n(3), of ?m] d(8) by (simp add: add.commute)
  show "\<exists>t m. put_tbx b y xs s1 = Some (0, set_buffer b t m s1) \<and> same_tbx ?t t \<and> tbx_ok t
     \<and> held t m = frames (ms @ [(y, xs)]) \<and> m (t_bcbadr ?t) = ?m (t_bcbadr ?t)"
    by (intro exI conjI, rule a, rule same_tbx_moves, rule fill_room_ok [OF d(7)], simp, rule n(2), rule h, rule o)
  have a': "backput_tbx b y xs s1 = Some (0, set_buffer b (step_back (int (length xs) + 1) ?t)
      (ring_put (t_bufadr ?t) (t_size ?t) (t_fbyte ?t - (int (length xs) + 1)) (y # xs) ?m) s1)"
    using tbxbackput_eq [OF d(7) n(2) y(1)] by (simp add: backput_tbx_def s1)
  have h': "held (step_back (int (length xs) + 1) ?t)
      (ring_put (t_bufadr ?t) (t_size ?t) (t_fbyte ?t - (int (length xs) + 1)) (y # xs) ?m) = frames ((y, xs) # ms)"
    using held_back [OF d(7) n(3), of ?m] d(8) by (simp add: add.commute)
  show "\<exists>t m. backput_tbx b y xs s1 = Some (0, set_buffer b t m s1) \<and> same_tbx ?t t \<and> tbx_ok t
     \<and> held t m = frames ((y, xs) # ms) \<and> m (t_bcbadr ?t) = ?m (t_bcbadr ?t)"
    by (intro exI conjI, rule a', rule same_tbx_moves, rule step_back_ok [OF d(7)], simp, rule n(2), rule h', rule o)
qed


section \<open>Typed mailboxes as queues of messages\<close>

datatype tbx_call =
    Send "byte list" | SendIf "byte list" | SendUntil "byte list" rtime
  | Urgent "byte list" | UrgentIf "byte list" | UrgentUntil "byte list" rtime
  | Broadcast "byte list" | BroadcastIf "byte list" | BroadcastUntil "byte list" rtime
  | Receive "byte list" | ReceiveIf "byte list" | ReceiveUntil "byte list" rtime

definition only :: "int txres \<Rightarrow> (byte list \<times> int) txres" where
  "only r = res_bind r (\<lambda>i. Ret ([], i))"

primrec tbx_exec :: "nat \<Rightarrow> nat \<Rightarrow> tbx_call \<Rightarrow> txst \<Rightarrow> (byte list \<times> int) txres" where
  "tbx_exec k b (Send xs) s = only (rt_tbx_send k b xs s)"
| "tbx_exec k b (SendIf xs) s = only (rt_tbx_send_if k b xs s)"
| "tbx_exec k b (SendUntil xs time) s = only (rt_tbx_send_until k b xs time s)"
| "tbx_exec k b (Urgent xs) s = only (rt_tbx_urgent k b xs s)"
| "tbx_exec k b (UrgentIf xs) s = only (rt_tbx_urgent_if k b xs s)"
| "tbx_exec k b (UrgentUntil xs time) s = only (rt_tbx_urgent_until k b xs time s)"
| "tbx_exec k b (Broadcast xs) s = only (rt_tbx_broadcast k b xs s)"
| "tbx_exec k b (BroadcastIf xs) s = only (rt_tbx_broadcast_if k b xs s)"
| "tbx_exec k b (BroadcastUntil xs time) s = only (rt_tbx_broadcast_until k b xs time s)"
| "tbx_exec k b (Receive ys) s = rt_tbx_receive k b ys s"
| "tbx_exec k b (ReceiveIf ys) s = rt_tbx_receive_if k b ys s"
| "tbx_exec k b (ReceiveUntil ys time) s = rt_tbx_receive_until k b ys time s"

text \<open>The specification, for a mailbox of \<open>n\<close> bytes: \<open>None\<close> where a call has to wait, and where the next message does
  not have the size of the receiver's buffer.\<close>

definition spec_send :: "int \<Rightarrow> byte list \<Rightarrow> tbx_msg list \<Rightarrow> tbx_msg list \<Rightarrow> ((byte list \<times> int) \<times> tbx_msg list) option \<Rightarrow>
    ((byte list \<times> int) \<times> tbx_msg list) option" where
  "spec_send n xs ms ms' full =
     (if int (length xs) + 1 > n then Some (([], - EMSGSIZE), ms)
      else if int (length (frames ms)) + int (length xs) + 1 \<le> n then Some (([], 0), ms')
      else full)"

definition spec_receive :: "int \<Rightarrow> byte list \<Rightarrow> tbx_msg list \<Rightarrow> ((byte list \<times> int) \<times> tbx_msg list) option \<Rightarrow>
    ((byte list \<times> int) \<times> tbx_msg list) option" where
  "spec_receive n ys ms none =
     (if int (length ys) + 1 > n then Some ((ys, - EMSGSIZE), ms)
      else case ms of
        [] \<Rightarrow> none
      | m # ms' \<Rightarrow> if length (snd m) = length ys then Some ((snd m, 0), ms') else None)"

definition spec_broadcast :: "int \<Rightarrow> byte list \<Rightarrow> tbx_msg list \<Rightarrow> ((byte list \<times> int) \<times> tbx_msg list) option" where
  "spec_broadcast n xs ms = Some (([], if int (length xs) + 1 > n then - EMSGSIZE else 0), ms)"

primrec tbx_spec :: "int \<Rightarrow> tbx_call \<Rightarrow> tbx_msg list \<Rightarrow> ((byte list \<times> int) \<times> tbx_msg list) option" where
  "tbx_spec n (Send xs) ms = spec_send n xs ms (ms @ [(TYPE_NORMAL, xs)]) None"
| "tbx_spec n (SendIf xs) ms = spec_send n xs ms (ms @ [(TYPE_NORMAL, xs)]) (Some (([], int (length xs)), ms))"
| "tbx_spec n (SendUntil xs time) ms = spec_send n xs ms (ms @ [(TYPE_NORMAL, xs)]) None"
| "tbx_spec n (Urgent xs) ms = spec_send n xs ms ((TYPE_URGENT, xs) # ms) None"
| "tbx_spec n (UrgentIf xs) ms = spec_send n xs ms ((TYPE_URGENT, xs) # ms) (Some (([], int (length xs)), ms))"
| "tbx_spec n (UrgentUntil xs time) ms = spec_send n xs ms ((TYPE_URGENT, xs) # ms) None"
| "tbx_spec n (Broadcast xs) ms = spec_broadcast n xs ms"
| "tbx_spec n (BroadcastIf xs) ms = spec_broadcast n xs ms"
| "tbx_spec n (BroadcastUntil xs time) ms = spec_broadcast n xs ms"
| "tbx_spec n (Receive ys) ms = spec_receive n ys ms None"
| "tbx_spec n (ReceiveIf ys) ms = spec_receive n ys ms (Some ((ys, int (length ys)), []))"
| "tbx_spec n (ReceiveUntil ys time) ms = spec_receive n ys ms None"


abbreviation entered :: "semid \<Rightarrow> txst \<Rightarrow> txst" where
  "entered x s \<equiv> s\<lparr>txker := upd_sem x (\<lambda>m. m\<lparr>sem_count := 0\<rparr>) (txker s)\<rparr>"

lemma tbx_smx_wait_idle:
  assumes "sem_idle (txker s) x" and "blocked_on (txker s) (rt_current (txker s)) = None"
  shows "tbx_smx_wait k b x (rt_current (txker s)) s = Ret False (entered x s)"
    and "tbx_smx_wait_until time k b x (rt_current (txker s)) s = Ret False (entered x s)"
  using assms by (simp_all add: tbx_smx_wait_def tbx_smx_wait_until_def Let_def sem_idle_def)

text \<open>A call that waits for the semaphore and for room waits for neither.\<close>

lemma tbx_send_with_idle:
  assumes i: "tbx_idle b n s ms" and r: "int (length (frames ms)) + sz \<le> n"
  shows "tbx_send_with tbx_smx_wait tbx_wait_room k b put sz fail ret s
      = tbx_deliver k b put ret (entered (t_sndsmx (tbxs s b)) s)"
    and "tbx_send_with (tbx_smx_wait_until time) (tbx_wait_room_until time) k b put sz fail ret s
      = tbx_deliver k b put ret (entered (t_sndsmx (tbxs s b)) s)"
proof -
  note d = tbx_idleD [OF i]
  have "\<not> t_frbs (tbxs s b) < sz" using d(14) r by simp
  then show "tbx_send_with tbx_smx_wait tbx_wait_room k b put sz fail ret s
      = tbx_deliver k b put ret (entered (t_sndsmx (tbxs s b)) s)"
    and "tbx_send_with (tbx_smx_wait_until time) (tbx_wait_room_until time) k b put sz fail ret s
      = tbx_deliver k b put ret (entered (t_sndsmx (tbxs s b)) s)"
    using tbx_smx_wait_idle [OF d(5,12)] d(12)
    by (simp_all add: tbx_send_with_def Let_def tbx_wait_room_def tbx_wait_room_until_def)
qed

lemma put_idle:
  assumes i: "tbx_idle b n s ms" and r: "int (length (frames ms)) + int (length xs) + 1 \<le> n"
    and y: "y \<noteq> TYPE_NONE" "y \<noteq> TYPE_BROADCAST"
  shows "\<exists>s'. tbx_deliver k b (put_tbx b y xs) ret (entered (t_sndsmx (tbxs s b)) s) = Ret (ret 0) s'
      \<and> tbx_idle b n s' (ms @ [(y, xs)])"
    and "\<exists>s'. tbx_deliver k b (backput_tbx b y xs) ret (entered (t_sndsmx (tbxs s b)) s) = Ret (ret 0) s'
      \<and> tbx_idle b n s' ((y, xs) # ms)"
proof -
  let ?s = "entered (t_sndsmx (tbxs s b)) s"
  have s: "tbxs ?s b = tbxs s b" "mem (txker ?s) = mem (txker s)" by simp_all
  have t: "\<forall>(y, xs) \<in> set ms. y \<noteq> TYPE_NONE \<and> y \<noteq> TYPE_BROADCAST" by (rule tbx_idleD(9) [OF i])
  have 1: "\<forall>(y, xs) \<in> set (ms @ [(y, xs)]). y \<noteq> TYPE_NONE \<and> y \<noteq> TYPE_BROADCAST"
    and 2: "\<forall>(y, xs) \<in> set ((y, xs) # ms). y \<noteq> TYPE_NONE \<and> y \<noteq> TYPE_BROADCAST" using t y by auto
  obtain t m where a: "put_tbx b y xs ?s = Some (0, set_buffer b t m ?s)" "same_tbx (tbxs s b) t" "tbx_ok t"
    "held t m = frames (ms @ [(y, xs)])" "m (t_bcbadr (tbxs s b)) = mem (txker s) (t_bcbadr (tbxs s b))"
    using put_tbx_idle(1) [OF i r y s] by (elim exE conjE)
  show "\<exists>s'. tbx_deliver k b (put_tbx b y xs) ret ?s = Ret (ret 0) s' \<and> tbx_idle b n s' (ms @ [(y, xs)])"
    by (rule tbx_deliver_idle [where put = "put_tbx b y xs" and t = t and m = m, OF i a(1-4) 1 a(5)])
  obtain t m where c: "backput_tbx b y xs ?s = Some (0, set_buffer b t m ?s)" "same_tbx (tbxs s b) t" "tbx_ok t"
    "held t m = frames ((y, xs) # ms)" "m (t_bcbadr (tbxs s b)) = mem (txker s) (t_bcbadr (tbxs s b))"
    using put_tbx_idle(2) [OF i r y s] by (elim exE conjE)
  show "\<exists>s'. tbx_deliver k b (backput_tbx b y xs) ret ?s = Ret (ret 0) s' \<and> tbx_idle b n s' ((y, xs) # ms)"
    by (rule tbx_deliver_idle [where put = "backput_tbx b y xs" and t = t and m = m, OF i c(1-4) 2 c(5)])
qed

text \<open>The end of a receiving call, once the type has been taken out.\<close>

lemma tbx_collect_idle:
  assumes i: "tbx_idle b n s ((y, xs) # ms)" and l: "length xs = length ys"
  shows "\<exists>s'. tbx_collect k b ys y (take_type b (entered (t_rcvsmx (tbxs s b)) s)) = Ret (xs, 0) s' \<and> tbx_idle b n s' ms"
proof -
  note d = tbx_idleD [OF i]
  let ?t = "tbxs s b" and ?m = "mem (txker s)" and ?x = "t_rcvsmx (tbxs s b)"
  let ?t1 = "leave_room 1 ?t"
  let ?t2 = "leave_room (int (length ys)) ?t1"
  let ?s1 = "take_type b (entered ?x s)"
  have av: "1 \<le> t_avbs ?t" "int (length ys) \<le> t_avbs ?t1" using d(13) l by simp_all
  have ok1: "tbx_ok ?t1" by (rule leave_room_ok(1) [OF d(7) _ av(1)]) simp
  have h1: "held ?t1 ?m = xs @ frames ms" using held_leave(1) [OF d(7), of 1 ?m] av(1) d(8) by simp
  have ok2: "tbx_ok ?t2" by (rule leave_room_ok(1) [OF ok1 _ av(2)]) simp
  have h2: "held ?t2 ?m = frames ms" using held_leave(1) [OF ok1 av(2), of ?m] h1 l by simp
  have s1: "tbxs ?s1 b = ?t1" "mem (txker ?s1) = ?m" by (simp_all add: take_type_def upd_tbx_def)
  let ?s2 = "upd_tbx b (\<lambda>_. ?t2) ?s1"
  have g: "get_tbx b ys ?s1 = Some (xs, 0, ?s2)"
    using tbxget_eq [OF ok1 av(2), of ?m] l unfolding get_tbx_def s1 h1 by simp
  have y: "y \<noteq> TYPE_BROADCAST" using d(9) by simp
  have s2: "tbxs ?s2 b = ?t2" "t_waiting_task ?t2 = None" "t_rcvsmx ?t2 = ?x"
    using d(4) by (simp_all add: upd_tbx_def leave_room_def)
  have q: "qnext (txker ?s2) (SemQ ?x) = SemQ ?x" "qtask (txker ?s2) (SemQ ?x) = NULL"
    using d(6) by (simp_all add: upd_tbx_def take_type_def sem_idle_def)
  let ?s3 = "?s2\<lparr>txker := upd_sem ?x (\<lambda>m. m\<lparr>sem_count := 1\<rparr>) (txker ?s2)\<rparr>"
  have 1: "tbx_collect k b ys y ?s1 = Ret (xs, 0) ?s3"
    using y s2 tbx_signal_idle [of ?s2 b k] tbx_smx_signal_idle [OF q]
    by (simp add: tbx_collect_def tbx_receive_core_def Let_def g)
  have ker: "txker ?s3 = upd_sem ?x (\<lambda>m. m\<lparr>sem_count := 1\<rparr>) (upd_sem ?x (\<lambda>m. m\<lparr>sem_count := 0\<rparr>) (txker s))"
    by (simp add: upd_tbx_def take_type_def)
  have tb: "tbxs ?s3 b = ?t2" using s2 by simp
  have f: "same_tbx ?t ?t2" by (simp add: same_tbx_def leave_room_def)
  have 2: "tbx_idle b n ?s3 ms"
    by (rule tbx_idle_change [OF i], unfold ker tb)
      (use f ok2 h2 d(9) sem_idle_count d(5,6,12) in simp_all)
  show ?thesis using 1 2 by blast
qed


lemma only_ret: "\<exists>s'. r = Ret i s' \<and> P s' \<Longrightarrow> \<exists>s'. only r = Ret ([], i) s' \<and> P s'"
  by (auto simp: only_def)

text \<open>A sending call: too long, delivered, or no room.\<close>

lemma send_step:
  assumes i: "tbx_idle b n s ms" and sp: "spec_send n xs ms ms' full = Some (r, a)"
    and put: "int (length (frames ms)) + int (length xs) + 1 \<le> n \<Longrightarrow> \<exists>s'. body = Ret 0 s' \<and> tbx_idle b n s' ms'"
    and full: "\<not> int (length (frames ms)) + int (length xs) + 1 \<le> n \<Longrightarrow> full = Some (r, a) \<Longrightarrow>
      \<exists>s'. body = Ret (snd r) s' \<and> fst r = [] \<and> tbx_idle b n s' a"
  shows "\<exists>s'. only (tbx_guard b (length xs) id s body) = Ret r s' \<and> tbx_idle b n s' a"
proof -
  consider "int (length xs) + 1 > n" | "\<not> int (length xs) + 1 > n" "int (length (frames ms)) + int (length xs) + 1 \<le> n"
    | "\<not> int (length xs) + 1 > n" "\<not> int (length (frames ms)) + int (length xs) + 1 \<le> n" by blast
  then show ?thesis
  proof cases
    case 1
    then show ?thesis using i sp by (auto simp: tbx_guard_idle [OF i] only_def spec_send_def)
  next
    case 2
    then show ?thesis using put sp by (auto simp: tbx_guard_idle [OF i] only_def spec_send_def)
  next
    case 3
    then have "full = Some (r, a)" using sp by (simp add: spec_send_def)
    then show ?thesis using full 3 by (cases r) (auto simp: tbx_guard_idle [OF i] only_def)
  qed
qed

lemma type_bytes: "TYPE_NORMAL \<noteq> TYPE_NONE" "TYPE_NORMAL \<noteq> TYPE_BROADCAST" "TYPE_URGENT \<noteq> TYPE_NONE" "TYPE_URGENT \<noteq> TYPE_BROADCAST"
  by simp_all

text \<open>The three forms of sending.\<close>

lemma waits_step:
  assumes i: "tbx_idle b n s ms" and sp: "spec_send n xs ms ms' None = Some (r, a)"
    and put: "int (length (frames ms)) + int (length xs) + 1 \<le> n \<Longrightarrow>
      \<exists>s'. tbx_deliver k b put id (entered (t_sndsmx (tbxs s b)) s) = Ret (id 0) s' \<and> tbx_idle b n s' ms'"
  shows "\<exists>s'. only (tbx_guard b (length xs) id s
      (tbx_send_with tbx_smx_wait tbx_wait_room k b put (int (length xs) + 1) (int (length xs)) id s)) = Ret r s' \<and> tbx_idle b n s' a"
    and "\<exists>s'. only (tbx_guard b (length xs) id s
      (tbx_send_with (tbx_smx_wait_until time) (tbx_wait_room_until time) k b put (int (length xs) + 1) (int (length xs)) id s))
      = Ret r s' \<and> tbx_idle b n s' a"
  using put tbx_send_with_idle [OF i, of "int (length xs) + 1"]
  by (intro send_step [OF i sp]; simp add: add.assoc)+

lemma if_step:
  assumes i: "tbx_idle b n s ms" and sp: "spec_send n xs ms ms' (Some (([], int (length xs)), ms)) = Some (r, a)"
    and put: "int (length (frames ms)) + int (length xs) + 1 \<le> n \<Longrightarrow>
      \<exists>s'. tbx_deliver k b put ret (entered (t_sndsmx (tbxs s b)) s) = Ret (ret 0) s' \<and> tbx_idle b n s' ms'"
    and ret: "ret 0 = 0"
  shows "\<exists>s'. only (tbx_guard b (length xs) id s (case tbx_check_room b (int (length xs) + 1) s of
        (True, s1) \<Rightarrow> tbx_deliver k b put ret s1 | (False, s1) \<Rightarrow> Ret (int (length xs)) s1)) = Ret r s' \<and> tbx_idle b n s' a"
proof (rule send_step [OF i sp])
  assume r: "int (length (frames ms)) + int (length xs) + 1 \<le> n"
  then show "\<exists>s'. (case tbx_check_room b (int (length xs) + 1) s of
        (True, s1) \<Rightarrow> tbx_deliver k b put ret s1 | (False, s1) \<Rightarrow> Ret (int (length xs)) s1) = Ret 0 s' \<and> tbx_idle b n s' ms'"
    using put ret by (simp add: tbx_check_room_idle [OF i])
next
  assume r: "\<not> int (length (frames ms)) + int (length xs) + 1 \<le> n" and "Some (([], int (length xs)), ms) = Some (r, a)"
  then show "\<exists>s'. (case tbx_check_room b (int (length xs) + 1) s of
        (True, s1) \<Rightarrow> tbx_deliver k b put ret s1 | (False, s1) \<Rightarrow> Ret (int (length xs)) s1) = Ret (snd r) s'
      \<and> fst r = [] \<and> tbx_idle b n s' a"
    using i by (auto simp: tbx_check_room_idle [OF i])
qed

lemma broadcast_step:
  assumes i: "tbx_idle b n s ms" and sp: "spec_broadcast n xs ms = Some (r, a)"
  shows "\<exists>s'. only (tbx_guard b (length xs) id s (let w = t_waiting_nr (tbxs s b) in if w = 0 then Ret w s else f w)) = Ret r s'
    \<and> tbx_idle b n s' a"
  using i sp by (auto simp: tbx_guard_idle [OF i] only_def spec_broadcast_def tbx_idleD(3) [OF i])

lemma receive_step:
  assumes i: "tbx_idle b n s ms" and sp: "spec_receive n ys ms none = Some (r, a)"
    and got: "\<And>y xs ms'. ms = (y, xs) # ms' \<Longrightarrow> length xs = length ys \<Longrightarrow>
      body = tbx_collect k b ys y (take_type b (entered (t_rcvsmx (tbxs s b)) s))"
    and empty: "ms = [] \<Longrightarrow> none = Some (r, a) \<Longrightarrow> \<exists>s'. body = Ret r s' \<and> tbx_idle b n s' a"
  shows "\<exists>s'. tbx_guard b (length ys) (\<lambda>e. (ys, e)) s body = Ret r s' \<and> tbx_idle b n s' a"
proof (cases "int (length ys) + 1 > n")
  case True
  then show ?thesis using i sp by (auto simp: tbx_guard_idle [OF i] spec_receive_def)
next
  case big: False
  show ?thesis
  proof (cases ms)
    case Nil
    then show ?thesis using big sp empty by (simp add: tbx_guard_idle [OF i] spec_receive_def)
  next
    case (Cons m ms')
    obtain y xs where m: "m = (y, xs)" by (cases m)
    have l: "length xs = length ys" "r = (xs, 0)" "a = ms'"
      using big sp Cons m by (auto simp: spec_receive_def split: if_splits)
    have i': "tbx_idle b n s ((y, xs) # ms')" using i Cons m by simp
    show ?thesis using big tbx_collect_idle [OF i' l(1), of k] got Cons m l by (simp add: tbx_guard_idle [OF i])
  qed
qed


lemma receive_forms:
  assumes i: "tbx_idle b n s ms" and m: "ms = (y, xs) # ms'" and l: "length xs = length ys"
  shows "tbx_receive_with tbx_smx_wait tbx_wait_msg k b ys s
      = tbx_collect k b ys y (take_type b (entered (t_rcvsmx (tbxs s b)) s))" (is ?wait)
    and "tbx_receive_with (tbx_smx_wait_until time) (tbx_wait_msg_until time) k b ys s
      = tbx_collect k b ys y (take_type b (entered (t_rcvsmx (tbxs s b)) s))" (is ?until)
    and "(case tbx_check_msg b (int (length ys) + 1) s of
        (type, s1) \<Rightarrow> if type \<noteq> 0 then tbx_collect k b ys type s1 else Ret (ys, int (length ys)) s1)
      = tbx_collect k b ys y (take_type b (entered (t_rcvsmx (tbxs s b)) s))" (is ?if)
proof -
  note d = tbx_idleD [OF i]
  have h: "held (tbxs s b) (mem (txker s)) = y # xs @ frames ms'" using d(8) m by simp
  have tb: "type_byte b s = y" by (rule next_byte(1) [OF d(7) h])
  have av: "\<not> t_avbs (tbxs s b) < int (length ys) + 1" using d(13) m l by simp
  have y: "y \<noteq> 0" using d(9) m by simp
  have bc: "bcb_byte b s \<noteq> TYPE_BROADCAST" using d(10) by simp
  show ?wait ?until
    using tbx_smx_wait_idle [OF d(6,12)] av bc tb d(12)
    by (simp_all add: tbx_receive_with_def Let_def tbx_wait_msg_def tbx_wait_msg_until_def)
  show ?if
    using d(6) av bc tb y by (simp add: tbx_check_msg_def Let_def sem_idle_def)
qed

lemma tbx_step:
  assumes i: "tbx_idle b n s ms" and sp: "tbx_spec n p ms = Some (r, ms')"
  shows "\<exists>s'. tbx_exec k b p s = Ret r s' \<and> tbx_idle b n s' ms'"
proof -
  have put: "\<exists>s'. tbx_deliver k b (put_tbx b TYPE_NORMAL xs) ret (entered (t_sndsmx (tbxs s b)) s) = Ret (ret 0) s'
      \<and> tbx_idle b n s' (ms @ [(TYPE_NORMAL, xs)])"
    and front: "\<exists>s'. tbx_deliver k b (backput_tbx b TYPE_URGENT xs) ret (entered (t_sndsmx (tbxs s b)) s) = Ret (ret 0) s'
      \<and> tbx_idle b n s' ((TYPE_URGENT, xs) # ms)"
    if "int (length (frames ms)) + int (length xs) + 1 \<le> n" for xs ret
    using put_idle [OF i that] by simp_all
  show ?thesis
  proof (cases p)
    case (Send xs)
    show ?thesis using sp unfolding Send tbx_exec.simps tbx_spec.simps rt_tbx_send_def
      by (rule waits_step(1) [OF i]) (rule put)
  next
    case (SendIf xs)
    show ?thesis using sp unfolding SendIf tbx_exec.simps tbx_spec.simps rt_tbx_send_if_def
      by (rule if_step [OF i]) (rule put, simp_all)
  next
    case (SendUntil xs time)
    show ?thesis using sp unfolding SendUntil tbx_exec.simps tbx_spec.simps rt_tbx_send_until_def
      by (rule waits_step(2) [OF i]) (rule put)
  next
    case (Urgent xs)
    show ?thesis using sp unfolding Urgent tbx_exec.simps tbx_spec.simps rt_tbx_urgent_def
      by (rule waits_step(1) [OF i]) (rule front)
  next
    case (UrgentIf xs)
    show ?thesis using sp unfolding UrgentIf tbx_exec.simps tbx_spec.simps rt_tbx_urgent_if_def
      by (rule if_step [OF i]) (rule front, simp_all)
  next
    case (UrgentUntil xs time)
    show ?thesis using sp unfolding UrgentUntil tbx_exec.simps tbx_spec.simps rt_tbx_urgent_until_def
      by (rule waits_step(2) [OF i]) (rule front)
  next
    case (Broadcast xs)
    show ?thesis using sp unfolding Broadcast tbx_exec.simps tbx_spec.simps rt_tbx_broadcast_def
      by (rule broadcast_step [OF i])
  next
    case (BroadcastIf xs)
    show ?thesis using sp unfolding BroadcastIf tbx_exec.simps tbx_spec.simps rt_tbx_broadcast_if_def
      by (rule broadcast_step [OF i])
  next
    case (BroadcastUntil xs time)
    show ?thesis using sp unfolding BroadcastUntil tbx_exec.simps tbx_spec.simps rt_tbx_broadcast_until_def
      by (rule broadcast_step [OF i])
  next
    case (Receive ys)
    show ?thesis using sp unfolding Receive tbx_exec.simps tbx_spec.simps rt_tbx_receive_def
      by (rule receive_step [OF i]) (simp_all add: receive_forms(1) [OF i])
  next
    case (ReceiveIf ys)
    show ?thesis using sp unfolding ReceiveIf tbx_exec.simps tbx_spec.simps rt_tbx_receive_if_def
    proof (rule receive_step [OF i])
      assume "ms = []" and "Some ((ys, int (length ys)), []) = Some (r, ms')"
      then show "\<exists>s'. (case tbx_check_msg b (int (length ys) + 1) s of
          (type, s1) \<Rightarrow> if type \<noteq> 0 then tbx_collect k b ys type s1 else Ret (ys, int (length ys)) s1) = Ret r s'
        \<and> tbx_idle b n s' ms'"
        using i tbx_idleD(13) [OF i] by (auto simp: tbx_check_msg_def Let_def)
    qed (rule receive_forms(3) [OF i])
  next
    case (ReceiveUntil ys time)
    show ?thesis using sp unfolding ReceiveUntil tbx_exec.simps tbx_spec.simps rt_tbx_receive_until_def
      by (rule receive_step [OF i]) (simp_all add: receive_forms(2) [OF i])
  qed
qed

interpretation tbx_service: immediate_service "tbx_exec k b" "tbx_spec n" "tbx_idle b n" for k b n
  by unfold_locales (rule tbx_step)


section \<open>A new mailbox\<close>

lemma rt_tbx_init_no_memory:
  "rt_tbx_init 0 q b nbytes flags s = (- ENOMEM, upd_tbx b (\<lambda>t. t\<lparr>t_bufadr := 0\<rparr>) s)"
  "p \<noteq> 0 \<Longrightarrow> \<exists>s'. rt_tbx_init p 0 b nbytes flags s = (- ENOMEM, s') \<and> tfree s' = tfree s @ [p]"
  by (simp_all add: rt_tbx_init_def Let_def free_block_def upd_tbx_def)


lemma rt_tbx_init_idle:
  assumes p: "p \<noteq> 0" "q \<noteq> 0" and n: "0 < n" and dj: "q < p \<or> p + nat n \<le> q" and f: "flags = 0 \<or> flags = FIFO_Q"
    and c: "blocked_on (txker s) (rt_current (txker s)) = None"
  shows "\<exists>s'. rt_tbx_init p q b n flags s = (0, s') \<and> tbx_idle b n s' []"
proof -
  have m: "(BIN_SEM OR flags) mod 4 = 1" "(CNT_SEM OR flags) mod 4 = 2" using f by auto
  let ?s' = "snd (rt_tbx_init p q b n flags s)"
  have 1: "rt_tbx_init p q b n flags s = (0, ?s')" using p by (simp add: rt_tbx_init_def Let_def)
  have t: "t_magic (tbxs ?s' b) = RT_TBX_MAGIC" "t_size (tbxs ?s' b) = n" "t_waiting_nr (tbxs ?s' b) = 0"
    "t_waiting_task (tbxs ?s' b) = None" "t_fbyte (tbxs ?s' b) = 0" "t_avbs (tbxs ?s' b) = 0" "t_frbs (tbxs ?s' b) = n"
    "t_bufadr (tbxs ?s' b) = p" "t_bcbadr (tbxs ?s' b) = q" "t_sndsmx (tbxs ?s' b) = t_sndsmx (tbxs s b)"
    "t_rcvsmx (tbxs ?s' b) = t_rcvsmx (tbxs s b)"
    using p by (simp_all add: rt_tbx_init_def Let_def upd_tbx_def)
  have q: "sem_idle (txker ?s') (t_sndsmx (tbxs s b))" "sem_idle (txker ?s') (t_rcvsmx (tbxs s b))"
    using p m by (simp_all add: rt_tbx_init_def Let_def upd_tbx_def sem_idle_def rt_typed_sem_init_def)
  have z: "mem (txker ?s') q = 0" "blocked_on (txker ?s') (rt_current (txker ?s')) = None"
    using p n c by (simp_all add: rt_tbx_init_def Let_def upd_tbx_def rt_typed_sem_init_def put_bytes_def)
  have "tbx_idle b n ?s' []"
    unfolding tbx_idle_def Let_def t using q z n dj by (simp add: tbx_ok_def held_def ring_get_def t)
  then show ?thesis using 1 by blast
qed

section \<open>After a wait\<close>

text \<open>The task that has waited for room is woken by whatever has been taken out and does not look again.  A copy
  with less room than it needs that reaches the end of the buffer goes round for ever, with interrupts disabled.\<close>

lemma tbxput_endless:
  assumes "tbxput y xs t m = Some r"
  shows "y = TYPE_NONE \<and> t_frbs t \<noteq> 0 \<and> xs \<noteq> [] \<longrightarrow> TBX_MOD_SIZE t (t_fbyte t + t_avbs t) \<noteq> t_size t"
proof (rule tbxput.raw_induct [where P = "\<lambda>y xs t m r. y = TYPE_NONE \<and> t_frbs t \<noteq> 0 \<and> xs \<noteq> [] \<longrightarrow>
    TBX_MOD_SIZE t (t_fbyte t + t_avbs t) \<noteq> t_size t", OF _ assms], intro impI notI)
  fix rec y xs t m r
  assume ih: "\<And>y xs t m r. rec y xs t m = Some r \<Longrightarrow> y = TYPE_NONE \<and> t_frbs t \<noteq> 0 \<and> xs \<noteq> [] \<longrightarrow>
      TBX_MOD_SIZE t (t_fbyte t + t_avbs t) \<noteq> t_size t"
    and c: "y = TYPE_NONE \<and> t_frbs t \<noteq> 0 \<and> xs \<noteq> []" "TBX_MOD_SIZE t (t_fbyte t + t_avbs t) = t_size t"
    and eq: "(if t_frbs t \<noteq> 0 \<and> packed y xs > 0 then
        let last_byte = TBX_MOD_SIZE t (t_fbyte t + t_avbs t);
            room = t_size t - last_byte;
            tocpy = (if room > packed y xs then packed y xs else room) in
        if y \<noteq> TYPE_NONE then rec TYPE_NONE xs (fill_room 1 t) (put_bytes (buf_at t last_byte) [y] m)
        else if tocpy < 0 then None
        else rec TYPE_NONE (drop (nat tocpy) xs) (fill_room tocpy t)
               (put_bytes (buf_at t last_byte) (take (nat tocpy) xs) m)
      else Some (packed y xs, t, m)) = Some r"
  have "rec TYPE_NONE xs t (put_bytes (buf_at t (t_size t)) [] m) = Some r" using eq c by (simp add: Let_def)
  from ih [OF this] show False using c by simp
qed

text \<open>Four bytes, of which the last and the first are filled, and a message of three: one unread byte is overwritten,
  then the loop does not end.\<close>

lemma tbxput_without_room:
  assumes "t_size t = 4" and "t_fbyte t = 3" and "t_avbs t = 2" and "t_frbs t = 2"
  shows "tbxput TYPE_NORMAL [x, y, z] t m = None"
proof (rule ccontr)
  let ?t = "fill_room 3 t"
  let ?m = "put_bytes (buf_at t 2) [x, y] (put_bytes (buf_at t 1) [TYPE_NORMAL] m)"
  assume "tbxput TYPE_NORMAL [x, y, z] t m \<noteq> None"
  moreover have "tbxput TYPE_NORMAL [x, y, z] t m = tbxput TYPE_NONE [x, y, z] (fill_room 1 t) (put_bytes (buf_at t 1) [TYPE_NORMAL] m)"
    using assms by (subst tbxput.simps) (simp add: Let_def TBX_MOD_SIZE_def)
  moreover have "\<dots> = tbxput TYPE_NONE [z] ?t ?m"
    using assms by (subst tbxput.simps) (simp add: Let_def TBX_MOD_SIZE_def numeral_2_eq_2)
  ultimately obtain r where "tbxput TYPE_NONE [z] ?t ?m = Some r" by auto
  from tbxput_endless [OF this] show False using assms by (simp add: TBX_MOD_SIZE_def)
qed

text \<open>The receive with a limit of time goes by the byte that was at the front before it waited, whatever arrives.\<close>

lemma wait_msg_until_type:
  assumes "may_return (tbx_wait_msg_until time k b n cur s) (False, y) s'"
  shows "y = (if bcb_byte b s = TYPE_BROADCAST then TYPE_BROADCAST else type_byte b s)"
  using assms
  by (auto simp: tbx_wait_msg_until_def Let_def may_return_bind split: if_splits)

text \<open>There is one place for a waiting task: a receiver takes it from a sender that waits for room.\<close>

lemma left_in_txker: "left_in (in_txker r s) = Some s' \<Longrightarrow> tbxs s' = tbxs s"
  by (cases r) auto

lemma waiting_task_replaced:
  assumes "t_avbs (tbxs s b) < n" and "bcb_byte b s \<noteq> TYPE_BROADCAST" and "left_in (tbx_wait_msg k b n cur s) = Some s'"
  shows "t_waiting_task (tbxs s' b) = Some cur"
proof -
  have w: "t_waiting_task (tbxs s1 b) = Some cur" if "left_in (wait_something k b cur r s) = Some s1" for r s1
    using that left_in_txker by (cases r) (fastforce simp: wait_something_def set_waiting_def upd_tbx_def)+
  obtain r f where e: "tbx_wait_msg k b n cur s = res_bind (wait_something k b cur r s)
      (\<lambda>_ s1. Ret (f s1) (take_type b s1))"
    using assms(1,2) by (force simp: tbx_wait_msg_def Let_def)
  have "t_waiting_task (tbxs (take_type b s1) b) = t_waiting_task (tbxs s1 b)" for s1
    by (simp add: take_type_def upd_tbx_def leave_room_def)
  then show ?thesis
    using assms(3) w [of r] unfolding e by (cases "wait_something k b cur r s") auto
qed

end
