(* ===== verification/Example_Tbx.thy ===== *)
theory Example_Tbx
  imports Example_State Tbx_Props
begin

text \<open>
  A typed mailbox of 8 bytes, freshly initialised with its buffers at the addresses 100 and 200, and a sequence of calls on it.
\<close>

definition tbx_state :: txst where
  "tbx_state = \<lparr>tbxs = (\<lambda>_. \<lparr>t_magic = 0, t_waiting_nr = 0, t_sndsmx = 10, t_rcvsmx = 11, t_bcbsmx = 12,
     t_waiting_task = None, t_bufadr = 0, t_bcbadr = 0, t_size = 0, t_fbyte = 0, t_avbs = 0, t_frbs = 0\<rparr>),
     txker = kern, tfree = []\<rparr>"

definition tbx_start :: txst where "tbx_start = snd (rt_tbx_init 100 200 0 8 FIFO_Q tbx_state)"

lemma tbx_start_idle: "tbx_idle 0 8 tbx_start []"
proof -
  have "blocked_on (txker tbx_state) (rt_current (txker tbx_state)) = None" by (simp add: tbx_state_def)
  from rt_tbx_init_idle [OF _ _ _ _ _ this, of 100 200 8 FIFO_Q 0] show ?thesis by (auto simp: tbx_start_def)
qed


end
