(* ===== verification/Watchdog.thy ===== *)
theory Watchdog
  imports Semaphores
begin

text \<open>
  The watchdog of \<^verbatim>\<open>watchdog/rtai_watchdog.c\<close>: a periodic task of the highest priority that looks through the list of
  all tasks for those that have overrun their period and treats them according to its policy, with a record for each
  offender from a pool of its own (\<^verbatim>\<open>MY_ALLOC\<close>).  There is one processor, so one watchdog, \<open>wdog\<close>; the scheduler's
  type is \<^verbatim>\<open>MUP_SCHED\<close>, so \<^verbatim>\<open>which_cpu\<close> is the processor of the watchdog and a suspended task needs no help to stop.
  The policies are the integers of the enumeration; the code accepts others as module parameters.  The counts of
  offences and of ticks, 32-bit integers of the code, are \<open>int\<close>: they do not come near their bounds.
\<close>

section \<open>Data and parameters\<close>

abbreviation RESYNC :: int where "RESYNC \<equiv> 1"
abbreviation DEBUG :: int where "DEBUG \<equiv> 2"
abbreviation STRETCH :: int where "STRETCH \<equiv> 3"
abbreviation SLIP :: int where "SLIP \<equiv> 4"
abbreviation SUSPEND :: int where "SUSPEND \<equiv> 5"
abbreviation KILL :: int where "KILL \<equiv> 6"

abbreviation BAD_TASK_MAX :: nat where "BAD_TASK_MAX \<equiv> 100"

record bad_rt_task =
  bt_task :: tid
  bt_in_use :: bool
  bt_slipping :: bool
  bt_countdown :: int
  bt_count :: int
  bt_valid :: bool
  bt_forced :: bool
  bt_orig_period :: rtime
  bt_policy :: int
  bt_next :: "nat option"

record wdst =
  Grace :: int
  GraceDiv :: int
  Safety :: int
  Policy :: int
  Stretch :: int
  Slip :: int
  Limit :: int
  TickPeriod :: int
  bad_task_pool :: "nat \<Rightarrow> bad_rt_task"
  bad_tl :: "nat option"
  wdog :: tid
  wker :: kst

type_synonym 'a wres = "(wdst, 'a) sres"

abbreviation in_wker :: "(kst, 'a) sres \<Rightarrow> wdst \<Rightarrow> 'a wres" where
  "in_wker \<equiv> lift_res wker (\<lambda>k s. s\<lparr>wker := k\<rparr>)"

abbreviation bt :: "wdst \<Rightarrow> nat \<Rightarrow> bad_rt_task" where "bt \<equiv> bad_task_pool"

definition upd_bt :: "nat \<Rightarrow> (bad_rt_task \<Rightarrow> bad_rt_task) \<Rightarrow> wdst \<Rightarrow> wdst" where
  "upd_bt i f s = s\<lparr>bad_task_pool := (bad_task_pool s)(i := f (bad_task_pool s i))\<rparr>"

text \<open>The results are the old value or the error.\<close>

definition rt_wdset_grace :: "int \<Rightarrow> wdst \<Rightarrow> int \<times> wdst" where
  "rt_wdset_grace v s =
     (if Policy s \<le> STRETCH \<and> v \<noteq> 1 then (- EINVAL, s)
      else if v < 1 then (- EINVAL, s)
      else (Grace s, s\<lparr>Grace := v\<rparr>))"

definition rt_wdset_gracediv :: "int \<Rightarrow> wdst \<Rightarrow> int \<times> wdst" where
  "rt_wdset_gracediv v s =
     (if Policy s \<le> STRETCH \<and> v \<noteq> 1 then (- EINVAL, s)
      else if v < 1 then (- EINVAL, s)
      else (GraceDiv s, s\<lparr>GraceDiv := v\<rparr>))"

definition rt_wdset_safety :: "int \<Rightarrow> wdst \<Rightarrow> int \<times> wdst" where
  "rt_wdset_safety v s = (if v \<ge> 0 \<and> v < Grace s then (- EINVAL, s) else (Safety s, s\<lparr>Safety := v\<rparr>))"

definition wd_force :: "int \<Rightarrow> wdst \<Rightarrow> wdst" where
  "wd_force pol s =
     (let s1 = (if pol \<le> STRETCH then s\<lparr>Grace := 1, GraceDiv := 1\<rparr> else s) in
      if pol = DEBUG then s1\<lparr>Safety := - 1, Limit := - 1\<rparr> else s1)"

definition rt_wdset_policy :: "int \<Rightarrow> wdst \<Rightarrow> int \<times> wdst" where
  "rt_wdset_policy v s =
     (if v < 0 \<or> v > KILL then (- EINVAL, s) else (Policy s, (wd_force v s)\<lparr>Policy := v\<rparr>))"

definition rt_wdset_slip :: "int \<Rightarrow> wdst \<Rightarrow> int \<times> wdst" where
  "rt_wdset_slip v s = (if v < 0 then (- EINVAL, s) else (Slip s, s\<lparr>Slip := v\<rparr>))"

definition rt_wdset_stretch :: "int \<Rightarrow> wdst \<Rightarrow> int \<times> wdst" where
  "rt_wdset_stretch v s = (if v < 0 then (- EINVAL, s) else (Stretch s, s\<lparr>Stretch := v\<rparr>))"

definition rt_wdset_limit :: "int \<Rightarrow> wdst \<Rightarrow> int \<times> wdst" where
  "rt_wdset_limit v s = (Limit s, s\<lparr>Limit := v\<rparr>)"

section \<open>The records of bad tasks\<close>

definition new_bad_task :: "wdst \<Rightarrow> (nat \<times> wdst) option" where
  "new_bad_task s =
     (case find (\<lambda>i. \<not> bt_in_use (bt s i)) [0..<BAD_TASK_MAX] of
        None \<Rightarrow> None
      | Some i \<Rightarrow> Some (i, upd_bt i (\<lambda>b. b\<lparr>bt_in_use := True\<rparr>) s))"

definition free_bad_task :: "nat \<Rightarrow> wdst \<Rightarrow> wdst" where
  "free_bad_task i = upd_bt i (\<lambda>b. b\<lparr>bt_in_use := False\<rparr>)"

text \<open>The walks of the list.  \<open>None\<close> where a walk follows a null pointer or does not end.\<close>

partial_function (option) bad_end :: "(nat \<Rightarrow> bad_rt_task) \<Rightarrow> nat \<Rightarrow> nat option" where
  "bad_end p i = (case bt_next (p i) of None \<Rightarrow> Some i | Some j \<Rightarrow> bad_end p j)"

partial_function (option) bad_before :: "(nat \<Rightarrow> bad_rt_task) \<Rightarrow> nat \<Rightarrow> nat \<Rightarrow> nat option" where
  "bad_before p del i =
     (if bt_next (p i) = Some del then Some i
      else case bt_next (p i) of None \<Rightarrow> None | Some j \<Rightarrow> bad_before p del j)"

partial_function (option) bad_search :: "(nat \<Rightarrow> bad_rt_task) \<Rightarrow> tid \<Rightarrow> nat option \<Rightarrow> nat option option" where
  "bad_search p t h =
     (case h of
        None \<Rightarrow> Some None
      | Some i \<Rightarrow> if bt_task (p i) = t then Some (Some i) else bad_search p t (bt_next (p i)))"

declare bad_end.simps [code] bad_before.simps [code] bad_search.simps [code]

definition append_bad_task :: "nat \<Rightarrow> wdst \<Rightarrow> wdst option" where
  "append_bad_task i s =
     (case bad_tl s of
        None \<Rightarrow> Some (s\<lparr>bad_tl := Some i\<rparr>)
      | Some h \<Rightarrow> do { e \<leftarrow> bad_end (bt s) h; Some (upd_bt e (\<lambda>b. b\<lparr>bt_next := Some i\<rparr>) s) })"

definition delete_bad_task :: "nat \<Rightarrow> wdst \<Rightarrow> (nat option \<times> wdst) option" where
  "delete_bad_task del s =
     (if bad_tl s = Some del then Some (None, free_bad_task del (s\<lparr>bad_tl := None\<rparr>))
      else case bad_tl s of
        None \<Rightarrow> None
      | Some h \<Rightarrow> do {
          b \<leftarrow> bad_before (bt s) del h;
          let s1 = upd_bt b (\<lambda>r. r\<lparr>bt_next := bt_next (bt s del)\<rparr>) s;
          Some (bt_next (bt s del), free_bad_task del s1)
        })"

definition find_bad_task :: "tid \<Rightarrow> wdst \<Rightarrow> nat option option" where
  "find_bad_task t s = bad_search (bt s) t (bad_tl s)"

section \<open>Policies\<close>

definition wd_suspend :: "nat \<Rightarrow> tid \<Rightarrow> wdst \<Rightarrow> unit wres" where
  "wd_suspend n t s = res_bind (in_wker (rt_task_suspend n (Some t) (wker s)) s) (\<lambda>_. Ret ())"

definition wd_delete :: "nat \<Rightarrow> tid \<Rightarrow> wdst \<Rightarrow> unit wres" where
  "wd_delete n t s = res_bind (in_wker (rt_task_delete n t (wker s)) s) (\<lambda>_. Ret ())"

definition set_resync :: "tid \<Rightarrow> kst \<Rightarrow> kst" where
  "set_resync t k = k\<lparr>resync_frame := (resync_frame k)(t := True)\<rparr>"

definition stretch_badtask :: "tid \<Rightarrow> nat \<Rightarrow> wdst \<Rightarrow> wdst" where
  "stretch_badtask t i s =
     (let k = wker s in
      s\<lparr>wker := set_resync t (k\<lparr>period := (period k)(t := period k t + llimd (bt_orig_period (bt s i)) (Stretch s) 100)\<rparr>)\<rparr>)"

definition start_slipping_badtask :: "nat \<Rightarrow> tid \<Rightarrow> nat \<Rightarrow> wdst \<Rightarrow> unit wres" where
  "start_slipping_badtask n t i s =
     (let k = wker s;
          ticks = to_int32 (llimd (llimd (count2nano k (period k t)) (Slip s) 100) 1 (TickPeriod s)) in
      wd_suspend n t (upd_bt i (\<lambda>b. b\<lparr>bt_slipping := True, bt_countdown := ticks\<rparr>) s))"

definition check_slipping_badtask :: "nat \<Rightarrow> nat \<Rightarrow> wdst \<Rightarrow> unit wres" where
  "check_slipping_badtask n i s =
     (let s1 = upd_bt i (\<lambda>b. b\<lparr>bt_countdown := bt_countdown b - 1\<rparr>) s in
      if bt_countdown (bt s1 i) \<le> 0 then
        let s2 = upd_bt i (\<lambda>b. b\<lparr>bt_slipping := False\<rparr>) s1 in
        res_bind (in_wker (rt_task_resume n (bt_task (bt s2 i)) (wker s2)) s2) (\<lambda>_. Ret ())
      else Ret () s1)"

definition open_record :: "tid \<Rightarrow> wdst \<Rightarrow> (nat \<times> wdst) option option" where
  "open_record t s =
     (case new_bad_task s of
        None \<Rightarrow> Some None
      | Some (i, s1) \<Rightarrow> map_option (\<lambda>s2. Some (i, s2)) (append_bad_task i (upd_bt i (\<lambda>b. b\<lparr>bt_task := t, bt_next := None,
          bt_slipping := False, bt_count := 0, bt_countdown := 0, bt_valid := True, bt_forced := False,
          bt_orig_period := period (wker s1) t\<rparr>) s1)))"

text \<open>What is done about a task with the record \<open>i\<close>, once the offence has been counted.\<close>

definition punish :: "nat \<Rightarrow> tid \<Rightarrow> nat \<Rightarrow> rtime \<Rightarrow> wdst \<Rightarrow> unit wres" where
  "punish n t i overrun s =
     (if overrun \<ge> Safety s * bt_orig_period (bt s i) \<and> Safety s \<ge> 0
      then wd_suspend n t (upd_bt i (\<lambda>b. b\<lparr>bt_forced := True\<rparr>) s)
      else if bt_count (bt s i) \<ge> Limit s \<and> Limit s \<ge> 0
      then wd_suspend n t (upd_bt i (\<lambda>b. b\<lparr>bt_forced := True\<rparr>) s)
      else if Policy s = RESYNC \<or> Policy s = DEBUG then Ret () (s\<lparr>wker := set_resync t (wker s)\<rparr>)
      else if Policy s = STRETCH then Ret () (stretch_badtask t i s)
      else if Policy s = SLIP then start_slipping_badtask n t i s
      else if Policy s = SUSPEND then wd_suspend n t s
      else if Policy s = KILL then wd_delete n t s
      else Ret () s)"

definition handle_badtask :: "nat \<Rightarrow> tid \<Rightarrow> nat option \<Rightarrow> rtime \<Rightarrow> wdst \<Rightarrow> unit wres" where
  "handle_badtask n t b overrun s =
     lift_opt (case b of Some i \<Rightarrow> Some (Some (i, s)) | None \<Rightarrow> open_record t s) (\<lambda>r.
       case r of
         None \<Rightarrow> Ret () s
       | Some (i, s1) \<Rightarrow> punish n t i overrun
           (upd_bt i (\<lambda>b. b\<lparr>bt_count := bt_count b + 1, bt_policy := Policy s1\<rparr>) s1))"

section \<open>The watchdog task\<close>

definition WD_IGNORED :: "32 word" where
  "WD_IGNORED = SUSPENDED OR DELAYED OR SEMAPHORE OR SEND OR RECEIVE OR RPC OR RETURN"

definition wd_overdue :: "rtime \<Rightarrow> tid \<Rightarrow> wdst \<Rightarrow> bool" where
  "wd_overdue now t s \<longleftrightarrow> (let k = wker s in
     period k t \<noteq> 0 \<and> \<not> resync_frame k t \<and> state k t AND WD_IGNORED = 0
     \<and> now - resume_time k t \<ge> llimd (period k t) (Grace s) (GraceDiv s))"

text \<open>One task of the list.\<close>

definition wd_check :: "nat \<Rightarrow> rtime \<Rightarrow> tid \<Rightarrow> wdst \<Rightarrow> unit wres" where
  "wd_check n now t s =
     (if t = wdog s then Ret () s
      else lift_opt (find_bad_task t s) (\<lambda>b.
        let s1 = (case b of None \<Rightarrow> s | Some i \<Rightarrow> upd_bt i (\<lambda>r. r\<lparr>bt_valid := True\<rparr>) s);
            slips = (case b of None \<Rightarrow> False | Some i \<Rightarrow> bt_slipping (bt s1 i)) in
        if slips then check_slipping_badtask n (the b) s1
        else if wd_overdue now t s1 then handle_badtask n t b (now - resume_time (wker s1) t) s1
        else Ret () s1))"

text \<open>The loops of the watchdog; \<open>m\<close> bounds the number of tasks and of records.\<close>

primrec wd_tasks :: "nat \<Rightarrow> nat \<Rightarrow> rtime \<Rightarrow> tid \<Rightarrow> wdst \<Rightarrow> unit wres" where
  "wd_tasks 0 n now task s = Stuck"
| "wd_tasks (Suc m) n now task s =
     (case tsk_next (wker s) task of
        None \<Rightarrow> Ret () s
      | Some t \<Rightarrow> res_bind (wd_check n now t s) (\<lambda>_. wd_tasks m n now t))"

partial_function (option) invalidate :: "nat option \<Rightarrow> wdst \<Rightarrow> wdst option" where
  "invalidate h s =
     (case h of
        None \<Rightarrow> Some s
      | Some i \<Rightarrow> invalidate (bt_next (bt s i)) (upd_bt i (\<lambda>r. r\<lparr>bt_valid := False\<rparr>) s))"

partial_function (option) wd_clean :: "nat option \<Rightarrow> wdst \<Rightarrow> wdst option" where
  "wd_clean h s =
     (case h of
        None \<Rightarrow> Some s
      | Some i \<Rightarrow>
          if \<not> bt_valid (bt s i) then do { (nxt, s1) \<leftarrow> delete_bad_task i s; wd_clean nxt s1 }
          else wd_clean (bt_next (bt s i)) s)"

declare invalidate.simps [code] wd_clean.simps [code]

definition wd_round :: "nat \<Rightarrow> nat \<Rightarrow> wdst \<Rightarrow> unit wres" where
  "wd_round m n s =
     (let self = rt_current (wker s); (now, k) = rt_get_time (wker s); s1 = s\<lparr>wker := k\<rparr> in
      if now - resume_time k self \<ge> period k self
      then in_wker (rt_task_wait_period n (set_resync self k)) s1
      else lift_opt (invalidate (bad_tl s1) s1) (\<lambda>s2.
        res_bind (wd_tasks m n now LINUX s2) (\<lambda>_ s3.
          lift_opt (wd_clean (bad_tl s3) s3) (\<lambda>s4. in_wker (rt_task_wait_period n (wker s4)) s4))))"

primrec watchdog :: "nat \<Rightarrow> nat \<Rightarrow> nat \<Rightarrow> wdst \<Rightarrow> unit wres" where
  "watchdog 0 m n s = Stuck"
| "watchdog (Suc i) m n s = res_bind (wd_round m n s) (\<lambda>_. watchdog i m n)"

section \<open>Registration\<close>

text \<open>Of \<^verbatim>\<open>newlxrt/scheduler/rtai_sched.c\<close>: the highest priority is reserved for the watchdog.\<close>

partial_function (option) highest_loop :: "kst \<Rightarrow> tid \<Rightarrow> tid \<Rightarrow> bool option" where
  "highest_loop k wd task =
     (case tsk_next k task of
        None \<Rightarrow> Some False
      | Some t \<Rightarrow> if t \<noteq> wd \<and> priority k t = 0 then Some True else highest_loop k wd t)"

declare highest_loop.simps [code]

definition rt_register_watchdog :: "tid \<Rightarrow> kst \<Rightarrow> (int \<times> kst) option" where
  "rt_register_watchdog wd k =
     (if wdog_task k \<noteq> None then Some (- EBUSY, k)
      else do {
        taken \<leftarrow> highest_loop k wd LINUX;
        Some (if taken then (- EBUSY, k) else (0, k\<lparr>wdog_task := Some wd\<rparr>))
      })"

definition rt_deregister_watchdog :: "tid \<Rightarrow> kst \<Rightarrow> kst" where
  "rt_deregister_watchdog wd k = (if wdog_task k \<noteq> Some wd then k else k\<lparr>wdog_task := None\<rparr>)"

text \<open>Leaving the module: the records of the list are given back.\<close>

partial_function (option) wd_free_all :: "nat option \<Rightarrow> wdst \<Rightarrow> wdst option" where
  "wd_free_all h s =
     (case h of
        None \<Rightarrow> Some s
      | Some i \<Rightarrow> do { (nxt, s1) \<leftarrow> delete_bad_task i s; wd_free_all nxt s1 })"

declare wd_free_all.simps [code]

end
