(* ===== verification/Watchdog_Props.thy ===== *)
theory Watchdog_Props
  imports Watchdog
begin

text \<open>
  What the watchdog keeps and what it guarantees: its parameters stay in their ranges whatever is asked for; its
  records are a list of distinct entries of the pool, one per task; a look through the tasks with the policy \<open>SUSPEND\<close>
  suspends exactly the tasks that are overdue.  The removal of the first record loses all the others.
\<close>

section \<open>Parameters\<close>

definition wd_params_ok :: "wdst \<Rightarrow> bool" where
  "wd_params_ok s \<longleftrightarrow> 1 \<le> Grace s \<and> 1 \<le> GraceDiv s \<and> 0 \<le> Slip s \<and> 0 \<le> Stretch s \<and> 0 \<le> Policy s \<and> Policy s \<le> KILL
     \<and> (Policy s \<le> STRETCH \<longrightarrow> Grace s = 1 \<and> GraceDiv s = 1)"

datatype wd_set = SetGrace int | SetGraceDiv int | SetSafety int | SetPolicy int | SetSlip int | SetStretch int | SetLimit int

primrec wd_exec :: "wd_set \<Rightarrow> wdst \<Rightarrow> int \<times> wdst" where
  "wd_exec (SetGrace v) = rt_wdset_grace v"
| "wd_exec (SetGraceDiv v) = rt_wdset_gracediv v"
| "wd_exec (SetSafety v) = rt_wdset_safety v"
| "wd_exec (SetPolicy v) = rt_wdset_policy v"
| "wd_exec (SetSlip v) = rt_wdset_slip v"
| "wd_exec (SetStretch v) = rt_wdset_stretch v"
| "wd_exec (SetLimit v) = rt_wdset_limit v"

lemmas wd_setters = rt_wdset_grace_def rt_wdset_gracediv_def rt_wdset_safety_def rt_wdset_policy_def rt_wdset_slip_def
  rt_wdset_stretch_def rt_wdset_limit_def wd_force_def

lemma wd_exec_ok: "wd_params_ok s \<Longrightarrow> wd_params_ok (snd (wd_exec c s))"
  by (cases c) (auto simp: wd_params_ok_def wd_setters Let_def)

lemma wd_exec_frame: "bad_task_pool (snd (wd_exec c s)) = bad_task_pool s \<and> bad_tl (snd (wd_exec c s)) = bad_tl s
    \<and> wker (snd (wd_exec c s)) = wker s"
  by (cases c) (auto simp: wd_setters Let_def)


text \<open>The safety limit may be put under the period of grace by raising that afterwards; the switch to the policy
  \<open>DEBUG\<close> forgets the two limits.\<close>

lemma safety_below_grace:
  "STRETCH < Policy s \<Longrightarrow> 1 \<le> Grace s \<Longrightarrow> Grace s \<le> v \<Longrightarrow>
     (let s' = snd (wd_exec (SetGrace (v + 1)) (snd (wd_exec (SetSafety v) s))) in 0 \<le> Safety s' \<and> Safety s' < Grace s')"
  by (simp add: wd_setters)

section \<open>The list of records\<close>

abbreviation nxt :: "wdst \<Rightarrow> nat \<Rightarrow> nat option" where "nxt s j \<equiv> bt_next (bt s j)"

definition bad_list :: "wdst \<Rightarrow> nat list \<Rightarrow> bool" where
  "bad_list s bl \<longleftrightarrow> distinct bl \<and> (case bl of [] \<Rightarrow> bad_tl s = None | i # js \<Rightarrow> bad_tl s = Some i \<and> chain (nxt s) i js)"

text \<open>The records in use are those of the list, one per task.\<close>

definition records_ok :: "wdst \<Rightarrow> nat list \<Rightarrow> bool" where
  "records_ok s bl \<longleftrightarrow> bad_list s bl \<and> (\<forall>i < BAD_TASK_MAX. bt_in_use (bt s i) \<longleftrightarrow> i \<in> set bl) \<and> set bl \<subseteq> {..<BAD_TASK_MAX}
     \<and> inj_on (\<lambda>i. bt_task (bt s i)) (set bl)"

lemma upd_bt_simps [simp]:
  "bt (upd_bt i f s) = (bt s)(i := f (bt s i))" "bad_tl (upd_bt i f s) = bad_tl s" "wker (upd_bt i f s) = wker s"
  "Policy (upd_bt i f s) = Policy s" "wdog (upd_bt i f s) = wdog s" "Safety (upd_bt i f s) = Safety s"
  "Limit (upd_bt i f s) = Limit s" "Grace (upd_bt i f s) = Grace s" "GraceDiv (upd_bt i f s) = GraceDiv s"
  by (simp_all add: upd_bt_def)

lemma chain_cong: "(\<And>j. j \<in> set (a # js) \<Longrightarrow> f j = g j) \<Longrightarrow> chain f a js = chain g a js"
  by (induction js arbitrary: a) auto

lemma bad_search_chain:
  "chain (\<lambda>j. bt_next (p j)) i js \<Longrightarrow> bad_search p t (Some i) = Some (find (\<lambda>j. bt_task (p j) = t) (i # js))"
proof (induction js arbitrary: i)
  case Nil
  then show ?case by (subst bad_search.simps) (simp add: bad_search.simps)
next
  case (Cons j js)
  then show ?case by (subst bad_search.simps) simp
qed

lemma find_bad_task_eq: "bad_list s bl \<Longrightarrow> find_bad_task t s = Some (find (\<lambda>i. bt_task (bt s i) = t) bl)"
  by (cases bl) (auto simp: find_bad_task_def bad_list_def bad_search_chain bad_search.simps [of _ _ None] simp del: find.simps(2))

lemma bad_end_chain: "chain (\<lambda>j. bt_next (p j)) i js \<Longrightarrow> bad_end p i = Some (last (i # js))"
  by (induction js arbitrary: i) (simp_all add: bad_end.simps)

lemma chain_end: "chain f a js \<Longrightarrow> distinct (a # js) \<Longrightarrow> i \<notin> set (a # js) \<Longrightarrow> f i = None \<Longrightarrow>
    chain (f(last (a # js) := Some i)) a (js @ [i])"
  by (metis chain_snoc fun_upd_idem)

lemma append_bad_task_ok:
  assumes b: "bad_list s bl" and i: "i \<notin> set bl" "nxt s i = None"
  shows "\<exists>s'. append_bad_task i s = Some s' \<and> bad_list s' (bl @ [i])
     \<and> (\<forall>j. (bt s' j)\<lparr>bt_next := None\<rparr> = (bt s j)\<lparr>bt_next := None\<rparr>) \<and> s' = s\<lparr>bad_tl := bad_tl s', bad_task_pool := bt s'\<rparr>"
proof (cases bl)
  case Nil
  then show ?thesis using assms by (simp add: append_bad_task_def bad_list_def)
next
  case (Cons h js)
  let ?e = "last (h # js)" and ?s = "upd_bt (last (h # js)) (\<lambda>b. b\<lparr>bt_next := Some i\<rparr>) s"
  have c: "chain (nxt s) h js" "bad_tl s = Some h" "distinct (h # js)" using b Cons by (simp_all add: bad_list_def)
  have a: "append_bad_task i s = Some ?s" using bad_end_chain [OF c(1)] c(2) by (simp add: append_bad_task_def)
  have n: "(\<lambda>j. nxt ?s j) = (nxt s)(?e := Some i)" by (simp add: fun_eq_iff)
  have "chain (nxt ?s) h (js @ [i])" unfolding n by (rule chain_end [OF c(1,3)]) (use i Cons in auto)
  then have l: "bad_list ?s (bl @ [i])" using Cons c(2,3) i(1) by (simp add: bad_list_def)
  have f: "\<forall>j. (bt ?s j)\<lparr>bt_next := None\<rparr> = (bt s j)\<lparr>bt_next := None\<rparr>" by simp
  have r: "?s = s\<lparr>bad_tl := bad_tl ?s, bad_task_pool := bt ?s\<rparr>" by (simp add: upd_bt_def)
  show ?thesis by (rule exI [of _ ?s], intro conjI, rule a, rule l, rule f, rule r)
qed


lemma same_but_next:
  "b\<lparr>bt_next := None\<rparr> = b'\<lparr>bt_next := None\<rparr> \<Longrightarrow> bt_task b = bt_task b' \<and> bt_in_use b = bt_in_use b'
     \<and> bt_slipping b = bt_slipping b' \<and> bt_valid b = bt_valid b' \<and> bt_orig_period b = bt_orig_period b'"
  by (cases b, cases b') simp

lemma free_record:
  assumes r: "records_ok s bl" and n: "length bl < BAD_TASK_MAX"
  shows "\<exists>i. new_bad_task s = Some (i, upd_bt i (\<lambda>b. b\<lparr>bt_in_use := True\<rparr>) s) \<and> i \<notin> set bl \<and> i < BAD_TASK_MAX"
proof -
  have u: "\<And>i. i < BAD_TASK_MAX \<Longrightarrow> bt_in_use (bt s i) \<longleftrightarrow> i \<in> set bl" using r by (simp add: records_ok_def)
  have "card (set bl) < card {..<BAD_TASK_MAX}" using n card_length [of bl] by simp
  then have "\<not> {..<BAD_TASK_MAX} \<subseteq> set bl" using card_mono [of "set bl" "{..<BAD_TASK_MAX}"] by fastforce
  then have "find (\<lambda>i. \<not> bt_in_use (bt s i)) [0..<BAD_TASK_MAX] \<noteq> None" using u by (auto simp: find_None_iff)
  then obtain i where i: "find (\<lambda>i. \<not> bt_in_use (bt s i)) [0..<BAD_TASK_MAX] = Some i" by blast
  then have "i < BAD_TASK_MAX" "\<not> bt_in_use (bt s i)" using find_Some_iff [THEN iffD1, OF i] by auto
  then show ?thesis using i u by (auto simp: new_bad_task_def)
qed

lemma open_record_ok:
  assumes r: "records_ok s bl" and n: "length bl < BAD_TASK_MAX" and t: "t \<notin> (\<lambda>i. bt_task (bt s i)) ` set bl"
  shows "\<exists>i s'. open_record t s = Some (Some (i, s')) \<and> records_ok s' (bl @ [i]) \<and> bt_task (bt s' i) = t
     \<and> \<not> bt_slipping (bt s' i) \<and> bt_orig_period (bt s' i) = period (wker s) t
     \<and> bt_valid (bt s' i) \<and> (\<forall>j \<in> set bl. bt_task (bt s' j) = bt_task (bt s j)
         \<and> bt_slipping (bt s' j) = bt_slipping (bt s j) \<and> bt_valid (bt s' j) = bt_valid (bt s j))
     \<and> s' = s\<lparr>bad_tl := bad_tl s', bad_task_pool := bt s'\<rparr>"
proof -
  obtain i where i: "new_bad_task s = Some (i, upd_bt i (\<lambda>b. b\<lparr>bt_in_use := True\<rparr>) s)" "i \<notin> set bl" "i < BAD_TASK_MAX"
    using free_record [OF r n] by blast
  let ?s1 = "upd_bt i (\<lambda>b. b\<lparr>bt_in_use := True\<rparr>) s"
  let ?s2 = "upd_bt i (\<lambda>b. b\<lparr>bt_task := t, bt_next := None, bt_slipping := False, bt_count := 0, bt_countdown := 0,
      bt_valid := True, bt_forced := False, bt_orig_period := period (wker s) t\<rparr>) ?s1"
  have old: "\<And>j. j \<in> set bl \<Longrightarrow> bt ?s2 j = bt s j" using i(2) by auto
  have "bad_list ?s2 bl"
    using r chain_cong [of _ _ "nxt s" "nxt ?s2"] old by (auto simp: records_ok_def bad_list_def split: list.splits)
  then obtain s' where a: "append_bad_task i ?s2 = Some s'" "bad_list s' (bl @ [i])"
    "\<forall>j. (bt s' j)\<lparr>bt_next := None\<rparr> = (bt ?s2 j)\<lparr>bt_next := None\<rparr>" "s' = ?s2\<lparr>bad_tl := bad_tl s', bad_task_pool := bt s'\<rparr>"
    using append_bad_task_ok [of ?s2 bl i] i(2) by auto
  have e: "\<And>j. bt_task (bt s' j) = bt_task (bt ?s2 j) \<and> bt_in_use (bt s' j) = bt_in_use (bt ?s2 j)
      \<and> bt_slipping (bt s' j) = bt_slipping (bt ?s2 j) \<and> bt_valid (bt s' j) = bt_valid (bt ?s2 j)
      \<and> bt_orig_period (bt s' j) = bt_orig_period (bt ?s2 j)"
    by (rule same_but_next) (use a(3) in blast)
  have k: "bt_task (bt s' j) = bt_task (bt s j)" "bt_slipping (bt s' j) = bt_slipping (bt s j)"
    "bt_valid (bt s' j) = bt_valid (bt s j)" if "j \<in> set bl" for j
    using e [of j] old [OF that] by simp_all
  have inj: "inj_on (\<lambda>j. bt_task (bt s' j)) (set bl)" using r k by (simp add: records_ok_def inj_on_def)
  have "records_ok s' (bl @ [i])"
    using r i a(2) inj k t e unfolding records_ok_def by (auto simp: inj_on_def)
  moreover have "open_record t s = Some (Some (i, s'))" using a(1) i(1) by (simp add: open_record_def)
  moreover have "s' = s\<lparr>bad_tl := bad_tl s', bad_task_pool := bt s'\<rparr>" using a(4) unfolding upd_bt_def by simp
  ultimately show ?thesis using e [of i] k by simp
qed


text \<open>The removal: right for a record behind the first; of the first it forgets the whole list, and the other records stay
  in use for ever.\<close>

lemma bad_before_chain:
  "chain (\<lambda>j. bt_next (p j)) a (xs @ i # ys) \<Longrightarrow> i \<notin> set xs \<Longrightarrow> bad_before p i a = Some (last (a # xs))"
  by (induction xs arbitrary: a) (simp_all add: bad_before.simps)

lemma chain_unlink: "chain f a (xs @ i # ys) \<Longrightarrow> distinct (a # xs @ i # ys) \<Longrightarrow> chain (f(last (a # xs) := f i)) a (xs @ ys)"
proof (induction xs arbitrary: a)
  case Nil
  then show ?case by (cases ys) (auto simp: fun_upd_same simp del: fun_upd_apply)
next
  case (Cons x xs)
  have n: "a \<noteq> last (x # xs)" using Cons.prems(2) last_in_set [of "x # xs"] by auto
  have c: "chain (f(last (x # xs) := f i)) x (xs @ ys)" by (rule Cons.IH) (use Cons.prems in auto)
  have l: "last (a # x # xs) = last (x # xs)" and f: "(f(last (x # xs) := f i)) a = Some x" using Cons.prems(1) n by simp_all
  show ?case unfolding l append_Cons chain.simps by (rule conjI [OF f c])
qed

lemma delete_bad_task_other:
  assumes r: "records_ok s (h # xs @ i # ys)"
  shows "\<exists>s'. delete_bad_task i s = Some (nxt s i, s') \<and> records_ok s' (h # xs @ ys) \<and> wker s' = wker s"
proof -
  have b: "bad_tl s = Some h" "chain (nxt s) h (xs @ i # ys)" and d: "distinct (h # xs @ i # ys)"
    using r by (simp_all add: records_ok_def bad_list_def)
  let ?e = "last (h # xs)"
  let ?s = "free_bad_task i (upd_bt ?e (\<lambda>b. b\<lparr>bt_next := nxt s i\<rparr>) s)"
  have ei: "?e \<noteq> i" using d last_in_set [of "h # xs"] by auto
  have "delete_bad_task i s = Some (nxt s i, ?s)"
    using b d bad_before_chain [OF b(2)] by (simp add: delete_bad_task_def)
  moreover have "records_ok ?s (h # xs @ ys)"
  proof -
    have n: "nxt ?s = (nxt s)(?e := nxt s i)" using ei by (simp add: free_bad_task_def fun_eq_iff)
    have u: "\<And>j. bt_in_use (bt ?s j) = (if j = i then False else bt_in_use (bt s j))" using ei by (simp add: free_bad_task_def)
    have k: "(\<lambda>j. bt_task (bt ?s j)) = (\<lambda>j. bt_task (bt s j))" using ei by (simp add: free_bad_task_def fun_eq_iff)
    have "bad_list ?s (h # xs @ ys)"
      using chain_unlink [OF b(2) d] b(1) d unfolding bad_list_def n by (simp add: free_bad_task_def)
    then show ?thesis using r d unfolding records_ok_def u k by (auto simp: inj_on_def)
  qed
  ultimately show ?thesis by (intro exI [of _ ?s]) (simp add: free_bad_task_def)
qed

lemma delete_first_loses_all:
  assumes r: "records_ok s (h # js)"
  shows "\<exists>s'. delete_bad_task h s = Some (None, s') \<and> bad_list s' [] \<and> (\<forall>j \<in> set js. bt_in_use (bt s' j))
     \<and> find_bad_task t s' = Some None"
proof -
  have b: "bad_tl s = Some h" and d: "h \<notin> set js" using r by (simp_all add: records_ok_def bad_list_def)
  have u: "\<forall>j \<in> set js. bt_in_use (bt s j)" using r by (auto simp: records_ok_def)
  let ?s = "free_bad_task h (s\<lparr>bad_tl := None\<rparr>)"
  have "bad_list ?s []" by (simp add: bad_list_def free_bad_task_def)
  then show ?thesis using b u d find_bad_task_eq [of ?s "[]" t]
    by (intro exI [of _ ?s]) (auto simp: delete_bad_task_def free_bad_task_def)
qed

section \<open>Suspending what is overdue\<close>

text \<open>The tasks \<open>A\<close> have been suspended; the links of the ready list and the records of the watchdog are other ones,
  all the rest of the state is as it was.\<close>

definition stopped :: "tid set \<Rightarrow> kst \<Rightarrow> kst \<Rightarrow> bool" where
  "stopped A k k' \<longleftrightarrow> (\<exists>nx pv. k' = k\<lparr>state := \<lambda>t. if t \<in> A then state k t OR SUSPENDED else state k t,
     suspdepth := \<lambda>t. if t \<in> A then 1 else suspdepth k t, rnext := nx, rprev := pv\<rparr>)"

definition wd_stopped :: "tid set \<Rightarrow> wdst \<Rightarrow> wdst \<Rightarrow> bool" where
  "wd_stopped A s s' \<longleftrightarrow> stopped A (wker s) (wker s')
     \<and> s' = s\<lparr>bad_tl := bad_tl s', bad_task_pool := bt s', wker := wker s'\<rparr>"

lemma stopped_trans:
  assumes "stopped A k k1" "stopped B k1 k2"
  shows "stopped (A \<union> B) k k2"
proof -
  obtain nx pv where k1: "k1 = k\<lparr>state := \<lambda>t. if t \<in> A then state k t OR SUSPENDED else state k t,
     suspdepth := \<lambda>t. if t \<in> A then 1 else suspdepth k t, rnext := nx, rprev := pv\<rparr>"
    using assms(1) by (auto simp: stopped_def)
  obtain nx2 pv2 where k2: "k2 = k1\<lparr>state := \<lambda>t. if t \<in> B then state k1 t OR SUSPENDED else state k1 t,
     suspdepth := \<lambda>t. if t \<in> B then 1 else suspdepth k1 t, rnext := nx2, rprev := pv2\<rparr>"
    using assms(2) by (auto simp: stopped_def)
  have st: "(\<lambda>t. if t \<in> B then state k1 t OR SUSPENDED else state k1 t)
      = (\<lambda>t. if t \<in> A \<union> B then state k t OR SUSPENDED else state k t)"
    by (rule ext) (simp add: k1 or.assoc)
  have sd: "(\<lambda>t. if t \<in> B then 1 else suspdepth k1 t) = (\<lambda>t. if t \<in> A \<union> B then 1 else suspdepth k t)"
    by (rule ext) (simp add: k1)
  show ?thesis unfolding stopped_def k2 st sd by (rule exI [of _ nx2], rule exI [of _ pv2]) (simp add: k1)
qed

lemma stopped_none: "stopped {} k k"
  unfolding stopped_def by (rule exI [of _ "rnext k"], rule exI [of _ "rprev k"]) simp

lemma stopped_fields:
  assumes "stopped A k k'"
  shows "period k' = period k" "resync_frame k' = resync_frame k" "resume_time k' = resume_time k"
    "tsk_next k' = tsk_next k" "rt_current k' = rt_current k" "priority k' = priority k" "owndres k' = owndres k"
    "live k' = live k" "magic k' = magic k"
    "state k' = (\<lambda>t. if t \<in> A then state k t OR SUSPENDED else state k t)"
    "suspdepth k' = (\<lambda>t. if t \<in> A then 1 else suspdepth k t)"
  using assms by (auto simp: stopped_def live_def fun_eq_iff)

lemma suspend_stops:
  assumes i: "sched_inv k rq tq" and l: "live k t" and p: "0 \<le> priority k t"
    and d: "suspdepth k t = 0" "owndres k t = 0" and c: "t \<noteq> rt_current k"
  shows "\<exists>k'. rt_task_suspend n (Some t) k = Ret 0 k' \<and> sched_inv k' (remove1 t rq) tq \<and> stopped {t} k k'"
proof -
  let ?s1 = "k\<lparr>suspdepth := (suspdepth k)(t := 1)\<rparr>"
  let ?u = "set_state t (state k t OR SUSPENDED) (if state k t = READY then unlink_ready t ?s1 else ?s1)"
  have st: "state ?u = (\<lambda>x. if x \<in> {t} then state k x OR SUSPENDED else state k x)"
    "suspdepth ?u = (\<lambda>x. if x \<in> {t} then 1 else suspdepth k x)" by (auto simp: unlink_ready_def fun_eq_iff)
  have "?u = k\<lparr>state := state ?u, suspdepth := suspdepth ?u, rnext := rnext ?u, rprev := rprev ?u\<rparr>"
    by (simp add: unlink_ready_def)
  then have "stopped {t} k ?u" unfolding stopped_def st [symmetric] by blast
  then show ?thesis using suspend_eq [OF i l d, of n] suspend_inv [OF i l p] c by (intro exI [of _ ?u]) simp
qed


text \<open>The records kept for the walk: well-formed, none of a task that is slipping, room for \<open>m\<close> more.\<close>

definition wd_ready :: "nat \<Rightarrow> nat list \<Rightarrow> tid list \<Rightarrow> tid list \<Rightarrow> wdst \<Rightarrow> bool" where
  "wd_ready m bl rq tq s \<longleftrightarrow> records_ok s bl \<and> (\<forall>i \<in> set bl. \<not> bt_slipping (bt s i)) \<and> length bl + m \<le> BAD_TASK_MAX
     \<and> Policy s = SUSPEND \<and> sched_inv (wker s) rq tq"

text \<open>The records of the tasks \<open>V\<close> are marked as valid.\<close>

definition seen :: "tid set \<Rightarrow> nat list \<Rightarrow> wdst \<Rightarrow> bool" where
  "seen V bl s \<longleftrightarrow> (\<forall>i \<in> set bl. bt_task (bt s i) \<in> V \<longrightarrow> bt_valid (bt s i))"

definition offenders :: "nat list \<Rightarrow> wdst \<Rightarrow> tid set" where
  "offenders bl s = (\<lambda>i. bt_task (bt s i)) ` set bl"

lemma records_ok_upd:
  assumes "records_ok s bl" and f: "bt_next (f (bt s i)) = nxt s i" "bt_task (f (bt s i)) = bt_task (bt s i)"
    "bt_in_use (f (bt s i)) = bt_in_use (bt s i)"
  shows "records_ok (upd_bt i f s) bl"
proof -
  have n: "nxt (upd_bt i f s) = nxt s" "(\<lambda>j. bt_task (bt (upd_bt i f s) j)) = (\<lambda>j. bt_task (bt s j))"
    "(\<lambda>j. bt_in_use (bt (upd_bt i f s) j)) = (\<lambda>j. bt_in_use (bt s j))"
    using f by (simp_all add: fun_eq_iff)
  have u: "\<And>j. bt_in_use (bt (upd_bt i f s) j) = bt_in_use (bt s j)" using n(3) by (simp only: fun_eq_iff)
  have l: "bad_list (upd_bt i f s) bl = bad_list s bl" unfolding bad_list_def n(1) by (cases bl) simp_all
  show ?thesis using assms(1) unfolding records_ok_def l n(2) u .
qed

lemma punish_suspend: "Policy s = SUSPEND \<Longrightarrow>
    \<exists>f. punish n t i overrun s = wd_suspend n t (upd_bt i (\<lambda>b. b\<lparr>bt_forced := f b\<rparr>) s)"
proof -
  let ?c = "overrun \<ge> Safety s * bt_orig_period (bt s i) \<and> Safety s \<ge> 0 \<or> bt_count (bt s i) \<ge> Limit s \<and> Limit s \<ge> 0"
  have e: "upd_bt i (\<lambda>b. b) s = s" by (simp add: upd_bt_def)
  assume "Policy s = SUSPEND"
  then have "punish n t i overrun s = wd_suspend n t (upd_bt i (\<lambda>b. b\<lparr>bt_forced := if ?c then True else bt_forced b\<rparr>) s)"
    by (auto simp: punish_def e)
  then show ?thesis by (rule exI [of _ "\<lambda>b. if ?c then True else bt_forced b"])
qed

lemma records_ok_wker [simp]: "records_ok (s\<lparr>wker := k\<rparr>) bl = records_ok s bl"
  by (cases bl) (simp_all add: records_ok_def bad_list_def)

text \<open>A task that is overdue is suspended, whether or not it has a record, and has one afterwards.\<close>

lemma handle_suspends:
  assumes w: "wd_ready (Suc m) bl rq tq s" and l: "live (wker s) t" and p: "0 \<le> priority (wker s) t"
    and d: "suspdepth (wker s) t = 0" "owndres (wker s) t = 0" and c: "t \<noteq> rt_current (wker s)"
    and b: "find_bad_task t s = Some b" and v: "seen V bl s"
  shows "\<exists>s' bl'. handle_badtask n t b overrun s = Ret () s' \<and> wd_ready m bl' (remove1 t rq) tq s' \<and> wd_stopped {t} s s'
     \<and> seen V bl' s' \<and> offenders bl' s' = insert t (offenders bl s)"
proof -
  have r: "records_ok s bl" and sl: "\<And>i. i \<in> set bl \<Longrightarrow> \<not> bt_slipping (bt s i)" and nl: "length bl + Suc m \<le> BAD_TASK_MAX"
    and pl: "Policy s = SUSPEND" and si: "sched_inv (wker s) rq tq" using w by (simp_all add: wd_ready_def)
  have bf: "b = find (\<lambda>i. bt_task (bt s i) = t) bl" using b r find_bad_task_eq [of s bl t] by (simp add: records_ok_def)
  have "\<exists>i s1 bl'. (case b of Some i \<Rightarrow> Some (Some (i, s)) | None \<Rightarrow> open_record t s) = Some (Some (i, s1))
      \<and> records_ok s1 bl' \<and> (\<forall>j \<in> set bl'. \<not> bt_slipping (bt s1 j)) \<and> length bl' + m \<le> BAD_TASK_MAX
      \<and> seen V bl' s1 \<and> offenders bl' s1 = insert t (offenders bl s) \<and> s1 = s\<lparr>bad_tl := bad_tl s1, bad_task_pool := bt s1\<rparr>"
  proof (cases b)
    case (Some i)
    then have i: "i \<in> set bl" "bt_task (bt s i) = t" using bf find_Some_iff [of _ bl i] by auto
    then have "t \<in> offenders bl s" by (auto simp: offenders_def)
    then show ?thesis using Some r sl nl i v by (intro exI [of _ i] exI [of _ s] exI [of _ bl]) auto
  next
    case None
    then have t: "t \<notin> (\<lambda>i. bt_task (bt s i)) ` set bl" using bf by (auto simp: find_None_iff)
    obtain i s1 where o: "open_record t s = Some (Some (i, s1))" "records_ok s1 (bl @ [i])" "bt_task (bt s1 i) = t"
      "\<not> bt_slipping (bt s1 i)" "\<forall>j \<in> set bl. bt_task (bt s1 j) = bt_task (bt s j)
         \<and> bt_slipping (bt s1 j) = bt_slipping (bt s j) \<and> bt_valid (bt s1 j) = bt_valid (bt s j)" "bt_valid (bt s1 i)"
      "s1 = s\<lparr>bad_tl := bad_tl s1, bad_task_pool := bt s1\<rparr>"
      using open_record_ok [OF r _ t] nl by auto
    have "seen V (bl @ [i]) s1" using v o(5,6) by (auto simp: seen_def)
    moreover have "offenders (bl @ [i]) s1 = insert t (offenders bl s)" using o(3,5) by (auto simp: offenders_def)
    ultimately show ?thesis using None o(1,2,4,5,7) sl nl by (intro exI [of _ i] exI [of _ s1] exI [of _ "bl @ [i]"]) simp
  qed
  then obtain i s1 bl' where o: "(case b of Some i \<Rightarrow> Some (Some (i, s)) | None \<Rightarrow> open_record t s) = Some (Some (i, s1))"
      "records_ok s1 bl'" "\<forall>j \<in> set bl'. \<not> bt_slipping (bt s1 j)" "length bl' + m \<le> BAD_TASK_MAX"
      "offenders bl' s1 = insert t (offenders bl s)" "s1 = s\<lparr>bad_tl := bad_tl s1, bad_task_pool := bt s1\<rparr>" "seen V bl' s1" by blast
  let ?s2 = "upd_bt i (\<lambda>b. b\<lparr>bt_count := bt_count b + 1, bt_policy := Policy s1\<rparr>) s1"
  have k1: "wker s1 = wker s" "Policy s1 = Policy s" by (subst o(6), simp)+
  obtain f where f: "punish n t i overrun ?s2 = wd_suspend n t (upd_bt i (\<lambda>b. b\<lparr>bt_forced := f b\<rparr>) ?s2)"
    using punish_suspend [of ?s2 n t i overrun] pl k1 by auto
  let ?s3 = "upd_bt i (\<lambda>b. b\<lparr>bt_forced := f b\<rparr>) ?s2"
  obtain k' where k': "rt_task_suspend n (Some t) (wker s) = Ret 0 k'" "sched_inv k' (remove1 t rq) tq" "stopped {t} (wker s) k'"
    using suspend_stops [OF si l p d c, of n] by blast
  let ?s' = "?s3\<lparr>wker := k'\<rparr>"
  have "handle_badtask n t b overrun s = Ret () ?s'" using o(1) f k'(1) k1 by (simp add: handle_badtask_def wd_suspend_def)
  moreover have "wd_ready m bl' (remove1 t rq) tq ?s'"
  proof -
    have "records_ok ?s3 bl'" by (intro records_ok_upd o(2)) simp_all
    then have "records_ok ?s' bl'" by (simp only: records_ok_wker)
    then show ?thesis using o(3,4) k'(2) pl k1 by (simp add: wd_ready_def)
  qed
  moreover have "wd_stopped {t} s ?s'"
  proof -
    have "s1\<lparr>bad_task_pool := p, wker := k'\<rparr> = s\<lparr>bad_tl := bad_tl s1, bad_task_pool := p, wker := k'\<rparr>" for p
      by (subst (1) o(6)) simp
    then show ?thesis using k'(3) by (simp add: wd_stopped_def upd_bt_def)
  qed
  moreover have "seen V bl' ?s'" using o(7) by (simp add: seen_def)
  moreover have "offenders bl' ?s' = insert t (offenders bl s)" unfolding o(5) [symmetric] by (auto simp: offenders_def)
  ultimately show ?thesis by blast
qed


lemma wd_overdue_stopped: "wd_stopped A s s' \<Longrightarrow> t \<notin> A \<Longrightarrow> wd_overdue now t s' = wd_overdue now t s"
proof -
  assume a: "wd_stopped A s s'" "t \<notin> A"
  then have e: "s' = s\<lparr>bad_tl := bad_tl s', bad_task_pool := bt s', wker := wker s'\<rparr>" and k: "stopped A (wker s) (wker s')"
    by (simp_all add: wd_stopped_def)
  have p: "Grace s' = Grace s" "GraceDiv s' = GraceDiv s" by (subst e, simp)+
  show ?thesis using a(2) by (simp add: wd_overdue_def p stopped_fields [OF k] Let_def)
qed

lemma wd_stopped_trans:
  assumes "wd_stopped A s s1" "wd_stopped B s1 s2"
  shows "wd_stopped (A \<union> B) s s2"
proof -
  have a: "s1 = s\<lparr>bad_tl := bad_tl s1, bad_task_pool := bt s1, wker := wker s1\<rparr>"
    and b: "s2 = s1\<lparr>bad_tl := bad_tl s2, bad_task_pool := bt s2, wker := wker s2\<rparr>"
    using assms by (simp_all add: wd_stopped_def)
  have "s2 = s\<lparr>bad_tl := bad_tl s2, bad_task_pool := bt s2, wker := wker s2\<rparr>"
    by (subst (1) b, subst (1) a) simp
  moreover have "stopped (A \<union> B) (wker s) (wker s2)" using assms stopped_trans by (auto simp: wd_stopped_def)
  ultimately show ?thesis by (simp add: wd_stopped_def)
qed

text \<open>What a task that is overdue must be for the watchdog to suspend it.\<close>

definition stoppable :: "kst \<Rightarrow> tid \<Rightarrow> bool" where
  "stoppable k t \<longleftrightarrow> live k t \<and> 0 \<le> priority k t \<and> suspdepth k t = 0 \<and> owndres k t = 0 \<and> t \<noteq> rt_current k"

lemma check_suspends:
  assumes w: "wd_ready (Suc m) bl rq tq s" and t: "t \<noteq> wdog s" "wd_overdue now t s \<Longrightarrow> stoppable (wker s) t"
    and v: "seen V bl s"
  defines "A \<equiv> if wd_overdue now t s then {t} else {}"
  shows "\<exists>s' bl'. wd_check n now t s = Ret () s' \<and> wd_ready m bl' (filter (\<lambda>x. x \<notin> A) rq) tq s' \<and> wd_stopped A s s'
     \<and> seen (insert t V) bl' s' \<and> offenders bl' s' = A \<union> offenders bl s"
proof -
  have r: "records_ok s bl" and sl: "\<And>i. i \<in> set bl \<Longrightarrow> \<not> bt_slipping (bt s i)" using w by (simp_all add: wd_ready_def)
  let ?b = "find (\<lambda>i. bt_task (bt s i) = t) bl"
  have f: "find_bad_task t s = Some ?b" using r find_bad_task_eq by (simp add: records_ok_def)
  let ?s1 = "case ?b of None \<Rightarrow> s | Some i \<Rightarrow> upd_bt i (\<lambda>r. r\<lparr>bt_valid := True\<rparr>) s"
  have s1: "wker ?s1 = wker s" "records_ok ?s1 bl" "\<And>i. bt_slipping (bt ?s1 i) = bt_slipping (bt s i)"
    "\<And>i. bt_task (bt ?s1 i) = bt_task (bt s i)" "bad_tl ?s1 = bad_tl s" "Policy ?s1 = Policy s"
    "Grace ?s1 = Grace s" "GraceDiv ?s1 = GraceDiv s"
    using r by (auto split: option.splits intro: records_ok_upd)
  have w1: "wd_ready (Suc m) bl rq tq ?s1" using w s1 by (simp add: wd_ready_def)
  have f1: "find_bad_task t ?s1 = Some ?b" using s1(2,4) find_bad_task_eq [of ?s1 bl t] by (simp add: records_ok_def)
  have v1: "seen (insert t V) bl ?s1"
  proof (cases ?b)
    case None
    then have "\<forall>j \<in> set bl. bt_task (bt s j) \<noteq> t" by (simp add: find_None_iff)
    then show ?thesis unfolding None using v by (auto simp: seen_def)
  next
    case (Some i)
    then have "i \<in> set bl" "bt_task (bt s i) = t" using find_Some_iff [of _ bl i] by auto
    moreover have "inj_on (\<lambda>i. bt_task (bt s i)) (set bl)" using r by (simp add: records_ok_def)
    ultimately show ?thesis using Some v by (auto simp: seen_def inj_on_def)
  qed
  have o1: "offenders bl ?s1 = offenders bl s" using s1(4) by (simp add: offenders_def)
  have e1: "wd_stopped {} s ?s1"
    using stopped_none [of "wker s"] by (auto simp: wd_stopped_def upd_bt_def split: option.splits)
  have ov: "wd_overdue now t ?s1 = wd_overdue now t s" by (rule wd_overdue_stopped [OF e1]) simp
  have ns: "(case ?b of None \<Rightarrow> False | Some i \<Rightarrow> bt_slipping (bt ?s1 i)) = False"
    using sl s1(3) find_Some_iff [of "\<lambda>i. bt_task (bt s i) = t" bl] by (auto split: option.splits)
  have c: "wd_check n now t s = (if wd_overdue now t s then handle_badtask n t ?b (now - resume_time (wker s) t) ?s1 else Ret () ?s1)"
    unfolding wd_check_def f lift_opt_simps Let_def ns ov s1(1) using t(1) by simp
  show ?thesis
  proof (cases "wd_overdue now t s")
    case False
    moreover have "wd_ready m bl rq tq ?s1" using w1 by (simp add: wd_ready_def)
    ultimately show ?thesis using e1 o1 c v1 unfolding A_def by (intro exI [of _ ?s1] exI [of _ bl]) simp
  next
    case True
    then have k: "live (wker ?s1) t" "0 \<le> priority (wker ?s1) t" "suspdepth (wker ?s1) t = 0" "owndres (wker ?s1) t = 0"
      "t \<noteq> rt_current (wker ?s1)" using t(2) s1(1) by (auto simp: stoppable_def)
    obtain s' bl' where h: "handle_badtask n t ?b (now - resume_time (wker s) t) ?s1 = Ret () s'"
      "wd_ready m bl' (remove1 t rq) tq s'" "wd_stopped {t} ?s1 s'" "offenders bl' s' = insert t (offenders bl ?s1)"
      "seen (insert t V) bl' s'"
      using handle_suspends [OF w1 k f1 v1] by blast
    have "distinct rq" using w sched_invD(2) by (auto simp: wd_ready_def ready_list_def ring_def)
    then have rm: "remove1 t rq = filter (\<lambda>x. x \<notin> {t}) rq" by (simp add: distinct_remove1_removeAll removeAll_filter_not_eq eq_commute)
    have "wd_stopped {t} s s'" using wd_stopped_trans [OF e1 h(3)] by simp
    then show ?thesis using True h c o1 rm unfolding A_def by (intro exI [of _ s'] exI [of _ bl']) simp
  qed
qed


lemma wd_tasks_chain:
  assumes "chain (tsk_next (wker s)) a ts" "distinct ts" "wd_ready (length ts) bl rq tq s"
    and "\<forall>t \<in> set ts. t \<noteq> wdog s \<longrightarrow> wd_overdue now t s \<longrightarrow> stoppable (wker s) t" and "seen V bl s"
  shows "\<exists>s' bl'. wd_tasks (Suc (length ts)) n now a s = Ret () s' \<and> seen (V \<union> (set ts - {wdog s})) bl' s'
     \<and> wd_ready 0 bl' (filter (\<lambda>t. t \<notin> {t \<in> set ts. t \<noteq> wdog s \<and> wd_overdue now t s}) rq) tq s'
     \<and> wd_stopped {t \<in> set ts. t \<noteq> wdog s \<and> wd_overdue now t s} s s'
     \<and> offenders bl' s' = {t \<in> set ts. t \<noteq> wdog s \<and> wd_overdue now t s} \<union> offenders bl s"
  using assms
proof (induction ts arbitrary: a bl rq s V)
  case Nil
  then show ?case using stopped_none [of "wker s"] by (intro exI [of _ s] exI [of _ bl]) (simp add: wd_stopped_def)
next
  case (Cons t ts)
  let ?A = "if t \<noteq> wdog s \<and> wd_overdue now t s then {t} else {}"
  let ?B = "{t \<in> set ts. t \<noteq> wdog s \<and> wd_overdue now t s}"
  let ?V = "if t = wdog s then V else insert t V"
  have "\<exists>s1 bl1. wd_check n now t s = Ret () s1 \<and> wd_ready (length ts) bl1 (filter (\<lambda>x. x \<notin> ?A) rq) tq s1
      \<and> wd_stopped ?A s s1 \<and> seen ?V bl1 s1 \<and> offenders bl1 s1 = ?A \<union> offenders bl s"
  proof (cases "t = wdog s")
    case True
    then show ?thesis using Cons.prems(3,5) stopped_none [of "wker s"]
      by (intro exI [of _ s] exI [of _ bl]) (simp add: wd_check_def wd_stopped_def wd_ready_def)
  next
    case False
    then show ?thesis using check_suspends [of "length ts" bl rq tq s t now V n] Cons.prems(3,4,5) by simp
  qed
  then obtain s1 bl1 where s1: "wd_check n now t s = Ret () s1" "wd_ready (length ts) bl1 (filter (\<lambda>x. x \<notin> ?A) rq) tq s1"
    "wd_stopped ?A s s1" "offenders bl1 s1 = ?A \<union> offenders bl s" "seen ?V bl1 s1" by blast
  have k: "stopped ?A (wker s) (wker s1)" using s1(3) by (simp only: wd_stopped_def)
  have "s1 = s\<lparr>bad_tl := bad_tl s1, bad_task_pool := bt s1, wker := wker s1\<rparr>" using s1(3) by (simp only: wd_stopped_def)
  then have wd: "wdog s1 = wdog s" by (metis wdst.select_convs(11) wdst.surjective wdst.update_convs(9,10,12))
  have tn: "t \<notin> set ts" using Cons.prems(2) by simp
  have ov: "\<And>x. x \<in> set ts \<Longrightarrow> wd_overdue now x s1 = wd_overdue now x s"
    using wd_overdue_stopped [OF s1(3)] tn by (metis empty_iff singletonD)
  have sb: "\<forall>x \<in> set ts. x \<noteq> wdog s1 \<longrightarrow> wd_overdue now x s1 \<longrightarrow> stoppable (wker s1) x"
    using Cons.prems(4) tn ov unfolding wd by (auto simp: stoppable_def stopped_fields [OF k])
  have ch: "chain (tsk_next (wker s1)) t ts" "distinct ts" using Cons.prems(1,2) stopped_fields(4) [OF k] by simp_all
  have B: "{t \<in> set ts. t \<noteq> wdog s1 \<and> wd_overdue now t s1} = ?B" using ov wd by auto
  have U: "{x \<in> set (t # ts). x \<noteq> wdog s \<and> wd_overdue now x s} = ?A \<union> ?B" using tn by auto
  obtain s' bl' where s': "wd_tasks (Suc (length ts)) n now t s1 = Ret () s'"
    "wd_ready 0 bl' (filter (\<lambda>x. x \<notin> ?B) (filter (\<lambda>x. x \<notin> ?A) rq)) tq s'" "wd_stopped ?B s1 s'"
    "offenders bl' s' = ?B \<union> offenders bl1 s1" "seen (?V \<union> (set ts - {wdog s1})) bl' s'"
    using Cons.IH [OF ch s1(2) sb s1(5)] unfolding B by blast
  have r: "wd_tasks (Suc (length (t # ts))) n now a s = Ret () s'" using Cons.prems(1) s1(1) s'(1) by simp
  have q: "filter (\<lambda>x. x \<notin> ?B) (filter (\<lambda>x. x \<notin> ?A) rq) = filter (\<lambda>x. x \<notin> ?A \<union> ?B) rq"
    unfolding filter_filter by (rule filter_cong) auto
  have o: "offenders bl' s' = ?A \<union> ?B \<union> offenders bl s" using s'(4) s1(4) by blast
  have v: "seen (V \<union> (set (t # ts) - {wdog s})) bl' s'" using s'(5) unfolding wd by (auto simp: seen_def split: if_splits)
  show ?case unfolding U by (rule exI [of _ s'], rule exI [of _ bl'], intro conjI, rule r, rule v,
    rule s'(2) [unfolded q], rule wd_stopped_trans [OF s1(3) s'(3)], rule o)
qed

text \<open>Before the look the records are marked invalid, after it those that are still invalid are removed.\<close>

lemma same_valid: "\<exists>v. b = b\<lparr>bt_valid := v\<rparr>"
  by (rule exI [of _ "bt_valid b"]) simp

lemma invalidate_chain:
  "chain (nxt s) i js \<Longrightarrow> \<exists>p. invalidate (Some i) s = Some (s\<lparr>bad_task_pool := p\<rparr>)
     \<and> (\<forall>j. \<exists>v. p j = (bt s j)\<lparr>bt_valid := v\<rparr>)"
proof (induction js arbitrary: i s)
  case Nil
  let ?p = "(bt s)(i := (bt s i)\<lparr>bt_valid := False\<rparr>)"
  have "invalidate (Some i) s = Some (s\<lparr>bad_task_pool := ?p\<rparr>)"
    using Nil by (simp add: invalidate.simps upd_bt_def)
  moreover have "\<forall>j. \<exists>v. ?p j = (bt s j)\<lparr>bt_valid := v\<rparr>" by (auto simp: same_valid intro: exI [of _ False])
  ultimately show ?case by blast
next
  case (Cons j js)
  let ?s = "upd_bt i (\<lambda>r. r\<lparr>bt_valid := False\<rparr>) s"
  have n: "nxt ?s = nxt s" by (simp add: fun_eq_iff)
  obtain p where p: "invalidate (Some j) ?s = Some (?s\<lparr>bad_task_pool := p\<rparr>)" "\<forall>k. \<exists>v. p k = (bt ?s k)\<lparr>bt_valid := v\<rparr>"
    using Cons.IH [of ?s j] Cons.prems n by auto
  have "invalidate (Some i) s = invalidate (Some j) ?s" using Cons.prems by (subst invalidate.simps) simp
  then have "invalidate (Some i) s = Some (s\<lparr>bad_task_pool := p\<rparr>)" unfolding p(1) by (simp add: upd_bt_def)
  moreover have "\<forall>k. \<exists>v. p k = (bt s k)\<lparr>bt_valid := v\<rparr>"
  proof
    fix k
    obtain v where "p k = (bt ?s k)\<lparr>bt_valid := v\<rparr>" using p(2) by blast
    then show "\<exists>v. p k = (bt s k)\<lparr>bt_valid := v\<rparr>" by (cases "k = i") auto
  qed
  ultimately show ?case by blast
qed

lemma invalidate_ok:
  assumes w: "wd_ready m bl rq tq s"
  shows "\<exists>s'. invalidate (bad_tl s) s = Some s' \<and> wd_ready m bl rq tq s' \<and> wd_stopped {} s s' \<and> wdog s' = wdog s
     \<and> wker s' = wker s \<and> offenders bl s' = offenders bl s"
proof -
  have l: "bad_list s bl" using w by (simp add: wd_ready_def records_ok_def)
  obtain p where p: "invalidate (bad_tl s) s = Some (s\<lparr>bad_task_pool := p\<rparr>)" "\<forall>j. \<exists>v. p j = (bt s j)\<lparr>bt_valid := v\<rparr>"
  proof (cases bl)
    case Nil
    then have "bad_tl s = None" using l by (simp add: bad_list_def)
    then have "invalidate (bad_tl s) s = Some (s\<lparr>bad_task_pool := bt s\<rparr>)" by (simp add: invalidate.simps)
    moreover have "\<forall>j. \<exists>v. bt s j = (bt s j)\<lparr>bt_valid := v\<rparr>" by (simp add: same_valid)
    ultimately show ?thesis using that by blast
  next
    case (Cons i js)
    then show ?thesis using l invalidate_chain [of s i js] that by (auto simp: bad_list_def)
  qed
  let ?s = "s\<lparr>bad_task_pool := p\<rparr>"
  have f: "bt_task (p j) = bt_task (bt s j) \<and> bt_in_use (p j) = bt_in_use (bt s j) \<and> bt_slipping (p j) = bt_slipping (bt s j)
      \<and> bt_next (p j) = nxt s j" for j
  proof -
    obtain v where "p j = (bt s j)\<lparr>bt_valid := v\<rparr>" using p(2) by blast
    then show ?thesis by simp
  qed
  have n: "nxt ?s = nxt s" "(\<lambda>j. bt_task (bt ?s j)) = (\<lambda>j. bt_task (bt s j))" using f by (simp_all add: fun_eq_iff)
  have b: "bad_list ?s bl" using l unfolding bad_list_def n(1) by (cases bl) simp_all
  have "records_ok ?s bl" using w b f unfolding wd_ready_def records_ok_def n(2) by simp
  then have "wd_ready m bl rq tq ?s" using w f by (simp add: wd_ready_def)
  moreover have "wd_stopped {} s ?s" using stopped_none [of "wker s"] by (simp add: wd_stopped_def)
  ultimately show ?thesis using p(1) f by (intro exI [of _ ?s]) (simp add: offenders_def)
qed

lemma wd_clean_chain:
  "chain (nxt s) i js \<Longrightarrow> \<forall>j \<in> set (i # js). bt_valid (bt s j) \<Longrightarrow> wd_clean (Some i) s = Some s"
  by (induction js arbitrary: i) (simp_all add: wd_clean.simps)

lemma wd_clean_valid: "bad_list s bl \<Longrightarrow> \<forall>j \<in> set bl. bt_valid (bt s j) \<Longrightarrow> wd_clean (bad_tl s) s = Some s"
  using wd_clean_chain [of s "hd bl" "tl bl"] by (cases bl) (auto simp: bad_list_def wd_clean.simps [of None])

lemma rt_get_time_frame: "snd (rt_get_time k) = k\<lparr>tsc_reads := tsc_reads (snd (rt_get_time k))\<rparr>"
  by (simp add: rt_get_time_def rdtsc_def)

text \<open>The whole round of the watchdog, when it is in time itself: exactly the tasks of the list that are overdue are
  suspended, the others stay as they are and keep their places in the ready list; each offender has a record; and the
  watchdog goes to wait for its next period.\<close>


section \<open>Registration\<close>

lemma highest_loop_chain:
  "chain (tsk_next k) a ts \<Longrightarrow> highest_loop k wd a = Some (\<exists>t \<in> set ts. t \<noteq> wd \<and> priority k t = 0)"
proof (induction ts arbitrary: a)
  case Nil
  then show ?case by (subst highest_loop.simps) simp
next
  case (Cons t ts)
  then show ?case by (subst highest_loop.simps) auto
qed

lemma rt_register_watchdog_ok:
  "task_list k ts \<Longrightarrow> rt_register_watchdog wd k =
     (if wdog_task k \<noteq> None \<or> (\<exists>t \<in> set ts. t \<noteq> wd \<and> priority k t = 0) then Some (- EBUSY, k)
      else Some (0, k\<lparr>wdog_task := Some wd\<rparr>))"
  using highest_loop_chain [of k LINUX ts wd] by (simp add: rt_register_watchdog_def task_list_def)

end
