(* ===== verification/Example_Watchdog.thy ===== *)
theory Example_Watchdog
  imports Example_State Watchdog_Props
begin

text \<open>
  A watchdog, task 1, with the policy \<open>SUSPEND\<close> and three periods of grace: task 2 has overrun its period of 300 by far,
  task 4 has a record from before.  The state is \<open>kern\<close> with a longer period for the watchdog and no owned resource.
\<close>

definition kern_wd :: kst where
  "kern_wd = kern\<lparr>period := (\<lambda>_. 0)(1 := 4000, 2 := 300), owndres := \<lambda>_. 0\<rparr>"

definition no_record :: bad_rt_task where
  "no_record = \<lparr>bt_task = 0, bt_in_use = False, bt_slipping = False, bt_countdown = 0, bt_count = 0, bt_valid = False,
     bt_forced = False, bt_orig_period = 0, bt_policy = 0, bt_next = None\<rparr>"

definition wd_state :: wdst where
  "wd_state = \<lparr>Grace = 3, GraceDiv = 1, Safety = 100, Policy = SUSPEND, Stretch = 10, Slip = 10, Limit = 100,
     TickPeriod = 10000000, bad_task_pool = (\<lambda>_. no_record)(0 := no_record\<lparr>bt_task := 4, bt_in_use := True\<rparr>),
     bad_tl = Some 0, wdog = 1, wker = kern_wd\<rparr>"

lemma wd_state_fields [simp]:
  "wker wd_state = kern_wd" "wdog wd_state = 1" "Policy wd_state = SUSPEND" "Grace wd_state = 3" "GraceDiv wd_state = 1"
  "bad_tl wd_state = Some 0" "bt wd_state = (\<lambda>_. no_record)(0 := no_record\<lparr>bt_task := 4, bt_in_use := True\<rparr>)"
  by (simp_all add: wd_state_def)

lemma kern_wd_fields [simp]:
  "rt_current kern_wd = 1" "period kern_wd = (\<lambda>_. 0)(1 := 4000, 2 := 300)" "resume_time kern_wd = resume_time kern"
  "state kern_wd = state kern" "priority kern_wd = priority kern" "suspdepth kern_wd = suspdepth kern"
  "owndres kern_wd = (\<lambda>_. 0)" "live kern_wd = live kern" "resync_frame kern_wd = (\<lambda>_. False)"
  by (simp_all add: kern_wd_def live_def fun_eq_iff)

lemma wd_state_ready: "wd_ready 5 [0] [1, 2] [3] wd_state" "task_list kern_wd [1, 2, 3, 4, 5]"
proof -
  have "sched_inv kern_wd [1, 2] [3]"
    by (rule same_sched_inv [OF _ kern_inv]) (simp add: same_sched_def kern_wd_def)
  moreover have "records_ok wd_state [0]" by (simp add: records_ok_def bad_list_def no_record_def)
  ultimately show "wd_ready 5 [0] [1, 2] [3] wd_state" by (simp add: wd_ready_def no_record_def)
  show "task_list kern_wd [1, 2, 3, 4, 5]" using kern_tasks by (simp add: task_list_def kern_wd_def live_def)
qed


lemma overdue_wd: "t \<in> set [1, 2, 3, 4, 5] \<Longrightarrow> t \<noteq> 1 \<Longrightarrow> wd_overdue 2000 t wd_state \<longleftrightarrow> t = 2"
proof -
  assume t: "t \<in> set [1, 2, 3, 4, 5]" "t \<noteq> 1"
  have l: "llimd 300 3 1 = 900" by code_simp
  have r: "READY AND WD_IGNORED = 0" by code_simp
  show ?thesis
  proof (cases "t = 2")
    case True
    then show ?thesis using l r by (simp add: wd_overdue_def Let_def)
  next
    case False
    then have "period kern_wd t = 0" using t by simp
    then show ?thesis using False by (simp add: wd_overdue_def Let_def)
  qed
qed


end
