(* ===== verification/Pthread_Sync.thy ===== *)
theory Pthread_Sync
  imports Semaphores
begin

text \<open>
  The mutexes and condition variables of \<^verbatim>\<open>posix/src/rtai_pthread.c\<close>.  A \<^verbatim>\<open>pthread_mutex_t\<close> contains a semaphore, a
  \<^verbatim>\<open>pthread_cond_t\<close> is one: both are known by the number of that semaphore in the scheduler's state \<open>ptker\<close>, whose
  queue is \<open>SemQ x\<close>.  The static initialisers leave the links of the queue NULL, \<open>q_raw\<close>.  The calls return the error
  numbers as such, without a sign.  \<^verbatim>\<open>LXRT_SUSPEND\<close> calls \<^verbatim>\<open>rt_schedule\<close>.
\<close>

section \<open>Data\<close>

abbreviation PTHREAD_MUTEX_FAST_NP :: int where "PTHREAD_MUTEX_FAST_NP \<equiv> 0"
abbreviation PTHREAD_MUTEX_RECURSIVE_NP :: int where "PTHREAD_MUTEX_RECURSIVE_NP \<equiv> 1"
abbreviation PTHREAD_MUTEX_ERRORCHECK_NP :: int where "PTHREAD_MUTEX_ERRORCHECK_NP \<equiv> 2"
abbreviation ETIMEDOUT :: int where "ETIMEDOUT \<equiv> 110"
abbreviation EPERM :: int where "EPERM \<equiv> 1"

record pmutex =
  m_owner :: "tid option"
  m_kind :: int

record pth =
  pmutexes :: "semid \<Rightarrow> pmutex"
  q_raw :: "semid \<Rightarrow> bool"
  ptker :: kst

type_synonym 'a ptres = "(pth, 'a) sres"

abbreviation in_ptker :: "(kst, 'a) sres \<Rightarrow> pth \<Rightarrow> 'a ptres" where
  "in_ptker \<equiv> lift_res ptker (\<lambda>k s. s\<lparr>ptker := k\<rparr>)"

definition upd_pm :: "semid \<Rightarrow> (pmutex \<Rightarrow> pmutex) \<Rightarrow> pth \<Rightarrow> pth" where
  "upd_pm x f s = s\<lparr>pmutexes := (pmutexes s)(x := f (pmutexes s x))\<rparr>"

definition upd_ptsem :: "semid \<Rightarrow> (sem \<Rightarrow> sem) \<Rightarrow> pth \<Rightarrow> pth" where
  "upd_ptsem x f s = s\<lparr>ptker := upd_sem x f (ptker s)\<rparr>"

abbreviation ptsem :: "pth \<Rightarrow> semid \<Rightarrow> sem" where "ptsem s x \<equiv> sems (ptker s) x"

abbreviation self :: "pth \<Rightarrow> tid" where "self s \<equiv> rt_current (ptker s)"

section \<open>Queues\<close>

definition empty_queue :: "semid \<Rightarrow> pth \<Rightarrow> pth" where
  "empty_queue x s =
     s\<lparr>q_raw := (q_raw s)(x := False),
       ptker := (ptker s)\<lparr>qnext := (qnext (ptker s))(SemQ x := SemQ x), qprev := (qprev (ptker s))(SemQ x := SemQ x)\<rparr>\<rparr>"

definition checked_queue :: "semid \<Rightarrow> pth \<Rightarrow> pth" where
  "checked_queue x s = (if q_raw s x then empty_queue x s else s)"

definition priority_enqueue_task :: "semid \<Rightarrow> pth \<Rightarrow> pth option" where
  "priority_enqueue_task x s =
     (let s1 = checked_queue x s; k = ptker s1; cur = rt_current k in do {
        q \<leftarrow> blocked_pos k (SemQ x) (priority k cur) (qnext k (SemQ x));
        Some (s1\<lparr>ptker := link_queue (TaskQ cur) q k\<rparr>)
      })"

definition cond_enqueue_task :: "semid \<Rightarrow> pth \<Rightarrow> pth" where
  "cond_enqueue_task x s =
     (let s1 = checked_queue x s in s1\<lparr>ptker := link_queue (TaskQ (self s1)) (SemQ x) (ptker s1)\<rparr>)"

definition mutex_inherit_prio :: "semid \<Rightarrow> pth \<Rightarrow> pth option" where
  "mutex_inherit_prio x s =
     (case m_owner (pmutexes s x) of
        None \<Rightarrow> None
      | Some t \<Rightarrow>
          let k = ptker s; cur = rt_current k in
          Some (if priority k t > priority k cur then s\<lparr>ptker := k\<lparr>priority := (priority k)(t := priority k cur)\<rparr>\<rparr> else s))"

text \<open>The first task of a queue leaves it and, when it waits for nothing else, becomes ready; the flag tells so.  The code
  is repeated in the calls that release a task.  \<^verbatim>\<open>DELAYED\<close> is cleared before \<^verbatim>\<open>rt_rem_timed_task\<close> tests it.\<close>

definition pt_wake_first :: "semid \<Rightarrow> pth \<Rightarrow> (bool \<times> pth) option" where
  "pt_wake_first x s =
     (let k = ptker s in
      case qtask k (qnext k (SemQ x)) of
        NULL \<Rightarrow> Some (False, s)
      | Num n \<Rightarrow> None
      | Task t \<Rightarrow>
          let k1 = and_not_state t (SEMAPHORE OR DELAYED) (k\<lparr>blocked_on := (blocked_on k)(t := None)\<rparr>);
              k2 = rem_timed_task t (unlink_queue (TaskQ t) k1) in
          if state k2 t = READY
          then do { k3 \<leftarrow> enq_ready_task t k2; Some (True, s\<lparr>ptker := k3\<rparr>) }
          else Some (False, s\<lparr>ptker := k2\<rparr>))"

definition pt_schedule :: "nat \<Rightarrow> pth \<Rightarrow> unit ptres" where
  "pt_schedule n s = in_ptker (rt_schedule n (ptker s)) s"

section \<open>Mutexes\<close>

definition pt_sem_init :: "semid \<Rightarrow> pth \<Rightarrow> pth" where
  "pt_sem_init x s =
     (let s1 = empty_queue x (upd_ptsem x (\<lambda>e. e\<lparr>sem_magic := RT_SEM_MAGIC, sem_count := 1, sem_type := BIN_SEM,
         owndby := NULL, qtype := FIFO_Q\<rparr>) s) in
      s1\<lparr>ptker := (ptker s1)\<lparr>qtask := (qtask (ptker s1))(SemQ x := NULL)\<rparr>\<rparr>)"

definition pthread_mutex_init :: "semid \<Rightarrow> int option \<Rightarrow> pth \<Rightarrow> int \<times> pth" where
  "pthread_mutex_init x attr s =
     (0, pt_sem_init x (upd_pm x (\<lambda>m. m\<lparr>m_owner := None, m_kind := (case attr of None \<Rightarrow> PTHREAD_MUTEX_FAST_NP | Some kd \<Rightarrow> kd)\<rparr>) s))"

text \<open>What \<^verbatim>\<open>PTHREAD_MUTEX_INITIALIZER\<close>, the other two and \<^verbatim>\<open>PTHREAD_COND_INITIALIZER\<close> leave.\<close>

definition PTHREAD_SEM_INITIALIZER :: "semid \<Rightarrow> pth \<Rightarrow> pth" where
  "PTHREAD_SEM_INITIALIZER x s = (let s1 = pt_sem_init x s in s1\<lparr>q_raw := (q_raw s1)(x := True)\<rparr>)"

definition PTHREAD_MUTEX_INITIALIZER :: "semid \<Rightarrow> int \<Rightarrow> pth \<Rightarrow> pth" where
  "PTHREAD_MUTEX_INITIALIZER x kd s = PTHREAD_SEM_INITIALIZER x (upd_pm x (\<lambda>m. m\<lparr>m_owner := None, m_kind := kd\<rparr>) s)"

partial_function (option) destroy_loop :: "qnode \<Rightarrow> qnode \<Rightarrow> kst \<Rightarrow> kst option" where
  "destroy_loop head q k =
     (if q = head then Some k
      else (case qtask k q of
              Task t \<Rightarrow> destroy_loop head (qnext k q) (and_not_state t (SEMAPHORE OR DELAYED) k)
            | NULL \<Rightarrow> None
            | Num n \<Rightarrow> None))"

declare destroy_loop.simps [code]

definition pthread_mutex_destroy :: "semid \<Rightarrow> pth \<Rightarrow> (int \<times> pth) option" where
  "pthread_mutex_destroy x s =
     (if sem_magic (ptsem s x) \<noteq> RT_SEM_MAGIC then Some (EINVAL, s)
      else if sem_count (ptsem s x) < 1 then Some (EBUSY, s)
      else if q_raw s x then None
      else let s1 = upd_ptsem x (\<lambda>e. e\<lparr>sem_magic := 0\<rparr>) s in do {
        k \<leftarrow> destroy_loop (SemQ x) (qnext (ptker s1) (SemQ x)) (ptker s1);
        Some (0, s1\<lparr>ptker := k\<rparr>)
      })"

text \<open>\<^verbatim>\<open>pthread_mutexattr_t\<close> holds the kind only.\<close>

definition pthread_mutexattr_init :: "int \<times> int" where
  "pthread_mutexattr_init = (0, PTHREAD_MUTEX_FAST_NP)"

definition pthread_mutexattr_setkind_np :: "int \<Rightarrow> int \<Rightarrow> int \<times> int" where
  "pthread_mutexattr_setkind_np kd attr =
     (if kd \<noteq> PTHREAD_MUTEX_FAST_NP \<and> kd \<noteq> PTHREAD_MUTEX_RECURSIVE_NP \<and> kd \<noteq> PTHREAD_MUTEX_ERRORCHECK_NP
      then (EINVAL, attr) else (0, kd))"

definition pthread_mutexattr_getkind_np :: "int \<Rightarrow> int \<times> int" where
  "pthread_mutexattr_getkind_np attr = (0, attr)"

definition pm_own :: "tid \<Rightarrow> semid \<Rightarrow> int \<Rightarrow> pth \<Rightarrow> pth" where
  "pm_own t x n s = upd_ptsem x (\<lambda>e. e\<lparr>sem_count := n, owndby := Task t\<rparr>) (upd_pm x (\<lambda>m. m\<lparr>m_owner := Some t\<rparr>) s)"

definition pthread_mutex_trylock :: "semid \<Rightarrow> pth \<Rightarrow> int \<times> pth" where
  "pthread_mutex_trylock x s =
     (let cur = self s; kd = m_kind (pmutexes s x); c = sem_count (ptsem s x) in
      if sem_magic (ptsem s x) \<noteq> RT_SEM_MAGIC then (EINVAL, s)
      else if kd = PTHREAD_MUTEX_FAST_NP then (if c > 0 then (0, pm_own cur x 0 s) else (EBUSY, s))
      else if kd = PTHREAD_MUTEX_RECURSIVE_NP then
        (if c = 0 \<or> m_owner (pmutexes s x) = Some cur then (0, pm_own cur x (c - 1) s) else (EBUSY, s))
      else if kd = PTHREAD_MUTEX_ERRORCHECK_NP then (if c > 0 then (0, pm_own cur x 0 s) else (EBUSY, s))
      else (EINVAL, s))"

text \<open>The wait for a mutex.  For the kind \<^verbatim>\<open>PTHREAD_MUTEX_ERRORCHECK_NP\<close> the code sets \<^verbatim>\<open>blocked_on\<close> before the removal
  from the ready list, which does not touch it.\<close>

definition pm_enter_queue :: "semid \<Rightarrow> pth \<Rightarrow> pth option" where
  "pm_enter_queue x s =
     (let cur = self s in do {
        k \<leftarrow> rem_ready_current cur (or_state cur SEMAPHORE (ptker s));
        s1 \<leftarrow> priority_enqueue_task x (s\<lparr>ptker := k\<lparr>blocked_on := (blocked_on k)(cur := Some (SemQ x))\<rparr>\<rparr>);
        mutex_inherit_prio x s1
      })"

definition pm_woken :: "tid \<Rightarrow> semid \<Rightarrow> pth \<Rightarrow> int ptres" where
  "pm_woken cur x s =
     (if blocked_on (ptker s) cur \<noteq> None \<or> sem_magic (ptsem s x) \<noteq> RT_SEM_MAGIC then Ret EINVAL s
      else Ret 0 (pm_own cur x 0 s))"

definition pm_wait :: "nat \<Rightarrow> semid \<Rightarrow> pth \<Rightarrow> int ptres" where
  "pm_wait n x s = lift_opt (pm_enter_queue x s) (\<lambda>s1. res_bind (pt_schedule n s1) (\<lambda>_. pm_woken (self s) x))"

definition pthread_mutex_lock :: "nat \<Rightarrow> semid \<Rightarrow> pth \<Rightarrow> int ptres" where
  "pthread_mutex_lock n x s =
     (let cur = self s; kd = m_kind (pmutexes s x); c = sem_count (ptsem s x) in
      if sem_magic (ptsem s x) \<noteq> RT_SEM_MAGIC then Ret EINVAL s
      else if kd = PTHREAD_MUTEX_FAST_NP then (if c > 0 then Ret 0 (pm_own cur x 0 s) else pm_wait n x s)
      else if kd = PTHREAD_MUTEX_RECURSIVE_NP then
        (if c = 0 \<or> m_owner (pmutexes s x) = Some cur then Ret 0 (pm_own cur x (c - 1) s) else pm_wait n x s)
      else if kd = PTHREAD_MUTEX_ERRORCHECK_NP then (if c > 0 then Ret 0 (pm_own cur x 0 s) else pm_wait n x s)
      else Ret EINVAL s)"

text \<open>The mutex is free again; the priority that its owner has inherited is given back.\<close>

definition pm_free :: "semid \<Rightarrow> pth \<Rightarrow> pth" where
  "pm_free x s =
     (let s1 = upd_ptsem x (\<lambda>e. e\<lparr>sem_count := 1\<rparr>) (upd_pm x (\<lambda>m. m\<lparr>m_owner := None\<rparr>) s); k = ptker s1; cur = rt_current k in
      s1\<lparr>ptker := k\<lparr>priority := (priority k)(cur := base_priority k cur)\<rparr>\<rparr>)"

definition pm_hand_over :: "nat \<Rightarrow> semid \<Rightarrow> pth \<Rightarrow> int ptres" where
  "pm_hand_over n x s =
     (if q_raw s x then Ret 0 s
      else lift_opt (pt_wake_first x s) (\<lambda>(b, s1). if b then res_bind (pt_schedule n s1) (\<lambda>_. Ret 0) else Ret 0 s1))"

definition pthread_mutex_unlock :: "nat \<Rightarrow> semid \<Rightarrow> pth \<Rightarrow> int ptres" where
  "pthread_mutex_unlock n x s =
     (let cur = self s; kd = m_kind (pmutexes s x); c = sem_count (ptsem s x) in
      if sem_magic (ptsem s x) \<noteq> RT_SEM_MAGIC \<or> m_owner (pmutexes s x) \<noteq> Some cur then Ret EINVAL s
      else if kd = PTHREAD_MUTEX_FAST_NP then pm_hand_over n x (upd_ptsem x (\<lambda>e. e\<lparr>owndby := NULL\<rparr>) (pm_free x s))
      else if kd = PTHREAD_MUTEX_RECURSIVE_NP then
        (if c + 1 \<le> 0 then Ret 0 (upd_ptsem x (\<lambda>e. e\<lparr>sem_count := c + 1\<rparr>) s) else pm_hand_over n x (pm_free x s))
      else if kd = PTHREAD_MUTEX_ERRORCHECK_NP then (if c = 1 then Ret EPERM s else pm_hand_over n x (pm_free x s))
      else Ret EINVAL s)"

section \<open>Condition variables\<close>

definition pthread_cond_init :: "semid \<Rightarrow> pth \<Rightarrow> int \<times> pth" where
  "pthread_cond_init c s = (0, pt_sem_init c s)"

definition pthread_cond_destroy :: "semid \<Rightarrow> pth \<Rightarrow> int \<times> pth" where
  "pthread_cond_destroy c s =
     (if q_raw s c \<or> qnext (ptker s) (SemQ c) \<noteq> SemQ c \<and> qprev (ptker s) (SemQ c) \<noteq> SemQ c then (EBUSY, s)
      else (0, upd_ptsem c (\<lambda>e. e\<lparr>sem_magic := 0\<rparr>) s))"

definition pthread_cond_wait :: "nat \<Rightarrow> semid \<Rightarrow> semid \<Rightarrow> pth \<Rightarrow> int ptres" where
  "pthread_cond_wait n c x s =
     (let cur = self s in
      lift_opt (rem_ready_current cur (or_state cur SEMAPHORE (ptker s))) (\<lambda>k.
        let s1 = cond_enqueue_task c (s\<lparr>ptker := k\<lparr>blocked_on := (blocked_on k)(cur := Some (SemQ c))\<rparr>\<rparr>) in
        res_bind (pthread_mutex_unlock n x s1) (\<lambda>_ s2.
          res_bind (pt_schedule n s2) (\<lambda>_ s3.
            res_bind (pthread_mutex_lock n x s3) (\<lambda>_. Ret 0)))))"

text \<open>The end of a wait with a time limit: a task that is still in the queue leaves it.\<close>

definition cond_timed_out :: "tid \<Rightarrow> pth \<Rightarrow> bool \<times> pth" where
  "cond_timed_out cur s =
     (let k = ptker s in
      if blocked_on k cur \<noteq> None
      then (True, s\<lparr>ptker := dequeue_blocked cur (k\<lparr>blocked_on := (blocked_on k)(cur := None)\<rparr>)\<rparr>)
      else (False, s))"

definition pthread_cond_timedwait :: "nat \<Rightarrow> semid \<Rightarrow> semid \<Rightarrow> int \<Rightarrow> int \<Rightarrow> pth \<Rightarrow> int ptres" where
  "pthread_cond_timedwait n c x sec nsec s =
     (let cur = self s; time = nano2count (ptker s) (1000000000 * sec + nsec);
          k0 = (ptker s)\<lparr>resume_time := (resume_time (ptker s))(cur := time)\<rparr> in
      lift_opt (do {
        k \<leftarrow> rem_ready_current cur (or_state cur (SEMAPHORE OR DELAYED) k0);
        let s1 = cond_enqueue_task c (s\<lparr>ptker := k\<lparr>blocked_on := (blocked_on k)(cur := Some (SemQ c))\<rparr>\<rparr>);
        k1 \<leftarrow> enq_timed_task cur (ptker s1);
        Some (s1\<lparr>ptker := k1\<rparr>)
      }) (\<lambda>s2.
        res_bind (pthread_mutex_unlock n x s2) (\<lambda>_ s3.
          res_bind (pt_schedule n s3) (\<lambda>_ s4.
            let (out, s5) = cond_timed_out cur s4 in
            res_bind (pthread_mutex_lock n x s5) (\<lambda>_. Ret (if out then ETIMEDOUT else 0))))))"

definition pthread_cond_signal :: "nat \<Rightarrow> semid \<Rightarrow> pth \<Rightarrow> int ptres" where
  "pthread_cond_signal n c s =
     (if q_raw s c then Stuck
      else lift_opt (pt_wake_first c s) (\<lambda>(b, s1). if b then res_bind (pt_schedule n s1) (\<lambda>_. Ret 0) else Ret 0 s1))"

partial_function (option) wake_all :: "semid \<Rightarrow> pth \<Rightarrow> pth option" where
  "wake_all c s =
     (if qtask (ptker s) (qnext (ptker s) (SemQ c)) = NULL then Some s
      else do { (b, s1) \<leftarrow> pt_wake_first c s; wake_all c s1 })"

declare wake_all.simps [code]

definition pthread_cond_broadcast :: "nat \<Rightarrow> semid \<Rightarrow> pth \<Rightarrow> int ptres" where
  "pthread_cond_broadcast n c s =
     lift_opt (if q_raw s c then Some s else wake_all c s) (\<lambda>s1. res_bind (pt_schedule n s1) (\<lambda>_. Ret 0))"

end
