(* ===== verification/Pthread_Props.thy ===== *)
theory Pthread_Props
  imports Pthread_Sync Message_Props Service_Calls
begin

text \<open>
  What the mutexes and condition variables of the POSIX threads guarantee: without waiting tasks a mutex is a lock with one
  owner, a task that cannot have it waits in the order of the priorities, an unlock makes the most urgent waiting task
  ready, a wait for a condition enters the queue of the condition before it gives the mutex back.  And what they do not:
  the last sections prove where the code departs from this.
\<close>

section \<open>Updates of the state\<close>

lemma pth_updates [simp]:
  "ptker (upd_pm x f s) = ptker s" "q_raw (upd_pm x f s) = q_raw s" "pmutexes (upd_ptsem x g s) = pmutexes s"
  "q_raw (upd_ptsem x g s) = q_raw s" "ptker (upd_ptsem x g s) = upd_sem x g (ptker s)"
  "pmutexes (upd_pm x f s) = (pmutexes s)(x := f (pmutexes s x))"
  by (simp_all add: upd_pm_def upd_ptsem_def)

lemma pm_own_simps [simp]:
  "pmutexes (pm_own t x n s) = (pmutexes s)(x := (pmutexes s x)\<lparr>m_owner := Some t\<rparr>)" "q_raw (pm_own t x n s) = q_raw s"
  "ptker (pm_own t x n s) = upd_sem x (\<lambda>e. e\<lparr>sem_count := n, owndby := Task t\<rparr>) (ptker s)"
  by (simp_all add: pm_own_def)

lemma pm_free_simps [simp]:
  "pmutexes (pm_free x s) = (pmutexes s)(x := (pmutexes s x)\<lparr>m_owner := None\<rparr>)" "q_raw (pm_free x s) = q_raw s"
  "ptker (pm_free x s) = (upd_sem x (\<lambda>e. e\<lparr>sem_count := 1\<rparr>) (ptker s))
     \<lparr>priority := (priority (ptker s))(self s := base_priority (ptker s) (self s))\<rparr>"
  by (simp_all add: pm_free_def Let_def upd_sem_def)

section \<open>Mutexes on which no task waits\<close>

datatype pm_call = TryLock | Lock | Unlock

text \<open>A call by the task \<open>t\<close>, the running one at that time.\<close>

definition pm_exec :: "nat \<Rightarrow> semid \<Rightarrow> tid \<times> pm_call \<Rightarrow> pth \<Rightarrow> int ptres" where
  "pm_exec n x p s =
     (let s1 = s\<lparr>ptker := (ptker s)\<lparr>rt_current := fst p\<rparr>\<rparr> in
      case snd p of
        TryLock \<Rightarrow> (let (r, s2) = pthread_mutex_trylock x s1 in Ret r s2)
      | Lock \<Rightarrow> pthread_mutex_lock n x s1
      | Unlock \<Rightarrow> pthread_mutex_unlock n x s1)"

text \<open>A lock with one owner; to lock what is taken has to wait and is outside the specification.\<close>

fun lock_spec :: "tid \<times> pm_call \<Rightarrow> tid option \<Rightarrow> (int \<times> tid option) option" where
  "lock_spec (t, TryLock) a = Some (if a = None then (0, Some t) else (EBUSY, a))"
| "lock_spec (t, Lock) a = (if a = None then Some (0, Some t) else None)"
| "lock_spec (t, Unlock) a = Some (if a = Some t then (0, None) else (EINVAL, a))"

definition mutex_idle :: "semid \<Rightarrow> pth \<Rightarrow> tid option \<Rightarrow> bool" where
  "mutex_idle x s a \<longleftrightarrow> sem_magic (ptsem s x) = RT_SEM_MAGIC
     \<and> (m_kind (pmutexes s x) = PTHREAD_MUTEX_FAST_NP \<or> m_kind (pmutexes s x) = PTHREAD_MUTEX_ERRORCHECK_NP)
     \<and> m_owner (pmutexes s x) = a \<and> sem_count (ptsem s x) = (if a = None then 1 else 0)
     \<and> (q_raw s x \<or> qnext (ptker s) (SemQ x) = SemQ x \<and> qtask (ptker s) (SemQ x) = NULL)"

lemma hand_over_idle:
  "q_raw s x \<or> qnext (ptker s) (SemQ x) = SemQ x \<and> qtask (ptker s) (SemQ x) = NULL \<Longrightarrow> pm_hand_over n x s = Ret 0 s"
  by (auto simp: pm_hand_over_def pt_wake_first_def Let_def)

lemma pm_exec_step:
  assumes r: "mutex_idle x s a" and sp: "lock_spec p a = Some (v, a')"
  shows "\<exists>s'. pm_exec n x p s = Ret v s' \<and> mutex_idle x s' a'"
proof -
  obtain t c where p: "p = (t, c)" by (cases p)
  let ?s = "s\<lparr>ptker := (ptker s)\<lparr>rt_current := t\<rparr>\<rparr>"
  have i: "mutex_idle x ?s a" using r by (simp add: mutex_idle_def)
  show ?thesis
  proof (cases c)
    case TryLock
    then show ?thesis using sp i unfolding p
      by (auto simp: pm_exec_def pthread_mutex_trylock_def mutex_idle_def split: if_splits)
  next
    case Lock
    then show ?thesis using sp i unfolding p
      by (auto simp: pm_exec_def pthread_mutex_lock_def mutex_idle_def split: if_splits)
  next
    case Unlock
    let ?f = "pm_free x ?s" and ?g = "upd_ptsem x (\<lambda>e. e\<lparr>owndby := NULL\<rparr>) (pm_free x ?s)"
    have h: "pm_hand_over n x ?f = Ret 0 ?f" "pm_hand_over n x ?g = Ret 0 ?g"
      by (rule hand_over_idle, use i in \<open>simp add: mutex_idle_def upd_sem_def\<close>)+
    have "mutex_idle x ?f None" "mutex_idle x ?g None" using i by (auto simp: mutex_idle_def upd_sem_def)
    then show ?thesis using sp i h unfolding p Unlock
      by (auto simp: pm_exec_def pthread_mutex_unlock_def mutex_idle_def Let_def split: if_splits)
  qed
qed

interpretation mutex_service: immediate_service "pm_exec n x" lock_spec "mutex_idle x" for n x
  by unfold_locales (rule pm_exec_step)

text \<open>C32: as long as no task has to wait, under every sequence of calls of
  \<^verbatim>\<open>pthread_mutex_lock\<close>, \<^verbatim>\<open>pthread_mutex_trylock\<close>
  and \<^verbatim>\<open>pthread_mutex_unlock\<close> by any tasks a fast or error checking mutex is
  a lock with one owner: what is taken is refused to the others, and only its owner gives it
  back.\<close>

theorem mutex_is_lock:
  assumes "mutex_idle x s a" and "run_spec lock_spec ps a = Some (rs, a')"
  shows "\<exists>s'. run_calls (pm_exec n x) ps s = Ret rs s' \<and> mutex_idle x s' a'"
  by (rule mutex_service.calls [OF assms])

text \<open>Initialising gives an idle mutex without owner, whatever way it is done.\<close>

lemma mutex_init_idle:
  "kd \<in> {PTHREAD_MUTEX_FAST_NP, PTHREAD_MUTEX_ERRORCHECK_NP} \<Longrightarrow> mutex_idle x (snd (pthread_mutex_init x (Some kd) s)) None"
  "mutex_idle x (snd (pthread_mutex_init x None s)) None"
  "kd \<in> {PTHREAD_MUTEX_FAST_NP, PTHREAD_MUTEX_ERRORCHECK_NP} \<Longrightarrow> mutex_idle x (PTHREAD_MUTEX_INITIALIZER x kd s) None"
  by (auto simp: mutex_idle_def pthread_mutex_init_def PTHREAD_MUTEX_INITIALIZER_def PTHREAD_SEM_INITIALIZER_def
      pt_sem_init_def empty_queue_def Let_def)


section \<open>Waiting for a mutex\<close>

text \<open>The queues of the mutex and of the condition are initialised or raw and empty.\<close>

definition raw_ok :: "pth \<Rightarrow> (qnode \<Rightarrow> tid list) \<Rightarrow> bool" where
  "raw_ok s qs \<longleftrightarrow> (\<forall>x. q_raw s x \<longrightarrow> qs (SemQ x) = [])"

lemma checked_queue_eq:
  assumes "blocked_queues (ptker s) H qs" and "SemQ x \<in> H" and "raw_ok s qs"
  shows "checked_queue x s = s\<lparr>q_raw := (q_raw s)(x := False)\<rparr>"
proof (cases "q_raw s x")
  case True
  then have "queue_list (ptker s) (SemQ x) []" using assms by (auto simp: blocked_queues_def raw_ok_def)
  then have "(qnext (ptker s))(SemQ x := SemQ x) = qnext (ptker s)" "(qprev (ptker s))(SemQ x := SemQ x) = qprev (ptker s)"
    by (auto simp: queue_list_def ring_def intro: fun_upd_idem)
  then show ?thesis using True by (simp add: checked_queue_def empty_queue_def)
next
  case False
  then show ?thesis by (simp add: checked_queue_def fun_upd_idem)
qed

text \<open>Both ways of entering a queue are those of the scheduler's own semaphores.\<close>

lemma enqueue_eq:
  assumes b: "blocked_queues k H qs" and x: "SemQ x \<in> H" and r: "raw_ok s qs" and c: "rt_current k = c"
  defines "s1 \<equiv> s\<lparr>ptker := k\<lparr>blocked_on := (blocked_on k)(c := Some (SemQ x))\<rparr>\<rparr>"
  shows "priority_enqueue_task x s1 = map_option (\<lambda>k'. s\<lparr>q_raw := (q_raw s)(x := False), ptker := k'\<rparr>) (enqueue_blocked c (SemQ x) 0 k)"
    and "Some (cond_enqueue_task x s1) = map_option (\<lambda>k'. s\<lparr>q_raw := (q_raw s)(x := False), ptker := k'\<rparr>) (enqueue_blocked c (SemQ x) 1 k)"
proof -
  have "blocked_queues (ptker s1) H qs" using b by (simp add: s1_def blocked_queues_def queue_list_def)
  moreover have "raw_ok s1 qs" using r by (simp add: raw_ok_def s1_def)
  ultimately have e: "checked_queue x s1 = s1\<lparr>q_raw := (q_raw s)(x := False)\<rparr>" using checked_queue_eq [of s1 H qs x] x by (simp add: s1_def)
  show "priority_enqueue_task x s1 = map_option (\<lambda>k'. s\<lparr>q_raw := (q_raw s)(x := False), ptker := k'\<rparr>) (enqueue_blocked c (SemQ x) 0 k)"
    unfolding priority_enqueue_task_def e using c
    by (simp add: enqueue_blocked_def s1_def Let_def option.map_comp split: Option.bind_split)
  show "Some (cond_enqueue_task x s1) = map_option (\<lambda>k'. s\<lparr>q_raw := (q_raw s)(x := False), ptker := k'\<rparr>) (enqueue_blocked c (SemQ x) 1 k)"
    unfolding cond_enqueue_task_def e using c by (simp add: enqueue_blocked_def s1_def Let_def)
qed

lemma inv_prio_waiting:
  assumes i: "sched_inv k rq tq" and l: "live k t" and n: "state k t \<noteq> READY" and p: "0 \<le> p" "p < RT_LINUX_PRIORITY"
  shows "sched_inv (k\<lparr>priority := (priority k)(t := p)\<rparr>) rq tq"
  by (rule inv_set_prio [OF i]) (use sched_invD(5) [OF i, of t] n l p in \<open>auto simp: live_def\<close>)


text \<open>The caller leaves the ready list and enters the queue; with the kind of the queue as in the scheduler.\<close>

lemma enter_queue:
  assumes i: "sched_inv k rq tq" and b: "blocked_queues k H qs" and x: "SemQ x \<in> H" and c: "rt_current k = c"
    and l: "live k c" and st: "state k c = READY" and p: "0 \<le> priority k c"
    and nq: "\<forall>h \<in> H. c \<notin> set (qs h)" and tq: "qtask k (TaskQ c) = Task c" and w: "w = SEMAPHORE \<or> w = SEMAPHORE OR DELAYED"
  defines "u \<equiv> or_state c w (unlink_ready c k)"
  shows "rem_ready_current c (or_state c w k) = Some u"
    and "\<exists>k'. enqueue_blocked c (SemQ x) qt u = Some k'
     \<and> blocked_queues k' H (qs(SemQ x := if qt = 0 then queue_insert k (priority k c) c (qs (SemQ x)) else qs (SemQ x) @ [c]))
     \<and> (\<exists>nx pv. k' = u\<lparr>blocked_on := (blocked_on k)(c := Some (SemQ x)), qnext := nx, qprev := pv\<rparr>)"
    and "w = SEMAPHORE \<Longrightarrow> sched_inv u (remove1 c rq) tq"
proof -
  have h: "is_hard (or_state c w k) c \<noteq> 0" using inv_hard(1) [OF i l] by (simp add: or_state_def)
  have e: "unlink_ready c (or_state c w k) = u" by (simp add: u_def or_state_def unlink_ready_def)
  show "rem_ready_current c (or_state c w k) = Some u" using rem_ready_current_eq [OF h] e by simp
  have bu: "blocked_queues u H qs" using b by (simp add: u_def or_state_def unlink_ready_def blocked_queues_def queue_list_def)
  have tu: "qtask u (TaskQ c) = Task c" "priority u = priority k" "blocked_on u = blocked_on k"
    using tq by (simp_all add: u_def or_state_def unlink_ready_def)
  show "\<exists>k'. enqueue_blocked c (SemQ x) qt u = Some k'
     \<and> blocked_queues k' H (qs(SemQ x := if qt = 0 then queue_insert k (priority k c) c (qs (SemQ x)) else qs (SemQ x) @ [c]))
     \<and> (\<exists>nx pv. k' = u\<lparr>blocked_on := (blocked_on k)(c := Some (SemQ x)), qnext := nx, qprev := pv\<rparr>)"
  proof -
    obtain pos where e: "enqueue_blocked c (SemQ x) qt u = Some (link_queue (TaskQ c) pos (u\<lparr>blocked_on := (blocked_on u)(c := Some (SemQ x))\<rparr>))"
      "blocked_queues (link_queue (TaskQ c) pos (u\<lparr>blocked_on := (blocked_on u)(c := Some (SemQ x))\<rparr>)) H
         (qs(SemQ x := if qt = 0 then queue_insert u (priority u c) c (qs (SemQ x)) else qs (SemQ x) @ [c]))"
      using enqueue_blocked_eq [OF bu x nq tu(1), of qt] by blast
    show ?thesis
      by (rule exI, intro conjI, rule e(1), rule e(2) [unfolded tu(2)])
        (rule exI, rule exI, simp only: link_queue_def tu(3) kst.simps)
  qed
  show "sched_inv u (remove1 c rq) tq" if "w = SEMAPHORE"
    using leave_ready [OF i l st p, of SEMAPHORE] rem_ready_current_eq [OF h] e that by simp
qed

lemma lock_blocks:
  assumes i: "sched_inv (ptker s) rq tq" and b: "blocked_queues (ptker s) H qs" and x: "SemQ x \<in> H" and c: "self s = c"
    and l: "live (ptker s) c" and st: "state (ptker s) c = READY" and p: "0 \<le> priority (ptker s) c"
    and nq: "\<forall>h \<in> H. c \<notin> set (qs h)" and tq: "qtask (ptker s) (TaskQ c) = Task c" and r: "raw_ok s qs"
    and m: "sem_magic (ptsem s x) = RT_SEM_MAGIC" "sem_count (ptsem s x) \<le> 0"
    and kd: "m_kind (pmutexes s x) = PTHREAD_MUTEX_FAST_NP \<or> m_kind (pmutexes s x) = PTHREAD_MUTEX_ERRORCHECK_NP"
    and o: "m_owner (pmutexes s x) = Some v" "v \<noteq> c" "live (ptker s) v"
    and ov: "priority (ptker s) v \<le> priority (ptker s) c \<or> state (ptker s) v \<noteq> READY"
  shows "\<exists>s'. pthread_mutex_lock n x s = res_bind (pt_schedule n s') (\<lambda>_. pm_woken c x)
     \<and> sched_inv (ptker s') (remove1 c rq) tq
     \<and> blocked_queues (ptker s') H (qs(SemQ x := queue_insert (ptker s) (priority (ptker s) c) c (qs (SemQ x))))
     \<and> state (ptker s') = (state (ptker s))(c := READY OR SEMAPHORE) \<and> blocked_on (ptker s') c = Some (SemQ x)
     \<and> priority (ptker s') = (priority (ptker s))(v := min (priority (ptker s) v) (priority (ptker s) c))
     \<and> pmutexes s' = pmutexes s"
proof -
  let ?k = "ptker s"
  let ?u = "or_state c SEMAPHORE (unlink_ready c ?k)"
  note e = enter_queue [OF i b x c l st p nq tq, of SEMAPHORE, simplified]
  obtain k' where k': "enqueue_blocked c (SemQ x) 0 ?u = Some k'"
    "blocked_queues k' H (qs(SemQ x := queue_insert ?k (priority ?k c) c (qs (SemQ x))))"
    "\<exists>nx pv. k' = ?u\<lparr>blocked_on := (blocked_on ?k)(c := Some (SemQ x)), qnext := nx, qprev := pv\<rparr>"
    using e(2) [of 0] by auto
  have f: "state k' = (state ?k)(c := READY OR SEMAPHORE)" "priority k' = priority ?k" "rt_current k' = c"
    "blocked_on k' c = Some (SemQ x)" "live k' = live ?k"
    using k'(3) st c by (auto simp: or_state_def unlink_ready_def live_def fun_eq_iff)
  have ik: "sched_inv k' (remove1 c rq) tq"
  proof (rule same_sched_inv [OF _ e(3)])
    show "same_sched ?u k'" using k'(3) by (auto simp: same_sched_def)
  qed
  have bu: "blocked_queues ?u H qs" using b by (simp add: or_state_def unlink_ready_def blocked_queues_def queue_list_def)
  let ?s1 = "s\<lparr>q_raw := (q_raw s)(x := False), ptker := k'\<rparr>"
  have q: "priority_enqueue_task x (s\<lparr>ptker := ?u\<lparr>blocked_on := (blocked_on ?u)(c := Some (SemQ x))\<rparr>\<rparr>) = Some ?s1"
    using enqueue_eq(1) [OF bu x r, of c] k'(1) c by (simp add: or_state_def unlink_ready_def)
  let ?p = "min (priority ?k v) (priority ?k c)"
  let ?s' = "?s1\<lparr>ptker := k'\<lparr>priority := (priority k')(v := ?p)\<rparr>\<rparr>"
  have h: "mutex_inherit_prio x ?s1 = Some ?s'"
    using o(1) f(2,3) by (auto simp: mutex_inherit_prio_def Let_def min_def)
  have en: "pm_enter_queue x s = Some ?s'" using e(1) q h unfolding pm_enter_queue_def Let_def c by simp
  have 1: "pthread_mutex_lock n x s = res_bind (pt_schedule n ?s') (\<lambda>_. pm_woken c x)"
    using kd m en c unfolding pthread_mutex_lock_def pm_wait_def Let_def by auto
  have 2: "sched_inv (ptker ?s') (remove1 c rq) tq"
  proof (cases "priority ?k v \<le> priority ?k c")
    case True
    then have "(priority k')(v := ?p) = priority k'" using f(2) by (intro fun_upd_idem) simp
    then have "ptker ?s' = k'" by simp
    then show ?thesis using ik by (simp only:)
  next
    case False
    then have "state k' v \<noteq> READY" "live k' v" "?p = priority ?k c" using ov o(2,3) f by auto
    moreover have "priority ?k c < RT_LINUX_PRIORITY" using sched_invD(1) [OF i] l by (auto simp: task_wf_def)
    ultimately show ?thesis using inv_prio_waiting [OF ik] p by simp
  qed
  have 3: "blocked_queues (ptker ?s') H (qs(SemQ x := queue_insert ?k (priority ?k c) c (qs (SemQ x))))"
    using k'(2) by (simp add: blocked_queues_def queue_list_def)
  show ?thesis by (intro exI conjI, rule 1, rule 2, rule 3) (use f in simp_all)
qed


section \<open>Releasing the first task of a queue\<close>

text \<open>Of the scheduler's state only what concerns the task released and the links of the lists have changed.\<close>

definition woken :: "tid \<Rightarrow> kst \<Rightarrow> kst \<Rightarrow> bool" where
  "woken t k k' \<longleftrightarrow> (\<exists>qn qp rn rp. k' = k\<lparr>state := (state k)(t := READY), blocked_on := (blocked_on k)(t := None),
     qnext := qn, qprev := qp, rnext := rn, rprev := rp\<rparr>)"

lemma woken_fields:
  assumes "woken t k k'"
  shows "state k' = (state k)(t := READY)" "blocked_on k' = (blocked_on k)(t := None)" "sems k' = sems k"
    "rt_current k' = rt_current k" "priority k' = priority k" "qtask k' = qtask k" "tnext k' = tnext k" "tprev k' = tprev k"
    "live k' = live k"
  using assms by (auto simp: woken_def live_def fun_eq_iff)

text \<open>What the loop-free part does, whatever the timed list holds: the task is taken for one that is not in it.\<close>

lemma wake_first_eq:
  assumes b: "blocked_queues (ptker s) H qs" and x: "SemQ x \<in> H" and q: "qs (SemQ x) = t # ts"
    and st: "state (ptker s) t AND NOT (SEMAPHORE OR DELAYED) = READY"
  shows "pt_wake_first x s = do {
       k' \<leftarrow> enq_ready_task t (set_state t READY (unlink_queue (TaskQ t) ((ptker s)\<lparr>blocked_on := (blocked_on (ptker s))(t := None)\<rparr>)));
       Some (True, s\<lparr>ptker := k'\<rparr>) }"
    and "blocked_queues (unlink_queue (TaskQ t) ((ptker s)\<lparr>blocked_on := (blocked_on (ptker s))(t := None)\<rparr>)) H (qs(SemQ x := ts))"
proof -
  let ?k = "(ptker s)\<lparr>blocked_on := (blocked_on (ptker s))(t := None)\<rparr>"
  have h: "qnext (ptker s) (SemQ x) = TaskQ t" "qtask (ptker s) (TaskQ t) = Task t"
    using queue_head(1) [OF b x] queue_head(2) [OF b x q] q by simp_all
  have "and_not_state t (SEMAPHORE OR DELAYED) ?k = set_state t READY ?k" using st by (simp add: and_not_state_def)
  moreover have "unlink_queue (TaskQ t) (set_state t READY ?k) = set_state t READY (unlink_queue (TaskQ t) ?k)"
    by (simp add: unlink_queue_def)
  moreover have "rem_timed_task t (set_state t READY (unlink_queue (TaskQ t) ?k)) = set_state t READY (unlink_queue (TaskQ t) ?k)"
    by (simp add: rem_timed_task_def)
  ultimately show "pt_wake_first x s = do {
       k' \<leftarrow> enq_ready_task t (set_state t READY (unlink_queue (TaskQ t) ?k)); Some (True, s\<lparr>ptker := k'\<rparr>) }"
    unfolding pt_wake_first_def Let_def h by simp
  have "blocked_queues ?k H qs" using b by (simp add: blocked_queues_def queue_list_def)
  then show "blocked_queues (unlink_queue (TaskQ t) ?k) H (qs(SemQ x := ts))"
    using blocked_queues_unlink [OF _ x, of ?k qs t] q by simp
qed

lemma wake_first_ok:
  assumes i: "sched_inv (ptker s) rq tq" and b: "blocked_queues (ptker s) H qs" and x: "SemQ x \<in> H"
    and q: "qs (SemQ x) = t # ts" and l: "live (ptker s) t" and st: "state (ptker s) t = READY OR SEMAPHORE"
  shows "\<exists>s'. pt_wake_first x s = Some (True, s') \<and> sched_inv (ptker s') (ready_insert (ptker s) t rq) tq
     \<and> blocked_queues (ptker s') H (qs(SemQ x := ts)) \<and> woken t (ptker s) (ptker s') \<and> s' = s\<lparr>ptker := ptker s'\<rparr>"
proof -
  let ?k = "ptker s"
  let ?u = "unlink_queue (TaskQ t) (?k\<lparr>blocked_on := (blocked_on ?k)(t := None)\<rparr>)"
  have s: "state ?k t AND NOT (SEMAPHORE OR DELAYED) = READY" "state ?k t \<noteq> READY" "state ?k t AND DELAYED = 0"
    unfolding st by simp_all
  note e = wake_first_eq [OF b x q s(1)]
  have iu: "sched_inv ?u rq tq" by (rule same_sched_inv [OF _ i]) (simp add: same_sched_def unlink_queue_def)
  have lu: "live ?u t" "state ?u t \<noteq> READY" "state ?u t AND DELAYED = 0"
    using l s by (simp_all add: unlink_queue_def live_def)
  obtain k' nx pv where k': "enq_ready_task t (set_state t READY ?u) = Some k'" "sched_inv k' (ready_insert ?u t rq) tq"
    "k' = ?u\<lparr>state := (state ?u)(t := READY), rnext := nx, rprev := pv\<rparr>"
    using inv_enq_ready [OF iu lu] by auto
  have ri: "ready_insert ?u t rq = ready_insert ?k t rq" by (simp add: unlink_queue_def)
  have wk: "woken t ?k k'" unfolding woken_def
    by (rule exI [of _ "qnext ?u"], rule exI [of _ "qprev ?u"], rule exI [of _ nx], rule exI [of _ pv])
      (simp add: k'(3) unlink_queue_def)
  have bk: "blocked_queues k' H (qs(SemQ x := ts))"
    by (rule iffD2 [OF blocked_queues_same e(2)]) (simp_all add: k'(3))
  show ?thesis using k'(1,2) e(1) ri wk bk by (intro exI [of _ "s\<lparr>ptker := k'\<rparr>"]) simp
qed

section \<open>Unlocking\<close>

definition pm_freed :: "semid \<Rightarrow> pth \<Rightarrow> pth" where
  "pm_freed x s = (if m_kind (pmutexes s x) = PTHREAD_MUTEX_FAST_NP then upd_ptsem x (\<lambda>e. e\<lparr>owndby := NULL\<rparr>) (pm_free x s)
     else pm_free x s)"

definition pm_held :: "tid \<Rightarrow> semid \<Rightarrow> pth \<Rightarrow> bool" where
  "pm_held t x s \<longleftrightarrow> sem_magic (ptsem s x) = RT_SEM_MAGIC \<and> m_owner (pmutexes s x) = Some t \<and> sem_count (ptsem s x) \<le> 0
     \<and> (m_kind (pmutexes s x) = PTHREAD_MUTEX_FAST_NP \<or> m_kind (pmutexes s x) = PTHREAD_MUTEX_ERRORCHECK_NP)"

lemma unlock_held: "pm_held (self s) x s \<Longrightarrow> pthread_mutex_unlock n x s = pm_hand_over n x (pm_freed x s)"
  by (auto simp: pthread_mutex_unlock_def pm_held_def pm_freed_def Let_def)

lemma pm_freed_fields:
  "m_owner (pmutexes (pm_freed x s) x) = None" "sem_count (ptsem (pm_freed x s) x) = 1" "q_raw (pm_freed x s) = q_raw s"
  "priority (ptker (pm_freed x s)) = (priority (ptker s))(self s := base_priority (ptker s) (self s))"
  "state (ptker (pm_freed x s)) = state (ptker s)" "blocked_on (ptker (pm_freed x s)) = blocked_on (ptker s)"
  "qtask (ptker (pm_freed x s)) = qtask (ptker s)" "live (ptker (pm_freed x s)) = live (ptker s)"
  "rt_current (ptker (pm_freed x s)) = self s" "blocked_queues (ptker (pm_freed x s)) H qs = blocked_queues (ptker s) H qs"
  "sem_magic (ptsem (pm_freed x s) x) = sem_magic (ptsem s x)" "m_kind (pmutexes (pm_freed x s) x) = m_kind (pmutexes s x)"
  "rnext (ptker (pm_freed x s)) = rnext (ptker s)" "rprev (ptker (pm_freed x s)) = rprev (ptker s)"
  by (simp_all add: pm_freed_def upd_sem_def live_def fun_eq_iff blocked_queues_def queue_list_def)

lemma hand_over_ok:
  assumes i: "sched_inv (ptker s) rq tq" and b: "blocked_queues (ptker s) H qs" and x: "SemQ x \<in> H" and r: "raw_ok s qs"
    and hd: "qtask (ptker s) (SemQ x) = NULL"
    and t: "\<forall>t \<in> set (qs (SemQ x)). live (ptker s) t \<and> state (ptker s) t = READY OR SEMAPHORE"
  shows "qs (SemQ x) = [] \<Longrightarrow> pm_hand_over n x s = Ret 0 s"
    and "qs (SemQ x) = t # ts \<Longrightarrow> \<exists>s'. pm_hand_over n x s = res_bind (pt_schedule n s') (\<lambda>_. Ret 0)
     \<and> sched_inv (ptker s') (ready_insert (ptker s) t rq) tq \<and> blocked_queues (ptker s') H (qs(SemQ x := ts))
     \<and> woken t (ptker s) (ptker s') \<and> s' = s\<lparr>ptker := ptker s'\<rparr>"
proof -
  assume "qs (SemQ x) = []"
  then have "qnext (ptker s) (SemQ x) = SemQ x" using queue_head(1) [OF b x] by simp
  then show "pm_hand_over n x s = Ret 0 s" using hd hand_over_idle by simp
next
  assume q: "qs (SemQ x) = t # ts"
  then have "\<not> q_raw s x" using r by (auto simp: raw_ok_def)
  moreover have "live (ptker s) t" "state (ptker s) t = READY OR SEMAPHORE" using t q by simp_all
  ultimately show "\<exists>s'. pm_hand_over n x s = res_bind (pt_schedule n s') (\<lambda>_. Ret 0)
     \<and> sched_inv (ptker s') (ready_insert (ptker s) t rq) tq \<and> blocked_queues (ptker s') H (qs(SemQ x := ts))
     \<and> woken t (ptker s) (ptker s') \<and> s' = s\<lparr>ptker := ptker s'\<rparr>"
    using wake_first_ok [OF i b x q] by (auto simp: pm_hand_over_def)
qed


text \<open>An unlock by an owner that has inherited no priority: the first of the waiting tasks becomes ready and the
  scheduler is called; nobody owns the mutex then.\<close>

lemma unlock_wakes:
  assumes i: "sched_inv (ptker s) rq tq" and b: "blocked_queues (ptker s) H qs" and x: "SemQ x \<in> H" and r: "raw_ok s qs"
    and hd: "qtask (ptker s) (SemQ x) = NULL" and h: "pm_held (self s) x s"
    and t: "\<forall>t \<in> set (qs (SemQ x)). live (ptker s) t \<and> state (ptker s) t = READY OR SEMAPHORE"
    and p: "priority (ptker s) (self s) = base_priority (ptker s) (self s)" and q: "qs (SemQ x) = t # ts"
  shows "\<exists>s'. pthread_mutex_unlock n x s = res_bind (pt_schedule n s') (\<lambda>_. Ret 0)
     \<and> sched_inv (ptker s') (ready_insert (ptker s) t rq) tq \<and> blocked_queues (ptker s') H (qs(SemQ x := ts))
     \<and> state (ptker s') = (state (ptker s))(t := READY) \<and> blocked_on (ptker s') t = None
     \<and> m_owner (pmutexes s' x) = None \<and> sem_count (ptsem s' x) = 1"
proof -
  let ?f = "pm_freed x s"
  note f = pm_freed_fields
  have pr: "priority (ptker ?f) = priority (ptker s)" using p f(4) by (simp add: fun_upd_idem)
  have if': "sched_inv (ptker ?f) rq tq"
  proof (rule same_sched_inv [OF _ i])
    show "same_sched (ptker s) (ptker ?f)" using pr by (simp add: same_sched_def pm_freed_def upd_sem_def)
  qed
  have g: "blocked_queues (ptker ?f) H qs" "raw_ok ?f qs" "qtask (ptker ?f) (SemQ x) = NULL"
    using b r hd by (simp_all add: raw_ok_def f)
  have tf: "\<forall>t \<in> set (qs (SemQ x)). live (ptker ?f) t \<and> state (ptker ?f) t = READY OR SEMAPHORE" using t by (simp add: f)
  obtain s' where s': "pm_hand_over n x ?f = res_bind (pt_schedule n s') (\<lambda>_. Ret 0)"
    "sched_inv (ptker s') (ready_insert (ptker ?f) t rq) tq" "blocked_queues (ptker s') H (qs(SemQ x := ts))"
    "woken t (ptker ?f) (ptker s')" "s' = ?f\<lparr>ptker := ptker s'\<rparr>" 
    using hand_over_ok(2) [where qs = qs, OF if' g(1) x g(2,3) tf q, of n] by (elim exE conjE) (rule that)
  have "pmutexes s' = pmutexes ?f" by (subst s'(5)) simp
  then show ?thesis
    using s'(1,3) s'(2) [unfolded pr] unlock_held [OF h] woken_fields(1-3) [OF s'(4)] f(1,2,5,6) by (intro exI [of _ s']) simp
qed

text \<open>Without waiting tasks it returns at once.\<close>

lemma unlock_free:
  assumes b: "blocked_queues (ptker s) H qs" and x: "SemQ x \<in> H" and hd: "qtask (ptker s) (SemQ x) = NULL"
    and h: "pm_held (self s) x s" and q: "qs (SemQ x) = []"
  shows "pthread_mutex_unlock n x s = Ret 0 (pm_freed x s)"
proof -
  have "qnext (ptker (pm_freed x s)) (SemQ x) = SemQ x"
    using queue_head(1) [OF _ x, of "ptker (pm_freed x s)" qs] b q by (simp add: pm_freed_fields)
  then show ?thesis using unlock_held [OF h] hd by (simp add: hand_over_idle pm_freed_fields)
qed

section \<open>Waiting for a condition\<close>

text \<open>The caller is in the queue of the condition before it gives the mutex back, so that no signal is lost; the first
  task that waits for the mutex becomes ready.  The priority that the caller has inherited is given back.\<close>

text \<open>The first half of waiting for a condition: the caller is in its queue, and the mutex free.\<close>

lemma cond_wait_enters:
  assumes i: "sched_inv (ptker s) rq tq" and b: "blocked_queues (ptker s) H qs" and x: "SemQ x \<in> H" "SemQ y \<in> H" "x \<noteq> y"
    and c: "self s = c" and l: "live (ptker s) c" and st: "state (ptker s) c = READY" and p: "0 \<le> priority (ptker s) c"
    and nq: "\<forall>h \<in> H. c \<notin> set (qs h)" and tq: "qtask (ptker s) (TaskQ c) = Task c" and r: "raw_ok s qs"
    and hd: "qtask (ptker s) (SemQ x) = NULL" and h: "pm_held c x s"
    and t: "\<forall>t \<in> set (qs (SemQ x)). live (ptker s) t \<and> state (ptker s) t = READY OR SEMAPHORE"
    and bp: "0 \<le> base_priority (ptker s) c" "base_priority (ptker s) c < RT_LINUX_PRIORITY"
  shows "\<exists>f. pthread_cond_wait n y x s = res_bind (pm_hand_over n x f)
         (\<lambda>_ s2. res_bind (pt_schedule n s2) (\<lambda>_ s3. res_bind (pthread_mutex_lock n x s3) (\<lambda>_. Ret 0)))
     \<and> sched_inv (ptker f) (remove1 c rq) tq \<and> blocked_queues (ptker f) H (qs(SemQ y := qs (SemQ y) @ [c])) \<and> raw_ok f (qs(SemQ y := qs (SemQ y) @ [c])) \<and> qtask (ptker f) (SemQ x) = NULL
     \<and> (\<forall>t \<in> set (qs (SemQ x)). live (ptker f) t \<and> state (ptker f) t = READY OR SEMAPHORE)
     \<and> state (ptker f) c = READY OR SEMAPHORE \<and> blocked_on (ptker f) c = Some (SemQ y)
     \<and> priority (ptker f) c = base_priority (ptker s) c \<and> m_owner (pmutexes f x) = None \<and> sem_count (ptsem f x) = 1"
proof -
  let ?k = "ptker s" and ?Q = "qs(SemQ y := qs (SemQ y) @ [c])"
  let ?u = "or_state c SEMAPHORE (unlink_ready c ?k)"
  note e = enter_queue [OF i b x(2) c l st p nq tq, of SEMAPHORE, simplified]
  obtain k' where k': "enqueue_blocked c (SemQ y) 1 ?u = Some k'" "blocked_queues k' H ?Q"
    "\<exists>nx pv. k' = ?u\<lparr>blocked_on := (blocked_on ?k)(c := Some (SemQ y)), qnext := nx, qprev := pv\<rparr>"
    using e(2) [of 1] by auto
  have f: "state k' = (state ?k)(c := READY OR SEMAPHORE)" "priority k' = priority ?k" "rt_current k' = c"
    "blocked_on k' c = Some (SemQ y)" "live k' = live ?k" "base_priority k' = base_priority ?k" "qtask k' = qtask ?k"
    "sems k' = sems ?k" using k'(3) st c by (auto simp: or_state_def unlink_ready_def live_def fun_eq_iff)
  have ik: "sched_inv k' (remove1 c rq) tq"
  proof (rule same_sched_inv [OF _ e(3)])
    show "same_sched ?u k'" using k'(3) by (auto simp: same_sched_def)
  qed
  have bu: "blocked_queues ?u H qs" using b by (simp add: or_state_def unlink_ready_def blocked_queues_def queue_list_def)
  let ?s1 = "s\<lparr>q_raw := (q_raw s)(y := False), ptker := k'\<rparr>"
  have q: "cond_enqueue_task y (s\<lparr>ptker := ?u\<lparr>blocked_on := (blocked_on ?u)(c := Some (SemQ y))\<rparr>\<rparr>) = ?s1"
    using enqueue_eq(2) [OF bu x(2) r, of c] k'(1) c by (simp add: or_state_def unlink_ready_def)
  have h1: "pm_held (self ?s1) x ?s1" using h f(3,8) by (simp add: pm_held_def)
  let ?f = "pm_freed x ?s1"
  note ff = pm_freed_fields [of x ?s1]
  have "sched_inv (k'\<lparr>priority := (priority k')(c := base_priority ?k c)\<rparr>) (remove1 c rq) tq"
    by (rule inv_prio_waiting [OF ik]) (use f l bp in simp_all)
  then have if': "sched_inv (ptker ?f) (remove1 c rq) tq"
    by (rule same_sched_inv [rotated]) (use f in \<open>simp add: same_sched_def pm_freed_def upd_sem_def\<close>)
  have bf: "blocked_queues (ptker ?f) H ?Q" using k'(2) unfolding ff(10) by simp
  have rf: "raw_ok ?f ?Q" using r by (auto simp: raw_ok_def ff(3))
  have hf: "qtask (ptker ?f) (SemQ x) = NULL" using hd f(7) by (simp add: ff(7))
  have tf: "\<forall>t \<in> set (qs (SemQ x)). live (ptker ?f) t \<and> state (ptker ?f) t = READY OR SEMAPHORE"
    using t nq x(1) f(1,5) by (auto simp: ff)
  let ?rest = "\<lambda>s2. res_bind (pt_schedule n s2) (\<lambda>_ s3. res_bind (pthread_mutex_lock n x s3) (\<lambda>_. Ret 0))"
  have w: "pthread_cond_wait n y x s = res_bind (pm_hand_over n x ?f) (\<lambda>_. ?rest)"
    unfolding pthread_cond_wait_def Let_def c e(1) lift_opt_simps q unlock_held [OF h1] by (rule refl)
  have fs: "state (ptker ?f) c = READY OR SEMAPHORE" "blocked_on (ptker ?f) c = Some (SemQ y)"
    "priority (ptker ?f) c = base_priority (ptker s) c" "m_owner (pmutexes ?f x) = None" "sem_count (ptsem ?f x) = 1"
    using ff f by simp_all
  show ?thesis by (rule exI [of _ ?f], intro conjI, rule w, rule if', rule bf, rule rf, rule hf, rule tf, (rule fs)+)
qed

text \<open>C33: \<^verbatim>\<open>pthread_cond_wait\<close> puts its caller at the end of the
  queue of the condition before it gives the mutex back, makes the first task that waits for the
  mutex ready, gives back an inherited priority, and calls the scheduler with all lists
  consistent.\<close>

theorem cond_wait_queues:
  assumes i: "sched_inv (ptker s) rq tq" and b: "blocked_queues (ptker s) H qs" and x: "SemQ x \<in> H" "SemQ y \<in> H" "x \<noteq> y"
    and c: "self s = c" and l: "live (ptker s) c" and st: "state (ptker s) c = READY" and p: "0 \<le> priority (ptker s) c"
    and nq: "\<forall>h \<in> H. c \<notin> set (qs h)" and tq: "qtask (ptker s) (TaskQ c) = Task c" and r: "raw_ok s qs"
    and hd: "qtask (ptker s) (SemQ x) = NULL" and h: "pm_held c x s"
    and t: "\<forall>t \<in> set (qs (SemQ x)). live (ptker s) t \<and> state (ptker s) t = READY OR SEMAPHORE"
    and bp: "0 \<le> base_priority (ptker s) c" "base_priority (ptker s) c < RT_LINUX_PRIORITY"
  shows "\<exists>s' rest rq'. pthread_cond_wait n y x s = res_bind (pt_schedule n s') rest \<and> sched_inv (ptker s') rq' tq
     \<and> blocked_queues (ptker s') H (qs(SemQ y := qs (SemQ y) @ [c], SemQ x := tl (qs (SemQ x))))
     \<and> state (ptker s') c = READY OR SEMAPHORE \<and> blocked_on (ptker s') c = Some (SemQ y)
     \<and> priority (ptker s') c = base_priority (ptker s) c
     \<and> m_owner (pmutexes s' x) = None \<and> sem_count (ptsem s' x) = 1
     \<and> set rq' = set (take 1 (qs (SemQ x))) \<union> (set rq - {c})"
proof -
  let ?Q = "qs(SemQ y := qs (SemQ y) @ [c])"
  obtain f where w: "pthread_cond_wait n y x s = res_bind (pm_hand_over n x f)
        (\<lambda>_ s2. res_bind (pt_schedule n s2) (\<lambda>_ s3. res_bind (pthread_mutex_lock n x s3) (\<lambda>_. Ret 0)))"
    and if': "sched_inv (ptker f) (remove1 c rq) tq" and bf: "blocked_queues (ptker f) H ?Q" and rf: "raw_ok f ?Q"
    and hf: "qtask (ptker f) (SemQ x) = NULL"
    and tf: "\<forall>t \<in> set (qs (SemQ x)). live (ptker f) t \<and> state (ptker f) t = READY OR SEMAPHORE"
    and ff: "state (ptker f) c = READY OR SEMAPHORE" "blocked_on (ptker f) c = Some (SemQ y)"
      "priority (ptker f) c = base_priority (ptker s) c" "m_owner (pmutexes f x) = None" "sem_count (ptsem f x) = 1"
    using cond_wait_enters [OF i b x c l st p nq tq r hd h t bp, of n] by (elim exE conjE)
  let ?rest = "\<lambda>s2. res_bind (pt_schedule n s2) (\<lambda>_ s3. res_bind (pthread_mutex_lock n x s3) (\<lambda>_. Ret 0))"
  have xq: "?Q (SemQ x) = qs (SemQ x)" using x(3) by simp
  have rq: "set (remove1 c rq) = set rq - {c}" using sched_invD(2) [OF i] by (simp add: ready_list_def ring_def)
  show ?thesis
  proof (cases "qs (SemQ x)")
    case Nil
    have "pthread_cond_wait n y x s = res_bind (pt_schedule n f) (\<lambda>_ s3. res_bind (pthread_mutex_lock n x s3) (\<lambda>_. Ret 0))"
      unfolding w hand_over_ok(1) [OF if' bf x(1) rf hf tf [folded xq] trans [OF xq Nil]] res_bind.simps by (rule refl)
    moreover have "?Q(SemQ x := tl (qs (SemQ x))) = ?Q" using Nil xq by (simp add: fun_upd_idem)
    ultimately show ?thesis using if' bf ff rq Nil by (intro exI [of _ f] exI [of _ "remove1 c rq"] exI) simp
  next
    case (Cons v ts)
    have qc: "?Q (SemQ x) = v # ts" using xq Cons by (rule trans)
    obtain s' where s': "pm_hand_over n x f = res_bind (pt_schedule n s') (\<lambda>_. Ret 0)"
      "sched_inv (ptker s') (ready_insert (ptker f) v (remove1 c rq)) tq" "blocked_queues (ptker s') H (?Q(SemQ x := ts))"
      "woken v (ptker f) (ptker s')" "s' = f\<lparr>ptker := ptker s'\<rparr>"
      using hand_over_ok(2) [where qs = ?Q, OF if' bf x(1) rf hf tf [folded xq] qc, of n] by (elim exE conjE) (rule that)
    have pm: "pmutexes s' = pmutexes f" by (subst s'(5)) simp
    have vc: "v \<noteq> c" using Cons nq x(1) by auto
    have "pthread_cond_wait n y x s = res_bind (pt_schedule n s') (\<lambda>_. ?rest)" unfolding w s'(1) res_bind_assoc by simp
    then show ?thesis using s'(2,3) woken_fields [OF s'(4)] pm ff rq Cons vc
      by (intro exI [of _ s'] exI [of _ "ready_insert (ptker f) v (remove1 c rq)"] exI) simp
  qed
qed


section \<open>Signalling a condition\<close>

lemma cond_signal_wakes:
  assumes i: "sched_inv (ptker s) rq tq" and b: "blocked_queues (ptker s) H qs" and y: "SemQ y \<in> H" and r: "\<not> q_raw s y"
    and q: "qs (SemQ y) = t # ts" and l: "live (ptker s) t" and st: "state (ptker s) t = READY OR SEMAPHORE"
  shows "\<exists>s'. pthread_cond_signal n y s = res_bind (pt_schedule n s') (\<lambda>_. Ret 0)
     \<and> sched_inv (ptker s') (ready_insert (ptker s) t rq) tq \<and> blocked_queues (ptker s') H (qs(SemQ y := ts))
     \<and> woken t (ptker s) (ptker s')"
proof -
  obtain s' where s': "pt_wake_first y s = Some (True, s')" "sched_inv (ptker s') (ready_insert (ptker s) t rq) tq"
    "blocked_queues (ptker s') H (qs(SemQ y := ts))" "woken t (ptker s) (ptker s')"
    using wake_first_ok [OF i b y q l st] by (elim exE conjE) (rule that)
  have "pthread_cond_signal n y s = res_bind (pt_schedule n s') (\<lambda>_. Ret 0)" using s'(1) r by (simp add: pthread_cond_signal_def)
  then show ?thesis using s'(2-4) by (intro exI [of _ s'] conjI)
qed

text \<open>A broadcast ends and makes every task of the queue ready.\<close>

lemma wake_all_ok:
  assumes "sched_inv (ptker s) rq tq" and "blocked_queues (ptker s) H qs" and "SemQ y \<in> H"
    and "qtask (ptker s) (SemQ y) = NULL"
    and "\<forall>t \<in> set (qs (SemQ y)). live (ptker s) t \<and> state (ptker s) t = READY OR SEMAPHORE"
  shows "\<exists>s' rq'. wake_all y s = Some s' \<and> sched_inv (ptker s') rq' tq \<and> blocked_queues (ptker s') H (qs(SemQ y := []))
     \<and> (\<forall>t. state (ptker s') t = (if t \<in> set (qs (SemQ y)) then READY else state (ptker s) t))
     \<and> set rq' = set rq \<union> set (qs (SemQ y)) \<and> pmutexes s' = pmutexes s"
  using assms
proof (induction "qs (SemQ y)" arbitrary: s rq qs)
  case Nil
  have e: "qs(SemQ y := []) = qs" using Nil(1) by (auto intro: fun_upd_idem)
  have "qnext (ptker s) (SemQ y) = SemQ y" using queue_head(1) [OF Nil(3,4)] Nil(1) by simp
  then have "wake_all y s = Some s" using Nil(5) by (simp add: wake_all.simps)
  then show ?case using Nil(2,3) e Nil(1) [symmetric] by (intro exI [of _ s] exI [of _ rq]) simp
next
  case (Cons t ts)
  let ?q = "qs(SemQ y := ts)"
  have q: "qs (SemQ y) = t # ts" using Cons(2) by simp
  then have lt: "live (ptker s) t" "state (ptker s) t = READY OR SEMAPHORE" using Cons(7) by simp_all
  obtain s1 where s1: "pt_wake_first y s = Some (True, s1)" "sched_inv (ptker s1) (ready_insert (ptker s) t rq) tq"
    "blocked_queues (ptker s1) H ?q" "woken t (ptker s) (ptker s1)" "s1 = s\<lparr>ptker := ptker s1\<rparr>"
    using wake_first_ok [OF Cons(3,4,5) q lt] by (elim exE conjE) (rule that)
  note f = woken_fields [OF s1(4)]
  have "queue_list (ptker s) (SemQ y) (t # ts)" using Cons(4,5) q by (auto simp: blocked_queues_def)
  then have d: "t \<notin> set ts" using queue_list_heads by fastforce
  have "\<forall>x \<in> set (?q (SemQ y)). live (ptker s1) x \<and> state (ptker s1) x = READY OR SEMAPHORE"
    using Cons(7) q d f(1,9) by auto
  moreover have "qtask (ptker s1) (SemQ y) = NULL" using Cons(6) f(6) by simp
  ultimately obtain s' rq' where s': "wake_all y s1 = Some s'" "sched_inv (ptker s') rq' tq"
    "blocked_queues (ptker s') H (?q(SemQ y := []))"
    "\<forall>t. state (ptker s') t = (if t \<in> set (?q (SemQ y)) then READY else state (ptker s1) t)"
    "set rq' = set (ready_insert (ptker s) t rq) \<union> set (?q (SemQ y))" "pmutexes s' = pmutexes s1"
    using Cons(1) [of ?q s1 "ready_insert (ptker s) t rq"] s1(2,3) Cons(5) by auto
  have "qtask (ptker s) (qnext (ptker s) (SemQ y)) = Task t" using queue_head(1) [OF Cons(4,5)] queue_head(2) [OF Cons(4,5) q] q by simp
  then have "wake_all y s = wake_all y s1" using s1(1) by (subst wake_all.simps) simp
  moreover have "pmutexes s1 = pmutexes s" by (subst s1(5)) simp
  ultimately show ?case using s' f(1) q by (intro exI [of _ s'] exI [of _ rq']) auto
qed

lemma cond_broadcast_wakes:
  assumes "sched_inv (ptker s) rq tq" and "blocked_queues (ptker s) H qs" and "SemQ y \<in> H" and "raw_ok s qs"
    and "qtask (ptker s) (SemQ y) = NULL"
    and "\<forall>t \<in> set (qs (SemQ y)). live (ptker s) t \<and> state (ptker s) t = READY OR SEMAPHORE"
  shows "\<exists>s' rq'. pthread_cond_broadcast n y s = res_bind (pt_schedule n s') (\<lambda>_. Ret 0) \<and> sched_inv (ptker s') rq' tq
     \<and> blocked_queues (ptker s') H (qs(SemQ y := [])) \<and> set rq' = set rq \<union> set (qs (SemQ y))"
proof (cases "q_raw s y")
  case True
  then have e: "qs (SemQ y) = []" using assms(4) by (simp add: raw_ok_def)
  then have "qs(SemQ y := []) = qs" by (simp add: fun_upd_idem)
  then show ?thesis using True assms(1,2) e by (intro exI [of _ s] exI [of _ rq]) (simp add: pthread_cond_broadcast_def)
next
  case False
  then show ?thesis using wake_all_ok [OF assms(1,2,3,5,6)] by (auto simp: pthread_cond_broadcast_def)
qed

section \<open>Departures\<close>

text \<open>The task that an unlock has released takes the mutex when it runs, whoever has locked it in between: two calls have
  returned 0 without an unlock between them.\<close>

lemma mutex_two_holders:
  assumes "sem_magic (ptsem s x) = RT_SEM_MAGIC" and "m_owner (pmutexes s x) = None" and "sem_count (ptsem s x) = 1"
    and "m_kind (pmutexes s x) = PTHREAD_MUTEX_FAST_NP \<or> m_kind (pmutexes s x) = PTHREAD_MUTEX_ERRORCHECK_NP"
    and "blocked_on (ptker s) t = None"
  shows "\<exists>s1 s2. pthread_mutex_lock n x s = Ret 0 s1 \<and> m_owner (pmutexes s1 x) = Some (self s)
     \<and> pm_woken t x s1 = Ret 0 s2 \<and> m_owner (pmutexes s2 x) = Some t"
  using assms by (auto simp: pthread_mutex_lock_def pm_woken_def Let_def)

text \<open>A recursive mutex can never be locked: a fresh one is taken for one that another task owns.\<close>

lemma recursive_lock_stuck:
  assumes "m_kind (pmutexes s x) = PTHREAD_MUTEX_RECURSIVE_NP" and "m_owner (pmutexes s x) = None"
    and "sem_magic (ptsem s x) = RT_SEM_MAGIC" and "sem_count (ptsem s x) = 1"
  shows "pthread_mutex_lock n x s = Stuck" and "pthread_mutex_trylock x s = (EBUSY, s)"
proof -
  have p: "priority_enqueue_task x s1 = Some s2 \<Longrightarrow> pmutexes s2 = pmutexes s1" for s1 s2
    by (auto simp: priority_enqueue_task_def checked_queue_def empty_queue_def Let_def bind_eq_Some_conv split: if_splits)
  have "pm_enter_queue x s \<noteq> Some s'" for s'
    using assms(2) by (auto simp: pm_enter_queue_def Let_def mutex_inherit_prio_def bind_eq_Some_conv dest!: p split: option.splits)
  then have "pm_enter_queue x s = None" by blast
  then show "pthread_mutex_lock n x s = Stuck" using assms by (simp add: pthread_mutex_lock_def pm_wait_def Let_def)
  show "pthread_mutex_trylock x s = (EBUSY, s)" using assms by (simp add: pthread_mutex_trylock_def Let_def)
qed

text \<open>Static initialisation leaves the links NULL, which some of the calls follow.\<close>

lemma raw_signal: "q_raw s y \<Longrightarrow> pthread_cond_signal n y s = Stuck"
  by (simp add: pthread_cond_signal_def)

lemma raw_destroy: "mutex_idle x s None \<Longrightarrow> q_raw s x \<Longrightarrow> pthread_mutex_destroy x s = None"
  by (simp add: pthread_mutex_destroy_def mutex_idle_def)

lemma raw_cond_destroy: "q_raw s y \<Longrightarrow> pthread_cond_destroy y s = (EBUSY, s)"
  by (simp add: pthread_cond_destroy_def)

text \<open>An unlock that gives back an inherited priority leaves the owner in front of more urgent tasks and does not call
  the scheduler.\<close>

lemma unlock_breaks_order:
  assumes b: "blocked_queues (ptker s) H qs" and x: "SemQ x \<in> H" and hd: "qtask (ptker s) (SemQ x) = NULL"
    and h: "pm_held (self s) x s" and q: "qs (SemQ x) = []"
    and rq: "sched_inv (ptker s) (self s # v # rest) tq" and p: "priority (ptker s) v < base_priority (ptker s) (self s)"
  shows "\<exists>s'. pthread_mutex_unlock n x s = Ret 0 s' \<and> ring (rnext (ptker s')) (rprev (ptker s')) LINUX (self s # v # rest)
     \<and> \<not> in_prio_order (ptker s') (self s # v # rest) \<and> \<not> (\<exists>rq' tq'. sched_inv (ptker s') rq' tq')"
proof -
  let ?f = "pm_freed x s"
  have u: "pthread_mutex_unlock n x s = Ret 0 ?f" by (rule unlock_free [OF b x hd h q])
  have r: "ring (rnext (ptker ?f)) (rprev (ptker ?f)) LINUX (self s # v # rest)"
    using sched_invD(2) [OF rq] by (simp add: ready_list_def pm_freed_fields)
  have "v \<noteq> self s" using ring_distinct [OF r] by auto
  then have o: "\<not> in_prio_order (ptker ?f) (self s # v # rest)" using p by (auto simp: in_prio_order_def pm_freed_fields)
  have "rq' = self s # v # rest" if "sched_inv (ptker ?f) rq' tq'" for rq' tq'
    using ring_unique [OF _ r, of rq'] sched_invD(2) [OF that] by (simp add: ready_list_def)
  then have "\<not> (\<exists>rq' tq'. sched_inv (ptker ?f) rq' tq')" using o sched_invD(3) by blast
  then show ?thesis using u r o by blast
qed

text \<open>A signal to a task that waits with a time limit makes it ready and leaves it in the timed list.\<close>

lemma signal_leaves_timed:
  assumes i: "sched_inv (ptker s) rq tq" and b: "blocked_queues (ptker s) H qs" and y: "SemQ y \<in> H" and r: "\<not> q_raw s y"
    and q: "qs (SemQ y) = t # ts" and l: "live (ptker s) t" and st: "state (ptker s) t = READY OR SEMAPHORE OR DELAYED"
  shows "\<exists>s'. pthread_cond_signal n y s = res_bind (pt_schedule n s') (\<lambda>_. Ret 0) \<and> state (ptker s') t = READY
     \<and> ring (tnext (ptker s')) (tprev (ptker s')) LINUX tq \<and> t \<in> set tq \<and> \<not> (\<exists>rq' tq'. sched_inv (ptker s') rq' tq')"
proof -
  let ?k = "ptker s"
  let ?u = "unlink_queue (TaskQ t) (?k\<lparr>blocked_on := (blocked_on ?k)(t := None)\<rparr>)"
  have s: "state ?k t AND NOT (SEMAPHORE OR DELAYED) = READY" "state ?k t \<noteq> READY" "state ?k t AND DELAYED \<noteq> 0"
    unfolding st by simp_all
  have h: "hard_task (set_state t READY ?u) t" using inv_hard(4) [OF i l s(2)] by (simp add: hard_task_def unlink_queue_def)
  have rl: "ready_list (set_state t READY ?u) rq" using sched_invD(2) [OF i] by (simp add: ready_list_def unlink_queue_def)
  obtain k' where k': "enq_ready_task t (set_state t READY ?u) = Some k'" using enq_ready_task_eq [OF rl h] by (rule that)
  have f: "pass_frame (set_state t READY ?u) k'" by (rule enq_ready_frame [OF k'])
  let ?s = "s\<lparr>ptker := k'\<rparr>"
  have e: "pthread_cond_signal n y s = res_bind (pt_schedule n ?s) (\<lambda>_. Ret 0)"
    using wake_first_eq(1) [OF b y q s(1)] k' r by (simp add: pthread_cond_signal_def)
  have "tnext k' = tnext ?k" "tprev k' = tprev ?k" and stk: "state k' t = READY"
    using f by (simp_all add: pass_frame_def unlink_queue_def)
  then have tn: "ring (tnext k') (tprev k') LINUX tq" using sched_invD(4) [OF i] by (simp add: timed_list_def)
  have tt: "t \<in> set tq" using sched_invD(6) [OF i, of t] l s(3) by blast
  have "tq' = tq" if "sched_inv k' rq' tq'" for rq' tq'
    using ring_unique [OF _ tn, of tq'] sched_invD(4) [OF that] by (simp add: timed_list_def)
  then have "\<not> (\<exists>rq' tq'. sched_inv k' rq' tq')" using tt stk sched_invD(6) [of k' _ tq t] by fastforce
  then show ?thesis using e tn stk tt by (intro exI [of _ ?s]) simp
qed

end
