(* ===== verification/Muldiv.thy ===== *)
theory Muldiv
  imports Sched_Core
begin

text \<open>
  The scaling of times, \<^verbatim>\<open>llimd\<close> and \<^verbatim>\<open>imuldiv\<close> of \<^verbatim>\<open>include/asm-i386/rtai-24.h\<close>, instruction by
  instruction: a 64 by 32 bit product divided by a 32-bit number with two multiplications and two
  divisions of 32 bits.  The result is the integer function \<open>llimd\<close> that the rest of the model uses,
  and, for divisors below \<open>2 ^ 30\<close>, the product divided and rounded to the nearest integer.
\<close>

section \<open>The instructions\<close>

text \<open>\<^verbatim>\<open>mull\<close> gives \<^verbatim>\<open>edx\<close> and \<^verbatim>\<open>eax\<close>; \<^verbatim>\<open>divl\<close> gives \<^verbatim>\<open>eax\<close> (quotient) and \<^verbatim>\<open>edx\<close> (remainder), or faults.\<close>

definition mull :: "32 word \<Rightarrow> 32 word \<Rightarrow> 32 word \<times> 32 word" where
  "mull a b = (word_of_nat (unat a * unat b div 2 ^ 32), a * b)"

definition divl :: "32 word \<Rightarrow> 32 word \<Rightarrow> 32 word \<Rightarrow> (32 word \<times> 32 word) option" where
  "divl edx eax d =
     (let n = unat edx * 2 ^ 32 + unat eax in
      if d = 0 \<or> n div unat d \<ge> 2 ^ 32 then None
      else Some (word_of_nat (n div unat d), word_of_nat (n mod unat d)))"

text \<open>\<^verbatim>\<open>addl %ecx,%eax; adcl $0,%edx\<close>\<close>

definition add_carry :: "32 word \<Rightarrow> 32 word \<Rightarrow> 32 word \<Rightarrow> 32 word \<times> 32 word" where
  "add_carry ecx edx eax = (if eax + ecx < eax then edx + 1 else edx, eax + ecx)"

text \<open>The registers after the code: \<^verbatim>\<open>edx\<close> and \<^verbatim>\<open>eax\<close>.\<close>

definition llimd_asm :: "32 word \<Rightarrow> 32 word \<Rightarrow> 32 word \<Rightarrow> 32 word \<Rightarrow> (32 word \<times> 32 word) option" where
  "llimd_asm edx eax esi edi =
     (let (h1, ebx) = mull eax esi;
          (h2, l2) = mull edx esi;
          (h3, l3) = add_carry h1 h2 l2 in do {
        (ecx, r1) \<leftarrow> divl h3 l3 edi;
        (q, r) \<leftarrow> divl r1 ebx edi;
        Some (if sint edi \<ge> sint (push_bit 1 r) then (ecx, q)
              else (if q + 1 = 0 then ecx + 1 else ecx, q + 1))
      })"

definition imuldiv_asm :: "32 word \<Rightarrow> 32 word \<Rightarrow> 32 word \<Rightarrow> 32 word option" where
  "imuldiv_asm eax edx ecx =
     (let (h, l) = mull eax edx in map_option fst (divl h l ecx))"

section \<open>What they compute\<close>

definition pair_val :: "32 word \<times> 32 word \<Rightarrow> nat" where
  "pair_val p = unat (fst p) * 2 ^ 32 + unat (snd p)"

lemma unat32_less: "unat (a :: 32 word) < 2 ^ 32"
  using unsigned_less [of a] by simp

lemma unat32_of_nat: "n < 2 ^ 32 \<Longrightarrow> unat (word_of_nat n :: 32 word) = n"
  by (simp add: unat_of_nat take_bit_eq_mod)

lemma mull_value: "pair_val (mull a b) = unat a * unat b"
proof -
  have "unat a * unat b < 2 ^ 32 * 2 ^ 32" using unat32_less [of a] unat32_less [of b] by (intro mult_strict_mono) simp_all
  then have "unat a * unat b div 2 ^ 32 < 2 ^ 32" by (simp add: div_less_iff_less_mult)
  then have "unat (fst (mull a b)) = unat a * unat b div 2 ^ 32"
    by (simp only: mull_def fst_conv unat32_of_nat)
  moreover have "unat (snd (mull a b)) = unat a * unat b mod 2 ^ 32"
    by (simp add: mull_def unat_word_ariths)
  ultimately show ?thesis by (simp add: pair_val_def)
qed

lemma pair_val_less: "pair_val p < 2 ^ 64"
proof -
  have "unat (fst p) \<le> 2 ^ 32 - 1" "unat (snd p) \<le> 2 ^ 32 - 1"
    using unat32_less [of "fst p"] unat32_less [of "snd p"] by linarith+
  then show ?thesis by (simp add: pair_val_def)
qed

lemma add_carry_value:
  assumes "pair_val (edx, eax) + unat ecx < 2 ^ 64"
  shows "pair_val (add_carry ecx edx eax) = pair_val (edx, eax) + unat ecx"
proof (cases "unat eax + unat ecx < 2 ^ 32")
  case True
  then have "unat (eax + ecx) = unat eax + unat ecx" by (simp add: unat_word_ariths)
  then show ?thesis by (simp add: add_carry_def pair_val_def word_less_nat_alt)
next
  case False
  have l: "unat eax < 2 ^ 32" "unat ecx < 2 ^ 32" by (rule unat32_less)+
  then have s: "unat (eax + ecx) = unat eax + unat ecx - 2 ^ 32"
    using False by (simp add: unat_word_ariths mod_if)
  have "unat edx + 1 < 2 ^ 32" using assms False l by (simp add: pair_val_def)
  then have "unat (edx + 1) = unat edx + 1" by (simp add: unat_word_ariths)
  then show ?thesis using s False l by (simp add: add_carry_def pair_val_def word_less_nat_alt)
qed

lemma divl_value:
  assumes "d \<noteq> 0" and "pair_val (h, l) div unat d < 2 ^ 32"
  shows "\<exists>q r. divl h l d = Some (q, r) \<and> unat q = pair_val (h, l) div unat d \<and> unat r = pair_val (h, l) mod unat d"
proof -
  have "pair_val (h, l) mod unat d < unat d" using assms(1) by (simp add: unat_gt_0)
  also have "\<dots> < 2 ^ 32" by (rule unat32_less)
  finally show ?thesis using assms unat32_of_nat by (simp add: divl_def pair_val_def Let_def)
qed

text \<open>Division of a number of three digits by one digit, in two steps.\<close>

lemma long_division:
  fixes H e d :: nat
  assumes "0 < d"
  shows "(H * 2 ^ 32 + e) div d = H div d * 2 ^ 32 + (H mod d * 2 ^ 32 + e) div d"
    and "(H * 2 ^ 32 + e) mod d = (H mod d * 2 ^ 32 + e) mod d"
proof -
  have "H * 2 ^ 32 = (d * (H div d) + H mod d) * 2 ^ 32" by simp
  also have "\<dots> = (H div d * 2 ^ 32) * d + H mod d * 2 ^ 32" by (simp only: algebra_simps)
  finally have e: "H * 2 ^ 32 + e = (H mod d * 2 ^ 32 + e) + (H div d * 2 ^ 32) * d" by (simp only: add_ac)
  show "(H * 2 ^ 32 + e) div d = H div d * 2 ^ 32 + (H mod d * 2 ^ 32 + e) div d"
    unfolding e using assms by (subst div_mult_self1) (simp_all only: neq0_conv)
  show "(H * 2 ^ 32 + e) mod d = (H mod d * 2 ^ 32 + e) mod d"
    unfolding e by (rule mod_mult_self1)
qed

lemma increment_value:
  "pair_val (if q + 1 = 0 then h + 1 else h, q + 1) = (pair_val (h, q) + 1) mod 2 ^ 64"
proof (cases "q + 1 = 0")
  case True
  then have "(unat q + 1) mod 2 ^ 32 = 0" using unat_word_ariths(1) [of q 1] by simp
  then have q: "unat q = 2 ^ 32 - 1" using unat32_less [of q] by (auto simp: mod_if split: if_splits)
  show ?thesis
  proof (cases "unat h + 1 = 2 ^ 32")
    case True
    then have "unat (h + 1) = 0" by (simp add: unat_word_ariths)
    then show ?thesis using True q \<open>q + 1 = 0\<close> by (simp add: pair_val_def)
  next
    case False
    then have "unat h + 1 < 2 ^ 32" using unat32_less [of h] by linarith
    then have "unat (h + 1) = unat h + 1" "unat h * 2 ^ 32 + 2 ^ 32 < 2 ^ 64" by (simp_all add: unat_word_ariths)
    then show ?thesis using q \<open>q + 1 = 0\<close> by (simp add: pair_val_def)
  qed
next
  case False
  have "unat q + 1 \<noteq> 2 ^ 32"
  proof
    assume "unat q + 1 = 2 ^ 32"
    then have "unat (q + 1) = 0" by (simp add: unat_word_ariths)
    then show False using False by (simp only: unsigned_eq_0_iff)
  qed
  then have "unat q + 1 < 2 ^ 32" using unat32_less [of q] by linarith
  then have q: "unat (q + 1) = unat q + 1" by (simp add: unat_word_ariths)
  then have "pair_val (h, q) + 1 = pair_val (h, q + 1)" by (simp add: pair_val_def)
  then show ?thesis using False pair_val_less [of "(h, q + 1)"] by simp
qed

theorem llimd_asm_value:
  assumes d: "edi \<noteq> 0" and fits: "pair_val (edx, eax) * unat esi div unat edi < 2 ^ 64"
  defines "P \<equiv> pair_val (edx, eax) * unat esi"
  shows "\<exists>v (r :: 32 word). llimd_asm edx eax esi edi = Some v \<and> unat r = P mod unat edi
    \<and> pair_val v = (P div unat edi + (if sint (push_bit 1 r) \<le> sint edi then 0 else 1)) mod 2 ^ 64"
proof -
  let ?d = "unat edi"
  have d0: "0 < ?d" using d by (simp add: unat_gt_0)
  obtain h1 ebx where m1: "mull eax esi = (h1, ebx)" by fastforce
  obtain h2 l2 where m2: "mull edx esi = (h2, l2)" by fastforce
  have v1: "pair_val (h1, ebx) = unat eax * unat esi" and v2: "pair_val (h2, l2) = unat edx * unat esi"
    using mull_value [of eax esi] mull_value [of edx esi] m1 m2 by simp_all
  obtain h3 l3 where a: "add_carry h1 h2 l2 = (h3, l3)" by fastforce
  let ?H = "pair_val (h3, l3)"
  have PH: "P = (pair_val (h2, l2) + unat h1) * 2 ^ 32 + unat ebx"
    using v1 v2 unfolding P_def by (simp add: pair_val_def algebra_simps)
  have "unat edx * unat esi \<le> (2 ^ 32 - 1) * (2 ^ 32 - 1)"
    using unat32_less [of edx] unat32_less [of esi] by (intro mult_le_mono) linarith+
  then have "pair_val (h2, l2) + unat h1 < 2 ^ 64" using v2 unat32_less [of h1] by simp
  then have H: "?H = pair_val (h2, l2) + unat h1" using add_carry_value [of h2 l2 h1] a by simp
  note ld = long_division [OF d0, of ?H "unat ebx"]
  have P: "P = ?H * 2 ^ 32 + unat ebx" using PH H by simp
  have "?H div ?d * 2 ^ 32 \<le> P div ?d" unfolding P ld(1) by simp
  also have "\<dots> < 2 ^ 32 * 2 ^ 32" using fits unfolding P_def by simp
  finally have "?H div ?d < 2 ^ 32" by simp
  from divl_value [OF d this] obtain ecx r1 where q1: "divl h3 l3 edi = Some (ecx, r1)" "unat ecx = ?H div ?d" "unat r1 = ?H mod ?d"
    by blast
  have n: "pair_val (r1, ebx) = ?H mod ?d * 2 ^ 32 + unat ebx" using q1(3) by (simp add: pair_val_def)
  have "?H mod ?d + 1 \<le> ?d" using d0 by (simp add: Suc_leI)
  then have "(?H mod ?d + 1) * 2 ^ 32 \<le> ?d * 2 ^ 32" by (rule mult_le_mono1)
  then have "pair_val (r1, ebx) < 2 ^ 32 * ?d" unfolding n using unat32_less [of ebx] by simp
  then have "pair_val (r1, ebx) div ?d < 2 ^ 32" using d0 by (simp add: div_less_iff_less_mult)
  from divl_value [OF d this] obtain q r where q2: "divl r1 ebx edi = Some (q, r)" "unat q = pair_val (r1, ebx) div ?d"
    "unat r = pair_val (r1, ebx) mod ?d" by blast
  have q: "P div ?d = pair_val (ecx, q)" and r: "P mod ?d = unat r"
    using ld q1(2) q2(2,3) unfolding P n by (simp_all add: pair_val_def)
  have e: "llimd_asm edx eax esi edi = Some (if sint edi \<ge> sint (push_bit 1 r) then (ecx, q)
      else (if q + 1 = 0 then ecx + 1 else ecx, q + 1))"
    by (simp add: llimd_asm_def m1 m2 a q1(1) q2(1))
  have f: "pair_val (if sint edi \<ge> sint (push_bit 1 r) then (ecx, q) else (if q + 1 = 0 then ecx + 1 else ecx, q + 1))
      = (P div ?d + (if sint (push_bit 1 r) \<le> sint edi then 0 else 1)) mod 2 ^ 64"
    using increment_value [of q ecx] pair_val_less [of "(ecx, q)"] unfolding q by simp
  show ?thesis by (intro exI conjI, rule e, rule r [symmetric], rule f)
qed

section \<open>Rounding\<close>

lemma sint_small: "unat (w :: 32 word) < 2 ^ 31 \<Longrightarrow> sint w = int (unat w)"
proof -
  assume "unat w < 2 ^ 31"
  then have "int (unat w) < int (2 ^ 31)" by (simp only: of_nat_less_iff)
  then have "uint w < 2 ^ 31" by simp
  moreover have "- (2 ^ 31) \<le> uint w" by (rule order_trans [of _ 0]) simp_all
  ultimately show "sint w = int (unat w)" by (simp add: sint_uint signed_take_bit_int_eq_self)
qed

lemma round_to_nearest:
  fixes P d :: nat
  assumes "0 < d"
  shows "P div d + (if 2 * (P mod d) \<le> d then 0 else 1) = (2 * P + d - 1) div (2 * d)"
proof -
  have m: "P mod d < d" using assms by simp
  have "2 * P = 2 * (P mod d) + 2 * d * (P div d)" 
    using mult_div_mod_eq [of d P] by (metis add.commute distrib_left mult.assoc)
  then have "2 * P + d - 1 = (2 * (P mod d) + d - 1) + 2 * d * (P div d)" using assms by simp
  then have "(2 * P + d - 1) div (2 * d) = P div d + (2 * (P mod d) + d - 1) div (2 * d)"
    using assms by (simp only: div_mult_self2)
  moreover have "(2 * (P mod d) + d - 1) div (2 * d) = (if 2 * (P mod d) \<le> d then 0 else 1)"
  proof (cases "2 * (P mod d) \<le> d")
    case False
    then show ?thesis using m by (auto intro: div_nat_eqI)
  qed (use assms in \<open>simp add: div_eq_0_iff\<close>)
  ultimately show ?thesis by simp
qed

text \<open>\<open>llimd\<close> on the numbers the registers stand for.\<close>

lemma llimd_nat:
  assumes "L < 2 ^ 64" "m < 2 ^ 32" "0 < d" "d < 2 ^ 30" and "L * m div d + 1 < 2 ^ 63"
  shows "llimd (int L) (int m) (int d) = int (L * m div d + (if 2 * (L * m mod d) \<le> d then 0 else 1))"
proof -
  have e: "int L mod 2 ^ 64 = int L" "int m mod 2 ^ 32 = int m" "int d mod 2 ^ 32 = int d" using assms by simp_all
  have r: "L * m mod d < d" using assms(3) by simp
  then have "2 * (L * m mod d) < 2 ^ 31" using assms(4) by simp
  then have i: "to_int32 (int d) = int d" "to_int32 (2 * (int (L * m mod d))) = 2 * int (L * m mod d)"
    using assms(4) by (simp_all add: to_int32_def signed_take_bit_int_eq_self)
  have q: "int L * int m div int d = int (L * m div d)" "int L * int m mod int d = int (L * m mod d)"
    by (simp_all add: zdiv_int zmod_int)
  have s: "signed_take_bit 63 (int k) = int k" if "k \<le> L * m div d + 1" for k
    using that assms(5) by (intro signed_take_bit_int_eq_self) simp_all
  have c: "2 * int (L * m mod d) \<le> int d \<longleftrightarrow> 2 * (L * m mod d) \<le> d" by linarith
  have o: "int (L * m div d) + 1 = int (L * m div d + 1)" by simp
  show ?thesis unfolding llimd_def e Let_def q i c o using s [of "L * m div d"] s [of "L * m div d + 1"]
    by (auto simp only: if_True if_False add_0_right split: if_splits)
qed

text \<open>C16: the two multiplications and two divisions of 32 bits of
  \<^verbatim>\<open>llimd\<close> compute the product divided and rounded to the nearest integer,
  without fault, for every divisor below a quarter of the range and every quotient that
  fits.\<close>

theorem llimd_equivalence:
  assumes d: "edi \<noteq> 0" "unat edi < 2 ^ 30" and fits: "pair_val (edx, eax) * unat esi div unat edi + 1 < 2 ^ 63"
  shows "\<exists>v. llimd_asm edx eax esi edi = Some v
    \<and> int (pair_val v) = llimd (int (pair_val (edx, eax))) (int (unat esi)) (int (unat edi))
    \<and> pair_val v = (2 * (pair_val (edx, eax) * unat esi) + unat edi - 1) div (2 * unat edi)"
proof -
  let ?P = "pair_val (edx, eax) * unat esi" and ?d = "unat edi"
  have d0: "0 < ?d" using d by (simp add: unat_gt_0)
  have "?P div ?d < 2 ^ 64" using fits by simp
  from llimd_asm_value [OF d(1) this] obtain v and r :: "32 word" where v: "llimd_asm edx eax esi edi = Some v"
    "unat r = ?P mod ?d"
    "pair_val v = (?P div ?d + (if sint (push_bit 1 r) \<le> sint edi then 0 else 1)) mod 2 ^ 64" by blast
  have r: "unat r < ?d" using v(2) d0 by simp
  have "unat (push_bit 1 r) = 2 * unat r" using r d(2) by (simp add: push_bit_eq_mult unat_word_ariths)
  then have "sint (push_bit 1 r) = 2 * int (unat r)" "sint edi = int ?d"
    using r d(2) sint_small [of "push_bit 1 r"] sint_small [of edi] by simp_all
  moreover have "2 * int (unat r) \<le> int ?d \<longleftrightarrow> 2 * unat r \<le> ?d" by linarith
  ultimately have c: "sint (push_bit 1 r) \<le> sint edi \<longleftrightarrow> 2 * (?P mod ?d) \<le> ?d" unfolding v(2) by (simp only:)
  have pv: "pair_val v = ?P div ?d + (if 2 * (?P mod ?d) \<le> ?d then 0 else 1)"
    using v(3) fits unfolding c by (simp split: if_splits)
  have "llimd (int (pair_val (edx, eax))) (int (unat esi)) (int ?d) = int (pair_val v)"
    unfolding pv by (rule llimd_nat [OF pair_val_less unat32_less d0 d(2) fits])
  then show ?thesis using v(1) pv round_to_nearest [OF d0, of ?P] by simp
qed

theorem llimd_equivalence_witness:
  "\<exists>v. llimd_asm 0 3000 1193180 1000000 = Some v \<and> pair_val v = 3580"
proof -
  have "\<exists>v. llimd_asm 0 3000 1193180 1000000 = Some v
    \<and> int (pair_val v) = llimd (int (pair_val (0, 3000))) (int (unat (1193180 :: 32 word))) (int (unat (1000000 :: 32 word)))
    \<and> pair_val v = (2 * (pair_val (0, 3000) * unat (1193180 :: 32 word)) + unat (1000000 :: 32 word) - 1) div (2 * unat (1000000 :: 32 word))"
    by (rule llimd_equivalence) (simp_all add: pair_val_def)
  then show ?thesis by (auto simp: pair_val_def)
qed

text \<open>With a divisor of \<open>2 ^ 30\<close> and more the doubled remainder overflows the signed comparison: 1.5 over 2 is
  not rounded up.\<close>

lemma llimd_no_round: "llimd_asm 0 1500000000 1 2000000000 = Some (0, 0)"
  by (simp add: llimd_asm_def mull_def add_carry_def divl_def push_bit_eq_mult Let_def)

end
