(* ===== verification/Ulldiv.thy ===== *)
theory Ulldiv
  imports Muldiv
begin

text \<open>
  The division of a 64-bit by a 32-bit number of \<^verbatim>\<open>include/asm-i386/rtai-24.h\<close>, in C (\<^verbatim>\<open>ulldiv\<close>) and with two
  divisions of the processor (\<^verbatim>\<open>u64div32c\<close>).  The loop of the first ends, and both compute quotient and remainder.
\<close>

section \<open>The code\<close>

text \<open>The words of the unions: \<^verbatim>\<open>ul[HIGH]\<close> and \<^verbatim>\<open>ul[LOW]\<close>.\<close>

definition high_word :: "64 word \<Rightarrow> 32 word" where "high_word p = ucast (drop_bit 32 p)"

definition low_word :: "64 word \<Rightarrow> 32 word" where "low_word p = ucast p"

partial_function (option) ulldiv_loop ::
    "64 word \<Rightarrow> 64 word \<Rightarrow> 32 word \<Rightarrow> 64 word \<Rightarrow> 64 word \<Rightarrow> (64 word \<times> 64 word) option" where
  "ulldiv_loop qf rf uld p q =
     (if p \<ge> ucast uld then
        let tq = high_word p div uld; q1 = q + push_bit 32 (ucast tq); rh = high_word p - tq * uld;
            tq2 = low_word p div uld in
        ulldiv_loop qf rf uld (ucast rh * rf + ucast (low_word p - tq2 * uld)) (q1 + (ucast rh * qf + ucast tq2))
      else Some (p, q))"

declare ulldiv_loop.simps [code]

text \<open>The quotient and \<^verbatim>\<open>*r\<close>.\<close>

definition ulldiv :: "64 word \<Rightarrow> 32 word \<Rightarrow> (64 word \<times> 32 word) option" where
  "ulldiv ull uld =
     (if uld = 0 then None
      else let qf = ucast (0xFFFFFFFF div uld); rf = 0x100000000 - qf * ucast uld in
        map_option (\<lambda>(p, q). (q, low_word p)) (ulldiv_loop qf rf uld ull 0))"

text \<open>The registers \<^verbatim>\<open>edx\<close>, \<^verbatim>\<open>eax\<close> after the code, and \<^verbatim>\<open>ecx\<close>, the remainder, which the C function does not return.\<close>

definition u64div32c :: "32 word \<Rightarrow> 32 word \<Rightarrow> 32 word \<Rightarrow> (32 word \<times> 32 word \<times> 32 word) option" where
  "u64div32c edx eax ecx = do {
     (q1, r1) \<leftarrow> divl 0 edx ecx;
     (q2, r2) \<leftarrow> divl r1 eax ecx;
     Some (q1, q2, r2)
   }"

section \<open>The loop\<close>

text \<open>One round on natural numbers: a multiple of the divisor goes from the rest to the quotient.\<close>

lemma ulldiv_round:
  fixes h l u :: nat
  assumes u: "0 < u" "u < 2 ^ 32"
  defines "qf \<equiv> (2 ^ 32 - 1) div u" and "d \<equiv> h div u * 2 ^ 32 + (h mod u * ((2 ^ 32 - 1) div u) + l div u)"
    and "p1 \<equiv> h mod u * (2 ^ 32 - (2 ^ 32 - 1) div u * u) + l mod u"
  shows "h * 2 ^ 32 + l = d * u + p1" and "u \<le> h * 2 ^ 32 + l \<Longrightarrow> 0 < d"
proof -
  have q: "qf * u \<le> 2 ^ 32" unfolding qf_def by (rule le_trans [OF div_times_less_eq_dividend]) simp
  have "(h mod u) * 2 ^ 32 = (h mod u) * (qf * u) + (h mod u) * (2 ^ 32 - qf * u)"
    using q by (simp flip: distrib_left)
  moreover have "h * 2 ^ 32 = (h div u * u) * 2 ^ 32 + (h mod u) * 2 ^ 32"
    by (simp flip: distrib_right)
  moreover have "l = l div u * u + l mod u" by simp
  ultimately show "h * 2 ^ 32 + l = d * u + p1"
    unfolding d_def p1_def qf_def [symmetric] by (simp add: algebra_simps)
  show "0 < d" if "u \<le> h * 2 ^ 32 + l"
  proof (cases "h = 0")
    case True
    then show ?thesis using that u by (simp add: d_def div_greater_zero_iff)
  next
    case False
    have "0 < (2 ^ 32 - 1) div u" using u by (simp add: div_greater_zero_iff)
    then show ?thesis using False u by (cases "u \<le> h") (simp_all add: d_def div_greater_zero_iff)
  qed
qed

lemma words_value: "unat p = unat (high_word p) * 2 ^ 32 + unat (low_word p)"
proof -
  have "unat p < 2 ^ 32 * 2 ^ 32" using unsigned_less [of p, where 'a = nat] by simp
  then have "unat p div 2 ^ 32 < 2 ^ 32" by (rule less_mult_imp_div_less)
  then have "unat (high_word p) = unat p div 2 ^ 32"
    unfolding high_word_def unsigned_ucast_eq unat_drop_bit_eq by (simp add: drop_bit_eq_div take_bit_eq_mod)
  moreover have "unat (low_word p) = unat p mod 2 ^ 32" by (simp add: low_word_def unsigned_ucast_eq take_bit_eq_mod)
  ultimately show ?thesis by simp
qed

lemma unat64_of_nat: "n < 2 ^ 64 \<Longrightarrow> unat (word_of_nat n :: 64 word) = n"
  by (simp add: unat_of_nat take_bit_eq_mod)

lemma ucast_of_nat: "(ucast (w :: 32 word) :: 64 word) = word_of_nat (unat w)"
  by simp

lemma unat_ucast64: "unat (ucast (w :: 32 word) :: 64 word) = unat w"
  using unat32_less [of w] by (simp add: unsigned_ucast_eq take_bit_nat_eq_self)

text \<open>The same round on words, where nothing overflows.\<close>

lemma ulldiv_words:
  fixes p q :: "64 word" and uld :: "32 word"
  assumes u: "uld \<noteq> 0" and le: "ucast uld \<le> p" and b: "unat q * unat uld + unat p < 2 ^ 64"
  defines "qf \<equiv> (ucast (0xFFFFFFFF div uld) :: 64 word)" and "rf \<equiv> 0x100000000 - (ucast (0xFFFFFFFF div uld) :: 64 word) * ucast uld"
    and "tq \<equiv> high_word p div uld" and "tq2 \<equiv> low_word p div uld"
  shows "\<exists>d. 0 < d \<and> unat p = d * unat uld + unat (ucast (high_word p - tq * uld) * rf + ucast (low_word p - tq2 * uld))
     \<and> unat (q + push_bit 32 (ucast tq) + (ucast (high_word p - tq * uld) * qf + ucast tq2)) = unat q + d"
proof -
  let ?u = "unat uld" and ?h = "unat (high_word p)" and ?l = "unat (low_word p)" and ?F = "(2 ^ 32 - 1) div unat uld"
  let ?d = "?h div ?u * 2 ^ 32 + (?h mod ?u * ?F + ?l div ?u)" and ?p = "?h mod ?u * (2 ^ 32 - ?F * ?u) + ?l mod ?u"
  have u0: "0 < ?u" "?u < 2 ^ 32" using u unat32_less by (simp_all add: unat_gt_0)
  have le': "?u \<le> ?h * 2 ^ 32 + ?l"
    using le unfolding words_value [symmetric] by (simp add: word_le_nat_alt unat_ucast64)
  have P: "unat p = ?d * ?u + ?p" and D: "0 < ?d"
    using ulldiv_round(1) [OF u0, of ?h ?l] ulldiv_round(2) [OF u0 le'] words_value [of p] by simp_all
  have F: "unat (0xFFFFFFFF div uld :: 32 word) = ?F" by (simp add: unat_div)
  have m: "high_word p - tq * uld = high_word p mod uld" "low_word p - tq2 * uld = low_word p mod uld"
    by (simp_all add: tq_def tq2_def minus_div_mult_eq_mod)
  have fu: "?F * ?u \<le> 2 ^ 32" by (rule le_trans [OF div_times_less_eq_dividend]) simp
  have rf: "rf = word_of_nat (2 ^ 32 - ?F * ?u)" unfolding rf_def ucast_of_nat F using fu by (simp add: of_nat_diff)
  have "ucast (high_word p - tq * uld) * rf + ucast (low_word p - tq2 * uld) = (word_of_nat ?p :: 64 word)"
    unfolding m ucast_of_nat rf unat_mod by (simp only: of_nat_mult of_nat_add)
  moreover have "?p < 2 ^ 64" using P unsigned_less [of p, where 'a = nat] by simp
  ultimately have p1: "unat (ucast (high_word p - tq * uld) * rf + ucast (low_word p - tq2 * uld)) = ?p"
    using unat64_of_nat by presburger
  have T2: "unat tq2 = ?l div ?u" by (simp add: tq2_def unat_div)
  have "push_bit 32 (ucast tq) = (word_of_nat (?h div ?u * 2 ^ 32) :: 64 word)"
    unfolding push_bit_eq_mult ucast_of_nat tq_def unat_div by simp
  then have "q + push_bit 32 (ucast tq) + (ucast (high_word p - tq * uld) * qf + ucast tq2) = (word_of_nat (unat q + ?d) :: 64 word)"
    unfolding m ucast_of_nat qf_def F unat_mod T2 by (simp add: algebra_simps)
  moreover have "unat q + ?d < 2 ^ 64"
  proof -
    have "unat q + ?d \<le> (unat q + ?d) * ?u" using u0(1) by simp
    also have "\<dots> \<le> unat q * ?u + unat p" unfolding P distrib_right add.assoc [symmetric]
      by (rule order.trans [OF le_add1 le_add1])
    finally show ?thesis using b by simp
  qed
  ultimately have "unat (q + push_bit 32 (ucast tq) + (ucast (high_word p - tq * uld) * qf + ucast tq2)) = unat q + ?d"
    using unat64_of_nat by presburger
  then show ?thesis using P D p1 by (intro exI [of _ ?d]) simp
qed

lemma ulldiv_loop_value:
  fixes uld :: "32 word"
  assumes u: "uld \<noteq> 0"
  defines "qf \<equiv> (ucast (0xFFFFFFFF div uld) :: 64 word)" and "rf \<equiv> 0x100000000 - (ucast (0xFFFFFFFF div uld) :: 64 word) * ucast uld"
  shows "unat q * unat uld + unat p < 2 ^ 64 \<Longrightarrow> \<exists>p' q'. ulldiv_loop qf rf uld p q = Some (p', q')
     \<and> unat p' = unat p mod unat uld \<and> unat q' = unat q + unat p div unat uld"
proof (induction "unat p" arbitrary: p q rule: less_induct)
  case less
  show ?case
  proof (cases "ucast uld \<le> p")
    case False
    then have "unat p < unat uld" by (simp add: word_le_nat_alt unat_ucast64)
    then show ?thesis using False by (simp add: ulldiv_loop.simps)
  next
    case True
    let ?t = "high_word p div uld" and ?t2 = "low_word p div uld"
    let ?p = "ucast (high_word p - ?t * uld) * rf + ucast (low_word p - ?t2 * uld)"
    let ?q = "q + push_bit 32 (ucast ?t) + (ucast (high_word p - ?t * uld) * qf + ucast ?t2)"
    obtain d where d: "0 < d" "unat p = d * unat uld + unat ?p" "unat ?q = unat q + d"
      using ulldiv_words [OF u True less.prems] unfolding qf_def rf_def by blast
    have u0: "0 < unat uld" using u by (simp add: unat_gt_0)
    have "unat ?p < unat p" using d(1,2) u0 by simp
    moreover have "unat ?q * unat uld + unat ?p < 2 ^ 64" using less.prems d(2,3) by (simp add: algebra_simps)
    ultimately obtain p' q' where r: "ulldiv_loop qf rf uld ?p ?q = Some (p', q')" "unat p' = unat ?p mod unat uld"
      "unat q' = unat ?q + unat ?p div unat uld" using less.hyps by blast
    have "ulldiv_loop qf rf uld p q = ulldiv_loop qf rf uld ?p ?q" using True by (subst ulldiv_loop.simps) (simp add: Let_def)
    then show ?thesis using r d u0 by simp
  qed
qed

lemma ulldiv_nat:
  assumes "uld \<noteq> 0"
  shows "\<exists>q r. ulldiv ull uld = Some (q, r) \<and> unat q = unat ull div unat uld \<and> unat r = unat ull mod unat uld"
proof -
  obtain p q where r: "ulldiv_loop (ucast (0xFFFFFFFF div uld)) (0x100000000 - ucast (0xFFFFFFFF div uld) * ucast uld) uld ull 0 = Some (p, q)"
    "unat p = unat ull mod unat uld" "unat q = unat ull div unat uld"
    using ulldiv_loop_value [OF assms, of 0 ull] unsigned_less [of ull, where 'a = nat] by auto
  have "unat p < unat uld" using r(2) assms by (simp add: unat_gt_0)
  then have "unat p < 2 ^ 32" using unat32_less [of uld] by (rule less_trans)
  then have "unat (low_word p) = unat p" by (simp add: low_word_def unsigned_ucast_eq take_bit_nat_eq_self)
  then show ?thesis using r assms by (simp add: ulldiv_def Let_def)
qed

text \<open>C17: the loop of \<^verbatim>\<open>ulldiv\<close>, which divides the two halves of a
  64-bit number separately and goes on with the rest, ends for every divisor other than 0, and the
  result is the quotient and the remainder; no step overflows.\<close>

theorem ulldiv_divides:
  assumes "uld \<noteq> 0"
  shows "ulldiv ull uld = Some (ull div ucast uld, ucast (ull mod ucast uld))"
proof -
  obtain q r where u: "ulldiv ull uld = Some (q, r)" "unat q = unat ull div unat uld" "unat r = unat ull mod unat uld"
    using ulldiv_nat [OF assms, of ull] by blast
  have "unat (ucast (ull mod ucast uld) :: 32 word) = unat ull mod unat uld"
  proof -
    have "unat (ull mod ucast uld) = unat r" using u(3) by (simp only: unat_mod unat_ucast64)
    then show ?thesis using unat32_less [of r] u(3) by (simp add: unsigned_ucast_eq take_bit_nat_eq_self)
  qed
  then have "q = ull div ucast uld" "r = ucast (ull mod ucast uld)"
    using u(2,3) by (simp_all add: word_unat_eq_iff unat_div unat_ucast64)
  then show ?thesis using u(1) by simp
qed

lemma u64div32c_divides:
  assumes "ecx \<noteq> 0"
  shows "\<exists>q1 q2 r. u64div32c edx eax ecx = Some (q1, q2, r) \<and> pair_val (q1, q2) = pair_val (edx, eax) div unat ecx
     \<and> unat r = pair_val (edx, eax) mod unat ecx"
proof -
  let ?c = "unat ecx"
  have c: "0 < ?c" using assms by (simp add: unat_gt_0)
  have "unat edx div ?c < 2 ^ 32" using unat32_less [of edx] div_le_dividend le_less_trans by blast
  then obtain q1 r1 where 1: "divl 0 edx ecx = Some (q1, r1)" "unat q1 = unat edx div ?c" "unat r1 = unat edx mod ?c"
    using divl_value [OF assms, of 0 edx] by (auto simp: pair_val_def)
  have "r < c \<Longrightarrow> a < 2 ^ 32 \<Longrightarrow> (r * 2 ^ 32 + a) div c < 2 ^ 32" for r a c :: nat
  proof -
    assume "r < c" "a < 2 ^ 32"
    then have "r * 2 ^ 32 + a < (r + 1) * 2 ^ 32" "(r + 1) * 2 ^ 32 \<le> c * 2 ^ 32" by simp_all
    then show "(r * 2 ^ 32 + a) div c < 2 ^ 32" by (intro less_mult_imp_div_less) (simp add: mult.commute)
  qed
  then have "pair_val (r1, eax) div ?c < 2 ^ 32" using 1(3) c unat32_less [of eax] by (simp add: pair_val_def)
  then obtain q2 r2 where 2: "divl r1 eax ecx = Some (q2, r2)" "unat q2 = pair_val (r1, eax) div ?c" "unat r2 = pair_val (r1, eax) mod ?c"
    using divl_value [OF assms] by blast
  have e: "unat edx = unat q1 * ?c + unat r1" unfolding 1(2,3) by simp
  have "pair_val (edx, eax) = unat q1 * 2 ^ 32 * ?c + pair_val (r1, eax)"
    unfolding pair_val_def fst_conv snd_conv e by (simp add: algebra_simps)
  then have "pair_val (edx, eax) div ?c = unat q1 * 2 ^ 32 + pair_val (r1, eax) div ?c"
    "pair_val (edx, eax) mod ?c = pair_val (r1, eax) mod ?c" using c by simp_all
  then show ?thesis using 1(1) 2 by (simp add: u64div32c_def pair_val_def)
qed

theorem ulldiv_divides_witness: "ulldiv 12345678901234 1000000000 = Some (12345, 678901234)"
proof -
  have "ulldiv 12345678901234 1000000000 = Some (12345678901234 div ucast (1000000000 :: 32 word), ucast (12345678901234 mod ucast (1000000000 :: 32 word) :: 64 word))"
    by (rule ulldiv_divides) simp
  then show ?thesis by simp
qed

lemma sint32_small:
  fixes r :: "32 word"
  assumes "unat r < 2 ^ 31"
  shows "sint r = int (unat r)"
proof -
  have "int (unat r) < int (2 ^ 31)" using assms by (simp only: of_nat_less_iff)
  then have u: "uint r < 2 ^ 31" by (simp only: uint_nat of_nat_power of_nat_numeral)
  have l: "- (2 ^ 31) \<le> uint r" by (rule order.trans [OF _ uint_ge_0]) simp
  have "signed_take_bit 31 (uint r) = uint r" by (rule signed_take_bit_int_eq_self [OF l u])
  then show ?thesis unfolding sint_uint by simp
qed

end
