(* ===== verification/Pthreads.thy ===== *)
theory Pthreads
  imports Semaphores Pqueues Ulldiv
begin

text \<open>
  The threads of \<^verbatim>\<open>posix/src/rtai_pthread.c\<close>: their attributes, creation and end, their scheduling parameters and the
  clock.  The state \<open>pthr\<close> holds the array of descriptors, the structures of other modules that a task points to, with
  the heap they are allocated from (\<open>thpq\<close>), and the scheduler (\<open>thker\<close>).  A descriptor contains the structure of its
  task, known by the number \<open>rtask\<close>; a pointer to the descriptor \<open>j\<close> is the number \<open>j + 1\<close>.  Of the descriptor the fields
  that the module reads are modelled.
\<close>

section \<open>Data\<close>

abbreviation SCHED_OTHER :: int where "SCHED_OTHER \<equiv> 0"
abbreviation SCHED_FIFO :: int where "SCHED_FIFO \<equiv> 1"
abbreviation SCHED_RR :: int where "SCHED_RR \<equiv> 2"
abbreviation PTHREAD_INHERIT_SCHED :: int where "PTHREAD_INHERIT_SCHED \<equiv> 0"
abbreviation PTHREAD_EXPLICIT_SCHED :: int where "PTHREAD_EXPLICIT_SCHED \<equiv> 1"
abbreviation PTHREAD_CREATE_JOINABLE :: int where "PTHREAD_CREATE_JOINABLE \<equiv> 0"
abbreviation PTHREAD_CREATE_DETACHED :: int where "PTHREAD_CREATE_DETACHED \<equiv> 1"
abbreviation PTHREAD_SCOPE_SYSTEM :: int where "PTHREAD_SCOPE_SYSTEM \<equiv> 0"
abbreviation PTHREAD_SCOPE_PROCESS :: int where "PTHREAD_SCOPE_PROCESS \<equiv> 1"
abbreviation PTHREAD_PRIORITY_FACTOR :: int where "PTHREAD_PRIORITY_FACTOR \<equiv> 99"
abbreviation POSIX_THREADS_MAX :: nat where "POSIX_THREADS_MAX \<equiv> 64"
abbreviation ESRCH :: int where "ESRCH \<equiv> 3"
abbreviation EINTR :: int where "EINTR \<equiv> 4"
abbreviation EOPNOTSUPP :: int where "EOPNOTSUPP \<equiv> 95"

record pthread_attr =
  detachstate :: int
  schedpolicy :: int
  sched_prio :: int
  inheritsched :: int
  scope :: int

record pthread_descr =
  p_tid :: nat
  p_priority :: int
  p_policy :: int
  p_detached :: int
  start_policy :: int
  start_prio :: int

record pthr =
  rt_pthread_descr :: "nat \<Rightarrow> pthread_descr"
  rtask :: "nat \<Rightarrow> tid"
  thpq :: pq
  thker :: kst

type_synonym 'a thres = "(pthr, 'a) sres"

abbreviation in_thker :: "(kst, 'a) sres \<Rightarrow> pthr \<Rightarrow> 'a thres" where
  "in_thker \<equiv> lift_res thker (\<lambda>k s. s\<lparr>thker := k\<rparr>)"

definition upd_descr :: "nat \<Rightarrow> (pthread_descr \<Rightarrow> pthread_descr) \<Rightarrow> pthr \<Rightarrow> pthr" where
  "upd_descr j f s = s\<lparr>rt_pthread_descr := (rt_pthread_descr s)(j := f (rt_pthread_descr s j))\<rparr>"

section \<open>Attributes\<close>

definition get_max_priority :: "int \<Rightarrow> int" where
  "get_max_priority p = (if p = SCHED_FIFO \<or> p = SCHED_RR then 99 else if p = SCHED_OTHER then 0 else - EINVAL)"

definition get_min_priority :: "int \<Rightarrow> int" where
  "get_min_priority p = (if p = SCHED_FIFO \<or> p = SCHED_RR then 1 else if p = SCHED_OTHER then 0 else - EINVAL)"

definition pthread_attr_init :: "int \<times> pthread_attr" where
  "pthread_attr_init = (0, \<lparr>detachstate = PTHREAD_CREATE_JOINABLE, schedpolicy = SCHED_OTHER, sched_prio = 0,
     inheritsched = PTHREAD_EXPLICIT_SCHED, scope = PTHREAD_SCOPE_SYSTEM\<rparr>)"

definition pthread_attr_setdetachstate :: "int \<Rightarrow> pthread_attr \<Rightarrow> int \<times> pthread_attr" where
  "pthread_attr_setdetachstate v a =
     (if v < PTHREAD_CREATE_JOINABLE \<or> v > PTHREAD_CREATE_DETACHED then (EINVAL, a) else (0, a\<lparr>detachstate := v\<rparr>))"

definition pthread_attr_setschedparam :: "int \<Rightarrow> pthread_attr \<Rightarrow> int \<times> pthread_attr" where
  "pthread_attr_setschedparam v a =
     (if v < get_min_priority (schedpolicy a) \<or> v > get_max_priority (schedpolicy a) then (EINVAL, a)
      else (0, a\<lparr>sched_prio := v\<rparr>))"

definition pthread_attr_setschedpolicy :: "int \<Rightarrow> pthread_attr \<Rightarrow> int \<times> pthread_attr" where
  "pthread_attr_setschedpolicy v a =
     (if v \<noteq> SCHED_OTHER \<and> v \<noteq> SCHED_FIFO \<and> v \<noteq> SCHED_RR then (EINVAL, a) else (0, a\<lparr>schedpolicy := v\<rparr>))"

definition pthread_attr_setinheritsched :: "int \<Rightarrow> pthread_attr \<Rightarrow> int \<times> pthread_attr" where
  "pthread_attr_setinheritsched v a =
     (if v \<noteq> PTHREAD_INHERIT_SCHED \<and> v \<noteq> PTHREAD_EXPLICIT_SCHED then (EINVAL, a) else (0, a\<lparr>inheritsched := v\<rparr>))"

definition pthread_attr_setscope :: "int \<Rightarrow> pthread_attr \<Rightarrow> int \<times> pthread_attr" where
  "pthread_attr_setscope v a =
     (if v = PTHREAD_SCOPE_SYSTEM then (0, a\<lparr>scope := v\<rparr>)
      else if v = PTHREAD_SCOPE_PROCESS then (EOPNOTSUPP, a) else (EINVAL, a))"

definition pthread_attr_getdetachstate :: "pthread_attr \<Rightarrow> int \<times> int" where
  "pthread_attr_getdetachstate a = (0, detachstate a)"

definition pthread_attr_getschedparam :: "pthread_attr \<Rightarrow> int \<times> int" where
  "pthread_attr_getschedparam a = (0, sched_prio a)"

definition pthread_attr_getschedpolicy :: "pthread_attr \<Rightarrow> int \<times> int" where
  "pthread_attr_getschedpolicy a = (0, schedpolicy a)"

definition pthread_attr_getinheritsched :: "pthread_attr \<Rightarrow> int \<times> int" where
  "pthread_attr_getinheritsched a = (0, inheritsched a)"

definition pthread_attr_getscope :: "pthread_attr \<Rightarrow> int \<times> int" where
  "pthread_attr_getscope a = (0, scope a)"

section \<open>Creation and end\<close>

definition find_descr :: "pthr \<Rightarrow> nat option" where
  "find_descr s = find (\<lambda>j. p_tid (rt_pthread_descr s j) = 0) [0..<POSIX_THREADS_MAX]"

definition start_params :: "pthread_attr \<Rightarrow> pthread_descr \<Rightarrow> pthread_descr" where
  "start_params a d =
     (let d1 = (if inheritsched a = PTHREAD_EXPLICIT_SCHED then d\<lparr>start_policy := schedpolicy a, start_prio := sched_prio a\<rparr> else d) in
      d1\<lparr>p_priority := start_prio d1, p_policy := start_policy d1\<rparr>)"

definition new_descr :: "nat \<Rightarrow> pthread_attr option \<Rightarrow> pthread_descr \<Rightarrow> pthread_descr" where
  "new_descr j attr d =
     (let d1 = d\<lparr>p_tid := j + 1, p_priority := 0, p_policy := SCHED_OTHER,
            p_detached := (case attr of None \<Rightarrow> 0 | Some a \<Rightarrow> detachstate a), start_policy := SCHED_OTHER\<rparr>;
          d2 = (case attr of None \<Rightarrow> d1 | Some a \<Rightarrow> if schedpolicy a \<noteq> SCHED_OTHER then start_params a d1 else d1) in
      if p_priority d2 > PTHREAD_PRIORITY_FACTOR then d2\<lparr>p_priority := PTHREAD_PRIORITY_FACTOR\<rparr> else d2)"

text \<open>The structure of the task points to its descriptor.\<close>

definition attach_descr :: "nat \<Rightarrow> pthr \<Rightarrow> pthr option" where
  "attach_descr j s = do {
     q \<leftarrow> init_z_apps (rtask s j) (thpq s);
     Some (s\<lparr>thpq := q\<lparr>zmem := (zmem q)(system_data q (rtask s j) := (zmem q (system_data q (rtask s j)))\<lparr>z_pthreads := j + 1\<rparr>)\<rparr>\<rparr>)
   }"

definition set_priority :: "tid \<Rightarrow> int \<Rightarrow> kst \<Rightarrow> kst" where
  "set_priority t p k = k\<lparr>priority := (priority k)(t := p)\<rparr>"

text \<open>\<^verbatim>\<open>rt_task_init\<close>, which clears \<^verbatim>\<open>system_data_ptr\<close>; \<open>st\<close> is the stack that \<^verbatim>\<open>sched_malloc\<close> returns, \<open>fpu\<close> the configured
  \<^verbatim>\<open>TASK_USES_FPU\<close>.\<close>

definition thread_task_init :: "nat option \<Rightarrow> bool \<Rightarrow> nat \<Rightarrow> pthr \<Rightarrow> int \<times> pthr" where
  "thread_task_init st fpu j s =
     (let t = rtask s j; (r, k) = rt_task_init_cpuid t st (priority (thker s) t) fpu None 0 (thker s) in
      (r, if r = 0 then s\<lparr>thker := k, thpq := (thpq s)\<lparr>system_data := (system_data (thpq s))(t := 0)\<rparr>\<rparr> else s\<lparr>thker := k\<rparr>))"

text \<open>The results are the return value and \<^verbatim>\<open>*thread\<close>.\<close>

definition start_thread :: "nat \<Rightarrow> nat \<Rightarrow> pthr \<Rightarrow> (int \<times> nat option) thres" where
  "start_thread n j s =
     lift_opt (attach_descr j (upd_descr j (\<lambda>d. d\<lparr>p_tid := j + 1\<rparr>) s)) (\<lambda>s1.
       res_bind (in_thker (rt_task_resume n (rtask s1 j) (thker s1)) s1) (\<lambda>r s2.
         if r < 0 then
           let s3 = upd_descr j (\<lambda>d. d\<lparr>p_tid := 0\<rparr>) s2 in
           res_bind (in_thker (rt_task_delete n (rtask s3 j) (thker s3)) s3) (\<lambda>_. Ret (EAGAIN, Some (j + 1)))
         else Ret (0, Some (j + 1)) s2))"

definition pthread_create :: "nat \<Rightarrow> nat option \<Rightarrow> bool \<Rightarrow> pthread_attr option \<Rightarrow> pthr \<Rightarrow> (int \<times> nat option) thres" where
  "pthread_create n st fpu attr s =
     (case find_descr s of
        None \<Rightarrow> Ret (EAGAIN, None) s
      | Some j \<Rightarrow>
          let s1 = upd_descr j (new_descr j attr) s;
              s2 = s1\<lparr>thker := set_priority (rtask s1 j) (PTHREAD_PRIORITY_FACTOR - p_priority (rt_pthread_descr s1 j)) (thker s1)\<rparr> in
          lift_opt (attach_descr j s2) (\<lambda>s3.
            let (r, s4) = thread_task_init st fpu j s3 in
            if r = 0 then start_thread n j s4 else Ret (EAGAIN, None) s4))"

definition pthread_exit :: "nat \<Rightarrow> pthr \<Rightarrow> unit thres" where
  "pthread_exit n s =
     (let cur = rt_current (thker s); z = system_data (thpq s) cur; d = z_pthreads (zmem (thpq s) z) in
      if z = 0 \<or> d = 0 then Stuck
      else lift_opt (free_z_apps cur (thpq s)) (\<lambda>q.
        let s1 = upd_descr (d - 1) (\<lambda>e. e\<lparr>p_tid := 0\<rparr>) (s\<lparr>thpq := q\<rparr>) in
        res_bind (in_thker (rt_task_delete n cur (thker s1)) s1) (\<lambda>_. Ret ())))"

definition sched_yield :: "nat \<Rightarrow> pthr \<Rightarrow> int thres" where
  "sched_yield n s = res_bind (in_thker (rt_task_yield n (thker s)) s) (\<lambda>_. Ret 0)"

definition pthread_self :: "pthr \<Rightarrow> nat option" where
  "pthread_self s =
     (let z = system_data (thpq s) (rt_current (thker s)); d = z_pthreads (zmem (thpq s) z) in
      if z = 0 \<or> d = 0 then None else Some (p_tid (rt_pthread_descr s (d - 1))))"

section \<open>Scheduling parameters\<close>

text \<open>\<open>None\<close> where the descriptor is outside the array.\<close>

definition pthread_setschedparam :: "nat \<Rightarrow> int \<Rightarrow> int \<Rightarrow> pthr \<Rightarrow> (int \<times> pthr) option" where
  "pthread_setschedparam thread pol prio s =
     (if thread = 0 \<or> thread > POSIX_THREADS_MAX then None
      else let j = thread - 1; mx = get_max_priority pol; mn = get_min_priority pol; t = rtask s j; k = thker s in
        Some (if p_tid (rt_pthread_descr s j) = 0 then (ESRCH, s)
          else if mn < 0 \<or> mx < 0 then (EINVAL, s)
          else if prio < mn \<or> prio > mx then (EINVAL, s)
          else (0, (upd_descr j (\<lambda>d. d\<lparr>p_priority := prio, p_policy := pol\<rparr>) s)
                     \<lparr>thker := k\<lparr>priority := (priority k)(t := PTHREAD_PRIORITY_FACTOR - prio),
                        base_priority := (base_priority k)(t := PTHREAD_PRIORITY_FACTOR - prio)\<rparr>\<rparr>)))"

definition pthread_getschedparam :: "nat \<Rightarrow> pthr \<Rightarrow> (int \<times> (int \<times> int) option) option" where
  "pthread_getschedparam thread s =
     (if thread = 0 \<or> thread > POSIX_THREADS_MAX then None
      else let d = rt_pthread_descr s (thread - 1) in
        Some (if p_tid d = 0 then (ESRCH, None) else (0, Some (p_policy d, p_priority d))))"

section \<open>The clock\<close>

text \<open>\<^verbatim>\<open>ts_from_ns\<close> of \<^verbatim>\<open>posix/include/rtai_pthread_int.h\<close>; the fields are 32-bit integers.\<close>

definition ts_from_ns :: "int \<Rightarrow> (int \<times> int) option" where
  "ts_from_ns t = do {
     (q, r) \<leftarrow> ulldiv (word_of_int t) 1000000000;
     let sec = sint (ucast q :: 32 word);
     let nsec = sint r;
     Some (if nsec < 0 then (sec - 1, nsec + 1000000000) else (sec, nsec))
   }"

definition clock_gettime :: "int \<Rightarrow> pthr \<Rightarrow> (int \<times> (int \<times> int) \<times> pthr) option" where
  "clock_gettime clockid s =
     (if clockid \<noteq> 0 then Some (- EINVAL, (0, 0), s)
      else let (now, k) = rt_get_time (thker s) in
        map_option (\<lambda>ts. (0, ts, s\<lparr>thker := k\<rparr>)) (ts_from_ns (count2nano k now)))"

definition timespec2count :: "kst \<Rightarrow> int \<times> int \<Rightarrow> rtime" where
  "timespec2count k ts = nano2count k (fst ts * 1000000000 + snd ts)"

definition count2timespec :: "kst \<Rightarrow> rtime \<Rightarrow> (int \<times> int) option" where
  "count2timespec k t = map_option (\<lambda>(q, r). (sint (ucast q :: 32 word), sint r)) (ulldiv (word_of_int (count2nano k t)) 1000000000)"

text \<open>\<open>want\<close>: \<^verbatim>\<open>rmtp\<close> is not NULL; what is stored there is returned.\<close>

definition nanosleep :: "nat \<Rightarrow> int \<times> int \<Rightarrow> bool \<Rightarrow> kst \<Rightarrow> (int \<times> (int \<times> int) option) res" where
  "nanosleep n rq want s =
     (if snd rq \<ge> 1000000000 \<or> snd rq < 0 \<or> fst rq < 0 then Ret (- EINVAL, None) s
      else
        let (now, s1) = rt_get_time s; expire = now + timespec2count s1 rq in
        res_bind (rt_sleep_until n expire s1) (\<lambda>_ s2.
          let (now2, s3) = rt_get_time s2; left = expire - now2 in
          if left > 0 then
            (if want then lift_opt (count2timespec s3 left) (\<lambda>ts. Ret (- EINTR, Some ts) s3) else Ret (- EINTR, None) s3)
          else Ret (0, None) s3))"

end
