(* ===== verification/Pthreads_Props.thy ===== *)
theory Pthreads_Props
  imports Pthreads Pqueue_Lifecycle Sched_Lifecycle
begin

text \<open>
  What the calls on threads guarantee: the attributes stay valid, a created thread is a ready task of the priority asked
  for with a descriptor of its own, the parameters set are those read, the clock is split into seconds and nanoseconds.
  And that each creation loses a block of the heap.
\<close>

section \<open>Attributes\<close>

definition attr_ok :: "pthread_attr \<Rightarrow> bool" where
  "attr_ok a \<longleftrightarrow> detachstate a \<in> {PTHREAD_CREATE_JOINABLE, PTHREAD_CREATE_DETACHED}
     \<and> schedpolicy a \<in> {SCHED_OTHER, SCHED_FIFO, SCHED_RR} \<and> 0 \<le> sched_prio a \<and> sched_prio a \<le> PTHREAD_PRIORITY_FACTOR
     \<and> inheritsched a \<in> {PTHREAD_INHERIT_SCHED, PTHREAD_EXPLICIT_SCHED} \<and> scope a = PTHREAD_SCOPE_SYSTEM"

datatype attr_set = SetDetach int | SetParam int | SetSchedPolicy int | SetInherit int | SetScope int

primrec attr_exec :: "attr_set \<Rightarrow> pthread_attr \<Rightarrow> int \<times> pthread_attr" where
  "attr_exec (SetDetach v) = pthread_attr_setdetachstate v"
| "attr_exec (SetParam v) = pthread_attr_setschedparam v"
| "attr_exec (SetSchedPolicy v) = pthread_attr_setschedpolicy v"
| "attr_exec (SetInherit v) = pthread_attr_setinheritsched v"
| "attr_exec (SetScope v) = pthread_attr_setscope v"

lemmas attr_setters = pthread_attr_setdetachstate_def pthread_attr_setschedparam_def pthread_attr_setschedpolicy_def
  pthread_attr_setinheritsched_def pthread_attr_setscope_def get_max_priority_def get_min_priority_def

lemma attr_exec_ok: "attr_ok a \<Longrightarrow> attr_ok (snd (attr_exec c a))"
  by (cases c) (auto simp: attr_ok_def attr_setters)

lemma attrs_valid: "attr_ok (fold (\<lambda>c a. snd (attr_exec c a)) cs (snd pthread_attr_init))"
proof -
  have "attr_ok a \<Longrightarrow> attr_ok (fold (\<lambda>c a. snd (attr_exec c a)) cs a)" for a
    by (induction cs arbitrary: a) (simp_all add: attr_exec_ok)
  then show ?thesis by (simp add: pthread_attr_init_def attr_ok_def)
qed

text \<open>What a setter that succeeds has set is what the getter returns.\<close>

lemma attr_roundtrip:
  "fst (pthread_attr_setdetachstate v a) = 0 \<Longrightarrow> pthread_attr_getdetachstate (snd (pthread_attr_setdetachstate v a)) = (0, v)"
  "fst (pthread_attr_setschedparam v a) = 0 \<Longrightarrow> pthread_attr_getschedparam (snd (pthread_attr_setschedparam v a)) = (0, v)"
  "fst (pthread_attr_setschedpolicy v a) = 0 \<Longrightarrow> pthread_attr_getschedpolicy (snd (pthread_attr_setschedpolicy v a)) = (0, v)"
  "fst (pthread_attr_setinheritsched v a) = 0 \<Longrightarrow> pthread_attr_getinheritsched (snd (pthread_attr_setinheritsched v a)) = (0, v)"
  "fst (pthread_attr_setscope v a) = 0 \<Longrightarrow> pthread_attr_getscope (snd (pthread_attr_setscope v a)) = (0, v)"
  by (auto simp: attr_setters pthread_attr_getdetachstate_def pthread_attr_getschedparam_def pthread_attr_getschedpolicy_def
      pthread_attr_getinheritsched_def pthread_attr_getscope_def split: if_splits)

text \<open>The priority is checked against the policy of the moment, which may change afterwards: a real time policy with the
  priority 0.\<close>

lemma attr_priority_stale:
  "schedpolicy a = SCHED_OTHER \<Longrightarrow> sched_prio a = 0 \<Longrightarrow>
     (let a' = snd (pthread_attr_setschedpolicy SCHED_FIFO a) in schedpolicy a' = SCHED_FIFO \<and> sched_prio a' < get_min_priority SCHED_FIFO)"
  by (simp add: attr_setters)

section \<open>Creation\<close>

lemma new_descr_fields: "p_tid (new_descr j attr d) = j + 1" "p_priority (new_descr j attr d) \<le> PTHREAD_PRIORITY_FACTOR"
  by (auto simp: new_descr_def start_params_def Let_def split: option.splits)

lemma new_descr_explicit:
  assumes "attr_ok a" and "inheritsched a = PTHREAD_EXPLICIT_SCHED" and "schedpolicy a \<noteq> SCHED_OTHER"
  shows "p_priority (new_descr j (Some a) d) = sched_prio a" "p_policy (new_descr j (Some a) d) = schedpolicy a"
  using assms by (simp_all add: new_descr_def start_params_def attr_ok_def Let_def)

lemma new_descr_default: "p_priority (new_descr j None d) = 0" "p_policy (new_descr j None d) = SCHED_OTHER"
  by (simp_all add: new_descr_def Let_def)

lemma inv_set_prio_dead:
  assumes i: "sched_inv k rq tq" and n: "\<not> live k t" and t: "t \<noteq> LINUX" and p: "0 \<le> p"
  shows "sched_inv (set_priority t p k) rq tq"
  unfolding set_priority_def by (rule inv_set_prio [OF i]) (use sched_invD(5) [OF i, of t] n t p in auto)

lemma lift_res_bind_Ret: "lift_res get put (res_bind r (\<lambda>_. Ret v)) s = res_bind (lift_res get put r s) (\<lambda>_. Ret v)"
  by (induction r arbitrary: s) simp_all

text \<open>A block for the pointers is allocated when the task has none.\<close>

lemma attach_descr_ok:
  assumes h: "heap_ok (pq_heap (thpq s)) A" and z: "system_data (thpq s) (rtask s j) = 0"
    and m: "rt_malloc SIZEOF_Z_APPS (pq_heap (thpq s)) = Some (p, h')" "p \<noteq> 0"
  shows "\<exists>q. attach_descr j s = Some (s\<lparr>thpq := q\<rparr>) \<and> pq_heap q = h' \<and> A p = None \<and> heap_ok h' (A(p \<mapsto> SIZEOF_Z_APPS))
     \<and> system_data q = (system_data (thpq s))(rtask s j := p) \<and> z_pthreads (zmem q p) = j + 1"
proof -
  have "A p = None" "heap_ok h' (A(p \<mapsto> SIZEOF_Z_APPS))"
    using mm.alloc_law [OF h, of SIZEOF_Z_APPS] m unfolding round_16 by auto
  then show ?thesis using m z by (intro exI) (auto simp: attach_descr_def init_z_apps_def)
qed


text \<open>A thread is created: when the heap has room for two blocks more, it is ready behind the tasks of its priority when
  the scheduler is called, and has the first free descriptor.  Only the block \<open>p2\<close> is known to the task:
  \<^verbatim>\<open>rt_task_init\<close> has cleared the pointer to \<open>p1\<close>, which stays allocated.\<close>

text \<open>The second half of a creation: the descriptor is attached again, and the task resumed.\<close>

lemma start_thread_ok:
  assumes k: "sched_inv (thker s) rq tq" "live (thker s) t" "state (thker s) t = READY OR SUSPENDED" "suspdepth (thker s) t = 1"
    and t: "rtask s j = t" and h: "heap_ok (pq_heap (thpq s)) A" and z: "system_data (thpq s) t = 0"
    and m: "rt_malloc SIZEOF_Z_APPS (pq_heap (thpq s)) = Some (p, h')" "p \<noteq> 0"
  shows "\<exists>s'. start_thread m j s = res_bind (in_thker (rt_schedule m (thker s')) s') (\<lambda>_. Ret (0, Some (j + 1)))
     \<and> sched_inv (thker s') (ready_insert (thker s) t rq) tq \<and> state (thker s') t = READY
     \<and> rt_pthread_descr s' j = (rt_pthread_descr s j)\<lparr>p_tid := j + 1\<rparr> \<and> A p = None
     \<and> heap_ok (pq_heap (thpq s')) (A(p \<mapsto> SIZEOF_Z_APPS)) \<and> system_data (thpq s') = (system_data (thpq s))(t := p)
     \<and> z_pthreads (zmem (thpq s') p) = j + 1"
proof -
  let ?s5 = "upd_descr j (\<lambda>e. e\<lparr>p_tid := j + 1\<rparr>) s"
  have s5: "thker ?s5 = thker s" "thpq ?s5 = thpq s" "rtask ?s5 j = t" "rt_pthread_descr ?s5 j = (rt_pthread_descr s j)\<lparr>p_tid := j + 1\<rparr>"
    using t by (simp_all add: upd_descr_def)
  have a5: "heap_ok (pq_heap (thpq ?s5)) A" "system_data (thpq ?s5) (rtask ?s5 j) = 0"
    "rt_malloc SIZEOF_Z_APPS (pq_heap (thpq ?s5)) = Some (p, h')" using h z m(1) s5 by simp_all
  obtain q2 where q2: "attach_descr j ?s5 = Some (?s5\<lparr>thpq := q2\<rparr>)" "pq_heap q2 = h'" "A p = None"
     "heap_ok h' (A(p \<mapsto> SIZEOF_Z_APPS))" "system_data q2 = (system_data (thpq s))(t := p)" "z_pthreads (zmem q2 p) = j + 1"
    using attach_descr_ok [OF a5 m(2)] s5 by auto
  obtain k6 where k6: "rt_task_resume m t (thker s) = schedule_ret m 0 k6" "sched_inv k6 (ready_insert (thker s) t rq) tq"
    "state k6 = (state (thker s))(t := READY)" using resume_lists [OF k, of m] by blast
  let ?s6 = "?s5\<lparr>thpq := q2\<rparr>"
  let ?s' = "?s6\<lparr>thker := k6\<rparr>"
  have r6: "rt_task_resume m (rtask ?s6 j) (thker ?s6) = schedule_ret m 0 k6" using k6(1) s5 by simp
  have "in_thker (schedule_ret m 0 k6) ?s6 = res_bind (in_thker (rt_schedule m k6) ?s6) (\<lambda>_. Ret (0 :: int))"
    unfolding schedule_ret_def by (rule lift_res_bind_Ret)
  moreover have "in_thker (rt_schedule m k6) ?s6 = in_thker (rt_schedule m (thker ?s')) ?s'" by (cases "rt_schedule m k6") simp_all
  ultimately have "start_thread m j s = res_bind (in_thker (rt_schedule m (thker ?s')) ?s') (\<lambda>_. Ret (0, Some (j + 1)))"
    unfolding start_thread_def q2(1) lift_opt_simps r6 by (simp add: res_bind_assoc)
  then show ?thesis using k6(2,3) q2(2-6) s5(4) by (intro exI [of _ ?s']) simp
qed



text \<open>A creation that fails because there is no stack keeps its descriptor, although no thread is there to give it back.\<close>

lemma create_without_stack:
  assumes j: "find_descr s = Some j" and n: "magic (thker s) (rtask s j) \<noteq> RT_TASK_MAGIC"
    and a: "attach_descr j ((upd_descr j (new_descr j attr) s)\<lparr>thker := set_priority (rtask s j)
      (PTHREAD_PRIORITY_FACTOR - p_priority (new_descr j attr (rt_pthread_descr s j))) (thker s)\<rparr>) = Some s3"
  shows "\<exists>s'. pthread_create m None fpu attr s = Ret (EAGAIN, None) s' \<and> p_tid (rt_pthread_descr s' j) = j + 1"
proof -
  have f: "rt_pthread_descr s3 j = new_descr j attr (rt_pthread_descr s j)"
    "priority (thker s3) (rtask s3 j) = PTHREAD_PRIORITY_FACTOR - p_priority (new_descr j attr (rt_pthread_descr s j))"
    "magic (thker s3) (rtask s3 j) \<noteq> RT_TASK_MAGIC"
    using a n by (auto simp: attach_descr_def upd_descr_def set_priority_def bind_eq_Some_conv)
  have "0 \<le> priority (thker s3) (rtask s3 j)" using f(2) new_descr_fields(2) [of j attr "rt_pthread_descr s j"] by simp
  then have "thread_task_init None fpu j s3 = (- ENOMEM, s3)"
    using f(3) by (simp add: thread_task_init_def rt_task_init_cpuid_def Let_def)
  moreover have "pthread_create m None fpu attr s = lift_opt (Some s3) (\<lambda>s3.
            let (r, s4) = thread_task_init None fpu j s3 in
            if r = 0 then start_thread m j s4 else Ret (EAGAIN, None) s4)"
    unfolding pthread_create_def j option.case Let_def a [symmetric] by (simp add: upd_descr_def)
  ultimately show ?thesis using f(1) new_descr_fields(1) by (intro exI [of _ s3]) simp
qed

lemma create_full: "(\<forall>j < POSIX_THREADS_MAX. p_tid (rt_pthread_descr s j) \<noteq> 0) \<Longrightarrow> pthread_create m st fpu attr s = Ret (EAGAIN, None) s"
proof -
  assume "\<forall>j < POSIX_THREADS_MAX. p_tid (rt_pthread_descr s j) \<noteq> 0"
  then have "find_descr s = None" by (auto simp: find_descr_def find_None_iff)
  then show ?thesis by (simp add: pthread_create_def)
qed

section \<open>Scheduling parameters\<close>

text \<open>What is set is what is read; other threads keep theirs.\<close>

lemma schedparam_roundtrip:
  assumes "thread \<noteq> 0" "thread \<le> POSIX_THREADS_MAX" and "pthread_setschedparam thread pol prio s = Some (0, s')"
  shows "pthread_getschedparam thread s' = Some (0, Some (pol, prio))"
    and "\<forall>u. u \<noteq> thread \<longrightarrow> pthread_getschedparam u s' = pthread_getschedparam u s"
  using assms by (auto simp: pthread_setschedparam_def pthread_getschedparam_def upd_descr_def Let_def split: if_splits)

lemma schedparam_range:
  assumes "pthread_setschedparam thread pol prio s = Some (0, s')"
  shows "0 \<le> priority (thker s') (rtask s (thread - 1)) \<and> priority (thker s') (rtask s (thread - 1)) \<le> PTHREAD_PRIORITY_FACTOR"
  using assms by (auto simp: pthread_setschedparam_def get_min_priority_def get_max_priority_def Let_def split: if_splits)

text \<open>The new priority does not move a ready task to its place in the ready list.\<close>

lemma schedparam_breaks_order:
  assumes rq: "sched_inv (thker s) (u # t # rest) tq" and t: "rtask s (thread - 1) = t"
    and r: "pthread_setschedparam thread pol prio s = Some (0, s')" and p: "PTHREAD_PRIORITY_FACTOR - prio < priority (thker s) u"
  shows "\<not> (\<exists>rq' tq'. sched_inv (thker s') rq' tq')"
proof -
  have k: "priority (thker s') = (priority (thker s))(t := PTHREAD_PRIORITY_FACTOR - prio)" "rnext (thker s') = rnext (thker s)"
    "rprev (thker s') = rprev (thker s)"
    using r t by (auto simp: pthread_setschedparam_def Let_def split: if_splits)
  have ring: "ring (rnext (thker s')) (rprev (thker s')) LINUX (u # t # rest)"
    using sched_invD(2) [OF rq] k(2,3) by (simp add: ready_list_def)
  have "u \<noteq> t" using ring_distinct [OF ring] by auto
  then have o: "\<not> in_prio_order (thker s') (u # t # rest)" using p k(1) by (auto simp: in_prio_order_def)
  have "rq' = u # t # rest" if "sched_inv (thker s') rq' tq'" for rq' tq'
    using ring_unique [OF _ ring, of rq'] sched_invD(2) [OF that] by (simp add: ready_list_def)
  then show ?thesis using o sched_invD(3) by blast
qed

section \<open>The clock\<close>

lemma ts_from_ns_ok:
  assumes "0 \<le> t" and "t < 2 ^ 31 * 1000000000"
  shows "ts_from_ns t = Some (t div 1000000000, t mod 1000000000)"
proof -
  let ?w = "word_of_int t :: 64 word"
  have ut: "unat ?w = nat t" using assms by (simp add: unat_eq_nat_uint uint_word_of_int)
  have n: "unat (1000000000 :: 32 word) = nat 1000000000" by simp
  obtain q r where u: "ulldiv ?w 1000000000 = Some (q, r)" "unat q = nat t div nat 1000000000" "unat r = nat t mod nat 1000000000"
    using ulldiv_nat [of 1000000000 ?w] unfolding ut n by auto
  have b: "t div 1000000000 < 2 ^ 31" using assms by (simp add: div_less_iff_less_mult)
  have q: "int (unat q) = t div 1000000000" "int (unat r) = t mod 1000000000"
    unfolding u(2,3) using assms(1) by (simp_all add: zdiv_int zmod_int)
  have "int (unat q) < int (2 ^ 31)" unfolding q(1) using b by simp
  moreover have "int (unat r) < int (2 ^ 31)" unfolding q(2) by (rule less_trans [OF pos_mod_bound]) simp_all
  ultimately have l: "unat q < 2 ^ 31" "unat r < 2 ^ 31" by (simp_all only: of_nat_less_iff)
  have uq: "unat (ucast q :: 32 word) = unat q" using l(1) by (simp add: unsigned_ucast_eq take_bit_nat_eq_self)
  have "sint (ucast q :: 32 word) = t div 1000000000" "sint r = t mod 1000000000"
    using sint32_small [of "ucast q"] sint32_small [of r] uq l q by simp_all
  then show ?thesis using u(1) assms(1) by (simp add: ts_from_ns_def Let_def)
qed

end
