(* ===== verification/Example_Pthreads.thy ===== *)
theory Example_Pthreads
  imports Example_State Example_Pqueues Pthread_Props Pthreads_Props
begin

text \<open>
  The properties of the POSIX mutexes, conditions and threads applied to the scheduler's state \<open>kern\<close>.
\<close>

section \<open>A mutex without waiting tasks\<close>

definition no_threads :: pth where
  "no_threads = \<lparr>pmutexes = \<lambda>_. \<lparr>m_owner = None, m_kind = 0\<rparr>, q_raw = \<lambda>_. False, ptker = kern\<rparr>"

lemma no_threads_fields [simp]: "ptker no_threads = kern" "q_raw no_threads = (\<lambda>_. False)"
  by (simp_all add: no_threads_def)

theorem mutex_is_lock_witness:
  "\<exists>s'. run_calls (pm_exec 0 7) [(1, Lock), (2, TryLock), (2, Unlock), (1, Unlock), (2, Lock)]
      (PTHREAD_MUTEX_INITIALIZER 7 PTHREAD_MUTEX_FAST_NP no_threads) = Ret [0, EBUSY, EINVAL, 0, 0] s'
    \<and> m_owner (pmutexes s' 7) = Some 2"
proof -
  have i: "mutex_idle 7 (PTHREAD_MUTEX_INITIALIZER 7 PTHREAD_MUTEX_FAST_NP no_threads) None"
    by (rule mutex_init_idle(3)) simp
  have r: "run_spec lock_spec [(1, Lock), (2, TryLock), (2, Unlock), (1, Unlock), (2, Lock)] None = Some ([0, EBUSY, EINVAL, 0, 0], Some 2)"
    by simp
  show ?thesis using mutex_is_lock [OF i r, of 0] by (auto simp: mutex_idle_def)
qed

section \<open>A condition\<close>

text \<open>Task 1 owns the mutex 0, for which task 4 waits, and waits for the condition 1.\<close>

definition held_mutex :: pth where
  "held_mutex = no_threads\<lparr>pmutexes := (pmutexes no_threads)(0 := \<lparr>m_owner = Some 1, m_kind = PTHREAD_MUTEX_ERRORCHECK_NP\<rparr>)\<rparr>"

lemma held_mutex_fields [simp]:
  "ptker held_mutex = kern" "q_raw held_mutex = (\<lambda>_. False)"
  "pmutexes held_mutex 0 = \<lparr>m_owner = Some 1, m_kind = PTHREAD_MUTEX_ERRORCHECK_NP\<rparr>"
  by (simp_all add: held_mutex_def)

theorem cond_wait_queues_witness:
  "\<exists>s' rest rq'. pthread_cond_wait 3 1 0 held_mutex = res_bind (pt_schedule 3 s') rest \<and> sched_inv (ptker s') rq' [3]
     \<and> blocked_queues (ptker s') heads (waiters(SemQ 1 := [1], SemQ 0 := [])) \<and> set rq' = {2, 4}
     \<and> state (ptker s') 1 = READY OR SEMAPHORE \<and> m_owner (pmutexes s' 0) = None"
proof -
  have r: "raw_ok held_mutex waiters" by (simp add: raw_ok_def)
  have h: "pm_held 1 0 held_mutex" by (simp add: pm_held_def no_sem_def)
  have x: "SemQ 0 \<in> heads" "SemQ 1 \<in> heads" "(0 :: semid) \<noteq> 1" by (simp_all add: heads_def)
  have nq: "\<forall>h \<in> heads. 1 \<notin> set (waiters h)" by (simp add: waiters_def)
  have w: "waiters (SemQ 0) = [4]" "waiters (SemQ 1) = []" by (simp_all add: waiters_def)
  have t: "\<forall>t \<in> set (waiters (SemQ 0)). live (ptker held_mutex) t \<and> state (ptker held_mutex) t = READY OR SEMAPHORE"
    unfolding w by simp
  have i: "sched_inv (ptker held_mutex) [1, 2] [3]" and b: "blocked_queues (ptker held_mutex) heads waiters"
    using kern_inv kern_queues by simp_all
  have c: "self held_mutex = 1" "live (ptker held_mutex) 1" "state (ptker held_mutex) 1 = READY" "0 \<le> priority (ptker held_mutex) 1"
    and q: "qtask (ptker held_mutex) (TaskQ 1) = Task 1" "qtask (ptker held_mutex) (SemQ 0) = NULL"
    and p: "0 \<le> base_priority (ptker held_mutex) 1" "base_priority (ptker held_mutex) 1 < RT_LINUX_PRIORITY"
    by simp_all
  obtain s' rest rq' where s': "pthread_cond_wait 3 1 0 held_mutex = res_bind (pt_schedule 3 s') rest" "sched_inv (ptker s') rq' [3]"
    "blocked_queues (ptker s') heads (waiters(SemQ 1 := waiters (SemQ 1) @ [1], SemQ 0 := tl (waiters (SemQ 0))))"
    "state (ptker s') 1 = READY OR SEMAPHORE" "m_owner (pmutexes s' 0) = None"
    "set rq' = set (take 1 (waiters (SemQ 0))) \<union> (set [1, 2] - {1})"
    using cond_wait_queues [OF i b x c nq q(1) r q(2) h t p, of 3] by (elim exE conjE) (rule that)
  have "set rq' = {2, 4}" unfolding s'(6) w by auto
  then show ?thesis using s'(1,2,4,5) s'(3) [unfolded w]
    by - (rule exI [of _ s'], rule exI [of _ rest], rule exI [of _ rq'], simp)
qed

section \<open>A thread\<close>

definition ex_threads :: pthr where
  "ex_threads = \<lparr>rt_pthread_descr = \<lambda>_. \<lparr>p_tid = 0, p_priority = 0, p_policy = 0, p_detached = 0, start_policy = 0, start_prio = 0\<rparr>,
     rtask = \<lambda>j. j + 6, thpq = boot_pq demo_heap, thker = kern\<rparr>"

lemma ex_threads_fields [simp]:
  "thker ex_threads = kern" "rtask ex_threads = (\<lambda>j. j + 6)" "pq_heap (thpq ex_threads) = demo_heap"
  "system_data (thpq ex_threads) = (\<lambda>_. 0)" "p_tid (rt_pthread_descr ex_threads j) = 0"
  by (simp_all add: ex_threads_def boot_pq_def)

lemma malloc_first_block:
  assumes "chk_list h \<noteq> 0" and "free_list h (chk_list h) = b" and "b \<noteq> 0" and "16 \<le> free_size h b" and "16 \<le> granularity h - OVERHEAD"
  shows "rt_malloc 16 h = Some (b + HDR, request_chunk (count_block 16 (take_block 16 (chk_list h) 0 b h)))"
proof -
  have r: "round_size 16 = 16" by (simp add: round_size_def)
  have "alloc_in_chk 16 (chk_list h) h = Some (b + HDR, count_block 16 (take_block 16 (chk_list h) 0 b h))"
    using assms(2-4) by (simp add: alloc_in_chk_def alloc_walk.simps)
  then show ?thesis using assms r by (simp add: rt_malloc_def malloc_walk.simps)
qed

lemma demo_mallocs:
  "\<exists>p1 h1 p2 h2. rt_malloc 16 demo_heap = Some (p1, h1) \<and> p1 \<noteq> 0 \<and> rt_malloc 16 h1 = Some (p2, h2) \<and> p2 \<noteq> 0"
proof -
  let ?h = "request_chunk (count_block 16 (take_block 16 1024 0 1088 demo_heap))"
  have 1: "rt_malloc 16 demo_heap = Some (1104, ?h)"
    using malloc_first_block [of demo_heap 1088] by (simp add: demo_heap_def)
  have "chk_list ?h = 1024" "free_list ?h 1024 = 1120" "16 \<le> free_size ?h 1120" "granularity ?h = 256"
    by (simp_all add: request_chunk_def count_block_def take_block_def Let_def demo_heap_def)
  then have 2: "rt_malloc 16 ?h = Some (1120 + HDR, request_chunk (count_block 16 (take_block 16 1024 0 1120 ?h)))"
    using malloc_first_block [of ?h 1120] by simp
  show ?thesis by (intro exI conjI, rule 1, simp, rule 2) simp
qed


end
