(* ===== verification/Tick_Queue.thy ===== *)
theory Tick_Queue
  imports Sched_Tasks Mem_Mgr
begin

text \<open>
  The tick queue of a task, \<^verbatim>\<open>lxrt/qblk.c\<close>: blocks that describe a function to be called, in doubly linked lists between
  hooks.  The list of the hook \<open>TqHook\<close> holds first the expired blocks and, from \<open>tq_wait\<close> on, those that wait; the \<open>b_tic\<close>
  of a waiting block is the time from the one before it, that of the first from the time \<open>tq_tic\<close> of the last look at
  the clock.  The queue of one task is modelled, at the address \<open>tick_queue\<close>, 0 when there is none; the address 0 is
  NULL.  A function that a block names is a client's: \<open>F f a e\<close> is what the function \<open>f\<close> does for the arguments \<open>a\<close> and \<open>e\<close>
  (\<^verbatim>\<open>exec_func\<close>), \<open>C f a b\<close> what the cancel function of a client's hook does.  \<open>None\<close> is a NULL dereference or an endless walk.
\<close>

section \<open>Data\<close>

datatype qhookid = TqHook | TqExec | Hook addr

datatype qcancel = NoCancel | TqCancel | UserCancel nat

text \<open>\<open>b_lnk\<close> is \<open>None\<close> for a static block, whose field is -1.\<close>

record qblk =
  b_hook :: "qhookid option"
  b_prv :: addr
  b_nxt :: addr
  b_lnk :: "addr option"
  b_tic :: rtime
  b_rpt :: rtime
  b_fun :: nat
  b_arg :: nat
  b_evn :: int

record qhook =
  q_first :: addr
  q_last :: addr
  q_cancel :: qcancel
  q_carg :: nat

record tqst =
  blk :: "addr \<Rightarrow> qblk"
  hooks :: "qhookid \<Rightarrow> qhook"
  tq_free :: addr
  tq_wait :: addr
  tq_tic :: rtime
  tick_queue :: addr
  user_ptr :: "addr \<Rightarrow> addr"
  qheap :: heap
  tqker :: kst

type_synonym 'a qres = "(tqst, 'a) sres"

type_synonym qfuns = "nat \<Rightarrow> nat \<Rightarrow> int \<Rightarrow> tqst \<Rightarrow> unit qres"

type_synonym qcancels = "nat \<Rightarrow> nat \<Rightarrow> addr \<Rightarrow> tqst \<Rightarrow> tqst option"

abbreviation in_tqker :: "(kst, 'a) sres \<Rightarrow> tqst \<Rightarrow> 'a qres" where
  "in_tqker \<equiv> lift_res tqker (\<lambda>k s. s\<lparr>tqker := k\<rparr>)"

abbreviation SIZEOF_QBLK :: nat where "SIZEOF_QBLK \<equiv> 44"
abbreviation SIZEOF_QHOOK :: nat where "SIZEOF_QHOOK \<equiv> 16"
abbreviation SIZEOF_TICKQUEUE :: nat where "SIZEOF_TICKQUEUE \<equiv> 52"

definition upd_blk :: "addr \<Rightarrow> (qblk \<Rightarrow> qblk) \<Rightarrow> tqst \<Rightarrow> tqst" where
  "upd_blk a f s = s\<lparr>blk := (blk s)(a := f (blk s a))\<rparr>"

definition upd_hook :: "qhookid \<Rightarrow> (qhook \<Rightarrow> qhook) \<Rightarrow> tqst \<Rightarrow> tqst" where
  "upd_hook h f s = s\<lparr>hooks := (hooks s)(h := f (hooks s h))\<rparr>"

text \<open>The lock is a field of the queue.\<close>

definition LOCK_TQ :: "tqst \<Rightarrow> tqst option" where
  "LOCK_TQ s = (if tick_queue s = 0 then None else Some s)"

section \<open>Links\<close>

text \<open>\<^verbatim>\<open>*(a ? &a->prv : &hook->tail) = v\<close> and \<^verbatim>\<open>*(a ? &a->nxt : &hook->head) = v\<close>.\<close>

definition set_prv :: "qhookid option \<Rightarrow> addr \<Rightarrow> addr \<Rightarrow> tqst \<Rightarrow> tqst option" where
  "set_prv h a v s =
     (if a \<noteq> 0 then Some (upd_blk a (\<lambda>b. b\<lparr>b_prv := v\<rparr>) s)
      else map_option (\<lambda>k. upd_hook k (\<lambda>q. q\<lparr>q_last := v\<rparr>) s) h)"

definition set_nxt :: "qhookid option \<Rightarrow> addr \<Rightarrow> addr \<Rightarrow> tqst \<Rightarrow> tqst option" where
  "set_nxt h a v s =
     (if a \<noteq> 0 then Some (upd_blk a (\<lambda>b. b\<lparr>b_nxt := v\<rparr>) s)
      else map_option (\<lambda>k. upd_hook k (\<lambda>q. q\<lparr>q_first := v\<rparr>) s) h)"

definition rt_qBlkUnhook :: "addr \<Rightarrow> tqst \<Rightarrow> tqst option" where
  "rt_qBlkUnhook cur s0 = do {
     s \<leftarrow> LOCK_TQ s0;
     s1 \<leftarrow> set_prv (b_hook (blk s cur)) (b_nxt (blk s cur)) (b_prv (blk s cur)) s;
     s2 \<leftarrow> set_nxt (b_hook (blk s1 cur)) (b_prv (blk s1 cur)) (b_nxt (blk s1 cur)) s1;
     Some (upd_blk cur (\<lambda>b. b\<lparr>b_hook := None\<rparr>) s2)
   }"

definition unhooked :: "addr \<Rightarrow> tqst \<Rightarrow> tqst option" where
  "unhooked cur s = (if b_hook (blk s cur) \<noteq> None then rt_qBlkUnhook cur s else Some s)"

definition rt_qBlkBefore :: "addr \<Rightarrow> addr \<Rightarrow> tqst \<Rightarrow> tqst option" where
  "rt_qBlkBefore cur nxt s = do {
     s0 \<leftarrow> unhooked cur s;
     s1 \<leftarrow> LOCK_TQ s0;
     let s2 = upd_blk cur (\<lambda>b. b\<lparr>b_hook := b_hook (blk s1 nxt), b_nxt := nxt, b_prv := b_prv (blk s1 nxt)\<rparr>) s1;
     let s3 = upd_blk nxt (\<lambda>b. b\<lparr>b_prv := cur\<rparr>) s2;
     set_nxt (b_hook (blk s3 cur)) (b_prv (blk s3 cur)) cur s3
   }"

definition rt_qBlkAfter :: "addr \<Rightarrow> addr \<Rightarrow> tqst \<Rightarrow> tqst option" where
  "rt_qBlkAfter cur prv s = do {
     s0 \<leftarrow> unhooked cur s;
     s1 \<leftarrow> LOCK_TQ s0;
     let s2 = upd_blk cur (\<lambda>b. b\<lparr>b_hook := b_hook (blk s1 prv), b_prv := prv, b_nxt := b_nxt (blk s1 prv)\<rparr>) s1;
     let s3 = upd_blk prv (\<lambda>b. b\<lparr>b_nxt := cur\<rparr>) s2;
     set_prv (b_hook (blk s3 cur)) (b_nxt (blk s3 cur)) cur s3
   }"

definition rt_qBlkAtHead :: "addr \<Rightarrow> qhookid \<Rightarrow> tqst \<Rightarrow> tqst option" where
  "rt_qBlkAtHead cur h s = do {
     s0 \<leftarrow> unhooked cur s;
     s1 \<leftarrow> LOCK_TQ s0;
     let s2 = upd_blk cur (\<lambda>b. b\<lparr>b_hook := Some h, b_prv := 0, b_nxt := q_first (hooks s1 h)\<rparr>) s1;
     s3 \<leftarrow> set_prv (Some h) (b_nxt (blk s2 cur)) cur s2;
     Some (upd_hook h (\<lambda>q. q\<lparr>q_first := cur\<rparr>) s3)
   }"

definition rt_qBlkAtTail :: "addr \<Rightarrow> qhookid \<Rightarrow> tqst \<Rightarrow> tqst option" where
  "rt_qBlkAtTail cur h s = do {
     s0 \<leftarrow> unhooked cur s;
     s1 \<leftarrow> LOCK_TQ s0;
     let s2 = upd_blk cur (\<lambda>b. b\<lparr>b_hook := Some h, b_nxt := 0, b_prv := q_last (hooks s1 h)\<rparr>) s1;
     s3 \<leftarrow> set_nxt (Some h) (b_prv (blk s2 cur)) cur s2;
     Some (upd_hook h (\<lambda>q. q\<lparr>q_last := cur\<rparr>) s3)
   }"

section \<open>Time\<close>

definition tqcancel :: "addr \<Rightarrow> tqst \<Rightarrow> tqst option" where
  "tqcancel cur s0 = do {
     s \<leftarrow> LOCK_TQ s0;
     let n = b_nxt (blk s cur);
     let s1 = (if n \<noteq> 0 then upd_blk n (\<lambda>b. b\<lparr>b_tic := b_tic b + b_tic (blk s cur)\<rparr>) s else s);
     Some (if tq_wait s1 = cur then s1\<lparr>tq_wait := b_nxt (blk s1 cur)\<rparr> else s1)
   }"

partial_function (option) adjust_loop :: "rtime \<Rightarrow> addr \<Rightarrow> tqst \<Rightarrow> tqst option" where
  "adjust_loop tic cur s =
     (if tic < b_tic (blk s cur) then Some (upd_blk cur (\<lambda>b. b\<lparr>b_tic := b_tic b - tic\<rparr>) (s\<lparr>tq_wait := cur\<rparr>))
      else
        let s1 = upd_blk cur (\<lambda>b. b\<lparr>b_tic := 0\<rparr>) s; n = b_nxt (blk s1 cur) in
        if n = 0 then Some (s1\<lparr>tq_wait := 0\<rparr>) else adjust_loop (tic - b_tic (blk s cur)) n s1)"

declare adjust_loop.simps [code]

definition tqadjust :: "tqst \<Rightarrow> (bool \<times> tqst) option" where
  "tqadjust s0 = do {
     s \<leftarrow> LOCK_TQ s0;
     let (now, k) = rt_get_time (tqker s);
     let s1 = s\<lparr>tq_tic := now, tqker := k\<rparr>;
     s2 \<leftarrow> (if tq_wait s1 \<noteq> 0 then adjust_loop (now - tq_tic s) (tq_wait s1) s1 else Some s1);
     Some (q_first (hooks s2 TqHook) \<noteq> tq_wait s2, s2)
   }"

partial_function (option) insert_pos :: "rtime \<Rightarrow> addr \<Rightarrow> tqst \<Rightarrow> (rtime \<times> addr) option" where
  "insert_pos tic nxt s =
     (if nxt \<noteq> 0 \<and> tic \<ge> b_tic (blk s nxt) then insert_pos (tic - b_tic (blk s nxt)) (b_nxt (blk s nxt)) s
      else Some (tic, nxt))"

declare insert_pos.simps [code]

definition tqinsert :: "addr \<Rightarrow> rtime \<Rightarrow> bool \<Rightarrow> tqst \<Rightarrow> tqst option" where
  "tqinsert cur tic rpt s0 = do {
     (_, s) \<leftarrow> tqadjust (upd_blk cur (\<lambda>b. b\<lparr>b_rpt := (if rpt then tic else 0)\<rparr>) s0);
     let w = tq_wait s;
     (tic1, nxt) \<leftarrow> insert_pos tic w s;
     let s1 = (if w \<noteq> 0 \<and> tic \<ge> b_tic (blk s w) then s else if tic \<noteq> 0 then s\<lparr>tq_wait := cur\<rparr> else s);
     s2 \<leftarrow> (if nxt \<noteq> 0 then rt_qBlkBefore cur nxt (upd_blk nxt (\<lambda>b. b\<lparr>b_tic := b_tic b - tic1\<rparr>) s1)
            else rt_qBlkAtTail cur TqHook s1);
     Some (upd_blk cur (\<lambda>b. b\<lparr>b_tic := tic1\<rparr>) s2)
   }"

section \<open>Blocks\<close>

definition rt_qBlkRelease :: "addr \<Rightarrow> tqst \<Rightarrow> tqst option" where
  "rt_qBlkRelease cur s = do {
     s1 \<leftarrow> unhooked cur s;
     case b_lnk (blk s1 cur) of
       None \<Rightarrow> Some s1
     | Some p \<Rightarrow> do {
         s2 \<leftarrow> LOCK_TQ (if p \<noteq> 0 then s1\<lparr>user_ptr := (user_ptr s1)(p := 0)\<rparr> else s1);
         Some ((upd_blk cur (\<lambda>b. b\<lparr>b_nxt := tq_free s2\<rparr>) s2)\<lparr>tq_free := cur\<rparr>)
       }
   }"

definition run_blk :: "qfuns \<Rightarrow> addr \<Rightarrow> tqst \<Rightarrow> unit qres" where
  "run_blk F cur s = F (b_fun (blk s cur)) (b_arg (blk s cur)) (b_evn (blk s cur)) s"

definition rt_qBlkComplete :: "qfuns \<Rightarrow> addr \<Rightarrow> tqst \<Rightarrow> unit qres" where
  "rt_qBlkComplete F cur s = lift_opt (rt_qBlkRelease cur s) (run_blk F cur)"

definition rt_qBlkSchedule :: "addr \<Rightarrow> rtime \<Rightarrow> tqst \<Rightarrow> tqst option" where
  "rt_qBlkSchedule cur tic s = do { s1 \<leftarrow> unhooked cur s; tqinsert cur tic False s1 }"

definition rt_qBlkInit :: "addr \<Rightarrow> nat \<Rightarrow> nat \<Rightarrow> int \<Rightarrow> tqst \<Rightarrow> tqst" where
  "rt_qBlkInit cur f a e = upd_blk cur (\<lambda>b. b\<lparr>b_hook := None, b_lnk := None, b_fun := f, b_arg := a, b_evn := e\<rparr>)"

definition null_blk :: qblk where
  "null_blk = \<lparr>b_hook = None, b_prv = 0, b_nxt = 0, b_lnk = Some 0, b_tic = 0, b_rpt = 0, b_fun = 0, b_arg = 0, b_evn = 0\<rparr>"

text \<open>The number of blocks that could not be allocated.\<close>

primrec rt_qDynAlloc :: "nat \<Rightarrow> tqst \<Rightarrow> (nat \<times> tqst) option" where
  "rt_qDynAlloc 0 s = Some (0, s)"
| "rt_qDynAlloc (Suc n) s = do {
     (cur, h) \<leftarrow> rt_malloc SIZEOF_QBLK (qheap s);
     if cur = 0 then Some (Suc n, s\<lparr>qheap := h\<rparr>)
     else do {
       s1 \<leftarrow> LOCK_TQ (upd_blk cur (\<lambda>_. null_blk) (s\<lparr>qheap := h\<rparr>));
       rt_qDynAlloc n ((upd_blk cur (\<lambda>b. b\<lparr>b_nxt := tq_free s1\<rparr>) s1)\<lparr>tq_free := cur\<rparr>)
     }
   }"

partial_function (option) rt_qDynFree :: "int \<Rightarrow> tqst \<Rightarrow> (int \<times> tqst) option" where
  "rt_qDynFree n s =
     (if n = 0 then Some (n, s)
      else do {
        s1 \<leftarrow> LOCK_TQ s;
        if tq_free s1 = 0 then Some (n, s1)
        else do {
          h \<leftarrow> rt_free (tq_free s1) (qheap s1);
          rt_qDynFree (n - 1) (s1\<lparr>tq_free := b_nxt (blk s1 (tq_free s1)), qheap := h\<rparr>)
        }
      })"

declare rt_qDynFree.simps [code]

text \<open>Of the pointers \<open>lnk\<close> 0 is NULL.\<close>

definition rt_qDynInit :: "addr \<Rightarrow> nat \<Rightarrow> nat \<Rightarrow> int \<Rightarrow> tqst \<Rightarrow> (addr \<times> tqst) option" where
  "rt_qDynInit lnk f a e s =
     (if tick_queue s = 0 then Some (0, s)
      else do {
        (cur, s1) \<leftarrow> (if tq_free s \<noteq> 0 then Some (tq_free s, s\<lparr>tq_free := b_nxt (blk s (tq_free s))\<rparr>)
                      else do { (p, h) \<leftarrow> rt_malloc SIZEOF_QBLK (qheap s); Some (p, s\<lparr>qheap := h\<rparr>) });
        Some (if cur = 0 then (0, s1)
              else let s2 = upd_blk cur (\<lambda>b. b\<lparr>b_hook := None, b_lnk := Some lnk, b_fun := f, b_arg := a, b_evn := e\<rparr>) s1 in
                (cur, if lnk \<noteq> 0 then s2\<lparr>user_ptr := (user_ptr s2)(lnk := cur)\<rparr> else s2))
      })"

definition rt_qBlkDequeue :: "qcancels \<Rightarrow> addr \<Rightarrow> tqst \<Rightarrow> tqst option" where
  "rt_qBlkDequeue C cur s =
     (case b_hook (blk s cur) of
        None \<Rightarrow> Some s
      | Some h \<Rightarrow> do {
          s1 \<leftarrow> (case q_cancel (hooks s h) of
                   NoCancel \<Rightarrow> Some s
                 | TqCancel \<Rightarrow> tqcancel cur s
                 | UserCancel f \<Rightarrow> C f (q_carg (hooks s h)) cur s);
          rt_qBlkUnhook cur s1
        })"

definition rt_qBlkWait :: "qcancels \<Rightarrow> addr \<Rightarrow> rtime \<Rightarrow> tqst \<Rightarrow> tqst option" where
  "rt_qBlkWait C cur tic s = do { s1 \<leftarrow> rt_qBlkDequeue C cur s; tqinsert cur tic False s1 }"

definition rt_qBlkRepeat :: "qcancels \<Rightarrow> addr \<Rightarrow> rtime \<Rightarrow> tqst \<Rightarrow> tqst option" where
  "rt_qBlkRepeat C cur tic s = do { s1 \<leftarrow> rt_qBlkDequeue C cur s; tqinsert cur tic True s1 }"

definition rt_qBlkSoon :: "qcancels \<Rightarrow> addr \<Rightarrow> tqst \<Rightarrow> tqst option" where
  "rt_qBlkSoon C cur s = do {
     s1 \<leftarrow> rt_qBlkDequeue C cur s;
     s2 \<leftarrow> rt_qBlkAtHead cur TqHook s1;
     Some (upd_blk cur (\<lambda>b. b\<lparr>b_tic := 0, b_rpt := 0\<rparr>) s2)
   }"

definition rt_qBlkCancel :: "qcancels \<Rightarrow> addr \<Rightarrow> tqst \<Rightarrow> tqst option" where
  "rt_qBlkCancel C cur s = do { s1 \<leftarrow> rt_qBlkDequeue C cur s; rt_qBlkRelease cur s1 }"

section \<open>Queues\<close>

text \<open>\<open>ok\<close> is what \<^verbatim>\<open>__set_exit_handler\<close> returns.\<close>

definition rt_InitTickQueue :: "bool \<Rightarrow> tqst \<Rightarrow> (int \<times> tqst) option" where
  "rt_InitTickQueue ok s = do {
     (p, h) \<leftarrow> rt_malloc SIZEOF_TICKQUEUE (qheap s);
     if p = 0 then Some (- ENOMEM, s\<lparr>qheap := h\<rparr>)
     else
       let none = \<lparr>q_first = 0, q_last = 0, q_cancel = NoCancel, q_carg = 0\<rparr>;
           s1 = s\<lparr>qheap := h, tq_free := 0, tq_wait := 0, tq_tic := 0, tick_queue := p,
                  hooks := (hooks s)(TqHook := none\<lparr>q_cancel := TqCancel\<rparr>, TqExec := none)\<rparr> in
       if ok then Some (0, s1)
       else do { h1 \<leftarrow> rt_free p (qheap s1); Some (- ENOMEM, s1\<lparr>qheap := h1, tick_queue := 0\<rparr>) }
   }"

definition rt_ReleaseTickQueue :: "tqst \<Rightarrow> tqst option" where
  "rt_ReleaseTickQueue s = do {
     h \<leftarrow> (if tick_queue s \<noteq> 0 then rt_free (tick_queue s) (qheap s) else Some (qheap s));
     Some (s\<lparr>qheap := h, tick_queue := 0\<rparr>)
   }"

definition rt_GetTickQueueHook :: "tqst \<Rightarrow> qhookid option" where
  "rt_GetTickQueueHook s = (if tick_queue s \<noteq> 0 then Some TqHook else None)"

definition rt_qHookInit :: "addr \<Rightarrow> qcancel \<Rightarrow> nat \<Rightarrow> tqst \<Rightarrow> (addr \<times> tqst) option" where
  "rt_qHookInit out c a s = do {
     (p, h) \<leftarrow> rt_malloc SIZEOF_QHOOK (qheap s);
     let s1 = s\<lparr>qheap := h\<rparr>;
     Some (if p = 0 then (0, s1)
           else let s2 = (if out \<noteq> 0 then s1\<lparr>user_ptr := (user_ptr s1)(out := p)\<rparr> else s1) in
             (p, upd_hook (Hook p) (\<lambda>_. \<lparr>q_first = 0, q_last = 0, q_cancel = c, q_carg = a\<rparr>) s2))
   }"

definition rt_qHookRelease :: "addr \<Rightarrow> tqst \<Rightarrow> tqst option" where
  "rt_qHookRelease p s = (if p = 0 then Some s else do { h \<leftarrow> rt_free p (qheap s); Some (s\<lparr>qheap := h\<rparr>) })"

partial_function (option) flush_loop :: "addr \<Rightarrow> tqst \<Rightarrow> tqst option" where
  "flush_loop cur s =
     (if cur = 0 then Some s
      else let s1 = upd_blk cur (\<lambda>b. b\<lparr>b_rpt := 0, b_tic := 0, b_hook := Some TqHook\<rparr>) s in
        flush_loop (b_nxt (blk s1 cur)) s1)"

declare flush_loop.simps [code]

definition rt_qHookFlush :: "qhookid \<Rightarrow> tqst \<Rightarrow> tqst option" where
  "rt_qHookFlush h s0 = do {
     s \<leftarrow> LOCK_TQ s0;
     let hd = q_first (hooks s h);
     let tl = q_last (hooks s h);
     if hd = 0 then Some s
     else do {
       s1 \<leftarrow> flush_loop hd s;
       let w = tq_wait s1;
       let s2 = upd_blk tl (\<lambda>b. b\<lparr>b_nxt := w\<rparr>) s1;
       let s3 = (if w = 0 then upd_hook TqHook (\<lambda>q. q\<lparr>q_last := tl\<rparr>) (upd_blk hd (\<lambda>b. b\<lparr>b_prv := q_last (hooks s2 TqHook)\<rparr>) s2)
                 else upd_blk w (\<lambda>b. b\<lparr>b_prv := tl\<rparr>) (upd_blk hd (\<lambda>b. b\<lparr>b_prv := b_prv (blk s2 w)\<rparr>) s2));
       s4 \<leftarrow> set_nxt (Some TqHook) (b_prv (blk s3 hd)) hd s3;
       Some (upd_hook h (\<lambda>q. q\<lparr>q_first := 0, q_last := 0\<rparr>) s4)
     }
   }"

partial_function (option) free_list_loop :: "addr \<Rightarrow> tqst \<Rightarrow> tqst option" where
  "free_list_loop cur s =
     (if cur = 0 then Some s
      else do { h \<leftarrow> rt_free cur (qheap s); free_list_loop (b_nxt (blk s cur)) (s\<lparr>qheap := h\<rparr>) })"

declare free_list_loop.simps [code]

definition rt_qCleanup :: "tqst \<Rightarrow> tqst option" where
  "rt_qCleanup s =
     (if tick_queue s = 0 then Some s
      else do {
        s1 \<leftarrow> free_list_loop (tq_free s) s;
        s2 \<leftarrow> free_list_loop (tq_wait s1) (s1\<lparr>tq_free := 0\<rparr>);
        h \<leftarrow> rt_free (tick_queue s2) (qheap s2);
        Some (s2\<lparr>tq_wait := 0, tick_queue := 0, qheap := h\<rparr>)
      })"

section \<open>Execution\<close>

definition tqcomplete :: "qfuns \<Rightarrow> addr \<Rightarrow> tqst \<Rightarrow> unit qres" where
  "tqcomplete F cur s =
     lift_opt (if b_rpt (blk s cur) = 0 then rt_qBlkRelease cur s else rt_qBlkAtHead cur TqExec s) (\<lambda>s1.
       res_bind (run_blk F cur s1) (\<lambda>_ s2.
         if q_first (hooks s2 TqExec) = cur
         then lift_opt (do { s3 \<leftarrow> rt_qBlkUnhook cur s2; tqinsert cur (b_rpt (blk s3 cur)) True s3 }) (Ret ())
         else Ret () s2))"

text \<open>The two nested loops of \<^verbatim>\<open>rt_qSync\<close>: \<open>n\<close> bounds the blocks executed and the looks at the clock.\<close>

fun rt_qSync :: "qfuns \<Rightarrow> nat \<Rightarrow> tqst \<Rightarrow> bool qres" where
  "rt_qSync F 0 s = Stuck"
| "rt_qSync F (Suc n) s =
     (if tick_queue s = 0 then Stuck
      else if q_first (hooks s TqHook) \<noteq> tq_wait s
      then res_bind (tqcomplete F (q_first (hooks s TqHook)) s) (\<lambda>_. rt_qSync F n)
      else if tq_wait s = 0 then Ret False s
      else lift_opt (tqadjust s) (\<lambda>(b, s1). if b then rt_qSync F n s1 else Ret (tq_wait s1 \<noteq> 0) s1))"

primrec rt_qLoop :: "qfuns \<Rightarrow> nat \<Rightarrow> nat \<Rightarrow> tqst \<Rightarrow> unit qres" where
  "rt_qLoop F m 0 s = Stuck"
| "rt_qLoop F m (Suc n) s =
     res_bind (rt_qSync F m s) (\<lambda>more s1.
       if more then res_bind (in_tqker (rt_sleep m (b_tic (blk s1 (tq_wait s1))) (tqker s1)) s1) (\<lambda>_. rt_qLoop F m n)
       else Ret () s1)"

definition rt_qStep :: "qfuns \<Rightarrow> tqst \<Rightarrow> rtime qres" where
  "rt_qStep F s =
     (if tick_queue s = 0 then Stuck
      else if q_first (hooks s TqHook) = 0 then Ret (- 1) s
      else lift_opt (if q_first (hooks s TqHook) \<noteq> tq_wait s then Some (True, s) else tqadjust s) (\<lambda>(b, s1).
        if b then res_bind (tqcomplete F (q_first (hooks s1 TqHook)) s1) (\<lambda>_. Ret 0)
        else Ret (b_tic (blk s1 (tq_wait s1))) s1))"

end
