(* ===== verification/Tick_Queue_Props.thy ===== *)
theory Tick_Queue_Props
  imports Tick_Queue
begin

text \<open>
  The tick queue as two lists of blocks, the expired ones and those that wait with the times at which they are due: the
  sums of the differences that the blocks hold.  What the operations do to them.
\<close>

section \<open>The list of a hook\<close>

text \<open>The address 0 stands for the hook: what follows it is the first block, what precedes it the last.\<close>

definition hnx :: "tqst \<Rightarrow> qhookid \<Rightarrow> addr \<Rightarrow> addr" where
  "hnx s h = (\<lambda>a. b_nxt (blk s a))(0 := q_first (hooks s h))"

definition hpv :: "tqst \<Rightarrow> qhookid \<Rightarrow> addr \<Rightarrow> addr" where
  "hpv s h = (\<lambda>a. b_prv (blk s a))(0 := q_last (hooks s h))"

definition hooked :: "tqst \<Rightarrow> qhookid \<Rightarrow> addr list \<Rightarrow> bool" where
  "hooked s h xs \<longleftrightarrow> ring (hnx s h) (hpv s h) 0 xs \<and> (\<forall>b \<in> set xs. b_hook (blk s b) = Some h)"

lemma upd_blk_simps [simp]:
  "blk (upd_blk a f s) = (blk s)(a := f (blk s a))" "hooks (upd_blk a f s) = hooks s" "tq_free (upd_blk a f s) = tq_free s"
  "tq_wait (upd_blk a f s) = tq_wait s" "tq_tic (upd_blk a f s) = tq_tic s" "tick_queue (upd_blk a f s) = tick_queue s"
  "user_ptr (upd_blk a f s) = user_ptr s" "qheap (upd_blk a f s) = qheap s" "tqker (upd_blk a f s) = tqker s"
  by (simp_all add: upd_blk_def)

lemma upd_hook_simps [simp]:
  "blk (upd_hook h f s) = blk s" "hooks (upd_hook h f s) = (hooks s)(h := f (hooks s h))" "tq_free (upd_hook h f s) = tq_free s"
  "tq_wait (upd_hook h f s) = tq_wait s" "tq_tic (upd_hook h f s) = tq_tic s" "tick_queue (upd_hook h f s) = tick_queue s"
  "user_ptr (upd_hook h f s) = user_ptr s" "qheap (upd_hook h f s) = qheap s" "tqker (upd_hook h f s) = tqker s"
  by (simp_all add: upd_hook_def)

text \<open>What a block holds beside its place in a list.\<close>

definition load :: "qblk \<Rightarrow> qblk" where
  "load b = b\<lparr>b_hook := None, b_prv := 0, b_nxt := 0\<rparr>"

lemma load_upd [simp]:
  "load (b\<lparr>b_hook := x\<rparr>) = load b" "load (b\<lparr>b_prv := y\<rparr>) = load b" "load (b\<lparr>b_nxt := z\<rparr>) = load b"
  by (simp_all add: load_def)

lemma loadD:
  assumes "load x = load y"
  shows "b_tic x = b_tic y" "b_rpt x = b_rpt y" "b_fun x = b_fun y" "b_arg x = b_arg y" "b_evn x = b_evn y" "b_lnk x = b_lnk y"
  using assms by (cases x; cases y; simp add: load_def)+

text \<open>Only the links of one hook and of blocks have changed, and the hook of \<open>cur\<close>.\<close>

definition relinked :: "qhookid \<Rightarrow> addr \<Rightarrow> tqst \<Rightarrow> tqst \<Rightarrow> bool" where
  "relinked h cur s s' \<longleftrightarrow> s' = s\<lparr>blk := blk s', hooks := hooks s'\<rparr> \<and> (\<forall>a. load (blk s' a) = load (blk s a))
     \<and> (\<forall>a. a \<noteq> cur \<longrightarrow> b_hook (blk s' a) = b_hook (blk s a)) \<and> (\<forall>k. k \<noteq> h \<longrightarrow> hooks s' k = hooks s k)
     \<and> q_cancel (hooks s' h) = q_cancel (hooks s h) \<and> q_carg (hooks s' h) = q_carg (hooks s h)"

lemma relinkedD:
  assumes "relinked h cur s s'"
  shows "tq_free s' = tq_free s" "tq_wait s' = tq_wait s" "tq_tic s' = tq_tic s" "tick_queue s' = tick_queue s"
    "user_ptr s' = user_ptr s" "qheap s' = qheap s" "tqker s' = tqker s" "load (blk s' a) = load (blk s a)"
    "b_tic (blk s' a) = b_tic (blk s a)" "a \<noteq> cur \<Longrightarrow> b_hook (blk s' a) = b_hook (blk s a)" "k \<noteq> h \<Longrightarrow> hooks s' k = hooks s k"
    "q_cancel (hooks s' k) = q_cancel (hooks s k)"
proof -
  have s': "s' = s\<lparr>blk := blk s', hooks := hooks s'\<rparr>" using assms unfolding relinked_def by (rule conjunct1)
  show "tq_free s' = tq_free s" "tq_wait s' = tq_wait s" "tq_tic s' = tq_tic s" "tick_queue s' = tick_queue s"
    "user_ptr s' = user_ptr s" "qheap s' = qheap s" "tqker s' = tqker s" by (subst s', simp)+
  show l: "load (blk s' a) = load (blk s a)" and "a \<noteq> cur \<Longrightarrow> b_hook (blk s' a) = b_hook (blk s a)"
    and "k \<noteq> h \<Longrightarrow> hooks s' k = hooks s k" and "q_cancel (hooks s' k) = q_cancel (hooks s k)"
    using assms unfolding relinked_def by (blast, blast, blast, metis)
  show "b_tic (blk s' a) = b_tic (blk s a)" by (rule loadD(1) [OF l])
qed

text \<open>Linking in front of the block \<open>pos\<close>, at the end of the list when it is 0.\<close>

definition linked_before :: "qhookid \<Rightarrow> addr \<Rightarrow> addr \<Rightarrow> tqst \<Rightarrow> tqst \<Rightarrow> bool" where
  "linked_before h cur pos s s' \<longleftrightarrow> hnx s' h = link_nx (hnx s h) (hpv s h) cur pos \<and> hpv s' h = link_pv (hpv s h) cur pos
     \<and> b_hook (blk s' cur) = Some h \<and> relinked h cur s s'"

lemma before_eq:
  assumes "tick_queue s \<noteq> 0" and "b_hook (blk s cur) = None" and "cur \<noteq> 0" and "pos \<noteq> 0" and "cur \<noteq> pos"
    and "b_prv (blk s pos) \<noteq> cur" and "b_hook (blk s pos) = Some h"
  shows "\<exists>s'. rt_qBlkBefore cur pos s = Some s' \<and> linked_before h cur pos s s'"
proof -
  let ?s2 = "upd_blk cur (\<lambda>b. b\<lparr>b_hook := Some h, b_nxt := pos, b_prv := b_prv (blk s pos)\<rparr>) s"
  let ?s3 = "upd_blk pos (\<lambda>b. b\<lparr>b_prv := cur\<rparr>) ?s2"
  have "\<exists>s'. set_nxt (Some h) (b_prv (blk s pos)) cur ?s3 = Some s'" by (simp add: set_nxt_def)
  then obtain s' where s': "set_nxt (Some h) (b_prv (blk s pos)) cur ?s3 = Some s'" ..
  have "rt_qBlkBefore cur pos s = Some s'" using assms s' by (simp add: rt_qBlkBefore_def unhooked_def LOCK_TQ_def Let_def)
  moreover have "linked_before h cur pos s s'" using s' assms
    by (auto simp: set_nxt_def linked_before_def relinked_def hnx_def hpv_def link_nx_def link_pv_def upd_blk_def upd_hook_def fun_eq_iff
        split: if_splits)
  ultimately show ?thesis by blast
qed

lemma at_tail_eq:
  assumes "tick_queue s \<noteq> 0" and "b_hook (blk s cur) = None" and "cur \<noteq> 0" and "q_last (hooks s h) \<noteq> cur"
  shows "\<exists>s'. rt_qBlkAtTail cur h s = Some s' \<and> linked_before h cur 0 s s'"
proof -
  let ?s2 = "upd_blk cur (\<lambda>b. b\<lparr>b_hook := Some h, b_nxt := 0, b_prv := q_last (hooks s h)\<rparr>) s"
  have "\<exists>s3. set_nxt (Some h) (q_last (hooks s h)) cur ?s2 = Some s3" by (simp add: set_nxt_def)
  then obtain s3 where s3: "set_nxt (Some h) (q_last (hooks s h)) cur ?s2 = Some s3" ..
  let ?s' = "upd_hook h (\<lambda>q. q\<lparr>q_last := cur\<rparr>) s3"
  have "rt_qBlkAtTail cur h s = Some ?s'" using assms s3 by (simp add: rt_qBlkAtTail_def unhooked_def LOCK_TQ_def Let_def)
  moreover have "linked_before h cur 0 s ?s'" using s3 assms
    by (auto simp: set_nxt_def linked_before_def relinked_def hnx_def hpv_def link_nx_def link_pv_def upd_blk_def upd_hook_def fun_eq_iff
        split: if_splits)
  ultimately show ?thesis by blast
qed

lemma at_head_eq:
  assumes "tick_queue s \<noteq> 0" and "b_hook (blk s cur) = None" and "cur \<noteq> 0" and "q_first (hooks s h) \<noteq> cur"
    and p: "hpv s h (q_first (hooks s h)) = 0"
  shows "\<exists>s'. rt_qBlkAtHead cur h s = Some s' \<and> linked_before h cur (q_first (hooks s h)) s s'"
proof -
  let ?s2 = "upd_blk cur (\<lambda>b. b\<lparr>b_hook := Some h, b_prv := 0, b_nxt := q_first (hooks s h)\<rparr>) s"
  have "\<exists>s3. set_prv (Some h) (q_first (hooks s h)) cur ?s2 = Some s3" by (simp add: set_prv_def)
  then obtain s3 where s3: "set_prv (Some h) (q_first (hooks s h)) cur ?s2 = Some s3" ..
  let ?s' = "upd_hook h (\<lambda>q. q\<lparr>q_first := cur\<rparr>) s3"
  have "rt_qBlkAtHead cur h s = Some ?s'" using assms s3 by (simp add: rt_qBlkAtHead_def unhooked_def LOCK_TQ_def Let_def)
  moreover have "linked_before h cur (q_first (hooks s h)) s ?s'" using s3 assms
    by (auto simp: set_prv_def linked_before_def relinked_def hnx_def hpv_def link_nx_def link_pv_def upd_blk_def upd_hook_def fun_eq_iff
        split: if_splits)
  ultimately show ?thesis by blast
qed

lemma unhook_eq:
  assumes "tick_queue s \<noteq> 0" and "b_hook (blk s cur) = Some h" and "cur \<noteq> 0" and "b_nxt (blk s cur) \<noteq> cur" and "b_prv (blk s cur) \<noteq> cur"
  shows "\<exists>s'. rt_qBlkUnhook cur s = Some s' \<and> hnx s' h = unlink_nx (hnx s h) (hpv s h) cur
     \<and> hpv s' h = unlink_pv (hnx s h) (hpv s h) cur \<and> b_hook (blk s' cur) = None \<and> relinked h cur s s'"
proof -
  have "\<exists>s1. set_prv (Some h) (b_nxt (blk s cur)) (b_prv (blk s cur)) s = Some s1" by (simp add: set_prv_def)
  then obtain s1 where s1: "set_prv (Some h) (b_nxt (blk s cur)) (b_prv (blk s cur)) s = Some s1" ..
  then have c: "blk s1 cur = blk s cur" using assms(4) by (auto simp: set_prv_def split: if_splits)
  have "\<exists>s2. set_nxt (Some h) (b_prv (blk s cur)) (b_nxt (blk s cur)) s1 = Some s2" by (simp add: set_nxt_def)
  then obtain s2 where s2: "set_nxt (Some h) (b_prv (blk s cur)) (b_nxt (blk s cur)) s1 = Some s2" ..
  let ?s' = "upd_blk cur (\<lambda>b. b\<lparr>b_hook := None\<rparr>) s2"
  have "rt_qBlkUnhook cur s = Some ?s'" using assms s1 s2 c by (simp add: rt_qBlkUnhook_def LOCK_TQ_def)
  moreover have "hnx ?s' h = unlink_nx (hnx s h) (hpv s h) cur" "hpv ?s' h = unlink_pv (hnx s h) (hpv s h) cur"
    "relinked h cur s ?s'" using s1 s2 assms
    by (auto simp: set_nxt_def set_prv_def relinked_def hnx_def hpv_def unlink_nx_def unlink_pv_def upd_blk_def upd_hook_def fun_eq_iff
        split: if_splits)
  ultimately show ?thesis by auto
qed


lemma hookedD:
  assumes "hooked s h xs"
  shows "ring (hnx s h) (hpv s h) 0 xs" "b \<in> set xs \<Longrightarrow> b_hook (blk s b) = Some h" "distinct xs" "0 \<notin> set xs"
    "q_first (hooks s h) = hd (xs @ [0])"
proof -
  show r: "ring (hnx s h) (hpv s h) 0 xs" using assms by (simp add: hooked_def)
  show "b \<in> set xs \<Longrightarrow> b_hook (blk s b) = Some h" using assms by (simp add: hooked_def)
  show "distinct xs" "0 \<notin> set xs" using ring_distinct [OF r] by simp_all
  show "q_first (hooks s h) = hd (xs @ [0])" using ring_first [OF r] by (simp add: hnx_def)
qed

lemma linked_hooked:
  assumes q: "hooked s h (as @ bs)" and c: "cur \<notin> set (as @ bs)" "cur \<noteq> 0"
    and l: "linked_before h cur (hd (bs @ [0])) s s'"
  shows "hooked s' h (as @ cur # bs)"
proof -
  have "ring (hnx s' h) (hpv s' h) 0 (as @ cur # bs)"
    using l ring_link [OF hookedD(1) [OF q], of cur "hd (bs @ [0])"] c by (simp add: linked_before_def)
  moreover have "b_hook (blk s' b) = Some h" if "b \<in> set (as @ cur # bs)" for b
  proof (cases "b = cur")
    case True
    then show ?thesis using l by (simp add: linked_before_def)
  next
    case False
    have "relinked h cur s s'" using l by (simp add: linked_before_def)
    then have "b_hook (blk s' b) = b_hook (blk s b)" using False by (rule relinkedD(10))
    then show ?thesis using hookedD(2) [OF q, of b] that False by auto
  qed
  ultimately show ?thesis by (simp add: hooked_def)
qed

lemma blk_eqI: "load x = load y \<Longrightarrow> b_hook x = b_hook y \<Longrightarrow> b_nxt x = b_nxt y \<Longrightarrow> b_prv x = b_prv y \<Longrightarrow> x = (y :: qblk)"
  by (cases x; cases y) (simp add: load_def)

lemma linked_others:
  assumes q: "hooked s h (as @ bs)" and l: "linked_before h cur (hd (bs @ [0])) s s'" and a: "a \<notin> set (0 # cur # as @ bs)"
  shows "blk s' a = blk s a"
proof (rule blk_eqI)
  have r: "relinked h cur s s'" using l by (simp add: linked_before_def)
  show "load (blk s' a) = load (blk s a)" by (rule relinkedD(8) [OF r])
  show "b_hook (blk s' a) = b_hook (blk s a)" using a by (intro relinkedD(10) [OF r]) simp
  have "hpv s h (hd (bs @ [0])) = last (0 # as)" using ring_prefix [OF hookedD(1) [OF q]] by (auto dest: links_last)
  moreover have "last (0 # as) \<in> set (0 # as)" by (rule last_in_set) simp
  ultimately have n1: "a \<noteq> hpv s h (hd (bs @ [0]))" using a by auto
  have n2: "a \<noteq> hd (bs @ [0])" using a by (cases bs) auto
  have "hnx s' h a = hnx s h a" "hpv s' h a = hpv s h a" using l n1 n2 a by (simp_all add: linked_before_def link_nx_def link_pv_def)
  then show "b_nxt (blk s' a) = b_nxt (blk s a)" "b_prv (blk s' a) = b_prv (blk s a)" using a by (simp_all add: hnx_def hpv_def)
qed

text \<open>Entering the list \<open>as @ bs\<close> in front of \<open>bs\<close>.\<close>

definition enter :: "addr \<Rightarrow> addr \<Rightarrow> qhookid \<Rightarrow> tqst \<Rightarrow> tqst option" where
  "enter cur pos h s = (if pos \<noteq> 0 then rt_qBlkBefore cur pos s else rt_qBlkAtTail cur h s)"

lemma enter_ok:
  assumes q: "hooked s h (as @ bs)" and c: "b_hook (blk s cur) = None" "cur \<noteq> 0" and t: "tick_queue s \<noteq> 0"
  shows "\<exists>s'. enter cur (hd (bs @ [0])) h s = Some s' \<and> hooked s' h (as @ cur # bs) \<and> relinked h cur s s'
     \<and> (\<forall>a. a \<notin> set (0 # cur # as @ bs) \<longrightarrow> blk s' a = blk s a)"
proof -
  have n: "cur \<notin> set (as @ bs)" using hookedD(2) [OF q, of cur] c(1) by auto
  have p: "hpv s h (hd (bs @ [0])) \<noteq> cur"
  proof -
    have "hpv s h (hd (bs @ [0])) = last (0 # as)"
      using ring_prefix [OF hookedD(1) [OF q]] by (auto dest: links_last)
    moreover have "last (0 # as) \<in> set (0 # as)" by (rule last_in_set) simp
    ultimately show ?thesis using n c(2) by auto
  qed
  have "\<exists>s'. enter cur (hd (bs @ [0])) h s = Some s' \<and> linked_before h cur (hd (bs @ [0])) s s'"
  proof (cases bs)
    case Nil
    then show ?thesis using at_tail_eq [OF t c] p by (simp add: enter_def hpv_def)
  next
    case (Cons b bs')
    then have b: "b \<noteq> 0" "cur \<noteq> b" "b_hook (blk s b) = Some h" using hookedD(2,4) [OF q] n by auto
    then show ?thesis using before_eq [OF t c b(1,2) _ b(3)] p Cons by (simp add: enter_def hpv_def)
  qed
  then obtain s' where s': "enter cur (hd (bs @ [0])) h s = Some s'" "linked_before h cur (hd (bs @ [0])) s s'" by blast
  have "relinked h cur s s'" using s'(2) by (simp add: linked_before_def)
  then show ?thesis using s'(1) linked_hooked [OF q n c(2) s'(2)] linked_others [OF q s'(2)] by blast
qed

lemma at_head_ok:
  assumes q: "hooked s h xs" and c: "b_hook (blk s cur) = None" "cur \<noteq> 0" and t: "tick_queue s \<noteq> 0"
  shows "\<exists>s'. rt_qBlkAtHead cur h s = Some s' \<and> hooked s' h (cur # xs) \<and> relinked h cur s s'
     \<and> (\<forall>a. a \<notin> set (0 # cur # xs) \<longrightarrow> blk s' a = blk s a)"
proof -
  have n: "cur \<notin> set xs" using hookedD(2) [OF q, of cur] c(1) by auto
  note f = hookedD(5) [OF q]
  have "hpv s h (hd (xs @ [0])) = 0" using ring_prefix [of "hnx s h" "hpv s h" 0 "[]" xs] hookedD(1) [OF q] by simp
  then have p: "hpv s h (q_first (hooks s h)) = 0" unfolding f .
  have e: "q_first (hooks s h) \<noteq> cur" using f n c(2) by (cases xs) auto
  obtain s' where s': "rt_qBlkAtHead cur h s = Some s'" "linked_before h cur (hd (xs @ [0])) s s'"
    using at_head_eq [OF t c e p] f by auto
  have "relinked h cur s s'" using s'(2) by (simp add: linked_before_def)
  then show ?thesis using s'(1) linked_hooked [of s h "[]" xs cur s'] linked_others [of s h "[]" xs cur s'] q n c(2) s'(2)
    by (intro exI [of _ s']) simp
qed

lemma unhook_ok:
  assumes q: "hooked s h xs" and c: "cur \<in> set xs" and t: "tick_queue s \<noteq> 0"
  shows "\<exists>s'. rt_qBlkUnhook cur s = Some s' \<and> hooked s' h (remove1 cur xs) \<and> b_hook (blk s' cur) = None \<and> relinked h cur s s'
     \<and> (\<forall>a. a \<notin> set (0 # xs) \<longrightarrow> blk s' a = blk s a)"
proof -
  note r = hookedD(1) [OF q]
  have c0: "cur \<noteq> 0" using hookedD(4) [OF q] c by (metis)
  have nb0: "hnx s h cur \<noteq> cur \<and> hpv s h cur \<noteq> cur \<and> hnx s h cur \<in> set (0 # xs) \<and> hpv s h cur \<in> set (0 # xs)"
  proof -
    obtain as bs where xs: "xs = as @ cur # bs" using c by (meson split_list)
    have l: "links (hnx s h) (hpv s h) 0 as cur" "links (hnx s h) (hpv s h) cur bs 0" "distinct (0 # as @ cur # bs)"
      using r by (auto simp: xs ring_def links_append)
    have "hnx s h cur = hd (bs @ [0])" "hpv s h cur = last (0 # as)" using l links_first links_last by fast+
    then show ?thesis using l(3) by (cases bs; cases as rule: rev_cases) (auto simp: xs)
  qed
  then have nb: "b_nxt (blk s cur) \<noteq> cur" "b_prv (blk s cur) \<noteq> cur" using c0 by (simp_all add: hnx_def hpv_def)
  obtain s' where s': "rt_qBlkUnhook cur s = Some s'" "hnx s' h = unlink_nx (hnx s h) (hpv s h) cur"
    "hpv s' h = unlink_pv (hnx s h) (hpv s h) cur" "b_hook (blk s' cur) = None" "relinked h cur s s'"
    using unhook_eq [OF t hookedD(2) [OF q c] c0 nb] by blast
  have "ring (hnx s' h) (hpv s' h) 0 (remove1 cur xs)" unfolding s'(2,3) by (rule ring_unlink_remove1 [OF r c])
  moreover have "b_hook (blk s' b) = Some h" if "b \<in> set (remove1 cur xs)" for b
  proof -
    have "b \<in> set xs" "b \<noteq> cur" using that hookedD(3) [OF q] by auto
    then show ?thesis using relinkedD(10) [OF s'(5)] hookedD(2) [OF q] by simp
  qed
  ultimately have "hooked s' h (remove1 cur xs)" by (simp add: hooked_def)
  moreover have "blk s' a = blk s a" if a: "a \<notin> set (0 # xs)" for a
  proof (rule blk_eqI)
    have n: "a \<noteq> cur" "a \<noteq> hnx s h cur" "a \<noteq> hpv s h cur" "a \<noteq> 0" using a c nb0 by auto
    show "load (blk s' a) = load (blk s a)" by (rule relinkedD(8) [OF s'(5)])
    show "b_hook (blk s' a) = b_hook (blk s a)" using n(1) by (rule relinkedD(10) [OF s'(5)])
    have "hnx s' h a = hnx s h a" "hpv s' h a = hpv s h a" using s'(2,3) n by (simp_all add: unlink_nx_def unlink_pv_def)
    then show "b_nxt (blk s' a) = b_nxt (blk s a)" "b_prv (blk s' a) = b_prv (blk s a)" using n(4) by (simp_all add: hnx_def hpv_def)
  qed
  ultimately show ?thesis using s'(1,4,5) by blast
qed

text \<open>The list of another hook.\<close>

lemma hooked_other:
  assumes q: "hooked s k ys" and h: "hooks s' k = hooks s k" and b: "\<forall>a \<in> set ys. blk s' a = blk s a"
  shows "hooked s' k ys"
proof -
  have l: "links nx pv a xs b \<Longrightarrow> \<forall>x \<in> set (a # b # xs). nx' x = nx x \<and> pv' x = pv x \<Longrightarrow> links nx' pv' a xs b"
    for nx pv nx' pv' :: "addr \<Rightarrow> addr" and a xs b by (induction xs arbitrary: a) simp_all
  have "\<forall>x \<in> set (0 # 0 # ys). hnx s' k x = hnx s k x \<and> hpv s' k x = hpv s k x" using h b by (simp add: hnx_def hpv_def)
  then have "links (hnx s' k) (hpv s' k) 0 ys 0" using l hookedD(1) [OF q] unfolding ring_def by blast
  then have "ring (hnx s' k) (hpv s' k) 0 ys" using hookedD(1) [OF q] by (simp add: ring_def)
  then show ?thesis using b hookedD(2) [OF q] by (simp add: hooked_def)
qed

section \<open>Due times\<close>

primrec dues :: "(addr \<Rightarrow> rtime) \<Rightarrow> rtime \<Rightarrow> addr list \<Rightarrow> (addr \<times> rtime) list" where
  "dues T a [] = []"
| "dues T a (x # xs) = (x, a + T x) # dues T (a + T x) xs"

lemma dues_append: "dues T a (xs @ ys) = dues T a xs @ dues T (a + sum_list (map T xs)) ys"
  by (induction xs arbitrary: a) (simp_all add: add.assoc)

lemma dues_cong: "(\<And>x. x \<in> set xs \<Longrightarrow> T x = U x) \<Longrightarrow> dues T a xs = dues U a xs"
  by (induction xs arbitrary: a) simp_all

lemma map_fst_dues [simp]: "map fst (dues T a xs) = xs"
  by (induction xs arbitrary: a) simp_all

lemma dues_ge: "\<forall>x \<in> set xs. 0 \<le> T x \<Longrightarrow> p \<in> set (dues T a xs) \<Longrightarrow> a \<le> snd p"
proof (induction xs arbitrary: a)
  case (Cons x xs)
  have "a + T x \<le> snd p" if "p \<in> set (dues T (a + T x) xs)" using Cons.IH [OF _ that] Cons.prems(1) by simp
  then show ?case using Cons.prems by fastforce
qed simp

lemma dues_sorted: "\<forall>x \<in> set xs. 0 \<le> T x \<Longrightarrow> sorted_wrt (\<lambda>p q. snd p \<le> snd q) (dues T a xs)"
proof (induction xs arbitrary: a)
  case (Cons x xs)
  then show ?case using dues_ge [of xs T] by auto
qed simp

text \<open>The blocks due by a time are the first ones.\<close>

lemma dues_parts:
  assumes "\<forall>x \<in> set xs. 0 \<le> T x"
  shows "dues T a xs = filter (\<lambda>p. snd p \<le> n) (dues T a xs) @ filter (\<lambda>p. n < snd p) (dues T a xs)"
  using assms
proof (induction xs arbitrary: a)
  case (Cons x xs)
  then have nn: "\<forall>x \<in> set xs. 0 \<le> T x" by simp
  show ?case
  proof (cases "a + T x \<le> n")
    case True
    then show ?thesis using Cons.IH [OF nn, of "a + T x"] by simp
  next
    case False
    then have "\<forall>p \<in> set (dues T (a + T x) xs). n < snd p" using dues_ge [OF nn, of _ "a + T x"] by force
    then have "filter (\<lambda>p. snd p \<le> n) (dues T (a + T x) xs) = []" "filter (\<lambda>p. n < snd p) (dues T (a + T x) xs) = dues T (a + T x) xs"
      by (force simp: filter_empty_conv, simp add: filter_id_conv)
    then show ?thesis using False by simp
  qed
qed simp

section \<open>The tick queue\<close>

abbreviation tic_of :: "tqst \<Rightarrow> addr \<Rightarrow> rtime" where "tic_of s \<equiv> \<lambda>a. b_tic (blk s a)"

text \<open>\<open>es\<close> are the expired blocks, \<open>ws\<close> those that wait.\<close>

definition tq_ok :: "tqst \<Rightarrow> addr list \<Rightarrow> addr list \<Rightarrow> bool" where
  "tq_ok s es ws \<longleftrightarrow> tick_queue s \<noteq> 0 \<and> q_cancel (hooks s TqHook) = TqCancel \<and> hooked s TqHook (es @ ws)
     \<and> tq_wait s = hd (ws @ [0]) \<and> (\<forall>b \<in> set es. tic_of s b = 0) \<and> (\<forall>b \<in> set ws. 0 \<le> tic_of s b)
     \<and> (ws \<noteq> [] \<longrightarrow> 0 < tic_of s (hd ws))"

text \<open>The waiting blocks with the times at which they are due.\<close>

abbreviation waiting :: "tqst \<Rightarrow> addr list \<Rightarrow> (addr \<times> rtime) list" where
  "waiting s \<equiv> dues (tic_of s) (tq_tic s)"

lemma tq_okD:
  assumes "tq_ok s es ws"
  shows "tick_queue s \<noteq> 0" "q_cancel (hooks s TqHook) = TqCancel" "hooked s TqHook (es @ ws)" "tq_wait s = hd (ws @ [0])"
    "b \<in> set es \<Longrightarrow> tic_of s b = 0" "\<forall>b \<in> set ws. 0 \<le> tic_of s b" "ws \<noteq> [] \<Longrightarrow> 0 < tic_of s (hd ws)"
    "q_first (hooks s TqHook) = hd (es @ ws @ [0])" "distinct (es @ ws)" "0 \<notin> set (es @ ws)"
  using assms hookedD(3-5) [of s TqHook "es @ ws"] by (simp_all add: tq_ok_def)

text \<open>Only the times of the blocks of \<open>xs\<close>, and where the waiting ones begin, have changed.\<close>

definition ticked :: "addr list \<Rightarrow> tqst \<Rightarrow> tqst \<Rightarrow> bool" where
  "ticked xs s s' \<longleftrightarrow> s' = s\<lparr>blk := blk s', tq_wait := tq_wait s'\<rparr> \<and> (\<forall>a. blk s' a = (blk s a)\<lparr>b_tic := tic_of s' a\<rparr>)
     \<and> (\<forall>a. a \<notin> set xs \<longrightarrow> blk s' a = blk s a)"

lemma tickedD:
  assumes "ticked xs s s'"
  shows "hooks s' = hooks s" "tq_free s' = tq_free s" "tq_tic s' = tq_tic s" "tick_queue s' = tick_queue s" "user_ptr s' = user_ptr s"
    "qheap s' = qheap s" "tqker s' = tqker s" "blk s' a = (blk s a)\<lparr>b_tic := tic_of s' a\<rparr>" "a \<notin> set xs \<Longrightarrow> blk s' a = blk s a"
    "hnx s' h = hnx s h" "hpv s' h = hpv s h" "b_hook (blk s' a) = b_hook (blk s a)"
proof -
  have s': "s' = s\<lparr>blk := blk s', tq_wait := tq_wait s'\<rparr>" using assms unfolding ticked_def by (rule conjunct1)
  show h: "hooks s' = hooks s" and "tq_free s' = tq_free s" "tq_tic s' = tq_tic s" "tick_queue s' = tick_queue s" "user_ptr s' = user_ptr s"
    "qheap s' = qheap s" "tqker s' = tqker s" by (subst s', simp)+
  have b: "blk s' a = (blk s a)\<lparr>b_tic := tic_of s' a\<rparr>" for a using assms unfolding ticked_def by blast
  then show "blk s' a = (blk s a)\<lparr>b_tic := tic_of s' a\<rparr>" .
  show "a \<notin> set xs \<Longrightarrow> blk s' a = blk s a" using assms unfolding ticked_def by blast
  have "b_nxt (blk s' a) = b_nxt (blk s a)" "b_prv (blk s' a) = b_prv (blk s a)" "b_hook (blk s' a) = b_hook (blk s a)" for a
    by (subst b, simp)+
  then show "hnx s' h = hnx s h" "hpv s' h = hpv s h" "b_hook (blk s' a) = b_hook (blk s a)" using h by (simp_all add: hnx_def hpv_def)
qed

lemma ticked_hooked: "ticked ys s s' \<Longrightarrow> hooked s' h xs = hooked s h xs"
  by (simp add: hooked_def tickedD(10-12))

lemma ticked_trans:
  assumes a: "ticked xs s s1" and b: "ticked ys s1 s2" and sub: "set xs \<union> set ys \<subseteq> set zs"
  shows "ticked zs s s2"
  unfolding ticked_def
proof (intro conjI allI impI)
  show "s2 = s\<lparr>blk := blk s2, tq_wait := tq_wait s2\<rparr>" using tickedD(1-7) [OF a] tickedD(1-7) [OF b] by simp
  show "blk s2 c = (blk s c)\<lparr>b_tic := tic_of s2 c\<rparr>" for c using tickedD(8) [OF b, of c] tickedD(8) [OF a, of c]
    by (cases "blk s c"; cases "blk s1 c"; cases "blk s2 c") simp
  show "blk s2 c = blk s c" if "c \<notin> set zs" for c
  proof -
    have "c \<notin> set xs" "c \<notin> set ys" using that sub by blast+
    then show ?thesis using tickedD(9) [OF a, of c] tickedD(9) [OF b, of c] by simp
  qed
qed

lemma ticked_upd: "ticked [w] s (upd_blk w (\<lambda>b. b\<lparr>b_tic := f b\<rparr>) (s\<lparr>tq_wait := v\<rparr>))" "ticked [w] s (upd_blk w (\<lambda>b. b\<lparr>b_tic := f b\<rparr>) s)"
  by (simp_all add: ticked_def upd_blk_def)

lemma filter_late:
  assumes "\<forall>b \<in> set (w # ws). 0 \<le> T b" and "n < a + T w"
  shows "filter (\<lambda>p. snd p \<le> n) (dues T a (w # ws)) = []" "filter (\<lambda>p. n < snd p) (dues T a (w # ws)) = dues T a (w # ws)"
proof -
  have "\<forall>p \<in> set (dues T a (w # ws)). n < snd p" using dues_ge [of ws T _ "a + T w"] assms by force
  then show "filter (\<lambda>p. snd p \<le> n) (dues T a (w # ws)) = []" "filter (\<lambda>p. n < snd p) (dues T a (w # ws)) = dues T a (w # ws)"
    by (simp_all only: filter_empty_conv filter_id_conv) force
qed

text \<open>At the time \<open>n\<close>: the blocks due by then have expired, the others are due when they were.\<close>

definition split_at :: "rtime \<Rightarrow> rtime \<Rightarrow> tqst \<Rightarrow> addr list \<Rightarrow> tqst \<Rightarrow> addr list \<Rightarrow> addr list \<Rightarrow> bool" where
  "split_at n a s xs s' es ws \<longleftrightarrow> xs = es @ ws \<and> (\<forall>b \<in> set es. tic_of s' b = 0) \<and> tq_wait s' = hd (ws @ [0])
     \<and> (\<forall>b \<in> set ws. 0 \<le> tic_of s' b) \<and> (ws \<noteq> [] \<longrightarrow> 0 < tic_of s' (hd ws))
     \<and> es = map fst (filter (\<lambda>p. snd p \<le> n) (dues (tic_of s) a xs))
     \<and> dues (tic_of s') n ws = filter (\<lambda>p. n < snd p) (dues (tic_of s) a xs)"

lemma split_atD:
  assumes "split_at n a s xs s' es ws"
  shows "xs = es @ ws" "\<forall>b \<in> set es. tic_of s' b = 0" "tq_wait s' = hd (ws @ [0])" "\<forall>b \<in> set ws. 0 \<le> tic_of s' b"
    "ws \<noteq> [] \<longrightarrow> 0 < tic_of s' (hd ws)" "es = map fst (filter (\<lambda>p. snd p \<le> n) (dues (tic_of s) a xs))"
    "dues (tic_of s') n ws = filter (\<lambda>p. n < snd p) (dues (tic_of s) a xs)"
  using assms unfolding split_at_def by - (elim conjE, assumption)+

lemma split_at_step:
  assumes sp: "split_at n (a + tic_of s w) s1 xs s' es ws" and w: "a + tic_of s w \<le> n" "tic_of s' w = 0"
    and e: "dues (tic_of s1) (a + tic_of s w) xs = dues (tic_of s) (a + tic_of s w) xs"
  shows "split_at n a s (w # xs) s' (w # es) ws"
  unfolding split_at_def
proof (intro conjI)
  note d = split_atD [OF sp, unfolded e]
  show "w # xs = (w # es) @ ws" using d(1) by simp
  show "\<forall>b \<in> set (w # es). tic_of s' b = 0" using d(2) w(2) by simp
  show "w # es = map fst (filter (\<lambda>p. snd p \<le> n) (dues (tic_of s) a (w # xs)))" using d(6) w(1) by simp
  show "dues (tic_of s') n ws = filter (\<lambda>p. n < snd p) (dues (tic_of s) a (w # xs))" using d(7) w(1) by simp
qed (use split_atD [OF sp] in blast)+

lemma adjust_loop_ok:
  assumes "links (hnx s h) (hpv s h) w ws 0" and "distinct (w # ws)" and "0 \<notin> set (w # ws)" and "\<forall>b \<in> set (w # ws). 0 \<le> tic_of s b"
  shows "\<exists>s' es1 ws1. adjust_loop (n - a) w s = Some s' \<and> ticked (w # ws) s s' \<and> split_at n a s (w # ws) s' es1 ws1"
  using assms
proof (induction ws arbitrary: w s a)
  case Nil
  show ?case
  proof (cases "n - a < tic_of s w")
    case True
    let ?s' = "upd_blk w (\<lambda>b. b\<lparr>b_tic := b_tic b - (n - a)\<rparr>) (s\<lparr>tq_wait := w\<rparr>)"
    show ?thesis using True Nil by (intro exI [of _ ?s'] exI [of _ "[]"] exI [of _ "[w]"])
      (simp add: adjust_loop.simps ticked_upd split_at_def algebra_simps)
  next
    case False
    let ?s' = "upd_blk w (\<lambda>b. b\<lparr>b_tic := 0\<rparr>) (s\<lparr>tq_wait := 0\<rparr>)"
    have "b_nxt (blk s w) = 0" using Nil by (simp add: hnx_def)
    then have "adjust_loop (n - a) w s = Some ?s'" using False by (subst adjust_loop.simps) (simp add: Let_def upd_blk_def)
    then show ?thesis using False by (intro exI [of _ ?s'] exI [of _ "[w]"] exI [of _ "[]"]) (simp add: ticked_upd split_at_def algebra_simps)
  qed
next
  case (Cons v ws)
  show ?case
  proof (cases "n - a < tic_of s w")
    case True
    let ?s' = "upd_blk w (\<lambda>b. b\<lparr>b_tic := b_tic b - (n - a)\<rparr>) (s\<lparr>tq_wait := w\<rparr>)"
    have f: "filter (\<lambda>p. snd p \<le> n) (dues (tic_of s) a (w # v # ws)) = []"
      "filter (\<lambda>p. n < snd p) (dues (tic_of s) a (w # v # ws)) = dues (tic_of s) a (w # v # ws)"
      using filter_late [OF Cons.prems(4), of n a] True by (simp_all only: algebra_simps)
    have "dues (tic_of ?s') b ws = dues (tic_of s) b ws" for b using Cons.prems(2) by (intro dues_cong) auto
    then have "split_at n a s (w # v # ws) ?s' [] (w # v # ws)"
      unfolding split_at_def f using True Cons.prems(2,4) by (auto simp: algebra_simps)
    then show ?thesis using True
      by (intro exI [of _ ?s'] exI [of _ "[]"] exI [of _ "w # v # ws"]) (simp add: adjust_loop.simps ticked_def upd_blk_def)
  next
    case False
    let ?s1 = "upd_blk w (\<lambda>b. b\<lparr>b_tic := 0\<rparr>) s"
    have nx: "b_nxt (blk s w) = v" "v \<noteq> 0" using Cons.prems(1,3) by (auto simp: hnx_def)
    have t1: "ticked [w] s ?s1" by (rule ticked_upd)
    have l: "links (hnx ?s1 h) (hpv ?s1 h) v ws 0" using Cons.prems(1) tickedD(10,11) [OF t1] by simp
    have T1: "\<forall>b \<in> set (v # ws). tic_of ?s1 b = tic_of s b" using Cons.prems(2) by auto
    have dj: "distinct (v # ws)" "0 \<notin> set (v # ws)" using Cons.prems(2,3) by simp_all
    have nn: "\<forall>b \<in> set (v # ws). 0 \<le> tic_of ?s1 b" using T1 Cons.prems(4) by simp
    obtain s' es1 ws1 where s': "adjust_loop (n - (a + tic_of s w)) v ?s1 = Some s'" "ticked (v # ws) ?s1 s'"
      "split_at n (a + tic_of s w) ?s1 (v # ws) s' es1 ws1"
      using Cons.IH [OF l dj nn, of "a + tic_of s w"] by (elim exE conjE) (rule that)
    have "adjust_loop (n - a) w s = adjust_loop (n - (a + tic_of s w)) v ?s1"
      using False nx by (subst adjust_loop.simps) (simp add: Let_def algebra_simps)
    then have 1: "adjust_loop (n - a) w s = Some s'" using s'(1) by (rule trans)
    have 2: "ticked (w # v # ws) s s'" by (rule ticked_trans [OF t1 s'(2)]) auto
    have 3: "split_at n a s (w # v # ws) s' (w # es1) ws1"
    proof (rule split_at_step [OF s'(3)])
      show "a + tic_of s w \<le> n" using False by simp
      show "tic_of s' w = 0" using tickedD(9) [OF s'(2), of w] Cons.prems(2) by simp
      show "dues (tic_of ?s1) (a + tic_of s w) (v # ws) = dues (tic_of s) (a + tic_of s w) (v # ws)"
        using T1 by (intro dues_cong) blast
    qed
    show ?thesis by (intro exI conjI, rule 1, rule 2, rule 3)
  qed
qed

lemma first_expired: "tq_ok s es ws \<Longrightarrow> q_first (hooks s TqHook) \<noteq> tq_wait s \<longleftrightarrow> es \<noteq> []"
proof -
  assume q: "tq_ok s es ws"
  show ?thesis
  proof (cases es)
    case (Cons e es')
    then have "e \<noteq> hd (ws @ [0])" using tq_okD(9,10) [OF q] by (cases ws) auto
    then show ?thesis using tq_okD(4,8) [OF q] Cons by simp
  qed (use tq_okD(4,8) [OF q] in simp)
qed

text \<open>A look at the clock.\<close>

definition looked :: "rtime \<Rightarrow> kst \<Rightarrow> tqst \<Rightarrow> tqst" where
  "looked n k s = s\<lparr>tq_tic := n, tqker := k\<rparr>"

lemma looked_simps [simp]:
  "blk (looked n k s) = blk s" "hooks (looked n k s) = hooks s" "tq_wait (looked n k s) = tq_wait s" "tq_tic (looked n k s) = n"
  "tick_queue (looked n k s) = tick_queue s" "hnx (looked n k s) h = hnx s h" "hpv (looked n k s) h = hpv s h"
  "tq_free (looked n k s) = tq_free s" "user_ptr (looked n k s) = user_ptr s" "hooked (looked n k s) h xs = hooked s h xs"
  "tqker (looked n k s) = k" "qheap (looked n k s) = qheap s"
  by (simp_all add: looked_def hnx_def hpv_def hooked_def)

lemma tqadjust_ok:
  assumes q: "tq_ok s es ws" and t: "rt_get_time (tqker s) = (n, k)"
  shows "\<exists>s' ws'. tqadjust s = Some (es @ map fst (filter (\<lambda>p. snd p \<le> n) (waiting s ws)) \<noteq> [], s')
     \<and> ticked ws (looked n k s) s' \<and> tq_tic s' = n
     \<and> tq_ok s' (es @ map fst (filter (\<lambda>p. snd p \<le> n) (waiting s ws))) ws'
     \<and> ws = map fst (filter (\<lambda>p. snd p \<le> n) (waiting s ws)) @ ws' \<and> waiting s' ws' = filter (\<lambda>p. n < snd p) (waiting s ws)"
proof (cases ws)
  case Nil
  have "tqadjust s = Some (es \<noteq> [], looked n k s)" using tq_okD [OF q] t Nil
    by (cases es) (simp_all add: tqadjust_def LOCK_TQ_def looked_def)
  moreover have "ticked [] (looked n k s) (looked n k s)" by (simp add: ticked_def)
  moreover have "tq_ok (looked n k s) es []" using q Nil by (simp add: tq_ok_def)
  ultimately show ?thesis using Nil by simp
next
  case (Cons w ws')
  let ?s = "looked n k s"
  note d = tq_okD [OF q]
  have "ring (hnx s TqHook) (hpv s TqHook) 0 (es @ w # ws')" using hookedD(1) [OF d(3)] Cons by simp
  then have l: "links (hnx ?s TqHook) (hpv ?s TqHook) w ws' 0" by (simp add: ring_def links_append)
  have dj: "distinct (w # ws')" "0 \<notin> set (w # ws')" "\<forall>b \<in> set (w # ws'). 0 \<le> tic_of ?s b" using d(6,9,10) Cons by auto
  obtain s' es1 ws1 where s': "adjust_loop (n - tq_tic s) w ?s = Some s'" "ticked (w # ws') ?s s'"
    "split_at n (tq_tic s) ?s (w # ws') s' es1 ws1" using adjust_loop_ok [OF l dj] by blast
  have sp: "ws = es1 @ ws1" "\<forall>b \<in> set es1. tic_of s' b = 0" "tq_wait s' = hd (ws1 @ [0])" "\<forall>b \<in> set ws1. 0 \<le> tic_of s' b"
    "ws1 \<noteq> [] \<longrightarrow> 0 < tic_of s' (hd ws1)" "es1 = map fst (filter (\<lambda>p. snd p \<le> n) (waiting s ws))"
    "dues (tic_of s') n ws1 = filter (\<lambda>p. n < snd p) (waiting s ws)"
    using s'(3) [unfolded split_at_def looked_simps, folded Cons] by - (elim conjE, assumption)+
  have n: "tq_tic s' = n" using tickedD(3) [OF s'(2)] by simp
  have h: "hooked s' TqHook (es @ es1 @ ws1)" using ticked_hooked [OF s'(2)] d(3) sp(1) by simp
  have e0: "tic_of s' b = 0" if "b \<in> set es" for b
  proof -
    have "b \<notin> set (w # ws')" using that d(9) Cons by auto
    then have "blk s' b = blk s b" using tickedD(9) [OF s'(2)] by simp
    then show ?thesis using d(5) [OF that] by simp
  qed
  have k': "tq_ok s' (es @ es1) ws1"
    unfolding tq_ok_def using h e0 sp(2-5) tickedD(1,4) [OF s'(2)] d(1,2) by auto
  have "w \<noteq> 0" using dj(2) by auto
  then have 1: "tqadjust s = Some (q_first (hooks s' TqHook) \<noteq> tq_wait s', s')"
    using d(1,4) Cons t s'(1) by (simp add: tqadjust_def LOCK_TQ_def looked_def)
  have "q_first (hooks s' TqHook) \<noteq> tq_wait s' \<longleftrightarrow> es @ es1 \<noteq> []" by (rule first_expired [OF k'])
  then have 2: "tqadjust s = Some (es @ es1 \<noteq> [], s')" unfolding 1 by simp
  show ?thesis unfolding sp(6) [symmetric]
    by (rule exI [of _ s'], rule exI [of _ ws1], intro conjI, rule 2, rule s'(2) [folded Cons], rule n, rule k', rule sp(1))
      (unfold n, rule sp(7))
qed

text \<open>The place for a new time.\<close>

lemma insert_pos_ok:
  assumes "links (hnx s h) (hpv s h) a ws 0" and "0 \<notin> set ws" and "\<forall>b \<in> set ws. 0 \<le> tic_of s b"
    and "w = hd (ws @ [0])" and "0 \<le> tic"
  shows "\<exists>xs ys. insert_pos tic w s = Some (tic - sum_list (map (tic_of s) xs), hd (ys @ [0])) \<and> ws = xs @ ys
     \<and> 0 \<le> tic - sum_list (map (tic_of s) xs) \<and> (ys \<noteq> [] \<longrightarrow> tic - sum_list (map (tic_of s) xs) < tic_of s (hd ys))"
  using assms
proof (induction ws arbitrary: a w tic)
  case Nil
  then show ?case by (simp add: insert_pos.simps)
next
  case (Cons v ws)
  show ?case
  proof (cases "tic_of s v \<le> tic")
    case False
    then show ?thesis using Cons.prems(4,5) by (intro exI [of _ "[]"] exI [of _ "v # ws"]) (simp add: insert_pos.simps)
  next
    case True
    have v: "v \<noteq> 0" "w = v" using Cons.prems(2,4) by auto
    have l: "links (hnx s h) (hpv s h) v ws 0" using Cons.prems(1) by simp
    then have nx: "b_nxt (blk s v) = hd (ws @ [0])" using links_first [OF l] v(1) by (simp add: hnx_def)
    have nn: "0 \<notin> set ws" "\<forall>b \<in> set ws. 0 \<le> tic_of s b" "0 \<le> tic - tic_of s v" using Cons.prems(2,3) True by simp_all
    obtain xs ys where "insert_pos (tic - tic_of s v) (hd (ws @ [0])) s
        = Some (tic - tic_of s v - sum_list (map (tic_of s) xs), hd (ys @ [0]))" "ws = xs @ ys"
      "0 \<le> tic - tic_of s v - sum_list (map (tic_of s) xs)"
      "ys \<noteq> [] \<longrightarrow> tic - tic_of s v - sum_list (map (tic_of s) xs) < tic_of s (hd ys)"
      using Cons.IH [OF l nn(1,2) refl nn(3)] by (elim exE conjE) (rule that)
    moreover have "insert_pos tic w s = insert_pos (tic - tic_of s v) (hd (ws @ [0])) s"
      using True v nx by (subst insert_pos.simps) simp
    ultimately show ?thesis by (intro exI [of _ "v # xs"] exI [of _ ys]) (simp add: algebra_simps)
  qed
qed


lemma dues_le: "\<forall>x \<in> set xs. 0 \<le> T x \<Longrightarrow> p \<in> set (dues T a xs) \<Longrightarrow> snd p \<le> a + sum_list (map T xs)"
proof (induction xs arbitrary: a)
  case (Cons x xs)
  have nn: "\<forall>x \<in> set xs. 0 \<le> T x" using Cons.prems(1) by simp
  have "0 \<le> sum_list (map T xs)" using nn by (intro sum_list_nonneg) auto
  moreover have "snd p \<le> a + T x + sum_list (map T xs)" if "p \<in> set (dues T (a + T x) xs)" using Cons.IH [OF nn that] .
  ultimately show ?case using Cons.prems(2) by auto
qed simp

lemma insert_dues:
  assumes nn: "\<forall>x \<in> set xs. 0 \<le> T x" and le: "sum_list (map T xs) \<le> tic"
    and ys: "ys \<noteq> [] \<Longrightarrow> tic - sum_list (map T xs) < T (hd ys)" and d: "distinct (xs @ cur # ys)"
    and T': "T' = (if ys = [] then T else T(hd ys := T (hd ys) - (tic - sum_list (map T xs))))(cur := tic - sum_list (map T xs))"
  shows "dues T' n (xs @ cur # ys) = insert_after_while (\<lambda>p. snd p \<le> n + tic) (cur, n + tic) (dues T n (xs @ ys))"
proof -
  let ?a = "n + sum_list (map T xs)"
  have x: "dues T' b xs = dues T b xs" for b using d unfolding T' by (intro dues_cong) (cases ys, auto)
  have m: "map T' xs = map T xs" using d unfolding T' by (cases ys) auto
  have c: "T' cur = tic - sum_list (map T xs)" by (simp add: T')
  have 1: "dues T' n (xs @ cur # ys) = dues T n xs @ (cur, n + tic) # dues T' (n + tic) ys"
    unfolding dues_append dues.simps x m c by simp
  have 2: "dues T' (n + tic) ys = dues T ?a ys"
  proof (cases ys)
    case (Cons y ys')
    have "dues T' b ys' = dues T b ys'" for b using d Cons unfolding T' by (intro dues_cong) auto
    then show ?thesis using Cons d by (auto simp: T' algebra_simps)
  qed simp
  have p: "\<forall>p \<in> set (dues T n xs). snd p \<le> n + tic" using dues_le [OF nn] le by fastforce
  have "takeWhile (\<lambda>p. snd p \<le> n + tic) (dues T ?a ys) = []" "dropWhile (\<lambda>p. snd p \<le> n + tic) (dues T ?a ys) = dues T ?a ys"
    using ys by (cases ys; force)+
  then have "insert_after_while (\<lambda>p. snd p \<le> n + tic) (cur, n + tic) (dues T n (xs @ ys)) = dues T n xs @ (cur, n + tic) # dues T ?a ys"
    using p by (simp add: insert_after_while_def dues_append takeWhile_append dropWhile_append)
  then show ?thesis using 1 2 by simp
qed

text \<open>The end of an insertion: the block enters between \<open>xs\<close> and \<open>ys\<close>.\<close>

lemma insert_enter:
  assumes q: "tq_ok s es (xs @ ys)" and c: "b_hook (blk s cur) = None" "cur \<noteq> 0"
    and le: "0 \<le> t1" and ys: "ys \<noteq> [] \<longrightarrow> t1 < tic_of s (hd ys)" and w: "w = tq_wait s \<or> w = cur"
  shows "\<exists>s'. enter cur (hd (ys @ [0])) TqHook (if ys = [] then s\<lparr>tq_wait := w\<rparr> else upd_blk (hd ys) (\<lambda>b. b\<lparr>b_tic := b_tic b - t1\<rparr>) (s\<lparr>tq_wait := w\<rparr>)) = Some s'
     \<and> hooked s' TqHook (es @ xs @ cur # ys) \<and> tq_wait s' = w \<and> tq_tic s' = tq_tic s \<and> tick_queue s' = tick_queue s \<and> tqker s' = tqker s
     \<and> q_cancel (hooks s' TqHook) = TqCancel \<and> b_rpt (blk s' cur) = b_rpt (blk s cur)
     \<and> (tic_of s')(cur := t1) = (if ys = [] then tic_of s else (tic_of s)(hd ys := tic_of s (hd ys) - t1))(cur := t1)"
proof -
  let ?s1 = "if ys = [] then s\<lparr>tq_wait := w\<rparr> else upd_blk (hd ys) (\<lambda>b. b\<lparr>b_tic := b_tic b - t1\<rparr>) (s\<lparr>tq_wait := w\<rparr>)"
  note d = tq_okD [OF q]
  have n: "cur \<notin> set (es @ xs @ ys)" using hookedD(2) [OF d(3), of cur] c(1) by auto
  have b: "blk ?s1 = (if ys = [] then blk s else (blk s)(hd ys := (blk s (hd ys))\<lparr>b_tic := tic_of s (hd ys) - t1\<rparr>))"
    "hooks ?s1 = hooks s" "tq_wait ?s1 = w" "tq_tic ?s1 = tq_tic s" "tick_queue ?s1 = tick_queue s" "tqker ?s1 = tqker s"
    by simp_all
  have hd: "ys \<noteq> [] \<Longrightarrow> hd ys \<noteq> cur" using n by (cases ys) auto
  have eq: "hnx ?s1 TqHook = hnx s TqHook" "hpv ?s1 TqHook = hpv s TqHook" "\<And>a. b_hook (blk ?s1 a) = b_hook (blk s a)"
    unfolding b(1,2) hnx_def hpv_def by auto
  have h1: "hooked ?s1 TqHook ((es @ xs) @ ys)" unfolding hooked_def eq append_assoc using d(3) unfolding hooked_def .
  have c1: "b_hook (blk ?s1 cur) = None" unfolding eq(3) by (rule c(1))
  have t1: "tick_queue ?s1 \<noteq> 0" unfolding b(5) by (rule d(1))
  obtain s' where s': "enter cur (hd (ys @ [0])) TqHook ?s1 = Some s'" "hooked s' TqHook ((es @ xs) @ cur # ys)" "relinked TqHook cur ?s1 s'"
    using enter_ok [OF h1 c1 c(2) t1] by blast
  have t: "tic_of s' = tic_of ?s1" using relinkedD(9) [OF s'(3)] by blast
  have "tq_wait s' = w" "tq_tic s' = tq_tic s" "tick_queue s' = tick_queue s" "tqker s' = tqker s" "q_cancel (hooks s' TqHook) = TqCancel"
    using relinkedD(2-4,7,12) [OF s'(3)] b d(2) by (simp_all only:)
  moreover have "b_rpt (blk s' cur) = b_rpt (blk s cur)"
    using loadD(2) [OF relinkedD(8) [OF s'(3), of cur]] hd by (auto split: if_splits)
  moreover have "(tic_of s')(cur := t1) = (if ys = [] then tic_of s else (tic_of s)(hd ys := tic_of s (hd ys) - t1))(cur := t1)"
    unfolding t b(1) by (auto simp: fun_eq_iff)
  ultimately show ?thesis using s'(1,2) by (intro exI [of _ s']) simp
qed


lemma tq_ok_rpt:
  assumes "tq_ok s es ws"
  shows "tq_ok (upd_blk c (\<lambda>b. b\<lparr>b_rpt := r\<rparr>) s) es ws" "tic_of (upd_blk c (\<lambda>b. b\<lparr>b_rpt := r\<rparr>) s) = tic_of s"
proof -
  let ?s = "upd_blk c (\<lambda>b. b\<lparr>b_rpt := r\<rparr>) s"
  show t: "tic_of ?s = tic_of s" by (simp add: fun_eq_iff)
  have "hnx ?s h = hnx s h" "hpv ?s h = hpv s h" "b_hook (blk ?s a) = b_hook (blk s a)" for h a
    by (auto simp: hnx_def hpv_def fun_eq_iff)
  then have "hooked ?s TqHook (es @ ws)" using tq_okD(3) [OF assms] by (simp add: hooked_def)
  then show "tq_ok ?s es ws" using tq_okD [OF assms] by (auto simp: tq_ok_def)
qed

text \<open>Where the place for a new time is, and whether the block becomes the first that waits.\<close>

lemma insert_place:
  assumes q: "tq_ok s es ws" and t: "0 \<le> tic"
  shows "\<exists>xs ys. insert_pos tic (tq_wait s) s = Some (tic - sum_list (map (tic_of s) xs), hd (ys @ [0])) \<and> ws = xs @ ys
     \<and> 0 \<le> tic - sum_list (map (tic_of s) xs) \<and> (ys \<noteq> [] \<longrightarrow> tic - sum_list (map (tic_of s) xs) < tic_of s (hd ys))
     \<and> (tq_wait s \<noteq> 0 \<and> tic_of s (tq_wait s) \<le> tic \<longleftrightarrow> xs \<noteq> []) \<and> (tic = 0 \<longrightarrow> xs = [])"
proof -
  note d = tq_okD [OF q]
  have "ring (hnx s TqHook) (hpv s TqHook) 0 (es @ ws)" using hookedD(1) [OF d(3)] .
  then obtain a where l: "links (hnx s TqHook) (hpv s TqHook) a ws 0"
    by (cases es rule: rev_cases) (auto simp: ring_def links_append)
  have z: "0 \<notin> set ws" using d(10) by simp
  obtain xs ys where p: "insert_pos tic (tq_wait s) s = Some (tic - sum_list (map (tic_of s) xs), hd (ys @ [0]))" "ws = xs @ ys"
    "0 \<le> tic - sum_list (map (tic_of s) xs)" "ys \<noteq> [] \<longrightarrow> tic - sum_list (map (tic_of s) xs) < tic_of s (hd ys)"
    using insert_pos_ok [OF l z d(6) d(4) t] by (elim exE conjE) (rule that)
  have "(tq_wait s \<noteq> 0 \<and> tic_of s (tq_wait s) \<le> tic \<longleftrightarrow> xs \<noteq> []) \<and> (tic = 0 \<longrightarrow> xs = [])"
  proof (cases xs)
    case Nil
    then show ?thesis using p(2,4) d(4) by (cases ys) auto
  next
    case (Cons x xs')
    have "0 \<le> sum_list (map (tic_of s) xs')" using d(6) p(2) Cons by (intro sum_list_nonneg) auto
    moreover have "0 < tic_of s x" "tq_wait s = x" "x \<noteq> 0" using d(4,7) z p(2) Cons by auto
    ultimately show ?thesis using p(3) Cons by auto
  qed
  then show ?thesis using p by (intro exI [of _ xs] exI [of _ ys]) simp
qed

text \<open>The queue after an insertion among the waiting blocks and after one behind the expired blocks.\<close>

lemma inserted_ok:
  assumes q: "tq_ok s es (xs @ ys)" and h: "hooked s' TqHook (es @ xs @ cur # ys)" and k: "tick_queue s' \<noteq> 0" "q_cancel (hooks s' TqHook) = TqCancel"
    and T: "tic_of s' = (if ys = [] then tic_of s else (tic_of s)(hd ys := tic_of s (hd ys) - t1))(cur := t1)"
    and t1: "0 \<le> t1" "ys \<noteq> [] \<longrightarrow> t1 < tic_of s (hd ys)"
  shows "tq_wait s' = (if xs = [] then cur else tq_wait s) \<Longrightarrow> (xs = [] \<Longrightarrow> 0 < t1) \<Longrightarrow> tq_ok s' es (xs @ cur # ys)"
    and "tq_wait s' = tq_wait s \<Longrightarrow> xs = [] \<Longrightarrow> t1 = 0 \<Longrightarrow> tq_ok s' (es @ [cur]) ys \<and> dues (tic_of s') a ys = dues (tic_of s) a ys"
proof -
  note d = tq_okD [OF q]
  have n: "cur \<notin> set (es @ xs @ ys)" "distinct (es @ xs @ ys)" using hookedD(3) [OF h] by auto
  have Tp: "tic_of s' b = (if b = cur then t1 else if ys \<noteq> [] \<and> b = hd ys then tic_of s b - t1 else tic_of s b)" for b
    using fun_cong [OF T, of b] by (auto split: if_splits)
  have Te: "\<forall>b \<in> set es. tic_of s' b = 0" using n d(5) by (cases ys) (auto simp: Tp)
  have Tx: "\<forall>b \<in> set xs. tic_of s' b = tic_of s b" using n by (cases ys) (auto simp: Tp)
  have Ty: "\<forall>b \<in> set ys. 0 \<le> tic_of s' b" "ys \<noteq> [] \<Longrightarrow> 0 < tic_of s' (hd ys)" using n d(6) t1 by (cases ys; force simp: Tp)+
  have Tc: "tic_of s' cur = t1" by (simp add: Tp)
  show "tq_ok s' es (xs @ cur # ys)" if w: "tq_wait s' = (if xs = [] then cur else tq_wait s)" and p: "xs = [] \<Longrightarrow> 0 < t1"
  proof -
    have "0 < tic_of s' (hd (xs @ cur # ys))" using d(7) Tx Tc p by (cases xs) auto
    moreover have "tq_wait s' = hd ((xs @ cur # ys) @ [0])" using w d(4) by (cases xs) auto
    moreover have "\<forall>b \<in> set (xs @ cur # ys). 0 \<le> tic_of s' b" using Tx Ty(1) Tc t1(1) d(6) by auto
    ultimately show ?thesis unfolding tq_ok_def using h k Te by blast
  qed
  show "tq_ok s' (es @ [cur]) ys \<and> dues (tic_of s') a ys = dues (tic_of s) a ys" if w: "tq_wait s' = tq_wait s" "xs = []" "t1 = 0"
  proof
    have "\<forall>b \<in> set (es @ [cur]). tic_of s' b = 0" using Te Tc w(3) by auto
    moreover have "hooked s' TqHook ((es @ [cur]) @ ys)" using h w(2) by simp
    moreover have "tq_wait s' = hd (ys @ [0])" using w(1,2) d(4) by simp
    ultimately show "tq_ok s' (es @ [cur]) ys" unfolding tq_ok_def using k Ty by blast
    show "dues (tic_of s') a ys = dues (tic_of s) a ys" using n w(3) by (intro dues_cong) (auto simp: Tp)
  qed
qed

text \<open>A block that is inserted for a time from now is due then, after those due by then; the time by which another one is
  due does not change.  For the time 0 it is the last of the expired blocks.\<close>

lemma tqinsert_due:
  assumes q: "tq_ok s es ws" and c: "b_hook (blk s cur) = None" "cur \<noteq> 0" and tic: "0 \<le> tic" and t: "rt_get_time (tqker s) = (n, k)"
  shows "\<exists>s' es' ws'. tqinsert cur tic rpt s = Some s' \<and> tq_ok s' es' ws' \<and> tq_tic s' = n \<and> b_rpt (blk s' cur) = (if rpt then tic else 0)
     \<and> es' = es @ map fst (filter (\<lambda>p. snd p \<le> n) (waiting s ws)) @ (if tic = 0 then [cur] else [])
     \<and> waiting s' ws' = (let later = filter (\<lambda>p. n < snd p) (waiting s ws) in
         if tic = 0 then later else insert_after_while (\<lambda>p. snd p \<le> n + tic) (cur, n + tic) later)"
proof -
  let ?s0 = "upd_blk cur (\<lambda>b. b\<lparr>b_rpt := (if rpt then tic else 0)\<rparr>) s"
  let ?ex = "map fst (filter (\<lambda>p. snd p \<le> n) (waiting s ws))" and ?later = "filter (\<lambda>p. n < snd p) (waiting s ws)"
  have q0: "tq_ok ?s0 es ws" and w0: "waiting ?s0 ws = waiting s ws" using tq_ok_rpt [OF q] by simp_all
  have t0: "rt_get_time (tqker ?s0) = (n, k)" using t by simp
  obtain s1 ws1 where s1: "tqadjust ?s0 = Some (es @ ?ex \<noteq> [], s1)" "ticked ws (looked n k ?s0) s1" "tq_tic s1 = n"
    "tq_ok s1 (es @ ?ex) ws1" "waiting s1 ws1 = ?later"
    using tqadjust_ok [OF q0 t0] unfolding w0 by (elim exE conjE) (rule that)
  obtain xs ys where p: "insert_pos tic (tq_wait s1) s1 = Some (tic - sum_list (map (tic_of s1) xs), hd (ys @ [0]))" "ws1 = xs @ ys"
    "0 \<le> tic - sum_list (map (tic_of s1) xs)" "ys \<noteq> [] \<longrightarrow> tic - sum_list (map (tic_of s1) xs) < tic_of s1 (hd ys)"
    "tq_wait s1 \<noteq> 0 \<and> tic_of s1 (tq_wait s1) \<le> tic \<longleftrightarrow> xs \<noteq> []" "tic = 0 \<longrightarrow> xs = []"
    using insert_place [OF s1(4) tic] by (elim exE conjE) (rule that)
  let ?t1 = "tic - sum_list (map (tic_of s1) xs)" and ?w = "if xs \<noteq> [] \<or> tic = 0 then tq_wait s1 else cur"
  let ?s2 = "if ys = [] then s1\<lparr>tq_wait := ?w\<rparr> else upd_blk (hd ys) (\<lambda>b. b\<lparr>b_tic := b_tic b - ?t1\<rparr>) (s1\<lparr>tq_wait := ?w\<rparr>)"
  have q1: "tq_ok s1 (es @ ?ex) (xs @ ys)" using s1(4) p(2) by simp
  have c1: "b_hook (blk s1 cur) = None" using tickedD(12) [OF s1(2), of cur] c(1) by simp
  have r1: "b_rpt (blk s1 cur) = (if rpt then tic else 0)" using tickedD(8) [OF s1(2), of cur] by (cases "blk s1 cur") simp
  have w: "?w = tq_wait s1 \<or> ?w = cur" by simp
  obtain s3 where s3: "enter cur (hd (ys @ [0])) TqHook ?s2 = Some s3" "hooked s3 TqHook ((es @ ?ex) @ xs @ cur # ys)" "tq_wait s3 = ?w"
    "tq_tic s3 = tq_tic s1" "tick_queue s3 = tick_queue s1" "tqker s3 = tqker s1" "q_cancel (hooks s3 TqHook) = TqCancel"
    "b_rpt (blk s3 cur) = b_rpt (blk s1 cur)"
    "(tic_of s3)(cur := ?t1) = (if ys = [] then tic_of s1 else (tic_of s1)(hd ys := tic_of s1 (hd ys) - ?t1))(cur := ?t1)"
    using insert_enter [OF q1 c1 c(2) p(3,4) w] by (elim exE conjE) (rule that)
  let ?s' = "upd_blk cur (\<lambda>b. b\<lparr>b_tic := ?t1\<rparr>) s3"
  note d1 = tq_okD [OF q1]
  have z: "0 \<notin> set ys" using d1(10) by simp
  have ins: "tqinsert cur tic rpt s = Some ?s'"
  proof -
    have "hd (ys @ [0]) \<noteq> 0 \<longleftrightarrow> ys \<noteq> []" using z by (cases ys) auto
    moreover have "s1\<lparr>tq_wait := tq_wait s1\<rparr> = s1" by simp
    ultimately show ?thesis using s1(1) p(1,5) s3(1) by (auto simp: tqinsert_def enter_def split: if_splits)
  qed
  have T: "tic_of ?s' = (tic_of s3)(cur := ?t1)" by (simp add: fun_eq_iff)
  have h: "hooked ?s' TqHook ((es @ ?ex) @ xs @ cur # ys)"
    using s3(2) ticked_hooked [OF ticked_upd(2)] by simp
  have k: "tick_queue ?s' \<noteq> 0" "q_cancel (hooks ?s' TqHook) = TqCancel" using s3(5,7) d1(1) by simp_all
  have r: "tq_tic ?s' = n" "b_rpt (blk ?s' cur) = (if rpt then tic else 0)" using s3(4,8) s1(3) r1 by simp_all
  note io = inserted_ok [OF q1 h k T [unfolded s3(9)] p(3,4)]
  show ?thesis
  proof (cases "tic = 0")
    case True
    have "tq_ok ?s' ((es @ ?ex) @ [cur]) ys \<and> dues (tic_of ?s') n ys = dues (tic_of s1) n ys"
      by (rule io(2)) (use p(6) True s3(3) in simp_all)
    then have "tq_ok ?s' (es @ ?ex @ [cur]) ys" "waiting ?s' ys = ?later" using s1(3,5) p(2,6) True r(1) by simp_all
    then show ?thesis using ins r True by (intro exI [of _ ?s'] exI [of _ "es @ ?ex @ [cur]"] exI [of _ ys]) simp
  next
    case False
    have q': "tq_ok ?s' (es @ ?ex) (xs @ cur # ys)" by (rule io(1)) (use False tic s3(3) in \<open>auto split: if_splits\<close>)
    have "dues (tic_of ?s') n (xs @ cur # ys) = insert_after_while (\<lambda>p. snd p \<le> n + tic) (cur, n + tic) (dues (tic_of s1) n (xs @ ys))"
    proof (rule insert_dues)
      show "distinct (xs @ cur # ys)" using tq_okD(9) [OF q'] by simp
      show "tic_of ?s' = (if ys = [] then tic_of s1 else (tic_of s1)(hd ys := tic_of s1 (hd ys) - ?t1))(cur := ?t1)" unfolding T s3(9) ..
    qed (use d1(6) p(3,4) in auto)
    then have "waiting ?s' (xs @ cur # ys) = insert_after_while (\<lambda>p. snd p \<le> n + tic) (cur, n + tic) ?later"
      using s1(3,5) p(2) r(1) by simp
    then show ?thesis using ins r q' False by (intro exI [of _ ?s'] exI [of _ "es @ ?ex"] exI [of _ "xs @ cur # ys"]) simp
  qed
qed


section \<open>Taking a block out\<close>

lemma dues_remove:
  assumes d: "distinct (xs @ c # ys)" and T': "\<And>b. T' b = (if ys \<noteq> [] \<and> b = hd ys then T b + T c else T b)"
  shows "dues T' a (xs @ ys) = filter (\<lambda>p. fst p \<noteq> c) (dues T a (xs @ c # ys))"
proof -
  have f: "filter (\<lambda>p. fst p \<noteq> c) (dues T b zs) = dues T b zs" if "c \<notin> set zs" for b zs
    using that by (induction zs arbitrary: b) auto
  have x: "dues T' b xs = dues T b xs" for b using d T' by (intro dues_cong) (cases ys, auto)
  have m: "map T' xs = map T xs" using d T' by (cases ys) auto
  have y: "dues T' b ys = dues T (b + T c) ys" for b
  proof (cases ys)
    case (Cons y ys')
    have "dues T' b ys' = dues T b ys'" for b using d Cons T' by (intro dues_cong) auto
    then show ?thesis using Cons T' [of y] by (simp add: algebra_simps)
  qed simp
  show ?thesis using d unfolding dues_append m x y by (simp add: f)
qed

text \<open>\<^verbatim>\<open>tqcancel\<close> gives the time of the block to the next one.\<close>

definition cancelled :: "addr \<Rightarrow> addr list \<Rightarrow> tqst \<Rightarrow> tqst \<Rightarrow> bool" where
  "cancelled cur xs s s' \<longleftrightarrow> ticked xs s s' \<and> tq_wait s' = (if tq_wait s = cur then b_nxt (blk s cur) else tq_wait s)
     \<and> tic_of s' = (if b_nxt (blk s cur) = 0 then tic_of s
         else (tic_of s)(b_nxt (blk s cur) := tic_of s (b_nxt (blk s cur)) + tic_of s cur))"

lemma next_block:
  assumes q: "tq_ok s es ws" and xs: "es @ ws = as @ cur # bs"
  shows "b_nxt (blk s cur) = hd (bs @ [0])" "cur \<noteq> 0" "0 \<notin> set bs" "cur \<notin> set bs"
proof -
  note d = tq_okD [OF q]
  show c: "cur \<noteq> 0" using d(10) xs by auto
  show "0 \<notin> set bs" "cur \<notin> set bs" using d(9,10) unfolding xs by simp_all
  have "links (hnx s TqHook) (hpv s TqHook) cur bs 0" using hookedD(1) [OF d(3)] unfolding xs by (simp add: ring_def links_append)
  then show "b_nxt (blk s cur) = hd (bs @ [0])" using links_first c by (fastforce simp: hnx_def)
qed

lemma tqcancel_eq:
  assumes q: "tq_ok s es ws" and c: "cur \<in> set (es @ ws)"
  shows "\<exists>s'. tqcancel cur s = Some s' \<and> cancelled cur (es @ ws) s s'"
proof -
  obtain as bs where xs: "es @ ws = as @ cur # bs" using c by (meson split_list)
  note n = next_block [OF q xs]
  have nc: "b_nxt (blk s cur) \<noteq> cur" using n by (cases bs) auto
  have mem: "b_nxt (blk s cur) \<noteq> 0 \<Longrightarrow> b_nxt (blk s cur) \<in> set (es @ ws)" unfolding xs n by (cases bs) auto
  let ?n = "b_nxt (blk s cur)"
  let ?s1 = "if ?n \<noteq> 0 then upd_blk ?n (\<lambda>b. b\<lparr>b_tic := b_tic b + tic_of s cur\<rparr>) s else s"
  let ?s' = "if tq_wait s = cur then ?s1\<lparr>tq_wait := ?n\<rparr> else ?s1"
  have "tqcancel cur s = Some ?s'" using tq_okD(1) [OF q] nc by (simp add: tqcancel_def LOCK_TQ_def Let_def)
  moreover have "ticked (es @ ws) s ?s'" using mem by (auto simp: ticked_def upd_blk_def)
  moreover have "tq_wait ?s' = (if tq_wait s = cur then ?n else tq_wait s)" by simp
  moreover have "tic_of ?s' = (if ?n = 0 then tic_of s else (tic_of s)(?n := tic_of s ?n + tic_of s cur))" by (auto simp: fun_eq_iff)
  ultimately show ?thesis unfolding cancelled_def by blast
qed

text \<open>The queue without a block: the others are due when they were.\<close>

lemma removed_fields:
  assumes q: "tq_ok s es ws" and cn: "cancelled cur (es @ ws) s s1" and r: "relinked TqHook cur s1 s'"
  shows "tic_of s' b = (if b_nxt (blk s cur) \<noteq> 0 \<and> b = b_nxt (blk s cur) then tic_of s b + tic_of s cur else tic_of s b)"
    "tick_queue s' \<noteq> 0" "q_cancel (hooks s' TqHook) = TqCancel" "tq_wait s' = (if tq_wait s = cur then b_nxt (blk s cur) else tq_wait s)"
    "tq_tic s' = tq_tic s" "tqker s' = tqker s"
proof -
  have t: "ticked (es @ ws) s s1" and w: "tq_wait s1 = (if tq_wait s = cur then b_nxt (blk s cur) else tq_wait s)"
    and T: "tic_of s1 = (if b_nxt (blk s cur) = 0 then tic_of s
         else (tic_of s)(b_nxt (blk s cur) := tic_of s (b_nxt (blk s cur)) + tic_of s cur))"
    using cn unfolding cancelled_def by blast+
  show "tic_of s' b = (if b_nxt (blk s cur) \<noteq> 0 \<and> b = b_nxt (blk s cur) then tic_of s b + tic_of s cur else tic_of s b)"
    using relinkedD(9) [OF r, of b] fun_cong [OF T, of b] by (auto split: if_splits)
  show "tick_queue s' \<noteq> 0" "q_cancel (hooks s' TqHook) = TqCancel" "tq_wait s' = (if tq_wait s = cur then b_nxt (blk s cur) else tq_wait s)"
    "tq_tic s' = tq_tic s" "tqker s' = tqker s"
    using relinkedD(2-4,7,12) [OF r] tickedD(1,3,4,7) [OF t] tq_okD(1,2) [OF q] w by simp_all
qed

lemma removed_expired:
  assumes q: "tq_ok s es ws" and c: "cur \<in> set es" and cn: "cancelled cur (es @ ws) s s1"
    and h: "hooked s' TqHook (remove1 cur (es @ ws))" and r: "relinked TqHook cur s1 s'"
  shows "tq_ok s' (remove1 cur es) ws" "dues (tic_of s') a ws = filter (\<lambda>p. fst p \<noteq> cur) (dues (tic_of s) a ws)"
proof -
  note d = tq_okD [OF q]
  note f = removed_fields [OF q cn r]
  have m: "cur \<notin> set ws" "tic_of s cur = 0" "cur \<noteq> 0" using c d(5,9,10) by auto
  then have T: "tic_of s' b = tic_of s b" for b using f(1) by simp
  have "tq_wait s \<noteq> cur" using d(4) m by (cases ws) auto
  then have "tq_wait s' = hd (ws @ [0])" using f(4) d(4) by simp
  moreover have "hooked s' TqHook (remove1 cur es @ ws)" using h c by (simp add: remove1_append)
  moreover have "set (remove1 cur es) \<subseteq> set es" by (rule set_remove1_subset)
  ultimately show "tq_ok s' (remove1 cur es) ws" using f(2,3) d(5-7) T by (auto simp: tq_ok_def)
  have "dues (tic_of s') a ws = dues (tic_of s) a ws" using T by (rule dues_cong)
  moreover have "filter (\<lambda>p. fst p \<noteq> cur) (dues (tic_of s) a ws) = dues (tic_of s) a ws"
    using m(1) by (simp only: filter_id_conv) (metis image_eqI list.set_map map_fst_dues)
  ultimately show "dues (tic_of s') a ws = filter (\<lambda>p. fst p \<noteq> cur) (dues (tic_of s) a ws)" by (simp only:)
qed

lemma removed_waiting:
  assumes q: "tq_ok s es (us @ cur # vs)" and cn: "cancelled cur (es @ us @ cur # vs) s s1"
    and h: "hooked s' TqHook (es @ us @ vs)" and r: "relinked TqHook cur s1 s'"
  shows "tq_ok s' es (us @ vs)" "dues (tic_of s') a (us @ vs) = filter (\<lambda>p. fst p \<noteq> cur) (dues (tic_of s) a (us @ cur # vs))"
proof -
  note d = tq_okD [OF q]
  note f = removed_fields [OF q cn r]
  have "es @ us @ cur # vs = (es @ us) @ cur # vs" by simp
  note n = next_block [OF q this]
  have T: "tic_of s' b = (if vs \<noteq> [] \<and> b = hd vs then tic_of s b + tic_of s cur else tic_of s b)" for b
    using f(1) [of b] n by (cases vs) auto
  show "dues (tic_of s') a (us @ vs) = filter (\<lambda>p. fst p \<noteq> cur) (dues (tic_of s) a (us @ cur # vs))"
    by (rule dues_remove [OF _ T]) (use d(9) in simp)
  have e: "\<forall>b \<in> set es. tic_of s' b = 0" using d(5,9) T by (cases vs) auto
  have nn: "\<forall>b \<in> set (us @ vs). 0 \<le> tic_of s' b" using d(6) T by auto
  have "tq_wait s' = hd ((us @ vs) @ [0])" using f(4) d(4,9) n(1) by (cases us) auto
  moreover have "us @ vs \<noteq> [] \<longrightarrow> 0 < tic_of s' (hd (us @ vs))"
  proof (cases us)
    case Nil
    then show ?thesis using d(6,7) T [of "hd vs"] by (cases vs) auto
  next
    case (Cons u us')
    then show ?thesis using d(6,7) T [of u] by (cases vs) auto
  qed
  ultimately show "tq_ok s' es (us @ vs)" unfolding tq_ok_def using f(2,3) h e nn by blast
qed

lemma dequeue_ok:
  assumes q: "tq_ok s es ws" and c: "cur \<in> set (es @ ws)"
  shows "\<exists>s'. rt_qBlkDequeue C cur s = Some s' \<and> tq_ok s' (remove1 cur es) (remove1 cur ws) \<and> b_hook (blk s' cur) = None
     \<and> waiting s' (remove1 cur ws) = filter (\<lambda>p. fst p \<noteq> cur) (waiting s ws) \<and> tq_tic s' = tq_tic s \<and> tqker s' = tqker s"
proof -
  note d = tq_okD [OF q]
  obtain s1 where s1: "tqcancel cur s = Some s1" "cancelled cur (es @ ws) s s1" using tqcancel_eq [OF q c] by blast
  have t: "ticked (es @ ws) s s1" using s1(2) by (simp add: cancelled_def)
  have h1: "hooked s1 TqHook (es @ ws)" "tick_queue s1 \<noteq> 0" using ticked_hooked [OF t] d(1,3) tickedD(4) [OF t] by simp_all
  obtain s' where s': "rt_qBlkUnhook cur s1 = Some s'" "hooked s' TqHook (remove1 cur (es @ ws))" "b_hook (blk s' cur) = None"
    "relinked TqHook cur s1 s'" using unhook_ok [OF h1(1) c h1(2)] by blast
  have dq: "rt_qBlkDequeue C cur s = Some s'" using hookedD(2) [OF d(3) c] d(2) s1(1) s'(1) by (simp add: rt_qBlkDequeue_def)
  note f = removed_fields(5,6) [OF q s1(2) s'(4)]
  have "tq_ok s' (remove1 cur es) (remove1 cur ws) \<and> dues (tic_of s') (tq_tic s) (remove1 cur ws) = filter (\<lambda>p. fst p \<noteq> cur) (waiting s ws)"
  proof (cases "cur \<in> set es")
    case True
    then have "remove1 cur ws = ws" using d(9) by (auto intro: remove1_idem)
    then show ?thesis using removed_expired [OF q True s1(2) s'(2,4)] by simp
  next
    case False
    then have e: "remove1 cur es = es" and "cur \<in> set ws" using c by (auto intro: remove1_idem)
    then obtain us vs where ws: "ws = us @ cur # vs" "cur \<notin> set us" by (metis split_list_first)
    have rm: "remove1 cur ws = us @ vs" using ws by (simp add: remove1_append)
    have h: "hooked s' TqHook (es @ us @ vs)" using s'(2) False rm by (simp add: remove1_append)
    show ?thesis unfolding rm e using removed_waiting [OF q [unfolded ws(1)] s1(2) [unfolded ws(1)] h s'(4)] ws(1) by simp
  qed
  then show ?thesis using dq s'(3) f by (intro exI [of _ s']) simp
qed


lemma dequeue_none: "b_hook (blk s cur) = None \<Longrightarrow> rt_qBlkDequeue C cur s = Some s"
  by (simp add: rt_qBlkDequeue_def)

lemma waiting_without: "cur \<notin> set ws \<Longrightarrow> filter (\<lambda>p. fst p \<noteq> cur) (waiting s ws) = waiting s ws"
  by (simp only: filter_id_conv) (metis image_eqI list.set_map map_fst_dues)

text \<open>A block, in the queue or not, is made to wait: it is in the queue once, for the new time, and all others are due
  when they were.\<close>

text \<open>C28: making a block wait, whether it was in the tick queue or not, returns; the block is
  then in the queue once, due at the given time from now behind the blocks due by then, all others
  are due when they were, and those whose time has come are expired.\<close>

theorem blk_wait_due:
  assumes q: "tq_ok s es ws" and c: "cur \<noteq> 0" "b_hook (blk s cur) = None \<or> cur \<in> set (es @ ws)" and tic: "0 \<le> tic"
    and t: "rt_get_time (tqker s) = (n, k)"
  defines "W \<equiv> filter (\<lambda>p. fst p \<noteq> cur) (waiting s ws)"
  shows "\<exists>s' es' ws'. (if rpt then rt_qBlkRepeat C cur tic s else rt_qBlkWait C cur tic s) = Some s' \<and> tq_ok s' es' ws' \<and> tq_tic s' = n
     \<and> b_rpt (blk s' cur) = (if rpt then tic else 0)
     \<and> es' = remove1 cur es @ map fst (filter (\<lambda>p. snd p \<le> n) W) @ (if tic = 0 then [cur] else [])
     \<and> waiting s' ws' = (let later = filter (\<lambda>p. n < snd p) W in
         if tic = 0 then later else insert_after_while (\<lambda>p. snd p \<le> n + tic) (cur, n + tic) later)"
proof -
  have "\<exists>s1. rt_qBlkDequeue C cur s = Some s1 \<and> tq_ok s1 (remove1 cur es) (remove1 cur ws) \<and> b_hook (blk s1 cur) = None
     \<and> waiting s1 (remove1 cur ws) = W \<and> tqker s1 = tqker s"
  proof (cases "cur \<in> set (es @ ws)")
    case True
    then show ?thesis using dequeue_ok [OF q, of cur C] unfolding W_def by blast
  next
    case False
    then have "remove1 cur es = es" "remove1 cur ws = ws" "b_hook (blk s cur) = None" using c(2) by (auto intro: remove1_idem)
    then show ?thesis using q dequeue_none [of s cur C] waiting_without [of cur ws s] False by (simp add: W_def)
  qed
  then obtain s1 where s1: "rt_qBlkDequeue C cur s = Some s1" "tq_ok s1 (remove1 cur es) (remove1 cur ws)" "b_hook (blk s1 cur) = None"
    "waiting s1 (remove1 cur ws) = W" "tqker s1 = tqker s" by blast
  obtain s' es' ws' where "tqinsert cur tic rpt s1 = Some s'" "tq_ok s' es' ws'" "tq_tic s' = n" "b_rpt (blk s' cur) = (if rpt then tic else 0)"
    "es' = remove1 cur es @ map fst (filter (\<lambda>p. snd p \<le> n) W) @ (if tic = 0 then [cur] else [])"
    "waiting s' ws' = (let later = filter (\<lambda>p. n < snd p) W in
         if tic = 0 then later else insert_after_while (\<lambda>p. snd p \<le> n + tic) (cur, n + tic) later)"
    using tqinsert_due [OF s1(2,3) c(1) tic t [folded s1(5)], of rpt] unfolding s1(4) by (elim exE conjE) (rule that)
  then show ?thesis using s1(1)
    by (intro exI [of _ s'] exI [of _ es'] exI [of _ ws'] conjI) (cases rpt, simp_all add: rt_qBlkRepeat_def rt_qBlkWait_def)
qed

section \<open>Execution\<close>

text \<open>Functions that change nothing but the memory of the client.\<close>

definition quiet :: "(nat \<Rightarrow> nat \<Rightarrow> int \<Rightarrow> (addr \<Rightarrow> addr) \<Rightarrow> addr \<Rightarrow> addr) \<Rightarrow> qfuns" where
  "quiet G f a e s = Ret () (s\<lparr>user_ptr := G f a e (user_ptr s)\<rparr>)"

text \<open>What the execution of a block does there: the client's pointer to a dynamic block is cleared, then the function runs.\<close>

definition blk_effect :: "(nat \<Rightarrow> nat \<Rightarrow> int \<Rightarrow> (addr \<Rightarrow> addr) \<Rightarrow> addr \<Rightarrow> addr) \<Rightarrow> qblk \<Rightarrow> (addr \<Rightarrow> addr) \<Rightarrow> addr \<Rightarrow> addr" where
  "blk_effect G b u = G (b_fun b) (b_arg b) (b_evn b) (case b_lnk b of None \<Rightarrow> u | Some p \<Rightarrow> if p \<noteq> 0 then u(p := 0) else u)"

text \<open>What a block tells to do, which neither time nor links change.\<close>

definition action :: "qblk \<Rightarrow> qblk" where
  "action b = (load b)\<lparr>b_tic := 0\<rparr>"

lemma action_load: "load x = load y \<Longrightarrow> action x = action y"
  by (simp add: action_def)

lemma action_tic: "x = y\<lparr>b_tic := t\<rparr> \<Longrightarrow> action x = action y"
  by (simp add: action_def load_def)

lemma actionD:
  assumes "action x = action y"
  shows "b_rpt x = b_rpt y" "blk_effect G x = blk_effect G y"
proof -
  have f: "b_rpt x = b_rpt y" "b_fun x = b_fun y" "b_arg x = b_arg y" "b_evn x = b_evn y" "b_lnk x = b_lnk y"
    using assms by (cases x; cases y; simp add: action_def load_def)+
  show "b_rpt x = b_rpt y" by (rule f(1))
  show "blk_effect G x = blk_effect G y" by (rule ext) (simp only: blk_effect_def f)
qed

lemma release_ok:
  assumes q: "tq_ok s (e # es) ws"
  shows "\<exists>s'. rt_qBlkRelease e s = Some s' \<and> tq_ok s' es ws \<and> waiting s' ws = waiting s ws \<and> tq_tic s' = tq_tic s \<and> tqker s' = tqker s
     \<and> user_ptr s' = (case b_lnk (blk s e) of None \<Rightarrow> user_ptr s | Some p \<Rightarrow> if p \<noteq> 0 then (user_ptr s)(p := 0) else user_ptr s)
     \<and> (\<forall>b. load (blk s' b) = load (blk s b)) \<and> hooks s' TqExec = hooks s TqExec"
proof -
  note d = tq_okD [OF q]
  have m: "e \<in> set ((e # es) @ ws)" by simp
  obtain s1 where s1: "rt_qBlkUnhook e s = Some s1" "hooked s1 TqHook (remove1 e ((e # es) @ ws))" "b_hook (blk s1 e) = None"
    "relinked TqHook e s s1" using unhook_ok [OF d(3) m d(1)] by blast
  note r = relinkedD [OF s1(4)]
  let ?u = "case b_lnk (blk s e) of None \<Rightarrow> user_ptr s | Some p \<Rightarrow> if p \<noteq> 0 then (user_ptr s)(p := 0) else user_ptr s"
  have lk: "b_lnk (blk s1 e) = b_lnk (blk s e)" using r(8) by (rule loadD(6))
  have uh: "unhooked e s = Some s1" using s1(1) hookedD(2) [OF d(3) m] by (simp add: unhooked_def)
  have "\<exists>s'. rt_qBlkRelease e s = Some s' \<and> (\<forall>a. a \<noteq> e \<longrightarrow> blk s' a = blk s1 a) \<and> (\<forall>a. load (blk s' a) = load (blk s1 a))
     \<and> hooks s' = hooks s1 \<and> user_ptr s' = ?u \<and> tick_queue s' = tick_queue s1 \<and> tq_wait s' = tq_wait s1 \<and> tq_tic s' = tq_tic s1 \<and> tqker s' = tqker s1"
  proof (cases "b_lnk (blk s e)")
    case None
    then show ?thesis using uh lk r(5) by (simp add: rt_qBlkRelease_def)
  next
    case (Some p)
    then show ?thesis using uh lk r(4,5) d(1) by (simp add: rt_qBlkRelease_def LOCK_TQ_def)
  qed
  then obtain s' where s': "rt_qBlkRelease e s = Some s'" "\<And>a. a \<noteq> e \<Longrightarrow> blk s' a = blk s1 a" "\<And>a. load (blk s' a) = load (blk s1 a)"
    "hooks s' = hooks s1" "user_ptr s' = ?u" "tick_queue s' = tick_queue s1" "tq_wait s' = tq_wait s1" "tq_tic s' = tq_tic s1"
    "tqker s' = tqker s1" by blast
  have e: "e \<notin> set (es @ ws)" using d(9) by simp
  have s1': "hooked s1 TqHook (es @ ws)" using s1(2) by simp
  have h: "hooked s' TqHook (es @ ws)" using e by (intro hooked_other [OF s1']) (auto simp: s'(4) intro!: s'(2))
  have T: "tic_of s' a = tic_of s a" for a using loadD(1) [OF s'(3), of a] r(9) [of a] by simp
  have f: "tick_queue s' = tick_queue s" "tq_wait s' = tq_wait s" "tq_tic s' = tq_tic s" "tqker s' = tqker s"
    "q_cancel (hooks s' TqHook) = q_cancel (hooks s TqHook)" using s'(4,6-9) r(2-4,7,12) by simp_all
  have "tq_ok s' es ws" unfolding tq_ok_def T f using h d(1,2,4-7) by simp
  moreover have "waiting s' ws = waiting s ws" unfolding f(3) using T by (rule dues_cong)
  moreover have "hooks s' TqExec = hooks s TqExec" using s'(4) r(11) by simp
  moreover have "\<forall>a. load (blk s' a) = load (blk s a)" using s'(3) r(8) by simp
  ultimately show ?thesis using s'(1,5) f(3,4) by (intro exI [of _ s'] conjI)
qed

lemma complete_ok:
  assumes q: "tq_ok s (e # es) ws" and r: "b_rpt (blk s e) = 0" and x: "q_first (hooks s TqExec) = 0"
  shows "\<exists>s'. tqcomplete (quiet G) e s = Ret () s' \<and> tq_ok s' es ws \<and> waiting s' ws = waiting s ws \<and> tq_tic s' = tq_tic s
     \<and> tqker s' = tqker s \<and> user_ptr s' = blk_effect G (blk s e) (user_ptr s)
     \<and> (\<forall>b. action (blk s' b) = action (blk s b)) \<and> q_first (hooks s' TqExec) = 0"
proof -
  obtain s1 where s1: "rt_qBlkRelease e s = Some s1" "tq_ok s1 es ws" "waiting s1 ws = waiting s ws" "tq_tic s1 = tq_tic s" "tqker s1 = tqker s"
    "user_ptr s1 = (case b_lnk (blk s e) of None \<Rightarrow> user_ptr s | Some p \<Rightarrow> if p \<noteq> 0 then (user_ptr s)(p := 0) else user_ptr s)"
    "\<forall>b. load (blk s1 b) = load (blk s b)" "hooks s1 TqExec = hooks s TqExec"
    using release_ok [OF q] by (elim exE conjE) (rule that)
  let ?G = "G (b_fun (blk s e)) (b_arg (blk s e)) (b_evn (blk s e))"
  let ?s' = "s1\<lparr>user_ptr := ?G (user_ptr s1)\<rparr>"
  have le: "load (blk s1 e) = load (blk s e)" using s1(7) by blast
  have e: "b_fun (blk s1 e) = b_fun (blk s e)" "b_arg (blk s1 e) = b_arg (blk s e)" "b_evn (blk s1 e) = b_evn (blk s e)"
    using loadD(3-5) [OF le] by simp_all
  have "run_blk (quiet G) e s1 = Ret () ?s'" unfolding run_blk_def quiet_def e by (rule refl)
  moreover have "q_first (hooks s1 TqExec) \<noteq> e" using tq_okD(10) [OF q] s1(8) x by auto
  ultimately have 1: "tqcomplete (quiet G) e s = Ret () ?s'" using r s1(1) by (simp add: tqcomplete_def)
  have 2: "tq_ok ?s' es ws" using s1(2) by (simp add: tq_ok_def hooked_def hnx_def hpv_def)
  have 3: "user_ptr ?s' = blk_effect G (blk s e) (user_ptr s)" unfolding blk_effect_def s1(6) [symmetric] by simp
  have 4: "\<forall>b. action (blk ?s' b) = action (blk s b)" using s1(7) by (simp add: action_def)
  show ?thesis by (intro exI [of _ ?s'] conjI, rule 1, rule 2) (use s1(3-5,8) x 3 4 in simp_all)
qed

lemma waiting_late:
  assumes "tq_ok s es ws" and "p \<in> set (waiting s ws)"
  shows "tq_tic s < snd p"
proof (cases ws)
  case (Cons w ws')
  then have "0 < tic_of s w" "\<forall>b \<in> set ws'. 0 \<le> tic_of s b" using tq_okD(6,7) [OF assms(1)] by simp_all
  then show ?thesis using assms(2) Cons dues_ge [of ws' "tic_of s" p "tq_tic s + tic_of s w"] by auto
qed (use assms(2) in simp)

text \<open>The clock does not go back.\<close>

definition steady :: "tqst \<Rightarrow> bool" where
  "steady s \<longleftrightarrow> mono (tsc (tqker s)) \<and> tq_tic s \<le> fst (rt_get_time (tqker s))"

lemma steady_adjust:
  assumes "steady s" and "rt_get_time (tqker s) = (n, k)" and "tq_tic s' = n" and "tqker s' = k"
  shows "steady s'" "tq_tic s \<le> tq_tic s'"
proof -
  have m: "mono (tsc (tqker s))" and n: "tq_tic s \<le> n" using assms(1,2) by (simp_all add: steady_def)
  show "tq_tic s \<le> tq_tic s'" using n assms(3) by simp
  have "tsc (tqker s) (tsc_reads (tqker s)) \<le> tsc (tqker s) (Suc (tsc_reads (tqker s)))" by (rule monoD [OF m]) simp
  then have "mono (tsc k) \<and> n \<le> fst (rt_get_time k)"
    using assms(2) m by (auto simp: rt_get_time_def rdtsc_def split: if_splits)
  then show "steady s'" using assms(3,4) by (simp add: steady_def)
qed

lemma fold_effects:
  assumes "\<And>b. b \<in> set xs \<Longrightarrow> action (f b) = action (g b)"
  shows "fold (\<lambda>b. blk_effect G (f b)) xs u = fold (\<lambda>b. blk_effect G (g b)) xs u"
proof (rule fold_cong)
  show "blk_effect G (f b) = blk_effect G (g b)" if "b \<in> set xs" for b using actionD(2) [OF assms [OF that]] .
qed simp_all

text \<open>With blocks that are executed once \<^verbatim>\<open>rt_qSync\<close> ends and executes, in the order in which they are due, exactly the
  blocks due by the time of its last look at the clock.\<close>

definition synced :: "(nat \<Rightarrow> nat \<Rightarrow> int \<Rightarrow> (addr \<Rightarrow> addr) \<Rightarrow> addr \<Rightarrow> addr) \<Rightarrow> tqst \<Rightarrow> addr list \<Rightarrow> addr list \<Rightarrow> tqst \<Rightarrow> addr list \<Rightarrow> (addr \<times> rtime) list \<Rightarrow> bool" where
  "synced G s es ws s' ws' pre \<longleftrightarrow> tq_ok s' [] ws' \<and> waiting s ws = pre @ waiting s' ws' \<and> (\<forall>p \<in> set pre. snd p \<le> tq_tic s')
     \<and> tq_tic s \<le> tq_tic s' \<and> user_ptr s' = fold (\<lambda>b. blk_effect G (blk s b)) (es @ map fst pre) (user_ptr s)"

lemma synced_complete:
  assumes "synced G s1 es ws s' ws' pre" and "waiting s1 ws = waiting s ws" and "tq_tic s1 = tq_tic s"
    and "user_ptr s1 = blk_effect G (blk s e) (user_ptr s)" and "\<forall>b. action (blk s1 b) = action (blk s b)"
  shows "synced G s (e # es) ws s' ws' pre"
proof -
  have "fold (\<lambda>b. blk_effect G (blk s1 b)) (es @ map fst pre) u = fold (\<lambda>b. blk_effect G (blk s b)) (es @ map fst pre) u" for u
    by (rule fold_effects) (use assms(5) in simp)
  then show ?thesis using assms(1-4) by (simp add: synced_def)
qed

lemma synced_adjust:
  assumes y: "synced G s1 (map fst ex) ws1 s' ws' pre" and w: "waiting s ws = ex @ waiting s1 ws1" and e: "\<forall>p \<in> set ex. snd p \<le> tq_tic s1"
    and t: "tq_tic s \<le> tq_tic s1" and u: "user_ptr s1 = user_ptr s" and a: "\<forall>b. action (blk s1 b) = action (blk s b)"
  shows "synced G s [] ws s' ws' (ex @ pre)"
proof -
  have "fold (\<lambda>b. blk_effect G (blk s1 b)) (map fst ex @ map fst pre) v = fold (\<lambda>b. blk_effect G (blk s b)) (map fst ex @ map fst pre) v" for v
    by (rule fold_effects) (use a in simp)
  then show ?thesis using y w e t u by (fastforce simp: synced_def)
qed

text \<open>One look at the clock, with what has expired by then.\<close>

definition passed :: "tqst \<Rightarrow> addr list \<Rightarrow> tqst \<Rightarrow> (addr \<times> rtime) list \<Rightarrow> addr list \<Rightarrow> bool" where
  "passed s ws s1 ex ws1 \<longleftrightarrow> tq_ok s1 (map fst ex) ws1 \<and> ws = map fst ex @ ws1 \<and> waiting s ws = ex @ waiting s1 ws1
     \<and> (\<forall>p \<in> set ex. snd p \<le> tq_tic s1) \<and> steady s1 \<and> tq_tic s \<le> tq_tic s1 \<and> user_ptr s1 = user_ptr s \<and> hooks s1 = hooks s
     \<and> (\<forall>b. action (blk s1 b) = action (blk s b))"

lemma adjust_passed:
  assumes q: "tq_ok s [] ws" and st: "steady s"
  shows "\<exists>s1 ex ws1. tqadjust s = Some (ex \<noteq> [], s1) \<and> passed s ws s1 ex ws1"
proof -
  obtain m k where t: "rt_get_time (tqker s) = (m, k)" by (cases "rt_get_time (tqker s)")
  let ?ex = "filter (\<lambda>p. snd p \<le> m) (waiting s ws)"
  obtain s1 ws1 where s1: "tqadjust s = Some (map fst ?ex \<noteq> [], s1)" "ticked ws (looked m k s) s1" "tq_tic s1 = m"
    "tq_ok s1 (map fst ?ex) ws1" "ws = map fst ?ex @ ws1" "waiting s1 ws1 = filter (\<lambda>p. m < snd p) (waiting s ws)"
    using tqadjust_ok [OF q t] unfolding append_Nil by (elim exE conjE) (rule that)
  note tk = tickedD [OF s1(2)]
  have 1: "waiting s ws = ?ex @ waiting s1 ws1" unfolding s1(6) by (rule dues_parts [OF tq_okD(6) [OF q]])
  have 2: "\<forall>b. action (blk s1 b) = action (blk s b)" using action_tic [OF tk(8)] by simp
  have 3: "steady s1" "tq_tic s \<le> tq_tic s1" using steady_adjust [OF st t s1(3)] tk(7) by simp_all
  have 4: "\<forall>p \<in> set ?ex. snd p \<le> tq_tic s1" using s1(3) by simp
  have 5: "user_ptr s1 = user_ptr s" "hooks s1 = hooks s" using tk(1,5) by simp_all
  have "passed s ws s1 ?ex ws1" unfolding passed_def by (intro conjI, rule s1(4), rule s1(5), rule 1, rule 4, rule 3, rule 3, rule 5, rule 5, rule 2)
  moreover have "tqadjust s = Some (?ex \<noteq> [], s1)" using s1(1) by simp
  ultimately show ?thesis by blast
qed

lemma passedD:
  assumes "passed s ws s1 ex ws1"
  shows "tq_ok s1 (map fst ex) ws1" "ws = map fst ex @ ws1" "waiting s ws = ex @ waiting s1 ws1" "\<forall>p \<in> set ex. snd p \<le> tq_tic s1"
    "steady s1" "tq_tic s \<le> tq_tic s1" "user_ptr s1 = user_ptr s" "hooks s1 = hooks s" "\<forall>b. action (blk s1 b) = action (blk s b)"
  using assms unfolding passed_def by - (elim conjE, assumption)+

lemma once_kept:
  assumes "\<forall>b \<in> set xs. b_rpt (blk s b) = 0" and "\<forall>b. action (blk s1 b) = action (blk s b)" and "set ys \<subseteq> set xs"
  shows "\<forall>b \<in> set ys. b_rpt (blk s1 b) = 0"
proof
  fix b
  assume "b \<in> set ys"
  then have "b_rpt (blk s b) = 0" using assms(1,3) by blast
  moreover have "b_rpt (blk s1 b) = b_rpt (blk s b)" by (rule actionD(1)) (use assms(2) in blast)
  ultimately show "b_rpt (blk s1 b) = 0" by simp
qed

lemma sync_step:
  assumes q: "tq_ok s es ws"
  shows "es = e # es' \<Longrightarrow> tqcomplete F e s = Ret () s1 \<Longrightarrow> rt_qSync F (Suc n) s = rt_qSync F n s1"
    and "es = [] \<Longrightarrow> ws = [] \<Longrightarrow> rt_qSync F (Suc n) s = Ret False s"
    and "es = [] \<Longrightarrow> ws \<noteq> [] \<Longrightarrow> tqadjust s = Some (b, s2) \<Longrightarrow> rt_qSync F (Suc n) s = (if b then rt_qSync F n s2 else Ret (tq_wait s2 \<noteq> 0) s2)"
proof -
  note d = tq_okD [OF q]
  show "rt_qSync F (Suc n) s = rt_qSync F n s1" if "es = e # es'" "tqcomplete F e s = Ret () s1"
    using first_expired [OF q] d(1,8) that by simp
  show "rt_qSync F (Suc n) s = Ret False s" if "es = []" "ws = []" using d(1,4,8) that by simp
  show "rt_qSync F (Suc n) s = (if b then rt_qSync F n s2 else Ret (tq_wait s2 \<noteq> 0) s2)" if "es = []" "ws \<noteq> []" "tqadjust s = Some (b, s2)"
  proof -
    have "tq_wait s \<noteq> 0" using d(4,10) that(2) by (cases ws) auto
    then show ?thesis using d(1,4,8) that by simp
  qed
qed

lemma synced_now:
  assumes "tq_ok s [] ws"
  shows "synced G s [] ws s ws []" "tq_wait s \<noteq> 0 \<longleftrightarrow> ws \<noteq> []"
proof -
  show "synced G s [] ws s ws []" using assms by (simp add: synced_def)
  show "tq_wait s \<noteq> 0 \<longleftrightarrow> ws \<noteq> []" using tq_okD(4,10) [OF assms] by (cases ws) auto
qed

lemma rt_qSync_synced:
  assumes "tq_ok s es ws" and "\<forall>b \<in> set (es @ ws). b_rpt (blk s b) = 0" and "q_first (hooks s TqExec) = 0" and "steady s"
    and "length es + 2 * length ws < n"
  shows "\<exists>s' ws' pre. rt_qSync (quiet G) n s = Ret (ws' \<noteq> []) s' \<and> synced G s es ws s' ws' pre"
  using assms
proof (induction n arbitrary: s es ws)
  case (Suc n)
  show ?case
  proof (cases es)
    case (Cons e es')
    have q: "tq_ok s (e # es') ws" using Suc.prems(1) Cons by simp
    have r: "b_rpt (blk s e) = 0" using Suc.prems(2) Cons by simp
    obtain s1 where s1: "tqcomplete (quiet G) e s = Ret () s1" "tq_ok s1 es' ws" "waiting s1 ws = waiting s ws" "tq_tic s1 = tq_tic s"
      "tqker s1 = tqker s" "user_ptr s1 = blk_effect G (blk s e) (user_ptr s)" "\<forall>b. action (blk s1 b) = action (blk s b)"
      "q_first (hooks s1 TqExec) = 0" using complete_ok [OF q r Suc.prems(3), of G] by (elim exE conjE) (rule that)
    have rp: "\<forall>b \<in> set (es' @ ws). b_rpt (blk s1 b) = 0" using Cons by (intro once_kept [OF Suc.prems(2) s1(7)]) auto
    have st: "steady s1" using Suc.prems(4) s1(4,5) by (simp add: steady_def)
    have fl: "length es' + 2 * length ws < n" using Suc.prems(5) Cons by simp
    obtain s' ws' pre where y: "rt_qSync (quiet G) n s1 = Ret (ws' \<noteq> []) s'" "synced G s1 es' ws s' ws' pre"
      using Suc.IH [OF s1(2) rp s1(8) st fl] by blast
    have "rt_qSync (quiet G) (Suc n) s = Ret (ws' \<noteq> []) s'" using sync_step(1) [OF q refl s1(1)] y(1) by (rule trans)
    then show ?thesis using synced_complete [OF y(2) s1(3,4,6,7)] unfolding Cons by blast
  next
    case Nil
    have q: "tq_ok s [] ws" using Suc.prems(1) Nil by simp
    show ?thesis
    proof (cases "ws = []")
      case True
      then show ?thesis using sync_step(2) [OF q refl True] synced_now(1) [OF q] unfolding Nil by auto
    next
      case False
      obtain s1 ex ws1 where s1: "tqadjust s = Some (ex \<noteq> [], s1)" "passed s ws s1 ex ws1"
        using adjust_passed [OF q Suc.prems(4)] by blast
      note p = passedD [OF s1(2)]
      note e = sync_step(3) [OF q refl False s1(1), of "quiet G" n]
      show ?thesis
      proof (cases "ex = []")
        case True
        then have q1: "tq_ok s1 [] ws1" using p(1) by simp
        have "synced G s1 (map fst ex) ws1 s1 ws1 []" using synced_now(1) [OF q1] True by simp
        then have "synced G s [] ws s1 ws1 (ex @ [])" by (rule synced_adjust) (use p in blast)+
        moreover have "rt_qSync (quiet G) (Suc n) s = Ret (ws1 \<noteq> []) s1" using e True synced_now(2) [OF q1] by simp
        ultimately show ?thesis unfolding Nil by blast
      next
        case False
        have ln: "length ws = length ex + length ws1" using arg_cong [OF p(2), of length] by simp
        have fl: "length (map fst ex) + 2 * length ws1 < n" using Suc.prems(5) Nil ln False by (cases ex) simp_all
        have rp: "\<forall>b \<in> set (map fst ex @ ws1). b_rpt (blk s1 b) = 0" using p(2) by (intro once_kept [OF Suc.prems(2) p(9)]) auto
        have xs: "q_first (hooks s1 TqExec) = 0" using p(8) Suc.prems(3) by simp
        obtain s' ws' pre where y: "rt_qSync (quiet G) n s1 = Ret (ws' \<noteq> []) s'" "synced G s1 (map fst ex) ws1 s' ws' pre"
          using Suc.IH [OF p(1) rp xs p(5) fl] by blast
        have "rt_qSync (quiet G) (Suc n) s = Ret (ws' \<noteq> []) s'" using e False y(1) by simp
        moreover have "synced G s [] ws s' ws' (ex @ pre)" by (rule synced_adjust [OF y(2)]) (use p in blast)+
        ultimately show ?thesis unfolding Nil by blast
      qed
    qed
  qed
qed simp


end
