(* ===== verification/Example_Tick_Queue.thy ===== *)
theory Example_Tick_Queue
  imports Example_State Example_Mem Tick_Queue_Props
begin

text \<open>
  The properties of the tick queue applied to a queue with the expired block 300 and the waiting blocks 100 and 200, due at
  the times 1980 and 2080, at the time 2000; the block 400 is in no queue.
\<close>

definition ex_blk :: qblk where
  "ex_blk = \<lparr>b_hook = Some TqHook, b_prv = 0, b_nxt = 0, b_lnk = None, b_tic = 0, b_rpt = 0, b_fun = 7, b_arg = 5, b_evn = 1\<rparr>"

definition ex_tq :: tqst where
  "ex_tq = \<lparr>blk = (\<lambda>_. ex_blk\<lparr>b_hook := None\<rparr>)(300 := ex_blk\<lparr>b_nxt := 100\<rparr>,
       100 := ex_blk\<lparr>b_prv := 300, b_nxt := 200, b_tic := 30, b_lnk := Some 64, b_fun := 8\<rparr>, 200 := ex_blk\<lparr>b_prv := 100, b_tic := 100\<rparr>),
     hooks = (\<lambda>_. \<lparr>q_first = 0, q_last = 0, q_cancel = NoCancel, q_carg = 0\<rparr>)
       (TqHook := \<lparr>q_first = 300, q_last = 200, q_cancel = TqCancel, q_carg = 0\<rparr>),
     tq_free = 0, tq_wait = 100, tq_tic = 1950, tick_queue = 4096, user_ptr = (\<lambda>_. 0)(64 := 100), qheap = demo_heap, tqker = kern\<rparr>"

lemma ex_tq_ok: "tq_ok ex_tq [300] [100, 200]"
  by (simp add: tq_ok_def hooked_def ring_def hnx_def hpv_def ex_tq_def ex_blk_def)

lemma ex_tq_waiting: "waiting ex_tq [100, 200] = [(100, 1980), (200, 2080)]"
  by (simp add: ex_tq_def ex_blk_def)

lemma ex_tq_time: "rt_get_time (tqker ex_tq) = (2000, kern\<lparr>tsc_reads := 1\<rparr>)"
  by (simp add: ex_tq_def rt_get_time_def rdtsc_def)

theorem blk_wait_due_witness:
  "\<exists>s' es' ws'. rt_qBlkRepeat (\<lambda>f a b s. None) 100 200 ex_tq = Some s' \<and> tq_ok s' es' ws' \<and> es' = [300] \<and> waiting s' ws' = [(200, 2080), (100, 2200)]"
proof -
  have c: "(100 :: addr) \<noteq> 0" "b_hook (blk ex_tq 100) = None \<or> 100 \<in> set ([300] @ [100, 200])" "(0 :: rtime) \<le> 200" by simp_all
  let ?W = "filter (\<lambda>p. fst p \<noteq> 100) (waiting ex_tq [100, 200])"
  obtain s' es' ws' where "(if True then rt_qBlkRepeat (\<lambda>f a b s. None) 100 200 ex_tq else rt_qBlkWait (\<lambda>f a b s. None) 100 200 ex_tq) = Some s'" "tq_ok s' es' ws'"
    "es' = remove1 100 [300] @ map fst (filter (\<lambda>p. snd p \<le> 2000) ?W) @ (if (200 :: rtime) = 0 then [100] else [])"
    "waiting s' ws' = (let later = filter (\<lambda>p. 2000 < snd p) ?W in
         if (200 :: rtime) = 0 then later else insert_after_while (\<lambda>p. snd p \<le> 2000 + 200) (100, 2000 + 200) later)"
    using blk_wait_due [OF ex_tq_ok c ex_tq_time, of True "\<lambda>f a b s. None"] by (elim exE conjE) (rule that)
  then show ?thesis unfolding ex_tq_waiting by (intro exI [of _ s'] exI [of _ es'] exI [of _ ws']) (simp add: insert_after_while_def Let_def)
qed


end
