(* ===== verification/Timer_Control.thy ===== *)
theory Timer_Control
  imports Semaphores
begin

text \<open>
  Starting and stopping the timer, on one processor with the 8254: the modes, \<^verbatim>\<open>start_rt_timer\<close> and \<^verbatim>\<open>stop_rt_timer\<close> with
  what \<^verbatim>\<open>rt_request_timer\<close> and \<^verbatim>\<open>rt_free_timer\<close> of \<^verbatim>\<open>arch/i386/rtai.c\<close> do to the times, and the flags of the scheduler.
  \<open>latch\<close> is Linux's \<^verbatim>\<open>LATCH\<close>, \<open>jif\<close> its \<^verbatim>\<open>jiffies\<close>; the counts that are written to the chip go to \<open>timer_chip\<close>.  The
  interrupt of the timer is free when it is requested, so that the request succeeds; \<^verbatim>\<open>tuned.timers_tol\<close>, a copy of
  \<open>rt_half_tick\<close>, is left out.
\<close>

section \<open>The timer\<close>

text \<open>The result is the global \<^verbatim>\<open>rt_times\<close>.\<close>

definition rt_request_timer :: "int \<Rightarrow> 32 word \<Rightarrow> 32 word \<Rightarrow> kst \<Rightarrow> rt_times \<times> kst" where
  "rt_request_timer latch jif tick s0 =
     (let (now, s) = rdtsc s0 in
      if tick > 0 then
        let t = latch * uint (jif + 1) in
        (\<lparr>linux_tick = latch, tick_time = t, intr_time = t + uint tick, linux_time = t + latch, periodic_tick = sint tick\<rparr>,
         s\<lparr>timer_chip := timer_chip s @ [uint tick mod 2 ^ 16]\<rparr>)
      else
        let l = imuldiv latch (cpu_freq (tuned s)) TIMER_FREQ in
        (\<lparr>linux_tick = l, tick_time = now, intr_time = now + l, linux_time = now + l, periodic_tick = l\<rparr>,
         s\<lparr>timer_chip := timer_chip s @ [latch mod 2 ^ 16]\<rparr>))"

definition rt_free_timer :: "int \<Rightarrow> kst \<Rightarrow> kst" where
  "rt_free_timer latch s = s\<lparr>timer_chip := timer_chip s @ [latch mod 2 ^ 16]\<rparr>"

definition start_rt_timer :: "int \<Rightarrow> 32 word \<Rightarrow> int \<Rightarrow> kst \<Rightarrow> int \<times> kst" where
  "start_rt_timer latch jif prd s =
     (let (tm, s1) = (if oneshot_timer s then rt_request_timer latch jif 0 s
                      else rt_request_timer latch jif (word_of_int (if prd > latch then latch else prd)) s);
          half = (if oneshot_timer s then (latency (tuned s1) + 1) div 2 else (periodic_tick tm + 1) div 2);
          s2 = (if oneshot_timer s then s1\<lparr>rt_half_tick := half, oneshot_running := True, shot_fired := True\<rparr>
                else s1\<lparr>rt_half_tick := half\<rparr>) in
      (prd, s2\<lparr>times := tm, rt_time_h := tick_time tm + half\<rparr>))"

definition stop_rt_timer :: "int \<Rightarrow> kst \<Rightarrow> kst option" where
  "stop_rt_timer latch s =
     rt_busy_sleep 10000000 ((rt_free_timer latch s)\<lparr>oneshot_timer := False, oneshot_running := False\<rparr>)"

definition rt_set_periodic_mode :: "int \<Rightarrow> kst \<Rightarrow> kst option" where
  "rt_set_periodic_mode latch s =
     map_option (\<lambda>s1. s1\<lparr>oneshot_timer := False, oneshot_running := False\<rparr>) (stop_rt_timer latch s)"

definition rt_set_oneshot_mode :: "int \<Rightarrow> kst \<Rightarrow> kst option" where
  "rt_set_oneshot_mode latch s = map_option (\<lambda>s1. s1\<lparr>oneshot_timer := True\<rparr>) (stop_rt_timer latch s)"

definition rt_is_hard_timer_running :: "kst \<Rightarrow> int" where
  "rt_is_hard_timer_running s = (if rt_time_h s \<noteq> 0 then 1 else 0)"

text \<open>The modes and counts of the processors, of which there is one.\<close>

definition start_rt_apic_timers :: "int \<Rightarrow> 32 word \<Rightarrow> int \<Rightarrow> int \<Rightarrow> kst \<Rightarrow> kst option" where
  "start_rt_apic_timers latch jif mode cnt s =
     (if mode = 1 then Some (snd (start_rt_timer latch jif (to_int32 (nano2count s (min cnt 2000000000))) s))
      else map_option (\<lambda>s1. snd (start_rt_timer latch jif 0 s1)) (rt_set_oneshot_mode latch s))"

text \<open>The interrupt of the 8254 as Linux gets it, on a tick of Linux that the scheduler has not passed on.\<close>

definition recover_jiffies :: "kst \<Rightarrow> kst" where
  "recover_jiffies s =
     (if tick_time (times s) \<ge> linux_time (times s)
      then s\<lparr>times := (times s)\<lparr>linux_time := linux_time (times s) + linux_tick (times s)\<rparr>, pends := pends s @ [PendTimerIrq]\<rparr>
      else s)"

section \<open>Flags and times\<close>

definition rt_linux_use_fpu :: "int \<Rightarrow> kst \<Rightarrow> kst" where
  "rt_linux_use_fpu flag s = s\<lparr>uses_fpu := (uses_fpu s)(LINUX := flag \<noteq> 0)\<rparr>"

definition rt_preempt_always :: "int \<Rightarrow> kst \<Rightarrow> kst" where
  "rt_preempt_always yes_no s = s\<lparr>preempt_always := yes_no \<noteq> 0\<rparr>"

definition rt_whoami :: "kst \<Rightarrow> tid" where
  "rt_whoami s = rt_current s"

definition rt_get_task_state :: "tid \<Rightarrow> kst \<Rightarrow> 32 word" where
  "rt_get_task_state t s = state s t"

definition rt_task_init :: "tid \<Rightarrow> nat option \<Rightarrow> int \<Rightarrow> bool \<Rightarrow> nat option \<Rightarrow> kst \<Rightarrow> int \<times> kst" where
  "rt_task_init t st prio fpu sig s = rt_task_init_cpuid t st prio fpu sig 0 s"

text \<open>\<open>sec\<close> and \<open>usec\<close> are the time of day of Linux.\<close>

definition rt_gettimeorig :: "int \<Rightarrow> int \<Rightarrow> kst \<Rightarrow> (rtime \<times> rtime) \<times> kst" where
  "rt_gettimeorig sec usec s =
     (let (now, s1) = rdtsc s; f = cpu_freq (tuned s);
          orig = sec * f + llimd usec f 1000000 - now in
      ((orig, llimd orig 1000000000 f), s1))"

section \<open>Timed locks\<close>

definition rt_sem_count :: "semid \<Rightarrow> kst \<Rightarrow> int" where
  "rt_sem_count x s = sem_count (sems s x)"

definition rt_cond_wait_timed :: "nat \<Rightarrow> semid \<Rightarrow> semid \<Rightarrow> rtime \<Rightarrow> kst \<Rightarrow> int res" where
  "rt_cond_wait_timed n cnd mtx delay s =
     (let (now, s1) = rt_get_time s in rt_cond_wait_until n cnd mtx (now + delay) s1)"

definition rt_rwl_rdlock_timed :: "nat \<Rightarrow> nat \<Rightarrow> rwl \<Rightarrow> rtime \<Rightarrow> kst \<Rightarrow> int res" where
  "rt_rwl_rdlock_timed k n r delay s =
     (let (now, s1) = rt_get_time s in rt_rwl_rdlock_until k n r (now + delay) s1)"

definition rt_rwl_wrlock_timed :: "nat \<Rightarrow> nat \<Rightarrow> rwl \<Rightarrow> rtime \<Rightarrow> kst \<Rightarrow> int res" where
  "rt_rwl_wrlock_timed k n r delay s =
     (let (now, s1) = rt_get_time s in rt_rwl_wrlock_until k n r (now + delay) s1)"

definition rt_spl_delete :: "spl \<Rightarrow> int \<times> spl" where
  "rt_spl_delete p = (0, p)"

text \<open>With interrupts off nobody releases the lock: the loop ends with the time, that of \<^verbatim>\<open>busy_wait\<close>.\<close>

definition rt_spl_lock_timed :: "tid \<Rightarrow> nat \<Rightarrow> int \<Rightarrow> spl \<Rightarrow> kst \<Rightarrow> (int \<times> spl \<times> kst) option" where
  "rt_spl_lock_timed cur flags ns p s =
     (if spl_owner p = Some cur then Some (0, p\<lparr>spl_count := spl_count p + 1\<rparr>, s)
      else
        let (now, s1) = rdtsc s; end_time = now + imuldiv ns (cpu_freq (tuned s)) 1000000000 in
        if spl_owner p = None then Some (0, p\<lparr>spl_owner := Some cur, spl_flags := flags\<rparr>, s1)
        else map_option (\<lambda>s2. (- 1, p, s2)) (busy_wait end_time s1))"

section \<open>Behaviour\<close>

text \<open>A busy wait ends when the clock reaches the time; it reads the clock only.\<close>

lemma busy_wait_ok:
  assumes "end_time \<le> tsc s (tsc_reads s + d)"
  shows "\<exists>n. busy_wait end_time s = Some (s\<lparr>tsc_reads := n\<rparr>) \<and> end_time \<le> tsc s (n - 1)"
  using assms
proof (induction d arbitrary: s)
  case 0
  then show ?case by (intro exI [of _ "Suc (tsc_reads s)"]) (simp add: busy_wait.simps rdtsc_def)
next
  case (Suc d)
  show ?case
  proof (cases "tsc s (tsc_reads s) < end_time")
    case True
    then show ?thesis using Suc.IH [of "s\<lparr>tsc_reads := Suc (tsc_reads s)\<rparr>"] Suc.prems
      by (subst busy_wait.simps) (simp add: rdtsc_def)
  next
    case False
    then show ?thesis by (intro exI [of _ "Suc (tsc_reads s)"]) (simp add: busy_wait.simps rdtsc_def)
  qed
qed

lemma rt_busy_sleep_ok:
  assumes "tsc s (tsc_reads s) + llimd ns (cpu_freq (tuned s)) 1000000000 \<le> tsc s (Suc (tsc_reads s) + d)"
  shows "\<exists>n. rt_busy_sleep ns s = Some (s\<lparr>tsc_reads := n\<rparr>)
     \<and> tsc s (tsc_reads s) + llimd ns (cpu_freq (tuned s)) 1000000000 \<le> tsc s (n - 1)"
  using busy_wait_ok [of "tsc s (tsc_reads s) + llimd ns (cpu_freq (tuned s)) 1000000000" "s\<lparr>tsc_reads := Suc (tsc_reads s)\<rparr>" d] assms
  by (simp add: rt_busy_sleep_def rdtsc_def)

lemma stop_rt_timer_ok:
  assumes "tsc s (tsc_reads s) + llimd 10000000 (cpu_freq (tuned s)) 1000000000 \<le> tsc s (Suc (tsc_reads s) + d)"
  shows "\<exists>n. stop_rt_timer latch s = Some (s\<lparr>timer_chip := timer_chip s @ [latch mod 2 ^ 16], oneshot_timer := False,
       oneshot_running := False, tsc_reads := n\<rparr>)
     \<and> tsc s (tsc_reads s) + llimd 10000000 (cpu_freq (tuned s)) 1000000000 \<le> tsc s (n - 1)"
  using rt_busy_sleep_ok [of "(rt_free_timer latch s)\<lparr>oneshot_timer := False, oneshot_running := False\<rparr>" 10000000 d] assms
  by (auto simp: stop_rt_timer_def rt_free_timer_def)

text \<open>A stopped timer passes for a running one.\<close>

lemma stopped_timer_runs:
  assumes "tsc s (tsc_reads s) + llimd 10000000 (cpu_freq (tuned s)) 1000000000 \<le> tsc s (Suc (tsc_reads s) + d)" and "rt_time_h s \<noteq> 0"
  shows "\<exists>s'. stop_rt_timer latch s = Some s' \<and> \<not> oneshot_running s' \<and> rt_is_hard_timer_running s' = 1"
  using stop_rt_timer_ok [OF assms(1), of latch] assms(2) by (auto simp: rt_is_hard_timer_running_def)

text \<open>From any state of the timer into the one shot mode.\<close>

lemma oneshot_timer_starts:
  assumes i: "sched_inv s rq tq" and m: "mono (tsc s)"
    and d: "tsc s (tsc_reads s) + llimd 10000000 (cpu_freq (tuned s)) 1000000000 \<le> tsc s (Suc (tsc_reads s) + d)"
  shows "\<exists>s1 s2. rt_set_oneshot_mode latch s = Some s1 \<and> start_rt_timer latch jif 0 s1 = (0, s2) \<and> sched_inv s2 rq tq
     \<and> oneshot_timer s2 \<and> oneshot_running s2 \<and> shot_fired s2 \<and> rt_current s2 = rt_current s
     \<and> tsc s (tsc_reads s) + llimd 10000000 (cpu_freq (tuned s)) 1000000000 \<le> tick_time (times s2)
     \<and> intr_time (times s2) = tick_time (times s2) + imuldiv latch (cpu_freq (tuned s)) TIMER_FREQ
     \<and> linux_time (times s2) = intr_time (times s2) \<and> rt_time_h s2 = tick_time (times s2) + rt_half_tick s2
     \<and> rt_half_tick s2 = (latency (tuned s) + 1) div 2 \<and> timer_chip s2 = timer_chip s @ [latch mod 2 ^ 16, latch mod 2 ^ 16]"
proof -
  let ?e = "tsc s (tsc_reads s) + llimd 10000000 (cpu_freq (tuned s)) 1000000000"
  obtain n where n: "stop_rt_timer latch s = Some (s\<lparr>timer_chip := timer_chip s @ [latch mod 2 ^ 16], oneshot_timer := False,
       oneshot_running := False, tsc_reads := n\<rparr>)" "?e \<le> tsc s (n - 1)" using stop_rt_timer_ok [OF d, of latch] by blast
  let ?s1 = "s\<lparr>timer_chip := timer_chip s @ [latch mod 2 ^ 16], oneshot_timer := True, oneshot_running := False, tsc_reads := n\<rparr>"
  let ?s2 = "snd (start_rt_timer latch jif 0 ?s1)"
  have 1: "rt_set_oneshot_mode latch s = Some ?s1" using n(1) by (simp add: rt_set_oneshot_mode_def)
  have "tsc s (n - 1) \<le> tsc s n" by (intro monoD [OF m]) simp
  then have 2: "?e \<le> tsc s n" using n(2) by simp
  have 3: "sched_inv ?s2 rq tq"
    by (rule same_sched_inv [OF _ i]) (simp add: same_sched_def start_rt_timer_def rt_request_timer_def rdtsc_def Let_def)
  show ?thesis using 1 2 3
    by (intro exI [of _ ?s1] exI [of _ ?s2]) (simp add: start_rt_timer_def rt_request_timer_def rdtsc_def Let_def)
qed

end
