(* ===== verification/Spec2Isabelle.thy ===== *)
theory Spec2Isabelle
  imports Example_Sched Example_Ipc Example_Fifos Example_Mem Example_Pqueues Example_Tasklets Example_Bits Example_Tbx
    Example_Watchdog Example_Pthreads Example_Tick_Queue
    Timer_Control Muldiv
begin

text \<open>
  A verification library of the real time core of RTAI 24.1 (stromboli): the scheduler of
  \<^verbatim>\<open>src/newlxrt\<close> with its tasks, semaphores, messages and mailboxes, the fifos between real time
  tasks and Linux processes, the real time memory manager, the registry of names, the POSIX
  message queues, the POSIX threads with their mutexes and condition variables, the tasklets and
  timers, the tick queues of LXRT, the bit objects, the typed mailboxes, the watchdog, and the arithmetic of times.

  \<^bold>\<open>The program.\<close>  RTAI runs Linux as the task of lowest priority of a real time
  scheduler.  The timer interrupt and every service that may change the choice of the running task
  end in \<^verbatim>\<open>rt_schedule\<close>.  The services block the running task by putting it into a queue of
  blocked tasks (of a semaphore, of a task's messages, of a task's answers), and release others
  from such a queue into the ready list; resources and remote calls lend the priority of the
  blocked task to the owner.  Mailboxes are built on semaphores and a circular buffer, fifos on
  semaphores of their own whose waiting processes are woken by a service request handler that
  Linux runs, the memory manager asks Linux in the same way for chunks.

  \<^bold>\<open>The theories.\<close>
  \<^item> \<open>Rtai_Prelude\<close>: lists in rings of pointers, stable insertion by a key, option and word lemmas.
  \<^item> \<open>Rtai_Kernel\<close>: the state \<open>kst\<close>, one function per field of \<^verbatim>\<open>struct rt_task_struct\<close> with
    the globals of \<^verbatim>\<open>rtai_sched.c\<close>; \<open>res\<close>, the result of a call that may switch tasks.
  \<^item> \<open>Sched_Queues\<close>, \<open>Sched_Blocked\<close>: the ready, timed and blocked queues and what the
    operations do to the lists they represent; \<open>pass_prio\<close>.
  \<^item> \<open>Sched_Core\<close>, \<open>Sched_Invariant\<close>: \<^verbatim>\<open>rt_schedule\<close>, \<^verbatim>\<open>rt_timer_handler\<close>; the invariant
    \<open>sched_inv\<close> that ties the lists to the states of the tasks.
  \<^item> \<open>Sched_Tasks\<close>, \<open>Sched_Lifecycle\<close>, \<open>Sched_Priorities\<close>: the services on tasks and their effect
    on the lists; creation and deletion; rate monotonic priorities.
  \<^item> \<open>Semaphores\<close>, \<open>Messages\<close>, \<open>Mailboxes\<close> with \<open>Semaphore_Props\<close>, \<open>Message_Props\<close>,
    \<open>Mailbox_Props\<close>: the services of these names and their behaviour, branch by branch.
  \<^item> \<open>Timer_Control\<close>: the modes of the timer, its start and stop with \<^verbatim>\<open>rt_request_timer\<close> of
    \<^verbatim>\<open>arch/i386/rtai.c\<close>, the timed forms of the locks; that the timer starts from any state.
  \<^item> \<open>Ring_Buffer\<close>: the circular buffer of the mailboxes and of the fifos, with the locale
    \<open>byte_queue\<close> of what its clients rely on.
  \<^item> \<open>Fifos\<close>, \<open>Fifo_Props\<close>, \<open>Fifo_Wakeups\<close>: \<^verbatim>\<open>fifos/rtai_fifos.c\<close>.
  \<^item> \<open>Mem_Mgr\<close>, \<open>Mem_Props\<close>, \<open>Mem_Alloc\<close>: \<^verbatim>\<open>rt_mem_mgr/rt_mem_mgr.c\<close>, the geometry of its chunks,
    and the locale \<open>allocator\<close>.
  \<^item> \<open>Registry\<close>: \<^verbatim>\<open>newlxrt/registry.c\<close>, \<^verbatim>\<open>include/rtai_nam2num.h\<close> and the locale \<open>name_map\<close>.
  \<^item> \<open>Muldiv\<close>: \<^verbatim>\<open>llimd\<close> and \<^verbatim>\<open>imuldiv\<close> of \<^verbatim>\<open>include/asm-i386/rtai-24.h\<close> instruction by instruction.
    \<open>Ulldiv\<close>: its divisions of 64-bit numbers, \<^verbatim>\<open>ulldiv\<close> and \<^verbatim>\<open>u64div32c\<close>; the loop of the first ends.
  \<^item> \<open>Pqueues\<close>: the POSIX message queues of \<^verbatim>\<open>posix/src/rtai_pqueue.c\<close>, state \<open>pq\<close>. \<open>Pqueue_Props\<close>: the
    slots of a queue as a list ordered by priority (\<open>queue_ok\<close>, \<open>messages\<close>). \<open>Pqueue_Calls\<close>: sending and
    receiving refine the locale \<open>priority_queue\<close>. \<open>Pqueue_Lifecycle\<close>, \<open>Pqueue_Steps\<close>: opening, closing and
    unlinking with the memory manager, the calls as a step relation and its reachable states.
  \<^item> \<open>Tasklets\<close>: \<^verbatim>\<open>tasklets/tasklets.c\<close>, state \<open>tls\<close>, on the scheduler's state \<open>ker\<close>. \<open>Tasklet_Props\<close>: the list
    of the timers in the order of their firing times. \<open>Tasklet_Rounds\<close>: a round of the manager against the
    abstract round \<open>fires\<close>; the fuel of \<open>fire_loop\<close> is the number of firings, \<open>shots\<close>, plus one.
    \<open>Tasklet_Calls\<close>: inserting, moving and removing timers while the manager sleeps.
  \<^item> \<open>Tick_Queue\<close>, \<open>Tick_Queue_Props\<close>: \<^verbatim>\<open>lxrt/qblk.c\<close>, state \<open>tqst\<close>, on the scheduler's state \<open>tqker\<close> and the heap
    \<open>qheap\<close>.  The waiting blocks, which hold differences of time, as the list \<open>waiting\<close> of the times at which they are
    due; the functions of clients are parameters.  The fuel of \<open>rt_qSync\<close> for functions that leave the queue alone is
    the number of expired blocks, plus twice that of the waiting ones, plus one.
  \<^item> \<open>Bits\<close>, \<open>Bits_Props\<close>: the bit objects of \<^verbatim>\<open>bits/rtai_bits.c\<close>, state \<open>bst\<close>, on the scheduler's state
    \<open>bker\<close>; which waiting tasks a signal and a reset release, and where a wait puts its caller.
  \<^item> \<open>Typed_Mailboxes\<close>: \<^verbatim>\<open>tbx/tbx.c\<close>, state \<open>txst\<close>, on the scheduler's state \<open>txker\<close> with the memory of the
    buffers.  \<open>Tbx_Buffer\<close>: the circular buffer as a double ended queue of bytes.  \<open>Tbx_Props\<close>: the calls against a
    queue of messages (locale \<open>immediate_service\<close>), and what goes wrong after a wait.
  \<^item> \<open>Watchdog\<close>, \<open>Watchdog_Props\<close>: \<^verbatim>\<open>watchdog/rtai_watchdog.c\<close>, state \<open>wdst\<close>, on the scheduler's state \<open>wker\<close>: the
    ranges of the parameters, the list of the records of offenders, and a round of the watchdog with the policy
    \<open>SUSPEND\<close>; the fuel of \<open>wd_tasks\<close> is the number of tasks plus one.
  \<^item> \<open>Pthread_Sync\<close>, \<open>Pthread_Props\<close>: the mutexes and conditions of \<^verbatim>\<open>posix/src/rtai_pthread.c\<close>, state \<open>pth\<close>, on
    the scheduler's state \<open>ptker\<close>: a mutex as a lock, who waits where, who is released, and where the code departs
    from a lock.  \<open>Pthreads\<close>, \<open>Pthreads_Props\<close>: the threads of the same file, state \<open>pthr\<close>, with the blocks of the
    memory manager (\<open>thpq\<close>) and the scheduler (\<open>thker\<close>): attributes, creation, parameters, clock.
  \<^item> \<open>Service_Calls\<close>: sequences of calls against a specification, the locale \<open>immediate_service\<close> that the typed
    mailboxes and the mutexes implement.
  \<^item> \<open>Example_State\<close>, \<open>Example_Sched\<close>, \<open>Example_Ipc\<close>, \<open>Example_Fifos\<close>, \<open>Example_Mem\<close>, \<open>Example_Pqueues\<close>,
    \<open>Example_Tasklets\<close>, \<open>Example_Bits\<close>, \<open>Example_Tbx\<close>, \<open>Example_Watchdog\<close>, \<open>Example_Pthreads\<close>,
    \<open>Example_Tick_Queue\<close>:
    concrete states and the instances of the properties on them.

  \<^bold>\<open>Conventions.\<close>  The configuration is uniprocessor, one kernel task \<open>LINUX\<close>, address 0.
  Signed C integers and times are \<open>int\<close>, words whose bits are tested are \<open>32 word\<close>.  A function that
  cannot block is \<open>kst \<Rightarrow> kst option\<close>: \<open>None\<close> is a NULL dereference or an endless walk.  A
  function that may block has a result \<open>Ret\<close>, \<open>Stuck\<close> or \<open>Switch s k\<close>: the CPU is given away in the
  state \<open>s\<close>, and \<open>k\<close> runs the rest of the call from whatever state the caller is switched in
  again.  Loops along pointers are \<open>partial_function (option)\<close>, and their termination on well
  formed lists is part of the properties.  The loops that block, the scheduler's own repetition
  and the loops of sending and receiving, count down a number \<open>n\<close>: \<open>rt_schedule\<close> repeats only for
  a kernel task that has left the hard real time mode, so that \<open>n = 1\<close> is enough where
  \<open>linux_left\<close> holds; a loop of sending uses one unit per wait.

  \<^bold>\<open>Not modelled.\<close>  Several processors; the contents of the FPU and of the stacks; \<^verbatim>\<open>/proc\<close>;
  the interrupt controllers; the copies that mailboxes and fifos make outside their locks are
  atomic.  The components of the repository that are left out are listed with the reason in
  the manifest: drivers of devices, the Linux kernel side of the system call interface, libraries
  of third parties, examples.
\<close>

section \<open>Scheduling\<close>

text \<open>C1: whenever \<^verbatim>\<open>rt_schedule\<close> gives the CPU away, no ready task
  has a higher priority than the one that has got it, and the ready and the timed list are
  consistent.\<close>

theorem schedule_runs_highest:
  assumes "sched_inv s rq tq" and "rt_current s = LINUX \<or> live s (rt_current s)"
    and "0 \<le> cpu_freq (tuned s)" and "tsc s (tsc_reads s) + rt_half_tick s < RT_TIME_END"
    and "linux_left s"
  shows "\<exists>s' rq' tq'. left_in (rt_schedule (Suc n) s) = Some s' \<and> sched_inv s' rq' tq' \<and> runs_highest s'
    \<and> priority s' = priority s"
proof -
  obtain s' rq' tq' where "left_in (rt_schedule (Suc n) s) = Some s'" "sched_inv s' rq' tq'"
    "rt_current s' = hd (rq' @ [LINUX])" "priority s' = priority s"
    using rt_schedule_runs [OF assms] by blast
  then show ?thesis using runs_highestI by blast
qed

theorem schedule_runs_highest_witness:
  "\<exists>s' rq' tq'. left_in (rt_schedule (Suc 3) kern) = Some s' \<and> sched_inv s' rq' tq' \<and> runs_highest s'
    \<and> priority s' = priority kern"
  by (rule schedule_runs_highest [OF kern_inv])
    (simp_all add: linux_left_def)



section \<open>Byte streams\<close>

text \<open>A sequence of puts (\<open>Inl\<close>, of the bytes) and gets (\<open>Inr\<close>, of a number of bytes) on the circular
  buffer, with all that went in and all that came out.\<close>

primrec rb_run :: "(byte list + nat) list \<Rightarrow> byte ring_buf \<Rightarrow> (byte list \<times> byte list \<times> byte ring_buf) option" where
  "rb_run [] q = Some ([], [], q)"
| "rb_run (e # es) q = (case e of
     Inl xs \<Rightarrow> do { (left, q1) \<leftarrow> mbxput q xs; (ins, outs, q2) \<leftarrow> rb_run es q1;
                   Some (take (length xs - length left) xs @ ins, outs, q2) }
   | Inr n \<Rightarrow> do { (got, left, q1) \<leftarrow> mbxget q n; (ins, outs, q2) \<leftarrow> rb_run es q1; Some (ins, got @ outs, q2) })"

lemma rb_run_eq: "rb_run es = rb.run es"
proof (induction es)
  case (Cons e es)
  show ?case unfolding fun_eq_iff rb_run.simps rb.run.simps Cons by (intro allI refl)
qed (simp add: fun_eq_iff)

text \<open>C15: under every sequence of puts and gets the circular buffer behaves as a bounded
  queue: what has been put comes out in order, nothing is lost or made up.\<close>

theorem ring_buffer_is_queue:
  assumes "rb_ok q"
  shows "\<exists>ins outs q'. rb_run es q = Some (ins, outs, q') \<and> rb_ok q' \<and> rb_size q' = rb_size q
    \<and> contents q @ ins = outs @ contents q'"
  unfolding rb_run_eq by (rule rb.fifo [OF assms])

definition small_buf :: "byte ring_buf" where
  "small_buf = rb_init 3 [0, 0, 0]"

lemma small_buf_ok: "rb_ok small_buf" "contents small_buf = []"
  using rb_init_ok [of 3 "[0, 0, 0 :: byte]"] by (simp_all add: small_buf_def)

theorem ring_buffer_is_queue_witness:
  "\<exists>ins outs q'. rb_run [Inl [1, 2], Inr 1, Inl [3, 4, 5], Inr 5] small_buf = Some (ins, outs, q') \<and> rb_ok q'
    \<and> rb_size q' = rb_size small_buf \<and> contents small_buf @ ins = outs @ contents q'"
  by (rule ring_buffer_is_queue [OF small_buf_ok(1)])

theorem mbxovrwrput_ok_witness:
  "\<exists>m'. mbxovrwrput small_buf [1, 2, 3, 4] = Some m' \<and> contents m' = [2, 3, 4]"
  using mbxovrwrput_ok [OF small_buf_ok(1), of "[1, 2, 3, 4]"] small_buf_ok(2)
  by (auto simp: small_buf_def rb_init_def)

theorem rt_mbx_send_bounds_witness:
  "- EINVAL = - EINVAL \<or> 0 \<le> - EINVAL \<and> - EINVAL \<le> int (length [1, 2 :: byte])"
  by (rule rt_mbx_send_bounds [of 3 3 0 "[1, 2]" "kern\<lparr>mbxs := (\<lambda>_. no_mbx\<lparr>mbx_magic := 0\<rparr>)\<rparr>" "- EINVAL"
        "kern\<lparr>mbxs := (\<lambda>_. no_mbx\<lparr>mbx_magic := 0\<rparr>)\<rparr>"])
    (simp add: rt_mbx_send_def)

section \<open>Names\<close>

text \<open>A sequence of registrations (a name with its address and type) and removals.\<close>

primrec reg_run :: "(nat \<times> (nat \<times> int) option) list \<Rightarrow> registry \<Rightarrow> registry" where
  "reg_run [] r = r"
| "reg_run (e # es) r = reg_run es (case snd e of
     Some v \<Rightarrow> put_name (fst e) v r | None \<Rightarrow> del_name (fst e) r)"

lemma reg_run_eq: "reg_run es = reg.run es"
proof (induction es)
  case (Cons e es)
  show ?case unfolding fun_eq_iff reg_run.simps reg.run.simps Cons by (intro allI refl)
qed (simp add: fun_eq_iff)

text \<open>C40: the registry behaves as a map: under every sequence of registrations and removals
  of other names an entry is kept.\<close>

theorem registry_keeps:
  assumes "registry_ok r" and "\<forall>(k, v) \<in> set es. k \<noteq> 0 \<and> (\<forall>x. v = Some x \<longrightarrow> fst x \<noteq> 0)" and "(k, None) \<notin> set es"
    and "reg_map r k = Some (adr, typ)" and "k \<noteq> 0"
  shows "registry_ok (reg_run es r) \<and> rt_get_adr k (reg_run es r) = adr \<and> rt_get_type k (reg_run es r) = typ"
proof -
  have "reg_map (reg_run es r) k = Some (adr, typ)" "registry_ok (reg_run es r)"
    unfolding reg_run_eq using reg.run_keeps [OF assms(1-4)] reg.run_ok [OF assms(1,2)] by simp_all
  then show ?thesis using reg_map_get [of "reg_run es r" k] assms(5) by simp
qed

definition demo_reg :: registry where
  "demo_reg = \<lparr>lxrt_list = (\<lambda>_. null_entry)(1 := \<lparr>e_name = 77, e_adr = 4096, e_tsk = 0, e_pid = 0, e_type = 3\<rparr>), nameseed = 0\<rparr>"

theorem registry_keeps_witness:
  "rt_get_adr 77 (reg_run [(5, Some (8192, 1)), (77, Some (12288, 2)), (5, None)] demo_reg) = 4096"
proof -
  have ok: "registry_ok demo_reg" by (auto simp: registry_ok_def demo_reg_def null_entry_def)
  have "reg_map demo_reg 77 = Some (4096, 3)"
    using reg_map_iff [OF ok, of 77 4096 3] by (auto simp: demo_reg_def null_entry_def)
  then show ?thesis using registry_keeps [OF ok, of "[(5, Some (8192, 1)), (77, Some (12288, 2)), (5, None)]" 77 4096 3] by auto
qed

end
